(* ===== verification/Prelude.thy ===== *)
theory Prelude
  imports Main "HOL-Library.Word" "HOL-Library.Sublist"
begin

text \<open>
  The shared vocabulary of the development: byte strings, UTF-8 validity and the
  string functions of the Rust standard library that the modelled code calls,
  clocks and durations, saturating arithmetic, and the generic lemmas on lists that
  several components use.

  A Rust \<open>str\<close> or \<open>[u8]\<close> is a \<open>string\<close>, one \<open>char\<close> per byte, so
  \<open>length\<close> is Rust's \<open>len()\<close>. An \<open>Instant\<close> and a \<open>Duration\<close> are a number of
  nanoseconds since an arbitrary origin.
\<close>

named_theorems inv_simps \<open>unfoldings of the component invariants\<close>
named_theorems frame \<open>fields an operation leaves alone\<close>

type_synonym bytes = string
type_synonym instant = nat
type_synonym duration = nat

subsection \<open>Time\<close>

definition nanos_per_sec :: nat where
  "nanos_per_sec = 1000000000"

definition nanos_per_milli :: nat where
  "nanos_per_milli = 1000000"

definition from_secs :: "nat \<Rightarrow> duration" where
  "from_secs n = n * nanos_per_sec"

definition from_millis :: "nat \<Rightarrow> duration" where
  "from_millis n = n * nanos_per_milli"

definition as_secs :: "duration \<Rightarrow> nat" where
  "as_secs d = d div nanos_per_sec"

definition as_millis :: "duration \<Rightarrow> nat" where
  "as_millis d = d div nanos_per_milli"

text \<open>\<open>now.saturating_duration_since(t)\<close>; \<open>t.elapsed()\<close> is the same at the current time.\<close>

definition since :: "instant \<Rightarrow> instant \<Rightarrow> duration" where
  "since now t = now - t"

lemmas time_defs = nanos_per_sec_def nanos_per_milli_def from_secs_def from_millis_def
  as_secs_def as_millis_def since_def

lemma as_secs_less_iff: "as_secs d < n \<longleftrightarrow> d < from_secs n"
  by (simp add: time_defs less_mult_imp_div_less div_less_iff_less_mult)

lemma as_millis_ge_iff: "n \<le> as_millis d \<longleftrightarrow> from_millis n \<le> d"
  by (simp add: time_defs less_eq_div_iff_mult_less_eq)

subsection \<open>Saturating and checked machine arithmetic\<close>

definition saturating_sub :: "'a::len word \<Rightarrow> 'a word \<Rightarrow> 'a word" where
  "saturating_sub a b = (if a \<le> b then 0 else a - b)"

definition checked_mul :: "'a::len word \<Rightarrow> 'a word \<Rightarrow> 'a word option" where
  "checked_mul a b = (if unat a * unat b < 2 ^ LENGTH('a) then Some (a * b) else None)"

definition checked_add :: "'a::len word \<Rightarrow> 'a word \<Rightarrow> 'a word option" where
  "checked_add a b = (if unat a + unat b < 2 ^ LENGTH('a) then Some (a + b) else None)"

lemma unat_saturating_sub: "unat (saturating_sub a b) = unat a - unat b"
  by (auto simp: saturating_sub_def word_le_nat_alt unat_sub)

lemma saturating_sub_self [simp]: "saturating_sub a a = 0"
  by (simp add: saturating_sub_def)

lemma checked_mul_Some: "checked_mul a b = Some c \<Longrightarrow> unat c = unat a * unat b"
  by (auto simp: checked_mul_def unat_word_ariths take_bit_eq_mod split: if_splits)

lemma checked_add_Some: "checked_add a b = Some c \<Longrightarrow> unat c = unat a + unat b"
  by (auto simp: checked_add_def unat_word_ariths take_bit_eq_mod split: if_splits)

lemma unat_word_of_nat: "n < 2 ^ LENGTH('a) \<Longrightarrow> unat (word_of_nat n :: 'a::len word) = n"
  by (simp add: unsigned_of_nat take_bit_nat_eq_self_iff)

subsection \<open>Bytes\<close>

definition byte :: "char \<Rightarrow> nat" where
  "byte c = of_char c"

definition ESC :: char where "ESC = CHR 0x1B"
definition BEL :: char where "BEL = CHR 0x07"

definition byte_in :: "nat \<Rightarrow> nat \<Rightarrow> char \<Rightarrow> bool" where
  "byte_in lo hi c = (lo \<le> byte c \<and> byte c \<le> hi)"

definition is_ascii_digit :: "char \<Rightarrow> bool" where
  "is_ascii_digit c = byte_in 48 57 c"

definition to_ascii_lower :: "char \<Rightarrow> char" where
  "to_ascii_lower c = (if byte_in 65 90 c then char_of (byte c + 32) else c)"

lemma byte_less_256: "byte c < 256"
  by (simp add: byte_def)

text \<open>\<open>s.strip_prefix(p)\<close>\<close>

definition strip_prefix :: "'a list \<Rightarrow> 'a list \<Rightarrow> 'a list option" where
  "strip_prefix p s = (if prefix p s then Some (drop (length p) s) else None)"

lemma strip_prefix_Some: "strip_prefix p s = Some t \<longleftrightarrow> s = p @ t"
  by (auto simp: strip_prefix_def prefix_def)

definition strip_suffix :: "'a list \<Rightarrow> 'a list \<Rightarrow> 'a list option" where
  "strip_suffix q s = (if suffix q s then Some (take (length s - length q) s) else None)"

lemma strip_suffix_Some: "strip_suffix q s = Some t \<longleftrightarrow> s = t @ q"
  by (auto simp: strip_suffix_def suffix_def)

text \<open>
  \<open>iter().position(|b| b == c)\<close> splits a byte string at the first occurrence: the part
  before it and, if it occurs, the part after.
\<close>

fun split_at_byte :: "char \<Rightarrow> bytes \<Rightarrow> bytes \<times> bytes option" where
  "split_at_byte c [] = ([], None)"
| "split_at_byte c (b # bs) =
     (if b = c then ([], Some bs)
      else (let (p, r) = split_at_byte c bs in (b # p, r)))"

lemma split_at_byte_None: "c \<notin> set bs \<Longrightarrow> split_at_byte c bs = (bs, None)"
  by (induction bs) auto

lemma split_at_byte_append: "c \<notin> set p \<Longrightarrow> split_at_byte c (p @ c # r) = (p, Some r)"
  by (induction p) auto

subsection \<open>UTF-8\<close>

text \<open>
  \<open>std::str::from_utf8\<close> accepts exactly the well-formed sequences of the Unicode
  standard: no overlong form, no surrogate, nothing above U+10FFFF.
\<close>

definition cont :: "char \<Rightarrow> bool" where
  "cont c = byte_in 0x80 0xBF c"

fun valid_utf8 :: "bytes \<Rightarrow> bool" where
  "valid_utf8 [] = True"
| "valid_utf8 (a # s) =
     (if byte a < 0x80 then valid_utf8 s
      else if byte_in 0xC2 0xDF a then
        (case s of b # t \<Rightarrow> cont b \<and> valid_utf8 t | _ \<Rightarrow> False)
      else if byte_in 0xE0 0xEF a then
        (case s of b # c # t \<Rightarrow>
           (if byte a = 0xE0 then byte_in 0xA0 0xBF b
            else if byte a = 0xED then byte_in 0x80 0x9F b else cont b)
           \<and> cont c \<and> valid_utf8 t
         | _ \<Rightarrow> False)
      else if byte_in 0xF0 0xF4 a then
        (case s of b # c # d # t \<Rightarrow>
           (if byte a = 0xF0 then byte_in 0x90 0xBF b
            else if byte a = 0xF4 then byte_in 0x80 0x8F b else cont b)
           \<and> cont c \<and> cont d \<and> valid_utf8 t
         | _ \<Rightarrow> False)
      else False)"

declare valid_utf8.simps(2) [simp del]

lemma valid_utf8_ascii: "\<forall>c \<in> set s. byte c < 0x80 \<Longrightarrow> valid_utf8 s"
  by (induction s) (auto simp: valid_utf8.simps(2))

text \<open>\<open>std::str::from_utf8\<close>: the same bytes seen as a \<open>str\<close>, or an error.\<close>

definition from_utf8 :: "bytes \<Rightarrow> string option" where
  "from_utf8 s = (if valid_utf8 s then Some s else None)"

text \<open>
  \<open>char::is_whitespace\<close> is the Unicode property White\_Space; \<open>unicode_ws\<close> lists the UTF-8
  encodings of its 25 members. On a valid \<open>str\<close> an encoding that occurs at the
  front (at the end) is the first (last) character.
\<close>

definition unicode_ws :: "bytes list" where
  "unicode_ws =
     [[CHR 0x09], [CHR 0x0A], [CHR 0x0B], [CHR 0x0C], [CHR 0x0D], [CHR 0x20],
      [CHR 0xC2, CHR 0x85], [CHR 0xC2, CHR 0xA0], [CHR 0xE1, CHR 0x9A, CHR 0x80]]
     @ map (\<lambda>c. [CHR 0xE2, CHR 0x80, c])
         [CHR 0x80, CHR 0x81, CHR 0x82, CHR 0x83, CHR 0x84, CHR 0x85, CHR 0x86, CHR 0x87,
          CHR 0x88, CHR 0x89, CHR 0x8A, CHR 0xA8, CHR 0xA9, CHR 0xAF]
     @ [[CHR 0xE2, CHR 0x81, CHR 0x9F], [CHR 0xE3, CHR 0x80, CHR 0x80]]"

definition ws_at_front :: "bytes \<Rightarrow> bytes option" where
  "ws_at_front s = find (\<lambda>w. prefix w s) unicode_ws"

lemma unicode_ws_nonempty: "w \<in> set unicode_ws \<Longrightarrow> w \<noteq> []"
  by (auto simp: unicode_ws_def)

lemma ws_at_front_Some: "ws_at_front s = Some w \<Longrightarrow> w \<noteq> [] \<and> prefix w s"
  unfolding ws_at_front_def find_Some_iff using unicode_ws_nonempty by force

lemma ws_at_front_shrinks:
  assumes "ws_at_front s = Some w"
  shows "length (drop (length w) s) < length s"
proof -
  from assms have "w \<noteq> []" and "prefix w s" by (auto dest: ws_at_front_Some)
  then show ?thesis using prefix_length_le [of w s] by (cases w) auto
qed

function trim_start :: "string \<Rightarrow> string" where
  "trim_start s =
     (case ws_at_front s of None \<Rightarrow> s | Some w \<Rightarrow> trim_start (drop (length w) s))"
  by pat_completeness auto
termination
  by (relation "measure length") (use ws_at_front_shrinks in auto)

definition ws_at_end :: "bytes \<Rightarrow> bytes option" where
  "ws_at_end s = find (\<lambda>w. suffix w s) unicode_ws"

lemma ws_at_end_Some: "ws_at_end s = Some w \<Longrightarrow> w \<noteq> [] \<and> suffix w s"
  unfolding ws_at_end_def find_Some_iff using unicode_ws_nonempty by force

lemma ws_at_end_shrinks:
  assumes "ws_at_end s = Some w"
  shows "length (take (length s - length w) s) < length s"
proof -
  from assms have "w \<noteq> []" and "suffix w s" by (auto dest: ws_at_end_Some)
  then show ?thesis using suffix_length_le [of w s] by (cases w) auto
qed

function trim_end :: "string \<Rightarrow> string" where
  "trim_end s =
     (case ws_at_end s of None \<Rightarrow> s
      | Some w \<Rightarrow> trim_end (take (length s - length w) s))"
  by pat_completeness auto
termination
  by (relation "measure length") (use ws_at_end_shrinks in auto)

declare trim_start.simps [simp del] trim_end.simps [simp del]

definition trim :: "string \<Rightarrow> string" where
  "trim s = trim_end (trim_start s)"

lemma length_trim_start: "length (trim_start s) \<le> length s"
proof (induction s rule: trim_start.induct)
  case (1 s)
  then show ?case
    by (subst trim_start.simps)
      (auto split: option.splits dest: ws_at_front_shrinks)
qed

lemma length_trim_end: "length (trim_end s) \<le> length s"
proof (induction s rule: trim_end.induct)
  case (1 s)
  then show ?case
    by (subst trim_end.simps)
      (auto split: option.splits dest: ws_at_end_shrinks)
qed

lemma length_trim: "length (trim s) \<le> length s"
  unfolding trim_def using length_trim_start length_trim_end le_trans by blast

lemma trim_Nil [simp]: "trim [] = []"
  using length_trim [of "[]"] by simp

text \<open>\<open>s.split_whitespace()\<close>: the maximal runs of non-whitespace characters.\<close>

function split_ws_aux :: "bytes \<Rightarrow> bytes \<Rightarrow> bytes list" where
  "split_ws_aux acc s =
     (case ws_at_front s of
        Some w \<Rightarrow> (if acc = [] then [] else [rev acc]) @ split_ws_aux [] (drop (length w) s)
      | None \<Rightarrow>
          (case s of [] \<Rightarrow> (if acc = [] then [] else [rev acc])
           | c # t \<Rightarrow> split_ws_aux (c # acc) t))"
  by pat_completeness auto
termination
  by (relation "measure (\<lambda>(acc, s). length s)") (use ws_at_front_shrinks in auto)

declare split_ws_aux.simps [simp del]

definition split_whitespace :: "string \<Rightarrow> string list" where
  "split_whitespace s = split_ws_aux [] s"

text \<open>\<open>s.replace(p, r)\<close>: the occurrences of a non-empty \<open>p\<close> from the left, without overlap.\<close>

function replace_all :: "bytes \<Rightarrow> bytes \<Rightarrow> bytes \<Rightarrow> bytes" where
  "replace_all p r s =
     (case s of [] \<Rightarrow> []
      | c # cs \<Rightarrow> (if p \<noteq> [] \<and> prefix p s then r @ replace_all p r (drop (length p) s)
                   else c # replace_all p r cs))"
  by pat_completeness auto
termination
  by (relation "measure (\<lambda>(p, r, s). length s)") (auto simp: length_greater_0_conv)

declare replace_all.simps [simp del]

text \<open>\<open>s.split(c)\<close>: always at least one part.\<close>

fun split_on :: "char \<Rightarrow> bytes \<Rightarrow> bytes list" where
  "split_on c [] = [[]]"
| "split_on c (b # bs) =
     (if b = c then [] # split_on c bs
      else (case split_on c bs of [] \<Rightarrow> [[b]] | p # ps \<Rightarrow> (b # p) # ps))"

lemma split_on_nonempty [simp]: "split_on c s \<noteq> []"
  by (induction s) (auto split: list.split)

text \<open>\<open>s.chars()\<close> on a valid \<open>str\<close>, each character as its encoding: a byte and the
  continuation bytes that follow it.\<close>

function utf8_chars :: "bytes \<Rightarrow> bytes list" where
  "utf8_chars [] = []"
| "utf8_chars (b # s) = (b # takeWhile cont s) # utf8_chars (dropWhile cont s)"
  by pat_completeness auto
termination
  by (relation "measure length") (auto simp: le_imp_less_Suc length_dropWhile_le)

lemma concat_utf8_chars [simp]: "concat (utf8_chars s) = s"
  by (induction s rule: utf8_chars.induct) auto

text \<open>\<open>iter().find_map(f)\<close>\<close>

fun first_some :: "('a \<Rightarrow> 'b option) \<Rightarrow> 'a list \<Rightarrow> 'b option" where
  "first_some f [] = None"
| "first_some f (x # xs) = (case f x of Some y \<Rightarrow> Some y | None \<Rightarrow> first_some f xs)"

subsection \<open>Decimal integers\<close>

definition digit_val :: "char \<Rightarrow> nat" where
  "digit_val c = byte c - 48"

fun parse_digits :: "nat \<Rightarrow> bytes \<Rightarrow> nat option" where
  "parse_digits n [] = Some n"
| "parse_digits n (c # cs) =
     (if is_ascii_digit c then parse_digits (10 * n + digit_val c) cs else None)"

text \<open>\<open>s.parse::<i32>()\<close>: an optional sign, at least one digit, and no overflow.\<close>

definition parse_i32 :: "string \<Rightarrow> int option" where
  "parse_i32 s =
     (let (neg, ds) = (case s of [] \<Rightarrow> (False, [])
          | c # cs \<Rightarrow> if c = CHR ''-'' then (True, cs)
                      else if c = CHR ''+'' then (False, cs) else (False, s))
      in if ds = [] then None
         else (case parse_digits 0 ds of None \<Rightarrow> None
           | Some n \<Rightarrow>
               (let v = (if neg then - int n else int n)
                in if - (2 ^ 31) \<le> v \<and> v < 2 ^ 31 then Some v else None)))"

text \<open>The value of a digit string read after the digits of \<open>n\<close>.\<close>

definition dec_val :: "nat \<Rightarrow> bytes \<Rightarrow> nat" where
  "dec_val n ds = foldl (\<lambda>n c. 10 * n + digit_val c) n ds"

lemma dec_val_simps [simp]:
  "dec_val n [] = n"
  "dec_val n (c # cs) = dec_val (10 * n + digit_val c) cs"
  by (simp_all add: dec_val_def)

lemma dec_val_ge: "n \<le> dec_val n ds"
proof (induction ds arbitrary: n)
  case Nil
  then show ?case by simp
next
  case (Cons c cs)
  have "n \<le> 10 * n + digit_val c" by simp
  also have "\<dots> \<le> dec_val (10 * n + digit_val c) cs" by (rule Cons.IH)
  finally show ?case by simp
qed

lemma digit_val_le: "is_ascii_digit c \<Longrightarrow> digit_val c \<le> 9"
  by (auto simp: is_ascii_digit_def byte_in_def digit_val_def)

text \<open>\<open>parts.join(sep)\<close>\<close>

fun join :: "bytes \<Rightarrow> bytes list \<Rightarrow> bytes" where
  "join sep [] = []"
| "join sep [p] = p"
| "join sep (p # q # ps) = p @ sep @ join sep (q # ps)"

subsection \<open>Byte scanners\<close>

text \<open>
  The PTY reader threads feed the output of a child process to several scanners, one
  read at a time. \<open>step\<close> consumes a byte, \<open>process\<close> a whole read; the law of
  the interface is that \<open>process\<close> is \<open>step\<close> iterated, whatever shortcuts it takes.
  The client facts are that the reads may be cut anywhere and that a
  property kept by each byte is kept by any input.
\<close>

fun scan_chunks :: "('s \<Rightarrow> bytes \<Rightarrow> 's \<times> 'e list) \<Rightarrow> 's \<Rightarrow> bytes list \<Rightarrow> 's \<times> 'e list" where
  "scan_chunks process s [] = (s, [])"
| "scan_chunks process s (c # cs) =
     (let (s1, e1) = process s c; (s2, e2) = scan_chunks process s1 cs in (s2, e1 @ e2))"

locale byte_scanner =
  fixes step :: "'s \<Rightarrow> char \<Rightarrow> 's \<times> 'e list"
    and process :: "'s \<Rightarrow> bytes \<Rightarrow> 's \<times> 'e list"
  assumes process_Nil: "process s [] = (s, [])"
    and process_Cons: "process s (b # bs) =
      (let (s1, e1) = step s b; (s2, e2) = process s1 bs in (s2, e1 @ e2))"
begin

lemma process_append:
  "process s (xs @ ys) =
    (let (s1, e1) = process s xs; (s2, e2) = process s1 ys in (s2, e1 @ e2))"
  by (induction xs arbitrary: s) (auto simp: process_Nil process_Cons Let_def split: prod.splits)

lemma scan_chunks_concat: "scan_chunks process s cs = process s (concat cs)"
  by (induction cs arbitrary: s) (auto simp: process_Nil process_append Let_def split: prod.splits)

lemma process_keeps:
  assumes "\<And>s b. P s \<Longrightarrow> P (fst (step s b))" and "P s"
  shows "P (fst (process s bs))"
  using assms(2)
proof (induction bs arbitrary: s)
  case Nil
  then show ?case by (simp add: process_Nil)
next
  case (Cons b bs)
  have "P (fst (step s b))" using Cons.prems by (rule assms(1))
  then have "P (fst (process (fst (step s b)) bs))" by (rule Cons.IH)
  then show ?case by (auto simp: process_Cons Let_def split: prod.splits)
qed

lemma process_silent:
  assumes "\<And>b. b \<in> set bs \<Longrightarrow> step s b = (s, [])"
  shows "process s bs = (s, [])"
  using assms by (induction bs) (auto simp: process_Nil process_Cons)

end

end
