(* ===== verification/Csi_Mode.thy ===== *)
theory Csi_Mode
  imports Prelude
begin

text \<open>
  The detector of DEC private modes,
  \<open>cc-panes-core/src/services/terminal_service/csi_mode_detect.rs\<close>: a byte machine that
  watches the output of a session for bracketed paste (mode 2004) and for the end of the
  alternate buffer (mode 1049). Parameters are \<open>u16\<close> values accumulated with checked
  arithmetic, so a parameter that does not fit poisons the sequence.
\<close>

datatype csi_mode_signal = PasteReady bool | AlternateBufferExited

datatype csi_state = CsiGround | CsiEsc | CsiCsi | CsiPrivate

record csi_detector =
  cd_state :: csi_state
  cd_params :: "16 word list"
  cd_current :: "16 word option"
  cd_invalid :: bool

definition csi_new :: csi_detector where
  "csi_new = \<lparr>cd_state = CsiGround, cd_params = [], cd_current = None, cd_invalid = False\<rparr>"

definition push_digit :: "16 word \<Rightarrow> csi_detector \<Rightarrow> csi_detector" where
  "push_digit digit d =
     (let value = (case cd_current d of None \<Rightarrow> 0 | Some v \<Rightarrow> v)
      in case Option.bind (checked_mul value 10) (\<lambda>v. checked_add v digit) of
           Some v \<Rightarrow> d\<lparr>cd_current := Some v\<rparr>
         | None \<Rightarrow> d\<lparr>cd_invalid := True\<rparr>)"

definition finish_param :: "csi_detector \<Rightarrow> csi_detector" where
  "finish_param d =
     (case cd_current d of
        Some p \<Rightarrow> d\<lparr>cd_current := None, cd_params := cd_params d @ [p]\<rparr>
      | None \<Rightarrow> d\<lparr>cd_invalid := True\<rparr>)"

definition reset_params :: "csi_detector \<Rightarrow> csi_detector" where
  "reset_params d = d\<lparr>cd_params := [], cd_current := None, cd_invalid := False\<rparr>"

definition csi_param_signal :: "char \<Rightarrow> 16 word \<Rightarrow> csi_mode_signal list" where
  "csi_param_signal b p =
     (if p = 2004 \<and> b = CHR ''h'' then [PasteReady True]
      else if p = 2004 \<and> b = CHR ''l'' then [PasteReady False]
      else if p = 1049 \<and> b = CHR ''l'' then [AlternateBufferExited]
      else [])"

definition csi_step :: "csi_detector \<Rightarrow> char \<Rightarrow> csi_detector \<times> csi_mode_signal list" where
  "csi_step d b =
     (case cd_state d of
        CsiGround \<Rightarrow> (if b = ESC then d\<lparr>cd_state := CsiEsc\<rparr> else d, [])
      | CsiEsc \<Rightarrow>
          (if b = CHR ''['' then d\<lparr>cd_state := CsiCsi\<rparr>
           else if b = ESC then d
           else d\<lparr>cd_state := CsiGround\<rparr>, [])
      | CsiCsi \<Rightarrow>
          (if b = CHR ''?'' then (reset_params d)\<lparr>cd_state := CsiPrivate\<rparr>
           else if b = ESC then d\<lparr>cd_state := CsiEsc\<rparr>
           else if byte_in 0x40 0x7E b then d\<lparr>cd_state := CsiGround\<rparr>
           else d, [])
      | CsiPrivate \<Rightarrow>
          (if is_ascii_digit b then (push_digit (word_of_nat (digit_val b)) d, [])
           else if b = CHR '';'' then (finish_param d, [])
           else if b = CHR ''h'' \<or> b = CHR ''l'' then
             (let d1 = finish_param d
              in ((reset_params d1)\<lparr>cd_state := CsiGround\<rparr>,
                  if cd_invalid d1 then [] else concat (map (csi_param_signal b) (cd_params d1))))
           else if b = ESC then ((reset_params d)\<lparr>cd_state := CsiEsc\<rparr>, [])
           else if byte_in 0x40 0x7E b then ((reset_params d)\<lparr>cd_state := CsiGround\<rparr>, [])
           else (d\<lparr>cd_invalid := True\<rparr>, [])))"

fun csi_process :: "csi_detector \<Rightarrow> bytes \<Rightarrow> csi_detector \<times> csi_mode_signal list" where
  "csi_process d [] = (d, [])"
| "csi_process d (b # bs) =
     (let (d1, e1) = csi_step d b; (d2, e2) = csi_process d1 bs in (d2, e1 @ e2))"

interpretation csi: byte_scanner csi_step csi_process
  by unfold_locales simp_all

lemmas csi_append = csi.process_append

subsection \<open>Digits\<close>

definition cur_val :: "csi_detector \<Rightarrow> nat" where
  "cur_val d = (case cd_current d of None \<Rightarrow> 0 | Some v \<Rightarrow> unat v)"

definition all_digits :: "bytes \<Rightarrow> bool" where
  "all_digits ds = list_all is_ascii_digit ds"

lemma cur_val_less: "cur_val d < 65536"
proof (cases "cd_current d")
  case (Some v)
  then show ?thesis using unsigned_less [of v, where 'a = nat] by (simp add: cur_val_def)
qed (simp add: cur_val_def)

lemma cur_val_set: "n < 65536 \<Longrightarrow> cur_val (d\<lparr>cd_current := Some (word_of_nat n)\<rparr>) = n"
  using unat_word_of_nat [of n, where 'a = 16] by (simp add: cur_val_def)

lemma push_digit_fits:
  assumes "is_ascii_digit c" and "10 * cur_val d + digit_val c < 65536"
  shows "push_digit (word_of_nat (digit_val c)) d =
    d\<lparr>cd_current := Some (word_of_nat (10 * cur_val d + digit_val c))\<rparr>"
proof -
  define v where "v = (case cd_current d of None \<Rightarrow> (0 :: 16 word) | Some v \<Rightarrow> v)"
  have v: "unat v = cur_val d" by (auto simp: v_def cur_val_def split: option.splits)
  have dig: "unat (word_of_nat (digit_val c) :: 16 word) = digit_val c"
    using digit_val_le [OF assms(1)] by (simp add: unat_word_of_nat)
  have mul: "checked_mul v 10 = Some (v * 10)"
    using assms(2) v by (simp add: checked_mul_def)
  have unat_mul: "unat (v * 10) = cur_val d * 10"
    using checked_mul_Some [OF mul] v by simp
  have add: "checked_add (v * 10) (word_of_nat (digit_val c)) = Some (v * 10 + word_of_nat (digit_val c))"
    using assms(2) unat_mul dig by (simp add: checked_add_def)
  have sum: "v * 10 + word_of_nat (digit_val c) = (word_of_nat (10 * cur_val d + digit_val c) :: 16 word)"
    by (simp add: mult.commute flip: v)
  show ?thesis
    by (simp only: push_digit_def Let_def mul add sum v_def [symmetric] bind.bind_lunit option.case)
qed

lemma push_digit_overflows:
  assumes "is_ascii_digit c" and "65536 \<le> 10 * cur_val d + digit_val c"
  shows "push_digit (word_of_nat (digit_val c)) d = d\<lparr>cd_invalid := True\<rparr>"
proof -
  define v where "v = (case cd_current d of None \<Rightarrow> (0 :: 16 word) | Some v \<Rightarrow> v)"
  have v: "unat v = cur_val d" by (auto simp: v_def cur_val_def split: option.splits)
  have dig: "unat (word_of_nat (digit_val c) :: 16 word) = digit_val c"
    using digit_val_le [OF assms(1)] by (simp add: unat_word_of_nat)
  have "Option.bind (checked_mul v 10) (\<lambda>v. checked_add v (word_of_nat (digit_val c))) = None"
  proof (cases "checked_mul v 10")
    case (Some w)
    then have "unat w = cur_val d * 10" using checked_mul_Some v by fastforce
    with assms(2) dig Some show ?thesis by (simp add: checked_add_def)
  qed simp
  then show ?thesis by (simp add: push_digit_def Let_def flip: v_def)
qed

lemma digit_step:
  "cd_state d = CsiPrivate \<Longrightarrow> is_ascii_digit c \<Longrightarrow>
    csi_step d c = (push_digit (word_of_nat (digit_val c)) d, [])"
  by (simp add: csi_step_def)

lemma semicolon_step: "cd_state d = CsiPrivate \<Longrightarrow> csi_step d (CHR '';'') = (finish_param d, [])"
  by (simp add: csi_step_def is_ascii_digit_def byte_in_def byte_def)

lemma digits_fit:
  assumes "cd_state d = CsiPrivate" and "all_digits ds" and "ds \<noteq> []"
    and "dec_val (cur_val d) ds < 65536"
  shows "csi_process d ds = (d\<lparr>cd_current := Some (word_of_nat (dec_val (cur_val d) ds))\<rparr>, [])"
  using assms
proof (induction ds arbitrary: d)
  case (Cons c cs)
  let ?n = "10 * cur_val d + digit_val c"
  have n: "?n < 65536" using Cons.prems(4) dec_val_ge [of ?n cs] by simp
  let ?d = "d\<lparr>cd_current := Some (word_of_nat ?n)\<rparr>"
  have cur: "cur_val ?d = ?n" using n by (rule cur_val_set)
  have step: "csi_step d c = (?d, [])"
    using Cons.prems n by (simp add: digit_step push_digit_fits all_digits_def)
  show ?case
  proof (cases "cs = []")
    case True
    with step show ?thesis by simp
  next
    case False
    then have "csi_process ?d cs = (?d\<lparr>cd_current := Some (word_of_nat (dec_val ?n cs))\<rparr>, [])"
      using Cons.IH [of ?d] Cons.prems cur by (simp add: all_digits_def)
    with step show ?thesis by simp
  qed
qed simp

lemma final_byte:
  assumes "fin = CHR ''h'' \<or> fin = CHR ''l''"
  shows "\<not> is_ascii_digit fin" and "fin \<noteq> CHR '';''"
  using assms by (auto simp: is_ascii_digit_def byte_in_def byte_def)

lemma reset_ground: "(reset_params d)\<lparr>cd_state := CsiGround\<rparr> = csi_new"
  by (cases d) (simp add: reset_params_def csi_new_def)

lemma final_step_eq:
  assumes "cd_state d = CsiPrivate" and "fin = CHR ''h'' \<or> fin = CHR ''l''"
  shows "csi_step d fin =
    (csi_new, if cd_invalid (finish_param d) then []
      else concat (map (csi_param_signal fin) (cd_params (finish_param d))))"
  using assms final_byte [OF assms(2)] by (simp add: csi_step_def Let_def reset_ground)

text \<open>Once a sequence is invalid it stays so, and silent, until its final byte.\<close>

definition param_byte :: "char \<Rightarrow> bool" where
  "param_byte b = (is_ascii_digit b \<or> b = CHR '';'')"

lemma invalid_step:
  "cd_state d = CsiPrivate \<Longrightarrow> cd_invalid d \<Longrightarrow> param_byte b \<Longrightarrow>
    \<exists>d'. csi_step d b = (d', []) \<and> cd_state d' = CsiPrivate \<and> cd_invalid d'"
  by (auto simp: param_byte_def digit_step semicolon_step push_digit_def finish_param_def Let_def
      split: option.splits)

lemma invalid_run:
  assumes "cd_state d = CsiPrivate" and "cd_invalid d" and "list_all param_byte bs"
    and "fin = CHR ''h'' \<or> fin = CHR ''l''"
  shows "csi_process d (bs @ [fin]) = (csi_new, [])"
  using assms(1-3)
proof (induction bs arbitrary: d)
  case Nil
  then have "csi_step d fin = (csi_new, [])"
    using assms(4) by (simp add: final_step_eq finish_param_def split: option.splits)
  then show ?case by simp
next
  case (Cons b bs)
  then obtain d' where "csi_step d b = (d', [])" "cd_state d' = CsiPrivate" "cd_invalid d'"
    using invalid_step [of d b] by auto
  with Cons show ?case by simp
qed

lemma digits_overflow:
  assumes "cd_state d = CsiPrivate" and "all_digits ds" and "65536 \<le> dec_val (cur_val d) ds"
    and "list_all param_byte bs" and "fin = CHR ''h'' \<or> fin = CHR ''l''"
  shows "csi_process d (ds @ bs @ [fin]) = (csi_new, [])"
  using assms(1-3)
proof (induction ds arbitrary: d)
  case Nil
  then show ?case using cur_val_less [of d] by simp
next
  case (Cons c cs)
  let ?n = "10 * cur_val d + digit_val c"
  have c: "is_ascii_digit c" and cs: "all_digits cs" using Cons.prems by (auto simp: all_digits_def)
  show ?case
  proof (cases "?n < 65536")
    case True
    let ?d = "d\<lparr>cd_current := Some (word_of_nat ?n)\<rparr>"
    have "cur_val ?d = ?n" using True by (rule cur_val_set)
    then have "csi_process ?d (cs @ bs @ [fin]) = (csi_new, [])"
      using Cons.IH [of ?d] Cons.prems cs by simp
    with Cons.prems(1) c True show ?thesis by (simp add: digit_step push_digit_fits)
  next
    case False
    have "list_all param_byte (cs @ bs)"
      using cs assms(4) by (auto simp: all_digits_def param_byte_def list_all_iff)
    then have "csi_process (d\<lparr>cd_invalid := True\<rparr>) ((cs @ bs) @ [fin]) = (csi_new, [])"
      using Cons.prems(1) assms(5) by (intro invalid_run) auto
    with Cons.prems(1) c False show ?thesis by (simp add: digit_step push_digit_overflows)
  qed
qed

subsection \<open>Whole sequences\<close>

definition mode_signal :: "char \<Rightarrow> nat \<Rightarrow> csi_mode_signal list" where
  "mode_signal fin n =
     (if n = 2004 then [PasteReady (fin = CHR ''h'')]
      else if n = 1049 \<and> fin = CHR ''l'' then [AlternateBufferExited]
      else [])"

lemma param_signal_mode:
  assumes "fin = CHR ''h'' \<or> fin = CHR ''l''"
  shows "csi_param_signal fin = mode_signal fin \<circ> unat"
proof
  fix p :: "16 word"
  have "p = 2004 \<longleftrightarrow> unat p = 2004" and "p = 1049 \<longleftrightarrow> unat p = 1049"
    by (simp_all add: word_unat_eq_iff)
  with assms show "csi_param_signal fin p = (mode_signal fin \<circ> unat) p"
    by (auto simp: csi_param_signal_def mode_signal_def)
qed

lemma final_step:
  assumes "cd_state d = CsiPrivate" and "\<not> cd_invalid d" and "cd_current d = Some p"
    and "fin = CHR ''h'' \<or> fin = CHR ''l''"
  shows "csi_step d fin =
    (csi_new, concat (map (mode_signal fin \<circ> unat) (cd_params d @ [p])))"
  using assms by (simp add: final_step_eq finish_param_def param_signal_mode comp_def)

lemma separator_step:
  "cd_state d = CsiPrivate \<Longrightarrow> cd_current d = Some p \<Longrightarrow>
    csi_step d (CHR '';'') = (d\<lparr>cd_current := None, cd_params := cd_params d @ [p]\<rparr>, [])"
  by (simp add: semicolon_step finish_param_def)

lemma join_params: "\<forall>ds \<in> set dss. all_digits ds \<Longrightarrow> list_all param_byte (join '';'' dss)"
  by (induction "'';''" dss rule: join.induct)
    (auto simp: all_digits_def param_byte_def list_all_iff)

lemma params_run:
  assumes "cd_state d = CsiPrivate" and "cd_current d = None" and "\<not> cd_invalid d"
    and "\<forall>ds \<in> set dss. all_digits ds \<and> ds \<noteq> []" and "dss \<noteq> []"
    and fin: "fin = CHR ''h'' \<or> fin = CHR ''l''"
  shows "csi_process d (join '';'' dss @ [fin]) =
    (csi_new,
     if \<forall>ds \<in> set dss. dec_val 0 ds < 65536
     then concat (map (mode_signal fin) (map unat (cd_params d) @ map (dec_val 0) dss))
     else [])"
  using assms(1-5)
proof (induction dss arbitrary: d)
  case (Cons ds dss)
  have ds: "all_digits ds" "ds \<noteq> []" and cur: "cur_val d = 0"
    using Cons.prems by (auto simp: cur_val_def)
  define rest where "rest = (if dss = [] then [] else CHR '';'' # join '';'' dss)"
  have split: "join '';'' (ds # dss) = ds @ rest"
    by (cases dss) (auto simp: rest_def)
  have rest: "list_all param_byte rest"
    using Cons.prems(4) join_params [of dss] by (auto simp: rest_def param_byte_def)
  show ?case
  proof (cases "dec_val 0 ds < 65536")
    case False
    then show ?thesis
      using digits_overflow [OF Cons.prems(1) ds(1) _ rest fin] cur by (auto simp: split)
  next
    case True
    let ?w = "word_of_nat (dec_val 0 ds) :: 16 word"
    have w: "unat ?w = dec_val 0 ds" using True by (simp add: unat_word_of_nat)
    let ?d = "d\<lparr>cd_current := Some ?w\<rparr>"
    have run: "csi_process d ds = (?d, [])"
      using digits_fit [OF Cons.prems(1) ds] cur True by simp
    show ?thesis
    proof (cases "dss = []")
      case True': True
      have "csi_step ?d fin = (csi_new, concat (map (mode_signal fin \<circ> unat) (cd_params d @ [?w])))"
        using final_step [of ?d ?w fin] Cons.prems fin by simp
      with run True True' w show ?thesis
        by (simp add: split rest_def csi_append comp_def)
    next
      case False
      let ?e = "d\<lparr>cd_current := None, cd_params := cd_params d @ [?w]\<rparr>"
      have "csi_step ?d (CHR '';'') = (?e, [])"
        using separator_step [of ?d ?w] Cons.prems(1) by simp
      moreover have "csi_process ?e (join '';'' dss @ [fin]) =
        (csi_new,
         if \<forall>ds \<in> set dss. dec_val 0 ds < 65536
         then concat (map (mode_signal fin) (map unat (cd_params ?e) @ map (dec_val 0) dss))
         else [])"
        using Cons.IH [of ?e] Cons.prems False by simp
      ultimately show ?thesis
        using run True False w by (simp add: split rest_def csi_append)
    qed
  qed
qed simp

subsection \<open>Properties\<close>

text \<open>The reads of the PTY may be cut anywhere: the detector reaches the same state and
  emits the same signals as if the whole output had arrived in one read.\<close>

theorem csi_chunking: "scan_chunks csi_process d chunks = csi_process d (concat chunks)"
  by (rule csi.scan_chunks_concat)

text \<open>On \<open>ESC [ ? p1 ; ... ; pn h\<close> (or \<open>l\<close>), with any non-empty decimal parameters, the
  detector returns to its initial state and reports, in order, exactly the signals of the
  parameters 2004 (set or reset) and 1049 (reset), unless one of the parameters exceeds
  65535, in which case it reports nothing.\<close>

theorem csi_private_sequence:
  assumes "dss \<noteq> []" and "\<forall>ds \<in> set dss. all_digits ds \<and> ds \<noteq> []"
    and "fin = CHR ''h'' \<or> fin = CHR ''l''"
  shows "csi_process csi_new (ESC # ''[?'' @ join '';'' dss @ [fin]) =
    (csi_new,
     if \<forall>ds \<in> set dss. dec_val 0 ds < 65536
     then concat (map (mode_signal fin \<circ> dec_val 0) dss) else [])"
proof -
  let ?d = "csi_new\<lparr>cd_state := CsiPrivate\<rparr>"
  have open_seq: "csi_process csi_new (ESC # ''[?'' @ bs) = csi_process ?d bs" for bs
    by (simp add: csi_step_def csi_new_def reset_params_def ESC_def Let_def split: prod.splits)
  have "csi_process ?d (join '';'' dss @ [fin]) =
    (csi_new,
     if \<forall>ds \<in> set dss. dec_val 0 ds < 65536
     then concat (map (mode_signal fin) (map unat (cd_params ?d) @ map (dec_val 0) dss)) else [])"
    using assms by (intro params_run) (simp_all add: csi_new_def)
  moreover have "cd_params ?d = []" by (simp add: csi_new_def)
  ultimately show ?thesis unfolding open_seq by (simp add: comp_def)
qed

theorem csi_private_sequence_witness:
  "csi_process csi_new (ESC # ''[?'' @ join '';'' [''25'', ''2004''] @ ''h'') =
    (csi_new, [PasteReady True])"
proof -
  have "\<forall>ds \<in> set [''25'', ''2004'']. all_digits ds \<and> ds \<noteq> []"
    by (simp add: all_digits_def is_ascii_digit_def byte_in_def byte_def)
  from csi_private_sequence [OF _ this, of "CHR ''h''"] show ?thesis
    by (simp add: dec_val_def digit_val_def byte_def mode_signal_def)
qed

end
