(* ===== verification/Output_Filter.thy ===== *)
theory Output_Filter
  imports Prelude
begin

text \<open>
  The filters between the PTY and everything that reads its output, in
  \<open>cc-panes-core/src/services/terminal_service.rs\<close>: the removal of the cursor artefacts of
  the Windows console host, which a read can cut in the middle, and the decoding to UTF-8,
  which must not tear a character apart. The GBK decoder of the crate \<open>encoding_rs\<close>, the
  fallback for text that is not UTF-8, is the parameter \<open>gbk\<close>.
\<close>

subsection \<open>Console artefacts\<close>

definition BS :: char where
  "BS = CHR 0x08"

definition CONPTY_STYLE_ONLY :: bytes where
  "CONPTY_STYLE_ONLY =
     [ESC] @ ''[39m'' @ [ESC] @ ''[49m'' @ [ESC] @ ''[59m'' @ [ESC] @ ''[0m'' @ [ESC] @ ''[?25l''"

definition redraw_tail :: bytes where
  "redraw_tail = [ESC] @ ''[7m ''"

text \<open>The length of the artefact at the front of the data, if there is one: seven bytes for
  a redrawn cursor, 25 for an idle frame.\<close>

definition artifact_len :: "bytes \<Rightarrow> nat option" where
  "artifact_len s =
     (if 7 \<le> length s \<and> s ! 0 = BS \<and> take 5 (drop 2 s) = redraw_tail then Some 7
      else if prefix CONPTY_STYLE_ONLY s then Some (length CONPTY_STYLE_ONLY)
      else None)"

lemma conpty_length: "length CONPTY_STYLE_ONLY = 25"
  by (simp add: CONPTY_STYLE_ONLY_def)

lemma artifact_len_cases:
  assumes "artifact_len s = Some n"
  shows "n = 7 \<and> 7 \<le> length s \<or> n = 25 \<and> 25 \<le> length s"
  using assms prefix_length_le [of CONPTY_STYLE_ONLY s]
  by (auto simp: artifact_len_def conpty_length split: if_splits)

function strip_conpty_artifacts :: "bytes \<Rightarrow> bytes" where
  "strip_conpty_artifacts s =
     (case s of [] \<Rightarrow> []
      | b # bs \<Rightarrow>
          (case artifact_len s of
             Some n \<Rightarrow> strip_conpty_artifacts (drop n s)
           | None \<Rightarrow> b # strip_conpty_artifacts bs))"
  by pat_completeness auto
termination
  by (relation "measure length") (auto dest: artifact_len_cases)

declare strip_conpty_artifacts.simps [simp del]

definition is_prefix_of_any_pattern :: "bytes \<Rightarrow> bool" where
  "is_prefix_of_any_pattern data =
     (case data of [] \<Rightarrow> False
      | b # _ \<Rightarrow>
          (length data < 7 \<and> b = BS
             \<and> (length data \<le> 2 \<or> drop 2 data = take (length data - 2) redraw_tail))
          \<or> (length data < length CONPTY_STYLE_ONLY \<and> b = ESC
             \<and> data = take (length data) CONPTY_STYLE_ONLY))"

fun longest_partial :: "nat \<Rightarrow> bytes \<Rightarrow> nat" where
  "longest_partial 0 input = 0"
| "longest_partial (Suc k) input =
     (let suff = drop (length input - Suc k) input
      in if hd suff \<noteq> BS \<and> hd suff \<noteq> ESC then longest_partial k input
         else if is_prefix_of_any_pattern suff then Suc k
         else longest_partial k input)"

definition trailing_partial_len :: "bytes \<Rightarrow> nat" where
  "trailing_partial_len input = longest_partial (min 24 (length input)) input"

text \<open>\<open>sanitize_windows_output\<close>, with the carry of the state; the bytes returned and the new
  carry.\<close>

definition sanitize_windows_output :: "bool \<Rightarrow> bytes \<Rightarrow> bytes \<Rightarrow> bytes \<times> bytes" where
  "sanitize_windows_output disable chunk carry =
     (if disable then (chunk, carry)
      else
        (let combined = carry @ chunk;
             keep_len = trailing_partial_len combined;
             split_at = length combined - keep_len;
             ready = take split_at combined
         in (if ready = [] then [] else strip_conpty_artifacts ready, drop split_at combined)))"

fun sanitize_chunks :: "bytes list \<Rightarrow> bytes \<Rightarrow> bytes \<times> bytes" where
  "sanitize_chunks [] carry = ([], carry)"
| "sanitize_chunks (c # cs) carry =
     (let (out, carry1) = sanitize_windows_output False c carry;
          (outs, carry2) = sanitize_chunks cs carry1
      in (out @ outs, carry2))"

subsection \<open>No artefact straddles the carry\<close>

lemma longest_partial_le: "longest_partial k s \<le> k"
  by (induction k) (auto simp: Let_def le_SucI)

lemma longest_partial_prefix:
  "longest_partial k s = Suc n \<Longrightarrow>
    is_prefix_of_any_pattern (drop (length s - Suc n) s)
    \<and> hd (drop (length s - Suc n) s) \<in> {BS, ESC}"
  by (induction k) (auto simp: Let_def split: if_splits)

lemma longest_partial_max:
  "0 < j \<Longrightarrow> j \<le> k \<Longrightarrow> is_prefix_of_any_pattern (drop (length s - j) s) \<Longrightarrow>
    hd (drop (length s - j) s) \<in> {BS, ESC} \<Longrightarrow> j \<le> longest_partial k s"
proof (induction k)
  case (Suc k)
  then show ?case by (cases "j = Suc k") (auto simp: Let_def)
qed simp

lemma prefix_pattern_head:
  "is_prefix_of_any_pattern d \<Longrightarrow> d \<noteq> [] \<and> hd d \<in> {BS, ESC}"
  by (auto simp: is_prefix_of_any_pattern_def split: list.splits)

lemma style_not_self_overlapping:
  "k \<in> set [1..<25] \<Longrightarrow> \<not> prefix (drop k CONPTY_STYLE_ONLY) CONPTY_STYLE_ONLY"
proof -
  have "list_all (\<lambda>k. \<not> prefix (drop k CONPTY_STYLE_ONLY) CONPTY_STYLE_ONLY) [1..<25]"
    by code_simp
  then show "k \<in> set [1..<25] \<Longrightarrow> \<not> prefix (drop k CONPTY_STYLE_ONLY) CONPTY_STYLE_ONLY"
    by (simp add: list_all_iff)
qed

lemma take_5_redraw:
  assumes "7 \<le> length s" and "s ! 0 = BS" and "take 5 (drop 2 s) = redraw_tail"
  obtains x r where "s = BS # x # redraw_tail @ r"
proof -
  obtain a x s' where s: "s = a # x # s'" using assms(1)
    by (metis One_nat_def Suc_le_length_iff numeral_eq_Suc pred_numeral_simps(3))
  with assms have "a = BS" and "s' = redraw_tail @ drop 5 s'"
    by (simp_all, metis append_take_drop_id)
  with s that show thesis by blast
qed

lemma artifact_len_iff:
  "artifact_len s = Some n \<longleftrightarrow>
    (n = 7 \<and> (\<exists>x r. s = BS # x # redraw_tail @ r)) \<or> (n = 25 \<and> (\<exists>r. s = CONPTY_STYLE_ONLY @ r))"
proof -
  have seven: "(7 \<le> length s \<and> s ! 0 = BS \<and> take 5 (drop 2 s) = redraw_tail) =
      (\<exists>x r. s = BS # x # redraw_tail @ r)"
    by (rule iffI) (metis take_5_redraw, auto simp: redraw_tail_def)
  have "BS # x # redraw_tail @ r \<noteq> CONPTY_STYLE_ONLY @ r'"
    "CONPTY_STYLE_ONLY @ r' \<noteq> BS # x # redraw_tail @ r" for x r r'
    by (simp_all add: CONPTY_STYLE_ONLY_def BS_def ESC_def)
  then show ?thesis
    unfolding artifact_len_def seven conpty_length by (auto simp: prefix_def)
qed

lemma artifact_len_append:
  assumes "n \<le> length s"
  shows "artifact_len (s @ t) = Some n \<longleftrightarrow> artifact_len s = Some n"
proof -
  have *: "(\<exists>r. s @ t = p @ r) = (\<exists>r. s = p @ r)" if "length p \<le> length s" for p
  proof
    assume "\<exists>r. s @ t = p @ r"
    then obtain r where "s @ t = p @ r" by blast
    with that show "\<exists>r. s = p @ r" by (auto simp: append_eq_append_conv2)
  qed auto
  have 7: "(\<exists>r. s @ t = BS # x # redraw_tail @ r) = (\<exists>r. s = BS # x # redraw_tail @ r)"
    if "7 \<le> length s" for x
    using * [of "BS # x # redraw_tail"] that by (simp add: redraw_tail_def)
  show ?thesis
  proof (cases "n = 7")
    case True
    with assms show ?thesis by (simp add: artifact_len_iff 7)
  next
    case False
    with assms * [of CONPTY_STYLE_ONLY] show ?thesis
      by (auto simp only: artifact_len_iff conpty_length)
  qed
qed

lemma BS_notin_style: "BS \<notin> set CONPTY_STYLE_ONLY"
  by (simp add: CONPTY_STYLE_ONLY_def BS_def ESC_def)

text \<open>A complete artefact does not reach into a held-back part.\<close>

lemma artifact_before_carry:
  assumes "artifact_len (v @ c) = Some n" and "v \<noteq> []" and "is_prefix_of_any_pattern c"
  shows "n \<le> length v"
proof (rule ccontr)
  assume "\<not> n \<le> length v"
  then have k: "length v < n" by simp
  have c: "c = drop (length v) (v @ c)" by simp
  from assms(2) have pos: "0 < length v" by simp
  consider x r where "n = 7" "v @ c = BS # x # redraw_tail @ r"
    | r where "n = 25" "v @ c = CONPTY_STYLE_ONLY @ r"
    using assms(1) unfolding artifact_len_iff by blast
  then show False
  proof cases
    case 1
    with k pos have "length v \<in> {1, 2, 3, 4, 5, 6}"
      by (simp only: insert_iff empty_iff) linarith
    moreover have "c = drop (length v) (BS # x # redraw_tail @ r)" using c 1(2) by simp
    ultimately show False using assms(3)
      by (auto simp: redraw_tail_def is_prefix_of_any_pattern_def CONPTY_STYLE_ONLY_def BS_def ESC_def
          drop_Cons' take_Cons' split: if_splits)
  next
    case 2
    let ?k = "length v"
    have kk: "?k \<in> set [1..<25]" using k pos 2(1) by (simp add: Suc_le_eq)
    then have ce: "c = drop ?k CONPTY_STYLE_ONLY @ r"
      using c 2(2) by (simp add: conpty_length)
    moreover have "drop ?k CONPTY_STYLE_ONLY \<noteq> []" using kk by (simp add: conpty_length)
    ultimately have "hd c \<noteq> BS" using BS_notin_style by (metis hd_append2 hd_in_set in_set_dropD)
    with assms(3) have "prefix c CONPTY_STYLE_ONLY"
      by (auto simp: is_prefix_of_any_pattern_def split: list.splits) (metis take_is_prefix)
    with ce have "prefix (drop ?k CONPTY_STYLE_ONLY) CONPTY_STYLE_ONLY"
      by (metis append_prefixD)
    with style_not_self_overlapping [OF kk] show False by blast
  qed
qed

text \<open>An artefact cut by the end of a read makes what is there of it a partial pattern.\<close>

lemma artifact_cut:
  assumes "artifact_len (w @ t) = Some n" and "w \<noteq> []" and "length w < n"
  shows "is_prefix_of_any_pattern w"
proof -
  have w: "w = take (length w) (w @ t)" by simp
  from assms(2) have pos: "0 < length w" by simp
  consider x r where "n = 7" "w @ t = BS # x # redraw_tail @ r"
    | r where "n = 25" "w @ t = CONPTY_STYLE_ONLY @ r"
    using assms(1) unfolding artifact_len_iff by blast
  then show ?thesis
  proof cases
    case 1
    with assms(3) pos have "length w \<in> {1, 2, 3, 4, 5, 6}"
      by (simp only: insert_iff empty_iff) linarith
    moreover have "w = take (length w) (BS # x # redraw_tail @ r)" using w 1(2) by simp
    ultimately show ?thesis
      by (auto simp: redraw_tail_def is_prefix_of_any_pattern_def BS_def ESC_def take_Cons' drop_Cons'
          split: list.split if_splits)
  next
    case 2
    with w assms(3) have "w = take (length w) CONPTY_STYLE_ONLY"
      by (metis append_Nil2 conpty_length diff_is_0_eq less_or_eq_imp_le take_0 take_append)
    moreover obtain b w' where "w = b # w'" using assms(2) by (cases w) auto
    moreover from calculation have "b = ESC" by (simp add: CONPTY_STYLE_ONLY_def)
    ultimately show ?thesis using assms(3) 2(1)
      unfolding is_prefix_of_any_pattern_def by (simp only: list.case conpty_length) blast
  qed
qed

lemma artifact_len_local:
  assumes "s = u @ v @ c" and "length c = trailing_partial_len s" and "v \<noteq> []"
  shows "artifact_len (v @ c @ t) = artifact_len v"
proof -
  have c_partial: "is_prefix_of_any_pattern c" if "c \<noteq> []"
  proof -
    from that obtain n where "length c = Suc n" by (cases c) auto
    with assms(2) have "longest_partial (min 24 (length s)) s = Suc n"
      by (simp add: trailing_partial_len_def)
    from longest_partial_prefix [OF this] assms(1) \<open>length c = Suc n\<close> show ?thesis
      by (simp add: diff_add_assoc2)
  qed
  have "n \<le> length v" if a: "artifact_len (v @ c @ t) = Some n" for n
  proof (cases "n \<le> length (v @ c)")
    case True
    with a artifact_len_append [of n "v @ c" t] have "artifact_len (v @ c) = Some n" by simp
    then show ?thesis using artifact_before_carry [OF _ assms(3) c_partial] True by (cases "c = []") auto
  next
    case False
    with a assms(3) artifact_cut [of "v @ c" t n] have p: "is_prefix_of_any_pattern (v @ c)" by simp
    have "length (v @ c) \<le> 24" using False artifact_len_cases [OF a] by auto
    moreover have "drop (length s - length (v @ c)) s = v @ c" using assms(1) by simp
    ultimately have "length (v @ c) \<le> trailing_partial_len s"
      unfolding trailing_partial_len_def
      using longest_partial_max [of "length (v @ c)" "min 24 (length s)" s] p prefix_pattern_head [OF p]
        assms(1,3) by simp
    with assms(2,3) show ?thesis by simp
  qed
  moreover have "n \<le> length v" if "artifact_len v = Some n" for n
    using artifact_len_cases [OF that] by auto
  ultimately show ?thesis
    by (metis artifact_len_append not_None_eq)
qed

lemma strip_at_carry:
  assumes "s = u @ c" and "length c = trailing_partial_len s"
  shows "strip_conpty_artifacts (s @ t) = strip_conpty_artifacts u @ strip_conpty_artifacts (c @ t)"
proof -
  have "strip_conpty_artifacts (v @ c @ t) = strip_conpty_artifacts v @ strip_conpty_artifacts (c @ t)"
    if "suffix v u" for v
    using that
  proof (induction v rule: length_induct)
    case (1 v)
    show ?case
    proof (cases v)
      case Nil
      then show ?thesis by (simp add: strip_conpty_artifacts.simps)
    next
      case (Cons b v')
      from 1 obtain u0 where u: "u = u0 @ v" by (auto simp: suffix_def)
      have same: "artifact_len (v @ c @ t) = artifact_len v"
        using assms u Cons by (intro artifact_len_local [of s u0]) simp_all
      show ?thesis
      proof (cases "artifact_len v")
        case None
        have "suffix v' u" using 1(2) Cons by (meson suffix_ConsD)
        with 1(1) Cons None same show ?thesis
          by (simp add: strip_conpty_artifacts.simps [of "b # _"])
      next
        case (Some n)
        then have n: "0 < n" "n \<le> length v" using artifact_len_cases by fastforce+
        have "suffix (drop n v) u" using 1(2) suffix_drop suffix_order.trans by blast
        with 1(1) n Cons have IH: "strip_conpty_artifacts (drop n v @ c @ t) =
            strip_conpty_artifacts (drop n v) @ strip_conpty_artifacts (c @ t)" by simp
        have "strip_conpty_artifacts (v @ c @ t) = strip_conpty_artifacts (drop n (v @ c @ t))"
          using Cons same Some by (subst strip_conpty_artifacts.simps) simp
        moreover have "strip_conpty_artifacts v = strip_conpty_artifacts (drop n v)"
          using Cons Some by (subst strip_conpty_artifacts.simps) simp
        ultimately show ?thesis using IH n(2) by simp
      qed
    qed
  qed
  from this [OF suffix_order.refl] show ?thesis by (simp add: assms(1))
qed

lemma trailing_partial_len_le: "trailing_partial_len s \<le> 24" "trailing_partial_len s \<le> length s"
  using longest_partial_le [of "min 24 (length s)" s] by (simp_all add: trailing_partial_len_def)

lemma sanitize_step:
  assumes "sanitize_windows_output False chunk carry = (out, carry')"
  shows "strip_conpty_artifacts ((carry @ chunk) @ t) = out @ strip_conpty_artifacts (carry' @ t)"
    and "length carry' \<le> 24"
proof -
  let ?s = "carry @ chunk"
  let ?n = "length ?s - trailing_partial_len ?s"
  have len: "length (drop ?n ?s) = trailing_partial_len ?s"
    using trailing_partial_len_le(2) [of ?s] by simp
  from assms have c: "carry' = drop ?n ?s" and out: "out = strip_conpty_artifacts (take ?n ?s)"
    by (auto simp: sanitize_windows_output_def Let_def strip_conpty_artifacts.simps split: if_splits)
  show "strip_conpty_artifacts (?s @ t) = out @ strip_conpty_artifacts (carry' @ t)"
    unfolding c out by (rule strip_at_carry [OF append_take_drop_id [symmetric] len])
  show "length carry' \<le> 24" unfolding c len by (rule trailing_partial_len_le)
qed

text \<open>C38: Where the reads are cut does not matter to the removal of console artefacts: the
  output produced so far, followed by the cleaned carry, is the cleaned stream, for every
  stream and every way of cutting it into reads; at most 24 bytes are ever held back.\<close>

theorem sanitize_chunking:
  "case sanitize_chunks chunks [] of (outs, carry) \<Rightarrow>
     outs @ strip_conpty_artifacts carry = strip_conpty_artifacts (concat chunks)
     \<and> length carry \<le> 24"
proof -
  have "case sanitize_chunks chunks carry of (outs, carry') \<Rightarrow>
      outs @ strip_conpty_artifacts carry' = strip_conpty_artifacts (carry @ concat chunks)
      \<and> length carry' \<le> 24" if "length carry \<le> 24" for carry
    using that
  proof (induction chunks arbitrary: carry)
    case (Cons c cs)
    obtain out carry1 where s: "sanitize_windows_output False c carry = (out, carry1)" by fastforce
    obtain outs carry2 where r: "sanitize_chunks cs carry1 = (outs, carry2)" by fastforce
    from sanitize_step [OF s] Cons.IH [of carry1] r s show ?case by simp
  qed simp
  from this [of "[]"] show ?thesis by simp
qed

subsection \<open>Decoding to UTF-8\<close>

text \<open>
  \<open>str::from_utf8\<close> reads one character after the other. \<open>char_width\<close> is the length its first
  byte announces (0 for a byte that starts none); \<open>front_ok\<close> checks the bytes that are there.
  An error has no \<open>error_len\<close> exactly when the data end inside a character that is well-formed
  so far.
\<close>

definition char_width :: "char \<Rightarrow> nat" where
  "char_width a =
     (if byte a < 0x80 then 1 else if byte_in 0xC2 0xDF a then 2
      else if byte_in 0xE0 0xEF a then 3 else if byte_in 0xF0 0xF4 a then 4 else 0)"

definition second_ok :: "char \<Rightarrow> char \<Rightarrow> bool" where
  "second_ok a b =
     (if byte a = 0xE0 then byte_in 0xA0 0xBF b
      else if byte a = 0xED then byte_in 0x80 0x9F b
      else if byte a = 0xF0 then byte_in 0x90 0xBF b
      else if byte a = 0xF4 then byte_in 0x80 0x8F b
      else cont b)"

fun front_ok :: "bytes \<Rightarrow> bool" where
  "front_ok [] = False"
| "front_ok [a] = (0 < char_width a)"
| "front_ok (a # b # r) = (0 < char_width a \<and> second_ok a b \<and> list_all cont r)"

definition char_front :: "bytes \<Rightarrow> nat option" where
  "char_front s =
     (case s of [] \<Rightarrow> None
      | a # _ \<Rightarrow> (if char_width a \<le> length s \<and> front_ok (take (char_width a) s)
                 then Some (char_width a) else None))"

definition incomplete_char :: "bytes \<Rightarrow> bool" where
  "incomplete_char s = (case s of [] \<Rightarrow> False | a # _ \<Rightarrow> length s < char_width a \<and> front_ok s)"

lemma char_front_bounds: "char_front s = Some n \<Longrightarrow> 0 < n \<and> n \<le> length s"
  by (cases "n = 0") (auto simp: char_front_def split: list.splits if_splits)

function valid_up_to :: "bytes \<Rightarrow> nat" where
  "valid_up_to s =
     (case char_front s of None \<Rightarrow> 0 | Some n \<Rightarrow> n + valid_up_to (drop n s))"
  by pat_completeness auto
termination
  by (relation "measure length") (use char_front_bounds in fastforce)+

declare valid_up_to.simps [simp del]

definition decode_terminal_output :: "(bytes \<Rightarrow> string) \<Rightarrow> bytes \<Rightarrow> string" where
  "decode_terminal_output gbk s = (if valid_utf8 s then s else gbk s)"

definition utf8_safe_process :: "(bytes \<Rightarrow> string) \<Rightarrow> bytes \<Rightarrow> bytes \<Rightarrow> string option \<times> bytes" where
  "utf8_safe_process gbk buf carry =
     (let combined = carry @ buf;
          valid_end = valid_up_to combined
      in if combined = [] then (None, [])
         else if valid_utf8 combined then (Some combined, [])
         else if incomplete_char (drop valid_end combined) then
           (if valid_end = 0 then (None, drop valid_end combined)
            else (Some (decode_terminal_output gbk (take valid_end combined)),
                  drop valid_end combined))
         else (Some (decode_terminal_output gbk combined), []))"

fun utf8_chunks :: "(bytes \<Rightarrow> string) \<Rightarrow> bytes list \<Rightarrow> bytes \<Rightarrow> string \<times> bytes" where
  "utf8_chunks gbk [] carry = ([], carry)"
| "utf8_chunks gbk (c # cs) carry =
     (let (out, carry1) = utf8_safe_process gbk c carry;
          (outs, carry2) = utf8_chunks gbk cs carry1
      in ((case out of None \<Rightarrow> [] | Some x \<Rightarrow> x) @ outs, carry2))"

lemma char_width_cases:
  obtains "char_width a = 0" "\<not> byte a < 0x80" "\<not> byte_in 0xC2 0xDF a" "\<not> byte_in 0xE0 0xEF a"
      "\<not> byte_in 0xF0 0xF4 a"
  | "char_width a = 1" "byte a < 0x80"
  | "char_width a = 2" "\<not> byte a < 0x80" "byte_in 0xC2 0xDF a"
  | "char_width a = 3" "\<not> byte a < 0x80" "\<not> byte_in 0xC2 0xDF a" "byte_in 0xE0 0xEF a"
  | "char_width a = 4" "\<not> byte a < 0x80" "\<not> byte_in 0xC2 0xDF a" "\<not> byte_in 0xE0 0xEF a"
      "byte_in 0xF0 0xF4 a"
  by (simp add: char_width_def) metis

lemma second_ok_simps:
  "byte_in 0xC2 0xDF a \<Longrightarrow> second_ok a b = cont b"
  "byte_in 0xE0 0xEF a \<Longrightarrow> second_ok a b =
    (if byte a = 0xE0 then byte_in 0xA0 0xBF b else if byte a = 0xED then byte_in 0x80 0x9F b else cont b)"
  "byte_in 0xF0 0xF4 a \<Longrightarrow> second_ok a b =
    (if byte a = 0xF0 then byte_in 0x90 0xBF b else if byte a = 0xF4 then byte_in 0x80 0x8F b else cont b)"
  by (auto simp: second_ok_def byte_in_def)

lemma valid_utf8_step:
  "valid_utf8 (a # s) \<longleftrightarrow>
    (case char_front (a # s) of None \<Rightarrow> False | Some n \<Rightarrow> valid_utf8 (drop n (a # s)))"
proof (cases rule: char_width_cases [of a])
  case 1
  then show ?thesis by (simp add: valid_utf8.simps(2) char_front_def)
next
  case 2
  then show ?thesis by (simp add: valid_utf8.simps(2) char_front_def)
next
  case 3
  then show ?thesis
    by (cases s) (simp_all add: valid_utf8.simps(2) char_front_def second_ok_simps)
next
  case 4
  show ?thesis
  proof (cases s)
    case (Cons b t)
    with 4 show ?thesis
      by (cases t) (auto simp: valid_utf8.simps(2) char_front_def second_ok_simps(2))
  qed (use 4 in \<open>simp add: valid_utf8.simps(2) char_front_def\<close>)
next
  case 5
  show ?thesis
  proof (cases s)
    case b: (Cons b t)
    show ?thesis
    proof (cases t)
      case c: (Cons c u)
      with b 5 show ?thesis
        by (cases u) (auto simp: valid_utf8.simps(2) char_front_def second_ok_simps(3))
    qed (use b 5 in \<open>simp add: valid_utf8.simps(2) char_front_def\<close>)
  qed (use 5 in \<open>simp add: valid_utf8.simps(2) char_front_def\<close>)
qed

lemma char_front_Some:
  "char_front s = Some n \<longleftrightarrow>
    s \<noteq> [] \<and> n = char_width (hd s) \<and> n \<le> length s \<and> front_ok (take n s)"
  by (cases s) (auto simp: char_front_def)

lemma valid_utf8_iff:
  "valid_utf8 s \<longleftrightarrow> s = []
    \<or> (case char_front s of None \<Rightarrow> False | Some n \<Rightarrow> valid_utf8 (drop n s))"
  using valid_utf8_step by (cases s) (simp_all add: char_front_def)

lemma char_front_append:
  "char_front s = Some n \<Longrightarrow> char_front (s @ t) = Some n"
  by (auto simp: char_front_Some)

lemma valid_utf8_append: "valid_utf8 s \<Longrightarrow> valid_utf8 (s @ t) = valid_utf8 t"
proof (induction s rule: length_induct)
  case (1 s)
  show ?case
  proof (cases "s = []")
    case False
    with 1(2) obtain n where n: "char_front s = Some n" "valid_utf8 (drop n s)"
      unfolding valid_utf8_iff [of s] by (auto split: option.splits)
    then have "length (drop n s) < length s" using char_front_bounds by fastforce
    with 1(1) n have "valid_utf8 (drop n s @ t) = valid_utf8 t" by blast
    moreover have "valid_utf8 (s @ t) = valid_utf8 (drop n s @ t)"
      using char_front_append [OF n(1), of t] char_front_bounds [OF n(1)] False
      by (subst valid_utf8_iff) simp
    ultimately show ?thesis by simp
  qed simp
qed

text \<open>A non-empty part with no complete character at its front, of a stream that goes on
  validly, ends inside a character.\<close>

lemma front_ok_take: "front_ok (take w (s @ t)) \<Longrightarrow> s \<noteq> [] \<Longrightarrow> length s < w \<Longrightarrow> front_ok s"
proof -
  assume a: "front_ok (take w (s @ t))" "s \<noteq> []" "length s < w"
  obtain r where r: "take w (s @ t) = s @ r" using a(3) by (auto simp: take_append)
  have "front_ok (x @ r) \<Longrightarrow> x \<noteq> [] \<Longrightarrow> front_ok x" for x
    by (cases x rule: front_ok.cases; cases r) auto
  with a r show "front_ok s" by metis
qed

lemma stuck_is_incomplete:
  assumes "valid_utf8 (s @ t)" and "char_front s = None" and "s \<noteq> []"
  shows "incomplete_char s"
proof -
  obtain a s' where s: "s = a # s'" using assms(3) by (cases s) auto
  from assms(1,3) obtain n where n: "char_front (s @ t) = Some n"
    unfolding valid_utf8_iff [of "s @ t"] by (auto split: option.splits)
  then have w: "n = char_width a" "front_ok (take n (s @ t))"
    using s by (auto simp: char_front_def split: if_splits)
  have "length s < n"
  proof (rule ccontr)
    assume "\<not> length s < n"
    with n assms(3) have "char_front s = Some n" unfolding char_front_Some by auto
    with assms(2) show False by simp
  qed
  with front_ok_take [OF w(2) assms(3)] w(1) s show ?thesis by (simp add: incomplete_char_def)
qed

lemma char_width_le: "char_width a \<le> 4"
  by (simp add: char_width_def)

lemma valid_up_to_split:
  assumes "valid_utf8 (s @ t)"
  shows "valid_up_to s \<le> length s \<and> valid_utf8 (take (valid_up_to s) s)
    \<and> (drop (valid_up_to s) s = [] \<or> incomplete_char (drop (valid_up_to s) s))"
  using assms
proof (induction s rule: length_induct)
  case (1 s)
  show ?case
  proof (cases "char_front s")
    case None
    then show ?thesis using stuck_is_incomplete [OF 1(2) None]
      by (subst (1 2 3 4) valid_up_to.simps) auto
  next
    case (Some n)
    note b = char_front_bounds [OF Some]
    then have "s \<noteq> []" by auto
    with 1(2) char_front_append [OF Some, of t] b have "valid_utf8 (drop n s @ t)"
      unfolding valid_utf8_iff [of "s @ t"] by simp
    moreover have "length (drop n s) < length s" using b by auto
    ultimately have IH: "valid_up_to (drop n s) \<le> length (drop n s)"
      "valid_utf8 (take (valid_up_to (drop n s)) (drop n s))"
      "drop (valid_up_to (drop n s)) (drop n s) = [] \<or> incomplete_char (drop (valid_up_to (drop n s)) (drop n s))"
      using 1(1) by blast+
    have v: "valid_up_to s = n + valid_up_to (drop n s)" using Some by (subst valid_up_to.simps) simp
    have tk: "take (valid_up_to s) s = take n s @ take (valid_up_to (drop n s)) (drop n s)"
      by (simp add: v take_add)
    have "char_front (take (valid_up_to s) s) = Some n"
      using Some b unfolding tk by (auto simp: char_front_Some)
    then have "valid_utf8 (take (valid_up_to s) s)"
      using IH(2) b by (subst valid_utf8_iff) (simp add: tk)
    with IH b v show ?thesis by (auto simp: add.commute)
  qed
qed

lemma utf8_step:
  assumes "valid_utf8 ((carry @ buf) @ t)" and "utf8_safe_process gbk buf carry = (out, carry')"
  shows "(case out of None \<Rightarrow> [] | Some x \<Rightarrow> x) @ carry' = carry @ buf
    \<and> valid_utf8 (case out of None \<Rightarrow> [] | Some x \<Rightarrow> x) \<and> length carry' \<le> 3"
proof -
  let ?s = "carry @ buf"
  note sp = valid_up_to_split [OF assms(1)]
  have short: "incomplete_char x \<Longrightarrow> length x \<le> 3" for x
    using char_width_le [of "hd x"] by (cases x) (simp_all add: incomplete_char_def)
  show ?thesis
  proof (cases "valid_utf8 ?s")
    case True
    with assms(2) show ?thesis by (auto simp: utf8_safe_process_def Let_def split: if_splits)
  next
    case False
    with sp have inc: "incomplete_char (drop (valid_up_to ?s) ?s)" by auto
    from False have "?s \<noteq> []" by auto
    with False inc assms(2) have "carry' = drop (valid_up_to ?s) ?s"
      "(case out of None \<Rightarrow> [] | Some x \<Rightarrow> x) = take (valid_up_to ?s) ?s"
      using sp by (auto simp: utf8_safe_process_def Let_def decode_terminal_output_def split: if_splits)
    with sp short [OF inc] append_take_drop_id [of "valid_up_to ?s" ?s] show ?thesis by metis
  qed
qed

text \<open>C37: Reads never tear a character: when the bytes read so far begin some valid UTF-8
  stream, the text produced is valid UTF-8 and, followed by the bytes held back (at most
  three), is exactly the bytes read; nothing is lost, doubled or decoded as GBK, wherever the
  reads were cut.\<close>

theorem utf8_chunking:
  assumes "valid_utf8 (concat chunks @ t)"
  shows "case utf8_chunks gbk chunks [] of (outs, carry) \<Rightarrow>
    outs @ carry = concat chunks \<and> valid_utf8 outs \<and> length carry \<le> 3"
proof -
  have "case utf8_chunks gbk chunks carry of (outs, carry') \<Rightarrow>
      outs @ carry' = carry @ concat chunks \<and> valid_utf8 outs \<and> length carry' \<le> 3"
    if "valid_utf8 (carry @ concat chunks @ t)" and "length carry \<le> 3" for carry
    using that
  proof (induction chunks arbitrary: carry)
    case (Cons c cs)
    obtain out carry1 where s: "utf8_safe_process gbk c carry = (out, carry1)" by fastforce
    obtain outs carry2 where r: "utf8_chunks gbk cs carry1 = (outs, carry2)" by fastforce
    let ?o = "case out of None \<Rightarrow> [] | Some x \<Rightarrow> x"
    from Cons.prems(1) have "valid_utf8 ((carry @ c) @ concat cs @ t)" by simp
    from utf8_step [OF this s] have st: "?o @ carry1 = carry @ c" "valid_utf8 ?o" "length carry1 \<le> 3"
      by simp_all
    have "carry @ concat (c # cs) @ t = ?o @ carry1 @ concat cs @ t" using st(1) by simp
    with Cons.prems(1) valid_utf8_append [OF st(2)] have "valid_utf8 (carry1 @ concat cs @ t)" by metis
    from Cons.IH [OF this st(3)] r have "outs @ carry2 = carry1 @ concat cs" "valid_utf8 outs"
      "length carry2 \<le> 3" by simp_all
    moreover have "?o @ outs @ carry2 = carry @ c @ concat cs"
      using calculation(1) st(1) by (metis append.assoc)
    ultimately show ?case using s r st valid_utf8_append [OF st(2), of outs] by simp
  qed simp
  from this [of "[]"] assms show ?thesis by simp
qed

theorem utf8_chunking_witness:
  "case utf8_chunks (\<lambda>_. []) [[CHR 0xC3], [CHR 0xA9]] [] of (outs, carry) \<Rightarrow>
     outs @ carry = [CHR 0xC3, CHR 0xA9] \<and> valid_utf8 outs \<and> length carry \<le> 3"
proof -
  have "valid_utf8 [CHR 0xC3, CHR 0xA9]"
    by (simp add: valid_utf8.simps byte_in_def cont_def byte_def)
  then show ?thesis using utf8_chunking [of "[[CHR 0xC3], [CHR 0xA9]]" "[]" "\<lambda>_. []"] by simp
qed

subsection \<open>SSH password prompts\<close>

text \<open>\<open>s.contains(p)\<close> is \<open>sublist\<close>, \<open>ends_with\<close> is \<open>suffix\<close>.\<close>

definition normalize_prompt_text :: "(bytes \<Rightarrow> bytes) \<Rightarrow> string \<Rightarrow> string" where
  "normalize_prompt_text strip data =
     strip (replace_all [CHR 0x0D] [CHR 0x0A] (replace_all [CHR 0x0D, CHR 0x0A] [CHR 0x0A] data))"

definition looks_like_ssh_password_prompt :: "string \<Rightarrow> bool" where
  "looks_like_ssh_password_prompt prompt =
     (let lower = map to_ascii_lower prompt
      in \<not> sublist ''passphrase'' lower
         \<and> (suffix ''password:'' lower \<or> suffix ''password: '' lower))"

definition ssh_password_response :: "string \<Rightarrow> bytes" where
  "ssh_password_response password = password @ [CHR 0x0D]"

end
