(* ===== verification/Osc_Detect.thy ===== *)
theory Osc_Detect
  imports Prelude
begin

text \<open>
  The in-band status detector,
  \<open>cc-panes-core/src/services/terminal_service/osc_state_detect.rs\<close>: a byte machine on the
  output of a session that recognises the marker \<open>OSC 777;notify;CCPanes;agent;event\<close> and
  the shell integration marks \<open>OSC 133;C\<close> and \<open>OSC 133;D\<close>. \<open>osc_process\<close> is the loop of
  the source, which skips from escape to escape in its ground state; \<open>osc_byte\<close> is the
  machine one byte at a time.
\<close>

datatype osc_signal =
    Started string
  | Event string
  | CommandExited "int option"

datatype osc_mode = Ground | Esc | Osc | OscEsc

record osc_detector =
  od_agents :: "string list"
  od_state :: osc_mode
  od_osc :: bytes
  od_armed :: bool

definition OSC_MAX :: nat where
  "OSC_MAX = 2048"

definition DEFAULT_AGENTS :: "string list" where
  "DEFAULT_AGENTS = [''claude'', ''codex'', ''gemini'', ''opencode'']"

definition CCPANES_MARKER :: bytes where
  "CCPANES_MARKER = ''notify;CCPanes;''"

definition osc_new :: osc_detector where
  "osc_new = \<lparr>od_agents = DEFAULT_AGENTS, od_state = Ground, od_osc = [], od_armed = False\<rparr>"

subsection \<open>Sequence bodies\<close>

definition handle_osc777 :: "bytes \<Rightarrow> osc_detector \<Rightarrow> osc_detector \<times> osc_signal list" where
  "handle_osc777 pt d =
     (case strip_prefix CCPANES_MARKER pt of
        None \<Rightarrow> (d, [])
      | Some tail \<Rightarrow>
          (case split_at_byte (CHR '';'') tail of
             (_, None) \<Rightarrow> (d, [])
           | (name, Some rest) \<Rightarrow>
               (case from_utf8 name of
                  None \<Rightarrow> (d, [])
                | Some agent \<Rightarrow>
                    if agent \<notin> set (od_agents d) then (d, [])
                    else (case from_utf8 rest of
                            None \<Rightarrow> (d, [])
                          | Some event \<Rightarrow>
                              if event = [] \<or> 64 < length event then (d, [])
                              else (d\<lparr>od_armed := True\<rparr>, [Event event])))))"

definition path_base :: "string \<Rightarrow> string" where
  "path_base token = rev (takeWhile (\<lambda>c. c \<noteq> CHR ''/'' \<and> c \<noteq> CHR 0x5C) (rev token))"

definition strip_exe :: "string \<Rightarrow> string" where
  "strip_exe base =
     (case strip_suffix ''.exe'' base of Some b \<Rightarrow> b
      | None \<Rightarrow> (case strip_suffix ''.cmd'' base of Some b \<Rightarrow> b | None \<Rightarrow> base))"

definition names_agent :: "string \<Rightarrow> string \<Rightarrow> bool" where
  "names_agent base a =
     (case strip_prefix a base of
        None \<Rightarrow> False
      | Some rest \<Rightarrow> rest = [] \<or> prefix ''-'' rest)"

definition match_token :: "string list \<Rightarrow> string \<Rightarrow> string option" where
  "match_token agents token =
     (if prefix ''-'' token then None
      else find (names_agent (strip_exe (path_base token))) agents)"

definition match_agent :: "string list \<Rightarrow> bytes \<Rightarrow> string option" where
  "match_agent agents cmd =
     (case from_utf8 cmd of
        None \<Rightarrow> None
      | Some s \<Rightarrow> first_some (match_token agents) (split_whitespace s))"

definition handle_osc133 :: "bytes \<Rightarrow> osc_detector \<Rightarrow> osc_detector \<times> osc_signal list" where
  "handle_osc133 pt d =
     (case pt of
        [] \<Rightarrow> (d, [])
      | c # _ \<Rightarrow>
          if c = CHR ''C'' then
            (if od_armed d then (d, [])
             else
               (let cmd = (case strip_prefix ''C;'' pt of Some s \<Rightarrow> s | None \<Rightarrow> [])
                in case match_agent (od_agents d) cmd of
                     None \<Rightarrow> (d, [])
                   | Some agent \<Rightarrow> (d\<lparr>od_armed := True\<rparr>, [Started agent])))
          else if c = CHR ''D'' \<and> od_armed d then
            (d\<lparr>od_armed := False\<rparr>,
             [CommandExited
                (Option.bind (strip_prefix ''D;'' pt) (\<lambda>s.
                   Option.bind (from_utf8 s) (\<lambda>s. parse_i32 (trim s))))])
          else (d, []))"

definition finish_osc :: "osc_detector \<Rightarrow> osc_detector \<times> osc_signal list" where
  "finish_osc d =
     (let body = od_osc d; d1 = d\<lparr>od_osc := []\<rparr>;
          (ps, pt) = (case split_at_byte (CHR '';'') body of
                        (p, Some r) \<Rightarrow> (p, r) | (p, None) \<Rightarrow> (p, []))
      in if ps = ''133'' then handle_osc133 pt d1
         else if ps = ''777'' then handle_osc777 pt d1
         else (d1, []))"

subsection \<open>The byte machine and the skipping loop\<close>

definition osc_to_ground :: "osc_detector \<times> osc_signal list \<Rightarrow> osc_detector \<times> osc_signal list" where
  "osc_to_ground r = ((fst r)\<lparr>od_state := Ground\<rparr>, snd r)"

definition osc_byte :: "osc_detector \<Rightarrow> char \<Rightarrow> osc_detector \<times> osc_signal list" where
  "osc_byte d b =
     (case od_state d of
        Ground \<Rightarrow> (if b = ESC then d\<lparr>od_state := Esc\<rparr> else d, [])
      | Esc \<Rightarrow>
          (if b = CHR '']'' then d\<lparr>od_state := Osc, od_osc := []\<rparr>
           else if b = ESC then d
           else d\<lparr>od_state := Ground\<rparr>, [])
      | Osc \<Rightarrow>
          (if b = BEL then osc_to_ground (finish_osc d)
           else if b = ESC then (d\<lparr>od_state := OscEsc\<rparr>, [])
           else if length (od_osc d) < OSC_MAX then (d\<lparr>od_osc := od_osc d @ [b]\<rparr>, [])
           else (d\<lparr>od_osc := [], od_state := Ground\<rparr>, []))
      | OscEsc \<Rightarrow>
          (if b = CHR 0x5C then osc_to_ground (finish_osc d)
           else if b = ESC then (d, [])
           else (d\<lparr>od_osc := [], od_state := Ground\<rparr>, [])))"

function osc_process :: "osc_detector \<Rightarrow> bytes \<Rightarrow> osc_detector \<times> osc_signal list" where
  "osc_process d input =
     (case input of
        [] \<Rightarrow> (d, [])
      | b # bs \<Rightarrow>
          if od_state d = Ground then
            (case split_at_byte ESC input of
               (_, None) \<Rightarrow> (d, [])
             | (_, Some rest) \<Rightarrow> osc_process (d\<lparr>od_state := Esc\<rparr>) rest)
          else
            (let (d1, e1) = osc_byte d b; (d2, e2) = osc_process d1 bs in (d2, e1 @ e2)))"
  by pat_completeness auto

lemma split_at_byte_shrinks: "split_at_byte c bs = (p, Some r) \<Longrightarrow> length r < length bs"
  by (induction bs arbitrary: p) (auto simp: less_SucI split: if_splits prod.splits)

termination osc_process
  by (relation "measure (\<lambda>(d, input). length input)")
    (auto simp del: split_at_byte.simps dest: split_at_byte_shrinks [OF sym])

declare osc_process.simps [simp del]

text \<open>Skipping to the next escape is the byte machine: in the ground state it ignores
  everything else.\<close>

lemma osc_process_Nil [simp]: "osc_process d [] = (d, [])"
  by (simp add: osc_process.simps)

lemma osc_ground_skip:
  assumes "od_state d = Ground" and "b \<noteq> ESC"
  shows "osc_process d (b # bs) = osc_process d bs"
proof (cases bs)
  case Nil
  with assms show ?thesis by (simp add: osc_process.simps [of d "[b]"])
next
  case (Cons c cs)
  with assms show ?thesis
    by (simp add: osc_process.simps [of d "b # c # cs"] osc_process.simps [of d "c # cs"]
        split: prod.split option.split)
qed

lemma osc_process_Cons:
  "osc_process d (b # bs) =
    (let (d1, e1) = osc_byte d b; (d2, e2) = osc_process d1 bs in (d2, e1 @ e2))"
proof (cases "od_state d = Ground")
  case ground: True
  show ?thesis
  proof (cases "b = ESC")
    case True
    with ground show ?thesis
      by (simp add: osc_process.simps [of d "ESC # bs"] osc_byte_def split: prod.split)
  next
    case False
    with ground show ?thesis
      by (simp add: osc_ground_skip osc_byte_def split: prod.split)
  qed
next
  case False
  then show ?thesis by (simp add: osc_process.simps [of d "b # bs"])
qed

interpretation osc: byte_scanner osc_byte osc_process
  by unfold_locales (simp_all add: osc_process_Cons)

text \<open>Every handler leaves the whitelist alone and keeps the buffer bounded.\<close>

definition osc_inv :: "osc_detector \<Rightarrow> bool" where
  "osc_inv d \<longleftrightarrow> length (od_osc d) \<le> OSC_MAX"

lemma handle_osc777_frame:
  "od_osc (fst (handle_osc777 pt d)) = od_osc d"
  "od_agents (fst (handle_osc777 pt d)) = od_agents d"
  by (auto simp: handle_osc777_def split: option.split prod.split)

lemma handle_osc133_frame:
  "od_osc (fst (handle_osc133 pt d)) = od_osc d"
  "od_agents (fst (handle_osc133 pt d)) = od_agents d"
  by (auto simp: handle_osc133_def Let_def split: option.split list.split)

lemma finish_osc_frame:
  "od_osc (fst (finish_osc d)) = []"
  "od_agents (fst (finish_osc d)) = od_agents d"
  by (auto simp: finish_osc_def Let_def handle_osc777_frame handle_osc133_frame
      split: prod.split option.split)

lemma osc_byte_inv: "osc_inv d \<Longrightarrow> osc_inv (fst (osc_byte d b))"
  by (auto simp: osc_inv_def osc_byte_def osc_to_ground_def finish_osc_frame
      split: osc_mode.split)

lemma osc_byte_agents: "od_agents (fst (osc_byte d b)) = od_agents d"
  by (auto simp: osc_byte_def osc_to_ground_def finish_osc_frame split: osc_mode.split)

subsection \<open>The arming protocol\<close>

text \<open>
  What the detector promises its listener, as a two-state machine over signals: an agent is
  announced or reports events, and an exit is reported only while an agent is known to run.
\<close>

fun arm_run :: "bool \<Rightarrow> osc_signal list \<Rightarrow> bool option" where
  "arm_run armed [] = Some armed"
| "arm_run armed (Started _ # s) = (if armed then None else arm_run True s)"
| "arm_run armed (Event _ # s) = arm_run True s"
| "arm_run armed (CommandExited _ # s) = (if armed then arm_run False s else None)"

lemma arm_run_append:
  "arm_run a (xs @ ys) = Option.bind (arm_run a xs) (\<lambda>b. arm_run b ys)"
  by (induction a xs rule: arm_run.induct) auto

lemma handle_osc777_arm:
  "arm_run (od_armed d) (snd (handle_osc777 pt d)) = Some (od_armed (fst (handle_osc777 pt d)))"
  by (auto simp: handle_osc777_def split: option.split prod.split)

lemma handle_osc133_arm:
  "arm_run (od_armed d) (snd (handle_osc133 pt d)) = Some (od_armed (fst (handle_osc133 pt d)))"
  by (auto simp: handle_osc133_def Let_def split: option.split list.split)

lemma finish_osc_arm:
  "arm_run (od_armed d) (snd (finish_osc d)) = Some (od_armed (fst (finish_osc d)))"
  using handle_osc777_arm [of "d\<lparr>od_osc := []\<rparr>"] handle_osc133_arm [of "d\<lparr>od_osc := []\<rparr>"]
  by (auto simp: finish_osc_def Let_def split: prod.split option.split)

lemma osc_byte_arm:
  "arm_run (od_armed d) (snd (osc_byte d b)) = Some (od_armed (fst (osc_byte d b)))"
  by (auto simp: osc_byte_def osc_to_ground_def finish_osc_arm split: osc_mode.split)

subsection \<open>Running through a body\<close>

definition osc_plain :: "bytes \<Rightarrow> bool" where
  "osc_plain s \<longleftrightarrow> ESC \<notin> set s \<and> BEL \<notin> set s"

lemma osc_body_run:
  assumes "od_state d = Osc" and "osc_plain s" and "length (od_osc d) + length s \<le> OSC_MAX"
  shows "osc_process d s = (d\<lparr>od_osc := od_osc d @ s\<rparr>, [])"
  using assms
proof (induction s arbitrary: d)
  case (Cons b s)
  let ?d = "d\<lparr>od_osc := od_osc d @ [b]\<rparr>"
  have "osc_byte d b = (?d, [])"
    using Cons.prems by (auto simp: osc_byte_def osc_plain_def)
  moreover have "osc_process ?d s = (?d\<lparr>od_osc := od_osc ?d @ s\<rparr>, [])"
    using Cons.prems by (intro Cons.IH) (auto simp: osc_plain_def)
  ultimately show ?case by (simp add: osc_process_Cons)
qed simp

lemma osc_field_swap: "d\<lparr>od_state := m, od_osc := s\<rparr> = d\<lparr>od_osc := s, od_state := m\<rparr>"
  by (cases d) simp

lemma osc_sequence_run:
  assumes "od_state d = Ground" and "osc_plain s" and "length s \<le> OSC_MAX"
    and "term = [BEL] \<or> term = [ESC, CHR 0x5C]"
  shows "osc_process d (ESC # CHR '']'' # s @ term) =
    osc_to_ground (finish_osc (d\<lparr>od_osc := s, od_state := (if term = [BEL] then Osc else OscEsc)\<rparr>))"
proof -
  let ?d = "d\<lparr>od_state := Osc, od_osc := []\<rparr>"
  have intro_seq: "osc_process d (ESC # CHR '']'' # s @ term) = osc_process ?d (s @ term)"
    using assms(1) by (simp add: osc_process_Cons osc_byte_def ESC_def split: prod.split)
  have body: "osc_process ?d s = (?d\<lparr>od_osc := s\<rparr>, [])"
    using assms by (subst osc_body_run) auto
  have fin: "osc_process (?d\<lparr>od_osc := s\<rparr>) term =
    osc_to_ground (finish_osc (d\<lparr>od_osc := s, od_state := (if term = [BEL] then Osc else OscEsc)\<rparr>))"
    using assms(4)
    by (auto simp: osc_process_Cons osc_byte_def ESC_def BEL_def Let_def split: prod.split)
      (simp only: osc_field_swap)
  show ?thesis
    unfolding intro_seq osc.process_append body using fin by (simp split: prod.split)
qed

subsection \<open>Properties\<close>

lemma marker_event:
  assumes "od_state d = Ground" and "agent \<in> set (od_agents d)"
    and "osc_plain agent" and "CHR '';'' \<notin> set agent" and "valid_utf8 agent"
    and "length agent \<le> 64" and "osc_plain event" and "valid_utf8 event" and "event \<noteq> []"
    and "length event \<le> 64" and "term = [BEL] \<or> term = [ESC, CHR 0x5C]"
  shows "osc_process d
      (ESC # CHR '']'' # (''777;notify;CCPanes;'' @ agent @ '';'' @ event) @ term) =
    (d\<lparr>od_state := Ground, od_osc := [], od_armed := True\<rparr>, [Event event])"
proof -
  let ?s = "''777;notify;CCPanes;'' @ agent @ '';'' @ event"
  have plain: "osc_plain ?s" using assms by (simp add: osc_plain_def ESC_def BEL_def)
  have len: "length ?s \<le> OSC_MAX" using assms by (simp add: OSC_MAX_def)
  have prefix: "strip_prefix CCPANES_MARKER (''notify;CCPanes;'' @ agent @ '';'' @ event) =
      Some (agent @ CHR '';'' # event)"
    by (simp add: strip_prefix_Some CCPANES_MARKER_def)
  have split: "split_at_byte (CHR '';'') (agent @ CHR '';'' # event) = (agent, Some event)"
    using assms(4) by (rule split_at_byte_append)
  have "handle_osc777 (''notify;CCPanes;'' @ agent @ '';'' @ event) e =
      (e\<lparr>od_armed := True\<rparr>, [Event event])" if "od_agents e = od_agents d" for e
    using assms that prefix split by (simp add: handle_osc777_def from_utf8_def)
  then show ?thesis
    unfolding osc_sequence_run [OF assms(1) plain len assms(11)]
    by (simp add: finish_osc_def osc_to_ground_def Let_def)
qed

text \<open>The loop that skips from escape to escape is the byte machine, so the reads of the
  PTY may be cut anywhere: state and signals depend only on the concatenated output.\<close>

theorem osc_chunking: "scan_chunks osc_process d chunks = osc_process d (concat chunks)"
  by (rule osc.scan_chunks_concat)

text \<open>Signals come from escape sequences only: plain output, whatever its text, neither
  moves the detector out of its ground state nor emits a signal.\<close>
lemma osc_text_silent:
  assumes "od_state d = Ground" and "ESC \<notin> set out"
  shows "osc_process d out = (d, [])"
proof (rule osc.process_silent)
  fix b assume "b \<in> set out"
  with assms show "osc_byte d b = (d, [])" by (auto simp: osc_byte_def)
qed

text \<open>However much output arrives, and however malformed, the sequence buffer never
  exceeds 2048 bytes.\<close>
lemma osc_buffer_bounded: "length (od_osc (fst (osc_process osc_new out))) \<le> 2048"
  using osc.process_keeps [of osc_inv osc_new out, OF osc_byte_inv]
  by (simp add: osc_inv_def osc_new_def OSC_MAX_def)

text \<open>The signals of any output follow the arming protocol: an agent is announced only
  when none is known to run, an exit is reported only while one is, and the detector's flag
  is the state the protocol is left in.\<close>

theorem osc_arming_protocol:
  "arm_run (od_armed d) (snd (osc_process d out)) = Some (od_armed (fst (osc_process d out)))"
proof (induction out arbitrary: d)
  case Nil
  show ?case by simp
next
  case (Cons b out)
  obtain d1 e1 where step: "osc_byte d b = (d1, e1)" by fastforce
  obtain d2 e2 where rest: "osc_process d1 out = (d2, e2)" by fastforce
  from osc_byte_arm [of d b] step have "arm_run (od_armed d) e1 = Some (od_armed d1)" by simp
  moreover from Cons.IH [of d1] rest have "arm_run (od_armed d1) e2 = Some (od_armed d2)" by simp
  ultimately show ?case by (simp add: osc_process_Cons step rest arm_run_append)
qed

text \<open>A well-formed hook marker is recognised: from the ground state, the marker of a
  whitelisted agent with an event name of 1 to 64 bytes of UTF-8, ended by BEL or by the
  string terminator, arms the detector and reports exactly that event.\<close>

theorem osc_marker_recognised:
  assumes "od_state d = Ground" and "agent \<in> set (od_agents d)"
    and "osc_plain agent" and "CHR '';'' \<notin> set agent" and "valid_utf8 agent"
    and "length agent \<le> 64" and "osc_plain event" and "valid_utf8 event" and "event \<noteq> []"
    and "length event \<le> 64" and "term = [BEL] \<or> term = [ESC, CHR 0x5C]"
  shows "osc_process d
      (ESC # CHR '']'' # (''777;notify;CCPanes;'' @ agent @ '';'' @ event) @ term) =
    (d\<lparr>od_state := Ground, od_osc := [], od_armed := True\<rparr>, [Event event])"
  using assms by (rule marker_event)

theorem osc_marker_recognised_witness:
  "osc_process osc_new
      (ESC # CHR '']'' # (''777;notify;CCPanes;'' @ ''codex'' @ '';'' @ ''turn-end'') @ [BEL]) =
    (osc_new\<lparr>od_state := Ground, od_osc := [], od_armed := True\<rparr>, [Event ''turn-end''])"
  by (rule osc_marker_recognised)
    (auto simp: osc_new_def DEFAULT_AGENTS_def osc_plain_def ESC_def BEL_def byte_def
      valid_utf8.simps(2))

end
