(* ===== verification/Session_State.thy ===== *)
theory Session_State
  imports Prelude
begin

text \<open>
  The hook-driven state machine of the agent sessions,
  \<open>cc-panes-core/src/services/session_state_machine.rs\<close>, with the statuses and the kill
  reasons of \<open>terminal_service.rs\<close>. The map of entries under the mutex is \<open>entries\<close>; an
  operation takes the clocks it reads (\<open>now\<close> for \<open>Instant::now()\<close>, \<open>epoch\<close> for the
  wall clock in milliseconds) as arguments, and returns the transition it broadcasts. A hook
  payload is a JSON value; the serialiser of nested values is the parameter \<open>to_json\<close>.
\<close>

subsection \<open>Statuses, events and payloads\<close>

datatype session_status =
    Initializing | Idle | Thinking | ToolRunning | Compacting | WaitingInput | Error | Exited
  | Active

instantiation session_status :: enum
begin

definition enum_session_status :: "session_status list" where
  "enum_session_status =
     [Initializing, Idle, Thinking, ToolRunning, Compacting, WaitingInput, Error, Exited, Active]"

definition enum_all_session_status :: "(session_status \<Rightarrow> bool) \<Rightarrow> bool" where
  "enum_all_session_status P = list_all P enum_class.enum"

definition enum_ex_session_status :: "(session_status \<Rightarrow> bool) \<Rightarrow> bool" where
  "enum_ex_session_status P = list_ex P enum_class.enum"

instance
proof
  show univ: "(UNIV :: session_status set) = set enum_class.enum"
    by (auto simp: enum_session_status_def intro: session_status.exhaust)
  show "distinct (enum_class.enum :: session_status list)"
    by (simp add: enum_session_status_def)
  show "enum_class.enum_all P = Ball UNIV P" for P :: "session_status \<Rightarrow> bool"
    by (simp add: enum_all_session_status_def univ list_all_iff)
  show "enum_class.enum_ex P = Bex UNIV P" for P :: "session_status \<Rightarrow> bool"
    by (simp add: enum_ex_session_status_def univ list_ex_iff)
qed

end

definition is_busy :: "session_status \<Rightarrow> bool" where
  "is_busy st = (st \<in> {Thinking, ToolRunning, Compacting, Active})"

definition is_terminal :: "session_status \<Rightarrow> bool" where
  "is_terminal st = (st = Exited)"

datatype kill_reason = UserClose | Mcp | OrphanReclaim | DaemonReaper | LaunchTimeout | Unknown

definition kill_reason_parse :: "string option \<Rightarrow> kill_reason" where
  "kill_reason_parse v =
     (if v = Some ''user-close'' then UserClose
      else if v = Some ''mcp'' then Mcp
      else if v = Some ''orphan-reclaim'' then OrphanReclaim
      else if v = Some ''daemon-reaper'' then DaemonReaper
      else if v = Some ''launch-timeout'' then LaunchTimeout
      else Unknown)"

fun kill_reason_as_str :: "kill_reason \<Rightarrow> string" where
  "kill_reason_as_str UserClose = ''user-close''"
| "kill_reason_as_str Mcp = ''mcp''"
| "kill_reason_as_str OrphanReclaim = ''orphan-reclaim''"
| "kill_reason_as_str DaemonReaper = ''daemon-reaper''"
| "kill_reason_as_str LaunchTimeout = ''launch-timeout''"
| "kill_reason_as_str Unknown = ''unknown''"

datatype tool_kind = AnyTool | Bash | Write | Edit | Read | Custom

record tool_matcher =
  tm_tool :: tool_kind
  tm_path_glob :: "string option"
  tm_bash_cmd_prefix :: "string option"

definition any_matcher :: tool_matcher where
  "any_matcher = \<lparr>tm_tool = AnyTool, tm_path_glob = None, tm_bash_cmd_prefix = None\<rparr>"

datatype cc_pane_event =
    SessionInit | SessionResume | SessionEnd | PromptBefore
  | ToolBefore tool_matcher | ToolAfter tool_matcher
  | TurnEnd | BeforeCompact | EvWaitingInput | EvError

definition parse_cc_pane_event_name :: "string \<Rightarrow> cc_pane_event option" where
  "parse_cc_pane_event_name name =
     (if name = ''session-init'' then Some SessionInit
      else if name = ''session-resume'' then Some SessionResume
      else if name = ''session-end'' then Some SessionEnd
      else if name = ''prompt-before'' then Some PromptBefore
      else if name = ''tool-before'' then Some (ToolBefore any_matcher)
      else if name = ''tool-after'' then Some (ToolAfter any_matcher)
      else if name = ''turn-end'' then Some TurnEnd
      else if name = ''before-compact'' then Some BeforeCompact
      else if name = ''waiting-input'' then Some EvWaitingInput
      else if name = ''error'' then Some EvError
      else None)"

fun cc_pane_event_name :: "cc_pane_event \<Rightarrow> string" where
  "cc_pane_event_name SessionInit = ''session-init''"
| "cc_pane_event_name SessionResume = ''session-resume''"
| "cc_pane_event_name SessionEnd = ''session-end''"
| "cc_pane_event_name PromptBefore = ''prompt-before''"
| "cc_pane_event_name (ToolBefore _) = ''tool-before''"
| "cc_pane_event_name (ToolAfter _) = ''tool-after''"
| "cc_pane_event_name TurnEnd = ''turn-end''"
| "cc_pane_event_name BeforeCompact = ''before-compact''"
| "cc_pane_event_name EvWaitingInput = ''waiting-input''"
| "cc_pane_event_name EvError = ''error''"

text \<open>A number carries its printed form; an object its members in iteration order.\<close>

datatype json =
    JNull
  | JBool bool
  | JNumber string
  | JString string
  | JArray "json list"
  | JObject "(string \<times> json) list"

definition json_get :: "string \<Rightarrow> json \<Rightarrow> json option" where
  "json_get key v = (case v of JObject ms \<Rightarrow> map_of ms key | _ \<Rightarrow> None)"

definition as_str :: "json \<Rightarrow> string option" where
  "as_str v = (case v of JString t \<Rightarrow> Some t | _ \<Rightarrow> None)"

definition get_str :: "string \<Rightarrow> json \<Rightarrow> string option" where
  "get_str key v = Option.bind (json_get key v) as_str"

definition extract_tool_name :: "json \<Rightarrow> string option" where
  "extract_tool_name payload = get_str ''tool_name'' payload"

definition extract_tool_use_id :: "json \<Rightarrow> string option" where
  "extract_tool_use_id payload = get_str ''tool_use_id'' payload"

definition extract_error_type :: "json \<Rightarrow> string option" where
  "extract_error_type payload = get_str ''error_type'' payload"

text \<open>\<open>s.chars().take(n)\<close> on a valid \<open>str\<close>: a character is a byte and the continuation
  bytes that follow it.\<close>

fun take_chars :: "nat \<Rightarrow> bytes \<Rightarrow> bytes" where
  "take_chars 0 s = []"
| "take_chars (Suc n) [] = []"
| "take_chars (Suc n) (b # s) = b # takeWhile cont s @ take_chars n (dropWhile cont s)"

definition trim_tool_summary :: "string \<Rightarrow> string option" where
  "trim_tool_summary value =
     (let trimmed = trim value
      in if trimmed = [] then None else Some (take_chars 40 trimmed))"

fun summary_value_to_string :: "(json \<Rightarrow> string) \<Rightarrow> json \<Rightarrow> string option" where
  "summary_value_to_string to_json JNull = None"
| "summary_value_to_string to_json (JString v) = Some v"
| "summary_value_to_string to_json (JNumber v) = Some v"
| "summary_value_to_string to_json (JBool v) = Some (if v then ''true'' else ''false'')"
| "summary_value_to_string to_json v = Some (to_json v)"

definition summary_keys :: "string list" where
  "summary_keys = [''tool_summary'', ''input_summary'', ''summary'']"

definition input_keys :: "string list" where
  "input_keys = [''file_path'', ''path'', ''command'', ''pattern'', ''url'', ''query'',
     ''prompt'', ''description'']"

definition extract_tool_summary :: "(json \<Rightarrow> string) \<Rightarrow> json \<Rightarrow> string option" where
  "extract_tool_summary to_json payload =
     (case first_some (\<lambda>key. get_str key payload) summary_keys of
        Some summary \<Rightarrow> trim_tool_summary summary
      | None \<Rightarrow>
          (case (case json_get ''tool_input'' payload of
                   Some v \<Rightarrow> Some v | None \<Rightarrow> json_get ''input'' payload) of
             None \<Rightarrow> None
           | Some input \<Rightarrow>
               (case input of
                  JObject ms \<Rightarrow>
                    (case first_some (\<lambda>key. Option.bind (map_of ms key)
                                        (summary_value_to_string to_json)) input_keys of
                       Some v \<Rightarrow> trim_tool_summary v
                     | None \<Rightarrow>
                         (case ms of
                            (_, v) # _ \<Rightarrow>
                              Option.bind (summary_value_to_string to_json v) trim_tool_summary
                          | [] \<Rightarrow> Option.bind (summary_value_to_string to_json input)
                                     trim_tool_summary))
                | _ \<Rightarrow> Option.bind (summary_value_to_string to_json input) trim_tool_summary)))"

subsection \<open>The entries\<close>

datatype event_channel = Http | Osc

definition CROSS_CHANNEL_DEDUP_WINDOW_SECS :: nat where
  "CROSS_CHANNEL_DEDUP_WINDOW_SECS = 2"

definition DEDUP_MEMORY :: nat where
  "DEDUP_MEMORY = 4"

definition STALE_BUSY_TIMEOUT_SECS :: nat where
  "STALE_BUSY_TIMEOUT_SECS = 10 * 60"

definition AUTOMATIC_SUBMIT_PTY_IDLE_MS :: "64 word" where
  "AUTOMATIC_SUBMIT_PTY_IDLE_MS = 800"

definition AUTOMATIC_SUBMIT_FALLBACK_IDLE_MS :: nat where
  "AUTOMATIC_SUBMIT_FALLBACK_IDLE_MS = 6000"

record entry =
  se_status :: session_status
  se_tool_name :: "string option"
  se_tool_summary :: "string option"
  se_last_hook :: instant
  se_applied :: "(string \<times> instant \<times> event_channel) list"
  se_updated_at :: "64 word"
  se_tool_use_id :: "string option"
  se_turn_seq :: "64 word"
  se_task_binding :: "string option"
  se_observed :: bool
  se_pty_guard :: bool

type_synonym entries = "string \<Rightarrow> entry option"

record state_transition =
  tr_session :: string
  tr_from :: session_status
  tr_to :: session_status
  tr_turn_seq :: "64 word"
  tr_tool_use_id :: "string option"
  tr_tool_name :: "string option"
  tr_task_binding :: "string option"
  tr_trigger :: string
  tr_error_type :: "string option"

definition entry_new :: "instant \<Rightarrow> 64 word \<Rightarrow> entry" where
  "entry_new now epoch =
     \<lparr>se_status = Initializing, se_tool_name = None, se_tool_summary = None,
      se_last_hook = now, se_applied = [], se_updated_at = epoch, se_tool_use_id = None,
      se_turn_seq = 0, se_task_binding = None, se_observed = True, se_pty_guard = False\<rparr>"

definition new_automatic_submit_baseline :: "instant \<Rightarrow> 64 word \<Rightarrow> entry" where
  "new_automatic_submit_baseline now epoch = (entry_new now epoch)\<lparr>se_observed := False\<rparr>"

text \<open>\<open>entries.entry(id).or_insert_with(mk)\<close>\<close>

definition or_insert :: "string \<Rightarrow> entry \<Rightarrow> entries \<Rightarrow> entry" where
  "or_insert sid fresh m = (case m sid of Some e \<Rightarrow> e | None \<Rightarrow> fresh)"

definition register_for_automatic_submit ::
  "instant \<Rightarrow> 64 word \<Rightarrow> string \<Rightarrow> entries \<Rightarrow> entries \<times> instant" where
  "register_for_automatic_submit now epoch sid m =
     (let e = (or_insert sid (new_automatic_submit_baseline now epoch) m)\<lparr>se_pty_guard := True\<rparr>
      in (m(sid \<mapsto> e), se_last_hook e))"

definition mark_automatic_submit_started ::
  "instant \<Rightarrow> 64 word \<Rightarrow> string \<Rightarrow> entries \<Rightarrow> entries" where
  "mark_automatic_submit_started now epoch sid m =
     m(sid \<mapsto> (or_insert sid (new_automatic_submit_baseline now epoch) m)
         \<lparr>se_observed := False, se_last_hook := now, se_updated_at := epoch\<rparr>)"

definition is_cross_channel_dup ::
  "instant \<Rightarrow> string \<Rightarrow> event_channel \<Rightarrow> entry \<Rightarrow> bool" where
  "is_cross_channel_dup now event_name channel e =
     list_ex (\<lambda>(name, at, ch). name = event_name \<and> ch \<noteq> channel
        \<and> as_secs (since now at) < CROSS_CHANNEL_DEDUP_WINDOW_SECS) (se_applied e)"

definition remember_event :: "string \<times> instant \<times> event_channel \<Rightarrow> entry \<Rightarrow> entry" where
  "remember_event x e =
     (let kept = (if DEDUP_MEMORY \<le> length (se_applied e) then tl (se_applied e)
                  else se_applied e)
      in e\<lparr>se_applied := kept @ [x]\<rparr>)"

text \<open>The transition table: the entry with its tool fields updated, the next status, and the
  tool id and tool name that the transition reports.\<close>

definition clear_tool :: "entry \<Rightarrow> entry" where
  "clear_tool e = e\<lparr>se_tool_name := None, se_tool_summary := None\<rparr>"

fun transition_table ::
  "(json \<Rightarrow> string) \<Rightarrow> json \<Rightarrow> entry \<Rightarrow> cc_pane_event
     \<Rightarrow> entry \<times> session_status \<times> string option \<times> string option" where
  "transition_table tj p e SessionInit = (e, Initializing, None, None)"
| "transition_table tj p e SessionResume = (e, Initializing, None, None)"
| "transition_table tj p e PromptBefore = (e, Thinking, None, None)"
| "transition_table tj p e (ToolBefore _) =
     (let tool_name = (case extract_tool_name p of Some n \<Rightarrow> n | None \<Rightarrow> ''tool'');
          tool_use_id = extract_tool_use_id p
      in (e\<lparr>se_tool_use_id := tool_use_id, se_tool_name := Some tool_name,
            se_tool_summary := extract_tool_summary tj p\<rparr>,
          ToolRunning, tool_use_id, Some tool_name))"
| "transition_table tj p e (ToolAfter _) =
     ((clear_tool e)\<lparr>se_tool_use_id := None\<rparr>,
      if se_status e = ToolRunning then Thinking else se_status e, se_tool_use_id e, None)"
| "transition_table tj p e TurnEnd =
     (clear_tool (e\<lparr>se_turn_seq := se_turn_seq e + 1\<rparr>), Idle, None, None)"
| "transition_table tj p e BeforeCompact = (clear_tool e, Compacting, None, None)"
| "transition_table tj p e EvWaitingInput =
     (clear_tool e, WaitingInput, extract_tool_use_id p, None)"
| "transition_table tj p e EvError = (clear_tool e, Error, None, None)"
| "transition_table tj p e SessionEnd = (clear_tool e, Exited, None, None)"

definition is_tool_before :: "cc_pane_event \<Rightarrow> bool" where
  "is_tool_before ev = (case ev of ToolBefore _ \<Rightarrow> True | _ \<Rightarrow> False)"

definition on_event_with_channel ::
  "(json \<Rightarrow> string) \<Rightarrow> instant \<Rightarrow> 64 word \<Rightarrow> string \<Rightarrow> cc_pane_event \<Rightarrow> string option \<Rightarrow> json
     \<Rightarrow> event_channel \<Rightarrow> entries
     \<Rightarrow> entries \<times> (session_status \<times> session_status) \<times> state_transition option" where
  "on_event_with_channel tj now epoch sid event task_binding payload channel m =
     (let e = or_insert sid (entry_new now epoch) m;
          from = se_status e;
          name = cc_pane_event_name event
      in if is_cross_channel_dup now name channel e
         then (m(sid \<mapsto> e), (from, from), None)
         else
           (let e1 = remember_event (name, now, channel) (e\<lparr>se_observed := True\<rparr>);
                e2 = (case task_binding of Some t \<Rightarrow> e1\<lparr>se_task_binding := Some t\<rparr> | None \<Rightarrow> e1);
                e3 = e2\<lparr>se_last_hook := now, se_updated_at := epoch\<rparr>;
                (e4, nxt, tool_use_id, tool_name) = transition_table tj payload e3 event;
                e5 = e4\<lparr>se_status := nxt\<rparr>;
                tr = \<lparr>tr_session = sid, tr_from = from, tr_to = nxt,
                      tr_turn_seq = se_turn_seq e5, tr_tool_use_id = tool_use_id,
                      tr_tool_name = tool_name, tr_task_binding = se_task_binding e5,
                      tr_trigger = name,
                      tr_error_type = (if event = EvError then extract_error_type payload
                                       else None)\<rparr>
            in (m(sid \<mapsto> e5), (from, nxt),
                if from \<noteq> nxt \<or> is_tool_before event then Some tr else None)))"

definition on_event ::
  "(json \<Rightarrow> string) \<Rightarrow> instant \<Rightarrow> 64 word \<Rightarrow> string \<Rightarrow> cc_pane_event \<Rightarrow> string option \<Rightarrow> json
     \<Rightarrow> entries \<Rightarrow> entries \<times> (session_status \<times> session_status) \<times> state_transition option" where
  "on_event tj now epoch sid event task_binding payload m =
     on_event_with_channel tj now epoch sid event task_binding payload Http m"

definition force_exited ::
  "64 word \<Rightarrow> string \<Rightarrow> entries \<Rightarrow> entries \<times> state_transition option" where
  "force_exited epoch sid m =
     (case m sid of
        None \<Rightarrow> (m, None)
      | Some e \<Rightarrow>
          (if se_status e = Exited then (m, None)
           else (m(sid \<mapsto> e\<lparr>se_status := Exited, se_tool_name := None, se_tool_summary := None,
                          se_tool_use_id := None, se_updated_at := epoch\<rparr>),
                 Some \<lparr>tr_session = sid, tr_from = se_status e, tr_to = Exited,
                       tr_turn_seq = se_turn_seq e, tr_tool_use_id = None, tr_tool_name = None,
                       tr_task_binding = se_task_binding e, tr_trigger = ''pty-exit'',
                       tr_error_type = None\<rparr>)))"

subsection \<open>The queries\<close>

definition status_for_query_at ::
  "instant \<Rightarrow> string \<Rightarrow> session_status \<Rightarrow> entries \<Rightarrow> session_status" where
  "status_for_query_at now sid stored m =
     (if \<not> is_busy stored then stored
      else (case m sid of
              None \<Rightarrow> stored
            | Some e \<Rightarrow>
                (if \<not> is_busy (se_status e) then stored
                 else if STALE_BUSY_TIMEOUT_SECS < as_secs (since now (se_last_hook e)) then Idle
                 else stored)))"

definition status_for_automatic_submit_at ::
  "instant \<Rightarrow> string \<Rightarrow> session_status \<Rightarrow> bool \<Rightarrow> entries \<Rightarrow> session_status" where
  "status_for_automatic_submit_at now sid backend pty_stale m =
     (if backend = Exited \<or> backend = Error then backend
      else (case m sid of
              None \<Rightarrow> Initializing
            | Some e \<Rightarrow>
                (let hook_stale = AUTOMATIC_SUBMIT_FALLBACK_IDLE_MS
                                    \<le> as_millis (since now (se_last_hook e))
                 in if \<not> se_observed e
                    then (if backend = Idle \<and> hook_stale \<and> pty_stale then Idle else Initializing)
                    else if se_status e = Idle
                    then (if \<not> se_pty_guard e \<or> pty_stale then Idle else Initializing)
                    else if se_status e = WaitingInput then WaitingInput
                    else if is_busy (se_status e)
                    then (if hook_stale \<and> pty_stale then Idle else se_status e)
                    else se_status e)))"

definition status_for_automatic_submit ::
  "instant \<Rightarrow> 64 word \<Rightarrow> string \<Rightarrow> session_status \<Rightarrow> 64 word \<Rightarrow> entries \<Rightarrow> session_status" where
  "status_for_automatic_submit now epoch sid backend last_output_at m =
     status_for_automatic_submit_at now sid backend
       (AUTOMATIC_SUBMIT_PTY_IDLE_MS < saturating_sub epoch last_output_at) m"

definition seconds_since_last_hook :: "instant \<Rightarrow> string \<Rightarrow> entries \<Rightarrow> nat option" where
  "seconds_since_last_hook now sid m = map_option (\<lambda>e. as_secs (since now (se_last_hook e))) (m sid)"

subsection \<open>Runs of the machine\<close>

datatype sm_op =
    OpEvent cc_pane_event "string option" json event_channel
  | OpRegister
  | OpMark
  | OpExit

type_synonym sm_call = "instant \<times> 64 word \<times> string \<times> sm_op"

fun sm_exec :: "(json \<Rightarrow> string) \<Rightarrow> sm_call \<Rightarrow> entries \<Rightarrow> entries \<times> state_transition option" where
  "sm_exec tj (now, epoch, sid, OpEvent ev tb p ch) m =
     (let (m', _, tr) = on_event_with_channel tj now epoch sid ev tb p ch m in (m', tr))"
| "sm_exec tj (now, epoch, sid, OpRegister) m =
     (fst (register_for_automatic_submit now epoch sid m), None)"
| "sm_exec tj (now, epoch, sid, OpMark) m = (mark_automatic_submit_started now epoch sid m, None)"
| "sm_exec tj (now, epoch, sid, OpExit) m = force_exited epoch sid m"

fun sm_run :: "(json \<Rightarrow> string) \<Rightarrow> sm_call list \<Rightarrow> entries \<Rightarrow> entries \<times> state_transition list" where
  "sm_run tj [] m = (m, [])"
| "sm_run tj (c # cs) m =
     (let (m1, tr) = sm_exec tj c m; (m2, trs) = sm_run tj cs m1
      in (m2, (case tr of None \<Rightarrow> [] | Some t \<Rightarrow> [t]) @ trs))"

definition status_of :: "entries \<Rightarrow> string \<Rightarrow> session_status" where
  "status_of m sid = (case m sid of Some e \<Rightarrow> se_status e | None \<Rightarrow> Initializing)"

lemma or_insert_status: "se_status fresh = Initializing \<Longrightarrow>
    se_status (or_insert sid fresh m) = status_of m sid"
  by (simp add: or_insert_def status_of_def split: option.split)

lemma fresh_status [simp]:
  "se_status (entry_new now epoch) = Initializing"
  "se_status (new_automatic_submit_baseline now epoch) = Initializing"
  by (simp_all add: entry_new_def new_automatic_submit_baseline_def)

lemma remember_frame [frame]:
  "se_status (remember_event x e) = se_status e"
  "se_tool_name (remember_event x e) = se_tool_name e"
  "se_tool_summary (remember_event x e) = se_tool_summary e"
  "se_tool_use_id (remember_event x e) = se_tool_use_id e"
  "se_turn_seq (remember_event x e) = se_turn_seq e"
  "se_task_binding (remember_event x e) = se_task_binding e"
  "se_observed (remember_event x e) = se_observed e"
  "se_pty_guard (remember_event x e) = se_pty_guard e"
  by (simp_all add: remember_event_def Let_def)

lemma table_frame [frame]:
  "se_applied (fst (transition_table tj p e ev)) = se_applied e"
  "se_observed (fst (transition_table tj p e ev)) = se_observed e"
  "se_pty_guard (fst (transition_table tj p e ev)) = se_pty_guard e"
  "se_last_hook (fst (transition_table tj p e ev)) = se_last_hook e"
  "se_task_binding (fst (transition_table tj p e ev)) = se_task_binding e"
  by (cases ev; simp add: clear_tool_def Let_def)+

text \<open>The entry an applied event leaves, and the two outcomes of \<open>on_event_with_channel\<close>.\<close>

definition noted ::
  "instant \<Rightarrow> 64 word \<Rightarrow> string \<Rightarrow> event_channel \<Rightarrow> string option \<Rightarrow> entry \<Rightarrow> entry" where
  "noted now epoch name ch tb e =
     (let e1 = remember_event (name, now, ch) (e\<lparr>se_observed := True\<rparr>)
      in (case tb of Some t \<Rightarrow> e1\<lparr>se_task_binding := Some t\<rparr> | None \<Rightarrow> e1)
           \<lparr>se_last_hook := now, se_updated_at := epoch\<rparr>)"

definition applied ::
  "(json \<Rightarrow> string) \<Rightarrow> instant \<Rightarrow> 64 word \<Rightarrow> cc_pane_event \<Rightarrow> string option \<Rightarrow> json
     \<Rightarrow> event_channel \<Rightarrow> entry \<Rightarrow> entry" where
  "applied tj now epoch ev tb p ch e =
     (let (e', nxt, _) = transition_table tj p (noted now epoch (cc_pane_event_name ev) ch tb e) ev
      in e'\<lparr>se_status := nxt\<rparr>)"

lemma noted_frame [frame]:
  "se_status (noted now epoch name ch tb e) = se_status e"
  "se_tool_name (noted now epoch name ch tb e) = se_tool_name e"
  "se_tool_summary (noted now epoch name ch tb e) = se_tool_summary e"
  "se_turn_seq (noted now epoch name ch tb e) = se_turn_seq e"
  "se_observed (noted now epoch name ch tb e)"
  "se_pty_guard (noted now epoch name ch tb e) = se_pty_guard e"
  "se_last_hook (noted now epoch name ch tb e) = now"
  "se_applied (noted now epoch name ch tb e) = se_applied (remember_event (name, now, ch) e)"
  by (simp_all add: noted_def Let_def frame split: option.split)
    (simp add: remember_event_def Let_def)

lemma on_event_dropped:
  assumes "is_cross_channel_dup now (cc_pane_event_name ev) ch (or_insert sid (entry_new now epoch) m)"
  shows "on_event_with_channel tj now epoch sid ev tb p ch m =
    (m(sid \<mapsto> or_insert sid (entry_new now epoch) m), (status_of m sid, status_of m sid), None)"
  using assms by (simp add: on_event_with_channel_def Let_def or_insert_status)

lemma on_event_applied:
  assumes "\<not> is_cross_channel_dup now (cc_pane_event_name ev) ch (or_insert sid (entry_new now epoch) m)"
    and e': "e' = applied tj now epoch ev tb p ch (or_insert sid (entry_new now epoch) m)"
  obtains tr where
    "on_event_with_channel tj now epoch sid ev tb p ch m =
      (m(sid \<mapsto> e'), (status_of m sid, se_status e'),
       if status_of m sid \<noteq> se_status e' \<or> is_tool_before ev then Some tr else None)"
    "tr_session tr = sid" "tr_from tr = status_of m sid" "tr_to tr = se_status e'"
    "tr_turn_seq tr = se_turn_seq e'" "tr_trigger tr = cc_pane_event_name ev"
proof -
  let ?e = "or_insert sid (entry_new now epoch) m"
  obtain e4 nxt tid tn where t:
    "transition_table tj p (noted now epoch (cc_pane_event_name ev) ch tb ?e) ev = (e4, nxt, tid, tn)"
    by (metis surj_pair)
  then have "e' = e4\<lparr>se_status := nxt\<rparr>" by (simp add: e' applied_def)
  with assms(1) t show thesis
    by (intro that [of "\<lparr>tr_session = sid, tr_from = status_of m sid, tr_to = nxt,
          tr_turn_seq = se_turn_seq e', tr_tool_use_id = tid, tr_tool_name = tn,
          tr_task_binding = se_task_binding e', tr_trigger = cc_pane_event_name ev,
          tr_error_type = (if ev = EvError then extract_error_type p else None)\<rparr>"])
      (simp_all add: on_event_with_channel_def Let_def noted_def or_insert_status)
qed

fun spec_next :: "cc_pane_event \<Rightarrow> session_status \<Rightarrow> session_status" where
  "spec_next SessionInit st = Initializing"
| "spec_next SessionResume st = Initializing"
| "spec_next PromptBefore st = Thinking"
| "spec_next (ToolBefore _) st = ToolRunning"
| "spec_next (ToolAfter _) st = (if st = ToolRunning then Thinking else st)"
| "spec_next TurnEnd st = Idle"
| "spec_next BeforeCompact st = Compacting"
| "spec_next EvWaitingInput st = WaitingInput"
| "spec_next EvError st = Error"
| "spec_next SessionEnd st = Exited"

lemma applied_fields:
  "se_status (applied tj now epoch ev tb p ch e) = spec_next ev (se_status e)"
  "se_turn_seq (applied tj now epoch ev tb p ch e) =
     (if ev = TurnEnd then se_turn_seq e + 1 else se_turn_seq e)"
  "se_observed (applied tj now epoch ev tb p ch e)"
  "se_pty_guard (applied tj now epoch ev tb p ch e) = se_pty_guard e"
  "se_last_hook (applied tj now epoch ev tb p ch e) = now"
  "se_applied (applied tj now epoch ev tb p ch e) =
     se_applied (remember_event (cc_pane_event_name ev, now, ch) e)"
  by (cases ev; simp add: applied_def Let_def clear_tool_def frame)+

subsection \<open>What each call changes\<close>

lemma sm_exec_other:
  "sid' \<noteq> sid \<Longrightarrow> fst (sm_exec tj (now, epoch, sid, op) m) sid' = m sid'"
  by (cases op) (auto simp: on_event_with_channel_def register_for_automatic_submit_def
      mark_automatic_submit_started_def force_exited_def Let_def split: prod.splits option.splits)

text \<open>The entry that a call leaves for its own session.\<close>

lemma sm_exec_event:
  "fst (sm_exec tj (now, epoch, sid, OpEvent ev tb p ch) m) =
    m(sid \<mapsto> (let e = or_insert sid (entry_new now epoch) m
               in if is_cross_channel_dup now (cc_pane_event_name ev) ch e then e
                  else applied tj now epoch ev tb p ch e))"
proof (cases "is_cross_channel_dup now (cc_pane_event_name ev) ch (or_insert sid (entry_new now epoch) m)")
  case True
  then show ?thesis by (simp add: on_event_dropped Let_def)
next
  case False
  have "fst (on_event_with_channel tj now epoch sid ev tb p ch m) =
      m(sid \<mapsto> applied tj now epoch ev tb p ch (or_insert sid (entry_new now epoch) m))"
    by (rule on_event_applied [OF False refl, of tj tb p]) simp
  with False show ?thesis by (simp add: Let_def case_prod_beta)
qed

lemma sm_run_append:
  "fst (sm_run tj (cs @ ds) m) = fst (sm_run tj ds (fst (sm_run tj cs m)))"
  by (induction cs arbitrary: m) (auto simp: Let_def case_prod_beta)

lemma sm_run_Cons: "fst (sm_run tj (c # cs) m) = fst (sm_run tj cs (fst (sm_exec tj c m)))"
  by (simp add: Let_def case_prod_beta)

text \<open>A fact about the entry of one session that each of its calls keeps is kept by a run.\<close>

lemma sm_run_keeps:
  assumes "\<And>now epoch op m. (now, epoch, sid, op) \<in> set cs \<Longrightarrow> P (m sid)
      \<Longrightarrow> P (fst (sm_exec tj (now, epoch, sid, op) m) sid)"
    and "P (m sid)"
  shows "P (fst (sm_run tj cs m) sid)"
  using assms
proof (induction cs arbitrary: m)
  case (Cons c cs)
  obtain now epoch sid' op where c: "c = (now, epoch, sid', op)" by (metis surj_pair)
  have "P (fst (sm_exec tj c m) sid)"
  proof (cases "sid' = sid")
    case True
    with c Cons.prems show ?thesis by simp
  next
    case False
    with c Cons.prems(2) sm_exec_other [of sid sid'] show ?thesis by metis
  qed
  with Cons.IH Cons.prems(1) show ?case unfolding sm_run_Cons by (meson list.set_intros(2))
qed simp

subsection \<open>The invariant of the entries\<close>

definition entry_inv :: "entry \<Rightarrow> bool" where
  "entry_inv e \<longleftrightarrow> length (se_applied e) \<le> DEDUP_MEMORY
     \<and> (se_status e = ToolRunning \<longrightarrow> se_tool_name e \<noteq> None)
     \<and> (se_status e \<in> {Idle, Compacting, WaitingInput, Error, Exited} \<longrightarrow>
          se_tool_name e = None \<and> se_tool_summary e = None)"

lemma entry_inv_new: "entry_inv (entry_new now epoch)"
  "entry_inv (new_automatic_submit_baseline now epoch)"
  by (simp_all add: entry_inv_def entry_new_def new_automatic_submit_baseline_def)

lemma remember_length: "length (se_applied e) \<le> DEDUP_MEMORY \<Longrightarrow>
    length (se_applied (remember_event x e)) \<le> DEDUP_MEMORY"
  by (auto simp: remember_event_def Let_def DEDUP_MEMORY_def)

lemma applied_inv:
  assumes "entry_inv e"
  shows "entry_inv (applied tj now epoch ev tb p ch e)"
proof -
  have "length (se_applied (applied tj now epoch ev tb p ch e)) \<le> DEDUP_MEMORY"
    using assms by (simp add: applied_fields entry_inv_def remember_length)
  with assms show ?thesis
    by (cases ev) (simp_all add: entry_inv_def applied_def Let_def clear_tool_def frame)
qed

lemma or_insert_inv: "entry_inv fresh \<Longrightarrow> (\<And>e. m sid = Some e \<Longrightarrow> entry_inv e) \<Longrightarrow>
    entry_inv (or_insert sid fresh m)"
  by (simp add: or_insert_def split: option.split)

lemma entry_inv_update [simp]:
  "entry_inv (e\<lparr>se_observed := b\<rparr>) = entry_inv e"
  "entry_inv (e\<lparr>se_pty_guard := b\<rparr>) = entry_inv e"
  "entry_inv (e\<lparr>se_last_hook := t\<rparr>) = entry_inv e"
  "entry_inv (e\<lparr>se_updated_at := u\<rparr>) = entry_inv e"
  by (simp_all add: entry_inv_def)

lemma sm_exec_inv:
  assumes "\<And>e. m sid = Some e \<Longrightarrow> entry_inv e"
    and "fst (sm_exec tj (now, epoch, sid, op) m) sid = Some e"
  shows "entry_inv e"
proof (cases op)
  case (OpEvent ev tb p ch)
  then show ?thesis
    using assms by (auto simp: sm_exec_event Let_def intro!: applied_inv or_insert_inv entry_inv_new
        simp del: sm_exec.simps split: if_splits)
next
  case OpRegister
  then show ?thesis using assms
    by (auto simp: register_for_automatic_submit_def Let_def intro!: or_insert_inv entry_inv_new)
next
  case OpMark
  then show ?thesis using assms
    by (auto simp: mark_automatic_submit_started_def intro!: or_insert_inv entry_inv_new)
next
  case OpExit
  then show ?thesis using assms
    by (auto simp: force_exited_def entry_inv_def split: option.splits if_splits)
qed

subsection \<open>Properties\<close>

lemma reachable_entry_inv:
  "case fst (sm_run tj cs Map.empty) sid of
     None \<Rightarrow> True
   | Some e \<Rightarrow> entry_inv e"
proof (rule sm_run_keeps [where P = "\<lambda>x. case x of None \<Rightarrow> True | Some e \<Rightarrow> entry_inv e"])
  fix now epoch op and m :: entries
  assume "case m sid of None \<Rightarrow> True | Some e \<Rightarrow> entry_inv e"
  then have "\<And>e. m sid = Some e \<Longrightarrow> entry_inv e" by simp
  from sm_exec_inv [OF this] show "case fst (sm_exec tj (now, epoch, sid, op) m) sid of
      None \<Rightarrow> True | Some e \<Rightarrow> entry_inv e"
    by (simp split: option.split)
qed simp

text \<open>C40: What the activity badge of a session shows is consistent in every reachable state: a
  running tool always has a name, a session that is idle, compacting, waiting, failed or
  exited shows no tool, and at most four events are remembered.\<close>

theorem tool_badge_consistent:
  "case fst (sm_run tj cs Map.empty) sid of
     None \<Rightarrow> True
   | Some e \<Rightarrow> entry_inv e"
  by (rule reachable_entry_inv)

fun path :: "session_status \<Rightarrow> state_transition list \<Rightarrow> session_status option" where
  "path st [] = Some st"
| "path st (t # ts) = (if tr_from t = st then path (tr_to t) ts else None)"

definition worth_telling :: "state_transition \<Rightarrow> bool" where
  "worth_telling t \<longleftrightarrow> tr_from t \<noteq> tr_to t \<or> tr_trigger t = ''tool-before''"

lemma sm_exec_broadcast:
  assumes "sm_exec tj (now, epoch, sid, op) m = (m', tr)"
  shows "case tr of
      None \<Rightarrow> status_of m' sid = status_of m sid
    | Some t \<Rightarrow> tr_session t = sid \<and> tr_from t = status_of m sid \<and> tr_to t = status_of m' sid
        \<and> worth_telling t"
proof (cases op)
  case (OpEvent ev tb p ch)
  let ?e = "or_insert sid (entry_new now epoch) m"
  show ?thesis
  proof (cases "is_cross_channel_dup now (cc_pane_event_name ev) ch ?e")
    case True
    with OpEvent assms have "m' = m(sid \<mapsto> ?e)" and "tr = None" by (auto simp: on_event_dropped)
    then show ?thesis by (auto simp: status_of_def or_insert_def split: option.splits)
  next
    case False
    obtain t where
      "on_event_with_channel tj now epoch sid ev tb p ch m =
        (m(sid \<mapsto> applied tj now epoch ev tb p ch ?e),
         (status_of m sid, se_status (applied tj now epoch ev tb p ch ?e)),
         if status_of m sid \<noteq> se_status (applied tj now epoch ev tb p ch ?e) \<or> is_tool_before ev
         then Some t else None)"
      "tr_session t = sid" "tr_from t = status_of m sid"
      "tr_to t = se_status (applied tj now epoch ev tb p ch ?e)"
      "tr_trigger t = cc_pane_event_name ev"
      by (rule on_event_applied [OF False refl])
    moreover have "is_tool_before ev \<Longrightarrow> cc_pane_event_name ev = ''tool-before''"
      by (cases ev) (simp_all add: is_tool_before_def)
    ultimately show ?thesis using OpEvent assms
      by (auto simp: status_of_def worth_telling_def split: if_splits)
  qed
next
  case OpRegister
  with assms show ?thesis
    by (auto simp: register_for_automatic_submit_def Let_def status_of_def or_insert_def
        split: option.splits)
next
  case OpMark
  with assms show ?thesis
    by (auto simp: mark_automatic_submit_started_def status_of_def or_insert_def
        split: option.splits)
next
  case OpExit
  with assms show ?thesis
    by (auto simp: force_exited_def status_of_def worth_telling_def split: option.splits if_splits)
qed

text \<open>The broadcasts tell the whole story: over any run, the transitions broadcast for a
  session form a chain that starts at its status before the run and ends at its status after
  it, so a listener that applies them holds the machine's status; and each of them changes the
  status or announces a tool.\<close>

theorem broadcasts_track_status:
  "path (status_of m sid) (filter (\<lambda>t. tr_session t = sid) (snd (sm_run tj cs m)))
     = Some (status_of (fst (sm_run tj cs m)) sid)
   \<and> list_all worth_telling (snd (sm_run tj cs m))"
proof (induction cs arbitrary: m)
  case (Cons c cs)
  obtain now epoch sid' op where c: "c = (now, epoch, sid', op)" by (metis surj_pair)
  obtain m1 tr where e: "sm_exec tj c m = (m1, tr)" by fastforce
  obtain m2 trs where r: "sm_run tj cs m1 = (m2, trs)" by fastforce
  note b = sm_exec_broadcast [OF e [unfolded c]]
  have other: "sid' \<noteq> sid \<Longrightarrow> status_of m1 sid = status_of m sid"
    using e c sm_exec_other [of sid sid' tj now epoch op m] by (simp add: status_of_def)
  from Cons.IH [of m1] r b other e show ?case
    by (cases "sid' = sid") (auto split: option.splits)
qed simp

subsubsection \<open>One hook over two channels\<close>

text \<open>\<open>recent k x e\<close>: the event \<open>x\<close> is remembered, with at most \<open>k\<close> later ones.\<close>

definition recent :: "nat \<Rightarrow> string \<times> instant \<times> event_channel \<Rightarrow> entry \<Rightarrow> bool" where
  "recent k x e \<longleftrightarrow> (\<exists>l r. se_applied e = l @ x # r \<and> length r \<le> k)"

lemma recent_remember_self: "recent 0 x (remember_event x e)"
  by (simp add: recent_def remember_event_def Let_def)

lemma recent_remember:
  assumes "recent k x e" and "k < DEDUP_MEMORY - 1"
  shows "recent (Suc k) x (remember_event y e)"
proof -
  from assms obtain l r where lr: "se_applied e = l @ x # r" "length r \<le> k"
    by (auto simp: recent_def)
  show ?thesis
  proof (cases l)
    case Nil
    with lr assms(2) have "se_applied (remember_event y e) = [] @ x # (r @ [y])"
      by (simp add: remember_event_def Let_def DEDUP_MEMORY_def)
    with lr show ?thesis unfolding recent_def by fastforce
  next
    case (Cons a l')
    with lr have "se_applied (remember_event y e) = (if DEDUP_MEMORY \<le> length (se_applied e) then l' else l)
        @ x # (r @ [y])"
      by (simp add: remember_event_def Let_def)
    with lr show ?thesis unfolding recent_def by fastforce
  qed
qed

lemma recent_mono: "recent k x e \<Longrightarrow> k \<le> k' \<Longrightarrow> recent k' x e"
  unfolding recent_def by (meson le_trans)

fun is_event_of :: "string \<Rightarrow> sm_call \<Rightarrow> bool" where
  "is_event_of sid (_, _, sid', OpEvent _ _ _ _) = (sid' = sid)"
| "is_event_of sid _ = False"

lemma recent_exec:
  assumes "m sid = Some e" and "recent k x e" and "is_event_of sid c \<Longrightarrow> k < DEDUP_MEMORY - 1"
  obtains e' where "fst (sm_exec tj c m) sid = Some e'"
    "recent (if is_event_of sid c then Suc k else k) x e'"
proof -
  obtain now epoch sid' op where c: "c = (now, epoch, sid', op)" by (metis surj_pair)
  have "\<exists>e'. fst (sm_exec tj c m) sid = Some e' \<and> recent (if is_event_of sid c then Suc k else k) x e'"
  proof (cases "sid' = sid")
    case False
    with c assms sm_exec_other [of sid sid' tj now epoch op m] recent_mono [of k x e "Suc k"]
    show ?thesis by auto
  next
    case sid: True
    show ?thesis
    proof (cases op)
      case (OpEvent ev tb p ch)
      from OpEvent c sid assms have r: "recent (Suc k) x (remember_event y e)" for y
        by (simp add: recent_remember)
      have "recent (Suc k) x (applied tj now epoch ev tb p ch e)"
        using r [of "(cc_pane_event_name ev, now, ch)"] by (simp add: recent_def applied_fields)
      then show ?thesis using OpEvent c sid assms recent_mono [of k x e "Suc k"]
        by (auto simp: sm_exec_event or_insert_def Let_def simp del: sm_exec.simps)
    next
      case OpRegister
      with c sid assms show ?thesis
        by (simp add: register_for_automatic_submit_def or_insert_def Let_def recent_def)
    next
      case OpMark
      with c sid assms show ?thesis
        by (simp add: mark_automatic_submit_started_def or_insert_def recent_def)
    next
      case OpExit
      with c sid assms show ?thesis by (auto simp: force_exited_def recent_def)
    qed
  qed
  then show thesis using that by blast
qed

lemma recent_run:
  assumes "m sid = Some e" and "recent k x e"
    and "k + length (filter (is_event_of sid) cs) < DEDUP_MEMORY"
  shows "\<exists>e'. fst (sm_run tj cs m) sid = Some e' \<and> recent (DEDUP_MEMORY - 1) x e'"
  using assms
proof (induction cs arbitrary: m e k)
  case Nil
  then show ?case by (auto intro: recent_mono)
next
  case (Cons c cs)
  have "is_event_of sid c \<Longrightarrow> k < DEDUP_MEMORY - 1" using Cons.prems(3) by simp
  then obtain e' where "fst (sm_exec tj c m) sid = Some e'"
    "recent (if is_event_of sid c then Suc k else k) x e'"
    using recent_exec [of m sid e k x c tj] Cons.prems(1,2) by blast
  then show ?case
    using Cons.IH [of "fst (sm_exec tj c m)" e' "if is_event_of sid c then Suc k else k"] Cons.prems(3)
    unfolding sm_run_Cons by (simp split: if_splits)
qed

lemma recent_dup:
  "recent k (name, at, ch) e \<Longrightarrow> ch \<noteq> ch' \<Longrightarrow> since now at < from_secs 2 \<Longrightarrow>
    is_cross_channel_dup now name ch' e"
  by (auto simp: recent_def is_cross_channel_dup_def list_ex_iff as_secs_less_iff
      CROSS_CHANNEL_DEDUP_WINDOW_SECS_def)

text \<open>A hook delivered over both channels is applied once: if an event was applied, its copy
  that arrives over the other channel within two seconds changes nothing and broadcasts
  nothing, even when up to three other events of the session, in any order and over any
  channel, and any calls for other sessions came in between.\<close>

theorem duplicate_delivery_dropped:
  assumes "\<not> is_cross_channel_dup t0 (cc_pane_event_name ev) ch (or_insert sid (entry_new t0 ep0) m)"
    and "length (filter (is_event_of sid) cs) \<le> 3"
    and "cc_pane_event_name ev' = cc_pane_event_name ev" and "ch' \<noteq> ch"
    and "since t1 t0 < from_secs 2"
    and m2: "m2 = fst (sm_run tj ((t0, ep0, sid, OpEvent ev tb p ch) # cs) m)"
  shows "on_event_with_channel tj t1 ep1 sid ev' tb' p' ch' m2 =
    (m2, (status_of m2 sid, status_of m2 sid), None)"
proof -
  let ?e = "applied tj t0 ep0 ev tb p ch (or_insert sid (entry_new t0 ep0) m)"
  let ?x = "(cc_pane_event_name ev, t0, ch)"
  let ?m1 = "fst (sm_exec tj (t0, ep0, sid, OpEvent ev tb p ch) m)"
  have "?m1 sid = Some ?e"
    using assms(1) by (simp add: sm_exec_event Let_def del: sm_exec.simps)
  moreover have "recent 0 ?x ?e"
    using recent_remember_self by (simp add: recent_def applied_fields)
  ultimately obtain e2 where e2: "m2 sid = Some e2" "recent 3 ?x e2"
    using recent_run [of ?m1 sid ?e 0 ?x cs tj] assms(2) unfolding m2 sm_run_Cons
    by (auto simp: DEDUP_MEMORY_def)
  from e2 assms(3,4,5) have "is_cross_channel_dup t1 (cc_pane_event_name ev') ch'
      (or_insert sid (entry_new t1 ep1) m2)"
    by (simp add: or_insert_def recent_dup)
  from on_event_dropped [OF this] e2 show ?thesis by (simp add: or_insert_def fun_upd_idem)
qed

theorem duplicate_delivery_dropped_witness:
  "snd (snd (on_event_with_channel (\<lambda>_. []) 1 0 ''s'' TurnEnd None JNull Osc
     (fst (sm_run (\<lambda>_. []) [(0, 0, ''s'', OpEvent TurnEnd None JNull Http)] Map.empty)))) = None"
  using duplicate_delivery_dropped [of 0 TurnEnd Http "''s''" 0 Map.empty "[]" TurnEnd Osc 1]
  by (simp add: is_cross_channel_dup_def or_insert_def entry_new_def time_defs del: sm_run.simps)

subsubsection \<open>One channel\<close>

fun spec_op :: "sm_op \<Rightarrow> session_status \<times> nat \<Rightarrow> session_status \<times> nat" where
  "spec_op (OpEvent ev _ _ _) (st, n) = (spec_next ev st, if ev = TurnEnd then Suc n else n)"
| "spec_op _ stn = stn"

definition spec_calls :: "string \<Rightarrow> sm_call list \<Rightarrow> session_status \<times> nat" where
  "spec_calls sid cs =
     fold (\<lambda>(_, _, _, op). spec_op op) (filter (\<lambda>(_, _, sid', _). sid' = sid) cs) (Initializing, 0)"

fun on_channel :: "event_channel \<Rightarrow> string \<Rightarrow> sm_call \<Rightarrow> bool" where
  "on_channel ch sid (_, _, sid', OpEvent _ _ _ ch') = (sid' \<noteq> sid \<or> ch' = ch)"
| "on_channel ch sid (_, _, sid', OpExit) = (sid' \<noteq> sid)"
| "on_channel ch sid _ = True"

definition one_channel :: "event_channel \<Rightarrow> session_status \<times> nat \<Rightarrow> entry \<Rightarrow> bool" where
  "one_channel ch stn e \<longleftrightarrow> list_all (\<lambda>(_, _, c). c = ch) (se_applied e)
     \<and> stn = (se_status e, snd stn) \<and> se_turn_seq e = of_nat (snd stn)"

lemma one_channel_not_dup: "one_channel ch stn e \<Longrightarrow> \<not> is_cross_channel_dup now name ch e"
  by (auto simp: one_channel_def is_cross_channel_dup_def list_ex_iff list_all_iff)

lemma one_channel_applied:
  assumes "one_channel ch stn e"
  shows "one_channel ch (spec_op (OpEvent ev tb p ch) stn) (applied tj now epoch ev tb p ch e)"
proof -
  obtain st n where stn: "stn = (st, n)" by fastforce
  have "list_all (\<lambda>(_, _, c). c = ch) (tl (se_applied e))"
    using assms by (cases "se_applied e") (simp_all add: one_channel_def)
  with assms stn show ?thesis
    by (simp add: one_channel_def applied_fields remember_event_def Let_def)
qed

lemma one_channel_exec:
  assumes "on_channel ch sid (now, epoch, sid, op)"
    and "one_channel ch stn (or_insert sid (entry_new 0 0) m)"
  shows "one_channel ch (spec_op op stn)
    (or_insert sid (entry_new 0 0) (fst (sm_exec tj (now, epoch, sid, op) m)))"
proof -
  have fresh: "one_channel ch stn (or_insert sid (entry_new now epoch) m)"
    using assms(2) by (simp add: or_insert_def one_channel_def entry_new_def split: option.splits)
  show ?thesis
  proof (cases op)
    case (OpEvent ev tb p c)
    with assms(1) have [simp]: "c = ch" by simp
    show ?thesis using OpEvent one_channel_applied [OF fresh] one_channel_not_dup [OF fresh]
      by (simp add: sm_exec_event Let_def or_insert_def del: sm_exec.simps)
  next
    case OpRegister
    with fresh show ?thesis
      by (auto simp: register_for_automatic_submit_def Let_def or_insert_def one_channel_def
          new_automatic_submit_baseline_def split: option.splits)
  next
    case OpMark
    with fresh show ?thesis
      by (auto simp: mark_automatic_submit_started_def or_insert_def one_channel_def
          new_automatic_submit_baseline_def split: option.splits)
  qed (use assms(1) in simp)
qed

definition turn_seq_of :: "entries \<Rightarrow> string \<Rightarrow> 64 word" where
  "turn_seq_of m sid = (case m sid of Some e \<Rightarrow> se_turn_seq e | None \<Rightarrow> 0)"

text \<open>C36: A session whose events all come over one channel follows the transition table
  exactly, repetitions included: its status and its turn counter (modulo 2 to the 64) are those
  obtained by applying the table to the sequence of its events, whatever other calls are
  made.\<close>

theorem single_channel_follows_table:
  assumes "list_all (on_channel ch sid) cs"
  shows "status_of (fst (sm_run tj cs Map.empty)) sid = fst (spec_calls sid cs)
    \<and> turn_seq_of (fst (sm_run tj cs Map.empty)) sid = of_nat (snd (spec_calls sid cs))"
proof -
  have "one_channel ch (fold (\<lambda>(_, _, _, op). spec_op op) (filter (\<lambda>(_, _, sid', _). sid' = sid) cs) stn)
      (or_insert sid (entry_new 0 0) (fst (sm_run tj cs m)))"
    if "one_channel ch stn (or_insert sid (entry_new 0 0) m)" for stn m
    using assms that
  proof (induction cs arbitrary: m stn)
    case (Cons c cs)
    obtain now epoch sid' op where c: "c = (now, epoch, sid', op)" by (metis surj_pair)
    show ?case
    proof (cases "sid' = sid")
      case True
      with Cons c one_channel_exec [of ch sid now epoch op stn m tj] show ?thesis
        unfolding sm_run_Cons by simp
    next
      case False
      with c sm_exec_other [of sid sid' tj now epoch op m]
      have "or_insert sid (entry_new 0 0) (fst (sm_exec tj c m)) = or_insert sid (entry_new 0 0) m"
        by (simp add: or_insert_def)
      with Cons c False show ?thesis unfolding sm_run_Cons by simp
    qed
  qed simp
  from this [of "(Initializing, 0)" Map.empty]
  have "one_channel ch (spec_calls sid cs)
      (or_insert sid (entry_new 0 0) (fst (sm_run tj cs Map.empty)))"
    by (simp add: spec_calls_def one_channel_def or_insert_def entry_new_def)
  then show ?thesis
    by (cases "spec_calls sid cs")
      (auto simp: one_channel_def status_of_def turn_seq_of_def or_insert_def entry_new_def
        split: option.splits)
qed

theorem single_channel_follows_table_witness:
  "status_of (fst (sm_run (\<lambda>_. []) [(0, 0, ''s'', OpEvent PromptBefore None JNull Http),
     (0, 0, ''s'', OpEvent TurnEnd None JNull Http)] Map.empty)) ''s'' = Idle"
  using single_channel_follows_table [of Http "''s''"
      "[(0, 0, ''s'', OpEvent PromptBefore None JNull Http), (0, 0, ''s'', OpEvent TurnEnd None JNull Http)]"]
  by (simp add: spec_calls_def del: sm_run.simps)

subsubsection \<open>Automatic submission\<close>

text \<open>\<open>armed t e\<close>: the entry has seen no event since the baseline taken at \<open>t\<close>.\<close>

definition armed :: "instant \<Rightarrow> entry option \<Rightarrow> bool" where
  "armed t x = (case x of None \<Rightarrow> False | Some e \<Rightarrow> \<not> se_observed e \<and> se_last_hook e = t)"

fun quiet_for :: "string \<Rightarrow> sm_call \<Rightarrow> bool" where
  "quiet_for sid (_, _, sid', OpEvent _ _ _ _) = (sid' \<noteq> sid)"
| "quiet_for sid (_, _, sid', OpMark) = (sid' \<noteq> sid)"
| "quiet_for sid _ = True"

lemma armed_run:
  assumes "list_all (quiet_for sid) cs" and "armed t (m sid)"
  shows "armed t (fst (sm_run tj cs m) sid)"
proof (rule sm_run_keeps [where P = "armed t"])
  fix now epoch op and m :: entries
  assume "(now, epoch, sid, op) \<in> set cs" and "armed t (m sid)"
  with assms(1) show "armed t (fst (sm_exec tj (now, epoch, sid, op) m) sid)"
    by (cases op) (auto simp: list_all_iff register_for_automatic_submit_def armed_def or_insert_def
        force_exited_def Let_def split: option.splits)
qed (fact assms(2))

text \<open>A submission is never followed by a second one on the strength of the same
  observation: after the queue has consumed the idle observation of a session, and until an
  event of the session arrives, the session counts as idle again only when the backend itself
  says idle, its output is quiet, and six seconds have passed.\<close>

theorem no_double_submit:
  assumes "list_all (quiet_for sid) cs"
    and "status_for_automatic_submit_at now sid backend stale
      (fst (sm_run tj ((t0, ep0, sid, OpMark) # cs) m)) = Idle"
  shows "backend = Idle \<and> stale \<and> t0 + from_millis 6000 \<le> now"
proof -
  have "armed t0 (fst (sm_exec tj (t0, ep0, sid, OpMark) m) sid)"
    by (simp add: armed_def mark_automatic_submit_started_def)
  then have "armed t0 (fst (sm_run tj cs (fst (sm_exec tj (t0, ep0, sid, OpMark) m))) sid)"
    by (rule armed_run [OF assms(1)])
  with assms(2) show ?thesis
    unfolding sm_run_Cons
    by (auto simp: armed_def status_for_automatic_submit_at_def as_millis_ge_iff
        AUTOMATIC_SUBMIT_FALLBACK_IDLE_MS_def time_defs split: option.splits if_splits)
qed

theorem no_double_submit_witness:
  "status_for_automatic_submit_at 6000000000 ''s'' Idle True
      (fst (sm_run (\<lambda>_. []) [(0, 0, ''s'', OpMark)] Map.empty)) = Idle
   \<and> 0 + from_millis 6000 \<le> 6000000000"
proof -
  have "status_for_automatic_submit_at 6000000000 ''s'' Idle True
      (fst (sm_run (\<lambda>_. []) [(0, 0, ''s'', OpMark)] Map.empty)) = Idle"
    by (simp add: status_for_automatic_submit_at_def mark_automatic_submit_started_def or_insert_def
        AUTOMATIC_SUBMIT_FALLBACK_IDLE_MS_def time_defs)
  from no_double_submit [OF _ this] this show ?thesis by simp
qed

definition guarded :: "entry option \<Rightarrow> bool" where
  "guarded x = (case x of None \<Rightarrow> False | Some e \<Rightarrow> se_pty_guard e)"

lemma guarded_run: "guarded (m sid) \<Longrightarrow> guarded (fst (sm_run tj cs m) sid)"
proof (rule sm_run_keeps [where P = guarded])
  fix now epoch op and m :: entries
  assume "guarded (m sid)"
  then show "guarded (fst (sm_exec tj (now, epoch, sid, op) m) sid)"
    by (cases op) (auto simp: sm_exec_event register_for_automatic_submit_def
        mark_automatic_submit_started_def guarded_def or_insert_def applied_fields
        force_exited_def Let_def simp del: sm_exec.simps(1) split: option.splits)
qed

text \<open>Text is submitted automatically only to a quiet session: once a session is
  registered with the queue, whatever calls follow, it counts as idle only while its terminal
  output has been quiet for 800 ms and its backend is neither gone nor failed, and then either
  an event has set it to idle, or six seconds have passed without any event.\<close>

theorem automatic_submit_needs_quiet:
  assumes "m2 = fst (sm_run tj ((t0, ep0, sid, OpRegister) # cs) m)"
    and "status_for_automatic_submit now epoch sid backend last_output m2 = Idle"
  shows "800 < saturating_sub epoch last_output \<and> backend \<noteq> Exited \<and> backend \<noteq> Error
    \<and> (\<exists>e. m2 sid = Some e
         \<and> (se_observed e \<and> se_status e = Idle
            \<or> from_millis 6000 \<le> since now (se_last_hook e)
              \<and> (is_busy (se_status e) \<or> \<not> se_observed e \<and> backend = Idle)))"
proof -
  have "guarded (m2 sid)"
    unfolding assms(1) sm_run_Cons
    by (rule guarded_run) (simp add: guarded_def register_for_automatic_submit_def Let_def)
  with assms(2) show ?thesis
    by (auto simp: guarded_def status_for_automatic_submit_def status_for_automatic_submit_at_def
        as_millis_ge_iff AUTOMATIC_SUBMIT_FALLBACK_IDLE_MS_def AUTOMATIC_SUBMIT_PTY_IDLE_MS_def
        Let_def split: option.splits if_splits)
qed

theorem automatic_submit_needs_quiet_witness:
  "800 < saturating_sub 900 (0 :: 64 word)"
proof -
  have "status_for_automatic_submit 6000000000 900 ''s'' Idle 0
      (fst (sm_run (\<lambda>_. []) [(0, 0, ''s'', OpRegister)] Map.empty)) = Idle"
    by (simp add: status_for_automatic_submit_def status_for_automatic_submit_at_def
        register_for_automatic_submit_def or_insert_def new_automatic_submit_baseline_def
        entry_new_def AUTOMATIC_SUBMIT_FALLBACK_IDLE_MS_def AUTOMATIC_SUBMIT_PTY_IDLE_MS_def
        time_defs saturating_sub_def word_le_nat_alt Let_def)
  from automatic_submit_needs_quiet [OF refl this] show ?thesis by blast
qed

subsubsection \<open>Names\<close>

text \<open>The names of events and of kill reasons survive the wire: an event of any kind
  is read back from its name up to the tool matcher, a parsed name prints as itself, and a kill
  reason is read back from its printed form.\<close>
lemma names_roundtrip:
  "map_option cc_pane_event_name (parse_cc_pane_event_name (cc_pane_event_name ev))
     = Some (cc_pane_event_name ev)
   \<and> spec_next (the (parse_cc_pane_event_name (cc_pane_event_name ev))) st = spec_next ev st
   \<and> (case parse_cc_pane_event_name name of None \<Rightarrow> True | Some ev' \<Rightarrow> cc_pane_event_name ev' = name)
   \<and> kill_reason_parse (Some (kill_reason_as_str r)) = r"
proof -
  have "map_option cc_pane_event_name (parse_cc_pane_event_name (cc_pane_event_name ev))
      = Some (cc_pane_event_name ev)"
    and "spec_next (the (parse_cc_pane_event_name (cc_pane_event_name ev))) st = spec_next ev st"
    by (cases ev; simp add: parse_cc_pane_event_name_def)+
  moreover have "case parse_cc_pane_event_name name of
      None \<Rightarrow> True | Some ev' \<Rightarrow> cc_pane_event_name ev' = name"
    by (simp add: parse_cc_pane_event_name_def)
  moreover have "kill_reason_parse (Some (kill_reason_as_str r)) = r"
    by (cases r) (simp_all add: kill_reason_parse_def)
  ultimately show ?thesis by blast
qed

end
