(* ===== verification/Status_Infer.thy ===== *)
theory Status_Infer
  imports Output_Filter Osc_Detect Session_State
begin

text \<open>
  From terminal output to session status, in
  \<open>cc-panes-core/src/services/terminal_service.rs\<close>: the markers found in the output drive the
  session state machine (\<open>apply_osc_signal\<close>), the text itself is the fallback
  (\<open>infer_status\<close>), and \<open>build_session_status_info\<close> is the answer to a status query.
\<close>

subsection \<open>Plain text\<close>

fun skip_osc :: "bytes \<Rightarrow> bytes" where
  "skip_osc [] = []"
| "skip_osc (b # r) =
     (if b = BEL then r
      else if b = ESC \<and> prefix [CHR 0x5C] r then tl r
      else skip_osc r)"

definition skip_csi :: "bytes \<Rightarrow> bytes" where
  "skip_csi s =
     (case dropWhile (byte_in 0x20 0x2F) (dropWhile (byte_in 0x30 0x3F) s) of
        [] \<Rightarrow> []
      | c # r \<Rightarrow> (if byte_in 0x40 0x7E c then r else c # r))"

lemma length_skip_osc: "length (skip_osc s) \<le> length s"
  by (induction s rule: skip_osc.induct) (auto simp: le_SucI)

lemma length_skip_csi: "length (skip_csi s) \<le> length s"
proof -
  have "length (dropWhile (byte_in 0x20 0x2F) (dropWhile (byte_in 0x30 0x3F) s)) \<le> length s"
    using length_dropWhile_le le_trans by blast
  then show ?thesis by (auto simp: skip_csi_def split: list.split)
qed

text \<open>The bytes removed are ASCII or end at an ASCII byte, so the lossy conversion at the end of
  the function has nothing to replace (\<open>strip_keeps_utf8\<close> below).\<close>

function strip_ansi_escapes :: "bytes \<Rightarrow> bytes" where
  "strip_ansi_escapes [] = []"
| "strip_ansi_escapes (b # r) =
     (if b = ESC then
        (case r of
           [] \<Rightarrow> []
         | k # r' \<Rightarrow>
             (if k = CHR ''['' then strip_ansi_escapes (skip_csi r')
              else if k = CHR '']'' then strip_ansi_escapes (skip_osc r')
              else if byte_in 0x40 0x5F k then strip_ansi_escapes r'
              else strip_ansi_escapes r))
      else b # strip_ansi_escapes r)"
  by pat_completeness auto
termination
  by (relation "measure length") (auto simp: le_imp_less_Suc length_skip_osc length_skip_csi le_SucI)

declare strip_ansi_escapes.simps(2) [simp del]

subsection \<open>Status inferred from text\<close>

definition terminal_tail_lower :: "bytes \<Rightarrow> nat \<Rightarrow> bytes" where
  "terminal_tail_lower clean max_bytes =
     map to_ascii_lower (dropWhile cont (drop (length clean - max_bytes) clean))"

definition waiting_markers :: "string list" where
  "waiting_markers = [''workspace trust'', ''trust this workspace'', ''trust the workspace'',
     ''run everything'', ''add to allowlist'', ''command approval'', ''needs your approval'',
     ''waiting for approval'', ''press a to trust'', ''waiting for input'', ''type a message'']"

definition cursor_agent_waiting_input :: "string \<Rightarrow> bool" where
  "cursor_agent_waiting_input tail_lower = list_ex (\<lambda>m. sublist m tail_lower) waiting_markers"

definition tool_markers :: "string list" where
  "tool_markers = [''running tool'', ''calling tool'', ''tool call'', ''executing command'',
     ''running command'', ''shell: '', ''running shell'']"

definition cursor_agent_tool_running :: "string \<Rightarrow> bool" where
  "cursor_agent_tool_running tail_lower = list_ex (\<lambda>m. sublist m tail_lower) tool_markers"

definition ellipsis :: bytes where
  "ellipsis = [CHR 0xE2, CHR 0x80, CHR 0xA6]"

definition thinking_markers :: "string list" where
  "thinking_markers = [''thinking'' @ ellipsis, ''thinking...'', ''reasoning'' @ ellipsis,
     ''reasoning...'', ''planning next'', ''considering'']"

definition cursor_agent_thinking :: "string \<Rightarrow> bool" where
  "cursor_agent_thinking tail_lower = list_ex (\<lambda>m. sublist m tail_lower) thinking_markers"

definition prompt_patterns :: "bytes list" where
  "prompt_patterns = [''$ '', ''# '', ''> '', [CHR 0xE2, CHR 0x9D, CHR 0xAF, CHR '' ''],
     [CHR 0xCE, CHR 0xBB, CHR '' ''], ''PS>'', ''>>> '', ''... '']"

text \<open>\<open>trimmed.lines().last()\<close> of a text that does not end in a line break.\<close>

definition last_line :: "string \<Rightarrow> string option" where
  "last_line trimmed = (if trimmed = [] then None else Some (last (split_on (CHR 0x0A) trimmed)))"

definition asks_yes_no :: "string \<Rightarrow> bool" where
  "asks_yes_no line = (suffix ''[Y/n]'' line \<or> suffix ''[y/N]'' line)"

definition infer_status :: "string \<Rightarrow> session_status" where
  "infer_status out =
     (let trimmed = trim (strip_ansi_escapes out);
          tail_lower = terminal_tail_lower trimmed 2048
      in if cursor_agent_waiting_input tail_lower then WaitingInput
         else if cursor_agent_tool_running tail_lower then ToolRunning
         else if cursor_agent_thinking tail_lower then Thinking
         else
           (case last_line trimmed of
              None \<Rightarrow> Active
            | Some ll \<Rightarrow>
                (let line = trim ll
                 in if asks_yes_no line then WaitingInput
                    else if suffix ''?'' line then WaitingInput
                    else if line = ''>'' then WaitingInput
                    else if list_ex (\<lambda>p. suffix p line \<or> suffix (trim p) line) prompt_patterns
                    then WaitingInput
                    else Active)))"

definition inferred_waiting_is_strong :: "string \<Rightarrow> bool" where
  "inferred_waiting_is_strong out =
     (let trimmed = trim (strip_ansi_escapes out);
          tail_lower = terminal_tail_lower trimmed 2048
      in if cursor_agent_waiting_input tail_lower then True
         else (case last_line trimmed of None \<Rightarrow> False | Some ll \<Rightarrow> asks_yes_no (trim ll)))"

definition should_apply_pty_status_fallback :: "bool \<Rightarrow> session_status \<Rightarrow> bool" where
  "should_apply_pty_status_fallback hook_active current =
     (\<not> hook_active \<and> \<not> (current = Exited \<or> current = Error))"

subsection \<open>Markers drive the state machine\<close>

text \<open>The payload built for a signal; the payload's numbers print as decimals, which is the
  parameter \<open>show_int\<close>.\<close>

definition osc_event :: "(int \<Rightarrow> string) \<Rightarrow> osc_signal \<Rightarrow> (cc_pane_event \<times> json) option" where
  "osc_event show_int sig =
     (case sig of
        Started agent \<Rightarrow>
          Some (SessionInit, JObject [(''agent'', JString agent), (''source'', JString ''osc'')])
      | Event name \<Rightarrow>
          map_option (\<lambda>ev. (ev, JObject [(''source'', JString ''osc'')]))
            (parse_cc_pane_event_name name)
      | CommandExited exit_code \<Rightarrow>
          (case exit_code of
             Some code \<Rightarrow>
               (if code \<noteq> 0
                then Some (EvError, JObject [(''error_type'', JString ''agent-exit''),
                       (''exit_code'', JNumber (show_int code)), (''source'', JString ''osc'')])
                else Some (TurnEnd, JObject [(''exit_code'', JNumber (show_int code)),
                       (''source'', JString ''osc'')]))
           | None \<Rightarrow> Some (TurnEnd, JObject [(''exit_code'', JNull), (''source'', JString ''osc'')])))"

definition apply_osc_signal ::
  "(json \<Rightarrow> string) \<Rightarrow> (int \<Rightarrow> string) \<Rightarrow> instant \<Rightarrow> 64 word \<Rightarrow> string \<Rightarrow> osc_signal
     \<Rightarrow> entries \<Rightarrow> entries \<times> state_transition option" where
  "apply_osc_signal tj show_int now epoch sid sig m =
     (case osc_event show_int sig of
        None \<Rightarrow> (m, None)
      | Some (event, payload) \<Rightarrow>
          (let (m', _, tr) = on_event_with_channel tj now epoch sid event None payload event_channel.Osc m
           in (m', tr)))"

fun apply_signals ::
  "(json \<Rightarrow> string) \<Rightarrow> (int \<Rightarrow> string) \<Rightarrow> instant \<Rightarrow> 64 word \<Rightarrow> string \<Rightarrow> osc_signal list
     \<Rightarrow> entries \<Rightarrow> entries" where
  "apply_signals tj si now epoch sid [] m = m"
| "apply_signals tj si now epoch sid (x # xs) m =
     apply_signals tj si now epoch sid xs (fst (apply_osc_signal tj si now epoch sid x m))"

subsection \<open>The answer to a status query\<close>

record status_info =
  si_session :: string
  si_status :: session_status
  si_last_output_at :: "64 word"
  si_pid :: "32 word option"
  si_exit_code :: "int option"
  si_tool_name :: "string option"
  si_tool_use_id :: "string option"
  si_tool_summary :: "string option"
  si_updated_at :: "64 word"

definition build_session_status_info ::
  "instant \<Rightarrow> string \<Rightarrow> session_status \<Rightarrow> 64 word \<Rightarrow> 32 word option \<Rightarrow> int option
     \<Rightarrow> entries option \<Rightarrow> status_info" where
  "build_session_status_info now sid status last_output_at pid exit_code sm =
     (let snapshot = Option.bind sm (\<lambda>m. m sid);
          effective = (case sm of Some m \<Rightarrow> status_for_query_at now sid status m | None \<Rightarrow> status);
          stale = (is_busy status \<and> effective = Idle);
          field = (\<lambda>f. if stale then None else Option.bind snapshot f)
      in \<lparr>si_session = sid, si_status = effective, si_last_output_at = last_output_at,
          si_pid = pid, si_exit_code = exit_code, si_tool_name = field se_tool_name,
          si_tool_use_id = field se_tool_use_id, si_tool_summary = field se_tool_summary,
          si_updated_at = (case snapshot of Some e \<Rightarrow> se_updated_at e | None \<Rightarrow> last_output_at)\<rparr>)"

subsection \<open>Plain text is clean\<close>

lemma cont_high: "cont b \<Longrightarrow> 0x80 \<le> byte b"
  by (simp add: cont_def byte_in_def)

lemma second_high: "second_ok a b \<Longrightarrow> 0x80 \<le> byte b"
  by (auto simp: second_ok_def byte_in_def cont_def split: if_splits)

lemma front_ok_tail_high: "front_ok (a # s) \<Longrightarrow> b \<in> set s \<Longrightarrow> 0x80 \<le> byte b"
  by (cases s) (auto simp: list_all_iff dest: cont_high second_high)

lemma char_front_ascii: "byte a < 0x80 \<Longrightarrow> char_front (a # s) = Some 1"
  by (simp add: char_front_Some char_width_def)

lemma valid_utf8_ascii_Cons: "byte a < 0x80 \<Longrightarrow> valid_utf8 (a # s) = valid_utf8 s"
  by (simp add: valid_utf8_step char_front_ascii)

lemma char_front_ok: "char_front s = Some n \<Longrightarrow> front_ok (take n s)"
  unfolding char_front_Some by blast

lemma char_front_take: "char_front s = Some n \<Longrightarrow> char_front (take n s) = Some n"
  using char_front_bounds [of s n] unfolding char_front_Some by auto

lemma valid_after_ascii:
  assumes "valid_utf8 (p @ a # r)" and "byte a < 0x80"
  shows "valid_utf8 r"
  using assms(1)
proof (induction p rule: length_induct)
  case (1 p)
  show ?case
  proof (cases p)
    case Nil
    with 1(2) assms(2) show ?thesis by (simp add: valid_utf8_ascii_Cons)
  next
    case (Cons b q)
    let ?s = "p @ a # r"
    from 1(2) Cons obtain n where n: "char_front ?s = Some n" "valid_utf8 (drop n ?s)"
      unfolding valid_utf8_iff [of ?s] by (auto split: option.splits)
    note nb = char_front_bounds [OF n(1)]
    have "n \<le> length p"
    proof (rule ccontr)
      assume "\<not> n \<le> length p"
      then obtain x where x: "take n ?s = b # q @ a # x"
        using Cons by (cases n) (auto simp: take_Cons')
      from n(1) have "front_ok (take n ?s)" by (rule char_front_ok)
      from front_ok_tail_high [OF this [unfolded x], of a] assms(2) show False by simp
    qed
    then have "valid_utf8 (drop n p @ a # r)" using n(2) by simp
    moreover have "length (drop n p) < length p" using nb Cons by simp
    ultimately have "valid_utf8 (drop n p @ a # r) \<and> length (drop n p) < length p" by blast
    with 1(1) show ?thesis by blast
  qed
qed

lemma ascii_ESC [simp]: "byte ESC < 0x80" "byte BEL < 0x80" "byte (CHR 0x5C) < 0x80"
  by (simp_all add: ESC_def BEL_def byte_def)

lemma skip_osc_suffix: "skip_osc s = [] \<or> (\<exists>p a. byte a < 0x80 \<and> s = p @ a # skip_osc s)"
proof (induction s rule: skip_osc.induct)
  case (2 b r)
  consider "b = BEL" | "b \<noteq> BEL" "b = ESC" "prefix [CHR 0x5C] r"
    | "b \<noteq> BEL" "\<not> (b = ESC \<and> prefix [CHR 0x5C] r)" by blast
  then show ?case
  proof cases
    case 1
    then show ?thesis by (intro disjI2 exI [of _ "[]"] exI [of _ BEL]) simp
  next
    case 2
    then obtain r' where "r = CHR 0x5C # r'" by (auto simp: prefix_def)
    with 2 show ?thesis by (intro disjI2 exI [of _ "[ESC]"] exI [of _ "CHR 0x5C"]) simp
  next
    case 3
    with 2 have "skip_osc (b # r) = skip_osc r"
      "skip_osc r = [] \<or> (\<exists>p a. byte a < 0x80 \<and> r = p @ a # skip_osc r)" by auto
    then show ?thesis by (metis append_Cons)
  qed
qed simp

lemma valid_skip_osc: "valid_utf8 s \<Longrightarrow> valid_utf8 (skip_osc s)"
  using skip_osc_suffix [of s] valid_after_ascii by (metis valid_utf8.simps(1))

lemma valid_dropWhile_ascii:
  "(\<And>b. P b \<Longrightarrow> byte b < 0x80) \<Longrightarrow> valid_utf8 s \<Longrightarrow> valid_utf8 (dropWhile P s)"
  by (induction s) (auto simp: valid_utf8_ascii_Cons)

lemma valid_skip_csi: "valid_utf8 s \<Longrightarrow> valid_utf8 (skip_csi s)"
proof -
  assume "valid_utf8 s"
  then have "valid_utf8 (dropWhile (byte_in 0x20 0x2F) (dropWhile (byte_in 0x30 0x3F) s))"
    by (intro valid_dropWhile_ascii) (auto simp: byte_in_def)
  then show ?thesis
    by (auto simp: skip_csi_def byte_in_def valid_utf8_ascii_Cons split: list.splits)
qed

lemma strip_no_ESC: "ESC \<notin> set (strip_ansi_escapes s)"
  by (induction s rule: strip_ansi_escapes.induct)
    (auto simp: strip_ansi_escapes.simps(2) split: list.splits)

lemma strip_plain: "ESC \<notin> set p \<Longrightarrow> strip_ansi_escapes (p @ s) = p @ strip_ansi_escapes s"
  by (induction p) (auto simp: strip_ansi_escapes.simps(2))

lemma strip_keeps_utf8: "valid_utf8 s \<Longrightarrow> valid_utf8 (strip_ansi_escapes s)"
proof (induction s rule: length_induct)
  case (1 s)
  show ?case
  proof (cases s)
    case (Cons b r)
    show ?thesis
    proof (cases "b = ESC")
      case True
      with 1(2) Cons have r: "valid_utf8 r" by (simp add: valid_utf8_ascii_Cons)
      show ?thesis
      proof (cases r)
        case Nil
        with Cons True show ?thesis by (simp add: strip_ansi_escapes.simps(2))
      next
        case k: (Cons k r')
        have IH: "valid_utf8 x \<Longrightarrow> length x \<le> length r \<Longrightarrow> valid_utf8 (strip_ansi_escapes x)" for x
          using 1(1) Cons by (simp add: le_imp_less_Suc)
        have "byte k < 0x80 \<Longrightarrow> valid_utf8 r'" using r k by (simp add: valid_utf8_ascii_Cons)
        moreover have "byte (CHR ''['') < 0x80" "byte (CHR '']'') < 0x80" by (simp_all add: byte_def)
        ultimately show ?thesis
          using IH [of "skip_csi r'"] IH [of "skip_osc r'"] IH [of r'] IH [of r] r k Cons True
            length_skip_osc [of r'] length_skip_csi [of r'] valid_skip_osc [of r'] valid_skip_csi [of r']
          by (auto simp: strip_ansi_escapes.simps(2) byte_in_def)
      qed
    next
      case False
      from 1(2) Cons obtain n where n: "char_front s = Some n" "valid_utf8 (drop n s)"
        unfolding valid_utf8_iff [of s] by (auto split: option.splits)
      note nb = char_front_bounds [OF n(1)]
      then obtain x where x: "take n s = b # x" using Cons by (cases n) auto
      have "front_ok (take n s)" using n(1) by (rule char_front_ok)
      with x False have "ESC \<notin> set (take n s)"
        using front_ok_tail_high [of b x ESC] ascii_ESC(1) by auto
      from strip_plain [OF this, of "drop n s"]
      have eq: "strip_ansi_escapes s = take n s @ strip_ansi_escapes (drop n s)" by simp
      have "valid_utf8 (take n s)"
        using char_front_take [OF n(1)] nb by (subst valid_utf8_iff) auto
      moreover have "length (drop n s) < length s" using nb by auto
      with 1(1) n(2) have "valid_utf8 (strip_ansi_escapes (drop n s))" by blast
      ultimately show ?thesis using eq valid_utf8_append by metis
    qed
  qed simp
qed

subsection \<open>Properties\<close>

text \<open>Stripping is safe on any output: the plain text of valid UTF-8 is valid UTF-8 (so
  the lossy conversion replaces nothing), contains no escape character, and text without
  one is left as it is.\<close>

theorem strip_is_clean:
  "(valid_utf8 s \<longrightarrow> valid_utf8 (strip_ansi_escapes s)) \<and> ESC \<notin> set (strip_ansi_escapes s)
   \<and> (ESC \<notin> set s \<longrightarrow> strip_ansi_escapes s = s)"
  using strip_keeps_utf8 strip_no_ESC strip_plain [of s "[]"] by simp

theorem strip_is_clean_witness:
  "strip_ansi_escapes ''ok'' = ''ok''"
  using strip_is_clean [of "''ok''"] by (simp add: ESC_def)

subsubsection \<open>The reader's status update\<close>

text \<open>The part of the reader loop that updates the status after each read: \<open>hook_secs\<close> is the
  age of the last hook event, \<open>current\<close> the status under the lock, \<open>prev\<close> the last status the
  reader saw without hooks. It returns the new status, the new \<open>prev\<close> and whether the user is
  notified.\<close>

definition reader_status ::
  "nat option \<Rightarrow> string \<Rightarrow> session_status \<Rightarrow> session_status
     \<Rightarrow> session_status \<times> session_status \<times> bool" where
  "reader_status hook_secs data current prev =
     (let inferred = infer_status data;
          hook_active = (case hook_secs of Some secs \<Rightarrow> secs < 30 | None \<Rightarrow> False);
          new_status = (if should_apply_pty_status_fallback hook_active current then inferred
                        else current)
      in if hook_active then (new_status, prev, False)
         else (new_status, new_status,
               prev \<noteq> WaitingInput \<and> new_status = WaitingInput \<and> inferred_waiting_is_strong data))"

text \<open>A run of the loop; before each read the status may have been set by the hooks.\<close>

fun reader_run ::
  "(nat option \<times> string \<times> session_status) list \<Rightarrow> session_status
     \<Rightarrow> (session_status \<times> bool) list" where
  "reader_run [] prev = []"
| "reader_run ((hs, data, current) # xs) prev =
     (let (st, prev', n) = reader_status hs data current prev in (st, n) # reader_run xs prev')"

text \<open>The text of a terminal disturbs the user only for a new, explicit question: a read
  notifies only if no hook has been seen for 30 seconds, the session was not already waiting,
  the text is an explicit prompt and the session's new status is waiting; while hooks are
  active, and on a session that has exited or failed, the text changes nothing.\<close>

theorem reader_disturbs_only_on_edge:
  "case reader_status hs data current prev of (st, prev', notified) \<Rightarrow>
     (if notified then (case hs of Some n \<Rightarrow> 30 \<le> n | None \<Rightarrow> True) \<and> prev \<noteq> WaitingInput
        \<and> inferred_waiting_is_strong data \<and> st = WaitingInput \<and> prev' = WaitingInput
        \<and> infer_status data = WaitingInput else True)
     \<and> (if (case hs of Some n \<Rightarrow> n < 30 | None \<Rightarrow> False) \<or> current \<in> {Exited, Error}
        then st = current \<and> notified = False else True)"
  by (auto simp: reader_status_def Let_def should_apply_pty_status_fallback_def split: option.splits)

text \<open>A prompt that stays on the screen notifies once: in a run of reads that all leave the
  session waiting, at most the first notification is given, however often the screen is
  redrawn.\<close>

theorem steady_prompt_notifies_once:
  assumes "list_all (\<lambda>(st, _). st = WaitingInput) (reader_run xs prev)"
  shows "length (filter snd (reader_run xs prev)) \<le> (if prev = WaitingInput then 0 else 1)"
  using assms
proof (induction xs arbitrary: prev)
  case (Cons x xs)
  obtain hs data current where x: "x = (hs, data, current)" by (metis surj_pair)
  obtain st prev' n where r: "reader_status hs data current prev = (st, prev', n)" by (metis surj_pair)
  then have p: "n \<Longrightarrow> prev \<noteq> WaitingInput \<and> prev' = WaitingInput"
    "prev' = prev \<or> prev' = st"
    by (auto simp: reader_status_def Let_def split: if_splits)
  from Cons.prems x r have "st = WaitingInput" and
    "list_all (\<lambda>(st, _). st = WaitingInput) (reader_run xs prev')" by auto
  with Cons.IH [of prev'] p x r show ?case by (cases n) (auto split: if_splits)
qed simp

theorem steady_prompt_notifies_once_witness:
  "length (filter snd (reader_run [(Some 1, [], WaitingInput)] Idle)) \<le> 1"
proof -
  have "list_all (\<lambda>(st, _). st = WaitingInput) (reader_run [(Some 1, [], WaitingInput)] Idle)"
    by (simp add: reader_status_def Let_def should_apply_pty_status_fallback_def)
  from steady_prompt_notifies_once [OF this] show ?thesis by simp
qed

subsubsection \<open>Signals\<close>

lemma apply_signal_status:
  assumes "osc_event si sig = Some (ev, p)"
  shows "status_of (fst (apply_osc_signal tj si now epoch sid sig m)) sid \<in>
    {status_of m sid, spec_next ev (status_of m sid)}"
proof -
  let ?e = "or_insert sid (entry_new now epoch) m"
  have "fst (apply_osc_signal tj si now epoch sid sig m) =
      fst (sm_exec tj (now, epoch, sid, OpEvent ev None p event_channel.Osc) m)"
    using assms by (simp add: apply_osc_signal_def case_prod_beta)
  also have "\<dots> = m(sid \<mapsto> (if is_cross_channel_dup now (cc_pane_event_name ev) event_channel.Osc ?e
      then ?e else applied tj now epoch ev None p event_channel.Osc ?e))"
    by (simp only: sm_exec_event Let_def)
  finally show ?thesis
    using or_insert_status [of "entry_new now epoch" sid m] by (simp add: status_of_def applied_fields)
qed

text \<open>The end of a command in a shell never ends its session: as long as the output carries
  no session-end marker, no signal found in it, whatever the exit codes, turns a session that
  has not exited into an exited one.\<close>

theorem command_exit_keeps_session:
  assumes "status_of m sid \<noteq> Exited" and "Event ''session-end'' \<notin> set sigs"
  shows "status_of (apply_signals tj si now epoch sid sigs m) sid \<noteq> Exited"
  using assms
proof (induction sigs arbitrary: m)
  case (Cons x sigs)
  have "status_of (fst (apply_osc_signal tj si now epoch sid x m)) sid \<noteq> Exited"
  proof (cases "osc_event si x")
    case None
    with Cons.prems show ?thesis by (simp add: apply_osc_signal_def)
  next
    case (Some ep)
    obtain ev p where ep: "ep = (ev, p)" by fastforce
    from Cons.prems(2) Some ep have "ev \<noteq> SessionEnd"
      by (auto simp: osc_event_def parse_cc_pane_event_name_def split: osc_signal.splits option.splits if_splits)
    then have "spec_next ev (status_of m sid) \<noteq> Exited"
      using Cons.prems(1) by (cases ev) auto
    with apply_signal_status [OF Some [unfolded ep]] Cons.prems(1) show ?thesis by (metis empty_iff insert_iff)
  qed
  with Cons show ?case by simp
qed simp

theorem command_exit_keeps_session_witness:
  "status_of (apply_signals (\<lambda>_. []) (\<lambda>_. []) 0 0 ''s'' [CommandExited (Some 1)] Map.empty) ''s'' \<noteq> Exited"
  by (rule command_exit_keeps_session) (simp_all add: status_of_def)

text \<open>A hook marker in the output reaches the session: when the marker of a whitelisted
  agent arrives, cut into reads in any way, and its event has not just come over the other
  channel, the session takes the status that the transition table gives for the event.\<close>

theorem marker_drives_status:
  assumes "od_state d = Ground" and "agent \<in> set (od_agents d)"
    and "osc_plain agent" and "CHR '';'' \<notin> set agent" and "valid_utf8 agent" and "length agent \<le> 64"
    and "concat reads = ESC # CHR '']'' # (''777;notify;CCPanes;'' @ agent @ '';''
           @ cc_pane_event_name ev) @ [BEL]"
    and "\<not> is_cross_channel_dup now (cc_pane_event_name ev) event_channel.Osc
           (or_insert sid (entry_new now epoch) m)"
  shows "status_of (apply_signals tj si now epoch sid (snd (scan_chunks osc_process d reads)) m) sid
    = spec_next ev (status_of m sid)"
proof -
  have name: "osc_plain (cc_pane_event_name ev)" "valid_utf8 (cc_pane_event_name ev)"
    "cc_pane_event_name ev \<noteq> []" "length (cc_pane_event_name ev) \<le> 64"
    by (cases ev; simp add: osc_plain_def ESC_def BEL_def byte_def valid_utf8.simps(2))+
  have "snd (scan_chunks osc_process d reads) = [Event (cc_pane_event_name ev)]"
    unfolding osc.scan_chunks_concat assms(7)
    using marker_event [OF assms(1-6) name, of "[BEL]"] by simp
  moreover obtain ev' p where e: "osc_event si (Event (cc_pane_event_name ev)) = Some (ev', p)"
    "cc_pane_event_name ev' = cc_pane_event_name ev"
    "\<And>st. spec_next ev' st = spec_next ev st"
    by (cases ev) (simp_all add: osc_event_def parse_cc_pane_event_name_def)
  moreover have "fst (apply_osc_signal tj si now epoch sid (Event (cc_pane_event_name ev)) m) =
      fst (sm_exec tj (now, epoch, sid, OpEvent ev' None p event_channel.Osc) m)"
    using e by (simp add: apply_osc_signal_def case_prod_beta)
  moreover have "status_of (fst (sm_exec tj (now, epoch, sid, OpEvent ev' None p event_channel.Osc) m)) sid =
      spec_next ev (status_of m sid)"
    using assms(8) e or_insert_status [of "entry_new now epoch" sid m]
    by (simp only: sm_exec_event Let_def) (simp add: status_of_def applied_fields)
  ultimately show ?thesis by simp
qed

theorem marker_drives_status_witness:
  "status_of (apply_signals (\<lambda>_. []) (\<lambda>_. []) 0 0 ''s'' (snd (scan_chunks osc_process osc_new
      [ESC # CHR '']'' # (''777;notify;CCPanes;'' @ ''codex'' @ '';''
           @ cc_pane_event_name TurnEnd) @ [BEL]])) Map.empty) ''s'' = Idle"
  by (subst marker_drives_status [where agent = "''codex''" and ev = TurnEnd])
    (auto simp: osc_new_def DEFAULT_AGENTS_def osc_plain_def ESC_def BEL_def byte_def
      valid_utf8.simps(2) is_cross_channel_dup_def or_insert_def entry_new_def)

subsubsection \<open>Queries\<close>

text \<open>A status answer is coherent: for a session whose stored status follows the state
  machine, after any calls, an answer that says idle, compacting, waiting, failed or exited
  names no tool, and an answer that says a tool is running names it.\<close>

theorem status_info_coherent:
  "let m = fst (sm_run tj cs Map.empty);
       i = build_session_status_info now sid (status_of m sid) last_out pid code (Some m)
   in (if si_status i \<in> {Idle, Compacting, WaitingInput, Error, Exited}
       then si_tool_name i = None \<and> si_tool_summary i = None else True)
      \<and> (if si_status i = ToolRunning then si_tool_name i \<noteq> None else True)"
proof -
  let ?m = "fst (sm_run tj cs Map.empty)"
  show ?thesis
  proof (cases "?m sid")
    case None
    then show ?thesis
      by (simp add: build_session_status_info_def status_of_def status_for_query_at_def is_busy_def Let_def)
  next
    case (Some e)
    have inv: "entry_inv e" using reachable_entry_inv [of tj cs sid] Some by simp
    have q: "status_for_query_at now sid (se_status e) ?m \<in> {se_status e, Idle}"
      by (simp add: status_for_query_at_def Some)
    have busy: "status_for_query_at now sid (se_status e) ?m \<noteq> se_status e \<Longrightarrow> is_busy (se_status e)"
      by (auto simp: status_for_query_at_def Some split: if_splits)
    show ?thesis
      using inv q busy Some
      by (auto simp: build_session_status_info_def status_of_def entry_inv_def Let_def)
  qed
qed

end
