(* ===== verification/Task_Queue.thy ===== *)
theory Task_Queue
  imports Prelude
begin

text \<open>
  The persistent task queues of the terminals: \<open>cc-panes-core/src/models/task_queue.rs\<close> and
  \<open>cc-panes-core/src/repository/task_queue_repository.rs\<close>. A \<open>db\<close> holds the rows of the four
  tables in insertion order; a repository function is one transaction, so it returns the
  database after the commit, or an error after which the database is as before. A column that
  stores a state or a reason as text is held as the state or reason (\<open>db_str_roundtrip\<close> shows
  that the text determines it). \<open>now\<close> is the clock the caller passes, \<open>uuid\<close> the fresh
  identifier.
\<close>

subsection \<open>Models\<close>

definition TASK_QUEUE_MAX_TEXT_BYTES :: nat where
  "TASK_QUEUE_MAX_TEXT_BYTES = 65536"

definition TASK_QUEUE_MAX_IMAGE_REFS :: nat where
  "TASK_QUEUE_MAX_IMAGE_REFS = 10"

datatype app_error =
    QUEUE_ROW_INVALID
  | QUEUE_ITEM_INVALID
  | IMAGE_REF_INVALID
  | QUEUE_FULL
  | QUEUE_ITEM_NOT_FOUND
  | QUEUE_CLAIM_CONFLICT
  | QUEUE_RUNTIME_MISSING
  | SESSION_NOT_FOUND
  | CONSTRAINT_FAILED
  | External "string option" string

datatype queue_state =
    Disabled | Running | Paused | ConfirmingIdle | Dispatching | ActionRequired | SendFailed
  | SessionEnded

fun queue_state_as_db_str :: "queue_state \<Rightarrow> string" where
  "queue_state_as_db_str Disabled = ''disabled''"
| "queue_state_as_db_str Running = ''running''"
| "queue_state_as_db_str Paused = ''paused''"
| "queue_state_as_db_str ConfirmingIdle = ''confirming_idle''"
| "queue_state_as_db_str Dispatching = ''dispatching''"
| "queue_state_as_db_str ActionRequired = ''action_required''"
| "queue_state_as_db_str SendFailed = ''send_failed''"
| "queue_state_as_db_str SessionEnded = ''session_ended''"

definition queue_state_from_db_str :: "string \<Rightarrow> app_error + queue_state" where
  "queue_state_from_db_str v =
     (if v = ''disabled'' then Inr Disabled
      else if v = ''running'' then Inr Running
      else if v = ''paused'' then Inr Paused
      else if v = ''confirming_idle'' then Inr ConfirmingIdle
      else if v = ''dispatching'' then Inr Dispatching
      else if v = ''action_required'' then Inr ActionRequired
      else if v = ''send_failed'' then Inr SendFailed
      else if v = ''session_ended'' then Inr SessionEnded
      else Inl QUEUE_ROW_INVALID)"

datatype queue_reason =
    GlobalDisabled | UserPaused | ReasonWaitingInput | UnknownPrompt | UnattendedUnsupported
  | AutomaticWriteUnavailable | SessionClaimLost | SessionError | SessionExited
  | ReasonDeliveryUnknown | SubmitFailed

fun queue_reason_as_db_str :: "queue_reason \<Rightarrow> string" where
  "queue_reason_as_db_str GlobalDisabled = ''global_disabled''"
| "queue_reason_as_db_str UserPaused = ''user_paused''"
| "queue_reason_as_db_str ReasonWaitingInput = ''waiting_input''"
| "queue_reason_as_db_str UnknownPrompt = ''unknown_prompt''"
| "queue_reason_as_db_str UnattendedUnsupported = ''unattended_unsupported''"
| "queue_reason_as_db_str AutomaticWriteUnavailable = ''automatic_write_unavailable''"
| "queue_reason_as_db_str SessionClaimLost = ''session_claim_lost''"
| "queue_reason_as_db_str SessionError = ''session_error''"
| "queue_reason_as_db_str SessionExited = ''session_exited''"
| "queue_reason_as_db_str ReasonDeliveryUnknown = ''delivery_unknown''"
| "queue_reason_as_db_str SubmitFailed = ''submit_failed''"

definition queue_reason_from_db_str :: "string \<Rightarrow> app_error + queue_reason" where
  "queue_reason_from_db_str v =
     (if v = ''global_disabled'' then Inr GlobalDisabled
      else if v = ''user_paused'' then Inr UserPaused
      else if v = ''waiting_input'' then Inr ReasonWaitingInput
      else if v = ''unknown_prompt'' then Inr UnknownPrompt
      else if v = ''unattended_unsupported'' then Inr UnattendedUnsupported
      else if v = ''automatic_write_unavailable'' then Inr AutomaticWriteUnavailable
      else if v = ''session_claim_lost'' then Inr SessionClaimLost
      else if v = ''session_error'' then Inr SessionError
      else if v = ''session_exited'' then Inr SessionExited
      else if v = ''delivery_unknown'' then Inr ReasonDeliveryUnknown
      else if v = ''submit_failed'' then Inr SubmitFailed
      else Inl QUEUE_ROW_INVALID)"

datatype item_state = Queued | ItemDispatching | Failed | DeliveryUnknown

fun item_state_as_db_str :: "item_state \<Rightarrow> string" where
  "item_state_as_db_str Queued = ''queued''"
| "item_state_as_db_str ItemDispatching = ''dispatching''"
| "item_state_as_db_str Failed = ''failed''"
| "item_state_as_db_str DeliveryUnknown = ''delivery_unknown''"

definition item_state_from_db_str :: "string \<Rightarrow> app_error + item_state" where
  "item_state_from_db_str v =
     (if v = ''queued'' then Inr Queued
      else if v = ''dispatching'' then Inr ItemDispatching
      else if v = ''failed'' then Inr Failed
      else if v = ''delivery_unknown'' then Inr DeliveryUnknown
      else Inl QUEUE_ROW_INVALID)"

lemma db_str_roundtrip:
  "queue_state_from_db_str (queue_state_as_db_str st) = Inr st"
  "queue_reason_from_db_str (queue_reason_as_db_str r) = Inr r"
  "item_state_from_db_str (item_state_as_db_str i) = Inr i"
    apply (cases st; simp add: queue_state_from_db_str_def)
   apply (cases r; simp add: queue_reason_from_db_str_def)
  apply (cases i; simp add: item_state_from_db_str_def)
  done

record item_draft =
  dr_text :: string
  dr_images :: "string list"

definition draft_validated :: "item_draft \<Rightarrow> app_error + item_draft" where
  "draft_validated d =
     (let txt = trim (dr_text d)
      in if txt = [] \<and> dr_images d = [] then Inl QUEUE_ITEM_INVALID
         else if TASK_QUEUE_MAX_TEXT_BYTES < length txt then Inl QUEUE_ITEM_INVALID
         else if TASK_QUEUE_MAX_IMAGE_REFS < length (dr_images d) then Inl QUEUE_ITEM_INVALID
         else if list_ex (\<lambda>v. trim v = []) (dr_images d) then Inl IMAGE_REF_INVALID
         else Inr \<lparr>dr_text = txt, dr_images = dr_images d\<rparr>)"

record control_patch =
  cp_paused :: "bool option"
  cp_unattended :: "bool option"

definition patch_validate :: "control_patch \<Rightarrow> app_error + unit" where
  "patch_validate p =
     (if cp_paused p = None \<and> cp_unattended p = None then Inl QUEUE_ITEM_INVALID else Inr ())"

record task_item =
  ti_id :: string
  ti_session :: string
  ti_position :: int
  ti_text :: string
  ti_images :: "string list"
  ti_state :: item_state
  ti_created :: int
  ti_last_error :: "string option"

record snapshot =
  sn_session :: string
  sn_paused :: bool
  sn_unattended :: bool
  sn_unattended_supported :: bool
  sn_state :: queue_state
  sn_reason :: "queue_reason option"
  sn_items :: "task_item list"
  sn_revision :: int
  sn_updated :: int

record runtime =
  rt_enabled :: bool
  rt_generation :: int
  rt_updated :: int

record claim =
  cl_token :: string
  cl_generation :: int
  cl_item :: task_item

datatype decision_status = Inserted | Existing | FingerprintMismatch

record decision_record =
  de_status :: decision_status
  de_decision :: "string option"

subsection \<open>Tables\<close>

record item_row =
  ir_id :: string
  ir_session :: string
  ir_position :: int
  ir_text :: string
  ir_images :: "string list"
  ir_state :: item_state
  ir_token :: "string option"
  ir_error_code :: "string option"
  ir_error_message :: "string option"
  ir_created :: int
  ir_updated :: int

record queue_row =
  qr_paused :: bool
  qr_unattended :: bool
  qr_state :: queue_state
  qr_reason :: "queue_reason option"
  qr_revision :: int
  qr_token :: "string option"
  qr_started :: "int option"
  qr_created :: int
  qr_updated :: int

record db =
  db_runtime :: "runtime option"
  db_queues :: "(string \<times> queue_row) list"
  db_items :: "item_row list"
  db_decisions :: "((string \<times> string) \<times> string) list"

definition queue_of :: "db \<Rightarrow> string \<Rightarrow> queue_row option" where
  "queue_of d sid = map_of (db_queues d) sid"

text \<open>\<open>UPDATE terminal_task_queues SET f WHERE session_id = sid AND P\<close>, the same for the items,
  and \<open>SELECT ... WHERE session_id = sid ORDER BY position\<close>.\<close>

definition update_queue ::
  "string \<Rightarrow> (queue_row \<Rightarrow> bool) \<Rightarrow> (queue_row \<Rightarrow> queue_row) \<Rightarrow> db \<Rightarrow> db" where
  "update_queue sid P f d =
     d\<lparr>db_queues := map (\<lambda>(k, q). (k, if k = sid \<and> P q then f q else q)) (db_queues d)\<rparr>"

definition update_items :: "(item_row \<Rightarrow> bool) \<Rightarrow> (item_row \<Rightarrow> item_row) \<Rightarrow> db \<Rightarrow> db" where
  "update_items P f d = d\<lparr>db_items := map (\<lambda>i. if P i then f i else i) (db_items d)\<rparr>"

definition delete_items :: "(item_row \<Rightarrow> bool) \<Rightarrow> db \<Rightarrow> db" where
  "delete_items P d = d\<lparr>db_items := filter (\<lambda>i. \<not> P i) (db_items d)\<rparr>"

definition rows_of :: "db \<Rightarrow> string \<Rightarrow> item_row list" where
  "rows_of d sid = filter (\<lambda>i. ir_session i = sid) (db_items d)"

definition items_of :: "db \<Rightarrow> string \<Rightarrow> item_row list" where
  "items_of d sid = sort_key ir_position (rows_of d sid)"

definition ensure_runtime :: "int \<Rightarrow> db \<Rightarrow> db" where
  "ensure_runtime now d =
     (case db_runtime d of Some _ \<Rightarrow> d
      | None \<Rightarrow> d\<lparr>db_runtime := Some \<lparr>rt_enabled = True, rt_generation = 0, rt_updated = now\<rparr>\<rparr>)"

definition fresh_queue :: "int \<Rightarrow> queue_row" where
  "fresh_queue now =
     \<lparr>qr_paused = False, qr_unattended = False, qr_state = Running, qr_reason = None,
      qr_revision = 0, qr_token = None, qr_started = None, qr_created = now, qr_updated = now\<rparr>"

definition ensure_queue :: "string \<Rightarrow> int \<Rightarrow> db \<Rightarrow> db" where
  "ensure_queue sid now d =
     (case queue_of d sid of Some _ \<Rightarrow> d
      | None \<Rightarrow> d\<lparr>db_queues := db_queues d @ [(sid, fresh_queue now)]\<rparr>)"

definition bump_queue_revision :: "string \<Rightarrow> int \<Rightarrow> db \<Rightarrow> db" where
  "bump_queue_revision sid now =
     update_queue sid (\<lambda>_. True) (\<lambda>q. q\<lparr>qr_revision := qr_revision q + 1, qr_updated := now\<rparr>)"

definition read_runtime :: "db \<Rightarrow> app_error + runtime" where
  "read_runtime d = (case db_runtime d of Some r \<Rightarrow> Inr r | None \<Rightarrow> Inl QUEUE_RUNTIME_MISSING)"

definition parse_raw_item :: "item_row \<Rightarrow> task_item" where
  "parse_raw_item i =
     \<lparr>ti_id = ir_id i, ti_session = ir_session i, ti_position = ir_position i,
      ti_text = ir_text i, ti_images = ir_images i, ti_state = ir_state i,
      ti_created = ir_created i,
      ti_last_error = (case ir_error_message i of Some m \<Rightarrow> Some m | None \<Rightarrow> ir_error_code i)\<rparr>"

definition fetch_head :: "db \<Rightarrow> string \<Rightarrow> task_item option" where
  "fetch_head d sid = (case items_of d sid of [] \<Rightarrow> None | i # _ \<Rightarrow> Some (parse_raw_item i))"

definition fetch_items :: "db \<Rightarrow> string \<Rightarrow> task_item list" where
  "fetch_items d sid = map parse_raw_item (items_of d sid)"

definition read_snapshot :: "db \<Rightarrow> string \<Rightarrow> app_error + snapshot" where
  "read_snapshot d sid =
     (case read_runtime d of
        Inl e \<Rightarrow> Inl e
      | Inr rt \<Rightarrow>
          (case queue_of d sid of
             None \<Rightarrow> Inl SESSION_NOT_FOUND
           | Some q \<Rightarrow>
               (let (st, reason) =
                  (if \<not> rt_enabled rt then (Disabled, Some GlobalDisabled)
                   else if qr_paused q then (Paused, Some UserPaused)
                   else (qr_state q, qr_reason q))
                in Inr \<lparr>sn_session = sid, sn_paused = qr_paused q, sn_unattended = qr_unattended q,
                        sn_unattended_supported = False, sn_state = st, sn_reason = reason,
                        sn_items = fetch_items d sid, sn_revision = qr_revision q,
                        sn_updated = qr_updated q\<rparr>)))"

text \<open>The end of most transactions: the snapshot is read, then the changes are committed.\<close>

definition commit_snapshot :: "string \<Rightarrow> db \<Rightarrow> app_error + db \<times> snapshot" where
  "commit_snapshot sid d =
     (case read_snapshot d sid of Inl e \<Rightarrow> Inl e | Inr s \<Rightarrow> Inr (d, s))"

subsection \<open>Transactions\<close>

definition set_global_enabled :: "bool \<Rightarrow> int \<Rightarrow> db \<Rightarrow> app_error + db \<times> runtime" where
  "set_global_enabled enabled now d =
     (let d1 = ensure_runtime now d;
          d2 = d1\<lparr>db_runtime := map_option (\<lambda>r. r\<lparr>rt_enabled := enabled,
                 rt_generation := rt_generation r + 1, rt_updated := now\<rparr>) (db_runtime d1)\<rparr>
      in (case read_runtime d2 of Inl e \<Rightarrow> Inl e | Inr r \<Rightarrow> Inr (d2, r)))"

definition get_snapshot :: "string \<Rightarrow> db \<Rightarrow> app_error + db \<times> snapshot" where
  "get_snapshot sid d = commit_snapshot sid (ensure_queue sid 0 (ensure_runtime 0 d))"

definition next_position :: "item_row list \<Rightarrow> int" where
  "next_position rows = (if rows = [] then 0 else Max (set (map ir_position rows)) + 1)"

definition add_item ::
  "string \<Rightarrow> string \<Rightarrow> item_draft \<Rightarrow> int \<Rightarrow> db \<Rightarrow> app_error + db \<times> snapshot" where
  "add_item uuid sid draft now d =
     (case draft_validated draft of
        Inl e \<Rightarrow> Inl e
      | Inr dr \<Rightarrow>
          (let d1 = ensure_queue sid now (ensure_runtime now d)
           in if 100 \<le> length (rows_of d1 sid) then Inl QUEUE_FULL
              else if uuid \<in> ir_id ` set (db_items d1) then Inl CONSTRAINT_FAILED
              else
                (let row = \<lparr>ir_id = uuid, ir_session = sid,
                       ir_position = next_position (rows_of d1 sid), ir_text = dr_text dr,
                       ir_images = dr_images dr, ir_state = Queued, ir_token = None,
                       ir_error_code = None, ir_error_message = None, ir_created = now,
                       ir_updated = now\<rparr>
                 in commit_snapshot sid
                      (bump_queue_revision sid now (d1\<lparr>db_items := db_items d1 @ [row]\<rparr>)))))"

definition is_item :: "string \<Rightarrow> string \<Rightarrow> item_row \<Rightarrow> bool" where
  "is_item sid item_id i \<longleftrightarrow> ir_session i = sid \<and> ir_id i = item_id"

definition shift_after :: "string \<Rightarrow> int \<Rightarrow> int \<Rightarrow> db \<Rightarrow> db" where
  "shift_after sid pos now =
     update_items (\<lambda>i. ir_session i = sid \<and> pos < ir_position i)
       (\<lambda>i. i\<lparr>ir_position := ir_position i - 1, ir_updated := now\<rparr>)"

definition delete_item :: "string \<Rightarrow> string \<Rightarrow> int \<Rightarrow> db \<Rightarrow> app_error + db \<times> snapshot" where
  "delete_item sid item_id now d =
     (let d1 = ensure_queue sid now d
      in case find (is_item sid item_id) (db_items d1) of
           None \<Rightarrow> Inl QUEUE_ITEM_NOT_FOUND
         | Some row \<Rightarrow>
             (if ir_state row = ItemDispatching then Inl QUEUE_ITEM_INVALID
              else commit_snapshot sid
                     (bump_queue_revision sid now
                       (shift_after sid (ir_position row) now
                         (delete_items (is_item sid item_id) d1)))))"

definition reset_queue :: "int \<Rightarrow> queue_row \<Rightarrow> queue_row" where
  "reset_queue now q =
     q\<lparr>qr_state := Running, qr_reason := None, qr_token := None, qr_started := None,
       qr_revision := qr_revision q + 1, qr_updated := now\<rparr>"

definition clear_queue :: "string \<Rightarrow> int \<Rightarrow> db \<Rightarrow> app_error + db \<times> snapshot" where
  "clear_queue sid now d =
     (let d1 = ensure_queue sid now d;
          d2 = delete_items (\<lambda>i. ir_session i = sid \<and> ir_state i \<noteq> ItemDispatching) d1;
          d3 = update_queue sid (\<lambda>q. qr_token q = None) (reset_queue now) d2
      in commit_snapshot sid d3)"

definition update_control ::
  "string \<Rightarrow> control_patch \<Rightarrow> int \<Rightarrow> db \<Rightarrow> app_error + db \<times> snapshot" where
  "update_control sid patch now d =
     (case patch_validate patch of
        Inl e \<Rightarrow> Inl e
      | Inr _ \<Rightarrow>
          (let d1 = ensure_queue sid now d;
               d2 = (case cp_paused patch of None \<Rightarrow> d1
                     | Some b \<Rightarrow> update_queue sid (\<lambda>_. True)
                                  (\<lambda>q. q\<lparr>qr_paused := b, qr_updated := now\<rparr>) d1);
               d3 = (case cp_unattended patch of None \<Rightarrow> d2
                     | Some b \<Rightarrow> update_queue sid (\<lambda>_. True)
                                  (\<lambda>q. q\<lparr>qr_unattended := b, qr_updated := now\<rparr>) d2)
           in commit_snapshot sid (bump_queue_revision sid now d3)))"

definition retryable :: "item_row \<Rightarrow> bool" where
  "retryable i \<longleftrightarrow> ir_state i = Failed \<or> ir_state i = DeliveryUnknown"

definition retry_item :: "string \<Rightarrow> string \<Rightarrow> int \<Rightarrow> db \<Rightarrow> app_error + db \<times> snapshot" where
  "retry_item sid item_id now d =
     (let d1 = ensure_queue sid now d;
          hit = (\<lambda>i. is_item sid item_id i \<and> retryable i)
      in if \<not> list_ex hit (db_items d1)
         then Inl (if list_ex (is_item sid item_id) (db_items d1)
                   then QUEUE_ITEM_INVALID else QUEUE_ITEM_NOT_FOUND)
         else
           (let d2 = update_items hit (\<lambda>i. i\<lparr>ir_state := Queued, ir_token := None,
                        ir_error_code := None, ir_error_message := None, ir_updated := now\<rparr>) d1;
                d3 = update_queue sid (\<lambda>_. True) (reset_queue now) d2
            in commit_snapshot sid d3))"

text \<open>The table allows a queue row every state but the two that only a snapshot shows.\<close>

definition storable :: "queue_state \<Rightarrow> bool" where
  "storable st \<longleftrightarrow> st \<noteq> Disabled \<and> st \<noteq> Paused"

definition set_runtime_status ::
  "string \<Rightarrow> queue_state \<Rightarrow> queue_reason option \<Rightarrow> int \<Rightarrow> db \<Rightarrow> app_error + db \<times> snapshot" where
  "set_runtime_status sid st reason now d =
     (let d1 = ensure_queue sid now (ensure_runtime now d);
          hit = (\<lambda>q. qr_token q = None \<and> (qr_state q \<noteq> st \<or> qr_reason q \<noteq> reason))
      in if \<not> storable st \<and> (case queue_of d1 sid of Some q \<Rightarrow> hit q | None \<Rightarrow> False)
         then Inl CONSTRAINT_FAILED
         else commit_snapshot sid
                (update_queue sid hit (\<lambda>q. q\<lparr>qr_state := st, qr_reason := reason,
                   qr_revision := qr_revision q + 1, qr_updated := now\<rparr>) d1))"

definition claim_next ::
  "string \<Rightarrow> string \<Rightarrow> int \<Rightarrow> int \<Rightarrow> db \<Rightarrow> app_error + db \<times> claim option" where
  "claim_next uuid sid expected_generation now d =
     (case read_runtime d of
        Inl e \<Rightarrow> Inl e
      | Inr rt \<Rightarrow>
          (if \<not> rt_enabled rt \<or> rt_generation rt \<noteq> expected_generation then Inr (d, None)
           else
             (case queue_of d sid of
                None \<Rightarrow> Inr (d, None)
              | Some q \<Rightarrow>
                  (if qr_paused q \<or> qr_token q \<noteq> None then Inr (d, None)
                   else
                     (case fetch_head d sid of
                        None \<Rightarrow> Inr (d, None)
                      | Some item \<Rightarrow>
                          (if ti_state item \<noteq> Queued then Inr (d, None)
                           else
                             (let hit = (\<lambda>i. is_item sid (ti_id item) i \<and> ir_state i = Queued
                                          \<and> ir_token i = None);
                                  d1 = update_items hit (\<lambda>i. i\<lparr>ir_state := ItemDispatching,
                                         ir_token := Some uuid, ir_updated := now\<rparr>) d
                              in if length (filter hit (db_items d)) \<noteq> 1 then Inr (d1, None)
                                 else Inr (update_queue sid (\<lambda>q. qr_token q = None)
                                        (\<lambda>q. q\<lparr>qr_state := Dispatching, qr_reason := None,
                                           qr_token := Some uuid, qr_started := Some now,
                                           qr_revision := qr_revision q + 1, qr_updated := now\<rparr>) d1,
                                      Some \<lparr>cl_token = uuid, cl_generation = expected_generation,
                                            cl_item = item\<lparr>ti_state := ItemDispatching\<rparr>\<rparr>))))))))"

definition holds_claim :: "db \<Rightarrow> string \<Rightarrow> string \<Rightarrow> bool" where
  "holds_claim d sid token =
     (case queue_of d sid of Some q \<Rightarrow> qr_token q = Some token | None \<Rightarrow> False)"

definition claimed :: "string \<Rightarrow> string \<Rightarrow> string \<Rightarrow> item_row \<Rightarrow> bool" where
  "claimed sid item_id token i \<longleftrightarrow>
     is_item sid item_id i \<and> ir_state i = ItemDispatching \<and> ir_token i = Some token"

definition complete_claim ::
  "string \<Rightarrow> string \<Rightarrow> string \<Rightarrow> int \<Rightarrow> db \<Rightarrow> app_error + db \<times> bool" where
  "complete_claim sid item_id token now d =
     (case (if holds_claim d sid token then find (claimed sid item_id token) (db_items d) else None) of
        None \<Rightarrow> Inr (d, False)
      | Some row \<Rightarrow>
          (let d1 = shift_after sid (ir_position row) now
                      (delete_items (claimed sid item_id token) d)
           in Inr (update_queue sid (\<lambda>q. qr_token q = Some token) (reset_queue now) d1,
                   holds_claim d1 sid token)))"

fun finish_state :: "item_state \<Rightarrow> queue_state \<times> queue_reason option" where
  "finish_state Queued = (Running, None)"
| "finish_state Failed = (SendFailed, Some SubmitFailed)"
| "finish_state DeliveryUnknown = (ActionRequired, Some ReasonDeliveryUnknown)"
| "finish_state ItemDispatching = (Dispatching, None)"

text \<open>A row in the dispatching state without a token would break a constraint of the table.\<close>

definition finish_claim ::
  "string \<Rightarrow> string \<Rightarrow> string \<Rightarrow> item_state \<Rightarrow> string option \<Rightarrow> string option \<Rightarrow> int \<Rightarrow> db
     \<Rightarrow> app_error + db \<times> bool" where
  "finish_claim sid item_id token st code message now d =
     (let (queue_st, reason) = finish_state st
      in if \<not> (holds_claim d sid token \<and> list_ex (claimed sid item_id token) (db_items d))
         then Inr (d, False)
         else if st = ItemDispatching then Inl CONSTRAINT_FAILED
         else
           (let d1 = update_items (claimed sid item_id token) (\<lambda>i. i\<lparr>ir_state := st,
                       ir_token := None, ir_error_code := code, ir_error_message := message,
                       ir_updated := now\<rparr>) d
            in if \<not> holds_claim d1 sid token then Inl QUEUE_CLAIM_CONFLICT
               else Inr (update_queue sid (\<lambda>q. qr_token q = Some token)
                      (\<lambda>q. q\<lparr>qr_state := queue_st, qr_reason := reason, qr_token := None,
                         qr_started := None, qr_revision := qr_revision q + 1,
                         qr_updated := now\<rparr>) d1, True)))"

definition return_claim_to_queue ::
  "string \<Rightarrow> string \<Rightarrow> string \<Rightarrow> int \<Rightarrow> db \<Rightarrow> app_error + db \<times> bool" where
  "return_claim_to_queue sid item_id token now =
     finish_claim sid item_id token Queued None None now"

definition fail_claim ::
  "string \<Rightarrow> string \<Rightarrow> string \<Rightarrow> string \<Rightarrow> string \<Rightarrow> int \<Rightarrow> db \<Rightarrow> app_error + db \<times> bool" where
  "fail_claim sid item_id token code message now =
     finish_claim sid item_id token Failed (Some code) (Some message) now"

definition mark_delivery_unknown ::
  "string \<Rightarrow> string \<Rightarrow> string \<Rightarrow> string \<Rightarrow> int \<Rightarrow> db \<Rightarrow> app_error + db \<times> bool" where
  "mark_delivery_unknown sid item_id token message now =
     finish_claim sid item_id token DeliveryUnknown (Some ''DELIVERY_UNKNOWN'') (Some message) now"

definition recover_inflight :: "int \<Rightarrow> db \<Rightarrow> app_error + db \<times> nat" where
  "recover_inflight now d =
     (let inflight = (\<lambda>sid q. qr_token q \<noteq> None
              \<or> list_ex (\<lambda>i. ir_session i = sid \<and> ir_state i = ItemDispatching) (db_items d));
          d1 = d\<lparr>db_queues := map (\<lambda>(k, q). (k, if inflight k q
                 then q\<lparr>qr_state := ActionRequired, qr_reason := Some ReasonDeliveryUnknown,
                        qr_token := None, qr_started := None,
                        qr_revision := qr_revision q + 1, qr_updated := now\<rparr>
                 else q)) (db_queues d)\<rparr>;
          dispatching = (\<lambda>i. ir_state i = ItemDispatching)
      in Inr (update_items dispatching (\<lambda>i. i\<lparr>ir_state := DeliveryUnknown, ir_token := None,
                ir_error_code := Some ''DELIVERY_UNKNOWN'',
                ir_error_message := Some ''Dispatch was interrupted before acknowledgement'',
                ir_updated := now\<rparr>) d1,
              length (filter dispatching (db_items d))))"

definition validate_permission_decision_key :: "string \<Rightarrow> string \<Rightarrow> bool" where
  "validate_permission_decision_key tool_use_id fingerprint \<longleftrightarrow>
     trim tool_use_id \<noteq> [] \<and> trim fingerprint \<noteq> []"

definition upsert_permission_decision ::
  "string \<Rightarrow> string \<Rightarrow> string \<Rightarrow> db \<Rightarrow> db \<times> decision_record" where
  "upsert_permission_decision sid tool_use_id fingerprint d =
     (case map_of (db_decisions d) (sid, tool_use_id) of
        None \<Rightarrow> (d\<lparr>db_decisions := db_decisions d @ [((sid, tool_use_id), fingerprint)]\<rparr>,
                 \<lparr>de_status = Inserted, de_decision = Some ''allow''\<rparr>)
      | Some f \<Rightarrow>
          (if f = fingerprint then (d, \<lparr>de_status = Existing, de_decision = Some ''allow''\<rparr>)
           else (d, \<lparr>de_status = FingerprintMismatch, de_decision = None\<rparr>)))"

definition record_permission_decision ::
  "string \<Rightarrow> string \<Rightarrow> string \<Rightarrow> int \<Rightarrow> db \<Rightarrow> app_error + db \<times> decision_record" where
  "record_permission_decision sid tool_use_id fingerprint now d =
     (if \<not> validate_permission_decision_key tool_use_id fingerprint then Inl QUEUE_ITEM_INVALID
      else Inr (upsert_permission_decision sid tool_use_id fingerprint (ensure_queue sid now d)))"

definition record_permission_decision_if_eligible ::
  "string \<Rightarrow> string \<Rightarrow> string \<Rightarrow> db \<Rightarrow> app_error + db \<times> decision_record option" where
  "record_permission_decision_if_eligible sid tool_use_id fingerprint d =
     (if \<not> validate_permission_decision_key tool_use_id fingerprint then Inl QUEUE_ITEM_INVALID
      else
        (let eligible = (case db_runtime d of
               Some r \<Rightarrow> rt_enabled r
                 \<and> (case queue_of d sid of Some q \<Rightarrow> qr_unattended q | None \<Rightarrow> False)
                 \<and> rows_of d sid \<noteq> []
             | None \<Rightarrow> False)
         in if \<not> eligible then Inr (d, None)
            else (let (d1, r) = upsert_permission_decision sid tool_use_id fingerprint d
                  in Inr (d1, Some r))))"

definition active_session_ids :: "db \<Rightarrow> string list" where
  "active_session_ids d =
     map fst (sort_key (\<lambda>(_, q). qr_updated q)
       (filter (\<lambda>(k, _). rows_of d k \<noteq> []) (db_queues d)))"

subsection \<open>What the statements change\<close>

lemma queue_of_items [simp]: "queue_of (d\<lparr>db_items := its\<rparr>) s = queue_of d s"
  by (simp add: queue_of_def)

lemma queue_of_update_queue:
  "queue_of (update_queue sid P f d) s =
    (if s = sid then map_option (\<lambda>q. if P q then f q else q) (queue_of d s) else queue_of d s)"
proof -
  have "map_of (map (\<lambda>(k, q). (k, if k = sid \<and> P q then f q else q)) qs) s =
      (if s = sid then map_option (\<lambda>q. if P q then f q else q) (map_of qs s) else map_of qs s)" for qs
    by (induction qs) auto
  then show ?thesis by (simp add: queue_of_def update_queue_def)
qed

lemma update_queue_frame [frame]:
  "rows_of (update_queue sid P f d) s = rows_of d s"
  "db_items (update_queue sid P f d) = db_items d"
  "db_runtime (update_queue sid P f d) = db_runtime d"
  "map fst (db_queues (update_queue sid P f d)) = map fst (db_queues d)"
  by (simp_all add: update_queue_def rows_of_def case_prod_beta comp_def)

lemma update_items_frame [frame]:
  "queue_of (update_items P f d) s = queue_of d s"
  "db_queues (update_items P f d) = db_queues d"
  "db_runtime (update_items P f d) = db_runtime d"
  by (simp_all add: update_items_def queue_of_def)

lemma rows_of_update_items:
  assumes "\<And>i. ir_session (f i) = ir_session i"
  shows "rows_of (update_items P f d) s = map (\<lambda>i. if P i then f i else i) (rows_of d s)"
proof -
  have "filter (\<lambda>i. ir_session i = s) (map (\<lambda>i. if P i then f i else i) xs) =
      map (\<lambda>i. if P i then f i else i) (filter (\<lambda>i. ir_session i = s) xs)" for xs
    using assms by (induction xs) auto
  then show ?thesis by (simp add: rows_of_def update_items_def)
qed

lemma ids_update_items:
  "(\<And>i. ir_id (f i) = ir_id i) \<Longrightarrow>
    map ir_id (db_items (update_items P f d)) = map ir_id (db_items d)"
  by (simp add: update_items_def)

lemma delete_items_frame [frame]:
  "queue_of (delete_items P d) s = queue_of d s"
  "db_queues (delete_items P d) = db_queues d"
  "db_runtime (delete_items P d) = db_runtime d"
  "rows_of (delete_items P d) s = filter (\<lambda>i. \<not> P i) (rows_of d s)"
  by (simp_all add: delete_items_def queue_of_def rows_of_def conj_commute)

lemma ids_delete_items:
  "distinct (map ir_id (db_items d)) \<Longrightarrow> distinct (map ir_id (db_items (delete_items P d)))"
  by (simp add: delete_items_def distinct_map_filter)

lemma ensure_queue_frame [frame]:
  "rows_of (ensure_queue sid now d) s = rows_of d s"
  "db_items (ensure_queue sid now d) = db_items d"
  "db_runtime (ensure_queue sid now d) = db_runtime d"
  "queue_of (ensure_queue sid now d) s =
    (if s = sid then Some (case queue_of d sid of Some q \<Rightarrow> q | None \<Rightarrow> fresh_queue now)
     else queue_of d s)"
  by (auto simp: ensure_queue_def rows_of_def queue_of_def map_add_def split: option.split)

lemma ensure_queue_keys:
  "distinct (map fst (db_queues d)) \<Longrightarrow> distinct (map fst (db_queues (ensure_queue sid now d)))"
  by (auto simp: ensure_queue_def queue_of_def map_of_eq_None_iff split: option.split)

subsection \<open>The invariant of the tables\<close>

text \<open>
  For one session: the rows have the positions 0, 1, ... in order, all but the first are
  queued, exactly the dispatching rows carry a token, and the queue's token is that of the
  first row when the first row is dispatching. The other conjuncts are constraints of the
  schema.
\<close>

definition token_ok :: "queue_row \<Rightarrow> item_row list \<Rightarrow> bool" where
  "token_ok q its \<longleftrightarrow>
     (case its of
        [] \<Rightarrow> qr_token q = None
      | i # _ \<Rightarrow> qr_token q = (if ir_state i = ItemDispatching then ir_token i else None))"

fun positions_from :: "int \<Rightarrow> item_row list \<Rightarrow> bool" where
  "positions_from n [] = True"
| "positions_from n (i # its) = (ir_position i = n \<and> positions_from (n + 1) its)"

definition rows_ok :: "item_row list \<Rightarrow> bool" where
  "rows_ok its \<longleftrightarrow> positions_from 0 its \<and> length its \<le> 100
     \<and> list_all (\<lambda>i. ir_state i = Queued) (tl its)
     \<and> list_all (\<lambda>i. (ir_state i = ItemDispatching) = (ir_token i \<noteq> None)) its"

definition queue_ok :: "queue_row \<Rightarrow> bool" where
  "queue_ok q \<longleftrightarrow> storable (qr_state q) \<and> 0 \<le> qr_revision q
     \<and> (qr_started q = None) = (qr_token q = None)"

definition session_ok :: "queue_row option \<Rightarrow> item_row list \<Rightarrow> bool" where
  "session_ok qo its \<longleftrightarrow> rows_ok its
     \<and> (case qo of None \<Rightarrow> its = [] | Some q \<Rightarrow> queue_ok q \<and> token_ok q its)"

definition db_inv :: "db \<Rightarrow> bool" where
  "db_inv d \<longleftrightarrow> db_runtime d \<noteq> None \<and> distinct (map ir_id (db_items d))
     \<and> distinct (map fst (db_queues d))
     \<and> (\<forall>s. session_ok (queue_of d s) (rows_of d s))"

lemma rows_ok_Nil [simp]: "rows_ok []"
  by (simp add: rows_ok_def)

lemma positions_from_append:
  "positions_from n (xs @ ys) = (positions_from n xs \<and> positions_from (n + int (length xs)) ys)"
  by (induction xs arbitrary: n) (auto simp: algebra_simps)

lemma positions_from_bounds:
  "positions_from n its \<Longrightarrow> i \<in> set its \<Longrightarrow> n \<le> ir_position i \<and> ir_position i < n + int (length its)"
  by (induction its arbitrary: n) fastforce+

lemma positions_from_sorted: "positions_from n its \<Longrightarrow> sorted (map ir_position its)"
proof (induction its arbitrary: n)
  case (Cons i its)
  then show ?case using positions_from_bounds [of "n + 1" its] by fastforce
qed simp

lemma rows_ok_sorted: "rows_ok its \<Longrightarrow> sort_key ir_position its = its"
  by (rule sort_key_id_if_sorted) (auto simp: rows_ok_def intro: positions_from_sorted)

lemma db_inv_session: "db_inv d \<Longrightarrow> session_ok (queue_of d s) (rows_of d s)"
  by (simp add: db_inv_def)

lemma db_inv_items_of: "db_inv d \<Longrightarrow> items_of d s = rows_of d s"
  unfolding items_of_def by (rule rows_ok_sorted) (meson db_inv_session session_ok_def)

lemma fresh_queue_ok: "queue_ok (fresh_queue now)" "qr_token (fresh_queue now) = None"
  by (simp_all add: queue_ok_def fresh_queue_def storable_def)

lemma ensure_queue_inv: "db_inv d \<Longrightarrow> db_inv (ensure_queue sid now d)"
proof -
  assume inv: "db_inv d"
  have "session_ok (queue_of (ensure_queue sid now d) s) (rows_of (ensure_queue sid now d) s)" for s
    using db_inv_session [OF inv, of s]
    by (auto simp: frame session_ok_def fresh_queue_ok token_ok_def split: option.splits)
  with inv show ?thesis by (simp add: db_inv_def frame ensure_queue_keys)
qed

lemma ensure_runtime_inv: "db_inv d \<Longrightarrow> ensure_runtime now d = d"
  by (auto simp: db_inv_def ensure_runtime_def)

text \<open>A change of one session is an invariant matter of that session.\<close>

lemma db_inv_change:
  assumes "db_inv d" and "db_runtime d' = db_runtime d"
    and "distinct (map ir_id (db_items d'))" and "map fst (db_queues d') = map fst (db_queues d)"
    and "\<And>s. s \<noteq> sid \<Longrightarrow> queue_of d' s = queue_of d s \<and> rows_of d' s = rows_of d s"
    and "session_ok (queue_of d' sid) (rows_of d' sid)"
  shows "db_inv d'"
  using assms unfolding db_inv_def by (metis (no_types, lifting))

lemma commit_snapshot_inv: "commit_snapshot sid d = Inr (d', s) \<Longrightarrow> d' = d"
  by (simp add: commit_snapshot_def split: sum.splits)

lemma commit_snapshot_ok:
  "db_inv d \<Longrightarrow> queue_of d sid \<noteq> None \<Longrightarrow> \<exists>s. commit_snapshot sid d = Inr (d, s)"
  by (auto simp: commit_snapshot_def read_snapshot_def read_runtime_def db_inv_def Let_def
      split: option.split)

subsection \<open>Rows: removal, appending, updates of the head\<close>

definition shift_row :: "int \<Rightarrow> item_row \<Rightarrow> item_row" where
  "shift_row now i = i\<lparr>ir_position := ir_position i - 1, ir_updated := now\<rparr>"

lemma positions_shift:
  "positions_from (n + 1) ys \<Longrightarrow> positions_from n (map (shift_row now) ys)"
  by (induction ys arbitrary: n) (auto simp: shift_row_def)

lemma positions_split:
  assumes "positions_from 0 (xs @ row # ys)"
  shows "positions_from 0 xs" and "ir_position row = int (length xs)"
    and "positions_from (int (length xs) + 1) ys"
  using assms by (simp_all add: positions_from_append)

lemma remove_rows:
  assumes "rows_ok (xs @ row # ys)" and "distinct (map ir_id (xs @ row # ys))"
  shows "map (\<lambda>i. if ir_position row < ir_position i then shift_row now i else i)
      (filter (\<lambda>i. ir_id i \<noteq> ir_id row) (xs @ row # ys)) = xs @ map (shift_row now) ys"
proof -
  note p = positions_split [OF assms(1) [unfolded rows_ok_def, THEN conjunct1]]
  have "filter (\<lambda>i. ir_id i \<noteq> ir_id row) xs = xs" "filter (\<lambda>i. ir_id i \<noteq> ir_id row) ys = ys"
    using assms(2) by (auto intro!: filter_True simp: image_iff)
  then have "filter (\<lambda>i. ir_id i \<noteq> ir_id row) (xs @ row # ys) = xs @ ys" by simp
  moreover have "map (\<lambda>i. if ir_position row < ir_position i then shift_row now i else i) xs = xs"
    using positions_from_bounds [OF p(1)] p(2) by (intro map_idI) fastforce
  moreover have "map (\<lambda>i. if ir_position row < ir_position i then shift_row now i else i) ys =
      map (shift_row now) ys"
    using positions_from_bounds [OF p(3)] p(2) by (intro map_cong) fastforce+
  ultimately show ?thesis by simp
qed

lemma removed_rows_ok:
  assumes "rows_ok (xs @ row # ys)"
  shows "rows_ok (xs @ map (shift_row now) ys)"
proof -
  note p = positions_split [OF assms [unfolded rows_ok_def, THEN conjunct1]]
  have "positions_from 0 (xs @ map (shift_row now) ys)"
    using p positions_shift by (simp add: positions_from_append)
  moreover have "list_all (\<lambda>i. ir_state i = Queued) (tl (xs @ map (shift_row now) ys))"
    using assms by (cases xs; cases ys) (auto simp: rows_ok_def list_all_iff shift_row_def)
  ultimately show ?thesis using assms by (auto simp: rows_ok_def list_all_iff shift_row_def)
qed

lemma next_position_rows: "rows_ok its \<Longrightarrow> next_position its = int (length its)"
proof (cases its rule: rev_cases)
  case (snoc xs i)
  assume "rows_ok its"
  then have p: "positions_from 0 (xs @ [i])" using snoc by (simp add: rows_ok_def)
  have "Max (set (map ir_position (xs @ [i]))) = ir_position i"
    using p positions_from_bounds [of 0 xs] positions_split [of xs i "[]"] by (intro Max_eqI) fastforce+
  with snoc p show ?thesis by (simp add: next_position_def positions_from_append)
qed (simp add: next_position_def)

lemma appended_rows_ok:
  assumes "rows_ok its" and "length its < 100"
    and "ir_position r = int (length its)" and "ir_state r = Queued" and "ir_token r = None"
  shows "rows_ok (its @ [r])"
  using assms by (cases its) (simp_all add: rows_ok_def positions_from_append)

text \<open>An update that keeps identity and position, and touches only rows that are not queued,
  touches only the head.\<close>

lemma update_hits_head:
  assumes "rows_ok (i # its)" and "\<And>j. P j \<Longrightarrow> ir_state j \<noteq> Queued"
  shows "map (\<lambda>j. if P j then f j else j) (i # its) = (if P i then f i else i) # its"
proof -
  have "map (\<lambda>j. if P j then f j else j) its = its"
    using assms by (intro map_idI) (auto simp: rows_ok_def list_all_iff)
  then show ?thesis by simp
qed

lemma head_update_ok:
  assumes "rows_ok (i # its)" and "ir_position i' = ir_position i"
    and "(ir_state i' = ItemDispatching) = (ir_token i' \<noteq> None)"
  shows "rows_ok (i' # its)"
  using assms by (simp add: rows_ok_def)

lemma row_of_ids: "distinct (map ir_id (db_items d)) \<Longrightarrow> distinct (map ir_id (rows_of d s))"
  by (simp add: rows_of_def distinct_map_filter)

lemma find_row:
  assumes "find (\<lambda>i. ir_session i = s \<and> P i) (db_items d) = Some row"
  obtains xs ys where "rows_of d s = xs @ row # ys" "P row"
proof -
  from assms have "row \<in> set (rows_of d s)" "P row"
    by (auto simp: find_Some_iff rows_of_def)
  with that show thesis by (auto dest: split_list)
qed

text \<open>The two statements that remove a row.\<close>

lemma remove_statements:
  assumes "db_inv d" and "rows_of d sid = xs @ row # ys"
    and "\<And>i. i \<in> set (rows_of d sid) \<Longrightarrow> P i = (ir_id i = ir_id row)"
    and "\<And>i. P i \<Longrightarrow> ir_session i = sid"
  shows "rows_of (shift_after sid (ir_position row) now (delete_items P d)) s =
      (if s = sid then xs @ map (shift_row now) ys else rows_of d s)"
    and "distinct (map ir_id (db_items (shift_after sid (ir_position row) now (delete_items P d))))"
proof -
  let ?d' = "shift_after sid (ir_position row) now (delete_items P d)"
  have r: "rows_of ?d' s = map (\<lambda>i. if ir_session i = sid \<and> ir_position row < ir_position i
      then shift_row now i else i) (filter (\<lambda>i. \<not> P i) (rows_of d s))" for s
    unfolding shift_after_def shift_row_def by (subst rows_of_update_items) (simp_all add: frame)
  have ids: "distinct (map ir_id (xs @ row # ys))"
    using assms(1,2) row_of_ids by (metis db_inv_def)
  have ok: "rows_ok (xs @ row # ys)" using db_inv_session [OF assms(1)] assms(2) by (metis session_ok_def)
  show "rows_of ?d' s = (if s = sid then xs @ map (shift_row now) ys else rows_of d s)"
  proof (cases "s = sid")
    case True
    have "filter (\<lambda>i. \<not> P i) (rows_of d sid) = filter (\<lambda>i. ir_id i \<noteq> ir_id row) (rows_of d sid)"
      using assms(3) by (intro filter_cong) auto
    moreover have "ir_session i = sid" if "i \<in> set (rows_of d sid)" for i
      using that by (simp add: rows_of_def)
    ultimately have "rows_of ?d' sid = map (\<lambda>i. if ir_position row < ir_position i
        then shift_row now i else i) (filter (\<lambda>i. ir_id i \<noteq> ir_id row) (rows_of d sid))"
      unfolding r by (auto intro!: map_cong)
    with remove_rows [OF ok ids] assms(2) True show ?thesis by simp
  next
    case False
    then have "filter (\<lambda>i. \<not> P i) (rows_of d s) = rows_of d s"
      using assms(4) by (intro filter_True) (auto simp: rows_of_def)
    with False show ?thesis unfolding r by (auto simp: rows_of_def intro!: map_idI)
  qed
  show "distinct (map ir_id (db_items ?d'))"
    using assms(1) unfolding shift_after_def
    by (subst ids_update_items) (simp_all add: ids_delete_items db_inv_def)
qed

subsection \<open>The effect of each transaction\<close>

lemma session_ok_queue:
  "session_ok (Some q) its \<Longrightarrow> queue_ok q' \<Longrightarrow> qr_token q' = qr_token q \<Longrightarrow> session_ok (Some q') its"
  by (auto simp: session_ok_def token_ok_def split: list.splits)

lemma update_queue_inv:
  assumes "db_inv d" and "\<And>q. queue_ok q \<Longrightarrow> P q \<Longrightarrow> queue_ok (f q) \<and> qr_token (f q) = qr_token q"
  shows "db_inv (update_queue sid P f d)"
proof -
  have "session_ok (queue_of (update_queue sid P f d) s) (rows_of (update_queue sid P f d) s)" for s
    using db_inv_session [OF assms(1), of s] assms(2) session_ok_queue
    by (cases "queue_of d s") (auto simp: queue_of_update_queue frame session_ok_def)
  with assms(1) show ?thesis by (simp add: db_inv_def frame)
qed

lemma bump_inv: "db_inv d \<Longrightarrow> db_inv (bump_queue_revision sid now d)"
  unfolding bump_queue_revision_def by (rule update_queue_inv) (auto simp: queue_ok_def)

lemma bump_frame [frame]:
  "rows_of (bump_queue_revision sid now d) s = rows_of d s"
  "db_items (bump_queue_revision sid now d) = db_items d"
  "db_runtime (bump_queue_revision sid now d) = db_runtime d"
  by (simp_all add: bump_queue_revision_def frame)

definition active_token :: "db \<Rightarrow> string \<Rightarrow> string option" where
  "active_token d s = Option.bind (queue_of d s) qr_token"

lemma active_token_update:
  "active_token (update_queue sid P f d) s =
    (if s = sid then Option.bind (queue_of d s) (\<lambda>q. qr_token (if P q then f q else q))
     else active_token d s)"
  by (cases "s = sid"; cases "queue_of d s") (simp_all add: active_token_def queue_of_update_queue)

lemma active_token_frame [frame]:
  "active_token (ensure_queue sid now d) s = active_token d s"
  "active_token (update_items P f d) s = active_token d s"
  "active_token (delete_items P d) s = active_token d s"
  "active_token (bump_queue_revision sid now d) s = active_token d s"
  by (simp_all add: bump_queue_revision_def active_token_update)
    (simp_all add: active_token_def frame fresh_queue_ok split: option.split)

lemma active_token_items [simp]: "active_token (d\<lparr>db_items := its\<rparr>) s = active_token d s"
  by (simp add: active_token_def)

lemma active_token_head:
  assumes "db_inv d" and "rows_of d s = i # its"
  shows "active_token d s = (if ir_state i = ItemDispatching then ir_token i else None)"
    and "queue_of d s \<noteq> None"
  using db_inv_session [OF assms(1), of s] assms(2)
  by (auto simp: session_ok_def token_ok_def active_token_def split: option.splits)

lemma holds_claim_iff: "holds_claim d s t \<longleftrightarrow> active_token d s = Some t"
  by (cases "queue_of d s") (simp_all add: holds_claim_def active_token_def)

text \<open>A transaction that succeeds: the database after it satisfies the invariant, keeps the
  runtime row, and its rows are given session by session.\<close>

lemma add_item_effect:
  assumes inv: "db_inv d" and ok: "add_item uuid sid draft now d = Inr (d', sn)"
  obtains row dr where "draft_validated draft = Inr dr" "db_inv d'" "db_runtime d' = db_runtime d"
    "\<And>s. rows_of d' s = (if s = sid then rows_of d sid @ [row] else rows_of d s)"
    "ir_id row = uuid" "ir_text row = dr_text dr" "ir_state row = Queued"
    "\<And>s. active_token d' s = active_token d s"
proof -
  let ?d1 = "ensure_queue sid now d"
  note d1 = ensure_queue_inv [OF inv, of sid now]
  from ok obtain dr where dr: "draft_validated draft = Inr dr"
    by (auto simp: add_item_def split: sum.splits)
  define row where "row = \<lparr>ir_id = uuid, ir_session = sid,
    ir_position = next_position (rows_of ?d1 sid), ir_text = dr_text dr,
    ir_images = dr_images dr, ir_state = Queued, ir_token = None,
    ir_error_code = None, ir_error_message = None, ir_created = now, ir_updated = now\<rparr>"
  let ?d2 = "?d1\<lparr>db_items := db_items ?d1 @ [row]\<rparr>"
  from ok dr have few: "length (rows_of d sid) < 100" and fresh: "uuid \<notin> ir_id ` set (db_items d)"
    and d': "d' = bump_queue_revision sid now ?d2"
    by (auto simp: add_item_def ensure_runtime_inv [OF inv] Let_def frame row_def
        dest: commit_snapshot_inv split: if_splits)
  have rows: "rows_of ?d2 s = (if s = sid then rows_of d sid @ [row] else rows_of d s)" for s
    using ensure_queue_frame(1) [of sid now d s] by (simp add: rows_of_def row_def)
  obtain q where q: "queue_of ?d1 sid = Some q" by (simp add: frame)
  have sess: "session_ok (Some q) (rows_of d sid)"
    using db_inv_session [OF d1, of sid] unfolding q ensure_queue_frame(1) .
  have "rows_ok (rows_of d sid @ [row])"
    using sess few by (intro appended_rows_ok) (simp_all add: session_ok_def row_def frame next_position_rows)
  moreover have "token_ok q (rows_of d sid @ [row])"
    using sess by (cases "rows_of d sid") (simp_all add: session_ok_def token_ok_def row_def)
  ultimately have "session_ok (queue_of ?d2 sid) (rows_of ?d2 sid)"
    using sess by (simp add: q rows session_ok_def)
  moreover have "distinct (map ir_id (db_items ?d2))"
    using inv fresh by (simp add: db_inv_def frame row_def)
  moreover have "queue_of ?d2 s = queue_of ?d1 s \<and> rows_of ?d2 s = rows_of ?d1 s" if "s \<noteq> sid" for s
    using that by (simp add: rows ensure_queue_frame(1))
  ultimately have "db_inv ?d2"
    by (intro db_inv_change [OF d1, of ?d2 sid]) simp_all
  then have "db_inv d'" unfolding d' by (rule bump_inv)
  moreover have "active_token d' s = active_token d s" for s
    by (simp add: d' frame)
  moreover have "rows_of d' s = (if s = sid then rows_of d sid @ [row] else rows_of d s)" for s
    unfolding d' bump_frame by (rule rows)
  moreover have "db_runtime d' = db_runtime d" by (simp add: d' frame)
  moreover have "ir_id row = uuid" "ir_text row = dr_text dr" "ir_state row = Queued"
    by (simp_all add: row_def)
  ultimately show thesis using that dr by blast
qed

lemma ids_distinct: "db_inv d \<Longrightarrow> distinct (map ir_id (rows_of d s))"
  by (simp add: db_inv_def row_of_ids)

lemma db_inv_rows: "db_inv d \<Longrightarrow> rows_ok (rows_of d s)"
  using db_inv_session [of d s] by (simp add: session_ok_def)

lemma same_id:
  assumes "distinct (map ir_id (xs @ row # ys))" and "i \<in> set (xs @ row # ys)"
  shows "(ir_id i = ir_id row) = (i = row)"
  using assms by (auto simp: image_iff)

lemma delete_item_effect:
  assumes inv: "db_inv d" and ok: "delete_item sid item_id now d = Inr (d', sn)"
  obtains xs row ys where "rows_of d sid = xs @ row # ys" "ir_id row = item_id"
    "ir_state row \<noteq> ItemDispatching" "db_inv d'" "db_runtime d' = db_runtime d"
    "\<And>s. rows_of d' s = (if s = sid then xs @ map (shift_row now) ys else rows_of d s)"
    "\<And>s. active_token d' s = active_token d s"
proof -
  let ?d1 = "ensure_queue sid now d"
  note d1 = ensure_queue_inv [OF inv, of sid now]
  from ok obtain row where f: "find (is_item sid item_id) (db_items ?d1) = Some row"
    and nd: "ir_state row \<noteq> ItemDispatching"
    and d': "d' = bump_queue_revision sid now (shift_after sid (ir_position row) now
        (delete_items (is_item sid item_id) ?d1))"
    by (auto simp: delete_item_def Let_def dest: commit_snapshot_inv split: option.splits if_splits)
  from f obtain xs ys where sp: "rows_of ?d1 sid = xs @ row # ys" and id: "ir_id row = item_id"
    unfolding is_item_def by (rule find_row)
  have P: "is_item sid item_id i = (ir_id i = ir_id row)" if "i \<in> set (rows_of ?d1 sid)" for i
    using that id by (auto simp: is_item_def rows_of_def)
  let ?d2 = "shift_after sid (ir_position row) now (delete_items (is_item sid item_id) ?d1)"
  have r: "rows_of ?d2 s = (if s = sid then xs @ map (shift_row now) ys else rows_of ?d1 s)" for s
    by (rule remove_statements(1) [OF d1 sp P]) (simp_all add: is_item_def)
  have ids: "distinct (map ir_id (db_items ?d2))"
    by (rule remove_statements(2) [OF d1 sp P]) (simp_all add: is_item_def)
  have q: "queue_of ?d2 s = queue_of ?d1 s" for s by (simp add: shift_after_def frame)
  have "rows_ok (xs @ row # ys)" using db_inv_rows [OF d1, of sid] sp by simp
  then have rok: "rows_ok (xs @ map (shift_row now) ys)" by (rule removed_rows_ok)
  obtain q0 where q0: "queue_of ?d1 sid = Some q0" by (simp add: frame)
  have s0: "session_ok (Some q0) (xs @ row # ys)" using db_inv_session [OF d1, of sid] q0 sp by simp
  have "token_ok q0 (xs @ map (shift_row now) ys)"
  proof (cases xs)
    case Nil
    with s0 nd have "qr_token q0 = None" by (simp add: session_ok_def token_ok_def)
    moreover have "list_all (\<lambda>i. ir_state i = Queued) ys" using s0 Nil by (simp add: session_ok_def rows_ok_def)
    ultimately show ?thesis using Nil by (cases ys) (simp_all add: token_ok_def shift_row_def)
  qed (use s0 in \<open>simp add: session_ok_def token_ok_def\<close>)
  with rok s0 have "session_ok (queue_of ?d2 sid) (rows_of ?d2 sid)"
    unfolding q q0 r by (simp add: session_ok_def)
  moreover have "map fst (db_queues ?d2) = map fst (db_queues ?d1)" "db_runtime ?d2 = db_runtime ?d1"
    by (simp_all add: shift_after_def update_items_frame delete_items_frame)
  ultimately have "db_inv ?d2"
    using ids by (intro db_inv_change [OF d1, of ?d2 sid]) (simp_all only: q r if_False simp_thms)
  then have "db_inv d'" unfolding d' by (rule bump_inv)
  moreover have "rows_of d' s = (if s = sid then xs @ map (shift_row now) ys else rows_of d s)" for s
    unfolding d' bump_frame r ensure_queue_frame ..
  moreover have "active_token d' s = active_token d s" for s
    by (simp add: d' frame shift_after_def)
  moreover have "db_runtime d' = db_runtime d" by (simp add: d' frame shift_after_def)
  moreover have "rows_of d sid = xs @ row # ys" using sp by (simp add: frame)
  ultimately show thesis using that id nd by blast
qed

lemma no_row_eq:
  "queue_ok q \<Longrightarrow> queue_ok (reset_queue now q) \<and> qr_token (reset_queue now q) = None"
  by (simp add: queue_ok_def reset_queue_def storable_def)

lemma complete_claim_effect:
  assumes inv: "db_inv d" and ok: "complete_claim sid item_id token now d = Inr (d', b)"
  shows "(\<not> b \<and> d' = d) \<or>
    (b \<and> active_token d sid = Some token \<and>
     (\<exists>row ys. rows_of d sid = row # ys \<and> ir_id row = item_id \<and> db_inv d' \<and>
       db_runtime d' = db_runtime d \<and>
       (\<forall>s. rows_of d' s = (if s = sid then map (shift_row now) ys else rows_of d s)) \<and>
       (\<forall>s. active_token d' s = (if s = sid then None else active_token d s))))"
proof (cases "holds_claim d sid token \<and> find (claimed sid item_id token) (db_items d) \<noteq> None")
  case False
  with ok show ?thesis by (auto simp: complete_claim_def split: if_splits option.splits)
next
  case True
  then obtain row where h: "holds_claim d sid token"
    and f: "find (claimed sid item_id token) (db_items d) = Some row" by auto
  from f obtain xs ys where sp: "rows_of d sid = xs @ row # ys"
    and row: "ir_id row = item_id \<and> ir_state row = ItemDispatching \<and> ir_token row = Some token"
    unfolding claimed_def is_item_def conj_assoc by (rule find_row)
  have rok: "rows_ok (xs @ row # ys)" using db_inv_rows [OF inv, of sid] sp by simp
  then have xs: "xs = []" using row by (cases xs) (auto simp: rows_ok_def)
  have P: "claimed sid item_id token i = (ir_id i = ir_id row)" if "i \<in> set (rows_of d sid)" for i
  proof -
    have "(ir_id i = ir_id row) = (i = row)"
      using same_id [of xs row ys i] ids_distinct [OF inv, of sid] that sp by simp
    with row that show ?thesis by (auto simp: claimed_def is_item_def rows_of_def)
  qed
  let ?d1 = "shift_after sid (ir_position row) now (delete_items (claimed sid item_id token) d)"
  have r: "rows_of ?d1 s = (if s = sid then xs @ map (shift_row now) ys else rows_of d s)" for s
    by (rule remove_statements(1) [OF inv sp P]) (simp_all add: claimed_def is_item_def)
  have ids: "distinct (map ir_id (db_items ?d1))"
    by (rule remove_statements(2) [OF inv sp P]) (simp_all add: claimed_def is_item_def)
  have q: "queue_of ?d1 s = queue_of d s" for s by (simp add: shift_after_def frame)
  have h1: "holds_claim ?d1 sid token" using h by (simp add: holds_claim_def q)
  let ?d2 = "update_queue sid (\<lambda>q. qr_token q = Some token) (reset_queue now) ?d1"
  from ok h f h1 have d': "d' = ?d2" and b: "b"
    by (auto simp: complete_claim_def Let_def)
  obtain q0 where q0: "queue_of d sid = Some q0" "qr_token q0 = Some token"
    using h by (auto simp: holds_claim_def split: option.splits)
  have q2: "queue_of ?d2 s = (if s = sid then Some (reset_queue now q0) else queue_of d s)" for s
    using q0 by (simp add: queue_of_update_queue q)
  have r2: "rows_of ?d2 s = (if s = sid then map (shift_row now) ys else rows_of d s)" for s
    unfolding update_queue_frame r by (simp add: xs)
  have "queue_ok q0" using db_inv_session [OF inv, of sid] q0 by (simp add: session_ok_def)
  moreover have "rows_ok (map (shift_row now) ys)" using removed_rows_ok [OF rok] xs by simp
  moreover have "list_all (\<lambda>i. ir_state i = Queued) ys" using rok xs by (simp add: rows_ok_def)
  ultimately have "session_ok (queue_of ?d2 sid) (rows_of ?d2 sid)"
    using no_row_eq [of q0 now] unfolding q2 r2
    by (cases ys) (auto simp: session_ok_def token_ok_def shift_row_def)
  moreover have "distinct (map ir_id (db_items ?d2))" using ids by (simp add: frame)
  moreover have "map fst (db_queues ?d2) = map fst (db_queues d)"
    by (simp add: update_queue_frame shift_after_def update_items_frame delete_items_frame)
  moreover have "db_runtime ?d2 = db_runtime d" by (simp add: frame shift_after_def)
  ultimately have "db_inv ?d2"
    by (intro db_inv_change [OF inv, of ?d2 sid]) (simp_all add: q2 r2)
  moreover have "active_token ?d2 s = (if s = sid then None else active_token d s)" for s
    by (simp add: active_token_def q2 reset_queue_def)
  ultimately show ?thesis
    using b d' sp row xs h r2 by (auto simp: holds_claim_iff frame shift_after_def)
qed

text \<open>Updates of the head row together with the queue's token.\<close>

lemma head_statements:
  assumes inv: "db_inv d" and rows: "rows_of d sid = i # its" and q0: "queue_of d sid = Some q0"
    and hit: "\<And>j. j \<in> set (rows_of d sid) \<Longrightarrow> P j = (j = i)" and sid: "\<And>j. P j \<Longrightarrow> ir_session j = sid"
    and keep: "\<And>j. ir_session (f j) = ir_session j \<and> ir_id (f j) = ir_id j \<and> ir_position (f j) = ir_position j"
    and st: "(ir_state (f i) = ItemDispatching) = (ir_token (f i) \<noteq> None)"
    and Q: "Q q0" and qok: "queue_ok (g q0)"
    and tok: "qr_token (g q0) = (if ir_state (f i) = ItemDispatching then ir_token (f i) else None)"
  defines "d' \<equiv> update_queue sid Q g (update_items P f d)"
  shows "db_inv d' \<and> db_runtime d' = db_runtime d
    \<and> (\<forall>s. rows_of d' s = (if s = sid then f i # its else rows_of d s))
    \<and> (\<forall>s. active_token d' s = (if s = sid then qr_token (g q0) else active_token d s))"
proof -
  have rok: "rows_ok (i # its)" using db_inv_rows [OF inv, of sid] rows by simp
  have ids: "distinct (map ir_id (i # its))" using ids_distinct [OF inv, of sid] rows by simp
  have r: "rows_of d' s = (if s = sid then f i # its else rows_of d s)" for s
  proof (cases "s = sid")
    case True
    have "map (\<lambda>j. if P j then f j else j) its = its"
      using hit ids rows by (intro map_idI) auto
    moreover have "P i" using hit rows by simp
    ultimately show ?thesis using True rows keep
      by (simp add: d'_def frame rows_of_update_items)
  next
    case False
    have "map (\<lambda>j. if P j then f j else j) (rows_of d s) = rows_of d s"
      using sid False by (intro map_idI) (auto simp: rows_of_def)
    with False keep show ?thesis by (simp add: d'_def frame rows_of_update_items)
  qed
  have q: "queue_of d' s = (if s = sid then Some (g q0) else queue_of d s)" for s
    using q0 Q by (simp add: d'_def queue_of_update_queue frame)
  have "rows_ok (f i # its)" using head_update_ok [OF rok, of "f i"] keep st by simp
  with qok tok have "session_ok (queue_of d' sid) (rows_of d' sid)"
    by (simp add: q r session_ok_def token_ok_def)
  moreover have "distinct (map ir_id (db_items d'))"
    using inv keep by (simp add: d'_def update_queue_frame ids_update_items db_inv_def)
  moreover have "map fst (db_queues d') = map fst (db_queues d)" "db_runtime d' = db_runtime d"
    by (simp_all add: d'_def update_queue_frame update_items_frame)
  ultimately have "db_inv d'" by (intro db_inv_change [OF inv, of d' sid]) (simp_all add: q r)
  moreover have "active_token d' s = (if s = sid then qr_token (g q0) else active_token d s)" for s
    by (simp add: active_token_def q)
  ultimately show ?thesis using r \<open>db_runtime d' = db_runtime d\<close> by blast
qed

text \<open>The compare-and-set of a claim hits the head and no other row.\<close>

lemma claim_hits_head:
  assumes inv: "db_inv d" and rows: "rows_of d sid = i # its" and st: "ir_state i = Queued"
  defines "hit \<equiv> \<lambda>j. is_item sid (ir_id i) j \<and> ir_state j = Queued \<and> ir_token j = None"
  shows "j \<in> set (rows_of d sid) \<Longrightarrow> hit j = (j = i)" and "length (filter hit (db_items d)) = 1"
proof -
  have ids: "distinct (map ir_id (i # its))" using ids_distinct [OF inv, of sid] rows by simp
  have itok: "ir_token i = None"
    using db_inv_rows [OF inv, of sid] rows st by (simp add: rows_ok_def)
  have hit: "hit j = (j = i)" if "j \<in> set (rows_of d sid)" for j
  proof -
    have "(ir_id j = ir_id i) = (j = i)" using same_id [of "[]" i its j] ids that rows by simp
    with that st itok show ?thesis by (auto simp: hit_def is_item_def rows_of_def)
  qed
  then show "j \<in> set (rows_of d sid) \<Longrightarrow> hit j = (j = i)" .
  have "filter hit (db_items d) = filter hit (rows_of d sid)"
    unfolding rows_of_def filter_filter by (rule filter_cong) (auto simp: hit_def is_item_def)
  also have "\<dots> = filter (\<lambda>j. j = i) (rows_of d sid)" using hit by (intro filter_cong) auto
  moreover have "filter (\<lambda>j. j = i) its = []" using ids by (auto simp: filter_empty_conv)
  ultimately show "length (filter hit (db_items d)) = 1" using rows by simp
qed

lemma claim_next_effect:
  assumes inv: "db_inv d" and ok: "claim_next uuid sid gen now d = Inr (d', c)"
  shows "(c = None \<and> d' = d) \<or>
    (\<exists>i its cl rt. c = Some cl \<and> rows_of d sid = i # its \<and> ir_state i = Queued
      \<and> active_token d sid = None \<and> db_runtime d = Some rt \<and> rt_enabled rt \<and> rt_generation rt = gen
      \<and> cl_token cl = uuid \<and> ti_id (cl_item cl) = ir_id i \<and> ti_text (cl_item cl) = ir_text i
      \<and> db_inv d' \<and> db_runtime d' = db_runtime d
      \<and> (\<forall>s. rows_of d' s = (if s = sid then i\<lparr>ir_state := ItemDispatching, ir_token := Some uuid,
            ir_updated := now\<rparr> # its else rows_of d s))
      \<and> (\<forall>s. active_token d' s = (if s = sid then Some uuid else active_token d s)))"
proof (cases "c = None \<and> d' = d")
  case False
  obtain rt where rt: "db_runtime d = Some rt" using inv by (auto simp: db_inv_def)
  from False ok rt obtain q0 i its where en: "rt_enabled rt" "rt_generation rt = gen"
    and q0: "queue_of d sid = Some q0" and tk: "qr_token q0 = None"
    and rows: "rows_of d sid = i # its" and st: "ir_state i = Queued"
    by (auto simp: claim_next_def read_runtime_def fetch_head_def db_inv_items_of [OF inv]
        parse_raw_item_def split: if_splits option.splits list.splits)
  let ?hit = "\<lambda>j. is_item sid (ir_id i) j \<and> ir_state j = Queued \<and> ir_token j = None"
  have hit: "?hit j = (j = i)" if "j \<in> set (rows_of d sid)" for j
    by (rule claim_hits_head(1) [OF inv rows st that])
  have one: "length (filter ?hit (db_items d)) = 1"
    by (rule claim_hits_head(2) [OF inv rows st])
  have head: "fetch_head d sid = Some (parse_raw_item i)"
    using rows by (simp add: fetch_head_def db_inv_items_of [OF inv])
  have pid: "ti_id (parse_raw_item i) = ir_id i" "ti_state (parse_raw_item i) = ir_state i"
    "ti_text (parse_raw_item i) = ir_text i"
    by (simp_all add: parse_raw_item_def)
  define f :: "item_row \<Rightarrow> item_row" where "f = (\<lambda>i. i\<lparr>ir_state := ItemDispatching, ir_token := Some uuid, ir_updated := now\<rparr>)"
  define g :: "queue_row \<Rightarrow> queue_row" where "g = (\<lambda>q. q\<lparr>qr_state := Dispatching, qr_reason := None, qr_token := Some uuid,
      qr_started := Some now, qr_revision := qr_revision q + 1, qr_updated := now\<rparr>)"
  have unpaused: "\<not> qr_paused q0" using False ok rt en q0 by (auto simp: claim_next_def read_runtime_def)
  have d': "d' = update_queue sid (\<lambda>q. qr_token q = None) g (update_items ?hit f d)"
    and c: "c = Some \<lparr>cl_token = uuid, cl_generation = gen,
      cl_item = (parse_raw_item i)\<lparr>ti_state := ItemDispatching\<rparr>\<rparr>"
    using ok rt en q0 tk st one unpaused
    by (simp_all add: claim_next_def read_runtime_def head pid Let_def f_def g_def)
  have "queue_ok q0" using db_inv_session [OF inv, of sid] q0 by (simp add: session_ok_def)
  then have "db_inv d' \<and> db_runtime d' = db_runtime d
    \<and> (\<forall>s. rows_of d' s = (if s = sid then f i # its else rows_of d s))
    \<and> (\<forall>s. active_token d' s = (if s = sid then qr_token (g q0) else active_token d s))"
    unfolding d' using tk
    by (intro head_statements [OF inv rows q0 hit])
      (auto simp: is_item_def f_def g_def queue_ok_def storable_def)
  moreover have "active_token d sid = None" using q0 tk by (simp add: active_token_def)
  ultimately show ?thesis
    using c rows st rt en by (simp add: f_def g_def pid)
qed simp

lemma finish_claim_effect:
  assumes inv: "db_inv d" and ok: "finish_claim sid item_id token st code msg now d = Inr (d', b)"
  shows "(\<not> b \<and> d' = d) \<or>
    (b \<and> st \<noteq> ItemDispatching \<and> active_token d sid = Some token \<and>
     (\<exists>i its. rows_of d sid = i # its \<and> ir_id i = item_id \<and> db_inv d' \<and>
       db_runtime d' = db_runtime d \<and>
       (\<forall>s. rows_of d' s = (if s = sid then i\<lparr>ir_state := st, ir_token := None,
            ir_error_code := code, ir_error_message := msg, ir_updated := now\<rparr> # its
          else rows_of d s)) \<and>
       (\<forall>s. active_token d' s = (if s = sid then None else active_token d s))))"
proof (cases "holds_claim d sid token \<and> list_ex (claimed sid item_id token) (db_items d)")
  case False
  with ok show ?thesis by (auto simp: finish_claim_def Let_def split: prod.splits if_splits)
next
  case True
  then obtain row where row: "row \<in> set (rows_of d sid)" "claimed sid item_id token row"
    by (auto simp: list_ex_iff claimed_def is_item_def rows_of_def)
  obtain q0 where q0: "queue_of d sid = Some q0" "qr_token q0 = Some token"
    using True by (auto simp: holds_claim_def split: option.splits)
  obtain i its where rows: "rows_of d sid = i # its" using row by (cases "rows_of d sid") auto
  have rok: "rows_ok (i # its)" using db_inv_rows [OF inv, of sid] rows by simp
  have ids: "distinct (map ir_id (i # its))" using ids_distinct [OF inv, of sid] rows by simp
  have i: "row = i" using row rows rok by (auto simp: rows_ok_def list_all_iff claimed_def)
  have hit: "claimed sid item_id token j = (j = i)" if "j \<in> set (rows_of d sid)" for j
  proof -
    have "(ir_id j = ir_id i) = (j = i)" using same_id [of "[]" i its j] ids that rows by simp
    with row(2) i show ?thesis by (auto simp: claimed_def is_item_def)
  qed
  obtain qst reason where fs: "finish_state st = (qst, reason)" by fastforce
  define f :: "item_row \<Rightarrow> item_row" where "f = (\<lambda>i. i\<lparr>ir_state := st, ir_token := None, ir_error_code := code,
      ir_error_message := msg, ir_updated := now\<rparr>)"
  define g :: "queue_row \<Rightarrow> queue_row" where "g = (\<lambda>q. q\<lparr>qr_state := qst, qr_reason := reason, qr_token := None,
      qr_started := None, qr_revision := qr_revision q + 1, qr_updated := now\<rparr>)"
  have h1: "holds_claim (update_items P f d) sid token" for P
    using True by (simp add: holds_claim_iff frame)
  have nd: "st \<noteq> ItemDispatching" and b: b
    and d': "d' = update_queue sid (\<lambda>q. qr_token q = Some token) g
      (update_items (claimed sid item_id token) f d)"
    using ok True fs h1 by (auto simp: finish_claim_def Let_def f_def g_def split: if_splits)
  have "storable qst" using fs nd by (cases st) (auto simp: storable_def)
  moreover have "queue_ok q0" using db_inv_session [OF inv, of sid] q0 by (simp add: session_ok_def)
  ultimately have "db_inv d' \<and> db_runtime d' = db_runtime d
    \<and> (\<forall>s. rows_of d' s = (if s = sid then f i # its else rows_of d s))
    \<and> (\<forall>s. active_token d' s = (if s = sid then qr_token (g q0) else active_token d s))"
    unfolding d' using q0 nd
    by (intro head_statements [OF inv rows q0(1) hit])
      (auto simp: claimed_def is_item_def f_def g_def queue_ok_def)
  moreover have "ir_id i = item_id" using row(2) i by (simp add: claimed_def is_item_def)
  ultimately show ?thesis using b nd q0 rows
    by (simp add: f_def g_def active_token_def)
qed

lemma retry_item_effect:
  assumes inv: "db_inv d" and ok: "retry_item sid item_id now d = Inr (d', sn)"
  obtains i its where "rows_of d sid = i # its" "ir_id i = item_id" "retryable i"
    "active_token d sid = None" "db_inv d'" "db_runtime d' = db_runtime d"
    "\<And>s. rows_of d' s = (if s = sid then i\<lparr>ir_state := Queued, ir_token := None,
        ir_error_code := None, ir_error_message := None, ir_updated := now\<rparr> # its else rows_of d s)"
    "\<And>s. active_token d' s = active_token d s"
proof -
  let ?d1 = "ensure_queue sid now d"
  note d1 = ensure_queue_inv [OF inv, of sid now]
  let ?hit = "\<lambda>i. is_item sid item_id i \<and> retryable i"
  define f :: "item_row \<Rightarrow> item_row" where "f = (\<lambda>i. i\<lparr>ir_state := Queued, ir_token := None,
      ir_error_code := None, ir_error_message := None, ir_updated := now\<rparr>)"
  from ok have ex: "list_ex ?hit (db_items ?d1)"
    and d': "d' = update_queue sid (\<lambda>_. True) (reset_queue now) (update_items ?hit f ?d1)"
    by (auto simp: retry_item_def Let_def f_def dest: commit_snapshot_inv split: if_splits)
  from ex obtain row where row: "row \<in> set (rows_of ?d1 sid)" "is_item sid item_id row" "retryable row"
    by (auto simp: list_ex_iff is_item_def rows_of_def)
  obtain q0 where q0: "queue_of ?d1 sid = Some q0" by (simp add: frame)
  obtain i its where rows: "rows_of ?d1 sid = i # its" using row by (cases "rows_of ?d1 sid") auto
  have rok: "rows_ok (i # its)" using db_inv_rows [OF d1, of sid] rows by simp
  have ids: "distinct (map ir_id (i # its))" using ids_distinct [OF d1, of sid] rows by simp
  have i: "row = i" using row rows rok by (auto simp: rows_ok_def list_all_iff retryable_def)
  have hit: "?hit j = (j = i)" if "j \<in> set (rows_of ?d1 sid)" for j
  proof -
    have "(ir_id j = ir_id i) = (j = i)" using same_id [of "[]" i its j] ids that rows by simp
    with row(2,3) i show ?thesis by (auto simp: is_item_def)
  qed
  have none: "active_token ?d1 sid = None"
    using active_token_head [OF d1 rows] row(3) i by (auto simp: retryable_def)
  have "queue_ok q0" using db_inv_session [OF d1, of sid] q0 by (simp add: session_ok_def)
  then have *: "db_inv d' \<and> db_runtime d' = db_runtime ?d1
    \<and> (\<forall>s. rows_of d' s = (if s = sid then f i # its else rows_of ?d1 s))
    \<and> (\<forall>s. active_token d' s = (if s = sid then qr_token (reset_queue now q0) else active_token ?d1 s))"
    unfolding d'
    by (intro head_statements [OF d1 rows q0 hit])
      (auto simp: is_item_def f_def no_row_eq)
  show thesis
    using * none rows row(2,3) i
    by (intro that [of i its]) (auto simp: frame f_def is_item_def reset_queue_def)
qed

lemma clear_queue_effect:
  assumes inv: "db_inv d" and ok: "clear_queue sid now d = Inr (d', sn)"
  shows "db_inv d' \<and> db_runtime d' = db_runtime d
    \<and> (\<forall>s. rows_of d' s = (if s = sid then takeWhile (\<lambda>i. ir_state i = ItemDispatching) (rows_of d sid)
          else rows_of d s))
    \<and> (\<forall>s. active_token d' s = active_token d s)"
proof -
  let ?d1 = "ensure_queue sid now d"
  let ?P = "\<lambda>i. ir_session i = sid \<and> ir_state i \<noteq> ItemDispatching"
  let ?kept = "takeWhile (\<lambda>i. ir_state i = ItemDispatching) (rows_of d sid)"
  note d1 = ensure_queue_inv [OF inv, of sid now]
  from ok have d': "d' = update_queue sid (\<lambda>q. qr_token q = None) (reset_queue now) (delete_items ?P ?d1)"
    by (auto simp: clear_queue_def Let_def dest: commit_snapshot_inv)
  have rok: "rows_ok (rows_of d sid)" by (rule db_inv_rows [OF inv])
  have r: "rows_of d' s = (if s = sid then ?kept else rows_of d s)" for s
  proof (cases "s = sid")
    case True
    have "filter (\<lambda>i. \<not> ?P i) (rows_of d sid) = filter (\<lambda>i. ir_state i = ItemDispatching) (rows_of d sid)"
      by (rule filter_cong) (auto simp: rows_of_def)
    also have "\<dots> = ?kept"
    proof (cases "rows_of d sid")
      case (Cons i its)
      with rok have "filter (\<lambda>i. ir_state i = ItemDispatching) its = []"
        "takeWhile (\<lambda>i. ir_state i = ItemDispatching) its = []"
        by (auto simp: rows_ok_def list_all_iff filter_empty_conv takeWhile_eq_Nil_iff)
      with Cons show ?thesis by simp
    qed simp
    finally show ?thesis using True by (simp add: d' frame)
  next
    case False
    have "filter (\<lambda>i. \<not> ?P i) (rows_of d s) = rows_of d s"
      using False by (intro filter_True) (auto simp: rows_of_def)
    with False show ?thesis by (simp add: d' frame)
  qed
  have tok: "active_token d' s = active_token d s" for s
  proof -
    have "active_token d' s = (if s = sid then active_token ?d1 s else active_token ?d1 s)"
      unfolding d' active_token_update delete_items_frame(1) active_token_frame(3)
      by (cases "queue_of ?d1 s") (auto simp: active_token_def reset_queue_def)
    then show ?thesis by (simp add: frame)
  qed
  obtain q0 where q0: "queue_of ?d1 sid = Some q0" by (simp add: frame)
  have s0: "session_ok (Some q0) (rows_of d sid)"
    using db_inv_session [OF d1, of sid] unfolding q0 ensure_queue_frame(1) .
  have q: "queue_of d' s = (if s = sid then Some (if qr_token q0 = None then reset_queue now q0 else q0)
      else queue_of d s)" for s
    using q0 ensure_queue_frame(4) [of sid now d s]
    by (simp add: d' queue_of_update_queue delete_items_frame)
  have kept: "?kept = (case rows_of d sid of [] \<Rightarrow> [] | i # _ \<Rightarrow> if ir_state i = ItemDispatching then [i] else [])"
    using rok by (cases "rows_of d sid")
      (auto simp: rows_ok_def takeWhile_eq_Nil_iff list_all_iff dest: hd_in_set)
  have "rows_ok ?kept" using rok unfolding kept by (cases "rows_of d sid") (auto simp: rows_ok_def)
  moreover have "token_ok q0 ?kept" using s0 unfolding kept
    by (cases "rows_of d sid") (auto simp: session_ok_def token_ok_def)
  ultimately have sess: "session_ok (queue_of d' sid) (rows_of d' sid)"
    using s0 no_row_eq [of q0 now] by (auto simp: q r session_ok_def token_ok_def split: list.splits)
  have "distinct (map ir_id (db_items d'))"
    using inv ids_delete_items [of ?d1 ?P] by (simp add: d' frame db_inv_def)
  moreover have "map fst (db_queues d') = map fst (db_queues ?d1)" "db_runtime d' = db_runtime ?d1"
    by (simp_all add: d' update_queue_frame delete_items_frame)
  moreover have "queue_of d' s = queue_of ?d1 s \<and> rows_of d' s = rows_of ?d1 s" if "s \<noteq> sid" for s
    using that by (simp add: q r ensure_queue_frame)
  ultimately have "db_inv d'" using sess by (intro db_inv_change [OF d1, of d' sid]) simp_all
  with r tok \<open>db_runtime d' = db_runtime ?d1\<close> show ?thesis by (simp add: frame)
qed

lemma recover_inflight_effect:
  assumes inv: "db_inv d" and ok: "recover_inflight now d = Inr (d', n)"
  defines "f \<equiv> \<lambda>i. if ir_state i = ItemDispatching then i\<lparr>ir_state := DeliveryUnknown,
      ir_token := None, ir_error_code := Some ''DELIVERY_UNKNOWN'',
      ir_error_message := Some ''Dispatch was interrupted before acknowledgement'',
      ir_updated := now\<rparr> else i"
  shows "db_inv d' \<and> db_runtime d' = db_runtime d \<and> (\<forall>s. rows_of d' s = map f (rows_of d s))
    \<and> (\<forall>s. active_token d' s = None)"
proof -
  define inflight :: "string \<Rightarrow> queue_row \<Rightarrow> bool" where "inflight = (\<lambda>sid q. qr_token q \<noteq> None
      \<or> list_ex (\<lambda>i. ir_session i = sid \<and> ir_state i = ItemDispatching) (db_items d))"
  define g :: "queue_row \<Rightarrow> queue_row" where "g = (\<lambda>q. q\<lparr>qr_state := ActionRequired,
      qr_reason := Some ReasonDeliveryUnknown, qr_token := None, qr_started := None,
      qr_revision := qr_revision q + 1, qr_updated := now\<rparr>)"
  define d1 where "d1 = d\<lparr>db_queues := map (\<lambda>(k, q). (k, if inflight k q then g q else q)) (db_queues d)\<rparr>"
  from ok have d': "d' = update_items (\<lambda>i. ir_state i = ItemDispatching)
      (\<lambda>i. i\<lparr>ir_state := DeliveryUnknown, ir_token := None,
        ir_error_code := Some ''DELIVERY_UNKNOWN'',
        ir_error_message := Some ''Dispatch was interrupted before acknowledgement'',
        ir_updated := now\<rparr>) d1"
    unfolding recover_inflight_def d1_def inflight_def g_def Let_def sum.inject prod.inject
    by (elim conjE) (rule sym)
  have r: "rows_of d' s = map f (rows_of d s)" for s
    unfolding d' by (subst rows_of_update_items) (simp_all add: d1_def rows_of_def f_def)
  have "map_of (map (\<lambda>(k, q). (k, if inflight k q then g q else q)) qs) s =
      map_option (\<lambda>q. if inflight s q then g q else q) (map_of qs s)" for qs s
    by (induction qs) auto
  then have q: "queue_of d' s = map_option (\<lambda>q. if inflight s q then g q else q) (queue_of d s)" for s
    by (simp add: d' frame) (simp add: queue_of_def d1_def)
  have tok: "qr_token (if inflight s q then g q else q) = None" for s q
    by (simp add: inflight_def g_def)
  have nd: "ir_state (f i) \<noteq> ItemDispatching" for i by (simp add: f_def)
  have rok: "rows_ok (map f its)" if "rows_ok its" for its
  proof -
    have "positions_from n (map f xs) = positions_from n xs" for n xs
      by (induction xs arbitrary: n) (simp_all add: f_def)
    moreover have "list_all (\<lambda>i. ir_state i = Queued) (tl (map f its))"
      using that by (cases its) (auto simp: rows_ok_def list_all_iff f_def)
    ultimately show ?thesis using that by (auto simp: rows_ok_def list_all_iff f_def)
  qed
  have qok: "queue_ok (if inflight s q then g q else q)" if "queue_ok q" for s q
    using that by (simp add: queue_ok_def g_def storable_def)
  have "session_ok (queue_of d' s) (rows_of d' s)" for s
    using db_inv_session [OF inv, of s] rok [of "rows_of d s"] qok tok nd
    by (cases "queue_of d s"; cases "rows_of d s")
      (simp_all add: q r session_ok_def token_ok_def)
  moreover have "distinct (map ir_id (db_items d'))"
    using inv unfolding d' by (subst ids_update_items) (simp_all add: d1_def db_inv_def)
  moreover have "map fst (db_queues d') = map fst (db_queues d)" "db_runtime d' = db_runtime d"
    by (simp_all add: d' frame) (simp_all add: d1_def case_prod_beta comp_def)
  ultimately have "db_inv d'" using inv by (simp add: db_inv_def)
  moreover have "active_token d' s = None" for s
    using tok by (cases "queue_of d s") (simp_all add: active_token_def q)
  ultimately show ?thesis using r \<open>db_runtime d' = db_runtime d\<close> by blast
qed

text \<open>The transactions that leave rows and claims alone.\<close>

definition undisturbed :: "db \<Rightarrow> db \<Rightarrow> bool" where
  "undisturbed d d' \<longleftrightarrow> db_inv d' \<and> (\<forall>s. rows_of d' s = rows_of d s)
     \<and> (\<forall>s. active_token d' s = active_token d s)"

lemma undisturbed_trans: "undisturbed d d1 \<Longrightarrow> undisturbed d1 d2 \<Longrightarrow> undisturbed d d2"
  by (simp add: undisturbed_def)

lemma ensure_queue_undisturbed: "db_inv d \<Longrightarrow> undisturbed d (ensure_queue sid now d)"
  by (simp add: undisturbed_def ensure_queue_inv frame)

lemma update_queue_undisturbed:
  assumes "db_inv d" and "\<And>q. queue_ok q \<Longrightarrow> P q \<Longrightarrow> queue_ok (f q) \<and> qr_token (f q) = qr_token q"
  shows "undisturbed d (update_queue sid P f d)"
proof -
  have "active_token (update_queue sid P f d) s = active_token d s" for s
    using db_inv_session [OF assms(1), of s] assms(2) unfolding active_token_update
    by (cases "queue_of d s") (auto simp: active_token_def session_ok_def)
  with update_queue_inv [OF assms(1), of P f sid] assms(2) show ?thesis
    by (simp add: undisturbed_def frame)
qed

lemma bump_undisturbed: "db_inv d \<Longrightarrow> undisturbed d (bump_queue_revision sid now d)"
  unfolding bump_queue_revision_def by (rule update_queue_undisturbed) (auto simp: queue_ok_def)

lemma undisturbed_inv: "undisturbed d d' \<Longrightarrow> db_inv d'"
  by (simp add: undisturbed_def)

lemma get_snapshot_effect:
  "db_inv d \<Longrightarrow> get_snapshot sid d = Inr (d', sn) \<Longrightarrow> undisturbed d d' \<and> db_runtime d' = db_runtime d"
  by (auto simp: get_snapshot_def ensure_runtime_inv ensure_queue_undisturbed frame
      dest!: commit_snapshot_inv)

lemma update_control_effect:
  assumes inv: "db_inv d" and ok: "update_control sid patch now d = Inr (d', sn)"
  shows "undisturbed d d' \<and> db_runtime d' = db_runtime d"
proof -
  let ?d1 = "ensure_queue sid now d"
  let ?d2 = "case cp_paused patch of None \<Rightarrow> ?d1
    | Some b \<Rightarrow> update_queue sid (\<lambda>_. True) (\<lambda>q. q\<lparr>qr_paused := b, qr_updated := now\<rparr>) ?d1"
  let ?d3 = "case cp_unattended patch of None \<Rightarrow> ?d2
    | Some b \<Rightarrow> update_queue sid (\<lambda>_. True) (\<lambda>q. q\<lparr>qr_unattended := b, qr_updated := now\<rparr>) ?d2"
  from ok have d': "d' = bump_queue_revision sid now ?d3"
    by (auto simp: update_control_def Let_def dest: commit_snapshot_inv split: sum.splits)
  have 1: "undisturbed d ?d1" using inv by (rule ensure_queue_undisturbed)
  have 2: "undisturbed ?d1 ?d2"
    using undisturbed_inv [OF 1] 1
    by (auto simp: undisturbed_def [of ?d1 ?d1] queue_ok_def intro!: update_queue_undisturbed split: option.split)
  have 3: "undisturbed ?d2 ?d3"
    using undisturbed_inv [OF 2] 2
    by (auto simp: undisturbed_def [of ?d2 ?d2] queue_ok_def intro!: update_queue_undisturbed split: option.split)
  have 4: "undisturbed ?d3 d'" unfolding d' using undisturbed_inv [OF 3] by (rule bump_undisturbed)
  have "db_runtime d' = db_runtime d" by (simp add: d' frame split: option.split)
  with 1 2 3 4 undisturbed_trans show ?thesis by blast
qed

lemma set_runtime_status_effect:
  assumes inv: "db_inv d" and ok: "set_runtime_status sid st reason now d = Inr (d', sn)"
  shows "undisturbed d d' \<and> db_runtime d' = db_runtime d"
proof -
  let ?d1 = "ensure_queue sid now d"
  let ?hit = "\<lambda>q. qr_token q = None \<and> (qr_state q \<noteq> st \<or> qr_reason q \<noteq> reason)"
  let ?f = "\<lambda>q. q\<lparr>qr_state := st, qr_reason := reason, qr_revision := qr_revision q + 1, qr_updated := now\<rparr>"
  note d1 = ensure_queue_undisturbed [OF inv, of sid now]
  obtain q0 where q0: "queue_of ?d1 sid = Some q0" by (simp add: frame)
  from ok q0 have d': "d' = update_queue sid ?hit ?f ?d1" and st: "storable st \<or> \<not> ?hit q0"
    by (auto simp: set_runtime_status_def ensure_runtime_inv [OF inv] Let_def
        dest: commit_snapshot_inv split: if_splits)
  have rt: "db_runtime d' = db_runtime d" by (simp add: d' frame)
  show ?thesis
  proof (cases "storable st")
    case True
    then have "undisturbed ?d1 d'" unfolding d'
      by (intro update_queue_undisturbed undisturbed_inv [OF d1]) (auto simp: queue_ok_def)
    with d1 rt undisturbed_trans show ?thesis by blast
  next
    case False
    with st have no: "\<not> ?hit q0" by blast
    have "distinct (map fst (db_queues ?d1))" using undisturbed_inv [OF d1] by (simp add: db_inv_def)
    then have "(k, q) \<in> set (db_queues ?d1) \<Longrightarrow> k = sid \<Longrightarrow> q = q0" for k q
      using q0 by (simp add: queue_of_def)
    with no have "map (\<lambda>(k, q). (k, if k = sid \<and> ?hit q then ?f q else q)) (db_queues ?d1) = db_queues ?d1"
      by (intro map_idI) fastforce
    then have "d' = ?d1" by (simp add: d' update_queue_def)
    with d1 rt show ?thesis by simp
  qed
qed

lemma upsert_undisturbed:
  "db_inv d \<Longrightarrow> undisturbed d (fst (upsert_permission_decision sid tool fp d))
    \<and> db_runtime (fst (upsert_permission_decision sid tool fp d)) = db_runtime d"
  by (simp add: upsert_permission_decision_def undisturbed_def db_inv_def rows_of_def
      active_token_def queue_of_def split: option.split)

lemma set_global_enabled_effect:
  assumes inv: "db_inv d"
  obtains rt where "db_runtime d = Some rt"
    "set_global_enabled enabled now d = Inr (d\<lparr>db_runtime := Some (rt\<lparr>rt_enabled := enabled,
        rt_generation := rt_generation rt + 1, rt_updated := now\<rparr>)\<rparr>,
      rt\<lparr>rt_enabled := enabled, rt_generation := rt_generation rt + 1, rt_updated := now\<rparr>)"
    "undisturbed d (d\<lparr>db_runtime := Some (rt\<lparr>rt_enabled := enabled,
        rt_generation := rt_generation rt + 1, rt_updated := now\<rparr>)\<rparr>)"
proof -
  obtain rt where rt: "db_runtime d = Some rt" using inv by (auto simp: db_inv_def)
  with inv show thesis
    by (intro that [of rt]) (simp_all add: set_global_enabled_def ensure_runtime_inv Let_def
        read_runtime_def undisturbed_def db_inv_def rows_of_def active_token_def queue_of_def)
qed

subsection \<open>Runs of the repository\<close>

datatype tq_op =
    QSetEnabled bool
  | QSnapshot string
  | QAdd string string item_draft
  | QDelete string string
  | QClear string
  | QControl string control_patch
  | QRetry string string
  | QStatus string queue_state "queue_reason option"
  | QClaim string string int
  | QComplete string string string
  | QFinish string string string item_state "string option" "string option"
  | QRecover
  | QDecide string string string
  | QDecideIf string string string

definition committed :: "db \<Rightarrow> app_error + db \<times> 'a \<Rightarrow> db" where
  "committed d r = (case r of Inl _ \<Rightarrow> d | Inr (d', _) \<Rightarrow> d')"

fun tq_exec :: "int \<times> tq_op \<Rightarrow> db \<Rightarrow> db" where
  "tq_exec (now, QSetEnabled b) d = committed d (set_global_enabled b now d)"
| "tq_exec (now, QSnapshot sid) d = committed d (get_snapshot sid d)"
| "tq_exec (now, QAdd uuid sid dr) d = committed d (add_item uuid sid dr now d)"
| "tq_exec (now, QDelete sid iid) d = committed d (delete_item sid iid now d)"
| "tq_exec (now, QClear sid) d = committed d (clear_queue sid now d)"
| "tq_exec (now, QControl sid p) d = committed d (update_control sid p now d)"
| "tq_exec (now, QRetry sid iid) d = committed d (retry_item sid iid now d)"
| "tq_exec (now, QStatus sid st r) d = committed d (set_runtime_status sid st r now d)"
| "tq_exec (now, QClaim uuid sid gen) d = committed d (claim_next uuid sid gen now d)"
| "tq_exec (now, QComplete sid iid tk) d = committed d (complete_claim sid iid tk now d)"
| "tq_exec (now, QFinish sid iid tk st c m) d = committed d (finish_claim sid iid tk st c m now d)"
| "tq_exec (now, QRecover) d = committed d (recover_inflight now d)"
| "tq_exec (now, QDecide sid tool fp) d = committed d (record_permission_decision sid tool fp now d)"
| "tq_exec (now, QDecideIf sid tool fp) d =
     committed d (record_permission_decision_if_eligible sid tool fp d)"

definition tq_run :: "(int \<times> tq_op) list \<Rightarrow> db \<Rightarrow> db" where
  "tq_run cs d = fold tq_exec cs d"

definition db_initial :: "int \<Rightarrow> db" where
  "db_initial now =
     \<lparr>db_runtime = Some \<lparr>rt_enabled = True, rt_generation = 0, rt_updated = now\<rparr>,
      db_queues = [], db_items = [], db_decisions = []\<rparr>"

lemma tq_run_simps [simp]:
  "tq_run [] d = d"
  "tq_run (c # cs) d = tq_run cs (tq_exec c d)"
  "tq_run (cs @ ds) d = tq_run ds (tq_run cs d)"
  by (simp_all add: tq_run_def)

lemma committed_cases:
  assumes "P d" and "\<And>d' x. r = Inr (d', x) \<Longrightarrow> P d'"
  shows "P (committed d r)"
  using assms by (cases r) (auto simp: committed_def)

lemma quiet_exec:
  assumes "db_inv d" and "op \<in> {QSetEnabled b, QSnapshot sid, QControl sid p, QStatus sid st r,
      QDecide sid tool fp, QDecideIf sid tool fp}"
  shows "undisturbed d (tq_exec (now, op) d)"
proof -
  have refl: "undisturbed d d" using assms(1) by (simp add: undisturbed_def)
  from assms(2) consider "op = QSetEnabled b" | "op = QSnapshot sid" | "op = QControl sid p"
    | "op = QStatus sid st r" | "op = QDecide sid tool fp" | "op = QDecideIf sid tool fp" by blast
  then show ?thesis
  proof cases
    case 1
    obtain rt where "undisturbed d (committed d (set_global_enabled b now d))"
      by (rule set_global_enabled_effect [OF assms(1), of b now]) (simp add: committed_def)
    with 1 show ?thesis by simp
  next
    case 2
    show ?thesis unfolding 2 tq_exec.simps
      by (rule committed_cases [where P = "undisturbed d", OF refl])
        (use get_snapshot_effect [OF assms(1)] in blast)
  next
    case 3
    show ?thesis unfolding 3 tq_exec.simps
      by (rule committed_cases [where P = "undisturbed d", OF refl])
        (use update_control_effect [OF assms(1)] in blast)
  next
    case 4
    show ?thesis unfolding 4 tq_exec.simps
      by (rule committed_cases [where P = "undisturbed d", OF refl])
        (use set_runtime_status_effect [OF assms(1)] in blast)
  next
    case 5
    have "undisturbed d (fst (upsert_permission_decision sid tool fp (ensure_queue sid now d)))"
      using upsert_undisturbed [OF undisturbed_inv [OF ensure_queue_undisturbed [OF assms(1)]]]
        undisturbed_trans [OF ensure_queue_undisturbed [OF assms(1)]] by blast
    with 5 refl show ?thesis
      by (cases "upsert_permission_decision sid tool fp (ensure_queue sid now d)")
        (simp add: record_permission_decision_def committed_def)
  next
    case 6
    have "undisturbed d (fst (upsert_permission_decision sid tool fp d))"
      using upsert_undisturbed [OF assms(1)] by blast
    with 6 refl show ?thesis
      by (cases "upsert_permission_decision sid tool fp d")
        (simp add: record_permission_decision_if_eligible_def committed_def Let_def)
  qed
qed

lemma quiet_exec':
  assumes "db_inv d" and "case op of QSetEnabled _ \<Rightarrow> True | QSnapshot _ \<Rightarrow> True | QControl _ _ \<Rightarrow> True
    | QStatus _ _ _ \<Rightarrow> True | QDecide _ _ _ \<Rightarrow> True | QDecideIf _ _ _ \<Rightarrow> True | _ \<Rightarrow> False"
  shows "undisturbed d (tq_exec (now, op) d)"
  using quiet_exec [OF assms(1)] assms(2) by (cases op) (simp_all del: tq_exec.simps)

text \<open>What a call does to the rows and the claim of each session; the two possible outcomes of
  the calls that change them.\<close>

lemma tq_exec_cases:
  assumes inv: "db_inv d"
  obtains (quiet) "undisturbed d (tq_exec (now, op) d)"
  | (add) uuid sid dr row where "op = QAdd uuid sid dr" "db_inv (tq_exec (now, op) d)"
      "ir_id row = uuid" "ir_text row = trim (dr_text dr)" "ir_state row = Queued"
      "\<And>s. rows_of (tq_exec (now, op) d) s = (if s = sid then rows_of d sid @ [row] else rows_of d s)"
      "\<And>s. active_token (tq_exec (now, op) d) s = active_token d s"
  | (delete) sid xs row ys where "op = QDelete sid (ir_id row)" "db_inv (tq_exec (now, op) d)"
      "rows_of d sid = xs @ row # ys" "ir_state row \<noteq> ItemDispatching"
      "\<And>s. rows_of (tq_exec (now, op) d) s = (if s = sid then xs @ map (shift_row now) ys else rows_of d s)"
      "\<And>s. active_token (tq_exec (now, op) d) s = active_token d s"
  | (clear) sid where "op = QClear sid" "db_inv (tq_exec (now, op) d)"
      "\<And>s. rows_of (tq_exec (now, op) d) s =
        (if s = sid then takeWhile (\<lambda>i. ir_state i = ItemDispatching) (rows_of d sid) else rows_of d s)"
      "\<And>s. active_token (tq_exec (now, op) d) s = active_token d s"
  | (head) sid i i' its where "db_inv (tq_exec (now, op) d)" "rows_of d sid = i # its"
      "ir_id i' = ir_id i" "ir_text i' = ir_text i"
      "\<And>s. rows_of (tq_exec (now, op) d) s = (if s = sid then i' # its else rows_of d s)"
      "(\<exists>uuid gen. op = QClaim uuid sid gen) \<and> ir_state i = Queued \<and> active_token d sid = None
       \<or> op = QRetry sid (ir_id i) \<and> retryable i \<and> active_token d sid = None
       \<or> (\<exists>tk st c m. op = QFinish sid (ir_id i) tk st c m \<and> active_token d sid = Some tk)"
      "\<And>s. s \<noteq> sid \<Longrightarrow> active_token (tq_exec (now, op) d) s = active_token d s"
  | (complete) sid tk row ys where "op = QComplete sid (ir_id row) tk" "db_inv (tq_exec (now, op) d)"
      "active_token d sid = Some tk" "rows_of d sid = row # ys"
      "\<And>s. rows_of (tq_exec (now, op) d) s = (if s = sid then map (shift_row now) ys else rows_of d s)"
      "\<And>s. s \<noteq> sid \<Longrightarrow> active_token (tq_exec (now, op) d) s = active_token d s"
  | (recover) f where "op = QRecover" "db_inv (tq_exec (now, op) d)"
      "\<And>i. ir_id (f i) = ir_id i \<and> ir_text (f i) = ir_text i"
      "\<And>i. ir_state i = ItemDispatching \<Longrightarrow> ir_state (f i) = DeliveryUnknown"
      "\<And>i. ir_state i \<noteq> ItemDispatching \<Longrightarrow> f i = i"
      "\<And>s. rows_of (tq_exec (now, op) d) s = map f (rows_of d s)"
proof -
  have refl: "undisturbed d d" using inv by (simp add: undisturbed_def)
  have same: "thesis" if "tq_exec (now, op) d = d" using quiet that refl by simp
  show thesis
  proof (cases op)
    case (QAdd uuid sid dr)
    show thesis
    proof (cases "add_item uuid sid dr now d")
      case (Inr r)
      obtain d' sn where r: "add_item uuid sid dr now d = Inr (d', sn)" using Inr by (cases r) simp
      then have e: "tq_exec (now, op) d = d'" using QAdd by (simp add: committed_def)
      show thesis
      proof (rule add_item_effect [OF inv r], goal_cases)
        case (1 row dr')
        then have "dr_text dr' = trim (dr_text dr)"
          by (auto simp: draft_validated_def Let_def split: if_splits)
        with 1 e QAdd show thesis by (intro add [of uuid sid dr row]) simp_all
      qed
    qed (use same QAdd in \<open>simp add: committed_def\<close>)
  next
    case (QDelete sid iid)
    show thesis
    proof (cases "delete_item sid iid now d")
      case (Inr r)
      obtain d' sn where r: "delete_item sid iid now d = Inr (d', sn)" using Inr by (cases r) simp
      then have e: "tq_exec (now, op) d = d'" using QDelete by (simp add: committed_def)
      show thesis
      proof (rule delete_item_effect [OF inv r], goal_cases)
        case (1 xs row ys)
        with e QDelete show thesis by (intro delete [of sid row xs ys]) simp_all
      qed
    qed (use same QDelete in \<open>simp add: committed_def\<close>)
  next
    case (QClear sid)
    show thesis
    proof (cases "clear_queue sid now d")
      case (Inr r)
      obtain d' sn where r: "clear_queue sid now d = Inr (d', sn)" using Inr by (cases r) simp
      with QClear clear_queue_effect [OF inv r] show thesis
        by (intro clear [of sid]) (simp_all add: committed_def)
    qed (use same QClear in \<open>simp add: committed_def\<close>)
  next
    case (QRetry sid iid)
    show thesis
    proof (cases "retry_item sid iid now d")
      case (Inr r)
      obtain d' sn where r: "retry_item sid iid now d = Inr (d', sn)" using Inr by (cases r) simp
      then have e: "tq_exec (now, op) d = d'" using QRetry by (simp add: committed_def)
      show thesis
      proof (rule retry_item_effect [OF inv r], goal_cases)
        case (1 i its)
        with e QRetry show thesis
          by (intro head [of sid i its "i\<lparr>ir_state := Queued, ir_token := None, ir_error_code := None, ir_error_message := None, ir_updated := now\<rparr>"]) simp_all
      qed
    qed (use same QRetry in \<open>simp add: committed_def\<close>)
  next
    case (QClaim uuid sid gen)
    show thesis
    proof (cases "claim_next uuid sid gen now d")
      case (Inr r)
      obtain d' c where r: "claim_next uuid sid gen now d = Inr (d', c)" using Inr by (cases r) simp
      then have e: "tq_exec (now, op) d = d'" using QClaim by (simp add: committed_def)
      from claim_next_effect [OF inv r] show thesis
      proof (elim disjE exE conjE, goal_cases)
        case (2 i its cl rt)
        with e QClaim show thesis
          by (intro head [of sid i its "i\<lparr>ir_state := ItemDispatching, ir_token := Some uuid, ir_updated := now\<rparr>"]) simp_all
      qed (use e same in simp)
    qed (use same QClaim in \<open>simp add: committed_def\<close>)
  next
    case (QComplete sid iid tk)
    show thesis
    proof (cases "complete_claim sid iid tk now d")
      case (Inr r)
      obtain d' b where r: "complete_claim sid iid tk now d = Inr (d', b)" using Inr by (cases r) simp
      then have e: "tq_exec (now, op) d = d'" using QComplete by (simp add: committed_def)
      from complete_claim_effect [OF inv r] show thesis
      proof (elim disjE exE conjE, goal_cases)
        case (2 row ys)
        with e QComplete show thesis by (intro complete [of sid row tk ys]) simp_all
      qed (use e same in simp)
    qed (use same QComplete in \<open>simp add: committed_def\<close>)
  next
    case (QFinish sid iid tk st c m)
    show thesis
    proof (cases "finish_claim sid iid tk st c m now d")
      case (Inr r)
      obtain d' b where r: "finish_claim sid iid tk st c m now d = Inr (d', b)" using Inr by (cases r) simp
      then have e: "tq_exec (now, op) d = d'" using QFinish by (simp add: committed_def)
      from finish_claim_effect [OF inv r] show thesis
      proof (elim disjE exE conjE, goal_cases)
        case (2 i its)
        with e QFinish show thesis
          by (intro head [of sid i its "i\<lparr>ir_state := st, ir_token := None, ir_error_code := c, ir_error_message := m, ir_updated := now\<rparr>"]) simp_all
      qed (use e same in simp)
    qed (use same QFinish in \<open>simp add: committed_def\<close>)
  next
    case QRecover
    obtain d' n where r: "recover_inflight now d = Inr (d', n)" by (simp add: recover_inflight_def Let_def)
    define f :: "item_row \<Rightarrow> item_row" where "f = (\<lambda>i. if ir_state i = ItemDispatching
      then i\<lparr>ir_state := DeliveryUnknown, ir_token := None, ir_error_code := Some ''DELIVERY_UNKNOWN'',
        ir_error_message := Some ''Dispatch was interrupted before acknowledgement'',
        ir_updated := now\<rparr> else i)"
    from recover_inflight_effect [OF inv r, folded f_def] r QRecover
    have "db_inv (tq_exec (now, op) d)" "\<And>s. rows_of (tq_exec (now, op) d) s = map f (rows_of d s)"
      by (simp_all add: committed_def)
    then show thesis using QRecover by (intro recover [of f]) (simp_all add: f_def)
  qed (use quiet quiet_exec' [OF inv, of op now] in simp_all)
qed

end
