(* ===== verification/Queue_Properties.thy ===== *)
theory Queue_Properties
  imports Task_Queue
begin

text \<open>
  What the transactions of \<open>Task_Queue\<close> guarantee over any run: the tables stay consistent,
  a claim is exclusive until it is finished, a crash never sends a task
  twice, a change of the global switch revokes what was decided before it, and a permission
  is bound to the request it was given for.
\<close>

lemma tq_exec_inv: "db_inv d \<Longrightarrow> db_inv (tq_exec c d)"
proof -
  assume inv: "db_inv d"
  obtain now op where c: "c = (now, op)" by fastforce
  show "db_inv (tq_exec c d)"
    unfolding c by (cases rule: tq_exec_cases [OF inv, of now op]) (auto simp: undisturbed_inv)
qed

lemma tq_run_inv: "db_inv d \<Longrightarrow> db_inv (tq_run cs d)"
  by (induction cs arbitrary: d) (simp_all add: tq_exec_inv)

lemma db_initial_inv: "db_inv (db_initial t)"
  by (simp add: db_inv_def db_initial_def queue_of_def rows_of_def session_ok_def)

lemma tq_reachable_inv: "db_inv (tq_run cs (db_initial t))"
  by (rule tq_run_inv [OF db_initial_inv])

text \<open>C28: Whatever the calls, the tables of the task queues stay consistent: in each queue the
  positions are 0, 1, ... without gaps, at most 100 items wait, only the first can be in any
  other state than queued, exactly the dispatching item carries a token and it is the queue's
  token, and the constraints of the schema hold.\<close>

theorem queue_tables_consistent: "db_inv (tq_run cs (db_initial t))"
  by (rule tq_reachable_inv)

definition contents :: "db \<Rightarrow> string \<Rightarrow> (string \<times> string) list" where
  "contents d sid = map (\<lambda>i. (ir_id i, ir_text i)) (rows_of d sid)"

text \<open>What each call may do to the texts of a queue: items join at the end, leave from the front
  when they have been sent, and from anywhere when they are deleted (the exact step is
  \<open>Queue_Refinement.fifo_step\<close>).\<close>

fun queue_spec :: "tq_op \<Rightarrow> string \<Rightarrow> (string \<times> string) list \<Rightarrow> (string \<times> string) list \<Rightarrow> bool" where
  "queue_spec (QAdd uuid s dr) sid c c' =
     (c' = c \<or> (s = sid \<and> c' = c @ [(uuid, trim (dr_text dr))]))"
| "queue_spec (QDelete s iid) sid c c' =
     (c' = c \<or> (s = sid \<and> (\<exists>xs t ys. c = xs @ (iid, t) # ys \<and> c' = xs @ ys)))"
| "queue_spec (QClear s) sid c c' = (c' = c \<or> (s = sid \<and> c' = take (length c') c \<and> length c' \<le> 1))"
| "queue_spec (QComplete s iid tk) sid c c' =
     (c' = c \<or> (s = sid \<and> (\<exists>t. c = (iid, t) # c')))"
| "queue_spec _ sid c c' = (c' = c)"

lemma contents_shift [simp]:
  "map (\<lambda>i. (ir_id i, ir_text i)) (map (shift_row now) ys) = map (\<lambda>i. (ir_id i, ir_text i)) ys"
  by (simp add: shift_row_def)

lemma queue_spec_delete:
  assumes rows: "rows_of d s = xs @ row # ys"
    and eff: "\<And>s'. rows_of d' s' = (if s' = s then xs @ map (shift_row now) ys else rows_of d s')"
  shows "queue_spec (QDelete s (ir_id row)) sid (contents d sid) (contents d' sid)"
proof (cases "s = sid")
  case True
  let ?c = "map (\<lambda>i. (ir_id i, ir_text i))"
  have "contents d sid = ?c xs @ (ir_id row, ir_text row) # ?c ys"
    using rows True by (simp add: contents_def)
  moreover have "contents d' sid = ?c xs @ ?c ys"
    using eff True by (simp add: contents_def shift_row_def)
  ultimately show ?thesis using True by simp blast
qed (use eff in \<open>simp add: contents_def\<close>)

lemma queue_spec_complete:
  assumes "rows_of d s = row # ys"
    and "\<And>s'. rows_of d' s' = (if s' = s then map (shift_row now) ys else rows_of d s')"
  shows "queue_spec (QComplete s (ir_id row) tk) sid (contents d sid) (contents d' sid)"
  using assms by (cases "s = sid") (simp_all add: contents_def shift_row_def)

lemma queue_spec_clear:
  assumes inv: "db_inv d"
    and eff: "\<And>s'. rows_of d' s' =
      (if s' = s then takeWhile (\<lambda>i. ir_state i = ItemDispatching) (rows_of d s) else rows_of d s')"
  shows "queue_spec (QClear s) sid (contents d sid) (contents d' sid)"
proof -
  have "rows_ok (rows_of d s)" by (rule db_inv_rows [OF inv])
  then have "length (takeWhile (\<lambda>i. ir_state i = ItemDispatching) (rows_of d s)) \<le> 1"
    by (cases "rows_of d s") (auto simp: rows_ok_def list_all_iff takeWhile_eq_Nil_iff dest: hd_in_set)
  then obtain n where n: "n \<le> 1"
    "takeWhile (\<lambda>i. ir_state i = ItemDispatching) (rows_of d s) = take n (rows_of d s)"
    using takeWhile_eq_take by metis
  have "contents d' sid = (if s = sid then take n (contents d sid) else contents d sid)"
    using eff [of sid] n(2) by (cases "s = sid") (simp_all add: contents_def take_map)
  with n(1) show ?thesis by (cases "s = sid") (auto simp: min_def)
qed

lemma queue_spec_exec:
  assumes inv: "db_inv d"
  shows "queue_spec op sid (contents d sid) (contents (tq_exec (now, op) d) sid)"
  using inv
proof (cases rule: tq_exec_cases [where now = now and op = op])
  case quiet
  then have "contents (tq_exec (now, op) d) sid = contents d sid"
    by (simp add: contents_def undisturbed_def)
  then show ?thesis by (cases op) simp_all
next
  case (clear s)
  then show ?thesis using queue_spec_clear [OF inv clear(3)] by simp
next
  case (recover f)
  then show ?thesis by (simp add: contents_def del: tq_exec.simps)
next
  case (delete s xs row ys)
  then show ?thesis using queue_spec_delete [OF delete(3) delete(5)] by simp
next
  case (complete s tk row ys)
  then show ?thesis using queue_spec_complete [OF complete(4) complete(5)] by simp
next
  case (head s i i' its)
  then have "contents (tq_exec (now, op) d) sid = contents d sid"
    by (simp add: contents_def del: tq_exec.simps)
  then show ?thesis by (cases op) (simp_all del: tq_exec.simps)
next
  case (add uuid s dr row)
  then have "contents (tq_exec (now, op) d) sid =
      (if s = sid then contents d sid @ [(uuid, trim (dr_text dr))] else contents d sid)"
    by (simp add: contents_def del: tq_exec.simps)
  then show ?thesis unfolding add(1) by (simp del: tq_exec.simps)
qed

subsection \<open>Claims\<close>

text \<open>\<open>held d sid iid tk\<close>: the first item of the queue is \<open>iid\<close>, being sent under the token
  \<open>tk\<close>.\<close>

definition held :: "db \<Rightarrow> string \<Rightarrow> string \<Rightarrow> string \<Rightarrow> bool" where
  "held d sid iid tk \<longleftrightarrow>
     (\<exists>i its. rows_of d sid = i # its \<and> ir_id i = iid \<and> ir_state i = ItemDispatching
        \<and> ir_token i = Some tk) \<and> active_token d sid = Some tk"

fun keeps_claim :: "string \<Rightarrow> string \<Rightarrow> string \<Rightarrow> int \<times> tq_op \<Rightarrow> bool" where
  "keeps_claim sid iid tk (_, QRecover) = False"
| "keeps_claim sid iid tk (_, QComplete s i k) = (\<not> (s = sid \<and> i = iid \<and> k = tk))"
| "keeps_claim sid iid tk (_, QFinish s i k _ _ _) = (\<not> (s = sid \<and> i = iid \<and> k = tk))"
| "keeps_claim sid iid tk _ = True"

lemma held_exec:
  assumes inv: "db_inv d" and h: "held d sid iid tk" and k: "keeps_claim sid iid tk (now, op)"
  shows "held (tq_exec (now, op) d) sid iid tk"
  using inv
proof (cases rule: tq_exec_cases [where now = now and op = op])
  case quiet
  with h show ?thesis by (simp add: held_def undisturbed_def)
next
  case (delete s xs row ys)
  show ?thesis
  proof (cases "s = sid")
    case True
    with h delete show ?thesis by (cases xs) (auto simp: held_def)
  qed (use h delete in \<open>simp add: held_def\<close>)
next
  case (clear s)
  with h show ?thesis by (cases "s = sid") (auto simp: held_def)
next
  case (head s i i' its)
  have "s \<noteq> sid" using head(2,6) h k by (auto simp: held_def)
  with h head show ?thesis by (simp add: held_def)
next
  case (complete s tk' row ys)
  have "s \<noteq> sid" using complete(1,3,4) h k by (auto simp: held_def)
  with h complete show ?thesis by (simp add: held_def)
next
  case (recover f)
  with k show ?thesis by simp
qed (use h in \<open>auto simp: held_def\<close>)

lemma held_run:
  "db_inv d \<Longrightarrow> held d sid iid tk \<Longrightarrow> list_all (keeps_claim sid iid tk) cs \<Longrightarrow> held (tq_run cs d) sid iid tk"
proof (induction cs arbitrary: d)
  case (Cons c cs)
  then show ?case using held_exec [of d sid iid tk] tq_exec_inv by (cases c) simp
qed simp

lemma held_no_claim:
  assumes "db_inv d" and "active_token d sid \<noteq> None"
  shows "claim_next uuid sid gen now d = Inr (d, None)"
proof -
  obtain rt where "db_runtime d = Some rt" using assms(1) by (auto simp: db_inv_def)
  moreover obtain q where "queue_of d sid = Some q" "qr_token q \<noteq> None"
    using assms(2) by (cases "queue_of d sid") (auto simp: active_token_def)
  ultimately show ?thesis by (simp add: claim_next_def read_runtime_def)
qed

lemma claim_gives_held:
  assumes "db_inv d" and "claim_next uuid sid gen now d = Inr (d1, Some cl)"
  shows "db_inv d1 \<and> held d1 sid (ti_id (cl_item cl)) uuid \<and> cl_token cl = uuid
    \<and> contents d1 sid = contents d sid
    \<and> hd (contents d sid) = (ti_id (cl_item cl), ti_text (cl_item cl)) \<and> contents d sid \<noteq> []"
  using claim_next_effect [OF assms] by (auto simp: held_def contents_def)

text \<open>C1: A claim is exclusive and takes the oldest task: a claim hands out the first task of
  the queue, and from then on, whatever calls are made (retries, deletions, clearing, other
  claims, stale tokens), no second claim succeeds and the task stays in place, until the claim
  itself is finished under its token or the process recovers from a crash.\<close>

theorem claim_is_exclusive:
  assumes "d = tq_run cs0 (db_initial t)" and "claim_next uuid sid gen now d = Inr (d1, Some cl)"
    and "list_all (keeps_claim sid (ti_id (cl_item cl)) uuid) cs"
  shows "hd (contents d sid) = (ti_id (cl_item cl), ti_text (cl_item cl))
    \<and> claim_next uuid' sid gen' now' (tq_run cs d1) = Inr (tq_run cs d1, None)
    \<and> contents (tq_run cs d1) sid \<noteq> []
    \<and> fst (hd (contents (tq_run cs d1) sid)) = ti_id (cl_item cl)"
proof -
  have "db_inv d" unfolding assms(1) by (rule tq_reachable_inv)
  note c = claim_gives_held [OF this assms(2)]
  then have h: "held (tq_run cs d1) sid (ti_id (cl_item cl)) uuid" using held_run assms(3) by blast
  have "db_inv (tq_run cs d1)" using c by (simp add: tq_run_inv)
  from held_no_claim [OF this, of sid] h c show ?thesis
    by (auto simp: held_def contents_def)
qed

definition demo_draft :: item_draft where
  "demo_draft = \<lparr>dr_text = ''hi'', dr_images = []\<rparr>"

lemma trim_hi: "trim ''hi'' = ''hi''"
  by (simp add: trim_def trim_start.simps trim_end.simps ws_at_front_def ws_at_end_def
      unicode_ws_def suffix_def)

lemma demo_claim:
  "\<exists>d1 cl. claim_next ''t1'' ''s'' 0 2 (tq_run [(1, QAdd ''a'' ''s'' demo_draft)] (db_initial 0))
     = Inr (d1, Some cl) \<and> ti_id (cl_item cl) = ''a''"
  by (simp add: claim_next_def committed_def add_item_def draft_validated_def demo_draft_def
      trim_hi TASK_QUEUE_MAX_TEXT_BYTES_def TASK_QUEUE_MAX_IMAGE_REFS_def db_initial_def
      ensure_runtime_def ensure_queue_def queue_of_def rows_of_def commit_snapshot_def
      read_snapshot_def read_runtime_def bump_queue_revision_def update_queue_def fresh_queue_def
      fetch_head_def items_of_def parse_raw_item_def is_item_def next_position_def Let_def)

theorem claim_is_exclusive_witness:
  "\<exists>d1. claim_next ''t2'' ''s'' 0 3 d1 = Inr (d1, None) \<and> contents d1 ''s'' \<noteq> []"
proof -
  obtain d1 cl where "claim_next ''t1'' ''s'' 0 2
      (tq_run [(1, QAdd ''a'' ''s'' demo_draft)] (db_initial 0)) = Inr (d1, Some cl)"
    using demo_claim by blast
  from claim_is_exclusive [OF refl this, of "[]" "''t2''" 0 3] show ?thesis by auto
qed

subsection \<open>Crashes\<close>

definition interrupted :: "db \<Rightarrow> string \<Rightarrow> string \<Rightarrow> bool" where
  "interrupted d sid iid \<longleftrightarrow>
     (\<exists>i its. rows_of d sid = i # its \<and> ir_id i = iid \<and> ir_state i = DeliveryUnknown)"

fun leaves_interrupted :: "string \<Rightarrow> string \<Rightarrow> int \<times> tq_op \<Rightarrow> bool" where
  "leaves_interrupted sid iid (_, QRetry s i) = (\<not> (s = sid \<and> i = iid))"
| "leaves_interrupted sid iid (_, QDelete s i) = (\<not> (s = sid \<and> i = iid))"
| "leaves_interrupted sid iid (_, QClear s) = (s \<noteq> sid)"
| "leaves_interrupted sid iid _ = True"

lemma interrupted_exec:
  assumes inv: "db_inv d" and h: "interrupted d sid iid" and k: "leaves_interrupted sid iid (now, op)"
  shows "interrupted (tq_exec (now, op) d) sid iid"
  using inv
proof (cases rule: tq_exec_cases [where now = now and op = op])
  case quiet
  with h show ?thesis by (simp add: interrupted_def undisturbed_def)
next
  case (delete s xs row ys)
  show ?thesis
  proof (cases "s = sid")
    case True
    with h k delete show ?thesis by (cases xs) (auto simp: interrupted_def)
  qed (use h delete in \<open>simp add: interrupted_def\<close>)
next
  case (clear s)
  with h k show ?thesis by (simp add: interrupted_def)
next
  case (head s i i' its)
  have "s \<noteq> sid"
  proof
    assume s: "s = sid"
    with h head(2) have st: "ir_id i = iid" "ir_state i = DeliveryUnknown" by (auto simp: interrupted_def)
    with active_token_head(1) [OF inv head(2)] head(6) k s show False by auto
  qed
  with h head show ?thesis by (simp add: interrupted_def)
next
  case (complete s tk row ys)
  have "s \<noteq> sid"
  proof
    assume s: "s = sid"
    with h complete(4) have "ir_state row = DeliveryUnknown" by (auto simp: interrupted_def)
    with active_token_head(1) [OF inv complete(4)] complete(3) show False by simp
  qed
  with h complete show ?thesis by (simp add: interrupted_def)
next
  case (recover f)
  with h recover(5) show ?thesis by (force simp: interrupted_def)
qed (use h in \<open>auto simp: interrupted_def\<close>)

lemma recovered_interrupted:
  assumes inv: "db_inv d" and h: "held d sid iid tk"
  shows "interrupted (tq_exec (now, QRecover) d) sid iid"
proof -
  obtain d' n where r: "recover_inflight now d = Inr (d', n)" by (simp add: recover_inflight_def Let_def)
  from recover_inflight_effect [OF inv r] h show ?thesis
    by (auto simp: r committed_def held_def interrupted_def)
qed

lemma interrupted_run:
  "db_inv d \<Longrightarrow> interrupted d sid iid \<Longrightarrow> list_all (leaves_interrupted sid iid) cs \<Longrightarrow>
    interrupted (tq_run cs d) sid iid"
proof (induction cs arbitrary: d)
  case (Cons c cs)
  then show ?case using interrupted_exec [of d sid iid] tq_exec_inv by (cases c) simp
qed simp

lemma interrupted_no_claim:
  assumes "db_inv d" and "interrupted d sid iid"
  shows "claim_next uuid sid gen now d = Inr (d, None)"
proof -
  obtain rt where rt: "db_runtime d = Some rt" using assms(1) by (auto simp: db_inv_def)
  from assms(2) have "\<exists>item. fetch_head d sid = Some item \<and> ti_state item \<noteq> Queued"
    by (auto simp: interrupted_def fetch_head_def db_inv_items_of [OF assms(1)] parse_raw_item_def)
  with rt show ?thesis by (auto simp: claim_next_def read_runtime_def split: option.split)
qed

text \<open>C2: A crash never sends a task twice: if the process stops while a task is being sent and
  recovers, the task is kept at the front of its queue as possibly delivered, and nothing of
  that queue is handed out again, whatever calls follow, until the user retries, deletes or
  clears it.\<close>

theorem crash_never_resends:
  assumes "d = tq_run cs0 (db_initial t)" and "claim_next uuid sid gen now d = Inr (d1, Some cl)"
    and "list_all (keeps_claim sid (ti_id (cl_item cl)) uuid) cs"
    and "list_all (leaves_interrupted sid (ti_id (cl_item cl))) cs'"
    and "d2 = tq_run (cs @ (t', QRecover) # cs') d1"
  shows "claim_next uuid' sid gen' now' d2 = Inr (d2, None)
    \<and> (\<exists>i. i \<in> set (rows_of d2 sid) \<and> ir_id i = ti_id (cl_item cl) \<and> ir_state i = DeliveryUnknown)"
proof -
  have "db_inv d" unfolding assms(1) by (rule tq_reachable_inv)
  note c = claim_gives_held [OF this assms(2)]
  let ?d = "tq_run cs d1"
  have inv: "db_inv ?d" using c by (simp add: tq_run_inv)
  have h: "held ?d sid (ti_id (cl_item cl)) uuid" using held_run c assms(3) by blast
  have "interrupted (tq_exec (t', QRecover) ?d) sid (ti_id (cl_item cl))"
    using inv h by (rule recovered_interrupted)
  then have i2: "interrupted d2 sid (ti_id (cl_item cl))"
    unfolding assms(5) using interrupted_run [OF tq_exec_inv [OF inv] _ assms(4)]
    by (simp del: tq_exec.simps)
  have "db_inv d2" unfolding assms(5) using c tq_run_inv by blast
  from interrupted_no_claim [OF this i2] i2 show ?thesis by (auto simp: interrupted_def)
qed

theorem crash_never_resends_witness:
  "\<exists>d2. claim_next ''t2'' ''s'' 0 9 d2 = Inr (d2, None) \<and> rows_of d2 ''s'' \<noteq> []"
proof -
  obtain d1 cl where "claim_next ''t1'' ''s'' 0 2
      (tq_run [(1, QAdd ''a'' ''s'' demo_draft)] (db_initial 0)) = Inr (d1, Some cl)"
    using demo_claim by blast
  from crash_never_resends [OF refl this, of "[]" "[]", OF _ _ refl, of "''t2''" 0 9 5]
  have "claim_next ''t2'' ''s'' 0 9 (tq_exec (5, QRecover) d1) = Inr (tq_exec (5, QRecover) d1, None)"
    "rows_of (tq_exec (5, QRecover) d1) ''s'' \<noteq> []"
    by (auto simp del: tq_exec.simps)
  then show ?thesis by blast
qed

subsection \<open>Progress\<close>

definition ready_to_send :: "db \<Rightarrow> string \<Rightarrow> int \<Rightarrow> bool" where
  "ready_to_send d sid gen \<longleftrightarrow>
     (case db_runtime d of Some rt \<Rightarrow> rt_enabled rt \<and> rt_generation rt = gen | None \<Rightarrow> False)
     \<and> (case queue_of d sid of Some q \<Rightarrow> \<not> qr_paused q | None \<Rightarrow> False)
     \<and> (case rows_of d sid of i # _ \<Rightarrow> ir_state i = Queued | [] \<Rightarrow> False)"

lemma ready_claim:
  assumes inv: "db_inv d" and "ready_to_send d sid gen"
  obtains d1 where "claim_next uuid sid gen now d = Inr (d1, Some \<lparr>cl_token = uuid, cl_generation = gen,
    cl_item = (parse_raw_item (hd (rows_of d sid)))\<lparr>ti_state := ItemDispatching\<rparr>\<rparr>)"
proof -
  from assms(2) obtain rt q i its where rt: "db_runtime d = Some rt" "rt_enabled rt" "rt_generation rt = gen"
    and q: "queue_of d sid = Some q" "\<not> qr_paused q" and rows: "rows_of d sid = i # its" and st: "ir_state i = Queued"
    by (auto simp: ready_to_send_def split: option.splits list.splits)
  have "active_token d sid = None" using active_token_head [OF inv rows] st by simp
  then have tk: "qr_token q = None" using q by (simp add: active_token_def)
  have head: "fetch_head d sid = Some (parse_raw_item i)"
    using rows by (simp add: fetch_head_def db_inv_items_of [OF inv])
  have pid: "ti_id (parse_raw_item i) = ir_id i" "ti_state (parse_raw_item i) = ir_state i"
    by (simp_all add: parse_raw_item_def)
  show thesis
    by (rule that) (simp add: claim_next_def read_runtime_def rt q tk head pid st rows Let_def
        claim_hits_head(2) [OF inv rows st])
qed

lemma claim_ready:
  assumes inv: "db_inv d" and "claim_next uuid sid gen now d = Inr (d1, Some cl)"
  shows "ready_to_send d sid gen"
  using assms(2) db_inv_items_of [OF inv, of sid]
  by (auto simp: claim_next_def read_runtime_def ready_to_send_def fetch_head_def parse_raw_item_def
      split: if_splits option.splits list.splits)

lemma held_completes:
  assumes inv: "db_inv d" and h: "held d sid iid tk"
  obtains d2 where "complete_claim sid iid tk now d = Inr (d2, True)"
    "contents d2 sid = tl (contents d sid)"
proof -
  from h obtain i its where rows: "rows_of d sid = i # its" "ir_id i = iid"
    and tok: "active_token d sid = Some tk" by (auto simp: held_def)
  then have st: "ir_state i = ItemDispatching" "ir_token i = Some tk"
    using active_token_head(1) [OF inv rows(1)] by (auto split: if_splits)
  have "i \<in> set (rows_of d sid)" using rows(1) by simp
  then have "i \<in> set (db_items d)" and "claimed sid iid tk i"
    using rows(2) st by (auto simp: claimed_def is_item_def rows_of_def)
  then have "find (claimed sid iid tk) (db_items d) \<noteq> None" by (auto simp: find_None_iff)
  moreover have "holds_claim d sid tk" using tok by (simp add: holds_claim_iff)
  ultimately obtain d2 where d2: "complete_claim sid iid tk now d = Inr (d2, True)"
    by (auto simp: complete_claim_def Let_def holds_claim_def shift_after_def frame split: option.splits)
  then have "contents d2 sid = tl (contents d sid)"
    using complete_claim_effect [OF inv d2] by (auto simp: contents_def shift_row_def)
  with d2 that show thesis by blast
qed

text \<open>The queue makes progress: a claim is granted exactly when the global switch is on and
  of the expected generation, the queue is not paused and its first task waits; and the task
  granted can be completed at once, which leaves the rest of the queue.\<close>

theorem ready_queue_drains:
  "let d = tq_run cs (db_initial t); r = claim_next uuid sid gen now d
   in (\<exists>d1 cl. r = Inr (d1, Some cl)) = ready_to_send d sid gen
      \<and> (case r of Inr (d1, Some cl) \<Rightarrow>
           (\<exists>d2. complete_claim sid (ti_id (cl_item cl)) (cl_token cl) now' d1 = Inr (d2, True)
              \<and> contents d2 sid = tl (contents d sid))
         | _ \<Rightarrow> True)"
proof -
  let ?d = "tq_run cs (db_initial t)"
  let ?r = "claim_next uuid sid gen now ?d"
  have inv: "db_inv ?d" by (rule tq_reachable_inv)
  have "(\<exists>d1 cl. ?r = Inr (d1, Some cl)) = ready_to_send ?d sid gen"
    using claim_ready [OF inv] ready_claim [OF inv] by metis
  moreover have "\<exists>d2. complete_claim sid (ti_id (cl_item cl)) (cl_token cl) now' d1 = Inr (d2, True)
      \<and> contents d2 sid = tl (contents ?d sid)" if "?r = Inr (d1, Some cl)" for d1 cl
    using claim_gives_held [OF inv that] held_completes [of d1 sid "ti_id (cl_item cl)" uuid now']
    by metis
  ultimately show ?thesis by (auto simp: Let_def split: sum.split option.split)
qed

subsection \<open>The global switch\<close>

definition generation :: "db \<Rightarrow> int" where
  "generation d = (case db_runtime d of Some r \<Rightarrow> rt_generation r | None \<Rightarrow> 0)"

fun switches :: "int \<times> tq_op \<Rightarrow> bool" where
  "switches (_, QSetEnabled _) = True"
| "switches _ = False"

lemma committed_runtime:
  "(\<And>d' x. r = Inr (d', x) \<Longrightarrow> db_runtime d' = db_runtime d) \<Longrightarrow>
    db_runtime (committed d r) = db_runtime d"
  by (cases r) (auto simp: committed_def)

lemma runtime_exec:
  assumes inv: "db_inv d" and "\<not> switches (now, op)"
  shows "db_runtime (tq_exec (now, op) d) = db_runtime d"
proof (cases op)
  case (QAdd uuid sid dr)
  show ?thesis unfolding QAdd tq_exec.simps
    by (rule committed_runtime) (erule add_item_effect [OF inv])
next
  case (QDelete sid iid)
  show ?thesis unfolding QDelete tq_exec.simps
    by (rule committed_runtime) (erule delete_item_effect [OF inv])
next
  case (QRetry sid iid)
  show ?thesis unfolding QRetry tq_exec.simps
    by (rule committed_runtime) (erule retry_item_effect [OF inv])
next
  case (QSetEnabled b)
  with assms(2) show ?thesis by simp
next
  case (QDecide sid tool fp)
  have "db_runtime (fst (upsert_permission_decision sid tool fp (ensure_queue sid now d))) = db_runtime d"
    using upsert_undisturbed [OF ensure_queue_inv [OF inv]] by (simp add: frame)
  with QDecide show ?thesis
    by (cases "upsert_permission_decision sid tool fp (ensure_queue sid now d)")
      (simp add: record_permission_decision_def committed_def)
next
  case (QDecideIf sid tool fp)
  have "db_runtime (fst (upsert_permission_decision sid tool fp d)) = db_runtime d"
    using upsert_undisturbed [OF inv] by blast
  with QDecideIf show ?thesis
    by (cases "upsert_permission_decision sid tool fp d")
      (simp add: record_permission_decision_if_eligible_def committed_def Let_def)
next
  case (QSnapshot sid)
  show ?thesis unfolding QSnapshot tq_exec.simps
    by (rule committed_runtime) (use get_snapshot_effect [OF inv] in blast)
next
  case (QClear sid)
  show ?thesis unfolding QClear tq_exec.simps
    by (rule committed_runtime) (use clear_queue_effect [OF inv] in blast)
next
  case (QControl sid p)
  show ?thesis unfolding QControl tq_exec.simps
    by (rule committed_runtime) (use update_control_effect [OF inv] in blast)
next
  case (QStatus sid st r)
  show ?thesis unfolding QStatus tq_exec.simps
    by (rule committed_runtime) (use set_runtime_status_effect [OF inv] in blast)
next
  case (QClaim uuid sid gen)
  show ?thesis unfolding QClaim tq_exec.simps
    by (rule committed_runtime) (use claim_next_effect [OF inv] in blast)
next
  case (QComplete sid iid tk)
  show ?thesis unfolding QComplete tq_exec.simps
    by (rule committed_runtime) (use complete_claim_effect [OF inv] in blast)
next
  case (QFinish sid iid tk st c m)
  show ?thesis unfolding QFinish tq_exec.simps
    by (rule committed_runtime) (use finish_claim_effect [OF inv] in blast)
next
  case QRecover
  show ?thesis unfolding QRecover tq_exec.simps
    by (rule committed_runtime) (use recover_inflight_effect [OF inv] in blast)
qed

lemma generation_exec:
  assumes "db_inv d"
  shows "generation (tq_exec c d) = generation d + (if switches c then 1 else 0)"
proof -
  obtain now op where c: "c = (now, op)" by fastforce
  show ?thesis
  proof (cases op)
    case (QSetEnabled b)
    obtain rt where rt: "db_runtime d = Some rt" using assms by (auto simp: db_inv_def)
    then show ?thesis
      by (simp add: c QSetEnabled generation_def committed_def set_global_enabled_def
          ensure_runtime_inv [OF assms] read_runtime_def Let_def)
  qed (use runtime_exec [OF assms, of now op] in \<open>simp_all add: c generation_def del: tq_exec.simps\<close>)
qed

lemma generation_run:
  "db_inv d \<Longrightarrow> generation (tq_run cs d) = generation d + int (length (filter switches cs))"
  by (induction cs arbitrary: d) (simp_all add: generation_exec tq_exec_inv del: tq_exec.simps)

text \<open>Turning the global switch revokes every decision taken before it: once it has been set,
  on or off, a claim made with a generation read earlier gets nothing, whatever happened in
  between.\<close>

theorem switch_revokes_stale_claims:
  assumes "d = tq_run cs0 (db_initial t)" and "list_ex switches cs" and "d2 = tq_run cs d"
  shows "claim_next uuid sid (generation d) now d2 = Inr (d2, None)"
proof -
  have inv: "db_inv d" unfolding assms(1) by (rule tq_reachable_inv)
  then obtain rt where rt: "db_runtime d2 = Some rt"
    using tq_run_inv [OF inv, of cs] assms(3) by (auto simp: db_inv_def)
  have "filter switches cs \<noteq> []" using assms(2) by (auto simp: list_ex_iff filter_empty_conv)
  then have "generation d2 \<noteq> generation d" using generation_run [OF inv, of cs] assms(3) by simp
  with rt show ?thesis by (simp add: claim_next_def read_runtime_def generation_def)
qed

theorem switch_revokes_stale_claims_witness:
  "\<exists>d2. claim_next ''t'' ''s'' (generation (db_initial 0)) 5 d2 = Inr (d2, None)"
  using switch_revokes_stale_claims [of "db_initial 0" "[]" 0 "[(1, QSetEnabled True)]" _ "''t''" "''s''" 5]
  by auto

subsection \<open>Permissions\<close>

definition decided :: "db \<Rightarrow> string \<Rightarrow> string \<Rightarrow> string option" where
  "decided d sid tool = map_of (db_decisions d) (sid, tool)"

lemma decisions_frame [frame]:
  "db_decisions (ensure_runtime now d) = db_decisions d"
  "db_decisions (ensure_queue sid now d) = db_decisions d"
  "db_decisions (update_queue sid P f d) = db_decisions d"
  "db_decisions (update_items P2 f2 d) = db_decisions d"
  "db_decisions (delete_items P2 d) = db_decisions d"
  "db_decisions (bump_queue_revision sid now d) = db_decisions d"
  "db_decisions (shift_after sid pos now d) = db_decisions d"
  by (simp_all add: ensure_runtime_def ensure_queue_def update_queue_def update_items_def
      delete_items_def bump_queue_revision_def shift_after_def split: option.split)

lemma commit_decisions:
  "db_decisions d1 = db_decisions d \<Longrightarrow> db_decisions (committed d (commit_snapshot sid d1)) = db_decisions d"
  by (simp add: committed_def commit_snapshot_def split: sum.split)

lemma decided_upsert:
  "decided d sid' tool' = Some fp' \<Longrightarrow>
    decided (fst (upsert_permission_decision sid tool fp d)) sid' tool' = Some fp'"
  by (simp add: decided_def upsert_permission_decision_def map_add_def split: option.split)

lemma decisions_exec:
  assumes "case op of QDecide _ _ _ \<Rightarrow> False | QDecideIf _ _ _ \<Rightarrow> False | _ \<Rightarrow> True"
  shows "db_decisions (tq_exec (now, op) d) = db_decisions d"
proof (cases op)
  case (QAdd uuid sid dr)
  have "db_decisions (committed d (add_item uuid sid dr now d)) = db_decisions d"
    by (simp add: add_item_def Let_def committed_def commit_snapshot_def frame split: sum.split)
  with QAdd show ?thesis by simp
next
  case (QDelete sid iid)
  have "db_decisions (committed d (delete_item sid iid now d)) = db_decisions d"
    by (simp add: delete_item_def Let_def committed_def commit_snapshot_def frame split: sum.split option.split)
  with QDelete show ?thesis by simp
next
  case (QControl sid p)
  have "db_decisions (committed d (update_control sid p now d)) = db_decisions d"
    by (simp add: update_control_def Let_def committed_def commit_snapshot_def frame split: sum.split option.split)
  with QControl show ?thesis by simp
next
  case (QClaim uuid sid gen)
  have "db_decisions (committed d (claim_next uuid sid gen now d)) = db_decisions d"
    by (simp add: claim_next_def Let_def committed_def frame split: sum.split option.split)
  with QClaim show ?thesis by simp
next
  case (QSetEnabled b)
  have "db_decisions (committed d (set_global_enabled b now d)) = db_decisions d"
    by (simp add: set_global_enabled_def Let_def committed_def frame split: sum.split)
  with QSetEnabled show ?thesis by simp
next
  case (QFinish sid iid tk st c m)
  have "db_decisions (committed d (finish_claim sid iid tk st c m now d)) = db_decisions d"
    by (simp add: finish_claim_def Let_def committed_def frame split: prod.split)
  with QFinish show ?thesis by simp
next
  case (QComplete sid iid tk)
  have "db_decisions (committed d (complete_claim sid iid tk now d)) = db_decisions d"
    by (simp add: complete_claim_def Let_def committed_def frame split: option.split)
  with QComplete show ?thesis by simp
next
  case QRecover
  have "db_decisions (committed d (recover_inflight now d)) = db_decisions d"
    by (simp add: recover_inflight_def Let_def committed_def frame)
  with QRecover show ?thesis by simp
qed (use assms in \<open>simp_all add: get_snapshot_def clear_queue_def retry_item_def set_runtime_status_def
    Let_def commit_decisions frame\<close>, (simp_all add: committed_def commit_snapshot_def frame split: sum.split)?)

lemma decided_exec:
  assumes "decided d sid tool = Some fp"
  shows "decided (tq_exec (now, op) d) sid tool = Some fp"
proof (cases op)
  case (QDecide s t f)
  have "decided (fst (upsert_permission_decision s t f (ensure_queue s now d))) sid tool = Some fp"
    by (rule decided_upsert) (use assms in \<open>simp add: decided_def frame\<close>)
  with QDecide assms show ?thesis
    by (cases "upsert_permission_decision s t f (ensure_queue s now d)")
      (simp add: record_permission_decision_def committed_def)
next
  case (QDecideIf s t f)
  have "decided (fst (upsert_permission_decision s t f d)) sid tool = Some fp"
    by (rule decided_upsert) (rule assms)
  with QDecideIf assms show ?thesis
    by (cases "upsert_permission_decision s t f d")
      (simp add: record_permission_decision_if_eligible_def committed_def Let_def)
qed (use assms decisions_exec [of op now d] in \<open>simp_all add: decided_def del: tq_exec.simps\<close>)

lemma decided_run: "decided d sid tool = Some fp \<Longrightarrow> decided (tq_run cs d) sid tool = Some fp"
proof (induction cs arbitrary: d)
  case (Cons c cs)
  then show ?case using decided_exec [of d sid tool fp] by (cases c) (simp del: tq_exec.simps)
qed simp

text \<open>A permission covers one request only: once a permission has been recorded for a tool use,
  then after any calls a request with the same fingerprint is allowed as already decided, and
  one with another fingerprint is never allowed under it.\<close>

theorem permission_bound_to_request:
  assumes "record_permission_decision sid tool fp now d = Inr (d1, r)" and "de_decision r = Some ''allow''"
    and "record_permission_decision sid tool fp' now' (tq_run cs d1) = Inr (d2, r2)"
  shows "r2 = (if fp' = fp then \<lparr>de_status = Existing, de_decision = Some ''allow''\<rparr>
    else \<lparr>de_status = FingerprintMismatch, de_decision = None\<rparr>)"
proof -
  have "decided d1 sid tool = Some fp"
    using assms(1,2)
    by (auto simp: record_permission_decision_def upsert_permission_decision_def decided_def
        map_add_def split: if_splits option.splits)
  then have "decided (tq_run cs d1) sid tool = Some fp" by (rule decided_run)
  with assms(3) show ?thesis
    by (auto simp: record_permission_decision_def upsert_permission_decision_def decided_def frame
        split: if_splits option.splits)
qed

theorem permission_bound_to_request_witness:
  "\<exists>d1 d2 r2. record_permission_decision ''s'' ''u'' ''y'' 2 d1 = Inr (d2, r2) \<and> de_decision r2 = None"
proof -
  have ne: "trim ''u'' \<noteq> []" "trim ''x'' \<noteq> []" "trim ''y'' \<noteq> []"
    by (simp_all add: trim_def trim_start.simps trim_end.simps ws_at_front_def ws_at_end_def
        unicode_ws_def suffix_def)
  obtain d1 where 1: "record_permission_decision ''s'' ''u'' ''x'' 1 (db_initial 0) =
      Inr (d1, \<lparr>de_status = Inserted, de_decision = Some ''allow''\<rparr>)"
    using ne by (auto simp: record_permission_decision_def validate_permission_decision_key_def
        upsert_permission_decision_def db_initial_def ensure_queue_def queue_of_def)
  obtain d2 r2 where 2: "record_permission_decision ''s'' ''u'' ''y'' 2 (tq_run [] d1) = Inr (d2, r2)"
    using ne by (cases "upsert_permission_decision ''s'' ''u'' ''y'' (ensure_queue ''s'' 2 d1)")
      (auto simp: record_permission_decision_def validate_permission_decision_key_def)
  from permission_bound_to_request [OF 1 _ 2] have "de_decision r2 = None" by simp
  with 2 show ?thesis unfolding tq_run_simps by blast
qed

end
