(* ===== verification/Queue_Refinement.thy ===== *)
theory Queue_Refinement
  imports Queue_Properties
begin

text \<open>
  The task queues as their user thinks of them, and the proof that the transactions of
  \<open>Task_Queue\<close> are exactly these: a list of tasks for each session, the token of the task that
  is being sent, and the two switches. There are no positions, no revisions and no rows of
  other sessions; every call is a partial change of this state, and a call that the
  repository refuses changes nothing.
\<close>

record fifo =
  ff_tasks :: "string \<Rightarrow> (string \<times> string \<times> item_state) list"
  ff_sending :: "string \<Rightarrow> string option"
  ff_paused :: "string \<Rightarrow> bool"
  ff_enabled :: bool
  ff_generation :: int

definition known_ids :: "fifo \<Rightarrow> string set" where
  "known_ids a = (\<Union>s. fst ` set (ff_tasks a s))"

definition acceptable :: "item_draft \<Rightarrow> bool" where
  "acceptable dr \<longleftrightarrow> (trim (dr_text dr) \<noteq> [] \<or> dr_images dr \<noteq> [])
     \<and> length (trim (dr_text dr)) \<le> 65536 \<and> length (dr_images dr) \<le> 10
     \<and> (\<forall>v \<in> set (dr_images dr). trim v \<noteq> [])"

definition retry_head :: "string \<Rightarrow> (string \<times> string \<times> item_state) list \<Rightarrow> (string \<times> string \<times> item_state) list"
where
  "retry_head iid ts =
     (case ts of (i, t, st) # rest \<Rightarrow>
        if i = iid \<and> (st = Failed \<or> st = DeliveryUnknown) then (i, t, Queued) # rest else ts
      | [] \<Rightarrow> ts)"

definition head_is :: "(string \<times> string \<times> item_state) list \<Rightarrow> string \<Rightarrow> bool" where
  "head_is ts iid \<longleftrightarrow> ts \<noteq> [] \<and> fst (hd ts) = iid"

definition set_head :: "item_state \<Rightarrow> (string \<times> string \<times> item_state) list \<Rightarrow> (string \<times> string \<times> item_state) list"
where
  "set_head st ts = (case ts of (i, t, _) # rest \<Rightarrow> (i, t, st) # rest | [] \<Rightarrow> [])"

text \<open>A new task joins at the end; only a task that is not being sent can be deleted; a claim
  takes the first task, and only the holder of its token ends it.\<close>

fun fifo_step :: "tq_op \<Rightarrow> fifo \<Rightarrow> fifo" where
  "fifo_step (QSetEnabled b) a = a\<lparr>ff_enabled := b, ff_generation := ff_generation a + 1\<rparr>"
| "fifo_step (QAdd uuid s dr) a =
     (if acceptable dr \<and> length (ff_tasks a s) < 100 \<and> uuid \<notin> known_ids a
      then a\<lparr>ff_tasks := (ff_tasks a)(s := ff_tasks a s @ [(uuid, trim (dr_text dr), Queued)])\<rparr>
      else a)"
| "fifo_step (QDelete s iid) a =
     a\<lparr>ff_tasks := (ff_tasks a)(s :=
         filter (\<lambda>(i, _, st). \<not> (i = iid \<and> st \<noteq> ItemDispatching)) (ff_tasks a s))\<rparr>"
| "fifo_step (QClear s) a =
     a\<lparr>ff_tasks := (ff_tasks a)(s := filter (\<lambda>(_, _, st). st = ItemDispatching) (ff_tasks a s))\<rparr>"
| "fifo_step (QControl s p) a =
     (case cp_paused p of Some b \<Rightarrow> a\<lparr>ff_paused := (ff_paused a)(s := b)\<rparr> | None \<Rightarrow> a)"
| "fifo_step (QRetry s iid) a =
     a\<lparr>ff_tasks := (ff_tasks a)(s := retry_head iid (ff_tasks a s))\<rparr>"
| "fifo_step (QClaim uuid s gen) a =
     (if ff_enabled a \<and> ff_generation a = gen \<and> \<not> ff_paused a s \<and> ff_sending a s = None
         \<and> ff_tasks a s \<noteq> [] \<and> snd (snd (hd (ff_tasks a s))) = Queued
      then a\<lparr>ff_tasks := (ff_tasks a)(s := set_head ItemDispatching (ff_tasks a s)),
             ff_sending := (ff_sending a)(s \<mapsto> uuid)\<rparr>
      else a)"
| "fifo_step (QComplete s iid tk) a =
     (if ff_sending a s = Some tk \<and> head_is (ff_tasks a s) iid
      then a\<lparr>ff_tasks := (ff_tasks a)(s := tl (ff_tasks a s)), ff_sending := (ff_sending a)(s := None)\<rparr>
      else a)"
| "fifo_step (QFinish s iid tk st c m) a =
     (if ff_sending a s = Some tk \<and> head_is (ff_tasks a s) iid \<and> st \<noteq> ItemDispatching
      then a\<lparr>ff_tasks := (ff_tasks a)(s := set_head st (ff_tasks a s)),
             ff_sending := (ff_sending a)(s := None)\<rparr>
      else a)"
| "fifo_step QRecover a =
     a\<lparr>ff_tasks := (\<lambda>s. map (\<lambda>(i, t, st). (i, t, if st = ItemDispatching then DeliveryUnknown else st))
         (ff_tasks a s)),
       ff_sending := (\<lambda>_. None)\<rparr>"
| "fifo_step (QSnapshot s) a = a"
| "fifo_step (QStatus s st r) a = a"
| "fifo_step (QDecide s t f) a = a"
| "fifo_step (QDecideIf s t f) a = a"

text \<open>What of the tables the user sees.\<close>

definition task_of :: "item_row \<Rightarrow> string \<times> string \<times> item_state" where
  "task_of i = (ir_id i, ir_text i, ir_state i)"

definition paused_of :: "db \<Rightarrow> string \<Rightarrow> bool" where
  "paused_of d s = (case queue_of d s of Some q \<Rightarrow> qr_paused q | None \<Rightarrow> False)"

definition fifo_of :: "db \<Rightarrow> fifo" where
  "fifo_of d =
     \<lparr>ff_tasks = (\<lambda>s. map task_of (rows_of d s)), ff_sending = active_token d,
      ff_paused = paused_of d,
      ff_enabled = (case db_runtime d of Some r \<Rightarrow> rt_enabled r | None \<Rightarrow> False),
      ff_generation = (case db_runtime d of Some r \<Rightarrow> rt_generation r | None \<Rightarrow> 0)\<rparr>"

lemma fifo_of_simps [simp]:
  "ff_tasks (fifo_of d) s = map task_of (rows_of d s)"
  "ff_sending (fifo_of d) = active_token d"
  "ff_paused (fifo_of d) = paused_of d"
  by (simp_all add: fifo_of_def)

lemma task_of_simps [simp]:
  "fst (task_of i) = ir_id i" "snd (snd (task_of i)) = ir_state i"
  by (simp_all add: task_of_def)

subsection \<open>The pause switch\<close>

lemma paused_update:
  "(\<And>q. qr_paused (f q) = qr_paused q) \<Longrightarrow> paused_of (update_queue sid P f d) s = paused_of d s"
  by (simp add: paused_of_def queue_of_update_queue split: option.split)

lemma paused_frame [frame]:
  "paused_of (ensure_queue sid now d) s = paused_of d s"
  "paused_of (ensure_runtime now d) s = paused_of d s"
  "paused_of (update_items P2 f2 d) s = paused_of d s"
  "paused_of (delete_items P2 d) s = paused_of d s"
  "paused_of (bump_queue_revision sid now d) s = paused_of d s"
  "paused_of (shift_after sid pos now d) s = paused_of d s"
  "paused_of (d\<lparr>db_items := its\<rparr>) s = paused_of d s"
  "paused_of (update_queue sid P (reset_queue now) d) s = paused_of d s"
proof -
  show "paused_of (ensure_queue sid now d) s = paused_of d s"
    by (auto simp: paused_of_def ensure_queue_frame(4) fresh_queue_def split: option.split)
  show "paused_of (update_items P2 f2 d) s = paused_of d s" "paused_of (delete_items P2 d) s = paused_of d s"
    "paused_of (d\<lparr>db_items := its\<rparr>) s = paused_of d s" "paused_of (shift_after sid pos now d) s = paused_of d s"
    by (simp_all add: paused_of_def frame shift_after_def)
  show "paused_of (ensure_runtime now d) s = paused_of d s"
    by (simp add: paused_of_def ensure_runtime_def queue_of_def split: option.split)
qed (simp_all add: bump_queue_revision_def paused_update reset_queue_def)

lemma paused_commit:
  "paused_of d1 s = paused_of d s \<Longrightarrow> paused_of (committed d (commit_snapshot sid d1)) s = paused_of d s"
  by (simp add: committed_def commit_snapshot_def split: sum.split)

lemma paused_decision:
  "paused_of (fst (upsert_permission_decision sid tool fp d)) s = paused_of d s"
  by (simp add: upsert_permission_decision_def paused_of_def queue_of_def split: option.split)

lemma paused_exec:
  assumes "case op of QControl _ _ \<Rightarrow> False | _ \<Rightarrow> True"
  shows "paused_of (tq_exec (now, op) d) s = paused_of d s"
proof (cases op)
  case (QSetEnabled b)
  then show ?thesis
    by (simp add: set_global_enabled_def Let_def committed_def paused_of_def queue_of_def
        ensure_runtime_def split: sum.split option.split)
next
  case (QAdd uuid sid dr)
  then show ?thesis
    by (simp add: add_item_def Let_def committed_def commit_snapshot_def frame split: sum.split)
next
  case (QDelete sid iid)
  then show ?thesis
    by (simp add: delete_item_def Let_def committed_def commit_snapshot_def frame split: sum.split option.split)
next
  case (QStatus sid st r)
  have "paused_of (committed d (set_runtime_status sid st r now d)) s = paused_of d s"
    unfolding set_runtime_status_def Let_def
    by (simp add: committed_def commit_snapshot_def paused_update frame split: sum.split)
  with QStatus show ?thesis by simp
next
  case (QClaim uuid sid gen)
  then show ?thesis
    by (simp add: claim_next_def Let_def committed_def frame paused_update split: sum.split option.split)
next
  case (QFinish sid iid tk st c m)
  then show ?thesis
    by (simp add: finish_claim_def Let_def committed_def frame paused_update split: prod.split)
next
  case (QComplete sid iid tk)
  then show ?thesis
    by (simp add: complete_claim_def Let_def committed_def frame paused_update split: option.split)
next
  case QRecover
  have m: "map_of (map (\<lambda>(k, q). (k, if p k q then g q else q)) qs) s =
      map_option (\<lambda>q. if p s q then g q else q) (map_of qs s)" for p g and qs :: "(string \<times> queue_row) list"
    by (induction qs) auto
  show ?thesis
    by (simp add: QRecover recover_inflight_def Let_def committed_def frame)
      (simp add: paused_of_def queue_of_def m split: option.split)
next
  case (QDecide sid t f)
  then show ?thesis
    by (simp add: record_permission_decision_def committed_def paused_decision frame
        split: prod.split) (metis fst_conv paused_decision paused_frame(1))
next
  case (QDecideIf sid t f)
  then show ?thesis
    by (simp add: record_permission_decision_if_eligible_def committed_def Let_def
        split: prod.split) (metis fst_conv paused_decision)
qed (use assms in \<open>simp_all add: get_snapshot_def clear_queue_def retry_item_def Let_def
    paused_commit frame\<close>, (simp_all add: committed_def commit_snapshot_def frame split: sum.split)?)

lemma commit_exists:
  "db_runtime x \<noteq> None \<Longrightarrow> queue_of x sid \<noteq> None \<Longrightarrow> \<exists>sn. commit_snapshot sid x = Inr (x, sn)"
  by (auto simp: commit_snapshot_def read_snapshot_def read_runtime_def Let_def split: prod.split)

lemma paused_control:
  assumes "db_inv d"
  shows "paused_of (tq_exec (now, QControl sid p) d) s =
    (case cp_paused p of Some b \<Rightarrow> if s = sid then b else paused_of d s | None \<Rightarrow> paused_of d s)"
proof (cases "cp_paused p = None \<and> cp_unattended p = None")
  case True
  then show ?thesis by (simp add: update_control_def patch_validate_def committed_def)
next
  case False
  let ?d1 = "ensure_queue sid now d"
  let ?d2 = "case cp_paused p of None \<Rightarrow> ?d1
    | Some b \<Rightarrow> update_queue sid (\<lambda>_. True) (\<lambda>q. q\<lparr>qr_paused := b, qr_updated := now\<rparr>) ?d1"
  let ?d3 = "case cp_unattended p of None \<Rightarrow> ?d2
    | Some b \<Rightarrow> update_queue sid (\<lambda>_. True) (\<lambda>q. q\<lparr>qr_unattended := b, qr_updated := now\<rparr>) ?d2"
  let ?d4 = "bump_queue_revision sid now ?d3"
  have rt: "db_runtime ?d4 \<noteq> None"
    using assms by (simp add: db_inv_def frame split: option.split)
  have q: "queue_of ?d4 sid \<noteq> None"
    by (simp add: bump_queue_revision_def queue_of_update_queue ensure_queue_frame(4) split: option.split)
  obtain sn where "commit_snapshot sid ?d4 = Inr (?d4, sn)" using commit_exists [OF rt q] by blast
  moreover have "patch_validate p = Inr ()" using False by (auto simp: patch_validate_def)
  then have "update_control sid p now d = commit_snapshot sid ?d4"
    unfolding update_control_def Let_def by (simp only: sum.case)
  ultimately have e: "tq_exec (now, QControl sid p) d = ?d4"
    by (simp only: tq_exec.simps committed_def sum.case prod.case)
  have un: "paused_of (update_queue sid (\<lambda>_. True) (\<lambda>q. q\<lparr>qr_unattended := b, qr_updated := now\<rparr>) x) s
    = paused_of x s" for b x by (rule paused_update) simp
  have pa: "paused_of (update_queue sid (\<lambda>_. True) (\<lambda>q. q\<lparr>qr_paused := b, qr_updated := now\<rparr>) ?d1) s
    = (if s = sid then b else paused_of d s)" for b
    by (simp add: paused_of_def queue_of_update_queue ensure_queue_frame(4) split: option.split)
  have "paused_of ?d3 s = paused_of ?d2 s" by (simp add: un split: option.split)
  moreover have "paused_of ?d2 s =
      (case cp_paused p of Some b \<Rightarrow> if s = sid then b else paused_of d s | None \<Rightarrow> paused_of d s)"
    by (simp only: pa paused_frame(1) split: option.split) simp
  ultimately show ?thesis unfolding e by (simp add: frame)
qed

subsection \<open>Each call is its abstract step\<close>

lemma known_ids_of: "known_ids (fifo_of d) = ir_id ` set (db_items d)"
  by (auto simp: known_ids_def rows_of_def image_iff)

lemma fifo_of_eq:
  assumes "\<And>s. map task_of (rows_of d' s) = T s" and "\<And>s. active_token d' s = A s"
    and "\<And>s. paused_of d' s = paused_of d s" and "db_runtime d' = db_runtime d"
  shows "fifo_of d' = (fifo_of d)\<lparr>ff_tasks := T, ff_sending := A\<rparr>"
  using assms by (simp add: fifo_of_def fun_eq_iff)

lemma fifo_same: "(fifo_of d)\<lparr>ff_tasks := \<lambda>s. map task_of (rows_of d s), ff_sending := active_token d\<rparr> = fifo_of d"
  by (simp add: fifo_of_def)

lemma draft_acceptable:
  "acceptable dr \<longleftrightarrow> (\<exists>x. draft_validated dr = Inr x)"
  by (auto simp: acceptable_def draft_validated_def Let_def TASK_QUEUE_MAX_TEXT_BYTES_def
      TASK_QUEUE_MAX_IMAGE_REFS_def list_ex_iff)

lemma draft_text: "draft_validated dr = Inr x \<Longrightarrow> dr_text x = trim (dr_text dr)"
  by (auto simp: draft_validated_def Let_def split: if_splits)

lemma fifo_add:
  assumes inv: "db_inv d"
  shows "fifo_of (tq_exec (now, QAdd uuid sid dr) d) = fifo_step (QAdd uuid sid dr) (fifo_of d)"
proof (cases "acceptable dr \<and> length (rows_of d sid) < 100 \<and> uuid \<notin> ir_id ` set (db_items d)")
  case True
  let ?e = "ensure_queue sid now d"
  obtain x where x: "draft_validated dr = Inr x" using True draft_acceptable by blast
  have "\<exists>d' sn. add_item uuid sid dr now d = Inr (d', sn)"
  proof -
    let ?row = "\<lparr>ir_id = uuid, ir_session = sid,
        ir_position = next_position (rows_of ?e sid), ir_text = dr_text x,
        ir_images = dr_images x, ir_state = Queued, ir_token = None,
        ir_error_code = None, ir_error_message = None, ir_created = now, ir_updated = now\<rparr>"
    let ?y = "bump_queue_revision sid now (?e\<lparr>db_items := db_items ?e @ [?row]\<rparr>)"
    have "db_runtime ?y \<noteq> None" using inv by (simp add: frame db_inv_def)
    moreover have "queue_of ?y sid \<noteq> None"
      by (simp add: bump_queue_revision_def queue_of_update_queue ensure_queue_frame(4))
    ultimately obtain sn where "commit_snapshot sid ?y = Inr (?y, sn)" using commit_exists by blast
    with True x show ?thesis
      by (simp add: add_item_def ensure_runtime_inv [OF inv] Let_def ensure_queue_frame(1,2))
  qed
  then obtain d' sn where r: "add_item uuid sid dr now d = Inr (d', sn)" by blast
  then have e: "tq_exec (now, QAdd uuid sid dr) d = d'" by (simp add: committed_def)
  have p: "paused_of d' s = paused_of d s" for s
    using paused_exec [of "QAdd uuid sid dr" now d s] e by simp
  show ?thesis unfolding e
  proof (rule add_item_effect [OF inv r], goal_cases)
    case (1 row dr')
    then have "fifo_of d' = (fifo_of d)\<lparr>ff_tasks := (ff_tasks (fifo_of d))
        (sid := ff_tasks (fifo_of d) sid @ [(uuid, trim (dr_text dr), Queued)]), ff_sending := active_token d\<rparr>"
      using p draft_text by (intro fifo_of_eq) (simp_all add: task_of_def)
    with True show ?case by (simp add: known_ids_of)
  qed
next
  case False
  have "\<exists>e. add_item uuid sid dr now d = Inl e"
  proof (cases "draft_validated dr")
    case (Inr x)
    with False draft_acceptable show ?thesis
      by (auto simp: add_item_def ensure_runtime_inv [OF inv] Let_def ensure_queue_frame(1,2))
  qed (simp add: add_item_def)
  then have "tq_exec (now, QAdd uuid sid dr) d = d" by (auto simp: committed_def)
  moreover have "fifo_step (QAdd uuid sid dr) (fifo_of d) = fifo_of d"
    using False by (auto simp: known_ids_of)
  ultimately show ?thesis by simp
qed

lemma fifo_quiet:
  assumes "undisturbed d (tq_exec (now, op) d)" and "\<not> switches (now, op)" and "db_inv d"
    and "case op of QControl _ _ \<Rightarrow> False | _ \<Rightarrow> True"
  shows "fifo_of (tq_exec (now, op) d) = fifo_of d"
proof -
  have "fifo_of (tq_exec (now, op) d)
      = (fifo_of d)\<lparr>ff_tasks := \<lambda>s. map task_of (rows_of d s), ff_sending := active_token d\<rparr>"
    using assms(1) runtime_exec [OF assms(3,2)] paused_exec [OF assms(4)]
    by (intro fifo_of_eq) (simp_all add: undisturbed_def del: tq_exec.simps)
  then show ?thesis unfolding fifo_same .
qed

text \<open>The rows of one session change and the token of this session may.\<close>

lemma fifo_change:
  assumes "db_inv d" and "\<not> switches (now, op)" and "case op of QControl _ _ \<Rightarrow> False | _ \<Rightarrow> True"
    and "\<And>s. rows_of (tq_exec (now, op) d) s = (if s = sid then its else rows_of d s)"
    and "\<And>s. active_token (tq_exec (now, op) d) s = (if s = sid then tk else active_token d s)"
  shows "fifo_of (tq_exec (now, op) d) = (fifo_of d)\<lparr>ff_tasks := (ff_tasks (fifo_of d))(sid := map task_of its),
    ff_sending := (active_token d)(sid := tk)\<rparr>"
  using assms(4,5) runtime_exec [OF assms(1,2)] paused_exec [OF assms(3)]
  by (intro fifo_of_eq) (simp_all del: tq_exec.simps)

lemma task_of_shift [simp]: "task_of (shift_row now i) = task_of i"
  by (simp add: task_of_def shift_row_def)

lemma fifo_delete:
  assumes inv: "db_inv d"
  shows "fifo_of (tq_exec (now, QDelete sid iid) d) = fifo_step (QDelete sid iid) (fifo_of d)"
proof (cases "\<exists>row \<in> set (rows_of d sid). ir_id row = iid \<and> ir_state row \<noteq> ItemDispatching")
  case True
  then obtain row0 where row0: "row0 \<in> set (rows_of d sid)" "ir_id row0 = iid" "ir_state row0 \<noteq> ItemDispatching"
    by blast
  let ?e = "ensure_queue sid now d"
  have "find (is_item sid iid) (db_items d) = Some row0"
  proof -
    have "is_item sid iid row0" "row0 \<in> set (db_items d)" using row0 by (auto simp: is_item_def rows_of_def)
    then obtain r where r: "find (is_item sid iid) (db_items d) = Some r"
      by (cases "find (is_item sid iid) (db_items d)") (auto simp: find_None_iff)
    then have "is_item sid iid r" "r \<in> set (db_items d)" by (auto simp: find_Some_iff)
    then have "r = row0" using inv row0 \<open>row0 \<in> set (db_items d)\<close>
      by (auto simp: db_inv_def is_item_def distinct_map dest: inj_onD)
    with r show ?thesis by simp
  qed
  moreover have "\<exists>sn. commit_snapshot sid (bump_queue_revision sid now (shift_after sid (ir_position row0) now
      (delete_items (is_item sid iid) ?e))) = Inr (bump_queue_revision sid now (shift_after sid (ir_position row0) now
      (delete_items (is_item sid iid) ?e)), sn)"
    using inv by (intro commit_exists)
      (simp_all add: frame db_inv_def shift_after_def bump_queue_revision_def queue_of_update_queue)
  ultimately obtain d' sn where r: "delete_item sid iid now d = Inr (d', sn)"
    using row0(3) by (auto simp: delete_item_def Let_def ensure_queue_frame(2))
  then have e: "tq_exec (now, QDelete sid iid) d = d'" by (simp add: committed_def)
  show ?thesis
  proof (rule delete_item_effect [OF inv r], goal_cases)
    case (1 xs row ys)
    have ids: "distinct (map ir_id (xs @ row # ys))" using ids_distinct [OF inv, of sid] 1(1) by simp
    have "fifo_of (tq_exec (now, QDelete sid iid) d) =
      (fifo_of d)\<lparr>ff_tasks := (ff_tasks (fifo_of d))(sid := map task_of (xs @ map (shift_row now) ys)),
        ff_sending := (active_token d)(sid := active_token d sid)\<rparr>"
      by (rule fifo_change [OF inv]) (simp_all add: e 1 del: tq_exec.simps)
    moreover have "filter (\<lambda>(i, _, st). \<not> (i = iid \<and> st \<noteq> ItemDispatching)) (map task_of (rows_of d sid))
        = map task_of (xs @ map (shift_row now) ys)"
    proof -
      have "filter (\<lambda>(i, _, st). \<not> (i = iid \<and> st \<noteq> ItemDispatching)) (map task_of zs) = map task_of zs"
        if "iid \<notin> ir_id ` set zs" for zs
        using that by (intro filter_True) (auto simp: task_of_def)
      moreover have "iid \<notin> ir_id ` set xs" "iid \<notin> ir_id ` set ys" using ids 1(2) by auto
      moreover have "\<not> (case task_of row of (i, _, st) \<Rightarrow> \<not> (i = iid \<and> st \<noteq> ItemDispatching))"
        using 1(2,3) by (simp add: task_of_def)
      ultimately show ?thesis unfolding 1(1) by (simp add: comp_def)
    qed
    ultimately show ?case by (simp add: fifo_of_def)
  qed
next
  case False
  have "\<exists>e. delete_item sid iid now d = Inl e"
  proof (cases "find (is_item sid iid) (db_items d)")
    case (Some r)
    then have "is_item sid iid r" "r \<in> set (db_items d)" by (auto simp: find_Some_iff)
    with False Some show ?thesis
      by (auto simp: delete_item_def Let_def ensure_queue_frame(2) is_item_def rows_of_def)
  qed (simp add: delete_item_def Let_def ensure_queue_frame(2))
  then have "tq_exec (now, QDelete sid iid) d = d" by (auto simp: committed_def)
  moreover have "filter (\<lambda>(i, _, st). \<not> (i = iid \<and> st \<noteq> ItemDispatching)) (map task_of (rows_of d sid))
      = map task_of (rows_of d sid)"
    using False by (intro filter_True) (auto simp: task_of_def)
  ultimately show ?thesis by (simp add: fifo_of_def fun_eq_iff)
qed

lemma takeWhile_dispatching:
  assumes "rows_ok its"
  shows "takeWhile (\<lambda>i. ir_state i = ItemDispatching) its = filter (\<lambda>i. ir_state i = ItemDispatching) its"
proof (cases its)
  case (Cons i r)
  then have "filter (\<lambda>i. ir_state i = ItemDispatching) r = []" "takeWhile (\<lambda>i. ir_state i = ItemDispatching) r = []"
    using assms by (auto simp: rows_ok_def list_all_iff filter_empty_conv takeWhile_eq_Nil_iff)
  with Cons show ?thesis by simp
qed simp

lemma fifo_clear:
  assumes inv: "db_inv d"
  shows "fifo_of (tq_exec (now, QClear sid) d) = fifo_step (QClear sid) (fifo_of d)"
proof -
  let ?e = "ensure_queue sid now d"
  have "\<exists>d' sn. clear_queue sid now d = Inr (d', sn)"
  proof -
    let ?y = "update_queue sid (\<lambda>q. qr_token q = None) (reset_queue now)
      (delete_items (\<lambda>i. ir_session i = sid \<and> ir_state i \<noteq> ItemDispatching) ?e)"
    have "db_runtime ?y \<noteq> None" "queue_of ?y sid \<noteq> None"
      using inv by (simp_all add: frame db_inv_def queue_of_update_queue)
    then show ?thesis unfolding clear_queue_def Let_def using commit_exists [of ?y sid] by blast
  qed
  then obtain d' sn where r: "clear_queue sid now d = Inr (d', sn)" by blast
  then have e: "tq_exec (now, QClear sid) d = d'" by (simp add: committed_def)
  have "fifo_of (tq_exec (now, QClear sid) d) = (fifo_of d)\<lparr>ff_tasks := (ff_tasks (fifo_of d))(sid :=
      map task_of (filter (\<lambda>i. ir_state i = ItemDispatching) (rows_of d sid))),
      ff_sending := (active_token d)(sid := active_token d sid)\<rparr>"
    using clear_queue_effect [OF inv r] takeWhile_dispatching [OF db_inv_rows [OF inv, of sid]]
    by (intro fifo_change [OF inv]) (simp_all add: e del: tq_exec.simps)
  then show ?thesis by (simp add: fifo_of_def filter_map comp_def task_of_def)
qed

lemma fifo_retry:
  assumes inv: "db_inv d"
  shows "fifo_of (tq_exec (now, QRetry sid iid) d) = fifo_step (QRetry sid iid) (fifo_of d)"
proof (cases "\<exists>i its. rows_of d sid = i # its \<and> ir_id i = iid \<and> retryable i")
  case True
  let ?e = "ensure_queue sid now d"
  let ?hit = "\<lambda>i. is_item sid iid i \<and> retryable i"
  from True obtain i0 where "i0 \<in> set (rows_of d sid)" "ir_id i0 = iid" "retryable i0"
    by fastforce
  then have ex: "list_ex ?hit (db_items d)" by (auto simp: list_ex_iff is_item_def rows_of_def)
  let ?y = "update_queue sid (\<lambda>_. True) (reset_queue now)
    (update_items ?hit (\<lambda>i. i\<lparr>ir_state := Queued, ir_token := None,
                        ir_error_code := None, ir_error_message := None, ir_updated := now\<rparr>) ?e)"
  have "db_runtime ?y \<noteq> None" "queue_of ?y sid \<noteq> None"
    using inv by (simp_all add: frame db_inv_def queue_of_update_queue)
  then obtain sn where "commit_snapshot sid ?y = Inr (?y, sn)" using commit_exists by blast
  with ex obtain d' where r: "retry_item sid iid now d = Inr (d', sn)"
    by (simp add: retry_item_def Let_def ensure_queue_frame(2))
  then have e: "tq_exec (now, QRetry sid iid) d = d'" by (simp add: committed_def)
  show ?thesis
  proof (rule retry_item_effect [OF inv r], goal_cases)
    case (1 i its)
    have "fifo_of (tq_exec (now, QRetry sid iid) d) = (fifo_of d)\<lparr>ff_tasks := (ff_tasks (fifo_of d))(sid :=
        map task_of (i\<lparr>ir_state := Queued, ir_token := None, ir_error_code := None,
          ir_error_message := None, ir_updated := now\<rparr> # its)),
      ff_sending := (active_token d)(sid := active_token d sid)\<rparr>"
      by (rule fifo_change [OF inv]) (simp_all add: e 1 del: tq_exec.simps)
    with 1(1-3) show ?case
      by (simp add: retry_head_def task_of_def retryable_def)
  qed
next
  case False
  have no: "\<not> (is_item sid iid i \<and> retryable i)" if "i \<in> set (db_items d)" for i
  proof
    assume h: "is_item sid iid i \<and> retryable i"
    with that have i: "i \<in> set (rows_of d sid)" by (simp add: is_item_def rows_of_def)
    then obtain j its where js: "rows_of d sid = j # its" by (cases "rows_of d sid") auto
    have "i = j" using i js db_inv_rows [OF inv, of sid] h by (auto simp: rows_ok_def list_all_iff retryable_def)
    with False js h show False by (simp add: is_item_def)
  qed
  then have "\<exists>e. retry_item sid iid now d = Inl e"
    by (auto simp: retry_item_def Let_def ensure_queue_frame(2) list_ex_iff)
  then have "tq_exec (now, QRetry sid iid) d = d" by (auto simp: committed_def)
  moreover have "retry_head iid (map task_of (rows_of d sid)) = map task_of (rows_of d sid)"
    using False by (auto simp: retry_head_def task_of_def retryable_def split: list.split)
  ultimately show ?thesis by (simp add: fifo_of_def fun_eq_iff)
qed

lemma fifo_claim:
  assumes inv: "db_inv d"
  shows "fifo_of (tq_exec (now, QClaim uuid sid gen) d) = fifo_step (QClaim uuid sid gen) (fifo_of d)"
proof -
  obtain rt where rt: "db_runtime d = Some rt" using inv by (auto simp: db_inv_def)
  have guard: "(ff_enabled (fifo_of d) \<and> ff_generation (fifo_of d) = gen \<and> \<not> ff_paused (fifo_of d) sid
      \<and> ff_sending (fifo_of d) sid = None \<and> ff_tasks (fifo_of d) sid \<noteq> []
      \<and> snd (snd (hd (ff_tasks (fifo_of d) sid))) = Queued) = ready_to_send d sid gen"
  proof (cases "rows_of d sid")
    case (Cons i its)
    then obtain q where "queue_of d sid = Some q" using active_token_head(2) [OF inv Cons] by blast
    with Cons rt active_token_head(1) [OF inv Cons] show ?thesis
      by (auto simp: ready_to_send_def fifo_of_def paused_of_def)
  qed (simp add: ready_to_send_def)
  show ?thesis
  proof (cases "ready_to_send d sid gen")
    case True
    obtain d' c where r: "claim_next uuid sid gen now d = Inr (d', Some c)"
      using ready_claim [OF inv True] by metis
    then have e: "tq_exec (now, QClaim uuid sid gen) d = d'" by (simp add: committed_def)
    from claim_next_effect [OF inv r] obtain i its where i: "rows_of d sid = i # its"
      "\<And>s. rows_of d' s = (if s = sid then i\<lparr>ir_state := ItemDispatching, ir_token := Some uuid,
            ir_updated := now\<rparr> # its else rows_of d s)"
      "\<And>s. active_token d' s = (if s = sid then Some uuid else active_token d s)" by auto
    have "fifo_of (tq_exec (now, QClaim uuid sid gen) d) = (fifo_of d)\<lparr>ff_tasks := (ff_tasks (fifo_of d))(sid :=
        map task_of (i\<lparr>ir_state := ItemDispatching, ir_token := Some uuid, ir_updated := now\<rparr> # its)),
      ff_sending := (active_token d)(sid := Some uuid)\<rparr>"
      by (rule fifo_change [OF inv]) (simp_all add: e i del: tq_exec.simps)
    moreover have "fifo_step (QClaim uuid sid gen) (fifo_of d) = (fifo_of d)\<lparr>ff_tasks := (ff_tasks (fifo_of d))(sid :=
        set_head ItemDispatching (ff_tasks (fifo_of d) sid)), ff_sending := (active_token d)(sid \<mapsto> uuid)\<rparr>"
      using True guard unfolding fifo_step.simps by (simp del: fifo_of_simps(1))
    ultimately show ?thesis using i(1) by (simp add: set_head_def task_of_def)
  next
    case False
    have "\<exists>c. claim_next uuid sid gen now d = Inr (d, c)"
    proof (cases "claim_next uuid sid gen now d")
      case (Inl x)
      then show ?thesis using rt
        by (simp add: claim_next_def read_runtime_def Let_def split: if_splits option.splits)
    next
      case (Inr y)
      then obtain d' c where "claim_next uuid sid gen now d = Inr (d', c)" by (cases y) simp
      with claim_next_effect [OF inv this] claim_ready [OF inv, of uuid sid gen now d'] False
      show ?thesis by auto
    qed
    then have "tq_exec (now, QClaim uuid sid gen) d = d" by (auto simp: committed_def)
    with guard False show ?thesis unfolding fifo_step.simps by (simp only: if_False)
  qed
qed

lemma held_iff:
  assumes "db_inv d"
  shows "held d sid iid tk \<longleftrightarrow>
    ff_sending (fifo_of d) sid = Some tk \<and> head_is (ff_tasks (fifo_of d) sid) iid"
proof (cases "rows_of d sid")
  case (Cons i its)
  with active_token_head(1) [OF assms Cons] show ?thesis
    by (auto simp: held_def head_is_def split: if_splits)
qed (simp add: held_def head_is_def)

lemma fifo_complete:
  assumes inv: "db_inv d"
  shows "fifo_of (tq_exec (now, QComplete sid iid tk) d) = fifo_step (QComplete sid iid tk) (fifo_of d)"
proof (cases "held d sid iid tk")
  case True
  obtain d' where r: "complete_claim sid iid tk now d = Inr (d', True)"
    using held_completes [OF inv True] by blast
  then have e: "tq_exec (now, QComplete sid iid tk) d = d'" by (simp add: committed_def)
  from complete_claim_effect [OF inv r] obtain row ys where i: "rows_of d sid = row # ys"
      "\<And>s. rows_of d' s = (if s = sid then map (shift_row now) ys else rows_of d s)"
      "\<And>s. active_token d' s = (if s = sid then None else active_token d s)" by auto
  have "fifo_of (tq_exec (now, QComplete sid iid tk) d) = (fifo_of d)\<lparr>ff_tasks := (ff_tasks (fifo_of d))(sid :=
      map task_of (map (shift_row now) ys)), ff_sending := (active_token d)(sid := None)\<rparr>"
    by (rule fifo_change [OF inv]) (simp_all add: e i del: tq_exec.simps)
  with True i(1) show ?thesis unfolding held_iff [OF inv] by (simp add: comp_def)
next
  case False
  have "complete_claim sid iid tk now d = Inr (d, False)"
  proof -
    have "\<exists>d' b. complete_claim sid iid tk now d = Inr (d', b)"
      by (cases "if holds_claim d sid tk then find (claimed sid iid tk) (db_items d) else None")
        (auto simp: complete_claim_def Let_def)
    then obtain d' b where r: "complete_claim sid iid tk now d = Inr (d', b)" by blast
    have "\<not> b"
    proof
      assume b: b
      with complete_claim_effect [OF inv r] obtain row ys
        where "active_token d sid = Some tk" "rows_of d sid = row # ys" "ir_id row = iid" by auto
      with False show False unfolding held_iff [OF inv] by (simp add: head_is_def)
    qed
    with complete_claim_effect [OF inv r] r show ?thesis by auto
  qed
  then have "tq_exec (now, QComplete sid iid tk) d = d" by (simp add: committed_def)
  with False show ?thesis unfolding held_iff [OF inv] by auto
qed

lemma fifo_finish:
  assumes inv: "db_inv d"
  shows "fifo_of (tq_exec (now, QFinish sid iid tk st c m) d) = fifo_step (QFinish sid iid tk st c m) (fifo_of d)"
proof (cases "held d sid iid tk \<and> st \<noteq> ItemDispatching")
  case True
  then obtain i its where rows: "rows_of d sid = i # its" "ir_id i = iid" "ir_state i = ItemDispatching"
      "ir_token i = Some tk" and tok: "active_token d sid = Some tk" by (auto simp: held_def)
  have "i \<in> set (rows_of d sid)" using rows(1) by simp
  then have "list_ex (claimed sid iid tk) (db_items d)"
    using rows by (auto simp: list_ex_iff claimed_def is_item_def rows_of_def)
  then have "\<exists>d'. finish_claim sid iid tk st c m now d = Inr (d', True)"
    using tok True by (cases "finish_state st") (simp add: finish_claim_def Let_def holds_claim_iff frame)
  then obtain d' where r: "finish_claim sid iid tk st c m now d = Inr (d', True)" by blast
  then have e: "tq_exec (now, QFinish sid iid tk st c m) d = d'" by (simp add: committed_def)
  from finish_claim_effect [OF inv r] rows(1) have i:
      "\<And>s. rows_of d' s = (if s = sid then i\<lparr>ir_state := st, ir_token := None,
            ir_error_code := c, ir_error_message := m, ir_updated := now\<rparr> # its else rows_of d s)"
      "\<And>s. active_token d' s = (if s = sid then None else active_token d s)" by auto
  have "fifo_of (tq_exec (now, QFinish sid iid tk st c m) d) = (fifo_of d)\<lparr>ff_tasks := (ff_tasks (fifo_of d))(sid :=
      map task_of (i\<lparr>ir_state := st, ir_token := None,
            ir_error_code := c, ir_error_message := m, ir_updated := now\<rparr> # its)),
      ff_sending := (active_token d)(sid := None)\<rparr>"
    by (rule fifo_change [OF inv]) (simp_all add: e i del: tq_exec.simps)
  with True rows(1) show ?thesis unfolding held_iff [OF inv] by (simp add: set_head_def task_of_def)
next
  case False
  have "committed d (finish_claim sid iid tk st c m now d) = d"
  proof (rule committed_cases [where P = "\<lambda>x. x = d", OF refl])
    fix d' b assume r: "finish_claim sid iid tk st c m now d = Inr (d', b)"
    from finish_claim_effect [OF inv r] False show "d' = d"
      unfolding held_iff [OF inv] by (auto simp: head_is_def)
  qed
  then have "tq_exec (now, QFinish sid iid tk st c m) d = d" by simp
  with False show ?thesis unfolding held_iff [OF inv] by auto
qed

lemma fifo_recover:
  assumes inv: "db_inv d"
  shows "fifo_of (tq_exec (now, QRecover) d) = fifo_step QRecover (fifo_of d)"
proof -
  obtain d' n where r: "recover_inflight now d = Inr (d', n)" by (simp add: recover_inflight_def Let_def)
  then have e: "tq_exec (now, QRecover) d = d'" by (simp add: committed_def)
  note x = recover_inflight_effect [OF inv r]
  have "fifo_of d' = (fifo_of d)\<lparr>ff_tasks := \<lambda>s. map (\<lambda>(i, t, st). (i, t, if st = ItemDispatching
      then DeliveryUnknown else st)) (map task_of (rows_of d s)), ff_sending := \<lambda>_. None\<rparr>"
    using x paused_exec [of QRecover now d] unfolding e
    by (intro fifo_of_eq) (simp_all add: task_of_def)
  then show ?thesis unfolding e by simp
qed

lemma fifo_set_enabled:
  assumes inv: "db_inv d"
  shows "fifo_of (tq_exec (now, QSetEnabled b) d) = fifo_step (QSetEnabled b) (fifo_of d)"
proof -
  have p: "paused_of (tq_exec (now, QSetEnabled b) d) s = paused_of d s" for s by (rule paused_exec) simp
  show ?thesis
  proof (rule set_global_enabled_effect [OF inv, of b now], goal_cases)
    case (1 rt)
    then have e: "tq_exec (now, QSetEnabled b) d = d\<lparr>db_runtime := Some (rt\<lparr>rt_enabled := b,
        rt_generation := rt_generation rt + 1, rt_updated := now\<rparr>)\<rparr>" by (simp add: committed_def)
    with 1 p show ?case by (simp add: fifo_of_def fun_eq_iff undisturbed_def del: tq_exec.simps)
  qed
qed

lemma fifo_control:
  assumes inv: "db_inv d"
  shows "fifo_of (tq_exec (now, QControl sid p) d) = fifo_step (QControl sid p) (fifo_of d)"
proof -
  let ?e = "tq_exec (now, QControl sid p) d"
  have u: "undisturbed d ?e" by (rule quiet_exec' [OF inv]) simp
  have rt: "db_runtime ?e = db_runtime d" by (rule runtime_exec [OF inv]) simp
  have "fifo_of ?e = (fifo_of d)\<lparr>ff_paused := paused_of ?e\<rparr>"
    using u rt by (simp add: fifo_of_def fun_eq_iff undisturbed_def del: tq_exec.simps)
  moreover have "paused_of ?e = (case cp_paused p of Some b \<Rightarrow> (paused_of d)(sid := b) | None \<Rightarrow> paused_of d)"
    using paused_control [OF inv, of now sid p] by (auto simp: fun_eq_iff split: option.split)
  ultimately show ?thesis by (simp add: fifo_of_def del: tq_exec.simps split: option.split)
qed

lemma fifo_exec:
  assumes inv: "db_inv d"
  shows "fifo_of (tq_exec (now, op) d) = fifo_step op (fifo_of d)"
  using fifo_set_enabled [OF inv] fifo_add [OF inv] fifo_delete [OF inv] fifo_clear [OF inv]
    fifo_control [OF inv] fifo_retry [OF inv] fifo_claim [OF inv] fifo_complete [OF inv]
    fifo_finish [OF inv] fifo_recover [OF inv] fifo_quiet [OF quiet_exec' [OF inv, of op now] _ inv]
  by (cases op) (simp_all del: tq_exec.simps)

text \<open>C29: The tables are a FIFO: after any calls, every call of the repository changes what the
  user sees exactly as the abstract queue does. A new task is appended exactly if its draft is
  acceptable, fewer than 100 tasks wait and its id is new; a task is deleted exactly if it is
  not being sent; clearing keeps the task being sent; a claim takes the first task exactly if the
  switch is on with the expected generation, the queue is not paused, nothing is being sent and
  the first task waits; only the token of the claim ends it; and a call of one session changes
  nothing of another.\<close>

theorem queue_refines_fifo:
  "fifo_of (tq_exec (now, op) (tq_run cs (db_initial t))) = fifo_step op (fifo_of (tq_run cs (db_initial t)))"
  by (rule fifo_exec [OF tq_reachable_inv])

end
