(* ===== verification/Task_Dispatch.thy ===== *)
theory Task_Dispatch
  imports Queue_Properties Status_Infer
begin

text \<open>
  The dispatcher of the task queues (\<open>cc-panes-core/src/services/task_queue_dispatcher.rs\<close>), the
  parts of \<open>task_queue_service.rs\<close> it calls, and the choice of the sessions a scan visits
  (\<open>src-tauri/src/services/task_queue_worker.rs\<close>).

  A check of a session is a sequence of steps on a world that others change meanwhile: before
  each step, any calls of the task queue and any events of the sessions may happen. What they
  are, and what the terminal backend and the image store answer, is given for each step by a
  \<open>moment\<close>; nothing is assumed of them here. \<open>w_sent\<close> records the texts handed to the backend.
\<close>

subsection \<open>Steps\<close>

datatype write_authority = ExclusiveInProcess | EnforcedLease string | Unavailable

record gw_error =
  ge_code :: "string option"
  ge_message :: string

record moment =
  mo_calls :: "(int \<times> tq_op) list"
  mo_events :: "sm_call list"
  mo_now :: instant
  mo_epoch :: "64 word"
  mo_status :: "gw_error + status_info option"
  mo_authority :: "gw_error + write_authority"
  mo_submit :: "gw_error + unit"
  mo_images :: "string \<Rightarrow> gw_error + string"

record setting =
  st_json :: "json \<Rightarrow> string"
  st_moment :: "nat \<Rightarrow> moment"

record world =
  w_db :: db
  w_entries :: entries
  w_sent :: "(string \<times> string) list"
  w_clock :: nat

type_synonym ('e, 'a) action = "world \<Rightarrow> ('e + 'a) \<times> world"

definition return_action :: "'a \<Rightarrow> ('e, 'a) action" where
  "return_action x w = (Inr x, w)"

definition fail_action :: "'e \<Rightarrow> ('e, 'a) action" where
  "fail_action e w = (Inl e, w)"

definition bind_action :: "('e, 'a) action \<Rightarrow> ('a \<Rightarrow> ('e, 'b) action) \<Rightarrow> ('e, 'b) action" where
  "bind_action f g w = (case f w of (Inl e, w') \<Rightarrow> (Inl e, w') | (Inr x, w') \<Rightarrow> g x w')"

definition external :: "(gw_error, 'a) action \<Rightarrow> (app_error, 'a) action" where
  "external f w = (case f w of (Inl e, w') \<Rightarrow> (Inl (External (ge_code e) (ge_message e)), w')
     | (Inr x, w') \<Rightarrow> (Inr x, w'))"

definition moment_of :: "setting \<Rightarrow> world \<Rightarrow> moment" where
  "moment_of S w = st_moment S (w_clock w)"

definition tick :: "setting \<Rightarrow> world \<Rightarrow> world" where
  "tick S w = w\<lparr>w_db := tq_run (mo_calls (moment_of S w)) (w_db w),
     w_entries := fst (sm_run (st_json S) (mo_events (moment_of S w)) (w_entries w)),
     w_clock := w_clock w + 1\<rparr>"

definition transact :: "setting \<Rightarrow> (db \<Rightarrow> app_error + db \<times> 'a) \<Rightarrow> (app_error, 'a) action" where
  "transact S f w =
     (let w1 = tick S w
      in case f (w_db w1) of Inl e \<Rightarrow> (Inl e, w1) | Inr (d, x) \<Rightarrow> (Inr x, w1\<lparr>w_db := d\<rparr>))"

definition ask :: "setting \<Rightarrow> (moment \<Rightarrow> world \<Rightarrow> 'e + 'a) \<Rightarrow> ('e, 'a) action" where
  "ask S f w = (f (moment_of S w) (tick S w), tick S w)"

subsection \<open>The gateway to the terminal\<close>

datatype readiness =
    Ready | GloballyDisabled | Confirming | WaitingForInput | NoWriteAuthority | SessionFailed | SessionGone

datatype submit_failure = NotReady readiness | Definite gw_error | SubmitUnknown gw_error

text \<open>\<open>BackendTaskQueueDispatchGateway::readiness\<close>, \<open>submit_text\<close> and \<open>mark_submit_started\<close>.\<close>

definition gateway_readiness :: "setting \<Rightarrow> string \<Rightarrow> (gw_error, readiness) action" where
  "gateway_readiness S sid =
     bind_action (ask S (\<lambda>m w. mo_status m)) (\<lambda>status.
       case status of
         None \<Rightarrow> return_action SessionGone
       | Some i \<Rightarrow>
           bind_action (ask S (\<lambda>m w. Inr (status_for_automatic_submit (mo_now m) (mo_epoch m) sid
               (si_status i) (si_last_output_at i) (w_entries w)))) (\<lambda>effective.
             case effective of
               session_status.Idle \<Rightarrow>
                 bind_action (ask S (\<lambda>m w. mo_authority m)) (\<lambda>authority.
                   return_action (if authority = Unavailable then NoWriteAuthority else Ready))
             | session_status.WaitingInput \<Rightarrow> return_action WaitingForInput
             | session_status.Error \<Rightarrow> return_action SessionFailed
             | session_status.Exited \<Rightarrow> return_action SessionGone
             | _ \<Rightarrow> return_action Confirming))"

definition gateway_submit_text :: "setting \<Rightarrow> string \<Rightarrow> string \<Rightarrow> (submit_failure, unit) action" where
  "gateway_submit_text S sid prompt w =
     (case gateway_readiness S sid w of
        (Inl e, w1) \<Rightarrow> (Inl (Definite e), w1)
      | (Inr r, w1) \<Rightarrow>
          (if r \<noteq> Ready then (Inl (NotReady r), w1)
           else (let w2 = (tick S w1)\<lparr>w_sent := w_sent w1 @ [(sid, prompt)]\<rparr>
                 in case mo_submit (moment_of S w1) of
                      Inl e \<Rightarrow> (Inl (SubmitUnknown e), w2)
                    | Inr _ \<Rightarrow> (Inr (), w2))))"

definition gateway_mark :: "setting \<Rightarrow> string \<Rightarrow> (app_error, unit) action" where
  "gateway_mark S sid w =
     (let m = moment_of S w; w1 = tick S w
      in (Inr (), w1\<lparr>w_entries := mark_automatic_submit_started (mo_now m) (mo_epoch m) sid (w_entries w1)\<rparr>))"

text \<open>The trait \<open>TaskQueueDispatchGateway\<close> and its implementation over the backend.\<close>

record gateway =
  gt_readiness :: "setting \<Rightarrow> string \<Rightarrow> (gw_error, readiness) action"
  gt_submit :: "setting \<Rightarrow> string \<Rightarrow> string \<Rightarrow> (submit_failure, unit) action"
  gt_mark :: "setting \<Rightarrow> string \<Rightarrow> (app_error, unit) action"

definition backend_gateway :: gateway where
  "backend_gateway = \<lparr>gt_readiness = gateway_readiness, gt_submit = gateway_submit_text,
     gt_mark = gateway_mark\<rparr>"

subsection \<open>The prompt of a task\<close>

definition compose_prompt :: "string list \<Rightarrow> string \<Rightarrow> string" where
  "compose_prompt image_paths text =
     (let image_part = join '' '' image_paths; t = trim text
      in if image_part \<noteq> [] \<and> t \<noteq> [] then image_part @ [CHR 0x0A] @ t
         else if image_part \<noteq> [] then image_part
         else if t \<noteq> [] then t else [])"

fun resolve_all :: "(string \<Rightarrow> gw_error + string) \<Rightarrow> string list \<Rightarrow> gw_error + string list" where
  "resolve_all f [] = Inr []"
| "resolve_all f (r # rs) =
     (case f r of Inl e \<Rightarrow> Inl e
      | Inr p \<Rightarrow> (case resolve_all f rs of Inl e \<Rightarrow> Inl e | Inr ps \<Rightarrow> Inr (p # ps)))"

definition effective_prompt :: "setting \<Rightarrow> string \<Rightarrow> task_item \<Rightarrow> (gw_error, string) action" where
  "effective_prompt S sid item =
     (if ti_session item \<noteq> sid
      then fail_action \<lparr>ge_code = Some ''IMAGE_REF_INVALID'',
             ge_message = ''Queued task belongs to another terminal session''\<rparr>
      else ask S (\<lambda>m w. case resolve_all (mo_images m) (ti_images item) of
             Inl e \<Rightarrow> Inl e | Inr paths \<Rightarrow> Inr (compose_prompt paths (ti_text item))))"

subsection \<open>The dispatcher\<close>

datatype dispatch_outcome =
    Noop
  | Blocked readiness
  | Submitted string
  | Requeued string readiness
  | DispatchFailed string
  | DeliveryLost string

definition persist_readiness :: "setting \<Rightarrow> string \<Rightarrow> readiness \<Rightarrow> int \<Rightarrow> (app_error, unit) action" where
  "persist_readiness S sid r now =
     (let put = (\<lambda>st reason. bind_action (transact S (set_runtime_status sid st reason now)) (\<lambda>_. return_action ()))
      in case r of
           Ready \<Rightarrow> put Running None
         | GloballyDisabled \<Rightarrow> return_action ()
         | Confirming \<Rightarrow> put ConfirmingIdle None
         | WaitingForInput \<Rightarrow> put ActionRequired (Some ReasonWaitingInput)
         | NoWriteAuthority \<Rightarrow> put ActionRequired (Some AutomaticWriteUnavailable)
         | SessionFailed \<Rightarrow> put ActionRequired (Some SessionError)
         | SessionGone \<Rightarrow> put SessionEnded (Some SessionExited))"

text \<open>The repository answers whether the claim was still current.\<close>

definition expect_current :: "bool \<Rightarrow> (app_error, unit) action" where
  "expect_current b = (if b then return_action () else fail_action QUEUE_CLAIM_CONFLICT)"

definition requeue_claim :: "setting \<Rightarrow> string \<Rightarrow> string \<Rightarrow> string \<Rightarrow> int \<Rightarrow> (app_error, unit) action" where
  "requeue_claim S sid iid token now =
     bind_action (transact S (return_claim_to_queue sid iid token now)) expect_current"

definition dispatch_fail_claim ::
  "setting \<Rightarrow> string \<Rightarrow> string \<Rightarrow> string \<Rightarrow> gw_error \<Rightarrow> int \<Rightarrow> (app_error, unit) action" where
  "dispatch_fail_claim S sid iid token e now =
     bind_action (transact S (fail_claim sid iid token
       (case ge_code e of Some c \<Rightarrow> c | None \<Rightarrow> ''SUBMIT_FAILED'') (ge_message e) now)) expect_current"

definition requeue_for_readiness ::
  "setting \<Rightarrow> string \<Rightarrow> string \<Rightarrow> string \<Rightarrow> readiness \<Rightarrow> int \<Rightarrow> (app_error, dispatch_outcome) action" where
  "requeue_for_readiness S sid iid token r now =
     bind_action (requeue_claim S sid iid token now) (\<lambda>_.
     bind_action (persist_readiness S sid r now) (\<lambda>_.
     return_action (Requeued iid r)))"

definition read_only :: "(db \<Rightarrow> app_error + 'a) \<Rightarrow> db \<Rightarrow> app_error + db \<times> 'a" where
  "read_only f d = (case f d of Inl e \<Rightarrow> Inl e | Inr x \<Rightarrow> Inr (d, x))"

definition runtime_blocker :: "setting \<Rightarrow> int \<Rightarrow> (app_error, readiness option) action" where
  "runtime_blocker S gen =
     bind_action (transact S (read_only read_runtime)) (\<lambda>rt.
       return_action (if \<not> rt_enabled rt then Some GloballyDisabled
                      else if rt_generation rt \<noteq> gen then Some Confirming else None))"

definition service_complete_claim ::
  "setting \<Rightarrow> string \<Rightarrow> string \<Rightarrow> string \<Rightarrow> int \<Rightarrow> (app_error, bool) action" where
  "service_complete_claim S sid iid token now =
     bind_action (transact S (get_snapshot sid)) (\<lambda>_. transact S (complete_claim sid iid token now))"

definition deliver_prompt ::
  "gateway \<Rightarrow> setting \<Rightarrow> string \<Rightarrow> string \<Rightarrow> string \<Rightarrow> string \<Rightarrow> int \<Rightarrow> (app_error, dispatch_outcome) action" where
  "deliver_prompt G S sid iid token prompt now w =
     (case gt_submit G S sid prompt w of
        (Inr _, w1) \<Rightarrow>
          bind_action (gt_mark G S sid) (\<lambda>_.
          bind_action (service_complete_claim S sid iid token now) (\<lambda>b.
          bind_action (expect_current b) (\<lambda>_. return_action (Submitted iid)))) w1
      | (Inl (NotReady r), w1) \<Rightarrow> requeue_for_readiness S sid iid token r now w1
      | (Inl (Definite e), w1) \<Rightarrow>
          bind_action (dispatch_fail_claim S sid iid token e now) (\<lambda>_. return_action (DispatchFailed iid)) w1
      | (Inl (SubmitUnknown e), w1) \<Rightarrow>
          bind_action (transact S (mark_delivery_unknown sid iid token (ge_message e) now)) (\<lambda>b.
          bind_action (expect_current b) (\<lambda>_. return_action (DeliveryLost iid))) w1)"

definition second_readiness :: "gateway \<Rightarrow> setting \<Rightarrow> string \<Rightarrow> int \<Rightarrow> (app_error, readiness) action" where
  "second_readiness G S sid gen =
     bind_action (runtime_blocker S gen) (\<lambda>blocker.
       case blocker of Some r \<Rightarrow> return_action r | None \<Rightarrow> external (gt_readiness G S sid))"

definition dispatch_claim :: "gateway \<Rightarrow> setting \<Rightarrow> string \<Rightarrow> claim \<Rightarrow> int \<Rightarrow> (app_error, dispatch_outcome) action" where
  "dispatch_claim G S sid cl now =
     (let iid = ti_id (cl_item cl); token = cl_token cl
      in bind_action (second_readiness G S sid (cl_generation cl)) (\<lambda>r.
           if r \<noteq> Ready then requeue_for_readiness S sid iid token r now
           else (\<lambda>w.
             case effective_prompt S sid (cl_item cl) w of
               (Inl e, w1) \<Rightarrow>
                 bind_action (dispatch_fail_claim S sid iid token e now)
                   (\<lambda>_. return_action (DispatchFailed iid)) w1
             | (Inr prompt, w1) \<Rightarrow>
                 bind_action (runtime_blocker S (cl_generation cl)) (\<lambda>blocker.
                   case blocker of
                     Some r' \<Rightarrow> requeue_for_readiness S sid iid token r' now
                   | None \<Rightarrow> deliver_prompt G S sid iid token prompt now) w1)))"

definition claim_and_dispatch ::
  "gateway \<Rightarrow> setting \<Rightarrow> string \<Rightarrow> string \<Rightarrow> int \<Rightarrow> int \<Rightarrow> (app_error, dispatch_outcome) action" where
  "claim_and_dispatch G S uuid sid gen now =
     bind_action (transact S (claim_next uuid sid gen now)) (\<lambda>c.
       case c of None \<Rightarrow> return_action Noop | Some cl \<Rightarrow> dispatch_claim G S sid cl now)"

definition check_head ::
  "gateway \<Rightarrow> setting \<Rightarrow> string \<Rightarrow> string \<Rightarrow> int \<Rightarrow> int \<Rightarrow> (app_error, dispatch_outcome) action" where
  "check_head G S uuid sid gen now =
     bind_action (external (gt_readiness G S sid)) (\<lambda>r.
       if r \<noteq> Ready then bind_action (persist_readiness S sid r now) (\<lambda>_. return_action (Blocked r))
       else claim_and_dispatch G S uuid sid gen now)"

definition check_session ::
  "gateway \<Rightarrow> setting \<Rightarrow> string \<Rightarrow> string \<Rightarrow> int \<Rightarrow> (app_error, dispatch_outcome) action" where
  "check_session G S uuid sid now =
     bind_action (transact S (read_only read_runtime)) (\<lambda>rt.
       if \<not> rt_enabled rt then return_action (Blocked GloballyDisabled)
       else
         bind_action (transact S (get_snapshot sid)) (\<lambda>snap.
           case sn_items snap of
             [] \<Rightarrow> return_action Noop
           | head # _ \<Rightarrow>
               if sn_paused snap \<or> ti_state head \<noteq> Queued then return_action Noop
               else check_head G S uuid sid (rt_generation rt) now))"

subsection \<open>Which sessions a scan visits\<close>

text \<open>\<open>next_scan_batch\<close>: the batch and the new cursor.\<close>

definition next_scan_batch :: "string list \<Rightarrow> nat \<Rightarrow> nat \<Rightarrow> string list \<times> nat" where
  "next_scan_batch sessions cursor limit =
     (if sessions = [] \<or> limit = 0 then ([], 0)
      else
        (let c = cursor mod length sessions; count = min (length sessions) limit
         in (map (\<lambda>offset. sessions ! ((c + offset) mod length sessions)) [0..<count],
             (c + count) mod length sessions)))"

definition LEVEL_SCAN_BATCH_SIZE :: nat where
  "LEVEL_SCAN_BATCH_SIZE = 64"


subsection \<open>A small program logic\<close>

text \<open>\<open>valid P f Q\<close>: from a world with \<open>P\<close> the action ends with a result and a world in \<open>Q\<close>.\<close>

definition valid :: "(world \<Rightarrow> bool) \<Rightarrow> ('e, 'a) action \<Rightarrow> ('e + 'a \<Rightarrow> world \<Rightarrow> bool) \<Rightarrow> bool" where
  "valid P f Q \<longleftrightarrow> (\<forall>w. P w \<longrightarrow> (case f w of (r, w') \<Rightarrow> Q r w'))"

named_theorems hoare \<open>rules of the program logic\<close>

lemma valid_return [hoare]: "(\<And>w. P w \<Longrightarrow> Q (Inr x) w) \<Longrightarrow> valid P (return_action x) Q"
  by (simp add: valid_def return_action_def)

lemma valid_fail [hoare]: "(\<And>w. P w \<Longrightarrow> Q (Inl e) w) \<Longrightarrow> valid P (fail_action e) Q"
  by (simp add: valid_def fail_action_def)

lemma valid_bind:
  assumes "valid P f R" and "\<And>x. valid (R (Inr x)) (g x) Q" and "\<And>e w. R (Inl e) w \<Longrightarrow> Q (Inl e) w"
  shows "valid P (bind_action f g) Q"
  unfolding valid_def
proof (intro allI impI)
  fix w assume "P w"
  then have R: "case f w of (r, w') \<Rightarrow> R r w'" using assms(1) by (simp add: valid_def)
  show "case bind_action f g w of (r, w') \<Rightarrow> Q r w'"
  proof (cases "f w")
    case (Pair r w')
    then show ?thesis using R assms(2,3) by (cases r) (auto simp: bind_action_def valid_def)
  qed
qed

lemma valid_external:
  "valid P f (\<lambda>r w. case r of Inl e \<Rightarrow> Q (Inl (External (ge_code e) (ge_message e))) w | Inr x \<Rightarrow> Q (Inr x) w)
    \<Longrightarrow> valid P (external f) Q"
  by (fastforce simp: valid_def external_def split: prod.splits sum.splits)

lemma valid_weaken: "valid P f R \<Longrightarrow> (\<And>r w. R r w \<Longrightarrow> Q r w) \<Longrightarrow> valid P f Q"
  by (auto simp: valid_def split: prod.splits)

lemma valid_pre: "valid P' f Q \<Longrightarrow> (\<And>w. P w \<Longrightarrow> P' w) \<Longrightarrow> valid P f Q"
  by (auto simp: valid_def)

text \<open>What the others may do between the steps is a property of the setting; a predicate that
  they respect is stable.\<close>

definition stable :: "setting \<Rightarrow> (world \<Rightarrow> bool) \<Rightarrow> bool" where
  "stable S P \<longleftrightarrow> (\<forall>w. P w \<longrightarrow> P (tick S w))"

lemma valid_ask [hoare]: "stable S P \<Longrightarrow> valid P (ask S f) (\<lambda>r w. P w)"
  by (simp add: valid_def stable_def ask_def)

lemma valid_transact:
  assumes "stable S P" and "\<And>w. P w \<Longrightarrow> case f (w_db w) of Inl e \<Rightarrow> Q (Inl e) w | Inr (d, x) \<Rightarrow> Q (Inr x) (w\<lparr>w_db := d\<rparr>)"
  shows "valid P (transact S f) Q"
  using assms by (fastforce simp: valid_def stable_def transact_def Let_def split: sum.splits prod.splits)

lemma valid_readiness: "stable S P \<Longrightarrow> valid P (gateway_readiness S sid) (\<lambda>r w. P w)"
  unfolding gateway_readiness_def
  by (rule valid_bind [where R = "\<lambda>r w. P w"], rule valid_ask, assumption)
    (auto split: option.split session_status.split intro!: hoare valid_bind [where R = "\<lambda>r w. P w"])

subsection \<open>What the others may do\<close>

text \<open>Tokens are fresh random identifiers, so nobody else claims or finishes under the token
  of this check; and recovery runs only at the start of the process.\<close>

fun foreign :: "string \<Rightarrow> int \<times> tq_op \<Rightarrow> bool" where
  "foreign tk (_, QClaim u s g) = (u \<noteq> tk)"
| "foreign tk (_, QComplete s i k) = (k \<noteq> tk)"
| "foreign tk (_, QFinish s i k _ _ _) = (k \<noteq> tk)"
| "foreign tk (_, QRecover) = False"
| "foreign tk _ = True"

definition others :: "setting \<Rightarrow> string \<Rightarrow> bool" where
  "others S tk \<longleftrightarrow> (\<forall>n. list_all (foreign tk) (mo_calls (st_moment S n)))"

lemma foreign_keeps: "foreign tk c \<Longrightarrow> keeps_claim sid iid tk c"
  by (cases "(tk, c)" rule: foreign.cases) auto

lemma claim_token:
  assumes "db_inv d" and "active_token (committed d (claim_next u s gen now d)) s = Some tk" and "u \<noteq> tk"
  shows "active_token d s = Some tk"
proof (cases "claim_next u s gen now d")
  case (Inr r)
  obtain d' c where r: "claim_next u s gen now d = Inr (d', c)" using Inr by (cases r) simp
  show ?thesis using claim_next_effect [OF assms(1) r] assms(2,3) r by (auto simp: committed_def)
qed (use assms in \<open>simp add: committed_def\<close>)

lemma retry_token:
  assumes "db_inv d" and "active_token (committed d (retry_item s iid now d)) s = Some tk"
  shows "active_token d s = Some tk"
proof (cases "retry_item s iid now d")
  case (Inr r)
  obtain d' c where r: "retry_item s iid now d = Inr (d', c)" using Inr by (cases r) simp
  show ?thesis by (rule retry_item_effect [OF assms(1) r]) (use assms(2) r in \<open>simp add: committed_def\<close>)
qed (use assms in \<open>simp add: committed_def\<close>)

lemma finish_token:
  assumes "db_inv d" and "active_token (committed d (finish_claim s iid k st c m now d)) s = Some tk"
  shows "active_token d s = Some tk"
proof (cases "finish_claim s iid k st c m now d")
  case (Inr r)
  obtain d' b where r: "finish_claim s iid k st c m now d = Inr (d', b)" using Inr by (cases r) simp
  show ?thesis using finish_claim_effect [OF assms(1) r] assms(2) r by (auto simp: committed_def)
qed (use assms in \<open>simp add: committed_def\<close>)

lemma complete_token:
  assumes "db_inv d" and "active_token (committed d (complete_claim s iid k now d)) s' = Some tk"
  shows "active_token d s' = Some tk"
proof (cases "complete_claim s iid k now d")
  case (Inr r)
  obtain d' b where r: "complete_claim s iid k now d = Inr (d', b)" using Inr by (cases r) simp
  show ?thesis using complete_claim_effect [OF assms(1) r] assms(2) r
    by (cases "s' = s") (auto simp: committed_def)
qed (use assms in \<open>simp add: committed_def\<close>)

lemma token_exec:
  assumes inv: "db_inv d" and tok: "active_token (tq_exec (now, op) d) sid = Some tk" and f: "foreign tk (now, op)"
  shows "active_token d sid = Some tk"
  using inv
proof (cases rule: tq_exec_cases [where now = now and op = op])
  case (head s i i' its)
  show ?thesis
  proof (cases "s = sid")
    case True
    from head(6) show ?thesis
      using claim_token [OF inv] retry_token [OF inv] finish_token [OF inv] tok f True
      by (elim disjE exE conjE) (simp_all; blast)+
  qed (use head(7) tok in simp)
next
  case (complete s k row ys)
  then show ?thesis using complete_token [OF inv] tok by simp
next
  case (recover g)
  then show ?thesis using f by simp
qed (use tok in \<open>simp_all add: undisturbed_def\<close>)

lemma token_run:
  "db_inv d \<Longrightarrow> list_all (foreign tk) cs \<Longrightarrow> active_token (tq_run cs d) sid = Some tk \<Longrightarrow> active_token d sid = Some tk"
proof (induction cs arbitrary: d)
  case (Cons c cs)
  obtain now op where c: "c = (now, op)" by (cases c)
  have "active_token (tq_exec (now, op) d) sid = Some tk"
    using Cons.IH [OF tq_exec_inv [OF Cons.prems(1)]] Cons.prems(2,3) c by (simp del: tq_exec.simps)
  then show ?case using token_exec [OF Cons.prems(1)] Cons.prems(2) c by simp
qed simp

text \<open>The text of the task being sent does not change under it.\<close>

lemma contents_id:
  assumes "db_inv d" and "p \<in> set (contents d sid)" and "q \<in> set (contents d sid)" and "fst p = fst q"
  shows "p = q"
proof -
  have "map fst (contents d sid) = map ir_id (rows_of d sid)" by (simp add: contents_def)
  then have "distinct (map fst (contents d sid))" using ids_distinct [OF assms(1)] by simp
  from eq_key_imp_eq_value [OF this, of "fst p" "snd p" "snd q"] assms(2-4) show ?thesis
    by (metis prod.collapse)
qed

lemma held_hd: "held d sid iid tk \<Longrightarrow> contents d sid \<noteq> [] \<and> fst (hd (contents d sid)) = iid"
  by (auto simp: held_def contents_def)

lemma queue_spec_members:
  assumes "queue_spec op sid c c'" and "c \<noteq> []" and "c' \<noteq> []"
  shows "hd c' \<in> set c"
proof (cases op)
  case (QDelete s iid)
  then have "set c' \<subseteq> set c" using assms(1) by auto
  then show ?thesis using hd_in_set [OF assms(3)] by blast
next
  case (QClear s)
  then have "set c' \<subseteq> set c" using assms(1) by (auto dest: in_set_takeD) (metis in_set_takeD)
  then show ?thesis using hd_in_set [OF assms(3)] by blast
next
  case (QComplete s iid tk)
  then have "set c' \<subseteq> set c" using assms(1) by auto
  then show ?thesis using hd_in_set [OF assms(3)] by blast
qed (use assms in auto)

lemma held_text:
  assumes "db_inv d" and "held d sid iid tk" and "foreign tk c"
  shows "hd (contents (tq_exec c d) sid) = hd (contents d sid)"
proof -
  obtain now op where c: "c = (now, op)" by (cases c)
  have h: "held (tq_exec c d) sid iid tk"
    using held_exec [OF assms(1,2)] foreign_keeps [OF assms(3)] c by simp
  have "queue_spec op sid (contents d sid) (contents (tq_exec c d) sid)"
    unfolding c by (rule queue_spec_exec [OF assms(1)])
  then have "hd (contents (tq_exec c d) sid) \<in> set (contents d sid)"
    using queue_spec_members held_hd [OF assms(2)] held_hd [OF h] by blast
  then show ?thesis
    using contents_id [OF assms(1)] held_hd [OF assms(2)] held_hd [OF h] by (metis hd_in_set)
qed

lemma held_text_run:
  "db_inv d \<Longrightarrow> held d sid iid tk \<Longrightarrow> list_all (foreign tk) cs \<Longrightarrow>
     held (tq_run cs d) sid iid tk \<and> hd (contents (tq_run cs d) sid) = hd (contents d sid)"
proof (induction cs arbitrary: d)
  case (Cons c cs)
  obtain now op where c: "c = (now, op)" by (cases c)
  have "held (tq_exec (now, op) d) sid iid tk"
    using held_exec [OF Cons.prems(1,2)] foreign_keeps Cons.prems(3) c by simp
  from Cons.IH [OF tq_exec_inv [OF Cons.prems(1)] this] show ?case
    using held_text [OF Cons.prems(1,2), of c] Cons.prems(3) c by (simp del: tq_exec.simps)
qed simp

definition waiting_phase :: "string \<Rightarrow> string \<Rightarrow> (string \<times> string) list \<Rightarrow> world \<Rightarrow> bool" where
  "waiting_phase tk sid sent w \<longleftrightarrow>
     db_inv (w_db w) \<and> active_token (w_db w) sid \<noteq> Some tk \<and> w_sent w = sent"

definition holding_phase :: "string \<Rightarrow> string \<Rightarrow> string \<times> string \<Rightarrow> (string \<times> string) list \<Rightarrow> world \<Rightarrow> bool" where
  "holding_phase tk sid task sent w \<longleftrightarrow>
     db_inv (w_db w) \<and> held (w_db w) sid (fst task) tk \<and> hd (contents (w_db w) sid) = task \<and> w_sent w = sent"

lemma tick_simps [simp]: "w_db (tick S w) = tq_run (mo_calls (moment_of S w)) (w_db w)" "w_sent (tick S w) = w_sent w"
  by (simp_all add: tick_def)

lemma stable_waiting:
  assumes "others S tk" shows "stable S (waiting_phase tk sid sent)"
  unfolding stable_def
proof (intro allI impI)
  fix w assume w: "waiting_phase tk sid sent w"
  have "list_all (foreign tk) (mo_calls (moment_of S w))" using assms by (simp add: others_def moment_of_def)
  then show "waiting_phase tk sid sent (tick S w)"
    using token_run [of "w_db w" tk _ sid] w by (auto simp: waiting_phase_def tq_run_inv)
qed

lemma stable_holding:
  assumes "others S tk" shows "stable S (holding_phase tk sid task sent)"
  unfolding stable_def
proof (intro allI impI)
  fix w assume w: "holding_phase tk sid task sent w"
  have "list_all (foreign tk) (mo_calls (moment_of S w))" using assms by (simp add: others_def moment_of_def)
  then show "holding_phase tk sid task sent (tick S w)"
    using held_text_run [of "w_db w" sid "fst task" tk] w by (simp add: holding_phase_def tq_run_inv)
qed


subsection \<open>The steps of a check in the program logic\<close>

lemma waiting_exec:
  assumes "waiting_phase tk sid sent w" and "foreign tk (now, op)"
  shows "waiting_phase tk sid sent (w\<lparr>w_db := tq_exec (now, op) (w_db w)\<rparr>)"
  using assms token_exec [of "w_db w" now op sid tk] tq_exec_inv [of "w_db w" "(now, op)"]
  by (auto simp: waiting_phase_def simp del: tq_exec.simps)

lemma holding_exec:
  assumes "holding_phase tk sid task sent w" and "foreign tk (now, op)"
  shows "holding_phase tk sid task sent (w\<lparr>w_db := tq_exec (now, op) (w_db w)\<rparr>)"
  using assms held_text_run [of "w_db w" sid "fst task" tk "[(now, op)]"] tq_exec_inv [of "w_db w" "(now, op)"]
  by (simp add: holding_phase_def del: tq_exec.simps)

lemma valid_read_runtime:
  assumes "stable S P" and "\<And>w. P w \<Longrightarrow> db_inv (w_db w)"
  shows "valid P (transact S (read_only read_runtime)) (\<lambda>r w. P w \<and> (\<exists>rt. r = Inr rt))"
  using assms by (intro valid_transact) (auto simp: read_only_def read_runtime_def db_inv_def split: option.splits)

lemma valid_blocker:
  assumes "stable S P" and "\<And>w. P w \<Longrightarrow> db_inv (w_db w)"
  shows "valid P (runtime_blocker S gen) (\<lambda>r w. P w \<and> (\<exists>b. r = Inr b))"
  unfolding runtime_blocker_def
  by (rule valid_bind [OF valid_read_runtime [OF assms]]) (auto intro!: hoare)

lemma valid_persist:
  assumes "others S tk"
  shows "valid (waiting_phase tk sid sent) (persist_readiness S sid r now) (\<lambda>r w. waiting_phase tk sid sent w)"
proof -
  have "valid (waiting_phase tk sid sent) (transact S (set_runtime_status sid st reason now))
      (\<lambda>r w. waiting_phase tk sid sent w)" for st reason
  proof (rule valid_transact [OF stable_waiting [OF assms]])
    fix w assume w: "waiting_phase tk sid sent w"
    show "case set_runtime_status sid st reason now (w_db w) of Inl e \<Rightarrow> waiting_phase tk sid sent w
        | Inr (d, x) \<Rightarrow> waiting_phase tk sid sent (w\<lparr>w_db := d\<rparr>)"
      using waiting_exec [OF w, of now "QStatus sid st reason"] w
      by (auto simp: committed_def split: sum.split)
  qed
  then have put: "valid (waiting_phase tk sid sent) (bind_action (transact S (set_runtime_status sid st reason now))
      (\<lambda>_. return_action ())) (\<lambda>r w. waiting_phase tk sid sent w)" for st reason
    by (rule valid_bind) (auto intro!: hoare)
  show ?thesis by (cases r) (auto simp: persist_readiness_def Let_def intro!: put hoare)
qed

lemma held_finishes:
  assumes inv: "db_inv d" and h: "held d sid iid tk" and st: "st \<noteq> ItemDispatching"
  obtains d2 where "finish_claim sid iid tk st code m now d = Inr (d2, True)" "db_inv d2"
    "active_token d2 sid = None"
    "\<exists>row \<in> set (rows_of d2 sid). ir_id row = iid \<and> ir_state row = st \<and> ir_text row = snd (hd (contents d sid))"
proof -
  from h obtain i its where rows: "rows_of d sid = i # its" "ir_id i = iid"
    and s: "ir_state i = ItemDispatching" "ir_token i = Some tk" and tok: "active_token d sid = Some tk"
    by (auto simp: held_def)
  have "i \<in> set (rows_of d sid)" using rows(1) by simp
  then have "i \<in> set (db_items d)" and "claimed sid iid tk i"
    using rows(2) s by (auto simp: claimed_def is_item_def rows_of_def)
  then have "list_ex (claimed sid iid tk) (db_items d)" by (auto simp: list_ex_iff)
  moreover have "holds_claim d sid tk" using tok by (simp add: holds_claim_iff)
  ultimately obtain d2 where d2: "finish_claim sid iid tk st code m now d = Inr (d2, True)"
    using st by (cases "finish_state st") (auto simp: finish_claim_def Let_def holds_claim_def frame)
  show thesis using that [OF d2] finish_claim_effect [OF inv d2] rows
    by (auto simp: contents_def)
qed

lemma valid_finish:
  assumes "others S tk" and "st \<noteq> ItemDispatching"
  shows "valid (holding_phase tk sid task sent) (transact S (finish_claim sid (fst task) tk st code m now))
    (\<lambda>r w. r = Inr True \<and> waiting_phase tk sid sent w
       \<and> (\<exists>row \<in> set (rows_of (w_db w) sid). ir_id row = fst task \<and> ir_state row = st \<and> ir_text row = snd task))"
proof (rule valid_transact [OF stable_holding [OF assms(1)]])
  fix w assume w: "holding_phase tk sid task sent w"
  obtain d2 where "finish_claim sid (fst task) tk st code m now (w_db w) = Inr (d2, True)" "db_inv d2"
    "active_token d2 sid = None"
    "\<exists>row \<in> set (rows_of d2 sid). ir_id row = fst task \<and> ir_state row = st \<and> ir_text row = snd (hd (contents (w_db w) sid))"
    by (rule held_finishes [of "w_db w" sid "fst task" tk st code m now])
      (use w assms(2) in \<open>simp_all add: holding_phase_def\<close>)
  then show "case finish_claim sid (fst task) tk st code m now (w_db w) of
      Inl e \<Rightarrow> Inl e = Inr True \<and> waiting_phase tk sid sent w
        \<and> (\<exists>row \<in> set (rows_of (w_db w) sid). ir_id row = fst task \<and> ir_state row = st \<and> ir_text row = snd task)
    | Inr (d, x) \<Rightarrow> Inr x = Inr True \<and> waiting_phase tk sid sent (w\<lparr>w_db := d\<rparr>)
        \<and> (\<exists>row \<in> set (rows_of (w_db (w\<lparr>w_db := d\<rparr>)) sid). ir_id row = fst task \<and> ir_state row = st \<and> ir_text row = snd task)"
    using w by (simp add: waiting_phase_def holding_phase_def)
qed

lemma valid_service_complete:
  assumes "others S tk"
  shows "valid (holding_phase tk sid task sent) (service_complete_claim S sid (fst task) tk now)
    (\<lambda>r w. r = Inr True \<and> waiting_phase tk sid sent w \<and> fst task \<notin> ir_id ` set (rows_of (w_db w) sid))"
  unfolding service_complete_claim_def
proof (rule valid_bind [where R = "\<lambda>r w. (\<exists>x. r = Inr x) \<and> holding_phase tk sid task sent w"])
  show "valid (holding_phase tk sid task sent) (transact S (get_snapshot sid))
      (\<lambda>r w. (\<exists>x. r = Inr x) \<and> holding_phase tk sid task sent w)"
  proof (rule valid_transact [OF stable_holding [OF assms]])
    fix w assume w: "holding_phase tk sid task sent w"
    have inv: "db_inv (ensure_queue sid 0 (ensure_runtime 0 (w_db w)))"
      using w by (simp add: holding_phase_def ensure_queue_inv ensure_runtime_inv)
    have "\<exists>d s. get_snapshot sid (w_db w) = Inr (d, s)"
      using commit_snapshot_ok [OF inv, of sid] by (auto simp: get_snapshot_def frame)
    then show "case get_snapshot sid (w_db w) of Inl e \<Rightarrow> (\<exists>x. Inl e = Inr x) \<and> holding_phase tk sid task sent w
        | Inr (d, x) \<Rightarrow> (\<exists>x'. Inr x = Inr x') \<and> holding_phase tk sid task sent (w\<lparr>w_db := d\<rparr>)"
      using holding_exec [OF w, of now "QSnapshot sid"] by (auto simp: committed_def)
  qed
next
  fix x
  show "valid (\<lambda>w. (\<exists>x'. Inr x = Inr x') \<and> holding_phase tk sid task sent w)
      (transact S (complete_claim sid (fst task) tk now))
      (\<lambda>r w. r = Inr True \<and> waiting_phase tk sid sent w \<and> fst task \<notin> ir_id ` set (rows_of (w_db w) sid))"
  proof (rule valid_transact)
    show "stable S (\<lambda>w. (\<exists>x'. Inr x = Inr x') \<and> holding_phase tk sid task sent w)"
      using stable_holding [OF assms] by (simp add: stable_def)
  next
    fix w assume "(\<exists>x'. Inr x = Inr x') \<and> holding_phase tk sid task sent w"
    then have w: "holding_phase tk sid task sent w" ..
    then have inv: "db_inv (w_db w)" and h: "held (w_db w) sid (fst task) tk" by (simp_all add: holding_phase_def)
    obtain d2 where d2: "complete_claim sid (fst task) tk now (w_db w) = Inr (d2, True)"
      and c: "contents d2 sid = tl (contents (w_db w) sid)"
      using held_completes [OF inv h] by blast
    have "distinct (map fst (contents (w_db w) sid))"
      using ids_distinct [OF inv, of sid] by (simp add: contents_def comp_def)
    then have "fst task \<notin> fst ` set (contents d2 sid)"
      using held_hd [OF h] unfolding c by (cases "contents (w_db w) sid") auto
    then have "fst task \<notin> ir_id ` set (rows_of d2 sid)" by (simp add: contents_def image_image)
    moreover have "waiting_phase tk sid sent (w\<lparr>w_db := d2\<rparr>)"
      using complete_claim_effect [OF inv d2] w by (auto simp: waiting_phase_def holding_phase_def)
    ultimately show "case complete_claim sid (fst task) tk now (w_db w) of
        Inl e \<Rightarrow> Inl e = Inr True \<and> waiting_phase tk sid sent w \<and> fst task \<notin> ir_id ` set (rows_of (w_db w) sid)
      | Inr (d, x) \<Rightarrow> Inr x = Inr True \<and> waiting_phase tk sid sent (w\<lparr>w_db := d\<rparr>)
          \<and> fst task \<notin> ir_id ` set (rows_of (w_db (w\<lparr>w_db := d\<rparr>)) sid)"
      using d2 by simp
  qed
qed simp

lemma valid_claim:
  assumes "others S tk"
  shows "valid (waiting_phase tk sid sent) (transact S (claim_next tk sid gen now))
    (\<lambda>r w. case r of
        Inr (Some cl) \<Rightarrow> cl_token cl = tk \<and> ti_session (cl_item cl) = sid
          \<and> holding_phase tk sid (ti_id (cl_item cl), ti_text (cl_item cl)) sent w
      | _ \<Rightarrow> waiting_phase tk sid sent w)"
proof (rule valid_transact [OF stable_waiting [OF assms]])
  fix w assume w: "waiting_phase tk sid sent w"
  then have inv: "db_inv (w_db w)" by (simp add: waiting_phase_def)
  show "case claim_next tk sid gen now (w_db w) of
      Inl e \<Rightarrow> (case Inl e of Inr (Some cl) \<Rightarrow> cl_token cl = tk \<and> ti_session (cl_item cl) = sid
          \<and> holding_phase tk sid (ti_id (cl_item cl), ti_text (cl_item cl)) sent w
        | _ \<Rightarrow> waiting_phase tk sid sent w)
    | Inr (d, x) \<Rightarrow> (case Inr x of Inr (Some cl) \<Rightarrow> cl_token cl = tk \<and> ti_session (cl_item cl) = sid
          \<and> holding_phase tk sid (ti_id (cl_item cl), ti_text (cl_item cl)) sent (w\<lparr>w_db := d\<rparr>)
        | _ \<Rightarrow> waiting_phase tk sid sent (w\<lparr>w_db := d\<rparr>))"
  proof (cases "claim_next tk sid gen now (w_db w)")
    case (Inr r)
    obtain d c where r: "r = (d, c)" by (cases r)
    show ?thesis
    proof (cases c)
      case None
      then show ?thesis using claim_next_effect [OF inv, of tk sid gen now d c] Inr r w
        by (auto simp: waiting_phase_def)
    next
      case (Some cl)
      have ok: "claim_next tk sid gen now (w_db w) = Inr (d, Some cl)" using Inr r Some by simp
      have "ti_session it = sid" if "fetch_head (w_db w) sid = Some it" for it
      proof -
        from that obtain i its where "rows_of (w_db w) sid = i # its" "it = parse_raw_item i"
          by (auto simp: fetch_head_def db_inv_items_of [OF inv] split: list.splits)
        moreover from this(1) have "i \<in> set (rows_of (w_db w) sid)" by simp
        then have "ir_session i = sid" by (simp add: rows_of_def)
        ultimately show ?thesis by (simp add: parse_raw_item_def)
      qed
      then have "ti_session (cl_item cl) = sid"
        using ok by (auto simp: claim_next_def Let_def split: sum.splits option.splits if_splits)
      then show ?thesis
        using claim_gives_held [OF inv ok] w Inr r Some by (auto simp: waiting_phase_def holding_phase_def)
    qed
  qed (use w in simp)
qed


subsection \<open>The contract of a gateway and what a check does with it\<close>

text \<open>Whether the answer of a submission means that the text was handed over.\<close>

definition handed :: "submit_failure + unit \<Rightarrow> bool" where
  "handed r = (case r of Inr _ \<Rightarrow> True | Inl (SubmitUnknown _) \<Rightarrow> True | Inl _ \<Rightarrow> False)"

definition result_ok ::
  "string \<Rightarrow> string \<Rightarrow> (string \<times> string) list \<Rightarrow> string \<times> string \<Rightarrow> app_error + dispatch_outcome \<Rightarrow> world \<Rightarrow> bool" where
  "result_ok tk sid sent task r w =
     (let rows = set (rows_of (w_db w) sid);
          handed_over = (\<exists>paths. w_sent w = sent @ [(sid, compose_prompt paths (snd task))]);
          left_as = (\<lambda>st. \<exists>row \<in> rows. ir_id row = fst task \<and> ir_state row = st \<and> ir_text row = snd task)
      in (case r of Inl _ \<Rightarrow> w_sent w = sent
          | Inr oc \<Rightarrow> active_token (w_db w) sid \<noteq> Some tk
              \<and> (case oc of
                   Submitted iid \<Rightarrow> iid = fst task \<and> handed_over \<and> iid \<notin> ir_id ` rows
                 | DeliveryLost iid \<Rightarrow> iid = fst task \<and> handed_over \<and> left_as DeliveryUnknown
                 | DispatchFailed iid \<Rightarrow> iid = fst task \<and> w_sent w = sent \<and> left_as Failed
                 | Requeued iid _ \<Rightarrow> iid = fst task \<and> w_sent w = sent
                 | _ \<Rightarrow> w_sent w = sent)))"

locale gateway_contract =
  fixes G :: gateway
  assumes readiness_keeps: "\<And>S P sid. stable S P \<Longrightarrow> valid P (gt_readiness G S sid) (\<lambda>r w. P w)"
    and submit_sends: "\<And>S (P :: bool \<Rightarrow> world \<Rightarrow> bool) sid prompt. (\<And>b. stable S (P b)) \<Longrightarrow>
      (\<And>w. P False w \<Longrightarrow> P True (w\<lparr>w_sent := w_sent w @ [(sid, prompt)]\<rparr>)) \<Longrightarrow>
      valid (P False) (gt_submit G S sid prompt) (\<lambda>r w. P (handed r) w)"
    and mark_keeps: "\<And>S P sid. stable S P \<Longrightarrow> (\<And>w m. P w \<Longrightarrow> P (w\<lparr>w_entries := m\<rparr>)) \<Longrightarrow>
      valid P (gt_mark G S sid) (\<lambda>r w. r = Inr () \<and> P w)"
begin

lemma requeue_ok:
  assumes "others S tk"
  shows "valid (holding_phase tk sid task sent) (requeue_for_readiness S sid (fst task) tk r now)
    (result_ok tk sid sent task)"
  unfolding requeue_for_readiness_def requeue_claim_def return_claim_to_queue_def
proof (rule valid_bind [where R = "\<lambda>r w. r = Inr () \<and> waiting_phase tk sid sent w"])
  show "valid (holding_phase tk sid task sent)
      (bind_action (transact S (finish_claim sid (fst task) tk Queued None None now)) expect_current)
      (\<lambda>r w. r = Inr () \<and> waiting_phase tk sid sent w)"
    by (rule valid_bind [OF valid_finish [OF assms]])
      (auto simp: expect_current_def valid_def return_action_def)
next
  fix x
  show "valid (\<lambda>w. Inr x = Inr () \<and> waiting_phase tk sid sent w)
      (bind_action (persist_readiness S sid r now) (\<lambda>_. return_action (Requeued (fst task) r)))
      (result_ok tk sid sent task)"
    by (rule valid_bind [OF valid_pre [OF valid_persist [OF assms]]])
      (auto simp: result_ok_def waiting_phase_def intro!: hoare)
qed simp

lemma fail_ok:
  assumes "others S tk"
  shows "valid (holding_phase tk sid task sent)
    (bind_action (dispatch_fail_claim S sid (fst task) tk e now) (\<lambda>_. return_action (DispatchFailed (fst task))))
    (result_ok tk sid sent task)"
proof (rule valid_bind [where R = "\<lambda>r w. r = Inr () \<and> waiting_phase tk sid sent w
    \<and> (\<exists>row \<in> set (rows_of (w_db w) sid). ir_id row = fst task \<and> ir_state row = Failed \<and> ir_text row = snd task)"])
  show "valid (holding_phase tk sid task sent) (dispatch_fail_claim S sid (fst task) tk e now)
      (\<lambda>r w. r = Inr () \<and> waiting_phase tk sid sent w
        \<and> (\<exists>row \<in> set (rows_of (w_db w) sid). ir_id row = fst task \<and> ir_state row = Failed \<and> ir_text row = snd task))"
    unfolding dispatch_fail_claim_def fail_claim_def
    by (rule valid_bind [OF valid_finish [OF assms]])
      (auto simp: expect_current_def valid_def return_action_def)
qed (auto simp: result_ok_def waiting_phase_def valid_def return_action_def)

lemma lost_ok:
  assumes "others S tk"
  shows "valid (holding_phase tk sid task (sent @ [(sid, compose_prompt paths (snd task))]))
    (bind_action (transact S (mark_delivery_unknown sid (fst task) tk msg now)) (\<lambda>b.
     bind_action (expect_current b) (\<lambda>_. return_action (DeliveryLost (fst task)))))
    (result_ok tk sid sent task)"
  unfolding mark_delivery_unknown_def
  by (rule valid_bind [OF valid_finish [OF assms]])
    (auto simp: expect_current_def valid_def return_action_def bind_action_def result_ok_def waiting_phase_def)

lemma submitted_ok:
  assumes "others S tk"
  shows "valid (holding_phase tk sid task (sent @ [(sid, compose_prompt paths (snd task))]))
    (bind_action (gt_mark G S sid) (\<lambda>_.
     bind_action (service_complete_claim S sid (fst task) tk now) (\<lambda>b.
     bind_action (expect_current b) (\<lambda>_. return_action (Submitted (fst task))))))
    (result_ok tk sid sent task)"
proof (rule valid_bind)
  let ?P = "holding_phase tk sid task (sent @ [(sid, compose_prompt paths (snd task))])"
  show "valid ?P (gt_mark G S sid) (\<lambda>r w. r = Inr () \<and> ?P w)"
    by (rule mark_keeps [OF stable_holding [OF assms]]) (simp add: holding_phase_def)
  fix x
  show "valid (\<lambda>w. Inr x = Inr () \<and> ?P w) (bind_action (service_complete_claim S sid (fst task) tk now) (\<lambda>b.
     bind_action (expect_current b) (\<lambda>_. return_action (Submitted (fst task))))) (result_ok tk sid sent task)"
    by (rule valid_bind [OF valid_pre [OF valid_service_complete [OF assms]]])
      (auto simp: expect_current_def valid_def return_action_def bind_action_def result_ok_def waiting_phase_def)
qed simp

lemma deliver_ok:
  assumes "others S tk"
  shows "valid (holding_phase tk sid task sent)
    (deliver_prompt G S sid (fst task) tk (compose_prompt paths (snd task)) now) (result_ok tk sid sent task)"
  unfolding valid_def
proof (intro allI impI)
  let ?sent = "\<lambda>b. if b then sent @ [(sid, compose_prompt paths (snd task))] else sent"
  fix w assume w: "holding_phase tk sid task sent w"
  have "valid (holding_phase tk sid task (?sent False)) (gt_submit G S sid (compose_prompt paths (snd task)))
      (\<lambda>r w. holding_phase tk sid task (?sent (handed r)) w)"
    by (rule submit_sends [where P = "\<lambda>b. holding_phase tk sid task (?sent b)"])
      (simp_all add: stable_holding [OF assms] holding_phase_def)
  then have sub: "case gt_submit G S sid (compose_prompt paths (snd task)) w of
      (r, w1) \<Rightarrow> holding_phase tk sid task (?sent (handed r)) w1"
    using w by (simp add: valid_def)
  show "case deliver_prompt G S sid (fst task) tk (compose_prompt paths (snd task)) now w of
      (r, w') \<Rightarrow> result_ok tk sid sent task r w'"
  proof (cases "gt_submit G S sid (compose_prompt paths (snd task)) w")
    case (Pair r w1)
    show ?thesis
    proof (cases r)
      case (Inr u)
      then show ?thesis using submitted_ok [OF assms] Pair sub by (simp add: deliver_prompt_def valid_def handed_def)
    next
      case (Inl f)
      then show ?thesis
        using requeue_ok [OF assms] fail_ok [OF assms] lost_ok [OF assms] Pair sub
        by (cases f) (simp_all add: deliver_prompt_def valid_def handed_def)
    qed
  qed
qed

lemma second_readiness_keeps:
  assumes "others S tk"
  shows "valid (holding_phase tk sid task sent) (second_readiness G S sid gen)
    (\<lambda>r w. holding_phase tk sid task sent w)"
  unfolding second_readiness_def
proof (rule valid_bind)
  show "valid (holding_phase tk sid task sent) (runtime_blocker S gen)
      (\<lambda>r w. holding_phase tk sid task sent w \<and> (\<exists>b. r = Inr b))"
    by (rule valid_blocker [OF stable_holding [OF assms]]) (simp add: holding_phase_def)
  fix b
  have "valid (holding_phase tk sid task sent) (external (gt_readiness G S sid)) (\<lambda>r w. holding_phase tk sid task sent w)"
    by (rule valid_external, rule valid_weaken, rule readiness_keeps [OF stable_holding [OF assms]])
      (simp split: sum.split)
  then show "valid (\<lambda>w. holding_phase tk sid task sent w \<and> (\<exists>b'. Inr b = Inr b'))
      (case b of Some r \<Rightarrow> return_action r | None \<Rightarrow> external (gt_readiness G S sid))
      (\<lambda>r w. holding_phase tk sid task sent w)"
    by (cases b) (auto intro!: hoare)
qed simp

lemma dispatch_ok:
  assumes "others S tk" and "cl_token cl = tk" and "ti_session (cl_item cl) = sid"
  defines "task \<equiv> (ti_id (cl_item cl), ti_text (cl_item cl))"
  shows "valid (holding_phase tk sid task sent) (dispatch_claim G S sid cl now) (result_ok tk sid sent task)"
proof -
  have prompt: "valid (holding_phase tk sid task sent) (effective_prompt S sid (cl_item cl))
      (\<lambda>r w. holding_phase tk sid task sent w
         \<and> (case r of Inr p \<Rightarrow> \<exists>paths. p = compose_prompt paths (snd task) | Inl _ \<Rightarrow> True))"
    using stable_holding [OF assms(1), of sid task sent] assms(3)
    by (auto simp: effective_prompt_def valid_def ask_def stable_def task_def split: sum.split)
  have blocked: "valid (holding_phase tk sid task sent)
      (bind_action (runtime_blocker S gen) (\<lambda>blocker.
         case blocker of Some r' \<Rightarrow> requeue_for_readiness S sid (fst task) tk r' now
         | None \<Rightarrow> deliver_prompt G S sid (fst task) tk (compose_prompt paths (snd task)) now))
      (result_ok tk sid sent task)" for gen paths
  proof (rule valid_bind)
    show "valid (holding_phase tk sid task sent) (runtime_blocker S gen)
        (\<lambda>r w. holding_phase tk sid task sent w \<and> (\<exists>b. r = Inr b))"
      by (rule valid_blocker [OF stable_holding [OF assms(1)]]) (simp add: holding_phase_def)
    fix b
    show "valid (\<lambda>w. holding_phase tk sid task sent w \<and> (\<exists>b'. Inr b = Inr b'))
        (case b of Some r' \<Rightarrow> requeue_for_readiness S sid (fst task) tk r' now
         | None \<Rightarrow> deliver_prompt G S sid (fst task) tk (compose_prompt paths (snd task)) now)
        (result_ok tk sid sent task)"
      using requeue_ok [OF assms(1)] deliver_ok [OF assms(1)] by (cases b) simp_all
  qed simp
  have "valid (holding_phase tk sid task sent) (\<lambda>w.
      case effective_prompt S sid (cl_item cl) w of
        (Inl e, w1) \<Rightarrow> bind_action (dispatch_fail_claim S sid (fst task) tk e now)
            (\<lambda>_. return_action (DispatchFailed (fst task))) w1
      | (Inr prompt, w1) \<Rightarrow> bind_action (runtime_blocker S gen) (\<lambda>blocker.
            case blocker of Some r' \<Rightarrow> requeue_for_readiness S sid (fst task) tk r' now
            | None \<Rightarrow> deliver_prompt G S sid (fst task) tk prompt now) w1) (result_ok tk sid sent task)" for gen
    unfolding valid_def
  proof (intro allI impI)
    fix w assume "holding_phase tk sid task sent w"
    then have p: "case effective_prompt S sid (cl_item cl) w of (r, w1) \<Rightarrow> holding_phase tk sid task sent w1
         \<and> (case r of Inr p \<Rightarrow> \<exists>paths. p = compose_prompt paths (snd task) | Inl _ \<Rightarrow> True)"
      using prompt by (simp add: valid_def)
    show "case (case effective_prompt S sid (cl_item cl) w of
        (Inl e, w1) \<Rightarrow> bind_action (dispatch_fail_claim S sid (fst task) tk e now)
            (\<lambda>_. return_action (DispatchFailed (fst task))) w1
      | (Inr prompt, w1) \<Rightarrow> bind_action (runtime_blocker S gen) (\<lambda>blocker.
            case blocker of Some r' \<Rightarrow> requeue_for_readiness S sid (fst task) tk r' now
            | None \<Rightarrow> deliver_prompt G S sid (fst task) tk prompt now) w1) of
        (r, w') \<Rightarrow> result_ok tk sid sent task r w'"
    proof (cases "effective_prompt S sid (cl_item cl) w")
      case (Pair r w1)
      show ?thesis
      proof (cases r)
        case (Inl e)
        then show ?thesis using p Pair fail_ok [OF assms(1), of sid task sent e now] by (simp add: valid_def)
      next
        case (Inr prompt)
        then obtain paths where "prompt = compose_prompt paths (snd task)" using p Pair by auto
        then show ?thesis using p Pair Inr blocked [of gen paths] by (simp add: valid_def)
      qed
    qed
  qed
  then have rest: "valid (\<lambda>w. holding_phase tk sid task sent w) (if r \<noteq> Ready
      then requeue_for_readiness S sid (fst task) tk r now else (\<lambda>w.
        case effective_prompt S sid (cl_item cl) w of
        (Inl e, w1) \<Rightarrow> bind_action (dispatch_fail_claim S sid (fst task) tk e now)
            (\<lambda>_. return_action (DispatchFailed (fst task))) w1
      | (Inr prompt, w1) \<Rightarrow> bind_action (runtime_blocker S (cl_generation cl)) (\<lambda>blocker.
            case blocker of Some r' \<Rightarrow> requeue_for_readiness S sid (fst task) tk r' now
            | None \<Rightarrow> deliver_prompt G S sid (fst task) tk prompt now) w1)) (result_ok tk sid sent task)" for r
    using requeue_ok [OF assms(1)] by simp
  have id: "fst task = ti_id (cl_item cl)" by (simp add: task_def)
  show ?thesis
    unfolding dispatch_claim_def Let_def assms(2) id [symmetric]
    by (rule valid_bind [OF second_readiness_keeps [OF assms(1)] rest])
      (auto simp: result_ok_def holding_phase_def)
qed

lemma check_ok:
  assumes "others S tk"
  shows "valid (waiting_phase tk sid sent) (check_session G S tk sid now) (\<lambda>r w. \<exists>task. result_ok tk sid sent task r w)"
proof -
  let ?W = "waiting_phase tk sid sent"
  let ?Q = "\<lambda>r w. \<exists>task. result_ok tk sid sent task r w"
  have quiet: "?Q (Inl e) w" "?Q (Inr Noop) w" "?Q (Inr (Blocked r)) w" if "?W w" for e r w
    using that by (auto simp: result_ok_def waiting_phase_def)
  note stab = stable_waiting [OF assms, of sid sent]
  have noop: "valid ?W (return_action Noop) ?Q" by (rule valid_return, rule quiet)
  have blocked: "valid ?W (return_action (Blocked r)) ?Q" for r by (rule valid_return, rule quiet)
  have claim: "valid ?W (claim_and_dispatch G S tk sid gen now) ?Q" for gen
    unfolding claim_and_dispatch_def
  proof (rule valid_bind [OF valid_claim [OF assms]])
    fix c
    show "valid (\<lambda>w. case Inr c of Inr (Some cl) \<Rightarrow> cl_token cl = tk \<and> ti_session (cl_item cl) = sid
          \<and> holding_phase tk sid (ti_id (cl_item cl), ti_text (cl_item cl)) sent w | _ \<Rightarrow> ?W w)
        (case c of None \<Rightarrow> return_action Noop | Some cl \<Rightarrow> dispatch_claim G S sid cl now) ?Q"
    proof (cases c)
      case (Some cl)
      show ?thesis
      proof (cases "cl_token cl = tk \<and> ti_session (cl_item cl) = sid")
        case True
        have "valid (holding_phase tk sid (ti_id (cl_item cl), ti_text (cl_item cl)) sent)
            (dispatch_claim G S sid cl now) ?Q"
          by (rule valid_weaken [OF dispatch_ok [OF assms]]) (use True in blast)+
        then show ?thesis using True Some by simp
      qed (use Some in \<open>auto simp: valid_def\<close>)
    qed (use noop in simp)
  qed (rule quiet(1), simp)
  have head: "valid ?W (check_head G S tk sid gen now) ?Q" for gen
    unfolding check_head_def
  proof (rule valid_bind [where R = "\<lambda>r w. ?W w"])
    show "valid ?W (external (gt_readiness G S sid)) (\<lambda>r w. ?W w)"
      by (rule valid_external, rule valid_weaken, rule readiness_keeps [OF stab]) (simp split: sum.split)
    have "valid ?W (bind_action (persist_readiness S sid r now) (\<lambda>_. return_action (Blocked r))) ?Q" for r
      by (rule valid_bind [OF valid_persist [OF assms] blocked quiet(1)])
    with claim show "valid ?W (if r \<noteq> Ready
        then bind_action (persist_readiness S sid r now) (\<lambda>_. return_action (Blocked r))
        else claim_and_dispatch G S tk sid gen now) ?Q" for r
      by simp
  qed (rule quiet(1))
  have snap: "valid ?W (transact S (get_snapshot sid)) (\<lambda>r w. ?W w)"
  proof (rule valid_transact [OF stab])
    fix w assume w: "?W w"
    show "case get_snapshot sid (w_db w) of Inl e \<Rightarrow> ?W w | Inr (d, x) \<Rightarrow> ?W (w\<lparr>w_db := d\<rparr>)"
      using waiting_exec [OF w, of now "QSnapshot sid"] w by (auto simp: committed_def split: sum.split)
  qed
  have items: "valid ?W (case sn_items s of [] \<Rightarrow> return_action Noop
      | i # _ \<Rightarrow> if sn_paused s \<or> ti_state i \<noteq> Queued then return_action Noop
          else check_head G S tk sid gen now) ?Q" for s :: snapshot and gen
    using noop head by (cases "sn_items s") simp_all
  have enabled: "valid ?W (if \<not> rt_enabled rt then return_action (Blocked GloballyDisabled)
      else bind_action (transact S (get_snapshot sid)) (\<lambda>s. case sn_items s of [] \<Rightarrow> return_action Noop
        | i # _ \<Rightarrow> if sn_paused s \<or> ti_state i \<noteq> Queued then return_action Noop
            else check_head G S tk sid (rt_generation rt) now)) ?Q" for rt :: runtime
    using valid_bind [OF snap items quiet(1)] blocked by simp
  show ?thesis
    unfolding check_session_def
    by (rule valid_bind [OF valid_weaken [OF valid_read_runtime [OF stab]] enabled quiet(1)])
      (simp_all add: waiting_phase_def)
qed

end


text \<open>The gateway over the backend keeps the contract.\<close>

lemma backend_submit:
  assumes st: "\<And>b. stable S (P b)" and send: "\<And>w. P False w \<Longrightarrow> P True (w\<lparr>w_sent := w_sent w @ [(sid, prompt)]\<rparr>)"
  shows "valid (P False) (gateway_submit_text S sid prompt) (\<lambda>r w. P (handed r) w)"
  unfolding valid_def
proof (intro allI impI)
  fix w assume "P False w"
  then have r: "case gateway_readiness S sid w of (r, w1) \<Rightarrow> P False w1"
    using valid_readiness [OF st] by (simp add: valid_def)
  have "P True ((tick S w1)\<lparr>w_sent := w_sent w1 @ [(sid, prompt)]\<rparr>)" if "P False w1" for w1
    using send [of "tick S w1"] st [of False] that by (simp add: stable_def)
  with r show "case gateway_submit_text S sid prompt w of (r, w') \<Rightarrow> P (handed r) w'"
    by (auto simp: gateway_submit_text_def handed_def Let_def split: prod.splits sum.splits)
qed

interpretation backend: gateway_contract backend_gateway
proof
  show "stable S P \<Longrightarrow> valid P (gt_readiness backend_gateway S sid) (\<lambda>r. P)" for S P sid
    by (simp add: backend_gateway_def valid_readiness)
  show "(\<And>b. stable S (P b)) \<Longrightarrow> (\<And>w. P False w \<Longrightarrow> P True (w\<lparr>w_sent := w_sent w @ [(sid, prompt)]\<rparr>)) \<Longrightarrow>
      valid (P False) (gt_submit backend_gateway S sid prompt) (\<lambda>r. P (handed r))" for S P sid prompt
    by (simp add: backend_gateway_def backend_submit)
  show "stable S P \<Longrightarrow> (\<And>w m. P w \<Longrightarrow> P (w\<lparr>w_entries := m\<rparr>)) \<Longrightarrow>
      valid P (gt_mark backend_gateway S sid) (\<lambda>r w. r = Inr () \<and> P w)" for S P sid
    by (simp add: backend_gateway_def gateway_mark_def valid_def stable_def Let_def)
qed

subsection \<open>Every outcome of a check is what it says\<close>

text \<open>C30: Every outcome of a dispatch is what it says, whatever else happens meanwhile (other calls
  of the queues and events of the sessions between any two of its steps, any answers of the
  backend): a task reported as submitted has been handed to the terminal exactly once, with its
  own text, and has left the queue; one of unknown delivery has been handed over once and is
  kept as such; one that failed was not handed over and is kept as failed; a requeued, blocked or
  idle check, and one that ends in an error, handed nothing over; and no check that ends without
  an error leaves its claim behind.\<close>

theorem dispatch_outcome_is_true:
  assumes "w_db w = tq_run cs (db_initial t)" and "active_token (w_db w) sid \<noteq> Some uuid" and "others S uuid"
    and "check_session backend_gateway S uuid sid now w = (r, w')"
  shows "case r of
      Inl _ \<Rightarrow> w_sent w' = w_sent w
    | Inr oc \<Rightarrow> active_token (w_db w') sid \<noteq> Some uuid
        \<and> (case oc of
             Submitted iid \<Rightarrow> iid \<notin> ir_id ` set (rows_of (w_db w') sid)
               \<and> (\<exists>paths text. w_sent w' = w_sent w @ [(sid, compose_prompt paths text)])
           | DeliveryLost iid \<Rightarrow> \<exists>row \<in> set (rows_of (w_db w') sid). ir_id row = iid \<and> ir_state row = DeliveryUnknown
               \<and> (\<exists>paths. w_sent w' = w_sent w @ [(sid, compose_prompt paths (ir_text row))])
           | DispatchFailed iid \<Rightarrow> w_sent w' = w_sent w
               \<and> (\<exists>row \<in> set (rows_of (w_db w') sid). ir_id row = iid \<and> ir_state row = Failed)
           | _ \<Rightarrow> w_sent w' = w_sent w)"
proof -
  have "waiting_phase uuid sid (w_sent w) w"
    using assms(1,2) tq_reachable_inv by (simp add: waiting_phase_def)
  then obtain task where "result_ok uuid sid (w_sent w) task r w'"
    using backend.check_ok [OF assms(3), of sid "w_sent w" now] assms(4) by (auto simp: valid_def)
  then show ?thesis
    unfolding result_ok_def Let_def
    by (cases r) (auto split: dispatch_outcome.splits, metis)
qed

subsection \<open>A ready task is sent\<close>

text \<open>A setting in which nobody interferes and the terminal is ready.\<close>

definition calm :: "setting \<Rightarrow> string \<Rightarrow> entries \<Rightarrow> (string \<Rightarrow> string) \<Rightarrow> bool" where
  "calm S sid m g \<longleftrightarrow>
     (\<forall>n. let mo = st_moment S n in
        mo_calls mo = [] \<and> mo_events mo = [] \<and> mo_submit mo = Inr ()
        \<and> (\<forall>ref. mo_images mo ref = Inr (g ref))
        \<and> (\<exists>a. mo_authority mo = Inr a \<and> a \<noteq> Unavailable)
        \<and> (\<exists>i. mo_status mo = Inr (Some i)
             \<and> (\<forall>n'. status_for_automatic_submit (mo_now (st_moment S n')) (mo_epoch (st_moment S n')) sid
                  (si_status i) (si_last_output_at i) m = session_status.Idle)))"

lemma calm_tick: "calm S sid m g \<Longrightarrow> tick S w = w\<lparr>w_clock := w_clock w + 1\<rparr>"
  by (simp add: calm_def tick_def moment_of_def Let_def tq_run_def)

lemma calm_transact:
  "calm S sid m g \<Longrightarrow> f (w_db w) = Inr (d, x) \<Longrightarrow>
     transact S f w = (Inr x, w\<lparr>w_db := d, w_clock := w_clock w + 1\<rparr>)"
  by (simp add: transact_def calm_tick Let_def)

lemma calm_readiness:
  assumes c: "calm S sid m g" and e: "w_entries w = m"
  shows "gateway_readiness S sid w = (Inr Ready, w\<lparr>w_clock := w_clock w + 3\<rparr>)"
proof -
  have st: "\<exists>i. mo_status (st_moment S n) = Inr (Some i)
      \<and> (\<forall>n'. status_for_automatic_submit (mo_now (st_moment S n')) (mo_epoch (st_moment S n')) sid
           (si_status i) (si_last_output_at i) m = session_status.Idle)"
    and au: "\<exists>a. mo_authority (st_moment S n) = Inr a \<and> a \<noteq> Unavailable" for n
    using c by (auto simp: calm_def Let_def)
  obtain i where i: "mo_status (st_moment S (w_clock w)) = Inr (Some i)"
      "\<And>n'. status_for_automatic_submit (mo_now (st_moment S n')) (mo_epoch (st_moment S n')) sid
           (si_status i) (si_last_output_at i) m = session_status.Idle"
    using st by blast
  obtain a where a: "mo_authority (st_moment S (w_clock w + 2)) = Inr a" "a \<noteq> Unavailable"
    using au by blast
  show ?thesis
    using i a e by (simp add: gateway_readiness_def bind_action_def ask_def moment_of_def calm_tick [OF c]
        return_action_def numeral_2_eq_2 numeral_3_eq_3)
qed

lemma calm_resolve: "calm S sid m g \<Longrightarrow> resolve_all (mo_images (st_moment S n)) refs = Inr (map g refs)"
  by (induction refs) (simp_all add: calm_def Let_def)


lemma snapshot_reads:
  assumes "db_runtime d = Some rt" and "queue_of d sid = Some q"
  obtains s where "get_snapshot sid d = Inr (d, s)" "sn_items s = fetch_items d sid" "sn_paused s = qr_paused q"
proof -
  have "\<exists>s. get_snapshot sid d = Inr (d, s) \<and> sn_items s = fetch_items d sid \<and> sn_paused s = qr_paused q"
    using assms
    by (simp add: get_snapshot_def ensure_runtime_def ensure_queue_def commit_snapshot_def read_snapshot_def
        read_runtime_def Let_def)
  then show thesis using that by blast
qed

lemma calm_blocker:
  assumes c: "calm S sid m g" and "db_runtime (w_db w) = Some rt" and "rt_enabled rt" and "rt_generation rt = gen"
  shows "runtime_blocker S gen w = (Inr None, w\<lparr>w_clock := w_clock w + 1\<rparr>)"
proof -
  have "transact S (read_only read_runtime) w = (Inr rt, w\<lparr>w_db := w_db w, w_clock := w_clock w + 1\<rparr>)"
    by (rule calm_transact [OF c]) (simp add: read_only_def read_runtime_def assms(2))
  then show ?thesis using assms(3,4) by (simp add: runtime_blocker_def bind_action_def return_action_def)
qed

lemma calm_submit:
  assumes c: "calm S sid m g" and "w_entries w = m"
  shows "gateway_submit_text S sid prompt w =
    (Inr (), w\<lparr>w_sent := w_sent w @ [(sid, prompt)], w_clock := w_clock w + 4\<rparr>)"
proof -
  have "mo_submit (st_moment S n) = Inr ()" for n using c by (simp add: calm_def Let_def)
  then show ?thesis
    by (simp add: gateway_submit_text_def calm_readiness [OF assms] calm_tick [OF c] moment_of_def Let_def)
qed

lemma calm_mark:
  assumes c: "calm S sid m g" and "w_entries w = m"
  shows "\<exists>n epoch. gateway_mark S sid w =
    (Inr (), w\<lparr>w_clock := w_clock w + 1, w_entries := mark_automatic_submit_started n epoch sid m\<rparr>)"
  using assms(2) by (auto simp: gateway_mark_def calm_tick [OF c] Let_def)

lemma calm_delivers:
  assumes c: "calm S sid m g" and e: "w_entries w = m" and inv: "db_inv (w_db w)"
    and h: "held (w_db w) sid iid tk"
  obtains w' n epoch where "deliver_prompt backend_gateway S sid iid tk prompt now w = (Inr (Submitted iid), w')"
    "w_sent w' = w_sent w @ [(sid, prompt)]" "contents (w_db w') sid = tl (contents (w_db w) sid)"
    "w_entries w' = mark_automatic_submit_started n epoch sid m"
proof -
  let ?w1 = "w\<lparr>w_sent := w_sent w @ [(sid, prompt)], w_clock := w_clock w + 4\<rparr>"
  obtain n epoch where mark: "gateway_mark S sid ?w1 =
      (Inr (), ?w1\<lparr>w_clock := w_clock ?w1 + 1, w_entries := mark_automatic_submit_started n epoch sid m\<rparr>)"
    using calm_mark [OF c, of ?w1] e by auto
  obtain rt where rt: "db_runtime (w_db w) = Some rt" using inv by (auto simp: db_inv_def)
  obtain q where q: "queue_of (w_db w) sid = Some q"
    using h active_token_head(2) [OF inv, of sid] by (auto simp: held_def)
  obtain s where s: "get_snapshot sid (w_db w) = Inr (w_db w, s)" by (rule snapshot_reads [OF rt q])
  obtain d2 where d2: "complete_claim sid iid tk now (w_db w) = Inr (d2, True)"
    and cont: "contents d2 sid = tl (contents (w_db w) sid)" using held_completes [OF inv h] by blast
  have snap: "transact S (get_snapshot sid) w1 = (Inr s, w1\<lparr>w_clock := w_clock w1 + 1\<rparr>)"
    and compl: "transact S (complete_claim sid iid tk now) w1 = (Inr True, w1\<lparr>w_db := d2, w_clock := w_clock w1 + 1\<rparr>)"
    if "w_db w1 = w_db w" for w1
    using calm_transact [OF c, of "get_snapshot sid" w1 "w_db w" s]
      calm_transact [OF c, of "complete_claim sid iid tk now" w1 d2 True] s d2 that by simp_all
  let ?w2 = "?w1\<lparr>w_clock := w_clock ?w1 + 1, w_entries := mark_automatic_submit_started n epoch sid m\<rparr>"
  let ?w3 = "?w2\<lparr>w_clock := w_clock ?w2 + 1\<rparr>"
  let ?w4 = "?w3\<lparr>w_db := d2, w_clock := w_clock ?w3 + 1\<rparr>"
  have "service_complete_claim S sid iid tk now ?w2 = (Inr True, ?w4)"
    unfolding service_complete_claim_def
    by (simp add: bind_action_def snap compl)
  then have "deliver_prompt backend_gateway S sid iid tk prompt now w = (Inr (Submitted iid), ?w4)"
    using mark by (simp add: deliver_prompt_def backend_gateway_def calm_submit [OF c e] bind_action_def
        expect_current_def return_action_def)
  then show thesis by (rule that) (simp_all add: cont)
qed

lemma ready_cases:
  assumes "ready_to_send d sid gen"
  obtains rt q where "db_runtime d = Some rt" "rt_enabled rt" "rt_generation rt = gen"
    "queue_of d sid = Some q" "\<not> qr_paused q" "rows_of d sid \<noteq> []" "ir_state (hd (rows_of d sid)) = Queued"
  using assms unfolding ready_to_send_def
  by (cases "db_runtime d"; cases "queue_of d sid"; cases "rows_of d sid") simp_all

lemma ready_check:
  assumes inv: "db_inv (w_db w)" and "ready_to_send (w_db w) sid (generation (w_db w))"
    and c: "calm S sid (w_entries w) g" and "row = hd (rows_of (w_db w) sid)"
  obtains w' n epoch where "check_session backend_gateway S uuid sid now w = (Inr (Submitted (ir_id row)), w')"
    "w_sent w' = w_sent w @ [(sid, compose_prompt (map g (ir_images row)) (ir_text row))]"
    "contents (w_db w') sid = tl (contents (w_db w) sid)"
    "w_entries w' = mark_automatic_submit_started n epoch sid (w_entries w)"
proof -
  define d where "d = w_db w"
  note inv = inv [folded d_def]
  note ready_db = assms(2) [folded d_def]
  obtain rt q where rt: "db_runtime d = Some rt" "rt_enabled rt" "rt_generation rt = generation d"
    and q: "queue_of d sid = Some q" "\<not> qr_paused q" and rows0: "rows_of d sid \<noteq> []" "ir_state (hd (rows_of d sid)) = Queued"
    by (rule ready_cases [OF ready_db])
  then obtain its where rows: "rows_of d sid = row # its" "ir_state row = Queued"
    using assms(4) unfolding d_def by (metis list.collapse)
  obtain s where s: "get_snapshot sid d = Inr (d, s)" "sn_items s = fetch_items d sid" "sn_paused s = qr_paused q"
    by (rule snapshot_reads [OF rt(1) q(1)])
  have items: "sn_items s = parse_raw_item row # map parse_raw_item its"
    using rows s(2) by (simp add: fetch_items_def db_inv_items_of [OF inv])
  let ?cl = "\<lparr>cl_token = uuid, cl_generation = rt_generation rt,
    cl_item = (parse_raw_item row)\<lparr>ti_state := ItemDispatching\<rparr>\<rparr>"
  obtain d1 where claim: "claim_next uuid sid (rt_generation rt) now d = Inr (d1, Some ?cl)"
    using ready_claim [OF inv ready_db, of uuid now] unfolding rt(3) assms(4) d_def by metis
  have held1: "db_inv d1" "held d1 sid (ir_id row) uuid" "contents d1 sid = contents d sid"
    using claim_gives_held [OF inv claim] by (simp_all add: parse_raw_item_def)
  have rt1: "db_runtime d1 = Some rt" using claim_next_effect [OF inv claim] rt(1) by auto
  have "row \<in> set (rows_of d sid)" using rows(1) by simp
  then have sess: "ir_session row = sid" by (simp add: rows_of_def)
  let ?prompt = "compose_prompt (map g (ir_images row)) (ir_text row)"
  let ?at = "\<lambda>d n. w\<lparr>w_db := d, w_clock := n\<rparr>"
  have at: "w = ?at d (w_clock w)" by (simp add: d_def)
  have ready: "external (gateway_readiness S sid) (?at d n) = (Inr Ready, ?at d (n + 3))" for d n
    using calm_readiness [OF c, of "?at d n"] by (simp add: external_def)
  have step1: "transact S (read_only read_runtime) (?at d n) = (Inr rt, ?at d (n + 1))" for n
    using calm_transact [OF c, of "read_only read_runtime" "?at d n" d rt] rt(1)
    by (simp add: read_only_def read_runtime_def)
  have step2: "transact S (get_snapshot sid) (?at d n) = (Inr s, ?at d (n + 1))" for n
    using calm_transact [OF c, of "get_snapshot sid" "?at d n" d s] s(1) by simp
  have step4: "transact S (claim_next uuid sid (rt_generation rt) now) (?at d n) = (Inr (Some ?cl), ?at d1 (n + 1))" for n
    using calm_transact [OF c, of "claim_next uuid sid (rt_generation rt) now" "?at d n" d1 "Some ?cl"] claim by simp
  have prompt: "effective_prompt S sid (cl_item ?cl) (?at d n) = (Inr ?prompt, ?at d (n + 1))" for d n
    using sess by (simp add: effective_prompt_def ask_def parse_raw_item_def moment_of_def calm_resolve [OF c] calm_tick [OF c])
  have blocker: "runtime_blocker S (rt_generation rt) (?at d1 n) = (Inr None, ?at d1 (n + 1))" for n
    using calm_blocker [OF c, of "?at d1 n" rt] rt1 rt(2) by simp
  have b1: "check_session backend_gateway S uuid sid now (?at d n)
      = check_head backend_gateway S uuid sid (rt_generation rt) now (?at d (n + 2))" for n
    using items s(3) q(2) rows(2) rt(2)
    by (simp add: check_session_def bind_action_def step1 step2 parse_raw_item_def)
  have b2: "check_head backend_gateway S uuid sid (rt_generation rt) now (?at d n)
      = claim_and_dispatch backend_gateway S uuid sid (rt_generation rt) now (?at d (n + 3))" for n
    by (simp add: check_head_def bind_action_def ready backend_gateway_def)
  have b3: "claim_and_dispatch backend_gateway S uuid sid (rt_generation rt) now (?at d n)
      = dispatch_claim backend_gateway S sid ?cl now (?at d1 (n + 1))" for n
    by (simp add: claim_and_dispatch_def bind_action_def step4)
  have b4: "second_readiness backend_gateway S sid (rt_generation rt) (?at d1 n) = (Inr Ready, ?at d1 (n + 4))" for n
    using ready [where d = d1 and n = "n + 1"] by (simp add: second_readiness_def bind_action_def blocker backend_gateway_def)
  have b5: "dispatch_claim backend_gateway S sid ?cl now (?at d1 n)
      = deliver_prompt backend_gateway S sid (ir_id row) uuid ?prompt now (?at d1 (6 + n))" for n
    using prompt [where d = d1 and n = "n + 4"] blocker [where n = "5 + n"] b4 [where n = n]
    by (simp add: dispatch_claim_def bind_action_def parse_raw_item_def Let_def)
  let ?w1 = "?at d1 (12 + w_clock w)"
  have "check_session backend_gateway S uuid sid now w =
      deliver_prompt backend_gateway S sid (ir_id row) uuid ?prompt now ?w1"
    by (subst at) (simp only: b1 b2 b3 b5 add.assoc numeral_plus_numeral, simp)
  moreover obtain w' n epoch where "deliver_prompt backend_gateway S sid (ir_id row) uuid ?prompt now ?w1
      = (Inr (Submitted (ir_id row)), w')" "w_sent w' = w_sent w @ [(sid, ?prompt)]"
    "contents (w_db w') sid = tl (contents d sid)" "w_entries w' = mark_automatic_submit_started n epoch sid (w_entries w)"
    by (rule calm_delivers [OF c, of ?w1 "ir_id row" uuid ?prompt now]) (simp_all add: held1)
  ultimately show thesis using that unfolding d_def by metis
qed


text \<open>A ready task is sent: when the terminal of a session is ready, its queue is ready to send
  and nobody interferes, a check hands the first task to the terminal (the paths of its images,
  then its trimmed text), takes it out of the queue, and marks the session so that the
  observation it relied on is used up.\<close>

theorem ready_head_is_sent:
  assumes "w_db w = tq_run cs (db_initial t)" and "ready_to_send (w_db w) sid (generation (w_db w))"
    and "calm S sid (w_entries w) g" and "row = hd (rows_of (w_db w) sid)"
  shows "\<exists>w' n epoch. check_session backend_gateway S uuid sid now w = (Inr (Submitted (ir_id row)), w')
    \<and> w_sent w' = w_sent w @ [(sid, compose_prompt (map g (ir_images row)) (ir_text row))]
    \<and> contents (w_db w') sid = tl (contents (w_db w) sid)
    \<and> w_entries w' = mark_automatic_submit_started n epoch sid (w_entries w)"
proof -
  have "db_inv (w_db w)" unfolding assms(1) by (rule tq_reachable_inv)
  from ready_check [OF this assms(2-4)] show ?thesis by metis
qed

text \<open>A world with one task in the queue of a terminal that has reported that it is idle.\<close>

definition demo_moment :: moment where
  "demo_moment = \<lparr>mo_calls = [], mo_events = [], mo_now = 0, mo_epoch = 0,
     mo_status = Inr (Some \<lparr>si_session = ''s'', si_status = session_status.Idle, si_last_output_at = 0, si_pid = None,
       si_exit_code = None, si_tool_name = None, si_tool_use_id = None, si_tool_summary = None, si_updated_at = 0\<rparr>),
     mo_authority = Inr ExclusiveInProcess, mo_submit = Inr (), mo_images = Inr\<rparr>"

definition demo_setting :: setting where
  "demo_setting = \<lparr>st_json = (\<lambda>_. []), st_moment = (\<lambda>_. demo_moment)\<rparr>"

definition demo_world :: world where
  "demo_world = \<lparr>w_db = tq_run [(1, QAdd ''a'' ''s'' demo_draft)] (db_initial 0),
     w_entries = [''s'' \<mapsto> (entry_new 0 0)\<lparr>se_status := session_status.Idle\<rparr>], w_sent = [], w_clock = 0\<rparr>"

lemma demo_calm: "calm demo_setting ''s'' (w_entries demo_world) id"
  by (simp add: calm_def demo_setting_def demo_moment_def demo_world_def status_for_automatic_submit_def
      status_for_automatic_submit_at_def entry_new_def Let_def)

lemma demo_row:
  "ready_to_send (w_db demo_world) ''s'' (generation (w_db demo_world))"
  "ir_id (hd (rows_of (w_db demo_world) ''s'')) = ''a'' \<and> ir_text (hd (rows_of (w_db demo_world) ''s'')) = ''hi''
     \<and> ir_images (hd (rows_of (w_db demo_world) ''s'')) = []"
  "active_token (w_db demo_world) ''s'' = None"
  by (simp_all add: demo_world_def committed_def add_item_def draft_validated_def demo_draft_def
      trim_hi TASK_QUEUE_MAX_TEXT_BYTES_def TASK_QUEUE_MAX_IMAGE_REFS_def db_initial_def
      ensure_runtime_def ensure_queue_def queue_of_def rows_of_def commit_snapshot_def
      read_snapshot_def read_runtime_def bump_queue_revision_def update_queue_def fresh_queue_def
      items_of_def next_position_def ready_to_send_def generation_def active_token_def Let_def)

theorem ready_head_is_sent_witness:
  "\<exists>w'. check_session backend_gateway demo_setting ''t1'' ''s'' 2 demo_world = (Inr (Submitted ''a''), w')
    \<and> w_sent w' = [(''s'', ''hi'')]"
proof -
  have w: "w_db demo_world = tq_run [(1, QAdd ''a'' ''s'' demo_draft)] (db_initial 0)" "w_sent demo_world = []"
    by (simp_all add: demo_world_def)
  show ?thesis
    using ready_head_is_sent [OF w(1) demo_row(1) demo_calm refl, of "''t1''" 2] demo_row(2) w(2)
    by (auto simp: compose_prompt_def trim_hi)
qed

theorem dispatch_outcome_is_true_witness:
  "case check_session backend_gateway demo_setting ''t1'' ''s'' 2 demo_world of (r, w') \<Rightarrow>
     (case r of Inl _ \<Rightarrow> w_sent w' = [] | Inr _ \<Rightarrow> active_token (w_db w') ''s'' \<noteq> Some ''t1'')"
proof -
  obtain r w' where run: "check_session backend_gateway demo_setting ''t1'' ''s'' 2 demo_world = (r, w')"
    by fastforce
  have w: "w_db demo_world = tq_run [(1, QAdd ''a'' ''s'' demo_draft)] (db_initial 0)" "w_sent demo_world = []"
    by (simp_all add: demo_world_def)
  have "active_token (w_db demo_world) ''s'' \<noteq> Some ''t1''" using demo_row(3) by simp
  moreover have "others demo_setting ''t1''" by (simp add: others_def demo_setting_def demo_moment_def)
  ultimately show ?thesis
    using dispatch_outcome_is_true [OF w(1) _ _ run] run w(2) by (simp split: sum.splits)
qed

end
