(* ===== verification/Dispatch_Properties.thy ===== *)
theory Dispatch_Properties
  imports Task_Dispatch
begin

text \<open>
  What the dispatcher, the queue and the session state machine guarantee together
  (\<open>task_queue_dispatcher.rs\<close>, \<open>session_state_machine.rs\<close>, \<open>task_queue_worker.rs\<close>): one task for
  one observation of an idle terminal, fairness of the level scan, and what a failing backend
  does to a claim.
\<close>

subsection \<open>One task for one observation\<close>

text \<open>Six seconds from \<open>T\<close> on in which no event of the session arrives.\<close>

definition resting_time :: "setting \<Rightarrow> string \<Rightarrow> instant \<Rightarrow> bool" where
  "resting_time S sid T \<longleftrightarrow>
     (\<forall>n. list_all (quiet_for sid) (mo_events (st_moment S n))
        \<and> T \<le> mo_now (st_moment S n) \<and> mo_now (st_moment S n) < T + from_millis 6000)"

text \<open>The last observation of the session has been used at or after \<open>T\<close>.\<close>

definition used :: "string \<Rightarrow> instant \<Rightarrow> world \<Rightarrow> bool" where
  "used sid T w \<longleftrightarrow> (\<exists>t \<ge> T. armed t (w_entries w sid))"

lemma validD: "valid P f Q \<Longrightarrow> f w = (r, w') \<Longrightarrow> P w \<Longrightarrow> Q r w'"
  by (auto simp: valid_def)

lemma stable_used: "resting_time S sid T \<Longrightarrow> stable S (\<lambda>w. used sid T w \<and> w_sent w = sent)"
  unfolding stable_def used_def tick_def resting_time_def
  by (auto simp: moment_of_def intro: armed_run)

lemma stable_used_only: "resting_time S sid T \<Longrightarrow> stable S (used sid T)"
  unfolding stable_def used_def tick_def resting_time_def
  by (auto simp: moment_of_def intro: armed_run)

lemma used_db [simp]: "used sid T (w\<lparr>w_db := d\<rparr>) = used sid T w"
  by (simp add: used_def)

lemma valid_transact_keep:
  "stable S P \<Longrightarrow> (\<And>w d. P w \<Longrightarrow> P (w\<lparr>w_db := d\<rparr>)) \<Longrightarrow> valid P (transact S f) (\<lambda>r w. P w)"
  by (rule valid_transact) (auto split: sum.split)

lemma used_not_idle:
  assumes "used sid T w" and "now < T + from_millis 6000"
  shows "status_for_automatic_submit now epoch sid backend at (w_entries w) \<noteq> session_status.Idle"
  using assms
  by (auto simp: used_def armed_def status_for_automatic_submit_def status_for_automatic_submit_at_def
      as_millis_ge_iff AUTOMATIC_SUBMIT_FALLBACK_IDLE_MS_def time_defs split: option.splits if_splits)

lemma used_not_ready:
  assumes r: "resting_time S sid T"
  shows "valid (\<lambda>w. used sid T w \<and> w_sent w = sent) (gateway_readiness S sid)
    (\<lambda>r w. r \<noteq> Inr Ready \<and> used sid T w \<and> w_sent w = sent)"
proof -
  let ?P = "\<lambda>w. used sid T w \<and> w_sent w = sent"
  have tick: "?P (tick S w)" if "?P w" for w using stable_used [OF r, of sent] that by (simp add: stable_def)
  have ask: "valid ?P (ask S (\<lambda>m w. Inr (status_for_automatic_submit (mo_now m) (mo_epoch m) sid
        (si_status i) (si_last_output_at i) (w_entries w))))
      (\<lambda>r w. r \<noteq> Inr session_status.Idle \<and> ?P w)" for i :: status_info
    using tick used_not_idle [of sid T] r by (simp add: valid_def ask_def resting_time_def moment_of_def)
  have cont: "valid (\<lambda>w. Inr x \<noteq> Inr session_status.Idle \<and> ?P w) (case x of
        session_status.Idle \<Rightarrow> bind_action (ask S (\<lambda>m w. mo_authority m)) (\<lambda>a.
            return_action (if a = Unavailable then NoWriteAuthority else Ready))
      | session_status.WaitingInput \<Rightarrow> return_action WaitingForInput
      | session_status.Error \<Rightarrow> return_action SessionFailed
      | session_status.Exited \<Rightarrow> return_action SessionGone
      | _ \<Rightarrow> return_action Confirming) (\<lambda>r w. r \<noteq> Inr Ready \<and> ?P w)" for x
    by (cases x) (auto simp: valid_def return_action_def)
  show ?thesis
    unfolding gateway_readiness_def
  proof (rule valid_bind [OF valid_ask [OF stable_used [OF r]]])
    show "valid ?P (case status of None \<Rightarrow> return_action SessionGone
        | Some i \<Rightarrow> bind_action (ask S (\<lambda>m w. Inr (status_for_automatic_submit (mo_now m) (mo_epoch m) sid
              (si_status i) (si_last_output_at i) (w_entries w)))) (\<lambda>x. case x of
            session_status.Idle \<Rightarrow> bind_action (ask S (\<lambda>m w. mo_authority m)) (\<lambda>a.
                return_action (if a = Unavailable then NoWriteAuthority else Ready))
          | session_status.WaitingInput \<Rightarrow> return_action WaitingForInput
          | session_status.Error \<Rightarrow> return_action SessionFailed
          | session_status.Exited \<Rightarrow> return_action SessionGone
          | _ \<Rightarrow> return_action Confirming)) (\<lambda>r w. r \<noteq> Inr Ready \<and> ?P w)" for status :: "status_info option"
    proof (cases status)
      case (Some i)
      then show ?thesis by (simp only: option.case) (rule valid_bind [OF ask cont], simp)
    qed (simp add: valid_def return_action_def)
  qed simp
qed

lemma used_nothing_sent:
  assumes r: "resting_time S sid T"
  shows "valid (\<lambda>w. used sid T w \<and> w_sent w = sent) (check_session backend_gateway S uuid sid now)
    (\<lambda>r w. w_sent w = sent)"
proof -
  let ?P = "\<lambda>w. used sid T w \<and> w_sent w = sent"
  have tr: "valid ?P (transact S f) (\<lambda>r w. ?P w)" for f :: "db \<Rightarrow> app_error + db \<times> 'a"
    by (rule valid_transact_keep [OF stable_used [OF r]]) (simp add: used_def)
  have ret: "valid ?P (return_action x :: (app_error, dispatch_outcome) action) (\<lambda>r w. w_sent w = sent)" for x
    by (rule valid_return) simp
  have pers: "valid ?P (persist_readiness S sid rd now) (\<lambda>r w. ?P w)" for rd
    unfolding persist_readiness_def Let_def
    by (cases rd) (auto intro!: hoare valid_bind [OF tr])
  have head: "valid ?P (check_head backend_gateway S uuid sid gen now) (\<lambda>r w. w_sent w = sent)" for gen
    unfolding check_head_def
  proof (rule valid_bind [where R = "\<lambda>r w. r \<noteq> Inr Ready \<and> ?P w"])
    show "valid ?P (external (gt_readiness backend_gateway S sid)) (\<lambda>r w. r \<noteq> Inr Ready \<and> ?P w)"
      unfolding backend_gateway_def
      by (rule valid_external, simp, rule valid_weaken [OF used_not_ready [OF r]]) (auto split: sum.split)
    show "valid (\<lambda>w. Inr rd \<noteq> Inr Ready \<and> ?P w) (if rd \<noteq> Ready
        then bind_action (persist_readiness S sid rd now) (\<lambda>_. return_action (Blocked rd))
        else claim_and_dispatch backend_gateway S uuid sid gen now) (\<lambda>r w. w_sent w = sent)" for rd
    proof -
      have "valid ?P (bind_action (persist_readiness S sid rd now) (\<lambda>_. return_action (Blocked rd)))
          (\<lambda>r w. w_sent w = sent)"
        by (rule valid_bind [OF pers ret]) simp
      then show ?thesis by (simp add: valid_def)
    qed
  qed simp
  have items: "valid ?P (case sn_items s of [] \<Rightarrow> return_action Noop
      | i # _ \<Rightarrow> if sn_paused s \<or> ti_state i \<noteq> Queued then return_action Noop
          else check_head backend_gateway S uuid sid gen now) (\<lambda>r w. w_sent w = sent)" for s :: snapshot and gen
    using ret head by (cases "sn_items s") simp_all
  have "valid ?P (bind_action (transact S (get_snapshot sid)) (\<lambda>s. case sn_items s of [] \<Rightarrow> return_action Noop
        | i # _ \<Rightarrow> if sn_paused s \<or> ti_state i \<noteq> Queued then return_action Noop
            else check_head backend_gateway S uuid sid gen now)) (\<lambda>r w. w_sent w = sent)" for gen
    by (rule valid_bind [OF tr items]) simp
  with ret have "valid ?P (if \<not> rt_enabled rt then return_action (Blocked GloballyDisabled)
      else bind_action (transact S (get_snapshot sid)) (\<lambda>s. case sn_items s of [] \<Rightarrow> return_action Noop
        | i # _ \<Rightarrow> if sn_paused s \<or> ti_state i \<noteq> Queued then return_action Noop
            else check_head backend_gateway S uuid sid (rt_generation rt) now)) (\<lambda>r w. w_sent w = sent)"
    for rt :: runtime
    by simp
  then show ?thesis unfolding check_session_def by (rule valid_bind [OF tr]) simp
qed

text \<open>A check that reports a submission has used the observation.\<close>

definition spent :: "string \<Rightarrow> instant \<Rightarrow> app_error + dispatch_outcome \<Rightarrow> world \<Rightarrow> bool" where
  "spent sid T r w = (case r of Inr (Submitted _) \<Rightarrow> used sid T w | _ \<Rightarrow> True)"

lemma spent_simps [simp]:
  "spent sid T (Inl e) w" "spent sid T (Inr Noop) w" "spent sid T (Inr (Blocked r)) w"
  "spent sid T (Inr (Requeued iid r)) w" "spent sid T (Inr (DispatchFailed iid)) w"
  "spent sid T (Inr (DeliveryLost iid)) w" "spent sid T (Inr (Submitted iid)) w = used sid T w"
  by (simp_all add: spent_def)

lemma spent_bind: "(\<And>x. valid (\<lambda>_. True) (g x) (spent sid T)) \<Longrightarrow> valid (\<lambda>_. True) (bind_action f g) (spent sid T)"
  by (rule valid_bind [where R = "\<lambda>_ _. True"]) (auto simp: valid_def)

lemma spent_return: "(\<And>w. spent sid T (Inr oc) w) \<Longrightarrow> valid (\<lambda>_. True) (return_action oc) (spent sid T)"
  by (rule valid_return) simp

lemma submitted_used:
  assumes r: "resting_time S sid T"
  shows "valid (\<lambda>_. True) (deliver_prompt backend_gateway S sid iid tk prompt now) (spent sid T)"
proof -
  have mark: "valid (\<lambda>_. True) (gateway_mark S sid) (\<lambda>r w. used sid T w)"
    using r by (auto simp: valid_def gateway_mark_def Let_def used_def armed_def resting_time_def
        mark_automatic_submit_started_def moment_of_def)
  have compl: "valid (used sid T) (service_complete_claim S sid iid tk now) (\<lambda>r w. used sid T w)"
    unfolding service_complete_claim_def
    by (rule valid_bind [OF valid_transact_keep valid_transact_keep]) (simp_all add: stable_used_only [OF r])
  have rest: "valid (used sid T) (bind_action (expect_current b) (\<lambda>_. return_action (Submitted iid)))
      (spent sid T)" for b
    by (simp add: valid_def expect_current_def bind_action_def return_action_def fail_action_def)
  have "valid (\<lambda>_. True) (bind_action (gateway_mark S sid) (\<lambda>_.
      bind_action (service_complete_claim S sid iid tk now) (\<lambda>b.
      bind_action (expect_current b) (\<lambda>_. return_action (Submitted iid))))) (spent sid T)"
    by (rule valid_bind [OF mark valid_bind [OF compl rest]]) simp_all
  then show ?thesis
    by (auto simp: valid_def deliver_prompt_def backend_gateway_def requeue_for_readiness_def bind_action_def
        return_action_def split: prod.splits sum.splits submit_failure.splits)
qed

lemma dispatched_used:
  assumes "resting_time S sid T"
  shows "valid (\<lambda>_. True) (dispatch_claim backend_gateway S sid cl now) (spent sid T)"
proof -
  have requeue: "valid (\<lambda>_. True) (requeue_for_readiness S sid iid tk rd now) (spent sid T)" for iid tk rd
    unfolding requeue_for_readiness_def by (rule spent_bind)+ (rule spent_return, simp)
  have fail: "valid (\<lambda>_. True) (bind_action (dispatch_fail_claim S sid iid tk e now)
      (\<lambda>_. return_action (DispatchFailed iid))) (spent sid T)" for iid tk e
    by (rule spent_bind) (rule spent_return, simp)
  have go: "valid (\<lambda>_. True) (bind_action (runtime_blocker S gen) (\<lambda>blocker.
      case blocker of Some r' \<Rightarrow> requeue_for_readiness S sid iid tk r' now
      | None \<Rightarrow> deliver_prompt backend_gateway S sid iid tk prompt now)) (spent sid T)" for gen iid tk prompt
    by (rule spent_bind) (simp add: requeue submitted_used [OF assms] split: option.split)
  show ?thesis
    unfolding dispatch_claim_def Let_def
  proof (rule spent_bind)
    fix rd
    let ?iid = "ti_id (cl_item cl)" and ?tk = "cl_token cl"
    let ?go = "\<lambda>prompt. bind_action (runtime_blocker S (cl_generation cl)) (\<lambda>blocker.
      case blocker of Some r' \<Rightarrow> requeue_for_readiness S sid ?iid ?tk r' now
      | None \<Rightarrow> deliver_prompt backend_gateway S sid ?iid ?tk prompt now)"
    let ?fail = "\<lambda>e. bind_action (dispatch_fail_claim S sid ?iid ?tk e now) (\<lambda>_. return_action (DispatchFailed ?iid))"
    have "valid (\<lambda>_. True) (\<lambda>w. case effective_prompt S sid (cl_item cl) w of
        (Inl e, w1) \<Rightarrow> ?fail e w1 | (Inr prompt, w1) \<Rightarrow> ?go prompt w1) (spent sid T)"
      unfolding valid_def
    proof (intro allI impI)
      fix w
      show "case (case effective_prompt S sid (cl_item cl) w of
          (Inl e, w1) \<Rightarrow> ?fail e w1 | (Inr prompt, w1) \<Rightarrow> ?go prompt w1) of (r, w') \<Rightarrow> spent sid T r w'"
        using validD [OF fail _ TrueI] validD [OF go _ TrueI]
        by (cases "effective_prompt S sid (cl_item cl) w"; cases "fst (effective_prompt S sid (cl_item cl) w)") auto
    qed
    with requeue show "valid (\<lambda>_. True) (if rd \<noteq> Ready then requeue_for_readiness S sid ?iid ?tk rd now
        else (\<lambda>w. case effective_prompt S sid (cl_item cl) w of
          (Inl e, w1) \<Rightarrow> ?fail e w1 | (Inr prompt, w1) \<Rightarrow> ?go prompt w1)) (spent sid T)"
      by simp
  qed
qed

lemma check_used:
  assumes "resting_time S sid T"
  shows "valid (\<lambda>_. True) (check_session backend_gateway S uuid sid now) (spent sid T)"
proof -
  have claim: "valid (\<lambda>_. True) (claim_and_dispatch backend_gateway S uuid sid gen now) (spent sid T)" for gen
    unfolding claim_and_dispatch_def
    by (rule spent_bind) (auto intro: spent_return dispatched_used [OF assms] split: option.split)
  have blocked: "valid (\<lambda>_. True) (bind_action (persist_readiness S sid rd now)
      (\<lambda>_. return_action (Blocked rd))) (spent sid T)" for rd
    by (rule spent_bind) (rule spent_return, simp)
  have head: "valid (\<lambda>_. True) (check_head backend_gateway S uuid sid gen now) (spent sid T)" for gen
    unfolding check_head_def by (rule spent_bind) (simp add: claim blocked)
  have "valid (\<lambda>_. True) (case sn_items s of [] \<Rightarrow> return_action Noop
      | i # _ \<Rightarrow> if sn_paused s \<or> ti_state i \<noteq> Queued then return_action Noop
          else check_head backend_gateway S uuid sid gen now) (spent sid T)" for s :: snapshot and gen
    using head by (cases "sn_items s") (auto intro: spent_return)
  then show ?thesis
    unfolding check_session_def
    by (intro spent_bind) (auto intro!: spent_bind spent_return)
qed

text \<open>C3: One observation of an idle terminal sends one task: after a check that submitted a task,
  and as long as no event of that session arrives and six seconds have not passed, no check sends
  anything to the session, whatever other calls of the queues happen and whatever the backend
  reports.\<close>

theorem one_task_per_observation:
  assumes "check_session backend_gateway S uuid sid now w = (Inr (Submitted iid), w1)"
    and "resting_time S sid T"
    and "check_session backend_gateway S uuid' sid now' w1 = (r, w2)"
  shows "w_sent w2 = w_sent w1"
proof -
  have "used sid T w1" using validD [OF check_used [OF assms(2)] assms(1) TrueI] by simp
  then show ?thesis
    using validD [OF used_nothing_sent [OF assms(2), of "w_sent w1"] assms(3)] by simp
qed

theorem one_task_per_observation_witness:
  "case check_session backend_gateway demo_setting ''t1'' ''s'' 2 demo_world of (_, w1) \<Rightarrow>
     w_sent w1 \<noteq> [] \<and> w_sent (snd (check_session backend_gateway demo_setting ''t2'' ''s'' 3 w1)) = w_sent w1"
proof -
  have inv: "db_inv (w_db demo_world)" unfolding demo_world_def by (simp only: world.simps tq_reachable_inv)
  obtain w1 where w1: "check_session backend_gateway demo_setting ''t1'' ''s'' 2 demo_world = (Inr (Submitted ''a''), w1)"
    and "w_sent w1 \<noteq> []"
    by (rule ready_check [OF inv demo_row(1) demo_calm refl, of "''t1''" 2]) (use demo_row(2) in simp)
  moreover have "resting_time demo_setting ''s'' 0"
    by (simp add: resting_time_def demo_setting_def demo_moment_def time_defs)
  moreover obtain r w2 where w2: "check_session backend_gateway demo_setting ''t2'' ''s'' 3 w1 = (r, w2)"
    by fastforce
  ultimately show ?thesis
    using one_task_per_observation [OF w1 _ w2, of 0] by simp
qed

subsection \<open>The level scan is fair\<close>

text \<open>\<open>k\<close> scans in a row of the same active sessions.\<close>

primrec scan_times :: "nat \<Rightarrow> string list \<Rightarrow> nat \<Rightarrow> nat \<Rightarrow> string list list" where
  "scan_times 0 sessions cursor limit = []"
| "scan_times (Suc k) sessions cursor limit =
     (case next_scan_batch sessions cursor limit of (batch, cursor') \<Rightarrow>
        batch # scan_times k sessions cursor' limit)"

lemma scan_times_visits:
  assumes "sessions \<noteq> []" and "0 < limit"
  shows "concat (scan_times k sessions cursor limit) =
    map (\<lambda>i. sessions ! ((cursor + i) mod length sessions)) [0..<k * min (length sessions) limit]"
proof (induction k arbitrary: cursor)
  case (Suc k)
  let ?n = "length sessions"
  let ?m = "min ?n limit"
  have "concat (scan_times (Suc k) sessions cursor limit) =
      map (\<lambda>i. sessions ! ((cursor + i) mod ?n)) [0..<?m]
      @ map (\<lambda>i. sessions ! ((cursor + (?m + i)) mod ?n)) [0..<k * ?m]"
    using assms by (simp add: next_scan_batch_def Suc.IH Let_def mod_simps add.assoc)
  also have "map (\<lambda>i. sessions ! ((cursor + (?m + i)) mod ?n)) [0..<k * ?m] =
      map (\<lambda>i. sessions ! ((cursor + i) mod ?n)) [?m..<?m + k * ?m]"
    by (simp add: map_add_upt [symmetric] comp_def add.commute [of ?m])
  finally show ?case by (simp add: upt_add_eq_append [of 0] flip: map_append)
qed simp

lemma rotation_covers:
  assumes "n \<le> m" and "i < n"
  shows "\<exists>j < m. (c + j) mod n = (i :: nat)"
proof -
  let ?j = "(i + (n - c mod n)) mod n"
  have "c mod n < n" using assms(2) by simp
  then have "c mod n + (i + (n - c mod n)) = i + n" by arith
  moreover have "(c + ?j) mod n = (c mod n + (i + (n - c mod n))) mod n" by (simp add: mod_simps)
  ultimately have "(c + ?j) mod n = i" using assms(2) by simp
  moreover have "?j < m" using assms mod_less_divisor [of n "i + (n - c mod n)"] by linarith
  ultimately show ?thesis by blast
qed

lemma rotation_inj:
  assumes "i < n" and "j < n" and "(c + i) mod n = (c + j) mod n"
  shows "i = (j :: nat)"
  using assms
proof (induction i j rule: linorder_wlog)
  case (le a b)
  then have "n dvd (c + b) - (c + a)" using mod_eq_dvd_iff_nat [of "c + a" "c + b" n] by simp
  then have "n dvd b - a" by simp
  moreover have "b - a < n" using le by simp
  ultimately show ?case using le by (auto dest: dvd_imp_le)
qed simp

lemma batch_distinct:
  assumes "distinct sessions"
  shows "distinct (fst (next_scan_batch sessions cursor limit)) \<and> length (fst (next_scan_batch sessions cursor limit)) \<le> limit"
proof -
  let ?n = "length sessions"
  have "inj_on (\<lambda>i. sessions ! ((cursor mod ?n + i) mod ?n)) {0..<min ?n limit}"
  proof (rule inj_onI)
    fix i j assume ij: "i \<in> {0..<min ?n limit}" "j \<in> {0..<min ?n limit}"
      and "sessions ! ((cursor mod ?n + i) mod ?n) = sessions ! ((cursor mod ?n + j) mod ?n)"
    then have "(cursor mod ?n + i) mod ?n = (cursor mod ?n + j) mod ?n"
      using assms mod_less_divisor [of ?n] by (subst (asm) nth_eq_iff_index_eq) (auto intro: mod_less_divisor)
    then show "i = j" using ij rotation_inj [of i ?n j "cursor mod ?n"] by simp
  qed
  then show ?thesis by (simp add: next_scan_batch_def distinct_map Let_def)
qed

lemma scans_are_batches:
  assumes "batch \<in> set (scan_times k sessions cursor limit)"
  shows "\<exists>c. batch = fst (next_scan_batch sessions c limit)"
  using assms
proof (induction k arbitrary: cursor)
  case (Suc k)
  then show ?case by (cases "next_scan_batch sessions cursor limit") (auto intro: exI [of _ cursor])
qed simp

text \<open>The level scan starves no session: of any active sessions and from any cursor, as many
  scans as it takes to hand out 64 at a time visit every one of them, each scan visits at most 64
  and none of them twice.\<close>

theorem scan_starves_nobody:
  assumes "length sessions \<le> k * LEVEL_SCAN_BATCH_SIZE" and "distinct sessions"
  shows "set (concat (scan_times k sessions cursor LEVEL_SCAN_BATCH_SIZE)) = set sessions
    \<and> list_all (\<lambda>batch. length batch \<le> LEVEL_SCAN_BATCH_SIZE \<and> distinct batch)
        (scan_times k sessions cursor LEVEL_SCAN_BATCH_SIZE)"
proof (intro conjI)
  let ?n = "length sessions"
  show "set (concat (scan_times k sessions cursor LEVEL_SCAN_BATCH_SIZE)) = set sessions"
  proof (cases "sessions = []")
    case True
    have "batch = []" if "batch \<in> set (scan_times k sessions cursor LEVEL_SCAN_BATCH_SIZE)" for batch
      using scans_are_batches [OF that] True by (auto simp: next_scan_batch_def)
    with True show ?thesis by auto
  next
    case False
    let ?m = "k * min ?n LEVEL_SCAN_BATCH_SIZE"
    have m: "?n \<le> ?m" using assms(1) False by (cases k) (auto simp: min_def)
    have visits: "concat (scan_times k sessions cursor LEVEL_SCAN_BATCH_SIZE) =
        map (\<lambda>i. sessions ! ((cursor + i) mod ?n)) [0..<?m]"
      by (rule scan_times_visits [OF False]) (simp add: LEVEL_SCAN_BATCH_SIZE_def)
    have "sessions ! i \<in> (\<lambda>i. sessions ! ((cursor + i) mod ?n)) ` {0..<?m}" if "i < ?n" for i
      using rotation_covers [OF m that, of cursor] by force
    then show ?thesis unfolding visits using False by (auto simp: set_conv_nth [of sessions] image_subset_iff)
  qed
  show "list_all (\<lambda>batch. length batch \<le> LEVEL_SCAN_BATCH_SIZE \<and> distinct batch)
      (scan_times k sessions cursor LEVEL_SCAN_BATCH_SIZE)"
    using scans_are_batches [of _ k sessions cursor LEVEL_SCAN_BATCH_SIZE] batch_distinct [OF assms(2)]
    by (fastforce simp: list_all_iff)
qed

theorem scan_starves_nobody_witness:
  "set (concat (scan_times 1 [''a'', ''b''] 5 LEVEL_SCAN_BATCH_SIZE)) = {''a'', ''b''}"
  using scan_starves_nobody [of "[''a'', ''b'']" 1 5] by (simp add: LEVEL_SCAN_BATCH_SIZE_def)

subsection \<open>A backend that fails at the wrong moment\<close>

text \<open>Nobody else acts.\<close>

definition quiet_setting :: "setting \<Rightarrow> bool" where
  "quiet_setting S \<longleftrightarrow> (\<forall>n. mo_calls (st_moment S n) = [] \<and> mo_events (st_moment S n) = [])"

lemma quiet_tick: "quiet_setting S \<Longrightarrow> tick S w = w\<lparr>w_clock := w_clock w + 1\<rparr>"
  by (simp add: quiet_setting_def tick_def moment_of_def Let_def tq_run_def)

lemma quiet_transact:
  "quiet_setting S \<Longrightarrow> f (w_db w) = Inr (d, x) \<Longrightarrow>
     transact S f w = (Inr x, w\<lparr>w_db := d, w_clock := w_clock w + 1\<rparr>)"
  by (simp add: transact_def quiet_tick Let_def)

lemma dispatching_head_not_sent:
  assumes "db_inv (w_db w)" and "held (w_db w) sid iid tk" and "db_runtime (w_db w) = Some rt" and "rt_enabled rt"
    and "quiet_setting S"
  shows "check_session backend_gateway S uuid sid now w = (Inr Noop, w\<lparr>w_clock := w_clock w + 2\<rparr>)"
proof -
  obtain i its where rows: "rows_of (w_db w) sid = i # its" "ir_state i = ItemDispatching"
    using assms(2) unfolding held_def by blast
  then obtain q where "queue_of (w_db w) sid = Some q" using active_token_head(2) [OF assms(1)] by blast
  from snapshot_reads [OF assms(3) this] obtain s where
    s: "get_snapshot sid (w_db w) = Inr (w_db w, s)" "sn_items s = fetch_items (w_db w) sid" by metis
  have items: "sn_items s = parse_raw_item i # map parse_raw_item its"
    using rows s(2) by (simp add: fetch_items_def db_inv_items_of [OF assms(1)])
  show ?thesis
    using quiet_transact [OF assms(5), of "read_only read_runtime" w "w_db w" rt]
      quiet_transact [OF assms(5), of "get_snapshot sid" "w\<lparr>w_clock := w_clock w + 1\<rparr>" "w_db w" s]
      assms(3,4) s(1) items rows(2)
    by (simp add: check_session_def bind_action_def read_only_def read_runtime_def parse_raw_item_def return_action_def)
qed

text \<open>A status query that fails after the claim leaves the claim behind: when the backend
  cannot answer the second readiness question of a dispatch, the check ends with that error, the
  task stays marked as being sent although nothing was sent, and every later check of the session
  passes over it.\<close>

theorem readiness_error_strands_claim:
  assumes "w_db w = tq_run cs (db_initial t)" and "held (w_db w) sid (ti_id (cl_item cl)) (cl_token cl)"
    and "read_runtime (w_db w) = Inr rt" and "rt_enabled rt \<and> rt_generation rt = cl_generation cl"
    and "quiet_setting S" and "mo_status (st_moment S (Suc (w_clock w))) = Inl e"
  shows "\<exists>w'. dispatch_claim backend_gateway S sid cl now w = (Inl (External (ge_code e) (ge_message e)), w')
    \<and> w_db w' = w_db w \<and> w_sent w' = w_sent w
    \<and> fst (check_session backend_gateway S uuid sid now' w') = Inr Noop"
proof -
  have inv: "db_inv (w_db w)" unfolding assms(1) by (rule tq_reachable_inv)
  have rt: "db_runtime (w_db w) = Some rt" using assms(3) by (auto simp: read_runtime_def split: option.splits)
  let ?w1 = "w\<lparr>w_clock := w_clock w + 1\<rparr>"
  let ?w2 = "w\<lparr>w_clock := w_clock w + 2\<rparr>"
  have "runtime_blocker S (cl_generation cl) w = (Inr None, ?w1)"
    using quiet_transact [OF assms(5), of "read_only read_runtime" w "w_db w" rt] assms(3,4)
    by (simp add: runtime_blocker_def bind_action_def return_action_def read_only_def)
  moreover have "gateway_readiness S sid ?w1 = (Inl e, ?w2)"
    using assms(6) by (simp add: gateway_readiness_def bind_action_def ask_def moment_of_def quiet_tick [OF assms(5)])
  ultimately have "dispatch_claim backend_gateway S sid cl now w = (Inl (External (ge_code e) (ge_message e)), ?w2)"
    by (simp add: dispatch_claim_def second_readiness_def bind_action_def backend_gateway_def external_def Let_def)
  moreover have "check_session backend_gateway S uuid sid now' ?w2 = (Inr Noop, ?w2\<lparr>w_clock := w_clock ?w2 + 2\<rparr>)"
    using dispatching_head_not_sent [of ?w2, OF _ _ _ _ assms(5)] inv assms(2,4) rt by simp
  ultimately show ?thesis by simp
qed

theorem readiness_error_strands_claim_witness:
  "\<forall>e. \<exists>w cl w'. dispatch_claim backend_gateway (demo_setting\<lparr>st_moment := \<lambda>_. demo_moment\<lparr>mo_status := Inl e\<rparr>\<rparr>) ''s'' cl 3 w
      = (Inl (External (ge_code e) (ge_message e)), w') \<and> active_token (w_db w') ''s'' = Some ''t1''"
proof
  fix e
  let ?S = "demo_setting\<lparr>st_moment := \<lambda>_. demo_moment\<lparr>mo_status := Inl e\<rparr>\<rparr>"
  let ?cs = "[(1, QAdd ''a'' ''s'' demo_draft), (2, QClaim ''t1'' ''s'' 0)]"
  let ?d0 = "tq_run [(1, QAdd ''a'' ''s'' demo_draft)] (db_initial 0)"
  let ?w = "demo_world\<lparr>w_db := tq_run ?cs (db_initial 0)\<rparr>"
  have inv: "db_inv ?d0" by (rule tq_reachable_inv)
  obtain d1 cl where cl: "claim_next ''t1'' ''s'' 0 2 ?d0 = Inr (d1, Some cl)" using demo_claim by blast
  then have d1: "tq_run ?cs (db_initial 0) = d1" by (simp add: tq_run_def committed_def)
  have held: "held d1 ''s'' (ti_id (cl_item cl)) (cl_token cl)" using claim_gives_held [OF inv cl] by simp
  obtain rt where rt: "db_runtime d1 = Some rt" "rt_enabled rt" "rt_generation rt = 0" "cl_generation cl = 0"
    using claim_next_effect [OF inv cl] cl by (auto simp: claim_next_def Let_def split: sum.splits option.splits if_splits)
  obtain w' where "dispatch_claim backend_gateway ?S ''s'' cl 3 ?w = (Inl (External (ge_code e) (ge_message e)), w')"
    and "w_db w' = d1"
    using readiness_error_strands_claim [of ?w ?cs 0 "''s''" cl rt ?S e 3 "''t2''" 4] held rt d1
    by (auto simp: read_runtime_def quiet_setting_def demo_setting_def demo_moment_def)
  moreover have "active_token d1 ''s'' = Some ''t1''" using claim_gives_held [OF inv cl] by (simp add: held_def)
  ultimately show "\<exists>w cl w'. dispatch_claim backend_gateway ?S ''s'' cl 3 w
      = (Inl (External (ge_code e) (ge_message e)), w') \<and> active_token (w_db w') ''s'' = Some ''t1''" by blast
qed

end
