(* ===== verification/Replay_Buffer.thy ===== *)
theory Replay_Buffer
  imports Prelude
begin

text \<open>
  The two output buffers of a terminal session in
  \<open>cc-panes-core/src/services/terminal_service.rs\<close>: \<open>OutputBuffer\<close>, the plain text lines
  that agents and the UI read, and \<open>ReplayBuffer\<close>, the raw bytes and the screen photo
  (checkpoint) from which an attaching client rebuilds the terminal. Byte counters and
  sequence numbers are \<open>nat\<close>: they count bytes that were produced. \<open>strip_ansi\<close> rests on
  the crate \<open>strip_ansi_escapes\<close> and is the parameter \<open>strip\<close>.
\<close>

subsection \<open>Escape sequences cut by a read\<close>

definition MAX_CSI_CARRY :: nat where
  "MAX_CSI_CARRY = 128"

definition MAX_STRING_ESCAPE_CARRY :: nat where
  "MAX_STRING_ESCAPE_CARRY = 4096"

definition string_escape_kind :: "char \<Rightarrow> bool" where
  "string_escape_kind k = (k \<in> set '']PX^_'')"

definition escape_carry_limit :: "bytes \<Rightarrow> nat" where
  "escape_carry_limit candidate =
     (case candidate of _ # k # _ \<Rightarrow>
        (if string_escape_kind k then MAX_STRING_ESCAPE_CARRY else MAX_CSI_CARRY)
      | _ \<Rightarrow> MAX_CSI_CARRY)"

definition is_complete_escape :: "bytes \<Rightarrow> bool" where
  "is_complete_escape candidate =
     (case candidate of
        _ # k # rest \<Rightarrow>
          (if k = CHR ''['' then list_ex (byte_in 0x40 0x7E) rest
           else if string_escape_kind k then BEL \<in> set rest \<or> sublist [ESC, CHR 0x5C] rest
           else True)
      | _ \<Rightarrow> False)"

text \<open>\<open>text.rfind(ESC)\<close>: the text before the last escape character and the text from it.\<close>

definition rsplit_esc :: "bytes \<Rightarrow> (bytes \<times> bytes) option" where
  "rsplit_esc s =
     (if ESC \<in> set s
      then (let candidate = ESC # rev (takeWhile (\<lambda>b. b \<noteq> ESC) (rev s))
            in Some (take (length s - length candidate) s, candidate))
      else None)"

definition split_trailing_incomplete_escape :: "bytes \<Rightarrow> bytes \<times> bytes" where
  "split_trailing_incomplete_escape s =
     (case rsplit_esc s of
        None \<Rightarrow> (s, [])
      | Some (pre, candidate) \<Rightarrow>
          (if escape_carry_limit candidate < length candidate \<or> is_complete_escape candidate
           then (s, []) else (pre, candidate)))"

subsection \<open>Spinner lines\<close>

definition spinner_decorations :: "bytes list" where
  "spinner_decorations =
     [[CHR 0xE2, CHR 0x9C, CHR 0xBB], [CHR 0xE2, CHR 0x9C, CHR 0xBD],
      [CHR 0xE2, CHR 0x9C, CHR 0xB6], [CHR 0xE2, CHR 0x9C, CHR 0xA2],
      [CHR 0xE2, CHR 0x97, CHR 0x8F], [CHR 0xC2, CHR 0xB7], [CHR ''*''],
      [CHR 0xE2, CHR 0x97, CHR 0x8B], [CHR 0xE2, CHR 0x97, CHR 0x89],
      [CHR 0xE2, CHR 0x97, CHR 0x8C], [CHR 0xE2, CHR 0x97, CHR 0xA6],
      [CHR 0xE2, CHR 0x80, CHR 0xA2]]"

definition is_spinner_decoration :: "bytes \<Rightarrow> bool" where
  "is_spinner_decoration ch = (ch \<in> set spinner_decorations)"

definition char_is_digit :: "bytes \<Rightarrow> bool" where
  "char_is_digit ch = (case ch of [b] \<Rightarrow> is_ascii_digit b | _ \<Rightarrow> False)"

definition char_is_ws :: "bytes \<Rightarrow> bool" where
  "char_is_ws ch = (ch \<in> set unicode_ws)"

definition char_is_alpha :: "bytes \<Rightarrow> bool" where
  "char_is_alpha ch =
     (case ch of [b] \<Rightarrow> byte_in 65 90 b \<or> byte_in 97 122 b | _ \<Rightarrow> False)"

fun normalize_chars :: "bytes \<Rightarrow> bytes option \<Rightarrow> bytes list \<Rightarrow> bytes" where
  "normalize_chars acc prev [] = acc"
| "normalize_chars acc prev (ch # chs) =
     (if is_spinner_decoration ch \<or> char_is_digit ch then normalize_chars acc prev chs
      else if char_is_alpha ch then
        (let lower = map to_ascii_lower ch
         in if prev = Some lower then normalize_chars acc prev chs
            else normalize_chars (acc @ lower) (Some lower) chs)
      else if char_is_ws ch then
        normalize_chars (if suffix '' '' acc then acc else acc @ '' '') None chs
      else normalize_chars (acc @ ch) None chs)"

definition normalize_spinner_line :: "string \<Rightarrow> string" where
  "normalize_spinner_line line =
     trim (normalize_chars [] None
       (dropWhile (\<lambda>ch. is_spinner_decoration ch \<or> char_is_digit ch \<or> char_is_ws ch)
         (utf8_chars (trim line))))"

definition SPINNER_WORDS :: "string list" where
  "SPINNER_WORDS = [''reticulating'', ''simering'', ''swirling'', ''whirlpooling'',
     ''quantumizing'', ''synthesizing'', ''materializing'', ''crystalizing'', ''harmonizing'',
     ''calibrating'', ''percolating'', ''amalgamating'', ''coalescing'', ''bondogling'',
     ''churned'']"

definition is_spinner_line :: "string \<Rightarrow> bool" where
  "is_spinner_line line =
     (let t = normalize_spinner_line line
      in if t = [] then False
         else if list_ex (\<lambda>w. prefix w t) SPINNER_WORDS then True
         else t = ''thinking more'' \<or> t = ''almost done thinking''
           \<or> prefix ''thinking more '' t \<or> prefix ''almost done thinking '' t
           \<or> t = ''working'' \<or> prefix ''working('' t \<or> prefix ''working ('' t
           \<or> prefix ''workinw'' t \<or> prefix ''waiting for background terminal'' t)"

subsection \<open>The buffer of plain lines\<close>

record output_buffer =
  ob_lines :: "string list"
  ob_partial :: string
  ob_carry :: bytes
  ob_max_lines :: nat
  ob_total :: nat
  ob_max_bytes :: nat

definition output_new :: "nat \<Rightarrow> nat \<Rightarrow> output_buffer" where
  "output_new max_lines max_bytes =
     \<lparr>ob_lines = [], ob_partial = [], ob_carry = [], ob_max_lines = max_lines, ob_total = 0,
      ob_max_bytes = max_bytes\<rparr>"

definition push_line :: "string \<Rightarrow> output_buffer \<Rightarrow> output_buffer" where
  "push_line line b =
     (if is_spinner_line line then b
      else if trim line = [] \<and> ob_lines b \<noteq> [] \<and> trim (last (ob_lines b)) = [] then b
      else b\<lparr>ob_total := ob_total b + length line, ob_lines := ob_lines b @ [line]\<rparr>)"

fun evict_lines :: "nat \<Rightarrow> nat \<Rightarrow> string list \<Rightarrow> nat \<Rightarrow> string list \<times> nat" where
  "evict_lines max_lines max_bytes [] held = ([], held)"
| "evict_lines max_lines max_bytes (l # ls) held =
     (if max_lines < length (l # ls) \<or> max_bytes < held
      then evict_lines max_lines max_bytes ls (held - length l)
      else (l # ls, held))"

definition output_evict :: "output_buffer \<Rightarrow> output_buffer" where
  "output_evict b =
     (let (ls, held) = evict_lines (ob_max_lines b) (ob_max_bytes b) (ob_lines b) (ob_total b)
      in b\<lparr>ob_lines := ls, ob_total := held\<rparr>)"

fun push_parts :: "bytes list \<Rightarrow> output_buffer \<Rightarrow> output_buffer" where
  "push_parts [] b = b"
| "push_parts [p] b = b\<lparr>ob_partial := p\<rparr>"
| "push_parts (p # q # ps) b = push_parts (q # ps) (push_line p b)"

definition output_push :: "(bytes \<Rightarrow> bytes) \<Rightarrow> bytes \<Rightarrow> output_buffer \<Rightarrow> output_buffer" where
  "output_push strip txt b =
     (let (strippable, carry) = split_trailing_incomplete_escape (ob_carry b @ txt);
          b1 = b\<lparr>ob_carry := carry\<rparr>;
          clean = strip strippable
      in if clean = [] then b1
         else
           (let normalized = replace_all [CHR 0x0D] [CHR 0x0A]
                               (replace_all [CHR 0x0D, CHR 0x0A] [CHR 0x0A] clean);
                combined = ob_partial b1 @ normalized;
                b2 = push_parts (split_on (CHR 0x0A) combined) (b1\<lparr>ob_partial := []\<rparr>);
                b3 = (if 4096 < length (ob_partial b2)
                      then push_line (ob_partial b2) (b2\<lparr>ob_partial := []\<rparr>) else b2)
            in output_evict b3))"

definition output_shrink :: "nat \<Rightarrow> nat \<Rightarrow> output_buffer \<Rightarrow> output_buffer" where
  "output_shrink max_lines max_bytes b =
     output_evict (b\<lparr>ob_max_lines := max_lines, ob_max_bytes := max_bytes\<rparr>)"

definition get_recent :: "nat \<Rightarrow> output_buffer \<Rightarrow> string list" where
  "get_recent n b =
     (if n = 0 \<or> length (ob_lines b) \<le> n then ob_lines b
      else drop (length (ob_lines b) - n) (ob_lines b))"

subsection \<open>The replay buffer\<close>

definition LIVE_REPLAY_MIN_BYTES :: nat where
  "LIVE_REPLAY_MIN_BYTES = 8 * 1024 * 1024"

definition REPLAY_BYTES_PER_SCROLLBACK_ROW :: nat where
  "REPLAY_BYTES_PER_SCROLLBACK_ROW = 120"

definition live_replay_max_bytes :: "32 word \<Rightarrow> nat" where
  "live_replay_max_bytes scrollback_rows =
     max LIVE_REPLAY_MIN_BYTES (unat scrollback_rows * REPLAY_BYTES_PER_SCROLLBACK_ROW)"

definition CHECKPOINT_ANCHORING_ENABLED :: bool where
  "CHECKPOINT_ANCHORING_ENABLED = True"

definition CHECKPOINT_SNAPSHOT_MAX_BYTES :: nat where
  "CHECKPOINT_SNAPSHOT_MAX_BYTES = 8 * 1024 * 1024"

datatype buffer_mode = Normal | Alternate

record checkpoint =
  cp_epoch :: "64 word"
  cp_anchor :: nat
  cp_snapshot :: string
  cp_mode :: buffer_mode
  cp_cols :: "16 word"
  cp_rows :: "16 word"
  cp_at_ms :: "64 word"

datatype store_outcome =
    Accepted nat
  | RejectedEpochMismatch
  | RejectedStaleAnchor
  | RejectedAnchorGap
  | RejectedFutureAnchor
  | RejectedTooLarge

record recovery =
  rec_checkpoint :: "checkpoint option"
  rec_delta :: bytes
  rec_mode :: buffer_mode
  rec_end_seq :: nat
  rec_epoch :: "64 word"

record replay =
  rb_chunks :: "bytes list"
  rb_held :: nat
  rb_max :: nat
  rb_mode :: buffer_mode
  rb_epoch :: "64 word"
  rb_pushed :: nat
  rb_start :: nat
  rb_photo :: "checkpoint option"

definition replay_new :: "64 word \<Rightarrow> nat \<Rightarrow> replay" where
  "replay_new epoch max_bytes =
     \<lparr>rb_chunks = [], rb_held = 0, rb_max = max_bytes, rb_mode = Normal, rb_epoch = epoch,
      rb_pushed = 0, rb_start = 0, rb_photo = None\<rparr>"

text \<open>\<open>update_buffer_mode\<close> on the rest of the data from the index \<open>i\<close>; the loop condition
  \<open>i + 4 < len\<close> asks for five bytes.\<close>

definition alt_screen_codes :: "bytes list" where
  "alt_screen_codes = [''47'', ''1047'', ''1049'']"

lemma dropWhile_shorter: "dropWhile P (drop n s) = c # r \<Longrightarrow> length r < length s"
proof -
  assume "dropWhile P (drop n s) = c # r"
  then have "length (c # r) \<le> length (drop n s)" using length_dropWhile_le by metis
  then show ?thesis by simp
qed

function scan_mode :: "buffer_mode \<Rightarrow> bytes \<Rightarrow> buffer_mode" where
  "scan_mode m s =
     (if length s < 5 then m
      else if prefix [ESC, CHR ''['', CHR ''?''] s then
        (let code = takeWhile is_ascii_digit (drop 3 s)
         in (case dropWhile is_ascii_digit (drop 3 s) of
               [] \<Rightarrow> m
             | action # rest \<Rightarrow>
                 scan_mode
                   (if code \<in> set alt_screen_codes
                    then (if action = CHR ''h'' then Alternate
                          else if action = CHR ''l'' then Normal else m)
                    else m) rest))
      else scan_mode m (tl s))"
  by pat_completeness auto

termination
  by (relation "measure (\<lambda>(m, s). length s)") (auto dest: dropWhile_shorter)

declare scan_mode.simps [simp del]

definition drop_stale_photo :: "replay \<Rightarrow> replay" where
  "drop_stale_photo r =
     (case rb_photo r of
        Some cp \<Rightarrow> (if cp_anchor cp < rb_start r then r\<lparr>rb_photo := None\<rparr> else r)
      | None \<Rightarrow> r)"

fun evict_chunks :: "nat \<Rightarrow> bytes list \<Rightarrow> nat \<Rightarrow> nat \<Rightarrow> bytes list \<times> nat \<times> nat" where
  "evict_chunks max_bytes [] held start = ([], held, start)"
| "evict_chunks max_bytes (c # cs) held start =
     (if max_bytes < held then evict_chunks max_bytes cs (held - length c) (start + length c)
      else (c # cs, held, start))"

definition evict_front :: "replay \<Rightarrow> replay" where
  "evict_front r =
     (let (cs, held, start) = evict_chunks (rb_max r) (rb_chunks r) (rb_held r) (rb_start r)
      in drop_stale_photo (r\<lparr>rb_chunks := cs, rb_held := held, rb_start := start\<rparr>))"

definition replay_push :: "bytes \<Rightarrow> replay \<Rightarrow> replay" where
  "replay_push data r =
     (if data = [] then r
      else evict_front
        (r\<lparr>rb_mode := scan_mode (rb_mode r) data, rb_chunks := rb_chunks r @ [data],
           rb_held := rb_held r + length data, rb_pushed := rb_pushed r + length data\<rparr>))"

definition replay_shrink :: "nat \<Rightarrow> replay \<Rightarrow> replay" where
  "replay_shrink max_bytes r = evict_front (r\<lparr>rb_max := max_bytes\<rparr>)"

fun trim_chunks :: "nat \<Rightarrow> bytes list \<Rightarrow> nat \<Rightarrow> nat \<Rightarrow> bytes list \<times> nat \<times> nat" where
  "trim_chunks anchor [] held start = ([], held, start)"
| "trim_chunks anchor (c # cs) held start =
     (if anchor < start + length c then (c # cs, held, start)
      else trim_chunks anchor cs (held - length c) (start + length c))"

definition trim_before_anchor :: "nat \<Rightarrow> replay \<Rightarrow> replay" where
  "trim_before_anchor anchor r =
     (let (cs, held, start) = trim_chunks anchor (rb_chunks r) (rb_held r) (rb_start r)
      in r\<lparr>rb_chunks := cs, rb_held := held, rb_start := start\<rparr>)"

definition store_checkpoint :: "checkpoint \<Rightarrow> replay \<Rightarrow> replay \<times> store_outcome" where
  "store_checkpoint cp r =
     (if CHECKPOINT_SNAPSHOT_MAX_BYTES < length (cp_snapshot cp) then (r, RejectedTooLarge)
      else if cp_epoch cp \<noteq> rb_epoch r then (r, RejectedEpochMismatch)
      else if (case rb_photo r of Some old \<Rightarrow> cp_anchor cp \<le> cp_anchor old | None \<Rightarrow> False)
      then (r, RejectedStaleAnchor)
      else if cp_anchor cp < rb_start r then (r, RejectedAnchorGap)
      else if rb_pushed r < cp_anchor cp then (r, RejectedFutureAnchor)
      else (let r1 = r\<lparr>rb_photo := Some cp\<rparr>
            in (if CHECKPOINT_ANCHORING_ENABLED then trim_before_anchor (cp_anchor cp) r1 else r1,
                Accepted (cp_anchor cp))))"

text \<open>The photo when it is of this epoch and not older than the window.\<close>

definition valid_checkpoint :: "replay \<Rightarrow> checkpoint option" where
  "valid_checkpoint r =
     (case rb_photo r of
        Some cp \<Rightarrow> (if cp_epoch cp = rb_epoch r \<and> rb_start r \<le> cp_anchor cp then Some cp else None)
      | None \<Rightarrow> None)"

definition needs_checkpoint :: "nat \<Rightarrow> replay \<Rightarrow> bool" where
  "needs_checkpoint threshold r =
     (case valid_checkpoint r of
        Some cp \<Rightarrow> threshold < rb_pushed r - cp_anchor cp
      | None \<Rightarrow> False)"

fun concat_from :: "nat \<Rightarrow> nat \<Rightarrow> bytes list \<Rightarrow> bytes" where
  "concat_from anchor sq [] = []"
| "concat_from anchor sq (c # cs) =
     (if anchor \<le> sq then c
      else if anchor < sq + length c then c
      else []) @ concat_from anchor (sq + length c) cs"

definition concat_chunks_from :: "nat \<Rightarrow> replay \<Rightarrow> bytes" where
  "concat_chunks_from anchor r = concat_from anchor (rb_start r) (rb_chunks r)"

definition replay_snapshot :: "replay \<Rightarrow> bytes \<times> buffer_mode" where
  "replay_snapshot r =
     ((case (if CHECKPOINT_ANCHORING_ENABLED then valid_checkpoint r else None) of
         Some cp \<Rightarrow> cp_snapshot cp | None \<Rightarrow> []) @ concat (rb_chunks r),
      rb_mode r)"

definition recovery_snapshot :: "replay \<Rightarrow> recovery" where
  "recovery_snapshot r =
     (let (cp, delta) =
        (case valid_checkpoint r of
           Some cp \<Rightarrow> (Some cp, concat_chunks_from (cp_anchor cp) r)
         | None \<Rightarrow> (None, fst (replay_snapshot r)))
      in \<lparr>rec_checkpoint = cp, rec_delta = delta, rec_mode = rb_mode r,
          rec_end_seq = rb_pushed r, rec_epoch = rb_epoch r\<rparr>)"

subsection \<open>Pasting\<close>

definition BRACKETED_PASTE_START :: bytes where
  "BRACKETED_PASTE_START = ESC # ''[200~''"

definition BRACKETED_PASTE_END :: bytes where
  "BRACKETED_PASTE_END = ESC # ''[201~''"

definition wrap_bracketed_paste :: "bytes \<Rightarrow> bytes" where
  "wrap_bracketed_paste txt =
     BRACKETED_PASTE_START @ replace_all BRACKETED_PASTE_END [] txt @ BRACKETED_PASTE_END"

definition submit_delay_ms :: "nat \<Rightarrow> bool \<Rightarrow> nat" where
  "submit_delay_ms text_len paste_ready =
     (if paste_ready then 200 else min (200 + text_len div 512 * 30) 5000)"

subsection \<open>Dropping whole chunks from the front\<close>

text \<open>
  Eviction by size and trimming at an anchor are the same loop with another stop test. The
  law of the interface is that loop; the client facts are that it drops a number of whole
  chunks and keeps the two accounts of the window.
\<close>

locale front_dropper =
  fixes loop :: "bytes list \<Rightarrow> nat \<Rightarrow> nat \<Rightarrow> bytes list \<times> nat \<times> nat"
    and stop :: "bytes \<Rightarrow> nat \<Rightarrow> nat \<Rightarrow> bool"
  assumes loop_Nil: "loop [] held start = ([], held, start)"
    and loop_Cons: "loop (c # cs) held start =
      (if stop c held start then (c # cs, held, start)
       else loop cs (held - length c) (start + length c))"
begin

lemma loop_drops:
  assumes "held = length (concat cs)"
  obtains j where "j \<le> length cs"
    "loop cs held start =
      (drop j cs, length (concat (drop j cs)), start + length (concat (take j cs)))"
proof -
  have "\<exists>j \<le> length cs. loop cs held start =
      (drop j cs, length (concat (drop j cs)), start + length (concat (take j cs)))"
    using assms
  proof (induction cs arbitrary: held start)
    case (Cons c cs)
    show ?case
    proof (cases "stop c held start")
      case True
      with Cons.prems show ?thesis by (intro exI [of _ 0]) (simp add: loop_Cons)
    next
      case False
      from Cons.IH [OF refl, of "start + length c"] obtain j where
        "j \<le> length cs"
        "loop cs (length (concat cs)) (start + length c) = (drop j cs, length (concat (drop j cs)),
          start + length c + length (concat (take j cs)))" by blast
      with False Cons.prems show ?thesis by (intro exI [of _ "Suc j"]) (simp add: loop_Cons)
    qed
  qed (simp add: loop_Nil)
  then show thesis using that by blast
qed

lemma loop_stops:
  "fst (loop cs held start) = [] \<or>
    stop (hd (fst (loop cs held start))) (fst (snd (loop cs held start))) (snd (snd (loop cs held start)))"
  by (induction cs arbitrary: held start) (simp_all add: loop_Nil loop_Cons)

end

interpretation evictor: front_dropper "evict_chunks m" "\<lambda>c held start. \<not> m < held" for m
  by unfold_locales simp_all

interpretation trimmer: front_dropper "trim_chunks a" "\<lambda>c held start. a < start + length c" for a
  by unfold_locales simp_all

subsection \<open>The replay buffer and the stream it was fed\<close>

datatype rb_op = RPush bytes | RShrink nat | RStore checkpoint

fun rb_exec :: "rb_op \<Rightarrow> replay \<Rightarrow> replay" where
  "rb_exec (RPush d) r = replay_push d r"
| "rb_exec (RShrink n) r = replay_shrink n r"
| "rb_exec (RStore cp) r = fst (store_checkpoint cp r)"

definition rb_run :: "rb_op list \<Rightarrow> replay \<Rightarrow> replay" where
  "rb_run ops r = fold rb_exec ops r"

fun pushed :: "rb_op list \<Rightarrow> bytes list" where
  "pushed [] = []"
| "pushed (RPush d # ops) = (if d = [] then [] else [d]) @ pushed ops"
| "pushed (_ # ops) = pushed ops"

lemma pushed_append: "pushed (xs @ ys) = pushed xs @ pushed ys"
  by (induction xs rule: pushed.induct) auto

lemma pushed_nonempty: "[] \<notin> set (pushed ops)"
  by (induction ops rule: pushed.induct) auto

text \<open>\<open>window ds r\<close>: the buffer holds the chunks of \<open>ds\<close> from some chunk on, and its
  counters and its photo agree with that.\<close>

definition window :: "bytes list \<Rightarrow> replay \<Rightarrow> bool" where
  "window ds r \<longleftrightarrow>
     (\<exists>k \<le> length ds. rb_chunks r = drop k ds \<and> rb_start r = length (concat (take k ds)))
     \<and> rb_held r = length (concat (rb_chunks r))
     \<and> rb_pushed r = length (concat ds)"

definition photo_ok :: "replay \<Rightarrow> bool" where
  "photo_ok r \<longleftrightarrow>
     (case rb_photo r of None \<Rightarrow> True
      | Some cp \<Rightarrow> cp_epoch cp = rb_epoch r \<and> rb_start r \<le> cp_anchor cp
          \<and> cp_anchor cp \<le> rb_pushed r \<and> length (cp_snapshot cp) \<le> CHECKPOINT_SNAPSHOT_MAX_BYTES)"

lemma drop_stale_frame [frame]:
  "rb_chunks (drop_stale_photo r) = rb_chunks r"
  "rb_start (drop_stale_photo r) = rb_start r"
  "rb_held (drop_stale_photo r) = rb_held r"
  "rb_pushed (drop_stale_photo r) = rb_pushed r"
  "rb_max (drop_stale_photo r) = rb_max r"
  "rb_epoch (drop_stale_photo r) = rb_epoch r"
  "rb_mode (drop_stale_photo r) = rb_mode r"
  by (simp_all add: drop_stale_photo_def split: option.split)

lemma drop_stale_photo_Some:
  "rb_photo (drop_stale_photo r) = Some cp \<longleftrightarrow> rb_photo r = Some cp \<and> rb_start r \<le> cp_anchor cp"
  by (auto simp: drop_stale_photo_def split: option.split)

lemma evict_front_frame [frame]:
  "rb_pushed (evict_front r) = rb_pushed r"
  "rb_epoch (evict_front r) = rb_epoch r"
  "rb_max (evict_front r) = rb_max r"
  "rb_mode (evict_front r) = rb_mode r"
  by (simp_all add: evict_front_def frame split: prod.split)

lemma window_shift:
  assumes "window ds r" and "j \<le> length (rb_chunks r)"
    and "rb_chunks r' = drop j (rb_chunks r)" and "rb_held r' = length (concat (rb_chunks r'))"
    and "rb_start r' = rb_start r + length (concat (take j (rb_chunks r)))"
    and "rb_pushed r' = rb_pushed r"
  shows "window ds r'"
proof -
  from assms(1) obtain k where k: "k \<le> length ds" "rb_chunks r = drop k ds"
    "rb_start r = length (concat (take k ds))" by (auto simp: window_def)
  have "concat (take (k + j) ds) = concat (take k ds) @ concat (take j (drop k ds))"
    by (simp add: take_add)
  with assms k show ?thesis
    unfolding window_def by (intro conjI exI [of _ "k + j"]) (simp_all add: add.commute)
qed

lemma evict_front_window:
  assumes "window ds r"
  shows "window ds (evict_front r)" and "rb_held (evict_front r) \<le> rb_max r"
    and "rb_start r \<le> rb_start (evict_front r)"
proof -
  have held: "rb_held r = length (concat (rb_chunks r))" using assms by (simp add: window_def)
  obtain j where j: "j \<le> length (rb_chunks r)"
    "evict_chunks (rb_max r) (rb_chunks r) (rb_held r) (rb_start r) =
      (drop j (rb_chunks r), length (concat (drop j (rb_chunks r))),
       rb_start r + length (concat (take j (rb_chunks r))))"
    by (rule evictor.loop_drops [OF held])
  then have f: "rb_chunks (evict_front r) = drop j (rb_chunks r)"
    "rb_held (evict_front r) = length (concat (drop j (rb_chunks r)))"
    "rb_start (evict_front r) = rb_start r + length (concat (take j (rb_chunks r)))"
    by (simp_all add: evict_front_def frame)
  show "window ds (evict_front r)" by (rule window_shift [OF assms j(1)]) (simp_all add: f frame)
  show "rb_start r \<le> rb_start (evict_front r)" by (simp add: f)
  show "rb_held (evict_front r) \<le> rb_max r"
    using evictor.loop_stops [of "rb_max r" "rb_chunks r" "rb_held r" "rb_start r"] j(2) f
    by auto
qed

lemma trim_window:
  assumes "window ds r"
  shows "window ds (trim_before_anchor a r)" and "rb_held (trim_before_anchor a r) \<le> rb_held r"
    and "rb_start r \<le> a \<Longrightarrow> rb_start (trim_before_anchor a r) \<le> a"
proof -
  have held: "rb_held r = length (concat (rb_chunks r))" using assms by (simp add: window_def)
  obtain j where j: "j \<le> length (rb_chunks r)"
    "trim_chunks a (rb_chunks r) (rb_held r) (rb_start r) =
      (drop j (rb_chunks r), length (concat (drop j (rb_chunks r))),
       rb_start r + length (concat (take j (rb_chunks r))))"
    by (rule trimmer.loop_drops [OF held])
  show "window ds (trim_before_anchor a r)"
    by (rule window_shift [OF assms j(1)]) (simp_all add: trim_before_anchor_def j(2))
  have "length (concat (rb_chunks r)) =
      length (concat (take j (rb_chunks r))) + length (concat (drop j (rb_chunks r)))"
    by (metis append_take_drop_id concat_append length_append)
  moreover have "rb_held (trim_before_anchor a r) = length (concat (drop j (rb_chunks r)))"
    by (simp add: trim_before_anchor_def j(2))
  ultimately show "rb_held (trim_before_anchor a r) \<le> rb_held r" using held by linarith
  have "start \<le> a \<Longrightarrow> snd (snd (trim_chunks a cs h start)) \<le> a" for cs h start
    by (induction cs arbitrary: h start) simp_all
  then show "rb_start r \<le> a \<Longrightarrow> rb_start (trim_before_anchor a r) \<le> a"
    by (simp add: trim_before_anchor_def case_prod_beta)
qed

lemma trim_frame [frame]:
  "rb_pushed (trim_before_anchor a r) = rb_pushed r"
  "rb_epoch (trim_before_anchor a r) = rb_epoch r"
  "rb_max (trim_before_anchor a r) = rb_max r"
  "rb_photo (trim_before_anchor a r) = rb_photo r"
  by (simp_all add: trim_before_anchor_def split: prod.split)

text \<open>\<open>rb_inv ds r\<close>: the window, the size bound and the photo.\<close>

definition rb_inv :: "bytes list \<Rightarrow> replay \<Rightarrow> bool" where
  "rb_inv ds r \<longleftrightarrow> window ds r \<and> rb_held r \<le> rb_max r \<and> photo_ok r"

lemma evict_front_inv:
  assumes "window ds r" and "case rb_photo r of None \<Rightarrow> True
      | Some cp \<Rightarrow> cp_epoch cp = rb_epoch r \<and> cp_anchor cp \<le> rb_pushed r
          \<and> length (cp_snapshot cp) \<le> CHECKPOINT_SNAPSHOT_MAX_BYTES"
  shows "rb_inv ds (evict_front r)"
proof -
  have photo: "rb_photo (evict_front r) = Some cp \<longleftrightarrow>
      rb_photo r = Some cp \<and> rb_start (evict_front r) \<le> cp_anchor cp" for cp
    by (simp add: evict_front_def drop_stale_photo_Some frame split: prod.split)
  from assms(2) have "photo_ok (evict_front r)"
    by (auto simp: photo_ok_def photo frame split: option.splits)
  with evict_front_window [OF assms(1)] show ?thesis by (simp add: rb_inv_def frame)
qed

lemma push_window:
  assumes "window ds r"
  shows "window (ds @ [d]) (r\<lparr>rb_mode := m, rb_chunks := rb_chunks r @ [d],
      rb_held := rb_held r + length d, rb_pushed := rb_pushed r + length d\<rparr>)"
proof -
  from assms obtain k where "k \<le> length ds" "rb_chunks r = drop k ds"
    "rb_start r = length (concat (take k ds))" by (auto simp: window_def)
  with assms show ?thesis unfolding window_def by (intro conjI exI [of _ k]) simp_all
qed

lemma replay_push_inv:
  assumes "rb_inv ds r"
  shows "rb_inv (ds @ pushed [RPush d]) (replay_push d r)"
proof (cases "d = []")
  case False
  let ?r = "r\<lparr>rb_mode := scan_mode (rb_mode r) d, rb_chunks := rb_chunks r @ [d],
      rb_held := rb_held r + length d, rb_pushed := rb_pushed r + length d\<rparr>"
  have "window (ds @ [d]) ?r" using assms by (simp add: rb_inv_def push_window)
  moreover have "case rb_photo ?r of None \<Rightarrow> True
      | Some cp \<Rightarrow> cp_epoch cp = rb_epoch ?r \<and> cp_anchor cp \<le> rb_pushed ?r
          \<and> length (cp_snapshot cp) \<le> CHECKPOINT_SNAPSHOT_MAX_BYTES"
    using assms by (auto simp: rb_inv_def photo_ok_def split: option.splits)
  ultimately show ?thesis using False evict_front_inv by (simp add: replay_push_def)
qed (use assms in \<open>simp add: replay_push_def\<close>)

lemma replay_shrink_inv: "rb_inv ds r \<Longrightarrow> rb_inv ds (replay_shrink n r)"
  unfolding replay_shrink_def
  by (rule evict_front_inv) (auto simp: rb_inv_def window_def photo_ok_def split: option.splits)

lemma store_checkpoint_cases:
  obtains (accepted) "snd (store_checkpoint cp r) = Accepted (cp_anchor cp)"
      "fst (store_checkpoint cp r) = trim_before_anchor (cp_anchor cp) (r\<lparr>rb_photo := Some cp\<rparr>)"
      "length (cp_snapshot cp) \<le> CHECKPOINT_SNAPSHOT_MAX_BYTES" "cp_epoch cp = rb_epoch r"
      "rb_start r \<le> cp_anchor cp" "cp_anchor cp \<le> rb_pushed r"
      "\<And>old. rb_photo r = Some old \<Longrightarrow> cp_anchor old < cp_anchor cp"
  | (rejected) "fst (store_checkpoint cp r) = r" "\<And>a. snd (store_checkpoint cp r) \<noteq> Accepted a"
proof -
  consider "CHECKPOINT_SNAPSHOT_MAX_BYTES < length (cp_snapshot cp)"
    | "cp_epoch cp \<noteq> rb_epoch r"
    | old where "rb_photo r = Some old" "cp_anchor cp \<le> cp_anchor old"
    | "cp_anchor cp < rb_start r" | "rb_pushed r < cp_anchor cp"
    | "\<not> CHECKPOINT_SNAPSHOT_MAX_BYTES < length (cp_snapshot cp)" "cp_epoch cp = rb_epoch r"
      "rb_start r \<le> cp_anchor cp" "cp_anchor cp \<le> rb_pushed r"
      "\<And>old. rb_photo r = Some old \<Longrightarrow> cp_anchor old < cp_anchor cp"
    by (meson not_le)
  then show thesis
  proof cases
    case 6
    then show thesis
      by (intro accepted) (auto simp: store_checkpoint_def CHECKPOINT_ANCHORING_ENABLED_def
          split: option.split)
  qed (rule rejected; simp add: store_checkpoint_def split: option.split)+
qed

lemma store_checkpoint_inv:
  assumes "rb_inv ds r"
  shows "rb_inv ds (fst (store_checkpoint cp r))"
proof (cases rule: store_checkpoint_cases [of cp r])
  case accepted
  have "window ds (r\<lparr>rb_photo := Some cp\<rparr>)" using assms by (simp add: rb_inv_def window_def)
  note trim = trim_window [OF this, of "cp_anchor cp"]
  with accepted assms show ?thesis by (simp add: rb_inv_def photo_ok_def frame)
qed (use assms in simp)

lemma rb_exec_inv: "rb_inv ds r \<Longrightarrow> rb_inv (ds @ pushed [op]) (rb_exec op r)"
  by (cases op) (simp_all add: replay_push_inv [simplified] replay_shrink_inv store_checkpoint_inv)

lemma rb_run_simps [simp]:
  "rb_run [] r = r"
  "rb_run (op # ops) r = rb_run ops (rb_exec op r)"
  "rb_run (ops @ ops') r = rb_run ops' (rb_run ops r)"
  by (simp_all add: rb_run_def)

lemma rb_run_inv: "rb_inv ds r \<Longrightarrow> rb_inv (ds @ pushed ops) (rb_run ops r)"
proof (induction ops arbitrary: ds r)
  case (Cons op ops)
  from Cons.IH [OF rb_exec_inv [OF Cons.prems], of op] show ?case
    by (simp add: pushed_append [of "[op]" ops, simplified])
qed simp

lemma replay_new_inv: "rb_inv [] (replay_new ep n)"
  by (simp add: rb_inv_def window_def photo_ok_def replay_new_def)

lemma rb_reachable_inv: "rb_inv (pushed ops) (rb_run ops (replay_new ep n))"
  using rb_run_inv [OF replay_new_inv] by simp

subsection \<open>Recovery\<close>

lemma concat_from_all: "a \<le> sq \<Longrightarrow> concat_from a sq ys = concat ys"
  by (induction ys arbitrary: sq) auto

lemma concat_from_inside: "a < sq + length c \<Longrightarrow> concat_from a sq (c # ys) = c @ concat ys"
  by (simp add: concat_from_all)

text \<open>\<open>cut ds a\<close>: the last boundary between chunks that is not after \<open>a\<close>.\<close>

fun cut :: "bytes list \<Rightarrow> nat \<Rightarrow> nat" where
  "cut [] a = 0"
| "cut (c # cs) a = (if a < length c then 0 else length c + cut cs (a - length c))"

lemma cut_le: "cut ds a \<le> a"
  by (induction ds a rule: cut.induct) auto

lemma cut_boundary: "cut ds (length (concat (take j ds))) = length (concat (take j ds))"
  if "[] \<notin> set ds"
  using that
proof (induction ds arbitrary: j)
  case (Cons c cs)
  then show ?case by (cases j) auto
qed simp

lemma concat_from_cut:
  assumes "[] \<notin> set ds"
  shows "concat_from (sq + a) sq ds = drop (cut ds a) (concat ds)"
  using assms
proof (induction ds arbitrary: a sq)
  case (Cons c cs)
  show ?case
  proof (cases "a < length c")
    case True
    then show ?thesis using concat_from_inside [of "sq + a" sq c cs] by simp
  next
    case False
    then have "concat_from (sq + a) sq (c # cs) = concat_from (sq + length c + (a - length c)) (sq + length c) cs"
      using Cons.prems by auto
    with Cons.IH [of "sq + length c" "a - length c"] Cons.prems False show ?thesis by simp
  qed
qed simp

lemma cut_drop:
  "length (concat (take k ds)) \<le> a \<Longrightarrow>
    cut ds a = length (concat (take k ds)) + cut (drop k ds) (a - length (concat (take k ds)))"
proof (induction ds arbitrary: k a)
  case (Cons c cs)
  show ?case
  proof (cases k)
    case (Suc k')
    with Cons.prems Cons.IH [of k' "a - length c"] show ?thesis by auto
  qed simp
qed simp

lemma window_delta:
  assumes "window ds r" and "[] \<notin> set ds" and "rb_start r \<le> a"
  shows "concat_chunks_from a r = drop (cut ds a) (concat ds)"
proof -
  from assms(1) obtain k where k: "rb_chunks r = drop k ds" "rb_start r = length (concat (take k ds))"
    by (auto simp: window_def)
  have "[] \<notin> set (drop k ds)" using assms(2) by (meson in_set_dropD)
  from concat_from_cut [OF this, of "rb_start r" "a - rb_start r"] assms(3) k
  have "concat_chunks_from a r = drop (cut (drop k ds) (a - rb_start r)) (concat (drop k ds))"
    by (simp add: concat_chunks_from_def)
  also have "concat (drop k ds) = drop (length (concat (take k ds))) (concat ds)"
    by (metis append_eq_conv_conj append_take_drop_id concat_append)
  finally show ?thesis using cut_drop [of k ds a] assms(3) k by (simp add: add.commute)
qed

lemma window_contents: "window ds r \<Longrightarrow> concat (rb_chunks r) = drop (rb_start r) (concat ds)"
  unfolding window_def by (metis append_eq_conv_conj append_take_drop_id concat_append)

text \<open>C31: After any sequence of pushes, resizes and uploaded photos, the replay buffer is a
  window at the end of the stream: its bytes are the stream from the start of the window, its
  counters are exact, it holds no more than its limit, and a photo it keeps is of its own
  epoch, anchored inside the window and within the size limit.\<close>

theorem replay_is_stream_suffix:
  "let r = rb_run ops (replay_new ep n); stream = concat (pushed ops)
   in concat (rb_chunks r) = drop (rb_start r) stream
      \<and> rb_pushed r = length stream \<and> rb_pushed r - rb_start r = rb_held r
      \<and> rb_held r \<le> rb_max r \<and> photo_ok r"
proof -
  let ?r = "rb_run ops (replay_new ep n)"
  have inv: "rb_inv (pushed ops) ?r" by (rule rb_reachable_inv)
  then have c: "concat (rb_chunks ?r) = drop (rb_start ?r) (concat (pushed ops))"
    by (simp add: rb_inv_def window_contents)
  have "rb_held ?r = length (concat (pushed ops)) - rb_start ?r"
    using inv c unfolding rb_inv_def window_def by (metis length_drop)
  with inv c show ?thesis by (simp add: rb_inv_def window_def Let_def)
qed

text \<open>What a client gets on attach completes its photo: with a photo, the delta is the stream
  from the last chunk boundary not after the anchor, so from the anchor itself when the anchor
  is a boundary, and no byte after the anchor is missing; without a photo, the delta is the
  whole window.\<close>

theorem recovery_completes_photo:
  "let r = rb_run ops (replay_new ep n); rec = recovery_snapshot r; stream = concat (pushed ops)
   in rec_end_seq rec = length stream \<and> rec_checkpoint rec = rb_photo r
      \<and> (case rec_checkpoint rec of
           Some cp \<Rightarrow> rec_delta rec = drop (cut (pushed ops) (cp_anchor cp)) stream
             \<and> cut (pushed ops) (cp_anchor cp) \<le> cp_anchor cp
         | None \<Rightarrow> rec_delta rec = drop (rb_start r) stream)
      \<and> cut (pushed ops) (length (concat (take j (pushed ops)))) = length (concat (take j (pushed ops)))"
proof -
  let ?r = "rb_run ops (replay_new ep n)"
  let ?rec = "recovery_snapshot ?r"
  have inv: "rb_inv (pushed ops) ?r" by (rule rb_reachable_inv)
  then have vc: "valid_checkpoint ?r = rb_photo ?r"
    by (auto simp: rb_inv_def photo_ok_def valid_checkpoint_def split: option.split)
  have "rec_end_seq ?rec = length (concat (pushed ops))"
    using inv by (simp add: recovery_snapshot_def rb_inv_def window_def case_prod_beta)
  moreover have "rec_checkpoint ?rec = rb_photo ?r"
    by (simp add: recovery_snapshot_def vc split: option.split)
  moreover have "rec_delta ?rec = drop (cut (pushed ops) (cp_anchor cp)) (concat (pushed ops))"
    if "rb_photo ?r = Some cp" for cp
  proof -
    from that inv have "rb_start ?r \<le> cp_anchor cp" by (simp add: rb_inv_def photo_ok_def)
    with inv window_delta [OF _ pushed_nonempty] that vc show ?thesis
      by (simp add: rb_inv_def recovery_snapshot_def)
  qed
  moreover have "rec_delta ?rec = drop (rb_start ?r) (concat (pushed ops))"
    if "rb_photo ?r = None"
    using that inv vc by (simp add: recovery_snapshot_def replay_snapshot_def rb_inv_def window_contents)
  ultimately show ?thesis
    by (simp add: Let_def cut_le cut_boundary pushed_nonempty split: option.split)
qed

text \<open>An uploaded photo is accepted exactly when it is within the size limit, of the epoch
  of the buffer, newer than the photo there, and anchored between the start of the window and
  the end of the stream; accepting it makes it the photo of every recovery, with the delta it
  would have had before the trimming, and rejecting it changes nothing.\<close>

theorem store_checkpoint_contract:
  "let r = rb_run ops (replay_new ep n); (r', oc) = store_checkpoint cp r;
       fits = length (cp_snapshot cp) \<le> CHECKPOINT_SNAPSHOT_MAX_BYTES \<and> cp_epoch cp = rb_epoch r
         \<and> (case rb_photo r of None \<Rightarrow> True | Some old \<Rightarrow> cp_anchor old < cp_anchor cp)
         \<and> rb_start r \<le> cp_anchor cp \<and> cp_anchor cp \<le> rb_pushed r
   in (oc = Accepted (cp_anchor cp)) = fits
      \<and> (if fits then rec_checkpoint (recovery_snapshot r') = Some cp
            \<and> rec_delta (recovery_snapshot r') = concat_chunks_from (cp_anchor cp) r
            \<and> rb_held r' \<le> rb_held r
         else r' = r)"
proof -
  let ?r = "rb_run ops (replay_new ep n)"
  let ?fits = "length (cp_snapshot cp) \<le> CHECKPOINT_SNAPSHOT_MAX_BYTES \<and> cp_epoch cp = rb_epoch ?r
    \<and> (case rb_photo ?r of None \<Rightarrow> True | Some old \<Rightarrow> cp_anchor old < cp_anchor cp)
    \<and> rb_start ?r \<le> cp_anchor cp \<and> cp_anchor cp \<le> rb_pushed ?r"
  have inv: "rb_inv (pushed ops) ?r" by (rule rb_reachable_inv)
  show ?thesis
  proof (cases rule: store_checkpoint_cases [of cp ?r])
    case accepted
    let ?r' = "trim_before_anchor (cp_anchor cp) (?r\<lparr>rb_photo := Some cp\<rparr>)"
    have fits: ?fits using accepted by (auto split: option.split)
    have inv': "rb_inv (pushed ops) ?r'"
      using store_checkpoint_inv [OF inv, of cp] accepted(2) by simp
    then have vc: "valid_checkpoint ?r' = Some cp"
      by (simp add: rb_inv_def photo_ok_def valid_checkpoint_def frame)
    then have "rb_start ?r' \<le> cp_anchor cp" by (auto simp: valid_checkpoint_def split: option.splits if_splits)
    moreover have "window (pushed ops) ?r" "window (pushed ops) ?r'"
      using inv inv' by (simp_all add: rb_inv_def)
    ultimately have "concat_chunks_from (cp_anchor cp) ?r' = concat_chunks_from (cp_anchor cp) ?r"
      using window_delta [OF _ pushed_nonempty] accepted(5) by metis
    moreover have "rb_held ?r' \<le> rb_held ?r"
      using trim_window(2) [of "pushed ops" "?r\<lparr>rb_photo := Some cp\<rparr>"] inv
      by (simp add: rb_inv_def window_def)
    ultimately show ?thesis using accepted(1,2) fits vc
      by (simp add: Let_def case_prod_beta recovery_snapshot_def)
  next
    case rejected
    have "\<not> ?fits"
    proof
      assume ?fits
      then have "snd (store_checkpoint cp ?r) = Accepted (cp_anchor cp)"
        by (auto simp: store_checkpoint_def Let_def split: option.splits)
      with rejected(2) show False by metis
    qed
    with rejected show ?thesis by (auto simp: Let_def case_prod_beta)
  qed
qed

text \<open>\<open>photo_since a r\<close>: a photo anchored at \<open>a\<close> or later is there, or the window has moved
  past \<open>a\<close>.\<close>

definition photo_since :: "nat \<Rightarrow> replay \<Rightarrow> bool" where
  "photo_since a r \<longleftrightarrow>
     (case rb_photo r of Some c \<Rightarrow> a \<le> cp_anchor c | None \<Rightarrow> a < rb_start r)"

lemma photo_since_evict:
  assumes "window ds r" and "photo_since a r"
  shows "photo_since a (evict_front r)"
proof -
  have "rb_photo (evict_front r) = (case rb_photo r of None \<Rightarrow> None
      | Some c \<Rightarrow> if cp_anchor c < rb_start (evict_front r) then None else Some c)"
    by (auto simp: evict_front_def drop_stale_photo_def split: option.split prod.split)
  then show ?thesis using assms(2) evict_front_window(3) [OF assms(1)]
    by (auto simp: photo_since_def split: option.splits)
qed

lemma photo_since_exec:
  assumes "photo_since a r" and "rb_inv ds r"
  shows "photo_since a (rb_exec op r)"
proof (cases op)
  case (RPush d)
  have "window (ds @ [d]) (r\<lparr>rb_mode := scan_mode (rb_mode r) d, rb_chunks := rb_chunks r @ [d],
      rb_held := rb_held r + length d, rb_pushed := rb_pushed r + length d\<rparr>)"
    using assms(2) by (simp add: rb_inv_def push_window)
  from photo_since_evict [OF this, of a] assms(1) RPush show ?thesis
    by (cases "d = []") (auto simp: replay_push_def photo_since_def split: option.splits)
next
  case (RShrink m)
  have "window ds (r\<lparr>rb_max := m\<rparr>)" using assms(2) by (simp add: rb_inv_def window_def)
  from photo_since_evict [OF this, of a] assms(1) RShrink show ?thesis
    by (auto simp: replay_shrink_def photo_since_def split: option.splits)
next
  case (RStore cp)
  show ?thesis
  proof (cases rule: store_checkpoint_cases [of cp r])
    case accepted
    then show ?thesis using RStore assms(1)
      by (auto simp: photo_since_def frame split: option.splits)
  next
    case rejected
    then show ?thesis using RStore assms(1) by simp
  qed
qed

lemma photo_since_run: "rb_inv ds r \<Longrightarrow> photo_since a r \<Longrightarrow> photo_since a (rb_run ops r)"
proof (induction ops arbitrary: ds r)
  case (Cons op ops)
  from Cons.IH [OF rb_exec_inv [OF Cons.prems(1)] photo_since_exec [OF Cons.prems(2,1)], of op]
  show ?case by simp
qed simp

text \<open>A photo is lost only when bytes after its anchor are gone: after any further pushes,
  resizes and uploads the buffer still has that photo or a newer one, or its window starts
  after the anchor.\<close>

theorem photo_only_superseded:
  "case rb_photo (rb_run ops (replay_new ep n)) of None \<Rightarrow> True
   | Some cp \<Rightarrow>
       (let r' = rb_run (ops @ ops') (replay_new ep n)
        in case rb_photo r' of Some cp' \<Rightarrow> cp_anchor cp \<le> cp_anchor cp'
           | None \<Rightarrow> cp_anchor cp < rb_start r')"
proof (cases "rb_photo (rb_run ops (replay_new ep n))")
  case (Some cp)
  then have "photo_since (cp_anchor cp) (rb_run ops (replay_new ep n))"
    by (simp add: photo_since_def)
  from photo_since_run [OF rb_reachable_inv this, of ops'] Some show ?thesis
    by (simp add: photo_since_def Let_def)
qed simp

subsection \<open>The line buffer\<close>

definition blank :: "string \<Rightarrow> bool" where
  "blank l \<longleftrightarrow> trim l = []"

fun no_blank_pair :: "string list \<Rightarrow> bool" where
  "no_blank_pair (l # l' # ls) = (\<not> (blank l \<and> blank l') \<and> no_blank_pair (l' # ls))"
| "no_blank_pair _ = True"

lemma no_blank_pair_snoc:
  "no_blank_pair ls \<Longrightarrow> ls = [] \<or> \<not> (blank (last ls) \<and> blank l) \<Longrightarrow> no_blank_pair (ls @ [l])"
  by (induction ls rule: no_blank_pair.induct) auto

lemma no_blank_pair_tl: "no_blank_pair (l # ls) \<Longrightarrow> no_blank_pair ls"
  by (cases ls) auto

text \<open>\<open>lines_ok\<close> holds of the stored lines at every moment, \<open>fits\<close> between two pushes.\<close>

definition lines_ok :: "output_buffer \<Rightarrow> bool" where
  "lines_ok b \<longleftrightarrow> ob_total b = sum_list (map length (ob_lines b))
     \<and> no_blank_pair (ob_lines b) \<and> list_all (\<lambda>l. \<not> is_spinner_line l) (ob_lines b)"

definition fits :: "output_buffer \<Rightarrow> bool" where
  "fits b \<longleftrightarrow> length (ob_lines b) \<le> ob_max_lines b \<and> ob_total b \<le> ob_max_bytes b
     \<and> length (ob_partial b) \<le> 4096"

lemma push_line_ok: "lines_ok b \<Longrightarrow> lines_ok (push_line l b)"
  by (auto simp: push_line_def lines_ok_def blank_def intro: no_blank_pair_snoc)

lemma push_line_frame [frame]:
  "ob_partial (push_line l b) = ob_partial b"
  "ob_carry (push_line l b) = ob_carry b"
  "ob_max_lines (push_line l b) = ob_max_lines b"
  "ob_max_bytes (push_line l b) = ob_max_bytes b"
  by (simp_all add: push_line_def)

lemma push_parts_ok: "lines_ok b \<Longrightarrow> lines_ok (push_parts ps b)"
  by (induction ps b rule: push_parts.induct) (simp_all add: push_line_ok, simp add: lines_ok_def)

lemma push_parts_carry [frame]: "ob_carry (push_parts ps b) = ob_carry b"
  by (induction ps b rule: push_parts.induct) (simp_all add: frame)

lemma evict_lines_ok:
  assumes "held = sum_list (map length ls)" and "evict_lines m n ls held = (ls', held')"
  shows "suffix ls' ls \<and> held' = sum_list (map length ls') \<and> length ls' \<le> m \<and> held' \<le> n"
  using assms
  by (induction m n ls held rule: evict_lines.induct)
    (auto split: if_splits intro: suffix_ConsI)

lemma no_blank_pair_suffix: "suffix ls' ls \<Longrightarrow> no_blank_pair ls \<Longrightarrow> no_blank_pair ls'"
  by (induction ls) (auto simp: suffix_Cons dest: no_blank_pair_tl)

lemma output_evict_ok:
  assumes "lines_ok b" and "length (ob_partial b) \<le> 4096"
  shows "lines_ok (output_evict b) \<and> fits (output_evict b)"
proof -
  obtain ls' held' where e: "evict_lines (ob_max_lines b) (ob_max_bytes b) (ob_lines b) (ob_total b) = (ls', held')"
    by fastforce
  from assms evict_lines_ok [OF _ e] have "suffix ls' (ob_lines b)" "held' = sum_list (map length ls')"
    "length ls' \<le> ob_max_lines b" "held' \<le> ob_max_bytes b" by (simp_all add: lines_ok_def)
  with assms e show ?thesis
    by (auto simp: output_evict_def lines_ok_def fits_def list_all_iff dest: set_mono_suffix
        no_blank_pair_suffix)
qed

lemma output_evict_carry [frame]: "ob_carry (output_evict b) = ob_carry b"
  by (simp add: output_evict_def split: prod.split)

lemma output_push_ok:
  assumes "lines_ok b" and "fits b"
  shows "lines_ok (output_push strip txt b) \<and> fits (output_push strip txt b)"
proof -
  obtain st carry where c: "split_trailing_incomplete_escape (ob_carry b @ txt) = (st, carry)"
    by fastforce
  let ?b1 = "b\<lparr>ob_carry := carry\<rparr>"
  have b1: "lines_ok ?b1" "fits ?b1" using assms by (simp_all add: lines_ok_def fits_def)
  show ?thesis
  proof (cases "strip st = []")
    case True
    with b1 c show ?thesis by (simp add: output_push_def)
  next
    case False
    define combined where "combined = ob_partial b @ replace_all [CHR 0x0D] [CHR 0x0A]
      (replace_all [CHR 0x0D, CHR 0x0A] [CHR 0x0A] (strip st))"
    define b2 where "b2 = push_parts (split_on (CHR 0x0A) combined) (?b1\<lparr>ob_partial := []\<rparr>)"
    define b3 where "b3 = (if 4096 < length (ob_partial b2)
      then push_line (ob_partial b2) (b2\<lparr>ob_partial := []\<rparr>) else b2)"
    have eq: "output_push strip txt b = output_evict b3"
      using c False by (simp add: output_push_def Let_def b3_def b2_def combined_def)
    have b2: "lines_ok b2"
      unfolding b2_def by (rule push_parts_ok) (use b1 in \<open>simp add: lines_ok_def\<close>)
    then have "lines_ok (b2\<lparr>ob_partial := []\<rparr>)" by (simp add: lines_ok_def)
    with b2 have "lines_ok b3" and "length (ob_partial b3) \<le> 4096"
      by (simp_all add: b3_def push_line_ok frame)
    then show ?thesis unfolding eq by (rule output_evict_ok)
  qed
qed

lemma output_shrink_ok: "lines_ok b \<Longrightarrow> fits b \<Longrightarrow>
    lines_ok (output_shrink m n b) \<and> fits (output_shrink m n b)"
  unfolding output_shrink_def by (rule output_evict_ok) (simp_all add: lines_ok_def fits_def)

datatype ob_op = OPush bytes | OShrink nat nat

fun ob_exec :: "(bytes \<Rightarrow> bytes) \<Rightarrow> ob_op \<Rightarrow> output_buffer \<Rightarrow> output_buffer" where
  "ob_exec strip (OPush d) b = output_push strip d b"
| "ob_exec strip (OShrink m n) b = output_shrink m n b"

text \<open>The line buffer stays within its limits and clean: after any pushes and resizes it
  holds at most the allowed lines and bytes, with an exact byte count and an unfinished line of
  at most 4096 bytes, no two blank lines in a row, and no spinner line, however the text was
  cut and whatever the escape stripper does.\<close>

theorem output_buffer_bounded:
  "let b = fold (ob_exec strip) ops (output_new m n) in lines_ok b \<and> fits b"
proof -
  have "lines_ok b \<Longrightarrow> fits b \<Longrightarrow>
      lines_ok (fold (ob_exec strip) ops b) \<and> fits (fold (ob_exec strip) ops b)" for b
  proof (induction ops arbitrary: b)
    case (Cons op ops)
    then have "lines_ok (ob_exec strip op b) \<and> fits (ob_exec strip op b)"
      by (cases op) (simp_all add: output_push_ok output_shrink_ok)
    with Cons.IH show ?case by simp
  qed simp
  moreover have "lines_ok (output_new m n)" "fits (output_new m n)"
    by (simp_all add: lines_ok_def fits_def output_new_def)
  ultimately show ?thesis by (simp add: Let_def)
qed

subsection \<open>Carried escape sequences\<close>

lemma rsplit_esc_Some:
  assumes "rsplit_esc s = Some (pre, cand)"
  shows "s = pre @ cand \<and> (\<exists>r. cand = ESC # r \<and> ESC \<notin> set r)"
proof -
  let ?r = "rev (takeWhile (\<lambda>b. b \<noteq> ESC) (rev s))"
  from assms have in_s: "ESC \<in> set (rev s)" and pc: "cand = ESC # ?r"
    "pre = take (length s - length (ESC # ?r)) s"
    by (auto simp: rsplit_esc_def Let_def split: if_splits)
  from in_s obtain d where d: "dropWhile (\<lambda>b. b \<noteq> ESC) (rev s) = ESC # d"
    by (metis (mono_tags, lifting) dropWhile_eq_Nil_conv hd_dropWhile list.collapse)
  have "rev s = takeWhile (\<lambda>b. b \<noteq> ESC) (rev s) @ ESC # d" by (metis d takeWhile_dropWhile_id)
  then have "s = rev d @ ESC # ?r" by (metis rev_append rev_rev_ident rev.simps(2) append.assoc append_Cons append_Nil)
  moreover then have "pre = rev d" unfolding pc(2) by (metis append_eq_conv_conj diff_add_inverse2 length_append)
  ultimately show ?thesis using pc(1) by (auto dest: set_takeWhileD)
qed

text \<open>What is held back from the stripper at the end of a read is an escape sequence cut
  by it and nothing else: the parts make up the text, a part held back starts with an
  escape character, has none inside, is incomplete and is no longer than its kind allows, and
  a complete escape sequence is never held back.\<close>

theorem carry_is_incomplete_escape:
  "case split_trailing_incomplete_escape s of (out, carry) \<Rightarrow>
     s = out @ carry
     \<and> (carry = [] \<or> (\<exists>r. carry = ESC # r \<and> ESC \<notin> set r \<and> is_complete_escape carry = False
          \<and> length carry \<le> escape_carry_limit carry))
     \<and> length carry \<le> MAX_STRING_ESCAPE_CARRY"
proof (cases "rsplit_esc s")
  case None
  then show ?thesis by (simp add: split_trailing_incomplete_escape_def)
next
  case (Some pc)
  obtain pre cand where pc: "pc = (pre, cand)" by fastforce
  have "escape_carry_limit cand \<le> MAX_STRING_ESCAPE_CARRY"
    by (simp add: escape_carry_limit_def MAX_CSI_CARRY_def MAX_STRING_ESCAPE_CARRY_def split: list.split)
  with Some pc rsplit_esc_Some [of s pre cand] show ?thesis
    by (auto simp: split_trailing_incomplete_escape_def)
qed

subsection \<open>Pasting\<close>

text \<open>A pasted text cannot be relied on to stay inside the paste: removing the end markers
  once can put a new one together, so for this text the end marker still stands inside the
  wrapped block.\<close>

theorem paste_end_marker_survives:
  "wrap_bracketed_paste (ESC # ''[20'' @ BRACKETED_PASTE_END @ ''1~x'')
     = BRACKETED_PASTE_START @ BRACKETED_PASTE_END @ ''x'' @ BRACKETED_PASTE_END"
  by (simp add: wrap_bracketed_paste_def BRACKETED_PASTE_END_def BRACKETED_PASTE_START_def
      ESC_def replace_all.simps)

lemma replace_all_no_head: "p \<noteq> [] \<Longrightarrow> hd p \<notin> set s \<Longrightarrow> replace_all p r s = s"
proof (induction s)
  case (Cons c s)
  then have "\<not> prefix p (c # s)" by (cases p) auto
  with Cons show ?case by (subst replace_all.simps) simp
qed (simp add: replace_all.simps)

lemma paste_plain:
  "ESC \<notin> set txt \<Longrightarrow>
    wrap_bracketed_paste txt = BRACKETED_PASTE_START @ txt @ BRACKETED_PASTE_END"
  by (simp add: wrap_bracketed_paste_def replace_all_no_head BRACKETED_PASTE_END_def)

text \<open>The designation of a character set, \<open>ESC ( B\<close>, has three bytes; cut before the last
  one, its first two count as complete, so they are not held back and the last byte is left to
  be read as text.\<close>

lemma charset_escape_not_carried:
  "split_trailing_incomplete_escape (''ok'' @ [ESC, CHR ''('']) = (''ok'' @ [ESC, CHR ''(''], [])"
  by (simp add: split_trailing_incomplete_escape_def rsplit_esc_def is_complete_escape_def
      string_escape_kind_def ESC_def)

end
