(* ===== verification/Daemon_Bridge.thy ===== *)
theory Daemon_Bridge
  imports Status_Infer Replay_Buffer
begin

text \<open>
  The bridge of the desktop to the terminal daemon
  (\<open>src-tauri/src/services/terminal_daemon_event_bridge.rs\<close>), its output cursor
  (\<open>terminal_daemon_output_cursor.rs\<close>), and its connection policy
  (\<open>terminal_daemon_bridge_reliability.rs\<close>).

  For each session the bridge follows the WebSocket stream of the daemon while it has one and
  polls recovery snapshots while it has none; what it forwards to the web view is the list of
  events an operation returns. What the socket, the daemon and the clock answer is an argument of
  each turn of the two loops; a turn is one pass of the \<open>select!\<close> of the loop.
\<close>

subsection \<open>The output cursor\<close>

record output_cursor =
  cu_epoch :: "64 word option"
  cu_end :: "nat option"

datatype cursor_delta = CursorUnchanged | CursorData bytes | CursorResync

text \<open>\<open>str::get(offset..)\<close>: nothing beyond the end or inside a character.\<close>

definition is_char_boundary :: "bytes \<Rightarrow> nat \<Rightarrow> bool" where
  "is_char_boundary s i \<longleftrightarrow> i = 0 \<or> i = length s \<or> i < length s \<and> \<not> cont (s ! i)"

definition str_get_from :: "nat \<Rightarrow> bytes \<Rightarrow> bytes option" where
  "str_get_from i s = (if is_char_boundary s i then Some (drop i s) else None)"

definition cursor_reset :: output_cursor where
  "cursor_reset = \<lparr>cu_epoch = None, cu_end = None\<rparr>"

definition cursor_stream :: "nat \<Rightarrow> bytes \<Rightarrow> output_cursor \<Rightarrow> output_cursor \<times> cursor_delta" where
  "cursor_stream end_seq data c =
     (let previous = cu_end c
      in if (case previous of Some p \<Rightarrow> end_seq \<le> p | None \<Rightarrow> False) then (c, CursorUnchanged)
         else (let c = c\<lparr>cu_end := Some end_seq\<rparr>
               in if end_seq < length data then (c, CursorResync)
                  else (case previous of
                          None \<Rightarrow> (c, CursorData data)
                        | Some p \<Rightarrow>
                            if p < end_seq - length data then (c, CursorResync)
                            else (case str_get_from (p - (end_seq - length data)) data of
                                    Some delta \<Rightarrow> (c, if delta = [] then CursorUnchanged else CursorData delta)
                                  | None \<Rightarrow> (c, CursorResync)))))"

definition cursor_recovery :: "64 word \<Rightarrow> nat \<Rightarrow> bytes \<Rightarrow> output_cursor \<Rightarrow> output_cursor \<times> cursor_delta" where
  "cursor_recovery epoch end_seq data c =
     (let epoch_changed = (case cu_epoch c of Some previous \<Rightarrow> previous \<noteq> epoch | None \<Rightarrow> False);
          c = c\<lparr>cu_epoch := Some epoch\<rparr>
      in if epoch_changed \<or> cu_end c = None then (c\<lparr>cu_end := Some end_seq\<rparr>, CursorResync)
         else if (case cu_end c of Some previous \<Rightarrow> end_seq < previous | None \<Rightarrow> False)
         then (c\<lparr>cu_end := Some end_seq\<rparr>, CursorResync)
         else cursor_stream end_seq data c)"

subsection \<open>Connection attempts\<close>

record retry_policy =
  rp_max_attempts :: nat
  rp_connect_timeout :: duration
  rp_initial_backoff :: duration
  rp_max_backoff :: duration
  rp_max_concurrent :: nat

definition default_retry_policy :: retry_policy where
  "default_retry_policy = \<lparr>rp_max_attempts = 3, rp_connect_timeout = from_secs 3,
     rp_initial_backoff = from_millis 250, rp_max_backoff = from_secs 1, rp_max_concurrent = 4\<rparr>"

text \<open>\<open>Duration::saturating_mul\<close> saturates at \<open>Duration::MAX\<close>.\<close>

definition duration_max :: duration where
  "duration_max = (2 ^ 64 - 1) * nanos_per_sec + 999999999"

definition backoff_after_failure :: "retry_policy \<Rightarrow> nat \<Rightarrow> duration" where
  "backoff_after_failure p failure_number =
     (let exponent = min (failure_number - 1) 31
      in min (min (rp_initial_backoff p * 2 ^ exponent) duration_max) (rp_max_backoff p))"

record connect_counters =
  cc_attempts :: nat
  cc_failures :: nat
  cc_active :: nat
  cc_max_concurrent :: nat
  cc_fallbacks :: nat

definition counters_new :: connect_counters where
  "counters_new = \<lparr>cc_attempts = 0, cc_failures = 0, cc_active = 0, cc_max_concurrent = 0, cc_fallbacks = 0\<rparr>"

text \<open>What one attempt ended with: the connection, an error, or the timeout. The guard of the
  attempt is dropped in each case.\<close>

datatype 'a attempt = Connected 'a | Refused string | TimedOut

definition begin_connect :: "connect_counters \<Rightarrow> connect_counters" where
  "begin_connect c = c\<lparr>cc_attempts := cc_attempts c + 1, cc_active := cc_active c + 1,
     cc_max_concurrent := max (cc_max_concurrent c) (cc_active c + 1)\<rparr>"

definition end_connect :: "connect_counters \<Rightarrow> connect_counters" where
  "end_connect c = c\<lparr>cc_active := cc_active c - 1\<rparr>"

definition record_connect_failure :: "connect_counters \<Rightarrow> connect_counters" where
  "record_connect_failure c = c\<lparr>cc_failures := cc_failures c + 1\<rparr>"

definition record_fallback :: "connect_counters \<Rightarrow> connect_counters" where
  "record_fallback c = c\<lparr>cc_fallbacks := cc_fallbacks c + 1\<rparr>"

text \<open>\<open>connect_with_retry\<close> from attempt \<open>n\<close> on, \<open>left\<close> attempts being left: the result, the
  counters, and the pauses it made. \<open>outcome n\<close> is what attempt \<open>n\<close> ends with.\<close>

fun connect_attempts ::
  "retry_policy \<Rightarrow> (nat \<Rightarrow> 'a attempt) \<Rightarrow> nat \<Rightarrow> nat \<Rightarrow> string \<Rightarrow> connect_counters
     \<Rightarrow> (string + 'a) \<times> connect_counters \<times> duration list" where
  "connect_attempts p outcome n 0 err c = (Inl err, c, [])"
| "connect_attempts p outcome n (Suc left) err c =
     (let c = end_connect (begin_connect c)
      in case outcome n of
           Connected x \<Rightarrow> (Inr x, c, [])
         | failed \<Rightarrow>
             (let message = (case failed of Refused e \<Rightarrow> e | _ \<Rightarrow> ''websocket connect timed out'');
                  c = record_connect_failure c
              in if left = 0 then (Inl message, c, [])
                 else (let (r, c, pauses) = connect_attempts p outcome (Suc n) left message c
                       in (r, c, backoff_after_failure p n # pauses))))"

definition connect_with_retry ::
  "retry_policy \<Rightarrow> (nat \<Rightarrow> 'a attempt) \<Rightarrow> connect_counters \<Rightarrow> (string + 'a) \<times> connect_counters \<times> duration list" where
  "connect_with_retry p outcome c =
     (if rp_max_attempts p = 0 then (Inl ''websocket connect attempts must be positive'', c, [])
      else connect_attempts p outcome 1 (rp_max_attempts p) [] c)"

definition POLL_STATUS_EVERY_TICKS :: nat where
  "POLL_STATUS_EVERY_TICKS = 5"

datatype poll_work = SnapshotOnly | SnapshotAndStatus

definition next_work :: "nat \<Rightarrow> poll_work \<times> nat" where
  "next_work tick =
     (if tick = 0 then SnapshotAndStatus else SnapshotOnly, (tick + 1) mod POLL_STATUS_EVERY_TICKS)"

datatype bridge_mode = Connecting | Websocket | Polling

subsection \<open>A bridged session\<close>

record bridge_session =
  bs_snapshot :: bytes
  bs_status :: "status_info option"
  bs_started :: bool
  bs_exit_emitted :: bool
  bs_mode :: bridge_mode
  bs_cursor :: output_cursor
  bs_legacy :: bool

type_synonym bridge = "string \<Rightarrow> bridge_session option"

definition session_default :: bridge_session where
  "session_default = \<lparr>bs_snapshot = [], bs_status = None, bs_started = False, bs_exit_emitted = False,
     bs_mode = Connecting, bs_cursor = cursor_reset, bs_legacy = False\<rparr>"

text \<open>\<open>sessions.entry(id).or_default()\<close> and an update through \<open>get_mut\<close>.\<close>

definition session_or_default :: "string \<Rightarrow> bridge \<Rightarrow> bridge_session" where
  "session_or_default sid br = (case br sid of Some b \<Rightarrow> b | None \<Rightarrow> session_default)"

definition update_session :: "string \<Rightarrow> (bridge_session \<Rightarrow> bridge_session) \<Rightarrow> bridge \<Rightarrow> bridge" where
  "update_session sid f br = (case br sid of Some b \<Rightarrow> br(sid \<mapsto> f b) | None \<Rightarrow> br)"

text \<open>The messages of the stream, and what the bridge forwards: to the web view, and
  \<open>HistoryEnded\<close> to the watcher of the session histories.\<close>

datatype stream_message =
    StreamOutput bytes "nat option"
  | StreamExit int
  | StreamKilled "string option"
  | StreamDesync
  | StreamUnknown

datatype bridge_event =
    WebOutput string bytes "nat option"
  | WebDesync string
  | WebStatus status_info
  | WebExit string int
  | WebKilled string string
  | HistoryEnded string

text \<open>What one turn finds: whether the web view takes events, the clock, and the correction the
  orchestrator makes to a status.\<close>

record bridge_env =
  be_allowed :: bool
  be_now :: "64 word"
  be_adjust :: "status_info \<Rightarrow> status_info"

definition emit_to_webview :: "bridge_env \<Rightarrow> bridge_event \<Rightarrow> bridge_event list" where
  "emit_to_webview env ev = (if be_allowed env then [ev] else [])"

definition start_session_with_snapshot :: "string \<Rightarrow> bytes option \<Rightarrow> bridge \<Rightarrow> bridge \<times> bool" where
  "start_session_with_snapshot sid initial br =
     (let b = session_or_default sid br;
          b = (case initial of Some s \<Rightarrow> b\<lparr>bs_snapshot := s\<rparr> | None \<Rightarrow> b)
      in if bs_started b then (br(sid \<mapsto> b), False) else (br(sid \<mapsto> b\<lparr>bs_started := True\<rparr>), True))"

definition stop_session :: "string \<Rightarrow> bridge \<Rightarrow> bridge" where
  "stop_session sid br = br(sid := None)"

definition set_session_mode :: "string \<Rightarrow> bridge_mode \<Rightarrow> bridge \<Rightarrow> bridge" where
  "set_session_mode sid mode br =
     update_session sid (\<lambda>b. if mode = Connecting then b else b\<lparr>bs_mode := mode\<rparr>) br"

definition same_status_payload :: "status_info \<Rightarrow> status_info \<Rightarrow> bool" where
  "same_status_payload l r \<longleftrightarrow>
     si_session l = si_session r \<and> si_status l = si_status r \<and> si_last_output_at l = si_last_output_at r
     \<and> si_pid l = si_pid r \<and> si_exit_code l = si_exit_code r \<and> si_tool_name l = si_tool_name r
     \<and> si_tool_use_id l = si_tool_use_id r \<and> si_tool_summary l = si_tool_summary r
     \<and> si_updated_at l = si_updated_at r"

definition synthesized_exited_status :: "bridge_env \<Rightarrow> string \<Rightarrow> int option \<Rightarrow> status_info" where
  "synthesized_exited_status env sid exit_code =
     \<lparr>si_session = sid, si_status = Exited, si_last_output_at = be_now env, si_pid = None,
      si_exit_code = exit_code, si_tool_name = None, si_tool_use_id = None, si_tool_summary = None,
      si_updated_at = be_now env\<rparr>"

definition should_emit_status :: "string \<Rightarrow> status_info \<Rightarrow> bridge \<Rightarrow> bridge \<times> bool" where
  "should_emit_status sid status br =
     (let b = session_or_default sid br
      in if (case bs_status b of Some previous \<Rightarrow> same_status_payload previous status | None \<Rightarrow> False)
         then (br(sid \<mapsto> b), False) else (br(sid \<mapsto> b\<lparr>bs_status := Some status\<rparr>), True))"

definition emit_terminal_status_once ::
  "bridge_env \<Rightarrow> status_info \<Rightarrow> bridge \<Rightarrow> bridge \<times> bridge_event list" where
  "emit_terminal_status_once env status br =
     (let (br, emits) = should_emit_status (si_session status) status br
      in (br, if emits then emit_to_webview env (WebStatus status) else []))"

definition emit_terminal_exit_once ::
  "bridge_env \<Rightarrow> string \<Rightarrow> int \<Rightarrow> bridge \<Rightarrow> bridge \<times> bridge_event list" where
  "emit_terminal_exit_once env sid exit_code br =
     (let b = session_or_default sid br
      in if bs_exit_emitted b then (br(sid \<mapsto> b), [])
         else (br(sid \<mapsto> b\<lparr>bs_exit_emitted := True\<rparr>),
               HistoryEnded sid # emit_to_webview env (WebExit sid exit_code)))"

text \<open>The synthesised status and then the exit, as all three ends of a session report them.\<close>

definition emit_end ::
  "bridge_env \<Rightarrow> string \<Rightarrow> int option \<Rightarrow> int \<Rightarrow> bridge \<Rightarrow> bridge \<times> bridge_event list" where
  "emit_end env sid status_code exit_code br =
     (let (br, evs) = emit_terminal_status_once env (synthesized_exited_status env sid status_code) br;
          (br, evs') = emit_terminal_exit_once env sid exit_code br
      in (br, evs @ evs'))"

definition emit_cursor_delta :: "bridge_env \<Rightarrow> string \<Rightarrow> cursor_delta \<Rightarrow> nat option \<Rightarrow> bridge_event list" where
  "emit_cursor_delta env sid delta end_seq =
     (case delta of
        CursorUnchanged \<Rightarrow> []
      | CursorData data \<Rightarrow> emit_to_webview env (WebOutput sid data end_seq)
      | CursorResync \<Rightarrow> emit_to_webview env (WebDesync sid))"

subsection \<open>The stream\<close>

text \<open>The new state, the events, and whether the message ends the session.\<close>

definition handle_stream_message ::
  "bridge_env \<Rightarrow> string \<Rightarrow> stream_message \<Rightarrow> bridge \<Rightarrow> bridge \<times> bridge_event list \<times> bool" where
  "handle_stream_message env sid msg br =
     (case msg of
        StreamOutput data end_seq \<Rightarrow>
          (case br sid of
             None \<Rightarrow> (br, [], False)
           | Some b \<Rightarrow>
               (let (cursor, delta) = (case end_seq of
                       Some sq \<Rightarrow> cursor_stream sq data (bs_cursor b)
                     | None \<Rightarrow> (cursor_reset, CursorData data))
                in (br(sid \<mapsto> b\<lparr>bs_cursor := cursor\<rparr>), emit_cursor_delta env sid delta end_seq, False)))
      | StreamExit exit_code \<Rightarrow>
          (let (br, evs) = emit_end env sid (Some exit_code) exit_code br in (br, evs, True))
      | StreamKilled reason \<Rightarrow>
          (let (br, evs) = emit_end env sid None (-1) br
           in (br, emit_to_webview env (WebKilled sid (case reason of Some r \<Rightarrow> r | None \<Rightarrow> ''unknown'')) @ evs, True))
      | StreamDesync \<Rightarrow>
          (update_session sid (\<lambda>b. b\<lparr>bs_cursor := cursor_reset\<rparr>) br, emit_to_webview env (WebDesync sid), False)
      | StreamUnknown \<Rightarrow> (br, [], False))"

text \<open>What the socket delivers: a text (\<open>None\<close>: one that is no message), another frame, a close
  frame, or an error; \<open>None\<close> in place of a frame is the end of the stream.\<close>

datatype frame = TextFrame "stream_message option" | OtherFrame | CloseFrame | BrokenFrame

datatype drained = DrainError | Drained bool

text \<open>\<open>drain_ready_messages\<close> on what arrives within its window.\<close>

fun drain_ready_messages ::
  "bridge_env \<Rightarrow> string \<Rightarrow> frame option list \<Rightarrow> bridge \<Rightarrow> bridge \<times> bridge_event list \<times> drained" where
  "drain_ready_messages env sid [] br = (br, [], Drained False)"
| "drain_ready_messages env sid (None # fs) br = (br, [], Drained False)"
| "drain_ready_messages env sid (Some BrokenFrame # fs) br = (br, [], DrainError)"
| "drain_ready_messages env sid (Some CloseFrame # fs) br = (br, [], Drained False)"
| "drain_ready_messages env sid (Some OtherFrame # fs) br = drain_ready_messages env sid fs br"
| "drain_ready_messages env sid (Some (TextFrame None) # fs) br = (br, [], DrainError)"
| "drain_ready_messages env sid (Some (TextFrame (Some m)) # fs) br =
     (let (br, evs, over) = handle_stream_message env sid m br
      in if over then (br, evs, Drained True)
         else (let (br, evs', r) = drain_ready_messages env sid fs br in (br, evs @ evs', r)))"

datatype poll_status = PollContinue | PollDone

text \<open>\<open>poll_status\<close>: the answer of the backend is an error or the session if it still has it;
  \<open>None\<close> is the error.\<close>

definition poll_session_status ::
  "bridge_env \<Rightarrow> string \<Rightarrow> string + status_info option \<Rightarrow> bridge \<Rightarrow> bridge \<times> bridge_event list \<times> poll_status option" where
  "poll_session_status env sid answer br =
     (case answer of
        Inl e \<Rightarrow> (br, [], None)
      | Inr None \<Rightarrow> (let (br, evs) = emit_end env sid None (-1) br in (br, evs, Some PollDone))
      | Inr (Some status) \<Rightarrow>
          (let status = be_adjust env status;
               (br, emits) = should_emit_status sid status br
           in (br, if emits then emit_to_webview env (WebStatus status) else [], Some PollContinue)))"

text \<open>One turn of the loop of \<open>stream_session\<close>: a frame (or the end of the stream), or a tick of
  the status timer with the frames that are ready, the answer to the status query, and the frames
  that arrive in the last window.\<close>

datatype stream_input =
    Frame "frame option"
  | StatusTick "frame option list" "string + status_info option" "frame option list"

datatype stream_turn = Streams | StreamEnded | StreamInterrupted

definition drain_turn :: "stream_turn \<Rightarrow> drained \<Rightarrow> stream_turn" where
  "drain_turn otherwise r = (case r of DrainError \<Rightarrow> StreamInterrupted | Drained over \<Rightarrow> if over then StreamEnded else otherwise)"

fun stream_session ::
  "bridge_env \<Rightarrow> string \<Rightarrow> stream_input \<Rightarrow> bridge \<Rightarrow> bridge \<times> bridge_event list \<times> stream_turn" where
  "stream_session env sid (Frame f) br =
     (case f of
        Some OtherFrame \<Rightarrow> (br, [], Streams)
      | Some (TextFrame (Some m)) \<Rightarrow>
          (let (br, evs, over) = handle_stream_message env sid m br
           in (br, evs, if over then StreamEnded else Streams))
      | _ \<Rightarrow> (br, [], StreamInterrupted))"
| "stream_session env sid (StatusTick ready answer late) br =
     (let (br, evs, r) = drain_ready_messages env sid ready br
      in if r \<noteq> Drained False then (br, evs, drain_turn Streams r)
         else (let (br, evs', p) = poll_session_status env sid answer br
               in case p of
                    None \<Rightarrow> (br, evs @ evs', StreamInterrupted)
                  | Some PollContinue \<Rightarrow> (br, evs @ evs', Streams)
                  | Some PollDone \<Rightarrow>
                      (let (br, evs'', r') = drain_ready_messages env sid late br
                       in (br, evs @ evs' @ evs'', drain_turn StreamEnded r'))))"

subsection \<open>Polling\<close>

datatype snapshot_delta = SnapshotUnchanged | SnapshotDelta bytes | SnapshotMismatch

definition replay_snapshot_delta :: "bytes \<Rightarrow> bytes \<Rightarrow> snapshot_delta" where
  "replay_snapshot_delta previous current =
     (if current = [] then SnapshotUnchanged
      else if previous = [] then SnapshotDelta current
      else if current = previous then SnapshotUnchanged
      else (case strip_prefix previous current of Some delta \<Rightarrow> SnapshotDelta delta | None \<Rightarrow> SnapshotMismatch))"

definition apply_snapshot_delta :: "string \<Rightarrow> bytes \<Rightarrow> bridge \<Rightarrow> bridge \<times> snapshot_delta" where
  "apply_snapshot_delta sid data br =
     (let b = session_or_default sid br; outcome = replay_snapshot_delta (bs_snapshot b) data
      in (br(sid \<mapsto> (if outcome = SnapshotUnchanged then b else b\<lparr>bs_snapshot := data\<rparr>)), outcome))"

text \<open>The answers of the daemon: a recovery snapshot (or none for an unknown session), the
  refusal of an old daemon, or an error; and a plain replay snapshot.\<close>

datatype recovery_answer = Recovered "recovery option" | CheckpointUnsupported | RecoveryFailed

type_synonym legacy_answer = "string + bytes option"

text \<open>The last component is \<open>False\<close> when the poll ends in an error.\<close>

definition poll_legacy_snapshot ::
  "bridge_env \<Rightarrow> string \<Rightarrow> legacy_answer \<Rightarrow> bridge \<Rightarrow> bridge \<times> bridge_event list \<times> bool" where
  "poll_legacy_snapshot env sid answer br =
     (case answer of
        Inl e \<Rightarrow> (br, [], False)
      | Inr None \<Rightarrow> (br, [], True)
      | Inr (Some data) \<Rightarrow>
          (let (br, outcome) = apply_snapshot_delta sid data br
           in (br, (case outcome of
                      SnapshotDelta delta \<Rightarrow> emit_to_webview env (WebOutput sid delta None)
                    | SnapshotMismatch \<Rightarrow> emit_to_webview env (WebDesync sid)
                    | SnapshotUnchanged \<Rightarrow> []), True)))"

definition poll_snapshot ::
  "bridge_env \<Rightarrow> string \<Rightarrow> recovery_answer \<Rightarrow> legacy_answer \<Rightarrow> bridge \<Rightarrow> bridge \<times> bridge_event list \<times> bool" where
  "poll_snapshot env sid answer legacy br =
     (if (case br sid of Some b \<Rightarrow> bs_legacy b | None \<Rightarrow> False) then poll_legacy_snapshot env sid legacy br
      else (case answer of
              RecoveryFailed \<Rightarrow> (br, [], False)
            | CheckpointUnsupported \<Rightarrow>
                poll_legacy_snapshot env sid legacy
                  (update_session sid (\<lambda>b. b\<lparr>bs_legacy := True, bs_cursor := cursor_reset\<rparr>) br)
            | Recovered None \<Rightarrow> (br, [], True)
            | Recovered (Some rc) \<Rightarrow>
                (case br sid of
                   None \<Rightarrow> (br, [], True)
                 | Some b \<Rightarrow>
                     (let (cursor, delta) = cursor_recovery (rec_epoch rc) (rec_end_seq rc) (rec_delta rc) (bs_cursor b)
                      in (br(sid \<mapsto> b\<lparr>bs_cursor := cursor\<rparr>),
                          emit_cursor_delta env sid delta (Some (rec_end_seq rc)), True)))))"

text \<open>One turn of the loop of \<open>poll_session\<close>: the background connection succeeds, or the poll
  timer ticks. The tick counter of the schedule is the first argument of the turn.\<close>

datatype poll_input =
    Reconnected recovery_answer legacy_answer
  | PollTick recovery_answer legacy_answer "string + status_info option"

datatype poll_turn = Polls nat | BackToStream | PollEnded

fun poll_session ::
  "bridge_env \<Rightarrow> string \<Rightarrow> nat \<Rightarrow> poll_input \<Rightarrow> bridge \<Rightarrow> bridge \<times> bridge_event list \<times> poll_turn" where
  "poll_session env sid tick (Reconnected answer legacy) br =
     (let (br, evs, ok) = poll_snapshot env sid answer legacy br
      in (br, evs @ (if ok then [] else emit_cursor_delta env sid CursorResync None), BackToStream))"
| "poll_session env sid tick (PollTick answer legacy status) br =
     (let (work, tick') = next_work tick;
          (br, evs, ok) = poll_snapshot env sid answer legacy br
      in if work = SnapshotOnly then (br, evs, Polls tick')
         else (let (br, evs', p) = poll_session_status env sid status br
               in (br, evs @ evs', if p = Some PollDone then PollEnded else Polls tick')))"

subsection \<open>The life of a bridged session\<close>

datatype bridge_phase = Streaming | PollingFrom nat | Stopped

record bridge_run =
  br_sessions :: bridge
  br_counters :: connect_counters
  br_phase :: bridge_phase

datatype bridge_input = StreamInput stream_input | PollInput poll_input

text \<open>\<open>run_session\<close>: its start, given whether the first connection succeeded, and one turn of
  whichever loop it is in. An input of the other loop is not one it waits for.\<close>

definition start_polling :: "string \<Rightarrow> bridge_run \<Rightarrow> bridge_run" where
  "start_polling sid st =
     st\<lparr>br_sessions := set_session_mode sid Polling (br_sessions st),
        br_counters := record_fallback (br_counters st), br_phase := PollingFrom 0\<rparr>"

definition start_streaming :: "string \<Rightarrow> bridge_run \<Rightarrow> bridge_run" where
  "start_streaming sid st =
     st\<lparr>br_sessions := set_session_mode sid Websocket (br_sessions st), br_phase := Streaming\<rparr>"

definition run_start :: "string \<Rightarrow> bool \<Rightarrow> bridge_run \<Rightarrow> bridge_run" where
  "run_start sid connected st = (if connected then start_streaming sid st else start_polling sid st)"

definition run_stop :: "string \<Rightarrow> bridge_run \<Rightarrow> bridge_run" where
  "run_stop sid st = st\<lparr>br_sessions := stop_session sid (br_sessions st), br_phase := Stopped\<rparr>"

fun run_turn :: "string \<Rightarrow> bridge_env \<times> bridge_input \<Rightarrow> bridge_run \<Rightarrow> bridge_run \<times> bridge_event list" where
  "run_turn sid (env, inp) st =
     (case (br_phase st, inp) of
        (Streaming, StreamInput i) \<Rightarrow>
          (let (br, evs, t) = stream_session env sid i (br_sessions st); st = st\<lparr>br_sessions := br\<rparr>
           in (case t of Streams \<Rightarrow> st | StreamEnded \<Rightarrow> run_stop sid st | StreamInterrupted \<Rightarrow> start_polling sid st, evs))
      | (PollingFrom n, PollInput i) \<Rightarrow>
          (let (br, evs, t) = poll_session env sid n i (br_sessions st); st = st\<lparr>br_sessions := br\<rparr>
           in (case t of Polls n' \<Rightarrow> st\<lparr>br_phase := PollingFrom n'\<rparr> | BackToStream \<Rightarrow> start_streaming sid st
               | PollEnded \<Rightarrow> run_stop sid st, evs))
      | _ \<Rightarrow> (st, []))"

fun run_session :: "string \<Rightarrow> (bridge_env \<times> bridge_input) list \<Rightarrow> bridge_run \<Rightarrow> bridge_run \<times> bridge_event list" where
  "run_session sid [] st = (st, [])"
| "run_session sid (i # is) st =
     (let (st, evs) = run_turn sid i st; (st, evs') = run_session sid is st in (st, evs @ evs'))"

subsection \<open>What the web view receives is the stream\<close>

text \<open>\<open>piece S e data\<close>: the bytes \<open>data\<close> are those of the stream \<open>S\<close> that end at position \<open>e\<close>.\<close>

definition piece :: "bytes \<Rightarrow> nat \<Rightarrow> bytes \<Rightarrow> bool" where
  "piece S e data \<longleftrightarrow> e \<le> length S \<and> length data \<le> e \<and> data = drop (e - length data) (take e S)"

lemma piece_rest:
  assumes "piece S e data" and "e - length data \<le> p" and "p \<le> e"
  shows "piece S e (drop (p - (e - length data)) data)" "length (drop (p - (e - length data)) data) = e - p"
proof -
  have d: "data = drop (e - length data) (take e S)" and len: "length data \<le> e" "e \<le> length S"
    using assms(1) by (simp_all add: piece_def)
  show l: "length (drop (p - (e - length data)) data) = e - p" using assms len by simp
  have "drop (p - (e - length data)) data = drop p (take e S)"
    by (subst d) (use assms(2) in simp)
  then show "piece S e (drop (p - (e - length data)) data)" using l len assms(3) by (simp add: piece_def)
qed

text \<open>\<open>gapless S sid pos evs\<close>: from position \<open>pos\<close> of the stream (\<open>None\<close>: not known, the view
  reloads), each output continues exactly where the one before it ended, until the view is told
  to reload.\<close>

fun gapless :: "bytes \<Rightarrow> string \<Rightarrow> nat option \<Rightarrow> bridge_event list \<Rightarrow> bool" where
  "gapless S sid pos [] = True"
| "gapless S sid pos (WebOutput s data e # evs) =
     (if s \<noteq> sid then gapless S sid pos evs
      else (case e of None \<Rightarrow> False
            | Some e \<Rightarrow> piece S e data \<and> (case pos of None \<Rightarrow> True | Some p \<Rightarrow> p = e - length data)
                \<and> gapless S sid (Some e) evs))"
| "gapless S sid pos (WebDesync s # evs) = gapless S sid (if s = sid then None else pos) evs"
| "gapless S sid pos (_ # evs) = gapless S sid pos evs"

fun view_pos :: "string \<Rightarrow> nat option \<Rightarrow> bridge_event list \<Rightarrow> nat option" where
  "view_pos sid pos [] = pos"
| "view_pos sid pos (WebOutput s data e # evs) = view_pos sid (if s = sid then e else pos) evs"
| "view_pos sid pos (WebDesync s # evs) = view_pos sid (if s = sid then None else pos) evs"
| "view_pos sid pos (_ # evs) = view_pos sid pos evs"

lemma view_pos_append: "view_pos sid pos (xs @ ys) = view_pos sid (view_pos sid pos xs) ys"
  by (induction sid pos xs rule: view_pos.induct) simp_all

lemma gapless_append: "gapless S sid pos (xs @ ys) \<longleftrightarrow> gapless S sid pos xs \<and> gapless S sid (view_pos sid pos xs) ys"
  by (induction S sid pos xs rule: gapless.induct) (auto split: option.split)

text \<open>The cursor stands where the view stands, whenever that is known.\<close>

definition anchored :: "string \<Rightarrow> nat option \<Rightarrow> bridge \<Rightarrow> bool" where
  "anchored sid pos br \<longleftrightarrow>
     (\<forall>p. pos = Some p \<longrightarrow> (\<exists>b. br sid = Some b \<and> cu_end (bs_cursor b) = Some p))
     \<and> (\<forall>b. br sid = Some b \<longrightarrow> \<not> bs_legacy b)"

definition follows :: "bytes \<Rightarrow> string \<Rightarrow> nat option \<Rightarrow> bridge_event list \<Rightarrow> bridge \<Rightarrow> bool" where
  "follows S sid pos evs br \<longleftrightarrow> gapless S sid pos evs \<and> anchored sid (view_pos sid pos evs) br"

lemma follows_Nil [simp]: "follows S sid pos [] br = anchored sid pos br"
  by (simp add: follows_def)

lemma follows_append:
  "follows S sid pos xs br \<Longrightarrow> follows S sid (view_pos sid pos xs) ys br' \<Longrightarrow> follows S sid pos (xs @ ys) br'"
  by (simp add: follows_def gapless_append view_pos_append)

lemma cursor_stream_follows:
  assumes p: "piece S e data" and env: "be_allowed env" and c: "cursor_stream e data c = (c', delta)"
    and pos: "\<And>p. pos = Some p \<Longrightarrow> cu_end c = Some p"
  shows "gapless S sid pos (emit_cursor_delta env sid delta (Some e))
    \<and> (\<forall>p. view_pos sid pos (emit_cursor_delta env sid delta (Some e)) = Some p \<longrightarrow> cu_end c' = Some p)"
proof (cases "cu_end c")
  case None
  then have "pos = None" using pos by (cases pos) auto
  then show ?thesis
    using c None p env by (auto simp: cursor_stream_def emit_cursor_delta_def emit_to_webview_def piece_def Let_def)
next
  case (Some q)
  show ?thesis
  proof (cases "e \<le> q")
    case True
    then show ?thesis using c Some pos by (auto simp: cursor_stream_def emit_cursor_delta_def)
  next
    case False
    let ?d = "drop (q - (e - length data)) data"
    have le: "length data \<le> e" using p by (simp add: piece_def)
    show ?thesis
    proof (cases "q < e - length data \<or> str_get_from (q - (e - length data)) data = None")
      case True
      then have "delta = CursorResync" using c Some False le by (auto simp: cursor_stream_def Let_def split: if_splits)
      then show ?thesis using env by (simp add: emit_cursor_delta_def emit_to_webview_def)
    next
      case within: False
      then have d: "str_get_from (q - (e - length data)) data = Some ?d" by (auto simp: str_get_from_def split: if_splits)
      note rest = piece_rest [OF p, of q]
      then have "?d \<noteq> []" using within False by (metis diff_is_0_eq linorder_not_less list.size(3) nat_le_linear)
      then have "delta = CursorData ?d" "cu_end c' = Some e"
        using c Some False le within d by (auto simp: cursor_stream_def Let_def)
      moreover have "piece S e ?d" "length ?d = e - q" using rest within False by auto
      ultimately show ?thesis
        using pos Some False env by (auto simp: emit_cursor_delta_def emit_to_webview_def split: option.split)
    qed
  qed
qed

lemma cursor_recovery_follows:
  assumes p: "piece S e data" and env: "be_allowed env" and c: "cursor_recovery ep e data c = (c', delta)"
    and pos: "\<And>p. pos = Some p \<Longrightarrow> cu_end c = Some p"
  shows "gapless S sid pos (emit_cursor_delta env sid delta (Some e))
    \<and> (\<forall>p. view_pos sid pos (emit_cursor_delta env sid delta (Some e)) = Some p \<longrightarrow> cu_end c' = Some p)"
proof (cases "delta = CursorResync")
  case True
  then show ?thesis using env by (simp add: emit_cursor_delta_def emit_to_webview_def)
next
  case False
  then have "cursor_stream e data (c\<lparr>cu_epoch := Some ep\<rparr>) = (c', delta)"
    using c by (auto simp: cursor_recovery_def Let_def split: if_splits)
  then show ?thesis by (rule cursor_stream_follows [OF p env]) (simp add: pos)
qed

lemma recovery_end:
  assumes "cursor_recovery ep e data c = (c', delta)"
  shows "cu_end c' = Some e \<and> cu_epoch c' = Some ep"
  using assms by (auto simp: cursor_recovery_def cursor_stream_def Let_def split: if_splits option.splits)

text \<open>An honest daemon: an output carries its position and is a piece of the stream, and a recovery
  snapshot is a piece of the stream up to its end.\<close>

fun honest_message :: "bytes \<Rightarrow> stream_message \<Rightarrow> bool" where
  "honest_message S (StreamOutput data (Some e)) = piece S e data"
| "honest_message S (StreamOutput data None) = False"
| "honest_message S _ = True"

fun honest_frame :: "bytes \<Rightarrow> frame option \<Rightarrow> bool" where
  "honest_frame S (Some (TextFrame (Some m))) = honest_message S m"
| "honest_frame S _ = True"

fun honest_recovery :: "bytes \<Rightarrow> recovery_answer \<Rightarrow> bool" where
  "honest_recovery S (Recovered (Some rc)) = piece S (rec_end_seq rc) (rec_delta rc)"
| "honest_recovery S CheckpointUnsupported = False"
| "honest_recovery S _ = True"

fun honest_input :: "bytes \<Rightarrow> bridge_input \<Rightarrow> bool" where
  "honest_input S (StreamInput (Frame f)) = honest_frame S f"
| "honest_input S (StreamInput (StatusTick ready _ late)) = (list_all (honest_frame S) ready \<and> list_all (honest_frame S) late)"
| "honest_input S (PollInput (Reconnected answer _)) = honest_recovery S answer"
| "honest_input S (PollInput (PollTick answer _ _)) = honest_recovery S answer"

lemma anchored_weaken: "anchored sid pos br \<Longrightarrow> anchored sid None br"
  by (simp add: anchored_def)

lemma anchored_upd:
  "anchored sid pos br \<Longrightarrow> bs_cursor b = bs_cursor (session_or_default sid br) \<Longrightarrow> \<not> bs_legacy b
     \<Longrightarrow> anchored sid pos (br(sid \<mapsto> b))"
  by (auto simp: anchored_def session_or_default_def)

lemma anchored_not_legacy: "anchored sid pos br \<Longrightarrow> \<not> bs_legacy (session_or_default sid br)"
  by (auto simp: anchored_def session_or_default_def session_default_def split: option.split)

lemma should_emit_anchored:
  "anchored sid pos br \<Longrightarrow> should_emit_status sid status br = (br', e) \<Longrightarrow> anchored sid pos br'"
  using anchored_not_legacy [of sid pos br]
  by (auto simp: should_emit_status_def Let_def split: if_splits intro!: anchored_upd)

lemma follows_quiet:
  "anchored sid pos br \<Longrightarrow> gapless S sid pos evs \<Longrightarrow> view_pos sid pos evs = pos \<Longrightarrow> follows S sid pos evs br"
  by (simp add: follows_def)

lemma emit_end_follows:
  assumes "anchored sid pos br" and "emit_end env sid code x br = (br', evs)"
  shows "follows S sid pos evs br'"
proof -
  obtain br1 e where s: "should_emit_status sid (synthesized_exited_status env sid code) br = (br1, e)" by fastforce
  have a1: "anchored sid pos br1" by (rule should_emit_anchored [OF assms(1) s])
  let ?b = "session_or_default sid br1"
  have "anchored sid pos (br1(sid \<mapsto> ?b))" "anchored sid pos (br1(sid \<mapsto> ?b\<lparr>bs_exit_emitted := True\<rparr>))"
    using anchored_not_legacy [OF a1] by (auto intro: anchored_upd [OF a1])
  then show ?thesis
    using assms(2) s
    by (auto simp: emit_end_def emit_terminal_status_once_def emit_terminal_exit_once_def emit_to_webview_def
        synthesized_exited_status_def Let_def split: if_splits intro!: follows_quiet)
qed

lemma cursor_update_follows:
  assumes "anchored sid pos br" and b: "br sid = Some b"
    and "gapless S sid pos evs" "\<forall>p. view_pos sid pos evs = Some p \<longrightarrow> cu_end c = Some p"
  shows "follows S sid pos evs (br(sid \<mapsto> b\<lparr>bs_cursor := c\<rparr>))"
  using assms by (auto simp: follows_def anchored_def)

lemma handle_follows:
  assumes "anchored sid pos br" and "honest_message S msg" and "be_allowed env"
    and "handle_stream_message env sid msg br = (br', evs, over)"
  shows "follows S sid pos evs br'"
proof (cases msg)
  case (StreamOutput data e)
  then obtain n where e: "e = Some n" "piece S n data" using assms(2) by (cases e) auto
  show ?thesis
  proof (cases "br sid")
    case None
    then show ?thesis using assms StreamOutput by (simp add: handle_stream_message_def)
  next
    case (Some b)
    obtain c delta where c: "cursor_stream n data (bs_cursor b) = (c, delta)" by fastforce
    have "cu_end (bs_cursor b) = Some p" if "pos = Some p" for p
      using assms(1) that Some by (auto simp: anchored_def)
    from cursor_stream_follows [OF e(2) assms(3) c this, of pos sid] show ?thesis
      using assms(4) StreamOutput Some c e(1) cursor_update_follows [OF assms(1) Some]
      by (auto simp: handle_stream_message_def)
  qed
next
  case (StreamExit x)
  then show ?thesis using assms emit_end_follows by (auto simp: handle_stream_message_def split: prod.splits)
next
  case (StreamKilled reason)
  then obtain evs' where "emit_end env sid None (-1) br = (br', evs')"
    "evs = emit_to_webview env (WebKilled sid (case reason of Some r \<Rightarrow> r | None \<Rightarrow> ''unknown'')) @ evs'"
    using assms(4) by (auto simp: handle_stream_message_def split: prod.splits)
  then show ?thesis using emit_end_follows [OF assms(1)] assms(3) by (simp add: emit_to_webview_def follows_def)
next
  case StreamDesync
  then show ?thesis
    using assms by (auto simp: handle_stream_message_def emit_to_webview_def follows_def anchored_def update_session_def
        split: option.splits)
qed (use assms in \<open>simp add: handle_stream_message_def\<close>)

lemma drain_follows:
  "anchored sid pos br \<Longrightarrow> list_all (honest_frame S) fs \<Longrightarrow> be_allowed env \<Longrightarrow>
     drain_ready_messages env sid fs br = (br', evs, r) \<Longrightarrow> follows S sid pos evs br'"
proof (induction env sid fs br arbitrary: pos br' evs r rule: drain_ready_messages.induct)
  case (7 env sid m fs br)
  obtain br1 evs1 over where h: "handle_stream_message env sid m br = (br1, evs1, over)" by (metis prod_cases3)
  have f: "follows S sid pos evs1 br1" by (rule handle_follows [OF 7(2) _ 7(4) h]) (use 7(3) in simp)
  show ?case
  proof (cases over)
    case True
    then show ?thesis using 7(5) h f by simp
  next
    case False
    obtain br2 evs2 r2 where d: "drain_ready_messages env sid fs br1 = (br2, evs2, r2)" by (metis prod_cases3)
    have "follows S sid (view_pos sid pos evs1) evs2 br2"
      by (rule 7(1) [OF h [symmetric] refl refl False _ _ 7(4) d]) (use f 7(3) in \<open>simp_all add: follows_def\<close>)
    then show ?thesis using 7(5) h d False follows_append [OF f] by auto
  qed
qed auto

lemma poll_status_follows:
  assumes "anchored sid pos br" and "poll_session_status env sid answer br = (br', evs, p)"
  shows "follows S sid pos evs br'"
proof (cases answer)
  case (Inr found)
  show ?thesis
  proof (cases found)
    case None
    then show ?thesis using assms Inr emit_end_follows by (auto simp: poll_session_status_def split: prod.splits)
  next
    case (Some status)
    obtain br1 e where s: "should_emit_status sid (be_adjust env status) br = (br1, e)" by fastforce
    then show ?thesis
      using assms Inr Some should_emit_anchored [OF assms(1) s]
      by (auto simp: poll_session_status_def emit_to_webview_def Let_def intro!: follows_quiet)
  qed
qed (use assms in \<open>simp add: poll_session_status_def\<close>)

lemma poll_snapshot_follows:
  assumes "anchored sid pos br" and "honest_recovery S answer" and "be_allowed env"
    and "poll_snapshot env sid answer legacy br = (br', evs, ok)"
  shows "follows S sid pos evs br'"
proof (cases "\<exists>rc b. answer = Recovered (Some rc) \<and> br sid = Some b")
  case True
  then obtain rc b where rc: "answer = Recovered (Some rc)" "br sid = Some b" by blast
  obtain c delta where c: "cursor_recovery (rec_epoch rc) (rec_end_seq rc) (rec_delta rc) (bs_cursor b) = (c, delta)"
    by fastforce
  have "cu_end (bs_cursor b) = Some p" if "pos = Some p" for p
    using assms(1) that rc by (auto simp: anchored_def)
  from cursor_recovery_follows [OF _ assms(3) c this, of S pos sid] show ?thesis
    using assms(1,2,4) rc c cursor_update_follows [OF assms(1) rc(2)] by (auto simp: poll_snapshot_def anchored_def)
next
  case False
  then show ?thesis
    using assms by (cases answer) (auto simp: poll_snapshot_def anchored_def split: option.splits if_splits)
qed

lemma stream_session_follows:
  assumes "anchored sid pos br" and "honest_input S (StreamInput i)" and "be_allowed env"
    and "stream_session env sid i br = (br', evs, t)"
  shows "follows S sid pos evs br'"
proof (cases i)
  case (Frame f)
  show ?thesis
  proof (cases "\<exists>m. f = Some (TextFrame (Some m))")
    case True
    then obtain m where "f = Some (TextFrame (Some m))" by blast
    then show ?thesis using assms Frame handle_follows [OF assms(1) _ assms(3)] by (auto split: prod.splits)
  qed (use assms Frame in \<open>auto split: option.splits frame.splits\<close>)
next
  case (StatusTick ready answer late)
  obtain br1 evs1 r where d: "drain_ready_messages env sid ready br = (br1, evs1, r)" by (metis prod_cases3)
  have f1: "follows S sid pos evs1 br1"
    by (rule drain_follows [OF assms(1) _ assms(3) d]) (use assms(2) StatusTick in simp)
  show ?thesis
  proof (cases "r = Drained False")
    case False
    then show ?thesis using assms(4) StatusTick d f1 by simp
  next
    case True
    obtain br2 evs2 p where q: "poll_session_status env sid answer br1 = (br2, evs2, p)" by (metis prod_cases3)
    have "follows S sid (view_pos sid pos evs1) evs2 br2"
      by (rule poll_status_follows [OF _ q]) (use f1 in \<open>simp add: follows_def\<close>)
    note f2 = follows_append [OF f1 this]
    obtain br3 evs3 r3 where d3: "drain_ready_messages env sid late br2 = (br3, evs3, r3)" by (metis prod_cases3)
    have "follows S sid (view_pos sid pos (evs1 @ evs2)) evs3 br3"
      by (rule drain_follows [OF _ _ assms(3) d3]) (use f2 assms(2) StatusTick in \<open>simp_all add: follows_def\<close>)
    note f3 = follows_append [OF f2 this]
    show ?thesis
      using assms(4) StatusTick d True q d3 f2 f3 by (auto split: option.splits poll_status.splits)
  qed
qed

lemma poll_session_follows:
  assumes "anchored sid pos br" and "honest_input S (PollInput i)" and "be_allowed env"
    and "poll_session env sid n i br = (br', evs, t)"
  shows "follows S sid pos evs br'"
proof (cases i)
  case (Reconnected answer legacy)
  obtain br1 evs1 ok where p: "poll_snapshot env sid answer legacy br = (br1, evs1, ok)" by (metis prod_cases3)
  have f: "follows S sid pos evs1 br1"
    by (rule poll_snapshot_follows [OF assms(1) _ assms(3) p]) (use assms(2) Reconnected in simp)
  have "follows S sid (view_pos sid pos evs1) (emit_cursor_delta env sid CursorResync None) br1"
    using f assms(3) by (auto simp: follows_def emit_cursor_delta_def emit_to_webview_def anchored_def)
  from follows_append [OF f this] show ?thesis using assms(4) Reconnected p f by auto
next
  case (PollTick answer legacy status)
  obtain br1 evs1 ok where p: "poll_snapshot env sid answer legacy br = (br1, evs1, ok)" by (metis prod_cases3)
  have f: "follows S sid pos evs1 br1"
    by (rule poll_snapshot_follows [OF assms(1) _ assms(3) p]) (use assms(2) PollTick in simp)
  obtain br2 evs2 q where s: "poll_session_status env sid status br1 = (br2, evs2, q)" by (metis prod_cases3)
  have "follows S sid (view_pos sid pos evs1) evs2 br2"
    by (rule poll_status_follows [OF _ s]) (use f in \<open>simp add: follows_def\<close>)
  from follows_append [OF f this] show ?thesis using assms(4) PollTick p s f by (auto split: prod.splits if_splits)
qed

lemma anchored_mode: "anchored sid pos br \<Longrightarrow> anchored sid pos (set_session_mode sid m br)"
  by (auto simp: anchored_def set_session_mode_def update_session_def split: option.split)

lemma run_turn_follows:
  assumes "br_phase st \<noteq> Stopped \<Longrightarrow> anchored sid pos (br_sessions st)" and "honest_input S inp" and "be_allowed env"
    and "run_turn sid (env, inp) st = (st', evs)"
  shows "gapless S sid pos evs \<and> (br_phase st' \<noteq> Stopped \<longrightarrow> anchored sid (view_pos sid pos evs) (br_sessions st'))"
proof (cases "br_phase st")
  case Streaming
  note anchored = assms(1) [unfolded Streaming, simplified]
  show ?thesis
  proof (cases inp)
    case (StreamInput i)
    obtain br evs1 t where s: "stream_session env sid i (br_sessions st) = (br, evs1, t)" by (metis prod_cases3)
    have "follows S sid pos evs1 br"
      by (rule stream_session_follows [OF anchored _ assms(3) s]) (use assms(2) StreamInput in simp)
    then show ?thesis
      using assms(4) Streaming StreamInput s
      by (cases t) (auto simp: follows_def run_stop_def start_polling_def anchored_mode)
  qed (use assms(4) Streaming anchored in auto)
next
  case (PollingFrom n)
  note anchored = assms(1) [unfolded PollingFrom, simplified]
  show ?thesis
  proof (cases inp)
    case (PollInput i)
    obtain br evs1 t where s: "poll_session env sid n i (br_sessions st) = (br, evs1, t)" by (metis prod_cases3)
    have "follows S sid pos evs1 br"
      by (rule poll_session_follows [OF anchored _ assms(3) s]) (use assms(2) PollInput in simp)
    then show ?thesis
      using assms(4) PollingFrom PollInput s
      by (cases t) (auto simp: follows_def run_stop_def start_streaming_def anchored_mode)
  qed (use assms(4) PollingFrom anchored in auto)
qed (use assms(4) in simp)

lemma run_session_follows:
  "(br_phase st \<noteq> Stopped \<Longrightarrow> anchored sid pos (br_sessions st)) \<Longrightarrow>
     list_all (\<lambda>(env, inp). be_allowed env \<and> honest_input S inp) is \<Longrightarrow>
     run_session sid is st = (st', evs) \<Longrightarrow> gapless S sid pos evs"
proof (induction "is" arbitrary: st st' pos evs)
  case (Cons i "is")
  obtain env inp where i: "i = (env, inp)" by fastforce
  obtain st1 evs1 where t: "run_turn sid (env, inp) st = (st1, evs1)" by fastforce
  obtain st2 evs2 where r: "run_session sid is st1 = (st2, evs2)" by fastforce
  have g: "gapless S sid pos evs1 \<and> (br_phase st1 \<noteq> Stopped \<longrightarrow> anchored sid (view_pos sid pos evs1) (br_sessions st1))"
    by (rule run_turn_follows [OF _ _ _ t]) (use Cons.prems i in auto)
  have "gapless S sid (view_pos sid pos evs1) evs2"
    by (rule Cons.IH [OF _ _ r]) (use g Cons.prems in auto)
  with g show ?case using Cons.prems(3) i t r by (auto simp: gapless_append simp del: run_turn.simps)
qed simp

text \<open>The recovery snapshots of the replay buffer are honest.\<close>

lemma recovery_is_piece:
  "honest_recovery (concat (pushed ops) @ later) (Recovered (Some (recovery_snapshot (rb_run ops (replay_new ep n)))))"
proof -
  let ?r = "rb_run ops (replay_new ep n)" and ?S = "concat (pushed ops)"
  have inv: "rb_inv (pushed ops) ?r" by (rule rb_reachable_inv)
  have "\<exists>k. rec_delta (recovery_snapshot ?r) = drop k ?S"
  proof (cases "rb_photo ?r")
    case (Some cp)
    with inv have "valid_checkpoint ?r = Some cp" "rb_start ?r \<le> cp_anchor cp"
      by (auto simp: rb_inv_def photo_ok_def valid_checkpoint_def)
    with inv window_delta [OF _ pushed_nonempty] show ?thesis by (auto simp: rb_inv_def recovery_snapshot_def)
  next
    case None
    then show ?thesis
      using inv by (auto simp: valid_checkpoint_def recovery_snapshot_def replay_snapshot_def rb_inv_def window_contents)
  qed
  then obtain k where k: "rec_delta (recovery_snapshot ?r) = drop k ?S" by blast
  have "rec_end_seq (recovery_snapshot ?r) = length ?S"
    using inv by (simp add: recovery_snapshot_def rb_inv_def window_def case_prod_beta)
  with k show ?thesis by (cases "k \<le> length ?S") (simp_all add: piece_def)
qed

text \<open>C4: The output that reaches the web view has no hole and no repetition: whatever mix of stream
  messages, snapshots, reconnections and errors a bridged session meets, as long as the daemon
  sends pieces of one byte stream, each output it forwards is a piece of that stream that starts
  exactly where the last one ended, unless the view is told in between to reload.\<close>

theorem bridge_output_gapless:
  assumes "list_all (\<lambda>(env, inp). be_allowed env \<and> honest_input S inp) is"
    and "(case br_sessions st sid of Some b \<Rightarrow> \<not> bs_legacy b | None \<Rightarrow> True)"
    and "run_session sid is st = (st', evs)"
  shows "gapless S sid None evs"
  by (rule run_session_follows [OF _ assms(1,3)]) (use assms(2) in \<open>auto simp: anchored_def split: option.splits\<close>)

definition demo_env :: bridge_env where
  "demo_env = \<lparr>be_allowed = True, be_now = 0, be_adjust = id\<rparr>"

definition demo_run :: bridge_run where
  "demo_run = run_start ''s'' True \<lparr>br_sessions = fst (start_session_with_snapshot ''s'' None Map.empty),
     br_counters = counters_new, br_phase = Stopped\<rparr>"

text \<open>The stream breaks after \<open>abc\<close>; a poll brings \<open>de\<close>, and after the reconnection a queued frame
  that overlaps it brings only \<open>f\<close>.\<close>

definition demo_inputs :: "(bridge_env \<times> bridge_input) list" where
  "demo_inputs = map (Pair demo_env)
     [StreamInput (Frame (Some (TextFrame (Some (StreamOutput ''abc'' (Some 3)))))),
      StreamInput (Frame (Some BrokenFrame)),
      PollInput (PollTick (Recovered (Some \<lparr>rec_checkpoint = None, rec_delta = ''bcde'', rec_mode = Normal,
        rec_end_seq = 5, rec_epoch = 1\<rparr>)) (Inr None) (Inl [])),
      PollInput (Reconnected (Recovered None) (Inr None)),
      StreamInput (Frame (Some (TextFrame (Some (StreamOutput ''def'' (Some 6))))))]"

lemmas demo_run_defs = demo_run_def demo_inputs_def demo_env_def run_start_def start_streaming_def start_polling_def
  set_session_mode_def update_session_def start_session_with_snapshot_def session_or_default_def
  session_default_def cursor_reset_def

lemma demo_honest: "list_all (\<lambda>(env, inp). be_allowed env \<and> honest_input ''abcdef'' inp) demo_inputs"
  by (simp add: demo_inputs_def demo_env_def piece_def)

theorem bridge_output_gapless_witness:
  "snd (run_session ''s'' demo_inputs demo_run) =
     [WebOutput ''s'' ''abc'' (Some 3), WebOutput ''s'' ''de'' (Some 5), WebOutput ''s'' ''f'' (Some 6)]
   \<and> gapless ''abcdef'' ''s'' None (snd (run_session ''s'' demo_inputs demo_run))"
proof
  show "snd (run_session ''s'' demo_inputs demo_run) =
     [WebOutput ''s'' ''abc'' (Some 3), WebOutput ''s'' ''de'' (Some 5), WebOutput ''s'' ''f'' (Some 6)]"
    by (simp add: demo_run_defs handle_stream_message_def cursor_stream_def emit_cursor_delta_def emit_to_webview_def
        poll_snapshot_def cursor_recovery_def str_get_from_def is_char_boundary_def cont_def byte_in_def byte_def
        next_work_def poll_session_status_def record_fallback_def counters_new_def POLL_STATUS_EVERY_TICKS_def Let_def)
  show "gapless ''abcdef'' ''s'' None (snd (run_session ''s'' demo_inputs demo_run))"
    by (rule bridge_output_gapless [OF demo_honest _ surjective_pairing]) (simp add: demo_run_defs)
qed

subsection \<open>The end of a session is reported once\<close>

definition ends :: "string \<Rightarrow> bridge_event list \<Rightarrow> nat" where
  "ends sid evs = count_list evs (HistoryEnded sid)"

definition ended :: "string \<Rightarrow> bridge \<Rightarrow> bool" where
  "ended sid br = (case br sid of Some b \<Rightarrow> bs_exit_emitted b | None \<Rightarrow> False)"

text \<open>The reports of an operation are accounted for by the mark of the session.\<close>

definition accounts :: "string \<Rightarrow> bridge \<Rightarrow> bridge_event list \<Rightarrow> bridge \<Rightarrow> bool" where
  "accounts sid br evs br' \<longleftrightarrow> ends sid evs + of_bool (ended sid br) = of_bool (ended sid br')"

lemma ends_simps [simp]:
  "ends sid [] = 0" "ends sid (xs @ ys) = ends sid xs + ends sid ys"
  "ends sid (emit_to_webview env (WebOutput s d e)) = 0" "ends sid (emit_to_webview env (WebDesync s)) = 0"
  "ends sid (emit_to_webview env (WebStatus i)) = 0" "ends sid (emit_to_webview env (WebExit s x)) = 0"
  "ends sid (emit_to_webview env (WebKilled s r)) = 0" "ends sid (emit_cursor_delta env s delta e) = 0"
  "ends sid (HistoryEnded s # evs) = of_bool (s = sid) + ends sid evs"
  by (simp_all add: ends_def emit_to_webview_def emit_cursor_delta_def split: cursor_delta.split)

lemma accounts_trans: "accounts sid br xs br1 \<Longrightarrow> accounts sid br1 ys br2 \<Longrightarrow> accounts sid br (xs @ ys) br2"
  by (simp add: accounts_def)

lemma accounts_ended: "accounts sid br evs br' \<Longrightarrow> ended sid br \<Longrightarrow> ended sid br'"
  by (cases "ended sid br'") (simp_all add: accounts_def)

lemma should_emit_ended: "should_emit_status sid status br = (br', e) \<Longrightarrow> ended sid br' = ended sid br"
  by (auto simp: should_emit_status_def ended_def session_or_default_def session_default_def Let_def
      split: if_splits option.splits)

lemma emit_end_accounts:
  assumes "emit_end env sid code x br = (br', evs)"
  shows "accounts sid br evs br' \<and> ended sid br'"
proof -
  obtain br1 e where s: "should_emit_status sid (synthesized_exited_status env sid code) br = (br1, e)" by fastforce
  have "ended sid br1 = bs_exit_emitted (session_or_default sid br1)"
    by (simp add: ended_def session_or_default_def session_default_def split: option.split)
  then show ?thesis
    using assms s should_emit_ended [OF s]
    by (auto simp: emit_end_def emit_terminal_status_once_def emit_terminal_exit_once_def accounts_def ended_def
        synthesized_exited_status_def Let_def split: if_splits)
qed

lemma handle_accounts:
  assumes "handle_stream_message env sid msg br = (br', evs, over)"
  shows "accounts sid br evs br' \<and> (over \<longrightarrow> ended sid br')"
proof (cases msg)
  case (StreamExit x)
  then show ?thesis using assms emit_end_accounts by (auto simp: handle_stream_message_def split: prod.splits)
next
  case (StreamKilled r)
  then show ?thesis
    using assms emit_end_accounts by (fastforce simp: handle_stream_message_def accounts_def split: prod.splits)
qed (use assms in \<open>auto simp: handle_stream_message_def accounts_def ended_def update_session_def split: option.splits prod.splits\<close>)

lemma drain_accounts:
  "drain_ready_messages env sid fs br = (br', evs, r) \<Longrightarrow>
     accounts sid br evs br' \<and> (r = Drained True \<longrightarrow> ended sid br')"
proof (induction env sid fs br arbitrary: br' evs r rule: drain_ready_messages.induct)
  case (7 env sid m fs br)
  obtain br1 evs1 over where h: "handle_stream_message env sid m br = (br1, evs1, over)" by (metis prod_cases3)
  obtain br2 evs2 r2 where d: "drain_ready_messages env sid fs br1 = (br2, evs2, r2)" by (metis prod_cases3)
  show ?case
    using 7(1) [OF h [symmetric] refl refl _ d] 7(2) h d handle_accounts [OF h]
    by (cases over) (auto intro: accounts_trans)
qed (auto simp: accounts_def)

lemma poll_status_accounts:
  assumes "poll_session_status env sid answer br = (br', evs, p)"
  shows "accounts sid br evs br' \<and> (p = Some PollDone \<longrightarrow> ended sid br')"
proof (cases "answer = Inr None")
  case True
  then show ?thesis using assms emit_end_accounts by (auto simp: poll_session_status_def split: prod.splits)
next
  case False
  then show ?thesis
    using assms should_emit_ended
    by (fastforce simp: poll_session_status_def accounts_def Let_def split: sum.splits option.splits prod.splits)
qed

lemma poll_snapshot_accounts:
  assumes "poll_snapshot env sid answer legacy br = (br', evs, ok)"
  shows "accounts sid br evs br'"
proof -
  have leg: "accounts sid b1 evs br'" if "poll_legacy_snapshot env sid legacy b1 = (br', evs, ok)" for b1
    using that by (auto simp: poll_legacy_snapshot_def apply_snapshot_delta_def accounts_def ended_def
        session_or_default_def session_default_def Let_def split: sum.splits option.splits snapshot_delta.splits if_splits)
  have upd: "accounts sid br evs br'"
    if "accounts sid (update_session sid (\<lambda>b. b\<lparr>bs_legacy := True, bs_cursor := cursor_reset\<rparr>) br) evs br'"
    using that by (cases "br sid") (simp_all add: accounts_def ended_def update_session_def)
  show ?thesis
  proof (cases "(case br sid of Some b \<Rightarrow> bs_legacy b | None \<Rightarrow> False)")
    case True
    then show ?thesis using assms leg [of br] by (simp add: poll_snapshot_def)
  next
    case False
    show ?thesis
    proof (cases answer)
      case (Recovered found)
      then show ?thesis using assms False
        by (auto simp: poll_snapshot_def accounts_def ended_def split: option.splits prod.splits)
    next
      case CheckpointUnsupported
      then show ?thesis using assms False leg upd by (simp add: poll_snapshot_def)
    qed (use assms False in \<open>simp add: poll_snapshot_def accounts_def\<close>)
  qed
qed

lemma stream_session_accounts:
  assumes "stream_session env sid i br = (br', evs, t)"
  shows "accounts sid br evs br' \<and> (t = StreamEnded \<longrightarrow> ended sid br')"
proof (cases i)
  case (Frame f)
  show ?thesis
  proof (cases "\<exists>m. f = Some (TextFrame (Some m))")
    case True
    then obtain m where "f = Some (TextFrame (Some m))" by blast
    then show ?thesis using assms Frame handle_accounts by (fastforce split: prod.splits if_splits)
  qed (use assms Frame in \<open>auto simp: accounts_def split: option.splits frame.splits\<close>)
next
  case (StatusTick ready answer late)
  obtain br1 evs1 r where d: "drain_ready_messages env sid ready br = (br1, evs1, r)" by (metis prod_cases3)
  obtain br2 evs2 p where q: "poll_session_status env sid answer br1 = (br2, evs2, p)" by (metis prod_cases3)
  obtain br3 evs3 r3 where d3: "drain_ready_messages env sid late br2 = (br3, evs3, r3)" by (metis prod_cases3)
  note acc = drain_accounts [OF d] poll_status_accounts [OF q] drain_accounts [OF d3]
  then have kept: "p = Some PollDone \<Longrightarrow> ended sid br3" using accounts_ended by blast
  show ?thesis
  proof (cases "r = Drained False")
    case False
    then show ?thesis using assms StatusTick d acc(1) by (cases r) (auto simp: drain_turn_def)
  next
    case True
    then show ?thesis
      using assms StatusTick d q d3 acc kept
      by (cases p; cases "the p") (auto simp: drain_turn_def intro: accounts_trans)
  qed
qed

lemma poll_session_accounts:
  assumes "poll_session env sid n i br = (br', evs, t)"
  shows "accounts sid br evs br' \<and> (t = PollEnded \<longrightarrow> ended sid br')"
proof (cases i)
  case (Reconnected answer legacy)
  obtain br1 evs1 ok where p: "poll_snapshot env sid answer legacy br = (br1, evs1, ok)" by (metis prod_cases3)
  then show ?thesis using assms Reconnected poll_snapshot_accounts [OF p]
    by (cases "ended sid br'") (auto simp: accounts_def)
next
  case (PollTick answer legacy status)
  obtain br1 evs1 ok where p: "poll_snapshot env sid answer legacy br = (br1, evs1, ok)" by (metis prod_cases3)
  obtain br2 evs2 q where s: "poll_session_status env sid status br1 = (br2, evs2, q)" by (metis prod_cases3)
  note acc = poll_snapshot_accounts [OF p] poll_status_accounts [OF s]
  then have "accounts sid br (evs1 @ evs2) br2" using accounts_trans by metis
  moreover obtain work n' where "next_work n = (work, n')" by fastforce
  ultimately show ?thesis
    using assms PollTick p s acc by (cases "work = SnapshotOnly") auto
qed

lemma ended_mode [simp]: "ended sid (set_session_mode sid m br) = ended sid br"
  by (auto simp: ended_def set_session_mode_def update_session_def split: option.split)

text \<open>While the bridge runs, its mark tells how many ends it has reported; when it stops, it has
  reported one.\<close>

definition reported :: "string \<Rightarrow> bridge_run \<Rightarrow> nat" where
  "reported sid st = (if br_phase st = Stopped then 1 else of_bool (ended sid (br_sessions st)))"

lemma run_turn_reports:
  assumes "run_turn sid (env, inp) st = (st', evs)"
  shows "ends sid evs + reported sid st = reported sid st'"
proof (cases "br_phase st"; cases inp)
  fix i assume p: "br_phase st = Streaming" "inp = StreamInput i"
  obtain br evs1 t where s: "stream_session env sid i (br_sessions st) = (br, evs1, t)" by (metis prod_cases3)
  show ?thesis using assms p s stream_session_accounts [OF s]
    by (cases t) (auto simp: reported_def accounts_def run_stop_def start_polling_def)
next
  fix n i assume p: "br_phase st = PollingFrom n" "inp = PollInput i"
  obtain br evs1 t where s: "poll_session env sid n i (br_sessions st) = (br, evs1, t)" by (metis prod_cases3)
  show ?thesis using assms p s poll_session_accounts [OF s]
    by (cases t) (auto simp: reported_def accounts_def run_stop_def start_streaming_def)
qed (use assms in \<open>auto simp: reported_def\<close>)

text \<open>The exits the web view hears: never more than ends, and as many when it takes events.\<close>

fun is_exit :: "string \<Rightarrow> bridge_event \<Rightarrow> bool" where
  "is_exit sid (WebExit s x) = (s = sid)"
| "is_exit sid _ = False"

definition exits :: "string \<Rightarrow> bridge_event list \<Rightarrow> nat" where
  "exits sid evs = length (filter (is_exit sid) evs)"

definition matched :: "bridge_env \<Rightarrow> string \<Rightarrow> bridge_event list \<Rightarrow> bool" where
  "matched env sid evs \<longleftrightarrow> exits sid evs \<le> ends sid evs \<and> (be_allowed env \<longrightarrow> exits sid evs = ends sid evs)"

lemma matched_simps [simp]:
  "matched env sid []"
  "matched env sid (emit_to_webview env (WebOutput s d e))" "matched env sid (emit_to_webview env (WebDesync s))"
  "matched env sid (emit_to_webview env (WebStatus i))" "matched env sid (emit_to_webview env (WebKilled s r))"
  "matched env sid (emit_cursor_delta env s delta e)"
  "matched env sid (HistoryEnded s # emit_to_webview env (WebExit s x))"
  by (simp_all add: matched_def exits_def ends_def emit_to_webview_def emit_cursor_delta_def split: cursor_delta.split)

lemma matched_append [intro]: "matched env sid xs \<Longrightarrow> matched env sid ys \<Longrightarrow> matched env sid (xs @ ys)"
  by (auto simp: matched_def exits_def)

lemma emit_end_matched: "emit_end env sid code x br = (br', evs) \<Longrightarrow> matched env sid evs"
  by (auto simp: emit_end_def emit_terminal_status_once_def emit_terminal_exit_once_def Let_def
      split: prod.splits if_splits)

lemma handle_matched: "handle_stream_message env sid msg br = (br', evs, over) \<Longrightarrow> matched env sid evs"
  by (auto simp: handle_stream_message_def emit_end_matched split: stream_message.splits prod.splits option.splits)

lemma drain_matched: "drain_ready_messages env sid fs br = (br', evs, r) \<Longrightarrow> matched env sid evs"
proof (induction env sid fs br arbitrary: br' evs r rule: drain_ready_messages.induct)
  case (7 env sid m fs br)
  obtain br1 evs1 over where h: "handle_stream_message env sid m br = (br1, evs1, over)" by (metis prod_cases3)
  obtain br2 evs2 r2 where d: "drain_ready_messages env sid fs br1 = (br2, evs2, r2)" by (metis prod_cases3)
  show ?case
    using 7(1) [OF h [symmetric] refl refl _ d] 7(2) h d handle_matched [OF h] by (cases over) auto
qed auto

lemma poll_status_matched: "poll_session_status env sid answer br = (br', evs, p) \<Longrightarrow> matched env sid evs"
  by (auto simp: poll_session_status_def emit_end_matched Let_def split: sum.splits option.splits prod.splits)

lemma poll_snapshot_matched: "poll_snapshot env sid answer legacy br = (br', evs, ok) \<Longrightarrow> matched env sid evs"
proof -
  have "matched env sid evs" if "poll_legacy_snapshot env sid legacy b1 = (br', evs, ok)" for b1
    using that by (auto simp: poll_legacy_snapshot_def split: sum.splits option.splits snapshot_delta.splits prod.splits)
  then show "poll_snapshot env sid answer legacy br = (br', evs, ok) \<Longrightarrow> matched env sid evs"
    by (auto simp: poll_snapshot_def split: if_splits recovery_answer.splits option.splits prod.splits)
qed

lemma stream_session_matched: "stream_session env sid i br = (br', evs, t) \<Longrightarrow> matched env sid evs"
proof (cases i)
  case (StatusTick ready answer late)
  assume "stream_session env sid i br = (br', evs, t)"
  then show ?thesis using StatusTick
    by (auto split: prod.splits if_splits option.splits poll_status.splits
        dest!: drain_matched poll_status_matched)
qed (auto split: option.splits frame.splits prod.splits dest: handle_matched)

lemma poll_session_matched: "poll_session env sid n i br = (br', evs, t) \<Longrightarrow> matched env sid evs"
  by (cases i) (auto simp: Let_def split: prod.splits if_splits dest!: poll_snapshot_matched poll_status_matched)

lemma run_turn_matched: "run_turn sid (env, inp) st = (st', evs) \<Longrightarrow> matched env sid evs"
  by (cases "br_phase st"; cases inp)
    (auto simp: Let_def split: prod.splits dest!: stream_session_matched poll_session_matched)

text \<open>C32: The end of a session is reported exactly once: however the exit message, the kill
  message, status queries that find the session gone, and reconnections race, a bridge that has
  stopped has reported one end of its session to the watcher of the histories, and one that has
  not has reported at most one, namely when its mark is set. The web view never hears of more exits
  than that, and hears each of them if it takes events throughout.\<close>

theorem session_end_reported_once:
  assumes "run_session sid is st = (st', evs)" and "br_phase st \<noteq> Stopped" and "\<not> ended sid (br_sessions st)"
  shows "ends sid evs = (if br_phase st' = Stopped then 1 else of_bool (ended sid (br_sessions st')))
    \<and> exits sid evs \<le> ends sid evs
    \<and> (list_all (\<lambda>(env, inp). be_allowed env) is \<longrightarrow> exits sid evs = ends sid evs)"
proof -
  have "ends sid evs + reported sid st = reported sid st' \<and> exits sid evs \<le> ends sid evs
      \<and> (list_all (\<lambda>(env, inp). be_allowed env) is \<longrightarrow> exits sid evs = ends sid evs)" using assms(1)
  proof (induction "is" arbitrary: st evs)
    case (Cons i "is")
    obtain env inp where i: "i = (env, inp)" by fastforce
    obtain st1 evs1 where t: "run_turn sid (env, inp) st = (st1, evs1)" by fastforce
    obtain st2 evs2 where r: "run_session sid is st1 = (st2, evs2)" by fastforce
    have evs: "evs = evs1 @ evs2" "st2 = st'" using Cons.prems i t r by (auto simp del: run_turn.simps)
    show ?case using Cons.IH [of st1 evs2] i r evs run_turn_reports [OF t] run_turn_matched [OF t]
      by (auto simp: matched_def exits_def simp del: run_turn.simps)
  qed (simp add: exits_def)
  then show ?thesis using assms(2,3) by (simp add: reported_def split: if_splits)
qed

definition demo_end :: "(bridge_env \<times> bridge_input) list" where
  "demo_end = map (Pair demo_env)
     [StreamInput (StatusTick [] (Inr None) [Some (TextFrame (Some (StreamKilled None)))])]"

theorem session_end_reported_once_witness:
  "br_phase (fst (run_session ''s'' demo_end demo_run)) = Stopped
   \<and> ends ''s'' (snd (run_session ''s'' demo_end demo_run)) = 1
   \<and> exits ''s'' (snd (run_session ''s'' demo_end demo_run)) = 1"
proof -
  have "br_phase (fst (run_session ''s'' demo_end demo_run)) = Stopped"
    by (simp add: demo_run_defs demo_end_def poll_session_status_def emit_end_def emit_terminal_status_once_def
        should_emit_status_def emit_terminal_exit_once_def synthesized_exited_status_def handle_stream_message_def
        drain_turn_def run_stop_def emit_to_webview_def same_status_payload_def Let_def)
  moreover have "br_phase demo_run \<noteq> Stopped" "\<not> ended ''s'' (br_sessions demo_run)"
    by (simp_all add: demo_run_defs ended_def)
  moreover have "list_all (\<lambda>(env, inp). be_allowed env) demo_end" by (simp add: demo_end_def demo_env_def)
  moreover obtain st' evs where "run_session ''s'' demo_end demo_run = (st', evs)" by fastforce
  ultimately show ?thesis using session_end_reported_once [of "''s''" demo_end demo_run st' evs] by simp
qed

subsection \<open>The reason of a kill is not lost\<close>

text \<open>A frame that neither ends the session nor the drain.\<close>

fun harmless :: "frame option \<Rightarrow> bool" where
  "harmless (Some OtherFrame) = True"
| "harmless (Some (TextFrame (Some (StreamExit _)))) = False"
| "harmless (Some (TextFrame (Some (StreamKilled _)))) = False"
| "harmless (Some (TextFrame (Some _))) = True"
| "harmless _ = False"

lemma drain_harmless:
  assumes "list_all harmless fs" and "drain_ready_messages env sid fs br = (br1, evs, r)"
  shows "r = Drained False \<and> (\<exists>evs'. drain_ready_messages env sid (fs @ gs) br =
    (let (br2, evs2, r2) = drain_ready_messages env sid gs br1 in (br2, evs' @ evs2, r2)))"
  using assms
proof (induction env sid fs br arbitrary: br1 evs r rule: drain_ready_messages.induct)
  case (1 env sid br)
  then show ?case by (auto simp: split_beta intro: exI [of _ "[]"])
next
  case (7 env sid m fs br)
  obtain br2 evs2 over where h: "handle_stream_message env sid m br = (br2, evs2, over)" by (metis prod_cases3)
  have over: "\<not> over" using 7(2) h by (cases m) (auto simp: handle_stream_message_def split: prod.splits option.splits)
  obtain br3 evs3 r3 where d: "drain_ready_messages env sid fs br2 = (br3, evs3, r3)" by (metis prod_cases3)
  have "list_all harmless fs" using 7(2) by simp
  from 7(1) [OF h [symmetric] refl refl over this d] obtain evs' where
    "r3 = Drained False" "drain_ready_messages env sid (fs @ gs) br2 =
      (let (br4, evs4, r4) = drain_ready_messages env sid gs br3 in (br4, evs' @ evs4, r4))" by blast
  then have "drain_ready_messages env sid ((Some (TextFrame (Some m)) # fs) @ gs) br =
      (let (br4, evs4, r4) = drain_ready_messages env sid gs br3 in (br4, (evs2 @ evs') @ evs4, r4))"
    using h over by (simp add: split_beta)
  moreover have "br1 = br3" "r = r3" using 7(3) h over d by simp_all
  ultimately show ?case using \<open>r3 = Drained False\<close> by blast
qed auto

lemma drain_killed:
  assumes "list_all harmless fs" and "be_allowed env"
    and "drain_ready_messages env sid (fs @ Some (TextFrame (Some (StreamKilled (Some reason)))) # gs) br = (br', evs, r)"
  shows "r = Drained True \<and> WebKilled sid reason \<in> set evs"
proof -
  obtain br1 evs1 r1 where d: "drain_ready_messages env sid fs br = (br1, evs1, r1)" by (metis prod_cases3)
  show ?thesis
    using drain_harmless [OF assms(1) d, of "Some (TextFrame (Some (StreamKilled (Some reason)))) # gs"] assms(2,3)
    by (auto simp: handle_stream_message_def emit_to_webview_def split_beta)
qed

text \<open>A status query never swallows the reason of a kill: when the kill message is ready at a
  tick of the status timer, or arrives in the last window after the query has found the session
  gone, the reason reaches the web view and the session ends.\<close>

theorem kill_reason_survives_poll:
  assumes "be_allowed env" and "list_all harmless fs"
    and "killed = fs @ Some (TextFrame (Some (StreamKilled (Some reason)))) # gs"
    and "i = StatusTick killed answer late \<or> list_all harmless ready \<and> i = StatusTick ready (Inr None) killed"
    and "stream_session env sid i br = (br', evs, t)"
  shows "t = StreamEnded \<and> WebKilled sid reason \<in> set evs"
  using assms(4)
proof
  assume i: "i = StatusTick killed answer late"
  obtain br1 evs1 r where d: "drain_ready_messages env sid killed br = (br1, evs1, r)" by (metis prod_cases3)
  then show ?thesis using drain_killed [OF assms(2,1) d [unfolded assms(3)]] assms(5) i by (simp add: drain_turn_def)
next
  assume i: "list_all harmless ready \<and> i = StatusTick ready (Inr None) killed"
  obtain br1 evs1 r where d: "drain_ready_messages env sid ready br = (br1, evs1, r)" by (metis prod_cases3)
  obtain br2 evs2 p where q: "poll_session_status env sid (Inr None) br1 = (br2, evs2, p)" by (metis prod_cases3)
  obtain br3 evs3 r3 where d3: "drain_ready_messages env sid killed br2 = (br3, evs3, r3)" by (metis prod_cases3)
  have "r = Drained False" using drain_harmless [OF _ d] i by blast
  moreover have "p = Some PollDone" using q by (auto simp: poll_session_status_def split: prod.splits)
  ultimately show ?thesis
    using drain_killed [OF assms(2,1) d3 [unfolded assms(3)]] assms(5) i d q d3 by (auto simp: drain_turn_def)
qed

theorem kill_reason_survives_poll_witness:
  "\<exists>br' evs. stream_session demo_env ''s'' (StatusTick [] (Inr None) [Some (TextFrame (Some (StreamKilled (Some ''user''))))]) Map.empty
     = (br', evs, StreamEnded) \<and> WebKilled ''s'' ''user'' \<in> set evs"
proof -
  obtain br' evs t where r: "stream_session demo_env ''s'' (StatusTick [] (Inr None)
      [Some (TextFrame (Some (StreamKilled (Some ''user''))))]) Map.empty = (br', evs, t)" by (metis prod_cases3)
  from kill_reason_survives_poll [OF _ _ refl _ this, of "[]" "''user''" "[]" "Inr None" "[]" "[]"] r
  show ?thesis by (simp add: demo_env_def)
qed

subsection \<open>Connection attempts are bounded\<close>

lemma backoff_bounded: "backoff_after_failure p n \<le> rp_max_backoff p"
  by (simp add: backoff_after_failure_def Let_def)

definition refused :: "(nat \<Rightarrow> 'a attempt) \<Rightarrow> nat \<Rightarrow> bool" where
  "refused outcome n \<longleftrightarrow> (\<nexists>x. outcome n = Connected x)"

text \<open>The counters after \<open>a\<close> attempts of which \<open>f\<close> failed.\<close>

definition tried :: "nat \<Rightarrow> nat \<Rightarrow> connect_counters \<Rightarrow> connect_counters \<Rightarrow> bool" where
  "tried a f c c' \<longleftrightarrow> cc_attempts c' = cc_attempts c + a \<and> cc_failures c' = cc_failures c + f
     \<and> cc_active c' = cc_active c \<and> cc_fallbacks c' = cc_fallbacks c
     \<and> cc_max_concurrent c' = (if a = 0 then cc_max_concurrent c else max (cc_max_concurrent c) (cc_active c + 1))"

lemma one_failure:
  assumes "refused outcome n"
  obtains message c1 where "tried 1 1 c c1"
    "connect_attempts p outcome n (Suc left) err c =
       (if left = 0 then (Inl message, c1, [])
        else (case connect_attempts p outcome (Suc n) left message c1 of (r, c', ps) \<Rightarrow> (r, c', backoff_after_failure p n # ps)))"
proof -
  define message where "message = (case outcome n of Refused e \<Rightarrow> e | _ \<Rightarrow> ''websocket connect timed out'')"
  define c1 where "c1 = record_connect_failure (end_connect (begin_connect c))"
  have "tried 1 1 c c1"
    by (simp add: tried_def c1_def record_connect_failure_def end_connect_def begin_connect_def)
  moreover have "connect_attempts p outcome n (Suc left) err c =
      (if left = 0 then (Inl message, c1, [])
       else (case connect_attempts p outcome (Suc n) left message c1 of (r, c', ps) \<Rightarrow> (r, c', backoff_after_failure p n # ps)))"
    using assms by (cases "outcome n") (simp_all add: refused_def message_def c1_def Let_def)
  ultimately show thesis by (rule that)
qed

lemma tried_trans: "tried 1 1 c c1 \<Longrightarrow> 0 < a \<Longrightarrow> tried a f c1 c' \<Longrightarrow> tried (Suc a) (Suc f) c c'"
  by (simp add: tried_def)

lemma all_refused:
  assumes "\<And>i. i < Suc left \<Longrightarrow> refused outcome (n + i)"
  shows "\<exists>e c'. connect_attempts p outcome n (Suc left) err c = (Inl e, c', map (backoff_after_failure p) [n..<n + left])
    \<and> tried (Suc left) (Suc left) c c'"
  using assms
proof (induction left arbitrary: n err c)
  case 0
  from 0 [of 0] have "refused outcome n" by simp
  then obtain message c1 where "tried 1 1 c c1" "connect_attempts p outcome n (Suc 0) err c = (Inl message, c1, [])"
    by (rule one_failure [of outcome n c p 0 err]) simp
  then show ?case by auto
next
  case (Suc left)
  from Suc.prems [of 0] have "refused outcome n" by simp
  then obtain message c1 where c1: "tried 1 1 c c1" "connect_attempts p outcome n (Suc (Suc left)) err c =
      (case connect_attempts p outcome (Suc n) (Suc left) message c1 of (r, c', ps) \<Rightarrow> (r, c', backoff_after_failure p n # ps))"
    by (rule one_failure [of outcome n c p "Suc left" err]) auto
  have "refused outcome (Suc n + i)" if "i < Suc left" for i using Suc.prems [of "Suc i"] that by simp
  from Suc.IH [OF this, of message c1] obtain e c' where
    rec: "connect_attempts p outcome (Suc n) (Suc left) message c1 = (Inl e, c', map (backoff_after_failure p) [Suc n..<Suc n + left])"
    "tried (Suc left) (Suc left) c1 c'" by blast
  have "n # [Suc n..<Suc n + left] = [n..<n + Suc left]" by (simp add: upt_conv_Cons)
  then have "backoff_after_failure p n # map (backoff_after_failure p) [Suc n..<Suc n + left]
      = map (backoff_after_failure p) [n..<n + Suc left]" by (metis list.map(2))
  then show ?case using c1(2) rec(1) tried_trans [OF c1(1) _ rec(2)] by auto
qed

lemma first_success:
  assumes "k < left" and "\<And>i. i < k \<Longrightarrow> refused outcome (n + i)" and "outcome (n + k) = Connected x"
  shows "\<exists>c'. connect_attempts p outcome n left err c = (Inr x, c', map (backoff_after_failure p) [n..<n + k])
    \<and> tried (Suc k) k c c'"
  using assms
proof (induction k arbitrary: n left err c)
  case 0
  then show ?case
    by (cases left) (auto simp: tried_def end_connect_def begin_connect_def Let_def)
next
  case (Suc k)
  obtain left' where left: "left = Suc left'" "k < left'" using Suc.prems(1) by (cases left) auto
  from Suc.prems(2) [of 0] have "refused outcome n" by simp
  then obtain message c1 where c1: "tried 1 1 c c1" "connect_attempts p outcome n left err c =
      (case connect_attempts p outcome (Suc n) left' message c1 of (r, c', ps) \<Rightarrow> (r, c', backoff_after_failure p n # ps))"
    by (rule one_failure [of outcome n c p left' err]) (use left in auto)
  have "refused outcome (Suc n + i)" if "i < k" for i using Suc.prems(2) [of "Suc i"] that by simp
  from Suc.IH [OF left(2) this, of message c1] Suc.prems(3) obtain c' where
    rec: "connect_attempts p outcome (Suc n) left' message c1 = (Inr x, c', map (backoff_after_failure p) [Suc n..<Suc n + k])"
    "tried (Suc k) k c1 c'" by auto
  have "n # [Suc n..<Suc n + k] = [n..<n + Suc k]" by (simp add: upt_conv_Cons)
  then have "backoff_after_failure p n # map (backoff_after_failure p) [Suc n..<Suc n + k]
      = map (backoff_after_failure p) [n..<n + Suc k]" by (metis list.map(2))
  then show ?case using c1(2) rec(1) tried_trans [OF c1(1) _ rec(2)] by auto
qed

lemma from_one: "(\<And>i. i < k \<Longrightarrow> P (1 + i)) \<Longrightarrow> list_all P [1..<Suc k]"
  unfolding list_all_iff by (metis One_nat_def Suc_less_eq atLeastLessThan_iff le_add_diff_inverse less_Suc_eq_le not_less_eq_eq plus_1_eq_Suc set_upt)

text \<open>A round of connection attempts is bounded: it makes at most the configured number of
  attempts, returns the first connection that succeeds and fails exactly when all of them fail,
  pauses only between attempts and never longer than the maximal backoff, and leaves no attempt
  counted as active.\<close>

theorem connect_round_bounded:
  assumes "connect_with_retry p outcome c = (r, c', pauses)"
  shows "\<exists>k. cc_attempts c' = cc_attempts c + k \<and> k \<le> rp_max_attempts p \<and> cc_active c' = cc_active c
    \<and> pauses = map (backoff_after_failure p) [1..<k] \<and> sum_list pauses \<le> (rp_max_attempts p - 1) * rp_max_backoff p
    \<and> (case r of Inr x \<Rightarrow> 0 < k \<and> outcome k = Connected x \<and> list_all (refused outcome) [1..<k]
        | Inl _ \<Rightarrow> k = rp_max_attempts p \<and> list_all (refused outcome) [1..<Suc k])"
proof -
  have sum: "sum_list (map (backoff_after_failure p) [1..<k]) \<le> (rp_max_attempts p - 1) * rp_max_backoff p"
    if "k \<le> rp_max_attempts p" for k
  proof -
    have "sum_list (map (backoff_after_failure p) [1..<k]) \<le> sum_list (map (\<lambda>_. rp_max_backoff p) [1..<k])"
      by (rule sum_list_mono) (rule backoff_bounded)
    also have "\<dots> = (k - 1) * rp_max_backoff p" by (simp add: sum_list_triv)
    also have "\<dots> \<le> (rp_max_attempts p - 1) * rp_max_backoff p" using that by (intro mult_right_mono) simp_all
    finally show ?thesis .
  qed
  show ?thesis
  proof (cases "rp_max_attempts p")
    case 0
    then show ?thesis using assms by (auto simp: connect_with_retry_def)
  next
    case (Suc m)
    then have run: "connect_attempts p outcome 1 (Suc m) [] c = (r, c', pauses)"
      using assms by (simp add: connect_with_retry_def)
    show ?thesis
    proof (cases "\<exists>k. k < Suc m \<and> \<not> refused outcome (1 + k)")
      case False
      then obtain e where "r = Inl e" "tried (Suc m) (Suc m) c c'" "pauses = map (backoff_after_failure p) [1..<Suc m]"
        using all_refused [of m outcome 1 p "[]" c] run by auto
      moreover have "list_all (refused outcome) [1..<Suc (Suc m)]"
        using False by (intro from_one) blast
      ultimately show ?thesis using sum [of "Suc m"] Suc by (auto simp: tried_def)
    next
      case True
      then obtain k where k: "k < Suc m" "\<not> refused outcome (1 + k)" "\<And>i. i < k \<Longrightarrow> refused outcome (1 + i)"
        using exists_least_iff [of "\<lambda>k. k < Suc m \<and> \<not> refused outcome (1 + k)"] by (metis order.strict_trans)
      then obtain x where x: "outcome (1 + k) = Connected x" by (auto simp: refused_def)
      from first_success [OF k(1,3) x, of p "[]" c] run have
        "r = Inr x" "tried (Suc k) k c c'" "pauses = map (backoff_after_failure p) [1..<Suc k]" by auto
      moreover have "list_all (refused outcome) [1..<Suc k]"
        using k(3) by (rule from_one)
      ultimately show ?thesis using sum [of "Suc k"] k(1) x Suc by (auto simp: tried_def intro!: exI [of _ "Suc k"])
    qed
  qed
qed

theorem connect_round_bounded_witness:
  "\<exists>c'. connect_with_retry default_retry_policy (\<lambda>n. if n = 3 then Connected ''ws'' else TimedOut) counters_new
      = (Inr ''ws'', c', [from_millis 250, from_millis 500]) \<and> cc_attempts c' \<le> 3"
proof -
  let ?f = "\<lambda>n :: nat. if n = 3 then Connected ''ws'' else TimedOut"
  obtain c' where r: "connect_with_retry default_retry_policy ?f counters_new
      = (Inr ''ws'', c', [from_millis 250, from_millis 500])"
    by (simp add: connect_with_retry_def default_retry_policy_def backoff_after_failure_def duration_max_def
        time_defs numeral_3_eq_3 Let_def)
  from connect_round_bounded [OF this] r show ?thesis by (auto simp: default_retry_policy_def counters_new_def)
qed

end
