(* ===== verification/Ws_Emitter.thy ===== *)
theory Ws_Emitter
  imports Session_State
begin

text \<open>
  The event fan-out of the daemon (\<open>cc-panes-daemon/src/ws_emitter.rs\<close>) and the rule that
  decides between two sources of a resume id
  (\<open>cc-panes-core/src/services/resume_identity.rs\<close>).

  A \<open>tokio::sync::mpsc\<close> sender is known by a number; the channel behind it is a parameter
  of the model: \<open>try_send\<close> says how it answers, given what it has accepted so far, and
  \<open>closed\<close> whether its receiver is gone. Nothing is assumed of either, so the properties
  hold for every capacity and every speed of the client. The history of a subscriber records
  what its channel accepted, in order, and at which points terminal output was lost to it. The
  messages are the JSON objects the code prints.
\<close>

subsection \<open>Sources of a resume id\<close>

definition source_priority :: "string \<Rightarrow> nat" where
  "source_priority source =
     (if source = ''manual'' then 40
      else if source = ''issued'' \<or> source = ''osc-title'' then 30
      else if source \<in> {''rollout-scan'', ''backfill'', ''pi-session-file'', ''cursor-chat-scan''} then 10
      else if source = ''rescue'' then 5 else 0)"

definition should_replace_source :: "string option \<Rightarrow> string \<Rightarrow> bool" where
  "should_replace_source existing incoming =
     (case existing of Some source \<Rightarrow> source_priority source \<le> source_priority incoming | None \<Rightarrow> True)"

definition should_retain_incoming :: "string option \<Rightarrow> string option \<Rightarrow> string \<Rightarrow> string \<Rightarrow> bool" where
  "should_retain_incoming existing_source existing_resume_id incoming_source incoming_resume_id =
     (case (existing_source, existing_resume_id) of
        (Some source, Some resume_id) \<Rightarrow>
          (source_priority source < source_priority incoming_source
           \<or> source_priority incoming_source = source_priority source \<and> resume_id \<noteq> incoming_resume_id)
      | _ \<Rightarrow> True)"

subsection \<open>Messages, subscribers and the state\<close>

datatype message = Output string "64 word option" | ExitMessage int | KilledMessage string | Desync

datatype control_message =
    LaunchWarning json
  | Notifier string string "int option"
  | CheckpointRequest string
  | SessionKilled string string
  | ResumeIdDetected json

datatype delivery = Sent message | Lost

datatype send_result = SendOk | SendFull | SendClosed

type_synonym channel_env = "nat \<Rightarrow> delivery list \<Rightarrow> send_result"
type_synonym control_env = "nat \<Rightarrow> control_message list \<Rightarrow> send_result"

record env =
  ev_try :: channel_env
  ev_closed :: "nat \<Rightarrow> bool"
  ev_control :: control_env

record subscriber =
  sub_tx :: nat
  sub_history :: "delivery list"
  sub_desynced :: bool
  sub_connection :: "string option"
  sub_hidden :: bool
  sub_dropped :: bool

text \<open>\<open>em_gone\<close> keeps the subscribers whose senders the emitter has dropped (their receivers
  still drain what was queued), \<open>em_persisted\<close> the sessions handed to the output store.\<close>

record emitter =
  em_subscribers :: "string \<Rightarrow> subscriber list option"
  em_control :: "(nat \<times> control_message list) list"
  em_store :: bool
  em_by_session :: "string \<Rightarrow> json option"
  em_order :: "string list"
  em_next :: nat
  em_gone :: "subscriber list"
  em_persisted :: "string list"

definition MAX_RETAINED_IDENTITY_EVENTS :: nat where
  "MAX_RETAINED_IDENTITY_EVENTS = 1024"

definition emitter_new :: emitter where
  "emitter_new = \<lparr>em_subscribers = Map.empty, em_control = [], em_store = False,
     em_by_session = Map.empty, em_order = [], em_next = 0, em_gone = [], em_persisted = []\<rparr>"

definition set_output_store :: "emitter \<Rightarrow> emitter" where
  "set_output_store em = em\<lparr>em_store := True\<rparr>"

subsection \<open>Subscriptions\<close>

definition subscribe_with_connection :: "string \<Rightarrow> string option \<Rightarrow> emitter \<Rightarrow> emitter" where
  "subscribe_with_connection sid conn em =
     (let sub = \<lparr>sub_tx = em_next em, sub_history = [], sub_desynced = False,
                 sub_connection = conn, sub_hidden = False, sub_dropped = False\<rparr>;
          subs = (case em_subscribers em sid of Some l \<Rightarrow> l | None \<Rightarrow> [])
      in em\<lparr>em_subscribers := (em_subscribers em)(sid \<mapsto> subs @ [sub]), em_next := em_next em + 1\<rparr>)"

definition subscribe :: "string \<Rightarrow> emitter \<Rightarrow> emitter" where
  "subscribe sid em = subscribe_with_connection sid None em"

definition subscribe_control :: "emitter \<Rightarrow> emitter" where
  "subscribe_control em =
     em\<lparr>em_control := em_control em @ [(em_next em, [])], em_next := em_next em + 1\<rparr>"

definition accept :: "message \<Rightarrow> subscriber \<Rightarrow> subscriber" where
  "accept msg sub = sub\<lparr>sub_history := sub_history sub @ [Sent msg]\<rparr>"

definition lose :: "subscriber \<Rightarrow> subscriber" where
  "lose sub = sub\<lparr>sub_history := sub_history sub @ [Lost]\<rparr>"

definition answer :: "env \<Rightarrow> subscriber \<Rightarrow> send_result" where
  "answer ev sub = ev_try ev (sub_tx sub) (sub_history sub)"

text \<open>One subscriber of \<open>set_hidden_sessions\<close>, which also passes over all the others.\<close>

definition hide_sub :: "env \<Rightarrow> string \<Rightarrow> bool \<Rightarrow> subscriber \<Rightarrow> subscriber" where
  "hide_sub ev conn should_hide sub =
     (if sub_connection sub \<noteq> Some conn then sub
      else if should_hide then sub\<lparr>sub_hidden := True\<rparr>
      else if sub_hidden sub then
        (let s1 = sub\<lparr>sub_hidden := False\<rparr>
         in if sub_dropped s1 then
              (let s2 = s1\<lparr>sub_dropped := False\<rparr>
               in case answer ev s2 of SendOk \<Rightarrow> accept Desync s2 | _ \<Rightarrow> s2\<lparr>sub_desynced := True\<rparr>)
            else s1)
      else sub)"

definition set_hidden_sessions :: "env \<Rightarrow> string \<Rightarrow> string list \<Rightarrow> emitter \<Rightarrow> emitter" where
  "set_hidden_sessions ev conn sids em =
     em\<lparr>em_subscribers := \<lambda>s. map_option (map (hide_sub ev conn (s \<in> set sids))) (em_subscribers em s)\<rparr>"

text \<open>\<open>signal_desync\<close>: output has been lost before it reached the emitter.\<close>

definition desync_sub :: "env \<Rightarrow> subscriber \<Rightarrow> subscriber" where
  "desync_sub ev sub0 =
     (let sub = lose sub0
      in if sub_hidden sub then sub\<lparr>sub_dropped := True\<rparr>
         else (case answer ev sub of
                 SendOk \<Rightarrow> (accept Desync sub)\<lparr>sub_desynced := False\<rparr>
               | _ \<Rightarrow> sub\<lparr>sub_desynced := True\<rparr>))"

definition signal_desync :: "env \<Rightarrow> string \<Rightarrow> emitter \<Rightarrow> emitter" where
  "signal_desync ev sid em =
     (case em_subscribers em sid of
        None \<Rightarrow> em
      | Some l \<Rightarrow> em\<lparr>em_subscribers := (em_subscribers em)(sid \<mapsto> map (desync_sub ev) l)\<rparr>)"

definition clear_sub :: "string \<Rightarrow> subscriber \<Rightarrow> subscriber" where
  "clear_sub conn sub =
     (if sub_connection sub = Some conn then sub\<lparr>sub_hidden := False, sub_dropped := False\<rparr> else sub)"

definition clear_connection_hidden :: "string \<Rightarrow> emitter \<Rightarrow> emitter" where
  "clear_connection_hidden conn em =
     em\<lparr>em_subscribers := \<lambda>s. map_option (map (clear_sub conn)) (em_subscribers em s)\<rparr>"

definition has_active_subscriber :: "env \<Rightarrow> string \<Rightarrow> emitter \<Rightarrow> bool" where
  "has_active_subscriber ev sid em =
     (case em_subscribers em sid of None \<Rightarrow> False
      | Some l \<Rightarrow> list_ex (\<lambda>sub. \<not> ev_closed ev (sub_tx sub)) l)"

definition live_subs :: "env \<Rightarrow> subscriber list \<Rightarrow> subscriber list" where
  "live_subs ev l = filter (\<lambda>sub. \<not> ev_closed ev (sub_tx sub)) l"

definition dead_subs :: "env \<Rightarrow> subscriber list \<Rightarrow> subscriber list" where
  "dead_subs ev l = filter (\<lambda>sub. ev_closed ev (sub_tx sub)) l"

definition cleanup_session :: "env \<Rightarrow> string \<Rightarrow> emitter \<Rightarrow> emitter" where
  "cleanup_session ev sid em =
     (case em_subscribers em sid of
        None \<Rightarrow> em
      | Some l \<Rightarrow>
          em\<lparr>em_subscribers := (em_subscribers em)
                 (sid := if live_subs ev l = [] then None else Some (live_subs ev l)),
              em_gone := em_gone em @ dead_subs ev l\<rparr>)"

subsection \<open>Identity events\<close>

definition str_or :: "string \<Rightarrow> string option \<Rightarrow> string" where
  "str_or dflt o' = (case o' of Some t \<Rightarrow> t | None \<Rightarrow> dflt)"

definition evict_identity :: "emitter \<Rightarrow> emitter" where
  "evict_identity em =
     (let excess = length (em_order em) - MAX_RETAINED_IDENTITY_EVENTS
      in em\<lparr>em_order := drop excess (em_order em),
             em_by_session := (\<lambda>s. if s \<in> set (take excess (em_order em)) then None
                                   else em_by_session em s)\<rparr>)"

definition retain_identity_event :: "string \<Rightarrow> json \<Rightarrow> emitter \<Rightarrow> emitter" where
  "retain_identity_event sid payload em =
     (let incoming_source = str_or [] (get_str ''source'' payload);
          incoming_resume = str_or [] (get_str ''resumeSessionId'' payload);
          keep = (case em_by_session em sid of
                    Some existing \<Rightarrow>
                      should_retain_incoming (get_str ''source'' existing)
                        (get_str ''resumeSessionId'' existing) incoming_source incoming_resume
                  | None \<Rightarrow> True)
      in if \<not> keep then em
         else evict_identity
                (em\<lparr>em_by_session := (em_by_session em)(sid \<mapsto> payload),
                    em_order := (if em_by_session em sid = None then em_order em @ [sid] else em_order em)\<rparr>))"

definition ack_identity_event :: "string \<times> string \<Rightarrow> emitter \<Rightarrow> emitter" where
  "ack_identity_event key em =
     (case key of (sid, resume_id) \<Rightarrow>
        if Option.bind (em_by_session em sid) (get_str ''resumeSessionId'') = Some resume_id
        then em\<lparr>em_by_session := (em_by_session em)(sid := None),
                em_order := filter (\<lambda>s. s \<noteq> sid) (em_order em)\<rparr>
        else em)"

definition ack_identity_events :: "(string \<times> string) list \<Rightarrow> emitter \<Rightarrow> emitter" where
  "ack_identity_events keys em = fold ack_identity_event keys em"

definition identity_snapshot :: "emitter \<Rightarrow> json list" where
  "identity_snapshot em = List.map_filter (em_by_session em) (em_order em)"

subsection \<open>Delivery\<close>

definition deliver :: "env \<Rightarrow> message \<Rightarrow> bool \<Rightarrow> subscriber \<Rightarrow> subscriber \<times> bool" where
  "deliver ev msg drop_on_full sub =
     (if sub_hidden sub \<and> drop_on_full then ((lose sub)\<lparr>sub_dropped := True\<rparr>, False)
      else
        (let (s1, ready) =
           (if sub_desynced sub then
              (case answer ev sub of
                 SendOk \<Rightarrow> ((accept Desync sub)\<lparr>sub_desynced := False\<rparr>, True)
               | _ \<Rightarrow> (if drop_on_full then lose sub else sub, False))
            else (sub, True))
         in if \<not> ready then (s1, False)
            else (case answer ev s1 of
                    SendOk \<Rightarrow> (accept msg s1, True)
                  | SendFull \<Rightarrow> (if drop_on_full then (lose s1)\<lparr>sub_desynced := True\<rparr> else s1, False)
                  | SendClosed \<Rightarrow> (s1, False))))"

definition publish_with :: "env \<Rightarrow> string \<Rightarrow> message \<Rightarrow> bool \<Rightarrow> emitter \<Rightarrow> emitter \<times> bool" where
  "publish_with ev sid msg drop_on_full em =
     (case em_subscribers em sid of
        None \<Rightarrow> (em, False)
      | Some l \<Rightarrow>
          (let rs = map (deliver ev msg drop_on_full) (live_subs ev l)
           in (em\<lparr>em_subscribers := (em_subscribers em)
                     (sid := if rs = [] then None else Some (map fst rs)),
                  em_gone := em_gone em @ dead_subs ev l\<rparr>,
               list_ex snd rs)))"

definition publish :: "env \<Rightarrow> string \<Rightarrow> message \<Rightarrow> emitter \<Rightarrow> emitter \<times> bool" where
  "publish ev sid msg em = publish_with ev sid msg True em"

definition drop_session_subscribers :: "string \<Rightarrow> emitter \<Rightarrow> emitter" where
  "drop_session_subscribers sid em =
     em\<lparr>em_subscribers := (em_subscribers em)(sid := None),
        em_gone := em_gone em @ (case em_subscribers em sid of Some l \<Rightarrow> l | None \<Rightarrow> [])\<rparr>"

definition control_send :: "env \<Rightarrow> control_message \<Rightarrow> nat \<times> control_message list
    \<Rightarrow> (nat \<times> control_message list) option" where
  "control_send ev msg c =
     (case c of (tx, sent) \<Rightarrow>
        (case ev_control ev tx sent of
           SendOk \<Rightarrow> Some (tx, sent @ [msg])
         | SendFull \<Rightarrow> Some (tx, sent)
         | SendClosed \<Rightarrow> None))"

definition publish_control :: "env \<Rightarrow> control_message \<Rightarrow> emitter \<Rightarrow> emitter" where
  "publish_control ev msg em =
     em\<lparr>em_control := List.map_filter (control_send ev msg) (em_control em)\<rparr>"

definition publish_notifier_event :: "env \<Rightarrow> string \<Rightarrow> string \<Rightarrow> int option \<Rightarrow> emitter \<Rightarrow> emitter" where
  "publish_notifier_event ev event sid code em = publish_control ev (Notifier event sid code) em"

definition publish_checkpoint_request :: "env \<Rightarrow> string \<Rightarrow> emitter \<Rightarrow> emitter" where
  "publish_checkpoint_request ev sid em = publish_control ev (CheckpointRequest sid) em"

definition persist_session_output :: "string \<Rightarrow> emitter \<Rightarrow> emitter" where
  "persist_session_output sid em =
     (if em_store em then em\<lparr>em_persisted := em_persisted em @ [sid]\<rparr> else em)"

subsection \<open>The emitter\<close>

definition as_u64 :: "json \<Rightarrow> 64 word option" where
  "as_u64 v = (case v of
     JNumber t \<Rightarrow> if t \<noteq> [] \<and> list_all is_ascii_digit t \<and> dec_val 0 t < 2 ^ 64
                  then Some (of_nat (dec_val 0 t)) else None
   | _ \<Rightarrow> None)"

definition as_i64 :: "json \<Rightarrow> int option" where
  "as_i64 v = (case v of
     JNumber t \<Rightarrow>
       (let (neg, ds) = (case t of c # r \<Rightarrow> if c = CHR ''-'' then (True, r) else (False, t) | [] \<Rightarrow> (False, t));
            n = (if neg then - int (dec_val 0 ds) else int (dec_val 0 ds))
        in if ds \<noteq> [] \<and> list_all is_ascii_digit ds \<and> - (2 ^ 63) \<le> n \<and> n < 2 ^ 63 then Some n else None)
   | _ \<Rightarrow> None)"

text \<open>The cast \<open>exit_code as i32\<close>.\<close>

definition as_i32 :: "int \<Rightarrow> int" where
  "as_i32 n = sint (word_of_int n :: 32 word)"

definition emit_exit :: "env \<Rightarrow> string \<Rightarrow> json \<Rightarrow> emitter \<Rightarrow> emitter" where
  "emit_exit ev sid payload em =
     (let exit_code = (case Option.bind (json_get ''exitCode'' payload) as_i64 of Some n \<Rightarrow> n | None \<Rightarrow> -1);
          (em1, delivered) = publish_with ev sid (ExitMessage exit_code) False em;
          em2 = (if delivered then em1
                 else publish_notifier_event ev ''sessionExited'' sid (Some (as_i32 exit_code)) em1)
      in drop_session_subscribers sid (persist_session_output sid em2))"

definition emit_killed :: "env \<Rightarrow> string \<Rightarrow> json \<Rightarrow> emitter \<Rightarrow> emitter" where
  "emit_killed ev sid payload em =
     (let reason = str_or ''unknown'' (get_str ''reason'' payload);
          (em1, delivered) = publish_with ev sid (KilledMessage reason) False em;
          em2 = (if delivered then em1 else publish_control ev (SessionKilled sid reason) em1)
      in drop_session_subscribers sid em2)"

text \<open>The boolean is the result of the call: \<open>False\<close> for the error that says that the output
  reached nobody.\<close>

definition emit :: "env \<Rightarrow> string \<Rightarrow> json \<Rightarrow> emitter \<Rightarrow> emitter \<times> bool" where
  "emit ev event payload em =
     (if event = ''terminal-launch-warning'' then (publish_control ev (LaunchWarning payload) em, True)
      else
        (case get_str ''sessionId'' payload of
           None \<Rightarrow> (em, True)
         | Some sid \<Rightarrow>
             (if event = ''terminal-output'' then
                publish ev sid (Output (str_or [] (get_str ''data'' payload))
                  (Option.bind (json_get ''endSeq'' payload) as_u64)) em
              else if event = ''terminal-exit'' then (emit_exit ev sid payload em, True)
              else if event = ''session-killed'' then (emit_killed ev sid payload em, True)
              else if event = ''terminal-desync'' then (signal_desync ev sid em, True)
              else if event = ''terminal-resume-id-detected'' then
                (publish_control ev (ResumeIdDetected payload) (retain_identity_event sid payload em), True)
              else (em, True))))"

datatype ws_op =
    OpSubscribe string "string option"
  | OpControl
  | OpStore
  | OpHidden string "string list"
  | OpClearConnection string
  | OpCleanup string
  | OpAck "(string \<times> string) list"
  | OpNotify string string "int option"
  | OpCheckpoint string
  | OpEmit string json

fun ws_exec :: "env \<times> ws_op \<Rightarrow> emitter \<Rightarrow> emitter" where
  "ws_exec (ev, OpSubscribe sid conn) em = subscribe_with_connection sid conn em"
| "ws_exec (ev, OpControl) em = subscribe_control em"
| "ws_exec (ev, OpStore) em = set_output_store em"
| "ws_exec (ev, OpHidden conn sids) em = set_hidden_sessions ev conn sids em"
| "ws_exec (ev, OpClearConnection conn) em = clear_connection_hidden conn em"
| "ws_exec (ev, OpCleanup sid) em = cleanup_session ev sid em"
| "ws_exec (ev, OpAck keys) em = ack_identity_events keys em"
| "ws_exec (ev, OpNotify event sid code) em = publish_notifier_event ev event sid code em"
| "ws_exec (ev, OpCheckpoint sid) em = publish_checkpoint_request ev sid em"
| "ws_exec (ev, OpEmit event payload) em = fst (emit ev event payload em)"

definition ws_run :: "(env \<times> ws_op) list \<Rightarrow> emitter \<Rightarrow> emitter" where
  "ws_run cs em = fold ws_exec cs em"


subsection \<open>What holds of every subscriber\<close>

definition all_subs :: "emitter \<Rightarrow> subscriber set" where
  "all_subs em = {sub. \<exists>sid l. em_subscribers em sid = Some l \<and> sub \<in> set l} \<union> set (em_gone em)"

fun is_output :: "message \<Rightarrow> bool" where
  "is_output (Output _ _) = True"
| "is_output _ = False"

definition fresh_sub :: "nat \<Rightarrow> string option \<Rightarrow> subscriber" where
  "fresh_sub tx conn = \<lparr>sub_tx = tx, sub_history = [], sub_desynced = False,
     sub_connection = conn, sub_hidden = False, sub_dropped = False\<rparr>"

lemma subscribe_fresh:
  "subscribe_with_connection sid conn em =
     em\<lparr>em_subscribers := (em_subscribers em)(sid \<mapsto>
          (case em_subscribers em sid of Some l \<Rightarrow> l | None \<Rightarrow> []) @ [fresh_sub (em_next em) conn]),
        em_next := em_next em + 1\<rparr>"
  by (simp add: subscribe_with_connection_def fresh_sub_def Let_def)

lemma publish_control_frame [frame]:
  "em_subscribers (publish_control ev msg em) = em_subscribers em"
  "em_gone (publish_control ev msg em) = em_gone em"
  "em_by_session (publish_control ev msg em) = em_by_session em"
  "em_order (publish_control ev msg em) = em_order em"
  "em_next (publish_control ev msg em) = em_next em"
  by (simp_all add: publish_control_def)

lemma publish_notifier_frame [frame]:
  "em_subscribers (publish_notifier_event ev event sid code em) = em_subscribers em"
  "em_gone (publish_notifier_event ev event sid code em) = em_gone em"
  "em_by_session (publish_notifier_event ev event sid code em) = em_by_session em"
  "em_order (publish_notifier_event ev event sid code em) = em_order em"
  "em_next (publish_notifier_event ev event sid code em) = em_next em"
  by (simp_all add: publish_notifier_event_def frame)

lemma persist_frame [frame]:
  "em_subscribers (persist_session_output sid em) = em_subscribers em"
  "em_gone (persist_session_output sid em) = em_gone em"
  "em_by_session (persist_session_output sid em) = em_by_session em"
  "em_order (persist_session_output sid em) = em_order em"
  "em_next (persist_session_output sid em) = em_next em"
  "em_control (persist_session_output sid em) = em_control em"
  by (simp_all add: persist_session_output_def)

lemma drop_frame [frame]:
  "em_by_session (drop_session_subscribers sid em) = em_by_session em"
  "em_order (drop_session_subscribers sid em) = em_order em"
  "em_next (drop_session_subscribers sid em) = em_next em"
  "em_control (drop_session_subscribers sid em) = em_control em"
  by (simp_all add: drop_session_subscribers_def)

lemma publish_with_frame [frame]:
  "em_by_session (fst (publish_with ev sid msg dof em)) = em_by_session em"
  "em_order (fst (publish_with ev sid msg dof em)) = em_order em"
  "em_next (fst (publish_with ev sid msg dof em)) = em_next em"
  "em_control (fst (publish_with ev sid msg dof em)) = em_control em"
  by (simp_all add: publish_with_def Let_def split: option.split)

lemma retain_frame [frame]:
  "em_subscribers (retain_identity_event sid p em) = em_subscribers em"
  "em_gone (retain_identity_event sid p em) = em_gone em"
  "em_next (retain_identity_event sid p em) = em_next em"
  by (simp_all add: retain_identity_event_def evict_identity_def Let_def)

lemma ack_frame [frame]:
  "em_subscribers (ack_identity_events keys em) = em_subscribers em
   \<and> em_gone (ack_identity_events keys em) = em_gone em
   \<and> em_next (ack_identity_events keys em) = em_next em"
  unfolding ack_identity_events_def
  by (induction keys arbitrary: em) (auto simp: ack_identity_event_def split: prod.splits)

text \<open>A property of single subscribers is kept by the emitter when the steps on a single
  subscriber keep it. \<open>C\<close> holds the connections that may be cleared.\<close>

locale subscriber_invariant =
  fixes P :: "subscriber \<Rightarrow> bool" and C :: "string set"
  assumes fresh: "P (fresh_sub tx conn)"
    and delivered: "P sub \<Longrightarrow> P (fst (deliver ev msg (is_output msg) sub))"
    and hidden: "P sub \<Longrightarrow> P (hide_sub ev c h sub)"
    and desynced: "P sub \<Longrightarrow> P (desync_sub ev sub)"
    and cleared: "P sub \<Longrightarrow> c \<in> C \<Longrightarrow> P (clear_sub c sub)"
begin

definition holds :: "emitter \<Rightarrow> bool" where
  "holds em \<longleftrightarrow> (\<forall>sub \<in> all_subs em. P sub)"

lemma holds_iff:
  "holds em \<longleftrightarrow> (\<forall>sid l. em_subscribers em sid = Some l \<longrightarrow> list_all P l) \<and> list_all P (em_gone em)"
  unfolding holds_def all_subs_def list_all_iff by blast

lemma publish_holds:
  assumes "holds em" and "dof = is_output msg"
  shows "holds (fst (publish_with ev sid msg dof em))"
proof (cases "em_subscribers em sid")
  case None
  then show ?thesis using assms(1) by (simp add: publish_with_def)
next
  case (Some l)
  have P: "list_all P l" using assms(1) Some by (simp add: holds_iff)
  then have "list_all P (map fst (map (deliver ev msg dof) (live_subs ev l)))" "list_all P (dead_subs ev l)"
    using assms(2) delivered by (auto simp: list_all_iff live_subs_def dead_subs_def)
  then show ?thesis using assms(1) Some by (auto simp: publish_with_def holds_iff Let_def)
qed

lemma drop_holds: "holds em \<Longrightarrow> holds (drop_session_subscribers sid em)"
  by (auto simp: holds_iff drop_session_subscribers_def split: option.split)

lemma same_subs:
  "em_subscribers em' = em_subscribers em \<Longrightarrow> em_gone em' = em_gone em \<Longrightarrow> holds em' = holds em"
  by (simp add: holds_iff)

lemma control_holds [simp]:
  "holds (publish_control ev msg em) = holds em"
  "holds (publish_notifier_event ev event sid code em) = holds em"
  "holds (persist_session_output sid em) = holds em"
  "holds (retain_identity_event sid payload em) = holds em"
  by (rule same_subs; simp add: frame)+

lemma exit_holds:
  assumes "holds em" shows "holds (emit_exit ev sid payload em)"
proof -
  let ?n = "case Option.bind (json_get ''exitCode'' payload) as_i64 of Some n \<Rightarrow> n | None \<Rightarrow> -1"
  obtain em1 d where p: "publish_with ev sid (ExitMessage ?n) False em = (em1, d)" by (rule prod.exhaust)
  have "holds em1" using publish_holds [OF assms, of False "ExitMessage ?n" ev sid] p by simp
  then show ?thesis by (simp add: emit_exit_def p drop_holds)
qed

lemma killed_holds:
  assumes "holds em" shows "holds (emit_killed ev sid payload em)"
proof -
  let ?r = "str_or ''unknown'' (get_str ''reason'' payload)"
  obtain em1 d where p: "publish_with ev sid (KilledMessage ?r) False em = (em1, d)" by (rule prod.exhaust)
  have "holds em1" using publish_holds [OF assms, of False "KilledMessage ?r" ev sid] p by simp
  then show ?thesis by (simp add: emit_killed_def p drop_holds)
qed

lemma signal_holds: "holds em \<Longrightarrow> holds (signal_desync ev sid em)"
  using desynced by (auto simp: signal_desync_def holds_iff list_all_iff split: option.split)

lemma emit_holds: "holds em \<Longrightarrow> holds (fst (emit ev event payload em))"
  by (simp add: emit_def publish_def exit_holds killed_holds signal_holds publish_holds split: option.split)

lemma exec_holds:
  assumes h: "holds em" and "case op of OpClearConnection c \<Rightarrow> c \<in> C | _ \<Rightarrow> True"
  shows "holds (ws_exec (ev, op) em)"
proof (cases op)
  case (OpSubscribe sid conn)
  then show ?thesis using h fresh by (auto simp: subscribe_fresh holds_iff split: option.split)
next
  case (OpHidden conn sids)
  then show ?thesis using h hidden by (auto simp: set_hidden_sessions_def holds_iff list_all_iff)
next
  case (OpClearConnection c)
  then show ?thesis using assms cleared
    by (auto simp: clear_connection_hidden_def holds_iff list_all_iff)
next
  case (OpCleanup sid)
  then show ?thesis using h
    by (auto simp: cleanup_session_def holds_iff list_all_iff live_subs_def dead_subs_def split: option.split)
next
  case (OpAck keys)
  then show ?thesis using h same_subs [of "ack_identity_events keys em" em] by (simp add: ack_frame)
next
  case (OpEmit event payload)
  then show ?thesis using emit_holds [OF h] by simp
qed (use h in \<open>simp_all add: holds_iff frame subscribe_control_def set_output_store_def
       publish_checkpoint_request_def\<close>)

lemma run_holds:
  "holds em \<Longrightarrow> list_all (\<lambda>(_, op). case op of OpClearConnection c \<Rightarrow> c \<in> C | _ \<Rightarrow> True) cs \<Longrightarrow> holds (ws_run cs em)"
proof (induction cs arbitrary: em)
  case (Cons c cs)
  then show ?case using exec_holds by (cases c) (simp add: ws_run_def)
qed (simp add: ws_run_def)

lemma reachable:
  assumes "list_all (\<lambda>(_, op). case op of OpClearConnection c \<Rightarrow> c \<in> C | _ \<Rightarrow> True) cs"
    and "sub \<in> all_subs (ws_run cs emitter_new)"
  shows "P sub"
  using run_holds [OF _ assms(1), of emitter_new] assms(2)
  by (simp add: holds_def all_subs_def emitter_new_def)

end

subsection \<open>Lost output and the desync message\<close>

text \<open>\<open>torn\<close> reads a history from the left: output may not be accepted between a loss and the
  next desync message. It is \<open>None\<close> when it is, and else says whether a loss is unannounced.\<close>

fun torn :: "bool \<Rightarrow> delivery list \<Rightarrow> bool option" where
  "torn b [] = Some b"
| "torn b (Lost # ds) = torn True ds"
| "torn b (Sent m # ds) =
     (case m of Desync \<Rightarrow> torn False ds
      | Output _ _ \<Rightarrow> (if b then None else torn b ds)
      | _ \<Rightarrow> torn b ds)"

lemma torn_append: "torn b (xs @ ys) = Option.bind (torn b xs) (\<lambda>b'. torn b' ys)"
  by (induction b xs rule: torn.induct) (auto split: message.split)

definition sub_ok :: "subscriber \<Rightarrow> bool" where
  "sub_ok sub \<longleftrightarrow> (sub_dropped sub \<longrightarrow> sub_hidden sub)
     \<and> (case torn False (sub_history sub) of None \<Rightarrow> False
        | Some b \<Rightarrow> b \<longrightarrow> sub_desynced sub \<or> sub_dropped sub)"

lemma accept_lose_simps [simp]:
  "sub_history (accept m s) = sub_history s @ [Sent m]" "sub_history (lose s) = sub_history s @ [Lost]"
  "sub_tx (accept m s) = sub_tx s" "sub_tx (lose s) = sub_tx s"
  "sub_hidden (accept m s) = sub_hidden s" "sub_hidden (lose s) = sub_hidden s"
  "sub_desynced (accept m s) = sub_desynced s" "sub_desynced (lose s) = sub_desynced s"
  "sub_dropped (accept m s) = sub_dropped s" "sub_dropped (lose s) = sub_dropped s"
  "sub_connection (accept m s) = sub_connection s" "sub_connection (lose s) = sub_connection s"
  by (simp_all add: accept_def lose_def)

lemma sub_connection_kept [simp]:
  "sub_connection (fst (deliver ev msg dof sub)) = sub_connection sub"
  "sub_connection (hide_sub ev conn h sub) = sub_connection sub"
  "sub_connection (desync_sub ev sub) = sub_connection sub"
  "sub_connection (clear_sub conn sub) = sub_connection sub"
  by (simp_all add: deliver_def hide_sub_def desync_sub_def clear_sub_def Let_def
      split: send_result.split)

lemma deliver_sub_ok: "sub_ok sub \<Longrightarrow> sub_ok (fst (deliver ev msg (is_output msg) sub))"
  by (cases msg) (auto simp: sub_ok_def deliver_def torn_append Let_def
      split: option.splits send_result.splits bind_splits)

lemma hide_ok: "sub_ok sub \<Longrightarrow> sub_ok (hide_sub ev conn h sub)"
  by (auto simp: sub_ok_def hide_sub_def torn_append Let_def split: option.splits send_result.splits)

lemma desync_ok: "sub_ok sub \<Longrightarrow> sub_ok (desync_sub ev sub)"
  by (auto simp: sub_ok_def desync_sub_def torn_append Let_def split: option.splits send_result.splits)

lemma fresh_ok: "sub_ok (fresh_sub tx conn)"
  by (simp add: sub_ok_def fresh_sub_def)

interpretation contract:
  subscriber_invariant "\<lambda>sub. (case sub_connection sub of Some c \<Rightarrow> c \<notin> C | None \<Rightarrow> True) \<longrightarrow> sub_ok sub" C for C
  by unfold_locales (simp_all add: deliver_sub_ok hide_ok desync_ok fresh_ok, simp add: clear_sub_def)


text \<open>C35: In every run in which no control connection with the identifier of the subscriber ends,
  output is never torn: whatever the clients and their channels do, between a loss of
  terminal output and the next output the subscriber accepts, its channel has accepted a desync
  message, and a loss that has not been announced is remembered. (The end of its control
  connection does tear the output of a hidden session: \<open>control_end_tears_output\<close>.)\<close>

theorem desync_before_resume:
  assumes "sub \<in> all_subs (ws_run cs emitter_new)"
    and "\<forall>c ev. (ev, OpClearConnection c) \<in> set cs \<longrightarrow> sub_connection sub \<noteq> Some c"
  shows "case torn False (sub_history sub) of
      None \<Rightarrow> False
    | Some unannounced \<Rightarrow> unannounced \<longrightarrow> sub_desynced sub \<or> sub_hidden sub \<and> sub_dropped sub"
proof -
  let ?C = "{c. \<exists>ev. (ev, OpClearConnection c) \<in> set cs}"
  have "list_all (\<lambda>(_, op). case op of OpClearConnection c \<Rightarrow> c \<in> ?C | _ \<Rightarrow> True) cs"
    by (auto simp: list_all_iff split: ws_op.split)
  from contract.reachable [OF this assms(1)] assms(2) have "sub_ok sub"
    by (auto split: option.splits)
  then show ?thesis by (auto simp: sub_ok_def split: option.splits)
qed

definition roomy :: "env \<Rightarrow> bool" where
  "roomy ev \<longleftrightarrow> (\<forall>tx h. ev_try ev tx h = SendOk) \<and> (\<forall>tx. \<not> ev_closed ev tx)"

definition open_env :: env where
  "open_env = \<lparr>ev_try = \<lambda>_ _. SendOk, ev_closed = \<lambda>_. False, ev_control = \<lambda>_ _. SendOk\<rparr>"

definition full_env :: env where
  "full_env = \<lparr>ev_try = \<lambda>_ _. SendFull, ev_closed = \<lambda>_. False, ev_control = \<lambda>_ _. SendOk\<rparr>"

definition output_payload :: "string \<Rightarrow> string \<Rightarrow> json" where
  "output_payload sid data = JObject [(''sessionId'', JString sid), (''data'', JString data)]"

definition demo_sub :: subscriber where
  "demo_sub = \<lparr>sub_tx = 0, sub_history = [Lost, Sent Desync, Sent (Output ''b'' None)],
     sub_desynced = False, sub_connection = Some ''c'', sub_hidden = False, sub_dropped = False\<rparr>"

definition demo_calls :: "(env \<times> ws_op) list" where
  "demo_calls = [(open_env, OpSubscribe ''s'' (Some ''c'')),
     (full_env, OpEmit ''terminal-output'' (output_payload ''s'' ''a'')),
     (open_env, OpEmit ''terminal-output'' (output_payload ''s'' ''b''))]"

lemmas ws_eval = ws_run_def subscribe_with_connection_def emitter_new_def emit_def publish_def
  publish_with_def live_subs_def dead_subs_def deliver_def answer_def open_env_def full_env_def
  output_payload_def get_str_def json_get_def as_str_def str_or_def accept_def lose_def
  set_hidden_sessions_def hide_sub_def clear_connection_hidden_def clear_sub_def Let_def

lemma demo_calls_run: "em_subscribers (ws_run demo_calls emitter_new) ''s'' = Some [demo_sub]"
  by (simp add: demo_calls_def ws_eval demo_sub_def)

theorem desync_before_resume_witness:
  "torn False (sub_history demo_sub) = Some False \<and> demo_sub \<in> all_subs (ws_run demo_calls emitter_new)"
proof -
  have "demo_sub \<in> all_subs (ws_run demo_calls emitter_new)"
    unfolding all_subs_def using demo_calls_run
    by (intro UnI1 CollectI exI [of _ "''s''"] exI [of _ "[demo_sub]"]) simp
  moreover from desync_before_resume [OF this]
  have "case torn False (sub_history demo_sub) of None \<Rightarrow> False | Some b \<Rightarrow> b \<longrightarrow>
      sub_desynced demo_sub \<or> sub_hidden demo_sub \<and> sub_dropped demo_sub"
    by (simp add: demo_calls_def)
  ultimately show ?thesis by (auto simp: demo_sub_def)
qed

text \<open>The proviso is needed: when the control connection ends while a session of it is hidden,
  the loss is forgotten although the subscription of the session goes on, and its client is
  sent output with a hole in it.\<close>

lemma control_end_tears_output:
  "\<exists>sub. em_subscribers (ws_run [(open_env, OpSubscribe ''s'' (Some ''c'')),
       (open_env, OpHidden ''c'' [''s'']),
       (open_env, OpEmit ''terminal-output'' (output_payload ''s'' ''a'')),
       (open_env, OpClearConnection ''c''),
       (open_env, OpEmit ''terminal-output'' (output_payload ''s'' ''b''))] emitter_new) ''s'' = Some [sub]
     \<and> sub_history sub = [Lost, Sent (Output ''b'' None)] \<and> torn False (sub_history sub) = None"
  by (simp add: ws_eval)

subsection \<open>A client that keeps up\<close>

text \<open>What the client of a session is sent, as a function of the calls: everything up to the
  end of the session.\<close>

definition session_step :: "string \<Rightarrow> ws_op \<Rightarrow> delivery list \<times> bool" where
  "session_step sid op =
     (case op of
        OpEmit event p \<Rightarrow>
          (if get_str ''sessionId'' p \<noteq> Some sid then ([], False)
           else if event = ''terminal-output'' then
             ([Sent (Output (str_or [] (get_str ''data'' p)) (Option.bind (json_get ''endSeq'' p) as_u64))], False)
           else if event = ''terminal-exit'' then
             ([Sent (ExitMessage (case Option.bind (json_get ''exitCode'' p) as_i64 of Some n \<Rightarrow> n | None \<Rightarrow> -1))], True)
           else if event = ''session-killed'' then
             ([Sent (KilledMessage (str_or ''unknown'' (get_str ''reason'' p)))], True)
           else if event = ''terminal-desync'' then ([Lost, Sent Desync], False)
           else ([], False))
      | _ \<Rightarrow> ([], False))"

fun session_stream :: "string \<Rightarrow> ws_op list \<Rightarrow> delivery list" where
  "session_stream sid [] = []"
| "session_stream sid (op # ops) =
     (case session_step sid op of (ds, ended) \<Rightarrow> ds @ (if ended then [] else session_stream sid ops))"

definition keeps_up :: "subscriber \<Rightarrow> bool" where
  "keeps_up sub \<longleftrightarrow> \<not> sub_hidden sub \<and> \<not> sub_desynced sub \<and> \<not> sub_dropped sub"

definition viewing :: "string \<Rightarrow> emitter \<Rightarrow> subscriber \<Rightarrow> bool" where
  "viewing sid em sub \<longleftrightarrow> (\<exists>l. em_subscribers em sid = Some l \<and> sub \<in> set l) \<and> keeps_up sub"

lemma keeps_up_accept [simp]: "keeps_up (accept m sub) = keeps_up sub"
  by (simp add: keeps_up_def)

lemma roomy_simps:
  assumes "roomy ev" shows "answer ev sub = SendOk" "live_subs ev l = l" "dead_subs ev l = []"
  using assms by (simp_all add: roomy_def answer_def live_subs_def dead_subs_def)

lemma publish_roomy:
  assumes "roomy ev" and "viewing sid em sub"
  obtains em' where "publish_with ev sid m dof em = (em', True)" "viewing sid em' (accept m sub)"
    "em_gone em' = em_gone em"
proof -
  obtain l where l: "em_subscribers em sid = Some l" "sub \<in> set l" and k: "keeps_up sub"
    using assms(2) by (auto simp: viewing_def)
  have d: "deliver ev m dof sub = (accept m sub, True)"
    using k by (simp add: deliver_def keeps_up_def roomy_simps [OF assms(1)])
  let ?rs = "map (deliver ev m dof) l"
  have "accept m sub \<in> set (map fst ?rs)" using l(2) d by force
  moreover have "list_ex snd ?rs" using l(2) d by (force simp: list_ex_iff)
  moreover have "?rs \<noteq> []" using l(2) by auto
  ultimately show thesis
    using that [of "em\<lparr>em_subscribers := (em_subscribers em)(sid \<mapsto> map fst ?rs)\<rparr>"] l k
    by (simp add: publish_with_def roomy_simps [OF assms(1)] viewing_def Let_def)
qed

lemma publish_other: "s \<noteq> sid \<Longrightarrow> em_subscribers (fst (publish_with ev s m dof em)) sid = em_subscribers em sid"
  by (simp add: publish_with_def Let_def split: option.split)

lemma publish_gone: "set (em_gone em) \<subseteq> set (em_gone (fst (publish_with ev s m dof em)))"
  by (simp add: publish_with_def Let_def split: option.split)

lemma drop_gone: "set (em_gone em) \<subseteq> set (em_gone (drop_session_subscribers s em))"
  by (simp add: drop_session_subscribers_def)

lemma exit_gone: "set (em_gone em) \<subseteq> set (em_gone (emit_exit ev s p em))"
  unfolding emit_exit_def Let_def case_prod_beta
  by (rule subset_trans [OF _ drop_gone]) (simp add: frame publish_gone)

lemma killed_gone: "set (em_gone em) \<subseteq> set (em_gone (emit_killed ev s p em))"
  unfolding emit_killed_def Let_def case_prod_beta
  by (rule subset_trans [OF _ drop_gone]) (simp add: frame publish_gone)

lemma emit_gone: "set (em_gone em) \<subseteq> set (em_gone (fst (emit ev event p em)))"
  using exit_gone [of em ev] killed_gone [of em ev] publish_gone [of em ev]
  by (simp add: emit_def publish_def frame signal_desync_def split: option.split)

lemma gone_mono: "set (em_gone em) \<subseteq> set (em_gone (ws_exec (ev, op) em))"
  by (cases op) (simp_all add: emit_gone subscribe_fresh subscribe_control_def set_output_store_def
      set_hidden_sessions_def clear_connection_hidden_def cleanup_session_def frame ack_frame
      publish_checkpoint_request_def split: option.split)


definition carries_on :: "string \<Rightarrow> subscriber \<Rightarrow> delivery list \<times> bool \<Rightarrow> emitter \<Rightarrow> bool" where
  "carries_on sid sub step em \<longleftrightarrow>
     (\<exists>sub'. sub_history sub' = sub_history sub @ fst step \<and> sub_tx sub' = sub_tx sub
        \<and> sub_connection sub' = sub_connection sub
        \<and> (if snd step then sub' \<in> set (em_gone em) else viewing sid em sub'))"

lemma carries_on_same: "viewing sid em sub \<Longrightarrow> carries_on sid sub ([], False) em"
  unfolding carries_on_def by (intro exI [of _ sub]) simp

lemma viewing_subs:
  "viewing sid em sub \<Longrightarrow> em_subscribers em' sid = em_subscribers em sid \<Longrightarrow> viewing sid em' sub"
  by (simp add: viewing_def)

lemma viewing_map:
  assumes "viewing sid em sub" and "em_subscribers em' sid = map_option (map f) (em_subscribers em sid)"
    and "f sub = sub"
  shows "viewing sid em' sub"
proof -
  obtain l where l: "em_subscribers em sid = Some l" "sub \<in> set l" using assms(1) by (auto simp: viewing_def)
  have "f sub \<in> f ` set l" using l(2) by (rule imageI)
  then show ?thesis using assms l by (simp add: viewing_def)
qed

lemma ended_carries_on:
  assumes "roomy ev" and "viewing sid em sub" and that: "\<And>em. em_subscribers (g em) = em_subscribers em"
  shows "carries_on sid sub ([Sent m], True)
    (drop_session_subscribers sid (g (fst (publish_with ev sid m False em))))"
proof -
  obtain em' where p: "publish_with ev sid m False em = (em', True)" "viewing sid em' (accept m sub)"
    using publish_roomy [OF assms(1,2)] by metis
  then have "accept m sub \<in> set (em_gone (drop_session_subscribers sid (g em')))"
    using that [of em'] by (auto simp: viewing_def drop_session_subscribers_def)
  then show ?thesis using p unfolding carries_on_def by (intro exI [of _ "accept m sub"]) simp
qed

lemma emit_carries_on:
  assumes r: "roomy ev" and v: "viewing sid em sub"
  shows "carries_on sid sub (session_step sid (OpEmit event p)) (fst (emit ev event p em))"
proof (cases "get_str ''sessionId'' p = Some sid")
  case False
  have "em_subscribers (fst (emit ev event p em)) sid = em_subscribers em sid"
    using False
    by (auto simp: emit_def frame emit_exit_def emit_killed_def publish_def Let_def case_prod_beta
        publish_other drop_session_subscribers_def signal_desync_def split: option.split)
  then show ?thesis
    using False viewing_subs [OF v] by (simp add: session_step_def carries_on_same)
next
  case sid: True
  show ?thesis
  proof (cases "event \<in> {''terminal-output'', ''terminal-exit'', ''session-killed'', ''terminal-desync''}")
    case False
    have "em_subscribers (fst (emit ev event p em)) sid = em_subscribers em sid"
      using False sid by (simp add: emit_def frame)
    then show ?thesis using False viewing_subs [OF v] by (simp add: session_step_def carries_on_same)
  next
    case True
    then consider (out) "event = ''terminal-output''" | (exit) "event = ''terminal-exit''"
      | (kill) "event = ''session-killed''" | (desync) "event = ''terminal-desync''" by blast
    then show ?thesis
    proof cases
      case out
      let ?m = "Output (str_or [] (get_str ''data'' p)) (Option.bind (json_get ''endSeq'' p) as_u64)"
      obtain em' where "publish_with ev sid ?m True em = (em', True)" "viewing sid em' (accept ?m sub)"
        using publish_roomy [OF r v] by metis
      then show ?thesis using out sid unfolding carries_on_def
        by (intro exI [of _ "accept ?m sub"]) (simp add: session_step_def emit_def publish_def)
    next
      case exit
      let ?n = "case Option.bind (json_get ''exitCode'' p) as_i64 of Some n \<Rightarrow> n | None \<Rightarrow> -1"
      let ?r = "publish_with ev sid (ExitMessage ?n) False em"
      let ?g = "\<lambda>e. persist_session_output sid
        (if snd ?r then e else publish_notifier_event ev ''sessionExited'' sid (Some (as_i32 ?n)) e)"
      have "emit_exit ev sid p em = drop_session_subscribers sid (?g (fst ?r))"
        by (simp add: emit_exit_def Let_def case_prod_beta)
      moreover have "carries_on sid sub ([Sent (ExitMessage ?n)], True) (drop_session_subscribers sid (?g (fst ?r)))"
        by (rule ended_carries_on [OF r v]) (simp add: frame)
      ultimately show ?thesis using exit sid by (simp add: session_step_def emit_def)
    next
      case kill
      let ?t = "str_or ''unknown'' (get_str ''reason'' p)"
      let ?r = "publish_with ev sid (KilledMessage ?t) False em"
      let ?g = "\<lambda>e. if snd ?r then e else publish_control ev (SessionKilled sid ?t) e"
      have "emit_killed ev sid p em = drop_session_subscribers sid (?g (fst ?r))"
        by (simp add: emit_killed_def Let_def case_prod_beta)
      moreover have "carries_on sid sub ([Sent (KilledMessage ?t)], True) (drop_session_subscribers sid (?g (fst ?r)))"
        by (rule ended_carries_on [OF r v]) (simp add: frame)
      ultimately show ?thesis using kill sid by (simp add: session_step_def emit_def)
    next
      case desync
      obtain l where l: "em_subscribers em sid = Some l" "sub \<in> set l" and k: "keeps_up sub"
        using v by (auto simp: viewing_def)
      have "desync_sub ev sub = accept Desync (lose sub)"
        using k by (cases sub) (simp add: desync_sub_def keeps_up_def roomy_simps [OF r] Let_def accept_def lose_def)
      then have "viewing sid (signal_desync ev sid em) (accept Desync (lose sub))"
        using l k by (auto simp: viewing_def signal_desync_def keeps_up_def image_iff intro: bexI [of _ sub])
      then show ?thesis using desync sid unfolding carries_on_def
        by (intro exI [of _ "accept Desync (lose sub)"]) (simp add: session_step_def emit_def)
    qed
  qed
qed

definition hides :: "string option \<Rightarrow> ws_op \<Rightarrow> bool" where
  "hides conn op = (case op of OpHidden c _ \<Rightarrow> conn = Some c | _ \<Rightarrow> False)"

lemma exec_carries_on:
  assumes r: "roomy ev" and v: "viewing sid em sub" and h: "\<not> hides (sub_connection sub) op"
  shows "carries_on sid sub (session_step sid op) (ws_exec (ev, op) em)"
proof (cases op)
  case (OpEmit event p)
  then show ?thesis using emit_carries_on [OF r v] by simp
next
  case (OpSubscribe s conn)
  then have "viewing sid (ws_exec (ev, op) em) sub"
    using v by (auto simp: viewing_def subscribe_fresh)
  then show ?thesis using OpSubscribe by (simp add: session_step_def carries_on_same)
next
  case (OpHidden c sids)
  then have "hide_sub ev c b sub = sub" for b using h by (simp add: hides_def hide_sub_def)
  then have "viewing sid (ws_exec (ev, op) em) sub"
    using OpHidden by (intro viewing_map [OF v, of _ "hide_sub ev c (sid \<in> set sids)"])
      (simp_all add: set_hidden_sessions_def)
  then show ?thesis using OpHidden by (simp add: session_step_def carries_on_same)
next
  case (OpClearConnection c)
  have "clear_sub c sub = sub" using v by (cases sub) (simp add: clear_sub_def viewing_def keeps_up_def)
  then have "viewing sid (ws_exec (ev, op) em) sub"
    using OpClearConnection by (intro viewing_map [OF v, of _ "clear_sub c"])
      (simp_all add: clear_connection_hidden_def)
  then show ?thesis using OpClearConnection by (simp add: session_step_def carries_on_same)
next
  case (OpCleanup s)
  then have "viewing sid (ws_exec (ev, op) em) sub"
    using v by (auto simp: viewing_def cleanup_session_def roomy_simps [OF r] split: option.split)
  then show ?thesis using OpCleanup by (simp add: session_step_def carries_on_same)
qed (simp_all add: carries_on_same [OF viewing_subs [OF v]] session_step_def frame ack_frame
       subscribe_control_def set_output_store_def publish_checkpoint_request_def)

lemma run_gone: "set (em_gone em) \<subseteq> set (em_gone (ws_run cs em))"
proof (induction cs arbitrary: em)
  case (Cons d ds)
  have "set (em_gone em) \<subseteq> set (em_gone (ws_exec d em))" using gone_mono by (cases d) simp
  with Cons.IH [of "ws_exec d em"] show ?case by (simp add: ws_run_def)
qed (simp add: ws_run_def)

lemma run_carries_on:
  assumes "viewing sid em sub" and "\<And>ev op. (ev, op) \<in> set cs \<Longrightarrow> roomy ev \<and> \<not> hides (sub_connection sub) op"
  shows "\<exists>sub' \<in> all_subs (ws_run cs em). sub_tx sub' = sub_tx sub
    \<and> sub_history sub' = sub_history sub @ session_stream sid (map snd cs)"
  using assms
proof (induction cs arbitrary: em sub)
  case Nil
  then show ?case by (auto simp: ws_run_def viewing_def all_subs_def)
next
  case (Cons c cs)
  obtain ev op where c: "c = (ev, op)" by (cases c)
  have run: "ws_run (c # cs) em = ws_run cs (ws_exec c em)" by (simp add: ws_run_def)
  have r: "roomy ev" "\<not> hides (sub_connection sub) op" using Cons.prems(2) [of ev op] c by auto
  obtain sub1 where h1: "sub_history sub1 = sub_history sub @ fst (session_step sid op)"
      "sub_tx sub1 = sub_tx sub" "sub_connection sub1 = sub_connection sub"
    and e1: "if snd (session_step sid op) then sub1 \<in> set (em_gone (ws_exec c em))
             else viewing sid (ws_exec c em) sub1"
    using exec_carries_on [OF r(1) Cons.prems(1) r(2)] unfolding c carries_on_def by metis
  show ?case
  proof (cases "snd (session_step sid op)")
    case True
    then have "sub1 \<in> all_subs (ws_run (c # cs) em)"
      using e1 subsetD [OF run_gone, of sub1 "ws_exec c em" cs] unfolding run all_subs_def by simp
    then show ?thesis using h1 True c by (intro bexI [of _ sub1]) (simp_all add: case_prod_beta)
  next
    case False
    have "\<exists>sub' \<in> all_subs (ws_run cs (ws_exec c em)). sub_tx sub' = sub_tx sub1
        \<and> sub_history sub' = sub_history sub1 @ session_stream sid (map snd cs)"
      using e1 False Cons.prems(2) h1(3) by (intro Cons.IH) auto
    then show ?thesis using h1 False c run by (auto simp: case_prod_beta)
  qed
qed

text \<open>A client that keeps up gets the exact stream of its session: when the channels have
  room and the client does not hide the session, what its channel has accepted since the
  subscription is every output of the session in order, each loss reported upstream as a
  desync message, and the end of the session, after which nothing follows; whatever the other
  clients, connections and sessions do.\<close>

theorem fast_client_gets_stream:
  assumes "\<forall>(ev, op) \<in> set cs. roomy ev \<and> (case op of OpHidden c _ \<Rightarrow> conn \<noteq> Some c | _ \<Rightarrow> True)"
  shows "\<exists>sub \<in> all_subs (ws_run cs (subscribe_with_connection sid conn em)).
    sub_tx sub = em_next em \<and> sub_history sub = session_stream sid (map snd cs)"
proof -
  let ?sub = "fresh_sub (em_next em) conn"
  have "viewing sid (subscribe_with_connection sid conn em) ?sub"
    by (simp add: viewing_def subscribe_fresh keeps_up_def fresh_sub_def)
  from run_carries_on [OF this, of cs] assms show ?thesis
    by (fastforce simp: fresh_sub_def hides_def split: ws_op.splits)
qed

theorem fast_client_gets_stream_witness:
  "\<exists>sub \<in> all_subs (ws_run
       [(open_env, OpEmit ''terminal-output'' (output_payload ''s'' ''a'')), (open_env, OpHidden ''d'' [''s'']),
        (open_env, OpEmit ''terminal-output'' (output_payload ''s'' ''b''))]
       (subscribe_with_connection ''s'' (Some ''c'') emitter_new)).
     sub_tx sub = 0 \<and> sub_history sub = [Sent (Output ''a'' None), Sent (Output ''b'' None)]"
proof -
  have "roomy open_env" by (simp add: roomy_def open_env_def)
  then show ?thesis
    using fast_client_gets_stream [of "[(open_env, OpEmit ''terminal-output'' (output_payload ''s'' ''a'')),
        (open_env, OpHidden ''d'' [''s'']),
        (open_env, OpEmit ''terminal-output'' (output_payload ''s'' ''b''))]" "Some ''c''" "''s''" emitter_new]
    by (simp add: session_step_def output_payload_def get_str_def json_get_def as_str_def str_or_def emitter_new_def)
qed


subsection \<open>Accounting and the end of a session\<close>

definition copies :: "message \<Rightarrow> subscriber \<Rightarrow> nat" where
  "copies m sub = length (filter (\<lambda>d. d = Sent m) (sub_history sub))"

text \<open>How many channels of a session, those already closed included, have accepted a message.\<close>

definition accepted :: "message \<Rightarrow> string \<Rightarrow> emitter \<Rightarrow> nat" where
  "accepted m sid em =
     sum_list (map (copies m) (case em_subscribers em sid of Some l \<Rightarrow> l | None \<Rightarrow> []))
     + sum_list (map (copies m) (em_gone em))"

lemma deliver_copies:
  "m \<noteq> Desync \<Longrightarrow> copies m (fst (deliver ev m dof sub)) = copies m sub + (if snd (deliver ev m dof sub) then 1 else 0)"
  by (simp add: deliver_def copies_def Let_def split: send_result.split)

lemma sum_partition:
  "sum_list (map f l) = (\<Sum>x\<leftarrow>filter (\<lambda>x. \<not> P x) l. f x) + (\<Sum>x\<leftarrow>filter P l. (f x :: nat))"
  by (induction l) auto

lemma deliver_sum:
  "m \<noteq> Desync \<Longrightarrow> sum_list (map (copies m) (map (fst \<circ> deliver ev m dof) l))
     = sum_list (map (copies m) l) + length (filter (snd \<circ> deliver ev m dof) l)"
  by (induction l) (auto simp: deliver_copies)

lemma publish_accounting:
  assumes "m \<noteq> Desync"
  shows "snd (publish_with ev sid m dof em) = (accepted m sid em < accepted m sid (fst (publish_with ev sid m dof em)))"
proof (cases "em_subscribers em sid")
  case (Some l)
  let ?got = "filter (snd \<circ> deliver ev m dof) (live_subs ev l)"
  have "sum_list (map (copies m) l) = sum_list (map (copies m) (live_subs ev l)) + sum_list (map (copies m) (dead_subs ev l))"
    unfolding live_subs_def dead_subs_def by (rule sum_partition)
  then have "accepted m sid (fst (publish_with ev sid m dof em)) = accepted m sid em + length ?got"
    using Some deliver_sum [OF assms, of ev dof "live_subs ev l"]
    by (cases "live_subs ev l") (simp_all add: publish_with_def accepted_def Let_def)
  moreover have "snd (publish_with ev sid m dof em) = (?got \<noteq> [])"
    using Some by (auto simp: publish_with_def Let_def list_ex_iff filter_empty_conv)
  ultimately show ?thesis by simp
qed (simp add: publish_with_def accepted_def)

text \<open>The result of an output call is honest, which the accounts of the flow gate rest on:
  it succeeds exactly when the channel of at least one subscriber of the session has accepted
  the output, so nothing that was hidden away, dropped or sent to nobody counts as sent.\<close>

theorem output_call_is_honest:
  "case get_str ''sessionId'' p of
     None \<Rightarrow> emit ev ''terminal-output'' p em = (em, True)
   | Some sid \<Rightarrow>
       let m = Output (str_or [] (get_str ''data'' p)) (Option.bind (json_get ''endSeq'' p) as_u64);
           (em', ok) = emit ev ''terminal-output'' p em
       in ok = (accepted m sid em < accepted m sid em')"
  using publish_accounting
  by (auto simp: emit_def publish_def Let_def split: option.split prod.split) (metis fst_conv message.distinct(5) snd_conv)+

lemma drop_accepted [simp]: "accepted m sid (drop_session_subscribers sid em) = accepted m sid em"
  by (simp add: accepted_def drop_session_subscribers_def split: option.split)

lemma accepted_frame [simp]:
  "accepted m sid (publish_control ev msg em) = accepted m sid em"
  "accepted m sid (publish_notifier_event ev event s code em) = accepted m sid em"
  "accepted m sid (persist_session_output s em) = accepted m sid em"
  by (simp_all add: accepted_def frame)

text \<open>Every control client that can take the message has got it.\<close>

definition told :: "env \<Rightarrow> control_message \<Rightarrow> emitter \<Rightarrow> emitter \<Rightarrow> bool" where
  "told ev msg em em' \<longleftrightarrow>
     list_all (\<lambda>(tx, sent). ev_control ev tx sent = SendOk \<longrightarrow> (tx, sent @ [msg]) \<in> set (em_control em'))
       (em_control em)"

lemma control_told: "em_control em1 = em_control em \<Longrightarrow> told ev msg em (publish_control ev msg em1)"
  by (force simp: told_def list_all_iff publish_control_def map_filter_def control_send_def)

text \<open>The end of a session cannot be missed: when its process exits or is killed, at least
  one subscriber is told over the stream of the session, or every control client that can take
  a message is told with the exit code or the reason; and in any case every sender of the
  session is dropped, so that the streams of the others close too, and an exit hands the
  session to the output store if there is one.\<close>

theorem session_end_is_told:
  "case get_str ''sessionId'' p of None \<Rightarrow> True
   | Some sid \<Rightarrow>
       let code = (case Option.bind (json_get ''exitCode'' p) as_i64 of Some n \<Rightarrow> n | None \<Rightarrow> -1);
           reason = str_or ''unknown'' (get_str ''reason'' p);
           exited = fst (emit ev ''terminal-exit'' p em); killed = fst (emit ev ''session-killed'' p em)
       in em_subscribers exited sid = None \<and> em_subscribers killed sid = None
          \<and> (accepted (ExitMessage code) sid em < accepted (ExitMessage code) sid exited
             \<or> told ev (Notifier ''sessionExited'' sid (Some (as_i32 code))) em exited)
          \<and> (accepted (KilledMessage reason) sid em < accepted (KilledMessage reason) sid killed
             \<or> told ev (SessionKilled sid reason) em killed)
          \<and> em_persisted exited = em_persisted em @ (if em_store em then [sid] else [])"
proof (cases "get_str ''sessionId'' p")
  case (Some sid)
  define code where "code = (case Option.bind (json_get ''exitCode'' p) as_i64 of Some n \<Rightarrow> n | None \<Rightarrow> -1)"
  define reason where "reason = str_or ''unknown'' (get_str ''reason'' p)"
  let ?x = "publish_with ev sid (ExitMessage code) False em"
  let ?k = "publish_with ev sid (KilledMessage reason) False em"
  let ?n = "Notifier ''sessionExited'' sid (Some (as_i32 code))"
  have x: "emit_exit ev sid p em = drop_session_subscribers sid
      (persist_session_output sid (if snd ?x then fst ?x else publish_control ev ?n (fst ?x)))"
    by (simp add: emit_exit_def code_def publish_notifier_event_def Let_def case_prod_beta)
  have k: "emit_killed ev sid p em = drop_session_subscribers sid
      (if snd ?k then fst ?k else publish_control ev (SessionKilled sid reason) (fst ?k))"
    by (simp add: emit_killed_def reason_def Let_def case_prod_beta)
  have gone: "em_subscribers (drop_session_subscribers sid e) sid = None" for e
    by (simp add: drop_session_subscribers_def)
  have px: "snd ?x = (accepted (ExitMessage code) sid em < accepted (ExitMessage code) sid (fst ?x))"
    and pk: "snd ?k = (accepted (KilledMessage reason) sid em < accepted (KilledMessage reason) sid (fst ?k))"
    by (rule publish_accounting; simp)+
  have "accepted (ExitMessage code) sid em < accepted (ExitMessage code) sid (emit_exit ev sid p em)
      \<or> told ev ?n em (emit_exit ev sid p em)"
    using px control_told [of "fst ?x" em ev ?n] unfolding x
    by (auto simp: frame told_def)
  moreover have "accepted (KilledMessage reason) sid em < accepted (KilledMessage reason) sid (emit_killed ev sid p em)
      \<or> told ev (SessionKilled sid reason) em (emit_killed ev sid p em)"
    using pk control_told [of "fst ?k" em ev "SessionKilled sid reason"] unfolding k
    by (auto simp: frame told_def)
  moreover have "em_persisted (fst ?x) = em_persisted em \<and> em_store (fst ?x) = em_store em"
    by (simp add: publish_with_def Let_def split: option.split)
  then have "em_persisted (emit_exit ev sid p em) = em_persisted em @ (if em_store em then [sid] else [])"
    unfolding x by (simp add: drop_session_subscribers_def persist_session_output_def publish_control_def)
  ultimately show ?thesis
    using Some by (simp add: emit_def gone x k code_def [symmetric] reason_def [symmetric] Let_def)
qed simp


subsection \<open>Identity events\<close>

definition identity_inv :: "emitter \<Rightarrow> bool" where
  "identity_inv em \<longleftrightarrow> distinct (em_order em) \<and> length (em_order em) \<le> MAX_RETAINED_IDENTITY_EVENTS
     \<and> dom (em_by_session em) = set (em_order em)"

lemma evict_inv:
  assumes "distinct (em_order em)" and "dom (em_by_session em) = set (em_order em)"
  shows "identity_inv (evict_identity em)"
proof -
  let ?n = "length (em_order em) - MAX_RETAINED_IDENTITY_EVENTS"
  have split: "em_order em = take ?n (em_order em) @ drop ?n (em_order em)" by simp
  then have disj: "set (take ?n (em_order em)) \<inter> set (drop ?n (em_order em)) = {}"
    using assms(1) by (metis distinct_append)
  have "set (em_order em) = set (take ?n (em_order em)) \<union> set (drop ?n (em_order em))"
    using split by (metis set_append)
  then show ?thesis
    using assms disj by (auto simp: identity_inv_def evict_identity_def Let_def dom_def split: if_splits)
qed

lemma identity_inv_mem: "identity_inv em \<Longrightarrow> sid \<in> set (em_order em) \<longleftrightarrow> em_by_session em sid \<noteq> None"
  unfolding identity_inv_def by (metis domIff)

lemma retain_inv:
  assumes inv: "identity_inv em" shows "identity_inv (retain_identity_event sid p em)"
proof -
  have "identity_inv (evict_identity (em\<lparr>em_by_session := (em_by_session em)(sid \<mapsto> p),
      em_order := (if em_by_session em sid = None then em_order em @ [sid] else em_order em)\<rparr>))"
    using inv identity_inv_mem [OF inv, of sid]
    by (intro evict_inv) (simp_all add: identity_inv_def insert_absorb)
  with inv show ?thesis by (simp add: retain_identity_event_def Let_def)
qed

lemma ack_inv: "identity_inv em \<Longrightarrow> identity_inv (ack_identity_event key em)"
  using le_trans [OF length_filter_le [of "\<lambda>s. s \<noteq> fst key" "em_order em"]]
  by (cases key) (auto simp: ack_identity_event_def identity_inv_def dom_def)

lemma emit_identity_frame:
  assumes "event \<noteq> ''terminal-resume-id-detected''"
  shows "em_by_session (fst (emit ev event p em)) = em_by_session em
    \<and> em_order (fst (emit ev event p em)) = em_order em"
  using assms
  by (simp add: emit_def frame publish_def emit_exit_def emit_killed_def Let_def case_prod_beta
      signal_desync_def split: option.split)

fun identity_of :: "ws_op \<Rightarrow> (string \<times> json) option" where
  "identity_of (OpEmit event p) =
     (if event = ''terminal-resume-id-detected''
      then map_option (\<lambda>sid. (sid, p)) (get_str ''sessionId'' p) else None)"
| "identity_of _ = None"

lemma emit_identity_some:
  "identity_of (OpEmit event p) = Some (sid, q) \<Longrightarrow>
     fst (emit ev event p em) = publish_control ev (ResumeIdDetected q) (retain_identity_event sid q em)"
  by (auto simp: emit_def split: if_splits)

lemma emit_identity_none:
  assumes "identity_of (OpEmit event p) = None"
  shows "em_by_session (fst (emit ev event p em)) = em_by_session em
    \<and> em_order (fst (emit ev event p em)) = em_order em"
proof (cases "event = ''terminal-resume-id-detected''")
  case True
  with assms show ?thesis by (simp add: emit_def)
qed (rule emit_identity_frame)

text \<open>How a call changes the retained events: not at all, by an event, or by acknowledgements.\<close>

lemma exec_identity:
  "(case identity_of op of
      Some (sid, p) \<Rightarrow> em_by_session (ws_exec (ev, op) em) = em_by_session (retain_identity_event sid p em)
        \<and> em_order (ws_exec (ev, op) em) = em_order (retain_identity_event sid p em)
    | None \<Rightarrow> (case op of OpAck keys \<Rightarrow> ws_exec (ev, op) em = ack_identity_events keys em
        | _ \<Rightarrow> em_by_session (ws_exec (ev, op) em) = em_by_session em
               \<and> em_order (ws_exec (ev, op) em) = em_order em))"
proof (cases op)
  case (OpEmit event p)
  show ?thesis
  proof (cases "identity_of op")
    case None
    then show ?thesis using OpEmit emit_identity_none [of event p ev em] by simp
  next
    case (Some q)
    then show ?thesis using OpEmit emit_identity_some [of event p "fst q" "snd q" ev em]
      by (simp add: frame case_prod_beta)
  qed
qed (simp_all add: subscribe_fresh subscribe_control_def set_output_store_def set_hidden_sessions_def
       clear_connection_hidden_def cleanup_session_def frame publish_checkpoint_request_def
       split: option.split)

lemma identity_inv_cong:
  "em_by_session em' = em_by_session em \<Longrightarrow> em_order em' = em_order em \<Longrightarrow> identity_inv em' = identity_inv em"
  by (simp add: identity_inv_def)

lemma exec_identity_inv:
  assumes "identity_inv em" shows "identity_inv (ws_exec (ev, op) em)"
proof (cases "identity_of op")
  case (Some q)
  obtain sid p where "q = (sid, p)" by (cases q)
  then have "identity_inv (ws_exec (ev, op) em) = identity_inv (retain_identity_event sid p em)"
    using exec_identity [where op = op and ev = ev and em = em] Some by (intro identity_inv_cong) simp_all
  then show ?thesis using retain_inv [OF assms] by simp
next
  case None
  have "identity_inv (ack_identity_events keys em)" for keys
    unfolding ack_identity_events_def using assms by (induction keys arbitrary: em) (simp_all add: ack_inv)
  then show ?thesis
    using exec_identity [where op = op and ev = ev and em = em] None assms
    by (cases op) (auto simp: identity_inv_def)
qed

lemma identity_inv_new: "identity_inv emitter_new"
  by (simp add: identity_inv_def emitter_new_def)

lemma identity_reachable: "identity_inv (ws_run cs emitter_new)"
proof -
  have "identity_inv em \<Longrightarrow> identity_inv (ws_run cs em)" for em
  proof (induction cs arbitrary: em)
    case (Cons c cs)
    then show ?case using exec_identity_inv by (cases c) (simp add: ws_run_def)
  qed (simp add: ws_run_def)
  then show ?thesis using identity_inv_new .
qed

subsection \<open>Precedence of the sources\<close>

definition source_of :: "json \<Rightarrow> string" where
  "source_of p = str_or [] (get_str ''source'' p)"

definition well_formed :: "json \<Rightarrow> bool" where
  "well_formed p \<longleftrightarrow> get_str ''source'' p \<noteq> None \<and> get_str ''resumeSessionId'' p \<noteq> None"

definition events_of :: "(env \<times> ws_op) list \<Rightarrow> (string \<times> json) list" where
  "events_of cs = List.map_filter (\<lambda>c. identity_of (snd c)) cs"

definition outranks :: "emitter \<Rightarrow> string \<Rightarrow> json \<Rightarrow> bool" where
  "outranks em sid p \<longleftrightarrow>
     (case em_by_session em sid of None \<Rightarrow> False
      | Some q \<Rightarrow> well_formed q \<and> source_priority (source_of p) \<le> source_priority (source_of q))"

lemma retain_no_evict:
  assumes "identity_inv em" and "card (insert sid (set (em_order em))) \<le> MAX_RETAINED_IDENTITY_EVENTS"
  shows "em_by_session (retain_identity_event sid p em) =
      (if case em_by_session em sid of None \<Rightarrow> True
          | Some q \<Rightarrow> should_retain_incoming (get_str ''source'' q) (get_str ''resumeSessionId'' q)
              (source_of p) (str_or [] (get_str ''resumeSessionId'' p))
       then (em_by_session em)(sid \<mapsto> p) else em_by_session em)"
    and "set (em_order (retain_identity_event sid p em)) = insert sid (set (em_order em))"
proof -
  let ?o = "if em_by_session em sid = None then em_order em @ [sid] else em_order em"
  note d = identity_inv_mem [OF assms(1), of sid]
  then have "distinct ?o" and s: "set ?o = insert sid (set (em_order em))"
    using assms(1) by (auto simp: identity_inv_def)
  then have "length ?o \<le> MAX_RETAINED_IDENTITY_EVENTS" using assms(2) by (metis distinct_card)
  then have e: "evict_identity (em\<lparr>em_by_session := m, em_order := ?o\<rparr>) = em\<lparr>em_by_session := m, em_order := ?o\<rparr>" for m
    by (simp add: evict_identity_def Let_def)
  show "em_by_session (retain_identity_event sid p em) =
      (if case em_by_session em sid of None \<Rightarrow> True
          | Some q \<Rightarrow> should_retain_incoming (get_str ''source'' q) (get_str ''resumeSessionId'' q)
              (source_of p) (str_or [] (get_str ''resumeSessionId'' p))
       then (em_by_session em)(sid \<mapsto> p) else em_by_session em)"
    unfolding retain_identity_event_def Let_def e source_of_def [symmetric] by simp
  show "set (em_order (retain_identity_event sid p em)) = insert sid (set (em_order em))"
    using s d unfolding retain_identity_event_def Let_def e by (auto split: option.splits)
qed

lemma retain_outranks:
  assumes "identity_inv em" and "card (insert sid (set (em_order em))) \<le> MAX_RETAINED_IDENTITY_EVENTS"
    and "well_formed p" and "\<And>q. em_by_session em sid = Some q \<Longrightarrow> well_formed q"
  shows "outranks (retain_identity_event sid p em) sid p"
    and "outranks em s r \<Longrightarrow> outranks (retain_identity_event sid p em) s r"
  using assms(3,4)
  by (auto simp: outranks_def retain_no_evict(1) [OF assms(1,2)] should_retain_incoming_def well_formed_def
      source_of_def str_or_def split: option.splits)

lemma precedence_run:
  assumes "list_all (\<lambda>(_, op). case op of OpAck _ \<Rightarrow> False | _ \<Rightarrow> True) cs"
    and "list_all (\<lambda>(_, p). well_formed p) (events_of cs)"
    and "card (fst ` set (events_of cs)) \<le> MAX_RETAINED_IDENTITY_EVENTS"
  shows "identity_inv (ws_run cs emitter_new)
    \<and> set (em_order (ws_run cs emitter_new)) = fst ` set (events_of cs)
    \<and> (\<forall>s q. em_by_session (ws_run cs emitter_new) s = Some q \<longrightarrow> (s, q) \<in> set (events_of cs))
    \<and> (\<forall>(s, p) \<in> set (events_of cs). outranks (ws_run cs emitter_new) s p)"
  using assms
proof (induction cs rule: rev_induct)
  case Nil
  then show ?case
    using identity_inv_new by (simp add: ws_run_def events_of_def map_filter_def) (simp add: emitter_new_def)
next
  case (snoc c cs)
  obtain ev op where c: "c = (ev, op)" by (cases c)
  let ?em = "ws_run cs emitter_new"
  have run: "ws_run (cs @ [c]) emitter_new = ws_exec (ev, op) ?em" by (simp add: ws_run_def c)
  have events: "events_of (cs @ [c]) = events_of cs @ (case identity_of op of Some e \<Rightarrow> [e] | None \<Rightarrow> [])"
    by (simp add: events_of_def map_filter_def c split: option.split)
  have "card (fst ` set (events_of cs)) \<le> card (fst ` set (events_of (cs @ [c])))"
    unfolding events by (intro card_mono image_mono finite_imageI finite_set) simp
  then have IH: "identity_inv ?em" "set (em_order ?em) = fst ` set (events_of cs)"
      "\<And>s q. em_by_session ?em s = Some q \<Longrightarrow> (s, q) \<in> set (events_of cs)"
      "\<And>s p. (s, p) \<in> set (events_of cs) \<Longrightarrow> outranks ?em s p"
    using snoc by (force simp: events)+
  show ?case
  proof (cases "identity_of op")
    case None
    have eq: "em_by_session (ws_exec (ev, op) ?em) = em_by_session ?em \<and> em_order (ws_exec (ev, op) ?em) = em_order ?em"
      using exec_identity [where op = op and ev = ev and em = ?em] None snoc.prems(1) c by (cases op) auto
    then have "outranks (ws_exec (ev, op) ?em) s p = outranks ?em s p" for s p by (simp add: outranks_def)
    then show ?thesis
      using IH None eq exec_identity_inv [OF IH(1), of ev op] unfolding run events by auto
  next
    case (Some e)
    obtain sid p where e: "e = (sid, p)" by (cases e)
    let ?em' = "retain_identity_event sid p ?em"
    have eq: "em_by_session (ws_exec (ev, op) ?em) = em_by_session ?em'" "em_order (ws_exec (ev, op) ?em) = em_order ?em'"
      using exec_identity [where op = op and ev = ev and em = ?em] Some e by simp_all
    have wf_all: "well_formed q" if "(s, q) \<in> set (events_of (cs @ [c]))" for s q
      using snoc.prems(2) that by (auto simp: list_all_iff)
    have wf: "well_formed p" "\<And>q. em_by_session ?em sid = Some q \<Longrightarrow> well_formed q"
      by (rule wf_all [of sid]; use IH(3) Some e in \<open>simp add: events\<close>)+
    have n: "card (insert sid (set (em_order ?em))) \<le> MAX_RETAINED_IDENTITY_EVENTS"
      using snoc.prems(3) Some e by (simp add: events IH(2))
    have "outranks (ws_exec (ev, op) ?em) s r = outranks ?em' s r" for s r
      by (simp add: outranks_def eq)
    moreover have "identity_inv (ws_exec (ev, op) ?em)" by (rule exec_identity_inv [OF IH(1)])
    moreover have "(s, q) \<in> set (events_of (cs @ [c]))" if "em_by_session ?em' s = Some q" for s q
      using that IH(3) Some e
      by (auto simp: retain_no_evict(1) [OF IH(1) n] events split: if_splits)
    ultimately show ?thesis
      using retain_outranks [OF IH(1) n wf] retain_no_evict(2) [OF IH(1) n] IH Some e
      unfolding run eq by (auto simp: events)
  qed
qed

text \<open>A captured resume id is never downgraded: as long as at most 1024 sessions have
  reported one and none has been acknowledged, each session retains one of its own events, of a
  source at least as reliable as that of every event of the session so far, whatever their
  order; and an event delivered again changes nothing.\<close>

theorem identity_precedence:
  assumes "list_all (\<lambda>(_, op). case op of OpAck _ \<Rightarrow> False | _ \<Rightarrow> True) cs"
    and "list_all (\<lambda>(_, p). well_formed p) (events_of cs)"
    and "card (fst ` set (events_of cs)) \<le> MAX_RETAINED_IDENTITY_EVENTS"
    and "(sid, p) \<in> set (events_of cs)" and "em = ws_run cs emitter_new"
  shows "\<exists>q. em_by_session em sid = Some q \<and> (sid, q) \<in> set (events_of cs)
    \<and> source_priority (source_of p) \<le> source_priority (source_of q)
    \<and> retain_identity_event sid q em = em"
proof -
  note run = precedence_run [OF assms(1-3), folded assms(5)]
  from run assms(4) obtain q where q: "em_by_session em sid = Some q" "well_formed q"
    "source_priority (source_of p) \<le> source_priority (source_of q)"
    by (fastforce simp: outranks_def split: option.splits)
  then have "retain_identity_event sid q em = em"
    by (auto simp: retain_identity_event_def well_formed_def should_retain_incoming_def str_or_def)
  with q run show ?thesis by blast
qed

definition identity_payload :: "string \<Rightarrow> string \<Rightarrow> string \<Rightarrow> json" where
  "identity_payload sid source resume_id =
     JObject [(''sessionId'', JString sid), (''source'', JString source), (''resumeSessionId'', JString resume_id)]"

theorem identity_precedence_witness:
  "\<exists>q. em_by_session (ws_run
        [(open_env, OpEmit ''terminal-resume-id-detected'' (identity_payload ''s'' ''osc-title'' ''a'')),
         (open_env, OpEmit ''terminal-resume-id-detected'' (identity_payload ''s'' ''rollout-scan'' ''b''))]
        emitter_new) ''s'' = Some q \<and> 30 \<le> source_priority (source_of q)"
proof -
  let ?cs = "[(open_env, OpEmit ''terminal-resume-id-detected'' (identity_payload ''s'' ''osc-title'' ''a'')),
         (open_env, OpEmit ''terminal-resume-id-detected'' (identity_payload ''s'' ''rollout-scan'' ''b''))]"
  have g: "get_str ''sessionId'' (identity_payload s a b) = Some s" "get_str ''source'' (identity_payload s a b) = Some a"
    "get_str ''resumeSessionId'' (identity_payload s a b) = Some b" for s a b
    by (simp_all add: identity_payload_def get_str_def json_get_def as_str_def)
  have e: "events_of ?cs = [(''s'', identity_payload ''s'' ''osc-title'' ''a''), (''s'', identity_payload ''s'' ''rollout-scan'' ''b'')]"
    by (simp add: events_of_def map_filter_def g)
  have "source_priority (source_of (identity_payload ''s'' ''osc-title'' ''a'')) = 30"
    by (simp add: g source_of_def str_or_def source_priority_def)
  moreover have "\<exists>q. em_by_session (ws_run ?cs emitter_new) ''s'' = Some q \<and> (''s'', q) \<in> set (events_of ?cs)
      \<and> source_priority (source_of (identity_payload ''s'' ''osc-title'' ''a'')) \<le> source_priority (source_of q)
      \<and> retain_identity_event ''s'' q (ws_run ?cs emitter_new) = ws_run ?cs emitter_new"
    by (rule identity_precedence) (simp_all add: e g well_formed_def MAX_RETAINED_IDENTITY_EVENTS_def)
  ultimately show ?thesis by metis
qed

end
