(* ===== verification/Flow_Gate.thy ===== *)
theory Flow_Gate
  imports Prelude
begin

text \<open>
  The delivery accounts and the producer pause of a terminal session,
  \<open>cc-panes-core/src/services/terminal_output_flow.rs\<close>. \<open>gate\<close> is the struct
  \<open>OutputFlowGate\<close>, with its atomics as \<open>u64\<close> words and its mutexes as plain fields: every
  operation on them is atomic. \<open>flow_step\<close> is the interleaving of the reader thread, which
  blocks in \<open>park_if_paused\<close>, with the threads that send, acknowledge, release and cancel.
\<close>

definition PRODUCER_FLOW_CONTROL_ENABLED :: bool where
  "PRODUCER_FLOW_CONTROL_ENABLED = True"

definition PRODUCER_FLOW_HIGH_WATERMARK_BYTES :: "64 word" where
  "PRODUCER_FLOW_HIGH_WATERMARK_BYTES = 256 * 1024"

definition PRODUCER_FLOW_LOW_WATERMARK_BYTES :: "64 word" where
  "PRODUCER_FLOW_LOW_WATERMARK_BYTES = 32 * 1024"

definition PRODUCER_PAUSE_FAILSAFE :: duration where
  "PRODUCER_PAUSE_FAILSAFE = from_secs 5"

definition FAILSAFE_TIMEOUTS_BEFORE_DESYNC :: "64 word" where
  "FAILSAFE_TIMEOUTS_BEFORE_DESYNC = 2"

definition INTERACTIVE_OUTPUT_WINDOW :: duration where
  "INTERACTIVE_OUTPUT_WINDOW = from_millis 100"

definition INTERACTIVE_OUTPUT_MAX_BYTES :: nat where
  "INTERACTIVE_OUTPUT_MAX_BYTES = 1024"

datatype park_outcome = NotParked | Resumed | TimedOut | Stalled

record gate =
  g_sent :: "64 word"
  g_acked :: "64 word"
  g_ever_acked :: bool
  g_last_ack :: "instant option"
  g_park_enabled :: bool
  g_parked :: bool
  g_pauses :: "64 word"
  g_failsafe :: duration
  g_timeouts :: "64 word"
  g_last_input :: "instant option"

definition gate_with_failsafe :: "bool \<Rightarrow> duration \<Rightarrow> gate" where
  "gate_with_failsafe enabled failsafe =
     \<lparr>g_sent = 0, g_acked = 0, g_ever_acked = False, g_last_ack = None,
      g_park_enabled = enabled, g_parked = False, g_pauses = 0, g_failsafe = failsafe,
      g_timeouts = 0, g_last_input = None\<rparr>"

definition gate_with_park :: "bool \<Rightarrow> gate" where
  "gate_with_park enabled = gate_with_failsafe enabled PRODUCER_PAUSE_FAILSAFE"

definition gate_new :: gate where
  "gate_new = gate_with_park PRODUCER_FLOW_CONTROL_ENABLED"

definition gate_disabled :: gate where
  "gate_disabled = gate_with_park False"

definition note_input :: "instant \<Rightarrow> gate \<Rightarrow> gate" where
  "note_input now g = g\<lparr>g_last_input := Some now\<rparr>"

definition is_interactive_echo :: "instant \<Rightarrow> nat \<Rightarrow> gate \<Rightarrow> bool" where
  "is_interactive_echo now batch_bytes g =
     (if batch_bytes = 0 \<or> INTERACTIVE_OUTPUT_MAX_BYTES < batch_bytes then False
      else (case g_last_input g of None \<Rightarrow> False
            | Some t \<Rightarrow> since now t \<le> INTERACTIVE_OUTPUT_WINDOW))"

definition in_flight :: "gate \<Rightarrow> 64 word" where
  "in_flight g = saturating_sub (g_sent g) (g_acked g)"

definition reevaluate_park :: "gate \<Rightarrow> gate" where
  "reevaluate_park g =
     (if \<not> g_park_enabled g then g
      else if \<not> g_ever_acked g then g
      else if g_parked g then
        (if in_flight g < PRODUCER_FLOW_LOW_WATERMARK_BYTES then g\<lparr>g_parked := False\<rparr> else g)
      else if PRODUCER_FLOW_HIGH_WATERMARK_BYTES < in_flight g then
        g\<lparr>g_parked := True, g_pauses := g_pauses g + 1\<rparr>
      else g)"

definition note_sent :: "64 word option \<Rightarrow> gate \<Rightarrow> gate" where
  "note_sent end_seq g =
     (case end_seq of None \<Rightarrow> g
      | Some q \<Rightarrow> reevaluate_park (g\<lparr>g_sent := max (g_sent g) q\<rparr>))"

definition note_acked :: "instant \<Rightarrow> 64 word \<Rightarrow> gate \<Rightarrow> gate \<times> 64 word" where
  "note_acked now processed_end_seq g =
     (let g1 = g\<lparr>g_ever_acked := True, g_last_ack := Some now\<rparr>;
          capped = min processed_end_seq (g_sent g1);
          previous = g_acked g1
      in (reevaluate_park (g1\<lparr>g_acked := max previous capped\<rparr>),
          saturating_sub capped previous))"

definition release :: "gate \<Rightarrow> gate" where
  "release g = g\<lparr>g_parked := False\<rparr>"

definition ack_silence :: "instant \<Rightarrow> gate \<Rightarrow> duration option" where
  "ack_silence now g = map_option (since now) (g_last_ack g)"

text \<open>
  \<open>park_if_paused\<close> in its three parts: the checks before the wait, which give the deadline
  of the wait if there is one; the loop test each time the thread runs, which tells
  whether the wait is over and whether it timed out; and what happens after the loop.
\<close>

definition park_enter :: "gate \<Rightarrow> bool \<Rightarrow> instant \<Rightarrow> instant option" where
  "park_enter g cancelled now =
     (if \<not> g_park_enabled g then None
      else if \<not> g_parked g \<or> cancelled then None
      else Some (now + g_failsafe g))"

definition park_check :: "gate \<Rightarrow> bool \<Rightarrow> instant \<Rightarrow> instant \<Rightarrow> bool option" where
  "park_check g cancelled now deadline =
     (if \<not> (g_parked g \<and> \<not> cancelled) then Some False
      else if deadline \<le> now then Some True
      else None)"

definition park_finish :: "bool \<Rightarrow> gate \<Rightarrow> gate \<times> park_outcome" where
  "park_finish timed_out_waiting g =
     (let g1 = g\<lparr>g_parked := False\<rparr>
      in if \<not> timed_out_waiting then (g1\<lparr>g_timeouts := 0\<rparr>, Resumed)
         else (let streak = g_timeouts g1 + 1
               in if FAILSAFE_TIMEOUTS_BEFORE_DESYNC \<le> streak
                  then (g1\<lparr>g_timeouts := 0\<rparr>, Stalled)
                  else (g1\<lparr>g_timeouts := streak\<rparr>, TimedOut)))"

subsection \<open>The interleaving\<close>

datatype reader_pc = Reading | Waiting instant

record flow_sys =
  fs_gate :: gate
  fs_cancelled :: bool
  fs_now :: instant
  fs_reader :: reader_pc

datatype flow_event =
    ESent "64 word option"
  | EAcked "64 word"
  | ERelease
  | ECancel
  | ETick duration
  | EEnter
  | EOutcome park_outcome

inductive flow_step :: "flow_sys \<Rightarrow> flow_event \<Rightarrow> flow_sys \<Rightarrow> bool" where
  sent: "flow_step s (ESent q) (s\<lparr>fs_gate := note_sent q (fs_gate s)\<rparr>)"
| acked: "flow_step s (EAcked a) (s\<lparr>fs_gate := fst (note_acked (fs_now s) a (fs_gate s))\<rparr>)"
| released: "flow_step s ERelease (s\<lparr>fs_gate := release (fs_gate s)\<rparr>)"
| cancelled: "flow_step s ECancel (s\<lparr>fs_cancelled := True\<rparr>)"
| tick: "flow_step s (ETick d) (s\<lparr>fs_now := fs_now s + d\<rparr>)"
| pass: "fs_reader s = Reading \<Longrightarrow> park_enter (fs_gate s) (fs_cancelled s) (fs_now s) = None \<Longrightarrow>
    flow_step s (EOutcome NotParked) s"
| enter: "fs_reader s = Reading \<Longrightarrow>
    park_enter (fs_gate s) (fs_cancelled s) (fs_now s) = Some dl \<Longrightarrow>
    flow_step s EEnter (s\<lparr>fs_reader := Waiting dl\<rparr>)"
| woken: "fs_reader s = Waiting dl \<Longrightarrow>
    park_check (fs_gate s) (fs_cancelled s) (fs_now s) dl = Some timed \<Longrightarrow>
    park_finish timed (fs_gate s) = (g, o') \<Longrightarrow>
    flow_step s (EOutcome o') (s\<lparr>fs_gate := g, fs_reader := Reading\<rparr>)"
| expired: "fs_reader s = Waiting dl \<Longrightarrow> dl \<le> fs_now s \<Longrightarrow>
    park_finish True (fs_gate s) = (g, o') \<Longrightarrow>
    flow_step s (EOutcome o') (s\<lparr>fs_gate := g, fs_reader := Reading\<rparr>)"

inductive_cases flow_stepE: "flow_step s e t"

definition flow_init :: "gate \<Rightarrow> flow_sys" where
  "flow_init g = \<lparr>fs_gate = g, fs_cancelled = False, fs_now = 0, fs_reader = Reading\<rparr>"

inductive flow_run :: "gate \<Rightarrow> flow_event list \<Rightarrow> flow_sys \<Rightarrow> bool" for g0 :: gate where
  init: "flow_run g0 [] (flow_init g0)"
| step: "flow_run g0 es s \<Longrightarrow> flow_step s e t \<Longrightarrow> flow_run g0 (es @ [e]) t"

subsection \<open>The gate invariant\<close>

definition gate_inv :: "gate \<Rightarrow> bool" where
  "gate_inv g \<longleftrightarrow> g_acked g \<le> g_sent g
     \<and> (g_parked g \<longrightarrow> g_park_enabled g \<and> g_ever_acked g)
     \<and> g_timeouts g \<le> 1"

lemma gate_inv_with_failsafe: "gate_inv (gate_with_failsafe e f)"
  by (simp add: gate_inv_def gate_with_failsafe_def)

lemma reevaluate_frame [frame]:
  "g_sent (reevaluate_park g) = g_sent g"
  "g_acked (reevaluate_park g) = g_acked g"
  "g_ever_acked (reevaluate_park g) = g_ever_acked g"
  "g_last_ack (reevaluate_park g) = g_last_ack g"
  "g_park_enabled (reevaluate_park g) = g_park_enabled g"
  "g_failsafe (reevaluate_park g) = g_failsafe g"
  "g_timeouts (reevaluate_park g) = g_timeouts g"
  "in_flight (reevaluate_park g) = in_flight g"
  by (simp_all add: reevaluate_park_def in_flight_def)

lemma reevaluate_parked:
  "g_parked (reevaluate_park g) =
    (if g_park_enabled g \<and> g_ever_acked g
     then (if g_parked g then PRODUCER_FLOW_LOW_WATERMARK_BYTES \<le> in_flight g else PRODUCER_FLOW_HIGH_WATERMARK_BYTES < in_flight g)
     else g_parked g)"
  by (auto simp: reevaluate_park_def)

lemma reevaluate_inv:
  "gate_inv g \<Longrightarrow> gate_inv (reevaluate_park g)"
  by (cases "g_park_enabled g \<and> g_ever_acked g") (auto simp: gate_inv_def reevaluate_park_def)

lemma note_sent_inv: "gate_inv g \<Longrightarrow> gate_inv (note_sent q g)"
proof (cases q)
  case (Some p)
  assume "gate_inv g"
  then have "gate_inv (g\<lparr>g_sent := max (g_sent g) p\<rparr>)"
    by (simp add: gate_inv_def le_max_iff_disj)
  with Some show ?thesis by (simp add: note_sent_def reevaluate_inv)
qed (simp add: note_sent_def)

lemma note_acked_inv:
  assumes "gate_inv g"
  shows "gate_inv (fst (note_acked now a g))"
proof -
  have "max (g_acked g) (min a (g_sent g)) \<le> g_sent g"
    using assms by (simp add: gate_inv_def)
  with assms show ?thesis
    by (simp add: note_acked_def Let_def) (rule reevaluate_inv, simp add: gate_inv_def)
qed

lemma release_inv: "gate_inv g \<Longrightarrow> gate_inv (release g)"
  by (simp add: release_def gate_inv_def)

lemma streak_cases: "t \<le> 1 \<Longrightarrow> t = 0 \<or> t = (1 :: 64 word)"
  using word_le_nat_alt [of t 1] by (auto simp: word_unat_eq_iff le_Suc_eq)

lemma park_finish_inv: "gate_inv g \<Longrightarrow> gate_inv (fst (park_finish timed g))"
  using streak_cases [of "g_timeouts g"]
  by (auto simp: park_finish_def gate_inv_def Let_def FAILSAFE_TIMEOUTS_BEFORE_DESYNC_def)

lemma gate_enabled [frame]:
  "g_park_enabled (note_sent q g) = g_park_enabled g"
  "g_park_enabled (fst (note_acked now a g)) = g_park_enabled g"
  "g_park_enabled (release g) = g_park_enabled g"
  "g_park_enabled (fst (park_finish timed g)) = g_park_enabled g"
  by (auto simp: note_sent_def note_acked_def release_def park_finish_def Let_def frame
      split: option.split)

definition flow_inv :: "flow_sys \<Rightarrow> bool" where
  "flow_inv s \<longleftrightarrow> gate_inv (fs_gate s)
     \<and> (\<forall>dl. fs_reader s = Waiting dl \<longrightarrow>
          g_park_enabled (fs_gate s) \<and> dl \<le> fs_now s + g_failsafe (fs_gate s))"

lemma gate_failsafe [frame]:
  "g_failsafe (note_sent q g) = g_failsafe g"
  "g_failsafe (fst (note_acked now a g)) = g_failsafe g"
  "g_failsafe (release g) = g_failsafe g"
  "g_failsafe (fst (park_finish timed g)) = g_failsafe g"
  by (auto simp: note_sent_def note_acked_def release_def park_finish_def Let_def frame
      split: option.split)

lemma flow_step_inv: "flow_step s e t \<Longrightarrow> flow_inv s \<Longrightarrow> flow_inv t"
proof (induction rule: flow_step.induct)
  case (woken s dl timed g o')
  then show ?case using park_finish_inv [of "fs_gate s" timed] by (simp add: flow_inv_def)
next
  case (expired s dl g o')
  then show ?case using park_finish_inv [of "fs_gate s" True] by (simp add: flow_inv_def)
next
  case (tick s d)
  then show ?case by (auto simp: flow_inv_def intro: le_trans)
qed (auto simp: flow_inv_def frame note_sent_inv note_acked_inv release_inv park_enter_def
    split: if_splits)

lemma flow_run_inv: "flow_run g0 es s \<Longrightarrow> gate_inv g0 \<Longrightarrow> flow_inv s"
  by (induction rule: flow_run.induct)
    (simp add: flow_init_def flow_inv_def, blast intro: flow_step_inv)

lemma flow_step_failsafe: "flow_step s e t \<Longrightarrow> g_failsafe (fs_gate t) = g_failsafe (fs_gate s)"
proof (induction rule: flow_step.induct)
  case (woken s dl timed g o')
  then show ?case using gate_failsafe(4) [of timed "fs_gate s"] by simp
next
  case (expired s dl g o')
  then show ?case using gate_failsafe(4) [of True "fs_gate s"] by simp
qed (simp_all add: frame)

lemma flow_run_failsafe: "flow_run g0 es s \<Longrightarrow> g_failsafe (fs_gate s) = g_failsafe g0"
  by (induction rule: flow_run.induct) (simp_all add: flow_init_def flow_step_failsafe)

lemma park_finish_parked [simp]: "\<not> g_parked (fst (park_finish timed g))"
  by (simp add: park_finish_def Let_def)

lemma park_finish_frame [frame]:
  "g_ever_acked (fst (park_finish timed g)) = g_ever_acked g"
  by (simp add: park_finish_def Let_def)

subsection \<open>A gate that cannot park\<close>

text \<open>\<open>idle_gate\<close> covers both gates that must never stop their producer: the one of an SSH
  session, and the one of a client that never acknowledges.\<close>

definition idle_gate :: "gate \<Rightarrow> bool" where
  "idle_gate g \<longleftrightarrow> \<not> g_parked g \<and> (\<not> g_park_enabled g \<or> \<not> g_ever_acked g)"

lemma idle_reevaluate: "idle_gate g \<Longrightarrow> reevaluate_park g = g"
  by (auto simp: idle_gate_def reevaluate_park_def)

lemma idle_note_sent: "idle_gate g \<Longrightarrow> idle_gate (note_sent q g)"
proof (cases q)
  case (Some p)
  assume idle: "idle_gate g"
  then have "idle_gate (g\<lparr>g_sent := max (g_sent g) p\<rparr>)" by (simp add: idle_gate_def)
  with Some show ?thesis by (simp add: note_sent_def idle_reevaluate)
qed (simp add: note_sent_def)

lemma idle_step:
  assumes "flow_step s e t" and "idle_gate (fs_gate s)" and "fs_reader s = Reading"
    and "\<not> g_park_enabled (fs_gate s) \<or> (\<forall>a. e \<noteq> EAcked a)"
  shows "idle_gate (fs_gate t) \<and> fs_reader t = Reading \<and> (\<forall>o'. e = EOutcome o' \<longrightarrow> o' = NotParked)"
  using assms
proof (induction rule: flow_step.induct)
  case (acked s a)
  then have "idle_gate ((fs_gate s)\<lparr>g_ever_acked := True, g_last_ack := Some (fs_now s),
      g_acked := max (g_acked (fs_gate s)) (min a (g_sent (fs_gate s)))\<rparr>)"
    by (simp add: idle_gate_def)
  with acked show ?case by (simp add: note_acked_def Let_def idle_reevaluate)
next
  case (sent s q)
  then show ?case by (simp add: idle_note_sent)
qed (auto simp: park_enter_def idle_gate_def release_def split: if_splits)

lemma idle_run:
  assumes "flow_run g0 es s" and "idle_gate g0"
    and "\<not> g_park_enabled g0 \<or> (\<forall>a. EAcked a \<notin> set es)"
  shows "idle_gate (fs_gate s) \<and> fs_reader s = Reading
    \<and> g_park_enabled (fs_gate s) = g_park_enabled g0
    \<and> (\<forall>o'. EOutcome o' \<in> set es \<longrightarrow> o' = NotParked)"
  using assms
proof (induction rule: flow_run.induct)
  case init
  then show ?case by (simp add: flow_init_def)
next
  case (step es s e t)
  then have IH: "idle_gate (fs_gate s)" "fs_reader s = Reading"
    "g_park_enabled (fs_gate s) = g_park_enabled g0"
    "\<forall>o'. EOutcome o' \<in> set es \<longrightarrow> o' = NotParked" by auto
  with step have "idle_gate (fs_gate t) \<and> fs_reader t = Reading
      \<and> (\<forall>o'. e = EOutcome o' \<longrightarrow> o' = NotParked)"
    by (intro idle_step [OF step.hyps(2)]) auto
  moreover have "g_park_enabled (fs_gate t) = g_park_enabled (fs_gate s)"
    using step.hyps(2)
  proof cases
    case (woken dl timed g o')
    then show ?thesis using gate_enabled(4) [of timed "fs_gate s"] by simp
  next
    case (expired dl g o')
    then show ?thesis using gate_enabled(4) [of True "fs_gate s"] by simp
  qed (simp_all add: frame)
  ultimately show ?case using IH by auto
qed

subsection \<open>Streaks of timeouts\<close>

fun streak_run :: "nat \<Rightarrow> park_outcome list \<Rightarrow> nat option" where
  "streak_run n [] = Some n"
| "streak_run n (NotParked # os) = streak_run n os"
| "streak_run n (Resumed # os) = streak_run 0 os"
| "streak_run n (TimedOut # os) = (if n = 0 then streak_run 1 os else None)"
| "streak_run n (Stalled # os) = (if n = 1 then streak_run 0 os else None)"

fun outcomes :: "flow_event list \<Rightarrow> park_outcome list" where
  "outcomes [] = []"
| "outcomes (EOutcome o' # es) = o' # outcomes es"
| "outcomes (_ # es) = outcomes es"

lemma outcomes_append: "outcomes (xs @ ys) = outcomes xs @ outcomes ys"
  by (induction xs rule: outcomes.induct) auto

lemma streak_run_snoc:
  "streak_run n (xs @ [x]) = Option.bind (streak_run n xs) (\<lambda>m. streak_run m [x])"
  by (induction n xs rule: streak_run.induct) auto

lemma two_not_le_one: "\<not> (2 :: 64 word) \<le> 1"
  by (simp add: word_le_nat_alt)

lemma park_finish_streak:
  assumes "gate_inv g" and "park_finish timed g = (g', o')"
  shows "streak_run (unat (g_timeouts g)) [o'] = Some (unat (g_timeouts g'))"
  using assms streak_cases [of "g_timeouts g"]
  by (auto simp: park_finish_def gate_inv_def Let_def FAILSAFE_TIMEOUTS_BEFORE_DESYNC_def
      two_not_le_one split: if_splits)

lemma gate_timeouts [frame]:
  "g_timeouts (note_sent q g) = g_timeouts g"
  "g_timeouts (fst (note_acked now a g)) = g_timeouts g"
  "g_timeouts (release g) = g_timeouts g"
  by (auto simp: note_sent_def note_acked_def release_def Let_def frame split: option.split)

lemma flow_step_streak:
  assumes "flow_step s e t" and "flow_inv s"
  shows "streak_run (unat (g_timeouts (fs_gate s))) (outcomes [e]) =
    Some (unat (g_timeouts (fs_gate t)))"
  using assms
  by (cases rule: flow_step.cases) (auto simp: frame flow_inv_def dest: park_finish_streak)

subsection \<open>Acknowledgements\<close>

fun ack_all :: "(instant \<times> 64 word) list \<Rightarrow> gate \<Rightarrow> gate \<times> 64 word list" where
  "ack_all [] g = (g, [])"
| "ack_all ((now, a) # as) g =
     (let (g1, n) = note_acked now a g; (g2, ns) = ack_all as g1 in (g2, n # ns))"

lemma note_acked_fields [frame]:
  "g_sent (fst (note_acked now a g)) = g_sent g"
  "g_acked (fst (note_acked now a g)) = max (g_acked g) (min a (g_sent g))"
  "snd (note_acked now a g) = saturating_sub (min a (g_sent g)) (g_acked g)"
  by (simp_all add: note_acked_def Let_def frame)

lemma unat_max: "unat (max a b) = max (unat a) (unat (b :: 'a::len word))"
  by (simp add: max_def word_le_nat_alt)

lemma unat_min: "unat (min a b) = min (unat a) (unat (b :: 'a::len word))"
  by (simp add: min_def word_le_nat_alt)

lemma note_acked_billing:
  "unat (snd (note_acked now a g)) + unat (g_acked g) = unat (g_acked (fst (note_acked now a g)))"
  by (simp add: frame unat_saturating_sub unat_max unat_min)

lemmas gate_eval = note_sent_def reevaluate_park_def in_flight_def saturating_sub_def
  PRODUCER_FLOW_HIGH_WATERMARK_BYTES_def PRODUCER_FLOW_LOW_WATERMARK_BYTES_def gate_new_def gate_with_park_def gate_with_failsafe_def
  PRODUCER_FLOW_CONTROL_ENABLED_def max_def min_def

subsection \<open>Properties\<close>

text \<open>Acknowledgements may be repeated, reordered and lost without corrupting the
  accounts: after any sequence of them the acknowledged position is the maximum of the old
  one and of the positions acknowledged, each capped by what was sent (so it depends only
  on the set of positions), and the byte counts returned along the way add up to exactly
  the bytes newly acknowledged.\<close>

theorem ack_accounting:
  "g_acked (fst (ack_all as g)) = Max (insert (g_acked g) (min (g_sent g) ` snd ` set as))
   \<and> unat (g_acked g) + sum_list (map unat (snd (ack_all as g))) = unat (g_acked (fst (ack_all as g)))"
proof (induction as arbitrary: g)
  case Nil
  show ?case by simp
next
  case (Cons x as)
  obtain now a where x: "x = (now, a)" by fastforce
  obtain g1 n where step: "note_acked now a g = (g1, n)" by fastforce
  obtain g2 ns where rest: "ack_all as g1 = (g2, ns)" by fastforce
  have g1: "g_sent g1 = g_sent g" "g_acked g1 = max (g_acked g) (min (g_sent g) a)"
    using note_acked_fields [of now a g] step by (simp_all add: min.commute)
  have bill: "unat (g_acked g) + unat n = unat (g_acked g1)"
    using note_acked_billing [of now a g] step by simp
  let ?S = "min (g_sent g) ` snd ` set as"
  from Cons.IH [of g1] rest g1 have sum: "unat (g_acked g1) + sum_list (map unat ns) = unat (g_acked g2)"
    by simp
  from Cons.IH [of g1] rest g1 have "g_acked g2 = Max (insert (g_acked g1) ?S)" by simp
  also have "Max (insert (g_acked g1) ?S) = Max (insert (g_acked g) (insert (min (g_sent g) a) ?S))"
    by (cases "?S = {}") (simp_all add: g1 max.assoc)
  finally show ?case using step rest x bill sum by simp
qed

text \<open>The pause has hysteresis: an emission starts it only above the high watermark, an
  acknowledgement ends it only below the low one, and in the band between the two neither
  changes it.\<close>

theorem park_hysteresis:
  assumes "gate_inv g"
  shows "(\<not> g_parked g \<and> g_parked (note_sent q g) \<longrightarrow> PRODUCER_FLOW_HIGH_WATERMARK_BYTES < in_flight (note_sent q g))
    \<and> (g_parked g \<and> \<not> g_parked (fst (note_acked now a g)) \<longrightarrow>
         in_flight (fst (note_acked now a g)) < PRODUCER_FLOW_LOW_WATERMARK_BYTES)
    \<and> (PRODUCER_FLOW_LOW_WATERMARK_BYTES \<le> in_flight (fst (note_acked now a g))
         \<and> in_flight (fst (note_acked now a g)) \<le> PRODUCER_FLOW_HIGH_WATERMARK_BYTES \<longrightarrow>
         g_parked (fst (note_acked now a g)) = g_parked g)"
proof -
  let ?s = "\<lambda>p. g\<lparr>g_sent := max (g_sent g) p\<rparr>"
  let ?a = "g\<lparr>g_ever_acked := True, g_last_ack := Some now,
    g_acked := max (g_acked g) (min a (g_sent g))\<rparr>"
  have ack: "fst (note_acked now a g) = reevaluate_park ?a"
    by (simp add: note_acked_def Let_def)
  have "\<not> g_parked g \<Longrightarrow> g_parked (note_sent q g) \<Longrightarrow> PRODUCER_FLOW_HIGH_WATERMARK_BYTES < in_flight (note_sent q g)"
    by (cases q) (auto simp: note_sent_def frame reevaluate_parked split: if_splits)
  moreover have "g_parked (reevaluate_park ?a) =
      (if g_park_enabled g then (if g_parked g then PRODUCER_FLOW_LOW_WATERMARK_BYTES \<le> in_flight ?a
                                 else PRODUCER_FLOW_HIGH_WATERMARK_BYTES < in_flight ?a)
       else g_parked g)"
    by (simp add: reevaluate_parked)
  moreover have "g_parked g \<longrightarrow> g_park_enabled g" using assms by (simp add: gate_inv_def)
  ultimately show ?thesis unfolding ack frame(8) by (auto simp: not_less)
qed

theorem park_hysteresis_witness:
  "g_parked (note_sent (Some 262145) (gate_new\<lparr>g_ever_acked := True\<rparr>))
   \<and> PRODUCER_FLOW_HIGH_WATERMARK_BYTES < in_flight (note_sent (Some 262145) (gate_new\<lparr>g_ever_acked := True\<rparr>))"
proof -
  let ?g = "gate_new\<lparr>g_ever_acked := True\<rparr>"
  have inv: "gate_inv ?g"
    by (simp add: gate_inv_def gate_new_def gate_with_park_def gate_with_failsafe_def)
  have "g_parked (note_sent (Some 262145) ?g)" and "\<not> g_parked ?g"
    by (simp_all add: gate_eval)
  with park_hysteresis [OF inv, of "Some 262145" 0 0] show ?thesis by blast
qed

text \<open>A client that never acknowledges is never throttled: in any run of a session's
  gate without an acknowledgement, the gate is never parked and the reader is never made to
  wait.\<close>

theorem silent_client_never_parked:
  assumes "flow_run gate_new es s" and "\<forall>a. EAcked a \<notin> set es"
  shows "\<not> g_parked (fs_gate s) \<and> fs_reader s = Reading
    \<and> (\<forall>o'. EOutcome o' \<in> set es \<longrightarrow> o' = NotParked)"
proof -
  have "idle_gate gate_new"
    by (simp add: idle_gate_def gate_new_def gate_with_park_def gate_with_failsafe_def)
  from idle_run [OF assms(1) this] assms(2) show ?thesis by (auto simp: idle_gate_def)
qed

theorem silent_client_never_parked_witness:
  "\<not> g_parked (fs_gate ((flow_init gate_new)\<lparr>fs_gate := note_sent (Some 999999) gate_new\<rparr>))"
proof -
  have "flow_step (flow_init gate_new) (ESent (Some 999999))
      ((flow_init gate_new)\<lparr>fs_gate := note_sent (Some 999999) gate_new\<rparr>)"
    using flow_step.sent [of "flow_init gate_new" "Some 999999"] by (simp add: flow_init_def)
  then have "flow_run gate_new ([] @ [ESent (Some 999999)])
      ((flow_init gate_new)\<lparr>fs_gate := note_sent (Some 999999) gate_new\<rparr>)"
    by (rule flow_run.step [OF flow_run.init])
  from silent_client_never_parked [OF this] show ?thesis by simp
qed

text \<open>The gate of an SSH session never parks: whatever is sent, acknowledged, released or
  cancelled, its reader is never made to wait.\<close>
lemma ssh_never_parked:
  assumes "flow_run gate_disabled es s"
  shows "\<not> g_parked (fs_gate s) \<and> fs_reader s = Reading
    \<and> (\<forall>o'. EOutcome o' \<in> set es \<longrightarrow> o' = NotParked)"
proof -
  have "idle_gate gate_disabled" and "\<not> g_park_enabled gate_disabled"
    by (simp_all add: idle_gate_def gate_disabled_def gate_with_park_def gate_with_failsafe_def)
  with idle_run [OF assms] show ?thesis by (auto simp: idle_gate_def)
qed

text \<open>The outcomes of the waits of a session follow the watchdog protocol: a wait that
  is resumed starts a new streak, the first timeout of a streak is reported as a timeout, the
  second as a stall (which starts a new streak), and waits that were not needed count for
  nothing.\<close>

theorem stall_after_two_timeouts:
  assumes "flow_run gate_new es s"
  shows "streak_run 0 (outcomes es) = Some (unat (g_timeouts (fs_gate s)))"
  using assms
proof (induction rule: flow_run.induct)
  case init
  then show ?case
    by (simp add: flow_init_def gate_new_def gate_with_park_def gate_with_failsafe_def)
next
  case (step es s e t)
  have "gate_inv gate_new" unfolding gate_new_def gate_with_park_def by (rule gate_inv_with_failsafe)
  with step.hyps(1) have "flow_inv s" by (rule flow_run_inv)
  from flow_step_streak [OF step.hyps(2) this] step.IH show ?case
    by (cases e) (simp_all add: outcomes_append streak_run_snoc)
qed

theorem stall_after_two_timeouts_witness:
  "streak_run 0 (outcomes []) = Some (unat (g_timeouts (fs_gate (flow_init gate_new))))"
  by (rule stall_after_two_timeouts [OF flow_run.init])

text \<open>No wait lasts: from any reachable state in which the reader waits, once the session
  is cancelled, or once five seconds have passed without any other event, the reader can
  leave the wait, and however it leaves it the gate is open again.\<close>

theorem park_is_bounded:
  assumes "flow_run gate_new es s" and "fs_reader s = Waiting dl"
  shows "(\<exists>o' t. flow_step (s\<lparr>fs_cancelled := True\<rparr>) (EOutcome o') t)
    \<and> (\<exists>o' t. flow_step (s\<lparr>fs_now := fs_now s + from_secs 5\<rparr>) (EOutcome o') t)
    \<and> (\<forall>o' t. flow_step s (EOutcome o') t \<longrightarrow> \<not> g_parked (fs_gate t) \<and> fs_reader t = Reading)"
proof -
  have "gate_inv gate_new" unfolding gate_new_def gate_with_park_def by (rule gate_inv_with_failsafe)
  with assms have "dl \<le> fs_now s + g_failsafe (fs_gate s)"
    using flow_run_inv by (auto simp: flow_inv_def)
  also have "g_failsafe (fs_gate s) = from_secs 5"
    using flow_run_failsafe [OF assms(1)]
    by (simp add: gate_new_def gate_with_park_def gate_with_failsafe_def PRODUCER_PAUSE_FAILSAFE_def)
  finally have dl: "dl \<le> fs_now s + from_secs 5" .
  have "\<exists>o' t. flow_step (s\<lparr>fs_cancelled := True\<rparr>) (EOutcome o') t"
    using assms(2) flow_step.woken [of "s\<lparr>fs_cancelled := True\<rparr>" dl False]
    by (simp add: park_check_def) (metis surj_pair)
  moreover have "\<exists>o' t. flow_step (s\<lparr>fs_now := fs_now s + from_secs 5\<rparr>) (EOutcome o') t"
    using assms(2) dl flow_step.expired [of "s\<lparr>fs_now := fs_now s + from_secs 5\<rparr>" dl]
    by simp (metis surj_pair)
  moreover have "\<not> g_parked (fs_gate t) \<and> fs_reader t = Reading"
    if "flow_step s (EOutcome o') t" for o' t
    using that assms(2)
  proof cases
    case (woken dl timed g)
    then show ?thesis using park_finish_parked [of timed "fs_gate s"] by simp
  next
    case (expired dl g)
    then show ?thesis using park_finish_parked [of True "fs_gate s"] by simp
  qed simp_all
  ultimately show ?thesis by blast
qed

definition parked_run :: "flow_sys" where
  "parked_run = \<lparr>fs_gate = note_sent (Some 262146) (fst (note_acked 0 1 (note_sent (Some 1) gate_new))),
     fs_cancelled = False, fs_now = 0, fs_reader = Waiting (from_secs 5)\<rparr>"

lemma parked_run_reachable:
  "flow_run gate_new [ESent (Some 1), EAcked 1, ESent (Some 262146), EEnter] parked_run"
proof -
  let ?i = "flow_init gate_new"
  let ?s1 = "?i\<lparr>fs_gate := note_sent (Some 1) gate_new\<rparr>"
  let ?s2 = "?s1\<lparr>fs_gate := fst (note_acked 0 1 (fs_gate ?s1))\<rparr>"
  let ?s3 = "?s2\<lparr>fs_gate := note_sent (Some 262146) (fs_gate ?s2)\<rparr>"
  have "flow_run gate_new ([] @ [ESent (Some 1)]) ?s1"
    using flow_step.sent [of ?i "Some 1"] by (intro flow_run.step [OF flow_run.init]) (simp add: flow_init_def)
  then have "flow_run gate_new ([ESent (Some 1)] @ [EAcked 1]) ?s2"
    using flow_step.acked [of ?s1 1] by (intro flow_run.step) (simp_all add: flow_init_def)
  then have "flow_run gate_new ([ESent (Some 1), EAcked 1] @ [ESent (Some 262146)]) ?s3"
    using flow_step.sent [of ?s2 "Some 262146"] by (intro flow_run.step) simp_all
  moreover have "park_enter (fs_gate ?s3) (fs_cancelled ?s3) (fs_now ?s3) = Some (from_secs 5)"
    by (simp add: gate_eval note_acked_def Let_def park_enter_def flow_init_def PRODUCER_PAUSE_FAILSAFE_def word_le_nat_alt)
  then have "flow_step ?s3 EEnter (?s3\<lparr>fs_reader := Waiting (from_secs 5)\<rparr>)"
    by (intro flow_step.enter) (simp_all add: flow_init_def)
  ultimately have "flow_run gate_new ([ESent (Some 1), EAcked 1, ESent (Some 262146)] @ [EEnter])
      (?s3\<lparr>fs_reader := Waiting (from_secs 5)\<rparr>)"
    by (intro flow_run.step) simp_all
  then show ?thesis by (simp add: parked_run_def flow_init_def)
qed

theorem park_is_bounded_witness:
  "\<exists>o' t. flow_step (parked_run\<lparr>fs_cancelled := True\<rparr>) (EOutcome o') t"
  using park_is_bounded [OF parked_run_reachable, of "from_secs 5"] by (simp add: parked_run_def)

end
