(* ===== verification/Control_Link.thy ===== *)
theory Control_Link
  imports Ws_Emitter Flow_Gate "HOL-Library.AList"
begin

text \<open>
  The control link between the desktop and the terminal daemon: the task of the desktop that keeps
  it (\<open>src-tauri/src/services/terminal_daemon_control_link.rs\<close>) and the part of the daemon that
  serves it (\<open>handle_control_ws\<close> in \<open>cc-panes-daemon/src/server.rs\<close>).

  The task reacts to one input at a time (\<open>link_step\<close>). \<open>cl_sent\<close> is what it has sent on the
  present connection, \<open>cl_bound\<close> the payloads handed to \<open>bind_resume_id\<close>, \<open>cl_tasks\<close> the binding
  tasks it has spawned.
\<close>

subsection \<open>Watch channels\<close>

text \<open>A \<open>tokio::sync::watch\<close> channel with one receiver: the receiver is woken when it has not
  seen the present version.\<close>

record 'a watch =
  wa_value :: 'a
  wa_version :: nat
  wa_seen :: nat

definition watch_new :: "'a \<Rightarrow> 'a watch" where
  "watch_new v = \<lparr>wa_value = v, wa_version = 0, wa_seen = 0\<rparr>"

definition watch_changed :: "'a watch \<Rightarrow> bool" where
  "watch_changed w \<longleftrightarrow> wa_seen w \<noteq> wa_version w"

definition send_if_modified :: "('a \<Rightarrow> 'a \<times> bool) \<Rightarrow> 'a watch \<Rightarrow> 'a watch" where
  "send_if_modified f w =
     (let (v, modified) = f (wa_value w)
      in w\<lparr>wa_value := v, wa_version := wa_version w + (if modified then 1 else 0)\<rparr>)"

definition send_modify :: "('a \<Rightarrow> 'a) \<Rightarrow> 'a watch \<Rightarrow> 'a watch" where
  "send_modify f w = send_if_modified (\<lambda>v. (f v, True)) w"

definition mark_unchanged :: "'a watch \<Rightarrow> 'a watch" where
  "mark_unchanged w = w\<lparr>wa_seen := wa_version w\<rparr>"

subsection \<open>Acknowledgements of output\<close>

type_synonym acks = "(string \<times> 64 word) list"

definition merge_output_ack :: "string \<Rightarrow> 64 word \<Rightarrow> acks watch \<Rightarrow> acks watch" where
  "merge_output_ack sid processed_end_seq w =
     send_modify (\<lambda>pending.
       let slot = (case map_of pending sid of Some n \<Rightarrow> n | None \<Rightarrow> 0)
       in AList.update sid (if slot < processed_end_seq then processed_end_seq else slot) pending) w"

definition drain_output_acks_from :: "acks watch \<Rightarrow> acks watch \<times> acks" where
  "drain_output_acks_from w =
     (send_if_modified (\<lambda>pending. if pending = [] then (pending, False) else ([], True)) w, wa_value w)"

subsection \<open>Messages\<close>

text \<open>From the daemon. \<open>wire\<close> is how the desktop reads what the daemon publishes.\<close>

datatype daemon_control_message =
    DcSessionKilled string "string option"
  | DcResumeIdDetected json
  | DcLaunchWarning json
  | DcCheckpointRequest string
  | DcNotifier string string "int option"
  | DcUnknown

fun wire :: "control_message \<Rightarrow> daemon_control_message" where
  "wire (SessionKilled sid reason) = DcSessionKilled sid (Some reason)"
| "wire (ResumeIdDetected payload) = DcResumeIdDetected payload"
| "wire (LaunchWarning payload) = DcLaunchWarning payload"
| "wire (CheckpointRequest sid) = DcCheckpointRequest sid"
| "wire (Notifier ev sid code) = DcNotifier ev sid code"

datatype control_event =
    EvSessionKilled string string
  | EvLaunchWarning json
  | EvCheckpointRequest string

datatype control_action =
    EmitEvent control_event
  | BindResume json
  | Notify string string "int option"

fun parse_control_event :: "daemon_control_message \<Rightarrow> control_action option" where
  "parse_control_event (DcSessionKilled sid reason) =
     Some (EmitEvent (EvSessionKilled sid (case reason of Some r \<Rightarrow> r | None \<Rightarrow> ''unknown'')))"
| "parse_control_event (DcResumeIdDetected payload) = Some (BindResume payload)"
| "parse_control_event (DcLaunchWarning payload) = Some (EmitEvent (EvLaunchWarning payload))"
| "parse_control_event (DcCheckpointRequest sid) = Some (EmitEvent (EvCheckpointRequest sid))"
| "parse_control_event (DcNotifier ev sid code) = Some (Notify ev sid code)"
| "parse_control_event DcUnknown = None"

text \<open>To the daemon.\<close>

datatype uplink =
    HiddenSessions "string list"
  | SharedMcpUrls "(string \<times> string) list"
  | OutputAcks acks
  | IdentityAcks "(string \<times> string) list"

subsection \<open>The notifier\<close>

definition WAITING_INPUT_DEDUPE :: duration where
  "WAITING_INPUT_DEDUPE = from_secs 20"

record notifier_state =
  ns_exited :: "string set"
  ns_last_waiting :: "string \<Rightarrow> instant option"
  ns_pending :: "(string \<times> string \<times> int option) list"

definition notifier_new :: notifier_state where
  "notifier_new = \<lparr>ns_exited = {}, ns_last_waiting = Map.empty, ns_pending = []\<rparr>"

definition should_deliver :: "instant \<Rightarrow> string \<Rightarrow> string \<Rightarrow> notifier_state \<Rightarrow> notifier_state \<times> bool" where
  "should_deliver now ev sid st =
     (if ev = ''sessionExited'' then (st\<lparr>ns_exited := insert sid (ns_exited st)\<rparr>, sid \<notin> ns_exited st)
      else if ev = ''waitingInput'' then
        (if (case ns_last_waiting st sid of Some t \<Rightarrow> since now t < WAITING_INPUT_DEDUPE | None \<Rightarrow> False)
         then (st, False) else (st\<lparr>ns_last_waiting := (ns_last_waiting st)(sid \<mapsto> now)\<rparr>, True))
      else if ev = ''cleanup'' then
        (st\<lparr>ns_exited := ns_exited st - {sid}, ns_last_waiting := (ns_last_waiting st)(sid := None)\<rparr>, True)
      else (st, True))"

datatype notification = WaitingInputNotice string | ExitNotice string int | CleanupNotice string

definition dispatch_notifier ::
  "instant \<Rightarrow> string \<times> string \<times> int option \<Rightarrow> notifier_state \<Rightarrow> notifier_state \<times> notification list" where
  "dispatch_notifier now e st =
     (let (ev, sid, code) = e; (st', deliver) = should_deliver now ev sid st
      in (st', if \<not> deliver then []
               else if ev = ''waitingInput'' then [WaitingInputNotice sid]
               else if ev = ''sessionExited'' then [ExitNotice sid (case code of Some c \<Rightarrow> c | None \<Rightarrow> -1)]
               else if ev = ''cleanup'' then [CleanupNotice sid]
               else []))"

fun dispatch_all ::
  "instant \<Rightarrow> (string \<times> string \<times> int option) list \<Rightarrow> notifier_state \<Rightarrow> notifier_state \<times> notification list" where
  "dispatch_all now [] st = (st, [])"
| "dispatch_all now (e # es) st =
     (let (st, ns) = dispatch_notifier now e st; (st, ns') = dispatch_all now es st in (st, ns @ ns'))"

text \<open>\<open>registered\<close>: whether the application has registered its notifier yet.\<close>

definition apply_notifier_event ::
  "bool \<Rightarrow> instant \<Rightarrow> string \<times> string \<times> int option \<Rightarrow> notifier_state \<Rightarrow> notifier_state \<times> notification list" where
  "apply_notifier_event registered now e st =
     (if \<not> registered then (st\<lparr>ns_pending := ns_pending st @ [e]\<rparr>, [])
      else dispatch_all now (ns_pending st @ [e]) (st\<lparr>ns_pending := []\<rparr>))"

subsection \<open>Identity events\<close>

definition identity_key :: "json \<Rightarrow> (string \<times> string) option" where
  "identity_key payload =
     (case (get_str ''sessionId'' payload, get_str ''resumeSessionId'' payload) of
        (Some sid, Some rid) \<Rightarrow> Some (sid, rid) | _ \<Rightarrow> None)"

text \<open>\<open>parse_resume_payload\<close>: the required fields are strings, the optional ones strings or null.\<close>

definition opt_str_field :: "json \<Rightarrow> string \<Rightarrow> bool" where
  "opt_str_field payload key =
     (case json_get key payload of None \<Rightarrow> True | Some JNull \<Rightarrow> True | Some (JString _) \<Rightarrow> True | Some _ \<Rightarrow> False)"

definition parses_as_payload :: "json \<Rightarrow> bool" where
  "parses_as_payload payload \<longleftrightarrow>
     get_str ''sessionId'' payload \<noteq> None \<and> get_str ''resumeSessionId'' payload \<noteq> None
     \<and> get_str ''source'' payload \<noteq> None
     \<and> list_all (opt_str_field payload)
         [''cliTool'', ''runtimeKind'', ''launchId'', ''projectPath'', ''workspacePath'', ''wslDistro'']"

subsection \<open>The link task\<close>

definition RECONNECT_MIN :: duration where
  "RECONNECT_MIN = from_secs 1"

definition RECONNECT_MAX :: duration where
  "RECONNECT_MAX = from_secs 60"

record control_link =
  cl_up :: bool
  cl_backoff :: duration
  cl_hidden :: "string list option watch"
  cl_urls :: "(string \<times> string) list option watch"
  cl_acks :: "acks watch"
  cl_applied :: "(string \<times> string) set"
  cl_ack_queue :: "(string \<times> string) list"
  cl_tasks :: "json list list"
  cl_bound :: "json list"
  cl_notifier :: notifier_state
  cl_sent :: "uplink list"

definition link_new :: control_link where
  "link_new = \<lparr>cl_up = False, cl_backoff = RECONNECT_MIN, cl_hidden = watch_new None, cl_urls = watch_new None,
     cl_acks = watch_new [], cl_applied = {}, cl_ack_queue = [], cl_tasks = [], cl_bound = [],
     cl_notifier = notifier_new, cl_sent = []\<rparr>"

text \<open>What other parts of the application tell the link (\<open>report_hidden_sessions\<close>,
  \<open>report_shared_mcp_urls\<close>, \<open>report_output_ack\<close>).\<close>

definition report_hidden_sessions :: "string list \<Rightarrow> control_link \<Rightarrow> control_link" where
  "report_hidden_sessions sids l = l\<lparr>cl_hidden := send_modify (\<lambda>_. Some sids) (cl_hidden l)\<rparr>"

definition report_shared_mcp_urls :: "(string \<times> string) list \<Rightarrow> control_link \<Rightarrow> control_link" where
  "report_shared_mcp_urls urls l = l\<lparr>cl_urls := send_modify (\<lambda>_. Some urls) (cl_urls l)\<rparr>"

definition report_output_ack :: "string \<Rightarrow> 64 word \<Rightarrow> control_link \<Rightarrow> control_link" where
  "report_output_ack sid n l = l\<lparr>cl_acks := merge_output_ack sid n (cl_acks l)\<rparr>"

text \<open>\<open>apply_resume_binding\<close> spawns a task for a payload that parses; \<open>replay_identity_events\<close>
  spawns one task for all events that it has not applied yet, and acknowledges the others again.\<close>

definition apply_resume_binding :: "json \<Rightarrow> control_link \<Rightarrow> control_link" where
  "apply_resume_binding payload l =
     (if parses_as_payload payload then l\<lparr>cl_tasks := cl_tasks l @ [[payload]]\<rparr> else l)"

fun split_applied ::
  "json list \<Rightarrow> (string \<times> string) set \<Rightarrow> json list \<times> (string \<times> string) list \<times> (string \<times> string) set" where
  "split_applied [] known = ([], [], known)"
| "split_applied (p # ps) known =
     (case identity_key p of
        None \<Rightarrow> (let (fresh, old, known) = split_applied ps known in (p # fresh, old, known))
      | Some key \<Rightarrow>
          if key \<notin> known then
            (let (fresh, old, known) = split_applied ps (insert key known) in (p # fresh, old, known))
          else (let (fresh, old, known) = split_applied ps known in (fresh, key # old, known)))"

definition replay_identity_events :: "string + json list \<Rightarrow> control_link \<Rightarrow> control_link" where
  "replay_identity_events reply l =
     (case reply of
        Inl e \<Rightarrow> l
      | Inr events \<Rightarrow>
          (let (fresh, old, known) = split_applied events (cl_applied l);
               l = l\<lparr>cl_applied := known, cl_ack_queue := cl_ack_queue l @ old\<rparr>
           in if fresh = [] then l else l\<lparr>cl_tasks := cl_tasks l @ [fresh]\<rparr>))"

text \<open>One step of the binding task \<open>i\<close>: it binds its next payload and queues the acknowledgement.\<close>

definition bind_step :: "nat \<Rightarrow> control_link \<Rightarrow> control_link" where
  "bind_step i l =
     (if i < length (cl_tasks l) \<and> cl_tasks l ! i \<noteq> [] then
        (let p = hd (cl_tasks l ! i); l = l\<lparr>cl_tasks := (cl_tasks l)[i := tl (cl_tasks l ! i)]\<rparr>
         in if \<not> parses_as_payload p then l
            else l\<lparr>cl_bound := cl_bound l @ [p],
                   cl_ack_queue := cl_ack_queue l @ (case identity_key p of Some key \<Rightarrow> [key] | None \<Rightarrow> [])\<rparr>)
      else l)"

text \<open>A message is sent; a failed send ends the connection (the task breaks out of its loop).\<close>

definition link_down :: "control_link \<Rightarrow> control_link" where
  "link_down l = l\<lparr>cl_up := False\<rparr>"

definition send_uplink :: "bool \<Rightarrow> uplink \<Rightarrow> control_link \<Rightarrow> control_link" where
  "send_uplink sent_ok m l = (if sent_ok then l\<lparr>cl_sent := cl_sent l @ [m]\<rparr> else link_down l)"

text \<open>A new connection: identity events are replayed, the latest hidden set and URL table are sent
  again (a failure there is only logged), and acknowledgements that are pending are not sent.\<close>

definition link_connected :: "string + json list \<Rightarrow> bool \<Rightarrow> bool \<Rightarrow> control_link \<Rightarrow> control_link" where
  "link_connected events hidden_ok urls_ok l =
     (let l = replay_identity_events events (l\<lparr>cl_up := True, cl_backoff := RECONNECT_MIN, cl_sent := []\<rparr>);
          l = l\<lparr>cl_acks := mark_unchanged (cl_acks l), cl_hidden := mark_unchanged (cl_hidden l)\<rparr>;
          l = (case wa_value (cl_hidden l) of
                 Some sids \<Rightarrow> (if hidden_ok then l\<lparr>cl_sent := cl_sent l @ [HiddenSessions sids]\<rparr> else l)
               | None \<Rightarrow> l);
          l = l\<lparr>cl_urls := mark_unchanged (cl_urls l)\<rparr>
      in (case wa_value (cl_urls l) of
            Some urls \<Rightarrow> (if urls_ok then l\<lparr>cl_sent := cl_sent l @ [SharedMcpUrls urls]\<rparr> else l)
          | None \<Rightarrow> l))"

datatype link_effect =
    ShowEvent control_event
  | Notified notification
  | Pause duration

record link_env =
  le_now :: instant
  le_webview :: bool
  le_notifier :: bool

datatype link_input =
    Connect "string + json list" bool bool
  | ConnectFailed
  | ClientReplaced
  | HiddenChanged bool
  | UrlsChanged bool
  | AcksChanged bool
  | AckQueueReady bool
  | Received "daemon_control_message option"
  | SocketEnded
  | BindStep nat

text \<open>The pause before the next attempt, and the doubling of the backoff.\<close>

definition pause_step :: "control_link \<Rightarrow> control_link \<times> link_effect list" where
  "pause_step l = (l\<lparr>cl_backoff := min (cl_backoff l * 2) RECONNECT_MAX\<rparr>, [Pause (cl_backoff l)])"

definition broken :: "control_link \<Rightarrow> control_link \<times> link_effect list" where
  "broken l = (if cl_up l then (l, []) else pause_step l)"

definition receive_message ::
  "link_env \<Rightarrow> daemon_control_message option \<Rightarrow> control_link \<Rightarrow> control_link \<times> link_effect list" where
  "receive_message env m l =
     (case Option.bind m parse_control_event of
        None \<Rightarrow> (l, [])
      | Some (EmitEvent ev) \<Rightarrow> (l, if le_webview env then [ShowEvent ev] else [])
      | Some (BindResume payload) \<Rightarrow>
          (apply_resume_binding payload
             (l\<lparr>cl_applied := (case identity_key payload of Some key \<Rightarrow> insert key (cl_applied l) | None \<Rightarrow> cl_applied l)\<rparr>), [])
      | Some (Notify ev sid code) \<Rightarrow>
          (let (ns, calls) = apply_notifier_event (le_notifier env) (le_now env) (ev, sid, code) (cl_notifier l)
           in (l\<lparr>cl_notifier := ns\<rparr>, map Notified calls)))"

text \<open>An input that the task does not wait for in its present state leaves it alone.\<close>

fun link_step :: "link_env \<Rightarrow> link_input \<Rightarrow> control_link \<Rightarrow> control_link \<times> link_effect list" where
  "link_step env (Connect events hidden_ok urls_ok) l =
     (if cl_up l then (l, []) else (link_connected events hidden_ok urls_ok l, []))"
| "link_step env ConnectFailed l = (if cl_up l then (l, []) else pause_step l)"
| "link_step env ClientReplaced l = ((link_down l)\<lparr>cl_backoff := RECONNECT_MIN\<rparr>, [])"
| "link_step env (HiddenChanged ok) l =
     (if \<not> cl_up l \<or> \<not> watch_changed (cl_hidden l) then (l, [])
      else (let l = l\<lparr>cl_hidden := mark_unchanged (cl_hidden l)\<rparr>
            in case wa_value (cl_hidden l) of
                 Some sids \<Rightarrow> broken (send_uplink ok (HiddenSessions sids) l)
               | None \<Rightarrow> (l, [])))"
| "link_step env (UrlsChanged ok) l =
     (if \<not> cl_up l \<or> \<not> watch_changed (cl_urls l) then (l, [])
      else (let l = l\<lparr>cl_urls := mark_unchanged (cl_urls l)\<rparr>
            in case wa_value (cl_urls l) of
                 Some urls \<Rightarrow> broken (send_uplink ok (SharedMcpUrls urls) l)
               | None \<Rightarrow> (l, [])))"
| "link_step env (AcksChanged ok) l =
     (if \<not> cl_up l \<or> \<not> watch_changed (cl_acks l) then (l, [])
      else (let (w, pending) = drain_output_acks_from (mark_unchanged (cl_acks l)); l = l\<lparr>cl_acks := w\<rparr>
            in if pending \<noteq> [] then broken (send_uplink ok (OutputAcks pending) l) else (l, [])))"
| "link_step env (AckQueueReady ok) l =
     (if \<not> cl_up l \<or> cl_ack_queue l = [] then (l, [])
      else broken (send_uplink ok (IdentityAcks (cl_ack_queue l)) (l\<lparr>cl_ack_queue := []\<rparr>)))"
| "link_step env (Received m) l = (if cl_up l then receive_message env m l else (l, []))"
| "link_step env SocketEnded l = (if cl_up l then pause_step (link_down l) else (l, []))"
| "link_step env (BindStep i) l = (bind_step i l, [])"

subsection \<open>The daemon's end of the link\<close>

record control_daemon =
  cd_emitter :: emitter
  cd_gates :: "string \<Rightarrow> gate option"
  cd_urls :: "(string \<times> string) list option"

definition ack_terminal_output :: "instant \<Rightarrow> string \<Rightarrow> 64 word \<Rightarrow> control_daemon \<Rightarrow> control_daemon" where
  "ack_terminal_output now sid n d =
     (case cd_gates d sid of
        Some g \<Rightarrow> d\<lparr>cd_gates := (cd_gates d)(sid \<mapsto> fst (note_acked now n g))\<rparr>
      | None \<Rightarrow> d)"

fun control_inbound :: "Ws_Emitter.env \<Rightarrow> bool \<Rightarrow> string \<Rightarrow> instant \<Rightarrow> uplink \<Rightarrow> control_daemon \<Rightarrow> control_daemon" where
  "control_inbound ev desktop conn now (HiddenSessions sids) d =
     d\<lparr>cd_emitter := set_hidden_sessions ev conn sids (cd_emitter d)\<rparr>"
| "control_inbound ev desktop conn now (IdentityAcks keys) d =
     d\<lparr>cd_emitter := ack_identity_events keys (cd_emitter d)\<rparr>"
| "control_inbound ev desktop conn now (OutputAcks entries) d =
     fold (\<lambda>(sid, n). ack_terminal_output now sid n) entries d"
| "control_inbound ev desktop conn now (SharedMcpUrls urls) d =
     (if desktop then d\<lparr>cd_urls := Some urls\<rparr> else d)"

definition control_end :: "bool \<Rightarrow> string \<Rightarrow> control_daemon \<Rightarrow> control_daemon" where
  "control_end desktop conn d =
     d\<lparr>cd_emitter := clear_connection_hidden conn (cd_emitter d),
       cd_urls := (if desktop then None else cd_urls d)\<rparr>"

subsection \<open>Runs of the link\<close>

datatype link_call =
    ReportHidden "string list"
  | ReportUrls "(string \<times> string) list"
  | ReportAck string "64 word"
  | Input link_env link_input

fun link_exec :: "link_call \<Rightarrow> control_link \<Rightarrow> control_link \<times> link_effect list" where
  "link_exec (ReportHidden sids) l = (report_hidden_sessions sids l, [])"
| "link_exec (ReportUrls urls) l = (report_shared_mcp_urls urls l, [])"
| "link_exec (ReportAck sid n) l = (report_output_ack sid n l, [])"
| "link_exec (Input env i) l = link_step env i l"

definition link_after :: "link_call list \<Rightarrow> control_link \<Rightarrow> control_link" where
  "link_after cs l = fold (\<lambda>c l. fst (link_exec c l)) cs l"

lemma link_after_simps [simp]:
  "link_after [] l = l" "link_after (c # cs) l = link_after cs (fst (link_exec c l))"
  "link_after (xs @ ys) l = link_after ys (link_after xs l)"
  by (simp_all add: link_after_def)

subsubsection \<open>The acknowledgement channel goes quiet\<close>

text \<open>How often the task is woken by the channel of acknowledgements.\<close>

fun wakes_on :: "link_call \<Rightarrow> control_link \<Rightarrow> bool" where
  "wakes_on (Input env (AcksChanged ok)) l = (cl_up l \<and> watch_changed (cl_acks l))"
| "wakes_on _ l = False"

fun ack_wakes :: "link_call list \<Rightarrow> control_link \<Rightarrow> nat" where
  "ack_wakes [] l = 0"
| "ack_wakes (c # cs) l = of_bool (wakes_on c l) + ack_wakes cs (fst (link_exec c l))"

fun reports_ack :: "link_call \<Rightarrow> bool" where
  "reports_ack (ReportAck sid n) = True"
| "reports_ack _ = False"

text \<open>The wake-ups the channel still owes.\<close>

definition owed :: "acks watch \<Rightarrow> nat" where
  "owed w = (if \<not> watch_changed w then 0 else if wa_value w = [] then 1 else 2)"

lemma send_uplink_frame [frame]:
  "cl_acks (send_uplink ok m l) = cl_acks l" "cl_hidden (send_uplink ok m l) = cl_hidden l"
  "cl_applied (send_uplink ok m l) = cl_applied l" "cl_tasks (send_uplink ok m l) = cl_tasks l"
  "cl_bound (send_uplink ok m l) = cl_bound l" "cl_ack_queue (send_uplink ok m l) = cl_ack_queue l"
  by (simp_all add: send_uplink_def link_down_def)

lemma broken_frame [frame]:
  "cl_acks (fst (broken l)) = cl_acks l" "cl_applied (fst (broken l)) = cl_applied l"
  "cl_tasks (fst (broken l)) = cl_tasks l" "cl_bound (fst (broken l)) = cl_bound l"
  "cl_ack_queue (fst (broken l)) = cl_ack_queue l" "cl_up (fst (broken l)) = cl_up l"
  "cl_sent (fst (broken l)) = cl_sent l"
  by (simp_all add: broken_def pause_step_def)

lemma replay_frame [frame]:
  "cl_acks (replay_identity_events r l) = cl_acks l" "cl_up (replay_identity_events r l) = cl_up l"
  "cl_sent (replay_identity_events r l) = cl_sent l" "cl_bound (replay_identity_events r l) = cl_bound l"
  by (simp_all add: replay_identity_events_def Let_def split: sum.split prod.split)

lemma link_connected_frame [frame]:
  "cl_acks (link_connected ev h u l) = mark_unchanged (cl_acks l)"
  "cl_bound (link_connected ev h u l) = cl_bound l"
  "cl_applied (link_connected ev h u l) = cl_applied (replay_identity_events ev l)"
  "cl_tasks (link_connected ev h u l) = cl_tasks (replay_identity_events ev l)"
  "cl_up (link_connected ev h u l)"
  by (simp_all add: link_connected_def Let_def frame split: option.split)
    (simp_all add: replay_identity_events_def Let_def split: sum.split prod.split)

lemma bind_step_frame [frame]: "cl_acks (bind_step i l) = cl_acks l" "cl_applied (bind_step i l) = cl_applied l"
  by (simp_all add: bind_step_def Let_def)

lemma receive_frame [frame]:
  "cl_acks (fst (receive_message env m l)) = cl_acks l" "cl_bound (fst (receive_message env m l)) = cl_bound l"
  by (auto simp: receive_message_def apply_resume_binding_def Let_def split: option.split control_action.split prod.split)

lemma owed_step: "owed (cl_acks (fst (link_exec c l))) + of_bool (wakes_on c l) \<le> owed (cl_acks l) + (if reports_ack c then 2 else 0)"
proof (cases c)
  case (Input env i)
  then show ?thesis
    by (cases i) (auto simp: frame owed_def watch_changed_def mark_unchanged_def drain_output_acks_from_def
        send_if_modified_def pause_step_def link_down_def Let_def split: option.split)
qed (auto simp: owed_def report_hidden_sessions_def report_shared_mcp_urls_def)

text \<open>The channel of output acknowledgements never keeps the link task awake by itself: however
  the inputs are interleaved, the task is woken by it at most twice for each reported
  acknowledgement (and at most twice for what was pending before), so without new reports it comes
  to rest.\<close>

theorem ack_wakes_bounded:
  "ack_wakes cs l \<le> 2 * length (filter reports_ack cs) + 2"
proof -
  have "ack_wakes cs l + owed (cl_acks (link_after cs l)) \<le> 2 * length (filter reports_ack cs) + owed (cl_acks l)"
  proof (induction cs arbitrary: l)
    case (Cons c cs)
    show ?case using Cons.IH [of "fst (link_exec c l)"] owed_step [of c l]
      by (cases "reports_ack c"; cases "wakes_on c l") simp_all
  qed simp
  moreover have "owed (cl_acks l) \<le> 2" by (simp add: owed_def)
  ultimately show ?thesis by linarith
qed

subsubsection \<open>Acknowledgements reach the gate\<close>

definition ack_for :: "string \<Rightarrow> acks \<Rightarrow> 64 word" where
  "ack_for sid pending = (case map_of pending sid of Some n \<Rightarrow> n | None \<Rightarrow> 0)"

fun uplink_ack :: "string \<Rightarrow> uplink \<Rightarrow> 64 word" where
  "uplink_ack sid (OutputAcks entries) = ack_for sid entries"
| "uplink_ack sid _ = 0"

fun reported_ack :: "string \<Rightarrow> link_call \<Rightarrow> 64 word" where
  "reported_ack sid (ReportAck s n) = (if s = sid then n else 0)"
| "reported_ack sid _ = 0"

text \<open>The largest of some positions.\<close>

definition peak :: "64 word list \<Rightarrow> 64 word" where
  "peak ns = foldr max ns 0"

lemma peak_simps [simp]: "peak [] = 0" "peak (n # ns) = max n (peak ns)" "peak (xs @ ys) = max (peak xs) (peak ys)"
proof -
  show "peak (xs @ ys) = max (peak xs) (peak ys)"
    by (induction xs) (simp_all add: peak_def max.assoc)
qed (simp_all add: peak_def)

text \<open>A call on which the link stays up and no send fails.\<close>

fun keeps_link :: "link_call \<Rightarrow> bool" where
  "keeps_link (Input env i) =
     (case i of Connect _ _ _ \<Rightarrow> False | ConnectFailed \<Rightarrow> False | ClientReplaced \<Rightarrow> False | SocketEnded \<Rightarrow> False
      | HiddenChanged ok \<Rightarrow> ok | UrlsChanged ok \<Rightarrow> ok | AcksChanged ok \<Rightarrow> ok | AckQueueReady ok \<Rightarrow> ok | _ \<Rightarrow> True)"
| "keeps_link _ = True"

definition acks_seen :: "string \<Rightarrow> control_link \<Rightarrow> 64 word" where
  "acks_seen sid l = max (peak (map (uplink_ack sid) (cl_sent l))) (ack_for sid (wa_value (cl_acks l)))"

lemma ack_for_merge:
  "ack_for sid (wa_value (merge_output_ack s n w)) =
     (if s = sid then max n (ack_for sid (wa_value w)) else ack_for sid (wa_value w))"
  by (auto simp: merge_output_ack_def send_modify_def send_if_modified_def ack_for_def update_conv' max_def Let_def
      split: option.splits)

lemma receive_link_frame [frame]:
  "cl_up (fst (receive_message env m l)) = cl_up l" "cl_sent (fst (receive_message env m l)) = cl_sent l"
  by (auto simp: receive_message_def apply_resume_binding_def Let_def split: option.split control_action.split prod.split)

lemma bind_link_frame [frame]: "cl_up (bind_step i l) = cl_up l" "cl_sent (bind_step i l) = cl_sent l"
  by (simp_all add: bind_step_def Let_def)

lemma acks_seen_step:
  assumes "keeps_link c" and "cl_up l"
  shows "cl_up (fst (link_exec c l)) \<and> acks_seen sid (fst (link_exec c l)) = max (reported_ack sid c) (acks_seen sid l)"
proof (cases c)
  case (ReportAck s n)
  then show ?thesis using assms(2)
    by (simp add: report_output_ack_def acks_seen_def ack_for_merge max.left_commute)
next
  case (Input env i)
  then show ?thesis using assms
    by (cases i) (auto simp: frame acks_seen_def broken_def send_uplink_def mark_unchanged_def drain_output_acks_from_def
        send_if_modified_def ack_for_def Let_def max.commute split: option.split)
qed (use assms(2) in \<open>simp_all add: acks_seen_def report_hidden_sessions_def report_shared_mcp_urls_def\<close>)

lemma acks_seen_run:
  assumes "list_all keeps_link cs" and "cl_up l"
  shows "acks_seen sid (link_after cs l) = max (peak (map (reported_ack sid) cs)) (acks_seen sid l)"
  using assms
proof (induction cs arbitrary: l)
  case (Cons c cs)
  then show ?case using acks_seen_step [of c l sid] by (simp add: max.assoc max.left_commute)
qed simp

text \<open>The gate of a session after the daemon has handled the messages of a connection.\<close>

definition daemon_after :: "Ws_Emitter.env \<Rightarrow> bool \<Rightarrow> string \<Rightarrow> instant \<Rightarrow> uplink list \<Rightarrow> control_daemon \<Rightarrow> control_daemon" where
  "daemon_after ev desktop conn now ms d = fold (control_inbound ev desktop conn now) ms d"

definition gate_acked :: "string \<Rightarrow> control_daemon \<Rightarrow> (64 word \<times> 64 word) option" where
  "gate_acked sid d = map_option (\<lambda>g. (g_acked g, g_sent g)) (cd_gates d sid)"

lemma gate_acked_ack:
  "gate_acked sid (ack_terminal_output now s n d) =
     (if s = sid then map_option (\<lambda>(a, b). (max a (min n b), b)) (gate_acked sid d) else gate_acked sid d)"
  by (auto simp: gate_acked_def ack_terminal_output_def note_acked_fields split: option.split)

lemma gate_acked_entries:
  "distinct (map fst entries) \<Longrightarrow> gate_acked sid (fold (\<lambda>(s, n). ack_terminal_output now s n) entries d) =
     map_option (\<lambda>(a, b). (max a (min (ack_for sid entries) b), b)) (gate_acked sid d)"
proof (induction entries arbitrary: d)
  case Nil
  then show ?case by (cases "gate_acked sid d") (auto simp: ack_for_def max_def)
next
  case (Cons e es)
  obtain s n where e: "e = (s, n)" by fastforce
  show ?case
  proof (cases "s = sid")
    case True
    then have "map_of es sid = None" using Cons.prems e by (auto simp: map_of_eq_None_iff)
    then show ?thesis using Cons e True
      by (cases "gate_acked sid d") (auto simp: gate_acked_ack ack_for_def max_def min_def)
  next
    case False
    then show ?thesis using Cons e by (simp add: gate_acked_ack ack_for_def)
  qed
qed

fun acks_distinct :: "uplink \<Rightarrow> bool" where
  "acks_distinct (OutputAcks entries) = distinct (map fst entries)"
| "acks_distinct _ = True"

lemma min_max_word: "max (max a (min n b)) (min k b) = max a (min (max n k) (b :: 64 word))"
  by (auto simp: max_def min_def)

lemma gate_acked_messages:
  "list_all acks_distinct ms \<Longrightarrow> gate_acked sid d = Some (a, b) \<Longrightarrow>
     gate_acked sid (daemon_after ev desktop conn now ms d) = Some (max a (min (peak (map (uplink_ack sid) ms)) b), b)"
proof (induction ms arbitrary: d a)
  case Nil
  then show ?case by (simp add: daemon_after_def max_def)
next
  case (Cons m ms)
  let ?d = "control_inbound ev desktop conn now m d"
  have "gate_acked sid ?d = Some (max a (min (uplink_ack sid m) b), b)"
  proof (cases m)
    case (OutputAcks entries)
    then show ?thesis using Cons.prems gate_acked_entries [of entries sid now d] by simp
  qed (use Cons.prems in \<open>simp_all add: gate_acked_def max_def\<close>)
  from Cons.IH [OF _ this] Cons.prems(1) show ?case by (simp add: daemon_after_def min_max_word)
qed

lemma distinct_step:
  assumes "list_all acks_distinct (cl_sent l)" and "distinct (map fst (wa_value (cl_acks l)))" and "keeps_link c"
  shows "list_all acks_distinct (cl_sent (fst (link_exec c l))) \<and> distinct (map fst (wa_value (cl_acks (fst (link_exec c l)))))"
proof (cases c)
  case (Input env i)
  then show ?thesis using assms
    by (cases i) (auto simp: frame send_uplink_def mark_unchanged_def drain_output_acks_from_def send_if_modified_def
        broken_def pause_step_def link_down_def Let_def split: option.split)
qed (use assms in \<open>simp_all add: report_output_ack_def merge_output_ack_def send_modify_def send_if_modified_def
    distinct_update report_hidden_sessions_def report_shared_mcp_urls_def Let_def\<close>)

lemma distinct_run:
  "list_all keeps_link cs \<Longrightarrow> list_all acks_distinct (cl_sent l) \<Longrightarrow> distinct (map fst (wa_value (cl_acks l))) \<Longrightarrow>
     list_all acks_distinct (cl_sent (link_after cs l))"
proof (induction cs arbitrary: l)
  case (Cons c cs)
  then show ?case using distinct_step [of l c] by simp
qed simp

text \<open>The acknowledgements of the web view reach the gates of the daemon: on a connection that
  stays up, once the channel has been emptied, each gate stands at the largest position that was
  ever reported for its session (capped by what it has sent), however the reports were merged into
  messages.\<close>

theorem acks_reach_gate:
  assumes "list_all keeps_link cs" and "cl_up l0" and "cl_sent l0 = []" and "wa_value (cl_acks l0) = []"
    and "l = link_after cs l0" and "wa_value (cl_acks l) = []" and "gate_acked sid d = Some (a, b)"
  shows "gate_acked sid (daemon_after ev desktop conn now (cl_sent l) d)
    = Some (max a (min (peak (map (reported_ack sid) cs)) b), b)"
proof -
  have "peak (map (uplink_ack sid) (cl_sent l)) = peak (map (reported_ack sid) cs)"
    using acks_seen_run [OF assms(1,2), of sid] assms(3-6) by (simp add: acks_seen_def ack_for_def max_def split: if_splits)
  moreover have "list_all acks_distinct (cl_sent l)"
    using distinct_run [OF assms(1), of l0] assms(3-5) by simp
  ultimately show ?thesis using gate_acked_messages [OF _ assms(7)] by simp
qed

definition demo_link_env :: link_env where
  "demo_link_env = \<lparr>le_now = 0, le_webview = True, le_notifier = True\<rparr>"

theorem acks_reach_gate_witness:
  "gate_acked ''s'' (daemon_after open_env True ''c'' 0
      (cl_sent (link_after [ReportAck ''s'' 7, ReportAck ''s'' 5, Input demo_link_env (AcksChanged True)]
        (link_connected (Inr []) True True link_new)))
      \<lparr>cd_emitter = emitter_new, cd_gates = [''s'' \<mapsto> (gate_new\<lparr>g_sent := 9\<rparr>)], cd_urls = None\<rparr>) = Some (7, 9)"
proof -
  let ?cs = "[ReportAck ''s'' 7, ReportAck ''s'' 5, Input demo_link_env (AcksChanged True)]"
  let ?d = "\<lparr>cd_emitter = emitter_new, cd_gates = [''s'' \<mapsto> (gate_new\<lparr>g_sent := 9\<rparr>)], cd_urls = None\<rparr>"
  let ?l0 = "link_connected (Inr []) True True link_new"
  have l0: "cl_up ?l0" "cl_sent ?l0 = []" "wa_value (cl_acks ?l0) = []"
    by (simp_all add: link_connected_def link_new_def replay_identity_events_def mark_unchanged_def watch_new_def Let_def)
  have "wa_value (cl_acks (link_after ?cs ?l0)) = []"
    by (simp add: link_connected_def link_new_def replay_identity_events_def mark_unchanged_def watch_new_def
        report_output_ack_def merge_output_ack_def send_modify_def send_if_modified_def watch_changed_def
        drain_output_acks_from_def broken_def send_uplink_def Let_def)
  moreover have "gate_acked ''s'' ?d = Some (0, 9)"
    by (simp add: gate_acked_def gate_new_def gate_with_park_def gate_with_failsafe_def)
  ultimately show ?thesis
    using acks_reach_gate [OF _ l0 refl, of ?cs "''s''" ?d 0 9 open_env True "''c''" 0]
    by (simp add: max_def min_def word_le_nat_alt word_less_nat_alt)
qed

subsubsection \<open>Identity events are bound at least once\<close>

fun sound_payloads :: "link_call \<Rightarrow> bool" where
  "sound_payloads (Input env (Received (Some (DcResumeIdDetected p)))) = parses_as_payload p"
| "sound_payloads (Input env (Connect (Inr events) h u)) = list_all parses_as_payload events"
| "sound_payloads _ = True"

definition in_hand :: "control_link \<Rightarrow> json set" where
  "in_hand l = set (cl_bound l) \<union> set (concat (cl_tasks l))"

text \<open>Every key that counts as applied belongs to a payload that is bound or about to be.\<close>

definition covered :: "(string \<times> string) set \<Rightarrow> json set \<Rightarrow> bool" where
  "covered keys ps \<longleftrightarrow> keys \<subseteq> {key. \<exists>p \<in> ps. identity_key p = Some key \<and> parses_as_payload p}"

lemma covered_mono: "covered keys ps \<Longrightarrow> ps \<subseteq> qs \<Longrightarrow> covered keys qs"
  by (auto simp: covered_def)

lemma split_applied_covers:
  assumes "split_applied ps known = (fresh, old, known')" and "list_all parses_as_payload ps"
  shows "known' \<subseteq> known \<union> {key. \<exists>p \<in> set fresh. identity_key p = Some key \<and> parses_as_payload p}
    \<and> known \<subseteq> known' \<and> (\<forall>p \<in> set ps. \<forall>key. identity_key p = Some key \<longrightarrow> key \<in> known')"
  using assms
proof (induction ps known arbitrary: fresh old known' rule: split_applied.induct)
  case (2 p ps known)
  show ?case
  proof (cases "identity_key p")
    case None
    then show ?thesis using 2 by (fastforce split: prod.splits)
  next
    case (Some key)
    show ?thesis
    proof (cases "key \<in> known")
      case True
      obtain f od k where r: "split_applied ps known = (f, od, k)" by (metis prod_cases3)
      from 2(3)[OF Some] True r have "k \<subseteq> known \<union> {key. \<exists>p \<in> set f. identity_key p = Some key \<and> parses_as_payload p}
        \<and> known \<subseteq> k \<and> (\<forall>p \<in> set ps. \<forall>key. identity_key p = Some key \<longrightarrow> key \<in> k)" using 2(5) by simp
      then show ?thesis using 2(4) Some True r by auto
    next
      case False
      obtain f od k where r: "split_applied ps (insert key known) = (f, od, k)" by (metis prod_cases3)
      from 2(2)[OF Some] False r have "k \<subseteq> insert key known \<union> {key. \<exists>p \<in> set f. identity_key p = Some key \<and> parses_as_payload p}
        \<and> insert key known \<subseteq> k \<and> (\<forall>p \<in> set ps. \<forall>key. identity_key p = Some key \<longrightarrow> key \<in> k)" using 2(5) by simp
      then show ?thesis using 2(4,5) Some False r by auto
    qed
  qed
qed simp

lemma replay_covered:
  assumes "covered (cl_applied l) (in_hand l)" and "list_all parses_as_payload events"
  shows "covered (cl_applied (replay_identity_events (Inr events) l)) (in_hand (replay_identity_events (Inr events) l))
    \<and> cl_applied l \<subseteq> cl_applied (replay_identity_events (Inr events) l)
    \<and> (\<forall>p \<in> set events. \<forall>key. identity_key p = Some key \<longrightarrow> key \<in> cl_applied (replay_identity_events (Inr events) l))"
proof -
  obtain fresh old known where s: "split_applied events (cl_applied l) = (fresh, old, known)" by (metis prod_cases3)
  let ?l = "replay_identity_events (Inr events) l"
  have hand: "in_hand ?l = in_hand l \<union> set fresh" and known: "cl_applied ?l = known"
    using s by (auto simp: replay_identity_events_def in_hand_def Let_def)
  note split = split_applied_covers [OF s assms(2)]
  have "covered known (in_hand l \<union> set fresh)"
    using conjunct1 [OF split] assms(1) unfolding covered_def by blast
  then show ?thesis using split unfolding hand known by blast
qed

lemma bind_step_keeps:
  assumes "q \<in> in_hand l" and "parses_as_payload q"
  shows "q \<in> in_hand (bind_step i l)"
proof (cases "i < length (cl_tasks l) \<and> cl_tasks l ! i \<noteq> []")
  case True
  let ?p = "hd (cl_tasks l ! i)"
  have "set (concat (cl_tasks l)) \<subseteq> insert ?p (set (concat ((cl_tasks l)[i := tl (cl_tasks l ! i)])))"
  proof
    fix q assume "q \<in> set (concat (cl_tasks l))"
    then obtain j where j: "j < length (cl_tasks l)" "q \<in> set (cl_tasks l ! j)"
      by (auto simp: in_set_conv_nth) (metis in_set_conv_nth)
    show "q \<in> insert ?p (set (concat ((cl_tasks l)[i := tl (cl_tasks l ! i)])))"
    proof (cases "j = i")
      case True
      then have "q = ?p \<or> q \<in> set (tl (cl_tasks l ! i))" using j by (cases "cl_tasks l ! i") auto
      moreover have "tl (cl_tasks l ! i) \<in> set ((cl_tasks l)[i := tl (cl_tasks l ! i)])"
        using \<open>i < length (cl_tasks l) \<and> _\<close> by (simp add: set_update_memI)
      ultimately show ?thesis by auto
    next
      case False
      then have "cl_tasks l ! j \<in> set ((cl_tasks l)[i := tl (cl_tasks l ! i)])"
        using j(1) by (metis length_list_update nth_list_update_neq nth_mem)
      then show ?thesis using j(2) by auto
    qed
  qed
  then show ?thesis
    using assms True by (cases "parses_as_payload ?p") (auto simp: in_hand_def bind_step_def Let_def)
next
  case False
  then have "bind_step i l = l" by (auto simp: bind_step_def)
  with assms show ?thesis by simp
qed

lemma bind_step_in_hand: "covered keys (in_hand l) \<Longrightarrow> covered keys (in_hand (bind_step i l))"
  unfolding covered_def using bind_step_keeps by blast

lemma in_hand_frame [frame]:
  "in_hand (send_uplink ok m l) = in_hand l" "in_hand (fst (broken l)) = in_hand l"
  "in_hand (link_connected ev h u l) = in_hand (replay_identity_events ev l)"
  by (simp_all add: in_hand_def frame)

lemma receive_covered:
  assumes "covered (cl_applied l) (in_hand l)" and "sound_payloads (Input env (Received m))"
  shows "covered (cl_applied (fst (receive_message env m l))) (in_hand (fst (receive_message env m l)))
    \<and> cl_applied l \<subseteq> cl_applied (fst (receive_message env m l))"
proof (cases "\<exists>p. m = Some (DcResumeIdDetected p)")
  case True
  then obtain p where "m = Some (DcResumeIdDetected p)" by blast
  then show ?thesis using assms
    by (auto simp: receive_message_def apply_resume_binding_def covered_def in_hand_def split: option.splits)
next
  case False
  then show ?thesis using assms(1)
    by (cases m rule: option.exhaust; cases "the m")
      (auto simp: receive_message_def in_hand_def Let_def split: prod.split)
qed

lemma link_step_covered:
  assumes "covered (cl_applied l) (in_hand l)" and "sound_payloads c"
  shows "covered (cl_applied (fst (link_exec c l))) (in_hand (fst (link_exec c l)))
    \<and> cl_applied l \<subseteq> cl_applied (fst (link_exec c l))"
proof (cases c)
  case (Input env i)
  show ?thesis
  proof (cases i)
    case (Connect r h u)
    then show ?thesis
      using assms Input replay_covered [of "l\<lparr>cl_up := True, cl_backoff := RECONNECT_MIN, cl_sent := []\<rparr>"]
      by (cases r) (simp_all add: frame in_hand_def replay_identity_events_def link_connected_def Let_def split: option.split)
  next
    case (Received m)
    then show ?thesis using assms Input receive_covered [of l env m] by simp
  next
    case (BindStep n)
    then show ?thesis using assms Input bind_step_in_hand [of "cl_applied l" l n] by (simp add: frame)
  qed (use assms Input in \<open>simp_all add: frame pause_step_def link_down_def in_hand_def drain_output_acks_from_def Let_def
      split: option.split\<close>)
qed (use assms in \<open>simp_all add: in_hand_def report_hidden_sessions_def report_shared_mcp_urls_def report_output_ack_def\<close>)

lemma link_after_covered:
  "covered (cl_applied l) (in_hand l) \<Longrightarrow> list_all sound_payloads cs \<Longrightarrow>
     covered (cl_applied (link_after cs l)) (in_hand (link_after cs l)) \<and> cl_applied l \<subseteq> cl_applied (link_after cs l)"
proof (induction cs arbitrary: l)
  case (Cons c cs)
  then show ?case using link_step_covered [of l c] Cons.IH [of "fst (link_exec c l)"] by auto
qed simp

text \<open>The payloads that a call brings to the desktop, live or as a replay.\<close>

fun heard :: "link_call \<Rightarrow> json list" where
  "heard (Input env (Received (Some (DcResumeIdDetected p)))) = [p]"
| "heard (Input env (Connect (Inr events) h u)) = events"
| "heard _ = []"

lemma split_applied_subset:
  "split_applied ps known = (fresh, old, known') \<Longrightarrow> set fresh \<subseteq> set ps"
  by (induction ps known arbitrary: fresh old known' rule: split_applied.induct)
    (fastforce split: option.splits if_splits prod.splits)+

lemma split_applied_fresh:
  "split_applied ps known = (fresh, old, known') \<Longrightarrow> p \<in> set ps \<Longrightarrow> identity_key p = Some key \<Longrightarrow>
     key \<notin> known \<Longrightarrow> \<exists>q \<in> set fresh. identity_key q = Some key"
proof (induction ps known arbitrary: fresh old known' rule: split_applied.induct)
  case (2 x ps known)
  show ?case
  proof (cases "identity_key x = Some key")
    case True
    then show ?thesis using 2(4,7) by (auto split: prod.splits)
  next
    case other: False
    then have mem: "p \<in> set ps" using 2(5,6) by auto
    show ?thesis
    proof (cases "identity_key x")
      case None
      obtain f od k where r: "split_applied ps known = (f, od, k)" by (metis prod_cases3)
      from 2(1) [OF None r mem 2(6,7)] show ?thesis using 2(4) None r by auto
    next
      case (Some k1)
      show ?thesis
      proof (cases "k1 \<in> known")
        case True
        obtain f od k where r: "split_applied ps known = (f, od, k)" by (metis prod_cases3)
        from 2(3) [OF Some _ r mem 2(6,7)] True show ?thesis using 2(4) Some r by auto
      next
        case False
        obtain f od k where r: "split_applied ps (insert k1 known) = (f, od, k)" by (metis prod_cases3)
        have "key \<notin> insert k1 known" using other Some 2(7) by auto
        from 2(2) [OF Some _ r mem 2(6) this] False show ?thesis using 2(4) Some r by auto
      qed
    qed
  qed
qed simp

lemma replay_in_hand:
  assumes "split_applied events (cl_applied l) = (fresh, old, known)"
  shows "in_hand (replay_identity_events (Inr events) l) = in_hand l \<union> set fresh"
  using assms by (auto simp: replay_identity_events_def in_hand_def Let_def)

lemma bind_step_subset: "in_hand (bind_step i l) \<subseteq> in_hand l"
proof (cases "i < length (cl_tasks l) \<and> cl_tasks l ! i \<noteq> []")
  case True
  have "set (tl (cl_tasks l ! i)) \<subseteq> set (cl_tasks l ! i)" by (cases "cl_tasks l ! i") auto
  moreover have at: "cl_tasks l ! i \<in> set (cl_tasks l)" using True by simp
  ultimately have "set (concat ((cl_tasks l)[i := tl (cl_tasks l ! i)])) \<subseteq> set (concat (cl_tasks l))"
    using set_update_subset_insert [of "cl_tasks l" i "tl (cl_tasks l ! i)"] by fastforce
  moreover have "hd (cl_tasks l ! i) \<in> set (cl_tasks l ! i)" using True by simp
  then have "hd (cl_tasks l ! i) \<in> set (concat (cl_tasks l))" using at by auto
  ultimately show ?thesis using True by (auto simp: bind_step_def in_hand_def Let_def)
qed (auto simp: bind_step_def)

text \<open>What is in hand stays in hand or is bound, and comes from what was heard.\<close>

lemma link_exec_hand:
  "in_hand (fst (link_exec c l)) \<subseteq> in_hand l \<union> set (heard c)
     \<and> (q \<in> in_hand l \<and> parses_as_payload q \<longrightarrow> q \<in> in_hand (fst (link_exec c l)))"
proof (cases c)
  case (Input env i)
  show ?thesis
  proof (cases i)
    case (Connect r h u)
    let ?l = "l\<lparr>cl_up := True, cl_backoff := RECONNECT_MIN, cl_sent := []\<rparr>"
    have l: "in_hand ?l = in_hand l" by (simp add: in_hand_def)
    show ?thesis
    proof (cases r)
      case (Inl e)
      then show ?thesis using Input Connect
        by (simp add: in_hand_def frame) (simp add: replay_identity_events_def)
    next
      case (Inr events)
      obtain fresh old known where sp: "split_applied events (cl_applied ?l) = (fresh, old, known)" by (metis prod_cases3)
      have hand: "in_hand (link_connected (Inr events) h u l) = in_hand l \<union> set fresh"
        using replay_in_hand [OF sp] l by (simp add: in_hand_def link_connected_def Let_def frame split: option.split)
      show ?thesis using Input Connect Inr hand split_applied_subset [OF sp] by auto
    qed
  next
    case (Received m)
    show ?thesis
    proof (cases "\<exists>p. m = Some (DcResumeIdDetected p)")
      case True
      then obtain p where "m = Some (DcResumeIdDetected p)" by blast
      then show ?thesis using Input Received
        by (cases "parses_as_payload p"; cases "identity_key p")
          (auto simp: receive_message_def apply_resume_binding_def in_hand_def)
    next
      case False
      then show ?thesis using Input Received
        by (cases m rule: option.exhaust; cases "the m")
          (auto simp: receive_message_def in_hand_def Let_def split: prod.split)
    qed
  next
    case (BindStep n)
    then show ?thesis using Input bind_step_subset [of n l] bind_step_keeps [of q l n] by auto
  qed (use Input in \<open>simp_all add: frame pause_step_def link_down_def in_hand_def drain_output_acks_from_def Let_def
      split: option.split\<close>)
qed (simp_all add: in_hand_def report_hidden_sessions_def report_shared_mcp_urls_def report_output_ack_def)

lemma link_after_hand:
  "in_hand (link_after cs l) \<subseteq> in_hand l \<union> set (concat (map heard cs))
     \<and> (q \<in> in_hand l \<and> parses_as_payload q \<longrightarrow> q \<in> in_hand (link_after cs l))"
proof (induction cs arbitrary: l)
  case (Cons c cs)
  show ?case using Cons.IH [of "fst (link_exec c l)"] link_exec_hand [of c l q] by auto
qed simp

text \<open>The daemon retains at most one event of a session, under its own identifier.\<close>

definition own_events :: "emitter \<Rightarrow> bool" where
  "own_events em \<longleftrightarrow> (\<forall>s p. em_by_session em s = Some p \<longrightarrow> get_str ''sessionId'' p = Some s)"

lemma own_retain: "own_events em \<Longrightarrow> get_str ''sessionId'' p = Some sid \<Longrightarrow> own_events (retain_identity_event sid p em)"
  by (auto simp: own_events_def retain_identity_event_def evict_identity_def Let_def)

lemma own_ack_one: "own_events em \<Longrightarrow> own_events (ack_identity_event key em)"
  by (cases key) (auto simp: own_events_def ack_identity_event_def)

lemma own_ack: "own_events em \<Longrightarrow> own_events (ack_identity_events keys em)"
  unfolding ack_identity_events_def by (induction keys arbitrary: em) (simp_all add: own_ack_one)

lemma own_cong: "em_by_session em' = em_by_session em \<Longrightarrow> own_events em' = own_events em"
  by (simp add: own_events_def)

lemma own_exec: "own_events em \<Longrightarrow> own_events (ws_exec (ev, op) em)"
proof (cases "identity_of op")
  case None
  assume own: "own_events em"
  show ?thesis
  proof (cases "\<exists>keys. op = OpAck keys")
    case True
    then obtain keys where "op = OpAck keys" by blast
    then show ?thesis using own_ack [OF own, of keys] by simp
  next
    case False
    then have "em_by_session (ws_exec (ev, op) em) = em_by_session em"
      using exec_identity [where op = op and ev = ev and em = em] None by (cases op) simp_all
    then show ?thesis using own_cong own by blast
  qed
next
  case (Some x)
  assume own: "own_events em"
  obtain sid p where x: "x = (sid, p)" by fastforce
  have "get_str ''sessionId'' p = Some sid" using Some x by (cases op) (auto split: if_splits)
  then have "own_events (retain_identity_event sid p em)" by (rule own_retain [OF own])
  moreover have "em_by_session (ws_exec (ev, op) em) = em_by_session (retain_identity_event sid p em)"
    using exec_identity [where op = op and ev = ev and em = em] Some x by simp
  ultimately show ?thesis by (simp add: own_events_def del: ws_exec.simps)
qed

lemma own_reachable: "own_events (ws_run ds emitter_new)"
proof -
  have "own_events em \<Longrightarrow> own_events (ws_run ds em)" for em
  proof (induction ds arbitrary: em)
    case (Cons d ds)
    then show ?case using own_exec by (cases d) (simp add: ws_run_def)
  qed (simp add: ws_run_def)
  moreover have "own_events emitter_new" by (simp add: own_events_def emitter_new_def)
  ultimately show ?thesis by blast
qed

lemma own_snapshot:
  assumes "own_events em" and "p \<in> set (identity_snapshot em)" and "q \<in> set (identity_snapshot em)"
    and "identity_key q = identity_key p" and "identity_key p = Some key"
  shows "q = p"
proof -
  have "\<exists>s. em_by_session em s = Some x" if "x \<in> set (identity_snapshot em)" for x
    using that by (auto simp: identity_snapshot_def List.map_filter_def)
  then obtain s t where "em_by_session em s = Some p" "em_by_session em t = Some q" using assms(2,3) by blast
  moreover from this have "get_str ''sessionId'' p = Some s" "get_str ''sessionId'' q = Some t"
    using assms(1) by (auto simp: own_events_def)
  ultimately show ?thesis using assms(4,5) by (auto simp: identity_key_def split: option.splits)
qed

text \<open>C33: Every identity event that the daemon has retained is bound by the desktop once it has
  connected and its binding tasks have finished, whatever happened on the link before and happens
  after, if the desktop had not heard another event with the same session and resume id before. If
  it had, an event with these identifiers has been bound, but perhaps only the earlier one: the
  retained event is acknowledged without being bound, even when its source ranks higher
  (\<open>upgraded_event_never_bound\<close>). The events are assumed to be well formed.\<close>

theorem identity_handover:
  assumes "list_all sound_payloads cs1" and "list_all sound_payloads cs2"
    and "em = ws_run ds emitter_new" and "list_all parses_as_payload (identity_snapshot em)"
    and "l1 = link_after cs1 link_new" and "\<not> cl_up l1"
    and "l2 = link_after (Input env (Connect (Inr (identity_snapshot em)) h u) # cs2) l1"
    and "concat (cl_tasks l2) = []" and "p \<in> set (identity_snapshot em)"
  shows "(\<exists>q \<in> set (cl_bound l2). identity_key q = identity_key p)
    \<and> ((\<forall>q \<in> set (concat (map heard cs1)). identity_key q = identity_key p \<longrightarrow> q = p) \<longrightarrow> p \<in> set (cl_bound l2))"
proof (intro conjI impI)
  let ?c = "Input env (Connect (Inr (identity_snapshot em)) h u)"
  let ?l = "link_connected (Inr (identity_snapshot em)) h u l1"
  have parses: "parses_as_payload p" using assms(4,9) by (simp add: list_all_iff)
  then obtain key where key: "identity_key p = Some key"
    by (fastforce simp: parses_as_payload_def identity_key_def)
  let ?r = "replay_identity_events (Inr (identity_snapshot em)) l1"
  have cov: "covered (cl_applied l1) (in_hand l1)"
    unfolding assms(5) using link_after_covered [OF _ assms(1), of link_new] by (simp add: covered_def link_new_def)
  from replay_covered [OF this assms(4)] key assms(9)
  have "covered (cl_applied ?r) (in_hand ?r)" "key \<in> cl_applied ?r" by blast+
  then have l: "covered (cl_applied ?l) (in_hand ?l)" "key \<in> cl_applied ?l" by (simp_all add: frame)
  from link_after_covered [OF l(1) assms(2)] l(2) assms(6,7)
  have "covered (cl_applied l2) (in_hand l2)" "key \<in> cl_applied l2" by auto
  then show "\<exists>q \<in> set (cl_bound l2). identity_key q = identity_key p"
    using assms(8) key by (auto simp: covered_def in_hand_def)
  assume alone: "\<forall>q \<in> set (concat (map heard cs1)). identity_key q = identity_key p \<longrightarrow> q = p"
  have "p \<in> in_hand ?l"
  proof (cases "key \<in> cl_applied l1")
    case True
    then obtain q where q: "q \<in> in_hand l1" "identity_key q = Some key" using cov by (auto simp: covered_def)
    have "in_hand l1 \<subseteq> set (concat (map heard cs1))"
      using link_after_hand [of cs1 link_new p] assms(5) by (auto simp: in_hand_def link_new_def)
    then have "q = p" using q alone key by auto
    then show ?thesis using q(1) link_exec_hand [of ?c l1 p] parses assms(6) by simp
  next
    case False
    obtain fresh old known where sp: "split_applied (identity_snapshot em) (cl_applied l1) = (fresh, old, known)"
      by (metis prod_cases3)
    from split_applied_fresh [OF sp assms(9) key False] obtain q where
      q: "q \<in> set fresh" "identity_key q = Some key" by blast
    then have "q = p"
      using own_snapshot [OF own_reachable [of ds, folded assms(3)] assms(9) _ _ key, of q]
        split_applied_subset [OF sp] key by auto
    then show ?thesis using q(1) replay_in_hand [OF sp] by (auto simp: in_hand_def frame)
  qed
  then have "p \<in> in_hand l2"
    using link_after_hand [of cs2 ?l p] parses assms(6,7) by simp
  then show "p \<in> set (cl_bound l2)" using assms(8) by (auto simp: in_hand_def)
qed

definition demo_identity :: json where
  "demo_identity = JObject [(''sessionId'', JString ''s''), (''resumeSessionId'', JString ''r''), (''source'', JString ''issued'')]"

lemma demo_retained:
  "identity_snapshot (retain_identity_event ''s'' demo_identity emitter_new) = [demo_identity]"
  by (simp add: identity_snapshot_def retain_identity_event_def evict_identity_def emitter_new_def
      MAX_RETAINED_IDENTITY_EVENTS_def Let_def List.map_filter_def)

lemma demo_identity_parses: "parses_as_payload demo_identity" "identity_key demo_identity = Some (''s'', ''r'')"
  by (simp_all add: parses_as_payload_def demo_identity_def get_str_def json_get_def as_str_def opt_str_field_def
      identity_key_def)

lemmas link_defs = link_connected_def replay_identity_events_def link_new_def watch_new_def mark_unchanged_def
  bind_step_def broken_def send_uplink_def pause_step_def link_down_def receive_message_def apply_resume_binding_def

definition demo_emits :: "(Ws_Emitter.env \<times> ws_op) list" where
  "demo_emits = [(open_env, OpEmit ''terminal-resume-id-detected'' demo_identity)]"

lemma demo_emits_snapshot: "identity_snapshot (ws_run demo_emits emitter_new) = [demo_identity]"
proof -
  have "get_str ''sessionId'' demo_identity = Some ''s''"
    by (simp add: demo_identity_def get_str_def json_get_def as_str_def)
  then have "identity_of (OpEmit ''terminal-resume-id-detected'' demo_identity) = Some (''s'', demo_identity)" by simp
  from emit_identity_some [OF this, of open_env emitter_new]
  have "ws_run demo_emits emitter_new
      = publish_control open_env (ResumeIdDetected demo_identity) (retain_identity_event ''s'' demo_identity emitter_new)"
    by (simp add: demo_emits_def ws_run_def)
  then show ?thesis using demo_retained by (simp add: identity_snapshot_def frame)
qed

theorem identity_handover_witness:
  "demo_identity \<in> set (cl_bound (link_after [Input demo_link_env (Connect (Inr [demo_identity]) True True),
      Input demo_link_env (BindStep 0)] link_new))"
proof -
  let ?em = "ws_run demo_emits emitter_new"
  let ?c = "Input demo_link_env (Connect (Inr (identity_snapshot ?em)) True True)"
  have "concat (cl_tasks (link_after (?c # [Input demo_link_env (BindStep 0)]) link_new)) = []"
    by (simp add: demo_emits_snapshot link_defs demo_identity_parses Let_def)
  from identity_handover [of "[]" "[Input demo_link_env (BindStep 0)]" ?em demo_emits link_new,
      OF _ _ _ _ _ _ refl this, of demo_identity]
  show ?thesis by (simp add: demo_emits_snapshot demo_identity_parses link_new_def)
qed

text \<open>The proviso is needed: an identity found by a scan has been bound; while the link is down a
  source of a higher rank reports the same identifiers and the daemon retains its event; after the
  reconnection the link acknowledges the event without binding it, and the daemon forgets it.\<close>

definition demo_backfill :: json where
  "demo_backfill = JObject [(''sessionId'', JString ''s''), (''resumeSessionId'', JString ''r''), (''source'', JString ''backfill'')]"

lemma demo_backfill_parses: "parses_as_payload demo_backfill" "identity_key demo_backfill = Some (''s'', ''r'')"
  by (simp_all add: parses_as_payload_def demo_backfill_def get_str_def json_get_def as_str_def opt_str_field_def
      identity_key_def)

lemma demo_ranks: "get_str ''source'' demo_backfill = Some ''backfill''" "get_str ''source'' demo_identity = Some ''issued''"
  by (simp_all add: demo_backfill_def demo_identity_def get_str_def json_get_def as_str_def)

theorem upgraded_event_never_bound:
  "let em = ws_run demo_emits emitter_new;
       l = link_after [Input demo_link_env (Connect (Inr []) True True),
             Input demo_link_env (Received (Some (wire (ResumeIdDetected demo_backfill)))),
             Input demo_link_env (BindStep 0), Input demo_link_env SocketEnded,
             Input demo_link_env (Connect (Inr (identity_snapshot em)) True True),
             Input demo_link_env (AckQueueReady True)] link_new
   in source_priority ''backfill'' < source_priority ''issued'' \<and> identity_snapshot em = [demo_identity]
      \<and> cl_bound l = [demo_backfill] \<and> concat (cl_tasks l) = []
      \<and> (\<exists>keys. cl_sent l = [IdentityAcks keys] \<and> (''s'', ''r'') \<in> set keys)"
proof -
  let ?start = "[Input demo_link_env (Connect (Inr []) True True),
      Input demo_link_env (Received (Some (wire (ResumeIdDetected demo_backfill)))),
      Input demo_link_env (BindStep 0), Input demo_link_env SocketEnded]"
  let ?rest = "[Input demo_link_env (Connect (Inr [demo_identity]) True True),
      Input demo_link_env (AckQueueReady True)]"
  define l where "l = link_after ?start link_new"
  have l: "cl_bound l = [demo_backfill]" "cl_applied l = {(''s'', ''r'')}" "\<not> cl_up l"
    "cl_ack_queue l = [(''s'', ''r'')]" "wa_value (cl_hidden l) = None" "wa_value (cl_urls l) = None"
    "cl_tasks l = [[]]"
    unfolding l_def by (simp_all add: link_defs demo_backfill_parses Let_def)
  have rest: "cl_bound (link_after ?rest l) = [demo_backfill]" "concat (cl_tasks (link_after ?rest l)) = []"
    "cl_sent (link_after ?rest l) = [IdentityAcks [(''s'', ''r''), (''s'', ''r'')]]"
    using l by (simp_all add: link_connected_def replay_identity_events_def
        mark_unchanged_def broken_def send_uplink_def demo_identity_parses Let_def)
  have "link_after (?start @ ?rest) link_new = link_after ?rest l" by (simp only: link_after_simps(3) l_def)
  then have "link_after [Input demo_link_env (Connect (Inr []) True True),
             Input demo_link_env (Received (Some (wire (ResumeIdDetected demo_backfill)))),
             Input demo_link_env (BindStep 0), Input demo_link_env SocketEnded,
             Input demo_link_env (Connect (Inr [demo_identity]) True True),
             Input demo_link_env (AckQueueReady True)] link_new = link_after ?rest l" by (simp only: append.simps)
  then show ?thesis unfolding Let_def demo_emits_snapshot using rest by (simp add: source_priority_def)
qed

text \<open>The replay after a reconnection acknowledges events that are still being bound: with the
  binding task of an event not yet finished, a reconnection makes the link acknowledge the event,
  and the daemon forgets it although the desktop has bound nothing.\<close>

theorem replay_acks_running_binding:
  "let em = retain_identity_event ''s'' demo_identity emitter_new;
       l = link_after [Input demo_link_env (Connect (Inr []) True True),
             Input demo_link_env (Received (Some (wire (ResumeIdDetected demo_identity)))),
             Input demo_link_env SocketEnded,
             Input demo_link_env (Connect (Inr (identity_snapshot em)) True True),
             Input demo_link_env (AckQueueReady True)] link_new
   in identity_snapshot em = [demo_identity] \<and> cl_bound l = []
      \<and> identity_snapshot (cd_emitter (daemon_after open_env True ''c'' 0 (cl_sent l)
          \<lparr>cd_emitter = em, cd_gates = Map.empty, cd_urls = None\<rparr>)) = []"
proof -
  let ?em = "retain_identity_event ''s'' demo_identity emitter_new"
  let ?l = "link_after [Input demo_link_env (Connect (Inr []) True True),
      Input demo_link_env (Received (Some (wire (ResumeIdDetected demo_identity)))),
      Input demo_link_env SocketEnded, Input demo_link_env (Connect (Inr (identity_snapshot ?em)) True True),
      Input demo_link_env (AckQueueReady True)] link_new"
  let ?start = "[Input demo_link_env (Connect (Inr []) True True),
      Input demo_link_env (Received (Some (wire (ResumeIdDetected demo_identity)))), Input demo_link_env SocketEnded]"
  let ?rest = "[Input demo_link_env (Connect (Inr (identity_snapshot ?em)) True True),
      Input demo_link_env (AckQueueReady True)]"
  let ?l1 = "link_connected (Inr []) True True link_new"
  let ?l2 = "apply_resume_binding demo_identity (?l1\<lparr>cl_applied := {(''s'', ''r'')}\<rparr>)"
  let ?l3 = "(link_down ?l2)\<lparr>cl_backoff := min (cl_backoff ?l2 * 2) RECONNECT_MAX\<rparr>"
  have "cl_up ?l1" "\<not> cl_up link_new" "cl_applied ?l1 = {}" by (simp_all add: link_defs)
  then have start: "link_after ?start link_new = ?l3"
    by (simp add: receive_message_def demo_identity_parses apply_resume_binding_def pause_step_def link_down_def)
  define l3 where "l3 = ?l3"
  have l3: "cl_bound l3 = []" "cl_applied l3 = {(''s'', ''r'')}" "\<not> cl_up l3" "cl_ack_queue l3 = []"
    "wa_value (cl_hidden l3) = None" "wa_value (cl_urls l3) = None"
    unfolding l3_def by (simp_all add: link_defs demo_identity_parses)
  have rest: "cl_bound (link_after ?rest l3) = []" "cl_sent (link_after ?rest l3) = [IdentityAcks [(''s'', ''r'')]]"
    using l3 by (simp_all add: demo_retained link_connected_def replay_identity_events_def
        mark_unchanged_def broken_def send_uplink_def demo_identity_parses Let_def)
  have "link_after (?start @ ?rest) link_new = link_after ?rest l3"
    by (simp only: link_after_simps(3) start l3_def)
  then have "?l = link_after ?rest l3" by (simp only: append.simps)
  then have l: "cl_bound ?l = []" "cl_sent ?l = [IdentityAcks [(''s'', ''r'')]]"
    by (simp_all only: rest)
  have forgotten: "identity_snapshot (cd_emitter (daemon_after open_env True ''c'' 0 [IdentityAcks [(''s'', ''r'')]]
      \<lparr>cd_emitter = ?em, cd_gates = Map.empty, cd_urls = None\<rparr>)) = []"
    by (simp add: retain_identity_event_def evict_identity_def emitter_new_def MAX_RETAINED_IDENTITY_EVENTS_def
        ack_identity_events_def ack_identity_event_def demo_identity_def get_str_def json_get_def as_str_def
        identity_snapshot_def List.map_filter_def daemon_after_def Let_def)
  show ?thesis unfolding Let_def by (intro conjI demo_retained l(1)) (simp only: l(2) forgotten)
qed

subsubsection \<open>The notifier is told of an exit exactly once\<close>

fun notify_all ::
  "(bool \<times> instant \<times> string \<times> string \<times> int option) list \<Rightarrow> notifier_state \<Rightarrow> notifier_state \<times> notification list" where
  "notify_all [] st = (st, [])"
| "notify_all ((registered, now, e) # es) st =
     (let (st, ns) = apply_notifier_event registered now e st; (st, ns') = notify_all es st in (st, ns @ ns'))"

definition exit_notices :: "string \<Rightarrow> notification list \<Rightarrow> nat" where
  "exit_notices sid ns = length (filter (\<lambda>n. case n of ExitNotice s _ \<Rightarrow> s = sid | _ \<Rightarrow> False) ns)"

lemma exit_notices_append [simp]: "exit_notices sid (xs @ ys) = exit_notices sid xs + exit_notices sid ys"
  by (simp add: exit_notices_def)

text \<open>An event that does not clear the record of the session.\<close>

definition no_cleanup :: "string \<Rightarrow> string \<times> string \<times> int option \<Rightarrow> bool" where
  "no_cleanup sid e = (case e of (ev, s, _) \<Rightarrow> \<not> (ev = ''cleanup'' \<and> s = sid))"

definition exit_event :: "string \<Rightarrow> string \<times> string \<times> int option \<Rightarrow> bool" where
  "exit_event sid e = (case e of (ev, s, _) \<Rightarrow> ev = ''sessionExited'' \<and> s = sid)"

lemma dispatch_exits:
  assumes "no_cleanup sid e" and "dispatch_notifier now e st = (st', ns)"
  shows "exit_notices sid ns + of_bool (sid \<in> ns_exited st) = of_bool (sid \<in> ns_exited st')
    \<and> (sid \<in> ns_exited st' \<longleftrightarrow> sid \<in> ns_exited st \<or> exit_event sid e) \<and> ns_pending st' = ns_pending st"
  using assms
  by (auto simp: dispatch_notifier_def should_deliver_def no_cleanup_def exit_event_def exit_notices_def Let_def
      split: if_splits option.splits)

lemma dispatch_all_exits:
  "list_all (no_cleanup sid) es \<Longrightarrow> dispatch_all now es st = (st', ns) \<Longrightarrow>
     exit_notices sid ns + of_bool (sid \<in> ns_exited st) = of_bool (sid \<in> ns_exited st')
     \<and> (sid \<in> ns_exited st' \<longleftrightarrow> sid \<in> ns_exited st \<or> list_ex (exit_event sid) es) \<and> ns_pending st' = ns_pending st"
proof (induction es arbitrary: st st' ns)
  case (Cons e es)
  obtain st1 ns1 where d: "dispatch_notifier now e st = (st1, ns1)" by fastforce
  obtain st2 ns2 where r: "dispatch_all now es st1 = (st2, ns2)" by fastforce
  show ?case
    using Cons.IH [OF _ r] Cons.prems d r dispatch_exits [OF _ d, of sid] by auto
qed (simp add: exit_notices_def)

lemma apply_exits:
  assumes "no_cleanup sid e" and "list_all (no_cleanup sid) (ns_pending st)"
    and "apply_notifier_event registered now e st = (st', ns)"
  shows "exit_notices sid ns + of_bool (sid \<in> ns_exited st) = of_bool (sid \<in> ns_exited st')
    \<and> list_all (no_cleanup sid) (ns_pending st')
    \<and> (sid \<in> ns_exited st' \<or> list_ex (exit_event sid) (ns_pending st') \<longleftrightarrow>
         sid \<in> ns_exited st \<or> list_ex (exit_event sid) (ns_pending st) \<or> exit_event sid e)
    \<and> (registered \<longrightarrow> ns_pending st' = [])"
proof (cases registered)
  case True
  then have "dispatch_all now (ns_pending st @ [e]) (st\<lparr>ns_pending := []\<rparr>) = (st', ns)"
    using assms(3) by (simp add: apply_notifier_event_def)
  from dispatch_all_exits [OF _ this, of sid] assms(1,2) show ?thesis by (auto simp: list_ex_iff)
next
  case False
  then show ?thesis using assms by (auto simp: apply_notifier_event_def exit_notices_def)
qed

lemma notify_all_exits:
  assumes "notify_all es st0 = (st, ns)" and "list_all (no_cleanup sid) (ns_pending st0)"
    and "list_all (\<lambda>(registered, now, e). no_cleanup sid e) es"
  shows "exit_notices sid ns + of_bool (sid \<in> ns_exited st0) = of_bool (sid \<in> ns_exited st)
    \<and> (sid \<in> ns_exited st \<or> list_ex (exit_event sid) (ns_pending st) \<longleftrightarrow>
       sid \<in> ns_exited st0 \<or> list_ex (exit_event sid) (ns_pending st0)
         \<or> list_ex (\<lambda>(registered, now, e). exit_event sid e) es)
    \<and> (es \<noteq> [] \<and> fst (last es) \<longrightarrow> ns_pending st = [])"
  using assms
proof (induction es arbitrary: st0 st ns)
  case (Cons x es)
  obtain registered now e where x: "x = (registered, now, e)" by (metis prod_cases3)
  obtain st1 ns1 where d: "apply_notifier_event registered now e st0 = (st1, ns1)" by fastforce
  obtain st2 ns2 where r: "notify_all es st1 = (st2, ns2)" by fastforce
  have step: "exit_notices sid ns1 + of_bool (sid \<in> ns_exited st0) = of_bool (sid \<in> ns_exited st1)"
    "list_all (no_cleanup sid) (ns_pending st1)"
    "sid \<in> ns_exited st1 \<or> list_ex (exit_event sid) (ns_pending st1) \<longleftrightarrow>
       sid \<in> ns_exited st0 \<or> list_ex (exit_event sid) (ns_pending st0) \<or> exit_event sid e"
    "registered \<longrightarrow> ns_pending st1 = []"
    using apply_exits [OF _ Cons.prems(2) d] Cons.prems(3) x by auto
  have "list_all (\<lambda>(registered, now, e). no_cleanup sid e) es" using Cons.prems(3) by simp
  note rest = Cons.IH [OF r step(2) this]
  have res: "st = st2" "ns = ns1 @ ns2" using Cons.prems(1) x d r by simp_all
  have "exit_notices sid ns + of_bool (sid \<in> ns_exited st0) = of_bool (sid \<in> ns_exited st)"
    using rest step(1) res by simp
  moreover have "sid \<in> ns_exited st \<or> list_ex (exit_event sid) (ns_pending st) \<longleftrightarrow>
       sid \<in> ns_exited st0 \<or> list_ex (exit_event sid) (ns_pending st0)
         \<or> list_ex (\<lambda>(registered, now, e). exit_event sid e) (x # es)"
    using rest step(3) res(1) x by auto
  moreover have "fst (last (x # es)) \<longrightarrow> ns_pending st = []"
    using rest step(4) res(1) r x by (cases "es = []") auto
  ultimately show ?case by blast
qed (simp add: exit_notices_def)

text \<open>The desktop is told of the exit of a session exactly once: of any number of exit events of
  a session, some of them perhaps received before the application has registered its notifier, the
  first is passed on and the others are not; none is lost once an event arrives after the
  registration.\<close>

theorem exit_notified_once:
  assumes "notify_all es notifier_new = (st, ns)"
    and "list_all (\<lambda>(registered, now, e). no_cleanup sid e) es"
  shows "exit_notices sid ns \<le> 1
    \<and> (list_ex (\<lambda>(registered, now, e). exit_event sid e) es \<and> fst (last es) \<longrightarrow> exit_notices sid ns = 1)"
proof -
  have "list_all (no_cleanup sid) (ns_pending notifier_new)" by (simp add: notifier_new_def)
  note all = notify_all_exits [OF assms(1) this assms(2)]
  have "sid \<notin> ns_exited notifier_new" "ns_pending notifier_new = []" by (simp_all add: notifier_new_def)
  with all show ?thesis by (cases "es = []"; cases "sid \<in> ns_exited st") auto
qed

theorem exit_notified_once_witness:
  "exit_notices ''s'' (snd (notify_all [(False, 0, ''sessionExited'', ''s'', Some 0), (True, 1, ''sessionExited'', ''s'', Some 0)]
     notifier_new)) = 1"
proof -
  let ?es = "[(False, 0, ''sessionExited'', ''s'', Some 0), (True, 1 :: instant, ''sessionExited'', ''s'', Some 0)]"
  obtain st ns where r: "notify_all ?es notifier_new = (st, ns)" by fastforce
  from exit_notified_once [OF r, of "''s''"] r show ?thesis by (simp add: no_cleanup_def exit_event_def)
qed

end
