(* ===== verification/Path_Identity.thy ===== *)
theory Path_Identity
  imports Prelude
begin

text \<open>
  The identity of a project path (\<open>utils/path_normalize.rs\<close> and
  \<open>utils/project_identity.rs\<close>), and the rewriting of a launch request on a host that runs
  under WSL (\<open>utils/launch_request.rs\<close>).

  The same directory has several names: \<open>D:\x\<close> on Windows, \<open>/mnt/d/x\<close> under WSL and
  \<open>\\wsl$\Distro\mnt\d\x\<close> seen from Windows. \<open>canonical_project_path\<close> maps them to one
  name and \<open>project_identity_key\<close> folds the case of drive paths. The crate \<open>dunce\<close>, which
  shortens verbatim Windows paths, is the parameter \<open>dunce\<close>: it is the identity on every other
  host. The home directory is a parameter too.
\<close>

definition SLASH :: char where "SLASH = CHR ''/''"
definition BSLASH :: char where "BSLASH = CHR 0x5C"
definition COLON :: char where "COLON = CHR 0x3A"

lemmas sep_chars = SLASH_def BSLASH_def COLON_def

subsection \<open>Characters and strings\<close>

definition is_ascii_upper :: "char \<Rightarrow> bool" where
  "is_ascii_upper c = byte_in 65 90 c"

definition is_ascii_alpha :: "char \<Rightarrow> bool" where
  "is_ascii_alpha c = (byte_in 65 90 c \<or> byte_in 97 122 c)"

definition to_ascii_upper :: "char \<Rightarrow> char" where
  "to_ascii_upper c = (if byte_in 97 122 c then char_of (byte c - 32) else c)"

definition eq_ignore_ascii_case :: "bytes \<Rightarrow> bytes \<Rightarrow> bool" where
  "eq_ignore_ascii_case a b = (map to_ascii_lower a = map to_ascii_lower b)"

definition replace_char :: "char \<Rightarrow> char \<Rightarrow> bytes \<Rightarrow> bytes" where
  "replace_char a b s = map (\<lambda>c. if c = a then b else c) s"

text \<open>\<open>s.trim_start_matches(c)\<close>, \<open>s.trim_end_matches(c)\<close> and \<open>s.trim_matches(c)\<close>\<close>

definition trim_start_char :: "char \<Rightarrow> bytes \<Rightarrow> bytes" where
  "trim_start_char c s = dropWhile ((=) c) s"

definition trim_end_char :: "char \<Rightarrow> bytes \<Rightarrow> bytes" where
  "trim_end_char c s = rev (dropWhile ((=) c) (rev s))"

definition trim_char :: "char \<Rightarrow> bytes \<Rightarrow> bytes" where
  "trim_char c s = trim_end_char c (trim_start_char c s)"

subsection \<open>Normal form of a path on one host\<close>

definition is_drive_path :: "bytes \<Rightarrow> bool" where
  "is_drive_path s = (case s of a # b # _ \<Rightarrow> is_ascii_alpha a \<and> b = COLON | _ \<Rightarrow> False)"

definition is_separator :: "char \<Rightarrow> bool" where
  "is_separator c = (c = SLASH \<or> c = BSLASH)"

definition verbatim_prefix :: bytes where
  "verbatim_prefix = [BSLASH, BSLASH, CHR ''?'', BSLASH]"

definition strip_verbatim_disk_prefix :: "bytes \<Rightarrow> bytes" where
  "strip_verbatim_disk_prefix s =
     (case (case strip_prefix verbatim_prefix s of Some r \<Rightarrow> Some r | None \<Rightarrow> strip_prefix ''//?/'' s) of
        None \<Rightarrow> s
      | Some r \<Rightarrow> if is_drive_path r then r else s)"

text \<open>\<open>s.trim_start_matches("//")\<close>\<close>

fun trim_start_slashes :: "bytes \<Rightarrow> bytes" where
  "trim_start_slashes (a # b # s) = (if a = SLASH \<and> b = SLASH then trim_start_slashes s else a # b # s)"
| "trim_start_slashes s = s"

definition is_share_root :: "bytes \<Rightarrow> bool" where
  "is_share_root s =
     (let normalized = replace_char BSLASH SLASH s
      in prefix ''//'' normalized \<and> \<not> prefix ''//?/'' normalized
         \<and> length (split_on SLASH (trim_start_slashes (trim_end_char SLASH normalized))) = 2)"

definition trim_min_len :: "bytes \<Rightarrow> nat" where
  "trim_min_len s =
     (if s \<noteq> [] \<and> is_separator (hd s) then 1
      else if is_drive_path s \<and> 2 < length s \<and> is_separator (s ! 2) then 3
      else 0)"

text \<open>\<open>while value.len() > min_len && last is a separator { value.pop(); }\<close>\<close>

function pop_separators :: "nat \<Rightarrow> bytes \<Rightarrow> bytes" where
  "pop_separators n s = (if n < length s \<and> is_separator (last s) then pop_separators n (butlast s) else s)"
  by pat_completeness auto
termination
  by (relation "measure (length \<circ> snd)") auto

declare pop_separators.simps [simp del]

definition trim_trailing_separators :: "bytes \<Rightarrow> bytes" where
  "trim_trailing_separators s =
     (if s = [] \<or> is_share_root s then s else pop_separators (trim_min_len s) s)"

definition normalize_project_path :: "(bytes \<Rightarrow> bytes) \<Rightarrow> bytes \<Rightarrow> bytes" where
  "normalize_project_path dunce path =
     (let v = strip_verbatim_disk_prefix (dunce path);
          v = (if is_drive_path v then to_ascii_upper (hd v) # tl v else v)
      in trim_trailing_separators v)"

definition comparison_path :: "(bytes \<Rightarrow> bytes) \<Rightarrow> bytes \<Rightarrow> bytes" where
  "comparison_path dunce path =
     trim_trailing_separators (replace_char BSLASH SLASH (strip_verbatim_disk_prefix (dunce path)))"

text \<open>The part up to \<open>/mnt/\<close> and the drive path behind it.\<close>

definition wsl_mounted_drive_parts :: "bytes \<Rightarrow> (bytes \<times> bytes) option" where
  "wsl_mounted_drive_parts s =
     (case strip_prefix ''//'' s of
        None \<Rightarrow> None
      | Some rest \<Rightarrow>
          (case split_on SLASH rest of
             server # distro # mnt # drive # _ \<Rightarrow>
               if (server = ''wsl.localhost'' \<or> server = ''wsl$'') \<and> mnt = ''mnt''
                  \<and> length drive = 1 \<and> is_ascii_alpha (hd drive)
               then (let n = 2 + length server + 1 + length distro + 1 + length mnt + 1
                     in Some (take n s, drop n s))
               else None
           | _ \<Rightarrow> None))"

definition paths_equivalent :: "(bytes \<Rightarrow> bytes) \<Rightarrow> bytes \<Rightarrow> bytes \<Rightarrow> bool" where
  "paths_equivalent dunce p q =
     (let a = comparison_path dunce p; b = comparison_path dunce q
      in if is_drive_path a \<and> is_drive_path b then eq_ignore_ascii_case a b
         else (case (wsl_mounted_drive_parts a, wsl_mounted_drive_parts b) of
                 (Some (pa, wa), Some (pb, wb)) \<Rightarrow> pa = pb \<and> eq_ignore_ascii_case wa wb
               | _ \<Rightarrow> a = b))"

subsection \<open>Project identity across hosts\<close>

definition is_ssh_url :: "bytes \<Rightarrow> bool" where
  "is_ssh_url path = (6 \<le> length path \<and> eq_ignore_ascii_case (take 6 path) ''ssh://'')"

definition format_drive_path :: "char \<Rightarrow> bytes \<Rightarrow> bytes" where
  "format_drive_path drive tail =
     (let tail = trim_char SLASH tail
      in drive # COLON # BSLASH # replace_char SLASH BSLASH tail)"

definition canonical_windows_drive_path :: "bytes \<Rightarrow> bytes option" where
  "canonical_windows_drive_path path =
     (if \<not> is_drive_path path then None
      else (let drive = to_ascii_upper (hd path); rest = drop 2 path
            in if rest = [] then Some [drive, COLON]
               else if hd rest \<noteq> SLASH then None
               else Some (format_drive_path drive (trim_start_char SLASH rest))))"

definition windows_drive_to_mnt_path :: "bytes \<Rightarrow> bytes option" where
  "windows_drive_to_mnt_path path =
     (if \<not> is_drive_path path then None
      else (let drive = to_ascii_lower (hd path);
                tail = replace_char BSLASH SLASH (dropWhile is_separator (drop 2 path))
            in Some (if tail = [] then ''/mnt/'' @ [drive] else ''/mnt/'' @ [drive] @ ''/'' @ tail)))"

definition canonical_mnt_drive_path :: "bytes \<Rightarrow> bytes option" where
  "canonical_mnt_drive_path path =
     (case strip_prefix ''/mnt/'' path of
        None \<Rightarrow> None
      | Some [] \<Rightarrow> None
      | Some (d # rest) \<Rightarrow>
          if \<not> is_ascii_alpha d then None
          else if rest \<noteq> [] \<and> hd rest \<noteq> SLASH then None
          else Some (format_drive_path (to_ascii_upper d) (trim_start_char SLASH rest)))"

definition matches_wsl_server :: "bytes \<Rightarrow> bool" where
  "matches_wsl_server server =
     (eq_ignore_ascii_case server ''wsl.localhost'' \<or> eq_ignore_ascii_case server ''wsl$''
      \<or> eq_ignore_ascii_case server ''wsl'')"

definition single_drive_letter :: "bytes \<Rightarrow> char option" where
  "single_drive_letter s =
     (if length s = 1 \<and> is_ascii_alpha (hd s) then Some (to_ascii_upper (hd s)) else None)"

definition canonical_wsl_unc_path :: "bytes \<Rightarrow> bytes option" where
  "canonical_wsl_unc_path path =
     (case strip_prefix ''//'' path of
        None \<Rightarrow> None
      | Some rest \<Rightarrow>
          (case split_on SLASH rest of
             server # distro # parts \<Rightarrow>
               if \<not> matches_wsl_server server \<or> distro = [] then None
               else (let remote = filter (\<lambda>p. p \<noteq> []) parts;
                         plain = [BSLASH, BSLASH] @ ''wsl.localhost'' @ [BSLASH] @ distro
                                   @ (if remote = [] then [] else BSLASH # join [BSLASH] remote)
                     in case remote of
                          mnt # drive # tail \<Rightarrow>
                            (case single_drive_letter drive of
                               Some d \<Rightarrow> if mnt = ''mnt'' then Some (format_drive_path d (join ''/'' tail)) else Some plain
                             | None \<Rightarrow> Some plain)
                        | _ \<Rightarrow> Some plain)
           | _ \<Rightarrow> None))"

definition canonical_project_path :: "(bytes \<Rightarrow> bytes) \<Rightarrow> bytes \<Rightarrow> bytes" where
  "canonical_project_path dunce path =
     (if is_ssh_url path then path
      else (let s = replace_char BSLASH SLASH (normalize_project_path dunce path)
            in case canonical_windows_drive_path s of Some c \<Rightarrow> c
             | None \<Rightarrow> (case canonical_mnt_drive_path s of Some c \<Rightarrow> c
             | None \<Rightarrow> (case canonical_wsl_unc_path s of Some c \<Rightarrow> c
             | None \<Rightarrow> if prefix ''//'' s then replace_char SLASH BSLASH s else s))))"

definition project_identity_key :: "(bytes \<Rightarrow> bytes) \<Rightarrow> bytes \<Rightarrow> bytes" where
  "project_identity_key dunce path =
     (let c = canonical_project_path dunce path
      in if is_drive_path c then map to_ascii_lower c else c)"

definition project_paths_equivalent :: "(bytes \<Rightarrow> bytes) \<Rightarrow> bytes \<Rightarrow> bytes \<Rightarrow> bool" where
  "project_paths_equivalent dunce p q = (project_identity_key dunce p = project_identity_key dunce q)"

datatype host_platform = WindowsHost | UnixHost

text \<open>\<open>is_usable_directory\<close> asks the file system.\<close>

definition repair_project_path_for_host_with ::
  "(bytes \<Rightarrow> bytes) \<Rightarrow> bytes \<Rightarrow> host_platform \<Rightarrow> (bytes \<Rightarrow> bool) \<Rightarrow> bytes" where
  "repair_project_path_for_host_with dunce path host is_usable_directory =
     (if is_ssh_url path \<or> is_usable_directory path then path
      else (let canonical = canonical_project_path dunce path;
                candidate = (case host of WindowsHost \<Rightarrow> Some canonical | UnixHost \<Rightarrow> windows_drive_to_mnt_path canonical)
            in case candidate of
                 Some c \<Rightarrow> if c \<noteq> path \<and> is_usable_directory c then c else path
               | None \<Rightarrow> path))"

subsection \<open>Facts on strings and separators\<close>

lemma slash_neq_bslash [simp]: "SLASH \<noteq> BSLASH" "BSLASH \<noteq> SLASH" "COLON \<noteq> SLASH" "COLON \<noteq> BSLASH" "SLASH \<noteq> COLON" "BSLASH \<noteq> COLON"
  by (simp_all add: sep_chars)

lemma is_separator_simps [simp]: "is_separator SLASH" "is_separator BSLASH" "\<not> is_separator COLON"
  by (simp_all add: is_separator_def)

lemma pop_separators_done: "s = [] \<or> \<not> is_separator (last s) \<or> length s \<le> n \<Longrightarrow> pop_separators n s = s"
  by (subst pop_separators.simps) auto

lemma pop_separators_result:
  "pop_separators n s = [] \<or> \<not> is_separator (last (pop_separators n s)) \<or> length (pop_separators n s) \<le> n"
proof (induction n s rule: pop_separators.induct)
  case (1 n s)
  then show ?case by (subst (1 2 3) pop_separators.simps) auto
qed

lemma pop_separators_prefix: "prefix (pop_separators n s) s"
proof (induction n s rule: pop_separators.induct)
  case (1 n s)
  then show ?case
    by (subst pop_separators.simps) (auto intro: prefix_order.trans [OF _ prefixeq_butlast])
qed

lemma replace_char_simps [simp]:
  "replace_char a b [] = []" "replace_char a b (c # s) = (if c = a then b else c) # replace_char a b s"
  "replace_char a b (s @ t) = replace_char a b s @ replace_char a b t"
  "length (replace_char a b s) = length s"
  by (simp_all add: replace_char_def)

lemma replace_char_absent: "a \<notin> set s \<Longrightarrow> replace_char a b s = s"
  by (induction s) auto

lemma replace_char_back: "b \<notin> set s \<Longrightarrow> replace_char b a (replace_char a b s) = s"
  by (induction s) auto

lemma replace_char_gone: "a \<noteq> b \<Longrightarrow> a \<notin> set (replace_char a b s)"
  by (auto simp: replace_char_def)

lemma trim_start_char_hd: "trim_start_char c s = [] \<or> hd (trim_start_char c s) \<noteq> c"
  by (induction s) (auto simp: trim_start_char_def)

lemma trim_start_char_done: "s = [] \<or> hd s \<noteq> c \<Longrightarrow> trim_start_char c s = s"
  by (cases s) (auto simp: trim_start_char_def)

lemma trim_end_char_last: "trim_end_char c s = [] \<or> last (trim_end_char c s) \<noteq> c"
proof -
  have "trim_end_char c s = rev (trim_start_char c (rev s))" by (simp add: trim_end_char_def trim_start_char_def)
  then show ?thesis using trim_start_char_hd [of c "rev s"] by (auto simp: last_rev)
qed

lemma trim_end_char_done: "s = [] \<or> last s \<noteq> c \<Longrightarrow> trim_end_char c s = s"
  by (cases s rule: rev_cases) (auto simp: trim_end_char_def)

lemma trim_end_char_hd: "trim_end_char c s = [] \<or> hd (trim_end_char c s) = hd s"
proof -
  have "prefix (trim_end_char c s) s"
    unfolding trim_end_char_def using suffix_dropWhile [of "(=) c" "rev s"] by (simp add: suffix_to_prefix)
  then show ?thesis by (cases "trim_end_char c s") (auto simp: prefix_def)
qed

lemma trim_char_ends:
  "trim_char c s = [] \<or> hd (trim_char c s) \<noteq> c \<and> last (trim_char c s) \<noteq> c"
  unfolding trim_char_def
  using trim_end_char_last [of c "trim_start_char c s"] trim_end_char_hd [of c "trim_start_char c s"] trim_start_char_hd [of c s]
  by (cases "trim_end_char c (trim_start_char c s) = []") (auto, simp add: trim_end_char_def)

lemma trim_char_done: "s = [] \<or> hd s \<noteq> c \<and> last s \<noteq> c \<Longrightarrow> trim_char c s = s"
  by (auto simp: trim_char_def trim_start_char_done trim_end_char_done)

lemma trim_char_idem: "trim_char c (trim_char c s) = trim_char c s"
  by (rule trim_char_done) (use trim_char_ends in auto)

lemma set_trim_char: "set (trim_char c s) \<subseteq> set s"
  by (auto simp: trim_char_def trim_end_char_def trim_start_char_def dest!: set_dropWhileD)

subsection \<open>Splitting and joining\<close>

lemma split_on_single: "c \<notin> set p \<Longrightarrow> split_on c p = [p]"
  by (induction p) auto

lemma split_on_append: "c \<notin> set p \<Longrightarrow> split_on c (p @ c # r) = p # split_on c r"
  by (induction p) auto

lemma split_on_join: "xs \<noteq> [] \<Longrightarrow> list_all (\<lambda>x. c \<notin> set x) xs \<Longrightarrow> split_on c (join [c] xs) = xs"
  by (induction "[c]" xs rule: join.induct) (auto simp: split_on_single split_on_append)

lemma split_on_parts: "list_all (\<lambda>x. set x \<subseteq> set s - {c}) (split_on c s)"
proof (induction s)
  case (Cons b s)
  then show ?case by (cases "split_on c s") (auto simp: list_all_iff)
qed simp

lemma set_join_subset: "set (join sep xs) \<subseteq> set sep \<union> (\<Union>x \<in> set xs. set x)"
  by (induction sep xs rule: join.induct) auto

lemma join_last: "xs \<noteq> [] \<Longrightarrow> last xs \<noteq> [] \<Longrightarrow> join sep xs \<noteq> [] \<and> last (join sep xs) = last (last xs)"
  by (induction sep xs rule: join.induct) auto

lemma join_hd: "xs \<noteq> [] \<Longrightarrow> hd xs \<noteq> [] \<Longrightarrow> hd (join sep xs) = hd (hd xs)"
  by (induction sep xs rule: join.induct) auto

lemma replace_join:
  "list_all (\<lambda>x. a \<notin> set x) xs \<Longrightarrow> replace_char a b (join [a] xs) = join [b] xs"
  by (induction "[a]" xs rule: join.induct) (auto simp: replace_char_absent)

subsection \<open>Letters\<close>

lemma alpha_byte: "is_ascii_alpha c \<longleftrightarrow> 65 \<le> byte c \<and> byte c \<le> 90 \<or> 97 \<le> byte c \<and> byte c \<le> 122"
  by (auto simp: is_ascii_alpha_def byte_in_def)

lemma alpha_neq [simp]:
  assumes "is_ascii_alpha c"
  shows "c \<noteq> SLASH" "c \<noteq> BSLASH" "c \<noteq> COLON" "\<not> is_separator c"
  using assms by (auto simp: alpha_byte sep_chars byte_def is_separator_def)

lemma byte_char_of: "n < 256 \<Longrightarrow> byte (char_of n) = n"
  by (simp add: byte_def)

lemma upper_alpha [simp]: "is_ascii_alpha c \<Longrightarrow> is_ascii_alpha (to_ascii_upper c)"
  by (auto simp: alpha_byte to_ascii_upper_def byte_in_def byte_char_of)

lemma upper_upper [simp]: "to_ascii_upper (to_ascii_upper c) = to_ascii_upper c"
  by (auto simp: to_ascii_upper_def byte_in_def byte_char_of)

lemma upper_lower [simp]: "to_ascii_upper (to_ascii_lower c) = to_ascii_upper c"
  by (auto simp: to_ascii_upper_def to_ascii_lower_def byte_in_def byte_char_of byte_def)

lemma lower_upper [simp]: "to_ascii_lower (to_ascii_upper c) = to_ascii_lower c"
  by (auto simp: to_ascii_upper_def to_ascii_lower_def byte_in_def byte_char_of byte_def)

lemma lower_alpha [simp]: "is_ascii_alpha c \<Longrightarrow> is_ascii_alpha (to_ascii_lower c)"
  by (auto simp: alpha_byte to_ascii_lower_def byte_in_def byte_char_of)

lemma is_drive_path_Cons [simp]: "is_drive_path (d # COLON # s) = is_ascii_alpha d"
  by (simp add: is_drive_path_def)

lemma is_drive_path_shape: "is_drive_path s \<longleftrightarrow> (\<exists>d r. s = d # COLON # r \<and> is_ascii_alpha d)"
  by (auto simp: is_drive_path_def split: list.splits)

lemma not_drive_sep [simp]: "\<not> is_drive_path (SLASH # s)" "\<not> is_drive_path (BSLASH # s)" "\<not> is_drive_path []"
  by (auto simp: is_drive_path_shape dest: alpha_neq)

subsection \<open>Normal forms are fixed points\<close>

lemma drive_not_verbatim [simp]: "is_ascii_alpha d \<Longrightarrow> strip_verbatim_disk_prefix (d # s) = d # s"
  using alpha_neq [of d] by (auto simp: strip_verbatim_disk_prefix_def strip_prefix_def verbatim_prefix_def sep_chars)

lemma drive_not_share [simp]: "is_ascii_alpha d \<Longrightarrow> \<not> is_share_root (d # s)"
  using alpha_neq [of d] by (auto simp: is_share_root_def Let_def sep_chars)

lemma drive_not_ssh [simp]: "\<not> is_ssh_url (d # COLON # s)"
  by (auto simp: is_ssh_url_def eq_ignore_ascii_case_def to_ascii_lower_def byte_in_def byte_def sep_chars)

lemma format_drive_tail:
  assumes "BSLASH \<notin> set t" and "is_ascii_alpha d" and "to_ascii_upper d = d"
  defines "u \<equiv> trim_char SLASH t"
  shows "trim_trailing_separators (d # COLON # BSLASH # replace_char SLASH BSLASH u)
    = d # COLON # BSLASH # replace_char SLASH BSLASH u"
proof -
  have u: "u = [] \<or> hd u \<noteq> SLASH \<and> last u \<noteq> SLASH" and "BSLASH \<notin> set u"
    using trim_char_ends [of SLASH t] set_trim_char [of SLASH t] assms(1) by (auto simp: u_def)
  then have "u \<noteq> [] \<Longrightarrow> \<not> is_separator (last (replace_char SLASH BSLASH u))"
    by (cases u rule: rev_cases) (auto simp: is_separator_def)
  then have "pop_separators 3 (d # COLON # BSLASH # replace_char SLASH BSLASH u) = d # COLON # BSLASH # replace_char SLASH BSLASH u"
    by (intro pop_separators_done) (cases "u = []", auto simp: replace_char_def)
  then show ?thesis using assms(2) by (simp add: trim_trailing_separators_def trim_min_len_def)
qed

text \<open>What \<open>dunce\<close> documents: it rewrites verbatim names only.\<close>

definition shortens_verbatim_only :: "(bytes \<Rightarrow> bytes) \<Rightarrow> bool" where
  "shortens_verbatim_only dunce = (\<forall>s. \<not> prefix verbatim_prefix s \<longrightarrow> dunce s = s)"

lemma dunce_other:
  assumes "shortens_verbatim_only dunce" and "c \<noteq> BSLASH"
  shows "dunce (c # s) = c # s"
  using assms by (auto simp: shortens_verbatim_only_def verbatim_prefix_def)

lemma canonical_drive_form:
  assumes "shortens_verbatim_only dunce" and "BSLASH \<notin> set t" and "is_ascii_alpha d" and "to_ascii_upper d = d"
  shows "canonical_project_path dunce (format_drive_path d t) = format_drive_path d t"
proof -
  define u where "u = trim_char SLASH t"
  have u: "u = [] \<or> hd u \<noteq> SLASH \<and> last u \<noteq> SLASH" and "BSLASH \<notin> set u"
    using trim_char_ends [of SLASH t] set_trim_char [of SLASH t] assms(2) by (auto simp: u_def)
  have form: "format_drive_path d t = d # COLON # BSLASH # replace_char SLASH BSLASH u"
    by (simp add: format_drive_path_def u_def)
  have norm: "normalize_project_path dunce (format_drive_path d t) = format_drive_path d t"
    using format_drive_tail [OF assms(2-4)] assms dunce_other [OF assms(1)]
    by (simp add: normalize_project_path_def form u_def)
  have slashes: "replace_char BSLASH SLASH (format_drive_path d t) = d # COLON # SLASH # u"
    using replace_char_back [OF \<open>BSLASH \<notin> set u\<close>] assms(3) by (auto simp: form)
  have "trim_start_char SLASH (SLASH # u) = u" using u by (auto simp: trim_start_char_def dropWhile_eq_self_iff)
  then have "canonical_windows_drive_path (d # COLON # SLASH # u) = Some (format_drive_path d u)"
    using assms by (simp add: canonical_windows_drive_path_def)
  moreover have "format_drive_path d u = format_drive_path d t"
    by (simp add: format_drive_path_def u_def trim_char_idem)
  moreover have "\<not> is_ssh_url (format_drive_path d t)" by (simp add: form)
  ultimately show ?thesis by (simp add: canonical_project_path_def norm slashes)
qed

lemma canonical_drive_only:
  assumes "shortens_verbatim_only dunce" and "is_ascii_alpha d" and "to_ascii_upper d = d"
  shows "canonical_project_path dunce [d, COLON] = [d, COLON]"
  using assms dunce_other [OF assms(1)] by (simp add: canonical_project_path_def normalize_project_path_def trim_trailing_separators_def
      trim_min_len_def pop_separators_done canonical_windows_drive_path_def)

lemma bs_not_ssh [simp]: "\<not> is_ssh_url (BSLASH # s)" "\<not> is_ssh_url (SLASH # s)"
  by (auto simp: is_ssh_url_def eq_ignore_ascii_case_def to_ascii_lower_def byte_in_def byte_def sep_chars)

lemma strip_verbatim_other: "\<not> prefix verbatim_prefix (BSLASH # s) \<Longrightarrow> strip_verbatim_disk_prefix (BSLASH # s) = BSLASH # s"
  by (auto simp: strip_verbatim_disk_prefix_def strip_prefix_def sep_chars)

text \<open>A name that begins with two backslashes and is not verbatim stays, if nothing is left to trim.\<close>

lemma normalize_unc:
  assumes "shortens_verbatim_only dunce" and "\<not> prefix verbatim_prefix (BSLASH # s)"
    and "trim_trailing_separators (BSLASH # s) = BSLASH # s"
  shows "normalize_project_path dunce (BSLASH # s) = BSLASH # s"
  using assms strip_verbatim_other [OF assms(2)]
  by (simp add: normalize_project_path_def shortens_verbatim_only_def)

lemma trimmed_if: "s \<noteq> [] \<Longrightarrow> \<not> is_separator (last s) \<Longrightarrow> trim_trailing_separators s = s"
  by (simp add: trim_trailing_separators_def pop_separators_done)

definition wsl_form :: "bytes \<Rightarrow> bytes list \<Rightarrow> bytes" where
  "wsl_form distro remote = [BSLASH, BSLASH] @ ''wsl.localhost'' @ [BSLASH] @ distro
     @ (if remote = [] then [] else BSLASH # join [BSLASH] remote)"

definition clean :: "bytes \<Rightarrow> bool" where
  "clean p = (p \<noteq> [] \<and> SLASH \<notin> set p \<and> BSLASH \<notin> set p)"

lemma wsl_form_join: "wsl_form distro remote = BSLASH # BSLASH # join [BSLASH] (''wsl.localhost'' # distro # remote)"
  by (cases remote) (simp_all add: wsl_form_def)

lemma join_clean_last:
  assumes "list_all clean xs" and "xs \<noteq> []"
  shows "join sep xs \<noteq> []" and "\<not> is_separator (last (join sep xs))"
proof -
  have "clean (last xs)" using assms by (simp add: list_all_iff)
  then show "join sep xs \<noteq> []" "\<not> is_separator (last (join sep xs))"
    using join_last [OF assms(2), of sep] last_in_set [of "last xs"] by (auto simp: clean_def is_separator_def) (metis last_in_set)+
qed

lemma server_clean: "clean ''wsl.localhost''"
  by (simp add: clean_def sep_chars)

lemma slashes_join:
  "list_all clean xs \<Longrightarrow> replace_char BSLASH SLASH (join [BSLASH] xs) = join [SLASH] xs"
  by (rule replace_join) (auto simp: list_all_iff clean_def)

lemma split_join_clean: "list_all clean xs \<Longrightarrow> xs \<noteq> [] \<Longrightarrow> split_on SLASH (join [SLASH] xs) = xs"
  by (rule split_on_join) (auto simp: list_all_iff clean_def)

lemma filter_clean: "list_all clean xs \<Longrightarrow> filter (\<lambda>p. p \<noteq> []) xs = xs"
  by (rule filter_True) (auto simp: list_all_iff clean_def)

lemma strip_two [simp]: "strip_prefix ''//'' (SLASH # SLASH # s) = Some s"
  by (simp add: strip_prefix_def sep_chars)

lemma mnt_not_two [simp]: "canonical_mnt_drive_path (SLASH # SLASH # s) = None"
  by (simp add: canonical_mnt_drive_path_def strip_prefix_def sep_chars)

lemma drive_not_slash [simp]: "canonical_windows_drive_path (SLASH # s) = None"
  by (simp add: canonical_windows_drive_path_def)

lemma not_verbatim_wsl: "\<not> prefix verbatim_prefix (BSLASH # BSLASH # join [BSLASH] (''wsl.localhost'' # distro # remote))"
  by (simp add: verbatim_prefix_def)

lemma wsl_plain:
  assumes "\<not> (\<exists>drive d tail. remote = ''mnt'' # drive # tail \<and> single_drive_letter drive = Some d)"
  shows "(case remote of
      mnt # drive # tail \<Rightarrow>
        (case single_drive_letter drive of
           Some d \<Rightarrow> if mnt = ''mnt'' then Some (format_drive_path d (join ''/'' tail)) else Some plain
         | None \<Rightarrow> Some plain)
    | _ \<Rightarrow> Some plain) = Some plain"
  using assms by (auto split: list.split option.split)

lemma canonical_wsl_plain:
  assumes "split_on SLASH rest = server # distro # parts" and "matches_wsl_server server" and "distro \<noteq> []"
    and "filter (\<lambda>p. p \<noteq> []) parts = remote"
    and "\<not> (\<exists>drive d tail. remote = ''mnt'' # drive # tail \<and> single_drive_letter drive = Some d)"
  shows "canonical_wsl_unc_path (SLASH # SLASH # rest) = Some (wsl_form distro remote)"
  using assms(1-4) wsl_plain [OF assms(5)] by (simp add: canonical_wsl_unc_path_def wsl_form_def)

lemma canonical_wsl_form:
  assumes "shortens_verbatim_only dunce" and "clean distro" and "list_all clean remote"
    and "\<not> (\<exists>drive d tail. remote = ''mnt'' # drive # tail \<and> single_drive_letter drive = Some d)"
  shows "canonical_project_path dunce (wsl_form distro remote) = wsl_form distro remote"
proof -
  let ?xs = "''wsl.localhost'' # distro # remote"
  have clean: "list_all clean ?xs" using assms(2,3) server_clean by simp
  have last: "\<not> is_separator (last (BSLASH # BSLASH # join [BSLASH] ?xs))"
    using join_clean_last [OF clean, of "[BSLASH]"] by simp
  have norm: "normalize_project_path dunce (wsl_form distro remote) = wsl_form distro remote"
    unfolding wsl_form_join by (rule normalize_unc [OF assms(1) not_verbatim_wsl trimmed_if]) (use last in auto)
  have slashes: "replace_char BSLASH SLASH (wsl_form distro remote) = SLASH # SLASH # join [SLASH] ?xs"
    unfolding wsl_form_join using slashes_join [OF clean] by simp
  have "matches_wsl_server ''wsl.localhost''" by (simp add: matches_wsl_server_def eq_ignore_ascii_case_def)
  moreover have "split_on SLASH (join [SLASH] ?xs) = ?xs" by (rule split_join_clean [OF clean]) simp
  moreover have "distro \<noteq> []" using assms(2) by (simp add: clean_def)
  ultimately have "canonical_wsl_unc_path (SLASH # SLASH # join [SLASH] ?xs) = Some (wsl_form distro remote)"
    using canonical_wsl_plain filter_clean [OF assms(3)] assms(4) by blast
  then show ?thesis
    by (simp add: canonical_project_path_def norm slashes)
qed

lemma pop_separators_length: "min n (length s) \<le> length (pop_separators n s)"
proof (induction n s rule: pop_separators.induct)
  case (1 n s)
  then show ?case by (subst pop_separators.simps) auto
qed

lemma trim_min_len_cases:
  "trim_min_len s = 1 \<and> s \<noteq> [] \<and> is_separator (hd s)
   \<or> trim_min_len s = 3 \<and> is_drive_path s \<and> 2 < length s \<and> is_separator (s ! 2) \<or> trim_min_len s = 0"
  by (auto simp: trim_min_len_def)

lemma is_share_root_slashes: "is_share_root (replace_char BSLASH SLASH s) = is_share_root s"
  "is_share_root (replace_char SLASH BSLASH (replace_char BSLASH SLASH s)) = is_share_root s"
  by (simp_all add: is_share_root_def replace_char_absent replace_char_gone replace_char_back)

lemma is_separator_replace [simp]:
  "is_separator (if c = BSLASH then SLASH else c) = is_separator c"
  "is_separator (if c = SLASH then BSLASH else c) = is_separator c"
  by (auto simp: is_separator_def)

lemma last_replace_separator:
  "s \<noteq> [] \<Longrightarrow> is_separator (last (replace_char BSLASH SLASH s)) = is_separator (last s)"
  "s \<noteq> [] \<Longrightarrow> is_separator (last (replace_char SLASH BSLASH s)) = is_separator (last s)"
  by (simp_all add: replace_char_def last_map)

lemma trimmed_cases:
  assumes "w = trim_trailing_separators v"
  shows "w = [] \<or> is_share_root w \<or> \<not> is_separator (last w) \<or> length w = 1 \<and> is_separator (hd w)
    \<or> length w = 3 \<and> is_drive_path w \<and> is_separator (w ! 2)"
proof (cases "v = [] \<or> is_share_root v")
  case True
  then show ?thesis using assms by (auto simp: trim_trailing_separators_def)
next
  case False
  then have w: "w = pop_separators (trim_min_len v) v" using assms by (simp add: trim_trailing_separators_def)
  have len: "min (trim_min_len v) (length v) \<le> length w" unfolding w by (rule pop_separators_length)
  obtain r where v: "v = w @ r" using pop_separators_prefix [of "trim_min_len v" v] w by (auto simp: prefix_def)
  consider "w = []" | "\<not> is_separator (last w)" | "length w \<le> trim_min_len v"
    using pop_separators_result [of "trim_min_len v" v] w by auto
  then show ?thesis
  proof cases
    case 3
    show ?thesis
      using trim_min_len_cases [of v]
    proof (elim disjE)
      assume "trim_min_len v = 1 \<and> v \<noteq> [] \<and> is_separator (hd v)"
      then show ?thesis using 3 len v by (cases w) auto
    next
      assume m: "trim_min_len v = 3 \<and> is_drive_path v \<and> 2 < length v \<and> is_separator (v ! 2)"
      then have "length w = 3" using 3 len by auto
      then show ?thesis using m v by (auto simp: is_drive_path_shape nth_append numeral_3_eq_3 length_Suc_conv)
    qed (use 3 in auto)
  qed auto
qed

definition upper_drive :: "bytes \<Rightarrow> bool" where
  "upper_drive s = (is_drive_path s \<longrightarrow> to_ascii_upper (hd s) = hd s)"

lemma trim_prefix: "prefix (trim_trailing_separators v) v"
  by (simp add: trim_trailing_separators_def pop_separators_prefix)

lemma drive_prefix: "prefix w v \<Longrightarrow> is_drive_path w \<Longrightarrow> is_drive_path v \<and> hd v = hd w"
  by (auto simp: prefix_def is_drive_path_shape)

lemma normalize_upper: "upper_drive (normalize_project_path dunce p)"
proof -
  define v where "v = strip_verbatim_disk_prefix (dunce p)"
  define u where "u = (if is_drive_path v then to_ascii_upper (hd v) # tl v else v)"
  have n: "normalize_project_path dunce p = trim_trailing_separators u"
    by (simp add: normalize_project_path_def u_def v_def Let_def)
  have "is_drive_path u \<Longrightarrow> to_ascii_upper (hd u) = hd u"
    by (auto simp: u_def is_drive_path_shape split: if_splits)
  then show ?thesis unfolding upper_drive_def n using drive_prefix [OF trim_prefix, of u] by auto
qed

lemma slashes_drive: "is_drive_path (replace_char BSLASH SLASH w) = is_drive_path w"
proof -
  have "\<not> is_ascii_alpha SLASH" "\<not> is_ascii_alpha BSLASH" using alpha_neq by blast+
  then show ?thesis by (auto simp: is_drive_path_def split: list.split)
qed

lemma upper_drive_slashes: "upper_drive w \<Longrightarrow> upper_drive (replace_char BSLASH SLASH w)"
  unfolding upper_drive_def slashes_drive by (auto simp: is_drive_path_shape)

subsection \<open>Canonical names are fixed points\<close>

lemma canonical_windows_forms:
  assumes "canonical_windows_drive_path s = Some c" and "BSLASH \<notin> set s"
  shows "\<exists>d t. is_ascii_alpha d \<and> to_ascii_upper d = d \<and> BSLASH \<notin> set t \<and> (c = [d, COLON] \<or> c = format_drive_path d t)"
proof -
  obtain d r where s: "s = d # COLON # r" and d: "is_ascii_alpha d"
    using assms(1) by (auto simp: canonical_windows_drive_path_def is_drive_path_shape split: if_splits)
  have "c = [to_ascii_upper d, COLON] \<or> c = format_drive_path (to_ascii_upper d) (trim_start_char SLASH r)"
    using assms(1) d by (auto simp: s canonical_windows_drive_path_def Let_def split: if_splits)
  moreover have "BSLASH \<notin> set (trim_start_char SLASH r)"
    using assms(2) by (auto simp: s trim_start_char_def dest: set_dropWhileD)
  ultimately show ?thesis using d upper_alpha upper_upper by blast
qed

lemma canonical_mnt_forms:
  assumes "canonical_mnt_drive_path s = Some c" and "BSLASH \<notin> set s"
  shows "\<exists>d t. is_ascii_alpha d \<and> to_ascii_upper d = d \<and> BSLASH \<notin> set t \<and> c = format_drive_path d t"
proof -
  obtain d r where s: "strip_prefix ''/mnt/'' s = Some (d # r)" and d: "is_ascii_alpha d"
    and c: "c = format_drive_path (to_ascii_upper d) (trim_start_char SLASH r)"
    using assms(1) by (auto simp: canonical_mnt_drive_path_def split: option.splits list.splits if_splits)
  have "BSLASH \<notin> set (trim_start_char SLASH r)"
    using assms(2) s by (auto simp: strip_prefix_Some trim_start_char_def dest: set_dropWhileD)
  then show ?thesis using d upper_alpha upper_upper unfolding c by blast
qed

lemma canonical_wsl_forms:
  assumes "canonical_wsl_unc_path s = Some c" and "BSLASH \<notin> set s"
  shows "(\<exists>d t. is_ascii_alpha d \<and> to_ascii_upper d = d \<and> BSLASH \<notin> set t \<and> c = format_drive_path d t)
    \<or> (\<exists>distro remote. c = wsl_form distro remote \<and> clean distro \<and> list_all clean remote
         \<and> \<not> (\<exists>drive d tail. remote = ''mnt'' # drive # tail \<and> single_drive_letter drive = Some d))"
proof -
  obtain rest server distro parts where s: "strip_prefix ''//'' s = Some rest"
    and split: "split_on SLASH rest = server # distro # parts" "distro \<noteq> []" "matches_wsl_server server"
    using assms(1) by (auto simp: canonical_wsl_unc_path_def split: option.splits list.splits if_splits)
  define remote where "remote = filter (\<lambda>p. p \<noteq> []) parts"
  have "list_all (\<lambda>x. set x \<subseteq> set rest - {SLASH}) (server # distro # parts)"
    using split_on_parts [where s = rest and c = SLASH] split by simp
  moreover have "BSLASH \<notin> set rest" using assms(2) s by (auto simp: strip_prefix_Some)
  ultimately have clean: "clean distro" "list_all clean remote"
    using split(2) by (auto simp: clean_def list_all_iff remote_def)
  have s2: "s = SLASH # SLASH # rest" using s by (simp add: strip_prefix_Some sep_chars)
  show ?thesis
  proof (cases "\<exists>drive d tail. remote = ''mnt'' # drive # tail \<and> single_drive_letter drive = Some d")
    case False
    then have "c = wsl_form distro remote"
      using canonical_wsl_plain [OF split(1,3,2) remote_def [symmetric]] assms(1) s2 by auto
    then show ?thesis using clean False by blast
  next
    case True
    then obtain drive d tail where r: "remote = ''mnt'' # drive # tail" "single_drive_letter drive = Some d" by blast
    then have "c = format_drive_path d (join ''/'' tail)"
      using assms(1) s split by (auto simp: canonical_wsl_unc_path_def remote_def [symmetric])
    moreover have "BSLASH \<notin> set (join ''/'' tail)"
      using set_join_subset [of "''/''" tail] clean(2) r(1) by (auto simp: list_all_iff clean_def sep_chars)
    moreover have "is_ascii_alpha d \<and> to_ascii_upper d = d"
      using r(2) by (auto simp: single_drive_letter_def split: if_splits)
    ultimately show ?thesis by blast
  qed
qed

text \<open>The names that none of the three rules for mounted drives recognises.\<close>

definition unmapped :: "bytes \<Rightarrow> bool" where
  "unmapped s = (canonical_windows_drive_path s = None \<and> canonical_mnt_drive_path s = None \<and> canonical_wsl_unc_path s = None)"

lemma canonical_unc_fixed:
  assumes "shortens_verbatim_only dunce" and "s = replace_char BSLASH SLASH (normalize_project_path dunce p)"
    and "unmapped s" and "prefix ''//'' s" and "\<not> prefix verbatim_prefix (replace_char SLASH BSLASH s)"
  shows "canonical_project_path dunce (replace_char SLASH BSLASH s) = replace_char SLASH BSLASH s"
proof -
  define w where "w = normalize_project_path dunce p"
  have w: "s = replace_char BSLASH SLASH w" using assms(2) w_def by simp
  obtain v where "w = trim_trailing_separators v" by (auto simp: w_def normalize_project_path_def Let_def)
  note cases = trimmed_cases [OF this]
  obtain r where s: "s = SLASH # SLASH # r" using assms(4) by (auto simp: prefix_def sep_chars)
  then have c: "replace_char SLASH BSLASH s = BSLASH # BSLASH # replace_char SLASH BSLASH r" by simp
  have undo: "replace_char BSLASH SLASH (replace_char SLASH BSLASH s) = s"
    unfolding w by (rule replace_char_back) (rule replace_char_gone, simp)
  have "w \<noteq> []" "length w = length s" using w s by auto
  moreover have "\<not> is_drive_path w" using slashes_drive [of w] s w by simp
  ultimately have "is_share_root w \<or> \<not> is_separator (last w)" using cases s by auto
  then have "trim_trailing_separators (replace_char SLASH BSLASH s) = replace_char SLASH BSLASH s"
    using is_share_root_slashes(2) [of w] last_replace_separator [of s] last_replace_separator [of w] \<open>w \<noteq> []\<close> s
    by (auto simp: trim_trailing_separators_def w intro!: pop_separators_done)
  then have "normalize_project_path dunce (replace_char SLASH BSLASH s) = replace_char SLASH BSLASH s"
    using normalize_unc [OF assms(1)] assms(5) unfolding c by blast
  moreover have "\<not> is_ssh_url (replace_char SLASH BSLASH s)" unfolding c by simp
  ultimately show ?thesis using assms(3,4) by (simp add: canonical_project_path_def undo unmapped_def)
qed

lemma canonical_plain_fixed:
  assumes "shortens_verbatim_only dunce" and "s = replace_char BSLASH SLASH (normalize_project_path dunce p)"
    and "unmapped s" and "\<not> prefix ''//'' s"
  shows "canonical_project_path dunce s = s"
proof -
  define w where "w = normalize_project_path dunce p"
  have w: "s = replace_char BSLASH SLASH w" using assms(2) w_def by simp
  obtain v where "w = trim_trailing_separators v" by (auto simp: w_def normalize_project_path_def Let_def)
  note shape = trimmed_cases [OF this]
  have no_bs: "BSLASH \<notin> set s" unfolding w by (rule replace_char_gone) simp
  then have "\<not> prefix verbatim_prefix s" by (auto simp: verbatim_prefix_def prefix_def)
  then have "dunce s = s" using assms(1) by (simp add: shortens_verbatim_only_def)
  moreover have "strip_verbatim_disk_prefix s = s"
    using no_bs assms(4)
    by (auto simp: strip_verbatim_disk_prefix_def strip_prefix_def verbatim_prefix_def prefix_def)
  moreover have "upper_drive s" unfolding w by (rule upper_drive_slashes) (simp add: w_def normalize_upper)
  then have "(if is_drive_path s then to_ascii_upper (hd s) # tl s else s) = s"
    by (auto simp: upper_drive_def is_drive_path_shape)
  moreover have "trim_trailing_separators s = s"
  proof -
    have no_share: "\<not> is_share_root w" "\<not> is_share_root s"
      using assms(4) no_bs by (auto simp: is_share_root_def Let_def w replace_char_absent replace_char_gone)
    have "s = [] \<or> \<not> is_separator (last s) \<or> length s \<le> trim_min_len s"
      using shape
    proof (elim disjE)
      assume "length w = 1 \<and> is_separator (hd w)"
      then show ?thesis by (auto simp: w length_Suc_conv trim_min_len_def)
    next
      assume drive: "length w = 3 \<and> is_drive_path w \<and> is_separator (w ! 2)"
      then obtain d a where "w = [d, COLON, a]" "is_separator a" "is_ascii_alpha d"
        by (auto simp: is_drive_path_shape numeral_3_eq_3 length_Suc_conv)
      then have "s = [d, COLON, SLASH]" by (auto simp: w is_separator_def dest: alpha_neq)
      then show ?thesis using \<open>is_ascii_alpha d\<close> by (simp add: trim_min_len_def)
    next
      assume "\<not> is_separator (last w)"
      then show ?thesis using last_replace_separator(1) [of w] by (cases "w = []") (simp_all add: w)
    qed (use no_share w in auto)
    then show ?thesis using no_share by (auto simp: trim_trailing_separators_def pop_separators_done)
  qed
  ultimately have "normalize_project_path dunce s = s" by (simp add: normalize_project_path_def)
  moreover have "replace_char BSLASH SLASH s = s" using no_bs by (rule replace_char_absent)
  ultimately show ?thesis using assms(3,4) by (simp add: canonical_project_path_def unmapped_def)
qed

text \<open>A canonical name is canonical: taking the canonical name of a project path a second time
  changes nothing, whatever spelling it came from, unless it is still a verbatim Windows name.\<close>

theorem canonical_idempotent:
  assumes "shortens_verbatim_only dunce" and "\<not> prefix verbatim_prefix (canonical_project_path dunce p)"
  shows "canonical_project_path dunce (canonical_project_path dunce p) = canonical_project_path dunce p"
proof (cases "is_ssh_url p")
  case False
  define s where "s = replace_char BSLASH SLASH (normalize_project_path dunce p)"
  have no_bs: "BSLASH \<notin> set s" unfolding s_def by (rule replace_char_gone) simp
  let ?fixed = "\<lambda>c. canonical_project_path dunce c = c"
  have drive: "?fixed c" if "is_ascii_alpha d \<and> to_ascii_upper d = d \<and> BSLASH \<notin> set t \<and> (c = [d, COLON] \<or> c = format_drive_path d t)" for c d t
    using that canonical_drive_only [OF assms(1)] canonical_drive_form [OF assms(1)] by blast
  show ?thesis
  proof (cases "unmapped s")
    case True
    then have c: "canonical_project_path dunce p = (if prefix ''//'' s then replace_char SLASH BSLASH s else s)"
      using False by (simp add: canonical_project_path_def unmapped_def s_def [symmetric])
    show ?thesis
      using canonical_unc_fixed [OF assms(1) s_def True] canonical_plain_fixed [OF assms(1) s_def True] assms(2)
      unfolding c by auto
  next
    case mapped: False
    then obtain c where "canonical_project_path dunce p = c"
      and "canonical_windows_drive_path s = Some c \<or> canonical_mnt_drive_path s = Some c \<or> canonical_wsl_unc_path s = Some c"
      using False by (auto simp: unmapped_def canonical_project_path_def s_def [symmetric] split: option.splits)
    then show ?thesis
      using canonical_windows_forms [OF _ no_bs] canonical_mnt_forms [OF _ no_bs] canonical_wsl_forms [OF _ no_bs]
        drive canonical_wsl_form [OF assms(1)] by metis
  qed
qed (simp add: canonical_project_path_def)

theorem canonical_idempotent_witness:
  "let c = canonical_project_path (\<lambda>s. s) ''//wsl$/Ubuntu/mnt/d/Repos/App/''
   in c = ''D:'' @ [BSLASH] @ ''Repos'' @ [BSLASH] @ ''App'' \<and> canonical_project_path (\<lambda>s. s) c = c"
proof -
  let ?c = "canonical_project_path (\<lambda>s. s) ''//wsl$/Ubuntu/mnt/d/Repos/App/''"
  have c: "?c = ''D:'' @ [BSLASH] @ ''Repos'' @ [BSLASH] @ ''App''" by code_simp
  have "canonical_project_path (\<lambda>s. s) ?c = ?c"
    by (rule canonical_idempotent) (simp add: shortens_verbatim_only_def, unfold c, simp add: verbatim_prefix_def sep_chars)
  then show ?thesis using c by (simp add: Let_def)
qed

subsection \<open>One directory, three spellings\<close>

text \<open>The directory with path \<open>ps\<close> on drive \<open>d\<close>, as Windows, a WSL guest, and Windows looking
  into a WSL guest write it.\<close>

datatype spelling = WindowsDrive | WslMount | WslUnc bytes bytes

fun spell :: "spelling \<Rightarrow> char \<Rightarrow> bytes list \<Rightarrow> bytes" where
  "spell WindowsDrive d ps = d # COLON # BSLASH # join [BSLASH] ps"
| "spell WslMount d ps = ''/mnt/'' @ [d] @ (if ps = [] then [] else SLASH # join [SLASH] ps)"
| "spell (WslUnc server distro) d ps = BSLASH # BSLASH # join [BSLASH] (server # distro # ''mnt'' # [d] # ps)"

fun spelling_ok :: "spelling \<Rightarrow> bool" where
  "spelling_ok (WslUnc server distro) = (matches_wsl_server server \<and> clean server \<and> clean distro)"
| "spelling_ok _ = True"

lemma replace_join_back: "list_all clean xs \<Longrightarrow> replace_char SLASH BSLASH (join [SLASH] xs) = join [BSLASH] xs"
  by (rule replace_join) (auto simp: list_all_iff clean_def)

lemma trim_join_clean:
  assumes "list_all clean ps"
  shows "trim_char SLASH (join [SLASH] ps) = join [SLASH] ps" "trim_start_char SLASH (join [SLASH] ps) = join [SLASH] ps"
proof -
  have "join [SLASH] ps = [] \<or> hd (join [SLASH] ps) \<noteq> SLASH \<and> last (join [SLASH] ps) \<noteq> SLASH"
  proof (cases ps)
    case (Cons p qs)
    then have "p \<noteq> []" "hd p \<noteq> SLASH" using assms by (auto simp: clean_def neq_Nil_conv)
    then show ?thesis using Cons join_hd [of ps "[SLASH]"] join_clean_last [OF assms, of "[SLASH]"]
      by (auto simp: is_separator_def)
  qed simp
  then show "trim_char SLASH (join [SLASH] ps) = join [SLASH] ps" "trim_start_char SLASH (join [SLASH] ps) = join [SLASH] ps"
    by (auto simp: trim_char_done trim_start_char_done)
qed

lemma format_drive_clean:
  "list_all clean ps \<Longrightarrow> format_drive_path d (join [SLASH] ps) = d # COLON # BSLASH # join [BSLASH] ps"
  by (simp add: format_drive_path_def trim_join_clean replace_join_back)

lemma spell_windows:
  assumes "shortens_verbatim_only dunce" and "is_ascii_alpha d" and "list_all clean ps"
  shows "canonical_project_path dunce (spell WindowsDrive d ps) = to_ascii_upper d # COLON # BSLASH # join [BSLASH] ps"
proof -
  define c where "c = to_ascii_upper d # COLON # BSLASH # join [BSLASH] ps"
  have "trim_trailing_separators c = c"
    using join_clean_last [OF assms(3), of "[BSLASH]"] assms(2)
    by (cases "ps = []") (auto simp: c_def trim_trailing_separators_def trim_min_len_def pop_separators_done)
  then have "normalize_project_path dunce (spell WindowsDrive d ps) = c"
    using assms(2) dunce_other [OF assms(1)] by (simp add: normalize_project_path_def c_def)
  moreover have "replace_char BSLASH SLASH c = to_ascii_upper d # COLON # SLASH # join [SLASH] ps"
    using assms(2) alpha_neq [of "to_ascii_upper d"] slashes_join [OF assms(3)] by (simp add: c_def)
  moreover have "trim_start_char SLASH (SLASH # join [SLASH] ps) = join [SLASH] ps"
    using trim_join_clean(2) [OF assms(3)] by (simp add: trim_start_char_def)
  ultimately show ?thesis
    using assms(2) format_drive_clean [OF assms(3)]
    by (simp add: canonical_project_path_def canonical_windows_drive_path_def)
qed

lemma spell_mount:
  assumes "shortens_verbatim_only dunce" and "is_ascii_alpha d" and "list_all clean ps"
  shows "canonical_project_path dunce (spell WslMount d ps) = to_ascii_upper d # COLON # BSLASH # join [BSLASH] ps"
proof -
  define c where "c = spell WslMount d ps"
  define t where "t = (if ps = [] then [] else SLASH # join [SLASH] ps)"
  have c: "c = SLASH # ''mnt/'' @ d # t" by (simp add: c_def t_def sep_chars)
  have "trim_trailing_separators c = c"
    by (rule trimmed_if) (use join_clean_last [OF assms(3), of "[SLASH]"] alpha_neq [OF assms(2)] in \<open>auto simp: c t_def\<close>)
  moreover have "strip_verbatim_disk_prefix c = c"
    by (simp add: c strip_verbatim_disk_prefix_def strip_prefix_def verbatim_prefix_def sep_chars)
  ultimately have norm: "normalize_project_path dunce c = c"
    using dunce_other [OF assms(1), of SLASH] by (simp add: normalize_project_path_def c)
  have "BSLASH \<notin> set c"
    using set_join_subset [of "[SLASH]" ps] assms(3) alpha_neq [OF assms(2)]
    by (auto simp: c t_def list_all_iff clean_def) (simp_all add: sep_chars)
  then have slashes: "replace_char BSLASH SLASH c = c" by (rule replace_char_absent)
  have "trim_start_char SLASH t = join [SLASH] ps"
    using trim_join_clean(2) [OF assms(3)] by (simp add: t_def trim_start_char_def)
  moreover have "strip_prefix ''/mnt/'' c = Some (d # t)" by (simp add: strip_prefix_Some c sep_chars)
  ultimately have "canonical_mnt_drive_path c = Some (to_ascii_upper d # COLON # BSLASH # join [BSLASH] ps)"
    using assms(2) format_drive_clean [OF assms(3)] by (simp add: canonical_mnt_drive_path_def t_def)
  then have "canonical_project_path dunce c = to_ascii_upper d # COLON # BSLASH # join [BSLASH] ps"
    using norm slashes by (simp add: canonical_project_path_def c)
  then show ?thesis by (simp add: c_def)
qed

lemma wsl_server_head:
  assumes "matches_wsl_server server"
  shows "\<exists>a as. server = a # as \<and> a \<noteq> CHR ''?''"
proof -
  have "map to_ascii_lower ''wsl.localhost'' = ''wsl.localhost''" "map to_ascii_lower ''wsl$'' = ''wsl$''"
    "map to_ascii_lower ''wsl'' = ''wsl''" "to_ascii_lower CHR ''?'' = CHR ''?''" by code_simp+
  then show ?thesis using assms by (cases server) (auto simp: matches_wsl_server_def eq_ignore_ascii_case_def)
qed

lemma spell_unc:
  assumes "shortens_verbatim_only dunce" and "is_ascii_alpha d" and "list_all clean ps" and "spelling_ok (WslUnc server distro)"
  shows "canonical_project_path dunce (spell (WslUnc server distro) d ps) = to_ascii_upper d # COLON # BSLASH # join [BSLASH] ps"
proof -
  define xs where "xs = server # distro # ''mnt'' # [d] # ps"
  define c where "c = BSLASH # BSLASH # join [BSLASH] xs"
  have clean: "list_all clean xs" using assms alpha_neq [OF assms(2)] by (auto simp: xs_def clean_def sep_chars)
  obtain a as where server: "server = a # as" "a \<noteq> CHR ''?''"
    using wsl_server_head [of server] assms(4) by auto
  have "\<not> prefix verbatim_prefix c" using server(2) by (auto simp: c_def xs_def server(1) verbatim_prefix_def)
  moreover have "trim_trailing_separators c = c"
    by (rule trimmed_if) (use join_clean_last [OF clean, of "[BSLASH]"] in \<open>auto simp: c_def xs_def\<close>)
  ultimately have norm: "normalize_project_path dunce c = c"
    using normalize_unc [OF assms(1)] unfolding c_def by blast
  have slashes: "replace_char BSLASH SLASH c = SLASH # SLASH # join [SLASH] xs"
    using slashes_join [OF clean] by (simp add: c_def)
  have split: "split_on SLASH (join [SLASH] xs) = xs" by (rule split_join_clean [OF clean]) (simp add: xs_def)
  have "filter (\<lambda>p. p \<noteq> []) (''mnt'' # [d] # ps) = ''mnt'' # [d] # ps" using filter_clean [OF assms(3)] by simp
  then have "canonical_wsl_unc_path (SLASH # SLASH # join [SLASH] xs) = Some (format_drive_path (to_ascii_upper d) (join ''/'' ps))"
    using split assms(2,4) by (simp add: canonical_wsl_unc_path_def xs_def clean_def single_drive_letter_def Let_def)
  moreover have "''/'' = [SLASH]" by (simp add: sep_chars)
  ultimately have "canonical_project_path dunce c = to_ascii_upper d # COLON # BSLASH # join [BSLASH] ps"
    using norm slashes format_drive_clean [OF assms(3)] by (simp add: canonical_project_path_def) (simp add: c_def)
  then show ?thesis by (simp add: c_def xs_def)
qed

lemma map_join: "map f (join sep xs) = join (map f sep) (map (map f) xs)"
  by (induction sep xs rule: join.induct) auto

lemma lower_separator: "to_ascii_lower c = SLASH \<Longrightarrow> c = SLASH" "to_ascii_lower c = BSLASH \<Longrightarrow> c = BSLASH"
proof -
  have "byte SLASH = 47" "byte BSLASH = 92" by (simp_all add: sep_chars byte_def)
  moreover have "97 \<le> byte (to_ascii_lower c) \<and> byte (to_ascii_lower c) \<le> 122" if "byte_in 65 90 c"
    using that by (auto simp: to_ascii_lower_def byte_in_def byte_char_of)
  moreover have "to_ascii_lower c = c" if "\<not> byte_in 65 90 c" using that by (simp add: to_ascii_lower_def)
  ultimately show "to_ascii_lower c = SLASH \<Longrightarrow> c = SLASH" "to_ascii_lower c = BSLASH \<Longrightarrow> c = BSLASH" by force+
qed

lemma lower_clean: "clean p \<Longrightarrow> clean (map to_ascii_lower p)"
  by (auto simp: clean_def dest: lower_separator [OF sym])

lemma join_clean_inj:
  assumes "list_all clean xs" and "list_all clean ys" and "join [BSLASH] xs = join [BSLASH] ys"
  shows "xs = ys"
proof -
  have Nil: "xs = [] \<longleftrightarrow> ys = []"
    using join_clean_last(1) [OF assms(1), of "[BSLASH]"] join_clean_last(1) [OF assms(2), of "[BSLASH]"] assms(3) by force
  have "split_on BSLASH (join [BSLASH] zs) = zs" if "zs \<noteq> []" "list_all clean zs" for zs
    by (rule split_on_join [OF that(1)]) (use that(2) in \<open>auto simp: list_all_iff clean_def\<close>)
  then show ?thesis using assms Nil by metis
qed

text \<open>C39: A project has one identity on every host: for the Windows spelling, the mount point in a WSL
  guest and the network name of that mount point, two paths are the same project exactly when
  drive and directories are the same up to the case of letters; so a project registered under one
  spelling is found under the others, and no two projects are confused.\<close>

theorem project_identity_across_hosts:
  assumes "shortens_verbatim_only dunce" and "spelling_ok a" and "spelling_ok b"
    and "is_ascii_alpha d" and "is_ascii_alpha e" and "list_all clean ps" and "list_all clean qs"
  shows "project_paths_equivalent dunce (spell a d ps) (spell b e qs)
    \<longleftrightarrow> to_ascii_lower d = to_ascii_lower e \<and> map (map to_ascii_lower) ps = map (map to_ascii_lower) qs"
proof -
  have key: "project_identity_key dunce (spell s x rs)
      = to_ascii_lower x # COLON # BSLASH # join [BSLASH] (map (map to_ascii_lower) rs)"
    if "spelling_ok s" "is_ascii_alpha x" "list_all clean rs" for s x rs
  proof -
    have "canonical_project_path dunce (spell s x rs) = to_ascii_upper x # COLON # BSLASH # join [BSLASH] rs"
      using that spell_windows [OF assms(1)] spell_mount [OF assms(1)] spell_unc [OF assms(1)] by (cases s) auto
    moreover have "to_ascii_lower COLON = COLON" "to_ascii_lower BSLASH = BSLASH"
      by (simp_all add: to_ascii_lower_def byte_in_def byte_def sep_chars)
    ultimately show ?thesis using that(2) by (simp add: project_identity_key_def map_join)
  qed
  have "join [BSLASH] (map (map to_ascii_lower) ps) = join [BSLASH] (map (map to_ascii_lower) qs)
      \<longleftrightarrow> map (map to_ascii_lower) ps = map (map to_ascii_lower) qs"
    using assms(6,7) lower_clean by (auto intro!: join_clean_inj simp: list_all_iff)
  then show ?thesis using key assms by (simp add: project_paths_equivalent_def)
qed

theorem project_identity_across_hosts_witness:
  "project_paths_equivalent (\<lambda>s. s) (spell (WslUnc ''wsl$'' ''Ubuntu'') CHR ''d'' [''Repos'', ''App''])
     (spell WslMount CHR ''D'' [''repos'', ''APP''])
   \<and> \<not> project_paths_equivalent (\<lambda>s. s) (spell WindowsDrive CHR ''d'' [''a'']) (spell WslMount CHR ''e'' [''a''])"
proof -
  have "matches_wsl_server ''wsl$''" "map (map to_ascii_lower) [''Repos'', ''App''] = map (map to_ascii_lower) [''repos'', ''APP'']"
    "to_ascii_lower CHR ''d'' = to_ascii_lower CHR ''D''" "to_ascii_lower CHR ''d'' \<noteq> to_ascii_lower CHR ''e''"
    "is_ascii_alpha CHR ''d''" "is_ascii_alpha CHR ''D''" "is_ascii_alpha CHR ''e''"
    "list_all clean [''wsl$'', ''Ubuntu'', ''Repos'', ''App'', ''repos'', ''APP'', ''a'']" by code_simp+
  then show ?thesis
    using project_identity_across_hosts [of "\<lambda>s. s" "WslUnc ''wsl$'' ''Ubuntu''" WslMount "CHR ''d''" "CHR ''D''"
        "[''Repos'', ''App'']" "[''repos'', ''APP'']"]
      project_identity_across_hosts [of "\<lambda>s. s" WindowsDrive WslMount "CHR ''d''" "CHR ''e''" "[''a'']" "[''a'']"]
    by (simp add: shortens_verbatim_only_def del: spell.simps list.map)
qed

end
