(* ===== verification/Launch_Request.thy ===== *)
theory Launch_Request
  imports Path_Identity Session_State
begin

text \<open>
  A request to create a terminal session (\<open>models/terminal.rs\<close>) and its rewriting on a host
  that runs under WSL (\<open>utils/launch_request.rs\<close>): there a WSL launch becomes a local one, and
  Windows and network names become paths of the guest. The home directory (crate \<open>dirs\<close>) and
  the file that tells WSL from Linux are parameters.
\<close>

datatype cli_tool = CliNone | Claude | Codex | Gemini | Kimi | Opencode | Cursor | Grok | Pi | Omp

fun as_id :: "cli_tool \<Rightarrow> string" where
  "as_id CliNone = ''none''"
| "as_id Claude = ''claude''"
| "as_id Codex = ''codex''"
| "as_id Gemini = ''gemini''"
| "as_id Kimi = ''kimi''"
| "as_id Opencode = ''opencode''"
| "as_id Cursor = ''cursor''"
| "as_id Grok = ''grok''"
| "as_id Pi = ''pi''"
| "as_id Omp = ''omp''"

definition from_id :: "string \<Rightarrow> cli_tool option" where
  "from_id s = find (\<lambda>t. as_id t = s) [CliNone, Claude, Codex, Gemini, Kimi, Opencode, Cursor, Grok, Pi, Omp]"

datatype auth_method = Password | Key | Agent

record ssh_info =
  sh_host :: bytes
  sh_port :: "16 word"
  sh_user :: "bytes option"
  sh_remote_path :: bytes
  sh_identity_file :: "bytes option"
  sh_machine_id :: "bytes option"
  sh_auth_method :: "auth_method option"

record wsl_info =
  wl_remote_path :: bytes
  wl_workspace_remote_path :: "bytes option"
  wl_distro :: "bytes option"

datatype provider_selection = InheritProvider | ExplicitProvider | NoProvider

record session_request =
  cr_launch_id :: "string option"
  cr_project_path :: bytes
  cr_cols :: "16 word"
  cr_rows :: "16 word"
  cr_workspace_name :: "string option"
  cr_provider_id :: "string option"
  cr_model_id :: "string option"
  cr_provider_selection :: provider_selection
  cr_launch_profile_id :: "string option"
  cr_workspace_path :: "bytes option"
  cr_workspace_snapshot_id :: "string option"
  cr_origin_layout_id :: "string option"
  cr_origin_tab_id :: "string option"
  cr_origin_terminal_pane_id :: "string option"
  cr_expected_saved_session_id :: "string option"
  cr_launch_claude :: bool
  cr_cli_tool :: cli_tool
  cr_resume_id :: "string option"
  cr_skip_mcp :: bool
  cr_append_system_prompt :: "string option"
  cr_initial_prompt :: "string option"
  cr_yolo_mode :: "bool option"
  cr_adapter_options :: "(string \<times> json) list option"
  cr_extra_env :: "(string \<times> string) list option"
  cr_ssh :: "ssh_info option"
  cr_wsl :: "wsl_info option"

definition effective_cli_tool :: "session_request \<Rightarrow> cli_tool" where
  "effective_cli_tool req =
     (case cr_cli_tool req of
        CliNone \<Rightarrow> if cr_launch_claude req then Claude else CliNone
      | other \<Rightarrow> other)"

subsection \<open>Paths of a WSL guest\<close>

definition QUOTE :: char where "QUOTE = CHR 0x22"

definition windows_drive_path_to_wsl :: "bytes \<Rightarrow> bytes option" where
  "windows_drive_path_to_wsl name =
     (let normalized = replace_char BSLASH SLASH (trim_char QUOTE (trim name));
          name = (case strip_prefix ''//?/'' normalized of Some r \<Rightarrow> r
                  | None \<Rightarrow> (case strip_prefix ''//./'' normalized of Some r \<Rightarrow> r | None \<Rightarrow> normalized))
      in if length name < 2 \<or> name ! 1 \<noteq> COLON then None
         else (let drive = to_ascii_lower (name ! 0)
               in if \<not> is_ascii_alpha drive then None
                  else (let rest = trim_start_char SLASH (drop 2 name)
                        in if rest = [] then Some (''/mnt/'' @ [drive])
                           else Some (''/mnt/'' @ [drive] @ ''/'' @ rest))))"

definition wsl_unc_path_to_posix :: "bytes \<Rightarrow> bytes option" where
  "wsl_unc_path_to_posix name =
     (let normalized = replace_char BSLASH SLASH (trim_char QUOTE (trim name));
          without_slashes = trim_start_char SLASH normalized;
          lower = map to_ascii_lower without_slashes
      in case first_some (\<lambda>p. strip_prefix p lower) [''wsl.localhost/'', ''wsl$/'', ''wsl/''] of
           None \<Rightarrow> None
         | Some rest \<Rightarrow>
             (let rest_original = drop (length without_slashes - length rest) without_slashes;
                  (distro, remote) = split_at_byte SLASH rest_original
              in if trim distro = [] then None
                 else (let remote_path = trim_start_char SLASH (case remote of Some r \<Rightarrow> r | None \<Rightarrow> [])
                       in if remote_path = [] then Some ''/'' else Some (''/'' @ remote_path))))"

definition normalize_path_for_wsl :: "bytes \<Rightarrow> bytes option" where
  "normalize_path_for_wsl name =
     (case windows_drive_path_to_wsl name of Some p \<Rightarrow> Some p | None \<Rightarrow> wsl_unc_path_to_posix name)"

text \<open>\<open>PathBuf::join\<close> on Unix: an absolute second part replaces the first.\<close>

definition path_join :: "bytes \<Rightarrow> bytes \<Rightarrow> bytes" where
  "path_join base rest =
     (if rest \<noteq> [] \<and> hd rest = SLASH then rest
      else if base = [] \<or> last base = SLASH then base @ rest
      else base @ ''/'' @ rest)"

definition expand_home_path :: "bytes option \<Rightarrow> bytes \<Rightarrow> bytes" where
  "expand_home_path home name =
     (let name = trim name
      in if name = ''~'' then (case home of Some h \<Rightarrow> h | None \<Rightarrow> name)
         else (case strip_prefix ''~/'' name of
                 Some rest \<Rightarrow> (case home of Some h \<Rightarrow> path_join h rest | None \<Rightarrow> name)
               | None \<Rightarrow> name))"

definition is_same_or_parent_path :: "bytes \<Rightarrow> bytes \<Rightarrow> bool" where
  "is_same_or_parent_path parent child =
     (let parent = trim_end_char SLASH parent; child = trim_end_char SLASH child
      in if parent = [] \<or> child = [] then False
         else if parent = ''/'' then prefix ''/'' child
         else child = parent \<or> prefix (parent @ ''/'') child)"

definition non_empty :: "bytes \<Rightarrow> bytes option" where
  "non_empty s = (if trim s \<noteq> [] then Some (trim s) else None)"

definition normalize_workspace_path_for_wsl ::
  "bytes option \<Rightarrow> bytes option \<Rightarrow> bytes \<Rightarrow> wsl_info \<Rightarrow> bytes option" where
  "normalize_workspace_path_for_wsl home workspace_path project_path wsl =
     (case Option.bind (wl_workspace_remote_path wsl) non_empty of
        Some remote \<Rightarrow> Some (expand_home_path home remote)
      | None \<Rightarrow>
          (case workspace_path of
             None \<Rightarrow> None
           | Some wp \<Rightarrow>
               (let normalized = (case normalize_path_for_wsl wp of Some p \<Rightarrow> p | None \<Rightarrow> wp)
                in if is_same_or_parent_path normalized project_path then Some normalized else None)))"

text \<open>\<open>request.wsl.take()\<close> leaves no WSL part behind, also in the result.\<close>

definition normalize_session_request_for_host ::
  "bytes option \<Rightarrow> session_request \<Rightarrow> bool \<Rightarrow> session_request" where
  "normalize_session_request_for_host home req running_under_wsl =
     (if \<not> running_under_wsl \<or> cr_ssh req \<noteq> None then req
      else (case cr_wsl req of
              Some wsl \<Rightarrow>
                (let project_path =
                       (case non_empty (wl_remote_path wsl) of
                          Some p \<Rightarrow> expand_home_path home p
                        | None \<Rightarrow> (case normalize_path_for_wsl (cr_project_path req) of Some p \<Rightarrow> p | None \<Rightarrow> cr_project_path req))
                 in req\<lparr>cr_wsl := None,
                        cr_workspace_path := normalize_workspace_path_for_wsl home (cr_workspace_path req) project_path wsl,
                        cr_project_path := project_path\<rparr>)
            | None \<Rightarrow>
                req\<lparr>cr_project_path := (case normalize_path_for_wsl (cr_project_path req) of Some p \<Rightarrow> p | None \<Rightarrow> cr_project_path req),
                    cr_workspace_path := map_option (\<lambda>wp. case normalize_path_for_wsl wp of Some p \<Rightarrow> p | None \<Rightarrow> wp)
                       (cr_workspace_path req)\<rparr>))"

text \<open>\<open>running_under_wsl\<close> reads the release of the kernel; \<open>None\<close> stands for an unreadable file.\<close>

definition contains :: "bytes \<Rightarrow> bytes \<Rightarrow> bool" where
  "contains needle s = sublist needle s"

definition running_under_wsl :: "bytes option \<Rightarrow> bool" where
  "running_under_wsl osrelease =
     (case osrelease of
        Some release \<Rightarrow> (let r = map to_ascii_lower release in contains ''microsoft'' r \<or> contains ''wsl'' r)
      | None \<Rightarrow> False)"

definition normalize_session_request_for_current_host ::
  "bytes option \<Rightarrow> bytes option \<Rightarrow> session_request \<Rightarrow> session_request" where
  "normalize_session_request_for_current_host home osrelease req =
     normalize_session_request_for_host home req (running_under_wsl osrelease)"

subsection \<open>What the rewriting keeps, and two slips\<close>

lemma cli_tool_roundtrip: "from_id (as_id t) = Some t"
  by (cases t) (simp_all add: from_id_def)

lemma drive_path_to_wsl:
  assumes "is_ascii_alpha d" and "list_all clean ps" and "trim (spell WindowsDrive d ps) = spell WindowsDrive d ps"
    and "last (spell WindowsDrive d ps) \<noteq> QUOTE"
  shows "normalize_path_for_wsl (spell WindowsDrive d ps) = Some (spell WslMount (to_ascii_lower d) ps)"
proof -
  have d: "d \<noteq> QUOTE" "d \<noteq> SLASH" "d \<noteq> BSLASH" using assms(1) alpha_neq [OF assms(1)] by (auto simp: alpha_byte QUOTE_def byte_def)
  define w where "w = spell WindowsDrive d ps"
  have w: "w = d # COLON # BSLASH # join [BSLASH] ps" by (simp add: w_def)
  have "trim_char QUOTE w = w" by (rule trim_char_done) (use assms(4) d in \<open>simp add: w\<close>)
  then have norm: "replace_char BSLASH SLASH (trim_char QUOTE (trim w)) = d # COLON # SLASH # join [SLASH] ps"
    using d slashes_join [OF assms(2)] assms(3) by (simp add: w)
  have "strip_prefix ''//?/'' (d # s) = None" "strip_prefix ''//./'' (d # s) = None" for s
    using d by (auto simp: strip_prefix_def sep_chars)
  moreover have "trim_start_char SLASH (SLASH # join [SLASH] ps) = join [SLASH] ps"
    using trim_join_clean(2) [OF assms(2)] by (simp add: trim_start_char_def)
  moreover have "join [SLASH] ps = [] \<longleftrightarrow> ps = []"
    using join_clean_last(1) [OF assms(2), of "[SLASH]"] by auto
  moreover have "''/'' @ s = SLASH # s" for s by (simp add: sep_chars)
  ultimately have "windows_drive_path_to_wsl w = Some (spell WslMount (to_ascii_lower d) ps)"
    using assms(1) by (simp add: windows_drive_path_to_wsl_def norm)
  then show ?thesis unfolding w_def [symmetric] by (simp only: normalize_path_for_wsl_def option.case)
qed

text \<open>Rewriting a drive path for the guest does not change which project it is.\<close>

lemma wsl_rewriting_keeps_project:
  assumes "shortens_verbatim_only dunce" and "is_ascii_alpha d" and "list_all clean ps"
    and "trim (spell WindowsDrive d ps) = spell WindowsDrive d ps" and "last (spell WindowsDrive d ps) \<noteq> QUOTE"
    and "cr_ssh req = None" and "cr_wsl req = None" and "cr_project_path req = spell WindowsDrive d ps"
  shows "project_paths_equivalent dunce (cr_project_path (normalize_session_request_for_host home req True)) (cr_project_path req)"
proof -
  have "cr_project_path (normalize_session_request_for_host home req True) = spell WslMount (to_ascii_lower d) ps"
    using drive_path_to_wsl [OF assms(2-5)] assms(6-8) by (simp add: normalize_session_request_for_host_def)
  moreover have "to_ascii_lower (to_ascii_lower d) = to_ascii_lower d"
    by (auto simp: to_ascii_lower_def byte_in_def byte_char_of)
  ultimately show ?thesis
    using project_identity_across_hosts [of dunce WslMount WindowsDrive "to_ascii_lower d" d ps ps] assms by simp
qed

text \<open>A network name may begin with any number of slashes, even one: the path of an ordinary
  directory below \<open>/wsl\<close> loses two components.\<close>

lemma posix_path_below_wsl_rewritten:
  "normalize_path_for_wsl ''/wsl/repos/app'' = Some ''/app''"
  by code_simp

text \<open>The root directory is no parent of anything: its slash is trimmed before the test for it.\<close>

lemma root_is_no_parent: "is_same_or_parent_path ''/'' child = False"
  by (simp add: is_same_or_parent_path_def trim_end_char_def sep_chars)

end
