(* ===== verification/Daemon_Sessions.thy ===== *)
theory Daemon_Sessions
  imports Launch_Request Ws_Emitter Status_Infer Replay_Buffer
begin

text \<open>
  The sessions of the daemon (\<open>cc-panes-daemon/src/server.rs\<close>): write leases, birth certificates
  (provenance), the creation and restoration of sessions, and the routes that reach a terminal.

  The state is the record \<open>daemon\<close>, the maps that \<open>DaemonState\<close> keeps behind its locks. A
  handler is a function on it that returns the new state and the HTTP answer; the creation of a
  session holds the visibility lock for writing and is one step, as are the other handlers. The
  terminal backend is the record \<open>backend\<close> of its answers, and what a handler asks it to do is
  appended to \<open>dm_log\<close> with the instance that asked. A handler reads the clock once.
\<close>

subsection \<open>Leases\<close>

record lease =
  le_owner :: string
  le_expires :: instant

definition is_live :: "instant \<Rightarrow> lease \<Rightarrow> bool" where
  "is_live now l = (now < le_expires l)"

definition CLAIM_TTL_DEFAULT_MS :: nat where "CLAIM_TTL_DEFAULT_MS = 30000"
definition CLAIM_TTL_MIN_MS :: nat where "CLAIM_TTL_MIN_MS = 5000"
definition CLAIM_TTL_MAX_MS :: nat where "CLAIM_TTL_MAX_MS = 300000"

record provenance =
  pv_session_id :: string
  pv_daemon_generation :: nat
  pv_birth_nonce :: string
  pv_origin_instance_id :: "string option"
  pv_origin_layout_id :: "string option"
  pv_origin_tab_id :: "string option"
  pv_origin_terminal_pane_id :: "string option"
  pv_project_path :: bytes
  pv_runtime_kind :: string
  pv_cli_tool :: string
  pv_resume_id :: "string option"
  pv_created_at_ms :: nat

subsection \<open>The backend and its errors\<close>

text \<open>\<open>AppError\<close>, as the daemon turns it into an answer.\<close>

datatype core_error =
    MessageError "string option" string "(string \<times> string) list option"
  | NotFoundError string

fun error_code :: "core_error \<Rightarrow> string option" where
  "error_code (MessageError code message params) = code"
| "error_code (NotFoundError message) = Some ''NOT_FOUND''"

fun error_message :: "core_error \<Rightarrow> string" where
  "error_message (MessageError code message params) = message"
| "error_message (NotFoundError message) = message"

fun error_params :: "core_error \<Rightarrow> (string \<times> string) list option" where
  "error_params (MessageError code message params) = params"
| "error_params (NotFoundError message) = None"

definition error_text :: "core_error \<Rightarrow> string" where
  "error_text e = (case error_code e of Some c \<Rightarrow> ''['' @ c @ ''] '' @ error_message e | None \<Rightarrow> error_message e)"

definition error_json :: "core_error \<Rightarrow> json" where
  "error_json e = JObject
     ((case error_code e of Some c \<Rightarrow> [(''code'', JString c)] | None \<Rightarrow> [])
      @ [(''message'', JString (error_message e))]
      @ (case error_params e of Some ps \<Rightarrow> [(''params'', JObject (map (\<lambda>(k, v). (k, JString v)) ps))] | None \<Rightarrow> []))"

text \<open>What a handler asks of the backend, with the session it is about.\<close>

datatype backend_call =
    CallCreate session_request
  | CallCancelLaunch string
  | CallHookStatus string session_status
  | CallResize string "16 word" "16 word"
  | CallWrite string bytes
  | CallWriteReply string bytes
  | CallSubmit string bytes
  | CallCheckpoint string checkpoint
  | CallKill string kill_reason

text \<open>A creation succeeds, fails, dies with its thread, or misses the deadline of 45 seconds; in the
  last case it may still succeed later.\<close>

datatype create_result =
    CreateOk string "string option"
  | CreateFailed core_error
  | CreateJoinFailed string
  | CreateLate "string option"

text \<open>\<open>be_launched l\<close> are the sessions that the backend has registered under the launch \<open>l\<close>, in the order in
  which a cancellation meets them (up to the panic, when it panics).\<close>

record backend =
  be_now :: instant
  be_epoch_ms :: nat
  be_pid :: nat
  be_status :: "string \<Rightarrow> core_error + status_info option"
  be_all :: "core_error + status_info list"
  be_create :: "session_request \<Rightarrow> create_result"
  be_by_launch :: "string \<Rightarrow> core_error + string option"
  be_launched :: "string \<Rightarrow> string list"
  be_output :: "string \<Rightarrow> nat \<Rightarrow> core_error + string list"
  be_snapshot :: "string \<Rightarrow> core_error + string option"
  be_recovery :: "string \<Rightarrow> core_error + recovery option"
  be_stored :: "string \<Rightarrow> checkpoint \<Rightarrow> core_error + store_outcome"
  be_refuses :: "backend_call \<Rightarrow> core_error option"
  be_cancel_panics :: "string option"
  be_nonce :: string
  be_anchors :: "string \<times> string"
  be_channels :: Ws_Emitter.env
  be_home :: "bytes option"
  be_osrelease :: "bytes option"
  be_dunce :: "bytes \<Rightarrow> bytes"

record daemon =
  dm_token :: string
  dm_started_at :: nat
  dm_default_cwd :: bytes
  dm_claims :: "string \<Rightarrow> lease option"
  dm_provenance :: "string \<Rightarrow> provenance option"
  dm_replacements :: "string \<Rightarrow> string option"
  dm_activity :: "string \<Rightarrow> instant option"
  dm_desktops :: nat
  dm_passwords :: "bytes \<Rightarrow> bytes option"
  dm_emitter :: emitter
  dm_shutdown :: bool
  dm_log :: "(string option \<times> backend_call) list"

definition daemon_new :: "string \<Rightarrow> nat \<Rightarrow> bytes \<Rightarrow> daemon" where
  "daemon_new token started_at cwd =
     \<lparr>dm_token = token, dm_started_at = started_at, dm_default_cwd = cwd, dm_claims = Map.empty,
      dm_provenance = Map.empty, dm_replacements = Map.empty, dm_activity = Map.empty, dm_desktops = 0,
      dm_passwords = Map.empty, dm_emitter = emitter_new, dm_shutdown = False, dm_log = []\<rparr>"

subsection \<open>Operations on the state\<close>

definition try_claim_session ::
  "backend \<Rightarrow> string \<Rightarrow> string \<Rightarrow> nat option \<Rightarrow> daemon \<Rightarrow> daemon \<times> (string + lease)" where
  "try_claim_session be sid owner ttl_ms d =
     (let ttl = min (max (case ttl_ms of Some t \<Rightarrow> t | None \<Rightarrow> CLAIM_TTL_DEFAULT_MS) CLAIM_TTL_MIN_MS) CLAIM_TTL_MAX_MS;
          lease = \<lparr>le_owner = owner, le_expires = be_now be + from_millis ttl\<rparr>;
          granted = (d\<lparr>dm_claims := (dm_claims d)(sid \<mapsto> lease)\<rparr>, Inr lease)
      in case dm_claims d sid of
           Some existing \<Rightarrow>
             if is_live (be_now be) existing \<and> le_owner existing \<noteq> owner then (d, Inl (le_owner existing)) else granted
         | None \<Rightarrow> granted)"

definition release_claim :: "backend \<Rightarrow> string \<Rightarrow> string \<Rightarrow> daemon \<Rightarrow> daemon \<times> bool" where
  "release_claim be sid owner d =
     (case dm_claims d sid of
        Some existing \<Rightarrow>
          if le_owner existing = owner \<or> \<not> is_live (be_now be) existing
          then (d\<lparr>dm_claims := (dm_claims d)(sid := None)\<rparr>, True)
          else (d, False)
      | None \<Rightarrow> (d, True))"

definition session_claim_owner :: "backend \<Rightarrow> string \<Rightarrow> daemon \<Rightarrow> string option" where
  "session_claim_owner be sid d =
     (case dm_claims d sid of
        Some l \<Rightarrow> if is_live (be_now be) l then Some (le_owner l) else None
      | None \<Rightarrow> None)"

definition may_write_session :: "backend \<Rightarrow> string \<Rightarrow> string option \<Rightarrow> daemon \<Rightarrow> bool" where
  "may_write_session be sid caller d =
     (case session_claim_owner be sid d of None \<Rightarrow> True | Some owner \<Rightarrow> caller = Some owner)"

definition forget_session_claim :: "string \<Rightarrow> daemon \<Rightarrow> daemon" where
  "forget_session_claim sid d = d\<lparr>dm_claims := (dm_claims d)(sid := None)\<rparr>"

definition prune_expired_claims :: "backend \<Rightarrow> daemon \<Rightarrow> daemon" where
  "prune_expired_claims be d =
     d\<lparr>dm_claims := (\<lambda>sid. case dm_claims d sid of
          Some l \<Rightarrow> if is_live (be_now be) l then Some l else None
        | None \<Rightarrow> None)\<rparr>"

definition live_session_claims :: "backend \<Rightarrow> daemon \<Rightarrow> string \<Rightarrow> string option" where
  "live_session_claims be d = (\<lambda>sid. session_claim_owner be sid d)"

definition register_desktop_client :: "daemon \<Rightarrow> daemon" where
  "register_desktop_client d = d\<lparr>dm_desktops := dm_desktops d + 1\<rparr>"

definition drop_desktop_client :: "daemon \<Rightarrow> daemon" where
  "drop_desktop_client d = d\<lparr>dm_desktops := dm_desktops d - 1\<rparr>"

definition request_shutdown :: "daemon \<Rightarrow> daemon" where
  "request_shutdown d = d\<lparr>dm_shutdown := True\<rparr>"

definition touch_session :: "backend \<Rightarrow> string \<Rightarrow> daemon \<Rightarrow> daemon" where
  "touch_session be sid d = d\<lparr>dm_activity := (dm_activity d)(sid \<mapsto> be_now be)\<rparr>"

definition remove_session_activity :: "backend \<Rightarrow> string \<Rightarrow> daemon \<Rightarrow> daemon" where
  "remove_session_activity be sid d =
     (let d = forget_session_claim sid d
      in d\<lparr>dm_provenance := (dm_provenance d)(sid := None),
           dm_replacements := (\<lambda>expected. case dm_replacements d expected of
               Some r \<Rightarrow> if expected \<noteq> sid \<and> r \<noteq> sid then Some r else None
             | None \<Rightarrow> None),
           dm_activity := (dm_activity d)(sid := None),
           dm_emitter := cleanup_session (be_channels be) sid (dm_emitter d)\<rparr>)"

definition log_call :: "string option \<Rightarrow> backend_call \<Rightarrow> daemon \<Rightarrow> daemon" where
  "log_call caller c d = d\<lparr>dm_log := dm_log d @ [(caller, c)]\<rparr>"

subsection \<open>HTTP\<close>

type_synonym http_error = "nat \<times> json"

record headers =
  hd_authorization :: "string option"
  hd_instance :: "string option"

definition json_error :: "nat \<Rightarrow> string \<Rightarrow> string \<Rightarrow> http_error" where
  "json_error status code message = (status, JObject [(''code'', JString code), (''message'', JString message)])"

definition json_error_with_params :: "nat \<Rightarrow> string \<Rightarrow> string \<Rightarrow> json \<Rightarrow> http_error" where
  "json_error_with_params status code message params =
     (status, JObject [(''code'', JString code), (''message'', JString message), (''params'', params)])"

definition internal_error :: "core_error \<Rightarrow> http_error" where
  "internal_error e = json_error 500 ''INTERNAL_ERROR'' (error_text e)"

definition to_app_error :: "core_error \<Rightarrow> http_error" where
  "to_app_error e =
     ((case e of NotFoundError _ \<Rightarrow> 404 | MessageError code _ _ \<Rightarrow> if code \<noteq> None then 400 else 500), error_json e)"

definition not_found :: "string \<Rightarrow> http_error" where
  "not_found message = json_error 404 ''NOT_FOUND'' message"

definition not_found_from_error :: "core_error \<Rightarrow> http_error" where
  "not_found_from_error e = not_found (error_text e)"

definition authorize :: "headers \<Rightarrow> string \<Rightarrow> http_error option" where
  "authorize h token =
     (if hd_authorization h = Some (''Bearer '' @ token) then None
      else Some (json_error 401 ''UNAUTHORIZED'' ''Invalid or missing Bearer token''))"

definition caller_instance :: "headers \<Rightarrow> string option" where
  "caller_instance h =
     (case hd_instance h of Some v \<Rightarrow> if trim v \<noteq> [] then Some (trim v) else None | None \<Rightarrow> None)"

definition session_claimed :: "string \<Rightarrow> http_error" where
  "session_claimed owner =
     (409, JObject [(''code'', JString ''SESSION_CLAIMED''),
        (''message'', JString (''session is claimed by another instance: '' @ owner)), (''owner'', JString owner)])"

definition ensure_may_write :: "backend \<Rightarrow> headers \<Rightarrow> string \<Rightarrow> daemon \<Rightarrow> http_error option" where
  "ensure_may_write be h sid d =
     (if may_write_session be sid (caller_instance h) d then None
      else Some (session_claimed (case session_claim_owner be sid d of Some owner \<Rightarrow> owner | None \<Rightarrow> [])))"

text \<open>\<open>TerminalService::cancel_launch\<close>: the sessions registered under the launch are killed, and the first
  refusal other than \<open>NotFound\<close> ends it.\<close>

fun kill_launched :: "backend \<Rightarrow> string option \<Rightarrow> string list \<Rightarrow> daemon \<Rightarrow> daemon \<times> core_error option" where
  "kill_launched be caller [] d = (d, None)"
| "kill_launched be caller (sid # sids) d =
     (let c = CallKill sid LaunchTimeout; d = log_call caller c d
      in case be_refuses be c of
           Some (MessageError code message params) \<Rightarrow> (d, Some (MessageError code message params))
         | _ \<Rightarrow> kill_launched be caller sids d)"

definition backend_cancel_launch ::
  "backend \<Rightarrow> string option \<Rightarrow> string \<Rightarrow> daemon \<Rightarrow> daemon \<times> core_error option" where
  "backend_cancel_launch be caller launch_id d =
     (let c = CallCancelLaunch launch_id; d = log_call caller c d
      in if trim launch_id = [] then (d, None)
         else case be_refuses be c of
                Some e \<Rightarrow> (d, Some e)
              | None \<Rightarrow> kill_launched be caller (be_launched be (trim launch_id)) d)"

text \<open>What the routes answer when they succeed.\<close>

record adoption_snapshot =
  ad_claims_supported :: bool
  ad_daemon_generation :: "nat option"
  ad_owner_instance_id :: "string option"
  ad_captured_at_ms :: nat
  ad_complete :: bool
  ad_sessions :: "status_info list"
  ad_claims :: "string \<Rightarrow> string option"
  ad_provenance :: "string \<Rightarrow> provenance option"

datatype reply =
    NoContent
  | Health string string nat nat
  | IdentityEvents "json list"
  | DaemonStatus nat nat nat
  | ShutdownAccepted
  | SessionCreated string bool "string option"
  | SessionList "status_info list"
  | SessionStatus status_info
  | FoundByLaunch string
  | ClaimTable "string \<Rightarrow> string option"
  | Adoption adoption_snapshot
  | Provenance provenance
  | ClaimGranted string string
  | OutputLines "string list"
  | Snapshot string
  | Recovery recovery
  | CheckpointAccepted nat

type_synonym answer = "http_error + reply"

text \<open>Every route of the router but \<open>/api/health\<close> checks the token before anything else.\<close>

definition authorized :: "headers \<Rightarrow> daemon \<Rightarrow> (daemon \<Rightarrow> daemon \<times> answer) \<Rightarrow> daemon \<times> answer" where
  "authorized h d f = (case authorize h (dm_token d) of Some e \<Rightarrow> (d, Inl e) | None \<Rightarrow> f d)"

text \<open>The backend is asked for \<open>c\<close>; its refusal becomes the answer \<open>err\<close>.\<close>

definition ask_backend ::
  "backend \<Rightarrow> string option \<Rightarrow> backend_call \<Rightarrow> (core_error \<Rightarrow> http_error) \<Rightarrow> daemon \<Rightarrow> daemon \<times> answer" where
  "ask_backend be caller c err d =
     (log_call caller c d, case be_refuses be c of Some e \<Rightarrow> Inl (err e) | None \<Rightarrow> Inr NoContent)"

subsection \<open>Creating and restoring sessions\<close>

definition normalized_resume_id :: "string option \<Rightarrow> string option" where
  "normalized_resume_id v =
     (case v of Some s \<Rightarrow> if trim s \<noteq> [] \<and> trim s \<noteq> ''new'' then Some (trim s) else None | None \<Rightarrow> None)"

definition request_runtime_kind :: "session_request \<Rightarrow> string" where
  "request_runtime_kind req =
     (if cr_ssh req \<noteq> None then ''ssh'' else if cr_wsl req \<noteq> None then ''wsl'' else ''local'')"

definition restore_identity_matches :: "(bytes \<Rightarrow> bytes) \<Rightarrow> session_request \<Rightarrow> provenance \<Rightarrow> bool" where
  "restore_identity_matches dunce req pv =
     (project_paths_equivalent dunce (cr_project_path req) (pv_project_path pv)
      \<and> request_runtime_kind req = pv_runtime_kind pv
      \<and> as_id (effective_cli_tool req) = pv_cli_tool pv
      \<and> normalized_resume_id (cr_resume_id req) = normalized_resume_id (pv_resume_id pv))"

definition not_exited :: "status_info option \<Rightarrow> bool" where
  "not_exited st = (case st of Some s \<Rightarrow> si_status s \<noteq> Exited | None \<Rightarrow> False)"

text \<open>The session that stands for the expected one: itself while it lives, else its live
  replacement; a dead replacement is forgotten.\<close>

definition expected_session ::
  "backend \<Rightarrow> string \<Rightarrow> daemon \<Rightarrow> daemon \<times> (http_error + string option)" where
  "expected_session be expected d =
     (case be_status be expected of
        Inl e \<Rightarrow> (d, Inl (internal_error e))
      | Inr st \<Rightarrow>
          if not_exited st then (d, Inr (Some expected))
          else (case dm_replacements d expected of
                  None \<Rightarrow> (d, Inr None)
                | Some replacement \<Rightarrow>
                    (case be_status be replacement of
                       Inl e \<Rightarrow> (d, Inl (internal_error e))
                     | Inr st' \<Rightarrow>
                         if not_exited st' then (d, Inr (Some replacement))
                         else (d\<lparr>dm_replacements := (dm_replacements d)(expected := None)\<rparr>, Inr None))))"

definition reuse_expected_session ::
  "backend \<Rightarrow> session_request \<Rightarrow> string option \<Rightarrow> daemon \<Rightarrow> daemon \<times> (http_error + string option)" where
  "reuse_expected_session be req owner d =
     (case cr_expected_saved_session_id req of
        None \<Rightarrow> (d, Inr None)
      | Some expected \<Rightarrow>
          (case expected_session be expected d of
             (d, Inl e) \<Rightarrow> (d, Inl e)
           | (d, Inr None) \<Rightarrow> (d, Inr None)
           | (d, Inr (Some sid)) \<Rightarrow>
               (case owner of
                  None \<Rightarrow> (d, Inl (json_error 409 ''RESTORE_OWNER_MISSING''
                            ''live expected session requires an instance identity''))
                | Some owner \<Rightarrow>
                    (case dm_provenance d sid of
                       None \<Rightarrow> (d, Inl (json_error 409 ''RESTORE_PROVENANCE_MISSING''
                                 ''live expected session has no immutable provenance''))
                     | Some pv \<Rightarrow>
                         if \<not> restore_identity_matches (be_dunce be) req pv
                         then (d, Inl (json_error 409 ''RESTORE_IDENTITY_MISMATCH''
                                 ''live expected session does not match the restore request''))
                         else (case try_claim_session be sid owner None d of
                                 (d, Inl existing) \<Rightarrow>
                                   (d, Inl (json_error 409 ''SESSION_CLAIMED''
                                      (''expected session is already claimed by '' @ existing)))
                               | (d, Inr _) \<Rightarrow> (touch_session be sid d, Inr (Some sid)))))))"

text \<open>The body of a creation request. \<open>cb_rest\<close> holds the fields that are passed on as they are; its
  path and its size are not read.\<close>

record create_body =
  cb_project_path :: "bytes option"
  cb_cwd :: "bytes option"
  cb_cols :: "16 word option"
  cb_rows :: "16 word option"
  cb_rest :: session_request

definition or_else :: "'a option \<Rightarrow> 'a option \<Rightarrow> 'a option" where
  "or_else a b = (case a of Some x \<Rightarrow> Some x | None \<Rightarrow> b)"

definition get_or :: "'a \<Rightarrow> 'a option \<Rightarrow> 'a" where
  "get_or x a = (case a of Some y \<Rightarrow> y | None \<Rightarrow> x)"

definition requested_path :: "create_body \<Rightarrow> daemon \<Rightarrow> bytes" where
  "requested_path body d = get_or (dm_default_cwd d) (or_else (cb_project_path body) (cb_cwd body))"

definition core_request :: "backend \<Rightarrow> create_body \<Rightarrow> daemon \<Rightarrow> session_request" where
  "core_request be body d =
     normalize_session_request_for_current_host (be_home be) (be_osrelease be)
       ((cb_rest body)\<lparr>cr_project_path := requested_path body d,
          cr_cols := get_or 120 (cb_cols body),
          cr_rows := get_or 30 (cb_rows body),
          cr_origin_tab_id := or_else (cr_origin_tab_id (cb_rest body)) (Some (fst (be_anchors be))),
          cr_origin_terminal_pane_id := or_else (cr_origin_terminal_pane_id (cb_rest body)) (Some (snd (be_anchors be)))\<rparr>)"

text \<open>The birth certificate is written from the request as it came in.\<close>

definition birth_certificate :: "backend \<Rightarrow> create_body \<Rightarrow> string option \<Rightarrow> string \<Rightarrow> daemon \<Rightarrow> provenance" where
  "birth_certificate be body owner sid d =
     (let req = cb_rest body
      in \<lparr>pv_session_id = sid, pv_daemon_generation = dm_started_at d, pv_birth_nonce = be_nonce be,
          pv_origin_instance_id = owner, pv_origin_layout_id = cr_origin_layout_id req,
          pv_origin_tab_id = or_else (cr_origin_tab_id req) (Some (fst (be_anchors be))),
          pv_origin_terminal_pane_id = or_else (cr_origin_terminal_pane_id req) (Some (snd (be_anchors be))),
          pv_project_path = requested_path body d, pv_runtime_kind = request_runtime_kind req,
          pv_cli_tool = as_id (cr_cli_tool req), pv_resume_id = cr_resume_id req,
          pv_created_at_ms = be_epoch_ms be\<rparr>)"

text \<open>After the deadline the launch is cancelled and a session that still appears is killed; both
  are left to other tasks and logged here.\<close>

definition launch_timeout ::
  "backend \<Rightarrow> create_body \<Rightarrow> string option \<Rightarrow> string option \<Rightarrow> daemon \<Rightarrow> daemon \<times> answer" where
  "launch_timeout be body caller late d =
     (let launch_id = cr_launch_id (cb_rest body);
          d = (case late of Some sid \<Rightarrow> log_call caller (CallKill sid LaunchTimeout) d | None \<Rightarrow> d);
          d = (case launch_id of Some lid \<Rightarrow> fst (backend_cancel_launch be caller lid d) | None \<Rightarrow> d)
      in (d, Inl (json_error_with_params 504 ''LAUNCH_TIMEOUT'' ''Terminal launch exceeded 45000ms''
            (JObject [(''launchId'', case launch_id of Some lid \<Rightarrow> JString lid | None \<Rightarrow> JNull),
                      (''runtime'', JString (request_runtime_kind (cb_rest body))),
                      (''stage'', JString ''backend.create_session''), (''timeoutMs'', JString ''45000'')]))))"

definition record_birth ::
  "backend \<Rightarrow> create_body \<Rightarrow> string option \<Rightarrow> string \<Rightarrow> string option \<Rightarrow> session_request \<Rightarrow> daemon \<Rightarrow> daemon \<times> answer" where
  "record_birth be body owner sid model req d =
     (let d = d\<lparr>dm_provenance := (dm_provenance d)(sid \<mapsto> birth_certificate be body owner sid d)\<rparr>;
          d = (case cr_expected_saved_session_id req of
                 Some expected \<Rightarrow> d\<lparr>dm_replacements := (dm_replacements d)(expected \<mapsto> sid)\<rparr>
               | None \<Rightarrow> d)
      in (d, Inr (SessionCreated sid False model)))"

definition register_session ::
  "backend \<Rightarrow> create_body \<Rightarrow> string option \<Rightarrow> string \<Rightarrow> string option \<Rightarrow> session_request \<Rightarrow> daemon \<Rightarrow> daemon \<times> answer" where
  "register_session be body owner sid model req d =
     (let d = touch_session be sid d
      in case owner of
           None \<Rightarrow> record_birth be body owner sid model req d
         | Some instance_id \<Rightarrow>
             (case try_claim_session be sid instance_id None d of
                (d, Inr _) \<Rightarrow> record_birth be body owner sid model req d
              | (d, Inl existing) \<Rightarrow>
                  (remove_session_activity be sid (log_call owner (CallKill sid Unknown) d),
                   Inl (json_error 409 ''SESSION_CLAIMED'' (''fresh session id is already claimed by '' @ existing)))))"

definition launch_session ::
  "backend \<Rightarrow> create_body \<Rightarrow> string option \<Rightarrow> session_request \<Rightarrow> daemon \<Rightarrow> daemon \<times> answer" where
  "launch_session be body owner req d =
     (let d = log_call owner (CallCreate req) d
      in case be_create be req of
           CreateOk sid model \<Rightarrow> register_session be body owner sid model req d
         | CreateFailed e \<Rightarrow> (d, Inl (to_app_error e))
         | CreateJoinFailed message \<Rightarrow> (d, Inl (json_error 500 ''JOIN_ERROR'' message))
         | CreateLate late \<Rightarrow> launch_timeout be body owner late d)"

definition create_session :: "backend \<Rightarrow> headers \<Rightarrow> create_body \<Rightarrow> daemon \<Rightarrow> daemon \<times> answer" where
  "create_session be h body d = authorized h d (\<lambda>d.
     if cr_ssh (cb_rest body) \<noteq> None \<and> cr_wsl (cb_rest body) \<noteq> None
     then (d, Inl (json_error 400 ''INVALID_LAUNCH_OPTIONS'' ''SSH and WSL launch options cannot be combined''))
     else (case reuse_expected_session be (core_request be body d) (caller_instance h) d of
             (d1, Inl e) \<Rightarrow> (d1, Inl e)
           | (d1, Inr (Some sid)) \<Rightarrow> (d1, Inr (SessionCreated sid True None))
           | (d1, Inr None) \<Rightarrow> launch_session be body (caller_instance h) (core_request be body d) d1))"

subsection \<open>The other routes\<close>

definition health :: "backend \<Rightarrow> daemon \<Rightarrow> daemon \<times> answer" where
  "health be d = (d, Inr (Health ''ok'' ''cc-panes-daemon'' (be_pid be) (dm_started_at d)))"

definition list_identity_events :: "headers \<Rightarrow> daemon \<Rightarrow> daemon \<times> answer" where
  "list_identity_events h d = authorized h d (\<lambda>d. (d, Inr (IdentityEvents (identity_snapshot (dm_emitter d)))))"

definition get_daemon_status :: "backend \<Rightarrow> headers \<Rightarrow> daemon \<Rightarrow> daemon \<times> answer" where
  "get_daemon_status be h d = authorized h d (\<lambda>d.
     (d, Inr (DaemonStatus (dm_started_at d) (case be_all be of Inr l \<Rightarrow> length l | Inl _ \<Rightarrow> 0) (dm_desktops d))))"

definition shutdown_daemon :: "headers \<Rightarrow> daemon \<Rightarrow> daemon \<times> answer" where
  "shutdown_daemon h d = authorized h d (\<lambda>d. (request_shutdown d, Inr ShutdownAccepted))"

definition set_temporary_ssh_password :: "headers \<Rightarrow> bytes \<Rightarrow> bytes \<Rightarrow> daemon \<Rightarrow> daemon \<times> answer" where
  "set_temporary_ssh_password h machine_id password d = authorized h d (\<lambda>d.
     let machine_id = trim machine_id
     in if machine_id = [] \<or> 256 < length machine_id
        then (d, Inl (json_error 400 ''INVALID_MACHINE_ID'' ''machineId must contain between 1 and 256 bytes''))
        else if password = [] \<or> 16 * 1024 < length password
        then (d, Inl (json_error 400 ''INVALID_SSH_PASSWORD'' ''password must contain between 1 and 16384 bytes''))
        else (d\<lparr>dm_passwords := (dm_passwords d)(machine_id \<mapsto> password)\<rparr>, Inr NoContent))"

definition cancel_launch :: "backend \<Rightarrow> headers \<Rightarrow> string \<Rightarrow> daemon \<Rightarrow> daemon \<times> answer" where
  "cancel_launch be h launch_id d = authorized h d (\<lambda>d.
     case backend_cancel_launch be (caller_instance h) launch_id d of
       (d, result) \<Rightarrow>
         (d, case be_cancel_panics be of
               Some message \<Rightarrow> Inl (json_error 500 ''JOIN_ERROR'' message)
             | None \<Rightarrow> (case result of Some e \<Rightarrow> Inl (internal_error e) | None \<Rightarrow> Inr NoContent)))"

definition list_sessions :: "backend \<Rightarrow> headers \<Rightarrow> daemon \<Rightarrow> daemon \<times> answer" where
  "list_sessions be h d = authorized h d (\<lambda>d.
     (d, case be_all be of Inl e \<Rightarrow> Inl (internal_error e) | Inr l \<Rightarrow> Inr (SessionList l)))"

definition get_session_status :: "backend \<Rightarrow> headers \<Rightarrow> string \<Rightarrow> daemon \<Rightarrow> daemon \<times> answer" where
  "get_session_status be h sid d = authorized h d (\<lambda>d.
     (touch_session be sid d,
      case be_status be sid of
        Inl e \<Rightarrow> Inl (internal_error e)
      | Inr None \<Rightarrow> Inl (not_found ''Session not found'')
      | Inr (Some st) \<Rightarrow> Inr (SessionStatus st)))"

definition find_session_by_launch :: "backend \<Rightarrow> headers \<Rightarrow> string \<Rightarrow> daemon \<Rightarrow> daemon \<times> answer" where
  "find_session_by_launch be h launch_id d = authorized h d (\<lambda>d.
     (d, case be_by_launch be launch_id of
           Inl e \<Rightarrow> Inl (internal_error e)
         | Inr None \<Rightarrow> Inl (not_found ''No session for launch id'')
         | Inr (Some sid) \<Rightarrow> Inr (FoundByLaunch sid)))"

definition hook_status :: "backend \<Rightarrow> headers \<Rightarrow> string \<Rightarrow> session_status \<Rightarrow> daemon \<Rightarrow> daemon \<times> answer" where
  "hook_status be h sid status d = authorized h d
     (ask_backend be (caller_instance h) (CallHookStatus sid status) internal_error)"

text \<open>The routes that change a terminal pass the lease first.\<close>

definition guarded_write ::
  "backend \<Rightarrow> headers \<Rightarrow> string \<Rightarrow> (daemon \<Rightarrow> daemon \<times> answer) \<Rightarrow> daemon \<Rightarrow> daemon \<times> answer" where
  "guarded_write be h sid f d = authorized h d (\<lambda>d.
     case ensure_may_write be h sid d of Some e \<Rightarrow> (d, Inl e) | None \<Rightarrow> f d)"

definition resize_session :: "backend \<Rightarrow> headers \<Rightarrow> string \<Rightarrow> 16 word \<Rightarrow> 16 word \<Rightarrow> daemon \<Rightarrow> daemon \<times> answer" where
  "resize_session be h sid cols rows = guarded_write be h sid (\<lambda>d.
     ask_backend be (caller_instance h) (CallResize sid cols rows) not_found_from_error (touch_session be sid d))"

definition write_session ::
  "backend \<Rightarrow> headers \<Rightarrow> string \<Rightarrow> bytes \<Rightarrow> string option \<Rightarrow> daemon \<Rightarrow> daemon \<times> answer" where
  "write_session be h sid data source = guarded_write be h sid (\<lambda>d.
     ask_backend be (caller_instance h)
       (if source = Some ''system'' then CallWriteReply sid data else CallWrite sid data)
       not_found_from_error (touch_session be sid d))"

definition submit_session :: "backend \<Rightarrow> headers \<Rightarrow> string \<Rightarrow> bytes \<Rightarrow> daemon \<Rightarrow> daemon \<times> answer" where
  "submit_session be h sid data = guarded_write be h sid (\<lambda>d.
     ask_backend be (caller_instance h) (CallSubmit sid data) not_found_from_error (touch_session be sid d))"

fun rejection_code :: "store_outcome \<Rightarrow> string" where
  "rejection_code RejectedStaleAnchor = ''STALE_ANCHOR''"
| "rejection_code RejectedAnchorGap = ''ANCHOR_GAP''"
| "rejection_code RejectedFutureAnchor = ''FUTURE_ANCHOR''"
| "rejection_code RejectedEpochMismatch = ''EPOCH_MISMATCH''"
| "rejection_code RejectedTooLarge = ''TOO_LARGE''"
| "rejection_code (Accepted _) = []"

definition upload_session_checkpoint ::
  "backend \<Rightarrow> headers \<Rightarrow> string \<Rightarrow> checkpoint \<Rightarrow> daemon \<Rightarrow> daemon \<times> answer" where
  "upload_session_checkpoint be h sid cp = guarded_write be h sid (\<lambda>d.
     (log_call (caller_instance h) (CallCheckpoint sid cp) (touch_session be sid d),
      case be_stored be sid cp of
        Inl e \<Rightarrow> Inl (not_found_from_error e)
      | Inr (Accepted anchor) \<Rightarrow> Inr (CheckpointAccepted anchor)
      | Inr rejected \<Rightarrow> Inl (json_error 409 (rejection_code rejected) ''checkpoint rejected by replay buffer'')))"

definition kill_session :: "backend \<Rightarrow> headers \<Rightarrow> string \<Rightarrow> string option \<Rightarrow> daemon \<Rightarrow> daemon \<times> answer" where
  "kill_session be h sid reason = guarded_write be h sid (\<lambda>d.
     let c = CallKill sid (kill_reason_parse reason); d = log_call (caller_instance h) c d
     in case be_refuses be c of
          Some e \<Rightarrow> (d, Inl (not_found_from_error e))
        | None \<Rightarrow> (remove_session_activity be sid d, Inr NoContent))"

definition list_session_claims :: "backend \<Rightarrow> headers \<Rightarrow> daemon \<Rightarrow> daemon \<times> answer" where
  "list_session_claims be h d = authorized h d (\<lambda>d.
     let d = prune_expired_claims be d in (d, Inr (ClaimTable (live_session_claims be d))))"

definition get_adoption_snapshot :: "backend \<Rightarrow> headers \<Rightarrow> daemon \<Rightarrow> daemon \<times> answer" where
  "get_adoption_snapshot be h d = authorized h d (\<lambda>d.
     case be_all be of
       Inl e \<Rightarrow> (d, Inl (internal_error e))
     | Inr sessions \<Rightarrow>
         (let live_ids = map si_session (filter (\<lambda>st. \<not> is_terminal (si_status st)) sessions);
              d = prune_expired_claims be d;
              d = d\<lparr>dm_claims := (\<lambda>sid. if sid \<in> set live_ids then dm_claims d sid else None),
                    dm_provenance := (\<lambda>sid. if sid \<in> set live_ids then dm_provenance d sid else None)\<rparr>
          in (d, Inr (Adoption \<lparr>ad_claims_supported = True, ad_daemon_generation = Some (dm_started_at d),
                ad_owner_instance_id = caller_instance h, ad_captured_at_ms = be_epoch_ms be, ad_complete = True,
                ad_sessions = sessions, ad_claims = live_session_claims be d, ad_provenance = dm_provenance d\<rparr>))))"

definition get_session_provenance :: "headers \<Rightarrow> string \<Rightarrow> daemon \<Rightarrow> daemon \<times> answer" where
  "get_session_provenance h sid d = authorized h d (\<lambda>d.
     (d, case dm_provenance d sid of
           Some pv \<Rightarrow> Inr (Provenance pv) | None \<Rightarrow> Inl (not_found ''Session provenance not found'')))"

definition claim_owner :: "headers \<Rightarrow> string option \<Rightarrow> string option" where
  "claim_owner h app_instance_id =
     (case or_else app_instance_id (caller_instance h) of
        Some v \<Rightarrow> if trim v \<noteq> [] then Some v else None | None \<Rightarrow> None)"

definition claim_session ::
  "backend \<Rightarrow> headers \<Rightarrow> string \<Rightarrow> string option \<Rightarrow> nat option \<Rightarrow> daemon \<Rightarrow> daemon \<times> answer" where
  "claim_session be h sid app_instance_id ttl_ms d = authorized h d (\<lambda>d.
     case claim_owner h app_instance_id of
       None \<Rightarrow> (d, Inl (json_error 400 ''MISSING_INSTANCE_ID'' ''appInstanceId is required to claim a session''))
     | Some owner \<Rightarrow>
         (case be_status be sid of
            Inl e \<Rightarrow> (d, Inl (internal_error e))
          | Inr None \<Rightarrow> (d, Inl (json_error 404 ''SESSION_NOT_FOUND'' ''cannot claim a session that does not exist''))
          | Inr (Some _) \<Rightarrow>
              (case try_claim_session be sid owner ttl_ms (prune_expired_claims be d) of
                 (d, Inr _) \<Rightarrow> (touch_session be sid d, Inr (ClaimGranted sid owner))
               | (d, Inl existing) \<Rightarrow> (d, Inl (session_claimed existing)))))"

definition release_session_claim ::
  "backend \<Rightarrow> headers \<Rightarrow> string \<Rightarrow> string option \<Rightarrow> daemon \<Rightarrow> daemon \<times> answer" where
  "release_session_claim be h sid app_instance_id d = authorized h d (\<lambda>d.
     let owner = get_or [] (or_else app_instance_id (caller_instance h))
     in case release_claim be sid owner d of
          (d, True) \<Rightarrow> (d, Inr NoContent)
        | (d, False) \<Rightarrow> (d, Inl (json_error 409 ''SESSION_CLAIMED'' ''session is claimed by another instance'')))"

text \<open>Reading a session touches it.\<close>

definition get_session_output :: "backend \<Rightarrow> headers \<Rightarrow> string \<Rightarrow> nat option \<Rightarrow> daemon \<Rightarrow> daemon \<times> answer" where
  "get_session_output be h sid n_lines d = authorized h d (\<lambda>d.
     (touch_session be sid d,
      case be_output be sid (get_or 0 n_lines) of Inl e \<Rightarrow> Inl (not_found_from_error e) | Inr ls \<Rightarrow> Inr (OutputLines ls)))"

definition get_session_snapshot :: "backend \<Rightarrow> headers \<Rightarrow> string \<Rightarrow> daemon \<Rightarrow> daemon \<times> answer" where
  "get_session_snapshot be h sid d = authorized h d (\<lambda>d.
     (touch_session be sid d,
      case be_snapshot be sid of
        Inl e \<Rightarrow> Inl (internal_error e) | Inr None \<Rightarrow> Inl (not_found ''Session not found'') | Inr (Some s) \<Rightarrow> Inr (Snapshot s)))"

definition get_session_recovery_snapshot :: "backend \<Rightarrow> headers \<Rightarrow> string \<Rightarrow> daemon \<Rightarrow> daemon \<times> answer" where
  "get_session_recovery_snapshot be h sid d = authorized h d (\<lambda>d.
     (touch_session be sid d,
      case be_recovery be sid of
        Inl e \<Rightarrow> Inl (internal_error e) | Inr None \<Rightarrow> Inl (not_found ''Session not found'') | Inr (Some r) \<Rightarrow> Inr (Recovery r)))"

subsection \<open>The web sockets\<close>

definition ws_authorized :: "string option \<Rightarrow> daemon \<Rightarrow> http_error option" where
  "ws_authorized token d =
     (if token = Some (dm_token d) then None
      else Some (json_error 401 ''UNAUTHORIZED'' ''Invalid or missing token''))"

definition ws_session :: "backend \<Rightarrow> string \<Rightarrow> string option \<Rightarrow> string option \<Rightarrow> daemon \<Rightarrow> daemon \<times> http_error option" where
  "ws_session be sid token caller d =
     (case ws_authorized token d of
        Some e \<Rightarrow> (d, Some e)
      | None \<Rightarrow>
          (let d = touch_session be sid d
           in (d\<lparr>dm_emitter := subscribe_with_connection sid caller (dm_emitter d)\<rparr>, None)))"

datatype ws_input = WsText "json option" | WsBinary bytes | WsPing

text \<open>Input on a session socket: the lease decides whether it reaches the terminal. Text input touches
  the session, binary input does not.\<close>

definition handle_ws_input :: "backend \<Rightarrow> string \<Rightarrow> string option \<Rightarrow> ws_input \<Rightarrow> daemon \<Rightarrow> daemon" where
  "handle_ws_input be sid caller msg d =
     (case msg of
        WsText (Some v) \<Rightarrow>
          if get_str ''type'' v = Some ''input''
          then (let d = touch_session be sid d
                in if may_write_session be sid caller d
                   then log_call caller (CallWrite sid (get_or [] (get_str ''data'' v))) d
                   else d)
          else d
      | WsText None \<Rightarrow> d
      | WsBinary data \<Rightarrow>
          (case from_utf8 data of
             Some text \<Rightarrow> if may_write_session be sid caller d then log_call caller (CallWrite sid text) d else d
           | None \<Rightarrow> d)
      | WsPing \<Rightarrow> d)"

definition ws_end :: "backend \<Rightarrow> string \<Rightarrow> daemon \<Rightarrow> daemon" where
  "ws_end be sid d = d\<lparr>dm_emitter := cleanup_session (be_channels be) sid (dm_emitter d)\<rparr>"

definition ws_control :: "string option \<Rightarrow> string option \<Rightarrow> daemon \<Rightarrow> daemon \<times> http_error option" where
  "ws_control token kind d =
     (case ws_authorized token d of
        Some e \<Rightarrow> (d, Some e)
      | None \<Rightarrow>
          (let d = (if get_or ''desktop'' kind = ''desktop'' then register_desktop_client d else d)
           in (d\<lparr>dm_emitter := subscribe_control (dm_emitter d)\<rparr>, None)))"

definition control_closed :: "string option \<Rightarrow> string \<Rightarrow> daemon \<Rightarrow> daemon" where
  "control_closed kind conn d =
     (let d = d\<lparr>dm_emitter := clear_connection_hidden conn (dm_emitter d)\<rparr>
      in if get_or ''desktop'' kind = ''desktop'' then drop_desktop_client d else d)"

subsection \<open>The router, and runs of the daemon\<close>

datatype request =
    ReqHealth
  | ReqDaemonStatus
  | ReqShutdown
  | ReqPassword bytes bytes
  | ReqCreate create_body
  | ReqCancel string
  | ReqList
  | ReqStatus string
  | ReqByLaunch string
  | ReqHookStatus string session_status
  | ReqOutput string "nat option"
  | ReqSnapshot string
  | ReqRecovery string
  | ReqCheckpoint string checkpoint
  | ReqWrite string bytes "string option"
  | ReqSubmit string bytes
  | ReqResize string "16 word" "16 word"
  | ReqAdoption
  | ReqClaims
  | ReqIdentity
  | ReqProvenance string
  | ReqClaim string "string option" "nat option"
  | ReqRelease string "string option"
  | ReqKill string "string option"

fun route :: "backend \<Rightarrow> headers \<Rightarrow> request \<Rightarrow> daemon \<Rightarrow> daemon \<times> answer" where
  "route be h ReqHealth = health be"
| "route be h ReqDaemonStatus = get_daemon_status be h"
| "route be h ReqShutdown = shutdown_daemon h"
| "route be h (ReqPassword machine_id password) = set_temporary_ssh_password h machine_id password"
| "route be h (ReqCreate body) = create_session be h body"
| "route be h (ReqCancel launch_id) = cancel_launch be h launch_id"
| "route be h ReqList = list_sessions be h"
| "route be h (ReqStatus sid) = get_session_status be h sid"
| "route be h (ReqByLaunch launch_id) = find_session_by_launch be h launch_id"
| "route be h (ReqHookStatus sid st) = hook_status be h sid st"
| "route be h (ReqOutput sid n) = get_session_output be h sid n"
| "route be h (ReqSnapshot sid) = get_session_snapshot be h sid"
| "route be h (ReqRecovery sid) = get_session_recovery_snapshot be h sid"
| "route be h (ReqCheckpoint sid cp) = upload_session_checkpoint be h sid cp"
| "route be h (ReqWrite sid data source) = write_session be h sid data source"
| "route be h (ReqSubmit sid data) = submit_session be h sid data"
| "route be h (ReqResize sid cols rows) = resize_session be h sid cols rows"
| "route be h ReqAdoption = get_adoption_snapshot be h"
| "route be h ReqClaims = list_session_claims be h"
| "route be h ReqIdentity = list_identity_events h"
| "route be h (ReqProvenance sid) = get_session_provenance h sid"
| "route be h (ReqClaim sid app_id ttl) = claim_session be h sid app_id ttl"
| "route be h (ReqRelease sid app_id) = release_session_claim be h sid app_id"
| "route be h (ReqKill sid reason) = kill_session be h sid reason"

datatype daemon_event =
    Http headers request
  | WsOpen string "string option" "string option"
  | WsMessage string "string option" ws_input
  | WsEnd string
  | ControlOpen "string option" "string option"
  | ControlClosed "string option" string

fun dm_exec :: "backend \<times> daemon_event \<Rightarrow> daemon \<Rightarrow> daemon" where
  "dm_exec (be, Http h r) d = fst (route be h r d)"
| "dm_exec (be, WsOpen sid token caller) d = fst (ws_session be sid token caller d)"
| "dm_exec (be, WsMessage sid caller msg) d = handle_ws_input be sid caller msg d"
| "dm_exec (be, WsEnd sid) d = ws_end be sid d"
| "dm_exec (be, ControlOpen token kind) d = fst (ws_control token kind d)"
| "dm_exec (be, ControlClosed kind conn) d = control_closed kind conn d"

definition dm_run :: "(backend \<times> daemon_event) list \<Rightarrow> daemon \<Rightarrow> daemon" where
  "dm_run es d = fold dm_exec es d"

lemma dm_run_simps [simp]:
  "dm_run [] d = d" "dm_run (e # es) d = dm_run es (dm_exec e d)" "dm_run (xs @ ys) d = dm_run ys (dm_run xs d)"
  by (simp_all add: dm_run_def)

end
