(* ===== verification/Session_Properties.thy ===== *)
theory Session_Properties
  imports Daemon_Sessions
begin

text \<open>
  What the daemon promises about its sessions, over runs of arbitrary requests: the lease excludes
  other instances except from the cancellation of a launch, the token guards every route but the
  health check, a restored session keeps its birth certificate and its place while it lives, and
  which restores are refused. \<open>Session_Reaper\<close> continues the third with the reaper running beside.
\<close>

subsection \<open>Frames\<close>

lemma primitive_frame [frame]:
  "dm_log (touch_session be sid d) = dm_log d" "dm_claims (touch_session be sid d) = dm_claims d"
  "dm_provenance (touch_session be sid d) = dm_provenance d" "dm_replacements (touch_session be sid d) = dm_replacements d"
  "dm_log (prune_expired_claims be d) = dm_log d" "dm_provenance (prune_expired_claims be d) = dm_provenance d"
  "dm_replacements (prune_expired_claims be d) = dm_replacements d"
  "dm_claims (log_call c x d) = dm_claims d" "dm_provenance (log_call c x d) = dm_provenance d"
  "dm_replacements (log_call c x d) = dm_replacements d" "dm_log (log_call c x d) = dm_log d @ [(c, x)]"
  "dm_log (remove_session_activity be sid d) = dm_log d"
  by (simp_all add: touch_session_def prune_expired_claims_def log_call_def remove_session_activity_def forget_session_claim_def)

lemma claim_frame [frame]:
  "dm_log (fst (try_claim_session be sid owner ttl d)) = dm_log d"
  "dm_provenance (fst (try_claim_session be sid owner ttl d)) = dm_provenance d"
  "dm_replacements (fst (try_claim_session be sid owner ttl d)) = dm_replacements d"
  "dm_log (fst (release_claim be sid owner d)) = dm_log d"
  "dm_provenance (fst (release_claim be sid owner d)) = dm_provenance d"
  "dm_replacements (fst (release_claim be sid owner d)) = dm_replacements d"
  by (simp_all add: try_claim_session_def release_claim_def Let_def split: option.split)

lemma expected_frame [frame]:
  "dm_log (fst (expected_session be expected d)) = dm_log d"
  "dm_claims (fst (expected_session be expected d)) = dm_claims d"
  "dm_provenance (fst (expected_session be expected d)) = dm_provenance d"
  by (simp_all add: expected_session_def split: sum.split option.split)

subsection \<open>The lease excludes others\<close>

text \<open>The session a call acts on, for the calls that the lease guards.\<close>

fun writes_to :: "backend_call \<Rightarrow> string option" where
  "writes_to (CallResize sid _ _) = Some sid"
| "writes_to (CallWrite sid _) = Some sid"
| "writes_to (CallWriteReply sid _) = Some sid"
| "writes_to (CallSubmit sid _) = Some sid"
| "writes_to (CallCheckpoint sid _) = Some sid"
| "writes_to (CallKill sid _) = Some sid"
| "writes_to _ = None"

definition holds_lease :: "string \<Rightarrow> string \<Rightarrow> instant \<Rightarrow> daemon \<Rightarrow> bool" where
  "holds_lease sid a T d = (case dm_claims d sid of Some l \<Rightarrow> le_owner l = a \<and> T \<le> le_expires l | None \<Rightarrow> False)"

definition only_by :: "string \<Rightarrow> string \<Rightarrow> (string option \<times> backend_call) list \<Rightarrow> bool" where
  "only_by sid a calls = list_all (\<lambda>(c, x). writes_to x = Some sid \<longrightarrow> c = Some a) calls"

text \<open>From \<open>d\<close> to \<open>d'\<close> the lease is kept and only its owner has reached the session.\<close>

definition secure :: "string \<Rightarrow> string \<Rightarrow> instant \<Rightarrow> daemon \<Rightarrow> daemon \<Rightarrow> bool" where
  "secure sid a T d d' = (holds_lease sid a T d' \<and> (\<exists>calls. dm_log d' = dm_log d @ calls \<and> only_by sid a calls))"

lemma secure_refl: "holds_lease sid a T d \<Longrightarrow> secure sid a T d d"
  by (simp add: secure_def only_by_def)

lemma secure_trans: "secure sid a T d d1 \<Longrightarrow> secure sid a T d1 d2 \<Longrightarrow> secure sid a T d d2"
  by (auto simp: secure_def only_by_def)

lemma secure_holds: "secure sid a T d d' \<Longrightarrow> holds_lease sid a T d'"
  by (simp add: secure_def)

lemma secure_frame:
  "holds_lease sid a T d' \<Longrightarrow> dm_log d' = dm_log d \<Longrightarrow> secure sid a T d d'"
  by (simp add: secure_def only_by_def)

lemma secure_same: "dm_claims d' = dm_claims d \<Longrightarrow> dm_log d' = dm_log d \<Longrightarrow> holds_lease sid a T d \<Longrightarrow> secure sid a T d d'"
  by (rule secure_frame) (auto simp: holds_lease_def)

lemma secure_log:
  "holds_lease sid a T d \<Longrightarrow> writes_to x = Some sid \<longrightarrow> c = Some a \<Longrightarrow> secure sid a T d (log_call c x d)"
  by (simp add: secure_def only_by_def frame holds_lease_def)

lemma may_write_held:
  "holds_lease sid a T d \<Longrightarrow> be_now be < T \<Longrightarrow> may_write_session be sid c d = (c = Some a)"
  by (auto simp: holds_lease_def may_write_session_def session_claim_owner_def is_live_def split: option.splits)

lemma claim_secure:
  assumes "holds_lease sid a T d" and "be_now be < T"
    and "s = sid \<and> owner = a \<longrightarrow> T \<le> be_now be + from_millis (min (max (get_or CLAIM_TTL_DEFAULT_MS ttl) CLAIM_TTL_MIN_MS) CLAIM_TTL_MAX_MS)"
  shows "secure sid a T d (fst (try_claim_session be s owner ttl d))"
proof (rule secure_frame)
  show "holds_lease sid a T (fst (try_claim_session be s owner ttl d))"
    using assms by (auto simp: try_claim_session_def holds_lease_def is_live_def get_or_def Let_def split: option.splits if_splits)
qed (simp add: frame)

lemma prune_secure:
  assumes "holds_lease sid a T d" and "be_now be < T"
  shows "secure sid a T d (prune_expired_claims be d)"
  by (rule secure_frame)
    (use assms in \<open>auto simp: holds_lease_def prune_expired_claims_def is_live_def split: option.splits\<close>)

lemma release_secure:
  assumes "holds_lease sid a T d" and "be_now be < T" and "s = sid \<longrightarrow> owner \<noteq> a"
  shows "secure sid a T d (fst (release_claim be s owner d))"
  by (rule secure_frame)
    (use assms in \<open>auto simp: holds_lease_def release_claim_def is_live_def frame split: option.splits if_splits\<close>)

lemma remove_secure:
  assumes "holds_lease sid a T d" and "s \<noteq> sid"
  shows "secure sid a T d (remove_session_activity be s d)"
  by (rule secure_frame)
    (use assms in \<open>auto simp: holds_lease_def remove_session_activity_def forget_session_claim_def Let_def\<close>)

lemma touch_secure: "holds_lease sid a T d \<Longrightarrow> secure sid a T d (touch_session be s d)"
  by (rule secure_same) (simp_all add: frame)

lemma secure_authorized:
  assumes "holds_lease sid a T d" and "secure sid a T d (fst (f d))"
  shows "secure sid a T d (fst (authorized h d f))"
  using assms by (auto simp: authorized_def secure_refl split: option.split)

lemma secure_guarded:
  assumes "holds_lease sid a T d" and "be_now be < T"
    and "s = sid \<longrightarrow> caller_instance h = Some a \<Longrightarrow> secure sid a T d (fst (f d))"
  shows "secure sid a T d (fst (guarded_write be h s f d))"
  unfolding guarded_write_def
proof (rule secure_authorized [OF assms(1)])
  show "secure sid a T d (fst (case ensure_may_write be h s d of None \<Rightarrow> f d | Some e \<Rightarrow> (d, Inl e)))"
    using assms may_write_held [OF assms(1,2)] by (auto simp: ensure_may_write_def secure_refl split: option.split)
qed

lemma ask_secure:
  "holds_lease sid a T d \<Longrightarrow> writes_to x = Some sid \<longrightarrow> c = Some a \<Longrightarrow> secure sid a T d (fst (ask_backend be c x err d))"
  by (simp add: ask_backend_def secure_log)

lemma touched_ask_secure:
  assumes "holds_lease sid a T d" and "writes_to x = Some sid \<longrightarrow> c = Some a"
  shows "secure sid a T d (fst (ask_backend be c x err (touch_session be s d)))"
  using secure_trans [OF touch_secure [OF assms(1)] ask_secure [OF secure_holds [OF touch_secure [OF assms(1)]] assms(2)]] .

text \<open>The creations the backend carries out concern other sessions.\<close>

definition creates_other :: "string \<Rightarrow> backend \<Rightarrow> bool" where
  "creates_other sid be = (\<forall>req. case be_create be req of
      CreateOk s _ \<Rightarrow> s \<noteq> sid | CreateLate (Some s) \<Rightarrow> s \<noteq> sid | _ \<Rightarrow> True)"

lemma reuse_secure:
  assumes "holds_lease sid a T d" and "be_now be < T" and "owner = Some a \<longrightarrow> T \<le> be_now be + from_millis CLAIM_TTL_DEFAULT_MS"
  shows "secure sid a T d (fst (reuse_expected_session be req owner d))"
proof (cases "cr_expected_saved_session_id req")
  case (Some expected)
  obtain d1 r where e: "expected_session be expected d = (d1, r)" by (cases "expected_session be expected d")
  then have d1: "secure sid a T d d1"
    using expected_frame [of be expected d] by (intro secure_same [OF _ _ assms(1)]) simp_all
  note held = secure_holds [OF d1]
  have default: "min (max (get_or CLAIM_TTL_DEFAULT_MS None) CLAIM_TTL_MIN_MS) CLAIM_TTL_MAX_MS = CLAIM_TTL_DEFAULT_MS"
    by (simp add: get_or_def CLAIM_TTL_DEFAULT_MS_def CLAIM_TTL_MIN_MS_def CLAIM_TTL_MAX_MS_def)
  have "secure sid a T d1 (fst (try_claim_session be s o' None d1))" if "owner = Some o'" for s o'
    by (rule claim_secure [OF held assms(2)]) (use assms(3) that in \<open>simp add: default\<close>)
  then have claim: "secure sid a T d d2" if "owner = Some o'" "try_claim_session be s o' None d1 = (d2, c)" for s o' d2 c
    using secure_trans [OF d1] that by (metis fst_conv)
  have touched: "secure sid a T d (touch_session be s d2)" if "secure sid a T d d2" for s d2
    using secure_trans [OF that touch_secure [OF secure_holds [OF that]]] .
  show ?thesis
    using Some e d1 claim touched
    by (auto simp: reuse_expected_session_def split: sum.split option.split prod.split)
qed (use assms in \<open>simp add: reuse_expected_session_def secure_refl\<close>)

lemma register_secure:
  assumes "holds_lease sid a T d" and "be_now be < T" and "s \<noteq> sid"
  shows "secure sid a T d (fst (register_session be body owner s model req d))"
proof -
  define d0 where "d0 = touch_session be s d"
  have d0: "secure sid a T d d0" unfolding d0_def by (rule touch_secure [OF assms(1)])
  have born: "secure sid a T d (fst (record_birth be body owner s model req d1))" if "secure sid a T d d1" for d1
    by (rule secure_trans [OF that secure_same [OF _ _ secure_holds [OF that]]])
      (simp_all add: record_birth_def Let_def split: option.split)
  show ?thesis
  proof (cases owner)
    case None
    then show ?thesis using born [OF d0] by (simp add: register_session_def d0_def)
  next
    case (Some o')
    obtain d1 c where c: "try_claim_session be s o' None d0 = (d1, c)" by (cases "try_claim_session be s o' None d0")
    have "secure sid a T d0 d1" using claim_secure [OF secure_holds [OF d0] assms(2), of s o' None] c assms(3) by simp
    then have d1: "secure sid a T d d1" by (rule secure_trans [OF d0])
    have "secure sid a T d (remove_session_activity be s (log_call owner (CallKill s Unknown) d1))"
      by (rule secure_trans [OF secure_trans [OF d1 secure_log] remove_secure [OF secure_holds [OF secure_log]]])
        (use assms(3) secure_holds [OF d1] in simp_all)
    then show ?thesis using born [OF d1] c Some
      by (simp add: register_session_def d0_def [symmetric] split: sum.split)
  qed
qed

text \<open>The cancellation of a launch does not look at leases: it reaches the sessions of this launch.\<close>

definition launched_by :: "string \<Rightarrow> backend \<Rightarrow> string \<Rightarrow> bool" where
  "launched_by sid be launch_id \<longleftrightarrow> trim launch_id \<noteq> [] \<and> sid \<in> set (be_launched be (trim launch_id))"

lemma kill_launched_secure:
  "holds_lease sid a T d \<Longrightarrow> sid \<notin> set sids \<Longrightarrow> secure sid a T d (fst (kill_launched be c sids d))"
proof (induction sids arbitrary: d)
  case (Cons s sids)
  have log: "secure sid a T d (log_call c (CallKill s LaunchTimeout) d)"
    by (rule secure_log [OF Cons.prems(1)]) (use Cons.prems(2) in auto)
  have "secure sid a T d (fst (kill_launched be c sids (log_call c (CallKill s LaunchTimeout) d)))"
    by (rule secure_trans [OF log Cons.IH [OF secure_holds [OF log]]]) (use Cons.prems(2) in simp)
  then show ?case using log by (simp add: Let_def split: option.split core_error.split)
qed (simp add: secure_refl)

lemma cancel_secure:
  assumes "holds_lease sid a T d" and "\<not> launched_by sid be launch_id"
  shows "secure sid a T d (fst (backend_cancel_launch be c launch_id d))"
proof -
  have log: "secure sid a T d (log_call c (CallCancelLaunch launch_id) d)" by (rule secure_log [OF assms(1)]) simp
  have "secure sid a T d (fst (kill_launched be c (be_launched be (trim launch_id)) (log_call c (CallCancelLaunch launch_id) d)))"
    if "trim launch_id \<noteq> []"
    by (rule secure_trans [OF log kill_launched_secure [OF secure_holds [OF log]]])
      (use assms(2) that in \<open>simp add: launched_by_def\<close>)
  then show ?thesis using log by (simp add: backend_cancel_launch_def Let_def split: option.split)
qed

lemma timeout_secure:
  assumes "holds_lease sid a T d" and "late \<noteq> Some sid"
    and "\<And>lid. cr_launch_id (cb_rest body) = Some lid \<Longrightarrow> \<not> launched_by sid be lid"
  shows "secure sid a T d (fst (launch_timeout be body c late d))"
proof -
  define d1 where "d1 = (case late of Some s \<Rightarrow> log_call c (CallKill s LaunchTimeout) d | None \<Rightarrow> d)"
  have d1: "secure sid a T d d1"
    using assms by (auto simp: d1_def secure_refl intro!: secure_log split: option.split)
  have "secure sid a T d1 (case cr_launch_id (cb_rest body) of Some lid \<Rightarrow> fst (backend_cancel_launch be c lid d1) | None \<Rightarrow> d1)"
    using secure_holds [OF d1] assms(3) by (auto simp: secure_refl intro!: cancel_secure split: option.split)
  then show ?thesis
    unfolding launch_timeout_def Let_def fst_conv d1_def [symmetric] by (rule secure_trans [OF d1])
qed

lemma launch_secure:
  assumes "holds_lease sid a T d" and "be_now be < T" and "creates_other sid be"
    and "\<And>lid. cr_launch_id (cb_rest body) = Some lid \<Longrightarrow> \<not> launched_by sid be lid"
  shows "secure sid a T d (fst (launch_session be body owner req d))"
proof -
  define d2 where "d2 = log_call owner (CallCreate req) d"
  have d2: "secure sid a T d d2" unfolding d2_def by (rule secure_log [OF assms(1)]) simp
  have other: "case be_create be req of CreateOk s _ \<Rightarrow> s \<noteq> sid | CreateLate (Some s) \<Rightarrow> s \<noteq> sid | _ \<Rightarrow> True"
    using assms(3) by (simp add: creates_other_def)
  have born: "secure sid a T d (fst (register_session be body owner s model req d2))" if "s \<noteq> sid" for s model
    by (rule secure_trans [OF d2 register_secure [OF secure_holds [OF d2] assms(2) that]])
  have late: "secure sid a T d (fst (launch_timeout be body owner l d2))" if "l \<noteq> Some sid" for l
    by (rule secure_trans [OF d2 timeout_secure [OF secure_holds [OF d2] that assms(4)]])
  show ?thesis
    unfolding launch_session_def Let_def d2_def [symmetric]
    using other born late d2 by (cases "be_create be req") (auto split: option.splits)
qed

lemma create_secure:
  assumes "holds_lease sid a T d" and "be_now be < T" and "creates_other sid be"
    and "caller_instance h = Some a \<longrightarrow> T \<le> be_now be + from_millis CLAIM_TTL_DEFAULT_MS"
    and "\<And>lid. cr_launch_id (cb_rest body) = Some lid \<Longrightarrow> \<not> launched_by sid be lid"
  shows "secure sid a T d (fst (create_session be h body d))"
  unfolding create_session_def
proof (rule secure_authorized [OF assms(1)])
  obtain d1 r where r: "reuse_expected_session be (core_request be body d) (caller_instance h) d = (d1, r)"
    by (cases "reuse_expected_session be (core_request be body d) (caller_instance h) d")
  then have d1: "secure sid a T d d1"
    using reuse_secure [OF assms(1,2,4), of "core_request be body d"] by simp
  have "secure sid a T d (fst (launch_session be body (caller_instance h) (core_request be body d) d1))"
    by (rule secure_trans [OF d1 launch_secure [OF secure_holds [OF d1] assms(2,3,5)]])
  then show "secure sid a T d (fst (if cr_ssh (cb_rest body) \<noteq> None \<and> cr_wsl (cb_rest body) \<noteq> None
      then (d, Inl (json_error 400 ''INVALID_LAUNCH_OPTIONS'' ''SSH and WSL launch options cannot be combined''))
      else (case reuse_expected_session be (core_request be body d) (caller_instance h) d of
             (d1, Inl e) \<Rightarrow> (d1, Inl e)
           | (d1, Inr (Some sid)) \<Rightarrow> (d1, Inr (SessionCreated sid True None))
           | (d1, Inr None) \<Rightarrow> launch_session be body (caller_instance h) (core_request be body d) d1)))"
    using d1 assms(1) unfolding r by (cases r rule: sum.exhaust) (auto simp: secure_refl split: option.split)
qed

definition lease_end :: "backend \<Rightarrow> nat option \<Rightarrow> instant" where
  "lease_end be ttl = be_now be + from_millis (min (max (get_or CLAIM_TTL_DEFAULT_MS ttl) CLAIM_TTL_MIN_MS) CLAIM_TTL_MAX_MS)"

text \<open>Before \<open>T\<close>, the owner neither releases the lease, nor renews it for less, nor kills the
  session; nobody cancels the launch of the session or asks for another creation under it;
  the backend lists the session as alive and gives its id to no new one.\<close>

fun respects_lease :: "string \<Rightarrow> string \<Rightarrow> instant \<Rightarrow> backend \<Rightarrow> daemon_event \<Rightarrow> bool" where
  "respects_lease sid a T be (Http h (ReqCreate body)) =
     (creates_other sid be \<and> (caller_instance h = Some a \<longrightarrow> T \<le> lease_end be None)
      \<and> (case cr_launch_id (cb_rest body) of Some lid \<Rightarrow> \<not> launched_by sid be lid | None \<Rightarrow> True))"
| "respects_lease sid a T be (Http h (ReqCancel launch_id)) = (\<not> launched_by sid be launch_id)"
| "respects_lease sid a T be (Http h ReqAdoption) =
     (case be_all be of Inr l \<Rightarrow> list_ex (\<lambda>st. si_session st = sid \<and> si_status st \<noteq> Exited) l | Inl _ \<Rightarrow> True)"
| "respects_lease sid a T be (Http h (ReqClaim s app_id ttl)) =
     (s = sid \<and> claim_owner h app_id = Some a \<longrightarrow> T \<le> lease_end be ttl)"
| "respects_lease sid a T be (Http h (ReqRelease s app_id)) =
     (s = sid \<longrightarrow> get_or [] (or_else app_id (caller_instance h)) \<noteq> a)"
| "respects_lease sid a T be (Http h (ReqKill s reason)) = (s = sid \<longrightarrow> caller_instance h \<noteq> Some a)"
| "respects_lease sid a T be _ = True"

lemma lease_end_default: "lease_end be None = be_now be + from_millis CLAIM_TTL_DEFAULT_MS"
  by (simp add: lease_end_def get_or_def CLAIM_TTL_DEFAULT_MS_def CLAIM_TTL_MIN_MS_def CLAIM_TTL_MAX_MS_def)

lemma claim_route_secure:
  assumes "holds_lease sid a T d" and "be_now be < T"
    and "s = sid \<and> claim_owner h app_id = Some a \<longrightarrow> T \<le> lease_end be ttl"
  shows "secure sid a T d (fst (claim_session be h s app_id ttl d))"
  unfolding claim_session_def
proof (rule secure_authorized [OF assms(1)])
  define d1 where "d1 = prune_expired_claims be d"
  have d1: "secure sid a T d d1" unfolding d1_def by (rule prune_secure [OF assms(1,2)])
  have claim: "secure sid a T d d2 \<and> secure sid a T d (touch_session be s d2)"
    if "claim_owner h app_id = Some owner" "try_claim_session be s owner ttl d1 = (d2, c)" for owner d2 c
  proof -
    have "secure sid a T d1 (fst (try_claim_session be s owner ttl d1))"
      by (rule claim_secure [OF secure_holds [OF d1] assms(2)]) (use assms(3) that(1) in \<open>simp add: lease_end_def\<close>)
    then have "secure sid a T d d2" using secure_trans [OF d1] that(2) by simp
    then show ?thesis using secure_trans touch_secure secure_holds by blast
  qed
  show "secure sid a T d (fst (case claim_owner h app_id of
       None \<Rightarrow> (d, Inl (json_error 400 ''MISSING_INSTANCE_ID'' ''appInstanceId is required to claim a session''))
     | Some owner \<Rightarrow>
         (case be_status be s of
            Inl e \<Rightarrow> (d, Inl (internal_error e))
          | Inr None \<Rightarrow> (d, Inl (json_error 404 ''SESSION_NOT_FOUND'' ''cannot claim a session that does not exist''))
          | Inr (Some _) \<Rightarrow>
              (case try_claim_session be s owner ttl (prune_expired_claims be d) of
                 (d, Inr _) \<Rightarrow> (touch_session be s d, Inr (ClaimGranted s owner))
               | (d, Inl existing) \<Rightarrow> (d, Inl (session_claimed existing))))))"
    using claim assms(1) by (auto simp: d1_def [symmetric] secure_refl split: option.split sum.split prod.split)
qed

lemma kill_route_secure:
  assumes "holds_lease sid a T d" and "be_now be < T" and "s = sid \<longrightarrow> caller_instance h \<noteq> Some a"
  shows "secure sid a T d (fst (kill_session be h s reason d))"
  unfolding kill_session_def
proof (rule secure_guarded [OF assms(1,2)])
  assume "s = sid \<longrightarrow> caller_instance h = Some a"
  then have s: "s \<noteq> sid" using assms(3) by blast
  have logged: "secure sid a T d (log_call (caller_instance h) (CallKill s r) d)" for r
    by (rule secure_log [OF assms(1)]) (use s in simp)
  have "secure sid a T d (remove_session_activity be s (log_call (caller_instance h) (CallKill s r) d))" for r
    by (rule secure_trans [OF logged remove_secure [OF secure_holds [OF logged] s]])
  then show "secure sid a T d (fst (let c = CallKill s (kill_reason_parse reason); d = log_call (caller_instance h) c d
     in case be_refuses be c of
          Some e \<Rightarrow> (d, Inl (not_found_from_error e))
        | None \<Rightarrow> (remove_session_activity be s d, Inr NoContent)))"
    using logged by (simp add: Let_def split: option.split)
qed

lemma checkpoint_route_secure:
  assumes "holds_lease sid a T d" and "be_now be < T"
  shows "secure sid a T d (fst (upload_session_checkpoint be h s cp d))"
  unfolding upload_session_checkpoint_def
proof (rule secure_guarded [OF assms])
  assume "s = sid \<longrightarrow> caller_instance h = Some a"
  then show "secure sid a T d (fst (log_call (caller_instance h) (CallCheckpoint s cp) (touch_session be s d),
      case be_stored be s cp of
        Inl e \<Rightarrow> Inl (not_found_from_error e)
      | Inr (Accepted anchor) \<Rightarrow> Inr (CheckpointAccepted anchor)
      | Inr rejected \<Rightarrow> Inl (json_error 409 (rejection_code rejected) ''checkpoint rejected by replay buffer'')))"
    unfolding fst_conv
    by (intro secure_trans [OF touch_secure [OF assms(1)] secure_log [OF secure_holds [OF touch_secure [OF assms(1)]]]]) simp
qed

lemma adoption_route_secure:
  assumes "holds_lease sid a T d" and "be_now be < T" and "respects_lease sid a T be (Http h ReqAdoption)"
  shows "secure sid a T d (fst (get_adoption_snapshot be h d))"
  unfolding get_adoption_snapshot_def
proof (rule secure_authorized [OF assms(1)], cases "be_all be")
  case (Inr l)
  then have live: "sid \<in> si_session ` {st \<in> set l. \<not> is_terminal (si_status st)}"
    using assms(3) by (auto simp: list_ex_iff is_terminal_def)
  have "holds_lease sid a T (prune_expired_claims be d)" using prune_secure [OF assms(1,2)] by (rule secure_holds)
  then show "secure sid a T d (fst (case be_all be of Inl e \<Rightarrow> (d, Inl (internal_error e))
     | Inr sessions \<Rightarrow>
         (let live_ids = map si_session (filter (\<lambda>st. \<not> is_terminal (si_status st)) sessions);
              d = prune_expired_claims be d;
              d = d\<lparr>dm_claims := (\<lambda>sid. if sid \<in> set live_ids then dm_claims d sid else None),
                    dm_provenance := (\<lambda>sid. if sid \<in> set live_ids then dm_provenance d sid else None)\<rparr>
          in (d, Inr (Adoption \<lparr>ad_claims_supported = True, ad_daemon_generation = Some (dm_started_at d),
                ad_owner_instance_id = caller_instance h, ad_captured_at_ms = be_epoch_ms be, ad_complete = True,
                ad_sessions = sessions, ad_claims = live_session_claims be d, ad_provenance = dm_provenance d\<rparr>)))))"
    using live Inr by (auto simp: Let_def secure_def only_by_def holds_lease_def frame)
qed (use assms(1) in \<open>simp add: secure_refl\<close>)

lemma release_route_secure:
  assumes "holds_lease sid a T d" and "be_now be < T" and "respects_lease sid a T be (Http h (ReqRelease s app_id))"
  shows "secure sid a T d (fst (release_session_claim be h s app_id d))"
proof -
  let ?owner = "get_or [] (or_else app_id (caller_instance h))"
  have "secure sid a T d (fst (release_claim be s ?owner d))"
    by (rule release_secure [OF assms(1,2)]) (use assms(3) in simp)
  then show ?thesis
    unfolding release_session_claim_def Let_def
    by (intro secure_authorized [OF assms(1)]) (auto split: prod.split bool.split)
qed

lemma ws_input_secure:
  assumes "holds_lease sid a T d" and "be_now be < T"
  shows "secure sid a T d (handle_ws_input be s c msg d)"
proof -
  have touched: "secure sid a T d (touch_session be s d)" by (rule touch_secure [OF assms(1)])
  have written: "secure sid a T d (log_call c (CallWrite s data) d1)"
    if "secure sid a T d d1" "may_write_session be s c d1" for data d1
    by (rule secure_trans [OF that(1) secure_log [OF secure_holds [OF that(1)]]])
      (use may_write_held [OF secure_holds [OF that(1)] assms(2)] that(2) in auto)
  show ?thesis
    using assms(1) touched written written [OF secure_refl [OF assms(1)]]
    by (auto simp: handle_ws_input_def secure_refl Let_def split: ws_input.split option.split)
qed

lemma socket_secure:
  assumes "holds_lease sid a T d"
  shows "secure sid a T d (fst (ws_session be s token c d))" "secure sid a T d (ws_end be s d)"
    "secure sid a T d (fst (ws_control token kind d))" "secure sid a T d (control_closed kind conn d)"
proof -
  show "secure sid a T d (fst (ws_session be s token c d))"
    using secure_same [OF _ _ assms] by (simp add: ws_session_def secure_refl assms frame Let_def split: option.split)
  show "secure sid a T d (ws_end be s d)" by (rule secure_same [OF _ _ assms]) (simp_all add: ws_end_def)
  show "secure sid a T d (fst (ws_control token kind d))"
    using secure_same [OF _ _ assms]
    by (simp add: ws_control_def secure_refl assms register_desktop_client_def Let_def split: option.split)
  show "secure sid a T d (control_closed kind conn d)"
    by (rule secure_same [OF _ _ assms]) (simp_all add: control_closed_def drop_desktop_client_def Let_def)
qed


lemma quiet_secure:
  assumes "holds_lease sid a T d"
  shows "secure sid a T d (fst (get_daemon_status be h d))" "secure sid a T d (fst (shutdown_daemon h d))"
    "secure sid a T d (fst (set_temporary_ssh_password h machine_id password d))"
    "secure sid a T d (fst (list_sessions be h d))"
    "secure sid a T d (fst (health be d))" "secure sid a T d (fst (list_identity_events h d))"
    "secure sid a T d (fst (get_session_status be h s d))" "secure sid a T d (fst (find_session_by_launch be h launch_id d))"
    "secure sid a T d (fst (hook_status be h s st d))" "secure sid a T d (fst (get_session_output be h s n d))"
    "secure sid a T d (fst (get_session_snapshot be h s d))" "secure sid a T d (fst (get_session_recovery_snapshot be h s d))"
    "secure sid a T d (fst (get_session_provenance h s d))"
proof -
  note here = secure_authorized [OF assms] and touch = touch_secure [OF assms] and same = secure_same [OF _ _ assms]
  show "secure sid a T d (fst (get_daemon_status be h d))" "secure sid a T d (fst (list_sessions be h d))"
    "secure sid a T d (fst (find_session_by_launch be h launch_id d))" "secure sid a T d (fst (get_session_provenance h s d))"
    unfolding get_daemon_status_def list_sessions_def find_session_by_launch_def get_session_provenance_def
    by (rule here, simp add: secure_refl assms)+
  show "secure sid a T d (fst (get_session_status be h s d))" "secure sid a T d (fst (get_session_output be h s n d))"
    "secure sid a T d (fst (get_session_snapshot be h s d))" "secure sid a T d (fst (get_session_recovery_snapshot be h s d))"
    unfolding get_session_status_def get_session_output_def get_session_snapshot_def get_session_recovery_snapshot_def
    by (rule here, simp add: touch)+
  show "secure sid a T d (fst (shutdown_daemon h d))"
    unfolding shutdown_daemon_def by (rule here, rule same) (simp_all add: request_shutdown_def)
  show "secure sid a T d (fst (set_temporary_ssh_password h machine_id password d))"
    unfolding set_temporary_ssh_password_def by (rule here, rule same) (simp_all add: Let_def)
  show "secure sid a T d (fst (health be d))" by (simp add: health_def secure_refl assms)
  show "secure sid a T d (fst (list_identity_events h d))"
    unfolding list_identity_events_def by (rule here) (simp add: secure_refl assms)
  show "secure sid a T d (fst (hook_status be h s st d))"
    unfolding hook_status_def by (rule here, rule ask_secure [OF assms]) simp
qed

lemma cancel_route_secure:
  assumes "holds_lease sid a T d" and "\<not> launched_by sid be launch_id"
  shows "secure sid a T d (fst (cancel_launch be h launch_id d))"
  unfolding cancel_launch_def
  by (rule secure_authorized [OF assms(1)]) (simp add: cancel_secure [OF assms] case_prod_beta)

lemma write_secure:
  assumes "holds_lease sid a T d" and "be_now be < T"
  shows "secure sid a T d (fst (resize_session be h s cols rows d))" "secure sid a T d (fst (write_session be h s data source d))"
    "secure sid a T d (fst (submit_session be h s data d))" "secure sid a T d (fst (list_session_claims be h d))"
proof -
  note here = secure_guarded [OF assms] and ask = touched_ask_secure [OF assms(1)]
  show "secure sid a T d (fst (resize_session be h s cols rows d))" "secure sid a T d (fst (write_session be h s data source d))"
    "secure sid a T d (fst (submit_session be h s data d))"
    unfolding resize_session_def write_session_def submit_session_def by (rule here, rule ask, auto)+
  show "secure sid a T d (fst (list_session_claims be h d))"
    unfolding list_session_claims_def
    by (rule secure_authorized [OF assms(1)]) (simp add: Let_def prune_secure [OF assms])
qed

lemma step_secure:
  assumes "holds_lease sid a T d" and "be_now be < T" and "respects_lease sid a T be ev"
  shows "secure sid a T d (dm_exec (be, ev) d)"
proof (cases ev)
  case (Http h r)
  show ?thesis
  proof (cases r)
    case (ReqCreate body)
    then show ?thesis
      using create_secure [OF assms(1,2), of h body] assms(3) Http
      by (auto simp: lease_end_default split: option.splits)
  next
    case (ReqCancel launch_id)
    then show ?thesis using cancel_route_secure [OF assms(1)] assms(3) Http by simp
  next
    case ReqAdoption
    then show ?thesis using adoption_route_secure [OF assms(1,2)] assms(3) Http by simp
  next
    case (ReqClaim s app_id ttl)
    then show ?thesis using claim_route_secure [OF assms(1,2)] assms(3) Http by simp
  next
    case (ReqRelease s app_id)
    then show ?thesis using release_route_secure [OF assms(1,2)] assms(3) Http by simp
  next
    case (ReqKill s reason)
    then show ?thesis using kill_route_secure [OF assms(1,2)] assms(3) Http by simp
  qed (use Http in \<open>simp_all add: quiet_secure [OF assms(1)] write_secure [OF assms(1,2)] checkpoint_route_secure [OF assms(1,2)]\<close>)
qed (simp_all add: socket_secure [OF assms(1)] ws_input_secure [OF assms(1,2)])

lemma run_secure:
  "holds_lease sid a T d \<Longrightarrow> list_all (\<lambda>(be, ev). be_now be < T \<and> respects_lease sid a T be ev) es \<Longrightarrow>
   secure sid a T d (dm_run es d)"
proof (induction es arbitrary: d)
  case (Cons e es)
  obtain be ev where e: "e = (be, ev)" by (cases e)
  have "secure sid a T d (dm_exec e d)" using step_secure [OF Cons.prems(1)] Cons.prems(2) e by simp
  then show ?case using secure_trans [OF _ Cons.IH [OF secure_holds]] Cons.prems(2) by simp
qed (simp add: secure_refl)

text \<open>C5: A lease excludes other instances, but for the cancellation of the session's own launch. Once a claim
  of instance \<open>a\<close> on a session is granted, then for any later sequence of requests, socket messages and
  connections that arrive before the lease expires, by any number of instances, with or without the token,
  in which nobody cancels the launch under which the session was registered or asks for another
  creation under it, everything the terminal backend
  is asked to do to that session (write, submit, resize, checkpoint, kill) was asked by \<open>a\<close>, and the
  lease is still \<open>a\<close>'s at the end. The run is otherwise only restricted in what \<open>a\<close> itself gives up (a
  release, a shorter renewal, a kill) and in that the backend lists the session as alive and does not hand
  out its id again. The cancellation of its launch kills a session whoever holds its lease
  (\<open>cancel_ignores_lease\<close>). The reaper is no request and not part of these runs; it may reap a leased
  session that nobody views (\<open>Session_Reaper\<close>).\<close>

theorem lease_excludes_others:
  assumes granted: "claim_session be h sid app_id ttl d = (d0, Inr (ClaimGranted sid a))"
    and before: "list_all (\<lambda>(be', ev). be_now be' < lease_end be ttl \<and> respects_lease sid a (lease_end be ttl) be' ev) es"
  shows "(\<exists>calls. dm_log (dm_run es d0) = dm_log d @ calls \<and>
      (\<forall>c x. (c, x) \<in> set calls \<and> writes_to x = Some sid \<longrightarrow> c = Some a))
    \<and> holds_lease sid a (lease_end be ttl) (dm_run es d0)"
proof -
  have d0: "holds_lease sid a (lease_end be ttl) d0" "dm_log d0 = dm_log d"
    using granted
    by (auto simp: claim_session_def authorized_def try_claim_session_def holds_lease_def lease_end_def get_or_def
        touch_session_def prune_expired_claims_def Let_def split: option.splits sum.splits if_splits prod.splits)
  have "secure sid a (lease_end be ttl) d0 (dm_run es d0)" by (rule run_secure [OF d0(1) before])
  then show ?thesis
    by (auto simp: secure_def only_by_def list_all_iff d0(2))
qed


text \<open>A backend with one idle session, for the concrete runs.\<close>

definition demo_info :: "string \<Rightarrow> session_status \<Rightarrow> status_info" where
  "demo_info s st = \<lparr>si_session = s, si_status = st, si_last_output_at = 0, si_pid = None, si_exit_code = None,
     si_tool_name = None, si_tool_use_id = None, si_tool_summary = None, si_updated_at = 0\<rparr>"

definition demo_backend :: "instant \<Rightarrow> backend" where
  "demo_backend now =
     \<lparr>be_now = now, be_epoch_ms = 0, be_pid = 1,
      be_status = (\<lambda>s. Inr (if s = ''s'' \<or> s = ''n'' then Some (demo_info s Idle) else None)),
      be_all = Inr [demo_info ''s'' Idle], be_create = (\<lambda>_. CreateOk (if now = 0 then ''n'' else ''m'') None), be_by_launch = (\<lambda>_. Inr None),
      be_launched = (\<lambda>l. if l = ''L'' then [''s''] else []),
      be_output = (\<lambda>_ _. Inr []), be_snapshot = (\<lambda>_. Inr None), be_recovery = (\<lambda>_. Inr None),
      be_stored = (\<lambda>_ _. Inr RejectedTooLarge), be_refuses = (\<lambda>_. None), be_cancel_panics = None, be_nonce = ''u'',
      be_anchors = (''t'', ''p''), be_channels = open_env, be_home = None, be_osrelease = None, be_dunce = id\<rparr>"

definition demo_headers :: "string \<Rightarrow> headers" where
  "demo_headers a = \<lparr>hd_authorization = Some ''Bearer k'', hd_instance = Some a\<rparr>"

definition demo_daemon :: daemon where
  "demo_daemon = daemon_new ''k'' 7 ''/home''"

definition demo_lease_run :: "(backend \<times> daemon_event) list" where
  "demo_lease_run =
     [(demo_backend 1, Http (demo_headers ''B'') (ReqWrite ''s'' ''ls'' None)),
      (demo_backend 2, Http (demo_headers ''A'') (ReqWrite ''s'' ''pwd'' None)),
      (demo_backend 3, Http (demo_headers ''B'') (ReqKill ''s'' None)),
      (demo_backend 4, Http (demo_headers ''B'') (ReqRelease ''s'' None))]"

lemma demo_trim: "trim ''A'' = ''A''" "trim ''B'' = ''B''"
  by code_simp+

lemma demo_headers [simp]:
  "caller_instance (demo_headers ''A'') = Some ''A''" "caller_instance (demo_headers ''B'') = Some ''B''"
  "claim_owner (demo_headers ''A'') None = Some ''A''" "authorize (demo_headers a) ''k'' = None"
  by (simp_all add: caller_instance_def demo_headers_def claim_owner_def or_else_def authorize_def demo_trim)

lemmas demo_eval = authorized_def demo_backend_def demo_daemon_def daemon_new_def Let_def
  from_millis_def nanos_per_milli_def CLAIM_TTL_DEFAULT_MS_def CLAIM_TTL_MIN_MS_def CLAIM_TTL_MAX_MS_def or_else_def get_or_def

lemmas demo_claim_eval = demo_eval claim_session_def try_claim_session_def touch_session_def prune_expired_claims_def

definition demo_claimed_daemon :: daemon where
  "demo_claimed_daemon = demo_daemon
     \<lparr>dm_claims := [''s'' \<mapsto> \<lparr>le_owner = ''A'', le_expires = 30000000000\<rparr>], dm_activity := [''s'' \<mapsto> 0]\<rparr>"

lemma demo_claimed:
  "claim_session (demo_backend 0) (demo_headers ''A'') ''s'' None None demo_daemon
   = (demo_claimed_daemon, Inr (ClaimGranted ''s'' ''A''))"
  by (simp add: demo_claim_eval demo_claimed_daemon_def)

lemma demo_lease_respected:
  "list_all (\<lambda>(be', ev). be_now be' < lease_end (demo_backend 0) None \<and>
     respects_lease ''s'' ''A'' (lease_end (demo_backend 0) None) be' ev) demo_lease_run"
  by (simp add: demo_lease_run_def lease_end_default demo_eval)

lemma demo_lease_log:
  "dm_log (dm_run demo_lease_run demo_claimed_daemon) = [(Some ''A'', CallWrite ''s'' ''pwd'')]"
  by (simp add: demo_lease_run_def demo_claimed_daemon_def demo_eval write_session_def kill_session_def
      release_session_claim_def guarded_write_def ensure_may_write_def may_write_session_def session_claim_owner_def
      is_live_def ask_backend_def log_call_def touch_session_def release_claim_def)

theorem lease_excludes_others_witness:
  "only_by ''s'' ''A'' (dm_log (dm_run demo_lease_run demo_claimed_daemon))
    \<and> dm_log (dm_run demo_lease_run demo_claimed_daemon) = [(Some ''A'', CallWrite ''s'' ''pwd'')]"
proof -
  note run = lease_excludes_others [OF demo_claimed demo_lease_respected, THEN conjunct1]
  define d where "d = dm_run demo_lease_run demo_claimed_daemon"
  obtain calls where calls: "dm_log d = dm_log demo_daemon @ calls"
    and only: "\<forall>c x. (c, x) \<in> set calls \<and> writes_to x = Some ''s'' \<longrightarrow> c = Some ''A''"
    using run unfolding d_def [symmetric] by (elim exE conjE)
  have log: "dm_log d = calls" using calls by (simp add: demo_daemon_def daemon_new_def)
  have "only_by ''s'' ''A'' calls" unfolding only_by_def list_all_iff using only by blast
  then show ?thesis using log demo_lease_log unfolding d_def [symmetric] by simp
qed

text \<open>The exception is real: instance \<open>A\<close> holds the lease of \<open>s\<close>, instance \<open>B\<close> cancels the launch that \<open>s\<close> came from,
  and the backend is asked to kill \<open>s\<close>, while a request of \<open>B\<close> to kill the session itself is refused.\<close>

lemma demo_trim_launch: "trim ''L'' = ''L''"
  by code_simp

theorem cancel_ignores_lease:
  "holds_lease ''s'' ''A'' 30000000000 demo_claimed_daemon
   \<and> dm_log (dm_exec (demo_backend 1, Http (demo_headers ''B'') (ReqKill ''s'' None)) demo_claimed_daemon) = []
   \<and> (Some ''B'', CallKill ''s'' LaunchTimeout)
       \<in> set (dm_log (dm_exec (demo_backend 1, Http (demo_headers ''B'') (ReqCancel ''L'')) demo_claimed_daemon))"
  by (simp add: holds_lease_def demo_claimed_daemon_def demo_eval cancel_launch_def backend_cancel_launch_def
      demo_trim_launch log_call_def kill_session_def guarded_write_def ensure_may_write_def may_write_session_def
      session_claim_owner_def is_live_def)

subsection \<open>Runs without a restore\<close>

text \<open>A step is quiet when it keeps the replacements, the certificates and the token, and asks the
  backend for no creation.\<close>

definition no_creation :: "(string option \<times> backend_call) list \<Rightarrow> bool" where
  "no_creation calls = list_all (\<lambda>(c, x). \<forall>req. x \<noteq> CallCreate req) calls"

definition quiet :: "daemon \<Rightarrow> daemon \<Rightarrow> bool" where
  "quiet d d' = (dm_replacements d' = dm_replacements d \<and> dm_provenance d' = dm_provenance d \<and> dm_token d' = dm_token d
     \<and> dm_started_at d' = dm_started_at d \<and> dm_default_cwd d' = dm_default_cwd d
     \<and> (\<exists>calls. dm_log d' = dm_log d @ calls \<and> no_creation calls))"

lemma quiet_refl [intro, simp]: "quiet d d"
  by (simp add: quiet_def no_creation_def)

lemma quiet_trans: "quiet d d1 \<Longrightarrow> quiet d1 d2 \<Longrightarrow> quiet d d2"
  by (auto simp: quiet_def no_creation_def)

lemma quiet_primitives [simp]:
  "quiet d (touch_session be s d)" "quiet d (prune_expired_claims be d)"
  "quiet d (fst (try_claim_session be s owner ttl d))" "quiet d (fst (release_claim be s owner d))"
  "quiet d (register_desktop_client d)" "quiet d (drop_desktop_client d)" "quiet d (request_shutdown d)"
  "quiet d (d\<lparr>dm_passwords := ps\<rparr>)"
  by (simp_all add: quiet_def no_creation_def touch_session_def prune_expired_claims_def try_claim_session_def
      release_claim_def register_desktop_client_def drop_desktop_client_def request_shutdown_def Let_def split: option.split)

lemma quiet_log: "(\<And>req. x \<noteq> CallCreate req) \<Longrightarrow> quiet d (log_call c x d)"
  by (simp add: quiet_def no_creation_def log_call_def)

lemma quiet_ask: "(\<And>req. x \<noteq> CallCreate req) \<Longrightarrow> quiet d (fst (ask_backend be c x err d))"
  by (simp add: ask_backend_def quiet_log)

lemma quiet_touched_ask: "(\<And>req. x \<noteq> CallCreate req) \<Longrightarrow> quiet d (fst (ask_backend be c x err (touch_session be s d)))"
  by (rule quiet_trans [OF _ quiet_ask]) simp_all

lemma quiet_kill_launched: "quiet d (fst (kill_launched be c sids d))"
proof (induction sids arbitrary: d)
  case (Cons s sids)
  have log: "quiet d (log_call c (CallKill s LaunchTimeout) d)" by (rule quiet_log) simp
  show ?case using quiet_trans [OF log Cons.IH] log by (simp add: Let_def split: option.split core_error.split)
qed simp

lemma quiet_cancel: "quiet d (fst (backend_cancel_launch be c launch_id d))"
proof -
  have log: "quiet d (log_call c (CallCancelLaunch launch_id) d)" by (rule quiet_log) simp
  show ?thesis using quiet_trans [OF log quiet_kill_launched] log
    by (simp add: backend_cancel_launch_def Let_def split: option.split)
qed

lemma quiet_authorized: "quiet d (fst (f d)) \<Longrightarrow> quiet d (fst (authorized h d f))"
  by (simp add: authorized_def split: option.split)

lemma quiet_guarded: "quiet d (fst (f d)) \<Longrightarrow> quiet d (fst (guarded_write be h s f d))"
  unfolding guarded_write_def by (rule quiet_authorized) (simp split: option.split)

lemma quiet_claimed: "try_claim_session be s owner ttl d = (d1, c) \<Longrightarrow> quiet d d1"
  using quiet_primitives(3) [of d be s owner ttl] by simp

lemma claim_route_quiet: "quiet d (fst (claim_session be h s app_id ttl d))"
proof -
  have "quiet d d1 \<and> quiet d (touch_session be s d1)"
    if "try_claim_session be s owner ttl (prune_expired_claims be d) = (d1, c)" for owner d1 c
    using quiet_trans [OF quiet_primitives(2) quiet_claimed [OF that]] quiet_trans [OF _ quiet_primitives(1)] by blast
  then show ?thesis
    unfolding claim_session_def
    by (intro quiet_authorized) (auto split: option.split sum.split prod.split)
qed

lemma release_route_quiet: "quiet d (fst (release_session_claim be h s app_id d))"
proof -
  have "quiet d d1" if "release_claim be s owner d = (d1, r)" for owner d1 r
    using quiet_primitives(4) [of d be s owner] that by simp
  then show ?thesis
    unfolding release_session_claim_def Let_def
    by (intro quiet_authorized) (auto split: prod.split bool.split)
qed

lemma quiet_routes:
  "quiet d (fst (get_daemon_status be h d))" "quiet d (fst (shutdown_daemon h d))"
  "quiet d (fst (set_temporary_ssh_password h machine_id password d))" "quiet d (fst (cancel_launch be h launch_id d))"
  "quiet d (fst (list_sessions be h d))" "quiet d (fst (get_session_status be h s d))"
  "quiet d (fst (find_session_by_launch be h launch_id d))" "quiet d (fst (hook_status be h s st d))"
  "quiet d (fst (get_session_output be h s n d))" "quiet d (fst (get_session_snapshot be h s d))"
  "quiet d (fst (get_session_recovery_snapshot be h s d))" "quiet d (fst (get_session_provenance h s d))"
  "quiet d (fst (list_session_claims be h d))" "quiet d (fst (list_identity_events h d))"
  unfolding get_daemon_status_def list_sessions_def find_session_by_launch_def get_session_provenance_def shutdown_daemon_def
    get_session_status_def get_session_output_def get_session_snapshot_def get_session_recovery_snapshot_def
    set_temporary_ssh_password_def cancel_launch_def hook_status_def list_session_claims_def list_identity_events_def Let_def
  by (rule quiet_authorized, simp add: quiet_ask quiet_log quiet_cancel case_prod_beta split: option.split)+

lemma quiet_health [simp]: "fst (health be d) = d"
  by (simp add: health_def)

lemma quiet_writes:
  "quiet d (fst (resize_session be h s cols rows d))" "quiet d (fst (write_session be h s data source d))"
  "quiet d (fst (submit_session be h s data d))" "quiet d (fst (upload_session_checkpoint be h s cp d))"
proof -
  show "quiet d (fst (resize_session be h s cols rows d))" "quiet d (fst (write_session be h s data source d))"
    "quiet d (fst (submit_session be h s data d))"
    unfolding resize_session_def write_session_def submit_session_def
    by (rule quiet_guarded, rule quiet_touched_ask, simp)+
  have "quiet d (log_call (caller_instance h) (CallCheckpoint s cp) (touch_session be s d))"
    by (rule quiet_trans [OF quiet_primitives(1) quiet_log]) simp
  then show "quiet d (fst (upload_session_checkpoint be h s cp d))"
    unfolding upload_session_checkpoint_def by (intro quiet_guarded) simp
qed

fun lifecycle_event :: "daemon_event \<Rightarrow> bool" where
  "lifecycle_event (Http h (ReqCreate body)) = True"
| "lifecycle_event (Http h (ReqKill s reason)) = True"
| "lifecycle_event (Http h ReqAdoption) = True"
| "lifecycle_event _ = False"

lemma quiet_step: "\<not> lifecycle_event ev \<Longrightarrow> quiet d (dm_exec (be, ev) d)"
proof (cases ev)
  case (Http h r)
  assume "\<not> lifecycle_event ev"
  then show ?thesis
    unfolding Http by (cases r) (simp_all add: quiet_routes quiet_writes claim_route_quiet release_route_quiet)
next
  case (WsMessage s c msg)
  have "quiet d (log_call c (CallWrite s data) (touch_session be s d))" for data
    by (rule quiet_trans [OF quiet_primitives(1) quiet_log]) simp
  then show ?thesis
    unfolding WsMessage by (simp add: handle_ws_input_def quiet_log Let_def split: ws_input.split option.split)
qed (simp_all add: ws_session_def ws_end_def ws_control_def control_closed_def quiet_def no_creation_def touch_session_def
    register_desktop_client_def drop_desktop_client_def Let_def split: option.split)


subsection \<open>A restored session and its certificate\<close>

definition tied :: "string \<Rightarrow> string \<Rightarrow> provenance \<Rightarrow> daemon \<Rightarrow> bool" where
  "tied e n pv d = (dm_replacements d e = Some n \<and> dm_provenance d n = Some pv)"

definition no_restore :: "string \<Rightarrow> (string option \<times> backend_call) list \<Rightarrow> bool" where
  "no_restore e calls = list_all (\<lambda>(c, x). \<forall>req. x = CallCreate req \<longrightarrow> cr_expected_saved_session_id req \<noteq> Some e) calls"

lemma no_restore_create:
  "no_restore e calls \<Longrightarrow> (c, CallCreate req) \<in> set calls \<Longrightarrow> cr_expected_saved_session_id req \<noteq> Some e"
  by (induction calls) (auto simp: no_restore_def)

definition kept :: "string \<Rightarrow> string \<Rightarrow> provenance \<Rightarrow> daemon \<Rightarrow> daemon \<Rightarrow> bool" where
  "kept e n pv d d' = (tied e n pv d' \<and> dm_token d' = dm_token d \<and> dm_default_cwd d' = dm_default_cwd d
     \<and> (\<exists>calls. dm_log d' = dm_log d @ calls \<and> no_restore e calls))"

lemma kept_refl: "tied e n pv d \<Longrightarrow> kept e n pv d d"
  by (simp add: kept_def no_restore_def)

lemma kept_trans: "kept e n pv d d1 \<Longrightarrow> kept e n pv d1 d2 \<Longrightarrow> kept e n pv d d2"
  by (auto simp: kept_def no_restore_def)

lemma kept_tied: "kept e n pv d d' \<Longrightarrow> tied e n pv d'"
  by (simp add: kept_def)

lemma no_creation_no_restore: "no_creation calls \<Longrightarrow> no_restore e calls"
  by (induction calls) (auto simp: no_creation_def no_restore_def)

lemma quiet_kept: "tied e n pv d \<Longrightarrow> quiet d d' \<Longrightarrow> kept e n pv d d'"
  using no_creation_no_restore by (auto simp: kept_def tied_def quiet_def)

lemma kept_log:
  "tied e n pv d \<Longrightarrow> (\<And>req. x = CallCreate req \<Longrightarrow> cr_expected_saved_session_id req \<noteq> Some e) \<Longrightarrow> kept e n pv d (log_call c x d)"
  by (simp add: kept_def no_restore_def tied_def log_call_def)

lemma kept_remove:
  "tied e n pv d \<Longrightarrow> s \<noteq> e \<Longrightarrow> s \<noteq> n \<Longrightarrow> kept e n pv d (remove_session_activity be s d)"
  by (simp add: kept_def no_restore_def tied_def remove_session_activity_def forget_session_claim_def Let_def)

text \<open>What may not happen to the saved session \<open>e\<close> and the session \<open>n\<close> that stands for it: the backend
  does not report \<open>n\<close> as gone, does not kill either, and gives neither id to a new session.\<close>

fun spares :: "string \<Rightarrow> string \<Rightarrow> backend \<Rightarrow> daemon_event \<Rightarrow> bool" where
  "spares e n be (Http h (ReqCreate body)) =
     (creates_other e be \<and> creates_other n be \<and> (case be_status be n of Inl _ \<Rightarrow> True | Inr st \<Rightarrow> not_exited st))"
| "spares e n be (Http h ReqAdoption) =
     (case be_all be of Inr l \<Rightarrow> list_ex (\<lambda>st. si_session st = n \<and> si_status st \<noteq> Exited) l | Inl _ \<Rightarrow> True)"
| "spares e n be (Http h (ReqKill s reason)) =
     (s = e \<or> s = n \<longrightarrow> be_refuses be (CallKill s (kill_reason_parse reason)) \<noteq> None)"
| "spares e n be _ = True"

lemma core_request_keeps [simp]:
  "cr_expected_saved_session_id (core_request be body d) = cr_expected_saved_session_id (cb_rest body)"
  "cr_cli_tool (core_request be body d) = cr_cli_tool (cb_rest body)"
  "cr_launch_claude (core_request be body d) = cr_launch_claude (cb_rest body)"
  "cr_resume_id (core_request be body d) = cr_resume_id (cb_rest body)"
  by (simp_all add: core_request_def normalize_session_request_for_current_host_def normalize_session_request_for_host_def
      Let_def split: option.split)

lemma expected_kept:
  assumes "tied e n pv d" and "case be_status be n of Inl _ \<Rightarrow> True | Inr st \<Rightarrow> not_exited st"
  shows "kept e n pv d (fst (expected_session be x d))"
    and "x = e \<Longrightarrow> snd (expected_session be x d) \<noteq> Inr None"
  using assms
  by (auto simp: expected_session_def kept_def no_restore_def tied_def split: sum.split option.split)

lemma reuse_kept:
  assumes "tied e n pv d" and "case be_status be n of Inl _ \<Rightarrow> True | Inr st \<Rightarrow> not_exited st"
  shows "kept e n pv d (fst (reuse_expected_session be req owner d))"
    and "cr_expected_saved_session_id req = Some e \<Longrightarrow> snd (reuse_expected_session be req owner d) \<noteq> Inr None"
proof -
  have "kept e n pv d (fst (reuse_expected_session be req owner d)) \<and>
    (cr_expected_saved_session_id req = Some e \<longrightarrow> snd (reuse_expected_session be req owner d) \<noteq> Inr None)"
  proof (cases "cr_expected_saved_session_id req")
    case (Some x)
    obtain d1 r where x: "expected_session be x d = (d1, r)" by (cases "expected_session be x d")
    have d1: "kept e n pv d d1" and r: "x = e \<Longrightarrow> r \<noteq> Inr None"
      using expected_kept [OF assms, of x] x by simp_all
    have claimed: "kept e n pv d d2" if "try_claim_session be s o' None d1 = (d2, c)" for s o' d2 c
      by (rule kept_trans [OF d1 quiet_kept [OF kept_tied [OF d1] quiet_claimed [OF that]]])
    have touched: "kept e n pv d (touch_session be s d2)" if "kept e n pv d d2" for s d2
      by (rule kept_trans [OF that quiet_kept [OF kept_tied [OF that]]]) simp
    show ?thesis
      using Some x d1 r claimed touched
      by (auto simp: reuse_expected_session_def split: sum.split option.split prod.split)
  qed (simp add: reuse_expected_session_def kept_refl assms)
  then show "kept e n pv d (fst (reuse_expected_session be req owner d))"
    "cr_expected_saved_session_id req = Some e \<Longrightarrow> snd (reuse_expected_session be req owner d) \<noteq> Inr None" by blast+
qed

lemma birth_kept:
  assumes "kept e n pv d d1" and "s \<noteq> n" and "cr_expected_saved_session_id req \<noteq> Some e"
  shows "kept e n pv d (fst (record_birth be body owner s model req d1))"
  using assms by (auto simp: kept_def tied_def record_birth_def Let_def split: option.split)

lemma register_kept:
  assumes "tied e n pv d" and "s \<noteq> e" and "s \<noteq> n" and "cr_expected_saved_session_id req \<noteq> Some e"
  shows "kept e n pv d (fst (register_session be body owner s model req d))"
proof -
  define d0 where "d0 = touch_session be s d"
  have d0: "kept e n pv d d0" unfolding d0_def by (rule quiet_kept [OF assms(1)]) simp
  note born = birth_kept [OF _ assms(3,4)]
  show ?thesis
  proof (cases owner)
    case None
    then show ?thesis using born [OF d0] by (simp add: register_session_def d0_def)
  next
    case (Some o')
    obtain d1 c where c: "try_claim_session be s o' None d0 = (d1, c)" by (cases "try_claim_session be s o' None d0")
    have d1: "kept e n pv d d1"
      by (rule kept_trans [OF d0 quiet_kept [OF kept_tied [OF d0] quiet_claimed [OF c]]])
    have log: "kept e n pv d (log_call owner (CallKill s Unknown) d1)"
      by (rule kept_trans [OF d1 kept_log [OF kept_tied [OF d1]]]) simp
    have "kept e n pv d (remove_session_activity be s (log_call owner (CallKill s Unknown) d1))"
      by (rule kept_trans [OF log kept_remove [OF kept_tied [OF log] assms(2,3)]])
    then show ?thesis using born [OF d1] c Some
      by (simp add: register_session_def d0_def [symmetric] split: sum.split)
  qed
qed

lemma timeout_quiet: "quiet d (fst (launch_timeout be body c late d))"
proof -
  define d1 where "d1 = (case late of Some s \<Rightarrow> log_call c (CallKill s LaunchTimeout) d | None \<Rightarrow> d)"
  have d1: "quiet d d1" by (simp add: d1_def quiet_log split: option.split)
  have "quiet d1 (case cr_launch_id (cb_rest body) of Some lid \<Rightarrow> fst (backend_cancel_launch be c lid d1) | None \<Rightarrow> d1)"
    by (simp add: quiet_cancel split: option.split)
  then show ?thesis
    unfolding launch_timeout_def Let_def fst_conv d1_def [symmetric] by (rule quiet_trans [OF d1])
qed

lemma launch_kept:
  assumes "tied e n pv d" and "creates_other e be" and "creates_other n be" and "cr_expected_saved_session_id req \<noteq> Some e"
  shows "kept e n pv d (fst (launch_session be body owner req d))"
proof -
  define d2 where "d2 = log_call owner (CallCreate req) d"
  have d2: "kept e n pv d d2" unfolding d2_def by (rule kept_log [OF assms(1)]) (use assms(4) in simp)
  have born: "kept e n pv d (fst (register_session be body owner s model req d2))" if "s \<noteq> e" "s \<noteq> n" for s model
    by (rule kept_trans [OF d2 register_kept [OF kept_tied [OF d2] that assms(4)]])
  have late: "kept e n pv d (fst (launch_timeout be body owner l d2))" for l
    by (rule kept_trans [OF d2 quiet_kept [OF kept_tied [OF d2] timeout_quiet]])
  show ?thesis
    unfolding launch_session_def Let_def d2_def [symmetric]
    using assms(2,3) born late d2 by (cases "be_create be req") (auto simp: creates_other_def dest!: spec [of _ req])
qed


lemma create_kept:
  assumes "tied e n pv d" and "creates_other e be" and "creates_other n be"
    and "case be_status be n of Inl _ \<Rightarrow> True | Inr st \<Rightarrow> not_exited st"
  shows "kept e n pv d (fst (create_session be h body d))"
proof (cases "authorize h (dm_token d)")
  case None
  obtain d1 r where r: "reuse_expected_session be (core_request be body d) (caller_instance h) d = (d1, r)"
    by (cases "reuse_expected_session be (core_request be body d) (caller_instance h) d")
  have d1: "kept e n pv d d1" and new: "r = Inr None \<Longrightarrow> cr_expected_saved_session_id (core_request be body d) \<noteq> Some e"
    using reuse_kept [OF assms(1,4), of "core_request be body d" "caller_instance h"] r by auto
  have "kept e n pv d (fst (launch_session be body (caller_instance h) (core_request be body d) d1))" if "r = Inr None"
    by (rule kept_trans [OF d1 launch_kept [OF kept_tied [OF d1] assms(2,3) new [OF that]]])
  then show ?thesis
    using d1 kept_refl [OF assms(1)] None r by (simp add: create_session_def authorized_def split: sum.split option.split)
qed (simp add: create_session_def authorized_def kept_refl assms(1))

lemma kill_kept:
  assumes "tied e n pv d" and "spares e n be (Http h (ReqKill s reason))"
  shows "kept e n pv d (fst (kill_session be h s reason d))"
proof -
  define c where "c = CallKill s (kill_reason_parse reason)"
  define d1 where "d1 = log_call (caller_instance h) c d"
  have d1: "kept e n pv d d1" unfolding d1_def by (rule kept_log [OF assms(1)]) (simp add: c_def)
  have "kept e n pv d (remove_session_activity be s d1)" if "be_refuses be c = None"
    by (rule kept_trans [OF d1 kept_remove [OF kept_tied [OF d1]]]) (use assms(2) that in \<open>auto simp: c_def\<close>)
  then show ?thesis
    unfolding kill_session_def guarded_write_def authorized_def Let_def c_def [symmetric]
    using d1 kept_refl [OF assms(1)] by (simp add: d1_def split: option.split)
qed

lemma adoption_kept:
  assumes "tied e n pv d" and "spares e n be (Http h ReqAdoption)"
  shows "kept e n pv d (fst (get_adoption_snapshot be h d))"
proof (cases "be_all be")
  case (Inr l)
  then have "n \<in> si_session ` {st \<in> set l. \<not> is_terminal (si_status st)}"
    using assms(2) by (auto simp: list_ex_iff is_terminal_def)
  then show ?thesis
    using assms(1) Inr
    by (auto simp: get_adoption_snapshot_def authorized_def Let_def kept_def tied_def no_restore_def
        prune_expired_claims_def split: option.split)
qed (simp add: get_adoption_snapshot_def authorized_def kept_refl assms(1) split: option.split)

lemma step_kept:
  assumes "tied e n pv d" and "spares e n be ev"
  shows "kept e n pv d (dm_exec (be, ev) d)"
proof (cases "lifecycle_event ev")
  case True
  then obtain h r where ev: "ev = Http h r" by (cases ev) simp_all
  show ?thesis
    using True assms(2) create_kept [OF assms(1)] kill_kept [OF assms(1)] adoption_kept [OF assms(1)]
    unfolding ev by (cases r) simp_all
qed (rule quiet_kept [OF assms(1) quiet_step])

lemma run_kept:
  "tied e n pv d \<Longrightarrow> list_all (\<lambda>(be, ev). spares e n be ev) es \<Longrightarrow> kept e n pv d (dm_run es d)"
proof (induction es arbitrary: d)
  case (Cons x es)
  obtain be ev where x: "x = (be, ev)" by (cases x)
  have "kept e n pv d (dm_exec x d)" using step_kept [OF Cons.prems(1)] Cons.prems(2) x by simp
  then show ?case using kept_trans [OF _ Cons.IH [OF kept_tied]] Cons.prems(2) by simp
qed (simp add: kept_refl)

lemma created_tied:
  assumes created: "create_session be h body d = (d0, Inr (SessionCreated n False model))"
    and expected: "cr_expected_saved_session_id (cb_rest body) = Some e"
  shows "tied e n (birth_certificate be body (caller_instance h) n d) d0"
    and "dm_token d0 = dm_token d" and "dm_default_cwd d0 = dm_default_cwd d"
    and "authorize h (dm_token d) = None"
proof -
  let ?req = "core_request be body d"
  have auth: "authorize h (dm_token d) = None"
    using created by (auto simp: create_session_def authorized_def split: option.splits)
  obtain d1 r where r: "reuse_expected_session be ?req (caller_instance h) d = (d1, r)"
    by (cases "reuse_expected_session be ?req (caller_instance h) d")
  have same: "dm_token d1 = dm_token d" "dm_default_cwd d1 = dm_default_cwd d" "dm_started_at d1 = dm_started_at d"
    using r by (auto simp: reuse_expected_session_def expected_session_def try_claim_session_def touch_session_def Let_def
        split: option.splits sum.splits prod.splits if_splits)
  have "launch_session be body (caller_instance h) ?req d1 = (d0, Inr (SessionCreated n False model))"
    using created auth r by (auto simp: create_session_def authorized_def split: option.splits sum.splits if_splits)
  then have "tied e n (birth_certificate be body (caller_instance h) n d) d0 \<and>
      dm_token d0 = dm_token d \<and> dm_default_cwd d0 = dm_default_cwd d"
    using expected same
    by (auto simp: launch_session_def register_session_def record_birth_def launch_timeout_def try_claim_session_def
        tied_def birth_certificate_def requested_path_def touch_session_def log_call_def Let_def
        split: create_result.splits option.splits sum.splits prod.splits if_splits)
  then show "tied e n (birth_certificate be body (caller_instance h) n d) d0"
    "dm_token d0 = dm_token d" "dm_default_cwd d0 = dm_default_cwd d" "authorize h (dm_token d) = None"
    using auth by simp_all
qed


lemma reuse_by_certificate:
  assumes "tied e n pv d" and "cr_expected_saved_session_id req = Some e"
    and "be_status be e = Inr gone" and "\<not> not_exited gone" and "be_status be n = Inr st" and "not_exited st"
    and "may_write_session be n (Some a) d"
  shows "snd (reuse_expected_session be req (Some a) d) =
    (if restore_identity_matches (be_dunce be) req pv then Inr (Some n)
     else Inl (json_error 409 ''RESTORE_IDENTITY_MISMATCH'' ''live expected session does not match the restore request''))"
proof -
  have "expected_session be e d = (d, Inr (Some n))"
    using assms by (simp add: expected_session_def tied_def)
  moreover have "\<exists>l. snd (try_claim_session be n a None d) = Inr l"
    using assms(7) by (auto simp: may_write_session_def session_claim_owner_def try_claim_session_def Let_def split: option.splits)
  ultimately show ?thesis
    using assms(1,2) by (auto simp: reuse_expected_session_def tied_def split: prod.split sum.split)
qed

text \<open>The request of the creation, compared with its own certificate. The legacy request asks for
  Claude by its flag only.\<close>

definition legacy_claude :: "create_body \<Rightarrow> bool" where
  "legacy_claude body = (cr_cli_tool (cb_rest body) = CliNone \<and> cr_launch_claude (cb_rest body))"

lemma own_certificate:
  assumes "dm_default_cwd d' = dm_default_cwd d"
    and "running_under_wsl (be_osrelease be') \<Longrightarrow> cr_ssh (cb_rest body) = None \<and> cr_wsl (cb_rest body) \<noteq> None"
  shows "restore_identity_matches dunce (core_request be' body d') (birth_certificate be body owner n d)
    = (\<not> running_under_wsl (be_osrelease be') \<and> \<not> legacy_claude body)"
proof -
  have tool: "(as_id (effective_cli_tool (core_request be' body d')) = as_id (cr_cli_tool (cb_rest body))) = (\<not> legacy_claude body)"
    by (cases "cr_cli_tool (cb_rest body)") (simp_all add: effective_cli_tool_def legacy_claude_def)
  show ?thesis
  proof (cases "running_under_wsl (be_osrelease be')")
    case True
    then have "request_runtime_kind (core_request be' body d') = ''local''" "request_runtime_kind (cb_rest body) = ''wsl''"
      using assms(2) by (auto simp: core_request_def normalize_session_request_for_current_host_def
          normalize_session_request_for_host_def request_runtime_kind_def Let_def split: option.split)
    then show ?thesis using True by (simp add: restore_identity_matches_def birth_certificate_def Let_def)
  next
    case False
    then show ?thesis
      using tool assms(1)
      by (simp add: restore_identity_matches_def birth_certificate_def Let_def core_request_def request_runtime_kind_def
          normalize_session_request_for_current_host_def normalize_session_request_for_host_def requested_path_def
          project_paths_equivalent_def)
  qed
qed

text \<open>Which restores are answered with the running session, and which are refused for good. When the
  instance that restored \<open>e\<close> repeats the very same request later, while \<open>n\<close> runs and no other
  instance holds its lease, it gets \<open>n\<close> back, except in two cases in which every repetition ends in
  409 \<open>RESTORE_IDENTITY_MISMATCH\<close>: the request names Claude only by the legacy flag (the certificate
  holds the raw tool, the comparison the effective one), or the daemon runs inside WSL and the
  request has WSL options (the certificate says \<open>wsl\<close>, the comparison sees the rewritten request, which
  is local).\<close>

theorem own_restore_outcome:
  assumes created: "create_session be h body d = (d0, Inr (SessionCreated n False model))"
    and expected: "cr_expected_saved_session_id (cb_rest body) = Some e"
    and spared: "list_all (\<lambda>(be', ev). spares e n be' ev) es"
    and caller: "caller_instance h = Some a"
    and status: "be_status be' e = Inr gone" "\<not> not_exited gone" "be_status be' n = Inr st" "not_exited st"
    and lease: "may_write_session be' n (Some a) (dm_run es d0)"
    and host: "running_under_wsl (be_osrelease be') \<Longrightarrow> cr_ssh (cb_rest body) = None \<and> cr_wsl (cb_rest body) \<noteq> None"
  shows "snd (create_session be' h body (dm_run es d0)) =
    (if running_under_wsl (be_osrelease be') \<or> legacy_claude body
     then Inl (json_error 409 ''RESTORE_IDENTITY_MISMATCH'' ''live expected session does not match the restore request'')
     else Inr (SessionCreated n True None))"
proof -
  let ?d = "dm_run es d0" and ?pv = "birth_certificate be body (caller_instance h) n d"
  note born = created_tied [OF created expected]
  have kept: "kept e n ?pv d0 ?d" by (rule run_kept [OF born(1) spared])
  have same: "dm_token ?d = dm_token d" "dm_default_cwd ?d = dm_default_cwd d"
    using kept born(2,3) by (simp_all add: kept_def)
  have both: "\<not> (cr_ssh (cb_rest body) \<noteq> None \<and> cr_wsl (cb_rest body) \<noteq> None)"
    by (rule notI) (use created born(4) in \<open>simp add: create_session_def authorized_def\<close>)
  have "snd (reuse_expected_session be' (core_request be' body ?d) (Some a) ?d) =
    (if restore_identity_matches (be_dunce be') (core_request be' body ?d) ?pv then Inr (Some n)
     else Inl (json_error 409 ''RESTORE_IDENTITY_MISMATCH'' ''live expected session does not match the restore request''))"
    by (rule reuse_by_certificate [OF kept_tied [OF kept] _ status lease]) (simp add: expected)
  moreover have "restore_identity_matches (be_dunce be') (core_request be' body ?d) ?pv
      = (\<not> running_under_wsl (be_osrelease be') \<and> \<not> legacy_claude body)"
    by (rule own_certificate [OF same(2) host])
  ultimately show ?thesis
    using born(4) same(1) both caller
    by (cases "reuse_expected_session be' (core_request be' body ?d) (Some a) ?d") (auto simp: create_session_def authorized_def)
qed


definition demo_body :: "cli_tool \<Rightarrow> create_body" where
  "demo_body tool = \<lparr>cb_project_path = Some ''/repo'', cb_cwd = None, cb_cols = None, cb_rows = None,
     cb_rest = \<lparr>cr_launch_id = None, cr_project_path = [], cr_cols = 0, cr_rows = 0, cr_workspace_name = None,
       cr_provider_id = None, cr_model_id = None, cr_provider_selection = InheritProvider, cr_launch_profile_id = None,
       cr_workspace_path = None, cr_workspace_snapshot_id = None, cr_origin_layout_id = None, cr_origin_tab_id = None,
       cr_origin_terminal_pane_id = None, cr_expected_saved_session_id = Some ''e'', cr_launch_claude = True,
       cr_cli_tool = tool, cr_resume_id = Some ''r'', cr_skip_mcp = False, cr_append_system_prompt = None,
       cr_initial_prompt = None, cr_yolo_mode = None, cr_adapter_options = None, cr_extra_env = None,
       cr_ssh = None, cr_wsl = None\<rparr>\<rparr>"

lemma demo_body [simp]:
  "cr_expected_saved_session_id (cb_rest (demo_body tool)) = Some ''e''" "cr_ssh (cb_rest (demo_body tool)) = None"
  "cr_wsl (cb_rest (demo_body tool)) = None" "cr_cli_tool (cb_rest (demo_body tool)) = tool"
  "cr_launch_claude (cb_rest (demo_body tool))"
  by (simp_all add: demo_body_def)

definition demo_restored :: "cli_tool \<Rightarrow> daemon" where
  "demo_restored tool = fst (create_session (demo_backend 0) (demo_headers ''A'') (demo_body tool) demo_daemon)"

lemma demo_created:
  "create_session (demo_backend 0) (demo_headers ''A'') (demo_body tool) demo_daemon
   = (demo_restored tool, Inr (SessionCreated ''n'' False None))"
  by (simp add: demo_restored_def create_session_def reuse_expected_session_def expected_session_def not_exited_def
      launch_session_def register_session_def record_birth_def log_call_def demo_claim_eval)

lemma demo_lease_kept:
  "may_write_session (demo_backend 4) ''n'' (Some ''A'') (dm_run [(demo_backend 1, Http (demo_headers ''B'') (ReqWrite ''n'' ''ls'' None))]
     (demo_restored tool))"
  by (simp add: demo_restored_def create_session_def reuse_expected_session_def expected_session_def not_exited_def
      launch_session_def register_session_def record_birth_def log_call_def demo_claim_eval write_session_def guarded_write_def
      ensure_may_write_def may_write_session_def session_claim_owner_def is_live_def)

theorem own_restore_outcome_witness:
  "snd (create_session (demo_backend 4) (demo_headers ''A'') (demo_body Codex)
      (dm_run [(demo_backend 1, Http (demo_headers ''B'') (ReqWrite ''n'' ''ls'' None))] (demo_restored Codex)))
     = Inr (SessionCreated ''n'' True None)
   \<and> snd (create_session (demo_backend 4) (demo_headers ''A'') (demo_body CliNone)
      (dm_run [(demo_backend 1, Http (demo_headers ''B'') (ReqWrite ''n'' ''ls'' None))] (demo_restored CliNone)))
     = Inl (json_error 409 ''RESTORE_IDENTITY_MISMATCH'' ''live expected session does not match the restore request'')"
proof -
  define es where "es = [(demo_backend 1, Http (demo_headers ''B'') (ReqWrite ''n'' ''ls'' None))]"
  have spared: "list_all (\<lambda>(be', ev). spares ''e'' ''n'' be' ev) es" by (simp add: es_def)
  have status: "be_status (demo_backend 4) ''e'' = Inr None" "\<not> not_exited None"
    "be_status (demo_backend 4) ''n'' = Inr (Some (demo_info ''n'' Idle))" "not_exited (Some (demo_info ''n'' Idle))"
    by (simp_all add: demo_backend_def not_exited_def demo_info_def)
  have native: "\<not> running_under_wsl (be_osrelease (demo_backend 4))" by (simp add: demo_backend_def running_under_wsl_def)
  note outcome = own_restore_outcome [OF demo_created demo_body(1) spared demo_headers(1) status demo_lease_kept [folded es_def]]
  show ?thesis
    unfolding es_def [symmetric] using outcome [of Codex] outcome [of CliNone] native by (simp add: legacy_claude_def)
qed


subsection \<open>The token\<close>

lemma reuse_token [simp]: "dm_token (fst (reuse_expected_session be req owner d)) = dm_token d"
  by (simp add: reuse_expected_session_def expected_session_def try_claim_session_def touch_session_def Let_def
      split: option.split sum.split prod.split)

lemma launch_token [simp]: "dm_token (fst (launch_session be body owner req d)) = dm_token d"
proof -
  have born: "dm_token (fst (record_birth be body c s model req d)) = dm_token d" for c s model d
    by (simp add: record_birth_def Let_def split: option.split)
  have claimed: "dm_token d1 = dm_token d" if "try_claim_session be s o' None d = (d1, c)" for s o' d d1 c
    using quiet_claimed [OF that] by (simp add: quiet_def)
  have removed: "dm_token (remove_session_activity be s d) = dm_token d" for s d
    by (simp add: remove_session_activity_def forget_session_claim_def Let_def)
  have touched: "dm_token (touch_session be s d) = dm_token d" "dm_token (log_call c x d) = dm_token d" for s c x d
    by (simp_all add: touch_session_def log_call_def)
  have registered: "dm_token (fst (register_session be body owner s model req d)) = dm_token d" for s model d
    by (auto simp: register_session_def born removed touched Let_def dest!: claimed split: option.split prod.split sum.split)
  have late: "dm_token (fst (launch_timeout be body owner l d)) = dm_token d" for l d
    using timeout_quiet [of d be body owner l] by (simp add: quiet_def)
  show ?thesis
    by (simp add: launch_session_def registered late touched Let_def split: create_result.split)
qed

lemma create_token [simp]: "dm_token (fst (create_session be h body d)) = dm_token d"
proof -
  obtain d1 r where r: "reuse_expected_session be (core_request be body d) (caller_instance h) d = (d1, r)"
    by (cases "reuse_expected_session be (core_request be body d) (caller_instance h) d")
  then have "dm_token d1 = dm_token d" using reuse_token [of be "core_request be body d" "caller_instance h" d] by simp
  then show ?thesis using r by (simp add: create_session_def authorized_def split: option.split sum.split)
qed

lemma step_token: "dm_token (dm_exec (be, ev) d) = dm_token d"
proof (cases "lifecycle_event ev")
  case True
  then obtain h r where ev: "ev = Http h r" by (cases ev) simp_all
  show ?thesis
    using True unfolding ev
    by (cases r) (simp_all add: kill_session_def guarded_write_def get_adoption_snapshot_def authorized_def log_call_def
        remove_session_activity_def forget_session_claim_def prune_expired_claims_def Let_def split: option.split sum.split)
qed (use quiet_step in \<open>auto simp: quiet_def\<close>)

lemma run_token: "dm_token (dm_run es d) = dm_token d"
proof (induction es arbitrary: d)
  case (Cons e es)
  then show ?case by (cases e) (simp add: step_token)
qed simp

lemma refused: "authorize h (dm_token d) = Some err \<Longrightarrow> r \<noteq> ReqHealth \<Longrightarrow> route be h r d = (d, Inl err)"
  by (cases r) (simp_all add: authorized_def guarded_write_def create_session_def get_daemon_status_def shutdown_daemon_def
      set_temporary_ssh_password_def cancel_launch_def list_sessions_def get_session_status_def find_session_by_launch_def
      hook_status_def get_session_output_def get_session_snapshot_def get_session_recovery_snapshot_def
      upload_session_checkpoint_def write_session_def submit_session_def resize_session_def get_adoption_snapshot_def
      list_session_claims_def list_identity_events_def get_session_provenance_def claim_session_def release_session_claim_def kill_session_def)

text \<open>C7: The token guards every route but the health check. Whatever has happened since the daemon started, a
  well-formed request to any other route of the router without the token it was started with is answered
  with 401 and changes nothing: no lease, no session, no password, no call of the backend; neither socket can
  be opened without it; and the health check, which asks for no token, changes nothing and tells only the
  service, its process and its start time. (A body that does not parse is refused before the handler runs.)\<close>

theorem token_guards_every_route:
  assumes "hd_authorization h \<noteq> Some (''Bearer '' @ dm_token d)" and "token \<noteq> Some (dm_token d)"
  shows "route be h r (dm_run es d) = (dm_run es d,
        if r = ReqHealth then Inr (Health ''ok'' ''cc-panes-daemon'' (be_pid be) (dm_started_at (dm_run es d)))
        else Inl (json_error 401 ''UNAUTHORIZED'' ''Invalid or missing Bearer token''))
    \<and> ws_session be sid token caller (dm_run es d)
      = (dm_run es d, Some (json_error 401 ''UNAUTHORIZED'' ''Invalid or missing token''))
    \<and> ws_control token kind (dm_run es d)
      = (dm_run es d, Some (json_error 401 ''UNAUTHORIZED'' ''Invalid or missing token''))"
proof -
  have "authorize h (dm_token (dm_run es d)) = Some (json_error 401 ''UNAUTHORIZED'' ''Invalid or missing Bearer token'')"
    using assms(1) by (simp add: authorize_def run_token)
  then have "route be h r (dm_run es d) = (dm_run es d,
        if r = ReqHealth then Inr (Health ''ok'' ''cc-panes-daemon'' (be_pid be) (dm_started_at (dm_run es d)))
        else Inl (json_error 401 ''UNAUTHORIZED'' ''Invalid or missing Bearer token''))"
    using refused by (cases "r = ReqHealth") (simp_all add: health_def)
  then show ?thesis using assms(2) by (simp add: run_token ws_session_def ws_control_def ws_authorized_def)
qed

theorem token_guards_every_route_witness:
  "snd (route (demo_backend 5) \<lparr>hd_authorization = Some ''Bearer x'', hd_instance = Some ''A''\<rparr> (ReqKill ''s'' None)
      (dm_run demo_lease_run demo_claimed_daemon))
    = Inl (json_error 401 ''UNAUTHORIZED'' ''Invalid or missing Bearer token'')"
proof -
  have key: "dm_token demo_claimed_daemon = ''k''"
    by (simp add: demo_claimed_daemon_def demo_daemon_def daemon_new_def)
  show ?thesis
    using token_guards_every_route [of "\<lparr>hd_authorization = Some ''Bearer x'', hd_instance = Some ''A''\<rparr>"
        demo_claimed_daemon None "demo_backend 5" "ReqKill ''s'' None" demo_lease_run] by (simp add: key)
qed

end
