(* ===== verification/Session_Reaper.thy ===== *)
theory Session_Reaper
  imports "HOL-Library.Multiset" "HOL-Library.Sublist" Daemon_Sessions Session_Properties
begin

text \<open>
  The reaper of orphaned sessions (\<open>cc-panes-daemon/src/session_reaper.rs\<close>), a thread beside the
  router. A sweep reads the settings and lists the sessions of the backend, reads the clock, reads the
  activity map, drops the entries the listing lacks, looks at each listed session, selects what has
  expired, and for each selected session checks for a subscriber, checks for a view, kills it and
  forgets it. It holds no lock from one of these calls to the next, so each of them is an action of
  its own, \<open>WakeUp\<close> for the beginning and \<open>Proceed\<close> for the next call of the sweep that runs, and a run
  interleaves them with the requests of \<open>dm_exec\<close> in any order. The answers of the backend and the
  clock come with each action, and also the order in which the hash map yields its keys.
\<close>

subsection \<open>Settings\<close>

record orphan_settings =
  os_ttl_minutes :: "32 word"
  os_reaper_disabled :: bool

definition MAX_DAEMON_ORPHAN_TTL_MINUTES :: "32 word" where
  "MAX_DAEMON_ORPHAN_TTL_MINUTES = 7 * 24 * 60"

definition DEFAULT_DAEMON_ORPHAN_TTL_MINUTES :: "32 word" where
  "DEFAULT_DAEMON_ORPHAN_TTL_MINUTES = 24 * 60"

definition merge_orphan_ttl :: "orphan_settings \<Rightarrow> orphan_settings" where
  "merge_orphan_ttl st =
     (let st = (if os_ttl_minutes st = 0 then st\<lparr>os_ttl_minutes := DEFAULT_DAEMON_ORPHAN_TTL_MINUTES\<rparr> else st)
      in if MAX_DAEMON_ORPHAN_TTL_MINUTES < os_ttl_minutes st
         then st\<lparr>os_ttl_minutes := MAX_DAEMON_ORPHAN_TTL_MINUTES\<rparr> else st)"

text \<open>The configuration file at the start of a sweep: absent, present but unreadable (it may be half
  written), or read.\<close>

datatype config_file = NoFile | Unreadable | Stored orphan_settings

fun reload_settings :: "config_file \<Rightarrow> orphan_settings \<Rightarrow> orphan_settings option" where
  "reload_settings NoFile current = Some current"
| "reload_settings Unreadable current = None"
| "reload_settings (Stored st) current = Some (merge_orphan_ttl st)"

definition sweep_ttl :: "orphan_settings \<Rightarrow> duration option" where
  "sweep_ttl st =
     (if os_reaper_disabled st \<or> os_ttl_minutes st = 0 then None
      else Some (from_secs (unat (os_ttl_minutes st) * 60)))"

subsection \<open>The selection\<close>

record reaper_entry =
  re_session_id :: string
  re_last_viewer_activity :: instant
  re_has_active_subscriber :: bool
  re_status :: session_status
  re_last_output_at :: "64 word"

definition is_reap_protected_status :: "session_status \<Rightarrow> bool" where
  "is_reap_protected_status st = (Session_State.is_busy st \<or> st = Initializing \<or> st = WaitingInput)"

definition is_expired :: "duration \<Rightarrow> instant \<Rightarrow> 64 word \<Rightarrow> reaper_entry \<Rightarrow> bool" where
  "is_expired ttl now now_epoch_millis en =
     (\<not> re_has_active_subscriber en \<and> \<not> is_reap_protected_status (re_status en)
      \<and> ttl < since now (re_last_viewer_activity en)
      \<and> of_nat (as_millis ttl) < saturating_sub now_epoch_millis (re_last_output_at en))"

definition select_expired :: "reaper_entry list \<Rightarrow> duration \<Rightarrow> instant \<Rightarrow> 64 word \<Rightarrow> string list" where
  "select_expired entries ttl now now_epoch_millis =
     map fst (sort_key snd
       (map (\<lambda>en. (re_session_id en, re_last_viewer_activity en))
         (filter (is_expired ttl now now_epoch_millis) entries)))"

subsection \<open>The sweep\<close>

text \<open>What a sweep remembers of its listing, its clock and the activity map it read.\<close>

record reaper_snapshot =
  sn_ttl :: duration
  sn_sessions :: "status_info list"
  sn_now :: instant
  sn_epoch_millis :: "64 word"
  sn_activity :: "string \<Rightarrow> instant option"

text \<open>How far the sweep is with the session at the head of its list.\<close>

datatype stage = Unchecked | NoSubscriber | Condemned | Killed

text \<open>Where the thread is: asleep; with the listing; with the clock read; with the activity map read
  and keys left to check against the listing; with sessions left to look at, the one in hand perhaps
  with its last view known, and the entries so far; with selected sessions left to reap.\<close>

datatype sweep =
    Sleeping
  | Listed duration "status_info list"
  | Timed duration "status_info list" instant "64 word"
  | Dropping reaper_snapshot "string list"
  | Looking reaper_snapshot "status_info list" "instant option" "reaper_entry list"
  | Reaping duration "string list" stage

text \<open>\<open>rp_reaped\<close> is the log line written before each kill.\<close>

record reaper =
  rp_daemon :: daemon
  rp_settings :: orphan_settings
  rp_sweep :: sweep
  rp_reaped :: "string list"

definition reaper_start :: "orphan_settings \<Rightarrow> daemon \<Rightarrow> reaper" where
  "reaper_start st d = \<lparr>rp_daemon = d, rp_settings = st, rp_sweep = Sleeping, rp_reaped = []\<rparr>"

definition wake_up :: "backend \<Rightarrow> config_file \<Rightarrow> reaper \<Rightarrow> reaper" where
  "wake_up be file r =
     (case reload_settings file (rp_settings r) of
        None \<Rightarrow> r
      | Some st \<Rightarrow>
          (let r = r\<lparr>rp_settings := st\<rparr>
           in case sweep_ttl st of
                None \<Rightarrow> r
              | Some ttl \<Rightarrow>
                  (case be_all be of
                     Inl e \<Rightarrow> r
                   | Inr sessions \<Rightarrow> r\<lparr>rp_sweep := Listed ttl sessions\<rparr>)))"

definition is_listed :: "status_info list \<Rightarrow> string \<Rightarrow> bool" where
  "is_listed sessions sid = list_ex (\<lambda>st. si_session st = sid) sessions"

text \<open>An entry of the activity map whose session the listing does not hold is dropped.\<close>

definition drop_unlisted :: "backend \<Rightarrow> reaper_snapshot \<Rightarrow> string \<Rightarrow> daemon \<Rightarrow> daemon" where
  "drop_unlisted be sn sid d =
     (if sn_activity sn sid \<noteq> None \<and> \<not> is_listed (sn_sessions sn) sid then remove_session_activity be sid d else d)"

text \<open>A session seen for the first time is registered as active now, and counts as viewed when the
  sweep read its clock.\<close>

definition first_seen :: "backend \<Rightarrow> reaper_snapshot \<Rightarrow> status_info \<Rightarrow> daemon \<Rightarrow> daemon \<times> instant" where
  "first_seen be sn st d =
     (case sn_activity sn (si_session st) of
        Some t \<Rightarrow> (d, t)
      | None \<Rightarrow> (touch_session be (si_session st) d, sn_now sn))"

definition entry_of :: "backend \<Rightarrow> status_info \<Rightarrow> instant \<Rightarrow> daemon \<Rightarrow> reaper_entry" where
  "entry_of be st last_activity d =
     \<lparr>re_session_id = si_session st, re_last_viewer_activity = last_activity,
      re_has_active_subscriber = has_active_subscriber (be_channels be) (si_session st) (dm_emitter d),
      re_status = si_status st, re_last_output_at = si_last_output_at st\<rparr>"

definition reaping :: "duration \<Rightarrow> string list \<Rightarrow> sweep" where
  "reaping ttl ids = (if ids = [] then Sleeping else Reaping ttl ids Unchecked)"

definition recently_active :: "backend \<Rightarrow> duration \<Rightarrow> string \<Rightarrow> daemon \<Rightarrow> bool" where
  "recently_active be ttl sid d =
     (case dm_activity d sid of Some t \<Rightarrow> since (be_now be) t \<le> ttl | None \<Rightarrow> False)"

text \<open>The four calls for a selected session. The first two may spare it; the answer of the backend to
  the kill is only logged.\<close>

definition check_subscriber :: "backend \<Rightarrow> duration \<Rightarrow> string \<Rightarrow> string list \<Rightarrow> reaper \<Rightarrow> reaper" where
  "check_subscriber be ttl sid ids r =
     (if has_active_subscriber (be_channels be) sid (dm_emitter (rp_daemon r))
      then r\<lparr>rp_sweep := reaping ttl ids\<rparr> else r\<lparr>rp_sweep := Reaping ttl (sid # ids) NoSubscriber\<rparr>)"

definition check_activity :: "backend \<Rightarrow> duration \<Rightarrow> string \<Rightarrow> string list \<Rightarrow> reaper \<Rightarrow> reaper" where
  "check_activity be ttl sid ids r =
     (if recently_active be ttl sid (rp_daemon r)
      then r\<lparr>rp_sweep := reaping ttl ids\<rparr> else r\<lparr>rp_sweep := Reaping ttl (sid # ids) Condemned\<rparr>)"

definition kill_orphan :: "backend \<Rightarrow> duration \<Rightarrow> string \<Rightarrow> string list \<Rightarrow> reaper \<Rightarrow> reaper" where
  "kill_orphan be ttl sid ids r =
     r\<lparr>rp_daemon := log_call None (CallKill sid DaemonReaper) (rp_daemon r),
       rp_reaped := rp_reaped r @ [sid], rp_sweep := Reaping ttl (sid # ids) Killed\<rparr>"

definition forget_orphan :: "backend \<Rightarrow> duration \<Rightarrow> string \<Rightarrow> string list \<Rightarrow> reaper \<Rightarrow> reaper" where
  "forget_orphan be ttl sid ids r =
     r\<lparr>rp_daemon := remove_session_activity be sid (rp_daemon r), rp_sweep := reaping ttl ids\<rparr>"

text \<open>The next call of the sweep; \<open>ks\<close> is the order in which the activity map yields its keys.\<close>

fun proceed :: "backend \<Rightarrow> string list \<Rightarrow> sweep \<Rightarrow> reaper \<Rightarrow> reaper" where
  "proceed be ks Sleeping r = r"
| "proceed be ks (Listed ttl sessions) r = r\<lparr>rp_sweep := Timed ttl sessions (be_now be) (of_nat (be_epoch_ms be))\<rparr>"
| "proceed be ks (Timed ttl sessions now ms) r =
     r\<lparr>rp_sweep := Dropping \<lparr>sn_ttl = ttl, sn_sessions = sessions, sn_now = now, sn_epoch_millis = ms,
                             sn_activity = dm_activity (rp_daemon r)\<rparr> ks\<rparr>"
| "proceed be ks (Dropping sn (k # keys)) r =
     r\<lparr>rp_daemon := drop_unlisted be sn k (rp_daemon r), rp_sweep := Dropping sn keys\<rparr>"
| "proceed be ks (Dropping sn []) r = r\<lparr>rp_sweep := Looking sn (sn_sessions sn) None []\<rparr>"
| "proceed be ks (Looking sn (st # todo) None es) r =
     (case first_seen be sn st (rp_daemon r) of
        (d, t) \<Rightarrow> r\<lparr>rp_daemon := d, rp_sweep := Looking sn (st # todo) (Some t) es\<rparr>)"
| "proceed be ks (Looking sn (st # todo) (Some t) es) r =
     r\<lparr>rp_sweep := Looking sn todo None (es @ [entry_of be st t (rp_daemon r)])\<rparr>"
| "proceed be ks (Looking sn [] seen es) r =
     r\<lparr>rp_sweep := reaping (sn_ttl sn) (select_expired es (sn_ttl sn) (sn_now sn) (sn_epoch_millis sn))\<rparr>"
| "proceed be ks (Reaping ttl (sid # ids) Unchecked) r = check_subscriber be ttl sid ids r"
| "proceed be ks (Reaping ttl (sid # ids) NoSubscriber) r = check_activity be ttl sid ids r"
| "proceed be ks (Reaping ttl (sid # ids) Condemned) r = kill_orphan be ttl sid ids r"
| "proceed be ks (Reaping ttl (sid # ids) Killed) r = forget_orphan be ttl sid ids r"
| "proceed be ks (Reaping ttl [] stage) r = r\<lparr>rp_sweep := Sleeping\<rparr>"

datatype action = WakeUp config_file | Proceed "string list" | Arrives daemon_event

fun reaper_exec :: "backend \<times> action \<Rightarrow> reaper \<Rightarrow> reaper" where
  "reaper_exec (be, WakeUp file) r = (case rp_sweep r of Sleeping \<Rightarrow> wake_up be file r | _ \<Rightarrow> r)"
| "reaper_exec (be, Proceed ks) r = proceed be ks (rp_sweep r) r"
| "reaper_exec (be, Arrives ev) r = r\<lparr>rp_daemon := dm_exec (be, ev) (rp_daemon r)\<rparr>"

definition reaper_run :: "(backend \<times> action) list \<Rightarrow> reaper \<Rightarrow> reaper" where
  "reaper_run as r = fold reaper_exec as r"

lemma reaper_run_simps [simp]:
  "reaper_run [] r = r" "reaper_run (a # as) r = reaper_run as (reaper_exec a r)"
  "reaper_run (as @ bs) r = reaper_run bs (reaper_run as r)"
  by (simp_all add: reaper_run_def)

lemma wake_up_frame [simp]:
  "rp_daemon (wake_up be file r) = rp_daemon r" "rp_reaped (wake_up be file r) = rp_reaped r"
  by (simp_all add: wake_up_def Let_def split: option.split sum.split)

lemmas calls = check_subscriber_def check_activity_def kill_orphan_def forget_orphan_def

subsection \<open>What is selected\<close>

lemma map_insort: "map f (insort_key (\<lambda>x. k (f x)) x xs) = insort_key k (f x) (map f xs)"
  by (induction xs) simp_all

lemma map_sort: "map f (sort_key (\<lambda>x. k (f x)) xs) = sort_key k (map f xs)"
  by (induction xs) (simp_all add: map_insort)

lemma select_expired_set:
  "set (select_expired entries ttl now ms) = re_session_id ` {en \<in> set entries. is_expired ttl now ms en}"
  by (auto simp: select_expired_def image_iff)

lemma select_expired_sorted:
  "select_expired entries ttl now ms = map re_session_id (sort_key re_last_viewer_activity (filter (is_expired ttl now ms) entries))"
proof -
  have "sort_key snd (map (\<lambda>en. (re_session_id en, re_last_viewer_activity en)) xs)
      = map (\<lambda>en. (re_session_id en, re_last_viewer_activity en)) (sort_key re_last_viewer_activity xs)" for xs :: "reaper_entry list"
    using map_sort [of "\<lambda>en. (re_session_id en, re_last_viewer_activity en)" snd xs] by simp
  then show ?thesis by (simp add: select_expired_def)
qed

text \<open>The selection, in the order of the kills: exactly the expired entries, those without a viewer for
  longest first.\<close>

theorem selection_oldest_first:
  "\<exists>chosen. select_expired entries ttl now ms = map re_session_id chosen
     \<and> mset chosen = mset (filter (is_expired ttl now ms) entries)
     \<and> sorted (map re_last_viewer_activity chosen)"
proof -
  have "select_expired entries ttl now ms
      = map re_session_id (sort_key re_last_viewer_activity (filter (is_expired ttl now ms) entries))"
    unfolding select_expired_sorted ..
  then show ?thesis by (intro exI) (rule conjI, assumption, simp)
qed

subsection \<open>The history of a sweep\<close>

text \<open>A moment of a run: the environment, the action, and the state it meets.\<close>

type_synonym sweep_moment = "backend \<times> action \<times> reaper"

fun moments :: "(backend \<times> action) list \<Rightarrow> reaper \<Rightarrow> sweep_moment list" where
  "moments [] r = []"
| "moments ((be, a) # as) r = (be, a, r) # moments as (reaper_exec (be, a) r)"

lemma moments_snoc: "moments (as @ [(be, a)]) r = moments as r @ [(be, a, reaper_run as r)]"
  by (induction as arbitrary: r) auto

text \<open>Moments that satisfy the given conditions, in their order.\<close>

definition in_order :: "(sweep_moment \<Rightarrow> bool) list \<Rightarrow> sweep_moment list \<Rightarrow> bool" where
  "in_order Ps ms = (\<exists>xs. subseq xs ms \<and> list_all2 (\<lambda>P x. P x) Ps xs)"

lemma in_order_nil [simp]: "in_order [] ms"
  by (simp add: in_order_def)

lemma in_order_keep: "in_order Ps ms \<Longrightarrow> in_order Ps (ms @ ns)"
  unfolding in_order_def by (meson subseq_order.trans subseq_rev_drop_many list_emb_prefix)

lemma in_order_add: "in_order Ps ms \<Longrightarrow> P m \<Longrightarrow> in_order (Ps @ [P]) (ms @ [m])"
proof -
  assume "in_order Ps ms" and P: "P m"
  then obtain xs where xs: "subseq xs ms" "list_all2 (\<lambda>P x. P x) Ps xs" by (auto simp: in_order_def)
  have "subseq (xs @ [m]) (ms @ [m])" using xs(1) by simp
  moreover have "list_all2 (\<lambda>P x. P x) (Ps @ [P]) (xs @ [m])" using xs(2) P by (simp add: list_all2_appendI)
  ultimately show ?thesis unfolding in_order_def by blast
qed

definition in_sweep :: "sweep_moment \<Rightarrow> bool" where
  "in_sweep m = (case m of (be, a, r) \<Rightarrow> rp_sweep r \<noteq> Sleeping)"

fun begins :: "duration \<Rightarrow> status_info list \<Rightarrow> sweep_moment \<Rightarrow> bool" where
  "begins ttl sessions (be, a, r) =
     (\<exists>cfg st. a = WakeUp cfg \<and> rp_sweep r = Sleeping \<and> reload_settings cfg (rp_settings r) = Some st
        \<and> sweep_ttl st = Some ttl \<and> be_all be = Inr sessions)"

text \<open>The last sweep of a history began with this TTL and this listing, and has made calls that satisfy
  these conditions, in this order.\<close>

definition current :: "duration \<Rightarrow> status_info list \<Rightarrow> (sweep_moment \<Rightarrow> bool) list \<Rightarrow> sweep_moment list \<Rightarrow> bool" where
  "current ttl sessions Ps ms =
     (\<exists>pre m cur. ms = pre @ m # cur \<and> begins ttl sessions m \<and> list_all in_sweep cur \<and> in_order Ps cur)"

fun is_call :: "action \<Rightarrow> bool" where
  "is_call (Proceed ks) = True"
| "is_call _ = False"

fun clock_read :: "instant \<Rightarrow> nat \<Rightarrow> sweep_moment \<Rightarrow> bool" where
  "clock_read now ms (be, a, r) = (is_call a \<and> be_now be = now \<and> be_epoch_ms be = ms)"

fun activity_read :: "(string \<Rightarrow> instant option) \<Rightarrow> sweep_moment \<Rightarrow> bool" where
  "activity_read activity (be, a, r) = (is_call a \<and> dm_activity (rp_daemon r) = activity)"

fun unwatched :: "string \<Rightarrow> sweep_moment \<Rightarrow> bool" where
  "unwatched sid (be, a, r) =
     (is_call a \<and> \<not> has_active_subscriber (be_channels be) sid (dm_emitter (rp_daemon r)))"

text \<open>The checks again, when the session is the next to be killed.\<close>

fun still_unwatched :: "duration \<Rightarrow> string \<Rightarrow> sweep_moment \<Rightarrow> bool" where
  "still_unwatched ttl sid (be, a, r) =
     ((\<exists>ids. rp_sweep r = Reaping ttl (sid # ids) Unchecked) \<and> unwatched sid (be, a, r))"

fun still_unviewed :: "duration \<Rightarrow> string \<Rightarrow> sweep_moment \<Rightarrow> bool" where
  "still_unviewed ttl sid (be, a, r) =
     (is_call a \<and> (case dm_activity (rp_daemon r) sid of Some t \<Rightarrow> t + ttl < be_now be | None \<Rightarrow> True))"

text \<open>What was found out about a session by the looks of the sweep, followed by the checks \<open>Qs\<close>: its
  status at the listing was none of the protected ones, at the clock reading it had written nothing
  for more than the TTL and its last view in the map was more than the TTL ago, and nobody was
  subscribed to it.\<close>

definition idle_at ::
  "duration \<Rightarrow> status_info list \<Rightarrow> instant \<Rightarrow> nat \<Rightarrow> (string \<Rightarrow> instant option) \<Rightarrow> string \<Rightarrow> bool" where
  "idle_at ttl sessions now epoch activity sid =
     (\<exists>st t. st \<in> set sessions \<and> si_session st = sid
        \<and> \<not> Session_State.is_busy (si_status st) \<and> si_status st \<noteq> Initializing \<and> si_status st \<noteq> WaitingInput
        \<and> unat (si_last_output_at st) + as_millis ttl < epoch mod 2 ^ 64
        \<and> activity sid = Some t \<and> t + ttl < now)"

definition found_idle :: "(sweep_moment \<Rightarrow> bool) list \<Rightarrow> duration \<Rightarrow> string \<Rightarrow> sweep_moment list \<Rightarrow> bool" where
  "found_idle Qs ttl sid ms =
     (\<exists>sessions now epoch activity.
        current ttl sessions ([clock_read now epoch, activity_read activity, unwatched sid] @ Qs) ms
        \<and> idle_at ttl sessions now epoch activity sid)"

text \<open>A session is abandoned when all this was found out about it and the two checks before the kill
  have found no subscriber and no view within the TTL either.\<close>

definition abandoned :: "string \<Rightarrow> sweep_moment list \<Rightarrow> bool" where
  "abandoned sid ms = (\<exists>ttl. found_idle [still_unwatched ttl sid, still_unviewed ttl sid] ttl sid ms)"

lemma current_begin: "begins ttl sessions m \<Longrightarrow> current ttl sessions [] (ms @ [m])"
  unfolding current_def by (intro exI [of _ ms] exI [of _ m] exI [of _ "[]"]) simp

lemma current_keep:
  assumes "current ttl sessions Ps ms" and "in_sweep m"
  shows "current ttl sessions Ps (ms @ [m])"
proof -
  obtain pre m0 cur where "ms = pre @ m0 # cur" "begins ttl sessions m0" "list_all in_sweep cur" "in_order Ps cur"
    using assms(1) unfolding current_def by blast
  then show ?thesis
    unfolding current_def
    by (intro exI [of _ pre] exI [of _ m0] exI [of _ "cur @ [m]"]) (simp add: assms(2) in_order_keep)
qed

lemma current_add:
  assumes "current ttl sessions Ps ms" and "in_sweep m" and "P m"
  shows "current ttl sessions (Ps @ [P]) (ms @ [m])"
proof -
  obtain pre m0 cur where "ms = pre @ m0 # cur" "begins ttl sessions m0" "list_all in_sweep cur" "in_order Ps cur"
    using assms(1) unfolding current_def by blast
  then show ?thesis
    unfolding current_def
    by (intro exI [of _ pre] exI [of _ m0] exI [of _ "cur @ [m]"]) (simp add: assms(2,3) in_order_add)
qed

lemma ttl_millis: "sweep_ttl st = Some ttl \<Longrightarrow> as_millis ttl < 2 ^ 64"
proof -
  assume "sweep_ttl st = Some ttl"
  then have ttl: "ttl = from_secs (unat (os_ttl_minutes st) * 60)" by (simp add: sweep_ttl_def split: if_splits)
  have "as_millis ttl = unat (os_ttl_minutes st) * 60000"
    by (simp add: ttl as_millis_def from_secs_def nanos_per_sec_def nanos_per_milli_def)
  moreover have "unat (os_ttl_minutes st) < 2 ^ 32" using unsigned_less [of "os_ttl_minutes st", where 'a = nat] by simp
  ultimately show ?thesis by simp
qed

lemma current_ttl: "current ttl sessions Ps ms \<Longrightarrow> as_millis ttl < 2 ^ 64"
proof -
  assume "current ttl sessions Ps ms"
  then obtain be a r where "begins ttl sessions (be, a, r)" unfolding current_def by (metis prod_cases3)
  then show ?thesis using ttl_millis by auto
qed

lemma found_keep: "found_idle Qs ttl sid ms \<Longrightarrow> in_sweep m \<Longrightarrow> found_idle Qs ttl sid (ms @ [m])"
  unfolding found_idle_def using current_keep by blast

lemma found_add: "found_idle Qs ttl sid ms \<Longrightarrow> in_sweep m \<Longrightarrow> Q m \<Longrightarrow> found_idle (Qs @ [Q]) ttl sid (ms @ [m])"
  unfolding found_idle_def append_assoc [symmetric] using current_add by blast

text \<open>What the state of the sweep says of its history.\<close>

definition reads :: "reaper_snapshot \<Rightarrow> nat \<Rightarrow> (sweep_moment \<Rightarrow> bool) list" where
  "reads sn epoch = [clock_read (sn_now sn) epoch, activity_read (sn_activity sn)]"

definition last_view :: "reaper_snapshot \<Rightarrow> status_info \<Rightarrow> instant" where
  "last_view sn st = (case sn_activity sn (si_session st) of Some t \<Rightarrow> t | None \<Rightarrow> sn_now sn)"

definition looked :: "reaper_snapshot \<Rightarrow> nat \<Rightarrow> sweep_moment list \<Rightarrow> reaper_entry \<Rightarrow> bool" where
  "looked sn epoch ms en =
     (\<exists>st \<in> set (sn_sessions sn). re_session_id en = si_session st \<and> re_last_viewer_activity en = last_view sn st
        \<and> re_status en = si_status st \<and> re_last_output_at en = si_last_output_at st
        \<and> (re_has_active_subscriber en
           \<or> current (sn_ttl sn) (sn_sessions sn) (reads sn epoch @ [unwatched (si_session st)]) ms))"

fun sweep_history :: "sweep \<Rightarrow> sweep_moment list \<Rightarrow> bool" where
  "sweep_history Sleeping ms = True"
| "sweep_history (Listed ttl sessions) ms = current ttl sessions [] ms"
| "sweep_history (Timed ttl sessions now e) ms = (\<exists>epoch. e = of_nat epoch \<and> current ttl sessions [clock_read now epoch] ms)"
| "sweep_history (Dropping sn keys) ms =
     (\<exists>epoch. sn_epoch_millis sn = of_nat epoch \<and> current (sn_ttl sn) (sn_sessions sn) (reads sn epoch) ms)"
| "sweep_history (Looking sn todo seen es) ms =
     (\<exists>epoch. sn_epoch_millis sn = of_nat epoch \<and> current (sn_ttl sn) (sn_sessions sn) (reads sn epoch) ms
        \<and> set todo \<subseteq> set (sn_sessions sn) \<and> (todo \<noteq> [] \<longrightarrow> seen \<noteq> None \<longrightarrow> seen = Some (last_view sn (hd todo)))
        \<and> list_all (looked sn epoch ms) es)"
| "sweep_history (Reaping ttl ids stage) ms =
     (list_all (\<lambda>sid. found_idle [] ttl sid ms) ids
      \<and> (ids \<noteq> [] \<longrightarrow> stage = NoSubscriber \<longrightarrow> found_idle [still_unwatched ttl (hd ids)] ttl (hd ids) ms)
      \<and> (ids \<noteq> [] \<longrightarrow> stage = Condemned \<longrightarrow> abandoned (hd ids) ms))"

lemma looked_keep: "looked sn epoch ms en \<Longrightarrow> in_sweep m \<Longrightarrow> looked sn epoch (ms @ [m]) en"
  unfolding looked_def by (meson current_keep)

lemma abandoned_keep: "abandoned sid ms \<Longrightarrow> in_sweep m \<Longrightarrow> abandoned sid (ms @ [m])"
  unfolding abandoned_def by (meson found_keep)

lemma sweep_history_keep:
  assumes "sweep_history sw ms" and m: "in_sweep m"
  shows "sweep_history sw (ms @ [m])"
proof (cases sw)
  case (Looking sn todo seen es)
  have "list_all (looked sn epoch (ms @ [m])) es" if "list_all (looked sn epoch ms) es" for epoch
    using that looked_keep [OF _ m] by (auto simp: list_all_iff)
  then show ?thesis using assms(1) current_keep [OF _ m] unfolding Looking sweep_history.simps by blast
next
  case (Reaping ttl ids stage)
  have "list_all (\<lambda>sid. found_idle [] ttl sid (ms @ [m])) ids" if "list_all (\<lambda>sid. found_idle [] ttl sid ms) ids"
    using that found_keep [OF _ m] by (auto simp: list_all_iff)
  then show ?thesis
    using assms(1) found_keep [OF _ m] abandoned_keep [OF _ m] unfolding Reaping sweep_history.simps by blast
qed (use assms(1) current_keep [OF _ m] in \<open>simp; blast\<close>)+

lemma sweep_history_reaping: "sweep_history (reaping ttl ids) ms \<longleftrightarrow> list_all (\<lambda>sid. found_idle [] ttl sid ms) ids"
  by (simp add: reaping_def)

text \<open>The selection finds idle sessions.\<close>

lemma selected_idle:
  assumes "sweep_history (Looking sn [] seen es) ms" and "sid \<in> set (select_expired es (sn_ttl sn) (sn_now sn) (sn_epoch_millis sn))"
  shows "found_idle [] (sn_ttl sn) sid ms"
proof -
  obtain epoch where epoch: "sn_epoch_millis sn = of_nat epoch" and cur: "current (sn_ttl sn) (sn_sessions sn) (reads sn epoch) ms"
    and es: "list_all (looked sn epoch ms) es"
    using assms(1) by auto
  obtain en where en: "en \<in> set es" "re_session_id en = sid" "is_expired (sn_ttl sn) (sn_now sn) (sn_epoch_millis sn) en"
    using assms(2) by (auto simp: select_expired_set)
  obtain st where st: "st \<in> set (sn_sessions sn)" "si_session st = sid" "re_last_viewer_activity en = last_view sn st"
      "re_status en = si_status st" "re_last_output_at en = si_last_output_at st"
    and look: "current (sn_ttl sn) (sn_sessions sn) (reads sn epoch @ [unwatched sid]) ms"
    using en es by (auto simp: list_all_iff looked_def is_expired_def)
  have view: "sn_ttl sn < since (sn_now sn) (last_view sn st)" using en(3) st(3) by (simp add: is_expired_def)
  then obtain t where t: "sn_activity sn sid = Some t" "t + sn_ttl sn < sn_now sn"
    using st(2) by (auto simp: last_view_def since_def split: option.splits)
  let ?e = "of_nat epoch :: 64 word" and ?out = "si_last_output_at st"
  have "of_nat (as_millis (sn_ttl sn)) < saturating_sub ?e ?out" using en(3) st(5) epoch by (simp add: is_expired_def)
  then have "as_millis (sn_ttl sn) < unat (saturating_sub ?e ?out)"
    using current_ttl [OF cur] by (simp add: word_less_nat_alt unat_of_nat)
  then have "unat ?out + as_millis (sn_ttl sn) < epoch mod 2 ^ 64"
    by (auto simp: saturating_sub_def unat_of_nat word_le_nat_alt unat_sub split: if_splits)
  moreover have "\<not> Session_State.is_busy (si_status st)" "si_status st \<noteq> Initializing" "si_status st \<noteq> WaitingInput"
    using en(3) st(4) by (simp_all add: is_expired_def is_reap_protected_status_def)
  ultimately have "idle_at (sn_ttl sn) (sn_sessions sn) (sn_now sn) epoch (sn_activity sn) sid"
    using st(1,2) t unfolding idle_at_def by blast
  then show ?thesis using look unfolding found_idle_def reads_def by auto
qed

lemma proceed_sweep_history:
  assumes h: "sweep_history (rp_sweep r) ms"
  shows "sweep_history (rp_sweep (proceed be ks (rp_sweep r) r)) (ms @ [(be, Proceed ks, r)])"
proof (cases "rp_sweep r")
  case Sleeping
  then show ?thesis by simp
next
  case (Listed ttl sessions)
  have "current ttl sessions ([] @ [clock_read (be_now be) (be_epoch_ms be)]) (ms @ [(be, Proceed ks, r)])"
    by (rule current_add) (use h Listed in \<open>simp_all add: in_sweep_def\<close>)
  then show ?thesis using Listed by auto
next
  case (Timed ttl sessions now e)
  obtain epoch where e: "e = of_nat epoch" and cur: "current ttl sessions [clock_read now epoch] ms"
    using h Timed by auto
  have "current ttl sessions ([clock_read now epoch] @ [activity_read (dm_activity (rp_daemon r))]) (ms @ [(be, Proceed ks, r)])"
    by (rule current_add [OF cur]) (use Timed in \<open>simp_all add: in_sweep_def\<close>)
  then show ?thesis using Timed e by (auto simp: reads_def)
next
  case (Dropping sn keys)
  have "in_sweep (be, Proceed ks, r)" using Dropping by (simp add: in_sweep_def)
  note keep = sweep_history_keep [OF h this]
  show ?thesis using keep Dropping by (cases keys) auto
next
  case (Looking sn todo seen es)
  define m where "m = (be, Proceed ks, r)"
  have m: "in_sweep m" using Looking by (simp add: in_sweep_def m_def)
  have keep: "sweep_history (Looking sn todo seen es) (ms @ [m])" using sweep_history_keep [OF h m] Looking by simp
  show ?thesis
  proof (cases todo)
    case Nil
    show ?thesis
      using selected_idle [OF keep [unfolded Nil]] Looking Nil
      by (simp add: sweep_history_reaping list_all_iff m_def [symmetric])
  next
    case (Cons st rest)
    show ?thesis
    proof (cases seen)
      case None
      have "snd (first_seen be sn st (rp_daemon r)) = last_view sn st"
        by (simp add: first_seen_def last_view_def split: option.split)
      then show ?thesis
        using keep Looking Cons None by (auto simp: m_def [symmetric] split: prod.split)
    next
      case (Some t)
      obtain epoch where epoch: "sn_epoch_millis sn = of_nat epoch"
          and cur: "current (sn_ttl sn) (sn_sessions sn) (reads sn epoch) ms"
          and rest: "set todo \<subseteq> set (sn_sessions sn)" "t = last_view sn st" and es: "list_all (looked sn epoch ms) es"
        using h Looking Cons Some by auto
      have "current (sn_ttl sn) (sn_sessions sn) (reads sn epoch @ [unwatched (si_session st)]) (ms @ [m])"
        if "\<not> re_has_active_subscriber (entry_of be st t (rp_daemon r))"
        by (rule current_add [OF cur m]) (use that in \<open>simp add: entry_of_def m_def\<close>)
      then have "looked sn epoch (ms @ [m]) (entry_of be st t (rp_daemon r))"
        using rest Cons unfolding looked_def by (intro bexI [of _ st]) (auto simp: entry_of_def)
      moreover have "list_all (looked sn epoch (ms @ [m])) es"
        using es looked_keep [OF _ m] by (auto simp: list_all_iff)
      ultimately show ?thesis
        using epoch current_keep [OF cur m] rest(1) Looking Cons Some by (auto simp: m_def [symmetric])
    qed
  qed
next
  case (Reaping ttl ids stage)
  define m where "m = (be, Proceed ks, r)"
  have m: "in_sweep m" using Reaping by (simp add: in_sweep_def m_def)
  have keep: "sweep_history (Reaping ttl ids stage) (ms @ [m])" using sweep_history_keep [OF h m] Reaping by simp
  show ?thesis
  proof (cases ids)
    case (Cons sid rest)
    have one: "found_idle [still_unwatched ttl sid] ttl sid (ms @ [m])"
      if "stage = Unchecked" "\<not> has_active_subscriber (be_channels be) sid (dm_emitter (rp_daemon r))"
      using found_add [of "[]" ttl sid ms m "still_unwatched ttl sid"] h Reaping Cons m that by (simp add: m_def)
    have two: "abandoned sid (ms @ [m])" if "stage = NoSubscriber" "\<not> recently_active be ttl sid (rp_daemon r)"
    proof -
      have "still_unviewed ttl sid m"
        using that(2) by (auto simp: recently_active_def since_def m_def split: option.splits)
      then show ?thesis
        using found_add [of "[still_unwatched ttl sid]" ttl sid ms m "still_unviewed ttl sid"] h Reaping Cons m that(1)
        by (auto simp: abandoned_def)
    qed
    show ?thesis
      using keep one two Reaping Cons by (cases stage) (simp_all add: calls sweep_history_reaping m_def [symmetric])
  qed (use Reaping in simp)
qed

lemma sweep_history_step:
  assumes h: "sweep_history (rp_sweep r) ms"
  shows "sweep_history (rp_sweep (reaper_exec (be, a) r)) (ms @ [(be, a, r)])"
proof (cases a)
  case (WakeUp cfg)
  show ?thesis
  proof (cases "rp_sweep r = Sleeping")
    case True
    have "begins ttl sessions (be, a, r)" if "rp_sweep (wake_up be cfg r) = Listed ttl sessions" for ttl sessions
      using that True WakeUp by (auto simp: wake_up_def Let_def split: option.splits sum.splits)
    moreover have "rp_sweep (wake_up be cfg r) = Sleeping \<or> (\<exists>ttl sessions. rp_sweep (wake_up be cfg r) = Listed ttl sessions)"
      using True by (simp add: wake_up_def Let_def split: option.split sum.split)
    ultimately show ?thesis using True WakeUp current_begin by auto
  next
    case False
    then have "reaper_exec (be, a) r = r" using WakeUp by (simp split: sweep.split)
    then show ?thesis using sweep_history_keep [OF h] False by (simp add: in_sweep_def)
  qed
next
  case (Proceed ks)
  then show ?thesis using proceed_sweep_history [OF h] by simp
next
  case (Arrives ev)
  then show ?thesis using sweep_history_keep [OF h, of "(be, a, r)"] by (cases "rp_sweep r = Sleeping") (simp_all add: in_sweep_def)
qed

lemma sweep_history_run: "sweep_history (rp_sweep (reaper_run as (reaper_start st d))) (moments as (reaper_start st d))"
proof (induction as rule: rev_induct)
  case (snoc x as)
  obtain be a where x: "x = (be, a)" by (cases x)
  then show ?case using sweep_history_step [OF snoc] by (simp add: moments_snoc)
qed (simp add: reaper_start_def)

text \<open>Only one call kills.\<close>

lemma proceed_reaps:
  "rp_reaped (proceed be ks sw r) =
     (case sw of Reaping ttl (sid # ids) Condemned \<Rightarrow> rp_reaped r @ [sid] | _ \<Rightarrow> rp_reaped r)"
  by (rule proceed.cases [of "(be, ks, sw, r)"]) (simp_all add: calls split: prod.split)

lemma reaps_cases:
  assumes "rp_reaped (reaper_exec (be, a) r) \<noteq> rp_reaped r"
  obtains ks ttl sid ids where "a = Proceed ks" "rp_sweep r = Reaping ttl (sid # ids) Condemned"
    "rp_reaped (reaper_exec (be, a) r) = rp_reaped r @ [sid]"
    "dm_log (rp_daemon (reaper_exec (be, a) r)) = dm_log (rp_daemon r) @ [(None, CallKill sid DaemonReaper)]"
proof (cases a)
  case (Proceed ks)
  then obtain ttl sid ids where "rp_sweep r = Reaping ttl (sid # ids) Condemned"
    using assms by (auto simp: proceed_reaps split: sweep.splits list.splits stage.splits)
  then show ?thesis using that [of ks ttl sid ids] Proceed by (simp add: calls log_call_def)
qed (use assms in \<open>simp_all split: sweep.splits\<close>)

text \<open>C8: The reaper kills abandoned sessions only, whatever arrives between the calls of its sweep. If
  an action of a run adds a kill to the reaper's log, then it is a call of the sweep, it asks the
  backend to kill one session, and that session is \<open>abandoned\<close> by the moments of the run before: the
  last sweep to begin, under the TTL it read, listed the session in a status that is neither busy nor
  starting nor waiting for input; then, in this order, it read a clock at which the session had
  written nothing for more than the TTL, read an activity map in which the last view was more than
  the TTL before that clock, found no subscriber, found no subscriber again when it came to the
  session in its list, and at last found no view within the TTL.\<close>

theorem reaper_kills_only_abandoned:
  assumes "rp_reaped (reaper_run (as @ [(be, a)]) (reaper_start st d)) \<noteq> rp_reaped (reaper_run as (reaper_start st d))"
  shows "\<exists>ks sid. a = Proceed ks
    \<and> rp_reaped (reaper_run (as @ [(be, a)]) (reaper_start st d)) = rp_reaped (reaper_run as (reaper_start st d)) @ [sid]
    \<and> dm_log (rp_daemon (reaper_run (as @ [(be, a)]) (reaper_start st d)))
        = dm_log (rp_daemon (reaper_run as (reaper_start st d))) @ [(None, CallKill sid DaemonReaper)]
    \<and> abandoned sid (moments as (reaper_start st d))"
proof -
  let ?r = "reaper_run as (reaper_start st d)"
  have run: "reaper_run (as @ [(be, a)]) (reaper_start st d) = reaper_exec (be, a) ?r" by simp
  obtain ks ttl sid ids where step: "a = Proceed ks" "rp_sweep ?r = Reaping ttl (sid # ids) Condemned"
      "rp_reaped (reaper_exec (be, a) ?r) = rp_reaped ?r @ [sid]"
      "dm_log (rp_daemon (reaper_exec (be, a) ?r)) = dm_log (rp_daemon ?r) @ [(None, CallKill sid DaemonReaper)]"
    using assms reaps_cases [of be a ?r] unfolding run by blast
  have "abandoned sid (moments as (reaper_start st d))" using sweep_history_run [of as st d] step(2) by simp
  then show ?thesis using step unfolding run by blast
qed

subsection \<open>Requests and the activity map\<close>

text \<open>What the requests can do to the activity map: a relation between daemons that is kept by touching
  a session and by dropping any session but \<open>sid\<close>, and that only reads the activity map, holds
  along every request that neither kills \<open>sid\<close> nor is handed its id for a new session.\<close>

definition hands_out :: "backend \<Rightarrow> string \<Rightarrow> bool" where
  "hands_out be sid = (\<exists>req model. be_create be req = CreateOk sid model)"

fun leaves_alone :: "string \<Rightarrow> backend \<Rightarrow> daemon_event \<Rightarrow> bool" where
  "leaves_alone sid be (Http h (ReqKill s reason)) = (s \<noteq> sid)"
| "leaves_alone sid be (Http h (ReqCreate body)) = (\<not> hands_out be sid)"
| "leaves_alone sid be _ = True"

locale activity_steps =
  fixes R :: "daemon \<Rightarrow> daemon \<Rightarrow> bool" and valid :: "backend \<Rightarrow> bool" and sid :: string
  assumes same: "dm_activity d1 = dm_activity d \<Longrightarrow> R d d1"
    and trans: "R d d1 \<Longrightarrow> R d1 d2 \<Longrightarrow> R d d2"
    and touched: "valid be \<Longrightarrow> R d (touch_session be s d)"
    and removed: "s \<noteq> sid \<Longrightarrow> R d (remove_session_activity be s d)"
begin

lemma logged: "R d (log_call c x d)"
  by (rule same) (simp add: log_call_def)

lemma authorized_step: "R d (fst (f d)) \<Longrightarrow> R d (fst (authorized h d f))"
  by (simp add: authorized_def same split: option.split)

lemma guarded_step: "R d (fst (f d)) \<Longrightarrow> R d (fst (guarded_write be h s f d))"
  unfolding guarded_write_def by (rule authorized_step) (simp add: same split: option.split)

lemma claimed_step: "R d (fst (try_claim_session be s owner ttl d))"
  by (rule same) (simp add: try_claim_session_def Let_def split: option.split)

lemma touched_ask: "valid be \<Longrightarrow> R d (fst (ask_backend be c x err (touch_session be s d)))"
  by (simp add: ask_backend_def trans [OF touched logged])

lemma launched_killed: "R d (fst (kill_launched be c sids d))"
proof (induction sids arbitrary: d)
  case (Cons s sids)
  show ?case using trans [OF logged Cons.IH] logged by (simp add: Let_def split: option.split core_error.split)
qed (simp add: same)

lemma launch_cancelled: "R d (fst (backend_cancel_launch be c launch_id d))"
  using trans [OF logged launched_killed] logged by (simp add: backend_cancel_launch_def Let_def split: option.split)

lemma read_routes:
  "R d (fst (health be d))" "R d (fst (list_identity_events h d))"
  "R d (fst (get_daemon_status be h d))" "R d (fst (shutdown_daemon h d))"
  "R d (fst (set_temporary_ssh_password h machine_id password d))" "R d (fst (cancel_launch be h launch_id d))"
  "R d (fst (list_sessions be h d))" "R d (fst (find_session_by_launch be h launch_id d))"
  "R d (fst (hook_status be h s st d))" "R d (fst (get_session_provenance h s d))"
  "R d (fst (list_session_claims be h d))" "R d (fst (get_adoption_snapshot be h d))"
  unfolding get_daemon_status_def list_sessions_def find_session_by_launch_def get_session_provenance_def shutdown_daemon_def
    set_temporary_ssh_password_def cancel_launch_def hook_status_def list_session_claims_def get_adoption_snapshot_def Let_def
    list_identity_events_def
  by (simp add: same)
    (rule authorized_step, simp add: ask_backend_def logged launch_cancelled case_prod_beta same prune_expired_claims_def
        request_shutdown_def split: option.split sum.split)+

lemma touching_routes:
  assumes "valid be"
  shows "R d (fst (get_session_status be h s d))" "R d (fst (get_session_output be h s n d))"
    "R d (fst (get_session_snapshot be h s d))" "R d (fst (get_session_recovery_snapshot be h s d))"
  unfolding get_session_status_def get_session_output_def get_session_snapshot_def get_session_recovery_snapshot_def
  by (rule authorized_step, simp add: touched [OF assms])+

lemma write_routes:
  assumes "valid be"
  shows "R d (fst (resize_session be h s cols rows d))" "R d (fst (write_session be h s data source d))"
    "R d (fst (submit_session be h s data d))" "R d (fst (upload_session_checkpoint be h s cp d))"
proof -
  show "R d (fst (resize_session be h s cols rows d))" "R d (fst (write_session be h s data source d))"
    "R d (fst (submit_session be h s data d))"
    unfolding resize_session_def write_session_def submit_session_def
    by (rule guarded_step, rule touched_ask [OF assms])+
  show "R d (fst (upload_session_checkpoint be h s cp d))"
    unfolding upload_session_checkpoint_def by (rule guarded_step) (simp add: trans [OF touched [OF assms] logged])
qed

lemma claim_routes:
  assumes "valid be"
  shows "R d (fst (claim_session be h s app_id ttl d))" "R d (fst (release_session_claim be h s app_id d))"
proof -
  have claim: "R d d1 \<and> R d (touch_session be s d1)"
    if "try_claim_session be s owner ttl (prune_expired_claims be d) = (d1, c)" for owner d1 c
  proof -
    have "R d (prune_expired_claims be d)" by (rule same) (simp add: prune_expired_claims_def)
    then have "R d d1" using claimed_step [of "prune_expired_claims be d" be s owner ttl] that trans by force
    then show ?thesis using trans touched [OF assms] by blast
  qed
  then show "R d (fst (claim_session be h s app_id ttl d))"
    unfolding claim_session_def by (intro authorized_step) (auto simp: same split: option.split sum.split prod.split)
  have "R d d1" if "release_claim be s owner d = (d1, r)" for owner d1 r
    using that by (intro same) (auto simp: release_claim_def split: option.splits if_splits)
  then show "R d (fst (release_session_claim be h s app_id d))"
    unfolding release_session_claim_def Let_def
    by (intro authorized_step) (auto simp: same split: prod.split bool.split option.split)
qed

lemma kill_step: "s \<noteq> sid \<Longrightarrow> R d (fst (kill_session be h s reason d))"
  unfolding kill_session_def
  by (rule guarded_step) (simp add: Let_def logged trans [OF logged removed] split: option.split)

lemma reuse_step:
  assumes "valid be"
  shows "R d (fst (reuse_expected_session be req owner d))"
proof -
  have e: "R d d1" if "expected_session be expected d = (d1, x)" for expected d1 x
    using that by (intro same) (auto simp: expected_session_def split: sum.splits option.splits if_splits)
  have c: "R d d2 \<and> R d (touch_session be s d2)"
    if "expected_session be expected d = (d1, x)" "try_claim_session be s q None d1 = (d2, y)" for expected d1 x s q d2 y
    using claimed_step [of d1 be s q None] that(2) e [OF that(1)] trans touched [OF assms] by (metis fst_conv)
  show ?thesis
    by (auto simp: reuse_expected_session_def same dest: e c split: option.split sum.split prod.split)
qed

lemma register_step:
  assumes "valid be" "s \<noteq> sid"
  shows "R d (fst (register_session be body owner s model req d))"
proof -
  have birth: "R d1 (fst (record_birth be body q s model req d1))" for q d1
    by (rule same) (simp add: record_birth_def Let_def split: option.split)
  have t: "R d (touch_session be s d)" by (rule touched [OF assms(1)])
  have c: "R d d2" if "try_claim_session be s q None (touch_session be s d) = (d2, y)" for q d2 y
    using claimed_step [of "touch_session be s d" be s q None] that trans [OF t] by (metis fst_conv)
  have k: "R d1 (remove_session_activity be s (log_call q x d1))" for d1 q x
    by (rule trans [OF logged removed [OF assms(2)]])
  show ?thesis
    by (auto simp: register_session_def Let_def dest: c split: option.split prod.split sum.split
        intro: trans [OF t birth] trans [OF c birth] trans [OF c k])
qed

lemma create_step:
  assumes "valid be" "\<not> hands_out be sid"
  shows "R d (fst (create_session be h body d))"
proof -
  have fresh: "s \<noteq> sid" if "be_create be req = CreateOk s model" for req s model
    using assms(2) that by (auto simp: hands_out_def)
  have late: "R d1 (fst (launch_timeout be body owner l d1))" for owner l d1
    using trans [OF logged launch_cancelled] logged launch_cancelled
    by (simp add: launch_timeout_def Let_def same split: option.split)
  have launch: "R d1 (fst (launch_session be body owner req d1))" for owner req d1
    by (auto simp: launch_session_def Let_def logged split: create_result.split
        intro: trans [OF logged register_step [OF assms(1) fresh]] trans [OF logged late])
  have reuse: "R d d1" if "reuse_expected_session be req owner d = (d1, x)" for req owner d1 x
    using reuse_step [OF assms(1), of d req owner] that by simp
  show ?thesis
    unfolding create_session_def
    by (rule authorized_step) (auto simp: same dest: reuse split: prod.split sum.split option.split intro: trans [OF reuse launch])
qed

lemma socket_step:
  assumes "valid be"
  shows "R d (fst (ws_session be s token caller d))" "R d (handle_ws_input be s caller msg d)" "R d (ws_end be s d)"
    "R d (fst (ws_control token kind d))" "R d (control_closed kind conn d)"
proof -
  have "R d d1" if "dm_activity d1 = dm_activity (touch_session be s d)" for d1
    by (rule trans [OF touched [OF assms] same [OF that]])
  then show "R d (fst (ws_session be s token caller d))"
    by (simp add: ws_session_def same Let_def split: option.split)
  show "R d (handle_ws_input be s caller msg d)"
    by (simp add: handle_ws_input_def same logged touched [OF assms] trans [OF touched [OF assms] logged] Let_def
        split: ws_input.split option.split)
  show "R d (ws_end be s d)" "R d (fst (ws_control token kind d))" "R d (control_closed kind conn d)"
    by (rule same, simp add: ws_end_def ws_control_def control_closed_def register_desktop_client_def
        drop_desktop_client_def Let_def split: option.split)+
qed

lemma event_step: "valid be \<Longrightarrow> leaves_alone sid be ev \<Longrightarrow> R d (dm_exec (be, ev) d)"
proof (cases ev)
  case (Http h r)
  assume "valid be" "leaves_alone sid be ev"
  then show ?thesis
    unfolding Http by (cases r) (simp_all add: same read_routes touching_routes write_routes claim_routes kill_step create_step)
qed (simp_all add: socket_step)

end


subsection \<open>A viewed session\<close>

definition still_seen :: "instant \<Rightarrow> string \<Rightarrow> daemon \<Rightarrow> daemon \<Rightarrow> bool" where
  "still_seen t0 sid d d1 =
     ((\<exists>t\<ge>t0. dm_activity d sid = Some t) \<longrightarrow> (\<exists>t\<ge>t0. dm_activity d1 sid = Some t))"

interpretation seen: activity_steps "still_seen t0 sid" "\<lambda>be. t0 \<le> be_now be" sid for t0 sid
  by unfold_locales
    (auto simp: still_seen_def touch_session_def remove_session_activity_def forget_session_claim_def Let_def)

definition patient :: "duration \<Rightarrow> orphan_settings \<Rightarrow> bool" where
  "patient T st = (case sweep_ttl st of Some ttl \<Rightarrow> T \<le> ttl | None \<Rightarrow> True)"

fun patient_file :: "duration \<Rightarrow> config_file \<Rightarrow> bool" where
  "patient_file T (Stored st) = patient T (merge_orphan_ttl st)"
| "patient_file T _ = True"

text \<open>What a sweep still has in store for the session: the listing holds it, so its entry is not
  dropped, and the check for a view is not behind it.\<close>

fun patient_sweep :: "duration \<Rightarrow> string \<Rightarrow> sweep \<Rightarrow> bool" where
  "patient_sweep T sid Sleeping = True"
| "patient_sweep T sid (Listed ttl sessions) = (T \<le> ttl \<and> is_listed sessions sid)"
| "patient_sweep T sid (Timed ttl sessions now ms) = (T \<le> ttl \<and> is_listed sessions sid)"
| "patient_sweep T sid (Dropping sn keys) = (T \<le> sn_ttl sn \<and> is_listed (sn_sessions sn) sid)"
| "patient_sweep T sid (Looking sn todo seen es) = (T \<le> sn_ttl sn)"
| "patient_sweep T sid (Reaping ttl ids stage) =
     (T \<le> ttl \<and> (ids \<noteq> [] \<and> hd ids = sid \<longrightarrow> stage = Unchecked \<or> stage = NoSubscriber))"

fun lists :: "backend \<Rightarrow> string \<Rightarrow> bool" where
  "lists be sid = (case be_all be of Inr sessions \<Rightarrow> is_listed sessions sid | Inl e \<Rightarrow> True)"

fun respects_view :: "duration \<Rightarrow> string \<Rightarrow> backend \<Rightarrow> action \<Rightarrow> bool" where
  "respects_view T sid be (WakeUp cfg) = (patient_file T cfg \<and> lists be sid)"
| "respects_view T sid be (Arrives ev) = leaves_alone sid be ev"
| "respects_view T sid be (Proceed ks) = True"

definition in_view :: "instant \<Rightarrow> duration \<Rightarrow> string \<Rightarrow> reaper \<Rightarrow> bool" where
  "in_view t0 T sid r =
     ((\<exists>t\<ge>t0. dm_activity (rp_daemon r) sid = Some t) \<and> patient T (rp_settings r) \<and> patient_sweep T sid (rp_sweep r))"

lemma patient_reaping [simp]: "patient_sweep T sid (reaping ttl ids) = (ids = [] \<or> T \<le> ttl)"
  by (simp add: reaping_def)

lemma wake_up_patient:
  assumes "patient T (rp_settings r)" and "patient_file T cfg" and "lists be sid" and "rp_sweep r = Sleeping"
  shows "patient T (rp_settings (wake_up be cfg r))" "patient_sweep T sid (rp_sweep (wake_up be cfg r))"
proof -
  have "patient T st" if "reload_settings cfg (rp_settings r) = Some st" for st
    using assms(1,2) that by (cases cfg) auto
  then show "patient T (rp_settings (wake_up be cfg r))" "patient_sweep T sid (rp_sweep (wake_up be cfg r))"
    using assms(1,3,4) by (auto simp: wake_up_def patient_def Let_def split: option.split sum.split)
qed

lemma recent_view: "t0 \<le> t \<Longrightarrow> dm_activity d sid = Some t \<Longrightarrow> be_now be \<le> t0 + T \<Longrightarrow> T \<le> ttl \<Longrightarrow> recently_active be ttl sid d"
  by (simp add: recently_active_def since_def)

lemma proceed_settings [simp]: "rp_settings (proceed be ks sw r) = rp_settings r"
  by (rule proceed.cases [of "(be, ks, sw, r)"]) (simp_all add: calls split: prod.split)

lemma proceed_seen:
  assumes "t0 \<le> be_now be" and "patient_sweep T sid (rp_sweep r)"
  shows "still_seen t0 sid (rp_daemon r) (rp_daemon (proceed be ks (rp_sweep r) r))"
proof (cases "rp_sweep r")
  case (Dropping sn keys)
  have "still_seen t0 sid (rp_daemon r) (drop_unlisted be sn k (rp_daemon r))" for k
    using assms(2) Dropping by (auto simp: drop_unlisted_def seen.same intro: seen.removed)
  then show ?thesis using Dropping by (cases keys) (simp_all add: seen.same)
next
  case (Looking sn todo seen es)
  have "still_seen t0 sid (rp_daemon r) (fst (first_seen be sn st (rp_daemon r)))" for st
    using assms(1) by (auto simp: first_seen_def seen.same intro: seen.touched split: option.split)
  then have "still_seen t0 sid (rp_daemon r) d" if "first_seen be sn st (rp_daemon r) = (d, t)" for st d t
    using that by (metis fst_conv)
  then show ?thesis using Looking by (cases todo; cases seen) (auto simp: seen.same split: prod.split)
next
  case (Reaping ttl ids stage)
  have "still_seen t0 sid (rp_daemon r) (remove_session_activity be s (rp_daemon r))" if "ids = s # rest" "stage = Killed" for s rest
    by (rule seen.removed) (use that assms(2) Reaping in auto)
  then show ?thesis using Reaping by (cases ids; cases stage) (simp_all add: calls seen.same seen.logged)
qed (simp_all add: seen.same)

lemma proceed_spares_viewed:
  assumes view: "in_view t0 T sid r" and clock: "be_now be \<le> t0 + T"
  shows "patient_sweep T sid (rp_sweep (proceed be ks (rp_sweep r) r))"
    and "\<exists>new. rp_reaped (proceed be ks (rp_sweep r) r) = rp_reaped r @ new \<and> sid \<notin> set new"
proof -
  have sw: "patient_sweep T sid (rp_sweep r)" using view by (simp add: in_view_def)
  obtain t where t: "t0 \<le> t" "dm_activity (rp_daemon r) sid = Some t" using view by (auto simp: in_view_def)
  have recent: "recently_active be ttl sid (rp_daemon r)" if "T \<le> ttl" for ttl
    by (rule recent_view [OF t clock that])
  show "patient_sweep T sid (rp_sweep (proceed be ks (rp_sweep r) r))"
  proof (cases "rp_sweep r")
    case (Reaping ttl ids stage)
    then show ?thesis using sw recent by (cases ids; cases stage) (auto simp: calls)
  next
    case (Dropping sn keys)
    then show ?thesis using sw by (cases keys) auto
  next
    case (Looking sn todo seen es)
    then show ?thesis using sw by (cases todo; cases seen) (auto split: prod.split)
  qed (use sw in auto)
  show "\<exists>new. rp_reaped (proceed be ks (rp_sweep r) r) = rp_reaped r @ new \<and> sid \<notin> set new"
    using sw by (auto simp: proceed_reaps split: sweep.split list.split stage.split)
qed

lemma view_step:
  assumes view: "in_view t0 T sid r" and clock: "t0 \<le> be_now be" "be_now be \<le> t0 + T" and ok: "respects_view T sid be a"
  shows "in_view t0 T sid (reaper_exec (be, a) r)
    \<and> (\<exists>new. rp_reaped (reaper_exec (be, a) r) = rp_reaped r @ new \<and> sid \<notin> set new)"
proof (cases a)
  case (WakeUp cfg)
  show ?thesis
  proof (cases "rp_sweep r = Sleeping")
    case True
    have "patient T (rp_settings r)" "patient_file T cfg" "lists be sid"
      using view ok WakeUp by (simp_all add: in_view_def del: lists.simps)
    note patience = wake_up_patient [OF this True]
    then show ?thesis using view True WakeUp by (simp add: in_view_def)
  next
    case False
    then have "reaper_exec (be, a) r = r" using WakeUp by (simp split: sweep.split)
    then show ?thesis using view by simp
  qed
next
  case (Proceed ks)
  have "still_seen t0 sid (rp_daemon r) (rp_daemon (proceed be ks (rp_sweep r) r))"
    by (rule proceed_seen [where T = T, OF clock(1)]) (use view in \<open>simp add: in_view_def\<close>)
  then show ?thesis
    using proceed_spares_viewed [OF view clock(2)] view Proceed by (simp add: in_view_def still_seen_def)
next
  case (Arrives ev)
  have "still_seen t0 sid (rp_daemon r) (dm_exec (be, ev) (rp_daemon r))"
    by (rule seen.event_step [OF clock(1)]) (use ok Arrives in simp)
  then show ?thesis using view Arrives by (simp add: in_view_def still_seen_def)
qed

lemma view_run:
  "in_view t0 T sid r \<Longrightarrow> list_all (\<lambda>(be, a). t0 \<le> be_now be \<and> be_now be \<le> t0 + T \<and> respects_view T sid be a) as \<Longrightarrow>
   in_view t0 T sid (reaper_run as r) \<and> (\<exists>new. rp_reaped (reaper_run as r) = rp_reaped r @ new \<and> sid \<notin> set new)"
proof (induction as arbitrary: r)
  case (Cons a as)
  obtain be x where a: "a = (be, x)" by (cases a)
  note step = view_step [OF Cons.prems(1), of be x]
  have "in_view t0 T sid (reaper_exec a r)" using step Cons.prems(2) a by simp
  then show ?case using Cons.IH [of "reaper_exec a r"] step Cons.prems(2) a by fastforce
qed simp

text \<open>C9: A session that is looked at survives, as long as the sweep has not already made its last check
  of it. Take any state of the reaper in which the session was last viewed at \<open>t0\<close> or later; a sweep
  may be anywhere, except that a listing it is still comparing the map with holds the session, and
  that the session is not the one it has checked for a view and is about to kill. Along every run of
  requests and calls of sweeps up to \<open>t0 + T\<close>, for a \<open>T\<close> up to the configured TTL, in which the session
  is not killed by request, its id is not given to a new session and the listings of the backend
  contain it, the reaper does not kill it, and its entry in the activity map stays.\<close>

theorem viewed_session_survives:
  assumes "in_view t0 T sid r"
    and "list_all (\<lambda>(be, a). t0 \<le> be_now be \<and> be_now be \<le> t0 + T \<and> respects_view T sid be a) as"
  shows "(\<exists>new. rp_reaped (reaper_run as r) = rp_reaped r @ new \<and> sid \<notin> set new) \<and> in_view t0 T sid (reaper_run as r)"
  using view_run [OF assms] by simp

text \<open>The exception is real: no lock is held from the check to the kill, and once the check is passed
  nothing that arrives saves the session, neither a view nor a new subscriber.\<close>

theorem view_after_check_is_too_late:
  assumes "rp_sweep r = Reaping ttl (sid # ids) Condemned"
  shows "rp_reaped (reaper_exec (be, Proceed ks) (reaper_run (map (\<lambda>(be, ev). (be, Arrives ev)) es) r)) = rp_reaped r @ [sid]"
proof -
  have "rp_sweep (reaper_run (map (\<lambda>(be, ev). (be, Arrives ev)) es) r) = rp_sweep r
    \<and> rp_reaped (reaper_run (map (\<lambda>(be, ev). (be, Arrives ev)) es) r) = rp_reaped r"
    by (induction es arbitrary: r) auto
  then show ?thesis using assms by (simp add: calls)
qed

subsection \<open>One uninterrupted sweep\<close>

definition uninterrupted :: "backend \<Rightarrow> string list \<Rightarrow> nat \<Rightarrow> (backend \<times> action) list" where
  "uninterrupted be ks n = replicate n (be, Proceed ks)"

lemma uninterrupted_simps [simp]:
  "uninterrupted be ks 0 = []" "uninterrupted be ks (Suc n) = (be, Proceed ks) # uninterrupted be ks n"
  by (simp_all add: uninterrupted_def)

lemma asleep_run: "rp_sweep r = Sleeping \<Longrightarrow> reaper_run (uninterrupted be ks n) r = r"
  by (induction n) simp_all

lemma drop_run:
  "rp_sweep r = Dropping sn keys \<Longrightarrow>
   reaper_run (uninterrupted be ks (length keys + 1 + n)) r =
   reaper_run (uninterrupted be ks n)
     (r\<lparr>rp_daemon := fold (drop_unlisted be sn) keys (rp_daemon r), rp_sweep := Looking sn (sn_sessions sn) None []\<rparr>)"
  by (induction keys arbitrary: r) simp_all

definition register_seen :: "backend \<Rightarrow> reaper_snapshot \<Rightarrow> status_info \<Rightarrow> daemon \<Rightarrow> daemon" where
  "register_seen be sn st d = fst (first_seen be sn st d)"

lemma first_seen_split: "first_seen be sn st d = (register_seen be sn st d, last_view sn st)"
  by (simp add: register_seen_def first_seen_def last_view_def split: option.split)

lemma register_seen_frame [simp]:
  "dm_emitter (register_seen be sn st d) = dm_emitter d" "dm_log (register_seen be sn st d) = dm_log d"
  "dm_claims (register_seen be sn st d) = dm_claims d"
  "sn_activity sn sid \<noteq> None \<Longrightarrow> dm_activity (register_seen be sn st d) sid = dm_activity d sid"
  by (auto simp: register_seen_def first_seen_def touch_session_def split: option.split)

lemma register_all_frame [simp]:
  "dm_emitter (fold (register_seen be sn) l d) = dm_emitter d" "dm_log (fold (register_seen be sn) l d) = dm_log d"
  "dm_claims (fold (register_seen be sn) l d) = dm_claims d"
  "sn_activity sn sid \<noteq> None \<Longrightarrow> dm_activity (fold (register_seen be sn) l d) sid = dm_activity d sid"
  by (induction l arbitrary: d) simp_all

lemma entry_emitter: "dm_emitter d1 = dm_emitter d \<Longrightarrow> entry_of be st t d1 = entry_of be st t d"
  by (simp add: entry_of_def)

lemma look_run:
  "rp_sweep r = Looking sn todo None es \<Longrightarrow>
   reaper_run (uninterrupted be ks (2 * length todo + n)) r =
   reaper_run (uninterrupted be ks n)
     (r\<lparr>rp_daemon := fold (register_seen be sn) todo (rp_daemon r),
        rp_sweep := Looking sn [] None (es @ map (\<lambda>st. entry_of be st (last_view sn st) (rp_daemon r)) todo)\<rparr>)"
proof (induction todo arbitrary: r es)
  case (Cons st todo)
  have entry: "entry_of be st' t (register_seen be sn st d) = entry_of be st' t d" for st' t d
    by (rule entry_emitter) simp
  show ?case
    using Cons.IH [of "r\<lparr>rp_daemon := register_seen be sn st (rp_daemon r),
      rp_sweep := Looking sn todo None (es @ [entry_of be st (last_view sn st) (rp_daemon r)])\<rparr>"] Cons.prems
    by (simp add: first_seen_split entry)
next
  case Nil
  then have "r\<lparr>rp_sweep := Looking sn [] None es\<rparr> = r" by (cases r) simp
  then show ?case by simp
qed

lemma remove_no_subscriber:
  "\<not> has_active_subscriber (be_channels be) s (dm_emitter d) \<Longrightarrow>
   \<not> has_active_subscriber (be_channels be) s (dm_emitter (remove_session_activity be k d))"
  by (auto simp: has_active_subscriber_def remove_session_activity_def forget_session_claim_def cleanup_session_def
      live_subs_def list_ex_iff Let_def split: option.splits if_splits)

lemma remove_other:
  assumes "s \<noteq> k"
  shows "has_active_subscriber (be_channels be) s (dm_emitter (remove_session_activity be k d))
      = has_active_subscriber (be_channels be) s (dm_emitter d)"
    and "dm_activity (remove_session_activity be k d) s = dm_activity d s"
    and "dm_claims (remove_session_activity be k d) s = dm_claims d s"
  using assms
  by (auto simp: has_active_subscriber_def remove_session_activity_def forget_session_claim_def cleanup_session_def
      Let_def split: option.split)

lemma remove_log [simp]: "dm_log (remove_session_activity be k d) = dm_log d"
  by (simp add: remove_session_activity_def forget_session_claim_def Let_def)

lemma remove_claim [simp]: "dm_claims (remove_session_activity be k d) k = None"
  by (simp add: remove_session_activity_def forget_session_claim_def Let_def)

lemma remove_not_recent:
  "\<not> recently_active be ttl s d \<Longrightarrow> \<not> recently_active be ttl s (remove_session_activity be k d)"
  by (auto simp: recently_active_def remove_session_activity_def forget_session_claim_def Let_def split: option.splits)

lemma log_call_fields [simp]:
  "dm_emitter (log_call c x d) = dm_emitter d" "dm_activity (log_call c x d) = dm_activity d"
  "dm_claims (log_call c x d) = dm_claims d" "dm_log (log_call c x d) = dm_log d @ [(c, x)]"
  "recently_active be ttl s (log_call c x d) = recently_active be ttl s d"
  by (simp_all add: log_call_def recently_active_def)

text \<open>What the sweep drops is not listed, so listed sessions keep what they have.\<close>

lemma drop_listed:
  assumes "is_listed (sn_sessions sn) s"
  shows "has_active_subscriber (be_channels be) s (dm_emitter (fold (drop_unlisted be sn) keys d))
      = has_active_subscriber (be_channels be) s (dm_emitter d)"
    and "dm_activity (fold (drop_unlisted be sn) keys d) s = dm_activity d s"
    and "dm_claims (fold (drop_unlisted be sn) keys d) s = dm_claims d s"
proof -
  have other: "s \<noteq> k" if "\<not> is_listed (sn_sessions sn) k" for k using assms that by auto
  show "has_active_subscriber (be_channels be) s (dm_emitter (fold (drop_unlisted be sn) keys d))
      = has_active_subscriber (be_channels be) s (dm_emitter d)"
    by (induction keys arbitrary: d) (simp_all add: drop_unlisted_def remove_other(1) [OF other])
  show "dm_activity (fold (drop_unlisted be sn) keys d) s = dm_activity d s"
    by (induction keys arbitrary: d) (simp_all add: drop_unlisted_def remove_other(2) [OF other])
  show "dm_claims (fold (drop_unlisted be sn) keys d) s = dm_claims d s"
    by (induction keys arbitrary: d) (simp_all add: drop_unlisted_def remove_other(3) [OF other])
qed

lemma drop_log [simp]: "dm_log (fold (drop_unlisted be sn) keys d) = dm_log d"
  by (induction keys arbitrary: d) (simp_all add: drop_unlisted_def)

definition reapable :: "backend \<Rightarrow> duration \<Rightarrow> string list \<Rightarrow> daemon \<Rightarrow> bool" where
  "reapable be ttl ids d =
     (\<forall>s \<in> set ids. \<not> has_active_subscriber (be_channels be) s (dm_emitter d) \<and> \<not> recently_active be ttl s d)"

definition reap_log :: "string list \<Rightarrow> (string option \<times> backend_call) list" where
  "reap_log ids = map (\<lambda>s. (None, CallKill s DaemonReaper)) ids"

lemma reap_head:
  assumes "reapable be ttl (s # ids) (rp_daemon r)" and "rp_sweep r = Reaping ttl (s # ids) Unchecked"
  shows "reaper_run (uninterrupted be ks 4) r =
    r\<lparr>rp_daemon := remove_session_activity be s (log_call None (CallKill s DaemonReaper) (rp_daemon r)),
      rp_reaped := rp_reaped r @ [s], rp_sweep := reaping ttl ids\<rparr>"
  using assms by (simp add: numeral_eq_Suc calls reapable_def)

lemma reap_run:
  assumes "reapable be ttl ids (rp_daemon r)" and "rp_sweep r = reaping ttl ids" and "4 * length ids \<le> n"
  shows "let r1 = reaper_run (uninterrupted be ks n) r in
    rp_sweep r1 = Sleeping \<and> rp_reaped r1 = rp_reaped r @ ids \<and> dm_log (rp_daemon r1) = dm_log (rp_daemon r) @ reap_log ids
    \<and> (\<forall>s. dm_claims (rp_daemon r1) s = (if s \<in> set ids then None else dm_claims (rp_daemon r) s))"
  using assms
proof (induction ids arbitrary: r n)
  case Nil
  then show ?case by (simp add: reaping_def reap_log_def asleep_run)
next
  case (Cons s ids)
  define r1 where "r1 = reaper_run (uninterrupted be ks 4) r"
  have sw: "rp_sweep r = Reaping ttl (s # ids) Unchecked" using Cons.prems(2) by (simp add: reaping_def)
  note r1 = reap_head [OF Cons.prems(1) sw, of ks, folded r1_def]
  have "uninterrupted be ks n = uninterrupted be ks 4 @ uninterrupted be ks (n - 4)"
    using Cons.prems(3) by (simp add: uninterrupted_def replicate_add [symmetric])
  then have run: "reaper_run (uninterrupted be ks n) r = reaper_run (uninterrupted be ks (n - 4)) r1" by (simp add: r1_def)
  have "reapable be ttl ids (rp_daemon r1)"
    using Cons.prems(1) by (simp add: r1 reapable_def remove_no_subscriber remove_not_recent)
  note rest = Cons.IH [OF this, of "n - 4"]
  have "dm_claims (rp_daemon r1) q = (if q = s then None else dm_claims (rp_daemon r) q)" for q
    by (cases "q = s") (simp_all add: r1 remove_other)
  then show ?case using rest Cons.prems(3) unfolding run by (simp add: r1 Let_def reap_log_def)
qed

text \<open>The orphans of a listing, for a TTL: no subscriber, the last view and the last output more than
  the TTL ago, not busy and not starting and not waiting for input; those not viewed for longest
  first.\<close>

definition orphaned :: "backend \<Rightarrow> duration \<Rightarrow> daemon \<Rightarrow> status_info \<Rightarrow> bool" where
  "orphaned be ttl d st =
     (\<not> has_active_subscriber (be_channels be) (si_session st) (dm_emitter d)
      \<and> (case dm_activity d (si_session st) of Some t \<Rightarrow> t + ttl < be_now be | None \<Rightarrow> False)
      \<and> \<not> Session_State.is_busy (si_status st) \<and> si_status st \<noteq> Initializing \<and> si_status st \<noteq> WaitingInput
      \<and> unat (si_last_output_at st) + as_millis ttl < be_epoch_ms be mod 2 ^ 64)"

definition orphans :: "backend \<Rightarrow> duration \<Rightarrow> daemon \<Rightarrow> status_info list \<Rightarrow> string list" where
  "orphans be ttl d sessions =
     map si_session (sort_key (\<lambda>st. the (dm_activity d (si_session st))) (filter (orphaned be ttl d) sessions))"

lemma insort_cong: "(\<forall>y \<in> set (x # xs). k y = k' y) \<Longrightarrow> insort_key k x xs = insort_key k' x xs"
  by (induction xs) auto

lemma sort_cong: "(\<forall>y \<in> set xs. k y = k' y) \<Longrightarrow> sort_key k xs = sort_key k' xs"
proof (induction xs)
  case (Cons x xs)
  then show ?case using insort_cong [of x "sort_key k' xs" k k'] by simp
qed simp

lemma filter_sort_map:
  assumes "\<And>x. x \<in> set xs \<Longrightarrow> p (f x) = q x" and "\<And>x. x \<in> set xs \<Longrightarrow> q x \<Longrightarrow> k (f x) = k' x"
  shows "sort_key k (filter p (map f xs)) = map f (sort_key k' (filter q xs))"
proof -
  have "filter p (map f xs) = map f (filter q xs)"
    using assms(1) by (simp add: filter_map comp_def cong: filter_cong)
  moreover have "sort_key (\<lambda>x. k (f x)) (filter q xs) = sort_key k' (filter q xs)"
    using assms(2) by (intro sort_cong) auto
  ultimately show ?thesis by (simp flip: map_sort)
qed

lemma orphan_entry_expired:
  assumes "as_millis ttl < 2 ^ 64"
    and "has_active_subscriber (be_channels be) (si_session st) (dm_emitter d1)
       = has_active_subscriber (be_channels be) (si_session st) (dm_emitter d)"
    and "sn_activity sn = dm_activity d" and "sn_now sn = be_now be"
  shows "is_expired ttl (be_now be) (of_nat (be_epoch_ms be)) (entry_of be st (last_view sn st) d1) = orphaned be ttl d st"
proof -
  have "(of_nat (as_millis ttl) < saturating_sub (of_nat (be_epoch_ms be)) (si_last_output_at st))
      = (unat (si_last_output_at st) + as_millis ttl < be_epoch_ms be mod 2 ^ 64)"
    using assms(1) by (auto simp: word_less_nat_alt unat_saturating_sub unat_of_nat)
  moreover have "(ttl < since (be_now be) (last_view sn st))
      = (case dm_activity d (si_session st) of Some t \<Rightarrow> t + ttl < be_now be | None \<Rightarrow> False)"
    using assms(3,4) by (auto simp: last_view_def since_def split: option.split)
  ultimately show ?thesis
    by (auto simp: is_expired_def entry_of_def orphaned_def is_reap_protected_status_def assms(2))
qed

text \<open>C10: One uninterrupted sweep reaps exactly the orphans. If the settings can be read and do not disable
  the reaper, and the sessions can be listed, then a sweep with no request in between, made at one
  time, asks the backend for the kills of exactly those listed sessions that nobody is subscribed to,
  whose last view and last output are each more than the TTL ago, and that are neither busy nor
  starting nor waiting for input, the longest unviewed first; it asks for nothing else and ends.
  Afterwards these sessions have no lease, also when the backend has refused the kill, and every
  other listed session still has the lease it had.\<close>

theorem orphans_are_reaped:
  assumes "rp_sweep r = Sleeping" and "reload_settings cfg (rp_settings r) = Some st0" and "sweep_ttl st0 = Some ttl"
    and "be_all be = Inr sessions" and "6 * length sessions + length ks + 4 \<le> n"
  shows "let r1 = reaper_run ((be, WakeUp cfg) # uninterrupted be ks n) r;
             ids = orphans be ttl (rp_daemon r) sessions
    in rp_sweep r1 = Sleeping \<and> rp_reaped r1 = rp_reaped r @ ids
      \<and> dm_log (rp_daemon r1) = dm_log (rp_daemon r) @ reap_log ids
      \<and> (\<forall>st \<in> set sessions. dm_claims (rp_daemon r1) (si_session st)
           = (if si_session st \<in> set ids then None else dm_claims (rp_daemon r) (si_session st)))"
proof -
  define d where "d = rp_daemon r"
  define sn where "sn = \<lparr>sn_ttl = ttl, sn_sessions = sessions, sn_now = be_now be, sn_epoch_millis = of_nat (be_epoch_ms be),
      sn_activity = dm_activity d\<rparr>"
  have sn [simp]: "sn_ttl sn = ttl" "sn_sessions sn = sessions" "sn_now sn = be_now be"
      "sn_epoch_millis sn = of_nat (be_epoch_ms be)" "sn_activity sn = dm_activity d"
    by (simp_all add: sn_def)
  define d1 where "d1 = fold (drop_unlisted be sn) ks d"
  define d2 where "d2 = fold (register_seen be sn) sessions d1"
  define es where "es = map (\<lambda>st. entry_of be st (last_view sn st) d1) sessions"
  define ids where "ids = orphans be ttl d sessions"
  have listed: "is_listed (sn_sessions sn) (si_session st)" if "st \<in> set sessions" for st
    using that by (auto simp: is_listed_def list_ex_iff)
  have expired: "is_expired ttl (be_now be) (of_nat (be_epoch_ms be)) (entry_of be st (last_view sn st) d1) = orphaned be ttl d st"
    if "st \<in> set sessions" for st
    by (rule orphan_entry_expired [OF ttl_millis [OF assms(3)]]) (simp_all add: d1_def drop_listed [OF listed [OF that]])
  have view: "re_last_viewer_activity (entry_of be st (last_view sn st) d1) = the (dm_activity d (si_session st))"
    if "orphaned be ttl d st" for st
    using that by (auto simp: orphaned_def entry_of_def last_view_def split: option.splits)
  have selected: "select_expired es ttl (be_now be) (of_nat (be_epoch_ms be)) = ids"
    unfolding select_expired_sorted es_def ids_def orphans_def
    using filter_sort_map [where xs = sessions and f = "\<lambda>st. entry_of be st (last_view sn st) d1"
        and p = "is_expired ttl (be_now be) (of_nat (be_epoch_ms be))" and q = "orphaned be ttl d"
        and k = re_last_viewer_activity and k' = "\<lambda>st. the (dm_activity d (si_session st))", OF expired view]
    by (simp add: entry_of_def comp_def)
  have reapable: "reapable be ttl ids d2"
  proof -
    have "\<not> has_active_subscriber (be_channels be) (si_session st) (dm_emitter d2) \<and> \<not> recently_active be ttl (si_session st) d2"
      if "st \<in> set sessions" "orphaned be ttl d st" for st
      using that(2) drop_listed [OF listed [OF that(1)]]
      by (auto simp: d2_def d1_def orphaned_def recently_active_def since_def split: option.splits)
    then show ?thesis by (auto simp: reapable_def ids_def orphans_def)
  qed
  obtain m where n: "n = Suc (Suc (length ks + 1 + (2 * length sessions + Suc m)))" and m: "4 * length sessions \<le> m"
    using assms(5) by (intro that [of "n - (length ks + 2 * length sessions + 4)"]) simp_all
  define r2 where "r2 = r\<lparr>rp_settings := st0, rp_daemon := d2, rp_sweep := reaping ttl ids\<rparr>"
  have "length ids \<le> length sessions" by (simp add: ids_def orphans_def)
  then have kills: "4 * length ids \<le> m" using m by simp
  have wake: "reaper_exec (be, WakeUp cfg) r = r\<lparr>rp_settings := st0, rp_sweep := Listed ttl sessions\<rparr>"
    using assms(1-4) by (simp add: wake_up_def)
  define r3 where "r3 = r\<lparr>rp_settings := st0, rp_sweep := Dropping sn ks\<rparr>"
  define r4 where "r4 = r3\<lparr>rp_daemon := fold (drop_unlisted be sn) ks (rp_daemon r3), rp_sweep := Looking sn (sn_sessions sn) None []\<rparr>"
  have r4: "rp_sweep r4 = Looking sn sessions None []" "rp_daemon r4 = d1"
    by (simp_all add: r4_def r3_def d1_def d_def)
  have "reaper_run ((be, WakeUp cfg) # uninterrupted be ks n) r = reaper_run (uninterrupted be ks (length ks + 1 + (2 * length sessions + Suc m))) r3"
    unfolding n reaper_run_simps wake uninterrupted_simps r3_def sn_def d_def by simp
  also have "\<dots> = reaper_run (uninterrupted be ks (2 * length sessions + Suc m)) r4"
    unfolding r4_def by (rule drop_run) (simp add: r3_def)
  also have "\<dots> = reaper_run (uninterrupted be ks m) r2"
    unfolding look_run [OF r4(1)]
    by (simp add: selected r4(2) es_def [symmetric] d2_def [symmetric]) (simp add: r4_def r3_def r2_def)
  finally have run: "reaper_run ((be, WakeUp cfg) # uninterrupted be ks n) r = reaper_run (uninterrupted be ks m) r2" .
  note reaped = reap_run [of be ttl ids r2 m ks, OF _ _ kills]
  have "dm_claims d2 (si_session st) = dm_claims d (si_session st)" if "st \<in> set sessions" for st
    using drop_listed(3) [OF listed [OF that]] by (simp add: d2_def d1_def)
  then show ?thesis
    using reaped reapable unfolding run d_def [symmetric] ids_def [symmetric]
    by (simp add: r2_def Let_def d2_def d1_def d_def)
qed

subsection \<open>Restores beside the reaper\<close>

text \<open>The next call of the sweep forgets this session: it drops its entry, or it has just reaped it.\<close>

fun forgotten :: "sweep \<Rightarrow> string \<Rightarrow> bool" where
  "forgotten (Dropping sn (k # keys)) s = (s = k \<and> sn_activity sn k \<noteq> None \<and> \<not> is_listed (sn_sessions sn) k)"
| "forgotten (Reaping ttl (sid # ids) Killed) s = (s = sid)"
| "forgotten _ s = False"

fun spared_action :: "string \<Rightarrow> string \<Rightarrow> backend \<Rightarrow> action \<Rightarrow> reaper \<Rightarrow> bool" where
  "spared_action e n be (WakeUp cfg) r = True"
| "spared_action e n be (Proceed ks) r = (\<not> forgotten (rp_sweep r) e \<and> \<not> forgotten (rp_sweep r) n)"
| "spared_action e n be (Arrives ev) r = spares e n be ev"

text \<open>A run in which neither the requests nor the sweeps take \<open>e\<close> and \<open>n\<close> away.\<close>

fun spared_run :: "string \<Rightarrow> string \<Rightarrow> (backend \<times> action) list \<Rightarrow> reaper \<Rightarrow> bool" where
  "spared_run e n [] r = True"
| "spared_run e n ((be, a) # as) r = (spared_action e n be a r \<and> spared_run e n as (reaper_exec (be, a) r))"

lemma proceed_kept:
  assumes tied: "tied e n pv (rp_daemon r)"
    and spared: "\<not> forgotten (rp_sweep r) e" "\<not> forgotten (rp_sweep r) n"
  shows "kept e n pv (rp_daemon r) (rp_daemon (proceed be ks (rp_sweep r) r))"
proof (cases "rp_sweep r")
  case (Dropping sn keys)
  show ?thesis
  proof (cases keys)
    case (Cons k rest)
    have "kept e n pv (rp_daemon r) (remove_session_activity be k (rp_daemon r))"
      if "sn_activity sn k \<noteq> None" "\<not> is_listed (sn_sessions sn) k"
      by (rule kept_remove [OF tied]) (use spared Dropping Cons that in auto)
    then show ?thesis using Dropping Cons kept_refl [OF tied] by (simp add: drop_unlisted_def)
  qed (use Dropping kept_refl [OF tied] in simp)
next
  case (Looking sn todo seen es)
  have "kept e n pv (rp_daemon r) (register_seen be sn st (rp_daemon r))" for st
    using kept_refl [OF tied] quiet_kept [OF tied quiet_primitives(1)]
    by (simp add: register_seen_def first_seen_def split: option.split)
  then show ?thesis using Looking kept_refl [OF tied] by (cases todo; cases seen) (simp_all add: first_seen_split)
next
  case (Reaping ttl ids stage)
  have "kept e n pv (rp_daemon r) (remove_session_activity be s (rp_daemon r))" if "ids = s # rest" "stage = Killed" for s rest
    by (rule kept_remove [OF tied]) (use spared Reaping that in auto)
  moreover have "kept e n pv (rp_daemon r) (log_call None (CallKill s DaemonReaper) (rp_daemon r))" for s
    by (rule kept_log [OF tied]) simp
  ultimately show ?thesis using Reaping kept_refl [OF tied] by (cases ids; cases stage) (simp_all add: calls)
qed (use kept_refl [OF tied] in simp_all)

lemma action_kept:
  assumes "tied e n pv (rp_daemon r)" and "spared_action e n be a r"
  shows "kept e n pv (rp_daemon r) (rp_daemon (reaper_exec (be, a) r))"
proof (cases a)
  case (WakeUp cfg)
  then show ?thesis using kept_refl [OF assms(1)] by (simp split: sweep.split)
next
  case (Proceed ks)
  then show ?thesis using proceed_kept [OF assms(1)] assms(2) by simp
next
  case (Arrives ev)
  then show ?thesis using step_kept [OF assms(1)] assms(2) by simp
qed

lemma reaper_run_kept:
  "tied e n pv (rp_daemon r) \<Longrightarrow> spared_run e n as r \<Longrightarrow> kept e n pv (rp_daemon r) (rp_daemon (reaper_run as r))"
proof (induction as arbitrary: r)
  case (Cons x as)
  obtain be a where x: "x = (be, a)" by (cases x)
  have "kept e n pv (rp_daemon r) (rp_daemon (reaper_exec x r))" using action_kept [OF Cons.prems(1)] Cons.prems(2) x by simp
  then show ?case using kept_trans [OF _ Cons.IH [OF kept_tied]] Cons.prems(2) x by simp
qed (simp add: kept_refl)

text \<open>C6: A restore starts at most one process, while its session is kept. Once the creation for a saved
  session \<open>e\<close> has answered with the new session \<open>n\<close>, then for any later sequence of requests, from any
  instance and with any further restores of \<open>e\<close> among them, and of calls of the reaper in between, the
  backend is never again asked to create a session for \<open>e\<close>, and the birth certificate of \<open>n\<close> is still
  the one written at its creation; as long as the backend does not report \<open>n\<close> as gone, does not let
  \<open>e\<close> or \<open>n\<close> be killed by request or give their ids to a new session, and no sweep reaps \<open>e\<close> or \<open>n\<close> or
  drops either for missing in its listing.\<close>

theorem restore_creates_once:
  assumes created: "create_session be h body d = (d0, Inr (SessionCreated n False model))"
    and expected: "cr_expected_saved_session_id (cb_rest body) = Some e"
    and start: "rp_daemon r = d0"
    and spared: "spared_run e n as r"
  shows "(\<exists>calls. dm_log (rp_daemon (reaper_run as r)) = dm_log d0 @ calls \<and>
      (\<forall>c req. (c, CallCreate req) \<in> set calls \<longrightarrow> cr_expected_saved_session_id req \<noteq> Some e))
    \<and> dm_provenance (rp_daemon (reaper_run as r)) n = Some (birth_certificate be body (caller_instance h) n d)"
proof -
  let ?pv = "birth_certificate be body (caller_instance h) n d"
  have "tied e n ?pv (rp_daemon r)" using created_tied(1) [OF created expected] start by simp
  then have "kept e n ?pv d0 (rp_daemon (reaper_run as r))" using reaper_run_kept [OF _ spared] start by blast
  then show ?thesis using no_restore_create by (auto simp: kept_def tied_def)
qed

text \<open>The last condition is needed. The listing is taken first and the activity map read later, so a
  session created in between has an entry in the map and is missing in the listing; the sweep takes it
  for a dead one. It loses its lease and its birth certificate, and the memory of which saved session
  it replaces, which is what keeps a repeated restore from starting a second process.\<close>

theorem sweep_forgets_new_session:
  assumes "rp_sweep r = Dropping sn (sid # keys)" and "\<not> is_listed (sn_sessions sn) sid" and "sn_activity sn sid \<noteq> None"
  shows "let d = rp_daemon (reaper_exec (be, Proceed ks) r) in
    dm_claims d sid = None \<and> dm_provenance d sid = None \<and> (\<forall>e. dm_replacements d e \<noteq> Some sid)"
  using assms
  by (auto simp: drop_unlisted_def remove_session_activity_def forget_session_claim_def Let_def split: option.splits)

subsection \<open>Concrete runs\<close>

definition minute_settings :: orphan_settings where
  "minute_settings = \<lparr>os_ttl_minutes = 1, os_reaper_disabled = False\<rparr>"

lemma minute_ttl: "sweep_ttl minute_settings = Some 60000000000"
  by (simp add: sweep_ttl_def minute_settings_def from_secs_def nanos_per_sec_def)

lemma minute_merged: "merge_orphan_ttl minute_settings = minute_settings"
  by (simp add: merge_orphan_ttl_def minute_settings_def MAX_DAEMON_ORPHAN_TTL_MINUTES_def DEFAULT_DAEMON_ORPHAN_TTL_MINUTES_def)

definition two_minutes :: backend where
  "two_minutes = (demo_backend 120000000000)\<lparr>be_epoch_ms := 120000\<rparr>"

lemma two_minutes_fields [simp]:
  "be_now two_minutes = 120000000000" "be_epoch_ms two_minutes = 120000" "be_all two_minutes = Inr [demo_info ''s'' Idle]"
  "be_channels two_minutes = open_env"
  by (simp_all add: two_minutes_def demo_backend_def)

definition idle_reaper :: reaper where
  "idle_reaper = reaper_start minute_settings demo_claimed_daemon"

lemma idle_reaper_fields [simp]:
  "rp_sweep idle_reaper = Sleeping" "rp_settings idle_reaper = minute_settings" "rp_daemon idle_reaper = demo_claimed_daemon"
  "rp_reaped idle_reaper = []"
  by (simp_all add: idle_reaper_def reaper_start_def)

lemma demo_orphans: "orphans two_minutes 60000000000 demo_claimed_daemon [demo_info ''s'' Idle] = [''s'']"
  by (simp add: orphans_def orphaned_def demo_claimed_daemon_def demo_daemon_def daemon_new_def has_active_subscriber_def
      emitter_new_def demo_info_def Session_State.is_busy_def as_millis_def nanos_per_milli_def)

theorem orphans_are_reaped_witness:
  "let r1 = reaper_run ((two_minutes, WakeUp NoFile) # uninterrupted two_minutes [''s''] 11) idle_reaper
   in rp_sweep r1 = Sleeping \<and> rp_reaped r1 = [''s''] \<and> dm_log (rp_daemon r1) = [(None, CallKill ''s'' DaemonReaper)]
      \<and> dm_claims (rp_daemon r1) ''s'' = None"
proof -
  define r1 where "r1 = reaper_run ((two_minutes, WakeUp NoFile) # uninterrupted two_minutes [''s''] 11) idle_reaper"
  have log: "dm_log demo_claimed_daemon = []" by (simp add: demo_claimed_daemon_def demo_daemon_def daemon_new_def)
  have info: "si_session (demo_info ''s'' Idle) = ''s''" by (simp add: demo_info_def)
  show ?thesis
    using orphans_are_reaped [of idle_reaper NoFile minute_settings 60000000000 two_minutes "[demo_info ''s'' Idle]" "[''s'']" 11]
    unfolding r1_def [symmetric] by (simp add: minute_ttl demo_orphans reap_log_def log info Let_def)
qed

text \<open>The same sweep up to its kill.\<close>

definition sweep_begun :: "(backend \<times> action) list" where
  "sweep_begun = (two_minutes, WakeUp NoFile) # uninterrupted two_minutes [''s''] 9"

definition orphan_entry :: reaper_entry where
  "orphan_entry = \<lparr>re_session_id = ''s'', re_last_viewer_activity = 0, re_has_active_subscriber = False,
     re_status = Idle, re_last_output_at = 0\<rparr>"

lemma orphan_expired: "is_expired 60000000000 120000000000 120000 orphan_entry"
  by (simp add: is_expired_def orphan_entry_def since_def is_reap_protected_status_def Session_State.is_busy_def
      as_millis_def nanos_per_milli_def saturating_sub_def)

lemma orphan_selected: "select_expired [orphan_entry] 60000000000 120000000000 120000 = [''s'']"
  by (simp add: select_expired_def orphan_expired) (simp add: orphan_entry_def)

lemma demo_claimed_look:
  "dm_activity demo_claimed_daemon = [''s'' \<mapsto> 0]"
  "\<not> has_active_subscriber ev ''s'' (dm_emitter demo_claimed_daemon)"
  "entry_of two_minutes (demo_info ''s'' Idle) 0 demo_claimed_daemon = orphan_entry"
  by (simp_all add: demo_claimed_daemon_def demo_daemon_def daemon_new_def has_active_subscriber_def emitter_new_def
      entry_of_def demo_info_def orphan_entry_def)

lemma claimed_not_recent: "\<not> recently_active two_minutes 60000000000 ''s'' demo_claimed_daemon"
  by (simp add: recently_active_def demo_claimed_look since_def)

lemma wake_up_idle: "wake_up two_minutes NoFile idle_reaper = idle_reaper\<lparr>rp_sweep := Listed 60000000000 [demo_info ''s'' Idle]\<rparr>"
  by (simp add: wake_up_def minute_ttl idle_reaper_def reaper_start_def)

lemma sweep_begun_run: "reaper_run sweep_begun idle_reaper = idle_reaper\<lparr>rp_sweep := Reaping 60000000000 [''s''] Condemned\<rparr>"
proof -
  have info: "si_session (demo_info ''s'' Idle) = ''s''" by (simp add: demo_info_def)
  have nine: "uninterrupted be ks 9 = (let p = (be, Proceed ks) in [p, p, p, p, p, p, p, p, p])" for be ks
    by (simp add: uninterrupted_def numeral_eq_Suc Let_def)
  show ?thesis
    by (simp add: sweep_begun_def nine wake_up_idle drop_unlisted_def is_listed_def first_seen_def
        demo_claimed_look info orphan_selected Let_def reaping_def calls claimed_not_recent)
qed

theorem reaper_kills_only_abandoned_witness:
  "abandoned ''s'' (moments sweep_begun idle_reaper)"
proof -
  have "rp_reaped (reaper_run (sweep_begun @ [(two_minutes, Proceed [])]) idle_reaper) = [''s'']"
    by (simp add: sweep_begun_run calls)
  then show ?thesis
    using reaper_kills_only_abandoned [of sweep_begun two_minutes "Proceed []" minute_settings demo_claimed_daemon]
    by (simp only: idle_reaper_def [symmetric]) (auto simp: sweep_begun_run)
qed

text \<open>The viewer comes back while the sweep has the session next in its list and has found no subscriber.\<close>

definition back_in_time :: "(backend \<times> action) list" where
  "back_in_time =
     [(demo_backend 120000000001, Arrives (Http (demo_headers ''A'') (ReqStatus ''s''))), (demo_backend 120000000002, Proceed []),
      (demo_backend 120000000003, Proceed [])]"

definition looked_at :: reaper where
  "looked_at = idle_reaper\<lparr>rp_sweep := Reaping 60000000000 [''s''] NoSubscriber,
     rp_daemon := touch_session (demo_backend 120000000000) ''s'' demo_claimed_daemon\<rparr>"

lemma looked_at_in_view: "in_view 120000000000 60000000000 ''s'' looked_at"
  by (simp add: in_view_def looked_at_def touch_session_def demo_backend_def patient_def minute_ttl)

theorem viewed_session_survives_witness:
  "''s'' \<notin> set (rp_reaped (reaper_run back_in_time looked_at))
   \<and> in_view 120000000000 60000000000 ''s'' (reaper_run back_in_time looked_at)"
proof -
  have "list_all (\<lambda>(be, a). 120000000000 \<le> be_now be \<and> be_now be \<le> 120000000000 + 60000000000
      \<and> respects_view 60000000000 ''s'' be a) back_in_time"
    by (simp add: back_in_time_def demo_backend_def)
  moreover have "rp_reaped looked_at = []" by (simp add: looked_at_def)
  ultimately show ?thesis using viewed_session_survives [OF looked_at_in_view] by auto
qed

theorem view_after_check_is_too_late_witness:
  "rp_reaped (reaper_run (sweep_begun
      @ [(two_minutes, Arrives (Http (demo_headers ''A'') (ReqStatus ''s''))), (two_minutes, Proceed [])]) idle_reaper) = [''s'']"
  using view_after_check_is_too_late [of "reaper_run sweep_begun idle_reaper" 60000000000 "''s''" "[]" two_minutes "[]"
      "[(two_minutes, Http (demo_headers ''A'') (ReqStatus ''s''))]"]
  by (simp add: sweep_begun_run del: reaper_exec.simps)

text \<open>A restore beside a sweep over another session.\<close>

definition demo_restored_reaper :: reaper where
  "demo_restored_reaper = reaper_start minute_settings (demo_restored Codex)"

definition restore_beside_sweep :: "(backend \<times> action) list" where
  "restore_beside_sweep =
     [(two_minutes, WakeUp (Stored minute_settings)),
      (demo_backend 5, Arrives (Http (demo_headers ''B'') (ReqCreate (demo_body Codex)))),
      (demo_backend 5, Proceed []),
      (demo_backend 6, Arrives (Http (demo_headers ''B'') (ReqWrite ''n'' ''ls'' None))),
      (demo_backend 6, Proceed []),
      (demo_backend 7, Arrives (Http (demo_headers ''B'') (ReqKill ''s'' None)))]"

theorem restore_creates_once_witness:
  "dm_provenance (rp_daemon (reaper_run restore_beside_sweep demo_restored_reaper)) ''n''
     = Some (birth_certificate (demo_backend 0) (demo_body Codex) (caller_instance (demo_headers ''A'')) ''n'' demo_daemon)
   \<and> no_restore ''e'' (drop (length (dm_log (demo_restored Codex)))
       (dm_log (rp_daemon (reaper_run restore_beside_sweep demo_restored_reaper))))"
proof -
  define r where "r = reaper_run restore_beside_sweep demo_restored_reaper"
  have start: "rp_daemon demo_restored_reaper = demo_restored Codex" by (simp add: demo_restored_reaper_def reaper_start_def)
  have spared: "spared_run ''e'' ''n'' restore_beside_sweep demo_restored_reaper"
  proof -
    have ok: "spares ''e'' ''n'' (demo_backend 5) (Http (demo_headers ''B'') (ReqCreate (demo_body Codex)))"
      "spares ''e'' ''n'' (demo_backend 6) (Http (demo_headers ''B'') (ReqWrite ''n'' ''ls'' None))"
      "spares ''e'' ''n'' (demo_backend 7) (Http (demo_headers ''B'') (ReqKill ''s'' None))"
      by (simp_all add: creates_other_def demo_eval not_exited_def demo_info_def)
    have wake: "rp_sweep (wake_up two_minutes (Stored minute_settings) demo_restored_reaper) = Listed 60000000000 [demo_info ''s'' Idle]"
      by (simp add: wake_up_def demo_restored_reaper_def reaper_start_def minute_merged minute_ttl)
    have awake: "rp_sweep demo_restored_reaper = Sleeping" by (simp add: demo_restored_reaper_def reaper_start_def)
    show ?thesis
      by (simp add: restore_beside_sweep_def ok wake awake del: spares.simps dm_exec.simps)
  qed
  note run = restore_creates_once [OF demo_created demo_body(1) start spared, folded r_def]
  obtain calls where log: "dm_log (rp_daemon r) = dm_log (demo_restored Codex) @ calls"
    and new: "\<forall>c req. (c, CallCreate req) \<in> set calls \<longrightarrow> cr_expected_saved_session_id req \<noteq> Some ''e''"
    using run [THEN conjunct1] by (elim exE conjE)
  have "no_restore ''e'' calls" unfolding no_restore_def list_all_iff using new by blast
  then show ?thesis using log run [THEN conjunct2] unfolding r_def [symmetric] by simp
qed

text \<open>A restore that arrives between the listing and the reading of the map, and its repetition after the
  sweep has dropped the entry.\<close>

definition restore_in_sweep :: "(backend \<times> action) list" where
  "restore_in_sweep =
     [(demo_backend 0, Arrives (Http (demo_headers ''A'') (ReqCreate (demo_body Codex)))),
      (two_minutes, Proceed []), (two_minutes, Proceed [''n'']), (two_minutes, Proceed []),
      (two_minutes, Arrives (Http (demo_headers ''A'') (ReqCreate (demo_body Codex))))]"

definition listed_reaper :: reaper where
  "listed_reaper = (reaper_start minute_settings demo_daemon)\<lparr>rp_sweep := Listed 60000000000 [demo_info ''s'' Idle]\<rparr>"

definition creations_for :: "string \<Rightarrow> daemon \<Rightarrow> nat" where
  "creations_for e d = length (filter (\<lambda>(c, x). case x of CallCreate req \<Rightarrow> cr_expected_saved_session_id req = Some e | _ \<Rightarrow> False) (dm_log d))"

lemma restored_fields:
  "dm_activity (demo_restored Codex) = [''n'' \<mapsto> 0]" "dm_emitter (demo_restored Codex) = emitter_new"
  "dm_token (demo_restored Codex) = ''k''" "dm_replacements (demo_restored Codex) = [''e'' \<mapsto> ''n'']"
  "dm_log (demo_restored Codex) = [(Some ''A'', CallCreate (core_request (demo_backend 0) (demo_body Codex) demo_daemon))]"
  by (simp_all add: demo_restored_def create_session_def reuse_expected_session_def expected_session_def not_exited_def
      launch_session_def register_session_def record_birth_def log_call_def demo_claim_eval)


lemma second_creation:
  assumes "dm_token d = ''k''" and "dm_replacements d ''e'' = None"
  shows "creations_for ''e'' d < creations_for ''e'' (dm_exec (two_minutes, Http (demo_headers ''A'') (ReqCreate (demo_body Codex))) d)"
proof -
  have gone: "be_status two_minutes ''e'' = Inr None" "be_create two_minutes req = CreateOk ''m'' None" for req
    by (simp_all add: two_minutes_def demo_backend_def)
  have "\<exists>calls. dm_log (fst (register_session two_minutes body owner s model req d)) = dm_log d @ calls" for body owner s model req d
    by (simp add: register_session_def record_birth_def touch_session_def try_claim_session_def log_call_def
        remove_session_activity_def forget_session_claim_def Let_def split: option.split prod.split sum.split)
  then obtain calls where calls: "dm_log (fst (register_session two_minutes (demo_body Codex) (Some ''A'') ''m'' None
      (core_request two_minutes (demo_body Codex) d) (log_call (Some ''A'') (CallCreate (core_request two_minutes (demo_body Codex) d)) d)))
    = dm_log (log_call (Some ''A'') (CallCreate (core_request two_minutes (demo_body Codex) d)) d) @ calls" by blast
  have "dm_exec (two_minutes, Http (demo_headers ''A'') (ReqCreate (demo_body Codex))) d
    = fst (register_session two_minutes (demo_body Codex) (Some ''A'') ''m'' None
      (core_request two_minutes (demo_body Codex) d) (log_call (Some ''A'') (CallCreate (core_request two_minutes (demo_body Codex) d)) d))"
    using assms by (simp add: create_session_def authorized_def reuse_expected_session_def expected_session_def gone
        not_exited_def launch_session_def Let_def)
  then show ?thesis using calls by (simp add: creations_for_def log_call_def)
qed

theorem sweep_forgets_new_session_witness:
  "dm_provenance (rp_daemon (reaper_run (take 1 restore_in_sweep) listed_reaper)) ''n'' \<noteq> None
   \<and> dm_provenance (rp_daemon (reaper_run (take 4 restore_in_sweep) listed_reaper)) ''n'' = None
   \<and> 2 \<le> creations_for ''e'' (rp_daemon (reaper_run restore_in_sweep listed_reaper))"
proof -
  define sn where "sn = \<lparr>sn_ttl = 60000000000, sn_sessions = [demo_info ''s'' Idle], sn_now = 120000000000, sn_epoch_millis = 120000,
      sn_activity = [''n'' \<mapsto> 0]\<rparr>"
  define r where "r = listed_reaper\<lparr>rp_daemon := demo_restored Codex\<rparr>"
  define r1 where "r1 = r\<lparr>rp_sweep := Dropping sn [''n'']\<rparr>"
  define r2 where "r2 = reaper_exec (two_minutes, Proceed []) r1"
  have first: "reaper_exec (demo_backend 0, Arrives (Http (demo_headers ''A'') (ReqCreate (demo_body Codex)))) listed_reaper = r"
    by (simp add: r_def listed_reaper_def reaper_start_def demo_restored_def)
  have next_two: "reaper_exec (two_minutes, Proceed [''n'']) (reaper_exec (two_minutes, Proceed []) r) = r1"
    by (simp add: r1_def r_def listed_reaper_def sn_def restored_fields)
  have dropping: "rp_sweep r1 = Dropping sn [''n'']" "\<not> is_listed (sn_sessions sn) ''n''" "sn_activity sn ''n'' \<noteq> None"
    by (simp_all add: r1_def sn_def is_listed_def demo_info_def)
  have lost: "dm_provenance (rp_daemon r2) ''n'' = None" "\<forall>e. dm_replacements (rp_daemon r2) e \<noteq> Some ''n''"
    using sweep_forgets_new_session [OF dropping, of two_minutes "[]"] by (simp_all only: Let_def r2_def) blast
  have born: "dm_provenance (rp_daemon r) ''n'' \<noteq> None"
    using created_tied(1) [OF demo_created demo_body(1)] by (simp add: r_def tied_def)
  have after: "rp_daemon r2 = remove_session_activity two_minutes ''n'' (demo_restored Codex)"
    using dropping by (simp add: r2_def r1_def r_def drop_unlisted_def)
  then have log: "dm_log (rp_daemon r2) = dm_log (demo_restored Codex)" "dm_token (rp_daemon r2) = ''k''"
    "dm_replacements (rp_daemon r2) ''e'' = None"
    using restored_fields by (simp_all add: remove_session_activity_def forget_session_claim_def Let_def)
  have "creations_for ''e'' (rp_daemon r2) = 1" by (simp add: creations_for_def log(1) restored_fields(5))
  then have "2 \<le> creations_for ''e'' (dm_exec (two_minutes, Http (demo_headers ''A'') (ReqCreate (demo_body Codex))) (rp_daemon r2))"
    using second_creation [OF log(2,3)] by simp
  moreover have take: "take 1 restore_in_sweep = [restore_in_sweep ! 0]"
      "take 4 restore_in_sweep = [restore_in_sweep ! 0, restore_in_sweep ! 1, restore_in_sweep ! 2, restore_in_sweep ! 3]"
    by (simp_all add: restore_in_sweep_def numeral_eq_Suc)
  moreover have "reaper_run [restore_in_sweep ! 0] listed_reaper = r"
      "reaper_run [restore_in_sweep ! 0, restore_in_sweep ! 1, restore_in_sweep ! 2, restore_in_sweep ! 3] listed_reaper = r2"
    by (simp_all add: restore_in_sweep_def numeral_eq_Suc first next_two r2_def del: dm_exec.simps reaper_exec.simps)
  moreover have "reaper_run restore_in_sweep listed_reaper
      = reaper_exec (two_minutes, Arrives (Http (demo_headers ''A'') (ReqCreate (demo_body Codex)))) r2"
    by (simp add: restore_in_sweep_def first next_two r2_def del: dm_exec.simps reaper_exec.simps)
  ultimately show ?thesis using born lost(1) by (simp del: dm_exec.simps)
qed

end
