(* ===== verification/Checkpoint_Monitor.thy ===== *)
theory Checkpoint_Monitor
  imports Ws_Emitter Replay_Buffer
begin

text \<open>
  The monitor that asks the windows for a fresh photo of a terminal
  (\<open>cc-panes-daemon/src/checkpoint_monitor.rs\<close>). Every 30 seconds it scans the replay buffers of the
  sessions; a session whose output has grown by more than 4 MiB since its photo is announced on the
  control channels, at most once in 60 seconds. A scan is a function of the sessions with their
  buffers, in the order of the hash map, and of the clock.
\<close>

definition SCAN_INTERVAL :: duration where "SCAN_INTERVAL = from_secs 30"
definition CHECKPOINT_DELTA_THRESHOLD_BYTES :: nat where "CHECKPOINT_DELTA_THRESHOLD_BYTES = 4 * 1024 * 1024"
definition PER_SESSION_THROTTLE :: duration where "PER_SESSION_THROTTLE = from_secs 60"

text \<open>A buffer whose lock is poisoned is \<open>None\<close>.\<close>

definition sessions_needing_checkpoint :: "nat \<Rightarrow> (string \<times> replay option) list \<Rightarrow> string list" where
  "sessions_needing_checkpoint threshold sessions =
     map fst (filter (\<lambda>(sid, replay). case replay of Some r \<Rightarrow> needs_checkpoint threshold r | None \<Rightarrow> False) sessions)"

type_synonym request_times = "string \<Rightarrow> instant option"

definition retain_requests :: "string list \<Rightarrow> instant \<Rightarrow> duration \<Rightarrow> request_times \<Rightarrow> request_times" where
  "retain_requests candidates now throttle m =
     (\<lambda>sid. case m sid of
        Some at \<Rightarrow> if sid \<in> set candidates \<or> since now at < throttle then Some at else None
      | None \<Rightarrow> None)"

definition recently_asked :: "instant \<Rightarrow> duration \<Rightarrow> request_times \<Rightarrow> string \<Rightarrow> bool" where
  "recently_asked now throttle m sid = (case m sid of Some at \<Rightarrow> since now at < throttle | None \<Rightarrow> False)"

fun filter_throttled :: "instant \<Rightarrow> duration \<Rightarrow> string list \<Rightarrow> request_times \<Rightarrow> request_times \<times> string list" where
  "filter_throttled now throttle [] m = (m, [])"
| "filter_throttled now throttle (sid # sids) m =
     (if recently_asked now throttle m sid then filter_throttled now throttle sids m
      else (case filter_throttled now throttle sids (m(sid \<mapsto> now)) of (m1, passed) \<Rightarrow> (m1, sid # passed)))"

definition select_throttled ::
  "string list \<Rightarrow> request_times \<Rightarrow> instant \<Rightarrow> duration \<Rightarrow> request_times \<times> string list" where
  "select_throttled candidates m now throttle =
     filter_throttled now throttle candidates (retain_requests candidates now throttle m)"

text \<open>The thread: its table, the emitter it shares with the daemon, and the requests it has sent.\<close>

record monitor =
  mo_last_requested :: request_times
  mo_emitter :: emitter
  mo_asked :: "(instant \<times> string) list"

definition monitor_start :: "emitter \<Rightarrow> monitor" where
  "monitor_start em = \<lparr>mo_last_requested = Map.empty, mo_emitter = em, mo_asked = []\<rparr>"

record scan =
  sc_now :: instant
  sc_sessions :: "(string \<times> replay option) list"
  sc_channels :: Ws_Emitter.env

definition monitor_scan :: "scan \<Rightarrow> monitor \<Rightarrow> monitor" where
  "monitor_scan sc mo =
     (let candidates = sessions_needing_checkpoint CHECKPOINT_DELTA_THRESHOLD_BYTES (sc_sessions sc)
      in if candidates = [] then mo
         else (case select_throttled candidates (mo_last_requested mo) (sc_now sc) PER_SESSION_THROTTLE of
                 (m, sids) \<Rightarrow> mo\<lparr>mo_last_requested := m,
                    mo_emitter := fold (publish_checkpoint_request (sc_channels sc)) sids (mo_emitter mo),
                    mo_asked := mo_asked mo @ map (Pair (sc_now sc)) sids\<rparr>))"

text \<open>Between two scans the daemon works on the emitter.\<close>

datatype monitor_event = Scan scan | Emitter "emitter \<Rightarrow> emitter"

fun monitor_exec :: "monitor_event \<Rightarrow> monitor \<Rightarrow> monitor" where
  "monitor_exec (Scan sc) mo = monitor_scan sc mo"
| "monitor_exec (Emitter f) mo = mo\<lparr>mo_emitter := f (mo_emitter mo)\<rparr>"

definition monitor_run :: "monitor_event list \<Rightarrow> monitor \<Rightarrow> monitor" where
  "monitor_run evs mo = fold monitor_exec evs mo"

subsection \<open>What a scan asks\<close>

lemma candidates_set:
  "set (sessions_needing_checkpoint threshold sessions)
     = {sid. \<exists>r. (sid, Some r) \<in> set sessions \<and> needs_checkpoint threshold r}"
  by (force simp: sessions_needing_checkpoint_def image_iff split: option.splits)

lemma filter_throttled_ends:
  assumes "filter_throttled now throttle sids m = (m1, passed)" and "0 < throttle"
  shows "set passed = {sid \<in> set sids. \<not> recently_asked now throttle m sid} \<and> distinct passed
    \<and> (\<forall>sid. m1 sid = (if sid \<in> set passed then Some now else m sid))"
  using assms
proof (induction sids arbitrary: m m1 passed)
  case (Cons sid sids)
  show ?case
  proof (cases "recently_asked now throttle m sid")
    case True
    then show ?thesis using Cons.IH [of m m1 passed] Cons.prems by auto
  next
    case False
    obtain m2 rest where rec: "filter_throttled now throttle sids (m(sid \<mapsto> now)) = (m2, rest)" by fastforce
    have again: "recently_asked now throttle (m(sid \<mapsto> now)) s = (s = sid \<or> recently_asked now throttle m s)" for s
      using Cons.prems(2) by (simp add: recently_asked_def since_def)
    have "m1 = m2" "passed = sid # rest" using Cons.prems(1) rec False by simp_all
    then show ?thesis using Cons.IH [OF rec Cons.prems(2)] False unfolding again by auto
  qed
qed simp

lemma retained_recent [simp]:
  "recently_asked now throttle (retain_requests sids now throttle m) sid = recently_asked now throttle m sid"
  by (simp add: recently_asked_def retain_requests_def split: option.split)

lemma throttle_positive [simp]: "0 < PER_SESSION_THROTTLE"
  by (simp add: PER_SESSION_THROTTLE_def from_secs_def nanos_per_sec_def)

text \<open>A scan asks for exactly the photos that are due. It announces, each once, the sessions that have
  a photo of their present epoch which is still inside the replay window and whose output has grown
  by more than 4 MiB since, except those announced less than 60 seconds ago; a session without a
  valid photo is never announced.\<close>

theorem scan_asks_what_is_due:
  "\<exists>sids. mo_asked (monitor_scan sc mo) = mo_asked mo @ map (Pair (sc_now sc)) sids \<and> distinct sids
     \<and> mo_emitter (monitor_scan sc mo) = fold (publish_checkpoint_request (sc_channels sc)) sids (mo_emitter mo)
     \<and> set sids = {sid. \<not> recently_asked (sc_now sc) PER_SESSION_THROTTLE (mo_last_requested mo) sid
          \<and> (\<exists>r cp. (sid, Some r) \<in> set (sc_sessions sc) \<and> valid_checkpoint r = Some cp
               \<and> CHECKPOINT_DELTA_THRESHOLD_BYTES < rb_pushed r - cp_anchor cp)}"
proof -
  let ?c = "sessions_needing_checkpoint CHECKPOINT_DELTA_THRESHOLD_BYTES (sc_sessions sc)"
  obtain m sids where sel: "select_throttled ?c (mo_last_requested mo) (sc_now sc) PER_SESSION_THROTTLE = (m, sids)" by fastforce
  have ends: "set sids = {sid \<in> set ?c. \<not> recently_asked (sc_now sc) PER_SESSION_THROTTLE (mo_last_requested mo) sid}" "distinct sids"
    using filter_throttled_ends [OF sel [unfolded select_throttled_def] throttle_positive] by simp_all
  have due: "set ?c = {sid. \<exists>r cp. (sid, Some r) \<in> set (sc_sessions sc) \<and> valid_checkpoint r = Some cp
      \<and> CHECKPOINT_DELTA_THRESHOLD_BYTES < rb_pushed r - cp_anchor cp}"
    unfolding candidates_set needs_checkpoint_def by (auto split: option.splits)
  have scan: "mo_asked (monitor_scan sc mo) = mo_asked mo @ map (Pair (sc_now sc)) sids"
    "mo_emitter (monitor_scan sc mo) = fold (publish_checkpoint_request (sc_channels sc)) sids (mo_emitter mo)"
    using sel ends(1) by (auto simp: monitor_scan_def Let_def)
  show ?thesis
    by (intro exI [of _ sids] conjI scan ends(2)) (simp add: ends(1) due, blast)
qed

subsection \<open>The distance between two requests\<close>

definition spaced :: "(instant \<times> string) list \<Rightarrow> bool" where
  "spaced asked = sorted_wrt (\<lambda>(t, sid) (t1, sid1). sid = sid1 \<longrightarrow> t + PER_SESSION_THROTTLE \<le> t1) asked"

text \<open>Whatever the table has forgotten is old enough at the time \<open>now\<close> of the last scan.\<close>

definition monitor_inv :: "instant \<Rightarrow> monitor \<Rightarrow> bool" where
  "monitor_inv now mo =
     (spaced (mo_asked mo)
      \<and> (\<forall>(t, sid) \<in> set (mo_asked mo). case mo_last_requested mo sid of
            Some at \<Rightarrow> t \<le> at | None \<Rightarrow> t + PER_SESSION_THROTTLE \<le> now))"

lemma spaced_append_same_time:
  assumes "spaced asked" and "distinct sids"
    and "\<And>t sid. (t, sid) \<in> set asked \<Longrightarrow> sid \<in> set sids \<Longrightarrow> t + PER_SESSION_THROTTLE \<le> now"
  shows "spaced (asked @ map (Pair now) sids)"
proof -
  have "sorted_wrt (\<lambda>(t, sid) (t1, sid1). sid = sid1 \<longrightarrow> t + PER_SESSION_THROTTLE \<le> t1) (map (Pair now) sids)"
    using assms(2) by (induction sids) auto
  then show ?thesis using assms(1,3) by (auto simp: spaced_def sorted_wrt_append)
qed

lemma add_gap: "t \<le> at \<Longrightarrow> PER_SESSION_THROTTLE \<le> now - at \<Longrightarrow> t + PER_SESSION_THROTTLE \<le> now"
  using throttle_positive by linarith

lemma scan_inv:
  assumes inv: "monitor_inv now mo" and later: "now \<le> sc_now sc"
  shows "monitor_inv (sc_now sc) (monitor_scan sc mo)"
proof -
  let ?c = "sessions_needing_checkpoint CHECKPOINT_DELTA_THRESHOLD_BYTES (sc_sessions sc)" and ?T = PER_SESSION_THROTTLE
  obtain m sids where sel: "select_throttled ?c (mo_last_requested mo) (sc_now sc) ?T = (m, sids)" by fastforce
  note ends = filter_throttled_ends [OF sel [unfolded select_throttled_def] throttle_positive]
  have old: "case mo_last_requested mo sid of Some at \<Rightarrow> t \<le> at | None \<Rightarrow> t + ?T \<le> sc_now sc"
    if "(t, sid) \<in> set (mo_asked mo)" for t sid
    using inv later that by (fastforce simp: monitor_inv_def split: option.splits)
  have gap: "t + ?T \<le> sc_now sc" if "(t, sid) \<in> set (mo_asked mo)" "\<not> recently_asked (sc_now sc) ?T (mo_last_requested mo) sid" for t sid
    using old [OF that(1)] that(2) throttle_positive by (cases "mo_last_requested mo sid") (auto simp: recently_asked_def since_def not_less intro: add_gap)
  have kept: "case m sid of Some at \<Rightarrow> t \<le> at | None \<Rightarrow> t + ?T \<le> sc_now sc" if "(t, sid) \<in> set (mo_asked mo)" for t sid
  proof (cases "sid \<in> set sids")
    case True
    then show ?thesis using ends gap [OF that] by auto
  next
    case False
    then have "m sid = retain_requests ?c (sc_now sc) ?T (mo_last_requested mo) sid" using ends by (simp only: if_False)
    then show ?thesis
      using old [OF that] gap [OF that] by (auto simp: retain_requests_def recently_asked_def split: option.splits if_splits)
  qed
  show ?thesis
  proof (cases "?c = []")
    case True
    then show ?thesis using inv old by (auto simp: monitor_scan_def monitor_inv_def)
  next
    case False
    have "spaced (mo_asked mo @ map (Pair (sc_now sc)) sids)"
      using inv ends gap by (intro spaced_append_same_time) (auto simp: monitor_inv_def)
    moreover have "mo_asked (monitor_scan sc mo) = mo_asked mo @ map (Pair (sc_now sc)) sids" "mo_last_requested (monitor_scan sc mo) = m"
      using False sel by (simp_all add: monitor_scan_def Let_def)
    moreover have "m sid = Some (sc_now sc)" if "sid \<in> set sids" for sid using ends that by simp
    ultimately show ?thesis using kept by (force simp: monitor_inv_def)
  qed
qed

fun scans_forward :: "instant \<Rightarrow> monitor_event list \<Rightarrow> bool" where
  "scans_forward now [] = True"
| "scans_forward now (Scan sc # evs) = (now \<le> sc_now sc \<and> scans_forward (sc_now sc) evs)"
| "scans_forward now (Emitter f # evs) = scans_forward now evs"

lemma run_inv: "monitor_inv now mo \<Longrightarrow> scans_forward now evs \<Longrightarrow> spaced (mo_asked (monitor_run evs mo))"
proof (induction now evs arbitrary: mo rule: scans_forward.induct)
  case (2 now sc evs)
  then show ?case using scan_inv [of now mo sc] by (simp add: monitor_run_def)
next
  case (3 now f evs)
  then show ?case by (simp add: monitor_run_def monitor_inv_def)
qed (simp add: monitor_run_def monitor_inv_def)

text \<open>C34: Two requests for the photo of one session are at least 60 seconds apart, over every run of
  scans at times that do not go back, with any sessions, buffers and work on the emitter in between;
  dropping old entries from the table loses nothing.\<close>

theorem checkpoint_requests_spaced:
  assumes "scans_forward 0 evs"
  shows "sorted_wrt (\<lambda>(t, sid) (t1, sid1). sid = sid1 \<longrightarrow> t + PER_SESSION_THROTTLE \<le> t1)
    (mo_asked (monitor_run evs (monitor_start em)))"
proof -
  have "spaced (mo_asked (monitor_run evs (monitor_start em)))"
    by (rule run_inv [OF _ assms]) (simp add: monitor_start_def monitor_inv_def spaced_def)
  then show ?thesis by (simp only: spaced_def)
qed

definition grown_replay :: replay where
  "grown_replay = (replay_new 1 8388608)\<lparr>rb_pushed := 5000000,
     rb_photo := Some \<lparr>cp_epoch = 1, cp_anchor = 0, cp_snapshot = [], cp_mode = Normal, cp_cols = 80, cp_rows = 24, cp_at_ms = 0\<rparr>\<rparr>"

definition grown_scan :: "nat \<Rightarrow> monitor_event" where
  "grown_scan n = Scan \<lparr>sc_now = from_secs n, sc_sessions = [(''a'', Some grown_replay), (''b'', None)], sc_channels = open_env\<rparr>"

lemma grown_scans: "scans_forward 0 [grown_scan 30, grown_scan 60, grown_scan 90]"
  by (simp add: grown_scan_def from_secs_def)

theorem checkpoint_requests_spaced_witness:
  "spaced (mo_asked (monitor_run [grown_scan 30, grown_scan 60, grown_scan 90] (monitor_start emitter_new)))"
  unfolding spaced_def by (rule checkpoint_requests_spaced [OF grown_scans])

lemma grown_requests:
  "mo_asked (monitor_run [grown_scan 30, grown_scan 60, grown_scan 90] (monitor_start emitter_new)) = [(from_secs 30, ''a''), (from_secs 90, ''a'')]"
proof -
  have "needs_checkpoint 4194304 grown_replay"
    by (simp add: needs_checkpoint_def valid_checkpoint_def grown_replay_def replay_new_def)
  then show ?thesis
    by (simp add: monitor_run_def monitor_start_def grown_scan_def monitor_scan_def sessions_needing_checkpoint_def
        CHECKPOINT_DELTA_THRESHOLD_BYTES_def select_throttled_def retain_requests_def recently_asked_def since_def
        PER_SESSION_THROTTLE_def from_secs_def nanos_per_sec_def Let_def)
qed

end
