(* ===== verification/Pipe_Events.thy ===== *)
theory Pipe_Events
  imports Session_State
begin

text \<open>
  What the two message queues of the orchestrator share: task bindings
  (\<open>cc-panes-core/src/models/task_binding.rs\<close>), the pipe events that report the fate of a message
  (\<open>cc-panes-core/src/services/pipe_event_service.rs\<close>) and the decision a change of the recipient's
  state asks for (\<open>src-tauri/src/services/orchestrator_service.rs\<close>). A leader session plans, its
  worker sessions implement; directives go down, reports go up, and both are typed into terminals.
\<close>

subsection \<open>Task bindings\<close>

datatype binding_status = BindPending | BindRunning | BindWaiting | BindCompleted | BindFailed

fun binding_status_str :: "binding_status \<Rightarrow> string" where
  "binding_status_str BindPending = ''pending''"
| "binding_status_str BindRunning = ''running''"
| "binding_status_str BindWaiting = ''waiting''"
| "binding_status_str BindCompleted = ''completed''"
| "binding_status_str BindFailed = ''failed''"

definition binding_status_of_str :: "string \<Rightarrow> string + binding_status" where
  "binding_status_of_str s =
     (if s = ''pending'' then Inr BindPending
      else if s = ''running'' then Inr BindRunning
      else if s = ''waiting'' then Inr BindWaiting
      else if s = ''completed'' then Inr BindCompleted
      else if s = ''failed'' then Inr BindFailed
      else Inl (''Invalid TaskBindingStatus: '' @ s))"

datatype binding_role = RoleTask | RoleLeader | RoleWorker

text \<open>The fields that the messages read; the metadata is an arbitrary JSON value.\<close>

record task_binding =
  tb_id :: string
  tb_role :: binding_role
  tb_parent :: "string option"
  tb_session :: "string option"
  tb_project_path :: bytes
  tb_workspace_name :: "string option"
  tb_status :: binding_status
  tb_summary :: "bytes option"
  tb_metadata :: "json option"

subsection \<open>Pipe events\<close>

datatype pipe_kind = KindDispatch | KindMessage | KindReport

datatype pipe_phase = PhaseQueued | PhaseFlowing | PhaseDelivered | PhaseFailed

record pipe_event_spec =
  pe_correlation :: string
  pe_attempt :: "32 word"
  pe_workspace :: string
  pe_kind :: pipe_kind
  pe_phase :: pipe_phase
  pe_from_binding :: "string option"
  pe_to_binding :: "string option"
  pe_from_session :: "string option"
  pe_to_session :: "string option"
  pe_summary :: string
  pe_reason :: "string option"

definition pipe_workspace_id :: "string option \<Rightarrow> string option \<Rightarrow> string" where
  "pipe_workspace_id workspace_name project_path =
     (case workspace_name of
        Some v \<Rightarrow> if trim v \<noteq> [] then v else (case project_path of Some p \<Rightarrow> p | None \<Rightarrow> ''unknown'')
      | None \<Rightarrow> (case project_path of Some p \<Rightarrow> p | None \<Rightarrow> ''unknown''))"

text \<open>\<open>u32::saturating_add(1)\<close>\<close>

definition next_attempt :: "32 word \<Rightarrow> 32 word" where
  "next_attempt n = (if n = - 1 then n else n + 1)"

subsection \<open>What a state of the recipient asks for\<close>

datatype flush_action = FlushPending | ClearPending | KeepPending

fun pending_flush_action :: "session_status \<Rightarrow> flush_action" where
  "pending_flush_action Idle = FlushPending"
| "pending_flush_action WaitingInput = FlushPending"
| "pending_flush_action Exited = ClearPending"
| "pending_flush_action session_status.Error = ClearPending"
| "pending_flush_action Initializing = KeepPending"
| "pending_flush_action Thinking = KeepPending"
| "pending_flush_action ToolRunning = KeepPending"
| "pending_flush_action Compacting = KeepPending"
| "pending_flush_action Active = KeepPending"

definition pending_level_action :: "session_status option \<Rightarrow> flush_action" where
  "pending_level_action st = (case st of Some s \<Rightarrow> pending_flush_action s | None \<Rightarrow> ClearPending)"

definition ready_status :: "session_status \<Rightarrow> bool" where
  "ready_status s = (s = Idle \<or> s = WaitingInput)"

text \<open>The backend's view of a session: its state and when it last wrote.\<close>

type_synonym backend_sessions = "string \<Rightarrow> string + (session_status \<times> 64 word) option"

text \<open>The queue of a recipient in a \<open>HashMap\<close> of vectors.\<close>

definition waiting_of :: "(string \<Rightarrow> 'a list option) \<Rightarrow> string \<Rightarrow> 'a list" where
  "waiting_of m k = (case m k of Some q \<Rightarrow> q | None \<Rightarrow> [])"

lemma waiting_of_simps [simp]: "waiting_of (m(k := v)) j = (if j = k then (case v of Some q \<Rightarrow> q | None \<Rightarrow> []) else waiting_of m j)"
  by (simp add: waiting_of_def)

lemma binding_status_roundtrip: "binding_status_of_str (binding_status_str s) = Inr s"
  by (cases s) (simp_all add: binding_status_of_str_def)

lemma ready_flushes: "pending_flush_action s = FlushPending \<longleftrightarrow> ready_status s"
  by (cases s) (simp_all add: ready_status_def)

end
