(* ===== verification/Worker_Reports.thy ===== *)
theory Worker_Reports
  imports Pipe_Events "HOL-Library.Multiset"
begin

text \<open>
  Worker reports (\<open>src-tauri/src/services/orchestrator_service.rs\<close>, from \<open>LeaderReportResult\<close> on): a
  worker that has finished reports to its leader by a line typed into the leader's terminal. While
  the leader is busy the report waits in a queue per leader session, and a change of the leader's
  state, a look after enqueueing, or a scan every minute delivers it.

  The work is asynchronous: a task is the list of pieces it has still to run, cut at each
  \<open>await\<close> and at each lock, and the pieces of different tasks interleave in any order. A piece reads the
  clock once. \<open>PipeEventService\<close>, the database of bindings, the terminal backend and the instances of
  \<open>dsh\<close> are answered by the record \<open>report_env\<close>, a new one for every piece.
\<close>

subsection \<open>The queue\<close>

definition PENDING_REPORT_TTL_SECS :: nat where "PENDING_REPORT_TTL_SECS = 30 * 60"
definition PENDING_REPORT_MAX_PER_LEADER :: nat where "PENDING_REPORT_MAX_PER_LEADER = 32"

record pending_worker_report =
  pr_worker :: task_binding
  pr_correlation :: string
  pr_workspace :: string
  pr_attempt :: "32 word"
  pr_queued_at :: instant

type_synonym pending_report_map = "string \<Rightarrow> pending_worker_report list option"

record dropped_pending_report =
  dp_report :: pending_worker_report
  dp_leader_session :: string
  dp_reason :: string
  dp_age_secs :: nat

record enqueue_result =
  er_queue_len :: nat
  er_accepted :: bool
  er_dropped :: "dropped_pending_report list"

record report_batch =
  rb_reports :: "pending_worker_report list"
  rb_dropped :: "dropped_pending_report list"

definition pending_report_expired :: "pending_worker_report \<Rightarrow> instant \<Rightarrow> bool" where
  "pending_report_expired r now = (PENDING_REPORT_TTL_SECS < as_secs (since now (pr_queued_at r)))"

definition drop_pending_report ::
  "pending_worker_report \<Rightarrow> string \<Rightarrow> string \<Rightarrow> instant \<Rightarrow> dropped_pending_report" where
  "drop_pending_report r leader reason now =
     \<lparr>dp_report = r, dp_leader_session = leader, dp_reason = reason, dp_age_secs = as_secs (since now (pr_queued_at r))\<rparr>"

definition report_correlation_id :: "task_binding \<Rightarrow> string" where
  "report_correlation_id worker =
     (case Option.bind (Option.bind (tb_metadata worker) (json_get ''dispatchEnvelope'')) (get_str ''taskId'') of
        Some t \<Rightarrow> t
      | None \<Rightarrow> ''report:'' @ tb_id worker)"

text \<open>Why \<open>retain\<close> removes a queued report when another one of \<open>worker\<close> comes in.\<close>

definition retain_reason :: "task_binding \<Rightarrow> instant \<Rightarrow> instant \<Rightarrow> pending_worker_report \<Rightarrow> string option" where
  "retain_reason worker now queued_at r =
     (if pending_report_expired r now then Some ''expired''
      else if tb_id (pr_worker r) = tb_id worker
      then (if queued_at < pr_queued_at r then None else Some ''superseded'')
      else None)"

definition newer_queued :: "task_binding \<Rightarrow> instant \<Rightarrow> pending_worker_report list \<Rightarrow> bool" where
  "newer_queued worker queued_at queue =
     list_ex (\<lambda>r. tb_id (pr_worker r) = tb_id worker \<and> queued_at < pr_queued_at r) queue"

definition new_pending_report :: "task_binding \<Rightarrow> 32 word \<Rightarrow> instant \<Rightarrow> pending_worker_report" where
  "new_pending_report worker attempt queued_at =
     \<lparr>pr_worker = worker, pr_correlation = report_correlation_id worker,
      pr_workspace = pipe_workspace_id (tb_workspace_name worker) (Some (tb_project_path worker)),
      pr_attempt = attempt, pr_queued_at = queued_at\<rparr>"

definition enqueue_pending_report_with_queued_at ::
  "string \<Rightarrow> task_binding \<Rightarrow> 32 word \<Rightarrow> instant \<Rightarrow> instant \<Rightarrow> pending_report_map \<Rightarrow> pending_report_map \<times> enqueue_result" where
  "enqueue_pending_report_with_queued_at leader worker attempt now queued_at m =
     (let reason = retain_reason worker now queued_at;
          dropped = List.map_filter (\<lambda>r. map_option (\<lambda>why. drop_pending_report r leader why now) (reason r)) (waiting_of m leader);
          queue = filter (\<lambda>r. reason r = None) (waiting_of m leader)
      in if newer_queued worker queued_at queue
         then (m(leader \<mapsto> queue), \<lparr>er_queue_len = length queue, er_accepted = False, er_dropped = dropped\<rparr>)
         else (let queue = queue @ [new_pending_report worker attempt queued_at]
               in if PENDING_REPORT_MAX_PER_LEADER < length queue
                  then (m(leader \<mapsto> tl queue), \<lparr>er_queue_len = length (tl queue), er_accepted = True,
                        er_dropped = dropped @ [drop_pending_report (hd queue) leader ''queue-overflow'' now]\<rparr>)
                  else (m(leader \<mapsto> queue), \<lparr>er_queue_len = length queue, er_accepted = True, er_dropped = dropped\<rparr>)))"

definition enqueue_pending_report_at_attempt ::
  "string \<Rightarrow> task_binding \<Rightarrow> 32 word \<Rightarrow> instant \<Rightarrow> pending_report_map \<Rightarrow> pending_report_map \<times> enqueue_result" where
  "enqueue_pending_report_at_attempt leader worker attempt now m =
     enqueue_pending_report_with_queued_at leader worker attempt now now m"

definition take_pending_reports :: "string \<Rightarrow> instant \<Rightarrow> pending_report_map \<Rightarrow> pending_report_map \<times> report_batch" where
  "take_pending_reports leader now m =
     (m(leader := None),
      \<lparr>rb_reports = filter (\<lambda>r. \<not> pending_report_expired r now) (waiting_of m leader),
       rb_dropped = map (\<lambda>r. drop_pending_report r leader ''expired'' now)
         (filter (\<lambda>r. pending_report_expired r now) (waiting_of m leader))\<rparr>)"

definition clear_pending_reports :: "string \<Rightarrow> pending_report_map \<Rightarrow> pending_report_map \<times> pending_worker_report list" where
  "clear_pending_reports leader m = (m(leader := None), waiting_of m leader)"

subsection \<open>The line that is typed\<close>

definition sanitize_pty_line :: "bytes \<Rightarrow> nat \<Rightarrow> bytes" where
  "sanitize_pty_line input max_len =
     take_chars max_len
       (filter (\<lambda>c. c = CHR 0x09 \<or> 32 \<le> byte c)
         (concat (map (\<lambda>c. if c = CHR 0x0D \<or> c = CHR 0x0A then '' | '' else [c]) input)))"

definition report_line :: "task_binding \<Rightarrow> bytes" where
  "report_line worker =
     ''[worker-report] id='' @ tb_id worker @ '' status='' @ binding_status_str (tb_status worker) @ '' summary='' @
     (case tb_summary worker of
        Some s \<Rightarrow> if trim s \<noteq> [] then sanitize_pty_line s 500 else ''(no summary)''
      | None \<Rightarrow> ''(no summary)'')"

subsection \<open>State and environment\<close>

datatype leader_report_result =
    ReportSent
  | ReportSkipped string
  | ReportQueued string

text \<open>The pieces of work of the tasks.\<close>

datatype work =
    TakeQueue string
  | SendReport task_binding "32 word" "instant option"
  | SubmitLine task_binding task_binding string "32 word"
  | PromptDsh task_binding task_binding string nat string "32 word"
  | Recheck string task_binding string
  | ScanLeader string

record report_state =
  rs_pending :: pending_report_map
  rs_failed :: "(string \<times> 32 word) set"
  rs_events :: "pipe_event_spec list"
  rs_typed :: "(string \<times> bytes) list"
  rs_marked :: "string list"
  rs_results :: "(string \<times> leader_report_result) list"
  rs_tasks :: "work list list"

record report_env =
  re_now :: instant
  re_epoch :: "64 word"
  re_entries :: entries
  re_backend :: backend_sessions
  re_binding :: "string \<Rightarrow> string + task_binding option"
  re_submit :: "string \<Rightarrow> bytes \<Rightarrow> string option"
  re_dsh :: "(string \<times> nat) list"
  re_prompt :: "nat \<Rightarrow> string \<Rightarrow> bytes \<Rightarrow> string option"
  re_patch_fails :: "string \<Rightarrow> bool"

definition report_state_new :: report_state where
  "report_state_new = \<lparr>rs_pending = Map.empty, rs_failed = {}, rs_events = [], rs_typed = [], rs_marked = [],
     rs_results = [], rs_tasks = []\<rparr>"

definition read_session_status_for_automatic_submit :: "report_env \<Rightarrow> string \<Rightarrow> string + session_status option" where
  "read_session_status_for_automatic_submit e sid =
     (case re_backend e sid of
        Inl err \<Rightarrow> Inl err
      | Inr None \<Rightarrow> Inr None
      | Inr (Some (st, at)) \<Rightarrow> Inr (Some (status_for_automatic_submit (re_now e) (re_epoch e) sid st at (re_entries e))))"

subsection \<open>Events and marks\<close>

definition emit_pipe_event_once :: "pipe_event_spec \<Rightarrow> report_state \<Rightarrow> report_state" where
  "emit_pipe_event_once spec s =
     (if pe_phase spec = PhaseFailed \<and> (pe_correlation spec, pe_attempt spec) \<in> rs_failed s then s
      else s\<lparr>rs_failed := (if pe_phase spec = PhaseFailed
                            then insert (pe_correlation spec, pe_attempt spec) (rs_failed s) else rs_failed s),
             rs_events := rs_events s @ [spec]\<rparr>)"

definition report_event_spec ::
  "task_binding \<Rightarrow> task_binding option \<Rightarrow> string option \<Rightarrow> 32 word \<Rightarrow> pipe_phase \<Rightarrow> string \<Rightarrow> string option \<Rightarrow> pipe_event_spec" where
  "report_event_spec worker leader leader_session attempt phase summary reason =
     \<lparr>pe_correlation = report_correlation_id worker, pe_attempt = attempt,
      pe_workspace = pipe_workspace_id (tb_workspace_name worker) (Some (tb_project_path worker)),
      pe_kind = KindReport, pe_phase = phase, pe_from_binding = Some (tb_id worker),
      pe_to_binding = map_option tb_id leader, pe_from_session = tb_session worker, pe_to_session = leader_session,
      pe_summary = summary, pe_reason = reason\<rparr>"

definition emit_report_pipe_event ::
  "task_binding \<Rightarrow> task_binding option \<Rightarrow> string option \<Rightarrow> 32 word \<Rightarrow> pipe_phase \<Rightarrow> string \<Rightarrow> string option \<Rightarrow>
   report_state \<Rightarrow> report_state" where
  "emit_report_pipe_event worker leader leader_session attempt phase summary reason =
     emit_pipe_event_once (report_event_spec worker leader leader_session attempt phase summary reason)"

definition is_delivery_failure_reason :: "string \<Rightarrow> bool" where
  "is_delivery_failure_reason reason = (reason \<noteq> ''superseded'')"

text \<open>The patch \<open>reportDropped\<close> of a worker's metadata; a database error is only logged.\<close>

definition mark_report_dropped :: "report_env \<Rightarrow> string \<Rightarrow> report_state \<Rightarrow> report_state" where
  "mark_report_dropped e worker_id s =
     (if re_patch_fails e worker_id then s else s\<lparr>rs_marked := rs_marked s @ [worker_id]\<rparr>)"

definition record_dropped_pending_reports :: "report_env \<Rightarrow> dropped_pending_report list \<Rightarrow> report_state \<Rightarrow> report_state" where
  "record_dropped_pending_reports e dropped s =
     fold (\<lambda>d. if is_delivery_failure_reason (dp_reason d)
               then mark_report_dropped e (tb_id (pr_worker (dp_report d))) else id) dropped s"

definition dropped_event_spec :: "dropped_pending_report \<Rightarrow> pipe_event_spec" where
  "dropped_event_spec d =
     (let r = dp_report d
      in \<lparr>pe_correlation = pr_correlation r, pe_attempt = pr_attempt r, pe_workspace = pr_workspace r,
          pe_kind = KindReport, pe_phase = PhaseFailed, pe_from_binding = Some (tb_id (pr_worker r)),
          pe_to_binding = tb_parent (pr_worker r), pe_from_session = tb_session (pr_worker r),
          pe_to_session = Some (dp_leader_session d), pe_summary = ''worker report delivery failed'',
          pe_reason = Some (dp_reason d)\<rparr>)"

definition emit_dropped_pending_report_events :: "dropped_pending_report list \<Rightarrow> report_state \<Rightarrow> report_state" where
  "emit_dropped_pending_report_events dropped s =
     fold (\<lambda>d. if is_delivery_failure_reason (dp_reason d) then emit_pipe_event_once (dropped_event_spec d) else id) dropped s"

definition report_drops :: "report_env \<Rightarrow> dropped_pending_report list \<Rightarrow> report_state \<Rightarrow> report_state" where
  "report_drops e dropped s = emit_dropped_pending_report_events dropped (record_dropped_pending_reports e dropped s)"

definition clear_pending_reports_and_emit :: "report_env \<Rightarrow> string \<Rightarrow> string \<Rightarrow> report_state \<Rightarrow> report_state" where
  "clear_pending_reports_and_emit e leader reason s =
     (let (m, reports) = clear_pending_reports leader (rs_pending s);
          dropped = map (\<lambda>r. drop_pending_report r leader reason (re_now e)) reports
      in report_drops e dropped (s\<lparr>rs_pending := m\<rparr>))"

definition conclude :: "task_binding \<Rightarrow> leader_report_result \<Rightarrow> report_state \<Rightarrow> report_state" where
  "conclude worker result s = s\<lparr>rs_results := rs_results s @ [(tb_id worker, result)]\<rparr>"

text \<open>A report that cannot be delivered: an event with the reason, and the answer.\<close>

definition skip_report ::
  "task_binding \<Rightarrow> task_binding option \<Rightarrow> string option \<Rightarrow> 32 word \<Rightarrow> string \<Rightarrow> report_state \<Rightarrow> report_state" where
  "skip_report worker leader leader_session attempt reason s =
     conclude worker (ReportSkipped reason)
       (emit_report_pipe_event worker leader leader_session attempt PhaseFailed
          ''worker report delivery failed'' (Some reason) s)"


subsection \<open>Sending\<close>

definition enqueue_and_recheck ::
  "report_env \<Rightarrow> task_binding \<Rightarrow> string \<Rightarrow> task_binding \<Rightarrow> 32 word \<Rightarrow> string \<Rightarrow> instant option \<Rightarrow>
   report_state \<Rightarrow> report_state \<times> work list" where
  "enqueue_and_recheck e leader sid worker attempt reason queued_at s =
     (let (m, r) = (case queued_at of
            Some at \<Rightarrow> enqueue_pending_report_with_queued_at sid worker attempt (re_now e) at (rs_pending s)
          | None \<Rightarrow> enqueue_pending_report_at_attempt sid worker attempt (re_now e) (rs_pending s));
          s = s\<lparr>rs_pending := m\<rparr>
      in if \<not> er_accepted r
         then (conclude worker (ReportQueued ''superseded by newer report'') s, [])
         else (emit_report_pipe_event worker (Some leader) (Some sid) attempt PhaseQueued
                 ''worker report queued'' (Some reason) (report_drops e (er_dropped r) s),
               [Recheck sid worker reason]))"

definition send_to_terminal ::
  "report_env \<Rightarrow> task_binding \<Rightarrow> task_binding \<Rightarrow> string \<Rightarrow> 32 word \<Rightarrow> instant option \<Rightarrow>
   report_state \<Rightarrow> report_state \<times> work list" where
  "send_to_terminal e worker leader sid attempt queued_at s =
     (let skip = (\<lambda>reason s. (skip_report worker (Some leader) (Some sid) attempt reason s, []))
      in case read_session_status_for_automatic_submit e sid of
           Inl err \<Rightarrow> skip (''failed to read leader status: '' @ err) s
         | Inr None \<Rightarrow> skip ''leader session not found'' s
         | Inr (Some st) \<Rightarrow>
             (if st = Idle \<or> st = WaitingInput
              then (emit_report_pipe_event worker (Some leader) (Some sid) attempt PhaseFlowing
                      ''worker report flowing'' None s, [SubmitLine worker leader sid attempt])
              else if st = Initializing
              then enqueue_and_recheck e leader sid worker attempt ''leader session initializing'' queued_at s
              else if st = session_status.Error
              then skip ''leader session error'' (clear_pending_reports_and_emit e sid ''leader-error'' s)
              else if st = Exited
              then skip ''leader session exited'' (clear_pending_reports_and_emit e sid ''leader-exited'' s)
              else enqueue_and_recheck e leader sid worker attempt ''leader busy'' queued_at s))"

definition send_worker_report_to_dsh_leader ::
  "report_env \<Rightarrow> task_binding \<Rightarrow> task_binding \<Rightarrow> string \<Rightarrow> string \<Rightarrow> 32 word \<Rightarrow> report_state \<Rightarrow> report_state \<times> work list" where
  "send_worker_report_to_dsh_leader e worker leader sid rest attempt s =
     (case split_at_byte CHR 0x3A rest of
        (workspace_key, None) \<Rightarrow>
          (skip_report worker (Some leader) (Some sid) attempt ''malformed dsh leader session id'' s, [])
      | (workspace_key, Some dsh_session) \<Rightarrow>
          (case map_of (re_dsh e) workspace_key of
             None \<Rightarrow>
               (mark_report_dropped e (tb_id worker)
                  (skip_report worker (Some leader) (Some sid) attempt ''dsh instance not running'' s), [])
           | Some port \<Rightarrow>
               (emit_report_pipe_event worker (Some leader) (Some sid) attempt PhaseFlowing
                  ''worker report flowing'' None s, [PromptDsh worker leader sid port dsh_session attempt])))"

definition send_worker_report ::
  "report_env \<Rightarrow> task_binding \<Rightarrow> 32 word \<Rightarrow> instant option \<Rightarrow> report_state \<Rightarrow> report_state \<times> work list" where
  "send_worker_report e worker attempt queued_at s =
     (case tb_parent worker of
        None \<Rightarrow> (skip_report worker None None attempt ''worker has no parent'' s, [])
      | Some parent_id \<Rightarrow>
          (case re_binding e parent_id of
             Inl err \<Rightarrow> (skip_report worker None None attempt (''failed to load leader: '' @ err) s, [])
           | Inr None \<Rightarrow> (skip_report worker None None attempt ''leader not found'' s, [])
           | Inr (Some leader) \<Rightarrow>
               (case tb_session leader of
                  None \<Rightarrow> (skip_report worker (Some leader) None attempt ''leader session missing'' s, [])
                | Some sid \<Rightarrow>
                    (case strip_prefix ''dsh:'' sid of
                       Some rest \<Rightarrow> send_worker_report_to_dsh_leader e worker leader sid rest attempt s
                     | None \<Rightarrow> send_to_terminal e worker leader sid attempt queued_at s))))"

definition delivered_report :: "task_binding \<Rightarrow> task_binding \<Rightarrow> string \<Rightarrow> 32 word \<Rightarrow> report_state \<Rightarrow> report_state" where
  "delivered_report worker leader sid attempt s =
     conclude worker ReportSent
       (emit_report_pipe_event worker (Some leader) (Some sid) attempt PhaseDelivered ''worker report delivered'' None s)"

definition typed_line :: "string \<Rightarrow> bytes \<Rightarrow> report_state \<Rightarrow> report_state" where
  "typed_line sid line s = s\<lparr>rs_typed := rs_typed s @ [(sid, line)]\<rparr>"

definition spawn :: "work list \<Rightarrow> report_state \<Rightarrow> report_state" where
  "spawn t s = s\<lparr>rs_tasks := rs_tasks s @ [t]\<rparr>"

definition flush_pending_reports :: "report_env \<Rightarrow> string \<Rightarrow> report_state \<Rightarrow> report_state \<times> work list" where
  "flush_pending_reports e leader s =
     (let (m, batch) = take_pending_reports leader (re_now e) (rs_pending s)
      in (report_drops e (rb_dropped batch) (s\<lparr>rs_pending := m\<rparr>),
          map (\<lambda>r. SendReport (pr_worker r) (next_attempt (pr_attempt r)) (Some (pr_queued_at r))) (rb_reports batch)))"

definition gone_reason :: "session_status option \<Rightarrow> string" where
  "gone_reason st =
     (case st of
        None \<Rightarrow> ''leader-unavailable''
      | Some x \<Rightarrow> if x = session_status.Error then ''leader-error''
                  else if x = Exited then ''leader-exited'' else ''leader-unavailable'')"

definition scan_leader :: "report_env \<Rightarrow> string \<Rightarrow> report_state \<Rightarrow> report_state \<times> work list" where
  "scan_leader e leader s =
     (case read_session_status_for_automatic_submit e leader of
        Inl err \<Rightarrow> (s, [])
      | Inr st \<Rightarrow>
          (case pending_level_action st of
             FlushPending \<Rightarrow> (s, [TakeQueue leader])
           | ClearPending \<Rightarrow> (clear_pending_reports_and_emit e leader (gone_reason st) s, [])
           | KeepPending \<Rightarrow> (s, [])))"

text \<open>One piece of work, and what its task has to do next.\<close>

fun run_work :: "report_env \<Rightarrow> work \<Rightarrow> report_state \<Rightarrow> report_state \<times> work list" where
  "run_work e (TakeQueue leader) s = flush_pending_reports e leader s"
| "run_work e (SendReport worker attempt queued_at) s = send_worker_report e worker attempt queued_at s"
| "run_work e (SubmitLine worker leader sid attempt) s =
     (let s = typed_line sid (report_line worker) s
      in case re_submit e sid (report_line worker) of
           None \<Rightarrow> (delivered_report worker leader sid attempt s, [])
         | Some err \<Rightarrow> (skip_report worker (Some leader) (Some sid) attempt (''submit failed: '' @ err) s, []))"
| "run_work e (PromptDsh worker leader sid port dsh_session attempt) s =
     (let s = typed_line sid (report_line worker) s
      in case re_prompt e port dsh_session (report_line worker) of
           None \<Rightarrow> (delivered_report worker leader sid attempt s, [])
         | Some err \<Rightarrow>
             (mark_report_dropped e (tb_id worker)
                (skip_report worker (Some leader) (Some sid) attempt (''dsh session.prompt failed: '' @ err) s), []))"
| "run_work e (Recheck sid worker reason) s =
     (let s = (case read_session_status_for_automatic_submit e sid of
                 Inr (Some st) \<Rightarrow> if ready_status st then spawn [TakeQueue sid] s else s
               | _ \<Rightarrow> s)
      in (conclude worker (ReportQueued reason) s, []))"
| "run_work e (ScanLeader leader) s = scan_leader e leader s"

subsection \<open>What sets the tasks going\<close>

definition is_terminal_binding :: "binding_status \<Rightarrow> bool" where
  "is_terminal_binding s = (s = BindCompleted \<or> s = BindFailed)"

definition should_notify_terminal_transition :: "binding_status option \<Rightarrow> binding_status \<Rightarrow> bool" where
  "should_notify_terminal_transition old new =
     (is_terminal_binding new \<and> \<not> (case old of Some s \<Rightarrow> is_terminal_binding s | None \<Rightarrow> False))"

definition report_to_leader ::
  "report_env \<Rightarrow> string \<Rightarrow> string option \<Rightarrow> bytes option \<Rightarrow> leader_report_result + task_binding" where
  "report_to_leader e worker_id status summary =
     (case re_binding e worker_id of
        Inl err \<Rightarrow> Inl (ReportSkipped (''failed to load worker: '' @ err))
      | Inr None \<Rightarrow> Inl (ReportSkipped ''worker not found'')
      | Inr (Some worker) \<Rightarrow>
          (let worker' = (case summary of Some s \<Rightarrow> worker\<lparr>tb_summary := Some s\<rparr> | None \<Rightarrow> worker)
           in case status of
                None \<Rightarrow> Inr worker'
              | Some v \<Rightarrow>
                  (case binding_status_of_str v of
                     Inl err \<Rightarrow> Inl (ReportSkipped (''invalid status: '' @ err))
                   | Inr st \<Rightarrow> Inr (worker'\<lparr>tb_status := st\<rparr>))))"

datatype report_event =
    Notify "binding_status option" task_binding
  | ReportToLeader string "string option" "bytes option"
  | Transition string session_status
  | LevelScan "string list"
  | Progress nat

definition on_transition :: "report_env \<Rightarrow> string \<Rightarrow> session_status \<Rightarrow> report_state \<Rightarrow> report_state" where
  "on_transition e sid to s =
     (case pending_flush_action to of
        FlushPending \<Rightarrow> if waiting_of (rs_pending s) sid \<noteq> [] then spawn [TakeQueue sid] s else s
      | ClearPending \<Rightarrow> clear_pending_reports_and_emit e sid (gone_reason (Some to)) s
      | KeepPending \<Rightarrow> s)"

text \<open>The keys of the map in its iteration order are an argument.\<close>

definition scan_pending_reports_once :: "string list \<Rightarrow> report_state \<Rightarrow> report_state" where
  "scan_pending_reports_once order s =
     spawn (map ScanLeader (filter (\<lambda>sid. waiting_of (rs_pending s) sid \<noteq> []) order)) s"

definition progress :: "report_env \<Rightarrow> nat \<Rightarrow> report_state \<Rightarrow> report_state" where
  "progress e i s =
     (if i < length (rs_tasks s)
      then (case rs_tasks s ! i of
              [] \<Rightarrow> s
            | w # ws \<Rightarrow>
                (case run_work e w (s\<lparr>rs_tasks := (rs_tasks s)[i := ws]\<rparr>) of
                   (s, next) \<Rightarrow> s\<lparr>rs_tasks := (rs_tasks s)[i := next @ rs_tasks s ! i]\<rparr>))
      else s)"

text \<open>The report a call asks for.\<close>

fun request_of :: "report_env \<Rightarrow> report_event \<Rightarrow> task_binding option" where
  "request_of e (Notify old worker) =
     (if should_notify_terminal_transition old (tb_status worker) then Some worker else None)"
| "request_of e (ReportToLeader worker_id status summary) =
     (case report_to_leader e worker_id status summary of Inr worker \<Rightarrow> Some worker | Inl _ \<Rightarrow> None)"
| "request_of e _ = None"

fun report_exec :: "report_env \<times> report_event \<Rightarrow> report_state \<Rightarrow> report_state" where
  "report_exec (e, Notify old worker) s =
     (if should_notify_terminal_transition old (tb_status worker) then spawn [SendReport worker 0 None] s else s)"
| "report_exec (e, ReportToLeader worker_id status summary) s =
     (case report_to_leader e worker_id status summary of
        Inl result \<Rightarrow> s\<lparr>rs_results := rs_results s @ [(worker_id, result)]\<rparr>
      | Inr worker \<Rightarrow> spawn [SendReport worker 0 None] s)"
| "report_exec (e, Transition sid to) s = on_transition e sid to s"
| "report_exec (e, LevelScan order) s = scan_pending_reports_once order s"
| "report_exec (e, Progress i) s = progress e i s"

definition report_run :: "(report_env \<times> report_event) list \<Rightarrow> report_state \<Rightarrow> report_state" where
  "report_run es s = fold report_exec es s"

lemma report_run_simps [simp]:
  "report_run [] s = s" "report_run (x # es) s = report_run es (report_exec x s)"
  "report_run (es @ es') s = report_run es' (report_run es s)"
  by (simp_all add: report_run_def)


subsection \<open>Frames\<close>

definition same_work :: "report_state \<Rightarrow> report_state \<Rightarrow> bool" where
  "same_work s s' = (rs_pending s' = rs_pending s \<and> rs_typed s' = rs_typed s \<and> rs_tasks s' = rs_tasks s)"

lemma same_work_refl [simp]: "same_work s s"
  by (simp add: same_work_def)

lemma same_work_trans: "same_work s s1 \<Longrightarrow> same_work s1 s2 \<Longrightarrow> same_work s s2"
  by (simp add: same_work_def)

lemma emit_same [simp]: "same_work s (emit_pipe_event_once spec s)" "same_work s (mark_report_dropped e w s)"
  "same_work s (conclude worker r s)" "same_work s (emit_report_pipe_event worker l sid a ph su re s)"
  by (simp_all add: same_work_def emit_pipe_event_once_def mark_report_dropped_def conclude_def emit_report_pipe_event_def)

lemma fold_same: "(\<And>x s. same_work s (f x s)) \<Longrightarrow> same_work s (fold f xs s)"
  by (induction xs arbitrary: s) (auto intro: same_work_trans)

lemma drops_same [simp]: "same_work s (report_drops e dropped s)"
proof -
  have "same_work s (record_dropped_pending_reports e dropped s)" for s
    unfolding record_dropped_pending_reports_def by (rule fold_same) simp
  moreover have "same_work s (emit_dropped_pending_report_events dropped s)" for s
    unfolding emit_dropped_pending_report_events_def by (rule fold_same) simp
  ultimately show ?thesis unfolding report_drops_def by (blast intro: same_work_trans)
qed

lemma skip_same [simp]: "same_work s (skip_report worker l sid a reason s)"
  unfolding skip_report_def by (rule same_work_trans [of _ "emit_report_pipe_event worker l sid a PhaseFailed ''worker report delivery failed'' (Some reason) s"]) simp_all

lemma delivered_same [simp]: "same_work s (delivered_report worker leader sid a s)"
  unfolding delivered_report_def
  by (rule same_work_trans [of _ "emit_report_pipe_event worker (Some leader) (Some sid) a PhaseDelivered ''worker report delivered'' None s"]) simp_all

lemma same_workD:
  "same_work s s' \<Longrightarrow> rs_pending s' = rs_pending s" "same_work s s' \<Longrightarrow> rs_typed s' = rs_typed s"
  "same_work s s' \<Longrightarrow> rs_tasks s' = rs_tasks s"
  by (simp_all add: same_work_def)

lemmas work_frame [simp] = emit_same [THEN same_workD(1)] emit_same [THEN same_workD(2)] emit_same [THEN same_workD(3)]
  drops_same [THEN same_workD(1)] drops_same [THEN same_workD(2)] drops_same [THEN same_workD(3)]
  skip_same [THEN same_workD(1)] skip_same [THEN same_workD(2)] skip_same [THEN same_workD(3)]
  delivered_same [THEN same_workD(1)] delivered_same [THEN same_workD(2)] delivered_same [THEN same_workD(3)]

lemma clear_frame [simp]:
  "rs_pending (clear_pending_reports_and_emit e leader reason s) = (rs_pending s)(leader := None)"
  "rs_typed (clear_pending_reports_and_emit e leader reason s) = rs_typed s"
  "rs_tasks (clear_pending_reports_and_emit e leader reason s) = rs_tasks s"
  by (simp_all add: clear_pending_reports_and_emit_def clear_pending_reports_def)

lemma spawn_frame [simp]:
  "rs_pending (spawn t s) = rs_pending s" "rs_typed (spawn t s) = rs_typed s" "rs_tasks (spawn t s) = rs_tasks s @ [t]"
  "rs_failed (spawn t s) = rs_failed s" "rs_events (spawn t s) = rs_events s" "rs_marked (spawn t s) = rs_marked s"
  by (simp_all add: spawn_def)

lemma typed_frame [simp]:
  "rs_pending (typed_line sid l s) = rs_pending s" "rs_typed (typed_line sid l s) = rs_typed s @ [(sid, l)]"
  "rs_tasks (typed_line sid l s) = rs_tasks s"
  by (simp_all add: typed_line_def)

subsection \<open>No report is typed twice\<close>

definition report_lines :: "pending_worker_report list \<Rightarrow> bytes multiset" where
  "report_lines q = mset (map (report_line \<circ> pr_worker) q)"

definition pending_lines :: "pending_report_map \<Rightarrow> bytes multiset" where
  "pending_lines m = (\<Sum>k \<in> dom m. report_lines (waiting_of m k))"

fun work_lines :: "work \<Rightarrow> bytes multiset" where
  "work_lines (SendReport worker attempt queued_at) = {#report_line worker#}"
| "work_lines (SubmitLine worker leader sid attempt) = {#report_line worker#}"
| "work_lines (PromptDsh worker leader sid port dsh_session attempt) = {#report_line worker#}"
| "work_lines w = {#}"

definition task_lines :: "work list \<Rightarrow> bytes multiset" where
  "task_lines ws = sum_list (map work_lines ws)"

text \<open>Every line that has been typed or still may be.\<close>

definition held_lines :: "report_state \<Rightarrow> bytes multiset" where
  "held_lines s = mset (map snd (rs_typed s)) + pending_lines (rs_pending s) + sum_list (map task_lines (rs_tasks s))"

lemma task_lines_simps [simp]:
  "task_lines [] = {#}" "task_lines (w # ws) = work_lines w + task_lines ws" "task_lines (xs @ ys) = task_lines xs + task_lines ys"
  by (simp_all add: task_lines_def)

lemma pending_lines_split:
  assumes "finite (dom m)"
  shows "pending_lines m = report_lines (waiting_of m k) + pending_lines (m(k := None))"
proof (cases "k \<in> dom m")
  case True
  then show ?thesis
    using assms by (simp add: pending_lines_def sum.remove [of _ k] waiting_of_def)
next
  case False
  then have "m(k := None) = m" "waiting_of m k = []" by (auto simp: waiting_of_def domIff)
  then show ?thesis by (simp add: report_lines_def)
qed

lemma pending_lines_update:
  assumes "finite (dom m)"
  shows "pending_lines (m(k \<mapsto> q)) = report_lines q + pending_lines (m(k := None))"
  using pending_lines_split [of "m(k \<mapsto> q)" k] assms by simp

lemma report_lines_simps [simp]:
  "report_lines [] = {#}" "report_lines (r # q) = add_mset (report_line (pr_worker r)) (report_lines q)"
  "report_lines (p @ q) = report_lines p + report_lines q"
  by (simp_all add: report_lines_def)

lemma report_lines_filter: "report_lines (filter P q) \<subseteq># report_lines q"
proof -
  have "report_lines q = report_lines (filter P q) + report_lines (filter (\<lambda>r. \<not> P r) q)" by (induction q) simp_all
  then show ?thesis by simp
qed

lemma report_lines_tl: "report_lines (tl q) \<subseteq># report_lines q"
  by (cases q) simp_all


lemma enqueue_lines:
  assumes "finite (dom m)" and "enqueue_pending_report_with_queued_at leader worker a now at m = (m', r)"
  shows "pending_lines m' \<subseteq># pending_lines m + {#report_line worker#}" and "finite (dom m')"
    and "\<not> er_accepted r \<Longrightarrow> pending_lines m' \<subseteq># pending_lines m"
proof -
  define q where "q = filter (\<lambda>x. retain_reason worker now at x = None) (waiting_of m leader)"
  have keep: "report_lines q \<subseteq># report_lines (waiting_of m leader)" by (simp add: q_def report_lines_filter)
  have split: "pending_lines (m(leader \<mapsto> x)) = report_lines x + pending_lines (m(leader := None))" for x
    by (rule pending_lines_update [OF assms(1)])
  have whole: "pending_lines m = report_lines (waiting_of m leader) + pending_lines (m(leader := None))"
    by (rule pending_lines_split [OF assms(1)])
  have room: "x + pending_lines (m(leader := None)) \<subseteq># pending_lines m + {#report_line worker#}"
    if "x \<subseteq># report_lines (waiting_of m leader) + {#report_line worker#}" for x
    using subset_mset.add_mono [OF that subset_mset.order_refl [of "pending_lines (m(leader := None))"]]
    unfolding whole by (simp add: ac_simps)
  have old: "report_lines q \<subseteq># report_lines (waiting_of m leader) + {#report_line worker#}"
    using keep by (rule subset_mset.order_trans) simp
  have new: "report_lines (q @ [new_pending_report worker a at]) \<subseteq># report_lines (waiting_of m leader) + {#report_line worker#}"
    using keep by (simp add: new_pending_report_def)
  note newer = subset_mset.order_trans [OF report_lines_tl new]
  show "pending_lines m' \<subseteq># pending_lines m + {#report_line worker#}"
    using assms(2) room [OF old] room [OF new] room [OF newer]
    by (auto simp: enqueue_pending_report_with_queued_at_def Let_def q_def [symmetric] split split: if_splits)
  show "finite (dom m')"
    using assms by (auto simp: enqueue_pending_report_with_queued_at_def Let_def split: if_splits)
  show "\<not> er_accepted r \<Longrightarrow> pending_lines m' \<subseteq># pending_lines m"
    using assms(2) keep
    by (auto simp: enqueue_pending_report_with_queued_at_def Let_def q_def [symmetric] split whole split: if_splits)
qed


text \<open>What a piece of work may do: lines neither appear nor are copied, and tasks are only added.\<close>

definition sound_work :: "report_state \<Rightarrow> bytes multiset \<Rightarrow> report_state \<times> work list \<Rightarrow> bool" where
  "sound_work s l r = (case r of (s', next) \<Rightarrow>
     held_lines s' + task_lines next \<subseteq># held_lines s + l \<and> finite (dom (rs_pending s')) \<and> (\<exists>ts. rs_tasks s' = rs_tasks s @ ts))"

lemma sound_same:
  "finite (dom (rs_pending s)) \<Longrightarrow> same_work s s' \<Longrightarrow> task_lines next \<subseteq># l \<Longrightarrow> sound_work s l (s', next)"
  by (auto simp: sound_work_def held_lines_def same_work_def intro!: exI [of _ "[]"])

lemma pending_lines_clear: "finite (dom m) \<Longrightarrow> pending_lines (m(k := None)) \<subseteq># pending_lines m"
  by (subst pending_lines_split [of m k]) simp_all

lemma sound_pending:
  assumes "finite (dom (rs_pending s'))" and "rs_typed s' = rs_typed s" and "rs_tasks s' = rs_tasks s"
    and "pending_lines (rs_pending s') + task_lines next \<subseteq># pending_lines (rs_pending s) + l"
  shows "sound_work s l (s', next)"
proof -
  have "mset (map snd (rs_typed s)) + sum_list (map task_lines (rs_tasks s)) + (pending_lines (rs_pending s') + task_lines next)
     \<subseteq># mset (map snd (rs_typed s)) + sum_list (map task_lines (rs_tasks s)) + (pending_lines (rs_pending s) + l)"
    using assms(4) by (rule subset_mset.add_mono [OF subset_mset.order_refl])
  then show ?thesis using assms(1-3) by (auto simp: sound_work_def held_lines_def ac_simps intro!: exI [of _ "[]"])
qed

lemma enqueue_sound:
  assumes "finite (dom (rs_pending s))"
  shows "sound_work s {#report_line worker#} (enqueue_and_recheck e leader sid worker a reason queued_at s)"
proof -
  obtain m r where m: "(case queued_at of
      Some at \<Rightarrow> enqueue_pending_report_with_queued_at sid worker a (re_now e) at (rs_pending s)
    | None \<Rightarrow> enqueue_pending_report_at_attempt sid worker a (re_now e) (rs_pending s)) = (m, r)"
    by fastforce
  then obtain at where at: "enqueue_pending_report_with_queued_at sid worker a (re_now e) at (rs_pending s) = (m, r)"
    by (cases queued_at) (auto simp: enqueue_pending_report_at_attempt_def)
  note lines = enqueue_lines [OF assms at]
  show ?thesis
    unfolding enqueue_and_recheck_def m Let_def prod.case
    using lines(1,2) by (auto intro!: sound_pending)
qed

lemma clear_sound:
  assumes "finite (dom (rs_pending s))"
  shows "sound_work s l (skip_report worker x y a reason (clear_pending_reports_and_emit e sid why s), [])"
    and "sound_work s l (clear_pending_reports_and_emit e sid why s, [])"
  using pending_lines_clear [OF assms, of sid] assms
  by (auto intro!: sound_pending intro: subset_mset.add_increasing2 simp: dom_def elim: rev_finite_subset)

lemma send_terminal_sound:
  assumes "finite (dom (rs_pending s))"
  shows "sound_work s {#report_line worker#} (send_to_terminal e worker leader sid a queued_at s)"
  using assms enqueue_sound [OF assms] clear_sound [OF assms]
  by (auto simp: send_to_terminal_def Let_def intro!: sound_same split: sum.split option.split)

lemma send_sound:
  assumes "finite (dom (rs_pending s))"
  shows "sound_work s {#report_line worker#} (send_worker_report e worker a queued_at s)"
proof -
  have marked: "same_work s (mark_report_dropped e w s')" if "same_work s s'" for w s'
    by (rule same_work_trans [OF that]) simp
  have "sound_work s {#report_line worker#} (send_worker_report_to_dsh_leader e worker leader sid rest a s)" for leader sid rest
    using assms by (auto simp: send_worker_report_to_dsh_leader_def intro!: sound_same marked split: prod.split option.split)
  then show ?thesis
    using send_terminal_sound [OF assms] assms
    by (auto simp: send_worker_report_def intro!: sound_same split: option.split sum.split)
qed

lemma flush_sound:
  assumes "finite (dom (rs_pending s))"
  shows "sound_work s {#} (flush_pending_reports e leader s)"
proof -
  define q where "q = filter (\<lambda>r. \<not> pending_report_expired r (re_now e)) (waiting_of (rs_pending s) leader)"
  have "task_lines (map (\<lambda>r. SendReport (pr_worker r) (next_attempt (pr_attempt r)) (Some (pr_queued_at r))) q) = report_lines q" for q
    by (induction q) simp_all
  then have "pending_lines ((rs_pending s)(leader := None)) +
      task_lines (map (\<lambda>r. SendReport (pr_worker r) (next_attempt (pr_attempt r)) (Some (pr_queued_at r))) q)
      \<subseteq># pending_lines (rs_pending s)"
    using pending_lines_split [OF assms, of leader] report_lines_filter [of _ "waiting_of (rs_pending s) leader"]
    by (simp add: q_def)
  then show ?thesis
    unfolding flush_pending_reports_def take_pending_reports_def Let_def prod.case report_batch.simps q_def [symmetric]
    by (intro sound_pending) (use assms in simp_all)
qed

lemma work_sound:
  assumes "finite (dom (rs_pending s))"
  shows "sound_work s (work_lines w) (run_work e w s)"
proof (cases w)
  case (SubmitLine worker leader sid attempt)
  have "sound_work s {#report_line worker#} (s', [])" if "same_work (typed_line sid (report_line worker) s) s'" for s'
    using that assms by (auto simp: sound_work_def held_lines_def same_work_def intro!: exI [of _ "[]"])
  then show ?thesis unfolding SubmitLine by (simp add: Let_def split: option.split)
next
  case (PromptDsh worker leader sid port dsh_session attempt)
  have typed: "sound_work s {#report_line worker#} (s', [])" if "same_work (typed_line sid (report_line worker) s) s'" for s'
    using that assms by (auto simp: sound_work_def held_lines_def same_work_def intro!: exI [of _ "[]"])
  have "same_work s' (mark_report_dropped e v (skip_report worker x y a why s'))" for s' v x y a why
    by (rule same_work_trans [OF skip_same emit_same(2)])
  then show ?thesis unfolding PromptDsh by (simp add: Let_def typed split: option.split)
next
  case (Recheck sid worker reason)
  have "sound_work s {#} (conclude worker r (spawn [TakeQueue sid] s), [])" for r
    using assms by (simp add: sound_work_def held_lines_def)
  then show ?thesis
    using assms unfolding Recheck by (auto simp: Let_def intro!: sound_same split: sum.split option.split)
next
  case (ScanLeader leader)
  show ?thesis
    using clear_sound(2) [OF assms] assms unfolding ScanLeader
    by (auto simp: scan_leader_def intro!: sound_same split: sum.split flush_action.split)
qed (simp_all add: flush_sound send_sound assms)


lemma progress_held:
  assumes "finite (dom (rs_pending s))"
  shows "held_lines (progress e i s) \<subseteq># held_lines s" and "finite (dom (rs_pending (progress e i s)))"
proof -
  have "held_lines (progress e i s) \<subseteq># held_lines s \<and> finite (dom (rs_pending (progress e i s)))"
  proof (cases "i < length (rs_tasks s) \<and> rs_tasks s ! i \<noteq> []")
    case True
    then obtain w ws where t: "rs_tasks s ! i = w # ws" and i: "i < length (rs_tasks s)" by (cases "rs_tasks s ! i") auto
    define s0 where "s0 = s\<lparr>rs_tasks := (rs_tasks s)[i := ws]\<rparr>"
    obtain s1 nxt where r: "run_work e w s0 = (s1, nxt)" by (cases "run_work e w s0")
    have "finite (dom (rs_pending s0))" using assms by (simp add: s0_def)
    from work_sound [OF this, of w e] obtain ts where
      lines: "held_lines s1 + task_lines nxt \<subseteq># held_lines s0 + work_lines w" and fin: "finite (dom (rs_pending s1))"
      and ts: "rs_tasks s1 = rs_tasks s0 @ ts"
      by (auto simp: sound_work_def r)
    have swap: "sum_list (map task_lines (xs[i := y])) + task_lines (xs ! i) = sum_list (map task_lines xs) + task_lines y"
      if "i < length xs" for xs y
      using that by (induction xs arbitrary: i) (auto simp: ac_simps split: nat.split)
    have here: "i < length (rs_tasks s1)" "rs_tasks s1 ! i = ws" using ts i by (simp_all add: s0_def nth_append)
    have out: "progress e i s = s1\<lparr>rs_tasks := (rs_tasks s1)[i := nxt @ ws]\<rparr>"
      using i t r here by (simp add: progress_def s0_def)
    have "held_lines (progress e i s) = held_lines s1 + task_lines nxt"
      using swap [OF here(1), of "nxt @ ws"] here(2) by (simp add: out held_lines_def ac_simps)
    moreover have "held_lines s = held_lines s0 + work_lines w"
      using swap [OF i, of ws] t by (simp add: held_lines_def s0_def ac_simps)
    ultimately show ?thesis using lines fin out by simp
  next
    case False
    then show ?thesis using assms by (auto simp: progress_def split: list.split)
  qed
  then show "held_lines (progress e i s) \<subseteq># held_lines s" "finite (dom (rs_pending (progress e i s)))" by simp_all
qed

definition requested_lines :: "(report_env \<times> report_event) list \<Rightarrow> bytes multiset" where
  "requested_lines es = mset (List.map_filter (\<lambda>(e, ev). map_option report_line (request_of e ev)) es)"

lemma exec_held:
  assumes "finite (dom (rs_pending s))"
  shows "held_lines (report_exec (e, ev) s) \<subseteq># held_lines s + requested_lines [(e, ev)]"
    and "finite (dom (rs_pending (report_exec (e, ev) s)))"
proof -
  have spawned: "held_lines (spawn t s) = held_lines s + task_lines t" for t by (simp add: held_lines_def ac_simps)
  have scan: "task_lines (map ScanLeader xs) = {#}" for xs by (induction xs) simp_all
  have cleared: "held_lines (clear_pending_reports_and_emit e sid why s) \<subseteq># held_lines s" for sid why
    using pending_lines_clear [OF assms] by (simp add: held_lines_def)
  have "held_lines (report_exec (e, ev) s) \<subseteq># held_lines s + requested_lines [(e, ev)] \<and> finite (dom (rs_pending (report_exec (e, ev) s)))"
  proof (cases ev)
    case (Progress i)
    then show ?thesis using progress_held [OF assms] by (simp add: requested_lines_def List.map_filter_simps)
  next
    case (ReportToLeader worker_id status summary)
    then show ?thesis
      using assms by (auto simp: spawned requested_lines_def List.map_filter_simps held_lines_def split: sum.split)
  next
    case (Transition sid to)
    then show ?thesis
      using assms cleared by (auto simp: on_transition_def spawned requested_lines_def List.map_filter_simps split: flush_action.split)
  next
    case (LevelScan order)
    then show ?thesis
      using assms by (simp add: scan_pending_reports_once_def spawned scan requested_lines_def List.map_filter_simps)
  qed (use assms in \<open>simp add: spawned requested_lines_def List.map_filter_simps\<close>)
  then show "held_lines (report_exec (e, ev) s) \<subseteq># held_lines s + requested_lines [(e, ev)]"
    "finite (dom (rs_pending (report_exec (e, ev) s)))" by blast+
qed

lemma run_held:
  "finite (dom (rs_pending s)) \<Longrightarrow>
   held_lines (report_run es s) \<subseteq># held_lines s + requested_lines es \<and> finite (dom (rs_pending (report_run es s)))"
proof (induction es arbitrary: s)
  case (Cons x es)
  obtain e ev where x: "x = (e, ev)" by (cases x)
  note step = exec_held [OF Cons.prems, of e ev]
  have "requested_lines (x # es) = requested_lines [x] + requested_lines es"
    by (simp add: requested_lines_def List.map_filter_simps split: option.split)
  moreover have "held_lines (report_exec x s) + requested_lines es \<subseteq># held_lines s + requested_lines [x] + requested_lines es"
    using step(1) x by (intro subset_mset.add_mono) simp_all
  ultimately show ?case
    using Cons.IH [OF step(2)] x by (auto simp: ac_simps intro: subset_mset.order_trans)
qed (simp add: requested_lines_def List.map_filter_simps)

text \<open>C21: A report is typed into its leader's terminal at most once, and never without having been
  asked for. Whatever order the tasks run in (flushes of the same queue by a state change, by the look
  after enqueueing and by the scan included), and whatever the backend answers, the lines handed to
  terminals are among the lines of the reports that were requested, each at most as often as it was
  requested.\<close>

theorem report_typed_at_most_once:
  "mset (map snd (rs_typed (report_run es report_state_new))) \<subseteq># requested_lines es"
proof -
  have "held_lines (report_run es report_state_new) \<subseteq># requested_lines es"
    using run_held [of report_state_new es] by (simp add: report_state_new_def held_lines_def pending_lines_def)
  then show ?thesis by (auto simp: held_lines_def intro: subset_mset.order_trans [rotated])
qed


subsection \<open>What becomes of a queued report\<close>

definition failed_told :: "string \<Rightarrow> 32 word \<Rightarrow> report_state \<Rightarrow> bool" where
  "failed_told c a s = list_ex (\<lambda>spec. pe_phase spec = PhaseFailed \<and> pe_correlation spec = c \<and> pe_attempt spec = a) (rs_events s)"

definition told_inv :: "report_state \<Rightarrow> bool" where
  "told_inv s = (\<forall>(c, a) \<in> rs_failed s. failed_told c a s)"

text \<open>Events and marks stay, and the memory of told failures stays true.\<close>

definition onward :: "report_state \<Rightarrow> report_state \<Rightarrow> bool" where
  "onward s s' = ((told_inv s \<longrightarrow> told_inv s') \<and> set (rs_events s) \<subseteq> set (rs_events s') \<and> set (rs_marked s) \<subseteq> set (rs_marked s'))"

lemma onward_refl [simp]: "onward s s"
  by (simp add: onward_def)

lemma onward_trans: "onward s s1 \<Longrightarrow> onward s1 s2 \<Longrightarrow> onward s s2"
  unfolding onward_def by blast

lemma failed_told_mono: "failed_told c a s \<Longrightarrow> set (rs_events s) \<subseteq> set (rs_events s') \<Longrightarrow> failed_told c a s'"
  by (auto simp: failed_told_def list_ex_iff)

lemma onward_primitives [simp]:
  "onward s (emit_pipe_event_once spec s)" "onward s (mark_report_dropped e w s)" "onward s (conclude worker r s)"
  "onward s (s\<lparr>rs_pending := m\<rparr>)" "onward s (s\<lparr>rs_tasks := ts\<rparr>)" "onward s (spawn t s)" "onward s (typed_line sid l s)"
  "onward s (s\<lparr>rs_results := rr\<rparr>)"
proof -
  have "told_inv (emit_pipe_event_once spec s)" if "told_inv s"
    using that by (auto simp: told_inv_def failed_told_def emit_pipe_event_once_def)
  then show "onward s (emit_pipe_event_once spec s)" by (auto simp: onward_def emit_pipe_event_once_def)
qed (auto simp: onward_def told_inv_def failed_told_def mark_report_dropped_def conclude_def spawn_def typed_line_def)

lemma onward_fold: "(\<And>x s. onward s (f x s)) \<Longrightarrow> onward s (fold f xs s)"
  by (induction xs arbitrary: s) (auto intro: onward_trans)

lemma onward_report [simp]:
  "onward s (emit_report_pipe_event worker l sid a ph su re s)" "onward s (report_drops e dropped s)"
  "onward s (skip_report worker l sid a why s)" "onward s (delivered_report worker leader sid' a s)"
  "onward s (clear_pending_reports_and_emit e leader' why s)"
proof -
  show emit: "onward s (emit_report_pipe_event worker l sid a ph su re s)" for l sid ph su re s
    by (simp add: emit_report_pipe_event_def)
  have drops: "onward s (report_drops e dropped s)" for dropped s
    unfolding report_drops_def record_dropped_pending_reports_def emit_dropped_pending_report_events_def
    by (rule onward_trans [OF onward_fold onward_fold]) simp_all
  then show "onward s (report_drops e dropped s)" .
  show "onward s (skip_report worker l sid a why s)" unfolding skip_report_def by (rule onward_trans [OF emit onward_primitives(3)])
  show "onward s (delivered_report worker leader sid' a s)" unfolding delivered_report_def by (rule onward_trans [OF emit onward_primitives(3)])
  show "onward s (clear_pending_reports_and_emit e leader' why s)"
    unfolding clear_pending_reports_and_emit_def Let_def clear_pending_reports_def prod.case
    by (rule onward_trans [OF _ drops]) simp
qed

text \<open>A lost report is told as failed and marked at its worker.\<close>

definition loss_recorded :: "report_env \<Rightarrow> pending_worker_report \<Rightarrow> report_state \<Rightarrow> bool" where
  "loss_recorded e r s = (failed_told (pr_correlation r) (pr_attempt r) s
     \<and> (re_patch_fails e (tb_id (pr_worker r)) \<or> tb_id (pr_worker r) \<in> set (rs_marked s)))"

lemma loss_recorded_mono: "loss_recorded e r s \<Longrightarrow> onward s s' \<Longrightarrow> loss_recorded e r s'"
  unfolding loss_recorded_def onward_def by (blast intro: failed_told_mono)

lemma drop_recorded:
  assumes "told_inv s" and "d \<in> set dropped" and "is_delivery_failure_reason (dp_reason d)"
  shows "loss_recorded e (dp_report d) (report_drops e dropped s)"
proof -
  define r where "r = dp_report d"
  define mark where "mark = (\<lambda>d :: dropped_pending_report. if is_delivery_failure_reason (dp_reason d)
      then mark_report_dropped e (tb_id (pr_worker (dp_report d))) else id)"
  define tell where "tell = (\<lambda>d :: dropped_pending_report. if is_delivery_failure_reason (dp_reason d) then emit_pipe_event_once (dropped_event_spec d) else id)"
  have mark_on: "onward s (mark d s)" and tell_on: "onward s (tell d s)" for d :: dropped_pending_report and s
    by (simp_all add: mark_def tell_def)
  obtain xs ys where split: "dropped = xs @ d # ys" using split_list [OF assms(2)] by blast
  have marked: "re_patch_fails e (tb_id (pr_worker r)) \<or> tb_id (pr_worker r) \<in> set (rs_marked (fold mark dropped s))"
  proof -
    have "re_patch_fails e (tb_id (pr_worker r)) \<or> tb_id (pr_worker r) \<in> set (rs_marked (mark d (fold mark xs s)))"
      using assms(3) by (simp add: mark_def r_def mark_report_dropped_def)
    then show ?thesis using onward_fold [of mark "mark d (fold mark xs s)" ys, OF mark_on] split by (auto simp: onward_def)
  qed
  have "onward s (fold mark dropped s)" by (rule onward_fold [OF mark_on])
  then have "told_inv (fold mark dropped s)" using assms(1) by (simp add: onward_def)
  then have before: "told_inv (fold tell xs (fold mark dropped s))"
    using onward_fold [of tell, OF tell_on] by (auto simp: onward_def)
  have "failed_told (pr_correlation r) (pr_attempt r) (tell d (fold tell xs (fold mark dropped s)))"
    using before assms(3)
    by (auto simp: tell_def r_def emit_pipe_event_once_def dropped_event_spec_def Let_def told_inv_def failed_told_def)
  then have told: "failed_told (pr_correlation r) (pr_attempt r) (fold tell dropped (fold mark dropped s))"
    using failed_told_mono onward_fold [of tell "tell d (fold tell xs (fold mark dropped s))" ys, OF tell_on] split
    by (auto simp: onward_def)
  have out: "report_drops e dropped s = fold tell dropped (fold mark dropped s)"
    by (simp add: report_drops_def record_dropped_pending_reports_def emit_dropped_pending_report_events_def mark_def tell_def)
  show ?thesis
    using told marked onward_fold [of tell "fold mark dropped s" dropped, OF tell_on]
    by (auto simp: out loss_recorded_def r_def onward_def)
qed

lemma clear_recorded:
  assumes "told_inv s" and "r \<in> set (waiting_of (rs_pending s) leader)" and "is_delivery_failure_reason why"
  shows "loss_recorded e r (clear_pending_reports_and_emit e leader why s)"
proof -
  have "told_inv (s\<lparr>rs_pending := m\<rparr>)" for m using assms(1) by (simp add: told_inv_def failed_told_def)
  then show ?thesis
    using drop_recorded [of _ "drop_pending_report r leader why (re_now e)"] assms(2,3)
    by (fastforce simp: clear_pending_reports_and_emit_def clear_pending_reports_def drop_pending_report_def)
qed


definition superseded :: "pending_worker_report \<Rightarrow> pending_worker_report list \<Rightarrow> bool" where
  "superseded r q = list_ex (\<lambda>r'. tb_id (pr_worker r') = tb_id (pr_worker r) \<and> pr_queued_at r \<le> pr_queued_at r') q"

text \<open>The piece of work that runs is a report sent again that is refused: a newer one of its worker
  is queued.\<close>

fun refused_send :: "report_env \<Rightarrow> pending_worker_report list \<Rightarrow> work \<Rightarrow> bool" where
  "refused_send e q (SendReport worker a queued_at) =
     newer_queued worker (case queued_at of Some at \<Rightarrow> at | None \<Rightarrow> re_now e) q"
| "refused_send e q w = False"

definition fate :: "report_env \<Rightarrow> work \<Rightarrow> string \<Rightarrow> pending_worker_report \<Rightarrow> report_state \<Rightarrow> report_state \<times> work list \<Rightarrow> bool" where
  "fate e w leader r s res = (case res of (s', next) \<Rightarrow>
     r \<notin> set (waiting_of (rs_pending s') leader) \<longrightarrow>
       SendReport (pr_worker r) (next_attempt (pr_attempt r)) (Some (pr_queued_at r)) \<in> set next
       \<or> loss_recorded e r s'
       \<or> superseded r (waiting_of (rs_pending s') leader)
       \<or> pending_report_expired r (re_now e) \<and> refused_send e (waiting_of (rs_pending s) leader) w)"

lemma fate_kept: "rs_pending s' = rs_pending s \<Longrightarrow> r \<in> set (waiting_of (rs_pending s) leader) \<Longrightarrow> fate e w leader r s (s', next)"
  by (simp add: fate_def)

lemma map_filter_mem: "x \<in> set (List.map_filter f xs) \<longleftrightarrow> (\<exists>y \<in> set xs. f y = Some x)"
  by (force simp: List.map_filter_def)

lemma told_drop:
  "told_inv s \<Longrightarrow> drop_pending_report r leader why now \<in> set dropped \<Longrightarrow> is_delivery_failure_reason why \<Longrightarrow>
   loss_recorded e r (report_drops e dropped s)"
  using drop_recorded [of s "drop_pending_report r leader why now" dropped e] by (simp add: drop_pending_report_def)

lemma enqueue_fate:
  assumes told: "told_inv s" and r: "r \<in> set (waiting_of (rs_pending s) leader)"
    and w: "w = SendReport worker a queued_at"
  shows "fate e w leader r s (enqueue_and_recheck e l sid worker a reason queued_at s)"
proof (cases "sid = leader")
  case True
  define at where "at = (case queued_at of Some t \<Rightarrow> t | None \<Rightarrow> re_now e)"
  define why where "why = retain_reason worker (re_now e) at"
  define q where "q = filter (\<lambda>x. why x = None) (waiting_of (rs_pending s) leader)"
  define dropped where "dropped = List.map_filter (\<lambda>x. map_option (\<lambda>z. drop_pending_report x leader z (re_now e)) (why x))
      (waiting_of (rs_pending s) leader)"
  obtain m res where m: "enqueue_pending_report_with_queued_at leader worker a (re_now e) at (rs_pending s) = (m, res)" by fastforce
  have out: "enqueue_and_recheck e l sid worker a reason queued_at s =
      (if \<not> er_accepted res
       then (conclude worker (ReportQueued ''superseded by newer report'') (s\<lparr>rs_pending := m\<rparr>), [])
       else (emit_report_pipe_event worker (Some l) (Some sid) a PhaseQueued ''worker report queued'' (Some reason)
               (report_drops e (er_dropped res) (s\<lparr>rs_pending := m\<rparr>)), [Recheck sid worker reason]))"
    using m True
    by (cases queued_at) (simp_all add: enqueue_and_recheck_def at_def enqueue_pending_report_at_attempt_def Let_def)
  have here: "told_inv (s\<lparr>rs_pending := m\<rparr>)" using told by (simp add: told_inv_def failed_told_def)
  have recorded: "loss_recorded e r (emit_report_pipe_event worker (Some l) (Some sid) a PhaseQueued
      ''worker report queued'' (Some reason) (report_drops e (er_dropped res) (s\<lparr>rs_pending := m\<rparr>)))"
    if "drop_pending_report r leader z (re_now e) \<in> set (er_dropped res)" "is_delivery_failure_reason z" for z
    by (rule loss_recorded_mono [OF told_drop [OF here that]]) simp
  have new: "superseded r (q' @ [new_pending_report worker a at])" if "why r = Some ''superseded''" for q'
    using that by (auto simp: why_def retain_reason_def superseded_def new_pending_report_def split: if_splits)
  have reasons: "why r = None \<or> why r = Some ''superseded'' \<or> why r = Some ''expired'' \<and> pending_report_expired r (re_now e)"
    by (auto simp: why_def retain_reason_def)
  have lost: "drop_pending_report r leader ''expired'' (re_now e) \<in> set dropped" if "why r = Some ''expired''"
    unfolding dropped_def map_filter_mem using r that by (intro bexI [of _ r]) simp_all
  have fails: "is_delivery_failure_reason ''expired''" "is_delivery_failure_reason ''queue-overflow''"
    by (simp_all add: is_delivery_failure_reason_def)
  note enq = m [unfolded enqueue_pending_report_with_queued_at_def Let_def, folded why_def, folded q_def dropped_def]
  show ?thesis
  proof (cases "newer_queued worker at q")
    case True
    then have refused: "m = (rs_pending s)(leader \<mapsto> q)" "\<not> er_accepted res" using enq by auto
    have "r \<in> set q \<or> superseded r q \<or> pending_report_expired r (re_now e)"
    proof -
      have "superseded r q" if "why r = Some ''superseded''"
        using that True by (auto simp: superseded_def newer_queued_def list_ex_iff why_def retain_reason_def split: if_splits)
      then show ?thesis using reasons r by (auto simp: q_def)
    qed
    moreover have "newer_queued worker at (waiting_of (rs_pending s) leader)"
      using True by (auto simp: newer_queued_def q_def list_ex_iff)
    ultimately show ?thesis
      unfolding out using refused by (auto simp: fate_def w at_def split: option.splits)
  next
    case False
    define q' where "q' = q @ [new_pending_report worker a at]"
    show ?thesis
    proof (cases "PENDING_REPORT_MAX_PER_LEADER < length q'")
      case True
      then have acc: "m = (rs_pending s)(leader \<mapsto> tl q')" "er_accepted res"
          "er_dropped res = dropped @ [drop_pending_report (hd q') leader ''queue-overflow'' (re_now e)]"
        using enq False unfolding q'_def [symmetric] by auto
      have q: "q \<noteq> []" using True by (auto simp: q'_def PENDING_REPORT_MAX_PER_LEADER_def)
      then have t: "tl q' = tl q @ [new_pending_report worker a at]" "hd q' = hd q" by (simp_all add: q'_def)
      have "r \<in> set (tl q') \<or> r = hd q" if "why r = None"
      proof -
        have "r \<in> set q" using that r by (simp add: q_def)
        then show ?thesis using q unfolding t(1) by (cases q) auto
      qed
      then show ?thesis
        unfolding out using acc recorded reasons lost new [of "tl q"] fails t(1,2) by (auto simp: fate_def)
    next
      case small: False
      then have acc: "m = (rs_pending s)(leader \<mapsto> q')" "er_accepted res" "er_dropped res = dropped"
        using enq False unfolding q'_def [symmetric] by auto
      have "r \<in> set q'" if "why r = None" using that r by (simp add: q'_def q_def)
      then show ?thesis
        unfolding out using acc recorded reasons lost new [of q] fails by (auto simp: fate_def q'_def)
    qed
  qed
next
  case False
  have other: "waiting_of m leader = waiting_of (rs_pending s) leader"
    if "enqueue_pending_report_with_queued_at sid worker a now at (rs_pending s) = (m, res)" for now at m res
    using that False by (auto simp: enqueue_pending_report_with_queued_at_def Let_def split: if_splits)
  define at where "at = (case queued_at of Some t \<Rightarrow> t | None \<Rightarrow> re_now e)"
  obtain m res where m: "enqueue_pending_report_with_queued_at sid worker a (re_now e) at (rs_pending s) = (m, res)"
    by fastforce
  then have case_at: "(case queued_at of
         Some at \<Rightarrow> enqueue_pending_report_with_queued_at sid worker a (re_now e) at (rs_pending s)
       | None \<Rightarrow> enqueue_pending_report_at_attempt sid worker a (re_now e) (rs_pending s)) = (m, res)"
    by (cases queued_at) (simp_all add: at_def enqueue_pending_report_at_attempt_def)
  show ?thesis
    unfolding enqueue_and_recheck_def case_at Let_def prod.case using r other [OF m] by (simp add: fate_def)
qed

lemma clear_fate:
  assumes "told_inv s" and "r \<in> set (waiting_of (rs_pending s) leader)" and "is_delivery_failure_reason why"
  shows "fate e w leader r s (clear_pending_reports_and_emit e sid why s, [])"
    and "fate e w leader r s (skip_report worker x y a z (clear_pending_reports_and_emit e sid why s), [])"
proof -
  have "r \<in> set (waiting_of (rs_pending (clear_pending_reports_and_emit e sid why s)) leader) \<or>
      loss_recorded e r (clear_pending_reports_and_emit e sid why s)"
  proof (cases "sid = leader")
    case True
    show ?thesis unfolding True by (rule disjI2 [OF clear_recorded [OF assms]])
  next
    case False
    then show ?thesis using assms(2) by simp
  qed
  moreover have "loss_recorded e r (skip_report worker x y a z s')" if "loss_recorded e r s'" for s'
    by (rule loss_recorded_mono [OF that]) simp
  ultimately show "fate e w leader r s (clear_pending_reports_and_emit e sid why s, [])"
    "fate e w leader r s (skip_report worker x y a z (clear_pending_reports_and_emit e sid why s), [])"
    unfolding fate_def by auto
qed

lemma gone_fails: "is_delivery_failure_reason (gone_reason st)"
  "is_delivery_failure_reason ''leader-error''" "is_delivery_failure_reason ''leader-exited''"
  by (simp_all add: is_delivery_failure_reason_def gone_reason_def split: option.split)

lemma send_fate:
  assumes "told_inv s" and "r \<in> set (waiting_of (rs_pending s) leader)" and w: "w = SendReport worker a queued_at"
  shows "fate e w leader r s (send_worker_report e worker a queued_at s)"
proof -
  note kept = fate_kept [OF _ assms(2)]
  have terminal: "fate e w leader r s (send_to_terminal e worker l sid a queued_at s)" for l sid
    using clear_fate(2) [OF assms(1,2) gone_fails(2)] clear_fate(2) [OF assms(1,2) gone_fails(3)] enqueue_fate [OF assms]
    by (auto simp: send_to_terminal_def Let_def intro!: kept split: sum.split option.split)
  have "fate e w leader r s (send_worker_report_to_dsh_leader e worker l sid rest a s)" for l sid rest
    by (auto simp: send_worker_report_to_dsh_leader_def intro!: kept split: prod.split option.split)
  then show ?thesis
    using terminal by (auto simp: send_worker_report_def intro!: kept split: option.split sum.split)
qed

lemma flush_fate:
  assumes "told_inv s" and "r \<in> set (waiting_of (rs_pending s) leader)"
  shows "fate e w leader r s (flush_pending_reports e sid s)"
proof (cases "sid = leader")
  case True
  show ?thesis
  proof (cases "pending_report_expired r (re_now e)")
    case late: True
    define m where "m = (rs_pending s)(sid := None)"
    define dropped where "dropped = map (\<lambda>r. drop_pending_report r sid ''expired'' (re_now e))
        (filter (\<lambda>r. pending_report_expired r (re_now e)) (waiting_of (rs_pending s) sid))"
    have "told_inv (s\<lparr>rs_pending := m\<rparr>)" using assms(1) by (simp add: told_inv_def failed_told_def)
    moreover have "drop_pending_report r sid ''expired'' (re_now e) \<in> set dropped"
      using assms(2) True late by (simp add: dropped_def)
    ultimately have "loss_recorded e r (report_drops e dropped (s\<lparr>rs_pending := m\<rparr>))"
      by (rule told_drop) (simp add: is_delivery_failure_reason_def)
    then show ?thesis
      by (simp add: fate_def flush_pending_reports_def take_pending_reports_def dropped_def m_def)
  next
    case False
    then show ?thesis
      using assms(2) True by (simp add: fate_def flush_pending_reports_def take_pending_reports_def)
  qed
next
  case False
  then show ?thesis using assms(2) by (simp add: fate_def flush_pending_reports_def take_pending_reports_def)
qed

lemma work_fate:
  assumes "told_inv s" and "r \<in> set (waiting_of (rs_pending s) leader)"
  shows "fate e w leader r s (run_work e w s)"
proof (cases w)
  case (ScanLeader sid)
  show ?thesis
    using clear_fate(1) [OF assms gone_fails(1)] fate_kept [OF _ assms(2)]
    unfolding ScanLeader by (auto simp: scan_leader_def split: sum.split flush_action.split)
next
  case (SubmitLine worker l sid a)
  show ?thesis unfolding SubmitLine by (simp add: Let_def fate_kept [OF _ assms(2)] split: option.split)
next
  case (PromptDsh worker l sid port d a)
  show ?thesis unfolding PromptDsh by (simp add: Let_def fate_kept [OF _ assms(2)] split: option.split)
next
  case (Recheck sid worker reason)
  show ?thesis unfolding Recheck by (auto simp: Let_def intro!: fate_kept [OF _ assms(2)] split: sum.split option.split)
qed (simp_all add: flush_fate [OF assms] send_fate [OF assms])

lemma work_onward: "onward s (fst (run_work e w s))"
proof -
  have enqueue: "onward s (fst (enqueue_and_recheck e l sid worker a reason queued_at s))" for l sid worker a reason queued_at
  proof -
    have "onward s (emit_report_pipe_event worker (Some l) (Some sid) a PhaseQueued ''worker report queued'' (Some reason)
        (report_drops e d (s\<lparr>rs_pending := m\<rparr>)))" for d m
      by (rule onward_trans [OF onward_trans [OF onward_primitives(4) onward_report(2)] onward_report(1)])
    moreover have "onward s (conclude worker x (s\<lparr>rs_pending := m\<rparr>))" for x m
      by (rule onward_trans [OF onward_primitives(4) onward_primitives(3)])
    ultimately show ?thesis by (simp add: enqueue_and_recheck_def Let_def split: prod.split)
  qed
  have skip: "onward s (skip_report worker x y a z (clear_pending_reports_and_emit e sid why s))" for worker x y a z sid why
    by (rule onward_trans [OF onward_report(5) onward_report(3)])
  have marked: "onward s (mark_report_dropped e v (skip_report worker x y a z s'))" if "onward s s'" for v worker x y a z s'
    by (rule onward_trans [OF onward_trans [OF that onward_report(3)] onward_primitives(2)])
  have typed: "onward s (skip_report worker x y a z (typed_line sid l s))" "onward s (delivered_report worker leader sid' a (typed_line sid l s))"
    for worker x y a z sid l leader sid'
    using onward_trans [OF onward_primitives(7) onward_report(3)] onward_trans [OF onward_primitives(7) onward_report(4)] by blast+
  have spawned: "onward s (conclude worker x (spawn t s))" for worker x t
    by (rule onward_trans [OF onward_primitives(6) onward_primitives(3)])
  have taken: "onward s (report_drops e d (s\<lparr>rs_pending := m\<rparr>))" for d m
    by (rule onward_trans [OF onward_primitives(4) onward_report(2)])
  have terminal: "onward s (fst (send_to_terminal e worker l sid a queued_at s))" for worker l sid a queued_at
    by (auto simp: send_to_terminal_def Let_def enqueue skip split: sum.split option.split)
  have dsh: "onward s (fst (send_worker_report_to_dsh_leader e worker l sid rest a s))" for worker l sid rest a
    by (auto simp: send_worker_report_to_dsh_leader_def marked split: prod.split option.split)
  show ?thesis
    by (cases w) (auto simp: flush_pending_reports_def take_pending_reports_def taken send_worker_report_def terminal dsh typed
        marked spawned scan_leader_def Let_def split: option.split sum.split flush_action.split)
qed

lemma exec_onward: "onward s (report_exec (e, ev) s)"
proof (cases ev)
  case (Progress i)
  have "onward s (s1\<lparr>rs_tasks := t\<rparr>)" if "run_work e w (s\<lparr>rs_tasks := u\<rparr>) = (s1, n)" for w u s1 n t
    using onward_trans [OF onward_trans [OF onward_primitives(5) work_onward [of _ e w]] onward_primitives(5), of s t u] that by simp
  then show ?thesis unfolding Progress by (auto simp: progress_def split: list.split prod.split)
qed (simp_all add: on_transition_def scan_pending_reports_once_def split: sum.split flush_action.split)

lemma run_onward: "onward s (report_run es s)"
proof (induction es arbitrary: s)
  case (Cons x es)
  obtain e ev where "x = (e, ev)" by (cases x)
  then show ?case using onward_trans [OF exec_onward Cons.IH] by simp
qed simp


lemma tasks_grow: "length (rs_tasks s) \<le> length (rs_tasks (fst (run_work e w s)))"
proof -
  have enqueue: "rs_tasks (fst (enqueue_and_recheck e l sid worker a reason queued_at s)) = rs_tasks s" for l sid worker a reason queued_at
    by (simp add: enqueue_and_recheck_def Let_def split: prod.split)
  have terminal: "rs_tasks (fst (send_to_terminal e worker l sid a queued_at s)) = rs_tasks s" for worker l sid a queued_at
    by (auto simp: send_to_terminal_def Let_def enqueue split: sum.split option.split)
  have dsh: "rs_tasks (fst (send_worker_report_to_dsh_leader e worker l sid rest a s)) = rs_tasks s" for worker l sid rest a
    by (auto simp: send_worker_report_to_dsh_leader_def split: prod.split option.split)
  show ?thesis
    by (cases w) (auto simp: flush_pending_reports_def take_pending_reports_def send_worker_report_def terminal dsh scan_leader_def
        Let_def split: option.split sum.split flush_action.split)
qed

text \<open>The piece of work a step runs.\<close>

fun current_work :: "report_state \<Rightarrow> report_event \<Rightarrow> work option" where
  "current_work s (Progress i) =
     (if i < length (rs_tasks s) then (case rs_tasks s ! i of [] \<Rightarrow> None | w # ws \<Rightarrow> Some w) else None)"
| "current_work s ev = None"

lemma told_inv_run: "told_inv (report_run es report_state_new)"
proof -
  have "told_inv report_state_new" by (simp add: told_inv_def report_state_new_def)
  then show ?thesis using run_onward [of report_state_new es] by (simp add: onward_def)
qed

lemma progress_fate:
  assumes told: "told_inv s" and r: "r \<in> set (waiting_of (rs_pending s) leader)"
    and gone: "r \<notin> set (waiting_of (rs_pending (progress e i s)) leader)"
  shows "SendReport (pr_worker r) (next_attempt (pr_attempt r)) (Some (pr_queued_at r)) \<in> set (concat (rs_tasks (progress e i s)))
    \<or> loss_recorded e r (progress e i s)
    \<or> superseded r (waiting_of (rs_pending (progress e i s)) leader)
    \<or> pending_report_expired r (re_now e) \<and>
      (\<exists>w. current_work s (Progress i) = Some w \<and> refused_send e (waiting_of (rs_pending s) leader) w)"
proof -
  have i: "i < length (rs_tasks s)" using gone r by (auto simp: progress_def split: if_splits)
  then obtain w ws where t: "rs_tasks s ! i = w # ws" using gone r by (cases "rs_tasks s ! i") (auto simp: progress_def)
  define s0 where "s0 = s\<lparr>rs_tasks := (rs_tasks s)[i := ws]\<rparr>"
  obtain s1 nxt where run: "run_work e w s0 = (s1, nxt)" by (cases "run_work e w s0")
  define s2 where "s2 = s1\<lparr>rs_tasks := (rs_tasks s1)[i := nxt @ rs_tasks s1 ! i]\<rparr>"
  have out: "progress e i s = s2" using i t run by (simp add: progress_def s0_def s2_def)
  have "told_inv s0" "rs_pending s0 = rs_pending s" using told by (simp_all add: s0_def told_inv_def failed_told_def)
  then have "fate e w leader r s0 (s1, nxt)" using work_fate [of s0 r leader e w] r run by simp
  moreover have "r \<notin> set (waiting_of (rs_pending s1) leader)" using gone by (simp add: out s2_def)
  ultimately have cases: "SendReport (pr_worker r) (next_attempt (pr_attempt r)) (Some (pr_queued_at r)) \<in> set nxt
      \<or> loss_recorded e r s1 \<or> superseded r (waiting_of (rs_pending s1) leader)
      \<or> pending_report_expired r (re_now e) \<and> refused_send e (waiting_of (rs_pending s) leader) w"
    by (simp add: fate_def \<open>rs_pending s0 = rs_pending s\<close>)
  have "length (rs_tasks s0) \<le> length (rs_tasks s1)"
    using tasks_grow [of s0 e w] run by simp
  then have "set nxt \<subseteq> set (concat (rs_tasks s2))"
    using i by (auto simp: s2_def s0_def set_update_memI intro!: bexI [of _ "nxt @ rs_tasks s1 ! i"])
  moreover have "loss_recorded e r s2" if "loss_recorded e r s1"
    by (rule loss_recorded_mono [OF that]) (simp add: s2_def)
  moreover have "rs_pending s2 = rs_pending s1" by (simp add: s2_def)
  moreover have "current_work s (Progress i) = Some w" using i t by simp
  ultimately show ?thesis using cases unfolding out by auto
qed

text \<open>C20: No queued report is lost in silence, but for one case. In every reachable state and for every
  step: a report that leaves a leader's queue is sent by the task that took it, or its loss is
  recorded (a failure event with its correlation and attempt has been emitted, and its worker is
  marked unless the database refuses), or a report of the same worker at least as new is in its
  place, or it had expired and the step was a report sent again that was refused for being older
  than the queued one of its worker.\<close>

theorem queued_report_fate:
  assumes reachable: "s = report_run es report_state_new"
    and queued: "r \<in> set (waiting_of (rs_pending s) leader)"
    and gone: "r \<notin> set (waiting_of (rs_pending (report_exec (e, ev) s)) leader)"
  shows "SendReport (pr_worker r) (next_attempt (pr_attempt r)) (Some (pr_queued_at r))
        \<in> set (concat (rs_tasks (report_exec (e, ev) s)))
    \<or> loss_recorded e r (report_exec (e, ev) s)
    \<or> superseded r (waiting_of (rs_pending (report_exec (e, ev) s)) leader)
    \<or> pending_report_expired r (re_now e) \<and>
      (\<exists>w. current_work s ev = Some w \<and> refused_send e (waiting_of (rs_pending s) leader) w)"
proof (cases ev)
  case (Progress i)
  then show ?thesis using progress_fate [OF _ queued, of e i] gone told_inv_run reachable by simp
next
  case (Transition sid to)
  have "rs_pending (on_transition e sid to s) = rs_pending s \<or>
      on_transition e sid to s = clear_pending_reports_and_emit e sid (gone_reason (Some to)) s"
    by (simp add: on_transition_def split: flush_action.split)
  then have out: "on_transition e sid to s = clear_pending_reports_and_emit e sid (gone_reason (Some to)) s" "sid = leader"
    using gone queued Transition by (auto split: if_splits)
  have "loss_recorded e r (clear_pending_reports_and_emit e leader (gone_reason (Some to)) s)"
    by (rule clear_recorded [OF _ queued gone_fails(1)]) (simp add: reachable told_inv_run)
  then show ?thesis using out Transition by simp
qed (use gone queued in \<open>auto simp: scan_pending_reports_once_def split: sum.splits if_splits\<close>)


subsection \<open>A ready leader gets its reports, in order\<close>

text \<open>The leader of a report is registered with session \<open>L\<close>, is ready for text, and accepts it.\<close>

definition calm_for :: "string \<Rightarrow> report_env \<Rightarrow> task_binding \<Rightarrow> bool" where
  "calm_for L e worker =
     ((case tb_parent worker of None \<Rightarrow> False | Some p \<Rightarrow>
        (case re_binding e p of Inr (Some leader) \<Rightarrow> tb_session leader = Some L | _ \<Rightarrow> False))
      \<and> strip_prefix ''dsh:'' L = None
      \<and> (case read_session_status_for_automatic_submit e L of Inr (Some st) \<Rightarrow> ready_status st | _ \<Rightarrow> False)
      \<and> re_submit e L (report_line worker) = None)"

lemma calm_send:
  assumes "calm_for L e worker"
  shows "\<exists>leader. send_worker_report e worker a at s =
    (emit_pipe_event_once (report_event_spec worker (Some leader) (Some L) a PhaseFlowing ''worker report flowing'' None) s,
     [SubmitLine worker leader L a])"
proof -
  obtain p leader st where "tb_parent worker = Some p" "re_binding e p = Inr (Some leader)" "tb_session leader = Some L"
    "strip_prefix ''dsh:'' L = None" "read_session_status_for_automatic_submit e L = Inr (Some st)" "ready_status st"
    using assms by (auto simp: calm_for_def split: option.splits sum.splits)
  then show ?thesis
    by (simp add: send_worker_report_def send_to_terminal_def ready_status_def emit_report_pipe_event_def)
qed

lemma calm_step_send:
  assumes "calm_for L e worker" and "i < length (rs_tasks s)" and "rs_tasks s ! i = SendReport worker a at # ws"
  shows "\<exists>leader ev. progress e i s = (emit_pipe_event_once ev (s\<lparr>rs_tasks := (rs_tasks s)[i := ws]\<rparr>))
      \<lparr>rs_tasks := (rs_tasks s)[i := SubmitLine worker leader L a # ws]\<rparr>"
proof -
  define s0 where "s0 = s\<lparr>rs_tasks := (rs_tasks s)[i := ws]\<rparr>"
  obtain leader ev where "run_work e (SendReport worker a at) s0 = (emit_pipe_event_once ev s0, [SubmitLine worker leader L a])"
    using calm_send [OF assms(1), of a at s0] by auto
  moreover have "rs_tasks (emit_pipe_event_once ev s0) = (rs_tasks s)[i := ws]" for ev by (simp add: s0_def)
  ultimately have "progress e i s = (emit_pipe_event_once ev s0)\<lparr>rs_tasks := (rs_tasks s)[i := SubmitLine worker leader L a # ws]\<rparr>"
    using assms(2,3) by (simp add: progress_def flip: s0_def)
  then show ?thesis unfolding s0_def by blast
qed

lemma calm_step_submit:
  assumes "calm_for L e worker" and "i < length (rs_tasks s)" and "rs_tasks s ! i = SubmitLine worker leader L a # ws"
  shows "\<exists>s'. progress e i s = s' \<and> rs_tasks s' = (rs_tasks s)[i := ws] \<and> rs_pending s' = rs_pending s
     \<and> rs_typed s' = rs_typed s @ [(L, report_line worker)] \<and> rs_results s' = rs_results s @ [(tb_id worker, ReportSent)]"
  using assms
  by (simp add: calm_for_def progress_def Let_def)
    (simp add: delivered_report_def conclude_def emit_report_pipe_event_def emit_pipe_event_once_def typed_line_def)

lemma calm_reports:
  "length es = 2 * length rs \<Longrightarrow> i < length (rs_tasks s) \<Longrightarrow>
   rs_tasks s ! i = map (\<lambda>r. SendReport (pr_worker r) (next_attempt (pr_attempt r)) (Some (pr_queued_at r))) rs @ ws \<Longrightarrow>
   list_all (\<lambda>e. list_all (\<lambda>r. calm_for L e (pr_worker r)) rs) es \<Longrightarrow>
   rs_pending (report_run (map (\<lambda>e. (e, Progress i)) es) s) = rs_pending s
   \<and> rs_typed (report_run (map (\<lambda>e. (e, Progress i)) es) s) = rs_typed s @ map (\<lambda>r. (L, report_line (pr_worker r))) rs
   \<and> rs_results (report_run (map (\<lambda>e. (e, Progress i)) es) s) = rs_results s @ map (\<lambda>r. (tb_id (pr_worker r), ReportSent)) rs
   \<and> rs_tasks (report_run (map (\<lambda>e. (e, Progress i)) es) s) ! i = ws"
proof (induction rs arbitrary: es s)
  case (Cons r rs)
  obtain e1 e2 es' where es: "es = e1 # e2 # es'" "length es' = 2 * length rs"
    using Cons.prems(1) by (auto simp: length_Suc_conv)
  define rest where "rest = map (\<lambda>r. SendReport (pr_worker r) (next_attempt (pr_attempt r)) (Some (pr_queued_at r))) rs @ ws"
  have t: "rs_tasks s ! i = SendReport (pr_worker r) (next_attempt (pr_attempt r)) (Some (pr_queued_at r)) # rest"
    using Cons.prems(3) by (simp add: rest_def)
  have calm: "calm_for L e1 (pr_worker r)" "calm_for L e2 (pr_worker r)" "list_all (\<lambda>e. list_all (\<lambda>r. calm_for L e (pr_worker r)) rs) es'"
    using Cons.prems(4) es(1) by (auto simp: list_all_iff)
  obtain leader ev where s1: "progress e1 i s = (emit_pipe_event_once ev (s\<lparr>rs_tasks := (rs_tasks s)[i := rest]\<rparr>))
      \<lparr>rs_tasks := (rs_tasks s)[i := SubmitLine (pr_worker r) leader L (next_attempt (pr_attempt r)) # rest]\<rparr>"
    using calm_step_send [OF calm(1) Cons.prems(2) t] by blast
  have results: "rs_results (emit_pipe_event_once ev x) = rs_results x" for x by (simp add: emit_pipe_event_once_def)
  have "rs_tasks (progress e1 i s) ! i = SubmitLine (pr_worker r) leader L (next_attempt (pr_attempt r)) # rest"
    "i < length (rs_tasks (progress e1 i s))"
    using Cons.prems(2) by (simp_all add: s1)
  from calm_step_submit [OF calm(2) this(2,1)] obtain s2 where s2: "progress e2 i (progress e1 i s) = s2"
      "rs_tasks s2 = (rs_tasks s)[i := rest]" "rs_pending s2 = rs_pending s"
      "rs_typed s2 = rs_typed s @ [(L, report_line (pr_worker r))]"
      "rs_results s2 = rs_results s @ [(tb_id (pr_worker r), ReportSent)]"
    by (auto simp: s1 results)
  have "i < length (rs_tasks s2)" "rs_tasks s2 ! i = rest" using Cons.prems(2) s2(2) by simp_all
  from Cons.IH [OF es(2) this(1) _ calm(3), unfolded this(2), OF rest_def]
  show ?case using s2 es(1) by simp
qed simp

text \<open>C27: A ready leader gets everything that waits for it, in the order of the queue. When a task is
  about to flush the queue of session \<open>L\<close>, none of its reports has expired, and the leader is
  ready and accepts text each time it is looked at, then after one step for the queue and two for each
  report exactly the lines of the queue have been typed into \<open>L\<close>, in order, each is answered as
  sent, the queue is empty, and the task goes on with the rest of its work.\<close>

theorem flush_delivers_in_order:
  assumes task: "i < length (rs_tasks s)" "rs_tasks s ! i = TakeQueue L # ws"
    and fresh: "list_all (\<lambda>r. \<not> pending_report_expired r (re_now e)) (waiting_of (rs_pending s) L)"
    and calm: "list_all (\<lambda>e'. list_all (\<lambda>r. calm_for L e' (pr_worker r)) (waiting_of (rs_pending s) L)) es"
    and enough: "length es = 2 * length (waiting_of (rs_pending s) L)"
    and run: "s' = report_run (map (\<lambda>e'. (e', Progress i)) (e # es)) s"
  shows "rs_pending s' L = None
    \<and> rs_typed s' = rs_typed s @ map (\<lambda>r. (L, report_line (pr_worker r))) (waiting_of (rs_pending s) L)
    \<and> rs_results s' = rs_results s @ map (\<lambda>r. (tb_id (pr_worker r), ReportSent)) (waiting_of (rs_pending s) L)
    \<and> rs_tasks s' ! i = ws"
proof -
  let ?q = "waiting_of (rs_pending s) L"
  have all: "filter (\<lambda>r. \<not> pending_report_expired r (re_now e)) ?q = ?q" "filter (\<lambda>r. pending_report_expired r (re_now e)) ?q = []"
    using fresh by (simp_all add: list_all_iff filter_id_conv filter_empty_conv)
  define s1 where "s1 = progress e i s"
  have none: "report_drops e [] x = x" for x
    by (simp add: report_drops_def record_dropped_pending_reports_def emit_dropped_pending_report_events_def)
  have "s1 = s\<lparr>rs_pending := (rs_pending s)(L := None), rs_tasks := (rs_tasks s)[i :=
      map (\<lambda>r. SendReport (pr_worker r) (next_attempt (pr_attempt r)) (Some (pr_queued_at r))) ?q @ ws]\<rparr>"
    using task all by (simp add: s1_def progress_def flush_pending_reports_def take_pending_reports_def none)
  then have s1: "rs_pending s1 = (rs_pending s)(L := None)" "rs_typed s1 = rs_typed s" "rs_results s1 = rs_results s"
    "i < length (rs_tasks s1)"
    "rs_tasks s1 ! i = map (\<lambda>r. SendReport (pr_worker r) (next_attempt (pr_attempt r)) (Some (pr_queued_at r))) ?q @ ws"
    using task(1) by simp_all
  have "s' = report_run (map (\<lambda>e'. (e', Progress i)) es) s1" by (simp add: run s1_def)
  then show ?thesis using calm_reports [OF enough s1(4,5) calm] s1(1-3) by simp
qed


subsection \<open>A report refused for being old\<close>

text \<open>The one silent loss. A report that is sent again (its task took it from the queue before) while
  the leader is busy, and that is older than the queued one of its worker, is refused; the expired
  reports that this attempt has pruned from the queue are then gone without an event and without a
  mark, because the early return for a refused report precedes the recording of what was dropped.\<close>

theorem refused_send_loses_expired:
  assumes leader: "tb_parent worker = Some p" "re_binding e p = Inr (Some ld)" "tb_session ld = Some L"
      "strip_prefix ''dsh:'' L = None"
    and busy: "read_session_status_for_automatic_submit e L = Inr (Some st)" "pending_flush_action st = KeepPending"
    and newer: "newer_queued worker at (filter (\<lambda>x. \<not> pending_report_expired x (re_now e)) (waiting_of (rs_pending s) L))"
    and expired: "r \<in> set (waiting_of (rs_pending s) L)" "pending_report_expired r (re_now e)"
    and run: "(s', next) = run_work e (SendReport worker a (Some at)) s"
  shows "r \<notin> set (waiting_of (rs_pending s') L) \<and> next = []
    \<and> rs_events s' = rs_events s \<and> rs_marked s' = rs_marked s \<and> rs_failed s' = rs_failed s \<and> rs_tasks s' = rs_tasks s"
proof -
  have st: "st \<noteq> Idle" "st \<noteq> WaitingInput" "st \<noteq> session_status.Error" "st \<noteq> Exited" using busy(2) by auto
  define q where "q = filter (\<lambda>x. retain_reason worker (re_now e) at x = None) (waiting_of (rs_pending s) L)"
  have "newer_queued worker at q"
    using newer by (auto simp: newer_queued_def list_ex_iff q_def retain_reason_def)
  then have "enqueue_pending_report_with_queued_at L worker a (re_now e) at (rs_pending s)
      = ((rs_pending s)(L \<mapsto> q), \<lparr>er_queue_len = length q, er_accepted = False,
          er_dropped = List.map_filter (\<lambda>x. map_option (\<lambda>why. drop_pending_report x L why (re_now e))
             (retain_reason worker (re_now e) at x)) (waiting_of (rs_pending s) L)\<rparr>)"
    by (simp add: enqueue_pending_report_with_queued_at_def Let_def q_def)
  then have "enqueue_and_recheck e ld L worker a reason (Some at) s
      = (conclude worker (ReportQueued ''superseded by newer report'') (s\<lparr>rs_pending := (rs_pending s)(L \<mapsto> q)\<rparr>), [])" for reason
    by (simp add: enqueue_and_recheck_def Let_def)
  then have "send_worker_report e worker a (Some at) s
      = (conclude worker (ReportQueued ''superseded by newer report'') (s\<lparr>rs_pending := (rs_pending s)(L \<mapsto> q)\<rparr>), [])"
    using leader busy(1) st by (simp add: send_worker_report_def send_to_terminal_def Let_def)
  moreover have "r \<notin> set q" using expired(2) by (simp add: q_def retain_reason_def)
  ultimately show ?thesis using run by (simp add: conclude_def)
qed

subsection \<open>Concrete runs\<close>

definition demo_binding :: "string \<Rightarrow> binding_role \<Rightarrow> string option \<Rightarrow> string \<Rightarrow> task_binding" where
  "demo_binding i role parent sid = \<lparr>tb_id = i, tb_role = role, tb_parent = parent, tb_session = Some sid,
     tb_project_path = ''/p'', tb_workspace_name = None, tb_status = BindCompleted, tb_summary = None, tb_metadata = None\<rparr>"

definition demo_leader :: task_binding where "demo_leader = demo_binding ''P'' RoleLeader None ''L''"
definition demo_worker :: "string \<Rightarrow> task_binding" where "demo_worker i = demo_binding i RoleWorker (Some ''P'') i"

text \<open>The clock in seconds; without an entry of the state machine the leader counts as initializing,
  and as failed when the backend says so.\<close>

definition demo_report_env :: "nat \<Rightarrow> session_status \<Rightarrow> report_env" where
  "demo_report_env t st =
     \<lparr>re_now = from_secs t, re_epoch = 0,
      re_entries = (if st = WaitingInput
        then [''L'' \<mapsto> \<lparr>se_status = WaitingInput, se_tool_name = None, se_tool_summary = None, se_last_hook = 0, se_applied = [],
          se_updated_at = 0, se_tool_use_id = None, se_turn_seq = 0, se_task_binding = None, se_observed = True,
          se_pty_guard = False\<rparr>]
        else Map.empty),
      re_backend = (\<lambda>s. Inr (Some (st, 0))), re_binding = (\<lambda>i. Inr (Some demo_leader)), re_submit = (\<lambda>s l. None),
      re_dsh = [], re_prompt = (\<lambda>p s l. None), re_patch_fails = (\<lambda>w. False)\<rparr>"


lemma demo_status:
  "read_session_status_for_automatic_submit (demo_report_env t Thinking) sid = Inr (Some Initializing)"
  "read_session_status_for_automatic_submit (demo_report_env t WaitingInput) ''L'' = Inr (Some WaitingInput)"
  by (simp_all add: read_session_status_for_automatic_submit_def demo_report_env_def status_for_automatic_submit_def
      status_for_automatic_submit_at_def Let_def)

lemma demo_env [simp]:
  "re_now (demo_report_env t st) = from_secs t" "re_binding (demo_report_env t st) i = Inr (Some demo_leader)"
  "re_submit (demo_report_env t st) sid l = None" "tb_session demo_leader = Some ''L''"
  "tb_parent (demo_worker i) = Some ''P''" "tb_id (demo_worker i) = i" "tb_status (demo_worker i) = BindCompleted"
  by (simp_all add: demo_report_env_def demo_leader_def demo_worker_def demo_binding_def)

lemma demo_send:
  "send_worker_report (demo_report_env t Thinking) (demo_worker i) a q s
   = enqueue_and_recheck (demo_report_env t Thinking) demo_leader ''L'' (demo_worker i) a ''leader session initializing'' q s"
  by (simp add: send_worker_report_def send_to_terminal_def demo_status strip_prefix_def)

definition demo_two_queued :: "(report_env \<times> report_event) list" where
  "demo_two_queued =
     [(demo_report_env 0 Thinking, Notify None (demo_worker ''A'')), (demo_report_env 0 Thinking, Progress 0),
      (demo_report_env 1 Thinking, Notify None (demo_worker ''B'')), (demo_report_env 1 Thinking, Progress 1)]"

lemmas demo_report_eval = progress_def demo_send enqueue_and_recheck_def enqueue_pending_report_at_attempt_def
  enqueue_pending_report_with_queued_at_def retain_reason_def newer_queued_def pending_report_expired_def
  PENDING_REPORT_MAX_PER_LEADER_def PENDING_REPORT_TTL_SECS_def waiting_of_def List.map_filter_simps
  should_notify_terminal_transition_def is_terminal_binding_def from_secs_def as_secs_def since_def nanos_per_sec_def
  new_pending_report_def

lemma demo_queued:
  "rs_pending (report_run demo_two_queued report_state_new) =
     [''L'' \<mapsto> [new_pending_report (demo_worker ''A'') 0 (from_secs 0), new_pending_report (demo_worker ''B'') 0 (from_secs 1)]]"
  "rs_tasks (report_run demo_two_queued report_state_new) =
     [[Recheck ''L'' (demo_worker ''A'') ''leader session initializing''],
      [Recheck ''L'' (demo_worker ''B'') ''leader session initializing'']]"
  by (simp_all add: demo_two_queued_def report_state_new_def demo_report_eval)


lemma demo_A_in:
  "new_pending_report (demo_worker ''A'') 0 (from_secs 0) \<in> set (waiting_of (rs_pending (report_run demo_two_queued report_state_new)) ''L'')"
  by (simp add: demo_queued waiting_of_def)

lemma demo_exit:
  "rs_pending (report_exec (demo_report_env 2 Exited, Transition ''L'' Exited) (report_run demo_two_queued report_state_new)) = Map.empty"
  "rs_tasks (report_exec (demo_report_env 2 Exited, Transition ''L'' Exited) (report_run demo_two_queued report_state_new)) =
     rs_tasks (report_run demo_two_queued report_state_new)"
  by (simp_all add: on_transition_def demo_queued)

theorem queued_report_fate_witness:
  "loss_recorded (demo_report_env 2 Exited) (new_pending_report (demo_worker ''A'') 0 (from_secs 0))
     (report_exec (demo_report_env 2 Exited, Transition ''L'' Exited) (report_run demo_two_queued report_state_new))"
  using queued_report_fate [OF refl demo_A_in, of "demo_report_env 2 Exited" "Transition ''L'' Exited"]
  by (simp add: demo_exit demo_queued waiting_of_def superseded_def del: report_exec.simps)

definition demo_ready :: "(report_env \<times> report_event) list" where
  "demo_ready = demo_two_queued @ [(demo_report_env 2 WaitingInput, Transition ''L'' WaitingInput)]"

lemma demo_ready_state:
  "rs_pending (report_run demo_ready report_state_new) =
     [''L'' \<mapsto> [new_pending_report (demo_worker ''A'') 0 (from_secs 0), new_pending_report (demo_worker ''B'') 0 (from_secs 1)]]"
  "2 < length (rs_tasks (report_run demo_ready report_state_new))"
  "rs_tasks (report_run demo_ready report_state_new) ! 2 = TakeQueue ''L'' # []"
  by (simp_all add: demo_ready_def on_transition_def demo_queued waiting_of_def)

lemma demo_calm_for: "calm_for ''L'' (demo_report_env t WaitingInput) (demo_worker i)"
  by (simp add: calm_for_def demo_status ready_status_def strip_prefix_def)

theorem flush_delivers_in_order_witness:
  "rs_typed (report_run (map (\<lambda>e'. (e', Progress 2)) (replicate 5 (demo_report_env 3 WaitingInput)))
      (report_run demo_ready report_state_new))
   = rs_typed (report_run demo_ready report_state_new) @
     [(''L'', report_line (demo_worker ''A'')), (''L'', report_line (demo_worker ''B''))]"
proof -
  have q: "waiting_of (rs_pending (report_run demo_ready report_state_new)) ''L'' =
      [new_pending_report (demo_worker ''A'') 0 (from_secs 0), new_pending_report (demo_worker ''B'') 0 (from_secs 1)]"
    by (simp add: demo_ready_state waiting_of_def)
  have w: "pr_worker (new_pending_report v a t) = v" for v a t by (simp add: new_pending_report_def)
  have fresh: "list_all (\<lambda>r. \<not> pending_report_expired r (re_now (demo_report_env 3 WaitingInput)))
      (waiting_of (rs_pending (report_run demo_ready report_state_new)) ''L'')"
    by (simp add: q pending_report_expired_def new_pending_report_def PENDING_REPORT_TTL_SECS_def as_secs_def since_def
        from_secs_def nanos_per_sec_def)
  have calm: "list_all (\<lambda>e'. list_all (\<lambda>r. calm_for ''L'' e' (pr_worker r))
      (waiting_of (rs_pending (report_run demo_ready report_state_new)) ''L'')) (replicate 4 (demo_report_env 3 WaitingInput))"
    by (simp add: q w demo_calm_for list_all_iff)
  have five: "replicate 5 x = x # replicate 4 x" for x :: report_env by (simp add: numeral_eq_Suc)
  show ?thesis
    using flush_delivers_in_order [OF demo_ready_state(2,3) fresh calm _ refl] by (simp add: q w five)
qed

text \<open>A flush takes both reports half an hour later; the leader is busy again, worker \<open>B\<close> has something
  newer to say, and the age of \<open>A\<close>'s report passes the limit before \<open>B\<close>'s old one is tried.\<close>

definition demo_silent :: "(report_env \<times> report_event) list" where
  "demo_silent = demo_two_queued @
     [(demo_report_env 1799 WaitingInput, Transition ''L'' WaitingInput), (demo_report_env 1799 WaitingInput, Progress 2),
      (demo_report_env 1799 Thinking, Progress 2), (demo_report_env 1800 Thinking, Notify None (demo_worker ''B'')),
      (demo_report_env 1800 Thinking, Progress 3)]"

lemma demo_silent_state:
  "rs_pending (report_run demo_silent report_state_new) =
     [''L'' \<mapsto> [new_pending_report (demo_worker ''A'') 1 0, new_pending_report (demo_worker ''B'') 0 (from_secs 1800)]]"
  "rs_tasks (report_run demo_silent report_state_new) ! 2 =
     [Recheck ''L'' (demo_worker ''A'') ''leader session initializing'', SendReport (demo_worker ''B'') 1 (Some (from_secs 1))]"
  by (simp_all add: demo_silent_def on_transition_def demo_queued demo_report_eval flush_pending_reports_def
      take_pending_reports_def next_attempt_def)

theorem refused_send_loses_expired_witness:
  "new_pending_report (demo_worker ''A'') 1 0 \<in> set (waiting_of (rs_pending (report_run demo_silent report_state_new)) ''L'')
   \<and> (case run_work (demo_report_env 1802 Thinking) (SendReport (demo_worker ''B'') 1 (Some (from_secs 1)))
         (report_run demo_silent report_state_new) of
       (s', next) \<Rightarrow> new_pending_report (demo_worker ''A'') 1 0 \<notin> set (waiting_of (rs_pending s') ''L'')
         \<and> rs_events s' = rs_events (report_run demo_silent report_state_new)
         \<and> rs_marked s' = rs_marked (report_run demo_silent report_state_new))"
proof -
  define s where "s = report_run demo_silent report_state_new"
  have q: "waiting_of (rs_pending s) ''L'' =
      [new_pending_report (demo_worker ''A'') 1 0, new_pending_report (demo_worker ''B'') 0 (from_secs 1800)]"
    by (simp add: s_def demo_silent_state waiting_of_def)
  have expired: "pending_report_expired (new_pending_report (demo_worker ''A'') 1 0) (re_now (demo_report_env 1802 Thinking))"
    "\<not> pending_report_expired (new_pending_report (demo_worker ''B'') 0 (from_secs 1800)) (re_now (demo_report_env 1802 Thinking))"
    by (simp_all add: demo_report_eval)
  have newer: "newer_queued (demo_worker ''B'') (from_secs 1)
      (filter (\<lambda>x. \<not> pending_report_expired x (re_now (demo_report_env 1802 Thinking))) (waiting_of (rs_pending s) ''L''))"
    using expired by (simp add: q newer_queued_def new_pending_report_def from_secs_def nanos_per_sec_def)
  obtain s' nx where run: "(s', nx) = run_work (demo_report_env 1802 Thinking) (SendReport (demo_worker ''B'') 1 (Some (from_secs 1))) s"
    by (metis surj_pair)
  have q_A: "new_pending_report (demo_worker ''A'') 1 0 \<in> set (waiting_of (rs_pending s) ''L'')" by (simp add: q)
  show ?thesis
    using refused_send_loses_expired [OF demo_env(5) demo_env(2) demo_env(4) _ demo_status(1) _ newer q_A expired(1) run] q_A
    unfolding s_def [symmetric] run [symmetric] by (simp add: strip_prefix_def)
qed


subsection \<open>The queues stay small, and the line is one line\<close>

definition reports_ok :: "pending_worker_report list \<Rightarrow> bool" where
  "reports_ok q = (length q \<le> PENDING_REPORT_MAX_PER_LEADER \<and> distinct (map (tb_id \<circ> pr_worker) q))"

definition queues_ok :: "pending_report_map \<Rightarrow> bool" where
  "queues_ok m = (\<forall>k. reports_ok (waiting_of m k))"

lemma reports_ok_nil [simp]: "reports_ok []"
  by (simp add: reports_ok_def)

lemma queues_ok_clear: "queues_ok m \<Longrightarrow> queues_ok (m(k := None))"
  by (simp add: queues_ok_def)

lemma queues_ok_enqueue:
  assumes "queues_ok m" and "enqueue_pending_report_with_queued_at sid worker a now at m = (m', res)"
  shows "queues_ok m'"
proof -
  define q where "q = filter (\<lambda>r. retain_reason worker now at r = None) (waiting_of m sid)"
  have q: "length q \<le> PENDING_REPORT_MAX_PER_LEADER" "distinct (map (tb_id \<circ> pr_worker) q)"
  proof -
    have "reports_ok (waiting_of m sid)" using assms(1) by (simp add: queues_ok_def)
    then show "length q \<le> PENDING_REPORT_MAX_PER_LEADER" "distinct (map (tb_id \<circ> pr_worker) q)"
      using order_trans [OF length_filter_le] by (auto simp: q_def reports_ok_def intro: distinct_map_filter)
  qed
  have "tb_id worker \<notin> (tb_id \<circ> pr_worker) ` set q" if "\<not> newer_queued worker at q"
    using that by (auto simp: newer_queued_def list_ex_iff q_def retain_reason_def split: if_splits)
  then have new: "distinct (map (tb_id \<circ> pr_worker) (q @ [new_pending_report worker a at]))" if "\<not> newer_queued worker at q"
    using that q(2) by (auto simp: new_pending_report_def)
  have "reports_ok (waiting_of m' sid)"
  proof (cases "newer_queued worker at q")
    case True
    then show ?thesis using assms(2) q by (auto simp: enqueue_pending_report_with_queued_at_def Let_def q_def [symmetric] reports_ok_def)
  next
    case False
    have "length (tl (q @ [new_pending_report worker a at])) \<le> PENDING_REPORT_MAX_PER_LEADER" using q(1) by (simp add: PENDING_REPORT_MAX_PER_LEADER_def)
    moreover have "distinct (map (tb_id \<circ> pr_worker) (tl (q @ [new_pending_report worker a at])))"
      using distinct_tl [OF new [OF False]] by (simp add: map_tl)
    ultimately show ?thesis
      using assms(2) new [OF False] False
      by (auto simp: enqueue_pending_report_with_queued_at_def Let_def q_def [symmetric] reports_ok_def split: if_splits)
  qed
  moreover have "waiting_of m' k = waiting_of m k" if "k \<noteq> sid" for k
    using assms(2) that by (auto simp: enqueue_pending_report_with_queued_at_def Let_def split: if_splits)
  ultimately show ?thesis using assms(1) unfolding queues_ok_def by metis
qed

lemma work_queues: "queues_ok (rs_pending s) \<Longrightarrow> queues_ok (rs_pending (fst (run_work e w s)))"
proof -
  assume ok: "queues_ok (rs_pending s)"
  have enqueue: "queues_ok (rs_pending (fst (enqueue_and_recheck e l sid worker a reason queued_at s)))" for l sid worker a reason queued_at
    using queues_ok_enqueue [OF ok]
    by (auto simp: enqueue_and_recheck_def enqueue_pending_report_at_attempt_def Let_def split: prod.split option.split)
  have terminal: "queues_ok (rs_pending (fst (send_to_terminal e worker l sid a queued_at s)))" for worker l sid a queued_at
    by (auto simp: send_to_terminal_def Let_def enqueue ok queues_ok_clear split: sum.split option.split)
  have dsh: "queues_ok (rs_pending (fst (send_worker_report_to_dsh_leader e worker l sid rest a s)))" for worker l sid rest a
    by (auto simp: send_worker_report_to_dsh_leader_def ok split: prod.split option.split)
  show ?thesis
    by (cases w) (auto simp: flush_pending_reports_def take_pending_reports_def send_worker_report_def terminal dsh ok queues_ok_clear
        scan_leader_def Let_def split: option.split sum.split flush_action.split)
qed

text \<open>At any time at most 32 reports wait for a leader, and at most one of each worker.\<close>

theorem report_queue_bounded:
  "length (waiting_of (rs_pending (report_run es report_state_new)) leader) \<le> PENDING_REPORT_MAX_PER_LEADER
   \<and> distinct (map (tb_id \<circ> pr_worker) (waiting_of (rs_pending (report_run es report_state_new)) leader))"
proof -
  have step: "queues_ok (rs_pending (report_exec (e, ev) s))" if "queues_ok (rs_pending s)" for e ev s
  proof (cases ev)
    case (Progress i)
    have "queues_ok (rs_pending s1)" if "run_work e w (s\<lparr>rs_tasks := t\<rparr>) = (s1, n)" for w t s1 n
      using work_queues [of "s\<lparr>rs_tasks := t\<rparr>" e w] that \<open>queues_ok (rs_pending s)\<close> by simp
    then show ?thesis using that unfolding Progress by (auto simp: progress_def split: list.split prod.split)
  qed (use that in \<open>simp_all add: on_transition_def scan_pending_reports_once_def queues_ok_clear split: sum.split flush_action.split\<close>)
  have "queues_ok (rs_pending (report_run es s))" if "queues_ok (rs_pending s)" for s
    using that
  proof (induction es arbitrary: s)
    case (Cons x es)
    then show ?case by (cases x) (simp add: step)
  qed simp
  moreover have "queues_ok (rs_pending report_state_new)" by (simp add: report_state_new_def queues_ok_def waiting_of_def)
  ultimately show ?thesis by (auto simp: queues_ok_def reports_ok_def)
qed

lemma set_take_chars: "set (take_chars n s) \<subseteq> set s"
proof (induction n s rule: take_chars.induct)
  case (3 n b s)
  then show ?case using set_takeWhileD [of _ cont s] set_dropWhileD [of _ cont s] by fastforce
qed simp_all

lemma sanitize_clean: "c \<in> set (sanitize_pty_line s n) \<Longrightarrow> c = CHR 0x09 \<or> 32 \<le> byte c"
  using set_take_chars unfolding sanitize_pty_line_def by fastforce

text \<open>The 8-bit form of the control sequence introducer, U+009B, is not filtered.\<close>

lemma c1_control_passes: "sanitize_pty_line [CHR 0xC2, CHR 0x9B, CHR 0x32, CHR 0x4A] 500 = [CHR 0xC2, CHR 0x9B, CHR 0x32, CHR 0x4A]"
  by code_simp

end
