(* ===== verification/Directives.thy ===== *)
theory Directives
  imports Pipe_Events Replay_Buffer
begin

text \<open>
  Directives (\<open>src-tauri/src/services/orchestrator_service.rs\<close>, from \<open>DirectiveRuntime\<close> on, and the tool
  \<open>send_to_worker\<close>): a leader session gives its workers instructions that are typed into their
  terminals. A directive for a busy worker waits in a queue of the worker's session.

  As for worker reports, a task is the list of pieces it has still to run, and the pieces of
  different tasks interleave in any order. The texts of the errors are constructors.
\<close>

subsection \<open>The queue\<close>

definition PENDING_DIRECTIVE_TTL_SECS :: nat where "PENDING_DIRECTIVE_TTL_SECS = 30 * 60"
definition PENDING_DIRECTIVE_MAX_PER_SESSION :: nat where "PENDING_DIRECTIVE_MAX_PER_SESSION = 32"

record pending_directive =
  pd_id :: string
  pd_logical_key :: string
  pd_leader :: string
  pd_worker :: string
  pd_session :: string
  pd_workspace :: string
  pd_message :: bytes
  pd_submit :: bool
  pd_attempt :: "32 word"
  pd_queued_at :: instant

type_synonym pending_directive_map = "string \<Rightarrow> pending_directive list option"

type_synonym discarded_directive = "pending_directive \<times> string"

definition pending_directive_expired :: "pending_directive \<Rightarrow> instant \<Rightarrow> bool" where
  "pending_directive_expired d now = (PENDING_DIRECTIVE_TTL_SECS < as_secs (since now (pd_queued_at d)))"

definition discard_reason :: "pending_directive \<Rightarrow> instant \<Rightarrow> pending_directive \<Rightarrow> string option" where
  "discard_reason d now queued =
     (if pending_directive_expired queued now then Some ''expired''
      else if pd_logical_key queued = pd_logical_key d then Some ''superseded''
      else None)"

definition enqueue_pending_directive ::
  "string \<Rightarrow> pending_directive \<Rightarrow> instant \<Rightarrow> pending_directive_map \<Rightarrow> pending_directive_map \<times> nat \<times> discarded_directive list" where
  "enqueue_pending_directive target d now m =
     (let why = discard_reason d now;
          discarded = List.map_filter (\<lambda>x. map_option (Pair x) (why x)) (waiting_of m target);
          queue = filter (\<lambda>x. why x = None) (waiting_of m target) @ [d]
      in if PENDING_DIRECTIVE_MAX_PER_SESSION < length queue
         then (m(target \<mapsto> tl queue), length (tl queue), discarded @ [(hd queue, ''queue-overflow'')])
         else (m(target \<mapsto> queue), length queue, discarded))"

definition take_pending_directives ::
  "string \<Rightarrow> instant \<Rightarrow> pending_directive_map \<Rightarrow> pending_directive_map \<times> pending_directive list \<times> discarded_directive list" where
  "take_pending_directives target now m =
     (m(target := None), filter (\<lambda>d. \<not> pending_directive_expired d now) (waiting_of m target),
      map (\<lambda>d. (d, ''expired'')) (filter (\<lambda>d. pending_directive_expired d now) (waiting_of m target)))"

definition clear_pending_directives :: "string \<Rightarrow> pending_directive_map \<Rightarrow> pending_directive_map \<times> pending_directive list" where
  "clear_pending_directives target m = (m(target := None), waiting_of m target)"

definition prune_expired_pending_directives ::
  "string \<Rightarrow> instant \<Rightarrow> pending_directive_map \<Rightarrow> pending_directive_map \<times> discarded_directive list" where
  "prune_expired_pending_directives target now m =
     (case m target of
        None \<Rightarrow> (m, [])
      | Some queue \<Rightarrow>
          (let kept = filter (\<lambda>d. \<not> pending_directive_expired d now) queue
           in (m(target := (if kept = [] then None else Some kept)),
               map (\<lambda>d. (d, ''expired'')) (filter (\<lambda>d. pending_directive_expired d now) queue))))"

subsection \<open>State and environment\<close>

datatype directive_failure =
    StatusUnreadable string
  | DeliveryFailed string
  | WorkerLost string
  | SessionMissing

datatype directive_attempt =
    DirectiveDelivered
  | DirectiveQueued
  | DirectiveFailed directive_failure

datatype delivery_source = Initial | Redelivery

datatype send_error =
    EmptyMessage
  | CallerWithoutLaunch
  | CallerUnresolved string
  | CallerInactive string
  | CallerLookup string
  | HistoryLookup string
  | CallerUnregistered
  | NotLeader
  | EmptyWorkerSession
  | WorkerLookup string
  | WorkerUnregistered string
  | NotOwnWorker
  | EmptyPlanId
  | ForeignPlan
  | PlanLookup string
  | PlanWithoutWorkers
  | BothTargets
  | NoTarget

record directive_target =
  dt_worker :: string
  dt_session :: "string option"
  dt_project_path :: bytes

datatype directive_work =
    SendTarget task_binding directive_target bytes bool
  | DispatchDirective pending_directive delivery_source
  | DeliverDirective pending_directive delivery_source
  | RecheckDirective pending_directive
  | FlushDirectives string
  | ScanDirectives string
  | ScanWorker string

text \<open>What \<open>record_directive_event\<close> appends to the leader's metadata (which keeps the last 100): event,
  directive and reason.\<close>

type_synonym directive_record = "string \<times> pending_directive \<times> string option"

record directive_state =
  ds_pending :: pending_directive_map
  ds_events :: "pipe_event_spec list"
  ds_records :: "directive_record list"
  ds_typed :: "(pending_directive \<times> bytes) list"
  ds_results :: "(string \<times> directive_attempt) list"
  ds_rejected :: "send_error list"
  ds_tasks :: "directive_work list list"

record directive_env =
  de_now :: instant
  de_uuid :: string
  de_entries :: entries
  de_backend :: backend_sessions
  de_submit :: "string \<Rightarrow> bytes \<Rightarrow> string option"
  de_write :: "string \<Rightarrow> bytes \<Rightarrow> string option"
  de_record_fails :: "string \<Rightarrow> bool"
  de_prompt_file :: "bytes \<Rightarrow> string \<Rightarrow> bytes option"
  de_by_launch :: "string \<Rightarrow> string + string option"
  de_history :: "string \<Rightarrow> string + string option"
  de_by_session :: "string \<Rightarrow> string + task_binding option"
  de_plan_workers :: "string \<Rightarrow> string + task_binding list"

definition directive_state_new :: directive_state where
  "directive_state_new = \<lparr>ds_pending = Map.empty, ds_events = [], ds_records = [], ds_typed = [], ds_results = [],
     ds_rejected = [], ds_tasks = []\<rparr>"

definition query_directive_session_status :: "directive_env \<Rightarrow> string \<Rightarrow> string + session_status option" where
  "query_directive_session_status e sid =
     (case de_backend e sid of
        Inl err \<Rightarrow> Inl err
      | Inr None \<Rightarrow> Inr None
      | Inr (Some (st, at)) \<Rightarrow> Inr (Some (status_for_query_at (de_now e) sid st (de_entries e))))"

subsection \<open>Events and records\<close>

definition directive_event_spec :: "pending_directive \<Rightarrow> pipe_phase \<Rightarrow> string \<Rightarrow> string option \<Rightarrow> pipe_event_spec" where
  "directive_event_spec d phase summary reason =
     \<lparr>pe_correlation = pd_id d, pe_attempt = pd_attempt d, pe_workspace = pd_workspace d, pe_kind = KindMessage,
      pe_phase = phase, pe_from_binding = Some (pd_leader d), pe_to_binding = Some (pd_worker d),
      pe_from_session = None, pe_to_session = Some (pd_session d), pe_summary = summary, pe_reason = reason\<rparr>"

definition emit_directive_event ::
  "pending_directive \<Rightarrow> pipe_phase \<Rightarrow> string \<Rightarrow> string option \<Rightarrow> directive_state \<Rightarrow> directive_state" where
  "emit_directive_event d phase summary reason s = s\<lparr>ds_events := ds_events s @ [directive_event_spec d phase summary reason]\<rparr>"

definition record_directive_event ::
  "directive_env \<Rightarrow> pending_directive \<Rightarrow> string \<Rightarrow> string option \<Rightarrow> directive_state \<Rightarrow> directive_state" where
  "record_directive_event e d kind reason s =
     (if de_record_fails e (pd_leader d) then s else s\<lparr>ds_records := ds_records s @ [(kind, d, reason)]\<rparr>)"

definition record_discarded_directives :: "directive_env \<Rightarrow> discarded_directive list \<Rightarrow> directive_state \<Rightarrow> directive_state" where
  "record_discarded_directives e discarded s =
     fold (\<lambda>(d, reason) s. record_directive_event e d ''failed'' (Some reason)
             (emit_directive_event d PhaseFailed ''directive redelivery failed'' (Some reason) s)) discarded s"

definition discard_target_directives :: "directive_env \<Rightarrow> string \<Rightarrow> string \<Rightarrow> directive_state \<Rightarrow> directive_state" where
  "discard_target_directives e target reason s =
     (let (m, ds) = clear_pending_directives target (ds_pending s)
      in record_discarded_directives e (map (\<lambda>d. (d, reason)) ds) (s\<lparr>ds_pending := m\<rparr>))"

definition finish_directive :: "pending_directive \<Rightarrow> directive_attempt \<Rightarrow> directive_state \<Rightarrow> directive_state" where
  "finish_directive d result s = s\<lparr>ds_results := ds_results s @ [(pd_worker d, result)]\<rparr>"

subsection \<open>Dispatching\<close>

definition directive_text :: "pending_directive \<Rightarrow> bytes" where
  "directive_text d = ''[leader-directive] '' @ pd_message d"

text \<open>The worker is gone: what waits for it is discarded, and the directive fails.\<close>

definition lose_directive :: "directive_env \<Rightarrow> pending_directive \<Rightarrow> string \<Rightarrow> directive_state \<Rightarrow> directive_state" where
  "lose_directive e d reason s =
     finish_directive d (DirectiveFailed (WorkerLost reason))
       (record_directive_event e d ''failed'' (Some reason)
         (emit_directive_event d PhaseFailed reason (Some reason)
           (discard_target_directives e (pd_session d) reason s)))"

definition dispatch_directive ::
  "directive_env \<Rightarrow> pending_directive \<Rightarrow> delivery_source \<Rightarrow> directive_state \<Rightarrow> directive_state \<times> directive_work list" where
  "dispatch_directive e d source s =
     (let d = (if source = Redelivery then d\<lparr>pd_attempt := next_attempt (pd_attempt d)\<rparr> else d)
      in case query_directive_session_status e (pd_session d) of
           Inl err \<Rightarrow>
             (finish_directive d (DirectiveFailed (StatusUnreadable err))
                (record_directive_event e d ''failed'' (Some err)
                  (emit_directive_event d PhaseFailed ''directive status lookup failed'' (Some err) s)), [])
         | Inr None \<Rightarrow> (lose_directive e d ''worker session not found'' s, [])
         | Inr (Some st) \<Rightarrow>
             (if ready_status st
              then (emit_directive_event d PhaseFlowing ''directive flowing'' None s, [DeliverDirective d source])
              else if st = session_status.Error then (lose_directive e d ''worker session error'' s, [])
              else if st = Exited then (lose_directive e d ''worker session exited'' s, [])
              else (let (m, len, discarded) = enqueue_pending_directive (pd_session d) d (de_now e) (ds_pending s)
                    in (record_directive_event e d ''queued'' None
                          (emit_directive_event d PhaseQueued ''directive queued'' None
                            (record_discarded_directives e discarded (s\<lparr>ds_pending := m\<rparr>))),
                        [RecheckDirective d]))))"

text \<open>\<open>deliver_directive_text\<close> submits the text, or pastes it without a line end.\<close>

definition deliver_directive ::
  "directive_env \<Rightarrow> pending_directive \<Rightarrow> delivery_source \<Rightarrow> directive_state \<Rightarrow> directive_state" where
  "deliver_directive e d source s =
     (let text = (if pd_submit d then directive_text d else wrap_bracketed_paste (directive_text d));
          s = s\<lparr>ds_typed := ds_typed s @ [(d, text)]\<rparr>
      in case (if pd_submit d then de_submit e (pd_session d) text else de_write e (pd_session d) text) of
           None \<Rightarrow>
             finish_directive d DirectiveDelivered
               (emit_directive_event d PhaseDelivered ''directive delivered'' None
                 (record_directive_event e d (case source of Initial \<Rightarrow> ''delivered'' | Redelivery \<Rightarrow> ''redelivered'') None s))
         | Some err \<Rightarrow>
             finish_directive d (DirectiveFailed (DeliveryFailed err))
               (record_directive_event e d ''failed'' (Some err)
                 (emit_directive_event d PhaseFailed ''directive delivery failed'' (Some err) s)))"

definition start_task :: "directive_work list \<Rightarrow> directive_state \<Rightarrow> directive_state" where
  "start_task t s = s\<lparr>ds_tasks := ds_tasks s @ [t]\<rparr>"

definition recheck_directive :: "directive_env \<Rightarrow> pending_directive \<Rightarrow> directive_state \<Rightarrow> directive_state" where
  "recheck_directive e d s =
     finish_directive d DirectiveQueued
       (case query_directive_session_status e (pd_session d) of
          Inr (Some st) \<Rightarrow> if ready_status st then start_task [FlushDirectives (pd_session d)] s else s
        | _ \<Rightarrow> s)"

definition flush_pending_directives :: "directive_env \<Rightarrow> string \<Rightarrow> directive_state \<Rightarrow> directive_state \<times> directive_work list" where
  "flush_pending_directives e target s =
     (let (m, ds, discarded) = take_pending_directives target (de_now e) (ds_pending s)
      in (record_discarded_directives e discarded (s\<lparr>ds_pending := m\<rparr>), map (\<lambda>d. DispatchDirective d Redelivery) ds))"

text \<open>The scan of one session: first the expired ones, then, if any is left, the state of the worker.\<close>

definition scan_directives :: "directive_env \<Rightarrow> string \<Rightarrow> directive_state \<Rightarrow> directive_state \<times> directive_work list" where
  "scan_directives e target s =
     (let (m, discarded) = prune_expired_pending_directives target (de_now e) (ds_pending s)
      in (record_discarded_directives e discarded (s\<lparr>ds_pending := m\<rparr>), if m target \<noteq> None then [ScanWorker target] else []))"

definition scan_worker :: "directive_env \<Rightarrow> string \<Rightarrow> directive_state \<Rightarrow> directive_state \<times> directive_work list" where
  "scan_worker e target s =
     (case query_directive_session_status e target of
        Inl err \<Rightarrow> (s, [])
      | Inr None \<Rightarrow> (discard_target_directives e target ''worker session unavailable'' s, [])
      | Inr (Some st) \<Rightarrow>
          (if ready_status st then (s, [FlushDirectives target])
           else if st = session_status.Error then (discard_target_directives e target ''worker session error'' s, [])
           else if st = Exited then (discard_target_directives e target ''worker session unavailable'' s, [])
           else (s, [])))"


subsection \<open>The tool \<open>send_to_worker\<close>\<close>

text \<open>The caller is known by the \<open>launchId\<close> of its MCP endpoint's query string.\<close>

definition caller_launch_id :: "string option \<Rightarrow> string option" where
  "caller_launch_id query =
     (case query of
        None \<Rightarrow> None
      | Some q \<Rightarrow>
          first_some (\<lambda>pair. case strip_prefix ''launchId='' pair of Some v \<Rightarrow> if v \<noteq> [] then Some v else None | None \<Rightarrow> None)
            (split_on CHR ''&'' q))"

definition resolve_caller_session_id :: "directive_env \<Rightarrow> string option \<Rightarrow> send_error + string" where
  "resolve_caller_session_id e query =
     (case caller_launch_id query of
        None \<Rightarrow> Inl CallerWithoutLaunch
      | Some launch_id \<Rightarrow>
          (case de_by_launch e launch_id of
             Inl err \<Rightarrow> Inl (CallerUnresolved err)
           | Inr (Some sid) \<Rightarrow> Inr sid
           | Inr None \<Rightarrow>
               (case de_history e launch_id of
                  Inl err \<Rightarrow> Inl (HistoryLookup err)
                | Inr (Some sid) \<Rightarrow> Inr sid
                | Inr None \<Rightarrow> Inl (CallerInactive launch_id))))"

definition target_of :: "task_binding \<Rightarrow> directive_target" where
  "target_of w = \<lparr>dt_worker = tb_id w, dt_session = tb_session w, dt_project_path = tb_project_path w\<rparr>"

definition resolve_worker :: "directive_env \<Rightarrow> task_binding \<Rightarrow> string \<Rightarrow> send_error + directive_target list" where
  "resolve_worker e leader worker_session =
     (let sid = trim worker_session
      in if sid = [] then Inl EmptyWorkerSession
         else (case de_by_session e sid of
                 Inl err \<Rightarrow> Inl (WorkerLookup err)
               | Inr None \<Rightarrow> Inl (WorkerUnregistered sid)
               | Inr (Some worker) \<Rightarrow>
                   if tb_role worker \<noteq> RoleWorker \<or> tb_parent worker \<noteq> Some (tb_id leader) then Inl NotOwnWorker
                   else Inr [target_of worker]))"

definition resolve_plan :: "directive_env \<Rightarrow> task_binding \<Rightarrow> string \<Rightarrow> send_error + directive_target list" where
  "resolve_plan e leader plan_id =
     (let plan_id = trim plan_id
      in if plan_id = [] then Inl EmptyPlanId
         else if plan_id \<noteq> tb_id leader then Inl ForeignPlan
         else (case de_plan_workers e plan_id of
                 Inl err \<Rightarrow> Inl (PlanLookup err)
               | Inr [] \<Rightarrow> Inl PlanWithoutWorkers
               | Inr workers \<Rightarrow> Inr (map target_of workers)))"

definition resolve_directive_targets ::
  "directive_env \<Rightarrow> string \<Rightarrow> string option \<Rightarrow> string option \<Rightarrow> send_error + task_binding \<times> directive_target list" where
  "resolve_directive_targets e caller worker_session plan_id =
     (case de_by_session e caller of
        Inl err \<Rightarrow> Inl (CallerLookup err)
      | Inr None \<Rightarrow> Inl CallerUnregistered
      | Inr (Some leader) \<Rightarrow>
          if tb_role leader \<noteq> RoleLeader then Inl NotLeader
          else (case (worker_session, plan_id) of
                  (Some sid, None) \<Rightarrow> (case resolve_worker e leader sid of Inl err \<Rightarrow> Inl err | Inr ts \<Rightarrow> Inr (leader, ts))
                | (None, Some p) \<Rightarrow> (case resolve_plan e leader p of Inl err \<Rightarrow> Inl err | Inr ts \<Rightarrow> Inr (leader, ts))
                | (Some sid, Some p) \<Rightarrow> Inl BothTargets
                | (None, None) \<Rightarrow> Inl NoTarget))"

definition PROMPT_FILE_THRESHOLD :: nat where "PROMPT_FILE_THRESHOLD = 8192"

definition externalize_long_prompt :: "directive_env \<Rightarrow> bytes \<Rightarrow> string \<Rightarrow> bytes \<Rightarrow> bytes" where
  "externalize_long_prompt e project_path i prompt =
     (if length prompt \<le> PROMPT_FILE_THRESHOLD then prompt
      else (case de_prompt_file e project_path i of
              Some file \<Rightarrow>
                ''Read the detailed task description from '' @ [CHR 0x27] @ file @ [CHR 0x27] @
                '' and execute it. After reading, delete the file.''
            | None \<Rightarrow> prompt))"

definition new_directive :: "directive_env \<Rightarrow> task_binding \<Rightarrow> directive_target \<Rightarrow> string \<Rightarrow> bytes \<Rightarrow> bool \<Rightarrow> pending_directive" where
  "new_directive e leader t sid message submit =
     \<lparr>pd_id = de_uuid e, pd_logical_key = tb_id leader, pd_leader = tb_id leader, pd_worker = dt_worker t, pd_session = sid,
      pd_workspace = pipe_workspace_id (tb_workspace_name leader) (Some (dt_project_path t)),
      pd_message = externalize_long_prompt e (dt_project_path t) (de_uuid e) message, pd_submit = submit, pd_attempt = 0,
      pd_queued_at = de_now e\<rparr>"

definition send_target ::
  "directive_env \<Rightarrow> task_binding \<Rightarrow> directive_target \<Rightarrow> bytes \<Rightarrow> bool \<Rightarrow> directive_state \<Rightarrow> directive_state \<times> directive_work list" where
  "send_target e leader t message submit s =
     (case dt_session t of
        None \<Rightarrow> (s\<lparr>ds_results := ds_results s @ [(dt_worker t, DirectiveFailed SessionMissing)]\<rparr>, [])
      | Some sid \<Rightarrow> (s, [DispatchDirective (new_directive e leader t sid message submit) Initial]))"

definition resolve_send ::
  "directive_env \<Rightarrow> string option \<Rightarrow> string option \<Rightarrow> string option \<Rightarrow> bytes \<Rightarrow> send_error + task_binding \<times> directive_target list" where
  "resolve_send e query worker_session plan_id message =
     (if trim message = [] then Inl EmptyMessage
      else (case resolve_caller_session_id e query of
              Inl err \<Rightarrow> Inl err
            | Inr caller \<Rightarrow> resolve_directive_targets e caller worker_session plan_id))"

definition send_to_worker ::
  "directive_env \<Rightarrow> string option \<Rightarrow> string option \<Rightarrow> string option \<Rightarrow> bytes \<Rightarrow> bool option \<Rightarrow> directive_state \<Rightarrow> directive_state" where
  "send_to_worker e query worker_session plan_id message submit s =
     (case resolve_send e query worker_session plan_id message of
        Inl err \<Rightarrow> s\<lparr>ds_rejected := ds_rejected s @ [err]\<rparr>
      | Inr (leader, targets) \<Rightarrow>
          start_task (map (\<lambda>t. SendTarget leader t message (case submit of Some b \<Rightarrow> b | None \<Rightarrow> True)) targets) s)"

subsection \<open>Runs\<close>

fun run_directive_work :: "directive_env \<Rightarrow> directive_work \<Rightarrow> directive_state \<Rightarrow> directive_state \<times> directive_work list" where
  "run_directive_work e (SendTarget leader t message submit) s = send_target e leader t message submit s"
| "run_directive_work e (DispatchDirective d source) s = dispatch_directive e d source s"
| "run_directive_work e (DeliverDirective d source) s = (deliver_directive e d source s, [])"
| "run_directive_work e (RecheckDirective d) s = (recheck_directive e d s, [])"
| "run_directive_work e (FlushDirectives target) s = flush_pending_directives e target s"
| "run_directive_work e (ScanDirectives target) s = scan_directives e target s"
| "run_directive_work e (ScanWorker target) s = scan_worker e target s"

datatype directive_event =
    SendToWorker "string option" "string option" "string option" bytes "bool option"
  | WorkerTransition string session_status
  | DirectiveScan "string list"
  | Work nat

definition on_worker_transition :: "directive_env \<Rightarrow> string \<Rightarrow> session_status \<Rightarrow> directive_state \<Rightarrow> directive_state" where
  "on_worker_transition e sid to s =
     (case pending_flush_action to of
        FlushPending \<Rightarrow> start_task [FlushDirectives sid] s
      | ClearPending \<Rightarrow> discard_target_directives e sid ''worker session terminated'' s
      | KeepPending \<Rightarrow> s)"

definition scan_pending_directives_once :: "string list \<Rightarrow> directive_state \<Rightarrow> directive_state" where
  "scan_pending_directives_once order s =
     start_task (map ScanDirectives (filter (\<lambda>sid. waiting_of (ds_pending s) sid \<noteq> []) order)) s"

definition work_on :: "directive_env \<Rightarrow> nat \<Rightarrow> directive_state \<Rightarrow> directive_state" where
  "work_on e i s =
     (if i < length (ds_tasks s)
      then (case ds_tasks s ! i of
              [] \<Rightarrow> s
            | w # ws \<Rightarrow>
                (case run_directive_work e w (s\<lparr>ds_tasks := (ds_tasks s)[i := ws]\<rparr>) of
                   (s, next) \<Rightarrow> s\<lparr>ds_tasks := (ds_tasks s)[i := next @ ds_tasks s ! i]\<rparr>))
      else s)"

fun directive_exec :: "directive_env \<times> directive_event \<Rightarrow> directive_state \<Rightarrow> directive_state" where
  "directive_exec (e, SendToWorker query worker_session plan_id message submit) s =
     send_to_worker e query worker_session plan_id message submit s"
| "directive_exec (e, WorkerTransition sid to) s = on_worker_transition e sid to s"
| "directive_exec (e, DirectiveScan order) s = scan_pending_directives_once order s"
| "directive_exec (e, Work i) s = work_on e i s"

definition directive_run :: "(directive_env \<times> directive_event) list \<Rightarrow> directive_state \<Rightarrow> directive_state" where
  "directive_run es s = fold directive_exec es s"

lemma directive_run_simps [simp]:
  "directive_run [] s = s" "directive_run (x # es) s = directive_run es (directive_exec x s)"
  "directive_run (es @ es') s = directive_run es' (directive_run es s)"
  by (simp_all add: directive_run_def)


subsection \<open>Directives go to the leader's own workers\<close>

text \<open>A relation between leader, worker and session that the sender vouches for.\<close>

type_synonym vouching = "string \<Rightarrow> string \<Rightarrow> string \<Rightarrow> bool"

definition vouched :: "vouching \<Rightarrow> pending_directive \<Rightarrow> bool" where
  "vouched R d = R (pd_leader d) (pd_worker d) (pd_session d)"

fun work_vouched :: "vouching \<Rightarrow> directive_work \<Rightarrow> bool" where
  "work_vouched R (SendTarget leader t message submit) = (\<forall>sid. dt_session t = Some sid \<longrightarrow> R (tb_id leader) (dt_worker t) sid)"
| "work_vouched R (DispatchDirective d source) = vouched R d"
| "work_vouched R (DeliverDirective d source) = vouched R d"
| "work_vouched R w = True"

definition all_vouched :: "vouching \<Rightarrow> directive_state \<Rightarrow> bool" where
  "all_vouched R s = ((\<forall>k. \<forall>d \<in> set (waiting_of (ds_pending s) k). vouched R d)
     \<and> (\<forall>(d, text) \<in> set (ds_typed s). vouched R d) \<and> (\<forall>t \<in> set (ds_tasks s). \<forall>w \<in> set t. work_vouched R w))"

definition same_directives :: "directive_state \<Rightarrow> directive_state \<Rightarrow> bool" where
  "same_directives s s' = (ds_pending s' = ds_pending s \<and> ds_typed s' = ds_typed s \<and> ds_tasks s' = ds_tasks s)"

lemma discarded_frame [simp]:
  "ds_pending (record_discarded_directives e xs s) = ds_pending s" "ds_typed (record_discarded_directives e xs s) = ds_typed s"
  "ds_tasks (record_discarded_directives e xs s) = ds_tasks s"
  unfolding record_discarded_directives_def
  by (induction xs arbitrary: s) (simp_all add: record_directive_event_def emit_directive_event_def split_beta)

lemma directive_frame [simp]:
  "ds_pending (record_directive_event e d k r s) = ds_pending s" "ds_typed (record_directive_event e d k r s) = ds_typed s"
  "ds_tasks (record_directive_event e d k r s) = ds_tasks s"
  "ds_pending (emit_directive_event d p su r s) = ds_pending s" "ds_typed (emit_directive_event d p su r s) = ds_typed s"
  "ds_tasks (emit_directive_event d p su r s) = ds_tasks s"
  "ds_pending (finish_directive d a s) = ds_pending s" "ds_typed (finish_directive d a s) = ds_typed s"
  "ds_tasks (finish_directive d a s) = ds_tasks s"
  "ds_pending (start_task t s) = ds_pending s" "ds_typed (start_task t s) = ds_typed s" "ds_tasks (start_task t s) = ds_tasks s @ [t]"
  by (simp_all add: record_directive_event_def emit_directive_event_def finish_directive_def start_task_def)

lemma discard_frame [simp]:
  "ds_pending (discard_target_directives e target r s) = (ds_pending s)(target := None)"
  "ds_typed (discard_target_directives e target r s) = ds_typed s" "ds_tasks (discard_target_directives e target r s) = ds_tasks s"
  "ds_pending (lose_directive e d r s) = (ds_pending s)(pd_session d := None)"
  "ds_typed (lose_directive e d r s) = ds_typed s" "ds_tasks (lose_directive e d r s) = ds_tasks s"
  by (simp_all add: discard_target_directives_def clear_pending_directives_def lose_directive_def)

lemma queue_enqueue:
  "d' \<in> set (waiting_of (fst (enqueue_pending_directive target d now m)) k) \<Longrightarrow> d' = d \<or> d' \<in> set (waiting_of m k)"
proof -
  define q where "q = filter (\<lambda>x. discard_reason d now x = None) (waiting_of m target) @ [d]"
  have "set (tl q) \<subseteq> set q" by (cases q) auto
  then show "d' \<in> set (waiting_of (fst (enqueue_pending_directive target d now m)) k) \<Longrightarrow> d' = d \<or> d' \<in> set (waiting_of m k)"
    by (auto simp: enqueue_pending_directive_def Let_def q_def [symmetric] split: if_splits) (auto simp: q_def)
qed

lemma queue_prune: "d \<in> set (waiting_of (fst (prune_expired_pending_directives target now m)) k) \<Longrightarrow> d \<in> set (waiting_of m k)"
  by (auto simp: prune_expired_pending_directives_def waiting_of_def Let_def split: option.splits if_splits)

lemma vouched_attempt [simp]: "vouched R (d\<lparr>pd_attempt := n\<rparr>) = vouched R d"
  by (simp add: vouched_def)

lemma dispatch_vouched:
  assumes "all_vouched R s" and "vouched R d"
  shows "all_vouched R (fst (dispatch_directive e d source s)) \<and> list_all (work_vouched R) (snd (dispatch_directive e d source s))"
proof -
  define d' where "d' = (if source = Redelivery then d\<lparr>pd_attempt := next_attempt (pd_attempt d)\<rparr> else d)"
  have d': "vouched R d'" using assms(2) by (simp add: d'_def)
  have "\<forall>x \<in> set (waiting_of (fst (enqueue_pending_directive t d' now (ds_pending s))) k). vouched R x" for t now k
    using queue_enqueue d' assms(1) by (fastforce simp: all_vouched_def)
  then have queued: "\<forall>x \<in> set (waiting_of m k). vouched R x"
    if "enqueue_pending_directive t d' now (ds_pending s) = (m, rest)" for t now k m rest
    using that by (metis fst_conv)
  show ?thesis
    unfolding dispatch_directive_def Let_def d'_def [symmetric]
    using assms(1) d' queued by (auto simp: all_vouched_def split: sum.split option.split prod.split)
qed

lemma work_step_vouched:
  assumes "all_vouched R s" and "work_vouched R w"
  shows "all_vouched R (fst (run_directive_work e w s)) \<and> list_all (work_vouched R) (snd (run_directive_work e w s))"
proof (cases w)
  case (DeliverDirective d source)
  then show ?thesis using assms by (auto simp: deliver_directive_def Let_def all_vouched_def split: option.split)
next
  case (ScanDirectives target)
  have "\<forall>x \<in> set (waiting_of m k). vouched R x"
    if "prune_expired_pending_directives target (de_now e) (ds_pending s) = (m, rest)" for m rest k
    using queue_prune [of _ target "de_now e" "ds_pending s" k] that assms(1) by (auto simp: all_vouched_def)
  then show ?thesis using assms(1) ScanDirectives by (auto simp: scan_directives_def all_vouched_def split: prod.split)
qed (use assms dispatch_vouched [OF assms(1)] in
  \<open>auto simp: send_target_def new_directive_def vouched_def recheck_directive_def flush_pending_directives_def
     take_pending_directives_def scan_worker_def all_vouched_def list_all_iff split: option.split sum.split\<close>)

lemma work_on_vouched: "all_vouched R s \<Longrightarrow> all_vouched R (work_on e i s)"
proof (cases "i < length (ds_tasks s) \<and> ds_tasks s ! i \<noteq> []")
  case True
  assume ok: "all_vouched R s"
  from True obtain w ws where t: "ds_tasks s ! i = w # ws" and i: "i < length (ds_tasks s)" by (cases "ds_tasks s ! i") auto
  then have task: "\<forall>x \<in> set (w # ws). work_vouched R x" using ok by (metis all_vouched_def nth_mem)
  define s0 where "s0 = s\<lparr>ds_tasks := (ds_tasks s)[i := ws]\<rparr>"
  have "all_vouched R s0" using ok task by (auto simp: s0_def all_vouched_def dest!: subsetD [OF set_update_subset_insert])
  then have step: "all_vouched R (fst (run_directive_work e w s0)) \<and> list_all (work_vouched R) (snd (run_directive_work e w s0))"
    using work_step_vouched task by simp
  obtain s1 nx where run: "run_directive_work e w s0 = (s1, nx)" by (cases "run_directive_work e w s0")
  have "i < length (ds_tasks s1) \<longrightarrow> (\<forall>x \<in> set (ds_tasks s1 ! i). work_vouched R x)"
    using step run by (auto simp: all_vouched_def)
  then have "\<forall>x \<in> set ((ds_tasks s1)[i := nx @ ds_tasks s1 ! i]). \<forall>y \<in> set x. work_vouched R y"
    using step run
    by (cases "i < length (ds_tasks s1)")
      (auto simp: all_vouched_def list_all_iff list_update_beyond dest!: subsetD [OF set_update_subset_insert])
  then show ?thesis
    using step run i t by (simp add: work_on_def s0_def [symmetric] all_vouched_def)
qed (auto simp: work_on_def split: list.split)

lemma exec_vouched:
  assumes "all_vouched R s"
    and "\<And>query ws plan msg submit leader targets t sid. ev = SendToWorker query ws plan msg submit \<Longrightarrow>
      resolve_send e query ws plan msg = Inr (leader, targets) \<Longrightarrow> t \<in> set targets \<Longrightarrow> dt_session t = Some sid \<Longrightarrow>
      R (tb_id leader) (dt_worker t) sid"
  shows "all_vouched R (directive_exec (e, ev) s)"
  using assms work_on_vouched [OF assms(1)]
  by (cases ev) (auto simp: send_to_worker_def on_worker_transition_def scan_pending_directives_once_def all_vouched_def
      split: sum.split flush_action.split)


text \<open>The sender: the binding of the calling session is a leader, and the receiver is registered as its
  worker, or belongs to its plan.\<close>

definition sent_by_leader :: "(directive_env \<times> directive_event) list \<Rightarrow> vouching" where
  "sent_by_leader es l w sid =
     (\<exists>e query ws plan msg submit caller leader worker.
        (e, SendToWorker query ws plan msg submit) \<in> set es
        \<and> resolve_caller_session_id e query = Inr caller \<and> de_by_session e caller = Inr (Some leader)
        \<and> tb_role leader = RoleLeader \<and> tb_id leader = l \<and> tb_id worker = w \<and> tb_session worker = Some sid
        \<and> ((\<exists>x. de_by_session e x = Inr (Some worker)) \<and> tb_role worker = RoleWorker \<and> tb_parent worker = Some l
           \<or> (\<exists>workers. de_plan_workers e l = Inr workers \<and> worker \<in> set workers)))"

lemma resolve_send_vouches:
  assumes "resolve_send e query ws plan msg = Inr (leader, targets)" and "t \<in> set targets" and "dt_session t = Some sid"
    and "(e, SendToWorker query ws plan msg submit) \<in> set es"
  shows "sent_by_leader es (tb_id leader) (dt_worker t) sid"
proof -
  obtain caller where caller: "resolve_caller_session_id e query = Inr caller"
    and targets: "resolve_directive_targets e caller ws plan = Inr (leader, targets)"
    using assms(1) by (auto simp: resolve_send_def split: if_splits sum.splits)
  then have leader: "de_by_session e caller = Inr (Some leader)" "tb_role leader = RoleLeader"
    by (auto simp: resolve_directive_targets_def split: sum.splits option.splits if_splits)
  have "\<exists>worker. t = target_of worker \<and> ((\<exists>x. de_by_session e x = Inr (Some worker)) \<and> tb_role worker = RoleWorker
        \<and> tb_parent worker = Some (tb_id leader) \<or> (\<exists>workers. de_plan_workers e (tb_id leader) = Inr workers \<and> worker \<in> set workers))"
  proof (cases ws)
    case (Some w)
    then have "resolve_worker e leader w = Inr targets"
      using targets by (auto simp: resolve_directive_targets_def split: sum.splits option.splits if_splits)
    then show ?thesis
      using assms(2) by (auto simp: resolve_worker_def Let_def split: if_splits sum.splits option.splits)
  next
    case None
    then obtain p where "resolve_plan e leader p = Inr targets"
      using targets by (auto simp: resolve_directive_targets_def split: sum.splits option.splits if_splits)
    then show ?thesis
      using assms(2) by (auto simp: resolve_plan_def Let_def split: if_splits sum.splits list.splits)
  qed
  then show ?thesis
    using caller leader assms(3,4) unfolding sent_by_leader_def target_of_def by fastforce
qed

lemma run_vouched:
  "all_vouched R s \<Longrightarrow>
   (\<And>e query ws plan msg submit leader targets t sid. (e, SendToWorker query ws plan msg submit) \<in> set es \<Longrightarrow>
      resolve_send e query ws plan msg = Inr (leader, targets) \<Longrightarrow> t \<in> set targets \<Longrightarrow> dt_session t = Some sid \<Longrightarrow>
      R (tb_id leader) (dt_worker t) sid) \<Longrightarrow>
   all_vouched R (directive_run es s)"
proof (induction es arbitrary: s)
  case (Cons x es)
  obtain e ev where x: "x = (e, ev)" by (cases x)
  have step: "all_vouched R (directive_exec x s)" unfolding x
    by (rule exec_vouched [OF Cons.prems(1)]) (rule Cons.prems(2), auto simp: x)
  show ?case unfolding directive_run_simps
    by (rule Cons.IH [OF step]) (rule Cons.prems(2) [OF list.set_intros(2)], assumption+)
qed simp

text \<open>C22: A directive is typed only into a terminal of the leader's own workers. Over any run, whatever
  waits, is flushed, scanned or sent again: for every text handed to a session there was a call of
  \<open>send_to_worker\<close> whose caller is registered as a leader, and the session is that of a worker
  registered under this leader, or a member of the leader's plan.\<close>

theorem directives_reach_own_workers:
  assumes "(d, text) \<in> set (ds_typed (directive_run es directive_state_new))"
  shows "sent_by_leader es (pd_leader d) (pd_worker d) (pd_session d)"
proof -
  have "all_vouched (sent_by_leader es) (directive_run es directive_state_new)"
    by (rule run_vouched) (auto simp: directive_state_new_def all_vouched_def waiting_of_def intro: resolve_send_vouches)
  then show ?thesis using assms by (auto simp: all_vouched_def vouched_def)
qed

subsection \<open>Two slips\<close>

text \<open>An older directive replaces a newer one. A directive that a flush has taken and that finds the
  worker busy again goes back to the queue; if the leader has sent another one meanwhile, it is this
  newer one that is discarded as superseded, and the older one waits (worker reports compare the
  times, directives do not).\<close>

theorem stale_directive_supersedes:
  assumes busy: "query_directive_session_status e (pd_session d) = Inr (Some st)" "pending_flush_action st = KeepPending"
    and newer: "d' \<in> set (waiting_of (ds_pending s) (pd_session d))" "pd_logical_key d' = pd_logical_key d"
      "pd_queued_at d < pd_queued_at d'" "\<not> pending_directive_expired d' (de_now e)"
    and distinct: "d' \<noteq> d\<lparr>pd_attempt := next_attempt (pd_attempt d)\<rparr>"
    and run: "(s', next) = run_directive_work e (DispatchDirective d Redelivery) s"
  shows "d' \<notin> set (waiting_of (ds_pending s') (pd_session d))
    \<and> d\<lparr>pd_attempt := next_attempt (pd_attempt d)\<rparr> \<in> set (waiting_of (ds_pending s') (pd_session d))
    \<and> directive_event_spec d' PhaseFailed ''directive redelivery failed'' (Some ''superseded'') \<in> set (ds_events s')"
proof -
  define d1 where "d1 = d\<lparr>pd_attempt := next_attempt (pd_attempt d)\<rparr>"
  have d1: "pd_session d1 = pd_session d" "pd_logical_key d1 = pd_logical_key d" by (simp_all add: d1_def)
  have st: "\<not> ready_status st" "st \<noteq> session_status.Error" "st \<noteq> Exited" using busy(2) ready_flushes [of st] by auto
  define q where "q = filter (\<lambda>x. discard_reason d1 (de_now e) x = None) (waiting_of (ds_pending s) (pd_session d))"
  define gone where "gone = List.map_filter (\<lambda>x. map_option (Pair x) (discard_reason d1 (de_now e) x)) (waiting_of (ds_pending s) (pd_session d))"
  have why: "discard_reason d1 (de_now e) d' = Some ''superseded''" using newer(2,4) d1(2) by (simp add: discard_reason_def)
  then have d'_gone: "(d', ''superseded'') \<in> set gone"
    using newer(1) unfolding gone_def List.map_filter_def by (auto intro!: image_eqI [of _ _ d'])
  have d'_q: "d' \<notin> set q" using why by (simp add: q_def)
  obtain m len discarded where enq: "enqueue_pending_directive (pd_session d) d1 (de_now e) (ds_pending s) = (m, len, discarded)"
    by (cases "enqueue_pending_directive (pd_session d) d1 (de_now e) (ds_pending s)")
  have m: "waiting_of m (pd_session d) = q @ [d1] \<or> waiting_of m (pd_session d) = tl (q @ [d1]) \<and> q \<noteq> []" "set gone \<subseteq> set discarded"
    using enq by (auto simp: enqueue_pending_directive_def Let_def q_def gone_def PENDING_DIRECTIVE_MAX_PER_SESSION_def split: if_splits)
  then have queue: "d' \<notin> set (waiting_of m (pd_session d))" "d1 \<in> set (waiting_of m (pd_session d))"
    using d'_q distinct by (auto simp: d1_def [symmetric] dest: list.set_sel(2))
  have told: "\<forall>(x, r) \<in> set xs. directive_event_spec x PhaseFailed ''directive redelivery failed'' (Some r) \<in> set (ds_events (record_discarded_directives e xs t))"
    for xs t
  proof -
    have keep: "set (ds_events t) \<subseteq> set (ds_events (record_discarded_directives e xs t))" for xs t
      unfolding record_discarded_directives_def
      by (induction xs arbitrary: t) (force simp: record_directive_event_def emit_directive_event_def split: if_splits)+
    show ?thesis
    proof (induction xs arbitrary: t)
      case (Cons x xs)
      obtain y r where x: "x = (y, r)" by (cases x)
      define t1 where "t1 = record_directive_event e y ''failed'' (Some r)
          (emit_directive_event y PhaseFailed ''directive redelivery failed'' (Some r) t)"
      have "directive_event_spec y PhaseFailed ''directive redelivery failed'' (Some r) \<in> set (ds_events t1)"
        by (simp add: t1_def record_directive_event_def emit_directive_event_def)
      moreover have "record_discarded_directives e (x # xs) t = record_discarded_directives e xs t1"
        by (simp add: record_discarded_directives_def x t1_def)
      ultimately show ?case using Cons.IH [of t1] keep [of t1 xs] x by auto
    qed simp
  qed
  have "directive_event_spec d' PhaseFailed ''directive redelivery failed'' (Some ''superseded'')
      \<in> set (ds_events (record_discarded_directives e discarded (s\<lparr>ds_pending := m\<rparr>)))"
    using told [of discarded] d'_gone m(2) by blast
  moreover have "s' = record_directive_event e d1 ''queued'' None (emit_directive_event d1 PhaseQueued ''directive queued'' None
      (record_discarded_directives e discarded (s\<lparr>ds_pending := m\<rparr>)))"
    using run busy(1) st enq by (simp add: dispatch_directive_def Let_def d1_def [symmetric] d1(1))
  ultimately show ?thesis using queue by (simp add: d1_def record_directive_event_def emit_directive_event_def)
qed


lemma busy_not_ready: "is_busy x \<Longrightarrow> x \<noteq> Idle \<and> x \<noteq> WaitingInput \<and> x \<noteq> session_status.Error \<and> x \<noteq> Exited"
  by (cases x) (simp_all add: is_busy_def)

text \<open>Directives trust the weaker status. A worker whose hooks have been silent for ten minutes while
  it is still writing output (a long tool run) counts as idle for a directive, which is typed into the
  running tool; the status for automatic submission, which the machine's documentation demands for
  this and which tasks and worker reports use, does not report the session as ready.\<close>

theorem directive_typed_while_busy:
  assumes "de_entries e (pd_session d) = Some en" and "is_busy (se_status en)"
    and "de_backend e (pd_session d) = Inr (Some (st, at))" and "is_busy st"
    and silent: "STALE_BUSY_TIMEOUT_SECS < as_secs (since (de_now e) (se_last_hook en))"
    and writing: "saturating_sub epoch at \<le> AUTOMATIC_SUBMIT_PTY_IDLE_MS"
  shows "snd (run_directive_work e (DispatchDirective d Initial) s) = [DeliverDirective d Initial]
    \<and> \<not> ready_status (status_for_automatic_submit (de_now e) epoch (pd_session d) st at (de_entries e))"
proof -
  have "query_directive_session_status e (pd_session d) = Inr (Some Idle)"
    using assms by (simp add: query_directive_session_status_def status_for_query_at_def)
  moreover have "\<not> ready_status (status_for_automatic_submit (de_now e) epoch (pd_session d) st at (de_entries e))"
    using assms busy_not_ready [OF assms(2)] busy_not_ready [OF assms(4)]
    by (auto simp: status_for_automatic_submit_def status_for_automatic_submit_at_def Let_def ready_status_def)
  ultimately show ?thesis by (simp add: dispatch_directive_def ready_status_def)
qed

subsection \<open>Concrete runs\<close>

definition lead_binding :: task_binding where
  "lead_binding = \<lparr>tb_id = ''P'', tb_role = RoleLeader, tb_parent = None, tb_session = Some ''L'', tb_project_path = ''/p'',
     tb_workspace_name = None, tb_status = BindRunning, tb_summary = None, tb_metadata = None\<rparr>"

definition work_binding :: task_binding where
  "work_binding = lead_binding\<lparr>tb_id := ''W'', tb_role := RoleWorker, tb_parent := Some ''P'', tb_session := Some ''V''\<rparr>"

text \<open>Seconds on the clock, the id of the next directive, and the state of the worker's session.\<close>

definition demo_directive_env :: "nat \<Rightarrow> string \<Rightarrow> session_status \<Rightarrow> directive_env" where
  "demo_directive_env t i st =
     \<lparr>de_now = from_secs t, de_uuid = i, de_entries = Map.empty, de_backend = (\<lambda>s. Inr (Some (st, 0))),
      de_submit = (\<lambda>s x. None), de_write = (\<lambda>s x. None), de_record_fails = (\<lambda>l. False), de_prompt_file = (\<lambda>p i. None),
      de_by_launch = (\<lambda>l. Inr (Some ''L'')), de_history = (\<lambda>l. Inr None),
      de_by_session = (\<lambda>s. Inr (if s = ''L'' then Some lead_binding else if s = ''V'' then Some work_binding else None)),
      de_plan_workers = (\<lambda>p. Inr [work_binding])\<rparr>"

lemma demo_directive_env [simp]:
  "de_now (demo_directive_env t i st) = from_secs t" "de_uuid (demo_directive_env t i st) = i"
  "de_submit (demo_directive_env t i st) x y = None" "de_by_launch (demo_directive_env t i st) l = Inr (Some ''L'')"
  "de_by_session (demo_directive_env t i st) sid =
     Inr (if sid = ''L'' then Some lead_binding else if sid = ''V'' then Some work_binding else None)"
  by (simp_all add: demo_directive_env_def)

definition demo_send_event :: directive_event where
  "demo_send_event = SendToWorker (Some ''launchId=x'') (Some ''V'') None ''go'' None"

lemma demo_trims: "trim ''V'' = ''V''" "trim ''go'' = ''go''" "trim ''/p'' = ''/p''"
  by code_simp+

lemma demo_resolve: "resolve_send (demo_directive_env t i st) (Some ''launchId=x'') (Some ''V'') None ''go'' = Inr (lead_binding, [target_of work_binding])"
proof -
  have "caller_launch_id (Some ''launchId=x'') = Some ''x''" by code_simp
  then show ?thesis
    by (simp add: resolve_send_def resolve_caller_session_id_def resolve_directive_targets_def resolve_worker_def demo_trims
        lead_binding_def work_binding_def)
qed

definition demo_directive :: "nat \<Rightarrow> string \<Rightarrow> pending_directive" where
  "demo_directive t i = \<lparr>pd_id = i, pd_logical_key = ''P'', pd_leader = ''P'', pd_worker = ''W'', pd_session = ''V'', pd_workspace = ''/p'',
     pd_message = ''go'', pd_submit = True, pd_attempt = 0, pd_queued_at = from_secs t\<rparr>"

lemma demo_sent:
  "directive_exec (demo_directive_env t i st, demo_send_event) s = start_task [SendTarget lead_binding (target_of work_binding) ''go'' True] s"
  "send_target (demo_directive_env t i st) lead_binding (target_of work_binding) ''go'' True s = (s, [DispatchDirective (demo_directive t i) Initial])"
  by (simp_all add: demo_send_event_def send_to_worker_def demo_resolve send_target_def new_directive_def demo_directive_def target_of_def
      lead_binding_def work_binding_def externalize_long_prompt_def PROMPT_FILE_THRESHOLD_def pipe_workspace_id_def)

lemma demo_query: "query_directive_session_status (demo_directive_env t i st) sid = Inr (Some st)"
  by (simp add: query_directive_session_status_def demo_directive_env_def status_for_query_at_def)

definition demo_direct_run :: "(directive_env \<times> directive_event) list" where
  "demo_direct_run = [(demo_directive_env 0 ''1'' Idle, demo_send_event), (demo_directive_env 0 ''1'' Idle, Work 0),
     (demo_directive_env 0 ''1'' Idle, Work 0), (demo_directive_env 0 ''1'' Idle, Work 0)]"

lemma demo_typed:
  "(demo_directive 0 ''1'', ''[leader-directive] go'') \<in> set (ds_typed (directive_run demo_direct_run directive_state_new))"
proof -
  have one: "demo_directive 0 ''1'' = \<lparr>pd_id = ''1'', pd_logical_key = ''P'', pd_leader = ''P'', pd_worker = ''W'', pd_session = ''V'',
      pd_workspace = ''/p'', pd_message = ''go'', pd_submit = True, pd_attempt = 0, pd_queued_at = from_secs 0\<rparr>"
    by (simp add: demo_directive_def)
  show ?thesis
    by (simp add: demo_direct_run_def demo_sent work_on_def directive_state_new_def dispatch_directive_def demo_query ready_status_def
        deliver_directive_def directive_text_def one Let_def split del: if_split)
qed

theorem directives_reach_own_workers_witness:
  "sent_by_leader demo_direct_run ''P'' ''W'' ''V''"
  using directives_reach_own_workers [OF demo_typed] by (simp add: demo_directive_def)


definition demo_stale_run :: "(directive_env \<times> directive_event) list" where
  "demo_stale_run =
     [(demo_directive_env 0 ''1'' Thinking, demo_send_event), (demo_directive_env 0 ''1'' Thinking, Work 0),
      (demo_directive_env 0 ''1'' Thinking, Work 0), (demo_directive_env 5 ''0'' Idle, WorkerTransition ''V'' Idle),
      (demo_directive_env 5 ''0'' Idle, Work 1), (demo_directive_env 6 ''2'' Thinking, demo_send_event),
      (demo_directive_env 6 ''2'' Thinking, Work 2), (demo_directive_env 6 ''2'' Thinking, Work 2)]"

lemma demo_fields [simp]:
  "pd_session (demo_directive t i) = ''V''" "pd_logical_key (demo_directive t i) = ''P''" "pd_queued_at (demo_directive t i) = from_secs t"
  "pd_id (demo_directive t i) = i" "pd_id ((demo_directive t i)\<lparr>pd_attempt := n\<rparr>) = i"
  by (simp_all add: demo_directive_def)

lemma demo_queue_one:
  "enqueue_pending_directive ''V'' (demo_directive t i) now Map.empty = ([''V'' \<mapsto> [demo_directive t i]], 1, [])"
  by (simp add: enqueue_pending_directive_def waiting_of_def PENDING_DIRECTIVE_MAX_PER_SESSION_def List.map_filter_simps)

lemma demo_stale_state:
  "ds_pending (directive_run demo_stale_run directive_state_new) = [''V'' \<mapsto> [demo_directive 6 ''2'']]"
  "ds_tasks (directive_run demo_stale_run directive_state_new) ! 1 = [DispatchDirective (demo_directive 0 ''1'') Redelivery]"
  by (simp_all add: demo_stale_run_def demo_sent work_on_def Let_def directive_state_new_def dispatch_directive_def demo_query ready_status_def
      demo_queue_one on_worker_transition_def flush_pending_directives_def take_pending_directives_def waiting_of_def
      pending_directive_expired_def PENDING_DIRECTIVE_TTL_SECS_def as_secs_def since_def from_secs_def nanos_per_sec_def)

theorem stale_directive_supersedes_witness:
  "demo_directive 6 ''2'' \<in> set (waiting_of (ds_pending (directive_run demo_stale_run directive_state_new)) ''V'')
   \<and> (case run_directive_work (demo_directive_env 7 ''0'' Thinking) (DispatchDirective (demo_directive 0 ''1'') Redelivery)
         (directive_run demo_stale_run directive_state_new) of
       (s', next) \<Rightarrow> demo_directive 6 ''2'' \<notin> set (waiting_of (ds_pending s') ''V''))"
proof -
  define s where "s = directive_run demo_stale_run directive_state_new"
  have q: "demo_directive 6 ''2'' \<in> set (waiting_of (ds_pending s) ''V'')" by (simp add: s_def demo_stale_state waiting_of_def)
  obtain s' nx where run: "(s', nx) = run_directive_work (demo_directive_env 7 ''0'' Thinking)
      (DispatchDirective (demo_directive 0 ''1'') Redelivery) s"
    by (metis surj_pair)
  have fresh: "\<not> pending_directive_expired (demo_directive 6 ''2'') (de_now (demo_directive_env 7 ''0'' Thinking))"
    by (simp add: pending_directive_expired_def PENDING_DIRECTIVE_TTL_SECS_def as_secs_def since_def from_secs_def nanos_per_sec_def)
  have other: "demo_directive 6 ''2'' \<noteq> (demo_directive 0 ''1'')\<lparr>pd_attempt := next_attempt (pd_attempt (demo_directive 0 ''1''))\<rparr>"
    by (simp add: demo_directive_def)
  have later: "pd_queued_at (demo_directive 0 ''1'') < pd_queued_at (demo_directive 6 ''2'')" by (simp add: from_secs_def nanos_per_sec_def)
  show ?thesis
    using stale_directive_supersedes [OF demo_query _ _ _ later fresh other run] q
    unfolding s_def [symmetric] run [symmetric] by simp
qed

definition demo_silent_env :: directive_env where
  "demo_silent_env = (demo_directive_env 700 ''1'' ToolRunning)
     \<lparr>de_entries := [''V'' \<mapsto> \<lparr>se_status = ToolRunning, se_tool_name = Some ''Bash'', se_tool_summary = None, se_last_hook = 0,
        se_applied = [], se_updated_at = 0, se_tool_use_id = None, se_turn_seq = 0, se_task_binding = None, se_observed = True,
        se_pty_guard = False\<rparr>]\<rparr>"

theorem directive_typed_while_busy_witness:
  "snd (run_directive_work demo_silent_env (DispatchDirective (demo_directive 0 ''1'') Initial) directive_state_new)
     = [DeliverDirective (demo_directive 0 ''1'') Initial]
   \<and> \<not> ready_status (status_for_automatic_submit (de_now demo_silent_env) 0 ''V'' ToolRunning 0 (de_entries demo_silent_env))"
proof -
  define en where "en = \<lparr>se_status = ToolRunning, se_tool_name = Some ''Bash'', se_tool_summary = None, se_last_hook = 0,
        se_applied = [], se_updated_at = 0, se_tool_use_id = None, se_turn_seq = 0, se_task_binding = None, se_observed = True,
        se_pty_guard = False\<rparr>"
  have "de_entries demo_silent_env (pd_session (demo_directive 0 ''1'')) = Some en"
    "de_backend demo_silent_env (pd_session (demo_directive 0 ''1'')) = Inr (Some (ToolRunning, 0))" "is_busy (se_status en)"
    "is_busy ToolRunning" "STALE_BUSY_TIMEOUT_SECS < as_secs (since (de_now demo_silent_env) (se_last_hook en))"
    "saturating_sub 0 0 \<le> AUTOMATIC_SUBMIT_PTY_IDLE_MS"
    by (simp_all add: demo_silent_env_def en_def demo_directive_env_def is_busy_def STALE_BUSY_TIMEOUT_SECS_def as_secs_def
        since_def from_secs_def nanos_per_sec_def saturating_sub_def)
  from directive_typed_while_busy [OF this(1,3,2,4,5,6)] show ?thesis by simp
qed

end
