(* ===== verification/Ai_Panels.thy ===== *)
theory Ai_Panels
  imports "HOL-Library.AList" "HOL-Library.List_Lexorder" "HOL-Library.Char_ord" Launch_Request Ws_Emitter
begin

text \<open>
  The registry of AI panels of the orchestrator (\<open>AiPanelRegistry\<close> in
  \<open>src-tauri/src/services/orchestrator_service.rs\<close>): small HTML or Markdown panels that a session shows
  to its user. A session owns at most three of them, only the owner may read or change one, and what
  the user clicks is kept in a ring of 100 numbered events that the owner polls. The hash map is an
  association list with distinct keys; time, identifiers and the size of a serialized payload are
  arguments.
\<close>

subsection \<open>Panels and events\<close>

definition AI_PANEL_CONTENT_MAX_BYTES :: nat where "AI_PANEL_CONTENT_MAX_BYTES = 256 * 1024"
definition AI_PANEL_EVENT_PAYLOAD_MAX_BYTES :: nat where "AI_PANEL_EVENT_PAYLOAD_MAX_BYTES = 4 * 1024"
definition AI_PANEL_EVENTS_MAX_ITEMS :: nat where "AI_PANEL_EVENTS_MAX_ITEMS = 100"
definition AI_PANELS_MAX_PER_SESSION :: nat where "AI_PANELS_MAX_PER_SESSION = 3"

datatype panel_format = Html | Markdown

fun format_as_str :: "panel_format \<Rightarrow> string" where
  "format_as_str Html = ''html''"
| "format_as_str Markdown = ''markdown''"

definition format_from_stored :: "string \<Rightarrow> panel_format" where
  "format_from_stored v = (if v = ''html'' then Html else Markdown)"

record ai_panel =
  ap_id :: string
  ap_title :: bytes
  ap_format :: panel_format
  ap_content :: bytes
  ap_driver :: string
  ap_updated_at :: string

record ai_panel_event =
  ae_seq :: nat
  ae_action :: string
  ae_payload :: "json option"
  ae_at :: string

record ai_panel_record =
  ar_owner :: string
  ar_panel :: ai_panel
  ar_events :: "ai_panel_event list"
  ar_next_seq :: nat

type_synonym panel_registry = "(string \<times> ai_panel_record) list"

datatype panel_error =
    TitleEmpty | TitleTooLong | ContentTooLarge | IdLength | IdCharacters | ActionLength | ActionCharacters
  | PayloadTooLarge | PanelMissing string | NotYourPanel | TooManyPanels | OwnerChanged string

subsection \<open>Validation\<close>

definition validate_ai_panel_title :: "bytes \<Rightarrow> panel_error option" where
  "validate_ai_panel_title title =
     (let title = trim title
      in if title = [] then Some TitleEmpty else if 512 < length title then Some TitleTooLong else None)"

definition validate_ai_panel_content :: "bytes \<Rightarrow> panel_error option" where
  "validate_ai_panel_content content =
     (if AI_PANEL_CONTENT_MAX_BYTES < length content then Some ContentTooLarge else None)"

definition is_alphanumeric :: "char \<Rightarrow> bool" where
  "is_alphanumeric c =
     (let n = of_char c :: nat in (48 \<le> n \<and> n \<le> 57) \<or> (65 \<le> n \<and> n \<le> 90) \<or> (97 \<le> n \<and> n \<le> 122))"

definition validate_ai_panel_id :: "bytes \<Rightarrow> panel_error + string" where
  "validate_ai_panel_id panel_id =
     (let panel_id = trim panel_id
      in if panel_id = [] \<or> 128 < length panel_id then Inl IdLength
         else if \<not> list_all (\<lambda>c. is_alphanumeric c \<or> c \<in> set ''-_'') panel_id then Inl IdCharacters
         else Inr panel_id)"

definition validate_ai_panel_action :: "string \<Rightarrow> panel_error option" where
  "validate_ai_panel_action action =
     (if action = [] \<or> 128 < length action then Some ActionLength
      else if \<not> list_all (\<lambda>c. is_alphanumeric c \<or> c \<in> set ''-_.:'') action then Some ActionCharacters
      else None)"

subsection \<open>The operations\<close>

definition owned_count :: "string \<Rightarrow> panel_registry \<Rightarrow> nat" where
  "owned_count owner reg = length (filter (\<lambda>(panel_id, r). ar_owner r = owner) reg)"

definition new_record :: "string \<Rightarrow> ai_panel \<Rightarrow> ai_panel_record" where
  "new_record owner panel = \<lparr>ar_owner = owner, ar_panel = panel, ar_events = [], ar_next_seq = 1\<rparr>"

text \<open>The owner, the panel's fields as the tool call has them, and the id it asks for, if any.\<close>

record open_request =
  oq_owner :: string
  oq_driver :: string
  oq_title :: bytes
  oq_format :: panel_format
  oq_content :: bytes
  oq_panel_id :: "bytes option"

definition requested_id :: "string \<Rightarrow> open_request \<Rightarrow> panel_error + string" where
  "requested_id uuid q =
     (case validate_ai_panel_title (oq_title q) of Some e \<Rightarrow> Inl e
      | None \<Rightarrow>
         (case validate_ai_panel_content (oq_content q) of Some e \<Rightarrow> Inl e
          | None \<Rightarrow> (case oq_panel_id q of Some pid \<Rightarrow> validate_ai_panel_id pid | None \<Rightarrow> Inr uuid)))"

definition requested_panel :: "string \<Rightarrow> open_request \<Rightarrow> string \<Rightarrow> ai_panel" where
  "requested_panel now q pid =
     \<lparr>ap_id = pid, ap_title = trim (oq_title q), ap_format = oq_format q, ap_content = oq_content q,
      ap_driver = oq_driver q, ap_updated_at = now\<rparr>"

definition panel_open :: "string \<Rightarrow> string \<Rightarrow> open_request \<Rightarrow> panel_registry \<Rightarrow> panel_registry \<times> (panel_error + ai_panel)" where
  "panel_open now uuid q reg =
     (case requested_id uuid q of
        Inl e \<Rightarrow> (reg, Inl e)
      | Inr pid \<Rightarrow>
          (case map_of reg pid of
             Some existing \<Rightarrow>
               if ar_owner existing \<noteq> oq_owner q then (reg, Inl NotYourPanel)
               else (let panel = (ar_panel existing)\<lparr>ap_title := trim (oq_title q), ap_format := oq_format q,
                           ap_content := oq_content q, ap_driver := oq_driver q, ap_updated_at := now\<rparr>
                     in (AList.update pid (existing\<lparr>ar_panel := panel\<rparr>) reg, Inr panel))
           | None \<Rightarrow>
               if AI_PANELS_MAX_PER_SESSION \<le> owned_count (oq_owner q) reg then (reg, Inl TooManyPanels)
               else (let panel = requested_panel now q pid
                     in (AList.update pid (new_record (oq_owner q) panel) reg, Inr panel))))"

definition panel_update ::
  "string \<Rightarrow> string \<Rightarrow> string \<Rightarrow> bytes \<Rightarrow> bytes option \<Rightarrow> panel_registry \<Rightarrow> panel_registry \<times> (panel_error + ai_panel)" where
  "panel_update now owner pid content title reg =
     (case validate_ai_panel_content content of Some e \<Rightarrow> (reg, Inl e)
      | None \<Rightarrow>
     (case Option.bind title validate_ai_panel_title of Some e \<Rightarrow> (reg, Inl e)
      | None \<Rightarrow>
     (case map_of reg pid of None \<Rightarrow> (reg, Inl (PanelMissing pid))
      | Some r \<Rightarrow>
          if ar_owner r \<noteq> owner then (reg, Inl NotYourPanel)
          else (let panel = (ar_panel r)\<lparr>ap_content := content\<rparr>;
                    panel = (case title of Some t \<Rightarrow> panel\<lparr>ap_title := trim t\<rparr> | None \<Rightarrow> panel);
                    panel = panel\<lparr>ap_updated_at := now\<rparr>
                in (AList.update pid (r\<lparr>ar_panel := panel\<rparr>) reg, Inr panel)))))"

definition panel_close :: "string \<Rightarrow> string \<Rightarrow> panel_registry \<Rightarrow> panel_registry \<times> (panel_error + ai_panel)" where
  "panel_close owner pid reg =
     (case map_of reg pid of None \<Rightarrow> (reg, Inl (PanelMissing pid))
      | Some r \<Rightarrow>
          if ar_owner r \<noteq> owner then (reg, Inl NotYourPanel) else (AList.delete pid reg, Inr (ar_panel r)))"

definition panel_events :: "string \<Rightarrow> string \<Rightarrow> nat option \<Rightarrow> panel_registry \<Rightarrow> panel_error + ai_panel_event list" where
  "panel_events owner pid after_seq reg =
     (case map_of reg pid of None \<Rightarrow> Inl (PanelMissing pid)
      | Some r \<Rightarrow>
          if ar_owner r \<noteq> owner then Inl NotYourPanel
          else Inr (filter (\<lambda>e. (case after_seq of Some n \<Rightarrow> n | None \<Rightarrow> 0) < ae_seq e) (ar_events r)))"

definition trim_ring :: "ai_panel_event list \<Rightarrow> ai_panel_event list" where
  "trim_ring evs = drop (length evs - AI_PANEL_EVENTS_MAX_ITEMS) evs"

definition validate_event :: "(json \<Rightarrow> nat) \<Rightarrow> string \<Rightarrow> json option \<Rightarrow> panel_error option" where
  "validate_event json_len action payload =
     (case validate_ai_panel_action action of Some e \<Rightarrow> Some e
      | None \<Rightarrow>
         (case payload of
            Some p \<Rightarrow> if AI_PANEL_EVENT_PAYLOAD_MAX_BYTES < json_len p then Some PayloadTooLarge else None
          | None \<Rightarrow> None))"

definition add_event :: "string \<Rightarrow> string \<Rightarrow> json option \<Rightarrow> ai_panel_record \<Rightarrow> ai_panel_record" where
  "add_event now action payload r =
     r\<lparr>ar_next_seq := ar_next_seq r + 1,
       ar_events := trim_ring (ar_events r @ [\<lparr>ae_seq = ar_next_seq r, ae_action = action, ae_payload = payload, ae_at = now\<rparr>])\<rparr>"

definition record_event ::
  "(json \<Rightarrow> nat) \<Rightarrow> string \<Rightarrow> string \<Rightarrow> string \<Rightarrow> json option \<Rightarrow> panel_registry \<Rightarrow> panel_registry \<times> panel_error option" where
  "record_event json_len now pid action payload reg =
     (case validate_event json_len action payload of Some e \<Rightarrow> (reg, Some e)
      | None \<Rightarrow>
         (case map_of reg pid of None \<Rightarrow> (reg, Some (PanelMissing pid))
          | Some r \<Rightarrow> (AList.update pid (add_event now action payload r) reg, None)))"

definition list_panels :: "panel_registry \<Rightarrow> ai_panel list" where
  "list_panels reg = sort_key ap_updated_at (map (\<lambda>(pid, r). ar_panel r) reg)"

definition owner_of :: "string \<Rightarrow> panel_registry \<Rightarrow> string option" where
  "owner_of pid reg = map_option ar_owner (map_of reg pid)"

datatype claim_result = Claimed | AlreadyOwned

definition claim_if_owner_unchanged ::
  "string \<Rightarrow> string option \<Rightarrow> ai_panel \<Rightarrow> panel_registry \<Rightarrow> panel_registry \<times> (panel_error + claim_result)" where
  "claim_if_owner_unchanged owner expected panel reg =
     (let current = owner_of (ap_id panel) reg
      in if current = Some owner then (reg, Inr AlreadyOwned)
         else if current \<noteq> expected then (reg, Inl (OwnerChanged (ap_id panel)))
         else if AI_PANELS_MAX_PER_SESSION \<le> owned_count owner reg then (reg, Inl TooManyPanels)
         else (AList.update (ap_id panel) (new_record owner panel) reg, Inr Claimed))"

definition remove_any :: "string \<Rightarrow> panel_registry \<Rightarrow> panel_registry \<times> bool" where
  "remove_any pid reg = (AList.delete pid reg, map_of reg pid \<noteq> None)"


subsection \<open>The invariant\<close>

definition ring_ok :: "ai_panel_record \<Rightarrow> bool" where
  "ring_ok r =
     (length (ar_events r) \<le> AI_PANEL_EVENTS_MAX_ITEMS \<and> length (ar_events r) < ar_next_seq r
      \<and> map ae_seq (ar_events r) = [ar_next_seq r - length (ar_events r) ..< ar_next_seq r])"

definition registry_ok :: "panel_registry \<Rightarrow> bool" where
  "registry_ok reg =
     (distinct (map fst reg) \<and> (\<forall>owner. owned_count owner reg \<le> AI_PANELS_MAX_PER_SESSION)
      \<and> (\<forall>(pid, r) \<in> set reg. ap_id (ar_panel r) = pid \<and> ring_ok r))"

definition owns :: "string \<Rightarrow> ai_panel_record option \<Rightarrow> nat" where
  "owns owner r = (case r of Some r \<Rightarrow> if ar_owner r = owner then 1 else 0 | None \<Rightarrow> 0)"

lemma owns_simps [simp]: "owns owner None = 0" "owns owner (Some r) = (if ar_owner r = owner then 1 else 0)"
  by (simp_all add: owns_def)

lemma owned_count_simps [simp]:
  "owned_count owner [] = 0" "owned_count owner ((k, r) # reg) = owns owner (Some r) + owned_count owner reg"
  by (simp_all add: owned_count_def)

lemma owned_delete_absent: "k \<notin> fst ` set reg \<Longrightarrow> AList.delete k reg = reg"
  by (induction reg) auto

lemma owned_delete: "distinct (map fst reg) \<Longrightarrow> owned_count owner (AList.delete k reg) + owns owner (map_of reg k) = owned_count owner reg"
proof (induction reg)
  case (Cons a reg)
  obtain k1 r where a: "a = (k1, r)" by (cases a)
  show ?case
  proof (cases "k1 = k")
    case True
    then have "k \<notin> fst ` set reg" using Cons.prems a by auto
    then show ?thesis using True a by (simp add: owned_delete_absent)
  qed (use Cons a in auto)
qed simp

lemma owned_update:
  "distinct (map fst reg) \<Longrightarrow>
   owned_count owner (AList.update k r reg) + owns owner (map_of reg k) = owned_count owner reg + owns owner (Some r)"
proof (induction reg)
  case (Cons a reg)
  obtain k1 r1 where a: "a = (k1, r1)" by (cases a)
  show ?case by (cases "k1 = k") (use Cons a in auto)
qed simp

lemma registry_okI:
  assumes "distinct (map fst reg)" and "\<And>owner. owned_count owner reg \<le> AI_PANELS_MAX_PER_SESSION"
    and "\<And>pid r. map_of reg pid = Some r \<Longrightarrow> ap_id (ar_panel r) = pid \<and> ring_ok r"
  shows "registry_ok reg"
  using assms by (auto simp: registry_ok_def)

lemma registry_ok_record: "registry_ok reg \<Longrightarrow> map_of reg pid = Some r \<Longrightarrow> ap_id (ar_panel r) = pid \<and> ring_ok r"
  by (auto simp: registry_ok_def dest: map_of_SomeD)

lemma update_ok:
  assumes ok: "registry_ok reg" and new: "ap_id (ar_panel r) = pid" "ring_ok r"
    and room: "owned_count (ar_owner r) reg < AI_PANELS_MAX_PER_SESSION \<or> owner_of pid reg = Some (ar_owner r)"
  shows "registry_ok (AList.update pid r reg)"
proof (rule registry_okI)
  have d: "distinct (map fst reg)" using ok by (simp add: registry_ok_def)
  then show "distinct (map fst (AList.update pid r reg))" by (rule distinct_update)
  fix owner
  have "owned_count owner reg \<le> AI_PANELS_MAX_PER_SESSION" using ok by (simp add: registry_ok_def)
  moreover note owned_update [OF d, of owner pid r]
  moreover have "owned_count owner reg < AI_PANELS_MAX_PER_SESSION \<or> owns owner (map_of reg pid) = 1" if "owner = ar_owner r"
    using room that by (auto simp: owner_of_def)
  ultimately show "owned_count owner (AList.update pid r reg) \<le> AI_PANELS_MAX_PER_SESSION"
    by (cases "owner = ar_owner r") auto
next
  fix k r1 assume "map_of (AList.update pid r reg) k = Some r1"
  then show "ap_id (ar_panel r1) = k \<and> ring_ok r1"
    using new registry_ok_record [OF ok] by (auto simp: update_conv' split: if_splits)
qed

lemma delete_ok: "registry_ok reg \<Longrightarrow> registry_ok (AList.delete pid reg)"
proof (rule registry_okI)
  assume ok: "registry_ok reg"
  then have d: "distinct (map fst reg)" by (simp add: registry_ok_def)
  then show "distinct (map fst (AList.delete pid reg))" by (rule distinct_delete)
  show "owned_count owner (AList.delete pid reg) \<le> AI_PANELS_MAX_PER_SESSION" for owner
    using owned_delete [OF d, of owner pid] ok by (simp add: registry_ok_def) (metis le_add1 order_trans)
  show "ap_id (ar_panel r) = k \<and> ring_ok r" if "map_of (AList.delete pid reg) k = Some r" for k r
    using that registry_ok_record [OF ok] by (simp add: delete_conv' split: if_splits)
qed

lemma ring_new [simp]: "ring_ok (new_record owner panel)"
  by (simp add: ring_ok_def new_record_def)

lemma ring_panel [simp]: "ring_ok (r\<lparr>ar_panel := p\<rparr>) = ring_ok r"
  by (simp add: ring_ok_def)

lemma add_event_fields [simp]:
  "ar_owner (add_event now action payload r) = ar_owner r" "ar_panel (add_event now action payload r) = ar_panel r"
  by (simp_all add: add_event_def)

lemma new_record_fields [simp]: "ar_owner (new_record owner panel) = owner" "ar_panel (new_record owner panel) = panel"
  by (simp_all add: new_record_def)

lemma ring_add: "ring_ok r \<Longrightarrow> ring_ok (add_event now action payload r)"
proof -
  assume ok: "ring_ok r"
  let ?e = "\<lparr>ae_seq = ar_next_seq r, ae_action = action, ae_payload = payload, ae_at = now\<rparr>" and ?n = "ar_next_seq r"
  let ?l = "length (ar_events r)"
  have seqs: "map ae_seq (ar_events r @ [?e]) = [?n - ?l ..< ?n + 1]"
    using ok by (simp add: ring_ok_def)
  have "map ae_seq (trim_ring (ar_events r @ [?e])) = drop (?l + 1 - AI_PANEL_EVENTS_MAX_ITEMS) [?n - ?l ..< ?n + 1]"
    by (simp only: trim_ring_def drop_map [symmetric] seqs) simp
  moreover have "length (trim_ring (ar_events r @ [?e])) = min (?l + 1) AI_PANEL_EVENTS_MAX_ITEMS"
    by (simp add: trim_ring_def)
  ultimately show ?thesis
    using ok by (auto simp: ring_ok_def add_event_def AI_PANEL_EVENTS_MAX_ITEMS_def min_def)
qed

subsection \<open>Runs\<close>

datatype panel_op =
    OpenPanel string string open_request
  | UpdatePanel string string string bytes "bytes option"
  | ClosePanel string string
  | ClickPanel string string string "json option"
  | ClaimPanel string "string option" ai_panel
  | DeletePanel string

fun panel_exec :: "(json \<Rightarrow> nat) \<Rightarrow> panel_op \<Rightarrow> panel_registry \<Rightarrow> panel_registry" where
  "panel_exec json_len (OpenPanel now uuid q) reg = fst (panel_open now uuid q reg)"
| "panel_exec json_len (UpdatePanel now owner pid content title) reg = fst (panel_update now owner pid content title reg)"
| "panel_exec json_len (ClosePanel owner pid) reg = fst (panel_close owner pid reg)"
| "panel_exec json_len (ClickPanel now pid action payload) reg = fst (record_event json_len now pid action payload reg)"
| "panel_exec json_len (ClaimPanel owner expected panel) reg = fst (claim_if_owner_unchanged owner expected panel reg)"
| "panel_exec json_len (DeletePanel pid) reg = fst (remove_any pid reg)"

definition panel_run :: "(json \<Rightarrow> nat) \<Rightarrow> panel_op list \<Rightarrow> panel_registry \<Rightarrow> panel_registry" where
  "panel_run json_len ops reg = fold (panel_exec json_len) ops reg"

lemma panel_run_simps [simp]:
  "panel_run json_len [] reg = reg" "panel_run json_len (op # ops) reg = panel_run json_len ops (panel_exec json_len op reg)"
  "panel_run json_len (ops @ ops1) reg = panel_run json_len ops1 (panel_run json_len ops reg)"
  by (simp_all add: panel_run_def)

lemma open_ok: "registry_ok reg \<Longrightarrow> registry_ok (fst (panel_open now uuid q reg))"
proof (cases "requested_id uuid q")
  case (Inr pid)
  assume ok: "registry_ok reg"
  show ?thesis
  proof (cases "map_of reg pid")
    case None
    then show ?thesis
      using ok Inr by (auto simp: panel_open_def Let_def requested_panel_def intro!: update_ok)
  next
    case (Some r)
    then show ?thesis
      using ok Inr registry_ok_record [OF ok Some]
      by (auto simp: panel_open_def Let_def owner_of_def intro!: update_ok)
  qed
qed (simp add: panel_open_def)

lemma panel_update_ok: "registry_ok reg \<Longrightarrow> registry_ok (fst (panel_update now owner pid content title reg))"
  by (auto simp: panel_update_def Let_def owner_of_def dest: registry_ok_record intro!: update_ok split: option.split)

lemma claim_ok: "registry_ok reg \<Longrightarrow> registry_ok (fst (claim_if_owner_unchanged owner expected panel reg))"
  by (auto simp: claim_if_owner_unchanged_def Let_def intro!: update_ok)

lemma exec_ok: "registry_ok reg \<Longrightarrow> registry_ok (panel_exec json_len op reg)"
proof (cases op)
  case (ClickPanel now pid action payload)
  assume ok: "registry_ok reg"
  then show ?thesis
    unfolding ClickPanel using registry_ok_record [OF ok] ring_add
    by (auto simp: record_event_def owner_of_def intro!: update_ok split: option.split)
qed (auto simp: open_ok panel_update_ok claim_ok panel_close_def remove_any_def delete_ok split: option.split)


lemma run_ok: "registry_ok reg \<Longrightarrow> registry_ok (panel_run json_len ops reg)"
  by (induction ops arbitrary: reg) (simp_all add: exec_ok)

lemma empty_ok: "registry_ok []"
  by (simp add: registry_ok_def)

text \<open>The registry stays within its bounds: after every sequence of operations no session owns more
  than three panels, panel ids are unique, each record is filed under the id of its panel, and the
  ring of each panel holds at most 100 events, numbered without gaps up to the last one given.\<close>

theorem panel_registry_bounded:
  "let reg = panel_run json_len ops [] in
     (\<forall>owner. owned_count owner reg \<le> 3) \<and> distinct (map fst reg)
     \<and> list_all (\<lambda>(pid, r). ap_id (ar_panel r) = pid \<and> length (ar_events r) \<le> 100
          \<and> map ae_seq (ar_events r) = [ar_next_seq r - length (ar_events r) ..< ar_next_seq r]) reg"
  using run_ok [OF empty_ok, of json_len ops]
  by (auto simp: registry_ok_def ring_ok_def AI_PANELS_MAX_PER_SESSION_def AI_PANEL_EVENTS_MAX_ITEMS_def list_all_iff Let_def)

subsection \<open>The owner and the others\<close>

text \<open>Neither closed by its owner, nor taken from it, nor deleted.\<close>

fun keeps_panel :: "string \<Rightarrow> string \<Rightarrow> panel_op \<Rightarrow> bool" where
  "keeps_panel s pid (ClosePanel owner p) = (owner \<noteq> s \<or> p \<noteq> pid)"
| "keeps_panel s pid (ClaimPanel owner expected panel) = (ap_id panel \<noteq> pid \<or> expected \<noteq> Some s)"
| "keeps_panel s pid (DeletePanel p) = (p \<noteq> pid)"
| "keeps_panel s pid op = True"

fun by_other :: "string \<Rightarrow> panel_op \<Rightarrow> bool" where
  "by_other s (OpenPanel now uuid q) = (oq_owner q \<noteq> s)"
| "by_other s (UpdatePanel now owner pid content title) = (owner \<noteq> s)"
| "by_other s op = True"

definition accepted_click :: "(json \<Rightarrow> nat) \<Rightarrow> string \<Rightarrow> panel_op \<Rightarrow> (string \<times> json option) list" where
  "accepted_click json_len pid op =
     (case op of
        ClickPanel now p action payload \<Rightarrow> if p = pid \<and> validate_event json_len action payload = None then [(action, payload)] else []
      | _ \<Rightarrow> [])"

definition clicks :: "(json \<Rightarrow> nat) \<Rightarrow> string \<Rightarrow> panel_op list \<Rightarrow> (string \<times> json option) list" where
  "clicks json_len pid ops = concat (map (accepted_click json_len pid) ops)"

definition last_items :: "'a list \<Rightarrow> 'a list" where
  "last_items xs = drop (length xs - AI_PANEL_EVENTS_MAX_ITEMS) xs"

definition ring_content :: "ai_panel_record \<Rightarrow> (string \<times> json option) list" where
  "ring_content r = map (\<lambda>e. (ae_action e, ae_payload e)) (ar_events r)"

lemma last_items_append: "last_items (last_items xs @ ys) = last_items (xs @ ys)"
  by (cases "length xs \<le> AI_PANEL_EVENTS_MAX_ITEMS") (auto simp: last_items_def add.commute)

lemma last_items_short [simp]: "length xs \<le> AI_PANEL_EVENTS_MAX_ITEMS \<Longrightarrow> last_items xs = xs"
  by (simp add: last_items_def)

lemma ring_content_add: "ring_content (add_event now action payload r) = last_items (ring_content r @ [(action, payload)])"
  by (simp add: ring_content_def add_event_def trim_ring_def last_items_def drop_map [symmetric])

text \<open>One operation, seen from a panel that \<open>s\<close> owns.\<close>

lemma exec_owned:
  assumes reg: "map_of reg pid = Some r" "ar_owner r = s" and keeps: "keeps_panel s pid op"
  shows "\<exists>r1. map_of (panel_exec json_len op reg) pid = Some r1 \<and> ar_owner r1 = s
    \<and> ar_next_seq r1 = ar_next_seq r + length (accepted_click json_len pid op)
    \<and> (ring_ok r \<longrightarrow> ring_content r1 = last_items (ring_content r @ accepted_click json_len pid op))
    \<and> (by_other s op \<longrightarrow> ar_panel r1 = ar_panel r)"
proof (cases op)
  case (ClickPanel now p action payload)
  have "length (ring_content r) \<le> AI_PANEL_EVENTS_MAX_ITEMS" if "ring_ok r" using that by (simp add: ring_ok_def ring_content_def)
  moreover have "ar_next_seq (add_event now action payload r) = ar_next_seq r + 1" by (simp add: add_event_def)
  ultimately show ?thesis
    using reg ClickPanel
    by (cases "map_of reg p") (auto simp: record_event_def accepted_click_def update_conv' ring_content_add split: option.split)
next
  case (OpenPanel now uuid q)
  then show ?thesis
    using reg by (cases "requested_id uuid q")
      (auto simp: panel_open_def accepted_click_def update_conv' ring_content_def ring_ok_def Let_def split: option.split)
next
  case (UpdatePanel now owner p content title)
  then show ?thesis
    using reg by (auto simp: panel_update_def accepted_click_def update_conv' ring_content_def ring_ok_def Let_def split: option.split)
next
  case (ClosePanel owner p)
  then show ?thesis
    using reg keeps by (auto simp: panel_close_def accepted_click_def delete_conv' ring_content_def ring_ok_def split: option.split)
next
  case (ClaimPanel owner expected panel)
  then show ?thesis
    using reg keeps by (auto simp: claim_if_owner_unchanged_def accepted_click_def owner_of_def update_conv' ring_content_def ring_ok_def Let_def)
next
  case (DeletePanel p)
  then show ?thesis
    using reg keeps by (auto simp: remove_any_def accepted_click_def delete_conv' ring_content_def ring_ok_def)
qed

lemma run_owned:
  "registry_ok reg \<Longrightarrow> map_of reg pid = Some r \<Longrightarrow> ar_owner r = s \<Longrightarrow> list_all (keeps_panel s pid) ops \<Longrightarrow>
   \<exists>r1. map_of (panel_run json_len ops reg) pid = Some r1 \<and> ar_owner r1 = s
     \<and> ar_next_seq r1 = ar_next_seq r + length (clicks json_len pid ops)
     \<and> ring_content r1 = last_items (ring_content r @ clicks json_len pid ops)
     \<and> (list_all (by_other s) ops \<longrightarrow> ar_panel r1 = ar_panel r)"
proof (induction ops arbitrary: reg r)
  case Nil
  then show ?case using registry_ok_record [OF Nil(1,2)] by (simp add: clicks_def ring_ok_def ring_content_def)
next
  case (Cons op ops)
  have ring: "ring_ok r" using registry_ok_record [OF Cons.prems(1,2)] by simp
  obtain r1 where r1: "map_of (panel_exec json_len op reg) pid = Some r1" "ar_owner r1 = s"
    "ar_next_seq r1 = ar_next_seq r + length (accepted_click json_len pid op)"
    "ring_content r1 = last_items (ring_content r @ accepted_click json_len pid op)"
    "by_other s op \<longrightarrow> ar_panel r1 = ar_panel r"
    using exec_owned [OF Cons.prems(2,3), of op json_len] Cons.prems(4) ring by auto
  obtain r2 where r2: "map_of (panel_run json_len ops (panel_exec json_len op reg)) pid = Some r2" "ar_owner r2 = s"
    "ar_next_seq r2 = ar_next_seq r1 + length (clicks json_len pid ops)"
    "ring_content r2 = last_items (ring_content r1 @ clicks json_len pid ops)"
    "list_all (by_other s) ops \<longrightarrow> ar_panel r2 = ar_panel r1"
    using Cons.IH [OF exec_ok [OF Cons.prems(1)] r1(1,2)] Cons.prems(4) by auto
  then show ?case
    using r1 by (intro exI [of _ r2]) (simp add: clicks_def last_items_append)
qed

lemma poll_ring:
  assumes "ring_ok r" and "ar_next_seq r = Suc n + k"
  shows "filter (\<lambda>e. n < ae_seq e) (ar_events r) = drop (length (ar_events r) - k) (ar_events r)"
proof -
  let ?evs = "ar_events r" and ?l = "length (ar_events r)"
  have sq: "ae_seq (?evs ! i) = Suc n + k - ?l + i" if "i < ?l" for i
  proof -
    have "map ae_seq ?evs ! i = [Suc n + k - ?l ..< Suc n + k] ! i" using assms by (simp add: ring_ok_def del: upt_Suc)
    then show ?thesis using that assms by (simp add: ring_ok_def del: upt_Suc)
  qed
  have l: "?l < Suc n + k" using assms by (simp add: ring_ok_def)
  have "filter (\<lambda>e. n < ae_seq e) ?evs = filter (\<lambda>e. n < ae_seq e) (take (?l - k) ?evs) @ filter (\<lambda>e. n < ae_seq e) (drop (?l - k) ?evs)"
    by (metis append_take_drop_id filter_append)
  moreover have "filter (\<lambda>e. n < ae_seq e) (take (?l - k) ?evs) = []"
    using sq l by (auto simp: filter_empty_conv in_set_conv_nth)
  moreover have "filter (\<lambda>e. n < ae_seq e) (drop (?l - k) ?evs) = drop (?l - k) ?evs"
    using sq l by (auto simp: filter_id_conv in_set_conv_nth)
  ultimately show ?thesis by simp
qed

text \<open>C24: The owner's poll is complete. Take a panel of \<open>s\<close> and the number of the last event given so
  far. After any operations of anyone that do not close, take over or delete the panel, the panel
  is still owned by \<open>s\<close>, and polling from that number yields exactly the clicks accepted since then, in
  order and each once; of more than 100 it yields the last 100.\<close>

theorem poll_yields_new_clicks:
  assumes "registry_ok reg" and "map_of reg pid = Some r" and "ar_owner r = s" and "list_all (keeps_panel s pid) ops"
  shows "\<exists>evs. panel_events s pid (Some (ar_next_seq r - 1)) (panel_run json_len ops reg) = Inr evs
    \<and> map (\<lambda>e. (ae_action e, ae_payload e)) evs
        = drop (length (clicks json_len pid ops) - 100) (clicks json_len pid ops)"
proof -
  let ?cs = "clicks json_len pid ops"
  obtain r1 where r1: "map_of (panel_run json_len ops reg) pid = Some r1" "ar_owner r1 = s"
    "ar_next_seq r1 = ar_next_seq r + length ?cs" "ring_content r1 = last_items (ring_content r @ ?cs)"
    using run_owned [OF assms] by blast
  have ring: "ring_ok r" "ring_ok r1"
    using registry_ok_record [OF assms(1,2)] registry_ok_record [OF run_ok [OF assms(1)] r1(1)] by simp_all
  then have "ar_next_seq r1 = Suc (ar_next_seq r - 1) + length ?cs" using r1(3) by (auto simp: ring_ok_def)
  note poll = poll_ring [OF ring(2) this]
  have len: "length (ar_events r1) = min (length (ring_content r) + length ?cs) 100"
    using arg_cong [OF r1(4), of length] by (simp add: ring_content_def last_items_def AI_PANEL_EVENTS_MAX_ITEMS_def)
  have "length (ring_content r) \<le> 100" using ring(1) by (simp add: ring_ok_def ring_content_def AI_PANEL_EVENTS_MAX_ITEMS_def)
  then have "drop (length (ar_events r1) - length ?cs) (ring_content r1) = drop (length ?cs - 100) ?cs"
    unfolding r1(4) len last_items_def AI_PANEL_EVENTS_MAX_ITEMS_def by (auto simp: min_def)
  then show ?thesis
    using r1(1,2) poll by (simp add: panel_events_def ring_content_def drop_map)
qed


subsection \<open>A concrete registry\<close>

definition demo_panel :: "bytes \<Rightarrow> ai_panel" where
  "demo_panel content = \<lparr>ap_id = ''p'', ap_title = ''T'', ap_format = Html, ap_content = content, ap_driver = ''d'', ap_updated_at = ''1''\<rparr>"

definition demo_registry :: panel_registry where
  "demo_registry = [(''p'', new_record ''s'' (demo_panel ''A''))]"

definition demo_panel_ops :: "panel_op list" where
  "demo_panel_ops =
     [ClickPanel ''2'' ''p'' ''ok'' None, ClickPanel ''3'' ''p'' ''not allowed'' None,
      UpdatePanel ''4'' ''t'' ''p'' ''X'' None, ClickPanel ''5'' ''p'' ''next:1'' (Some JNull)]"

lemma demo_registry_ok: "registry_ok demo_registry"
  by (rule registry_okI)
    (auto simp: demo_registry_def demo_panel_def AI_PANELS_MAX_PER_SESSION_def split: if_splits)

lemma demo_clicks: "clicks (\<lambda>_. 4) ''p'' demo_panel_ops = [(''ok'', None), (''next:1'', Some JNull)]"
proof -
  have "validate_ai_panel_action ''ok'' = None" "validate_ai_panel_action ''next:1'' = None"
    "validate_ai_panel_action ''not allowed'' = Some ActionCharacters"
    by (simp_all add: validate_ai_panel_action_def is_alphanumeric_def)
  then show ?thesis
    by (simp add: clicks_def demo_panel_ops_def accepted_click_def validate_event_def AI_PANEL_EVENT_PAYLOAD_MAX_BYTES_def)
qed

theorem poll_yields_new_clicks_witness:
  "\<exists>evs. panel_events ''s'' ''p'' (Some 0) (panel_run (\<lambda>_. 4) demo_panel_ops demo_registry) = Inr evs
    \<and> map (\<lambda>e. (ae_action e, ae_payload e)) evs = [(''ok'', None), (''next:1'', Some JNull)]"
proof -
  have "map_of demo_registry ''p'' = Some (new_record ''s'' (demo_panel ''A''))" by (simp add: demo_registry_def)
  note poll = poll_yields_new_clicks [OF demo_registry_ok this _ _, of "''s''" demo_panel_ops "\<lambda>_. 4"]
  have "list_all (keeps_panel ''s'' ''p'') demo_panel_ops" by (simp add: demo_panel_ops_def)
  then show ?thesis using poll by (simp add: demo_clicks new_record_def)
qed

end
