(* ===== verification/Panel_History.thy ===== *)
theory Panel_History
  imports Ai_Panels Session_State
begin

text \<open>
  The panel tools of the orchestrator over the registry and the history table
  (\<open>orchestrator_service.rs\<close>, \<open>ai_panel_repo.rs\<close>). A tool call takes the registry lock and the database
  separately, so the model cuts it into pieces of work; an event starts a call or lets one of the
  running calls do its next piece, in any order. The caller's session, the scope of a session, the
  state of a session, the clock and the failures of the database are arguments of each event; what is
  shown to the user and answered to the caller is appended to the state.
\<close>

subsection \<open>The history table\<close>

record stored_ai_panel =
  hp_panel_id :: string
  hp_workspace_name :: "string option"
  hp_project_path :: "bytes option"
  hp_title :: bytes
  hp_format :: string
  hp_content :: bytes
  hp_driver_name :: string
  hp_owner_session_id :: "string option"
  hp_created_at :: string
  hp_updated_at :: string

type_synonym history = "string \<Rightarrow> stored_ai_panel option"

definition repo_upsert :: "stored_ai_panel \<Rightarrow> history \<Rightarrow> history" where
  "repo_upsert p rows =
     (case rows (hp_panel_id p) of
        Some old \<Rightarrow> rows(hp_panel_id p \<mapsto> p\<lparr>hp_created_at := hp_created_at old\<rparr>)
      | None \<Rightarrow> rows(hp_panel_id p \<mapsto> p))"

definition repo_delete :: "string \<Rightarrow> history \<Rightarrow> history \<times> bool" where
  "repo_delete pid rows = (rows(pid := None), rows pid \<noteq> None)"

definition repo_set_owner :: "string \<Rightarrow> string option \<Rightarrow> history \<Rightarrow> history" where
  "repo_set_owner pid owner rows =
     (case rows pid of Some p \<Rightarrow> rows(pid \<mapsto> p\<lparr>hp_owner_session_id := owner\<rparr>) | None \<Rightarrow> rows)"

subsection \<open>The scope of a session\<close>

record ai_panel_scope =
  ps_driver_name :: string
  ps_workspace_name :: "string option"
  ps_project_path :: "bytes option"

definition unclassified_ai_panel_scope :: "string \<Rightarrow> ai_panel_scope" where
  "unclassified_ai_panel_scope sid = \<lparr>ps_driver_name = sid, ps_workspace_name = None, ps_project_path = None\<rparr>"

text \<open>The task binding of the session (title, workspace, place), else its launch record.\<close>

definition resolve_ai_panel_scope_from_services ::
  "(string + (string \<times> string option \<times> bytes) option) \<Rightarrow> (string + (string option \<times> bytes) option) \<Rightarrow> string \<Rightarrow> ai_panel_scope" where
  "resolve_ai_panel_scope_from_services binding launch sid =
     (case binding of
        Inr (Some (title, workspace, place)) \<Rightarrow>
          \<lparr>ps_driver_name = title, ps_workspace_name = workspace, ps_project_path = Some place\<rparr>
      | Inr None \<Rightarrow>
          (case launch of
             Inr (Some (workspace, place)) \<Rightarrow> \<lparr>ps_driver_name = sid, ps_workspace_name = workspace, ps_project_path = Some place\<rparr>
           | Inr None \<Rightarrow> unclassified_ai_panel_scope sid
           | Inl e \<Rightarrow> unclassified_ai_panel_scope sid)
      | Inl e \<Rightarrow> unclassified_ai_panel_scope sid)"

record panel_env =
  pn_now :: string
  pn_uuid :: string
  pn_caller :: "string + string"
  pn_binding :: "string \<Rightarrow> string + (string \<times> string option \<times> bytes) option"
  pn_launch :: "string \<Rightarrow> string + (string option \<times> bytes) option"
  pn_status :: "string \<Rightarrow> string + session_status option"
  pn_json_len :: "json \<Rightarrow> nat"
  pn_read_error :: "string option"
  pn_write_error :: "string option"

definition resolve_ai_panel_scope :: "panel_env \<Rightarrow> string \<Rightarrow> ai_panel_scope" where
  "resolve_ai_panel_scope e sid = resolve_ai_panel_scope_from_services (pn_binding e sid) (pn_launch e sid) sid"

subsection \<open>The state and the pieces of work\<close>

datatype panel_refusal =
    CallerUnknown string
  | RegistryRefused panel_error
  | NotInHistory string
  | HistoryUnreadable string
  | HeldBy string string
  | OwnerUnclear string string string
  | DeleteFailed string

datatype panel_answer =
    PanelRefused panel_refusal
  | PanelArchived string
  | PanelHeldAlready string
  | PanelDeleted bool
  | PanelClicked "panel_error option"

datatype panel_work =
    PersistPanel ai_panel string "string option" "bytes option"
  | PersistInScope ai_panel string
  | ShowPanel string ai_panel
  | ReleaseOwner string
  | AnnounceClosed string
  | ClaimRead string string
  | ClaimLook string stored_ai_panel
  | ClaimProbe string stored_ai_panel string
  | ClaimCommit string stored_ai_panel "string option"

record panel_world =
  pw_registry :: panel_registry
  pw_rows :: history
  pw_tasks :: "panel_work list list"
  pw_emitted :: "(string \<times> string \<times> ai_panel option) list"
  pw_answers :: "panel_answer list"

definition say :: "panel_answer \<Rightarrow> panel_world \<Rightarrow> panel_world" where
  "say a w = w\<lparr>pw_answers := pw_answers w @ [a]\<rparr>"

definition start_call :: "panel_work list \<Rightarrow> panel_world \<Rightarrow> panel_world" where
  "start_call ws w = w\<lparr>pw_tasks := pw_tasks w @ [ws]\<rparr>"

definition stored_of :: "ai_panel \<Rightarrow> string \<Rightarrow> string option \<Rightarrow> bytes option \<Rightarrow> stored_ai_panel" where
  "stored_of p owner workspace place =
     \<lparr>hp_panel_id = ap_id p, hp_workspace_name = workspace, hp_project_path = place, hp_title = ap_title p,
      hp_format = format_as_str (ap_format p), hp_content = ap_content p, hp_driver_name = ap_driver p,
      hp_owner_session_id = Some owner, hp_created_at = ap_updated_at p, hp_updated_at = ap_updated_at p\<rparr>"

text \<open>\<open>persist_ai_panel\<close>: under the registry lock; a panel whose owner has changed is not written, and a
  failure of the database is only logged.\<close>

definition persist_ai_panel :: "panel_env \<Rightarrow> ai_panel \<Rightarrow> string \<Rightarrow> string option \<Rightarrow> bytes option \<Rightarrow> panel_world \<Rightarrow> panel_world" where
  "persist_ai_panel e p owner workspace place w =
     (if owner_of (ap_id p) (pw_registry w) \<noteq> Some owner then w
      else if pn_write_error e \<noteq> None then w
      else w\<lparr>pw_rows := repo_upsert (stored_of p owner workspace place) (pw_rows w)\<rparr>)"

definition stored_or_resolved_scope :: "panel_env \<Rightarrow> string \<Rightarrow> string \<Rightarrow> panel_world \<Rightarrow> string option \<times> bytes option" where
  "stored_or_resolved_scope e pid sid w =
     (case (if pn_read_error e = None then pw_rows w pid else None) of
        Some stored \<Rightarrow> (hp_workspace_name stored, hp_project_path stored)
      | None \<Rightarrow> (let scope = resolve_ai_panel_scope e sid in (ps_workspace_name scope, ps_project_path scope)))"

definition claimed_panel :: "panel_env \<Rightarrow> string \<Rightarrow> stored_ai_panel \<Rightarrow> ai_panel" where
  "claimed_panel e caller stored =
     \<lparr>ap_id = hp_panel_id stored, ap_title = hp_title stored, ap_format = format_from_stored (hp_format stored),
      ap_content = hp_content stored, ap_driver = ps_driver_name (resolve_ai_panel_scope e caller), ap_updated_at = pn_now e\<rparr>"

fun run_panel_work :: "panel_env \<Rightarrow> panel_work \<Rightarrow> panel_world \<Rightarrow> panel_world \<times> panel_work list" where
  "run_panel_work e (PersistPanel p owner workspace place) w = (persist_ai_panel e p owner workspace place w, [])"
| "run_panel_work e (PersistInScope p owner) w =
     (case stored_or_resolved_scope e (ap_id p) owner w of (workspace, place) \<Rightarrow> (w, [PersistPanel p owner workspace place]))"
| "run_panel_work e (ShowPanel operation p) w = (w\<lparr>pw_emitted := pw_emitted w @ [(operation, ap_id p, Some p)]\<rparr>, [])"
| "run_panel_work e (ReleaseOwner pid) w =
     ((if pn_write_error e = None then w\<lparr>pw_rows := repo_set_owner pid None (pw_rows w)\<rparr> else w), [])"
| "run_panel_work e (AnnounceClosed pid) w = (say (PanelArchived pid) (w\<lparr>pw_emitted := pw_emitted w @ [(''close'', pid, None)]\<rparr>), [])"
| "run_panel_work e (ClaimRead caller pid) w =
     (case pn_read_error e of
        Some err \<Rightarrow> (say (PanelRefused (HistoryUnreadable err)) w, [])
      | None \<Rightarrow>
          (case pw_rows w pid of
             None \<Rightarrow> (say (PanelRefused (NotInHistory pid)) w, [])
           | Some stored \<Rightarrow> (w, [ClaimLook caller stored])))"
| "run_panel_work e (ClaimLook caller stored) w =
     (case owner_of (hp_panel_id stored) (pw_registry w) of
        None \<Rightarrow> (w, [ClaimCommit caller stored None])
      | Some owner \<Rightarrow>
          if owner = caller then (say (PanelHeldAlready (hp_panel_id stored)) w, [])
          else (w, [ClaimProbe caller stored owner]))"
| "run_panel_work e (ClaimProbe caller stored owner) w =
     (case pn_status e owner of
        Inl err \<Rightarrow> (say (PanelRefused (OwnerUnclear (hp_panel_id stored) owner err)) w, [])
      | Inr (Some st) \<Rightarrow>
          if \<not> is_terminal st then (say (PanelRefused (HeldBy (hp_panel_id stored) owner)) w, [])
          else (w, [ClaimCommit caller stored (Some owner)])
      | Inr None \<Rightarrow> (w, [ClaimCommit caller stored (Some owner)]))"
| "run_panel_work e (ClaimCommit caller stored expected) w =
     (let panel = claimed_panel e caller stored
      in case claim_if_owner_unchanged caller expected panel (pw_registry w) of
           (reg, Inl err) \<Rightarrow> (say (PanelRefused (RegistryRefused err)) (w\<lparr>pw_registry := reg\<rparr>), [])
         | (reg, Inr AlreadyOwned) \<Rightarrow> (say (PanelHeldAlready (hp_panel_id stored)) (w\<lparr>pw_registry := reg\<rparr>), [])
         | (reg, Inr Claimed) \<Rightarrow>
             (w\<lparr>pw_registry := reg\<rparr>,
              [PersistPanel panel caller (hp_workspace_name stored) (hp_project_path stored), ShowPanel ''open'' panel]))"

subsection \<open>The tools\<close>

definition for_caller :: "panel_env \<Rightarrow> (string \<Rightarrow> panel_world \<Rightarrow> panel_world) \<Rightarrow> panel_world \<Rightarrow> panel_world" where
  "for_caller e f w =
     (case pn_caller e of Inl err \<Rightarrow> say (PanelRefused (CallerUnknown err)) w | Inr sid \<Rightarrow> f sid w)"

text \<open>The owner and the driver of the request are filled in for the caller.\<close>

definition call_request :: "panel_env \<Rightarrow> string \<Rightarrow> open_request \<Rightarrow> open_request" where
  "call_request e sid q = q\<lparr>oq_owner := sid, oq_driver := ps_driver_name (resolve_ai_panel_scope e sid)\<rparr>"

definition open_ai_panel :: "panel_env \<Rightarrow> open_request \<Rightarrow> panel_world \<Rightarrow> panel_world" where
  "open_ai_panel e q = for_caller e (\<lambda>sid w.
     let scope = resolve_ai_panel_scope e sid
     in case panel_open (pn_now e) (pn_uuid e) (call_request e sid q) (pw_registry w) of
          (reg, Inl err) \<Rightarrow> say (PanelRefused (RegistryRefused err)) (w\<lparr>pw_registry := reg\<rparr>)
        | (reg, Inr panel) \<Rightarrow>
            start_call [PersistPanel panel sid (ps_workspace_name scope) (ps_project_path scope), ShowPanel ''open'' panel]
              (w\<lparr>pw_registry := reg\<rparr>))"

definition update_ai_panel :: "panel_env \<Rightarrow> string \<Rightarrow> bytes \<Rightarrow> bytes option \<Rightarrow> panel_world \<Rightarrow> panel_world" where
  "update_ai_panel e pid content title = for_caller e (\<lambda>sid w.
     case panel_update (pn_now e) sid pid content title (pw_registry w) of
       (reg, Inl err) \<Rightarrow> say (PanelRefused (RegistryRefused err)) (w\<lparr>pw_registry := reg\<rparr>)
     | (reg, Inr panel) \<Rightarrow>
         start_call [PersistInScope panel sid, ShowPanel ''update'' panel] (w\<lparr>pw_registry := reg\<rparr>))"

definition close_ai_panel :: "panel_env \<Rightarrow> string \<Rightarrow> panel_world \<Rightarrow> panel_world" where
  "close_ai_panel e pid = for_caller e (\<lambda>sid w.
     case panel_close sid pid (pw_registry w) of
       (reg, Inl err) \<Rightarrow> say (PanelRefused (RegistryRefused err)) (w\<lparr>pw_registry := reg\<rparr>)
     | (reg, Inr panel) \<Rightarrow> start_call [ReleaseOwner (ap_id panel), AnnounceClosed (ap_id panel)] (w\<lparr>pw_registry := reg\<rparr>))"

definition claim_ai_panel :: "panel_env \<Rightarrow> string \<Rightarrow> panel_world \<Rightarrow> panel_world" where
  "claim_ai_panel e pid = for_caller e (\<lambda>sid w. start_call [ClaimRead sid pid] w)"

definition record_ai_panel_event :: "panel_env \<Rightarrow> string \<Rightarrow> string \<Rightarrow> json option \<Rightarrow> panel_world \<Rightarrow> panel_world" where
  "record_ai_panel_event e pid action payload w =
     (case record_event (pn_json_len e) (pn_now e) pid action payload (pw_registry w) of
        (reg, err) \<Rightarrow> say (PanelClicked err) (w\<lparr>pw_registry := reg\<rparr>))"

text \<open>\<open>delete_ai_panel\<close>: both stores under the registry lock; a failure of the database comes first.\<close>

definition delete_ai_panel :: "panel_env \<Rightarrow> string \<Rightarrow> panel_world \<Rightarrow> panel_world" where
  "delete_ai_panel e pid w =
     (case pn_write_error e of
        Some err \<Rightarrow> say (PanelRefused (DeleteFailed err)) w
      | None \<Rightarrow>
          (case repo_delete pid (pw_rows w) of (rows, deleted) \<Rightarrow>
             case remove_any pid (pw_registry w) of (reg, removed) \<Rightarrow>
               say (PanelDeleted (deleted \<or> removed)) (w\<lparr>pw_registry := reg, pw_rows := rows\<rparr>)))"

datatype panel_call =
    CallOpen open_request
  | CallUpdate string bytes "bytes option"
  | CallClose string
  | CallClaim string
  | UserClick string string "json option"
  | UserDelete string
  | NextPiece nat

definition run_piece :: "panel_env \<Rightarrow> nat \<Rightarrow> panel_world \<Rightarrow> panel_world" where
  "run_piece e i w =
     (if i < length (pw_tasks w) then
        (case pw_tasks w ! i of
           [] \<Rightarrow> w
         | p # ps \<Rightarrow>
             (case run_panel_work e p w of
                (w1, new) \<Rightarrow> w1\<lparr>pw_tasks := (pw_tasks w1)[i := new @ ps]\<rparr>))
      else w)"

fun history_exec :: "panel_env \<times> panel_call \<Rightarrow> panel_world \<Rightarrow> panel_world" where
  "history_exec (e, CallOpen q) w = open_ai_panel e q w"
| "history_exec (e, CallUpdate pid content title) w = update_ai_panel e pid content title w"
| "history_exec (e, CallClose pid) w = close_ai_panel e pid w"
| "history_exec (e, CallClaim pid) w = claim_ai_panel e pid w"
| "history_exec (e, UserClick pid action payload) w = record_ai_panel_event e pid action payload w"
| "history_exec (e, UserDelete pid) w = delete_ai_panel e pid w"
| "history_exec (e, NextPiece i) w = run_piece e i w"

definition history_run :: "(panel_env \<times> panel_call) list \<Rightarrow> panel_world \<Rightarrow> panel_world" where
  "history_run calls w = fold history_exec calls w"

lemma history_run_simps [simp]:
  "history_run [] w = w" "history_run (c # cs) w = history_run cs (history_exec c w)"
  "history_run (cs @ ds) w = history_run ds (history_run cs w)"
  by (simp_all add: history_run_def)


lemma list_all_list_update: "list_all P xs \<Longrightarrow> P y \<Longrightarrow> list_all P (xs[i := y])"
  using set_update_subset_insert [of xs i y] by (auto simp: list_all_iff)

subsection \<open>A run of calls is a run of the registry\<close>

definition piece_at :: "nat \<Rightarrow> panel_world \<Rightarrow> panel_work option" where
  "piece_at i w = (if i < length (pw_tasks w) then (case pw_tasks w ! i of [] \<Rightarrow> None | p # ps \<Rightarrow> Some p) else None)"

fun registry_op :: "panel_env \<times> panel_call \<Rightarrow> panel_world \<Rightarrow> panel_op option" where
  "registry_op (e, CallOpen q) w =
     (case pn_caller e of Inr sid \<Rightarrow> Some (OpenPanel (pn_now e) (pn_uuid e) (call_request e sid q)) | Inl err \<Rightarrow> None)"
| "registry_op (e, CallUpdate pid content title) w =
     (case pn_caller e of Inr sid \<Rightarrow> Some (UpdatePanel (pn_now e) sid pid content title) | Inl err \<Rightarrow> None)"
| "registry_op (e, CallClose pid) w = (case pn_caller e of Inr sid \<Rightarrow> Some (ClosePanel sid pid) | Inl err \<Rightarrow> None)"
| "registry_op (e, CallClaim pid) w = None"
| "registry_op (e, UserClick pid action payload) w = Some (ClickPanel (pn_now e) pid action payload)"
| "registry_op (e, UserDelete pid) w = (if pn_write_error e = None then Some (DeletePanel pid) else None)"
| "registry_op (e, NextPiece i) w =
     (case piece_at i w of
        Some (ClaimCommit caller stored expected) \<Rightarrow> Some (ClaimPanel caller expected (claimed_panel e caller stored))
      | _ \<Rightarrow> None)"

lemma say_fields [simp]:
  "pw_registry (say a w) = pw_registry w" "pw_rows (say a w) = pw_rows w" "pw_tasks (say a w) = pw_tasks w"
  by (simp_all add: say_def)

lemma start_call_fields [simp]:
  "pw_registry (start_call ws w) = pw_registry w" "pw_rows (start_call ws w) = pw_rows w"
  "pw_tasks (start_call ws w) = pw_tasks w @ [ws]"
  by (simp_all add: start_call_def)

lemma persist_fields [simp]:
  "pw_registry (persist_ai_panel e p owner ws place w) = pw_registry w"
  "pw_tasks (persist_ai_panel e p owner ws place w) = pw_tasks w"
  by (simp_all add: persist_ai_panel_def)

lemma piece_registry:
  "pw_registry (fst (run_panel_work e p w)) =
     (case p of ClaimCommit caller stored expected \<Rightarrow>
        panel_exec (pn_json_len e) (ClaimPanel caller expected (claimed_panel e caller stored)) (pw_registry w)
      | _ \<Rightarrow> pw_registry w)"
  by (cases p) (auto simp: Let_def split: prod.split sum.split option.split claim_result.split)

lemma run_piece_step:
  "run_piece e i w =
     (case piece_at i w of None \<Rightarrow> w
      | Some p \<Rightarrow> (fst (run_panel_work e p w))\<lparr>pw_tasks :=
          (pw_tasks (fst (run_panel_work e p w)))[i := snd (run_panel_work e p w) @ tl (pw_tasks w ! i)]\<rparr>)"
  by (simp add: run_piece_def piece_at_def split: list.split prod.split)

lemma history_step:
  "pw_registry (history_exec (e, c) w) =
     (case registry_op (e, c) w of Some op \<Rightarrow> panel_exec (pn_json_len e) op (pw_registry w) | None \<Rightarrow> pw_registry w)"
proof (cases c)
  case (NextPiece i)
  show ?thesis
    by (cases "piece_at i w") (simp_all add: NextPiece run_piece_step piece_registry split: panel_work.split)
qed (auto simp: open_ai_panel_def update_ai_panel_def close_ai_panel_def claim_ai_panel_def record_ai_panel_event_def
    delete_ai_panel_def for_caller_def Let_def repo_delete_def split: sum.split prod.split option.split)

lemma history_run_registry: "registry_ok (pw_registry w) \<Longrightarrow> registry_ok (pw_registry (history_run cs w))"
proof (induction cs arbitrary: w)
  case (Cons c cs)
  obtain e x where c: "c = (e, x)" by (cases c)
  have "registry_ok (pw_registry (history_exec c w))"
    using Cons.prems by (simp add: c history_step exec_ok del: history_exec.simps split: option.split)
  then show ?case using Cons.IH by simp
qed simp

subsection \<open>A live owner keeps its panel\<close>

text \<open>No claim in flight may take the panel from \<open>s\<close> without asking for the state of \<open>s\<close>.\<close>

fun unvouched :: "string \<Rightarrow> string \<Rightarrow> panel_work \<Rightarrow> bool" where
  "unvouched s pid (ClaimCommit caller stored expected) = (hp_panel_id stored \<noteq> pid \<or> expected \<noteq> Some s)"
| "unvouched s pid p = True"

definition no_vouched_claim :: "string \<Rightarrow> string \<Rightarrow> panel_world \<Rightarrow> bool" where
  "no_vouched_claim s pid w = list_all (list_all (unvouched s pid)) (pw_tasks w)"

definition alive :: "panel_env \<Rightarrow> string \<Rightarrow> bool" where
  "alive e s = (case pn_status e s of Inr (Some st) \<Rightarrow> \<not> is_terminal st | Inr None \<Rightarrow> False | Inl err \<Rightarrow> True)"

text \<open>Calls that neither come from \<open>s\<close> about its panel nor are the user's deletion of it.\<close>

fun not_by_owner :: "string \<Rightarrow> string \<Rightarrow> panel_env \<times> panel_call \<Rightarrow> bool" where
  "not_by_owner s pid (e, CallOpen q) = (pn_caller e \<noteq> Inr s)"
| "not_by_owner s pid (e, CallUpdate p content title) = (pn_caller e \<noteq> Inr s)"
| "not_by_owner s pid (e, CallClose p) = (pn_caller e \<noteq> Inr s)"
| "not_by_owner s pid (e, UserDelete p) = (p \<noteq> pid)"
| "not_by_owner s pid (e, c) = True"

lemma piece_unvouched:
  assumes "alive e s"
  shows "list_all (unvouched s pid) (snd (run_panel_work e p w))"
proof (cases p)
  case (ClaimProbe caller stored owner)
  then show ?thesis using assms by (cases "owner = s") (auto simp: alive_def split: sum.split option.split)
qed (auto simp: Let_def split: prod.split sum.split option.split claim_result.split)

lemma piece_tasks [simp]: "pw_tasks (fst (run_panel_work e p w)) = pw_tasks w"
  by (cases p) (auto simp: Let_def split: prod.split sum.split option.split claim_result.split)

lemma started_unvouched:
  "(\<forall>i. c \<noteq> NextPiece i) \<Longrightarrow> no_vouched_claim s pid w \<Longrightarrow> no_vouched_claim s pid (history_exec (e, c) w)"
  by (cases c) (auto simp: no_vouched_claim_def open_ai_panel_def update_ai_panel_def close_ai_panel_def claim_ai_panel_def
      record_ai_panel_event_def delete_ai_panel_def for_caller_def Let_def split: sum.split prod.split option.split)

lemma task_unvouched:
  "no_vouched_claim s pid w \<Longrightarrow> i < length (pw_tasks w) \<Longrightarrow> pw_tasks w ! i = p # ps \<Longrightarrow>
   unvouched s pid p \<and> list_all (unvouched s pid) ps"
  unfolding no_vouched_claim_def list_all_length [of _ "pw_tasks w"] by (metis list.pred_inject(2))

lemma step_unvouched:
  assumes "no_vouched_claim s pid w" and "alive e s"
  shows "no_vouched_claim s pid (history_exec (e, c) w)"
proof (cases "\<exists>i. c = NextPiece i")
  case True
  then obtain i where NextPiece: "c = NextPiece i" by blast
  show ?thesis
  proof (cases "piece_at i w")
    case (Some p)
    then have i: "i < length (pw_tasks w)" "pw_tasks w ! i = p # tl (pw_tasks w ! i)"
      by (simp_all add: piece_at_def split: if_splits list.splits)
    have "list_all (unvouched s pid) (tl (pw_tasks w ! i))"
      using task_unvouched [OF assms(1) i] by simp
    then have "list_all (unvouched s pid) (snd (run_panel_work e p w) @ tl (pw_tasks w ! i))"
      using piece_unvouched [OF assms(2)] by simp
    then show ?thesis
      using assms(1) Some by (simp add: NextPiece run_piece_step no_vouched_claim_def list_all_list_update)
  qed (use assms NextPiece in \<open>simp add: run_piece_step\<close>)
next
  case False
  then show ?thesis using started_unvouched [OF _ assms(1)] by blast
qed

lemma step_op_keeps:
  assumes "no_vouched_claim s pid w" and "not_by_owner s pid (e, c)" and "registry_op (e, c) w = Some op"
  shows "keeps_panel s pid op \<and> by_other s op"
proof (cases c)
  case (NextPiece i)
  then obtain caller stored expected where p: "piece_at i w = Some (ClaimCommit caller stored expected)"
    and op: "op = ClaimPanel caller expected (claimed_panel e caller stored)"
    using assms(3) by (auto split: option.splits panel_work.splits)
  then obtain ps where "i < length (pw_tasks w)" "pw_tasks w ! i = ClaimCommit caller stored expected # ps"
    by (auto simp: piece_at_def split: if_splits list.splits)
  then have "unvouched s pid (ClaimCommit caller stored expected)"
    using task_unvouched [OF assms(1)] by blast
  then show ?thesis using op by (simp add: claimed_panel_def)
qed (use assms in \<open>auto simp: call_request_def split: sum.splits if_splits\<close>)

text \<open>C23: A live session keeps its panel. Let \<open>s\<close> own a panel, with no claim in flight that has already
  taken \<open>s\<close> for dead. As long as \<open>s\<close> is reported alive (or its state cannot be read), every sequence of
  tool calls by other sessions, of pieces of their running calls, of claims of this panel, of the
  user's clicks and of deletions of other panels leaves the panel with \<open>s\<close>, its content unchanged.\<close>

theorem live_owner_keeps_panel:
  assumes "map_of (pw_registry w) pid = Some r" and "ar_owner r = s" and "no_vouched_claim s pid w"
    and "list_all (\<lambda>(e, c). alive e s \<and> not_by_owner s pid (e, c)) cs"
  shows "\<exists>r1. map_of (pw_registry (history_run cs w)) pid = Some r1 \<and> ar_owner r1 = s \<and> ar_panel r1 = ar_panel r"
  using assms
proof (induction cs arbitrary: w r)
  case (Cons x cs)
  obtain e c where x: "x = (e, c)" by (cases x)
  have "\<exists>r1. map_of (pw_registry (history_exec (e, c) w)) pid = Some r1 \<and> ar_owner r1 = s \<and> ar_panel r1 = ar_panel r"
    using exec_owned [OF Cons.prems(1,2), of _ "pn_json_len e"] step_op_keeps [OF Cons.prems(3), of e c] Cons.prems(1,2,4) x
    by (cases "registry_op (e, c) w") (auto simp: history_step simp del: history_exec.simps registry_op.simps)
  then obtain r1 where r1: "map_of (pw_registry (history_exec (e, c) w)) pid = Some r1" "ar_owner r1 = s" "ar_panel r1 = ar_panel r"
    by blast
  have "no_vouched_claim s pid (history_exec (e, c) w)" using step_unvouched [OF Cons.prems(3)] Cons.prems(4) x by simp
  then show ?case using Cons.IH [OF r1(1,2)] r1(3) Cons.prems(4) x by (simp del: history_exec.simps)
qed simp


subsection \<open>Deleted panels\<close>

fun claims_panel :: "string \<Rightarrow> panel_work \<Rightarrow> bool" where
  "claims_panel pid (ClaimLook caller stored) = (hp_panel_id stored = pid)"
| "claims_panel pid (ClaimProbe caller stored owner) = (hp_panel_id stored = pid)"
| "claims_panel pid (ClaimCommit caller stored expected) = (hp_panel_id stored = pid)"
| "claims_panel pid p = False"

text \<open>Rows are filed under their id.\<close>

definition history_ok :: "history \<Rightarrow> bool" where
  "history_ok rows = (\<forall>pid p. rows pid = Some p \<longrightarrow> hp_panel_id p = pid)"

definition gone :: "string \<Rightarrow> panel_world \<Rightarrow> bool" where
  "gone pid w =
     (pw_rows w pid = None \<and> map_of (pw_registry w) pid = None \<and> history_ok (pw_rows w)
      \<and> list_all (list_all (\<lambda>p. \<not> claims_panel pid p)) (pw_tasks w))"

fun may_open :: "string \<Rightarrow> panel_env \<times> panel_call \<Rightarrow> bool" where
  "may_open pid (e, CallOpen q) = (\<exists>sid. requested_id (pn_uuid e) (call_request e sid q) = Inr pid)"
| "may_open pid (e, c) = False"

lemma upsert_ok [simp]: "history_ok rows \<Longrightarrow> history_ok (repo_upsert p rows)"
  by (auto simp: history_ok_def repo_upsert_def split: option.split)

lemma set_owner_ok [simp]: "history_ok rows \<Longrightarrow> history_ok (repo_set_owner pid owner rows)"
  by (auto simp: history_ok_def repo_set_owner_def split: option.split)

lemma piece_gone:
  assumes rows: "pw_rows w pid = None" "map_of (pw_registry w) pid = None" "history_ok (pw_rows w)" and p: "\<not> claims_panel pid p"
  shows "pw_rows (fst (run_panel_work e p w)) pid = None" "map_of (pw_registry (fst (run_panel_work e p w))) pid = None"
    "history_ok (pw_rows (fst (run_panel_work e p w)))" "list_all (\<lambda>p. \<not> claims_panel pid p) (snd (run_panel_work e p w))"
proof -
  show "map_of (pw_registry (fst (run_panel_work e p w))) pid = None"
    unfolding piece_registry using rows(2) p
    by (cases p) (auto simp: claim_if_owner_unchanged_def update_conv' claimed_panel_def Let_def)
  show "pw_rows (fst (run_panel_work e p w)) pid = None"
    using rows(1,2) by (cases p) (auto simp: persist_ai_panel_def repo_upsert_def repo_set_owner_def stored_of_def owner_of_def Let_def
        split: option.split prod.split sum.split claim_result.split)
  show "history_ok (pw_rows (fst (run_panel_work e p w)))"
    using rows(3) by (cases p) (auto simp: persist_ai_panel_def Let_def split: option.split prod.split sum.split claim_result.split)
  show "list_all (\<lambda>p. \<not> claims_panel pid p) (snd (run_panel_work e p w))"
    using rows(1,3) p by (cases p) (auto simp: history_ok_def Let_def split: option.split prod.split sum.split claim_result.split)
qed

lemma open_gone: "map_of reg pid = None \<Longrightarrow> requested_id uuid q \<noteq> Inr pid \<Longrightarrow> map_of (fst (panel_open now uuid q reg)) pid = None"
  by (auto simp: panel_open_def update_conv' Let_def split: sum.split option.split)

lemma update_gone: "map_of reg pid = None \<Longrightarrow> map_of (fst (panel_update now owner p content title reg)) pid = None"
  by (auto simp: panel_update_def update_conv' Let_def split: option.split)

lemma call_gone:
  assumes "gone pid w" and "\<not> may_open pid (e, c)" and "\<forall>i. c \<noteq> NextPiece i"
  shows "gone pid (history_exec (e, c) w)"
proof -
  have reg: "map_of (pw_registry (history_exec (e, c) w)) pid = None"
    using assms unfolding history_step
    by (cases c) (auto simp: gone_def open_gone update_gone panel_close_def record_event_def remove_any_def update_conv' delete_conv'
        split: sum.split option.split)
  have "history_ok (pw_rows (history_exec (e, c) w)) \<and> pw_rows (history_exec (e, c) w) pid = None
    \<and> list_all (list_all (\<lambda>p. \<not> claims_panel pid p)) (pw_tasks (history_exec (e, c) w))"
    using assms by (cases c) (auto simp: gone_def open_ai_panel_def update_ai_panel_def close_ai_panel_def claim_ai_panel_def
        record_ai_panel_event_def delete_ai_panel_def repo_delete_def history_ok_def for_caller_def Let_def
        split: sum.split prod.split option.split)
  then show ?thesis using reg by (simp add: gone_def)
qed

lemma step_gone:
  assumes "gone pid w" and "\<not> may_open pid (e, c)"
  shows "gone pid (history_exec (e, c) w)"
proof (cases "\<exists>i. c = NextPiece i")
  case True
  then obtain i where i: "c = NextPiece i" by blast
  show ?thesis
  proof (cases "piece_at i w")
    case (Some p)
    then have at: "i < length (pw_tasks w)" "pw_tasks w ! i = p # tl (pw_tasks w ! i)"
      by (simp_all add: piece_at_def split: if_splits list.splits)
    have "list_all (\<lambda>p. \<not> claims_panel pid p) (p # tl (pw_tasks w ! i))"
      using assms(1) at by (metis gone_def list_all_length)
    then have p: "\<not> claims_panel pid p" "list_all (\<lambda>p. \<not> claims_panel pid p) (tl (pw_tasks w ! i))" by simp_all
    have w: "pw_rows w pid = None" "map_of (pw_registry w) pid = None" "history_ok (pw_rows w)"
      using assms(1) by (simp_all add: gone_def)
    show ?thesis
      using assms(1) piece_gone [OF w p(1), of e] p(2)
      by (simp add: i run_piece_step Some gone_def list_all_list_update)
  qed (use assms i in \<open>simp add: run_piece_step\<close>)
next
  case False
  then show ?thesis using call_gone [OF assms] by blast
qed

text \<open>C25: A deleted panel stays deleted. After the user's deletion of a panel, with no claim of it in
  flight, no sequence of calls and pieces brings it back into the registry or the history, although
  updates and closings of it may still be on their way to the database; only opening a panel under
  the same id does.\<close>

theorem deleted_panel_stays_deleted:
  assumes "history_ok (pw_rows w)" and "list_all (list_all (\<lambda>p. \<not> claims_panel pid p)) (pw_tasks w)"
    and "pn_write_error e = None" and "list_all (\<lambda>c. \<not> may_open pid c) cs"
  shows "pw_rows (history_run cs (delete_ai_panel e pid w)) pid = None
    \<and> map_of (pw_registry (history_run cs (delete_ai_panel e pid w))) pid = None"
proof -
  have "gone pid (delete_ai_panel e pid w)"
    using assms(1-3) by (auto simp: gone_def delete_ai_panel_def repo_delete_def remove_any_def history_ok_def delete_conv')
  then have "gone pid (history_run cs (delete_ai_panel e pid w))" using assms(4)
  proof (induction cs arbitrary: e w rule: rev_induct)
    case (snoc c cs)
    obtain e1 x where c: "c = (e1, x)" by (cases c)
    have "gone pid (history_run cs (delete_ai_panel e pid w))" using snoc by simp
    then show ?case using step_gone [of pid _ e1 x] snoc.prems(2) c by (simp del: history_exec.simps may_open.simps)
  qed simp
  then show ?thesis by (simp add: gone_def)
qed


subsection \<open>Three interleavings\<close>

definition panel_demo_env :: "string \<Rightarrow> string \<Rightarrow> panel_env" where
  "panel_demo_env now caller =
     \<lparr>pn_now = now, pn_uuid = ''u'', pn_caller = Inr caller, pn_binding = (\<lambda>_. Inr None), pn_launch = (\<lambda>_. Inr None),
      pn_status = (\<lambda>_. Inr (Some Idle)), pn_json_len = (\<lambda>_. 4), pn_read_error = None, pn_write_error = None\<rparr>"

definition owned_world :: panel_world where
  "owned_world = \<lparr>pw_registry = demo_registry, pw_rows = [''p'' \<mapsto> stored_of (demo_panel ''A'') ''s'' None None],
     pw_tasks = [], pw_emitted = [], pw_answers = []\<rparr>"

definition archived_world :: panel_world where
  "archived_world = owned_world\<lparr>pw_registry := [], pw_rows := [''p'' \<mapsto> (stored_of (demo_panel ''A'') ''s'' None None)\<lparr>hp_owner_session_id := None\<rparr>]\<rparr>"

abbreviation s_calls :: "string \<Rightarrow> panel_call \<Rightarrow> panel_env \<times> panel_call" where
  "s_calls now c \<equiv> (panel_demo_env now ''s'', c)"

abbreviation t_calls :: "string \<Rightarrow> panel_call \<Rightarrow> panel_env \<times> panel_call" where
  "t_calls now c \<equiv> (panel_demo_env now ''t'', c)"

definition crossing_updates :: "(panel_env \<times> panel_call) list" where
  "crossing_updates =
     [s_calls ''2'' (CallUpdate ''p'' ''B'' None), s_calls ''3'' (CallUpdate ''p'' ''C'' None),
      s_calls ''4'' (NextPiece 1), s_calls ''4'' (NextPiece 1), s_calls ''4'' (NextPiece 0), s_calls ''4'' (NextPiece 0)]"

definition claim_across_delete :: "(panel_env \<times> panel_call) list" where
  "claim_across_delete =
     [t_calls ''2'' (CallClaim ''p''), t_calls ''2'' (NextPiece 0), t_calls ''2'' (NextPiece 0), t_calls ''3'' (UserDelete ''p''),
      t_calls ''4'' (NextPiece 0), t_calls ''4'' (NextPiece 0)]"

definition claim_across_close :: "(panel_env \<times> panel_call) list" where
  "claim_across_close =
     [s_calls ''2'' (CallClose ''p''), t_calls ''3'' (CallClaim ''p''), t_calls ''3'' (NextPiece 1), t_calls ''3'' (NextPiece 1),
      t_calls ''3'' (NextPiece 1), t_calls ''3'' (NextPiece 1), s_calls ''4'' (NextPiece 0)]"

lemmas panel_eval = panel_demo_env_def owned_world_def archived_world_def demo_registry_def demo_panel_def new_record_def
  update_ai_panel_def close_ai_panel_def claim_ai_panel_def delete_ai_panel_def for_caller_def panel_update_def panel_close_def
  claim_if_owner_unchanged_def claimed_panel_def persist_ai_panel_def repo_upsert_def repo_set_owner_def repo_delete_def remove_any_def
  stored_of_def stored_or_resolved_scope_def resolve_ai_panel_scope_def resolve_ai_panel_scope_from_services_def
  unclassified_ai_panel_scope_def owner_of_def owned_count_def run_piece_def start_call_def say_def Let_def
  validate_ai_panel_content_def AI_PANEL_CONTENT_MAX_BYTES_def AI_PANELS_MAX_PER_SESSION_def format_from_stored_def

text \<open>Three races between the registry and the history. Two updates of the owner may reach the database
  in the other order: the panel shows the newer content, the history keeps the older one until the next update. A
  claim that has read the history before the user deletes the panel brings the deleted panel back. And
  a closing that releases the owner late clears the new owner of a panel that another session has
  claimed meanwhile, so the history calls a panel free that is not.\<close>

theorem panel_history_races:
  "map_option hp_content (pw_rows (history_run crossing_updates owned_world) ''p'') = Some ''B''
   \<and> map_option (ap_content \<circ> ar_panel) (map_of (pw_registry (history_run crossing_updates owned_world)) ''p'') = Some ''C''
   \<and> map_option hp_owner_session_id (pw_rows (history_run claim_across_delete archived_world) ''p'') = Some (Some ''t'')
   \<and> map_option hp_owner_session_id (pw_rows (history_run claim_across_close owned_world) ''p'') = Some None
   \<and> owner_of ''p'' (pw_registry (history_run claim_across_close owned_world)) = Some ''t''"
proof (intro conjI)
  show "map_option hp_content (pw_rows (history_run crossing_updates owned_world) ''p'') = Some ''B''"
    "map_option (ap_content \<circ> ar_panel) (map_of (pw_registry (history_run crossing_updates owned_world)) ''p'') = Some ''C''"
    by (simp_all add: crossing_updates_def panel_eval)
  show "map_option hp_owner_session_id (pw_rows (history_run claim_across_delete archived_world) ''p'') = Some (Some ''t'')"
    by (simp add: claim_across_delete_def panel_eval)
  show "map_option hp_owner_session_id (pw_rows (history_run claim_across_close owned_world) ''p'') = Some None"
    "owner_of ''p'' (pw_registry (history_run claim_across_close owned_world)) = Some ''t''"
    by (simp_all add: claim_across_close_def panel_eval)
qed

subsection \<open>Concrete runs\<close>

definition hostile_calls :: "(panel_env \<times> panel_call) list" where
  "hostile_calls =
     [t_calls ''2'' (CallUpdate ''p'' ''X'' None), t_calls ''3'' (CallClaim ''p''), t_calls ''3'' (NextPiece 0),
      t_calls ''3'' (NextPiece 0), t_calls ''3'' (NextPiece 0), t_calls ''4'' (CallClose ''p'')]"

theorem live_owner_keeps_panel_witness:
  "map_option (ap_content \<circ> ar_panel) (map_of (pw_registry (history_run hostile_calls owned_world)) ''p'') = Some ''A''"
proof -
  have held: "map_of (pw_registry owned_world) ''p'' = Some (new_record ''s'' (demo_panel ''A''))"
    by (simp add: owned_world_def demo_registry_def)
  have free: "no_vouched_claim ''s'' ''p'' owned_world" by (simp add: no_vouched_claim_def owned_world_def)
  have hostile: "list_all (\<lambda>(e, c). alive e ''s'' \<and> not_by_owner ''s'' ''p'' (e, c)) hostile_calls"
    by (simp add: hostile_calls_def alive_def panel_demo_env_def is_terminal_def)
  obtain r1 where "map_of (pw_registry (history_run hostile_calls owned_world)) ''p'' = Some r1"
    "ar_panel r1 = ar_panel (new_record ''s'' (demo_panel ''A''))"
    using live_owner_keeps_panel [OF held new_record_fields(1) free hostile] by (elim exE conjE)
  then show ?thesis by (simp add: demo_panel_def)
qed

definition late_update :: "(panel_env \<times> panel_call) list" where
  "late_update = [s_calls ''3'' (NextPiece 0), s_calls ''3'' (NextPiece 0), t_calls ''4'' (CallClaim ''p''), t_calls ''4'' (NextPiece 1)]"

definition updating_world :: panel_world where
  "updating_world = history_exec (s_calls ''2'' (CallUpdate ''p'' ''B'' None)) owned_world"

lemma updating_tasks: "pw_tasks updating_world = [[PersistInScope ((demo_panel ''B'')\<lparr>ap_updated_at := ''2''\<rparr>) ''s'',
    ShowPanel ''update'' ((demo_panel ''B'')\<lparr>ap_updated_at := ''2''\<rparr>)]]"
  and updating_rows: "pw_rows updating_world = [''p'' \<mapsto> stored_of (demo_panel ''A'') ''s'' None None]"
  by (simp_all add: updating_world_def panel_eval)

theorem deleted_panel_stays_deleted_witness:
  "pw_rows (history_run late_update (delete_ai_panel (panel_demo_env ''2'' ''s'') ''p'' updating_world)) ''p'' = None
   \<and> map_of (pw_registry (history_run late_update (delete_ai_panel (panel_demo_env ''2'' ''s'') ''p'' updating_world))) ''p'' = None"
proof (rule deleted_panel_stays_deleted)
  show "history_ok (pw_rows updating_world)" by (simp add: updating_rows history_ok_def stored_of_def demo_panel_def)
  show "list_all (list_all (\<lambda>p. \<not> claims_panel ''p'' p)) (pw_tasks updating_world)" by (simp add: updating_tasks)
  show "pn_write_error (panel_demo_env ''2'' ''s'') = None" by (simp add: panel_demo_env_def)
  show "list_all (\<lambda>c. \<not> may_open ''p'' c) late_update" by (simp add: late_update_def)
qed

end
