(* ===== verification/Remote_Shell.thy ===== *)
theory Remote_Shell
  imports "HOL-Library.AList" Launch_Request
begin

text \<open>
  The command that a session over SSH runs on the remote machine, and what is checked about the
  connection (\<open>build_ssh_remote_command\<close> and its helpers in
  \<open>cc-panes-core/src/services/terminal_service.rs\<close>, \<open>validate_ssh_info\<close> in \<open>utils/path_validator.rs\<close>, the
  provider overrides of \<open>cc-cli-adapters/src/codex.rs\<close>, the launch script and \<open>WSLENV\<close> of
  \<open>terminal_service/wsl_codex.rs\<close>). An environment is an association list in the order in which the
  hash map yields it; the JSON text of a string is an argument. The function \<open>sh_scan\<close> is the
  specification: how a POSIX shell splits a command line that uses only literal words, the two
  quotings and \<open>&&\<close>.
\<close>

subsection \<open>Quoting\<close>

abbreviation SQUOTE :: char where "SQUOTE \<equiv> CHR 0x27"
abbreviation BACKSLASH :: char where "BACKSLASH \<equiv> CHR 0x5C"

definition shell_escape :: "bytes \<Rightarrow> bytes" where
  "shell_escape s = [SQUOTE] @ concat (map (\<lambda>c. if c = SQUOTE then [SQUOTE, BACKSLASH, SQUOTE, SQUOTE] else [c]) s) @ [SQUOTE]"

definition shell_escape_posix :: "bytes \<Rightarrow> bytes" where
  "shell_escape_posix value =
     CHR 0x27 # concat (map (\<lambda>c. if c = CHR 0x27 then [CHR 0x27, CHR 0x5C, CHR 0x27, CHR 0x27] else [c]) value) @ [CHR 0x27]"

definition is_ascii_lower :: "char \<Rightarrow> bool" where
  "is_ascii_lower c = byte_in 97 122 c"

definition ascii_alnum :: "char \<Rightarrow> bool" where
  "ascii_alnum c = (is_ascii_upper c \<or> is_ascii_lower c \<or> is_ascii_digit c)"

definition is_valid_env_key :: "bytes \<Rightarrow> bool" where
  "is_valid_env_key key =
     (case key of
        [] \<Rightarrow> False
      | c # cs \<Rightarrow> (is_ascii_upper c \<or> c = CHR ''_'') \<and> list_all (\<lambda>c. is_ascii_upper c \<or> is_ascii_digit c \<or> c = CHR ''_'') cs)"

subsection \<open>Provider overrides\<close>

type_synonym environment = "(bytes \<times> bytes) list"

record cli_provider =
  cp_id :: bytes
  cp_name :: bytes
  cp_provider_type :: bytes
  cp_api_key :: "bytes option"
  cp_base_url :: "bytes option"

definition CCPANES_CODEX_API_KEY_ENV :: bytes where
  "CCPANES_CODEX_API_KEY_ENV = ''CCPANES_CODEX_API_KEY''"

definition is_simple_toml_key_segment :: "bytes \<Rightarrow> bool" where
  "is_simple_toml_key_segment segment = (segment \<noteq> [] \<and> list_all (\<lambda>c. ascii_alnum c \<or> c = CHR ''_'' \<or> c = CHR ''-'') segment)"

definition format_toml_key_segment_for_cli :: "(bytes \<Rightarrow> bytes) \<Rightarrow> bytes \<Rightarrow> bytes" where
  "format_toml_key_segment_for_cli json_str segment = (if is_simple_toml_key_segment segment then segment else json_str segment)"

text \<open>Runs over the characters of the id; a character outside ASCII is one underscore.\<close>

definition codex_provider_id :: "bytes list \<Rightarrow> bytes" where
  "codex_provider_id chars =
     (let suffix = map (\<lambda>ch. case ch of [c] \<Rightarrow> if ascii_alnum c \<or> c = CHR ''_'' \<or> c = CHR ''-'' then c else CHR ''_'' | _ \<Rightarrow> CHR ''_'') chars;
          suffix = rev (dropWhile (\<lambda>c. c = CHR ''_'') (rev (dropWhile (\<lambda>c. c = CHR ''_'') suffix)))
      in if suffix = [] then ''ccpanes_selected'' else ''ccpanes_'' @ suffix)"

definition present :: "bytes option \<Rightarrow> bytes option" where
  "present value = (case value of Some v \<Rightarrow> if trim v \<noteq> [] then Some (trim v) else None | None \<Rightarrow> None)"

definition push_provider_overrides ::
  "(bytes \<Rightarrow> bytes) \<Rightarrow> cli_provider option \<Rightarrow> bytes list \<times> environment \<Rightarrow> bytes list \<times> environment" where
  "push_provider_overrides json_str provider acc =
     (case acc of (args, env) \<Rightarrow>
      case provider of
        None \<Rightarrow> (args, env)
      | Some p \<Rightarrow>
          if cp_provider_type p \<noteq> ''open_ai'' then (args, env)
          else
            (let provider_id = codex_provider_id (utf8_chars (cp_id p));
                 key = format_toml_key_segment_for_cli json_str provider_id;
                 args = args @ [''-c'', ''model_provider='' @ json_str provider_id];
                 args = args @ [''-c'', ''model_providers.'' @ key @ ''.name='' @ json_str (cp_name p)];
                 args = (case present (cp_base_url p) of
                           Some url \<Rightarrow> args @ [''-c'', ''model_providers.'' @ key @ ''.base_url='' @ json_str url]
                         | None \<Rightarrow> args);
                 (args, env) = (case present (cp_api_key p) of
                           Some api_key \<Rightarrow>
                             (args @ [''-c'', ''model_providers.'' @ key @ ''.env_key='' @ json_str CCPANES_CODEX_API_KEY_ENV],
                              AList.update CCPANES_CODEX_API_KEY_ENV api_key env)
                         | None \<Rightarrow> (args, env))
             in (args @ [''-c'', ''model_providers.'' @ key @ ''.wire_api='' @ json_str ''responses''], env)))"

subsection \<open>The remote command\<close>

fun ssh_remote_cli_command :: "cli_tool \<Rightarrow> bool \<Rightarrow> bytes" where
  "ssh_remote_cli_command CliNone yolo = ''exec $SHELL -l''"
| "ssh_remote_cli_command Claude yolo = (if yolo then ''claude --dangerously-skip-permissions'' else ''claude'')"
| "ssh_remote_cli_command Codex yolo =
     (if yolo then ''codex --dangerously-bypass-approvals-and-sandbox'' else ''codex --full-auto'')"
| "ssh_remote_cli_command Gemini yolo = ''gemini''"
| "ssh_remote_cli_command Kimi yolo = ''kimi''"
| "ssh_remote_cli_command Opencode yolo = ''opencode''"
| "ssh_remote_cli_command Cursor yolo = ''cursor-agent''"
| "ssh_remote_cli_command Grok yolo = (if yolo then ''grok --always-approve'' else ''grok'')"
| "ssh_remote_cli_command Pi yolo = ''pi''"
| "ssh_remote_cli_command Omp yolo = ''omp''"

definition export_line :: "(bytes \<Rightarrow> bytes) \<Rightarrow> bytes \<times> bytes \<Rightarrow> bytes" where
  "export_line quote kv = ''export '' @ fst kv @ ''='' @ quote (snd kv)"

definition is_home :: "bytes \<Rightarrow> bool" where
  "is_home p = (p = ''~'' \<or> p = ''~/'')"

definition ssh_overrides ::
  "(bytes \<Rightarrow> bytes) \<Rightarrow> cli_tool \<Rightarrow> environment \<Rightarrow> cli_provider option \<Rightarrow> bytes list \<times> environment" where
  "ssh_overrides json_str tool env provider =
     (if tool = Codex then push_provider_overrides json_str provider ([], env) else ([], env))"

definition build_ssh_remote_command ::
  "(bytes \<Rightarrow> bytes) \<Rightarrow> ssh_info \<Rightarrow> cli_tool \<Rightarrow> environment \<Rightarrow> cli_provider option \<Rightarrow> bool \<Rightarrow> bytes" where
  "build_ssh_remote_command json_str ssh tool env provider yolo =
     (let (args, env) = ssh_overrides json_str tool env provider;
          parts = (if tool \<noteq> CliNone
                   then map (export_line shell_escape) (filter (\<lambda>kv. is_valid_env_key (fst kv)) env) else []);
          parts = (if is_home (sh_remote_path ssh) then parts
                   else parts @ [''cd '' @ shell_escape (sh_remote_path ssh)]);
          remote_cli = ssh_remote_cli_command tool yolo @ concat (map (\<lambda>arg. '' '' @ shell_escape arg) args)
      in join '' && ''  (parts @ [remote_cli]))"

definition ssh_session_options :: "bytes list" where
  "ssh_session_options = concat (map (\<lambda>opt. [''-o'', opt])
     [''ConnectTimeout=10'', ''ServerAliveInterval=15'', ''ServerAliveCountMax=2'', ''TCPKeepAlive=yes''])"

definition ssh_target :: "ssh_info \<Rightarrow> bytes" where
  "ssh_target ssh = (case sh_user ssh of Some user \<Rightarrow> user @ ''@'' @ sh_host ssh | None \<Rightarrow> sh_host ssh)"

text \<open>The arguments of the system's \<open>ssh\<close>; the text of the port is an argument.\<close>

definition build_ssh_command :: "(16 word \<Rightarrow> bytes) \<Rightarrow> ssh_info \<Rightarrow> bytes \<Rightarrow> bytes list" where
  "build_ssh_command show_port ssh remote_command =
     [''-tt''] @ ssh_session_options
     @ (if sh_port ssh \<noteq> 22 then [''-p'', show_port (sh_port ssh)] else [])
     @ (case sh_identity_file ssh of Some f \<Rightarrow> [''-i'', f] | None \<Rightarrow> [])
     @ [ssh_target ssh, remote_command]"

subsection \<open>What is checked about a connection\<close>

datatype ssh_error =
    SshHostEmpty | SshInvalidChars string | SshRemotePathEmpty | SshRemotePathNotAbsolute | SshPortInvalid | SshIdentityFileInvalid

definition DANGEROUS_CHARS :: "char list" where
  "DANGEROUS_CHARS = '';|`$&'' @ [CHR 0x0A, CHR 0x0D, CHR 0x27, CHR 0x22, CHR 0x5C]"

definition PATH_DANGEROUS :: "char list" where
  "PATH_DANGEROUS = '';|`$&'' @ [CHR 0x0A, CHR 0x0D, CHR 0x22] @ ''()''"

definition has_any :: "char list \<Rightarrow> bytes \<Rightarrow> bool" where
  "has_any cs s = list_ex (\<lambda>c. c \<in> set cs) s"

definition has_dots :: "bytes \<Rightarrow> bool" where
  "has_dots s = list_ex (\<lambda>i. take 2 (drop i s) = ''..'') [0 ..< length s]"

definition starts_with :: "char \<Rightarrow> bytes \<Rightarrow> bool" where
  "starts_with c s = (case s of d # ds \<Rightarrow> d = c | [] \<Rightarrow> False)"

definition validate_ssh_info :: "ssh_info \<Rightarrow> ssh_error option" where
  "validate_ssh_info info =
     (if trim (sh_host info) = [] then Some SshHostEmpty
      else if has_any DANGEROUS_CHARS (sh_host info) then Some (SshInvalidChars ''host'')
      else if trim (sh_remote_path info) = [] then Some SshRemotePathEmpty
      else if \<not> starts_with CHR ''/'' (sh_remote_path info) \<and> \<not> starts_with CHR ''~'' (sh_remote_path info)
      then Some SshRemotePathNotAbsolute
      else if has_any PATH_DANGEROUS (sh_remote_path info) then Some (SshInvalidChars ''remotePath'')
      else if (case sh_user info of Some u \<Rightarrow> has_any DANGEROUS_CHARS u | None \<Rightarrow> False) then Some (SshInvalidChars ''user'')
      else if sh_port info = 0 then Some SshPortInvalid
      else (case sh_identity_file info of
              None \<Rightarrow> None
            | Some f \<Rightarrow>
                if trim f = [] \<or> has_any DANGEROUS_CHARS (trim f) \<or> has_dots (trim f) then Some SshIdentityFileInvalid
                else None))"


subsection \<open>How a shell reads a command line\<close>

text \<open>The specification: literal words, both quotings and \<open>&&\<close>. A character that a shell would expand or
  take for another operator makes the line unreadable, as does an open quote. The result is the list
  of simple commands, each the list of its words.\<close>

datatype quoting = Bare | Quoted

definition plain :: "char \<Rightarrow> bool" where
  "plain c = (ascii_alnum c \<or> c \<in> set ''-_./=:,@%+'')"

definition text_of :: "bytes option \<Rightarrow> bytes" where
  "text_of w = (case w of Some t \<Rightarrow> t | None \<Rightarrow> [])"

definition words_with :: "bytes option \<Rightarrow> bytes list \<Rightarrow> bytes list" where
  "words_with w ws = (case w of Some t \<Rightarrow> ws @ [t] | None \<Rightarrow> ws)"

fun sh_scan :: "quoting \<Rightarrow> bytes option \<Rightarrow> bytes list \<Rightarrow> bytes list list \<Rightarrow> bytes \<Rightarrow> bytes list list option" where
  "sh_scan Bare w ws cs [] = Some (cs @ [words_with w ws])"
| "sh_scan Quoted w ws cs [] = None"
| "sh_scan Quoted w ws cs (c # s) =
     (if c = SQUOTE then sh_scan Bare w ws cs s else sh_scan Quoted (Some (text_of w @ [c])) ws cs s)"
| "sh_scan Bare w ws cs (c # s) =
     (if c = SQUOTE then sh_scan Quoted (Some (text_of w)) ws cs s
      else if c = BACKSLASH then
        (case s of d # s1 \<Rightarrow> if d = CHR 0x0A then None else sh_scan Bare (Some (text_of w @ [d])) ws cs s1 | [] \<Rightarrow> None)
      else if c = CHR '' '' then sh_scan Bare None (words_with w ws) cs s
      else if c = CHR ''&'' then
        (case s of d # s1 \<Rightarrow> if d = CHR ''&'' then sh_scan Bare None [] (cs @ [words_with w ws]) s1 else None | [] \<Rightarrow> None)
      else if plain c then sh_scan Bare (Some (text_of w @ [c])) ws cs s
      else None)"

definition sh_read :: "bytes \<Rightarrow> bytes list list option" where
  "sh_read line = sh_scan Bare None [] [] line"

text \<open>A piece of a line that is read as these words, whatever follows.\<close>

definition reads_as :: "bytes \<Rightarrow> bytes list \<Rightarrow> bool" where
  "reads_as p words = (\<forall>cs s. \<exists>w ws. sh_scan Bare None [] cs (p @ s) = sh_scan Bare w ws cs s \<and> words_with w ws = words)"

lemma text_of_simps [simp]: "text_of None = []" "text_of (Some t) = t"
  by (simp_all add: text_of_def)

lemma words_with_simps [simp]: "words_with None ws = ws" "words_with (Some t) ws = ws @ [t]"
  by (simp_all add: words_with_def)

lemma not_plain: "\<not> plain SQUOTE" "\<not> plain BACKSLASH" "\<not> plain CHR '' ''" "\<not> plain CHR ''&''"
  by code_simp+

lemma plain_special: "plain c \<Longrightarrow> c \<noteq> SQUOTE \<and> c \<noteq> BACKSLASH \<and> c \<noteq> CHR '' '' \<and> c \<noteq> CHR ''&''"
  using not_plain by auto

lemma key_chars: "is_ascii_upper c \<Longrightarrow> plain c" "is_ascii_digit c \<Longrightarrow> plain c"
  by (simp_all add: plain_def ascii_alnum_def)

lemma plain_word:
  "list_all plain k \<Longrightarrow> k \<noteq> [] \<Longrightarrow> sh_scan Bare w ws cs (k @ s) = sh_scan Bare (Some (text_of w @ k)) ws cs s"
proof (induction k arbitrary: w)
  case (Cons c k)
  have "sh_scan Bare w ws cs ((c # k) @ s) = sh_scan Bare (Some (text_of w @ [c])) ws cs (k @ s)"
    using Cons.prems plain_special by simp
  then show ?case using Cons by (cases "k = []") simp_all
qed simp

lemma blank: "sh_scan Bare w ws cs (CHR '' '' # s) = sh_scan Bare None (words_with w ws) cs s"
  by simp

lemma and_then: "sh_scan Bare w ws cs (CHR '' '' # CHR ''&'' # CHR ''&'' # CHR '' '' # s) = sh_scan Bare None [] (cs @ [words_with w ws]) s"
  by simp

lemma join_reads:
  "list_all2 reads_as parts wss \<Longrightarrow> parts \<noteq> [] \<Longrightarrow> sh_scan Bare None [] cs (join '' && '' parts) = Some (cs @ wss)"
proof (induction parts arbitrary: wss cs rule: induct_list012)
  case (2 p)
  then obtain ws where "reads_as p ws" "wss = [ws]" by (auto simp: list_all2_Cons1)
  then show ?case using reads_as_def [of p ws] by (metis append_Nil2 join.simps(2) sh_scan.simps(1))
next
  case (3 p q ps)
  then obtain ws wss1 where p: "reads_as p ws" "wss = ws # wss1" "list_all2 reads_as (q # ps) wss1"
    by (auto simp: list_all2_Cons1)
  obtain w vs where "sh_scan Bare None [] cs (p @ '' && '' @ join '' && '' (q # ps)) = sh_scan Bare w vs cs ('' && '' @ join '' && '' (q # ps))"
    "words_with w vs = ws"
    using p(1) unfolding reads_as_def by blast
  then show ?case using 3(2) [OF p(3)] p(2) by (simp add: and_then del: sh_scan.simps)
qed simp

lemma words_read: "list_all (\<lambda>k. k \<noteq> [] \<and> list_all plain k) ks \<Longrightarrow> ks \<noteq> [] \<Longrightarrow>
   \<exists>w vs. sh_scan Bare None ws cs (join '' '' ks @ s) = sh_scan Bare w vs cs s \<and> words_with w vs = ws @ ks"
proof (induction ks arbitrary: ws rule: induct_list012)
  case (2 p)
  then show ?case using plain_word [of p None ws cs s] by fastforce
next
  case (3 p q ps)
  have "sh_scan Bare None ws cs (join '' '' (p # q # ps) @ s) = sh_scan Bare None (ws @ [p]) cs (join '' '' (q # ps) @ s)"
    using 3(3) plain_word [of p None ws cs] by (simp add: blank del: sh_scan.simps)
  then show ?case using 3(2) [of "ws @ [p]"] 3(3) by simp
qed simp

subsection \<open>The contract of a quotation\<close>

locale literal_quoting =
  fixes quote :: "bytes \<Rightarrow> bytes"
  assumes reads: "sh_scan Bare w ws cs (quote v @ s) = sh_scan Bare (Some (text_of w @ v)) ws cs s"
begin

lemma glued_reads:
  assumes "list_all plain a" "a \<noteq> []" and "list_all plain b" "b \<noteq> []"
  shows "sh_scan Bare None [] cs (a @ '' '' @ b @ quote v @ s) = sh_scan Bare (Some (b @ v)) [a] cs s"
  using plain_word [OF assms(1,2)] plain_word [OF assms(3,4)] by (simp add: blank reads del: sh_scan.simps)

lemma export_reads:
  assumes "is_valid_env_key k"
  shows "reads_as (export_line quote (k, v)) [''export'', k @ ''='' @ v]"
proof -
  have plains: "plain CHR ''='' " "plain CHR ''_''" "list_all plain ''export''" by code_simp+
  have key: "list_all plain (k @ ''='')"
    using assms plains(1,2) by (cases k) (auto simp: is_valid_env_key_def list_all_iff key_chars)
  have "export_line quote (k, v) @ s = ''export'' @ '' '' @ (k @ ''='') @ quote v @ s" for s
    by (simp add: export_line_def)
  then have "sh_scan Bare None [] cs (export_line quote (k, v) @ s) = sh_scan Bare (Some ((k @ ''='') @ v)) [''export''] cs s" for cs s
    using glued_reads [OF plains(3) _ key] by simp
  then show ?thesis unfolding reads_as_def by (metis append.assoc append_Cons append_Nil words_with_simps(2))
qed

lemma argument_reads:
  assumes "list_all plain k" and "k \<noteq> []"
  shows "reads_as (k @ '' '' @ quote v) [k, v]"
proof -
  have "sh_scan Bare None [] cs ((k @ '' '' @ quote v) @ s) = sh_scan Bare (Some v) [k] cs s" for cs s
    using plain_word [OF assms, of None "[]" cs "CHR '' '' # quote v @ s"] by (simp add: blank reads del: sh_scan.simps)
  then show ?thesis unfolding reads_as_def by (metis append_Cons append_Nil words_with_simps(2))
qed

lemma arguments_read:
  "\<exists>w1 ws1. sh_scan Bare w ws cs (concat (map (\<lambda>arg. '' '' @ quote arg) args) @ s) = sh_scan Bare w1 ws1 cs s
     \<and> words_with w1 ws1 = words_with w ws @ args"
proof (induction args arbitrary: w ws)
  case (Cons a args)
  have "sh_scan Bare w ws cs (concat (map (\<lambda>arg. '' '' @ quote arg) (a # args)) @ s)
    = sh_scan Bare (Some a) (words_with w ws) cs (concat (map (\<lambda>arg. '' '' @ quote arg) args) @ s)"
    by (simp add: blank reads del: sh_scan.simps)
  then show ?case using Cons.IH [of "Some a" "words_with w ws"] by (simp del: sh_scan.simps)
qed auto

lemma command_reads:
  assumes "list_all (\<lambda>k. k \<noteq> [] \<and> list_all plain k) ks" and "ks \<noteq> []"
  shows "reads_as (join '' '' ks @ concat (map (\<lambda>arg. '' '' @ quote arg) args)) (ks @ args)"
  unfolding reads_as_def
proof (intro allI)
  fix cs s
  obtain w vs where "sh_scan Bare None [] cs (join '' '' ks @ concat (map (\<lambda>arg. '' '' @ quote arg) args) @ s)
      = sh_scan Bare w vs cs (concat (map (\<lambda>arg. '' '' @ quote arg) args) @ s)" "words_with w vs = ks"
    using words_read [OF assms] by force
  then show "\<exists>w ws. sh_scan Bare None [] cs ((join '' '' ks @ concat (map (\<lambda>arg. '' '' @ quote arg) args)) @ s)
      = sh_scan Bare w ws cs s \<and> words_with w ws = ks @ args"
    using arguments_read [of w vs cs args s] by (simp del: sh_scan.simps)
qed

end

lemma quoted_reads:
  "sh_scan Quoted (Some t) ws cs (concat (map (\<lambda>c. if c = SQUOTE then [SQUOTE, BACKSLASH, SQUOTE, SQUOTE] else [c]) v) @ SQUOTE # s)
   = sh_scan Bare (Some (t @ v)) ws cs s"
  by (induction v arbitrary: t) simp_all

interpretation ssh: literal_quoting shell_escape
  by unfold_locales (simp add: shell_escape_def quoted_reads)

interpretation wsl: literal_quoting shell_escape_posix
  by unfold_locales (simp add: shell_escape_posix_def quoted_reads)


subsection \<open>The remote command reads back\<close>

fun cli_words :: "cli_tool \<Rightarrow> bool \<Rightarrow> bytes list" where
  "cli_words CliNone yolo = [''exec'', ''$SHELL'', ''-l'']"
| "cli_words Claude yolo = ''claude'' # (if yolo then [''--dangerously-skip-permissions''] else [])"
| "cli_words Codex yolo = [''codex'', if yolo then ''--dangerously-bypass-approvals-and-sandbox'' else ''--full-auto'']"
| "cli_words Cursor yolo = [''cursor-agent'']"
| "cli_words Grok yolo = ''grok'' # (if yolo then [''--always-approve''] else [])"
| "cli_words tool yolo = [as_id tool]"

lemma cli_words_plain: "tool \<noteq> CliNone \<Longrightarrow> list_all (\<lambda>k. k \<noteq> [] \<and> list_all plain k) (cli_words tool yolo)"
  by (cases tool; cases yolo; simp; code_simp)

lemma cli_words_join: "ssh_remote_cli_command tool yolo = join '' '' (cli_words tool yolo)" "cli_words tool yolo \<noteq> []"
  by (cases tool; cases yolo; simp)+

definition remote_commands :: "bytes list \<times> environment \<Rightarrow> ssh_info \<Rightarrow> cli_tool \<Rightarrow> bool \<Rightarrow> bytes list list" where
  "remote_commands overrides ssh tool yolo =
     map (\<lambda>kv. [''export'', fst kv @ ''='' @ snd kv]) (filter (\<lambda>kv. is_valid_env_key (fst kv)) (snd overrides))
     @ (if is_home (sh_remote_path ssh) then [] else [[''cd'', sh_remote_path ssh]])
     @ [cli_words tool yolo @ fst overrides]"

text \<open>C26: The remote command runs what it was built from and nothing else. For every value of the provider's
  environment, every path and every provider, with quotes, newlines or shell syntax in them, a shell
  reads the command of an agent's session as: one \<open>export\<close> for each variable whose name is valid, with
  its exact value, a \<open>cd\<close> to exactly the path unless that is the home directory, and the agent with its
  flags and the provider's arguments, each a single word.\<close>

theorem remote_command_reads_back:
  assumes "tool \<noteq> CliNone"
  shows "sh_read (build_ssh_remote_command json_str ssh tool env provider yolo)
    = Some (remote_commands (ssh_overrides json_str tool env provider) ssh tool yolo)"
proof -
  obtain args vars where over: "ssh_overrides json_str tool env provider = (args, vars)" by fastforce
  let ?vars = "filter (\<lambda>kv. is_valid_env_key (fst kv)) vars"
  let ?cd = "if is_home (sh_remote_path ssh) then [] else [''cd'' @ '' '' @ shell_escape (sh_remote_path ssh)]"
  let ?cds = "if is_home (sh_remote_path ssh) then [] else [[''cd'', sh_remote_path ssh]]"
  let ?cli = "join '' '' (cli_words tool yolo) @ concat (map (\<lambda>arg. '' '' @ shell_escape arg) args)"
  have exports: "list_all2 reads_as (map (export_line shell_escape) ?vars) (map (\<lambda>kv. [''export'', fst kv @ ''='' @ snd kv]) ?vars)"
    using ssh.export_reads by (auto simp: list_all2_map1 list_all2_map2 intro!: list_all2_refl list.rel_refl_strong)
  have "list_all plain ''cd''" by code_simp
  then have "reads_as (''cd'' @ '' '' @ shell_escape (sh_remote_path ssh)) [''cd'', sh_remote_path ssh]"
    by (rule ssh.argument_reads) simp
  then have cd: "list_all2 reads_as ?cd ?cds" by simp
  have cli: "list_all2 reads_as [?cli] [cli_words tool yolo @ args]"
    using ssh.command_reads [OF cli_words_plain [OF assms] cli_words_join(2)] by simp
  have "build_ssh_remote_command json_str ssh tool env provider yolo
      = join '' && '' (map (export_line shell_escape) ?vars @ ?cd @ [?cli])"
    using assms by (simp add: build_ssh_remote_command_def over cli_words_join(1))
  then show ?thesis
    using join_reads [OF list_all2_appendI [OF exports list_all2_appendI [OF cd cli]]]
    by (simp add: sh_read_def remote_commands_def over del: sh_scan.simps)
qed

subsection \<open>\<open>WSLENV\<close>\<close>

type_synonym env_vars = "bytes \<Rightarrow> bytes option"

definition wslenv_entries :: "bytes \<Rightarrow> bytes list" where
  "wslenv_entries value = filter (\<lambda>entry. entry \<noteq> []) (split_on CHR '':'' value)"

definition entry_key :: "bytes \<Rightarrow> bytes" where
  "entry_key entry = hd (split_on CHR ''/'' entry)"

definition remove_wsl_env_forwarding :: "bytes list \<Rightarrow> env_vars \<Rightarrow> env_vars" where
  "remove_wsl_env_forwarding keys env =
     (case env ''WSLENV'' of
        None \<Rightarrow> env
      | Some existing \<Rightarrow>
          (let entries = filter (\<lambda>entry. entry \<noteq> [] \<and> entry_key entry \<notin> set keys) (split_on CHR '':'' existing)
           in if entries = [] then env(''WSLENV'' := None) else env(''WSLENV'' \<mapsto> join '':'' entries)))"

definition forward_key :: "bytes \<Rightarrow> bytes list \<Rightarrow> bytes list" where
  "forward_key key entries =
     (if \<not> is_valid_env_key key then entries
      else filter (\<lambda>entry. entry_key entry \<noteq> key) entries @ [key @ ''/u''])"

definition forward_wsl_env_vars :: "bytes list \<Rightarrow> env_vars \<Rightarrow> env_vars" where
  "forward_wsl_env_vars keys env =
     (if keys = [] then env
      else (let entries = (case env ''WSLENV'' of Some value \<Rightarrow> wslenv_entries value | None \<Rightarrow> [])
            in env(''WSLENV'' \<mapsto> join '':'' (fold forward_key keys entries))))"

definition entries_of :: "env_vars \<Rightarrow> bytes list" where
  "entries_of env = (case env ''WSLENV'' of Some value \<Rightarrow> wslenv_entries value | None \<Rightarrow> [])"

definition entries_for :: "bytes \<Rightarrow> bytes list \<Rightarrow> bytes list" where
  "entries_for key entries = filter (\<lambda>entry. entry_key entry = key) entries"

definition entry_ok :: "bytes \<Rightarrow> bool" where
  "entry_ok entry = (entry \<noteq> [] \<and> CHR '':'' \<notin> set entry)"

lemma split_on_absent: "c \<notin> set s \<Longrightarrow> split_on c s = [s]"
  by (induction s) auto

lemma wslenv_split_append: "c \<notin> set p \<Longrightarrow> split_on c (p @ c # s) = p # split_on c s"
  by (induction p) auto

lemma wslenv_split_parts: "p \<in> set (split_on c s) \<Longrightarrow> c \<notin> set p"
  by (induction s arbitrary: p) (auto split: list.splits if_splits)

lemma entries_join: "list_all entry_ok es \<Longrightarrow> wslenv_entries (join '':'' es) = es"
proof (induction es rule: induct_list012)
  case (2 p)
  then show ?case by (simp add: entry_ok_def wslenv_entries_def split_on_absent)
next
  case (3 p q ps)
  then have "split_on CHR '':'' (join '':'' (p # q # ps)) = p # split_on CHR '':'' (join '':'' (q # ps))"
    by (simp add: entry_ok_def wslenv_split_append)
  then show ?case using 3 by (simp add: wslenv_entries_def entry_ok_def)
qed (simp add: wslenv_entries_def)

lemma entries_ok: "list_all entry_ok (wslenv_entries value)"
  using wslenv_split_parts by (fastforce simp: wslenv_entries_def entry_ok_def list_all_iff)

lemma valid_key_chars: "is_valid_env_key key \<Longrightarrow> CHR '':'' \<notin> set key \<and> CHR ''/'' \<notin> set key"
proof -
  assume "is_valid_env_key key"
  then have "list_all (\<lambda>c. is_ascii_upper c \<or> is_ascii_digit c \<or> c = CHR ''_'') key" by (cases key) (auto simp: is_valid_env_key_def)
  moreover have "\<not> (is_ascii_upper CHR '':'' \<or> is_ascii_digit CHR '':'' \<or> CHR '':'' = CHR ''_'')"
    "\<not> (is_ascii_upper CHR ''/'' \<or> is_ascii_digit CHR ''/'' \<or> CHR ''/'' = CHR ''_'')"
    by code_simp+
  ultimately show ?thesis by (auto simp: list_all_iff)
qed

lemma own_entry: "is_valid_env_key key \<Longrightarrow> entry_ok (key @ ''/u'') \<and> entry_key (key @ ''/u'') = key"
  using valid_key_chars [of key] wslenv_split_append [of "CHR ''/''" key "''u''"] by (simp add: entry_ok_def entry_key_def)

lemma forward_ok: "list_all entry_ok es \<Longrightarrow> list_all entry_ok (fold forward_key keys es)"
proof (induction keys arbitrary: es)
  case (Cons key keys)
  have "list_all entry_ok (forward_key key es)" using Cons.prems own_entry by (auto simp: forward_key_def list_all_iff)
  then show ?case using Cons.IH by simp
qed simp

lemma forward_other: "\<not> is_valid_env_key key \<or> key \<notin> set keys \<Longrightarrow> entries_for key (fold forward_key keys es) = entries_for key es"
proof (induction keys arbitrary: es)
  case (Cons k keys)
  have "entries_for key (forward_key k es) = entries_for key es"
  proof (cases "is_valid_env_key k")
    case True
    then have "k \<noteq> key" using Cons.prems by auto
    then show ?thesis using own_entry [OF True] by (auto simp: forward_key_def entries_for_def intro: filter_cong)
  qed (simp add: forward_key_def)
  then show ?case using Cons by auto
qed simp

lemma forward_own: "is_valid_env_key key \<Longrightarrow> key \<in> set keys \<Longrightarrow> entries_for key (fold forward_key keys es) = [key @ ''/u'']"
proof (induction keys arbitrary: es)
  case (Cons k keys)
  have now: "entries_for key (forward_key key es) = [key @ ''/u'']" for es
    using Cons.prems(1) own_entry by (simp add: forward_key_def entries_for_def)
  show ?case
  proof (cases "key \<in> set keys")
    case False
    then have "k = key" using Cons.prems(2) by simp
    then show ?thesis using forward_other [of key keys "forward_key key es"] False now by simp
  qed (use Cons in simp)
qed simp

text \<open>Forwarding a variable to WSL is exact. Afterwards \<open>WSLENV\<close> has for each forwarded variable the
  single entry \<open>KEY/u\<close>, whatever entries and modifiers it had for it before, and for every other
  variable the entries it had, in their order.\<close>

theorem wslenv_forwarding:
  assumes "keys \<noteq> []"
  shows "entries_for key (entries_of (forward_wsl_env_vars keys env))
    = (if is_valid_env_key key \<and> key \<in> set keys then [key @ ''/u''] else entries_for key (entries_of env))"
proof -
  have ok: "list_all entry_ok (entries_of env)" by (simp add: entries_of_def entries_ok split: option.split)
  have "entries_of (forward_wsl_env_vars keys env) = fold forward_key keys (entries_of env)"
    using assms entries_join [OF forward_ok [OF ok, of keys]]
    by (simp add: entries_of_def forward_wsl_env_vars_def Let_def)
  then show ?thesis using forward_own forward_other by auto
qed


subsection \<open>Concrete connections\<close>

definition demo_ssh :: "bytes \<Rightarrow> bytes \<Rightarrow> ssh_info" where
  "demo_ssh host remote_path = \<lparr>sh_host = host, sh_port = 22, sh_user = None, sh_remote_path = remote_path,
     sh_identity_file = None, sh_machine_id = None, sh_auth_method = None\<rparr>"

theorem remote_command_reads_back_witness:
  "sh_read (build_ssh_remote_command id (demo_ssh ''h'' (''/a'' @ [SQUOTE] @ ''; rm b'')) Claude
      [(''K'', ''x y'' @ [SQUOTE] @ ''$(z)''), (''k'', ''skipped'')] None True)
   = Some [[''export'', ''K=x y'' @ [SQUOTE] @ ''$(z)''], [''cd'', ''/a'' @ [SQUOTE] @ ''; rm b''],
           [''claude'', ''--dangerously-skip-permissions'']]"
proof -
  have "is_valid_env_key ''K''" "\<not> is_valid_env_key ''k''" by code_simp+
  then show ?thesis
    using remote_command_reads_back [of Claude id "demo_ssh ''h'' (''/a'' @ [SQUOTE] @ ''; rm b'')"
        "[(''K'', ''x y'' @ [SQUOTE] @ ''$(z)''), (''k'', ''skipped'')]" None True]
    by (simp add: remote_commands_def ssh_overrides_def is_home_def demo_ssh_def)
qed

theorem wslenv_forwarding_witness:
  "entries_for ''K'' (entries_of (forward_wsl_env_vars [''K''] [''WSLENV'' \<mapsto> ''A/p:K/w::K''])) = [''K/u'']
   \<and> entries_for ''A'' (entries_of (forward_wsl_env_vars [''K''] [''WSLENV'' \<mapsto> ''A/p:K/w::K''])) = [''A/p'']"
proof -
  have "is_valid_env_key ''K''" by code_simp
  moreover have "entries_for ''A'' (entries_of [''WSLENV'' \<mapsto> ''A/p:K/w::K'']) = [''A/p'']"
    by (simp add: entries_for_def entries_of_def wslenv_entries_def entry_key_def)
  ultimately show ?thesis using wslenv_forwarding [of "[''K'']" _ "[''WSLENV'' \<mapsto> ''A/p:K/w::K'']"] by simp
qed

text \<open>A path below the home directory passes the check and is quoted, so the remote shell looks for a
  directory named \<open>~\<close>; and a host that starts with a dash passes and is given to \<open>ssh\<close> as an option.\<close>

lemma home_relative_path_is_quoted:
  "validate_ssh_info (demo_ssh ''h'' ''~/app'') = None
   \<and> sh_read (build_ssh_remote_command id (demo_ssh ''h'' ''~/app'') Gemini [] None False) = Some [[''cd'', ''~/app''], [''gemini'']]"
proof -
  have "validate_ssh_info (demo_ssh ''h'' ''~/app'') = None" by code_simp
  then show ?thesis
    using remote_command_reads_back [of Gemini id "demo_ssh ''h'' ''~/app''" "[]" None False]
    by (simp add: remote_commands_def ssh_overrides_def is_home_def demo_ssh_def)
qed

lemma host_may_be_an_option:
  "validate_ssh_info (demo_ssh ''-oProxyCommand=calc'' ''/a'') = None
   \<and> ssh_target (demo_ssh ''-oProxyCommand=calc'' ''/a'') = ''-oProxyCommand=calc''"
proof -
  have "validate_ssh_info (demo_ssh ''-oProxyCommand=calc'' ''/a'') = None" by code_simp
  then show ?thesis by (simp add: ssh_target_def demo_ssh_def)
qed

end
