(* ===== verification/Text_Escapes.thy ===== *)
theory Text_Escapes
  imports Path_Identity
begin

text \<open>
  Two escapings. \<open>decode_terminal_escapes\<close> (\<open>orchestrator_service.rs\<close>) turns the escapes that a model
  writes into a tool call into control characters; it works on characters, here their code points.
  \<open>escape_like\<close> (\<open>plan_repo.rs\<close>) and \<open>escape_like_pattern\<close> (\<open>history_file_repo.rs\<close>) make a text literal
  inside an SQL pattern; what \<open>LIKE\<close> means is a named hypothesis about the database.
\<close>

subsection \<open>Escapes of terminal input\<close>

abbreviation BSLASH_CODE :: nat where "BSLASH_CODE \<equiv> 0x5C"

definition hex_digit :: "nat \<Rightarrow> nat option" where
  "hex_digit c =
     (if 0x30 \<le> c \<and> c \<le> 0x39 then Some (c - 0x30)
      else if 0x61 \<le> c \<and> c \<le> 0x66 then Some (c - 0x61 + 10)
      else if 0x41 \<le> c \<and> c \<le> 0x46 then Some (c - 0x41 + 10)
      else None)"

fun hex_value :: "nat \<Rightarrow> nat list \<Rightarrow> nat option" where
  "hex_value n [] = Some n"
| "hex_value n (c # cs) = (case hex_digit c of Some d \<Rightarrow> hex_value (16 * n + d) cs | None \<Rightarrow> None)"

text \<open>\<open>char::from_u32\<close>: surrogates are no characters.\<close>

definition from_u32 :: "nat \<Rightarrow> nat option" where
  "from_u32 n = (if n < 0xD800 \<or> 0xE000 \<le> n \<and> n \<le> 0x10FFFF then Some n else None)"

definition take_hex :: "nat \<Rightarrow> nat list \<Rightarrow> nat option" where
  "take_hex k cs = (if length cs < k then None else Option.bind (hex_value 0 (take k cs)) from_u32)"

definition simple_escapes :: "(nat \<times> nat) list" where
  "simple_escapes = [(0x5C, 0x5C), (0x65, 0x1B), (0x72, 0x0D), (0x6E, 0x0A), (0x74, 0x09), (0x30, 0x00)]"

function decode_terminal_escapes :: "nat list \<Rightarrow> nat list" where
  "decode_terminal_escapes [] = []"
| "decode_terminal_escapes [c] = [c]"
| "decode_terminal_escapes (c # d # s) =
     (if c \<noteq> BSLASH_CODE then c # decode_terminal_escapes (d # s)
      else (case map_of simple_escapes d of
              Some e \<Rightarrow> e # decode_terminal_escapes s
            | None \<Rightarrow>
                if d = 0x78 then
                  (case take_hex 2 s of Some e \<Rightarrow> e # decode_terminal_escapes (drop 2 s) | None \<Rightarrow> c # decode_terminal_escapes (d # s))
                else if d = 0x75 then
                  (case take_hex 4 s of Some e \<Rightarrow> e # decode_terminal_escapes (drop 4 s) | None \<Rightarrow> c # decode_terminal_escapes (d # s))
                else c # decode_terminal_escapes (d # s)))"
  by pat_completeness auto
termination
  by (relation "measure length") auto

lemma decode_literal [simp]: "c \<noteq> BSLASH_CODE \<Longrightarrow> decode_terminal_escapes (c # s) = c # decode_terminal_escapes s"
  by (cases s) simp_all

lemmas decode_escape = decode_terminal_escapes.simps(3) [of BSLASH_CODE]

declare decode_terminal_escapes.simps(2,3) [simp del]

text \<open>The ways to write one character.\<close>

inductive spells :: "nat \<Rightarrow> nat list \<Rightarrow> bool" where
  literal: "c \<noteq> BSLASH_CODE \<Longrightarrow> spells c [c]"
| simple: "map_of simple_escapes d = Some c \<Longrightarrow> spells c [BSLASH_CODE, d]"
| hex2: "take_hex 2 [a, b] = Some c \<Longrightarrow> spells c [BSLASH_CODE, 0x78, a, b]"
| hex4: "take_hex 4 [a, b, a1, b1] = Some c \<Longrightarrow> spells c [BSLASH_CODE, 0x75, a, b, a1, b1]"

inductive_cases spells_cases: "spells c w"

lemma not_simple [simp]: "map_of simple_escapes 0x78 = None" "map_of simple_escapes 0x75 = None"
  by (simp_all add: simple_escapes_def)

lemma take_hex_prefix: "length p = k \<Longrightarrow> take_hex k (p @ s) = take_hex k p"
  by (simp add: take_hex_def)

lemma decode_spelling: "spells c w \<Longrightarrow> decode_terminal_escapes (w @ s) = c # decode_terminal_escapes s"
proof (erule spells_cases)
  fix d assume "w = [BSLASH_CODE, d]" "map_of simple_escapes d = Some c"
  then show ?thesis by (simp add: decode_escape)
next
  fix a b assume w: "w = [BSLASH_CODE, 0x78, a, b]" and hex: "take_hex 2 [a, b] = Some c"
  have "take_hex 2 (a # b # s) = Some c" using take_hex_prefix [of "[a, b]" 2 s] hex by simp
  then show ?thesis by (simp add: w decode_escape)
next
  fix a b a1 b1 assume w: "w = [BSLASH_CODE, 0x75, a, b, a1, b1]" and hex: "take_hex 4 [a, b, a1, b1] = Some c"
  have "take_hex 4 (a # b # a1 # b1 # s) = Some c" using take_hex_prefix [of "[a, b, a1, b1]" 4 s] hex by simp
  then show ?thesis by (simp add: w decode_escape)
qed simp

lemma spellings_decode: "list_all2 spells s ws \<Longrightarrow> decode_terminal_escapes (concat ws) = s"
proof (induction s ws rule: list_all2_induct)
  case (Cons c s w ws)
  then show ?case using decode_spelling by simp
qed simp

lemma doubled_backslashes: "decode_terminal_escapes (concat (map (\<lambda>c. if c = BSLASH_CODE then [BSLASH_CODE, BSLASH_CODE] else [c]) s)) = s"
proof (rule spellings_decode)
  have "spells c (if c = BSLASH_CODE then [BSLASH_CODE, BSLASH_CODE] else [c])" for c
    by (auto intro: spells.literal spells.simple simp: simple_escapes_def)
  then show "list_all2 spells s (map (\<lambda>c. if c = BSLASH_CODE then [BSLASH_CODE, BSLASH_CODE] else [c]) s)"
    by (induction s) simp_all
qed

text \<open>Whatever way a text is written, it arrives. If each character of a text is written literally (but
  not a backslash), or by one of the short escapes, or by its two or four hexadecimal digits, in any
  mixture, decoding yields the text; so control characters that were already real stay as they are, and
  a text with every backslash doubled is sent verbatim.\<close>

theorem any_spelling_decodes:
  assumes "list_all2 spells s ws"
  shows "decode_terminal_escapes (concat ws) = s"
  using assms by (rule spellings_decode)

text \<open>Ctrl-C as \<open>\x03\<close>, a real escape character, \<open>[Z\<close>, and a backslash.\<close>

theorem any_spelling_decodes_witness:
  "decode_terminal_escapes [BSLASH_CODE, 0x78, 0x30, 0x33, 0x1B, 0x5B, 0x5A, BSLASH_CODE, BSLASH_CODE] = [0x03, 0x1B, 0x5B, 0x5A, BSLASH_CODE]"
proof -
  have "take_hex 2 [0x30, 0x33] = Some 0x03" by (simp add: take_hex_def hex_digit_def from_u32_def)
  then have "list_all2 spells [0x03, 0x1B, 0x5B, 0x5A, BSLASH_CODE] [[BSLASH_CODE, 0x78, 0x30, 0x33], [0x1B], [0x5B], [0x5A], [BSLASH_CODE, BSLASH_CODE]]"
    by (simp add: spells.hex2 spells.literal spells.simple simple_escapes_def)
  from any_spelling_decodes [OF this] show ?thesis by simp
qed


subsection \<open>Literal text in an SQL pattern\<close>

definition escape_like :: "bytes \<Rightarrow> bytes" where
  "escape_like s = concat (map (\<lambda>c. if c = CHR 0x5C \<or> c = CHR ''%'' \<or> c = CHR ''_'' then [CHR 0x5C, c] else [c]) s)"

text \<open>\<open>str::replace\<close> of one character.\<close>

definition replace_one :: "char \<Rightarrow> bytes \<Rightarrow> bytes \<Rightarrow> bytes" where
  "replace_one c by s = concat (map (\<lambda>d. if d = c then by else [d]) s)"

definition escape_like_pattern :: "bytes \<Rightarrow> bytes" where
  "escape_like_pattern input =
     replace_one CHR ''_'' [CHR 0x5C, CHR ''_'']
       (replace_one CHR ''%'' [CHR 0x5C, CHR ''%''] (replace_one CHR 0x5C [CHR 0x5C, CHR 0x5C] input))"

lemma escape_like_Cons:
  "escape_like (c # s) = (if c = CHR 0x5C \<or> c = CHR ''%'' \<or> c = CHR ''_'' then [CHR 0x5C, c] else [c]) @ escape_like s"
  by (simp add: escape_like_def)

text \<open>The two escapings, written for different tables, are the same function; the order of the three
  replacements matters for this.\<close>

lemma escapings_agree: "escape_like_pattern s = escape_like s"
  by (induction s) (simp_all add: escape_like_pattern_def escape_like_def replace_one_def)

text \<open>The pattern of the search in the plan archive (\<open>PlanRepository::search\<close>); an empty keyword finds
  nothing and asks no database.\<close>

definition search_pattern :: "bytes \<Rightarrow> bytes option" where
  "search_pattern keyword = (let trimmed = trim keyword in if trimmed = [] then None else Some (''%'' @ escape_like trimmed @ ''%''))"

text \<open>The pattern of the listing of a directory (\<open>list_directory_changes\<close>).\<close>

definition directory_pattern :: "bytes \<Rightarrow> bytes" where
  "directory_pattern dir = (if dir = [] then ''%'' else escape_like_pattern (trim_end_char CHR ''/'' dir) @ ''/%'')"

text \<open>What the program relies on: \<open>LIKE\<close> with the backslash as its escape character. \<open>%\<close> stands for any
  text, an escaped character for itself, and any other character but \<open>_\<close> for itself too, where letters
  of ASCII match in either case.\<close>

definition same_letter :: "char \<Rightarrow> char \<Rightarrow> bool" where
  "same_letter c d = (to_ascii_lower c = to_ascii_lower d)"

definition sqlite_like :: "(bytes \<Rightarrow> bytes \<Rightarrow> bool) \<Rightarrow> bool" where
  "sqlite_like like =
     ((\<forall>t. like [] t = (t = []))
      \<and> (\<forall>p t. like (CHR ''%'' # p) t = (\<exists>a b. t = a @ b \<and> like p b))
      \<and> (\<forall>c p t. like (CHR 0x5C # c # p) t = (\<exists>d u. t = d # u \<and> same_letter c d \<and> like p u))
      \<and> (\<forall>c p t. c \<notin> {CHR ''%'', CHR ''_'', CHR 0x5C} \<longrightarrow>
             like (c # p) t = (\<exists>d u. t = d # u \<and> same_letter c d \<and> like p u)))"

lemma like_literal:
  assumes "sqlite_like like"
  shows "like (escape_like s @ p) t = (\<exists>m u. t = m @ u \<and> list_all2 same_letter s m \<and> like p u)"
proof (induction s arbitrary: t)
  case Nil
  then show ?case by (simp add: escape_like_def)
next
  case (Cons c s)
  have "like (escape_like (c # s) @ p) t = (\<exists>d u. t = d # u \<and> same_letter c d \<and> like (escape_like s @ p) u)"
    using assms by (simp add: escape_like_Cons sqlite_like_def)
  also have "\<dots> = (\<exists>m u. t = m @ u \<and> list_all2 same_letter (c # s) m \<and> like p u)"
    unfolding Cons
  proof (intro iffI; elim exE conjE)
    fix d u m v assume "t = d # u" "same_letter c d" "u = m @ v" "list_all2 same_letter s m" "like p v"
    then show "\<exists>m u. t = m @ u \<and> list_all2 same_letter (c # s) m \<and> like p u"
      by (intro exI [of _ "d # m"] exI [of _ v]) simp
  next
    fix m u assume "t = m @ u" "list_all2 same_letter (c # s) m" "like p u"
    then obtain d v where "m = d # v" "same_letter c d" "list_all2 same_letter s v" by (auto simp: list_all2_Cons1)
    then show "\<exists>d u. t = d # u \<and> same_letter c d \<and> (\<exists>m v. u = m @ v \<and> list_all2 same_letter s m \<and> like p v)"
      using \<open>t = m @ u\<close> \<open>like p u\<close> by (intro exI [of _ d] exI [of _ "v @ u"]) auto
  qed
  finally show ?case .
qed

lemma like_any: "sqlite_like like \<Longrightarrow> like ''%'' t"
  by (simp add: sqlite_like_def)

text \<open>Searching is literal. For every keyword, with wildcards and backslashes in it, the pattern of the
  archive matches exactly the texts that contain the trimmed keyword, up to the case of ASCII letters;
  and the pattern of a directory matches exactly the files below that directory, up to the same case.\<close>

theorem search_is_literal:
  assumes "sqlite_like like"
  shows "(\<forall>pat. search_pattern keyword = Some pat \<longrightarrow>
      like pat t = (\<exists>a m b. t = a @ m @ b \<and> list_all2 same_letter (trim keyword) m))
    \<and> (dir \<noteq> [] \<longrightarrow> like (directory_pattern dir) t
        = (\<exists>m b. t = m @ ''/'' @ b \<and> list_all2 same_letter (trim_end_char CHR ''/'' dir) m))"
proof (intro conjI allI impI)
  fix pat assume "search_pattern keyword = Some pat"
  then have pat: "pat = CHR ''%'' # escape_like (trim keyword) @ ''%''" by (auto simp: search_pattern_def Let_def split: if_splits)
  have "like pat t = (\<exists>a b. t = a @ b \<and> like (escape_like (trim keyword) @ ''%'') b)"
    using assms by (simp add: pat sqlite_like_def)
  then show "like pat t = (\<exists>a m b. t = a @ m @ b \<and> list_all2 same_letter (trim keyword) m)"
    using like_literal [OF assms, of "trim keyword" "''%''"] like_any [OF assms] by auto
next
  assume "dir \<noteq> []"
  have slash: "like ''/%'' u = (\<exists>b. u = ''/'' @ b)" for u
  proof -
    have "like ''/%'' u = (\<exists>d v. u = d # v \<and> same_letter CHR ''/'' d \<and> like ''%'' v)"
      using assms by (simp add: sqlite_like_def)
    moreover have "same_letter CHR ''/'' d = (d = CHR ''/'')" for d
    proof -
      have "to_ascii_lower CHR ''/'' = CHR ''/''" by code_simp
      moreover have "97 \<le> byte (to_ascii_lower d)" if "byte_in 65 90 d" using that by (simp add: to_ascii_lower_def byte_in_def byte_char_of)
      moreover have "byte CHR ''/'' < 97" by code_simp
      ultimately show ?thesis
        by (cases "byte_in 65 90 d") (auto simp: same_letter_def to_ascii_lower_def byte_in_def)
    qed
    ultimately show ?thesis using like_any [OF assms] by auto
  qed
  show "like (directory_pattern dir) t = (\<exists>m b. t = m @ ''/'' @ b \<and> list_all2 same_letter (trim_end_char CHR ''/'' dir) m)"
    using \<open>dir \<noteq> []\<close> like_literal [OF assms, of "trim_end_char CHR ''/'' dir" "''/%''" t]
    by (auto simp: directory_pattern_def escapings_agree slash)
qed

text \<open>A matcher that satisfies the hypothesis.\<close>

fun like_matcher :: "bytes \<Rightarrow> bytes \<Rightarrow> bool" where
  "like_matcher [] t = (t = [])"
| "like_matcher (c # p) t =
     (if c = CHR ''%'' then list_ex (\<lambda>i. like_matcher p (drop i t)) [0 ..< Suc (length t)]
      else if c = CHR 0x5C then
        (case (p, t) of (e # q, d # u) \<Rightarrow> same_letter e d \<and> like_matcher q u | _ \<Rightarrow> False)
      else (case t of d # u \<Rightarrow> (c = CHR ''_'' \<or> same_letter c d) \<and> like_matcher p u | [] \<Rightarrow> False))"

lemma matcher_any: "like_matcher (CHR ''%'' # p) t = (\<exists>a b. t = a @ b \<and> like_matcher p b)"
proof -
  have "like_matcher (CHR ''%'' # p) t = (\<exists>i \<in> set [0 ..< Suc (length t)]. like_matcher p (drop i t))"
    by (subst like_matcher.simps) (simp add: list_ex_iff del: like_matcher.simps upt_Suc set_upt)
  also have "\<dots> = (\<exists>a b. t = a @ b \<and> like_matcher p b)"
  proof
    assume "\<exists>i \<in> set [0 ..< Suc (length t)]. like_matcher p (drop i t)"
    then obtain i where "like_matcher p (drop i t)" by blast
    then show "\<exists>a b. t = a @ b \<and> like_matcher p b" by (metis append_take_drop_id)
  next
    assume "\<exists>a b. t = a @ b \<and> like_matcher p b"
    then obtain a b where "t = a @ b" "like_matcher p b" by blast
    then show "\<exists>i \<in> set [0 ..< Suc (length t)]. like_matcher p (drop i t)"
      by (intro bexI [of _ "length a"]) simp_all
  qed
  finally show ?thesis .
qed

lemma matcher_is_like: "sqlite_like like_matcher"
  unfolding sqlite_like_def
proof (intro conjI allI impI)
  show "like_matcher (CHR ''%'' # p) t = (\<exists>a b. t = a @ b \<and> like_matcher p b)" for p t by (rule matcher_any)
qed (auto split: list.split)

theorem search_is_literal_witness:
  "search_pattern '' 50%_ '' = Some (''%50'' @ [CHR 0x5C] @ ''%'' @ [CHR 0x5C] @ ''_%'')
   \<and> like_matcher (''%50'' @ [CHR 0x5C] @ ''%'' @ [CHR 0x5C] @ ''_%'') ''about 50%_ done''
   \<and> \<not> like_matcher (''%50'' @ [CHR 0x5C] @ ''%'' @ [CHR 0x5C] @ ''_%'') ''about 50 % done''"
proof -
  let ?pat = "''%50'' @ [CHR 0x5C] @ ''%'' @ [CHR 0x5C] @ ''_%''"
  have trimmed: "trim '' 50%_ '' = ''50%_''" by code_simp
  have pat: "search_pattern '' 50%_ '' = Some ?pat" unfolding search_pattern_def trimmed by (simp add: escape_like_def)
  note literal = search_is_literal [OF matcher_is_like, of "'' 50%_ ''", THEN conjunct1, rule_format, OF pat, unfolded trimmed]
  have "''about 50%_ done'' = ''about '' @ ''50%_'' @ '' done''" "list_all2 same_letter ''50%_'' ''50%_''"
    by (simp_all add: same_letter_def)
  then have yes: "like_matcher ?pat ''about 50%_ done''" unfolding literal by blast
  have "\<not> like_matcher ?pat ''about 50 % done''" by code_simp
  then show ?thesis using pat yes by simp
qed

end
