(* ===== verification/Launch_History.thy ===== *)
theory Launch_History
  imports Ws_Emitter Path_Identity Launch_Request
begin

text \<open>
  The table \<open>launch_history\<close> (\<open>cc-panes-core/src/repository/history_repo.rs\<close> and the checks of
  \<open>launch_history_service.rs\<close>): one row per launch, with the terminal that runs it and the identity
  under which its agent can be resumed. A row keeps every column; a time stamp is a number, since the
  strings of \<open>to_rfc3339\<close> sort like the instants they denote. Each call has its own \<open>sql_env\<close>: the
  clock, the error of its \<open>n\<close>-th statement, if it fails (a lock or connection that is not to be had
  fails the first), and the row that SQLite takes first among rows that its \<open>ORDER BY\<close> leaves equal.
\<close>

subsection \<open>Rows\<close>

record launch_record =
  lr_id :: nat
  lr_project_id :: string
  lr_project_name :: bytes
  lr_project_path :: bytes
  lr_launched_at :: instant
  lr_pty_session_id :: "string option"
  lr_resume_session_id :: "string option"
  lr_cli_tool :: string
  lr_runtime_kind :: string
  lr_wsl_distro :: "string option"
  lr_last_prompt :: "bytes option"
  lr_workspace_name :: "bytes option"
  lr_workspace_path :: "bytes option"
  lr_launch_cwd :: "bytes option"
  lr_provider_id :: "string option"
  lr_model_id :: "string option"
  lr_provider_selection :: "string option"
  lr_launch_profile_id :: "string option"
  lr_workspace_snapshot_id :: "string option"
  lr_resume_source :: "string option"

record launch_row = launch_record +
  row_claude_session_id :: "string option"
  row_workspace_session_id :: "string option"

record launch_db =
  ld_rows :: "launch_row list"
  ld_next :: nat

definition launch_db_new :: launch_db where
  "launch_db_new = \<lparr>ld_rows = [], ld_next = 1\<rparr>"

record sql_env =
  sq_now :: instant
  sq_fail :: "nat \<Rightarrow> string option"
  sq_tie :: nat

record session_started_upsert_result =
  ur_record_id :: nat
  ur_resume_session_id :: string
  ur_resume_source :: "string option"

definition coalesce :: "'a option \<Rightarrow> 'a option \<Rightarrow> 'a option" where
  "coalesce a b = (case a of Some x \<Rightarrow> Some x | None \<Rightarrow> b)"

lemma coalesce_simps [simp]: "coalesce (Some x) b = Some x" "coalesce None b = b"
  by (simp_all add: coalesce_def)

text \<open>\<open>LAUNCH_RECORD_COLUMNS\<close> and \<open>map_launch_record\<close>\<close>

definition map_launch_record :: "launch_row \<Rightarrow> launch_record" where
  "map_launch_record r =
     (launch_record.truncate r)\<lparr>lr_resume_session_id := coalesce (lr_resume_session_id r) (row_claude_session_id r),
        lr_workspace_snapshot_id := coalesce (lr_workspace_snapshot_id r) (row_workspace_session_id r)\<rparr>"

text \<open>\<open>ORDER BY launched_at DESC LIMIT 1\<close>, without and with the second key \<open>id DESC\<close>\<close>

definition latest_of :: "('a \<Rightarrow> nat) \<Rightarrow> 'a list \<Rightarrow> 'a list" where
  "latest_of f rs = filter (\<lambda>r. list_all (\<lambda>s. f s \<le> f r) rs) rs"

definition newest :: "nat \<Rightarrow> launch_row list \<Rightarrow> launch_row option" where
  "newest tie rs =
     (let best = latest_of lr_launched_at rs
      in if best = [] then None else Some (best ! (tie mod length best)))"

definition newest_by_id :: "launch_row list \<Rightarrow> launch_row option" where
  "newest_by_id rs =
     (case latest_of lr_id (latest_of lr_launched_at rs) of [] \<Rightarrow> None | r # _ \<Rightarrow> Some r)"

definition rows_where :: "(launch_row \<Rightarrow> bool) \<Rightarrow> launch_db \<Rightarrow> launch_row list" where
  "rows_where P d = filter P (ld_rows d)"

text \<open>\<open>UPDATE launch_history SET ... WHERE ...\<close>\<close>

definition update_where :: "(launch_row \<Rightarrow> bool) \<Rightarrow> (launch_row \<Rightarrow> launch_row) \<Rightarrow> launch_db \<Rightarrow> launch_db" where
  "update_where P f d = d\<lparr>ld_rows := map (\<lambda>r. if P r then f r else r) (ld_rows d)\<rparr>"

text \<open>\<open>INSERT INTO launch_history\<close>: the key is new (\<open>AUTOINCREMENT\<close>), the launch id unique.\<close>

definition unique_failed :: string where
  "unique_failed = ''UNIQUE constraint failed: launch_history.project_id''"

definition insert_row :: "launch_row \<Rightarrow> launch_db \<Rightarrow> (string + nat) \<times> launch_db" where
  "insert_row r d =
     (if rows_where (\<lambda>s. lr_project_id s = lr_project_id r) d \<noteq> [] then (Inl unique_failed, d)
      else (Inr (ld_next d),
            d\<lparr>ld_rows := ld_rows d @ [r\<lparr>lr_id := ld_next d\<rparr>], ld_next := Suc (ld_next d)\<rparr>))"

definition statement :: "sql_env \<Rightarrow> nat \<Rightarrow> launch_db \<Rightarrow> ((string + 'a) \<times> launch_db) \<Rightarrow> (string + 'a) \<times> launch_db" where
  "statement e n d result = (case sq_fail e n of Some err \<Rightarrow> (Inl err, d) | None \<Rightarrow> result)"

lemma statement_simps [simp]:
  "sq_fail e n = None \<Longrightarrow> statement e n d x = x"
  "sq_fail e n = Some err \<Longrightarrow> statement e n d x = (Inl err, d)"
  by (simp_all add: statement_def)

subsection \<open>Adding a launch\<close>

record new_launch =
  nl_project_id :: string
  nl_project_name :: bytes
  nl_project_path :: bytes
  nl_cli_tool :: string
  nl_runtime_kind :: string
  nl_wsl_distro :: "string option"
  nl_workspace_name :: "bytes option"
  nl_workspace_path :: "bytes option"
  nl_launch_cwd :: "bytes option"
  nl_provider_id :: "string option"
  nl_model_id :: "string option"
  nl_provider_selection :: "string option"
  nl_launch_profile_id :: "string option"
  nl_workspace_snapshot_id :: "string option"

definition simplify_opt_path_str :: "(bytes \<Rightarrow> bytes) \<Rightarrow> bytes option \<Rightarrow> bytes option" where
  "simplify_opt_path_str dunce p = map_option dunce p"

definition row_of :: "(bytes \<Rightarrow> bytes) \<Rightarrow> sql_env \<Rightarrow> string option \<Rightarrow> new_launch \<Rightarrow> launch_row" where
  "row_of dunce e pty n =
     \<lparr>lr_id = 0, lr_project_id = nl_project_id n, lr_project_name = nl_project_name n,
      lr_project_path = nl_project_path n, lr_launched_at = sq_now e, lr_pty_session_id = pty,
      lr_resume_session_id = None, lr_cli_tool = nl_cli_tool n, lr_runtime_kind = nl_runtime_kind n,
      lr_wsl_distro = nl_wsl_distro n, lr_last_prompt = None, lr_workspace_name = nl_workspace_name n,
      lr_workspace_path = simplify_opt_path_str dunce (nl_workspace_path n),
      lr_launch_cwd = simplify_opt_path_str dunce (nl_launch_cwd n), lr_provider_id = nl_provider_id n,
      lr_model_id = nl_model_id n, lr_provider_selection = nl_provider_selection n,
      lr_launch_profile_id = nl_launch_profile_id n, lr_workspace_snapshot_id = nl_workspace_snapshot_id n,
      lr_resume_source = None, row_claude_session_id = None,
      row_workspace_session_id = nl_workspace_snapshot_id n\<rparr>"

text \<open>\<open>MAX_MODEL_ID_CHARS\<close> and \<open>validate_model_id\<close>: a character is one byte that does not continue
  another, and a control character is below U+0020 or between U+007F and U+009F.\<close>

fun has_control :: "bytes \<Rightarrow> bool" where
  "has_control [] = False"
| "has_control (a # s) =
     (byte a < 0x20 \<or> byte a = 0x7F
      \<or> (byte a = 0xC2 \<and> (case s of b # _ \<Rightarrow> byte_in 0x80 0x9F b | [] \<Rightarrow> False)) \<or> has_control s)"

definition model_id_refused :: string where
  "model_id_refused = ''launch history model id must be at most 256 characters and contain no control characters''"

definition validate_model_id :: "string option \<Rightarrow> string + unit" where
  "validate_model_id model =
     (case model of
        Some m \<Rightarrow> if 256 < length (filter (\<lambda>c. \<not> cont c) m) \<or> has_control m then Inl model_id_refused else Inr ()
      | None \<Rightarrow> Inr ())"

definition repo_add :: "(bytes \<Rightarrow> bytes) \<Rightarrow> sql_env \<Rightarrow> string option \<Rightarrow> new_launch \<Rightarrow> launch_db \<Rightarrow> (string + nat) \<times> launch_db" where
  "repo_add dunce e pty n d = statement e 0 d (insert_row (row_of dunce e pty n) d)"

text \<open>\<open>LaunchHistoryService::add\<close> (no terminal yet) and \<open>add_with_pty_session\<close>\<close>

definition add_launch :: "(bytes \<Rightarrow> bytes) \<Rightarrow> sql_env \<Rightarrow> string option \<Rightarrow> new_launch \<Rightarrow> launch_db \<Rightarrow> (string + nat) \<times> launch_db" where
  "add_launch dunce e pty n d =
     (case validate_model_id (nl_model_id n) of Inl err \<Rightarrow> (Inl err, d) | Inr _ \<Rightarrow> repo_add dunce e pty n d)"

subsection \<open>Looking rows up\<close>

definition list_launches :: "sql_env \<Rightarrow> nat \<Rightarrow> launch_db \<Rightarrow> string + launch_record list" where
  "list_launches e limit d =
     fst (statement e 0 d
       (Inr (map map_launch_record (take limit (rev (sort_key lr_launched_at (ld_rows d))))), d))"

definition sql_path_key :: "bytes \<Rightarrow> bytes" where
  "sql_path_key p = map to_ascii_lower (replace_char BSLASH SLASH p)"

definition list_by_project :: "sql_env \<Rightarrow> bytes \<Rightarrow> nat \<Rightarrow> launch_db \<Rightarrow> string + launch_record list" where
  "list_by_project e project limit d =
     fst (statement e 0 d
       (Inr (map map_launch_record (take limit (rev (sort_key lr_launched_at
          (rows_where (\<lambda>r. sql_path_key (lr_project_path r) = sql_path_key project) d))))), d))"

definition find_newest :: "sql_env \<Rightarrow> (launch_row \<Rightarrow> bool) \<Rightarrow> launch_db \<Rightarrow> string + launch_record option" where
  "find_newest e P d =
     fst (statement e 0 d (Inr (map_option map_launch_record (newest (sq_tie e) (rows_where P d))), d))"

definition find_by_pty_session_id :: "sql_env \<Rightarrow> string \<Rightarrow> launch_db \<Rightarrow> string + launch_record option" where
  "find_by_pty_session_id e pty = find_newest e (\<lambda>r. lr_pty_session_id r = Some pty)"

definition find_by_resume_session_id :: "sql_env \<Rightarrow> string \<Rightarrow> launch_db \<Rightarrow> string + launch_record option" where
  "find_by_resume_session_id e rid =
     find_newest e (\<lambda>r. lr_resume_session_id r = Some rid \<or> row_claude_session_id r = Some rid)"

definition find_by_launch_id :: "sql_env \<Rightarrow> string \<Rightarrow> launch_db \<Rightarrow> string + launch_record option" where
  "find_by_launch_id e launch = find_newest e (\<lambda>r. lr_project_id r = launch)"


subsection \<open>Binding a terminal to its launch\<close>

text \<open>
  \<open>bind_pty_session\<close>: the newest row of the launch and the tool that has no terminal, or this one.
  The second statement only reads the key of the row back.
\<close>

definition repo_bind_pty_session ::
  "sql_env \<Rightarrow> string \<Rightarrow> string \<Rightarrow> string \<Rightarrow> string option \<Rightarrow> string option \<Rightarrow> launch_db \<Rightarrow> (string + nat option) \<times> launch_db" where
  "repo_bind_pty_session e launch pty cli model provider d =
     statement e 0 d
       (case newest (sq_tie e) (rows_where (\<lambda>r. lr_project_id r = launch \<and> lr_cli_tool r = cli
               \<and> (lr_pty_session_id r = None \<or> lr_pty_session_id r = Some pty)) d) of
          None \<Rightarrow> (Inr None, d)
        | Some r \<Rightarrow>
            let d1 = update_where (\<lambda>s. lr_id s = lr_id r)
                       (\<lambda>s. s\<lparr>lr_pty_session_id := Some pty, lr_model_id := model, lr_provider_id := provider\<rparr>) d
            in statement e 1 d1
                 (case newest (sq_tie e) (rows_where (\<lambda>r. lr_project_id r = launch
                         \<and> lr_pty_session_id r = Some pty \<and> lr_cli_tool r = cli) d1) of
                    Some s \<Rightarrow> (Inr (Some (lr_id s)), d1)
                  | None \<Rightarrow> (Inl ''Query returned no rows'', d1)))"

definition bind_pty_session ::
  "sql_env \<Rightarrow> string \<Rightarrow> string \<Rightarrow> string \<Rightarrow> string option \<Rightarrow> string option \<Rightarrow> launch_db \<Rightarrow> (string + nat option) \<times> launch_db" where
  "bind_pty_session e launch pty cli model provider d =
     (case validate_model_id model of
        Inl err \<Rightarrow> (Inl err, d)
      | Inr _ \<Rightarrow> repo_bind_pty_session e launch pty cli model provider d)"

subsection \<open>Writing the resume identity\<close>

definition select_identity ::
  "string option \<Rightarrow> string option \<Rightarrow> string \<Rightarrow> string \<Rightarrow> nat \<Rightarrow> session_started_upsert_result" where
  "select_identity old_source old_id source rid key =
     (if should_retain_incoming old_source old_id source rid
      then \<lparr>ur_record_id = key, ur_resume_session_id = rid, ur_resume_source = Some source\<rparr>
      else \<lparr>ur_record_id = key, ur_resume_session_id = (case old_id of Some x \<Rightarrow> x | None \<Rightarrow> rid),
            ur_resume_source = old_source\<rparr>)"

text \<open>\<open>update_resume_session_with_source_by_pty\<close>: one transaction; a failure rolls it back.\<close>

definition update_resume_session_with_source_by_pty ::
  "sql_env \<Rightarrow> string \<Rightarrow> string \<Rightarrow> string \<Rightarrow> launch_db \<Rightarrow> (string + session_started_upsert_result option) \<times> launch_db" where
  "update_resume_session_with_source_by_pty e pty rid source d =
     statement e 0 d
       (case newest_by_id (rows_where (\<lambda>r. lr_pty_session_id r = Some pty) d) of
          None \<Rightarrow> (Inr None, d)
        | Some r \<Rightarrow>
            let retain = should_retain_incoming (lr_resume_source r) (lr_resume_session_id r) source rid;
                d1 = (if retain
                      then update_where (\<lambda>s. lr_id s = lr_id r)
                             (\<lambda>s. s\<lparr>lr_resume_session_id := Some rid, lr_resume_source := Some source\<rparr>) d
                      else d)
            in statement e 1 d
                 (Inr (Some (select_identity (lr_resume_source r) (lr_resume_session_id r) source rid (lr_id r))), d1))"

text \<open>\<open>update_session_started\<close>: every column is overwritten, whatever was there.\<close>

definition update_session_started ::
  "(bytes \<Rightarrow> bytes) \<Rightarrow> sql_env \<Rightarrow> string \<Rightarrow> string \<Rightarrow> string \<Rightarrow> string \<Rightarrow> string \<Rightarrow> string option \<Rightarrow> bytes option \<Rightarrow> launch_db
   \<Rightarrow> (string + nat option) \<times> launch_db" where
  "update_session_started dunce e launch pty rid cli runtime distro cwd d =
     statement e 0 d
       (let d1 = update_where (\<lambda>r. lr_project_id r = launch)
                   (\<lambda>r. r\<lparr>lr_pty_session_id := Some pty, lr_resume_session_id := Some rid, lr_cli_tool := cli,
                          lr_runtime_kind := runtime, lr_wsl_distro := coalesce distro (lr_wsl_distro r),
                          lr_launch_cwd := coalesce (simplify_opt_path_str dunce cwd) (lr_launch_cwd r)\<rparr>) d
        in case newest (sq_tie e) (rows_where (\<lambda>r. lr_project_id r = launch) d1) of
             None \<Rightarrow> (Inr None, d)
           | Some r \<Rightarrow> statement e 1 d1 (Inr (Some (lr_id r)), d1))"

record session_started =
  ss_launch_id :: string
  ss_pty_session_id :: string
  ss_resume_session_id :: string
  ss_cli_tool :: string
  ss_runtime_kind :: string
  ss_wsl_distro :: "string option"
  ss_launch_cwd :: "bytes option"
  ss_project_path :: bytes
  ss_project_name :: bytes
  ss_workspace_path :: "bytes option"

definition already_bound :: string where "already_bound = ''already bound to another PTY''"
definition occupied_error :: "string \<Rightarrow> string" where
  "occupied_error launch = ''launch id '' @ launch @ '' is '' @ already_bound"
definition cli_error :: "string \<Rightarrow> string \<Rightarrow> string \<Rightarrow> string" where
  "cli_error launch old new = ''launch id '' @ launch @ '' belongs to CLI '' @ old @ '', not '' @ new"

text \<open>
  \<open>upsert_session_started_inner\<close>; \<open>source\<close> is \<open>None\<close> for the caller that does not arbitrate.
\<close>

definition replaces_resume :: "launch_row \<Rightarrow> string \<Rightarrow> string option \<Rightarrow> bool" where
  "replaces_resume r rid source =
     (case source of
        Some s \<Rightarrow> should_retain_incoming (lr_resume_source r) (lr_resume_session_id r) s rid
      | None \<Rightarrow> True)"

definition upsert_update :: "(bytes \<Rightarrow> bytes) \<Rightarrow> session_started \<Rightarrow> string option \<Rightarrow> bool \<Rightarrow> string \<Rightarrow> launch_row \<Rightarrow> launch_row" where
  "upsert_update dunce q source replace cli r =
     (let r1 = r\<lparr>lr_pty_session_id := Some (ss_pty_session_id q), lr_cli_tool := cli,
                 lr_runtime_kind := ss_runtime_kind q, lr_wsl_distro := coalesce (ss_wsl_distro q) (lr_wsl_distro r),
                 lr_launch_cwd := coalesce (simplify_opt_path_str dunce (ss_launch_cwd q)) (lr_launch_cwd r)\<rparr>
      in if replace
         then r1\<lparr>lr_resume_session_id := Some (ss_resume_session_id q),
                 lr_resume_source := coalesce source (lr_resume_source r)\<rparr>
         else r1)"

definition started_row :: "(bytes \<Rightarrow> bytes) \<Rightarrow> sql_env \<Rightarrow> session_started \<Rightarrow> string option \<Rightarrow> launch_row" where
  "started_row dunce e q source =
     \<lparr>lr_id = 0, lr_project_id = ss_launch_id q, lr_project_name = ss_project_name q,
      lr_project_path = ss_project_path q, lr_launched_at = sq_now e,
      lr_pty_session_id = Some (ss_pty_session_id q), lr_resume_session_id = Some (ss_resume_session_id q),
      lr_cli_tool = ss_cli_tool q, lr_runtime_kind = ss_runtime_kind q, lr_wsl_distro = ss_wsl_distro q,
      lr_last_prompt = None, lr_workspace_name = None,
      lr_workspace_path = simplify_opt_path_str dunce (ss_workspace_path q),
      lr_launch_cwd = simplify_opt_path_str dunce (ss_launch_cwd q), lr_provider_id = None, lr_model_id = None,
      lr_provider_selection = None, lr_launch_profile_id = None, lr_workspace_snapshot_id = None,
      lr_resume_source = source, row_claude_session_id = None, row_workspace_session_id = None\<rparr>"

definition upsert_session_started_inner ::
  "(bytes \<Rightarrow> bytes) \<Rightarrow> sql_env \<Rightarrow> session_started \<Rightarrow> string option \<Rightarrow> launch_db
   \<Rightarrow> (string + session_started_upsert_result) \<times> launch_db" where
  "upsert_session_started_inner dunce e q source d =
     statement e 0 d
       (case newest_by_id (rows_where (\<lambda>r. lr_project_id r = ss_launch_id q) d) of
          Some r \<Rightarrow>
            if lr_pty_session_id r \<noteq> None \<and> lr_pty_session_id r \<noteq> Some (ss_pty_session_id q)
            then (Inl (occupied_error (ss_launch_id q)), d)
            else if lr_cli_tool r \<noteq> ''none'' \<and> ss_cli_tool q \<noteq> ''none'' \<and> lr_cli_tool r \<noteq> ss_cli_tool q
            then (Inl (cli_error (ss_launch_id q) (lr_cli_tool r) (ss_cli_tool q)), d)
            else
              let cli = (if lr_cli_tool r = ''none'' \<and> ss_cli_tool q \<noteq> ''none'' then ss_cli_tool q else lr_cli_tool r);
                  replace = replaces_resume r (ss_resume_session_id q) source;
                  selected = \<lparr>ur_record_id = lr_id r,
                    ur_resume_session_id =
                      (if replace then ss_resume_session_id q
                       else case lr_resume_session_id r of Some x \<Rightarrow> x | None \<Rightarrow> ss_resume_session_id q),
                    ur_resume_source = (if replace then coalesce source (lr_resume_source r) else lr_resume_source r)\<rparr>
              in statement e 1 d
                   (Inr selected,
                    update_where (\<lambda>s. lr_id s = lr_id r) (upsert_update dunce q source replace cli) d)
        | None \<Rightarrow>
            statement e 1 d
              (case insert_row (started_row dunce e q source) d of
                 (Inl err, d1) \<Rightarrow> (Inl err, d)
               | (Inr key, d1) \<Rightarrow>
                   (Inr \<lparr>ur_record_id = key, ur_resume_session_id = ss_resume_session_id q, ur_resume_source = source\<rparr>,
                    d1)))"


subsection \<open>The other writers\<close>

definition update_by_id :: "sql_env \<Rightarrow> nat \<Rightarrow> (launch_row \<Rightarrow> launch_row) \<Rightarrow> launch_db \<Rightarrow> (string + unit) \<times> launch_db" where
  "update_by_id e key f d = statement e 0 d (Inr (), update_where (\<lambda>r. lr_id r = key) f d)"

definition update_session_id :: "sql_env \<Rightarrow> nat \<Rightarrow> string \<Rightarrow> launch_db \<Rightarrow> (string + unit) \<times> launch_db" where
  "update_session_id e key rid = update_by_id e key (\<lambda>r. r\<lparr>lr_resume_session_id := Some rid\<rparr>)"

definition update_resume_source :: "sql_env \<Rightarrow> nat \<Rightarrow> string \<Rightarrow> launch_db \<Rightarrow> (string + unit) \<times> launch_db" where
  "update_resume_source e key source = update_by_id e key (\<lambda>r. r\<lparr>lr_resume_source := Some source\<rparr>)"

definition update_last_prompt :: "sql_env \<Rightarrow> nat \<Rightarrow> bytes \<Rightarrow> launch_db \<Rightarrow> (string + unit) \<times> launch_db" where
  "update_last_prompt e key prompt = update_by_id e key (\<lambda>r. r\<lparr>lr_last_prompt := Some prompt\<rparr>)"

text \<open>\<open>update_last_prompt_by_pty_session_id\<close> and \<open>touch_by_session_id\<close> write all the rows they match and
  answer with the key of the newest.\<close>

definition update_matching ::
  "sql_env \<Rightarrow> (launch_row \<Rightarrow> bool) \<Rightarrow> (launch_row \<Rightarrow> launch_row) \<Rightarrow> launch_db \<Rightarrow> (string + nat option) \<times> launch_db" where
  "update_matching e P f d =
     statement e 0 d
       (let d1 = update_where P f d
        in case newest (sq_tie e) (rows_where P d1) of
             None \<Rightarrow> (Inr None, d1)
           | Some r \<Rightarrow> statement e 1 d1 (Inr (Some (lr_id r)), d1))"

definition update_last_prompt_by_pty_session_id ::
  "sql_env \<Rightarrow> string \<Rightarrow> bytes \<Rightarrow> launch_db \<Rightarrow> (string + nat option) \<times> launch_db" where
  "update_last_prompt_by_pty_session_id e pty prompt =
     update_matching e (\<lambda>r. lr_pty_session_id r = Some pty) (\<lambda>r. r\<lparr>lr_last_prompt := Some prompt\<rparr>)"

definition touch_by_session_id :: "sql_env \<Rightarrow> string \<Rightarrow> launch_db \<Rightarrow> (string + nat option) \<times> launch_db" where
  "touch_by_session_id e rid =
     update_matching e (\<lambda>r. lr_resume_session_id r = Some rid) (\<lambda>r. r\<lparr>lr_launched_at := sq_now e\<rparr>)"

definition delete_by_id :: "sql_env \<Rightarrow> nat \<Rightarrow> launch_db \<Rightarrow> (string + unit) \<times> launch_db" where
  "delete_by_id e key d = statement e 0 d (Inr (), d\<lparr>ld_rows := rows_where (\<lambda>r. lr_id r \<noteq> key) d\<rparr>)"

definition clear_launches :: "sql_env \<Rightarrow> launch_db \<Rightarrow> (string + unit) \<times> launch_db" where
  "clear_launches e d = statement e 0 d (Inr (), d\<lparr>ld_rows := []\<rparr>)"

text \<open>The calls that windows, web clients and the orchestrator make directly.\<close>

datatype launch_op =
    AddLaunch "string option" new_launch
  | BindPty string string string "string option" "string option"
  | BindIdentity string string string
  | SessionStarted session_started
  | UpsertStarted session_started "string option"
  | SetSessionId nat string
  | SetResumeSource nat string
  | SetPrompt nat bytes
  | SetPromptByPty string bytes
  | TouchSession string
  | DeleteLaunch nat
  | ClearLaunches

fun launch_exec :: "(bytes \<Rightarrow> bytes) \<Rightarrow> sql_env \<Rightarrow> launch_op \<Rightarrow> launch_db \<Rightarrow> launch_db" where
  "launch_exec dunce e (AddLaunch pty n) d = snd (add_launch dunce e pty n d)"
| "launch_exec dunce e (BindPty launch pty cli model provider) d = snd (bind_pty_session e launch pty cli model provider d)"
| "launch_exec dunce e (BindIdentity pty rid source) d =
     snd (update_resume_session_with_source_by_pty e pty rid source d)"
| "launch_exec dunce e (SessionStarted q) d =
     snd (update_session_started dunce e (ss_launch_id q) (ss_pty_session_id q) (ss_resume_session_id q)
       (ss_cli_tool q) (ss_runtime_kind q) (ss_wsl_distro q) (ss_launch_cwd q) d)"
| "launch_exec dunce e (UpsertStarted q source) d = snd (upsert_session_started_inner dunce e q source d)"
| "launch_exec dunce e (SetSessionId key rid) d = snd (update_session_id e key rid d)"
| "launch_exec dunce e (SetResumeSource key source) d = snd (update_resume_source e key source d)"
| "launch_exec dunce e (SetPrompt key prompt) d = snd (update_last_prompt e key prompt d)"
| "launch_exec dunce e (SetPromptByPty pty prompt) d = snd (update_last_prompt_by_pty_session_id e pty prompt d)"
| "launch_exec dunce e (TouchSession rid) d = snd (touch_by_session_id e rid d)"
| "launch_exec dunce e (DeleteLaunch key) d = snd (delete_by_id e key d)"
| "launch_exec dunce e (ClearLaunches) d = snd (clear_launches e d)"

subsection \<open>One row per launch\<close>

definition launch_db_ok :: "launch_db \<Rightarrow> bool" where
  "launch_db_ok d \<longleftrightarrow> distinct (map lr_id (ld_rows d)) \<and> distinct (map lr_project_id (ld_rows d))
     \<and> list_all (\<lambda>r. lr_id r < ld_next d) (ld_rows d)"

definition keeps_key :: "(launch_row \<Rightarrow> launch_row) \<Rightarrow> bool" where
  "keeps_key f \<longleftrightarrow> (\<forall>r. lr_id (f r) = lr_id r \<and> lr_project_id (f r) = lr_project_id r)"

text \<open>
  What a call does to the table, read as a change of each row: a row may go, stay, or become one that
  \<open>K\<close> allows, and new rows have new keys.
\<close>

definition row_at :: "nat \<Rightarrow> launch_db \<Rightarrow> launch_row option" where
  "row_at key d = find (\<lambda>r. lr_id r = key) (ld_rows d)"

definition evolves :: "(launch_row \<Rightarrow> launch_row \<Rightarrow> bool) \<Rightarrow> launch_db \<Rightarrow> launch_db \<Rightarrow> bool" where
  "evolves K d d1 \<longleftrightarrow> ld_next d \<le> ld_next d1
     \<and> (\<forall>key r. row_at key d = Some r \<longrightarrow> (case row_at key d1 of None \<Rightarrow> True | Some r1 \<Rightarrow> K r r1))
     \<and> (\<forall>key. key < ld_next d \<and> row_at key d = None \<longrightarrow> row_at key d1 = None)"

lemma evolves_refl [intro, simp]: "reflp K \<Longrightarrow> evolves K d d"
  by (simp add: evolves_def reflp_def split: option.split)

lemma evolvesD:
  assumes "evolves K d d1"
  shows "ld_next d \<le> ld_next d1"
    and "row_at key d = Some r \<Longrightarrow> row_at key d1 = Some r1 \<Longrightarrow> K r r1"
    and "key < ld_next d \<Longrightarrow> row_at key d = None \<Longrightarrow> row_at key d1 = None"
  using assms by (auto simp: evolves_def split: option.splits)

lemma row_at_in: "row_at key d = Some r \<Longrightarrow> r \<in> set (ld_rows d) \<and> lr_id r = key"
  by (auto simp: row_at_def find_Some_iff)

lemma row_at_old: "launch_db_ok d \<Longrightarrow> row_at key d = Some r \<Longrightarrow> key < ld_next d"
  using row_at_in [of key d r] by (auto simp: launch_db_ok_def list_all_iff)

lemma evolves_trans:
  assumes "transp K" and step: "evolves K d d1" "evolves K d1 d2" and ok: "launch_db_ok d"
  shows "evolves K d d2"
  unfolding evolves_def
proof (intro conjI allI impI)
  show "ld_next d \<le> ld_next d2" using step [THEN evolvesD(1)] by simp
next
  fix key r assume r: "row_at key d = Some r"
  then have "key < ld_next d1" using row_at_old [OF ok r] evolvesD(1) [OF step(1)] by simp
  show "case row_at key d2 of None \<Rightarrow> True | Some r2 \<Rightarrow> K r r2"
  proof (cases "row_at key d1")
    case None
    then show ?thesis using evolvesD(3) [OF step(2) \<open>key < ld_next d1\<close>] by simp
  next
    case (Some r1)
    show ?thesis
      using evolvesD(2) [OF step(1) r Some] evolvesD(2) [OF step(2) Some] transpD [OF assms(1)]
      by (auto split: option.split)
  qed
next
  fix key assume "key < ld_next d \<and> row_at key d = None"
  then show "row_at key d2 = None" using evolvesD(1,3) [OF step(1)] evolvesD(3) [OF step(2)] by simp
qed

lemma find_map_key:
  "\<forall>r \<in> set rs. lr_id (g r) = lr_id r \<Longrightarrow>
   find (\<lambda>r. lr_id r = key) (map g rs) = map_option g (find (\<lambda>r. lr_id r = key) rs)"
  by (induction rs) auto

lemma find_append: "find P (xs @ ys) = (case find P xs of Some x \<Rightarrow> Some x | None \<Rightarrow> find P ys)"
  by (induction xs) auto

lemma row_at_update:
  "keeps_key f \<Longrightarrow> row_at key (update_where P f d) = map_option (\<lambda>r. if P r then f r else r) (row_at key d)"
  unfolding row_at_def update_where_def by (simp add: find_map_key keeps_key_def)

lemma find_by_key: "distinct (map f rs) \<Longrightarrow> r \<in> set rs \<Longrightarrow> find (\<lambda>x. f x = f r) rs = Some r"
  by (induction rs) (auto simp: image_iff)

lemma row_at_of_member: "launch_db_ok d \<Longrightarrow> r \<in> set (ld_rows d) \<Longrightarrow> row_at (lr_id r) d = Some r"
  by (simp add: row_at_def launch_db_ok_def find_by_key)

lemma update_evolves:
  assumes "keeps_key f" and "reflp K" and "\<And>r. r \<in> set (ld_rows d) \<Longrightarrow> P r \<Longrightarrow> K r (f r)"
  shows "evolves K d (update_where P f d)"
proof -
  have "ld_next (update_where P f d) = ld_next d" by (simp add: update_where_def)
  moreover have "K r (if P r then f r else r)" if "row_at key d = Some r" for key r
    using assms(2,3) row_at_in [OF that] by (simp add: reflp_def)
  ultimately show ?thesis using assms(1) by (simp add: evolves_def row_at_update)
qed

lemma launch_update_ok:
  assumes "keeps_key f" and "launch_db_ok d"
  shows "launch_db_ok (update_where P f d)"
proof -
  have "map lr_id (map (\<lambda>r. if P r then f r else r) rs) = map lr_id rs"
    "map lr_project_id (map (\<lambda>r. if P r then f r else r) rs) = map lr_project_id rs" for rs
    using assms(1) by (induction rs) (simp_all add: keeps_key_def)
  then show ?thesis using assms
    by (auto simp: launch_db_ok_def update_where_def keeps_key_def list_all_iff simp del: map_map)
qed


text \<open>Every call leaves the table, updates rows of it, adds one row or removes some.\<close>

definition moves :: "(launch_row \<Rightarrow> launch_row \<Rightarrow> bool) \<Rightarrow> launch_db \<Rightarrow> launch_db \<Rightarrow> bool" where
  "moves K d d1 \<longleftrightarrow> d1 = d
     \<or> (\<exists>P f. keeps_key f \<and> d1 = update_where P f d \<and> (\<forall>r \<in> set (ld_rows d). P r \<longrightarrow> K r (f r)))
     \<or> (\<exists>r key. insert_row r d = (Inr key, d1))
     \<or> (\<exists>P. d1 = d\<lparr>ld_rows := rows_where P d\<rparr>)"

lemma moves_same [simp, intro]: "moves K d d"
  by (simp add: moves_def)

lemma moves_update [intro]:
  "keeps_key f \<Longrightarrow> (\<And>r. r \<in> set (ld_rows d) \<Longrightarrow> P r \<Longrightarrow> K r (f r)) \<Longrightarrow> moves K d (update_where P f d)"
  unfolding moves_def by blast

lemma moves_insert: "moves K d (snd (insert_row r d))"
  by (auto simp: moves_def insert_row_def)

lemma moves_filter: "moves K d (d\<lparr>ld_rows := rows_where P d\<rparr>)"
  unfolding moves_def by blast

lemma moves_statement: "moves K d (snd x) \<Longrightarrow> moves K d (snd (statement e n d x))"
  by (cases "sq_fail e n") simp_all

lemma moves_read: "moves K d d1 \<Longrightarrow> moves K d (snd (statement e n d1 (y, d1)))"
  by (cases "sq_fail e n") simp_all

lemma insert_ok:
  assumes "launch_db_ok d" and "insert_row r d = (Inr key, d1)"
  shows "launch_db_ok d1"
proof -
  have fresh: "\<forall>s \<in> set (ld_rows d). lr_project_id s \<noteq> lr_project_id r"
    and d1: "d1 = d\<lparr>ld_rows := ld_rows d @ [r\<lparr>lr_id := ld_next d\<rparr>], ld_next := Suc (ld_next d)\<rparr>"
    using assms(2) by (auto simp: insert_row_def rows_where_def filter_empty_conv split: if_splits)
  have "\<forall>s \<in> set (ld_rows d). lr_id s < ld_next d"
    using assms(1) by (simp add: launch_db_ok_def list_all_iff)
  then have "ld_next d \<notin> lr_id ` set (ld_rows d)" and "lr_project_id r \<notin> lr_project_id ` set (ld_rows d)"
    using fresh by force+
  then show ?thesis
    using assms(1) \<open>\<forall>s \<in> set (ld_rows d). lr_id s < ld_next d\<close>
    by (auto simp: d1 launch_db_ok_def list_all_iff)
qed

lemma filter_ok: "launch_db_ok d \<Longrightarrow> launch_db_ok (d\<lparr>ld_rows := rows_where P d\<rparr>)"
  by (auto simp: launch_db_ok_def rows_where_def distinct_map_filter list_all_iff)

lemma moves_ok: "moves K d d1 \<Longrightarrow> launch_db_ok d \<Longrightarrow> launch_db_ok d1"
  unfolding moves_def using launch_update_ok insert_ok filter_ok by blast

lemma insert_evolves:
  assumes "reflp K" and "launch_db_ok d" and "insert_row r d = (Inr key, d1)"
  shows "evolves K d d1"
proof -
  have next_free: "row_at (ld_next d) d = None"
    using row_at_old [OF assms(2), of "ld_next d"] by (cases "row_at (ld_next d) d") auto
  have d1: "ld_next d1 = Suc (ld_next d)"
    "row_at k d1 = (case row_at k d of Some s \<Rightarrow> Some s | None \<Rightarrow> if k = ld_next d then Some (r\<lparr>lr_id := k\<rparr>) else None)" for k
    using assms(3) by (auto simp: insert_row_def row_at_def find_append split: if_splits option.split)
  show ?thesis
    using assms(1) next_free by (auto simp: evolves_def d1 reflp_def split: option.split)
qed

lemma filter_evolves:
  assumes "reflp K" and "launch_db_ok d"
  shows "evolves K d (d\<lparr>ld_rows := rows_where P d\<rparr>)"
proof -
  let ?d1 = "d\<lparr>ld_rows := rows_where P d\<rparr>"
  have still: "row_at key d = Some r" if "row_at key ?d1 = Some r" for key r
    using row_at_in [OF that] row_at_of_member [OF assms(2), of r] by (auto simp: rows_where_def)
  show ?thesis
    unfolding evolves_def
  proof (intro conjI allI impI)
    fix key r assume "row_at key d = Some r"
    then show "case row_at key ?d1 of None \<Rightarrow> True | Some r1 \<Rightarrow> K r r1"
      using still [of key] assms(1) by (auto simp: reflp_def split: option.split)
  next
    fix key assume "key < ld_next d \<and> row_at key d = None"
    then show "row_at key ?d1 = None" using still [of key] by (cases "row_at key ?d1") auto
  qed simp
qed

lemma moves_evolves: "moves K d d1 \<Longrightarrow> reflp K \<Longrightarrow> launch_db_ok d \<Longrightarrow> evolves K d d1"
  unfolding moves_def using update_evolves insert_evolves filter_evolves evolves_refl by metis

lemma newest_in: "newest tie rs = Some r \<Longrightarrow> r \<in> set rs"
proof -
  assume "newest tie rs = Some r"
  then have "r \<in> set (latest_of lr_launched_at rs)"
    by (auto simp: newest_def Let_def split: if_splits)
  then show ?thesis by (simp add: latest_of_def)
qed

lemma newest_by_id_in: "newest_by_id rs = Some r \<Longrightarrow> r \<in> set rs"
  by (auto simp: newest_by_id_def latest_of_def filter_eq_Cons_iff split: list.splits)

lemma latest_of_nonempty: "rs \<noteq> [] \<Longrightarrow> latest_of f rs \<noteq> []"
proof -
  assume "rs \<noteq> []"
  then have "Max (f ` set rs) \<in> f ` set rs" by simp
  then obtain r where r: "r \<in> set rs" "f r = Max (f ` set rs)" by auto
  then have "\<forall>s \<in> set rs. f s \<le> f r" by simp
  with r(1) show ?thesis by (auto simp: latest_of_def filter_empty_conv list_all_iff)
qed

lemma newest_None [simp]: "newest tie rs = None \<longleftrightarrow> rs = []"
  using latest_of_nonempty [of rs lr_launched_at] by (auto simp: newest_def Let_def latest_of_def)

lemma newest_by_id_None [simp]: "newest_by_id rs = None \<longleftrightarrow> rs = []"
proof
  assume "newest_by_id rs = None"
  then have "latest_of lr_id (latest_of lr_launched_at rs) = []" by (simp add: newest_by_id_def split: list.splits)
  then show "rs = []" using latest_of_nonempty by blast
qed (simp add: newest_by_id_def latest_of_def)

lemma latest_of_single [simp]: "latest_of f [r] = [r]"
  by (simp add: latest_of_def)

lemma newest_single [simp]: "newest tie [r] = Some r" "newest_by_id [r] = Some r"
  by (simp_all add: newest_def newest_by_id_def Let_def)


subsection \<open>What the writers may change\<close>

text \<open>
  The terminal of a launch stays, and so does its identity, unless one from a source that is trusted at
  least as much replaces it. A row of an old database may have an identity without a source.
\<close>

definition keeps_pty :: "launch_row \<Rightarrow> launch_row \<Rightarrow> bool" where
  "keeps_pty r r1 \<longleftrightarrow> lr_pty_session_id r = None \<or> lr_pty_session_id r1 = lr_pty_session_id r"

definition keeps_identity :: "launch_row \<Rightarrow> launch_row \<Rightarrow> bool" where
  "keeps_identity r r1 \<longleftrightarrow>
     (case (lr_resume_source r, lr_resume_session_id r) of
        (Some s, Some x) \<Rightarrow>
          (case (lr_resume_source r1, lr_resume_session_id r1) of
             (Some s1, Some x1) \<Rightarrow> (s1 = s \<and> x1 = x) \<or> source_priority s \<le> source_priority s1
           | _ \<Rightarrow> False)
      | (_, x) \<Rightarrow> x \<noteq> None \<longrightarrow> lr_resume_session_id r1 \<noteq> None)"

lemma keeps_pty_order: "reflp keeps_pty" "transp keeps_pty"
  by (auto simp: keeps_pty_def reflp_def transp_def)

lemma keeps_identity_order: "reflp keeps_identity" "transp keeps_identity"
  by (auto simp: keeps_identity_def reflp_def transp_def split: option.splits)

text \<open>The writers that ask nobody: the report of a hook, and the columns a window sets one by one.\<close>

fun unarbitrated :: "launch_op \<Rightarrow> bool" where
  "unarbitrated (SessionStarted q) = True"
| "unarbitrated (UpsertStarted q source) = (source = None)"
| "unarbitrated (SetSessionId key rid) = True"
| "unarbitrated (SetResumeSource key source) = True"
| "unarbitrated c = False"

fun is_session_started :: "launch_op \<Rightarrow> bool" where
  "is_session_started (SessionStarted q) = True"
| "is_session_started c = False"

lemma same_key: "launch_db_ok d \<Longrightarrow> r \<in> set (ld_rows d) \<Longrightarrow> s \<in> set (ld_rows d) \<Longrightarrow> lr_id s = lr_id r \<Longrightarrow> s = r"
  by (metis option.inject row_at_of_member)

lemma retained_keeps:
  assumes "should_retain_incoming (lr_resume_source r) (lr_resume_session_id r) source rid"
    and "lr_resume_source r1 = Some source" and "lr_resume_session_id r1 = Some rid"
  shows "keeps_identity r r1"
  using assms by (auto simp: keeps_identity_def should_retain_incoming_def split: option.splits)

lemma same_identity_keeps:
  "lr_resume_source r1 = lr_resume_source r \<Longrightarrow> lr_resume_session_id r1 = lr_resume_session_id r \<Longrightarrow> keeps_identity r r1"
  by (auto simp: keeps_identity_def split: option.splits)

lemmas same_row_keeps = same_identity_keeps keeps_pty_def


definition keeps_binding :: "launch_row \<Rightarrow> launch_row \<Rightarrow> bool" where
  "keeps_binding r r1 \<longleftrightarrow> keeps_pty r r1 \<and> keeps_identity r r1"

lemma moves_mono: "moves K d d1 \<Longrightarrow> (\<And>r r1. K r r1 \<Longrightarrow> L r r1) \<Longrightarrow> moves L d d1"
  unfolding moves_def by blast

lemma moves_binding: "moves keeps_binding d d1 \<Longrightarrow> moves keeps_pty d d1" "moves keeps_binding d d1 \<Longrightarrow> moves keeps_identity d d1"
  by (auto simp: keeps_binding_def elim: moves_mono)

lemma add_moves: "moves K d (snd (add_launch dunce e pty n d))"
  by (auto simp: add_launch_def repo_add_def intro!: moves_statement moves_insert split: sum.split)

lemma bind_pty_moves:
  assumes ok: "launch_db_ok d"
  shows "moves keeps_binding d (snd (bind_pty_session e launch pty cli model provider d))"
proof -
  let ?P = "\<lambda>r. lr_project_id r = launch \<and> lr_cli_tool r = cli \<and> (lr_pty_session_id r = None \<or> lr_pty_session_id r = Some pty)"
  let ?d1 = "\<lambda>r. update_where (\<lambda>s. lr_id s = lr_id r)
      (\<lambda>s. s\<lparr>lr_pty_session_id := Some pty, lr_model_id := model, lr_provider_id := provider\<rparr>) d"
  have step: "moves keeps_binding d (?d1 r)" if "newest (sq_tie e) (rows_where ?P d) = Some r" for r
  proof (rule moves_update)
    have r: "r \<in> set (ld_rows d)" "?P r" using newest_in [OF that] by (simp_all add: rows_where_def)
    fix s assume "s \<in> set (ld_rows d)" "lr_id s = lr_id r"
    then have "s = r" using same_key [OF ok r(1)] by blast
    then show "keeps_binding s (s\<lparr>lr_pty_session_id := Some pty, lr_model_id := model, lr_provider_id := provider\<rparr>)"
      using r(2) by (auto simp: keeps_binding_def keeps_pty_def intro: same_identity_keeps)
  qed (simp add: keeps_key_def)
  show ?thesis
    unfolding bind_pty_session_def repo_bind_pty_session_def
    by (auto simp: Let_def statement_def intro: step split: sum.split option.split)
qed

lemma bind_identity_moves:
  assumes ok: "launch_db_ok d"
  shows "moves keeps_binding d (snd (update_resume_session_with_source_by_pty e pty rid source d))"
proof -
  have step: "moves keeps_binding d (update_where (\<lambda>s. lr_id s = lr_id r)
      (\<lambda>s. s\<lparr>lr_resume_session_id := Some rid, lr_resume_source := Some source\<rparr>) d)"
    if "newest_by_id (rows_where (\<lambda>r. lr_pty_session_id r = Some pty) d) = Some r"
      and retain: "should_retain_incoming (lr_resume_source r) (lr_resume_session_id r) source rid" for r
  proof (rule moves_update)
    have r: "r \<in> set (ld_rows d)" using newest_by_id_in [OF that(1)] by (simp add: rows_where_def)
    fix s assume "s \<in> set (ld_rows d)" "lr_id s = lr_id r"
    then have "s = r" using same_key [OF ok r] by blast
    then show "keeps_binding s (s\<lparr>lr_resume_session_id := Some rid, lr_resume_source := Some source\<rparr>)"
      using retain by (auto simp: keeps_binding_def keeps_pty_def intro: retained_keeps)
  qed (simp add: keeps_key_def)
  show ?thesis
    unfolding update_resume_session_with_source_by_pty_def
    by (auto simp: Let_def statement_def intro: step split: option.split)
qed

lemma upsert_moves:
  assumes ok: "launch_db_ok d"
  shows "moves keeps_pty d (snd (upsert_session_started_inner dunce e q source d))"
    and "source \<noteq> None \<Longrightarrow> moves keeps_identity d (snd (upsert_session_started_inner dunce e q source d))"
proof -
  let ?sel = "\<lambda>r. newest_by_id (rows_where (\<lambda>r. lr_project_id r = ss_launch_id q) d) = Some r"
  let ?f = "\<lambda>replace cli. upsert_update dunce q source replace cli"
  have key: "keeps_key (?f replace cli)" for replace cli by (simp add: keeps_key_def upsert_update_def Let_def)
  have only: "s = r" if "?sel r" "s \<in> set (ld_rows d)" "lr_id s = lr_id r" for r s
    using newest_by_id_in [OF that(1)] same_key [OF ok _ that(2,3)] by (simp add: rows_where_def)
  have pty: "moves keeps_pty d (update_where (\<lambda>s. lr_id s = lr_id r) (?f replace cli) d)"
    if sel: "?sel r" and free: "\<not> (lr_pty_session_id r \<noteq> None \<and> lr_pty_session_id r \<noteq> Some (ss_pty_session_id q))"
    for r replace cli
  proof (rule moves_update [OF key])
    fix s assume "s \<in> set (ld_rows d)" "lr_id s = lr_id r"
    then have "s = r" using only sel by blast
    then show "keeps_pty s (?f replace cli s)" using free by (auto simp: keeps_pty_def upsert_update_def Let_def)
  qed
  have identity: "moves keeps_identity d (update_where (\<lambda>s. lr_id s = lr_id r)
      (?f (replaces_resume r (ss_resume_session_id q) source) cli) d)"
    if sel: "?sel r" and some: "source \<noteq> None" for r cli
  proof (rule moves_update [OF key])
    fix s assume "s \<in> set (ld_rows d)" "lr_id s = lr_id r"
    then have s: "s = r" using only sel by blast
    obtain src where src: "source = Some src" using some by blast
    show "keeps_identity s (?f (replaces_resume r (ss_resume_session_id q) source) cli s)"
    proof (cases "replaces_resume r (ss_resume_session_id q) source")
      case True
      then show ?thesis
        by (intro retained_keeps) (simp_all add: s src replaces_resume_def upsert_update_def Let_def)
    qed (auto simp: upsert_update_def Let_def intro: same_identity_keeps)
  qed
  have ins: "moves K d (snd (case insert_row r d of (Inl err, d1) \<Rightarrow> (Inl err, d) | (Inr key, d1) \<Rightarrow> (Inr (g key), d1)))"
    for K r and g :: "nat \<Rightarrow> session_started_upsert_result"
    using moves_insert [of K d r] by (auto split: prod.split sum.split)
  have both: "moves K d (snd (upsert_session_started_inner dunce e q source d))"
    if "\<And>r cli. ?sel r \<Longrightarrow> \<not> (lr_pty_session_id r \<noteq> None \<and> lr_pty_session_id r \<noteq> Some (ss_pty_session_id q)) \<Longrightarrow>
      moves K d (update_where (\<lambda>s. lr_id s = lr_id r) (?f (replaces_resume r (ss_resume_session_id q) source) cli) d)" for K
  proof (cases "newest_by_id (rows_where (\<lambda>r. lr_project_id r = ss_launch_id q) d)")
    case None
    then show ?thesis
      unfolding upsert_session_started_inner_def by (simp del: newest_by_id_None add: moves_statement ins)
  next
    case (Some r)
    consider (taken) "lr_pty_session_id r \<noteq> None \<and> lr_pty_session_id r \<noteq> Some (ss_pty_session_id q)"
      | (clash) "lr_cli_tool r \<noteq> ''none'' \<and> ss_cli_tool q \<noteq> ''none'' \<and> lr_cli_tool r \<noteq> ss_cli_tool q"
      | (free) "\<not> (lr_pty_session_id r \<noteq> None \<and> lr_pty_session_id r \<noteq> Some (ss_pty_session_id q))"
        "\<not> (lr_cli_tool r \<noteq> ''none'' \<and> ss_cli_tool q \<noteq> ''none'' \<and> lr_cli_tool r \<noteq> ss_cli_tool q)" by blast
    then show ?thesis
    proof cases
      case free
      show ?thesis
        unfolding upsert_session_started_inner_def Some option.case Let_def if_not_P [OF free(1)] if_not_P [OF free(2)]
        by (intro moves_statement) (simp only: snd_conv that [OF Some free(1)])
    qed (simp_all add: upsert_session_started_inner_def Some moves_statement)
  qed
  show "moves keeps_pty d (snd (upsert_session_started_inner dunce e q source d))"
    by (rule both) (rule pty)
  show "moves keeps_identity d (snd (upsert_session_started_inner dunce e q source d))" if "source \<noteq> None"
    by (rule both) (rule identity [OF _ that])
qed

lemma update_by_id_moves:
  "keeps_key f \<Longrightarrow> (\<And>r. K r (f r)) \<Longrightarrow> moves K d (snd (update_by_id e key f d))"
  unfolding update_by_id_def by (intro moves_statement) (simp add: moves_update)

lemma update_matching_moves:
  "keeps_key f \<Longrightarrow> (\<And>r. K r (f r)) \<Longrightarrow> moves K d (snd (update_matching e P f d))"
  by (auto simp: update_matching_def Let_def statement_def moves_update split: option.split)

lemma session_started_moves: "moves (\<lambda>r r1. True) d (snd (update_session_started dunce e launch pty rid cli runtime distro cwd d))"
  by (auto simp: update_session_started_def Let_def statement_def keeps_key_def split: option.split)

lemma remove_moves: "moves K d (snd (delete_by_id e key d))" "moves K d (snd (clear_launches e d))"
  using moves_filter [of K d "\<lambda>r. False"]
  by (auto simp: delete_by_id_def clear_launches_def rows_where_def [of "\<lambda>r. False"] intro!: moves_statement moves_filter)

lemmas writer_moves = add_moves bind_pty_moves bind_identity_moves upsert_moves remove_moves session_started_moves

lemma exec_moves:
  assumes "launch_db_ok d"
  shows "moves (\<lambda>r r1. True) d (launch_exec dunce e c d)"
    and "\<not> is_session_started c \<Longrightarrow> moves keeps_pty d (launch_exec dunce e c d)"
    and "\<not> unarbitrated c \<Longrightarrow> moves keeps_identity d (launch_exec dunce e c d)"
  using assms
  by (cases c; auto simp: update_session_id_def update_resume_source_def update_last_prompt_def keeps_key_def
        update_last_prompt_by_pty_session_id_def touch_by_session_id_def keeps_pty_def
        intro!: update_by_id_moves update_matching_moves add_moves remove_moves session_started_moves same_identity_keeps
        intro: upsert_moves moves_binding bind_pty_moves bind_identity_moves moves_mono [OF bind_pty_moves]
          moves_mono [OF bind_identity_moves] moves_mono [OF upsert_moves(1)])+

end
