(* ===== verification/Resume_Binding.thy ===== *)
theory Resume_Binding
  imports Launch_History
begin

text \<open>
  How a running agent gets the identity under which it can be resumed. Five kinds of background work
  write the launch table: the binding of a detected identity (\<open>resume_binding_service.rs\<close>), the
  creation of a session (\<open>commands/terminal_commands.rs\<close>), the hook that reports a start
  (\<open>handle_session_started\<close> of \<open>orchestrator_service.rs\<close>), the old backfill and the one-time rescue
  (\<open>launch_backfill_service.rs\<close>), and launches over HTTP (\<open>rest_launch_history.rs\<close>). Each is cut into
  pieces with one database call each; between two pieces of one task anything else may run.
\<close>

subsection \<open>Tasks\<close>

record resume_payload =
  rp_session_id :: string
  rp_resume_session_id :: string
  rp_source :: string
  rp_cli_tool :: "string option"
  rp_runtime_kind :: "string option"
  rp_launch_id :: "string option"
  rp_project_path :: "bytes option"
  rp_workspace_path :: "bytes option"
  rp_wsl_distro :: "string option"

text \<open>
  What a piece finds: the database call's environment, the crates \<open>dunce\<close> and \<open>uuid\<close>, the search of
  the tools' session files and of the last prompt, and the setting that enables the backfill.
\<close>

record hist_env =
  he_sql :: sql_env
  he_dunce :: "bytes \<Rightarrow> bytes"
  he_uuid_version :: "string \<Rightarrow> nat option"
  he_detected :: "string + string option"
  he_prompt :: "bytes option"
  he_backfill_enabled :: bool

definition BIND_MAX_ATTEMPTS :: nat where "BIND_MAX_ATTEMPTS = 24"
definition REBIND_MAX_ATTEMPTS :: nat where "REBIND_MAX_ATTEMPTS = 6"

definition expected_cli_for_uuid :: "(string \<Rightarrow> nat option) \<Rightarrow> string \<Rightarrow> string option" where
  "expected_cli_for_uuid uuid_version rid =
     (case uuid_version rid of
        Some v \<Rightarrow> if v = 7 then Some ''codex'' else if v = 4 then Some ''claude'' else None
      | None \<Rightarrow> None)"

definition derive_project_name :: "bytes \<Rightarrow> bytes" where
  "derive_project_name p =
     (let trimmed = rev (dropWhile is_separator (rev p));
          segment = rev (takeWhile (\<lambda>c. \<not> is_separator c) (rev trimmed))
      in if segment = [] then trimmed else segment)"

text \<open>The windows of \<open>bind_resume_id\<close>: the first (\<open>False\<close>) before the row is made up, the second after
  the launch turned out to belong to another terminal.\<close>

datatype bind_phase =
    Lookup bool nat
  | Store bool nat
  | Fallback
  | Announce "nat option" string string
  | BindDone

datatype create_phase = TryBind nat | LastBind | AddRow | CreateDone

datatype hook_phase = HookWrite | HookMark nat | HookDone

datatype fill_phase =
    Probe nat
  | Scan nat
  | FillPrompt session_started_upsert_result
  | FillDone

datatype rescue_phase =
    RescueList
  | RescueScan "launch_record list"
  | RescueMark launch_record string "launch_record list"
  | RescueDone

datatype rest_phase = RestAdd | RestBind | RestDone

datatype hist_task =
    Binding resume_payload bind_phase
  | Creating string new_launch create_phase
  | Reporting session_started hook_phase
  | Filling session_started fill_phase
  | Rescuing rescue_phase
  | Resting string new_launch "string option" rest_phase

datatype history_event =
    HistoryUpdated string "nat option" "string option" string "string option"
  | CursorChat string string
  | Degraded string
  | HookAnswer nat

subsection \<open>Binding a detected identity\<close>

definition cli_rejects :: "resume_payload \<Rightarrow> launch_record \<Rightarrow> bool" where
  "cli_rejects p r =
     (case rp_cli_tool p of Some cli \<Rightarrow> lr_cli_tool r \<noteq> ''none'' \<and> lr_cli_tool r \<noteq> cli | None \<Rightarrow> False)"

definition window_end :: "resume_payload \<Rightarrow> bool \<Rightarrow> bind_phase" where
  "window_end p second =
     (if second then Announce None (rp_resume_session_id p) (rp_source p) else Fallback)"

definition max_attempts :: "bool \<Rightarrow> nat" where
  "max_attempts second = (if second then REBIND_MAX_ATTEMPTS else BIND_MAX_ATTEMPTS)"

definition next_lookup :: "resume_payload \<Rightarrow> bool \<Rightarrow> nat \<Rightarrow> bind_phase" where
  "next_lookup p second n =
     (if Suc n < max_attempts second then Lookup second (Suc n) else window_end p second)"

text \<open>\<open>bind_by_pty_window\<close>: one turn looks the row up and checks its tool, then stores the identity.\<close>

definition look_up :: "hist_env \<Rightarrow> resume_payload \<Rightarrow> bool \<Rightarrow> nat \<Rightarrow> launch_db \<Rightarrow> bind_phase" where
  "look_up e p second n d =
     (case find_by_pty_session_id (he_sql e) (rp_session_id p) d of
        Inr (Some r) \<Rightarrow> if cli_rejects p r then BindDone else Store second n
      | _ \<Rightarrow> next_lookup p second n)"

definition announce_selected :: "resume_payload \<Rightarrow> session_started_upsert_result \<Rightarrow> bind_phase" where
  "announce_selected p u =
     Announce (Some (ur_record_id u)) (ur_resume_session_id u)
       (case ur_resume_source u of Some s \<Rightarrow> s | None \<Rightarrow> rp_source p)"

definition store :: "hist_env \<Rightarrow> resume_payload \<Rightarrow> bool \<Rightarrow> nat \<Rightarrow> launch_db \<Rightarrow> bind_phase \<times> launch_db" where
  "store e p second n d =
     (case update_resume_session_with_source_by_pty (he_sql e) (rp_session_id p) (rp_resume_session_id p) (rp_source p) d of
        (Inr (Some u), d1) \<Rightarrow> (announce_selected p u, d1)
      | (_, d1) \<Rightarrow> (next_lookup p second n, d1))"

definition started_of :: "hist_env \<Rightarrow> resume_payload \<Rightarrow> string \<Rightarrow> bytes \<Rightarrow> session_started" where
  "started_of e p launch project =
     \<lparr>ss_launch_id = launch, ss_pty_session_id = rp_session_id p, ss_resume_session_id = rp_resume_session_id p,
      ss_cli_tool =
        (case coalesce (rp_cli_tool p) (expected_cli_for_uuid (he_uuid_version e) (rp_resume_session_id p)) of
           Some cli \<Rightarrow> cli | None \<Rightarrow> ''none''),
      ss_runtime_kind = (case rp_runtime_kind p of Some k \<Rightarrow> k | None \<Rightarrow> ''local''),
      ss_wsl_distro = rp_wsl_distro p, ss_launch_cwd = None, ss_project_path = project,
      ss_project_name = derive_project_name project, ss_workspace_path = rp_workspace_path p\<rparr>"

text \<open>\<open>upsert_missing_row\<close>: a message that says the launch is taken opens the second window.\<close>

definition fallback :: "hist_env \<Rightarrow> resume_payload \<Rightarrow> launch_db \<Rightarrow> bind_phase \<times> launch_db" where
  "fallback e p d =
     (case (rp_launch_id p, rp_project_path p) of
        (Some launch, Some project) \<Rightarrow>
          (case upsert_session_started_inner (he_dunce e) (he_sql e) (started_of e p launch project) (Some (rp_source p)) d of
             (Inr u, d1) \<Rightarrow> (announce_selected p u, d1)
           | (Inl err, d1) \<Rightarrow>
               (if contains already_bound err then Lookup True 0
                else Announce None (rp_resume_session_id p) (rp_source p), d1))
      | _ \<Rightarrow> (Announce None (rp_resume_session_id p) (rp_source p), d))"

definition announcements :: "resume_payload \<Rightarrow> nat option \<Rightarrow> string \<Rightarrow> string \<Rightarrow> history_event list" where
  "announcements p key rid source =
     (case rp_launch_id p of
        Some launch \<Rightarrow> if rp_cli_tool p = Some ''cursor'' then [CursorChat launch rid] else []
      | None \<Rightarrow> [])
     @ [HistoryUpdated ''resume-binding'' key (Some (rp_session_id p)) rid (Some source)]"

fun bind_piece ::
  "hist_env \<Rightarrow> resume_payload \<Rightarrow> bind_phase \<Rightarrow> launch_db \<Rightarrow> bind_phase \<times> launch_db \<times> history_event list" where
  "bind_piece e p (Lookup second n) d = (look_up e p second n d, d, [])"
| "bind_piece e p (Store second n) d = (case store e p second n d of (ph, d1) \<Rightarrow> (ph, d1, []))"
| "bind_piece e p Fallback d = (case fallback e p d of (ph, d1) \<Rightarrow> (ph, d1, []))"
| "bind_piece e p (Announce key rid source) d = (BindDone, d, announcements p key rid source)"
| "bind_piece e p BindDone d = (BindDone, d, [])"

subsection \<open>The creation of a session\<close>

text \<open>Ten attempts to find the row that the window adds, then \<open>bind_or_add_created_session\<close>.\<close>

definition bind_created :: "hist_env \<Rightarrow> string \<Rightarrow> new_launch \<Rightarrow> launch_db \<Rightarrow> (string + nat option) \<times> launch_db" where
  "bind_created e pty n =
     bind_pty_session (he_sql e) (nl_project_id n) pty (nl_cli_tool n) (nl_model_id n) (nl_provider_id n)"

fun create_piece :: "hist_env \<Rightarrow> string \<Rightarrow> new_launch \<Rightarrow> create_phase \<Rightarrow> launch_db \<Rightarrow> create_phase \<times> launch_db" where
  "create_piece e pty n (TryBind k) d =
     (case bind_created e pty n d of
        (Inr (Some key), d1) \<Rightarrow> (CreateDone, d1)
      | (Inr None, d1) \<Rightarrow> (if k < 9 then TryBind (Suc k) else LastBind, d1)
      | (Inl err, d1) \<Rightarrow> (LastBind, d1))"
| "create_piece e pty n LastBind d =
     (case bind_created e pty n d of
        (Inr None, d1) \<Rightarrow> (AddRow, d1)
      | (_, d1) \<Rightarrow> (CreateDone, d1))"
| "create_piece e pty n AddRow d =
     (CreateDone, snd (add_launch (he_dunce e) (he_sql e) (Some pty) n d))"
| "create_piece e pty n CreateDone d = (CreateDone, d)"

subsection \<open>Hook, backfill, rescue and HTTP launches\<close>

text \<open>A report that passed the token and the rate limit; the answer is the status of the response.\<close>

fun hook_piece ::
  "hist_env \<Rightarrow> session_started \<Rightarrow> hook_phase \<Rightarrow> launch_db \<Rightarrow> hook_phase \<times> launch_db \<times> history_event list" where
  "hook_piece e q HookWrite d =
     (case update_session_started (he_dunce e) (he_sql e) (ss_launch_id q) (ss_pty_session_id q)
             (ss_resume_session_id q) (ss_cli_tool q) (ss_runtime_kind q) (ss_wsl_distro q) (ss_launch_cwd q) d of
        (Inr (Some key), d1) \<Rightarrow> (HookMark key, d1, [])
      | (Inr None, d1) \<Rightarrow> (HookDone, d1, [HookAnswer 404])
      | (Inl err, d1) \<Rightarrow> (HookDone, d1, [HookAnswer 500]))"
| "hook_piece e q (HookMark key) d =
     (HookDone, snd (update_resume_source (he_sql e) key ''hook'' d),
      [HistoryUpdated ''session-started'' (Some key) (Some (ss_pty_session_id q)) (ss_resume_session_id q) (Some ''hook''), HookAnswer 200])"
| "hook_piece e q HookDone d = (HookDone, d, [])"

text \<open>\<open>detect_resume_session\<close> searches the files of Claude and Codex only.\<close>

definition detect_resume_session :: "hist_env \<Rightarrow> string \<Rightarrow> string + string option" where
  "detect_resume_session e cli = (if cli = ''claude'' \<or> cli = ''codex'' then he_detected e else Inr None)"

definition next_probe :: "nat \<Rightarrow> fill_phase" where
  "next_probe n = (if Suc n < 15 then Probe (Suc n) else FillDone)"

definition found_by_backfill :: "session_started \<Rightarrow> string \<Rightarrow> session_started" where
  "found_by_backfill q rid =
     q\<lparr>ss_resume_session_id := rid, ss_launch_cwd := ss_workspace_path q,
       ss_project_name := derive_project_name (ss_project_path q)\<rparr>"

fun fill_piece ::
  "hist_env \<Rightarrow> session_started \<Rightarrow> fill_phase \<Rightarrow> launch_db \<Rightarrow> fill_phase \<times> launch_db \<times> history_event list" where
  "fill_piece e q (Probe n) d =
     (case find_by_launch_id (he_sql e) (ss_launch_id q) d of
        Inr (Some r) \<Rightarrow> (if lr_resume_session_id r \<noteq> None then FillDone else Scan n, d, [])
      | _ \<Rightarrow> (Scan n, d, []))"
| "fill_piece e q (Scan n) d =
     (case detect_resume_session e (ss_cli_tool q) of
        Inr (Some rid) \<Rightarrow>
          (case upsert_session_started_inner (he_dunce e) (he_sql e) (found_by_backfill q rid) (Some ''backfill'') d of
             (Inr u, d1) \<Rightarrow> (FillPrompt u, d1, [])
           | (Inl err, d1) \<Rightarrow> (FillDone, d1, []))
      | _ \<Rightarrow> (next_probe n, d, []))"
| "fill_piece e q (FillPrompt u) d =
     (FillDone,
      (case he_prompt e of
         Some prompt \<Rightarrow> snd (update_last_prompt_by_pty_session_id (he_sql e) (ss_pty_session_id q) prompt d)
       | None \<Rightarrow> d),
      [HistoryUpdated ''launch-backfill'' (Some (ur_record_id u)) (Some (ss_pty_session_id q))
         (ur_resume_session_id u) (ur_resume_source u)])"
| "fill_piece e q FillDone d = (FillDone, d, [])"

text \<open>\<open>rescue_null_codex_records\<close>: the list is read once; the search of the files takes its time.\<close>

fun next_null_codex :: "launch_record list \<Rightarrow> rescue_phase" where
  "next_null_codex [] = RescueDone"
| "next_null_codex (r # rs) =
     (if lr_cli_tool r \<noteq> ''codex'' \<or> lr_resume_session_id r \<noteq> None then next_null_codex rs else RescueScan (r # rs))"

fun rescue_piece :: "hist_env \<Rightarrow> rescue_phase \<Rightarrow> launch_db \<Rightarrow> rescue_phase \<times> launch_db \<times> history_event list" where
  "rescue_piece e RescueList d =
     (case list_launches (he_sql e) 2000 d of
        Inr rs \<Rightarrow> (next_null_codex rs, d, [])
      | Inl err \<Rightarrow> (RescueDone, d, []))"
| "rescue_piece e (RescueScan []) d = (RescueDone, d, [])"
| "rescue_piece e (RescueScan (r # rs)) d =
     (case detect_resume_session e ''codex'' of
        Inr (Some rid) \<Rightarrow>
          (case update_session_id (he_sql e) (lr_id r) rid d of
             (Inr _, d1) \<Rightarrow> (RescueMark r rid rs, d1, [])
           | (Inl err, d1) \<Rightarrow> (next_null_codex rs, d1, []))
      | _ \<Rightarrow> (next_null_codex rs, d, []))"
| "rescue_piece e (RescueMark r rid rs) d =
     (next_null_codex rs, snd (update_resume_source (he_sql e) (lr_id r) ''rescue'' d),
      [HistoryUpdated ''null-rescue'' (Some (lr_id r)) (lr_pty_session_id r) rid (Some ''rescue'')])"
| "rescue_piece e RescueDone d = (RescueDone, d, [])"

text \<open>\<open>record_rest_launch\<close>: the row, then the identity of a resumed session, if the caller gave one.\<close>

fun rest_piece ::
  "hist_env \<Rightarrow> string \<Rightarrow> new_launch \<Rightarrow> string option \<Rightarrow> rest_phase \<Rightarrow> launch_db \<Rightarrow> rest_phase \<times> launch_db \<times> history_event list" where
  "rest_piece e pty n rid RestAdd d =
     (case add_launch (he_dunce e) (he_sql e) (Some pty) n d of
        (Inr key, d1) \<Rightarrow> (RestBind, d1, [])
      | (Inl err, d1) \<Rightarrow> (RestBind, d1, [Degraded err]))"
| "rest_piece e pty n rid RestBind d =
     (case rid of
        Some x \<Rightarrow>
          (if trim x = [] then (RestDone, d, [])
           else (RestDone, snd (update_resume_session_with_source_by_pty (he_sql e) pty (trim x) ''issued'' d), []))
      | None \<Rightarrow> (RestDone, d, []))"
| "rest_piece e pty n rid RestDone d = (RestDone, d, [])"

subsection \<open>The world\<close>

record hist_world =
  hw_db :: launch_db
  hw_tasks :: "hist_task list"
  hw_told :: "history_event list"

definition hist_world_new :: hist_world where
  "hist_world_new = \<lparr>hw_db = launch_db_new, hw_tasks = [], hw_told = []\<rparr>"

fun task_piece :: "hist_env \<Rightarrow> hist_task \<Rightarrow> launch_db \<Rightarrow> hist_task \<times> launch_db \<times> history_event list" where
  "task_piece e (Binding p ph) d = (case bind_piece e p ph d of (ph1, x) \<Rightarrow> (Binding p ph1, x))"
| "task_piece e (Creating pty n ph) d = (case create_piece e pty n ph d of (ph1, d1) \<Rightarrow> (Creating pty n ph1, d1, []))"
| "task_piece e (Reporting q ph) d = (case hook_piece e q ph d of (ph1, x) \<Rightarrow> (Reporting q ph1, x))"
| "task_piece e (Filling q ph) d = (case fill_piece e q ph d of (ph1, x) \<Rightarrow> (Filling q ph1, x))"
| "task_piece e (Rescuing ph) d = (case rescue_piece e ph d of (ph1, x) \<Rightarrow> (Rescuing ph1, x))"
| "task_piece e (Resting pty n rid ph) d = (case rest_piece e pty n rid ph d of (ph1, x) \<Rightarrow> (Resting pty n rid ph1, x))"

text \<open>The calls that start the tasks; a backfill or rescue that is disabled ends at once.\<close>

datatype hist_call =
    Direct launch_op
  | Detected resume_payload
  | Created string new_launch
  | HookStarted session_started
  | StartBackfill session_started
  | StartRescue
  | RestLaunched string new_launch "string option"
  | Piece nat

fun new_task :: "hist_env \<Rightarrow> hist_call \<Rightarrow> hist_task option" where
  "new_task e (Detected p) = Some (Binding p (Lookup False 0))"
| "new_task e (Created pty n) = Some (Creating pty n (TryBind 0))"
| "new_task e (HookStarted q) = Some (Reporting q HookWrite)"
| "new_task e (StartBackfill q) = Some (Filling q (if he_backfill_enabled e then Probe 0 else FillDone))"
| "new_task e StartRescue = Some (Rescuing (if he_backfill_enabled e then RescueList else RescueDone))"
| "new_task e (RestLaunched pty n rid) = Some (Resting pty n rid RestAdd)"
| "new_task e c = None"

definition run_task :: "hist_env \<Rightarrow> nat \<Rightarrow> hist_world \<Rightarrow> hist_world" where
  "run_task e i w =
     (if i < length (hw_tasks w)
      then case task_piece e (hw_tasks w ! i) (hw_db w) of
             (t, d, evs) \<Rightarrow> \<lparr>hw_db = d, hw_tasks = (hw_tasks w)[i := t], hw_told = hw_told w @ evs\<rparr>
      else w)"

fun hist_exec :: "hist_env \<times> hist_call \<Rightarrow> hist_world \<Rightarrow> hist_world" where
  "hist_exec (e, Direct c) w = w\<lparr>hw_db := launch_exec (he_dunce e) (he_sql e) c (hw_db w)\<rparr>"
| "hist_exec (e, Piece i) w = run_task e i w"
| "hist_exec (e, c) w = (case new_task e c of Some t \<Rightarrow> w\<lparr>hw_tasks := hw_tasks w @ [t]\<rparr> | None \<Rightarrow> w)"

definition hist_run :: "(hist_env \<times> hist_call) list \<Rightarrow> hist_world \<Rightarrow> hist_world" where
  "hist_run cs w = fold hist_exec cs w"

lemma hist_run_simps [simp]:
  "hist_run [] w = w" "hist_run (c # cs) w = hist_run cs (hist_exec c w)"
  "hist_run (cs @ ds) w = hist_run ds (hist_run cs w)"
  by (simp_all add: hist_run_def)


subsection \<open>A run of pieces is a run of writers\<close>

text \<open>The database call of the next piece of a task.\<close>

fun piece_op :: "hist_env \<Rightarrow> hist_task \<Rightarrow> launch_op option" where
  "piece_op e (Binding p (Store second n)) = Some (BindIdentity (rp_session_id p) (rp_resume_session_id p) (rp_source p))"
| "piece_op e (Binding p Fallback) =
     (case (rp_launch_id p, rp_project_path p) of
        (Some launch, Some project) \<Rightarrow> Some (UpsertStarted (started_of e p launch project) (Some (rp_source p)))
      | _ \<Rightarrow> None)"
| "piece_op e (Creating pty n (TryBind k)) =
     Some (BindPty (nl_project_id n) pty (nl_cli_tool n) (nl_model_id n) (nl_provider_id n))"
| "piece_op e (Creating pty n LastBind) =
     Some (BindPty (nl_project_id n) pty (nl_cli_tool n) (nl_model_id n) (nl_provider_id n))"
| "piece_op e (Creating pty n AddRow) = Some (AddLaunch (Some pty) n)"
| "piece_op e (Reporting q HookWrite) = Some (SessionStarted q)"
| "piece_op e (Reporting q (HookMark key)) = Some (SetResumeSource key ''hook'')"
| "piece_op e (Filling q (Scan n)) =
     (case detect_resume_session e (ss_cli_tool q) of
        Inr (Some rid) \<Rightarrow> Some (UpsertStarted (found_by_backfill q rid) (Some ''backfill''))
      | _ \<Rightarrow> None)"
| "piece_op e (Filling q (FillPrompt u)) = map_option (SetPromptByPty (ss_pty_session_id q)) (he_prompt e)"
| "piece_op e (Rescuing (RescueScan (r # rs))) =
     (case detect_resume_session e ''codex'' of
        Inr (Some rid) \<Rightarrow> Some (SetSessionId (lr_id r) rid)
      | _ \<Rightarrow> None)"
| "piece_op e (Rescuing (RescueMark r rid rs)) = Some (SetResumeSource (lr_id r) ''rescue'')"
| "piece_op e (Resting pty n rid RestAdd) = Some (AddLaunch (Some pty) n)"
| "piece_op e (Resting pty n rid RestBind) =
     (case rid of
        Some x \<Rightarrow> if trim x = [] then None else Some (BindIdentity pty (trim x) ''issued'')
      | None \<Rightarrow> None)"
| "piece_op e t = None"

definition exec_op :: "hist_env \<Rightarrow> launch_op option \<Rightarrow> launch_db \<Rightarrow> launch_db" where
  "exec_op e c d = (case c of Some c \<Rightarrow> launch_exec (he_dunce e) (he_sql e) c d | None \<Rightarrow> d)"

lemma task_piece_db: "fst (snd (task_piece e t d)) = exec_op e (piece_op e t) d"
  by (induction e t rule: piece_op.induct)
    (auto simp: exec_op_def store_def fallback_def bind_created_def split: prod.split sum.split option.split list.split)

fun call_op :: "hist_env \<times> hist_call \<Rightarrow> hist_world \<Rightarrow> launch_op option" where
  "call_op (e, Direct c) w = Some c"
| "call_op (e, Piece i) w = (if i < length (hw_tasks w) then piece_op e (hw_tasks w ! i) else None)"
| "call_op (e, c) w = None"

lemma hist_exec_db: "hw_db (hist_exec (e, c) w) = exec_op e (call_op (e, c) w) (hw_db w)"
  by (cases c) (auto simp: run_task_def exec_op_def [of e None] exec_op_def [of e "Some _"]
      task_piece_db [symmetric] split: prod.split option.split)

definition call_writes :: "(launch_op \<Rightarrow> bool) \<Rightarrow> hist_env \<times> hist_call \<Rightarrow> hist_world \<Rightarrow> bool" where
  "call_writes P c w = (case call_op c w of Some x \<Rightarrow> P x | None \<Rightarrow> True)"

fun run_writes :: "(launch_op \<Rightarrow> bool) \<Rightarrow> (hist_env \<times> hist_call) list \<Rightarrow> hist_world \<Rightarrow> bool" where
  "run_writes P [] w = True"
| "run_writes P (c # cs) w = (call_writes P c w \<and> run_writes P cs (hist_exec c w))"

lemma exec_op_ok: "launch_db_ok d \<Longrightarrow> launch_db_ok (exec_op e c d)"
  by (auto simp: exec_op_def intro: moves_ok [OF exec_moves(1)] split: option.split)

lemma hist_exec_ok: "launch_db_ok (hw_db w) \<Longrightarrow> launch_db_ok (hw_db (hist_exec c w))"
  by (cases c) (simp add: hist_exec_db exec_op_ok del: hist_exec.simps)

lemma hist_run_ok: "launch_db_ok (hw_db w) \<Longrightarrow> launch_db_ok (hw_db (hist_run cs w))"
  by (induction cs arbitrary: w) (simp_all add: hist_exec_ok)

lemma hist_exec_evolves:
  assumes "\<And>c d dunce env. P c \<Longrightarrow> launch_db_ok d \<Longrightarrow> moves K d (launch_exec dunce env c d)"
    and "reflp K" and "launch_db_ok (hw_db w)" and "call_writes P c w"
  shows "evolves K (hw_db w) (hw_db (hist_exec c w))"
proof -
  obtain e x where c: "c = (e, x)" by (cases c)
  show ?thesis
    using assms moves_evolves [OF assms(1) assms(2,3)]
    by (cases "call_op c w") (auto simp: c hist_exec_db exec_op_def call_writes_def simp del: hist_exec.simps)
qed

lemma hist_run_evolves:
  assumes "\<And>c d dunce env. P c \<Longrightarrow> launch_db_ok d \<Longrightarrow> moves K d (launch_exec dunce env c d)"
    and "reflp K" "transp K" and "launch_db_ok (hw_db w)" and "run_writes P cs w"
  shows "evolves K (hw_db w) (hw_db (hist_run cs w))"
  using assms(4,5)
proof (induction cs arbitrary: w)
  case Nil
  then show ?case using assms(2) by simp
next
  case (Cons c cs)
  have "evolves K (hw_db w) (hw_db (hist_exec c w))"
    using hist_exec_evolves [OF assms(1,2)] Cons.prems by simp
  moreover have "evolves K (hw_db (hist_exec c w)) (hw_db (hist_run cs (hist_exec c w)))"
    using Cons hist_exec_ok by simp
  ultimately show ?case using evolves_trans [OF assms(3)] Cons.prems(1) by simp
qed

subsection \<open>Who may write\<close>

text \<open>A hook's report overwrites whatever it finds; the rescue writes without looking.\<close>

fun hook_task :: "hist_task \<Rightarrow> bool" where
  "hook_task (Reporting q ph) = True"
| "hook_task t = False"

fun rescue_task :: "hist_task \<Rightarrow> bool" where
  "rescue_task (Rescuing ph) = True"
| "rescue_task t = False"

fun hook_call :: "hist_call \<Rightarrow> bool" where
  "hook_call (HookStarted q) = True"
| "hook_call (Direct c) = is_session_started c"
| "hook_call c = False"

fun unarbitrated_call :: "hist_call \<Rightarrow> bool" where
  "unarbitrated_call (HookStarted q) = True"
| "unarbitrated_call StartRescue = True"
| "unarbitrated_call (Direct c) = unarbitrated c"
| "unarbitrated_call c = False"

lemma piece_writer:
  "piece_op e t = Some c \<Longrightarrow> \<not> hook_task t \<Longrightarrow> \<not> is_session_started c"
  "piece_op e t = Some c \<Longrightarrow> \<not> hook_task t \<Longrightarrow> \<not> rescue_task t \<Longrightarrow> \<not> unarbitrated c"
  by (induction e t rule: piece_op.induct) (auto split: option.splits sum.splits if_splits list.splits)

lemma task_piece_kind:
  "hook_task (fst (task_piece e t d)) = hook_task t" "rescue_task (fst (task_piece e t d)) = rescue_task t"
  by (cases t; auto split: prod.split)+

lemma hist_exec_tasks:
  assumes "\<And>e t d. P (fst (task_piece e t d)) = P t" and "list_all P (hw_tasks w)"
    and "new_task e c = None \<or> P (the (new_task e c))"
  shows "list_all P (hw_tasks (hist_exec (e, c) w))"
proof (cases c)
  case (Piece i)
  show ?thesis
  proof (cases "i < length (hw_tasks w)")
    case True
    obtain t d evs where piece: "task_piece e (hw_tasks w ! i) (hw_db w) = (t, d, evs)" by (metis prod_cases3)
    then have "P t" using assms(1) [of e "hw_tasks w ! i" "hw_db w"] assms(2) True by (simp add: list_all_length)
    then show ?thesis using Piece True piece assms(2)
      by (auto simp: run_task_def list_all_length nth_list_update)
  qed (use Piece assms(2) in \<open>simp add: run_task_def\<close>)
qed (use assms(2,3) in \<open>auto split: option.splits\<close>)

lemma writes_in_run:
  assumes "\<And>e t d. T (fst (task_piece e t d)) = T t"
    and "\<And>e t c. T t \<Longrightarrow> piece_op e t = Some c \<Longrightarrow> P c"
    and "\<And>e c t. Q c \<Longrightarrow> new_task e c = Some t \<Longrightarrow> T t" and "\<And>c. Q (Direct c) \<Longrightarrow> P c"
  shows "list_all T (hw_tasks w) \<Longrightarrow> list_all (\<lambda>c. Q (snd c)) cs \<Longrightarrow> run_writes P cs w"
proof (induction cs arbitrary: w)
  case (Cons c cs)
  obtain e x where c: "c = (e, x)" by (cases c)
  then have "Q x" using Cons.prems(2) by simp
  have now: "call_writes P c w"
    using Cons.prems(1) assms(2,4) \<open>Q x\<close>
    by (cases x) (auto simp: c call_writes_def list_all_length split: option.split)
  have "list_all T (hw_tasks (hist_exec c w))"
    unfolding c
  proof (rule hist_exec_tasks [OF assms(1) Cons.prems(1)])
    show "new_task e x = None \<or> T (the (new_task e x))"
      using assms(3) [OF \<open>Q x\<close>] by (cases "new_task e x") auto
  qed
  then show ?case using now Cons by simp
qed simp

lemma run_without_hooks:
  assumes "list_all (\<lambda>t. \<not> hook_task t) (hw_tasks w)" and "list_all (\<lambda>c. \<not> hook_call (snd c)) cs"
  shows "run_writes (\<lambda>c. \<not> is_session_started c) cs w"
proof (rule writes_in_run [OF _ _ _ _ assms])
  fix e c t assume "\<not> hook_call c" "new_task e c = Some t"
  then show "\<not> hook_task t" by (cases c) auto
qed (auto simp: task_piece_kind dest: piece_writer)

lemma run_arbitrated:
  assumes "list_all (\<lambda>t. \<not> hook_task t \<and> \<not> rescue_task t) (hw_tasks w)"
    and "list_all (\<lambda>c. \<not> unarbitrated_call (snd c)) cs"
  shows "run_writes (\<lambda>c. \<not> unarbitrated c) cs w"
proof (rule writes_in_run [OF _ _ _ _ assms])
  fix e c t assume "\<not> unarbitrated_call c" "new_task e c = Some t"
  then show "\<not> hook_task t \<and> \<not> rescue_task t" by (cases c) auto
qed (auto simp: task_piece_kind dest: piece_writer)

text \<open>At every moment, whatever windows, agents, hooks and background tasks have done in whatever order
  and with whatever failures of the database, there is at most one row per launch and per key.\<close>

theorem launches_have_one_row:
  "launch_db_ok (hw_db (hist_run cs hist_world_new))"
  by (rule hist_run_ok) (simp add: hist_world_new_def launch_db_new_def launch_db_ok_def)

text \<open>C14: As long as no hook reports, a launch keeps the terminal it was bound to: whatever else is
  written, in any interleaving, the row of the launch names that terminal until it is deleted.\<close>

theorem launch_keeps_terminal:
  assumes "launch_db_ok (hw_db w)" and "row_at key (hw_db w) = Some r" and "lr_pty_session_id r = Some pty"
    and "list_all (\<lambda>t. \<not> hook_task t) (hw_tasks w)" and "list_all (\<lambda>c. \<not> hook_call (snd c)) cs"
  shows "case row_at key (hw_db (hist_run cs w)) of Some r1 \<Rightarrow> lr_pty_session_id r1 = Some pty | None \<Rightarrow> True"
proof -
  have "evolves keeps_pty (hw_db w) (hw_db (hist_run cs w))"
    using exec_moves(2) by (intro hist_run_evolves [OF _ keeps_pty_order assms(1) run_without_hooks [OF assms(4,5)]])
  then show ?thesis using assms(2,3) evolvesD(2) by (fastforce simp: keeps_pty_def split: option.split)
qed

text \<open>C12: As long as only writers that arbitrate write, an identity is never lost to one that is trusted
  less: the row of the launch has an identity whose source ranks at least as high, until it is deleted.\<close>

theorem identity_never_downgraded:
  assumes "launch_db_ok (hw_db w)" and "row_at key (hw_db w) = Some r"
    and "lr_resume_session_id r = Some rid" and "lr_resume_source r = Some source"
    and "list_all (\<lambda>t. \<not> hook_task t \<and> \<not> rescue_task t) (hw_tasks w)"
    and "list_all (\<lambda>c. \<not> unarbitrated_call (snd c)) cs"
  shows "case row_at key (hw_db (hist_run cs w)) of
      Some r1 \<Rightarrow> \<exists>rid1 source1. lr_resume_session_id r1 = Some rid1 \<and> lr_resume_source r1 = Some source1
        \<and> (rid1 = rid \<and> source1 = source \<or> source_priority source \<le> source_priority source1)
    | None \<Rightarrow> True"
proof -
  have "evolves keeps_identity (hw_db w) (hw_db (hist_run cs w))"
    using exec_moves(3) by (intro hist_run_evolves [OF _ keeps_identity_order assms(1) run_arbitrated [OF assms(5,6)]])
  then have "row_at key (hw_db (hist_run cs w)) = Some r1 \<Longrightarrow> keeps_identity r r1" for r1
    using evolvesD(2) assms(2) by blast
  then show ?thesis using assms(3,4) by (auto simp: keeps_identity_def split: option.splits)
qed


subsection \<open>A binding ends\<close>

text \<open>The number of pieces that a binding can still take, with both windows.\<close>

fun bind_left :: "bind_phase \<Rightarrow> nat" where
  "bind_left (Lookup second n) = 2 * (max_attempts second - n) + (if second then 1 else 2 * REBIND_MAX_ATTEMPTS + 2)"
| "bind_left (Store second n) = 2 * (max_attempts second - n) + (if second then 0 else 2 * REBIND_MAX_ATTEMPTS + 1)"
| "bind_left Fallback = 2 * REBIND_MAX_ATTEMPTS + 2"
| "bind_left (Announce key rid source) = 1"
| "bind_left BindDone = 0"

fun bind_phase_ok :: "bind_phase \<Rightarrow> bool" where
  "bind_phase_ok (Lookup second n) = (n < max_attempts second)"
| "bind_phase_ok (Store second n) = (n < max_attempts second)"
| "bind_phase_ok ph = True"

lemmas attempts = max_attempts_def BIND_MAX_ATTEMPTS_def REBIND_MAX_ATTEMPTS_def

lemma next_lookup_left:
  assumes "n < max_attempts second"
  shows "bind_left (next_lookup p second n) < bind_left (Store second n)" "bind_phase_ok (next_lookup p second n)"
  using assms by (auto simp: next_lookup_def window_end_def attempts split: if_splits)


lemma bind_piece_left:
  assumes "bind_phase_ok ph"
  shows "bind_left (fst (bind_piece e p ph d)) \<le> bind_left ph - 1" "bind_phase_ok (fst (bind_piece e p ph d))"
proof -
  have "bind_left (fst (bind_piece e p ph d)) \<le> bind_left ph - 1 \<and> bind_phase_ok (fst (bind_piece e p ph d))"
  proof (cases ph)
    case (Lookup second n)
    then show ?thesis using assms next_lookup_left [of n second p]
      by (auto simp: look_up_def split: sum.split option.split)
  next
    case (Store second n)
    then have left: "bind_left (next_lookup p second n) \<le> bind_left (Store second n) - 1"
      using assms next_lookup_left(1) [of n second p] by simp
    have "bind_left (Announce k r s) \<le> bind_left (Store second n) - 1" for k r s
      using assms Store by (auto simp: attempts split: if_splits)
    then show ?thesis using Store assms left next_lookup_left(2) [of n second p]
      by (auto simp: store_def announce_selected_def split: prod.split sum.split option.split)
  next
    case Fallback
    then show ?thesis
      by (auto simp: fallback_def announce_selected_def attempts split: prod.split sum.split option.split)
  qed simp_all
  then show "bind_left (fst (bind_piece e p ph d)) \<le> bind_left ph - 1" "bind_phase_ok (fst (bind_piece e p ph d))"
    by simp_all
qed

definition task_at :: "nat \<Rightarrow> hist_world \<Rightarrow> hist_task option" where
  "task_at i w = (if i < length (hw_tasks w) then Some (hw_tasks w ! i) else None)"

definition is_piece :: "nat \<Rightarrow> hist_env \<times> hist_call \<Rightarrow> bool" where
  "is_piece i c \<longleftrightarrow> snd c = Piece i"

lemma task_at_exec:
  assumes "task_at i w = Some t"
  shows "task_at i (hist_exec c w) = Some (if is_piece i c then fst (task_piece (fst c) t (hw_db w)) else t)"
proof -
  obtain e x where c: "c = (e, x)" by (cases c)
  show ?thesis
  proof (cases x)
    case (Piece j)
    then show ?thesis using assms
      by (auto simp: c is_piece_def task_at_def run_task_def nth_list_update split: prod.split if_splits)
  qed (use assms in \<open>auto simp: c is_piece_def task_at_def nth_append split: if_splits option.split\<close>)
qed

lemma binding_done:
  assumes "task_at i w = Some (Binding p (Lookup False 0))"
    and "62 \<le> length (filter (is_piece i) cs)"
  shows "task_at i (hist_run cs w) = Some (Binding p BindDone)"
proof -
  have "\<exists>ph. task_at i (hist_run cs w) = Some (Binding p ph) \<and> bind_phase_ok ph
      \<and> bind_left ph \<le> bind_left ph0 - length (filter (is_piece i) cs)"
    if "task_at i w = Some (Binding p ph0)" "bind_phase_ok ph0" for ph0
    using that
  proof (induction cs arbitrary: w ph0)
    case (Cons c cs)
    show ?case
    proof (cases "is_piece i c")
      case False
      then show ?thesis using Cons.IH [of "hist_exec c w" ph0] Cons.prems task_at_exec [OF Cons.prems(1)] by simp
    next
      case True
      let ?ph = "fst (bind_piece (fst c) p ph0 (hw_db w))"
      have "task_at i (hist_exec c w) = Some (Binding p ?ph)"
        using task_at_exec [OF Cons.prems(1), of c] True by (simp split: prod.split)
      then show ?thesis
        using Cons.IH [of "hist_exec c w" ?ph] bind_piece_left [OF Cons.prems(2), of "fst c" p "hw_db w"] True by fastforce
    qed
  qed simp
  from this [OF assms(1)] obtain ph
    where ph: "task_at i (hist_run cs w) = Some (Binding p ph)" "bind_phase_ok ph" "bind_left ph = 0"
    using assms(2) by (auto simp: attempts)
  then have "ph = BindDone" by (cases ph) (auto split: if_splits)
  then show ?thesis using ph(1) by simp
qed

text \<open>C19: The binding of a detected identity ends after at most 62 pieces of its own (24 attempts and 6 more,
  each of two calls, the fallback and the announcement), whatever the database answers and whatever else
  runs in between.\<close>

theorem binding_ends:
  assumes "task_at i w = Some (Binding p (Lookup False 0))"
    and "62 \<le> length (filter (is_piece i) cs)"
  shows "task_at i (hist_run cs w) = Some (Binding p BindDone)"
  using assms by (rule binding_done)


subsection \<open>What the windows are told\<close>

definition row_holds :: "launch_db \<Rightarrow> nat \<Rightarrow> string \<Rightarrow> string \<Rightarrow> string \<Rightarrow> bool" where
  "row_holds d key pty rid source \<longleftrightarrow>
     (case row_at key d of
        Some r \<Rightarrow> lr_pty_session_id r = Some pty \<and> lr_resume_session_id r = Some rid \<and> lr_resume_source r = Some source
      | None \<Rightarrow> False)"

lemma row_at_self:
  assumes "launch_db_ok d" and "r \<in> set (ld_rows d)" and "keeps_key f"
  shows "row_at (lr_id r) (update_where (\<lambda>s. lr_id s = lr_id r) f d) = Some (f r)"
  using row_at_of_member [OF assms(1,2)] by (simp add: row_at_update [OF assms(3)])

lemma not_retained:
  "\<not> should_retain_incoming a b source rid \<Longrightarrow> \<exists>s x. a = Some s \<and> b = Some x"
  by (auto simp: should_retain_incoming_def split: option.splits)

lemma insert_row_Inr:
  assumes "insert_row r d = (Inr key, d1)"
  shows "key = ld_next d" "d1 = d\<lparr>ld_rows := ld_rows d @ [r\<lparr>lr_id := key\<rparr>], ld_next := Suc key\<rparr>"
  using assms by (auto simp: insert_row_def split: if_splits)

lemma store_holds:
  assumes ok: "launch_db_ok d"
    and res: "update_resume_session_with_source_by_pty e pty rid source d = (Inr (Some u), d1)"
  shows "\<exists>s. ur_resume_source u = Some s \<and> row_holds d1 (ur_record_id u) pty (ur_resume_session_id u) s"
proof -
  obtain r where sel: "newest_by_id (rows_where (\<lambda>r. lr_pty_session_id r = Some pty) d) = Some r"
    using res by (auto simp: update_resume_session_with_source_by_pty_def statement_def split: option.splits)
  then have r: "r \<in> set (ld_rows d)" "lr_pty_session_id r = Some pty"
    using newest_by_id_in [OF sel] by (simp_all add: rows_where_def)
  let ?retain = "should_retain_incoming (lr_resume_source r) (lr_resume_session_id r) source rid"
  let ?f = "\<lambda>s. s\<lparr>lr_resume_session_id := Some rid, lr_resume_source := Some source\<rparr>"
  have u: "u = select_identity (lr_resume_source r) (lr_resume_session_id r) source rid (lr_id r)"
    and d1: "d1 = (if ?retain then update_where (\<lambda>s. lr_id s = lr_id r) ?f d else d)"
    using res by (auto simp: update_resume_session_with_source_by_pty_def statement_def sel split: option.splits)
  show ?thesis
  proof (cases ?retain)
    case True
    then show ?thesis
      using row_at_self [OF ok r(1), of ?f] r(2)
      by (simp add: u d1 select_identity_def row_holds_def keeps_key_def update_where_def)
  next
    case False
    then obtain s x where "lr_resume_source r = Some s" "lr_resume_session_id r = Some x"
      using not_retained by blast
    then show ?thesis
      using row_at_of_member [OF ok r(1)] r(2) False
      by (simp add: u d1 select_identity_def row_holds_def)
  qed
qed

lemma upsert_holds:
  assumes ok: "launch_db_ok d"
    and res: "upsert_session_started_inner dunce e q (Some source) d = (Inr u, d1)"
  shows "\<exists>s. ur_resume_source u = Some s \<and> row_holds d1 (ur_record_id u) (ss_pty_session_id q) (ur_resume_session_id u) s"
proof (cases "newest_by_id (rows_where (\<lambda>r. lr_project_id r = ss_launch_id q) d)")
  case None
  then obtain key where ins: "insert_row (started_row dunce e q (Some source)) d = (Inr key, d1)"
    and u: "u = \<lparr>ur_record_id = key, ur_resume_session_id = ss_resume_session_id q, ur_resume_source = Some source\<rparr>"
    using res
    by (auto simp: upsert_session_started_inner_def statement_def simp del: newest_by_id_None
        split: option.splits prod.splits sum.splits)
  have "launch_db_ok d1" using insert_ok [OF ok ins] .
  then have "row_at key d1 = Some (started_row dunce e q (Some source)\<lparr>lr_id := key\<rparr>)"
    using row_at_of_member [of d1 "started_row dunce e q (Some source)\<lparr>lr_id := key\<rparr>"]
    by (simp add: insert_row_Inr [OF ins])
  then show ?thesis by (simp add: u row_holds_def started_row_def insert_row_Inr [OF ins])
next
  case (Some r)
  then have r: "r \<in> set (ld_rows d)" using newest_by_id_in [OF Some] by (simp add: rows_where_def)
  let ?retain = "should_retain_incoming (lr_resume_source r) (lr_resume_session_id r) source (ss_resume_session_id q)"
  obtain cli where d1: "d1 = update_where (\<lambda>s. lr_id s = lr_id r) (upsert_update dunce q (Some source) ?retain cli) d"
    and u: "u = \<lparr>ur_record_id = lr_id r,
         ur_resume_session_id = (if ?retain then ss_resume_session_id q
            else case lr_resume_session_id r of Some x \<Rightarrow> x | None \<Rightarrow> ss_resume_session_id q),
         ur_resume_source = (if ?retain then Some source else lr_resume_source r)\<rparr>"
    using res unfolding upsert_session_started_inner_def Some option.case
    by (auto simp: statement_def replaces_resume_def Let_def split: option.splits if_split_asm)
  have row: "row_at (lr_id r) d1 = Some (upsert_update dunce q (Some source) ?retain cli r)"
    unfolding d1 by (rule row_at_self [OF ok r]) (simp add: keeps_key_def upsert_update_def Let_def)
  show ?thesis
  proof (cases ?retain)
    case False
    then obtain s x where "lr_resume_source r = Some s" "lr_resume_session_id r = Some x"
      using not_retained by blast
    then show ?thesis using False by (simp add: u row_holds_def row upsert_update_def Let_def)
  qed (simp add: u row_holds_def row upsert_update_def Let_def)
qed


text \<open>What the tasks are about to tell, and what the windows have heard, lies in a set \<open>K\<close> of entries
  that were stored. Hooks and rescues tell what they were given: their events are left aside.\<close>

type_synonym stored_entries = "nat \<Rightarrow> string \<Rightarrow> string \<Rightarrow> string \<Rightarrow> bool"

fun task_known :: "stored_entries \<Rightarrow> hist_task \<Rightarrow> bool" where
  "task_known K (Binding p (Announce (Some key) rid source)) = K key (rp_session_id p) rid source"
| "task_known K (Filling q (FillPrompt u)) =
     (\<exists>s. ur_resume_source u = Some s \<and> K (ur_record_id u) (ss_pty_session_id q) (ur_resume_session_id u) s)"
| "task_known K t = True"

fun event_known :: "stored_entries \<Rightarrow> history_event \<Rightarrow> bool" where
  "event_known K (HistoryUpdated tag (Some key) pty rid source) =
     (tag = ''resume-binding'' \<or> tag = ''launch-backfill'' \<longrightarrow> (\<exists>p s. pty = Some p \<and> source = Some s \<and> K key p rid s))"
| "event_known K ev = True"

definition all_known :: "stored_entries \<Rightarrow> hist_world \<Rightarrow> bool" where
  "all_known K w \<longleftrightarrow> list_all (task_known K) (hw_tasks w) \<and> list_all (event_known K) (hw_told w)"

lemma known_mono:
  assumes "\<And>key p rid s. K key p rid s \<Longrightarrow> L key p rid s"
  shows "task_known K t \<Longrightarrow> task_known L t" "event_known K ev \<Longrightarrow> event_known L ev" "all_known K w \<Longrightarrow> all_known L w"
proof -
  show task: "task_known K t \<Longrightarrow> task_known L t" for t
    by (cases "(L, t)" rule: task_known.cases) (use assms in auto)
  show event: "event_known K ev \<Longrightarrow> event_known L ev" for ev
    by (cases "(L, ev)" rule: event_known.cases) (use assms in auto)
  show "all_known K w \<Longrightarrow> all_known L w" using task event by (auto simp: all_known_def list_all_iff)
qed

lemma announce_selected_known:
  "\<exists>s. ur_resume_source u = Some s \<and> K (ur_record_id u) (rp_session_id p) (ur_resume_session_id u) s \<Longrightarrow>
   task_known K (Binding p (announce_selected p u))"
  by (auto simp: announce_selected_def)

lemma next_lookup_known [simp]: "task_known K (Binding p (next_lookup p second n))"
  by (simp add: next_lookup_def window_end_def)

lemma started_pty [simp]: "ss_pty_session_id (started_of e p launch project) = rp_session_id p"
  "ss_pty_session_id (found_by_backfill q rid) = ss_pty_session_id q"
  by (simp_all add: started_of_def found_by_backfill_def)

lemma piece_known:
  assumes ok: "launch_db_ok d" and known: "task_known K t" and piece: "task_piece e t d = (t1, d1, evs)"
    and K: "\<And>key p rid s. row_holds d1 key p rid s \<Longrightarrow> K key p rid s"
  shows "task_known K t1 \<and> list_all (event_known K) evs"
proof (cases t)
  case (Binding p ph)
  show ?thesis
  proof (cases ph)
    case (Lookup second n)
    then show ?thesis using piece Binding
      by (auto simp: look_up_def split: sum.splits option.splits if_splits)
  next
    case (Store second n)
    then show ?thesis using piece Binding store_holds [OF ok] K
      by (fastforce simp: store_def split: prod.splits sum.splits option.splits intro!: announce_selected_known)
  next
    case Fallback
    then show ?thesis using piece Binding upsert_holds [OF ok] K
      by (fastforce simp: fallback_def split: prod.splits sum.splits option.splits if_splits intro!: announce_selected_known)
  next
    case (Announce key rid source)
    then show ?thesis using piece Binding known
      by (cases key) (auto simp: announcements_def split: option.splits)
  qed (use piece Binding in auto)
next
  case (Filling q ph)
  show ?thesis
  proof (cases ph)
    case (Scan n)
    then show ?thesis using piece Filling upsert_holds [OF ok] K
      by (fastforce simp: next_probe_def split: prod.splits sum.splits option.splits if_splits)
  qed (use piece Filling known in \<open>auto split: prod.splits sum.splits option.splits if_splits\<close>)
next
  case (Reporting q ph)
  then show ?thesis using piece by (cases ph) (auto split: prod.splits sum.splits option.splits)
next
  case (Rescuing ph)
  then show ?thesis using piece
    by (induction e ph d rule: rescue_piece.induct) (auto split: prod.splits sum.splits option.splits)
next
  case (Resting pty n rid ph)
  then show ?thesis using piece
    by (cases ph) (auto split: prod.splits sum.splits option.splits if_splits)
qed (use piece in \<open>auto split: prod.splits\<close>)

lemma list_all_replace: "list_all P xs \<Longrightarrow> P y \<Longrightarrow> list_all P (xs[i := y])"
  using set_update_subset_insert [of xs i y] by (auto simp: list_all_iff)

lemma new_task_known: "new_task e c = Some t \<Longrightarrow> task_known K t"
  by (cases c) auto

lemma exec_known:
  assumes ok: "launch_db_ok (hw_db w)" and known: "all_known K w"
    and K: "\<And>key p rid s. row_holds (hw_db (hist_exec (e, c) w)) key p rid s \<Longrightarrow> K key p rid s"
  shows "all_known K (hist_exec (e, c) w)"
proof (cases c)
  case (Piece i)
  show ?thesis
  proof (cases "i < length (hw_tasks w)")
    case True
    obtain t d evs where piece: "task_piece e (hw_tasks w ! i) (hw_db w) = (t, d, evs)" by (metis prod_cases3)
    have "hw_db (hist_exec (e, c) w) = d" using True Piece piece by (simp add: run_task_def)
    then have "task_known K t \<and> list_all (event_known K) evs"
      using known True K by (intro piece_known [OF ok _ piece]) (auto simp: all_known_def list_all_length)
    then show ?thesis
      using known True Piece piece by (simp add: all_known_def run_task_def list_all_replace)
  qed (use Piece known in \<open>simp add: run_task_def\<close>)
qed (use known in \<open>auto simp: all_known_def\<close>)

text \<open>C13: The windows are told what was stored. Whatever else runs, when a window hears from a binding or a
  backfill that the row of a launch has an identity, there was a moment of this run, no later than the
  message, at which this row named the terminal of the message and held exactly this identity and source.\<close>

theorem announced_identity_is_stored:
  assumes "HistoryUpdated tag (Some key) pty rid source \<in> set (hw_told (hist_run cs hist_world_new))"
    and "tag \<in> {''resume-binding'', ''launch-backfill''}"
  shows "\<exists>cs1 cs2 p s. cs = cs1 @ cs2 \<and> pty = Some p \<and> source = Some s
    \<and> row_holds (hw_db (hist_run cs1 hist_world_new)) key p rid s"
proof -
  define K where "K cs key p rid s \<longleftrightarrow> (\<exists>cs1 cs2. cs = cs1 @ cs2 \<and> row_holds (hw_db (hist_run cs1 hist_world_new)) key p rid s)"
    for cs key p rid s
  have ok: "launch_db_ok (hw_db (hist_run cs hist_world_new))" for cs
    by (rule hist_run_ok) (simp add: hist_world_new_def launch_db_new_def launch_db_ok_def)
  have "all_known (K cs) (hist_run cs hist_world_new)"
  proof (induction cs rule: rev_induct)
    case (snoc c cs)
    obtain e x where c: "c = (e, x)" by (cases c)
    have old: "K cs key p rid s \<Longrightarrow> K (cs @ [c]) key p rid s" for key p rid s unfolding K_def by fastforce
    have new: "row_holds (hw_db (hist_exec (e, x) (hist_run cs hist_world_new))) key p rid s \<Longrightarrow> K (cs @ [c]) key p rid s"
      for key p rid s unfolding K_def by (rule exI [of _ "cs @ [c]"]) (simp add: c)
    show ?case using exec_known [OF ok known_mono(3) [OF old snoc.IH] new] by (simp add: c)
  qed (simp add: all_known_def hist_world_new_def)
  then show ?thesis using assms by (fastforce simp: all_known_def list_all_iff K_def)
qed

end
