(* ===== verification/Resume_Races.thy ===== *)
theory Resume_Races
  imports Resume_Binding
begin

text \<open>
  The race between the creation of a session and the event that reports its identity: whichever comes
  first, window, creation or event, the launch ends up with one row that names its terminal and holds
  the identity. And the cases in which the identity of a session is lost or replaced: a launch id that
  is used twice, the report of a hook, and the rescue of old rows.
\<close>

subsection \<open>The rows of one launch and one terminal\<close>

definition ours :: "string \<Rightarrow> string \<Rightarrow> launch_row \<Rightarrow> bool" where
  "ours launch pty r \<longleftrightarrow> lr_project_id r = launch \<or> lr_pty_session_id r = Some pty"

definition our_rows :: "string \<Rightarrow> string \<Rightarrow> launch_db \<Rightarrow> launch_row list" where
  "our_rows launch pty d = rows_where (ours launch pty) d"

text \<open>The writes of a window and of the creation for this launch: a row for it, or its terminal.\<close>

fun serves :: "string \<Rightarrow> string \<Rightarrow> string \<Rightarrow> launch_op \<Rightarrow> bool" where
  "serves launch pty cli (AddLaunch p n) =
     ((p = None \<or> p = Some pty) \<and> nl_project_id n = launch \<and> nl_cli_tool n = cli)"
| "serves launch pty cli (BindPty l p c model provider) = (l = launch \<and> p = pty \<and> c = cli)"
| "serves launch pty cli c = False"

definition db_works :: "hist_env \<Rightarrow> bool" where
  "db_works e \<longleftrightarrow> sq_fail (he_sql e) = (\<lambda>n. None)"

text \<open>A run in which the binding \<open>i\<close> finds the database working, and every other step either serves the
  launch or leaves its rows and the rows of its terminal as they are.\<close>

definition undisturbing :: "nat \<Rightarrow> string \<Rightarrow> string \<Rightarrow> string \<Rightarrow> hist_env \<times> hist_call \<Rightarrow> hist_world \<Rightarrow> bool" where
  "undisturbing i launch pty cli c w =
     (if is_piece i c then db_works (fst c)
      else (case call_op c w of Some op \<Rightarrow> serves launch pty cli op | None \<Rightarrow> False)
        \<or> our_rows launch pty (hw_db (hist_exec c w)) = our_rows launch pty (hw_db w))"

fun undisturbed_run :: "nat \<Rightarrow> string \<Rightarrow> string \<Rightarrow> string \<Rightarrow> (hist_env \<times> hist_call) list \<Rightarrow> hist_world \<Rightarrow> bool" where
  "undisturbed_run i launch pty cli [] w = True"
| "undisturbed_run i launch pty cli (c # cs) w =
     (undisturbing i launch pty cli c w \<and> undisturbed_run i launch pty cli cs (hist_exec c w))"

definition bound_row :: "string \<Rightarrow> string \<Rightarrow> string \<Rightarrow> string \<Rightarrow> string \<Rightarrow> launch_row \<Rightarrow> bool" where
  "bound_row launch pty cli rid source r \<longleftrightarrow>
     lr_project_id r = launch \<and> lr_pty_session_id r = Some pty \<and> lr_cli_tool r = cli
     \<and> lr_resume_session_id r = Some rid \<and> lr_resume_source r = Some source"

definition waiting_row :: "string \<Rightarrow> string \<Rightarrow> string \<Rightarrow> launch_row \<Rightarrow> bool" where
  "waiting_row launch pty cli r \<longleftrightarrow>
     lr_project_id r = launch \<and> (lr_pty_session_id r = None \<or> lr_pty_session_id r = Some pty) \<and> lr_cli_tool r = cli
     \<and> lr_resume_session_id r = None \<and> lr_resume_source r = None"

definition meeting :: "string \<Rightarrow> string \<Rightarrow> string \<Rightarrow> string \<Rightarrow> string \<Rightarrow> bool \<Rightarrow> launch_db \<Rightarrow> bool" where
  "meeting launch pty cli rid source done d \<longleftrightarrow> launch_db_ok d \<and>
     (if done then \<exists>r. our_rows launch pty d = [r] \<and> bound_row launch pty cli rid source r
      else our_rows launch pty d = []
        \<or> (\<exists>r. our_rows launch pty d = [r] \<and> (waiting_row launch pty cli r \<or> bound_row launch pty cli rid source r)))"

lemma rows_where_sub: "(\<And>r. Q r \<Longrightarrow> ours launch pty r) \<Longrightarrow> rows_where Q d = filter Q (our_rows launch pty d)"
  by (auto simp: rows_where_def our_rows_def intro: filter_cong)

lemma our_rows_update:
  assumes "\<And>r. r \<in> set (ld_rows d) \<Longrightarrow> lr_id r = key \<Longrightarrow> ours launch pty (f r) = ours launch pty r"
  shows "our_rows launch pty (update_where (\<lambda>s. lr_id s = key) f d)
    = map (\<lambda>r. if lr_id r = key then f r else r) (our_rows launch pty d)"
proof -
  have "filter (ours launch pty) (map (\<lambda>r. if lr_id r = key then f r else r) rs)
      = map (\<lambda>r. if lr_id r = key then f r else r) (filter (ours launch pty) rs)"
    if "\<forall>r \<in> set rs. lr_id r = key \<longrightarrow> ours launch pty (f r) = ours launch pty r" for rs
    using that by (induction rs) auto
  then show ?thesis using assms by (simp add: our_rows_def rows_where_def update_where_def)
qed

lemma our_rows_ours: "our_rows launch pty d = [r] \<Longrightarrow> r \<in> set (ld_rows d) \<and> ours launch pty r"
  by (auto simp: our_rows_def rows_where_def filter_eq_Cons_iff)

text \<open>Updating the only row: nothing else changes hands.\<close>

lemma update_only_row:
  assumes "launch_db_ok d" and "our_rows launch pty d = [r]" and "ours launch pty (f r)"
  shows "our_rows launch pty (update_where (\<lambda>s. lr_id s = lr_id r) f d) = [f r]"
proof -
  have r: "r \<in> set (ld_rows d)" "ours launch pty r" using our_rows_ours [OF assms(2)] by simp_all
  have "ours launch pty (f s) = ours launch pty s" if "s \<in> set (ld_rows d)" "lr_id s = lr_id r" for s
    using same_key [OF assms(1) r(1) that] assms(3) r(2) by simp
  then show ?thesis using our_rows_update [of d "lr_id r" launch pty f] assms(2) by simp
qed

lemma our_rows_insert:
  assumes "lr_project_id r = launch"
  shows "our_rows launch pty d = [] \<Longrightarrow> \<exists>key d1. insert_row r d = (Inr key, d1) \<and> our_rows launch pty d1 = [r\<lparr>lr_id := key\<rparr>]"
    and "our_rows launch pty d = [s] \<Longrightarrow> lr_project_id s = lr_project_id r \<Longrightarrow> insert_row r d = (Inl unique_failed, d)"
proof -
  have "ours launch pty (r\<lparr>lr_id := key\<rparr>)" for key using assms by (simp add: ours_def)
  moreover assume none: "our_rows launch pty d = []"
  then have "rows_where (\<lambda>s. lr_project_id s = lr_project_id r) d = []"
    using assms by (auto simp: our_rows_def rows_where_def ours_def filter_empty_conv)
  ultimately show "\<exists>key d1. insert_row r d = (Inr key, d1) \<and> our_rows launch pty d1 = [r\<lparr>lr_id := key\<rparr>]"
    using none by (simp add: insert_row_def our_rows_def rows_where_def)
next
  assume one: "our_rows launch pty d = [s]" "lr_project_id s = lr_project_id r"
  then have "s \<in> set (rows_where (\<lambda>s. lr_project_id s = lr_project_id r) d)"
    using our_rows_ours [OF one(1)] by (simp add: rows_where_def)
  then show "insert_row r d = (Inl unique_failed, d)" by (auto simp: insert_row_def)
qed


lemma meetingD:
  assumes "meeting launch pty cli rid source done d"
  obtains "our_rows launch pty d = []" "\<not> done"
  | r where "our_rows launch pty d = [r]" "waiting_row launch pty cli r" "\<not> done"
  | r where "our_rows launch pty d = [r]" "bound_row launch pty cli rid source r"
  using assms by (cases "done") (auto simp: meeting_def)

lemma meeting_ok: "meeting launch pty cli rid source done d \<Longrightarrow> launch_db_ok d"
  by (simp add: meeting_def)

lemma meeting_same:
  "meeting launch pty cli rid source done d \<Longrightarrow> launch_db_ok d1 \<Longrightarrow> our_rows launch pty d1 = our_rows launch pty d \<Longrightarrow>
   meeting launch pty cli rid source done d1"
  by (simp add: meeting_def)

lemma add_meets:
  assumes m: "meeting launch pty cli rid source done d"
    and n: "p = None \<or> p = Some pty" "nl_project_id n = launch" "nl_cli_tool n = cli"
  shows "meeting launch pty cli rid source done (snd (add_launch dunce e p n d))"
proof -
  let ?r = "row_of dunce e p n"
  have launch: "lr_project_id ?r = launch" using n by (simp add: row_of_def)
  have waiting: "waiting_row launch pty cli (?r\<lparr>lr_id := key\<rparr>)" for key
    using n by (simp add: row_of_def waiting_row_def)
  have "meeting launch pty cli rid source done (snd (insert_row ?r d))"
    using m
  proof (cases rule: meetingD)
    case 1
    obtain key d1 where ins: "insert_row ?r d = (Inr key, d1)" "our_rows launch pty d1 = [?r\<lparr>lr_id := key\<rparr>]"
      using our_rows_insert(1) [OF launch 1(1)] by blast
    then show ?thesis using insert_ok [OF meeting_ok [OF m] ins(1)] waiting 1(2) by (simp add: meeting_def)
  next
    case (2 r)
    then show ?thesis using our_rows_insert(2) [OF launch 2(1)] m launch by (simp add: waiting_row_def)
  next
    case (3 r)
    then show ?thesis using our_rows_insert(2) [OF launch 3(1)] m launch by (simp add: bound_row_def)
  qed
  then show ?thesis using m
    by (auto simp: add_launch_def repo_add_def statement_def split: sum.split option.split)
qed

lemma bind_meets:
  assumes m: "meeting launch pty cli rid source done d"
  shows "meeting launch pty cli rid source done (snd (bind_pty_session e launch pty cli model provider d))"
proof -
  let ?P = "\<lambda>r. lr_project_id r = launch \<and> lr_cli_tool r = cli \<and> (lr_pty_session_id r = None \<or> lr_pty_session_id r = Some pty)"
  let ?f = "\<lambda>s. s\<lparr>lr_pty_session_id := Some pty, lr_model_id := model, lr_provider_id := provider\<rparr>"
  let ?d1 = "\<lambda>r. update_where (\<lambda>s. lr_id s = lr_id r) ?f d"
  have sel: "rows_where ?P d = filter ?P (our_rows launch pty d)"
    by (rule rows_where_sub) (simp add: ours_def)
  have ok1: "launch_db_ok (?d1 r)" for r
    by (rule launch_update_ok [OF _ meeting_ok [OF m]]) (simp add: keeps_key_def)
  have one: "meeting launch pty cli rid source done (?d1 r)" if r: "our_rows launch pty d = [r]" for r
  proof -
    have "our_rows launch pty (?d1 r) = [?f r]"
      using meeting_ok [OF m] r our_rows_ours [OF r] by (intro update_only_row) (simp_all add: ours_def)
    with m r ok1 [of r] show ?thesis
      by (auto simp: meeting_def waiting_row_def bound_row_def split: if_splits)
  qed
  have "meeting launch pty cli rid source done (?d1 r)" if "newest (sq_tie e) (rows_where ?P d) = Some r" for r
  proof -
    have r: "r \<in> set (our_rows launch pty d)" using newest_in [OF that] by (simp add: sel)
    then obtain s where "our_rows launch pty d = [s]" using m by (auto elim!: meetingD)
    then show ?thesis using one r by simp
  qed
  then show ?thesis using m
    unfolding bind_pty_session_def repo_bind_pty_session_def
    by (auto simp: Let_def statement_def split: sum.split option.split)
qed

lemma serves_meets:
  "serves launch pty cli op \<Longrightarrow> meeting launch pty cli rid source done d \<Longrightarrow>
   meeting launch pty cli rid source done (launch_exec dunce e op d)"
  by (cases op) (auto intro: add_meets bind_meets)

text \<open>The binding's own writes.\<close>

lemma store_meets:
  assumes m: "meeting launch pty cli rid source done d" and works: "sq_fail e = (\<lambda>n. None)"
    and res: "update_resume_session_with_source_by_pty e pty rid source d = (res, d1)"
  shows "(res = Inr None \<and> d1 = d) \<or>
    (\<exists>u. res = Inr (Some u) \<and> ur_resume_session_id u = rid \<and> ur_resume_source u = Some source
       \<and> meeting launch pty cli rid source True d1)"
proof -
  have sel: "rows_where (\<lambda>r. lr_pty_session_id r = Some pty) d
      = filter (\<lambda>r. lr_pty_session_id r = Some pty) (our_rows launch pty d)"
    by (rule rows_where_sub) (simp add: ours_def)
  show ?thesis
    using m
  proof (cases rule: meetingD)
    case 1
    then show ?thesis using res works
      by (simp add: update_resume_session_with_source_by_pty_def sel newest_by_id_def latest_of_def)
  next
    case (2 r)
    let ?f = "\<lambda>s. s\<lparr>lr_resume_session_id := Some rid, lr_resume_source := Some source\<rparr>"
    show ?thesis
    proof (cases "lr_pty_session_id r = Some pty")
      case True
      have "our_rows launch pty (update_where (\<lambda>s. lr_id s = lr_id r) ?f d) = [?f r]"
        using meeting_ok [OF m] 2(1) True by (intro update_only_row) (simp_all add: ours_def)
      moreover have "launch_db_ok (update_where (\<lambda>s. lr_id s = lr_id r) ?f d)"
        by (rule launch_update_ok [OF _ meeting_ok [OF m]]) (simp add: keeps_key_def)
      ultimately show ?thesis using res works 2 True
        by (auto simp: update_resume_session_with_source_by_pty_def sel Let_def waiting_row_def
            should_retain_incoming_def select_identity_def meeting_def bound_row_def)
    qed (use res works 2 in \<open>simp add: update_resume_session_with_source_by_pty_def sel newest_by_id_def latest_of_def\<close>)
  next
    case (3 r)
    then show ?thesis using res works m
      by (auto simp: update_resume_session_with_source_by_pty_def sel Let_def bound_row_def
          should_retain_incoming_def select_identity_def meeting_def)
  qed
qed


lemma upsert_meets:
  assumes m: "meeting launch pty cli rid source done d" and works: "sq_fail e = (\<lambda>n. None)"
    and q: "ss_launch_id q = launch" "ss_pty_session_id q = pty" "ss_resume_session_id q = rid" "ss_cli_tool q = cli"
    and res: "upsert_session_started_inner dunce e q (Some source) d = (res, d1)"
  shows "\<exists>u. res = Inr u \<and> ur_resume_session_id u = rid \<and> ur_resume_source u = Some source
    \<and> meeting launch pty cli rid source True d1"
proof -
  have sel: "rows_where (\<lambda>r. lr_project_id r = launch) d = filter (\<lambda>r. lr_project_id r = launch) (our_rows launch pty d)"
    by (rule rows_where_sub) (simp add: ours_def)
  have update: "\<exists>u. res = Inr u \<and> ur_resume_session_id u = rid \<and> ur_resume_source u = Some source
      \<and> meeting launch pty cli rid source True d1"
    if r: "our_rows launch pty d = [r]" "waiting_row launch pty cli r \<or> bound_row launch pty cli rid source r" for r
  proof -
    have row: "lr_project_id r = launch" "lr_cli_tool r = cli" "lr_pty_session_id r = None \<or> lr_pty_session_id r = Some pty"
      using r(2) by (auto simp: waiting_row_def bound_row_def)
    let ?replace = "replaces_resume r rid (Some source)"
    let ?f = "upsert_update dunce q (Some source) ?replace cli"
    let ?d1 = "update_where (\<lambda>s. lr_id s = lr_id r) ?f d"
    have bound: "bound_row launch pty cli rid source (?f r)"
      using r(2) row q by (auto simp: bound_row_def waiting_row_def upsert_update_def Let_def replaces_resume_def
          should_retain_incoming_def)
    then have "our_rows launch pty ?d1 = [?f r]"
      using meeting_ok [OF m] r(1) by (intro update_only_row) (simp_all add: ours_def bound_row_def)
    moreover have "launch_db_ok ?d1"
      by (rule launch_update_ok [OF _ meeting_ok [OF m]]) (simp add: keeps_key_def upsert_update_def Let_def)
    ultimately have "meeting launch pty cli rid source True ?d1" using bound by (simp add: meeting_def)
    then show ?thesis
      using res works q row r(2)
      by (auto simp: upsert_session_started_inner_def sel r(1) Let_def waiting_row_def bound_row_def
          replaces_resume_def should_retain_incoming_def)
  qed
  show ?thesis
    using m
  proof (cases rule: meetingD)
    case 1
    let ?r = "started_row dunce e q (Some source)"
    have launch: "lr_project_id ?r = launch" using q by (simp add: started_row_def)
    obtain key d2 where ins: "insert_row ?r d = (Inr key, d2)" "our_rows launch pty d2 = [?r\<lparr>lr_id := key\<rparr>]"
      using our_rows_insert(1) [OF launch 1(1)] by blast
    then have "meeting launch pty cli rid source True d2"
      using insert_ok [OF meeting_ok [OF m] ins(1)] q by (simp add: meeting_def bound_row_def started_row_def)
    then show ?thesis using res works q 1(1) ins(1)
      by (auto simp: upsert_session_started_inner_def sel newest_by_id_def latest_of_def)
  qed (use update in blast)+
qed

text \<open>One piece of the binding, with the phases that it can be in.\<close>

fun binding_meets :: "string \<Rightarrow> string \<Rightarrow> string \<Rightarrow> string \<Rightarrow> string \<Rightarrow> bind_phase \<Rightarrow> launch_db \<Rightarrow> bool" where
  "binding_meets launch pty cli rid source (Lookup second n) d = (\<not> second \<and> meeting launch pty cli rid source False d)"
| "binding_meets launch pty cli rid source (Store second n) d = (\<not> second \<and> meeting launch pty cli rid source False d)"
| "binding_meets launch pty cli rid source Fallback d = meeting launch pty cli rid source False d"
| "binding_meets launch pty cli rid source (Announce key x s) d =
     (key \<noteq> None \<and> x = rid \<and> s = source \<and> meeting launch pty cli rid source True d)"
| "binding_meets launch pty cli rid source BindDone d = meeting launch pty cli rid source True d"

lemma binding_meets_step:
  assumes "binding_meets launch pty cli rid source ph d"
    and "\<And>done. meeting launch pty cli rid source done d \<Longrightarrow> meeting launch pty cli rid source done d1"
  shows "binding_meets launch pty cli rid source ph d1"
  using assms by (cases ph) auto

lemma next_lookup_meets:
  "meeting launch pty cli rid source False d \<Longrightarrow> binding_meets launch pty cli rid source (next_lookup p False n) d"
  by (simp add: next_lookup_def window_end_def)

lemma look_up_meets:
  assumes m: "meeting launch pty cli rid source False d" and p: "rp_session_id p = pty" "rp_cli_tool p = Some cli"
  shows "binding_meets launch pty cli rid source (look_up e p False n d) d"
proof -
  have "\<not> cli_rejects p (map_launch_record r)"
    if "newest tie (rows_where (\<lambda>r. lr_pty_session_id r = Some pty) d) = Some r" for tie r
  proof -
    have "r \<in> set (our_rows launch pty d)"
      using newest_in [OF that] by (simp add: our_rows_def rows_where_def ours_def)
    then have "lr_cli_tool r = cli" using m
      by (auto elim!: meetingD simp: waiting_row_def bound_row_def)
    then show ?thesis by (simp add: cli_rejects_def p map_launch_record_def launch_record.truncate_def)
  qed
  then show ?thesis using m next_lookup_meets [OF m]
    by (auto simp: look_up_def find_by_pty_session_id_def find_newest_def statement_def p
        simp del: newest_None split: option.split sum.split)
qed

lemma binding_piece_meets:
  assumes m: "binding_meets launch pty cli rid source ph d" and works: "db_works e"
    and p: "rp_session_id p = pty" "rp_resume_session_id p = rid" "rp_source p = source" "rp_cli_tool p = Some cli"
      "rp_launch_id p = Some launch" "rp_project_path p = Some project"
    and piece: "bind_piece e p ph d = (ph1, d1, evs)"
  shows "binding_meets launch pty cli rid source ph1 d1"
proof (cases ph)
  case (Lookup second n)
  then show ?thesis using m piece look_up_meets [OF _ p(1,4)] by auto
next
  case (Store second n)
  then have m': "meeting launch pty cli rid source False d" "\<not> second" using m by simp_all
  obtain res d2 where res: "update_resume_session_with_source_by_pty (he_sql e) pty rid source d = (res, d2)"
    by (cases "update_resume_session_with_source_by_pty (he_sql e) pty rid source d")
  from store_meets [OF m'(1) _ res] works show ?thesis
    using piece res Store m' next_lookup_meets [OF m'(1)]
    by (auto simp: store_def p announce_selected_def db_works_def)
next
  case Fallback
  then have m': "meeting launch pty cli rid source False d" using m by simp
  obtain res d2 where res: "upsert_session_started_inner (he_dunce e) (he_sql e) (started_of e p launch project)
      (Some source) d = (res, d2)"
    by (cases "upsert_session_started_inner (he_dunce e) (he_sql e) (started_of e p launch project) (Some source) d")
  have "sq_fail (he_sql e) = (\<lambda>n. None)" using works by (simp add: db_works_def)
  from upsert_meets [OF m' this _ _ _ _ res] show ?thesis
    using piece res Fallback by (auto simp: fallback_def p announce_selected_def started_of_def)
qed (use m piece in auto)

lemma undisturbed_meets:
  assumes "task_at i w = Some (Binding p ph)" and "binding_meets launch pty cli rid source ph (hw_db w)"
    and p: "rp_session_id p = pty" "rp_resume_session_id p = rid" "rp_source p = source" "rp_cli_tool p = Some cli"
      "rp_launch_id p = Some launch" "rp_project_path p = Some project"
    and "undisturbed_run i launch pty cli cs w"
  shows "\<exists>ph1. task_at i (hist_run cs w) = Some (Binding p ph1)
    \<and> binding_meets launch pty cli rid source ph1 (hw_db (hist_run cs w))"
  using assms(1,2,9)
proof (induction cs arbitrary: w ph)
  case (Cons c cs)
  obtain e x where c: "c = (e, x)" by (cases c)
  have und: "undisturbing i launch pty cli c w" using Cons.prems(3) by simp
  show ?case
  proof (cases "is_piece i c")
    case True
    then have works: "db_works e" and x: "x = Piece i" using und by (simp_all add: undisturbing_def c is_piece_def)
    obtain ph1 d1 evs where piece: "bind_piece e p ph (hw_db w) = (ph1, d1, evs)" by (metis prod_cases3)
    have "task_at i (hist_exec c w) = Some (Binding p ph1)"
      using task_at_exec [OF Cons.prems(1), of c] True piece by (simp add: c)
    moreover have "hw_db (hist_exec c w) = d1"
      using Cons.prems(1) piece by (auto simp: c x run_task_def task_at_def split: if_splits)
    ultimately show ?thesis
      using Cons.IH [of "hist_exec c w" ph1] binding_piece_meets [OF Cons.prems(2) works p piece] Cons.prems(3) by simp
  next
    case False
    have "binding_meets launch pty cli rid source ph (hw_db (hist_exec c w))"
    proof (rule binding_meets_step [OF Cons.prems(2)])
      fix d_done assume m: "meeting launch pty cli rid source d_done (hw_db w)"
      consider op where "call_op c w = Some op" "serves launch pty cli op"
        | "our_rows launch pty (hw_db (hist_exec c w)) = our_rows launch pty (hw_db w)"
        using und False by (auto simp: undisturbing_def split: option.splits)
      then show "meeting launch pty cli rid source d_done (hw_db (hist_exec c w))"
      proof cases
        case 1
        then show ?thesis using serves_meets [OF 1(2) m]
          by (simp add: c hist_exec_db exec_op_def del: hist_exec.simps)
      next
        case 2
        then show ?thesis using meeting_same [OF m hist_exec_ok [OF meeting_ok [OF m]]] by simp
      qed
    qed
    then show ?thesis
      using Cons.IH [of "hist_exec c w" ph] task_at_exec [OF Cons.prems(1), of c] False Cons.prems(3) by simp
  qed
qed auto

text \<open>C11: Window, creation and event may come in any order. A launch that has no row yet, whose terminal has none:
  whoever adds the row first (the window, the creation or the event itself), once the binding of the
  detected identity has run its at most 62 pieces, the launch has exactly one row, and it names the
  terminal and holds the identity with its source.\<close>

theorem identity_reaches_its_launch:
  assumes "launch_db_ok (hw_db w)" and "our_rows launch pty (hw_db w) = []"
    and "task_at i w = Some (Binding p (Lookup False 0))"
    and "rp_session_id p = pty" "rp_resume_session_id p = rid" "rp_source p = source"
      "rp_cli_tool p = Some cli" "rp_launch_id p = Some launch" "rp_project_path p = Some project"
    and "undisturbed_run i launch pty cli cs w" and "62 \<le> length (filter (is_piece i) cs)"
  shows "\<exists>r. our_rows launch pty (hw_db (hist_run cs w)) = [r] \<and> bound_row launch pty cli rid source r"
proof -
  have start: "binding_meets launch pty cli rid source (Lookup False 0) (hw_db w)"
    using assms(1,2) by (simp add: meeting_def)
  obtain ph where "task_at i (hist_run cs w) = Some (Binding p ph)"
      "binding_meets launch pty cli rid source ph (hw_db (hist_run cs w))"
    using undisturbed_meets [OF assms(3) start assms(4-10)] by blast
  moreover have "task_at i (hist_run cs w) = Some (Binding p BindDone)"
    using binding_done [OF assms(3,11)] .
  ultimately show ?thesis by (simp add: meeting_def)
qed

subsection \<open>A launch id that is used twice\<close>

definition taken :: "string \<Rightarrow> string \<Rightarrow> launch_row \<Rightarrow> launch_db \<Rightarrow> bool" where
  "taken launch pty r d \<longleftrightarrow> our_rows launch pty d = [r] \<and> lr_project_id r = launch
     \<and> lr_pty_session_id r \<noteq> None \<and> lr_pty_session_id r \<noteq> Some pty"

lemma taken_rows:
  assumes "taken launch pty r d"
  shows "rows_where (\<lambda>s. lr_pty_session_id s = Some pty) d = []"
    "rows_where (\<lambda>s. lr_project_id s = launch) d = [r]"
    "rows_where (\<lambda>s. lr_project_id s = launch \<and> lr_cli_tool s = cli
       \<and> (lr_pty_session_id s = None \<or> lr_pty_session_id s = Some pty)) d = []"
proof -
  have r: "our_rows launch pty d = [r]" "lr_project_id r = launch" "lr_pty_session_id r \<noteq> None" "lr_pty_session_id r \<noteq> Some pty"
    using assms by (auto simp: taken_def)
  show "rows_where (\<lambda>s. lr_pty_session_id s = Some pty) d = []"
    using rows_where_sub [of "\<lambda>s. lr_pty_session_id s = Some pty" launch pty d] r by (simp add: ours_def)
  show "rows_where (\<lambda>s. lr_project_id s = launch) d = [r]"
    using rows_where_sub [of "\<lambda>s. lr_project_id s = launch" launch pty d] r by (simp add: ours_def)
  show "rows_where (\<lambda>s. lr_project_id s = launch \<and> lr_cli_tool s = cli
       \<and> (lr_pty_session_id s = None \<or> lr_pty_session_id s = Some pty)) d = []"
    using rows_where_sub [of "\<lambda>s. lr_project_id s = launch \<and> lr_cli_tool s = cli
       \<and> (lr_pty_session_id s = None \<or> lr_pty_session_id s = Some pty)" launch pty d] r by (simp add: ours_def)
qed

lemma taken_serves:
  assumes "taken launch pty r d" and "serves launch pty cli op"
  shows "launch_exec dunce e op d = d"
  using assms(2)
proof (cases op)
  case (AddLaunch p n)
  then show ?thesis
    using assms taken_rows(2) [OF assms(1)]
    by (auto simp: add_launch_def repo_add_def insert_row_def row_of_def statement_def split: sum.split option.split)
next
  case (BindPty l p c model provider)
  then show ?thesis
    using assms(2) taken_rows(3) [OF assms(1)]
    by (simp add: bind_pty_session_def repo_bind_pty_session_def statement_def newest_def latest_of_def split: sum.split option.split)
qed simp_all

lemma taken_binding:
  assumes "taken launch pty r d" and p: "rp_session_id p = pty" "rp_launch_id p = None \<or> rp_launch_id p = Some launch"
  shows "exec_op e (piece_op e (Binding p ph)) d = d"
proof (cases ph)
  case (Store second n)
  then show ?thesis
    using taken_rows(1) [OF assms(1)]
    by (simp add: exec_op_def p update_resume_session_with_source_by_pty_def newest_by_id_def latest_of_def statement_def
        split: option.split)
next
  case Fallback
  have refused: "snd (upsert_session_started_inner dunce env q source d) = d"
    if "ss_launch_id q = launch" "ss_pty_session_id q = pty" for dunce env q source
    using assms(1) taken_rows(2) [OF assms(1)]
    by (simp add: upsert_session_started_inner_def that taken_def statement_def split: option.split)
  show ?thesis
    using p(2)
  proof
    assume launch: "rp_launch_id p = Some launch"
    show ?thesis
      by (cases "rp_project_path p") (simp_all add: Fallback exec_op_def launch refused started_of_def p(1))
  qed (simp add: Fallback exec_op_def)
qed (simp_all add: exec_op_def)

text \<open>C18: A launch id that already belongs to another terminal, in an undisturbed run: the database answers the
  binding, and every other call either serves the launch (the creation, which tries to add its row or to
  bind its terminal) or leaves the rows of the launch and of the terminal as they are, so that nobody deletes
  or rebinds the old row. Then in every interleaving the creation adds no
  second row for the launch, the second window, which waits for that row, waits in vain, and the session's
  identity is never stored.\<close>

theorem reused_launch_id_loses_identity:
  assumes "taken launch pty r (hw_db w)" and "task_at i w = Some (Binding p ph)"
    and "rp_session_id p = pty" "rp_launch_id p = None \<or> rp_launch_id p = Some launch"
    and "undisturbed_run i launch pty cli cs w"
  shows "our_rows launch pty (hw_db (hist_run cs w)) = [r]
    \<and> rows_where (\<lambda>s. lr_pty_session_id s = Some pty) (hw_db (hist_run cs w)) = []"
proof -
  have "taken launch pty r (hw_db (hist_run cs w))"
    using assms(1,2,5)
  proof (induction cs arbitrary: w ph)
    case (Cons c cs)
    obtain e x where c: "c = (e, x)" by (cases c)
    obtain ph1 where ph1: "task_at i (hist_exec c w) = Some (Binding p ph1)"
      using task_at_exec [OF Cons.prems(2), of c] by (auto split: prod.splits if_splits)
    have "taken launch pty r (hw_db (hist_exec c w))"
    proof (cases "is_piece i c")
      case True
      then have "call_op c w = piece_op e (Binding p ph)"
        using Cons.prems(2) by (auto simp: c is_piece_def task_at_def split: if_splits)
      then show ?thesis
        using taken_binding [OF Cons.prems(1) assms(3,4), of e ph] Cons.prems(1)
        by (simp add: c hist_exec_db del: hist_exec.simps)
    next
      case False
      then consider op where "call_op c w = Some op" "serves launch pty cli op"
        | "our_rows launch pty (hw_db (hist_exec c w)) = our_rows launch pty (hw_db w)"
        using Cons.prems(3) by (auto simp: undisturbing_def split: option.splits)
      then show ?thesis
      proof cases
        case 1
        then show ?thesis using taken_serves [OF Cons.prems(1) 1(2)] Cons.prems(1)
          by (simp add: c hist_exec_db exec_op_def del: hist_exec.simps)
      qed (use Cons.prems(1) in \<open>simp add: taken_def\<close>)
    qed
    then show ?case using Cons.IH ph1 Cons.prems(3) by simp
  qed simp
  then show ?thesis using taken_rows(1) by (auto simp: taken_def)
qed

subsection \<open>Untrusted writers\<close>

text \<open>The source \<open>hook\<close> has no rank of its own: whatever comes next replaces it.\<close>

lemma hook_identity_yields:
  "rid1 \<noteq> rid \<Longrightarrow> should_retain_incoming (Some ''hook'') (Some rid) source rid1"
  by (simp add: should_retain_incoming_def source_priority_def)


subsection \<open>Examples\<close>

definition hist_demo_env :: hist_env where
  "hist_demo_env =
     \<lparr>he_sql = \<lparr>sq_now = 7, sq_fail = \<lambda>n. None, sq_tie = 0\<rparr>, he_dunce = id, he_uuid_version = \<lambda>s. None,
      he_detected = Inr (Some ''near''), he_prompt = None, he_backfill_enabled = True\<rparr>"

definition hist_demo_launch :: new_launch where
  "hist_demo_launch =
     \<lparr>nl_project_id = ''L'', nl_project_name = ''app'', nl_project_path = ''/app'', nl_cli_tool = ''codex'',
      nl_runtime_kind = ''local'', nl_wsl_distro = None, nl_workspace_name = None, nl_workspace_path = None,
      nl_launch_cwd = None, nl_provider_id = None, nl_model_id = Some ''m'', nl_provider_selection = None,
      nl_launch_profile_id = None, nl_workspace_snapshot_id = None\<rparr>"

definition hist_demo_payload :: "string \<Rightarrow> resume_payload" where
  "hist_demo_payload pty =
     \<lparr>rp_session_id = pty, rp_resume_session_id = ''own'', rp_source = ''osc-title'', rp_cli_tool = Some ''codex'',
      rp_runtime_kind = None, rp_launch_id = Some ''L'', rp_project_path = Some ''/app'',
      rp_workspace_path = None, rp_wsl_distro = None\<rparr>"

definition hist_demo_start :: session_started where
  "hist_demo_start =
     \<lparr>ss_launch_id = ''L'', ss_pty_session_id = ''t'', ss_resume_session_id = ''hooked'', ss_cli_tool = ''codex'',
      ss_runtime_kind = ''local'', ss_wsl_distro = None, ss_launch_cwd = None, ss_project_path = ''/app'',
      ss_project_name = ''app'', ss_workspace_path = None\<rparr>"

lemmas hist_demo_defs = hist_demo_env_def hist_demo_launch_def hist_demo_payload_def hist_demo_start_def

lemmas hist_demo_eval = hist_demo_defs hist_world_new_def launch_db_new_def add_launch_def repo_add_def validate_model_id_def
  insert_row_def row_of_def rows_where_def statement_def update_resume_session_with_source_by_pty_def
  newest_by_id_def newest_def latest_of_def Let_def should_retain_incoming_def source_priority_def update_where_def
  run_task_def update_session_started_def update_resume_source_def update_by_id_def simplify_opt_path_str_def
  list_launches_def map_launch_record_def launch_record.truncate_def detect_resume_session_def update_session_id_def
  select_identity_def row_at_def byte_def byte_in_def cont_def

definition hist_demo_bound :: "hist_env \<Rightarrow> hist_world" where
  "hist_demo_bound e = hist_run [(e, Direct (AddLaunch (Some ''t'') hist_demo_launch)), (e, Direct (BindIdentity ''t'' ''own'' ''issued''))]
     hist_world_new"

lemma hist_demo_bound_row:
  "map (\<lambda>r. (lr_id r, lr_project_id r, lr_pty_session_id r, lr_resume_session_id r, lr_resume_source r))
     (ld_rows (hw_db (hist_demo_bound hist_demo_env)))
   = [(1, ''L'', Some ''t'', Some ''own'', Some ''issued'')]"
  unfolding hist_demo_bound_def by (simp add: hist_demo_eval)


lemma hist_demo_bound_facts:
  "launch_db_ok (hw_db (hist_demo_bound e))" "hw_tasks (hist_demo_bound e) = []"
  unfolding hist_demo_bound_def
  by (rule hist_run_ok, simp add: hist_world_new_def launch_db_new_def launch_db_ok_def, simp add: hist_world_new_def)

lemma hist_demo_bound_at:
  obtains r where "row_at 1 (hw_db (hist_demo_bound hist_demo_env)) = Some r" "lr_pty_session_id r = Some ''t''"
    "lr_resume_session_id r = Some ''own''" "lr_resume_source r = Some ''issued''"
  using hist_demo_bound_row by (auto simp: row_at_def)

definition rival_calls :: "(hist_env \<times> hist_call) list" where
  "rival_calls =
     [(hist_demo_env, Detected ((hist_demo_payload ''x'')\<lparr>rp_resume_session_id := ''other''\<rparr>)), (hist_demo_env, Created ''x'' hist_demo_launch),
      (hist_demo_env, Piece 0), (hist_demo_env, Piece 1), (hist_demo_env, StartBackfill hist_demo_start),
      (hist_demo_env, Piece 2), (hist_demo_env, Direct (BindIdentity ''t'' ''worse'' ''rescue''))]"

theorem launch_keeps_terminal_witness:
  "case row_at 1 (hw_db (hist_run rival_calls (hist_demo_bound hist_demo_env))) of
     Some r \<Rightarrow> lr_pty_session_id r = Some ''t'' | None \<Rightarrow> True"
proof -
  obtain r where r: "row_at 1 (hw_db (hist_demo_bound hist_demo_env)) = Some r" "lr_pty_session_id r = Some ''t''"
    by (rule hist_demo_bound_at)
  show ?thesis
    by (rule launch_keeps_terminal [OF hist_demo_bound_facts(1) r]) (simp_all add: hist_demo_bound_facts(2) rival_calls_def)
qed

theorem identity_never_downgraded_witness:
  "case row_at 1 (hw_db (hist_run rival_calls (hist_demo_bound hist_demo_env))) of
     Some r \<Rightarrow> \<exists>rid source. lr_resume_session_id r = Some rid \<and> lr_resume_source r = Some source
       \<and> (rid = ''own'' \<and> source = ''issued'' \<or> source_priority ''issued'' \<le> source_priority source)
   | None \<Rightarrow> True"
proof -
  obtain r where r: "row_at 1 (hw_db (hist_demo_bound hist_demo_env)) = Some r"
    "lr_resume_session_id r = Some ''own''" "lr_resume_source r = Some ''issued''"
    by (rule hist_demo_bound_at)
  show ?thesis
    by (rule identity_never_downgraded [OF hist_demo_bound_facts(1) r])
      (simp_all add: hist_demo_bound_facts(2) rival_calls_def)
qed

definition early_event :: "(hist_env \<times> hist_call) list" where
  "early_event = (hist_demo_env, Direct (AddLaunch (Some ''t'') hist_demo_launch)) # (hist_demo_env, Detected (hist_demo_payload ''t''))
     # replicate 3 (hist_demo_env, Piece 0)"

lemma early_event_told:
  "hw_told (hist_run early_event hist_world_new) =
     [HistoryUpdated ''resume-binding'' (Some 1) (Some ''t'') ''own'' (Some ''osc-title'')]"
  unfolding early_event_def
  by (simp add: hist_demo_eval numeral_3_eq_3 look_up_def find_by_pty_session_id_def find_newest_def store_def cli_rejects_def
      announce_selected_def announcements_def)

theorem announced_identity_is_stored_witness:
  "\<exists>cs1 cs2 p s. early_event = cs1 @ cs2 \<and> Some ''t'' = Some p \<and> Some ''osc-title'' = Some s
     \<and> row_holds (hw_db (hist_run cs1 hist_world_new)) 1 p ''own'' s"
proof -
  have told: "HistoryUpdated ''resume-binding'' (Some 1) (Some ''t'') ''own'' (Some ''osc-title'')
      \<in> set (hw_told (hist_run early_event hist_world_new))" by (simp add: early_event_told)
  show ?thesis by (rule announced_identity_is_stored [OF told]) simp
qed

definition waiting_world :: hist_world where
  "waiting_world = hist_world_new\<lparr>hw_tasks := [Binding (hist_demo_payload ''t'') (Lookup False 0), Creating ''t'' hist_demo_launch (TryBind 0)]\<rparr>"

theorem binding_ends_witness:
  "task_at 0 (hist_run (replicate 62 (hist_demo_env, Piece 0)) waiting_world)
    = Some (Binding (hist_demo_payload ''t'') BindDone)"
  by (rule binding_ends) (simp_all add: task_at_def waiting_world_def is_piece_def filter_replicate)

lemma pieces_undisturbing: "db_works e \<Longrightarrow> undisturbed_run i launch pty cli (replicate k (e, Piece i)) w"
  by (induction k arbitrary: w) (simp_all add: undisturbing_def is_piece_def)

definition race_calls :: "(hist_env \<times> hist_call) list" where
  "race_calls = (hist_demo_env, Piece 1) # (hist_demo_env, Direct (AddLaunch None hist_demo_launch)) # (hist_demo_env, Piece 1)
     # replicate 62 (hist_demo_env, Piece 0)"

theorem identity_reaches_its_launch_witness:
  "\<exists>r. our_rows ''L'' ''t'' (hw_db (hist_run race_calls waiting_world)) = [r]
     \<and> bound_row ''L'' ''t'' ''codex'' ''own'' ''osc-title'' r"
proof (rule identity_reaches_its_launch [where i = 0 and p = "hist_demo_payload ''t''" and project = "''/app''"])
  have works: "db_works hist_demo_env" by (simp add: db_works_def hist_demo_env_def)
  show "undisturbed_run 0 ''L'' ''t'' ''codex'' race_calls waiting_world"
    using pieces_undisturbing [OF works]
    by (simp add: race_calls_def undisturbing_def is_piece_def waiting_world_def hist_world_new_def launch_db_new_def
        run_task_def bind_created_def bind_pty_session_def repo_bind_pty_session_def hist_demo_defs validate_model_id_def
        statement_def rows_where_def byte_def cont_def byte_in_def newest_def latest_of_def)
qed (simp_all add: waiting_world_def hist_world_new_def launch_db_new_def launch_db_ok_def our_rows_def rows_where_def
      task_at_def hist_demo_payload_def race_calls_def is_piece_def filter_replicate)

definition reused_world :: hist_world where
  "reused_world = (hist_demo_bound hist_demo_env)\<lparr>hw_tasks := [Binding (hist_demo_payload ''new'') (Lookup False 0), Creating ''new'' hist_demo_launch (TryBind 0)]\<rparr>"

theorem reused_launch_id_loses_identity_witness:
  "rows_where (\<lambda>s. lr_pty_session_id s = Some ''new'')
     (hw_db (hist_run (replicate 62 (hist_demo_env, Piece 0)) reused_world)) = []"
proof -
  have works: "db_works hist_demo_env" by (simp add: db_works_def hist_demo_env_def)
  obtain r where r: "taken ''L'' ''new'' r (hw_db reused_world)"
    using hist_demo_bound_row by (auto simp: taken_def reused_world_def our_rows_def rows_where_def ours_def)
  show ?thesis
    using reused_launch_id_loses_identity [OF r, of 0 "hist_demo_payload ''new''" "Lookup False 0"
        "''codex''" "replicate 62 (hist_demo_env, Piece 0)"] pieces_undisturbing [OF works]
    by (simp add: task_at_def reused_world_def hist_demo_payload_def)
qed

text \<open>
  A session whose identity was issued: the hook replaces it and its source, and then the scan of the
  neighbourhood, the least trusted source but one, replaces what the hook reported. And the rescue of old
  rows lists them first and writes later: an identity that the terminal's own title reported in between
  is replaced by one that a search of the files has guessed.
\<close>

theorem identity_lost_to_weaker_source:
  "map (\<lambda>r. (lr_resume_session_id r, lr_resume_source r)) (ld_rows (hw_db (hist_run
     [(hist_demo_env, HookStarted hist_demo_start), (hist_demo_env, Piece 0), (hist_demo_env, Piece 0),
      (hist_demo_env, Direct (BindIdentity ''t'' ''near'' ''rollout-scan''))] (hist_demo_bound hist_demo_env))))
   = [(Some ''near'', Some ''rollout-scan'')]
   \<and> map (\<lambda>r. (lr_resume_session_id r, lr_resume_source r)) (ld_rows (hw_db (hist_run
     [(hist_demo_env, Direct (AddLaunch (Some ''t'') hist_demo_launch)), (hist_demo_env, StartRescue), (hist_demo_env, Piece 0),
      (hist_demo_env, Direct (BindIdentity ''t'' ''own'' ''osc-title'')), (hist_demo_env, Piece 0), (hist_demo_env, Piece 0)]
     hist_world_new)))
   = [(Some ''near'', Some ''rescue'')]"
  unfolding hist_demo_bound_def by (simp add: hist_demo_eval)

end
