(* ===== verification/Web_Auth.thy ===== *)
theory Web_Auth
  imports Ws_Emitter
begin

text \<open>
  The gate of the web interface: \<open>cc-panes-web/src/web_auth.rs\<close>, the layers of \<open>routes/mod.rs\<close>, the
  terminal socket of \<open>ws_handler.rs\<close> and the password of \<open>models/settings.rs\<close>. A request of the
  protected group passes \<open>access_control\<close> and then \<open>read_only_guard\<close>; behind them stands the handler of
  the route, of which only the sockets and the change of the password are spelled out. The digest
  SHA-256, the source of random bytes and the parser of IP addresses are arguments; the clock is part
  of each call.
\<close>

subsection \<open>Settings and passwords\<close>

record web_access_settings =
  wa_allow_lan :: bool
  wa_ip_whitelist :: "string list"
  wa_auth_enabled :: bool
  wa_username :: string
  wa_password_salt :: "string option"
  wa_password_hash :: "string option"
  wa_lock_on_idle_minutes :: nat
  wa_remote_read_only :: bool
  wa_remote_authenticated_write :: bool

definition password_configured :: "web_access_settings \<Rightarrow> bool" where
  "password_configured s \<longleftrightarrow> wa_password_hash s \<noteq> None \<and> wa_password_salt s \<noteq> None"

definition auth_required :: "web_access_settings \<Rightarrow> bool" where
  "auth_required s \<longleftrightarrow> wa_auth_enabled s \<and> password_configured s"

definition hex_char :: "nat \<Rightarrow> char" where
  "hex_char n = (if n < 10 then char_of (48 + n) else char_of (87 + n))"

definition bytes_to_hex :: "bytes \<Rightarrow> string" where
  "bytes_to_hex bs = concat (map (\<lambda>b. [hex_char (byte b div 16), hex_char (byte b mod 16)]) bs)"

definition hex_digit_val :: "char \<Rightarrow> nat option" where
  "hex_digit_val c =
     (if byte_in 48 57 c then Some (byte c - 48)
      else if byte_in 97 102 c then Some (byte c - 87)
      else if byte_in 65 70 c then Some (byte c - 55) else None)"

text \<open>\<open>u8::from_str_radix(hex, 16)\<close> on two characters: a sign \<open>+\<close> may stand for the first.\<close>

definition hex_pair :: "char \<Rightarrow> char \<Rightarrow> nat option" where
  "hex_pair a b =
     (if a = CHR ''+'' then hex_digit_val b
      else case (hex_digit_val a, hex_digit_val b) of (Some m, Some n) \<Rightarrow> Some (16 * m + n) | _ \<Rightarrow> None)"

fun hex_pairs :: "bytes \<Rightarrow> bytes option" where
  "hex_pairs [] = Some []"
| "hex_pairs [a] = None"
| "hex_pairs (a # b # s) =
     (case (hex_pair a b, hex_pairs s) of (Some n, Some t) \<Rightarrow> Some (char_of n # t) | _ \<Rightarrow> None)"

definition hex_to_bytes :: "string \<Rightarrow> bytes option" where
  "hex_to_bytes s = hex_pairs (trim s)"

definition WEB_PASSWORD_HASH_ITERATIONS :: nat where "WEB_PASSWORD_HASH_ITERATIONS = 120000"

definition hash_web_password :: "(bytes \<Rightarrow> bytes) \<Rightarrow> bytes \<Rightarrow> string \<Rightarrow> string option" where
  "hash_web_password sha256 password salt_hex =
     map_option (\<lambda>salt. ''sha256:120000:'' @ bytes_to_hex
         (((\<lambda>digest. sha256 (digest @ salt)) ^^ WEB_PASSWORD_HASH_ITERATIONS) (password @ salt)))
       (hex_to_bytes salt_hex)"

text \<open>\<open>constant_time_eq\<close>: the differences of all bytes are collected before they are looked at.\<close>

definition constant_time_eq :: "bytes \<Rightarrow> bytes \<Rightarrow> bool" where
  "constant_time_eq left right =
     (if length left \<noteq> length right then False
      else foldl (\<lambda>acc (l, r). or acc (xor l r)) 0
             (zip (map (\<lambda>c. word_of_nat (byte c)) left) (map (\<lambda>c. word_of_nat (byte c)) right)) = (0 :: 8 word))"

definition verify_password :: "(bytes \<Rightarrow> bytes) \<Rightarrow> web_access_settings \<Rightarrow> bytes \<Rightarrow> bool" where
  "verify_password sha256 s password =
     (case (wa_password_salt s, wa_password_hash s) of
        (Some salt, Some expected) \<Rightarrow>
          (case hash_web_password sha256 password salt of
             Some actual \<Rightarrow> constant_time_eq actual expected | None \<Rightarrow> False)
      | _ \<Rightarrow> False)"

text \<open>\<open>set_password\<close>; the sixteen random bytes of the salt are an argument.\<close>

definition set_password :: "(bytes \<Rightarrow> bytes) \<Rightarrow> bytes \<Rightarrow> bytes \<Rightarrow> web_access_settings \<Rightarrow> web_access_settings option" where
  "set_password sha256 random password s =
     (let trimmed = trim password
      in if trimmed = [] then Some (s\<lparr>wa_password_salt := None, wa_password_hash := None\<rparr>)
         else let salt = bytes_to_hex random
              in map_option (\<lambda>hash. s\<lparr>wa_password_salt := Some salt, wa_password_hash := Some hash\<rparr>)
                   (hash_web_password sha256 trimmed salt))"

subsection \<open>Where a request comes from\<close>

datatype ip_addr = IpV4 "8 word" "8 word" "8 word" "8 word" | IpV6 "16 word list"

fun is_loopback :: "ip_addr \<Rightarrow> bool" where
  "is_loopback (IpV4 a b c d) = (a = 127)"
| "is_loopback (IpV6 segments) = (segments = [0, 0, 0, 0, 0, 0, 0, 1])"

datatype request_origin = Local | Remote

datatype http_method = MGet | MHead | MOptions | MPost | MOther string

record web_request =
  wr_remote_ip :: "ip_addr option"
  wr_header_names :: "string list"
  wr_cookie :: "bytes option"
  wr_method :: http_method
  wr_path :: string

definition classify_origin :: "web_request \<Rightarrow> request_origin" where
  "classify_origin q =
     (case wr_remote_ip q of
        None \<Rightarrow> Remote
      | Some ip \<Rightarrow>
          if \<not> is_loopback ip then Remote
          else if ''x-forwarded-for'' \<in> set (wr_header_names q) \<or> ''tailscale-user-login'' \<in> set (wr_header_names q)
          then Remote else Local)"

definition READ_ONLY_POST_ALLOWLIST :: "string list" where
  "READ_ONLY_POST_ALLOWLIST =
     [''/api/todos/query'', ''/api/task-bindings/query'', ''/api/memories/search'', ''/api/memories/format'',
      ''/api/runner/ports/conflicts'', ''/api/launch-profiles/preview'', ''/api/workspace-migrations/preview'',
      ''/api/project-migrations/preview'', ''/api/terminal/path-link/resolve'']"

definition effective_read_only :: "request_origin \<Rightarrow> web_access_settings \<Rightarrow> bool" where
  "effective_read_only origin s \<longleftrightarrow>
     origin = Remote \<and> wa_remote_read_only s \<and> \<not> (wa_remote_authenticated_write s \<and> auth_required s)"

definition read_only_denies :: "request_origin \<Rightarrow> bool \<Rightarrow> http_method \<Rightarrow> string \<Rightarrow> bool" where
  "read_only_denies origin read_only m route =
     (if \<not> read_only \<or> origin = Local then False
      else if m = MGet \<or> m = MHead \<or> m = MOptions then False
      else \<not> (m = MPost \<and> route \<in> set READ_ONLY_POST_ALLOWLIST))"

definition remote_allowed :: "(string \<Rightarrow> ip_addr option) \<Rightarrow> ip_addr \<Rightarrow> web_access_settings \<Rightarrow> bool" where
  "remote_allowed parse_ip ip s =
     (if is_loopback ip then True
      else if \<not> wa_allow_lan s \<or> \<not> auth_required s then False
      else if wa_ip_whitelist s = [] then True
      else list_ex (\<lambda>value. parse_ip value = Some ip) (wa_ip_whitelist s))"

subsection \<open>Sessions\<close>

definition SESSION_TTL :: duration where "SESSION_TTL = from_secs (60 * 60 * 24 * 7)"

type_synonym web_sessions = "string \<Rightarrow> instant option"

definition idle_timeout :: "web_access_settings \<Rightarrow> duration option" where
  "idle_timeout s = (if 0 < wa_lock_on_idle_minutes s then Some (from_secs (wa_lock_on_idle_minutes s * 60)) else None)"

text \<open>\<open>WebAuthStore\<close>; a token is 32 random bytes, printed in hexadecimal.\<close>

definition generate_token :: "bytes \<Rightarrow> string" where
  "generate_token random = bytes_to_hex random"

definition create_web_session :: "instant \<Rightarrow> bytes \<Rightarrow> web_sessions \<Rightarrow> string \<times> web_sessions" where
  "create_web_session now random ss = (let token = generate_token random in (token, ss(token \<mapsto> now)))"

definition validate_session :: "instant \<Rightarrow> string \<Rightarrow> duration option \<Rightarrow> web_sessions \<Rightarrow> bool \<times> web_sessions" where
  "validate_session now token idle ss =
     (let live = (\<lambda>t. case ss t of Some seen \<Rightarrow> if since now seen \<le> SESSION_TTL then Some seen else None | None \<Rightarrow> None)
      in case live token of
           None \<Rightarrow> (False, live)
         | Some seen \<Rightarrow>
             if (case idle of Some timeout \<Rightarrow> timeout < since now seen | None \<Rightarrow> False)
             then (False, live(token := None))
             else (True, live(token \<mapsto> now)))"

definition revoke_session :: "string \<Rightarrow> web_sessions \<Rightarrow> web_sessions" where
  "revoke_session token ss = ss(token := None)"

definition SESSION_COOKIE :: string where "SESSION_COOKIE = ''ccp_web_session''"

definition visible_ascii :: "char \<Rightarrow> bool" where
  "visible_ascii c \<longleftrightarrow> byte_in 32 126 c \<or> byte c = 9"

definition session_of_part :: "bytes \<Rightarrow> string option" where
  "session_of_part part =
     (case split_at_byte (CHR ''='') (trim part) of
        (name, Some value) \<Rightarrow> if name = SESSION_COOKIE \<and> value \<noteq> [] then Some value else None
      | (name, None) \<Rightarrow> None)"

definition session_from_request :: "web_request \<Rightarrow> string option" where
  "session_from_request q =
     (case wr_cookie q of
        Some cookie \<Rightarrow>
          if list_all visible_ascii cookie then first_some session_of_part (split_on (CHR '';'') cookie) else None
      | None \<Rightarrow> None)"

subsection \<open>The layers\<close>

datatype web_answer =
    Reached request_origin
  | ReadOnly
  | RemoteForbidden
  | Unauthorized

record web_env =
  we_now :: instant
  we_random :: bytes
  we_sha256 :: "bytes \<Rightarrow> bytes"
  we_parse_ip :: "string \<Rightarrow> ip_addr option"

text \<open>\<open>access_control\<close> and \<open>read_only_guard\<close> in the order of \<open>build_router\<close>: what is reached is the route.\<close>

definition access_control ::
  "web_env \<Rightarrow> web_access_settings \<Rightarrow> web_request \<Rightarrow> web_sessions \<Rightarrow> (web_answer + request_origin) \<times> web_sessions" where
  "access_control e s q ss =
     (if (case wr_remote_ip q of Some ip \<Rightarrow> \<not> remote_allowed (we_parse_ip e) ip s | None \<Rightarrow> False)
      then (Inl RemoteForbidden, ss)
      else
        let origin = classify_origin q
        in if \<not> auth_required s then (Inr origin, ss)
           else case session_from_request q of
                  None \<Rightarrow> (Inl Unauthorized, ss)
                | Some token \<Rightarrow>
                    (case validate_session (we_now e) token (idle_timeout s) ss of
                       (ok, ss1) \<Rightarrow> (if ok then Inr origin else Inl Unauthorized, ss1)))"

definition read_only_guard :: "web_access_settings \<Rightarrow> request_origin \<Rightarrow> web_request \<Rightarrow> web_answer" where
  "read_only_guard s origin q =
     (if read_only_denies origin (effective_read_only origin s) (wr_method q) (wr_path q) then ReadOnly
      else Reached origin)"

definition protected_route ::
  "web_env \<Rightarrow> web_access_settings \<Rightarrow> web_request \<Rightarrow> web_sessions \<Rightarrow> web_answer \<times> web_sessions" where
  "protected_route e s q ss =
     (case access_control e s q ss of
        (Inl err, ss1) \<Rightarrow> (err, ss1)
      | (Inr origin, ss1) \<Rightarrow> (read_only_guard s origin q, ss1))"

datatype login_answer = NotNeeded | Refused | LoggedIn string

definition login :: "web_env \<Rightarrow> web_access_settings \<Rightarrow> string \<Rightarrow> bytes \<Rightarrow> web_sessions \<Rightarrow> login_answer \<times> web_sessions" where
  "login e s username password ss =
     (if \<not> auth_required s then (NotNeeded, ss)
      else if trim username \<noteq> wa_username s \<or> \<not> verify_password (we_sha256 e) s password then (Refused, ss)
      else case create_web_session (we_now e) (we_random e) ss of (token, ss1) \<Rightarrow> (LoggedIn token, ss1))"

definition logout :: "web_request \<Rightarrow> web_sessions \<Rightarrow> web_sessions" where
  "logout q ss = (case session_from_request q of Some token \<Rightarrow> revoke_session token ss | None \<Rightarrow> ss)"

record auth_status =
  as_auth_required :: bool
  as_authenticated :: bool
  as_username :: string
  as_password_configured :: bool
  as_allow_lan :: bool
  as_lock_on_idle_minutes :: nat
  as_read_only :: bool
  as_remote_authenticated_write :: bool

text \<open>\<open>status\<close> asks the store only where a login is needed.\<close>

definition web_status :: "web_env \<Rightarrow> web_access_settings \<Rightarrow> web_request \<Rightarrow> web_sessions \<Rightarrow> auth_status \<times> web_sessions" where
  "web_status e s q ss =
     (let (authenticated, ss1) =
            (if \<not> auth_required s then (True, ss)
             else case session_from_request q of
                    None \<Rightarrow> (False, ss)
                  | Some token \<Rightarrow> validate_session (we_now e) token (idle_timeout s) ss);
          origin = classify_origin q
      in (\<lparr>as_auth_required = auth_required s, as_authenticated = authenticated, as_username = wa_username s,
           as_password_configured = password_configured s, as_allow_lan = wa_allow_lan s,
           as_lock_on_idle_minutes = wa_lock_on_idle_minutes s,
           as_read_only = effective_read_only origin s
             \<or> (wa_remote_read_only s \<and> origin = Remote \<and> \<not> authenticated),
           as_remote_authenticated_write = wa_remote_authenticated_write s\<rparr>, ss1))"

subsection \<open>The terminal socket\<close>

datatype web_backend_call = TypeText string bytes | ResizeTo string "16 word" "16 word"

text \<open>\<open>handle_client_message\<close>: \<open>None\<close> is a text that is no JSON; a size is cut to 16 bits.\<close>

definition size_or :: "nat \<Rightarrow> json option \<Rightarrow> 16 word" where
  "size_or n v = ucast (case Option.bind v as_u64 of Some w \<Rightarrow> w | None \<Rightarrow> (word_of_nat n :: 64 word))"

definition handle_client_message :: "string \<Rightarrow> bool \<Rightarrow> json option \<Rightarrow> web_backend_call list" where
  "handle_client_message sid read_only message =
     (case message of
        None \<Rightarrow> []
      | Some msg \<Rightarrow>
          let kind = str_or [] (get_str ''type'' msg)
          in if read_only \<and> (kind = ''input'' \<or> kind = ''resize'') then []
             else if kind = ''input'' then [TypeText sid (str_or [] (get_str ''data'' msg))]
             else if kind = ''resize'' then
               [ResizeTo sid (size_or 80 (json_get ''cols'' msg)) (size_or 24 (json_get ''rows'' msg))]
             else [])"

datatype ws_frame = WsText "json option" | WsBinary bytes | WsClose | WsOther

definition handle_frame :: "string \<Rightarrow> bool \<Rightarrow> ws_frame \<Rightarrow> web_backend_call list" where
  "handle_frame sid read_only f =
     (case f of
        WsText message \<Rightarrow> handle_client_message sid read_only message
      | WsBinary data \<Rightarrow>
          if read_only then [] else (case from_utf8 data of Some t \<Rightarrow> [TypeText sid t] | None \<Rightarrow> [])
      | _ \<Rightarrow> [])"


subsection \<open>Runs\<close>

text \<open>\<open>merge_missing_defaults\<close> is applied whenever settings are saved.\<close>

definition web_merge_missing_defaults :: "web_access_settings \<Rightarrow> web_access_settings" where
  "web_merge_missing_defaults s =
     s\<lparr>wa_username := (if trim (wa_username s) = [] then ''admin'' else trim (wa_username s)),
       wa_ip_whitelist := filter (\<lambda>v. v \<noteq> []) (map trim (wa_ip_whitelist s)),
       wa_lock_on_idle_minutes := (if 24 * 60 < wa_lock_on_idle_minutes s then 30 else wa_lock_on_idle_minutes s),
       wa_password_hash := (if wa_password_hash s = Some [] then None else wa_password_hash s),
       wa_password_salt := (if wa_password_salt s = Some [] then None else wa_password_salt s)\<rparr>"

record web_socket =
  wk_session :: string
  wk_read_only :: bool

record web_world =
  ww_settings :: web_access_settings
  ww_sessions :: web_sessions
  ww_sockets :: "web_socket list"
  ww_backend :: "(nat \<times> web_backend_call) list"

text \<open>\<open>ww_sockets\<close> are the sockets in the order in which they were opened, \<open>ww_backend\<close> the calls to the
  backend, each with the number of the socket that made it.\<close>

text \<open>The clients' requests, and the user at the desktop, who may save any settings at any time.\<close>

datatype web_call =
    WebLogin string bytes
  | WebLogout web_request
  | WebStatus web_request
  | WebRequest web_request
  | OpenSocket string web_request
  | SocketFrame nat ws_frame
  | WebSetPassword web_request bytes
  | SaveSettings web_access_settings
  | DesktopSetPassword bytes

definition store_password :: "web_env \<Rightarrow> bytes \<Rightarrow> web_world \<Rightarrow> web_world" where
  "store_password e pw w =
     (case set_password (we_sha256 e) (we_random e) pw (ww_settings w) of
        Some s \<Rightarrow> w\<lparr>ww_settings := web_merge_missing_defaults s\<rparr> | None \<Rightarrow> w)"

definition reached :: "web_answer \<Rightarrow> bool" where
  "reached a \<longleftrightarrow> (\<exists>origin. a = Reached origin)"

lemma reached_simps [simp]: "reached (Reached origin)" "\<not> reached ReadOnly" "\<not> reached RemoteForbidden" "\<not> reached Unauthorized"
  by (simp_all add: reached_def)

fun web_exec :: "web_env \<times> web_call \<Rightarrow> web_world \<Rightarrow> web_world" where
  "web_exec (e, WebLogin user pw) w = w\<lparr>ww_sessions := snd (login e (ww_settings w) user pw (ww_sessions w))\<rparr>"
| "web_exec (e, WebLogout q) w = w\<lparr>ww_sessions := logout q (ww_sessions w)\<rparr>"
| "web_exec (e, WebStatus q) w = w\<lparr>ww_sessions := snd (web_status e (ww_settings w) q (ww_sessions w))\<rparr>"
| "web_exec (e, WebRequest q) w = w\<lparr>ww_sessions := snd (protected_route e (ww_settings w) q (ww_sessions w))\<rparr>"
| "web_exec (e, OpenSocket sid q) w =
     (case protected_route e (ww_settings w) (q\<lparr>wr_method := MGet\<rparr>) (ww_sessions w) of
        (Reached origin, ss) \<Rightarrow>
          w\<lparr>ww_sessions := ss,
            ww_sockets := ww_sockets w @ [\<lparr>wk_session = sid, wk_read_only = effective_read_only origin (ww_settings w)\<rparr>]\<rparr>
      | (_, ss) \<Rightarrow> w\<lparr>ww_sessions := ss\<rparr>)"
| "web_exec (e, SocketFrame i f) w =
     (if i < length (ww_sockets w)
      then w\<lparr>ww_backend := ww_backend w
               @ map (Pair i) (handle_frame (wk_session (ww_sockets w ! i)) (wk_read_only (ww_sockets w ! i)) f)\<rparr>
      else w)"
| "web_exec (e, WebSetPassword q pw) w =
     (case protected_route e (ww_settings w) (q\<lparr>wr_method := MPost, wr_path := ''/api/settings/web-access/password''\<rparr>)
             (ww_sessions w) of
        (Reached origin, ss) \<Rightarrow> store_password e pw (w\<lparr>ww_sessions := ss\<rparr>)
      | (_, ss) \<Rightarrow> w\<lparr>ww_sessions := ss\<rparr>)"
| "web_exec (e, SaveSettings s) w = w\<lparr>ww_settings := web_merge_missing_defaults s\<rparr>"
| "web_exec (e, DesktopSetPassword pw) w = store_password e pw w"

definition web_run :: "(web_env \<times> web_call) list \<Rightarrow> web_world \<Rightarrow> web_world" where
  "web_run cs w = fold web_exec cs w"

lemma web_run_simps [simp]:
  "web_run [] w = w" "web_run (c # cs) w = web_run cs (web_exec c w)" "web_run (cs @ ds) w = web_run ds (web_run cs w)"
  by (simp_all add: web_run_def)

subsection \<open>The gate, exactly\<close>

definition direct_local :: "web_request \<Rightarrow> bool" where
  "direct_local q \<longleftrightarrow> (\<exists>ip. wr_remote_ip q = Some ip \<and> is_loopback ip)
     \<and> ''x-forwarded-for'' \<notin> set (wr_header_names q) \<and> ''tailscale-user-login'' \<notin> set (wr_header_names q)"

definition network_admits :: "(string \<Rightarrow> ip_addr option) \<Rightarrow> web_access_settings \<Rightarrow> web_request \<Rightarrow> bool" where
  "network_admits parse_ip s q \<longleftrightarrow>
     (case wr_remote_ip q of
        None \<Rightarrow> True
      | Some ip \<Rightarrow> is_loopback ip
          \<or> (wa_allow_lan s \<and> auth_required s
             \<and> (wa_ip_whitelist s = [] \<or> (\<exists>v \<in> set (wa_ip_whitelist s). parse_ip v = Some ip))))"

definition session_alive :: "instant \<Rightarrow> web_access_settings \<Rightarrow> string \<Rightarrow> web_sessions \<Rightarrow> bool" where
  "session_alive now s token ss \<longleftrightarrow>
     (\<exists>seen. ss token = Some seen \<and> since now seen \<le> SESSION_TTL
        \<and> (0 < wa_lock_on_idle_minutes s \<longrightarrow> since now seen \<le> from_secs (wa_lock_on_idle_minutes s * 60)))"

definition only_reads :: "web_request \<Rightarrow> bool" where
  "only_reads q \<longleftrightarrow> wr_method q \<in> {MGet, MHead, MOptions}
     \<or> (wr_method q = MPost \<and> wr_path q \<in> set READ_ONLY_POST_ALLOWLIST)"

lemma classify_origin_iff: "classify_origin q = Local \<longleftrightarrow> direct_local q"
  by (auto simp: classify_origin_def direct_local_def split: option.split)

lemma validate_iff: "fst (validate_session now token (idle_timeout s) ss) \<longleftrightarrow> session_alive now s token ss"
  by (auto simp: validate_session_def session_alive_def idle_timeout_def Let_def split: option.split)

lemma remote_allowed_iff:
  "(case wr_remote_ip q of Some ip \<Rightarrow> \<not> remote_allowed parse_ip ip s | None \<Rightarrow> False) \<longleftrightarrow> \<not> network_admits parse_ip s q"
  by (auto simp: remote_allowed_def network_admits_def list_ex_iff split: option.split)

lemma gate_exact:
  "reached (fst (protected_route e s q ss)) \<longleftrightarrow>
     network_admits (we_parse_ip e) s q
     \<and> (auth_required s \<longrightarrow> (\<exists>token. session_from_request q = Some token \<and> session_alive (we_now e) s token ss))
     \<and> (only_reads q \<or> direct_local q \<or> \<not> wa_remote_read_only s
        \<or> (wa_remote_authenticated_write s \<and> auth_required s))"
proof -
  have guard: "reached (read_only_guard s (classify_origin q) q) \<longleftrightarrow>
      only_reads q \<or> direct_local q \<or> \<not> wa_remote_read_only s \<or> (wa_remote_authenticated_write s \<and> auth_required s)"
    using classify_origin_iff [of q] request_origin.exhaust [of "classify_origin q"]
    by (auto simp: read_only_guard_def read_only_denies_def effective_read_only_def only_reads_def)
  have access: "(\<exists>ss1. access_control e s q ss = (Inr (classify_origin q), ss1)) \<or> (\<exists>err ss1. access_control e s q ss = (Inl err, ss1) \<and> \<not> reached err)"
    by (auto simp: access_control_def Let_def split: option.split prod.split)
  have ok: "(\<exists>ss1. access_control e s q ss = (Inr (classify_origin q), ss1)) \<longleftrightarrow>
      network_admits (we_parse_ip e) s q
      \<and> (auth_required s \<longrightarrow> (\<exists>token. session_from_request q = Some token \<and> session_alive (we_now e) s token ss))"
    unfolding access_control_def remote_allowed_iff Let_def
    by (auto simp: validate_iff [symmetric] split: option.split prod.split)
  show ?thesis
    using access guard ok by (auto simp: protected_route_def)
qed

definition session_admits :: "instant \<Rightarrow> web_access_settings \<Rightarrow> web_request \<Rightarrow> web_sessions \<Rightarrow> bool" where
  "session_admits now s q ss \<longleftrightarrow>
     (auth_required s \<longrightarrow> (\<exists>token. session_from_request q = Some token \<and> session_alive now s token ss))"

definition mode_admits :: "web_access_settings \<Rightarrow> web_request \<Rightarrow> bool" where
  "mode_admits s q \<longleftrightarrow>
     only_reads q \<or> direct_local q \<or> \<not> wa_remote_read_only s
     \<or> (wa_remote_authenticated_write s \<and> auth_required s)"

text \<open>C17: The gate of the web interface, exactly. A request of the protected group reaches its handler if and only
  if the network admits it (a loopback address, or an allowed address of the local network while a
  password is set and required), it carries the cookie of a session that is alive whenever a password is
  required, and it only reads, comes directly from this machine, or no read-only mode binds it: the mode
  is off, or logged-in remote users may write and a password is required.\<close>

theorem web_gate_exact:
  "reached (fst (protected_route e s q ss)) \<longleftrightarrow>
     network_admits (we_parse_ip e) s q \<and> session_admits (we_now e) s q ss \<and> mode_admits s q"
  unfolding session_admits_def mode_admits_def by (rule gate_exact)


subsection \<open>Sessions come from logins\<close>

definition within_limits :: "instant \<Rightarrow> web_access_settings \<Rightarrow> instant \<Rightarrow> bool" where
  "within_limits now s seen \<longleftrightarrow> since now seen \<le> SESSION_TTL
     \<and> (wa_lock_on_idle_minutes s = 0 \<or> since now seen \<le> from_secs (wa_lock_on_idle_minutes s * 60))"

lemma alive_within: "session_alive now s token ss \<longleftrightarrow> (\<exists>seen. ss token = Some seen \<and> within_limits now s seen)"
  by (auto simp: session_alive_def within_limits_def)

text \<open>The calls that show a token to the store: a request of the protected group that the network admits,
  and a question for the status, while a password is required.\<close>

fun shows_token :: "web_env \<times> web_call \<Rightarrow> web_access_settings \<Rightarrow> string \<Rightarrow> bool" where
  "shows_token (e, WebStatus q) s token \<longleftrightarrow> auth_required s \<and> session_from_request q = Some token"
| "shows_token (e, WebRequest q) s token \<longleftrightarrow>
     network_admits (we_parse_ip e) s q \<and> auth_required s \<and> session_from_request q = Some token"
| "shows_token (e, OpenSocket sid q) s token \<longleftrightarrow>
     network_admits (we_parse_ip e) s q \<and> auth_required s \<and> session_from_request q = Some token"
| "shows_token (e, WebSetPassword q pw) s token \<longleftrightarrow>
     network_admits (we_parse_ip e) s q \<and> auth_required s \<and> session_from_request q = Some token"
| "shows_token _ s token \<longleftrightarrow> False"

definition logs_in :: "web_env \<times> web_call \<Rightarrow> string \<Rightarrow> web_world \<Rightarrow> bool" where
  "logs_in c token w \<longleftrightarrow> (\<exists>user pw. snd c = WebLogin user pw \<and> auth_required (ww_settings w)
     \<and> trim user = wa_username (ww_settings w) \<and> verify_password (we_sha256 (fst c)) (ww_settings w) pw
     \<and> token = generate_token (we_random (fst c)))"

definition logs_out :: "string \<Rightarrow> web_env \<times> web_call \<Rightarrow> bool" where
  "logs_out token c \<longleftrightarrow> (\<exists>q. snd c = WebLogout q \<and> session_from_request q = Some token)"

text \<open>\<open>kept_alive w cs token seen\<close>: in the run \<open>cs\<close> from \<open>w\<close> somebody logged in and got the token; nobody has
  logged it out since; whenever it was shown, its last use was within the limits of that moment; and \<open>seen\<close> is the
  time of its last use, by the login or by a call that showed this very token.\<close>

inductive kept_alive :: "web_world \<Rightarrow> (web_env \<times> web_call) list \<Rightarrow> string \<Rightarrow> instant \<Rightarrow> bool" for w where
  opened: "logs_in c token (web_run cs w) \<Longrightarrow> kept_alive w (cs @ [c]) token (we_now (fst c))"
| unused: "kept_alive w cs token seen \<Longrightarrow> \<not> logs_out token c
    \<Longrightarrow> \<not> shows_token c (ww_settings (web_run cs w)) token \<Longrightarrow> kept_alive w (cs @ [c]) token seen"
| used: "kept_alive w cs token seen0 \<Longrightarrow> shows_token c (ww_settings (web_run cs w)) token
    \<Longrightarrow> within_limits (we_now (fst c)) (ww_settings (web_run cs w)) seen0
    \<Longrightarrow> kept_alive w (cs @ [c]) token (we_now (fst c))"

text \<open>What a call leaves of a session.\<close>

definition stays_from ::
  "bool \<Rightarrow> instant \<Rightarrow> web_access_settings \<Rightarrow> instant option \<Rightarrow> instant \<Rightarrow> bool" where
  "stays_from shown now s before seen \<longleftrightarrow>
     (if shown then seen = now \<and> (\<exists>seen0. before = Some seen0 \<and> within_limits now s seen0) else before = Some seen)"

lemma validate_stays:
  assumes "validate_session now token (idle_timeout s) ss = (ok, ss1)" and "ss1 t = Some seen"
  shows "stays_from (token = t) now s (ss t) seen"
  using assms
  by (auto simp: validate_session_def stays_from_def within_limits_def idle_timeout_def Let_def
      split: option.splits if_splits)

lemma access_stays:
  assumes "access_control e s q ss = (x, ss1)" and "ss1 t = Some seen"
  shows "stays_from (network_admits (we_parse_ip e) s q \<and> auth_required s \<and> session_from_request q = Some t)
    (we_now e) s (ss t) seen"
proof (cases "network_admits (we_parse_ip e) s q \<and> auth_required s")
  case True
  show ?thesis
  proof (cases "session_from_request q")
    case None
    then show ?thesis using assms True unfolding access_control_def remote_allowed_iff Let_def
      by (simp add: stays_from_def)
  next
    case (Some token)
    obtain ok ss2 where v: "validate_session (we_now e) token (idle_timeout s) ss = (ok, ss2)" by fastforce
    then have "ss2 = ss1" using assms(1) True Some unfolding access_control_def remote_allowed_iff Let_def by simp
    then show ?thesis using validate_stays [OF v, of t seen] assms(2) True Some by simp
  qed
next
  case False
  then show ?thesis using assms unfolding access_control_def remote_allowed_iff Let_def
    by (auto simp: stays_from_def split: option.splits if_splits)
qed

lemma protected_stays:
  "snd (protected_route e s q ss) t = Some seen \<Longrightarrow>
    stays_from (network_admits (we_parse_ip e) s q \<and> auth_required s \<and> session_from_request q = Some t)
      (we_now e) s (ss t) seen"
  by (auto simp: protected_route_def split: prod.splits sum.splits dest!: access_stays [where t = t and seen = seen])

lemma status_stays:
  "snd (web_status e s q ss) t = Some seen \<Longrightarrow>
    stays_from (auth_required s \<and> session_from_request q = Some t) (we_now e) s (ss t) seen"
proof (cases "auth_required s")
  case True
  assume a: "snd (web_status e s q ss) t = Some seen"
  show ?thesis
  proof (cases "session_from_request q")
    case None
    then show ?thesis using a True by (simp add: web_status_def stays_from_def Let_def)
  next
    case (Some token)
    obtain ok ss2 where v: "validate_session (we_now e) token (idle_timeout s) ss = (ok, ss2)" by fastforce
    then have "ss2 t = Some seen" using a True Some by (simp add: web_status_def Let_def)
    then show ?thesis using validate_stays [OF v, of t seen] True Some by simp
  qed
qed (simp add: web_status_def stays_from_def Let_def)

lemma logout_same: "logout q ss t = Some seen \<Longrightarrow> ss t = Some seen \<and> session_from_request q \<noteq> Some t"
  by (auto simp: logout_def revoke_session_def split: option.splits if_splits)

lemma same_gate [simp]:
  "session_from_request (q\<lparr>wr_method := m\<rparr>) = session_from_request q"
  "session_from_request (q\<lparr>wr_method := m, wr_path := p\<rparr>) = session_from_request q"
  "network_admits f s (q\<lparr>wr_method := m\<rparr>) = network_admits f s q"
  "network_admits f s (q\<lparr>wr_method := m, wr_path := p\<rparr>) = network_admits f s q"
  "direct_local (q\<lparr>wr_method := m\<rparr>) = direct_local q"
  by (simp_all add: session_from_request_def network_admits_def direct_local_def)

lemma step_session:
  assumes "ww_sessions (web_exec c w) t = Some seen"
  shows "logs_in c t w \<and> seen = we_now (fst c)
    \<or> \<not> logs_out t c
      \<and> stays_from (shows_token c (ww_settings w) t) (we_now (fst c)) (ww_settings w) (ww_sessions w t) seen"
proof -
  obtain e x where c: "c = (e, x)" by (cases c)
  show ?thesis
  proof (cases x)
    case (WebLogin user pw)
    then show ?thesis using assms
      by (auto simp: c login_def create_web_session_def Let_def logs_in_def logs_out_def stays_from_def split: if_splits)
  next
    case (WebLogout q)
    then show ?thesis using assms logout_same [of q "ww_sessions w" t seen]
      by (auto simp: c logs_out_def stays_from_def)
  next
    case (WebStatus q)
    then show ?thesis using assms status_stays [of e "ww_settings w" q "ww_sessions w" t seen] by (auto simp: c logs_out_def)
  next
    case (WebRequest q)
    then show ?thesis using assms protected_stays [of e "ww_settings w" q "ww_sessions w" t seen] by (auto simp: c logs_out_def)
  next
    case (OpenSocket sid q)
    then have "snd (protected_route e (ww_settings w) (q\<lparr>wr_method := MGet\<rparr>) (ww_sessions w)) t = Some seen"
      using assms by (auto simp: c split: prod.splits web_answer.splits)
    from protected_stays [OF this] show ?thesis using OpenSocket by (auto simp: c logs_out_def)
  next
    case (WebSetPassword q pw)
    then have "snd (protected_route e (ww_settings w) (q\<lparr>wr_method := MPost, wr_path := ''/api/settings/web-access/password''\<rparr>)
        (ww_sessions w)) t = Some seen"
      using assms by (auto simp: c store_password_def split: prod.splits web_answer.splits option.splits)
    from protected_stays [OF this] show ?thesis using WebSetPassword by (auto simp: c logs_out_def)
  qed (use assms in \<open>auto simp: c logs_out_def stays_from_def store_password_def split: option.splits if_splits\<close>)
qed

lemma sessions_come_from_logins:
  assumes "ww_sessions w = Map.empty"
  shows "ww_sessions (web_run cs w) token = Some seen \<Longrightarrow> kept_alive w cs token seen"
proof (induction cs arbitrary: seen rule: rev_induct)
  case Nil
  then show ?case using assms by simp
next
  case (snoc c cs)
  then have "ww_sessions (web_exec c (web_run cs w)) token = Some seen" by simp
  from step_session [OF this] show ?case
  proof
    assume "logs_in c token (web_run cs w) \<and> seen = we_now (fst c)"
    then show ?thesis using kept_alive.opened by blast
  next
    let ?s = "ww_settings (web_run cs w)"
    assume old: "\<not> logs_out token c
      \<and> stays_from (shows_token c ?s token) (we_now (fst c)) ?s (ww_sessions (web_run cs w) token) seen"
    show ?thesis
    proof (cases "shows_token c ?s token")
      case True
      then obtain seen0 where "ww_sessions (web_run cs w) token = Some seen0"
          "within_limits (we_now (fst c)) ?s seen0" "seen = we_now (fst c)"
        using old by (auto simp: stays_from_def)
      then show ?thesis using snoc.IH [of seen0] kept_alive.used [of w cs token seen0 c] True by simp
    next
      case False
      then have "ww_sessions (web_run cs w) token = Some seen" using old by (simp add: stays_from_def)
      then show ?thesis using snoc.IH [of seen] kept_alive.unused [of w cs token seen c] False old by simp
    qed
  qed
qed

text \<open>C15: Where a password is required, a protected handler is reached only by a request that carries the token
  of a session which somebody opened by logging in, with the user name and a password that matched at that
  time, in a run that began without sessions. Nobody has logged this session out since; between its uses,
  and from its last use to this request, there passed at most seven days and at most the idle time that
  locks the interface, as it was set at the moment of each use; and only a call that carried this very token
  counts as a use of it.\<close>

theorem admitted_only_after_login:
  assumes "ww_sessions w = Map.empty" and "auth_required (ww_settings (web_run cs w))"
    and "reached (fst (protected_route e (ww_settings (web_run cs w)) q (ww_sessions (web_run cs w))))"
  shows "\<exists>token seen. session_from_request q = Some token \<and> kept_alive w cs token seen
    \<and> within_limits (we_now e) (ww_settings (web_run cs w)) seen"
proof -
  obtain token where "session_from_request q = Some token"
      "session_alive (we_now e) (ww_settings (web_run cs w)) token (ww_sessions (web_run cs w))"
    using assms(2,3) gate_exact by blast
  then show ?thesis
    using sessions_come_from_logins [OF assms(1)] unfolding alive_within by blast
qed

subsection \<open>The socket types for admitted clients\<close>










text \<open>The mode of a socket is fixed when it is opened: neither a logout nor a change of the settings reaches it.\<close>

lemma socket_keeps_mode:
  "i < length (ww_sockets w) \<Longrightarrow>
   i < length (ww_sockets (web_run cs w)) \<and> ww_sockets (web_run cs w) ! i = ww_sockets w ! i"
proof (induction cs arbitrary: w)
  case (Cons c cs)
  obtain e x where c: "c = (e, x)" by (cases c)
  have "i < length (ww_sockets (web_exec c w)) \<and> ww_sockets (web_exec c w) ! i = ww_sockets w ! i"
    using Cons.prems
    by (cases x) (auto simp: c nth_append store_password_def split: prod.split web_answer.split option.split)
  then show ?case using Cons.IH [of "web_exec c w"] by simp
qed simp

subsection \<open>Passwords\<close>

lemma foldl_or_zero:
  "foldl (\<lambda>acc (l, r). or acc (xor l r)) a (zip ls rs) = 0 \<longleftrightarrow>
   a = (0 :: 'a::len word) \<and> list_all (\<lambda>(l, r). l = r) (zip ls rs)"
proof (induction "zip ls rs" arbitrary: a ls rs)
  case (Cons p ps)
  then obtain l ls' r rs' where "ls = l # ls'" "rs = r # rs'" "p = (l, r)" "ps = zip ls' rs'"
    by (cases ls; cases rs; auto)
  moreover have "or a (xor l r) = 0 \<longleftrightarrow> a = 0 \<and> l = r" for l r :: "'a word"
    by (auto simp: bit_eq_iff bit_simps)
  ultimately show ?case using Cons.hyps(1) [of ls' rs' "or a (xor l r)"] by simp
qed auto

lemma constant_time_eq_iff: "constant_time_eq left right \<longleftrightarrow> left = right"
proof -
  have byte: "(word_of_nat (byte a) :: 8 word) = word_of_nat (byte b) \<longleftrightarrow> a = b" for a b
    by (auto simp: word_of_nat_eq_iff take_bit_eq_mod byte_def dest: of_char_eq_iff [THEN iffD1])
  have "length left = length right \<Longrightarrow>
      list_all (\<lambda>(l, r). l = r) (zip (map (\<lambda>c. word_of_nat (byte c) :: 8 word) left) (map (\<lambda>c. word_of_nat (byte c)) right))
      \<longleftrightarrow> left = right"
    by (induction left right rule: list_induct2) (simp_all add: byte)
  then show ?thesis by (auto simp: constant_time_eq_def foldl_or_zero)
qed

definition graphic :: "char \<Rightarrow> bool" where
  "graphic c = byte_in 33 126 c"

lemma unicode_ws_not_graphic: "list_all (\<lambda>w. \<not> graphic (hd w) \<and> \<not> graphic (last w)) unicode_ws"
  by (simp add: unicode_ws_def graphic_def byte_in_def byte_def)

lemma trim_graphic: "list_all graphic s \<Longrightarrow> trim s = s"
proof -
  assume s: "list_all graphic s"
  have "\<not> prefix w s \<and> \<not> suffix w s" if "w \<in> set unicode_ws" for w
  proof -
    have w: "w \<noteq> []" "\<not> graphic (hd w)" "\<not> graphic (last w)"
      using that unicode_ws_not_graphic unicode_ws_nonempty by (auto simp: list_all_iff)
    then show ?thesis using s hd_in_set [of w] last_in_set [of w]
      by (auto simp: prefix_def suffix_def list_all_iff)
  qed
  then have "ws_at_front s = None" "ws_at_end s = None"
    by (auto simp: ws_at_front_def ws_at_end_def find_None_iff)
  then show ?thesis by (simp add: trim_def trim_start.simps trim_end.simps)
qed

lemma less_sixteen: "n < 16 \<Longrightarrow> n \<in> {0, 1, 2, 3, 4, 5, 6, 7, 8, 9, 10, 11, 12, 13, 14, 15 :: nat}"
  by (simp, presburger)

lemma hex_digit_char: "n < 16 \<Longrightarrow> hex_digit_val (hex_char n) = Some n \<and> graphic (hex_char n) \<and> hex_char n \<noteq> CHR ''+''"
  using less_sixteen [of n]
  by (auto simp: hex_digit_val_def hex_char_def byte_in_def byte_def graphic_def char_of_eq_iff)

lemma hex_pairs_of_bytes: "hex_pairs (bytes_to_hex bs) = Some bs"
proof (induction bs)
  case (Cons b bs)
  have digits: "byte b div 16 < 16" "byte b mod 16 < 16" using byte_less_256 [of b] by auto
  have "hex_pair (hex_char (byte b div 16)) (hex_char (byte b mod 16)) = Some (byte b)"
    using hex_digit_char [OF digits(1)] hex_digit_char [OF digits(2)] by (simp add: hex_pair_def)
  moreover have "bytes_to_hex (b # bs) = hex_char (byte b div 16) # hex_char (byte b mod 16) # bytes_to_hex bs"
    by (simp add: bytes_to_hex_def)
  ultimately show ?case using Cons by (simp add: byte_def)
qed (simp add: bytes_to_hex_def)

lemma hex_roundtrip: "hex_to_bytes (bytes_to_hex bs) = Some bs"
proof -
  have "list_all graphic (bytes_to_hex bs)"
    using hex_digit_char byte_less_256 by (induction bs) (simp_all add: bytes_to_hex_def less_mult_imp_div_less)
  then show ?thesis by (simp add: hex_to_bytes_def trim_graphic hex_pairs_of_bytes)
qed

lemma set_password_verifies:
  assumes "set_password sha256 random password s = Some s1" and "trim password \<noteq> []"
  shows "verify_password sha256 s1 typed \<longleftrightarrow>
    hash_web_password sha256 typed (bytes_to_hex random) = hash_web_password sha256 (trim password) (bytes_to_hex random)"
  using assms by (auto simp: set_password_def verify_password_def Let_def constant_time_eq_iff split: option.split)


text \<open>The password that was set opens the interface, typed without the blanks around it; typed as it was set,
  only if the digests of both agree. And a new password closes no session that an old one opened.\<close>

lemma new_password_logs_in:
  assumes "trim password \<noteq> []"
  obtains s1 where "set_password sha256 random password s = Some s1" "verify_password sha256 s1 (trim password)"
proof -
  have "\<exists>h. hash_web_password sha256 (trim password) (bytes_to_hex random) = Some h"
    by (simp add: hash_web_password_def hex_roundtrip)
  then obtain s1 where s1: "set_password sha256 random password s = Some s1"
    using assms by (auto simp: set_password_def Let_def)
  then show ?thesis using that set_password_verifies [OF s1 assms] by simp
qed

lemma blanks_lock_out:
  assumes "set_password sha256 random password s = Some s1" and "trim password \<noteq> []"
    and "hash_web_password sha256 password (bytes_to_hex random) \<noteq> hash_web_password sha256 (trim password) (bytes_to_hex random)"
  shows "\<not> verify_password sha256 s1 password"
  using set_password_verifies [OF assms(1,2)] assms(3) by simp

lemma password_change_keeps_sessions:
  "ww_sessions (web_exec (e, DesktopSetPassword pw) w) = ww_sessions w"
  by (simp add: store_password_def split: option.split)

subsection \<open>Examples\<close>

definition web_demo_settings :: web_access_settings where
  "web_demo_settings =
     \<lparr>wa_allow_lan = True, wa_ip_whitelist = [], wa_auth_enabled = True, wa_username = ''admin'',
      wa_password_salt = Some ''00'', wa_password_hash = Some ''sha256:120000:'', wa_lock_on_idle_minutes = 30,
      wa_remote_read_only = True, wa_remote_authenticated_write = True\<rparr>"

definition web_demo_env :: "instant \<Rightarrow> web_env" where
  "web_demo_env now = \<lparr>we_now = now, we_random = [CHR ''a''], we_sha256 = (\<lambda>x. []), we_parse_ip = (\<lambda>x. None)\<rparr>"

definition web_demo_request :: web_request where
  "web_demo_request =
     \<lparr>wr_remote_ip = Some (IpV4 192 168 1 10), wr_header_names = [''cookie''],
      wr_cookie = Some ''ccp_web_session=61'', wr_method = MPost, wr_path = ''/api/sessions''\<rparr>"

definition web_demo_world :: web_world where
  "web_demo_world = \<lparr>ww_settings = web_demo_settings, ww_sessions = Map.empty, ww_sockets = [], ww_backend = []\<rparr>"

definition web_demo_calls :: "(web_env \<times> web_call) list" where
  "web_demo_calls = [(web_demo_env 0, WebLogin ''admin'' ''pw'')]"

lemma funpow_const: "0 < n \<Longrightarrow> ((\<lambda>x :: 'a. c :: 'a) ^^ n) y = c"
  by (cases n) (simp_all add: o_def)

lemma char_of_digits: "char_of (48 :: nat) = CHR ''0''" "char_of (49 :: nat) = CHR ''1''" "char_of (54 :: nat) = CHR ''6''"
  by (simp_all add: char_of_eq_iff)

lemma web_demo_verifies: "verify_password (\<lambda>x. []) web_demo_settings ''pw''"
proof -
  have "hex_to_bytes ''00'' = Some [CHR 0x00]"
    using hex_roundtrip [of "[CHR 0x00]"] by (simp add: bytes_to_hex_def byte_def hex_char_def char_of_digits)
  then show ?thesis
    by (simp add: verify_password_def web_demo_settings_def hash_web_password_def funpow_const
        WEB_PASSWORD_HASH_ITERATIONS_def constant_time_eq_iff bytes_to_hex_def)
qed

lemma web_demo_cookie: "session_from_request web_demo_request = Some ''61''"
proof -
  have "trim ''ccp_web_session=61'' = ''ccp_web_session=61''"
    by (rule trim_graphic) (simp add: graphic_def byte_in_def byte_def)
  then show ?thesis
    by (simp add: session_from_request_def web_demo_request_def visible_ascii_def byte_in_def byte_def
        session_of_part_def SESSION_COOKIE_def)
qed

lemma web_demo_login:
  "ww_sessions (web_run web_demo_calls web_demo_world) = [''61'' \<mapsto> 0]"
  "ww_settings (web_run web_demo_calls web_demo_world) = web_demo_settings"
proof -
  have "trim ''admin'' = ''admin''" by (rule trim_graphic) (simp add: graphic_def byte_in_def byte_def)
  then show "ww_sessions (web_run web_demo_calls web_demo_world) = [''61'' \<mapsto> 0]"
    using web_demo_verifies
    by (simp add: web_demo_calls_def web_demo_world_def login_def auth_required_def password_configured_def
        web_demo_env_def create_web_session_def generate_token_def bytes_to_hex_def hex_char_def byte_def
        web_demo_settings_def char_of_digits Let_def)
qed (simp add: web_demo_calls_def web_demo_world_def)

lemma web_demo_admitted:
  "auth_required web_demo_settings"
  "reached (fst (protected_route (web_demo_env 5) web_demo_settings web_demo_request [''61'' \<mapsto> 0]))"
proof -
  show required: "auth_required web_demo_settings"
    by (simp add: auth_required_def password_configured_def web_demo_settings_def)
  have "session_alive (we_now (web_demo_env 5)) web_demo_settings ''61'' [''61'' \<mapsto> 0]"
    by (simp add: session_alive_def web_demo_env_def web_demo_settings_def time_defs SESSION_TTL_def)
  then show "reached (fst (protected_route (web_demo_env 5) web_demo_settings web_demo_request [''61'' \<mapsto> 0]))"
    using required web_demo_cookie
    by (auto simp: gate_exact network_admits_def web_demo_request_def web_demo_settings_def)
qed

theorem admitted_only_after_login_witness:
  "\<exists>token seen. session_from_request web_demo_request = Some token
     \<and> kept_alive web_demo_world web_demo_calls token seen \<and> within_limits 5 web_demo_settings seen"
proof -
  have start: "ww_sessions web_demo_world = Map.empty" by (simp add: web_demo_world_def)
  show ?thesis
    using admitted_only_after_login [OF start, of web_demo_calls "web_demo_env 5" web_demo_request]
      web_demo_admitted by (auto simp: web_demo_login web_demo_env_def)
qed




end
