(* ===== verification/Spec2Isabelle.thy ===== *)
theory Spec2Isabelle
  imports Csi_Mode Output_Filter Status_Infer Queue_Refinement Dispatch_Properties Daemon_Bridge Control_Link
    Session_Properties Session_Reaper Checkpoint_Monitor Worker_Reports Directives Panel_History Remote_Shell Text_Escapes
    Resume_Races Web_Auth
begin

text \<open>
  A verification development for CC-Panes, a desktop application that runs the command line
  tools of coding agents (Claude, Codex, ...) in terminals, and keeps the terminals alive in a
  daemon while windows come and go. The program is written in Rust; the development follows the
  path of the data.

  \<^bold>\<open>From the process to the window.\<close> A reader thread of the daemon reads the output of a pseudo
  terminal (\<open>cc-panes-core/src/services/terminal_service.rs\<close>). It repairs cut UTF-8 characters and
  removes console artefacts (\<open>Output_Filter\<close>), watches for mode switches and for the markers that
  agents print (\<open>Csi_Mode\<close>, \<open>Osc_Detect\<close>), keeps the last output and a photo of the screen for
  windows that come back (\<open>Replay_Buffer\<close>), and throttles itself when the window lags behind
  (\<open>Flow_Gate\<close>). Hooks of the agents and, as a fallback, the text itself move the session
  through its states (\<open>Session_State\<close>, \<open>Status_Infer\<close>). Output and events leave the daemon through
  the emitter of the web sockets (\<open>Ws_Emitter\<close>); on the desktop one bridge per session feeds the
  web view and falls back to polling (\<open>Daemon_Bridge\<close>), and one control connection per desktop
  carries acknowledgements, resume identities and notifications (\<open>Control_Link\<close>).

  \<^bold>\<open>From the window to the process.\<close> The routes of the daemon create, restore, claim, write and kill
  sessions (\<open>Daemon_Sessions\<close>, over \<open>Launch_Request\<close> and \<open>Path_Identity\<close>). Tasks that the user has
  queued for a session are rows of a database (\<open>Task_Queue\<close>) and are typed into the terminal when
  its agent is idle (\<open>Task_Dispatch\<close>). Agents also write to each other: a leader session gives its
  workers directives (\<open>Directives\<close>) and gets their reports (\<open>Worker_Reports\<close>), through the orchestrator
  of the desktop; both wait in queues while the recipient is busy.

  \<^bold>\<open>Around them.\<close> Every launch has a row in a table (\<open>Launch_History\<close>) that several tasks race to
  complete with the terminal and the identity under which its agent can be resumed
  (\<open>Resume_Binding\<close>, \<open>Resume_Races\<close>): the window that asked for the launch, the creation of the
  session, the daemon's identity events that \<open>Control_Link\<close> hands over, the hooks of the agents, and
  searches of session files. The web interface reaches terminals through a gate of its own
  (\<open>Web_Auth\<close>).

  \<^bold>\<open>Theories and sources.\<close> Definitions carry the names of the Rust items; a struct is a record, an
  enum a datatype, an operation that changes a struct a function that returns it updated, and
  \<open>Result\<close> a sum.

  \<^item> \<open>Prelude\<close>: byte strings, UTF-8, trimming, clocks, saturating arithmetic, and the locale
    \<open>byte_scanner\<close> of the byte machines.
  \<^item> \<open>Csi_Mode\<close>: \<open>csi_mode_detect.rs\<close>. \<open>Osc_Detect\<close>: \<open>osc_state_detect.rs\<close>. Both are state machines over bytes
    and instances of \<open>byte_scanner\<close>: the result does not depend on how the output is cut.
  \<^item> \<open>Output_Filter\<close>, \<open>Replay_Buffer\<close>, \<open>Status_Infer\<close>: parts of \<open>terminal_service.rs\<close>: filters and
    carries, the two buffers, inference of the state and the status block of the reader loop.
  \<^item> \<open>Flow_Gate\<close>: \<open>terminal_output_flow.rs\<close>; the wait is cut at its condition variable into enter, check
    and finish, and an inductive step relation interleaves the threads.
  \<^item> \<open>Session_State\<close>: \<open>session_state_machine.rs\<close>: one entry per session, every operation on it.
  \<^item> \<open>Task_Queue\<close> and \<open>Queue_Properties\<close>: \<open>repository/task_queue_repository.rs\<close> and \<open>models/task_queue.rs\<close>; a
    transaction is a function on the rows of the four tables. \<open>Queue_Refinement\<close>: the abstract queues, and
    that every transaction is exactly a step of them.
  \<^item> \<open>Task_Dispatch\<close> and \<open>Dispatch_Properties\<close>: \<open>task_queue_dispatcher.rs\<close>, \<open>task_queue_service.rs\<close> and the
    scan of \<open>task_queue_worker.rs\<close>; between two steps of the dispatcher other threads may change
    the world.
  \<^item> \<open>Ws_Emitter\<close>: \<open>cc-panes-daemon/src/ws_emitter.rs\<close> and \<open>resume_identity.rs\<close>.
  \<^item> \<open>Daemon_Bridge\<close>: \<open>terminal_daemon_event_bridge.rs\<close>, \<open>terminal_daemon_output_cursor.rs\<close> and
    \<open>terminal_daemon_bridge_reliability.rs\<close>. \<open>Control_Link\<close>: \<open>terminal_daemon_control_link.rs\<close> and the
    daemon's end of that link in \<open>server.rs\<close>.
  \<^item> \<open>Path_Identity\<close>: \<open>path_normalize.rs\<close> and \<open>project_identity.rs\<close>. \<open>Launch_Request\<close>: \<open>launch_request.rs\<close>.
  \<^item> \<open>Daemon_Sessions\<close> and \<open>Session_Properties\<close>: the state, the routes and the session sockets of
    \<open>cc-panes-daemon/src/server.rs\<close> and \<open>identity_routes.rs\<close>, with the kills of a cancelled launch
    (\<open>cancel_launch\<close> of \<open>terminal_service.rs\<close>), and what holds over runs of arbitrary requests.
  \<^item> \<open>Session_Reaper\<close> and \<open>Checkpoint_Monitor\<close>: the two threads beside the routes (\<open>session_reaper.rs\<close>,
    \<open>checkpoint_monitor.rs\<close>); a sweep is cut into its single calls, because it holds no lock from one to
    the next, and requests run in between.
  \<^item> \<open>Remote_Shell\<close>: the command line of a session over SSH, its checks and \<open>WSLENV\<close>
    (\<open>terminal_service.rs\<close>, \<open>wsl_codex.rs\<close>, \<open>path_validator.rs\<close>); the locale \<open>literal_quoting\<close> is the
    contract of a quotation. \<open>Text_Escapes\<close>: escapes of terminal input and of SQL patterns.
  \<^item> \<open>Pipe_Events\<close>, \<open>Worker_Reports\<close>, \<open>Directives\<close>: the two message queues of
    \<open>orchestrator_service.rs\<close>, with their task bindings and pipe events; asynchronous tasks are lists
    of pieces of work that interleave in any order.
  \<^item> \<open>Ai_Panels\<close> and \<open>Panel_History\<close>: the registry of AI panels of the same file, and its tools over the
    registry and the history table (\<open>ai_panel_repo.rs\<close>), cut at their locks in the same way.
  \<^item> \<open>Launch_History\<close>: \<open>repository/history_repo.rs\<close> and \<open>launch_history_service.rs\<close>; a call is a function on
    the rows of the table, with the error of each of its statements as an argument.
  \<^item> \<open>Resume_Binding\<close> and \<open>Resume_Races\<close>: \<open>resume_binding_service.rs\<close>, \<open>launch_backfill_service.rs\<close>,
    \<open>rest_launch_history.rs\<close>, \<open>handle_session_started\<close> of the orchestrator and the binding loop of
    \<open>commands/terminal_commands.rs\<close>, as tasks that are cut at their database calls; what holds when they race.
  \<^item> \<open>Web_Auth\<close>: \<open>cc-panes-web/src/web_auth.rs\<close>, the layers of \<open>routes/mod.rs\<close>, the terminal socket of
    \<open>ws_handler.rs\<close> and the password of \<open>models/settings.rs\<close>.

  \<^bold>\<open>What the lemmas show.\<close> Each theory proves an invariant of its component over arbitrary runs of its
  operations, and the behaviour of the operations on every branch. The theorems with a claim
  number, and the main lemmas beside them, are the contracts the parts rely on: the output that reaches the web view is the byte
  stream of the process without holes or repetitions, or the view is told to reload; the end of a
  session and the reason of a kill are reported once; a queued task is sent at most once, to an
  agent that is idle, and a crash never sends it again; the state of a session follows the
  transition table; a lagging window cannot stop a terminal for more than five seconds; a resume
  identity is not downgraded by the writers that arbitrate, and the desktop binds what the daemon
  retained for it; one project has one name on every host; the lease of a
  session excludes every instance but its owner, except that the cancellation of its launch kills it;
  a restore starts at most one process while its session is kept, and no
  route but the health check works without the token; the reaper of orphaned sessions kills nothing
  that somebody has looked at before its last check, and kills exactly what nobody does; a report of a worker is typed at most once and lost only on the
  record, and a directive reaches the leader's own workers only; an AI panel belongs to one live session; a
  launch gets the identity of its agent whoever writes its row first, and keeps the best one; nobody
  passes the gate of the web interface without a live login where a password is required.

  \<^bold>\<open>Bounds and fuel.\<close> No definition runs on fuel. Recursions that are not structural have a
  termination proof (trimming, replacing, the two skipping loops of the escape filters, eviction).
  Loops of the program that never end (the worker, the bridge, the control link, the reader) are
  folds over the list of their inputs, and the theorems hold for every list. Machine integers that
  can wrap or are compared at their width are words; counters of bytes that cannot reach their
  bound in practice (stream positions of the buffers, clocks) are natural numbers.

  \<^bold>\<open>Parameters.\<close> The clock, random tokens and uuids, answers of the operating system, of the terminal
  backend and of the sockets, the crates \<open>strip-ansi-escapes\<close>, \<open>encoding_rs\<close>, \<open>dunce\<close> and \<open>dirs\<close>, and
  lower-casing of non-ASCII text, the digest SHA-256 and the search of foreign session files are arguments.
  A hypothesis about one of them is a named definition (such as \<open>shortens_verbatim_only\<close>) that holds
  for a concrete function in the witness.

  \<^bold>\<open>Not modelled.\<close> SQLite itself (a transaction is atomic and the schema's constraints hold) and,
  outside \<open>Launch_History\<close>, its I/O errors; the deletion of image files; locks, except where a theory interleaves threads: a
  handler or a method is one step and reads the clock once, so two routes of the daemon that both
  hold the visibility lock for reading do not overlap in the model; the JSON text of messages
  (decoding is a partial function on an abstract JSON value); process creation, environment
  variables and command lines of the agents; the Tauri shell, the web front end (TypeScript), the
  other MCP tools of the orchestrator, the stores of workspaces, providers, todos, specs and usage
  statistics, the media service, and the readers of foreign session logs. They are either I/O
  around a decision or CRUD without a contract to prove; the manifest lists them.
\<close>

end
